(* ===== verification/PT_Prelude.thy ===== *)
theory PT_Prelude
  imports Main "HOL-Library.Word"
begin

text \<open>
  Shared ground of the development: the result type that stands for Rust's
  \<^verbatim>\<open>Result\<close>, the collections of rewrite rules the component theories extend, and the
  generic lemmas on arithmetic, lists, maps and words that several components use
  (the counterparts of \<^verbatim>\<open>page-table/extra.rs\<close> and of the indexing calculus of
  \<^verbatim>\<open>page-table/impl_u/indexing.rs\<close>).
\<close>

unbundle bit_operations_syntax

named_theorems pt_defs \<open>unfolding equations of the small specification functions\<close>
named_theorems pt_mask \<open>bit-level description of the entry masks\<close>

type_synonym u64 = "64 word"
type_synonym usize = "64 word"

section \<open>Results\<close>

datatype ('a, 'e) rust_result = is_Ok: Ok (get_Ok: 'a) | is_Err: Err (get_Err: 'e)

definition result_map_ok :: "('a, 'b) rust_result \<Rightarrow> ('a \<Rightarrow> 'c) \<Rightarrow> ('c, 'b) rust_result" where
  "result_map_ok r f = (case r of Ok a \<Rightarrow> Ok (f a) | Err b \<Rightarrow> Err b)"

definition result_map :: "('a, 'a) rust_result \<Rightarrow> ('a \<Rightarrow> 'b) \<Rightarrow> ('b, 'b) rust_result" where
  "result_map r f = (case r of Ok a \<Rightarrow> Ok (f a) | Err a \<Rightarrow> Err (f a))"

lemma result_map_ok_simps [simp]:
  "result_map_ok (Ok a) f = Ok (f a)" "result_map_ok (Err e) f = Err e"
  by (simp_all add: result_map_ok_def)

lemma result_map_simps [simp]:
  "result_map (Ok a) g = Ok (g a)" "result_map (Err a) g = Err (g a)"
  by (simp_all add: result_map_def)

section \<open>Checked machine arithmetic\<close>

text \<open>
  Rust's \<^verbatim>\<open>usize\<close> arithmetic: an overflow, an underflow or a division by zero is a
  panic, which is the value \<open>None\<close>. A theorem that an operation returns
  \<open>Some\<close> therefore also says that none of its arithmetic overflows.
\<close>

definition checked_add :: "usize \<Rightarrow> usize \<Rightarrow> usize option" where
  "checked_add a b = (if unat a + unat b < 2 ^ 64 then Some (a + b) else None)"

definition checked_sub :: "usize \<Rightarrow> usize \<Rightarrow> usize option" where
  "checked_sub a b = (if unat b \<le> unat a then Some (a - b) else None)"

definition checked_mul :: "usize \<Rightarrow> usize \<Rightarrow> usize option" where
  "checked_mul a b = (if unat a * unat b < 2 ^ 64 then Some (a * b) else None)"

definition checked_div :: "usize \<Rightarrow> usize \<Rightarrow> usize option" where
  "checked_div a b = (if b = 0 then None else Some (a div b))"

lemma unat_add_no_overflow: "unat a + unat b < 2 ^ 64 \<Longrightarrow> unat (a + b) = unat a + unat (b::usize)"
  by (simp add: unat_word_ariths)

lemma unat_mul_no_overflow: "unat a * unat b < 2 ^ 64 \<Longrightarrow> unat (a * b) = unat a * unat (b::usize)"
  by (simp add: unat_word_ariths)

lemma checked_addI:
  assumes "unat a + unat b < 2 ^ 64"
  shows "\<exists>c. checked_add a b = Some c \<and> unat c = unat a + unat b"
  using assms by (simp add: checked_add_def unat_add_no_overflow)

lemma checked_mulI:
  assumes "unat a * unat b < 2 ^ 64"
  shows "\<exists>c. checked_mul a b = Some c \<and> unat c = unat a * unat b"
  using assms by (simp add: checked_mul_def unat_mul_no_overflow)

lemma checked_subI:
  assumes "unat b \<le> unat a"
  shows "\<exists>c. checked_sub a b = Some c \<and> unat c = unat a - unat b"
  using assms by (simp add: checked_sub_def unat_sub_if' word_le_nat_alt)

lemma checked_divI:
  assumes "unat b \<noteq> 0"
  shows "\<exists>c. checked_div a b = Some c \<and> unat c = unat a div unat b"
  using assms by (auto simp: checked_div_def unat_div)

section \<open>Alignment and indexing arithmetic\<close>

lemma mod_mult_zero_implies_mod_zero:
  fixes a b c :: nat
  assumes "a mod (b * c) = 0"
  shows "a mod b = 0"
  using assms by (metis dvd_mult_left mod_0_imp_dvd dvd_imp_mod_0)

lemma div_eq_iff_between:
  fixes a k n :: nat
  assumes "0 < k"
  shows "a div k = n \<longleftrightarrow> n * k \<le> a \<and> a < (n + 1) * k"
proof
  assume h: "a div k = n"
  have "a = n * k + a mod k" using h by (metis div_mult_mod_eq)
  moreover have "a mod k < k" using assms by simp
  ultimately show "n * k \<le> a \<and> a < (n + 1) * k" by (simp add: algebra_simps)
next
  assume "n * k \<le> a \<and> a < (n + 1) * k"
  then show "a div k = n"
    by (metis Suc_eq_plus1 add.commute add.right_neutral div_nat_eqI mult.commute)
qed

lemma index_of_offset:
  fixes b i k va :: nat
  assumes "0 < k" and "b \<le> va"
  shows "(va - b) div k = i \<longleftrightarrow> b + i * k \<le> va \<and> va < b + (i + 1) * k"
proof -
  have "(va - b) div k = i \<longleftrightarrow> i * k \<le> va - b \<and> va - b < (i + 1) * k"
    using assms by (intro div_eq_iff_between)
  also have "\<dots> \<longleftrightarrow> b + i * k \<le> va \<and> va < b + (i + 1) * k"
    using assms(2) by linarith
  finally show ?thesis .
qed

lemma mult_Suc_le_mono:
  fixes i j k :: nat
  assumes "i < j"
  shows "(i + 1) * k \<le> j * k"
  using assms by (intro mult_le_mono1) simp

lemma aligned_offset_zero:
  fixes b k va i :: nat
  assumes "b mod k = 0" and "va mod k = 0" and "b + i * k \<le> va" and "va < b + (i + 1) * k"
  shows "va = b + i * k"
proof -
  obtain p where p: "b = k * p" using assms(1) by (metis dvd_def mod_0_imp_dvd)
  obtain q where q: "va = k * q" using assms(2) by (metis dvd_def mod_0_imp_dvd)
  have "0 < k" using assms(3,4) by (cases k) auto
  have "k * (p + i) \<le> k * q" "k * q < k * (p + i + 1)"
    using assms(3,4) unfolding p q by (simp_all add: algebra_simps)
  then have "p + i \<le> q" "q < p + i + 1"
    using \<open>0 < k\<close> by (simp_all only: mult_le_cancel1 mult_less_cancel1)
  then have "q = p + i" by simp
  then show ?thesis unfolding p q by (simp add: algebra_simps)
qed

section \<open>Lists and maps\<close>

lemma list_update_nth_other: "i \<noteq> j \<Longrightarrow> xs[i := x] ! j = xs ! j"
  by simp

lemma set_list_update_cases:
  assumes "y \<in> set (xs[i := x])"
  shows "y = x \<or> y \<in> set xs"
  using assms set_update_subset_insert by fastforce

section \<open>Bits of 64-bit words\<close>

lemma push_bit_one_and_iff:
  fixes v :: u64
  assumes "k < 64"
  shows "v AND push_bit k 1 = push_bit k 1 \<longleftrightarrow> bit v k"
proof
  assume h: "v AND push_bit k 1 = push_bit k 1"
  have "bit (push_bit k (1::u64)) k" using assms by (simp add: bit_simps)
  then show "bit v k" by (metis h bit_and_iff)
next
  assume "bit v k"
  then show "v AND push_bit k 1 = push_bit k 1"
    by (intro bit_eqI) (auto simp: bit_simps)
qed

lemma push_bit_one_and_zero_iff:
  fixes v :: u64
  assumes "k < 64"
  shows "v AND push_bit k 1 = 0 \<longleftrightarrow> \<not> bit v k"
proof
  assume h: "v AND push_bit k 1 = 0"
  show "\<not> bit v k"
  proof
    assume "bit v k"
    then have "bit (v AND push_bit k 1) k" using assms by (simp add: bit_simps)
    with h show False by simp
  qed
next
  assume "\<not> bit v k"
  then show "v AND push_bit k 1 = 0"
    by (intro bit_eqI) (auto simp: bit_simps)
qed

lemma and_eq_self_iff:
  fixes v m :: u64
  shows "v AND m = v \<longleftrightarrow> (\<forall>n. bit v n \<longrightarrow> bit m n)"
proof
  assume "v AND m = v"
  then show "\<forall>n. bit v n \<longrightarrow> bit m n" by (metis bit_and_iff)
next
  assume "\<forall>n. bit v n \<longrightarrow> bit m n"
  then show "v AND m = v" by (intro bit_eqI) (auto simp: bit_and_iff)
qed

lemma and_eq_zero_iff:
  fixes v m :: u64
  shows "v AND m = 0 \<longleftrightarrow> (\<forall>n. bit m n \<longrightarrow> \<not> bit v n)"
proof
  assume "v AND m = 0"
  then show "\<forall>n. bit m n \<longrightarrow> \<not> bit v n" by (metis bit_and_iff bit_0_eq bot_apply bot_bool_def)
next
  assume "\<forall>n. bit m n \<longrightarrow> \<not> bit v n"
  then show "v AND m = 0" by (intro bit_eqI) (auto simp: bit_and_iff)
qed

lemma bit_u64_less: "bit (v::u64) n \<Longrightarrow> n < 64"
  using bit_imp_le_length by fastforce

end
