(* ===== verification/PT_Definitions.thy ===== *)
theory PT_Definitions
  imports PT_Prelude "HOL-Library.Monad_Syntax"
begin

text \<open>
  The definitions every other component uses: \<^verbatim>\<open>page-table/definitions_t.rs\<close> and the
  executable architecture description of \<^verbatim>\<open>page-table/definitions_u.rs\<close>. Specification
  level quantities are \<open>nat\<close>, as in the source; quantities of the executable code are
  64-bit words with checked arithmetic.

  \<^verbatim>\<open>MAX_PHYADDR_WIDTH\<close> is an unimplemented external constant of the source, known only
  to lie between 32 and 52. Here it is the argument \<open>mw\<close> of every definition that
  depends on it, and \<open>max_phyaddr_width_facts mw\<close> is the source's axiom.
\<close>

section \<open>Constants\<close>

definition bitmask_inc :: "nat \<Rightarrow> nat \<Rightarrow> u64" where
  "bitmask_inc low high = push_bit low (NOT (push_bit ((high + 1) - low) (NOT 0)))"

definition bit_mask :: "nat \<Rightarrow> u64" where
  "bit_mask v = push_bit v 1"

definition X86_NUM_LAYERS :: nat where "X86_NUM_LAYERS = 4"

definition X86_NUM_ENTRIES :: nat where "X86_NUM_ENTRIES = 512"

definition max_phyaddr_width_facts :: "nat \<Rightarrow> bool" where
  "max_phyaddr_width_facts mw \<longleftrightarrow> 32 \<le> mw \<and> mw \<le> 52"

definition MAX_PHYADDR :: "nat \<Rightarrow> u64" where
  "MAX_PHYADDR mw = push_bit mw 1 - 1"

definition WORD_SIZE :: nat where "WORD_SIZE = 8"

definition PAGE_SIZE :: nat where "PAGE_SIZE = 4096"

definition X86_MAX_ENTRY_SIZE :: nat where "X86_MAX_ENTRY_SIZE = 512 * 512 * 512 * 4096"

definition MAX_BASE :: nat where "MAX_BASE = X86_MAX_ENTRY_SIZE * X86_NUM_ENTRIES"

definition L3_ENTRY_SIZE :: nat where "L3_ENTRY_SIZE = PAGE_SIZE"

definition L2_ENTRY_SIZE :: nat where "L2_ENTRY_SIZE = 512 * L3_ENTRY_SIZE"

definition L1_ENTRY_SIZE :: nat where "L1_ENTRY_SIZE = 512 * L2_ENTRY_SIZE"

definition L0_ENTRY_SIZE :: nat where "L0_ENTRY_SIZE = 512 * L1_ENTRY_SIZE"

lemma const_values [simp]:
  "X86_NUM_LAYERS = 4" "X86_NUM_ENTRIES = 512" "WORD_SIZE = 8" "PAGE_SIZE = 4096"
  "X86_MAX_ENTRY_SIZE = 549755813888" "MAX_BASE = 281474976710656"
  "L3_ENTRY_SIZE = 4096" "L2_ENTRY_SIZE = 2097152" "L1_ENTRY_SIZE = 1073741824"
  "L0_ENTRY_SIZE = 549755813888"
  by (simp_all add: X86_NUM_LAYERS_def X86_NUM_ENTRIES_def WORD_SIZE_def PAGE_SIZE_def
      X86_MAX_ENTRY_SIZE_def MAX_BASE_def L3_ENTRY_SIZE_def L2_ENTRY_SIZE_def L1_ENTRY_SIZE_def
      L0_ENTRY_SIZE_def)

section \<open>Indexing\<close>

definition index_from_offset :: "nat \<Rightarrow> nat \<Rightarrow> nat" where
  "index_from_offset offset entry_size = offset div entry_size"

definition index_from_base_and_addr :: "nat \<Rightarrow> nat \<Rightarrow> nat \<Rightarrow> nat" where
  "index_from_base_and_addr base addr entry_size = index_from_offset (addr - base) entry_size"

definition entry_base_from_index :: "nat \<Rightarrow> nat \<Rightarrow> nat \<Rightarrow> nat" where
  "entry_base_from_index base idx entry_size = base + idx * entry_size"

definition next_entry_base_from_index :: "nat \<Rightarrow> nat \<Rightarrow> nat \<Rightarrow> nat" where
  "next_entry_base_from_index base idx entry_size = base + (idx + 1) * entry_size"

definition aligned :: "nat \<Rightarrow> nat \<Rightarrow> bool" where
  "aligned addr sz \<longleftrightarrow> addr mod sz = 0"

definition between :: "nat \<Rightarrow> nat \<Rightarrow> nat \<Rightarrow> bool" where
  "between x a b \<longleftrightarrow> a \<le> x \<and> x < b"

primrec new_seq :: "nat \<Rightarrow> 'a \<Rightarrow> 'a list" where
  "new_seq 0 e = []"
| "new_seq (Suc i) e = new_seq i e @ [e]"

declare index_from_offset_def [pt_defs] index_from_base_and_addr_def [pt_defs]
  entry_base_from_index_def [pt_defs] next_entry_base_from_index_def [pt_defs]
  aligned_def [pt_defs] between_def [pt_defs]

lemma new_seq_replicate: "new_seq i e = replicate i e"
  by (induction i) (simp_all add: replicate_append_same)

section \<open>Read and write operations\<close>

datatype LoadResult = LoadUndefined | LoadValue nat

datatype StoreResult = StoreUndefined | StoreOk

datatype RWOp = Store nat StoreResult | Load bool LoadResult

datatype HWLoadResult = HWLoadPagefault | HWLoadValue nat

datatype HWStoreResult = HWStorePagefault | HWStoreOk

datatype HWRWOp = HWStore nat HWStoreResult | HWLoad bool HWLoadResult

section \<open>Memory regions, flags and page table entries\<close>

record MemRegion =
  mr_base :: nat
  mr_size :: nat

definition region_contains :: "MemRegion \<Rightarrow> nat \<Rightarrow> bool" where
  "region_contains r addr \<longleftrightarrow> between addr (mr_base r) (mr_base r + mr_size r)"

definition above_zero :: "nat \<Rightarrow> bool" where
  "above_zero sz \<longleftrightarrow> sz > 0"

definition overlap :: "MemRegion \<Rightarrow> MemRegion \<Rightarrow> bool" where
  "overlap region1 region2 =
     (if mr_base region1 \<le> mr_base region2
      then mr_base region1 = mr_base region2
           \<or> mr_base region2 < mr_base region1 + mr_size region1
      else mr_base region1 < mr_base region2 + mr_size region2)"

record MemRegionExec =
  mre_base :: usize
  mre_size :: usize

definition region_view_exec :: "MemRegionExec \<Rightarrow> MemRegion" where
  "region_view_exec r = \<lparr>mr_base = unat (mre_base r), mr_size = unat (mre_size r)\<rparr>"

record Flags =
  is_writable :: bool
  is_supervisor :: bool
  disable_execute :: bool

definition permissive_flags :: Flags where
  "permissive_flags = \<lparr>is_writable = True, is_supervisor = False, disable_execute = False\<rparr>"

record PageTableEntry =
  pte_frame :: MemRegion
  pte_flags :: Flags

record PageTableEntryExec =
  ptee_frame :: MemRegionExec
  ptee_flags :: Flags

definition pte_view :: "PageTableEntryExec \<Rightarrow> PageTableEntry" where
  "pte_view p = \<lparr>pte_frame = region_view_exec (ptee_frame p), pte_flags = ptee_flags p\<rparr>"

abbreviation frame_size :: "PageTableEntry \<Rightarrow> nat" where
  "frame_size p \<equiv> mr_size (pte_frame p)"

abbreviation frame_base :: "PageTableEntry \<Rightarrow> nat" where
  "frame_base p \<equiv> mr_base (pte_frame p)"

abbreviation vmem_region :: "nat \<Rightarrow> PageTableEntry \<Rightarrow> MemRegion" where
  "vmem_region base p \<equiv> \<lparr>mr_base = base, mr_size = frame_size p\<rparr>"

text \<open>The source's own sanity check of \<open>overlap\<close>, and its meaning on nonempty regions.\<close>

lemma overlap_sanity_check:
  "overlap \<lparr>mr_base = 0, mr_size = 4096\<rparr> \<lparr>mr_base = 0, mr_size = 4096\<rparr>"
  "overlap \<lparr>mr_base = 0, mr_size = 8192\<rparr> \<lparr>mr_base = 0, mr_size = 4096\<rparr>"
  "overlap \<lparr>mr_base = 0, mr_size = 4096\<rparr> \<lparr>mr_base = 0, mr_size = 8192\<rparr>"
  "overlap \<lparr>mr_base = 0, mr_size = 8192\<rparr> \<lparr>mr_base = 4096, mr_size = 4096\<rparr>"
  "\<not> overlap \<lparr>mr_base = 4096, mr_size = 8192\<rparr> \<lparr>mr_base = 0, mr_size = 4096\<rparr>"
  "\<not> overlap \<lparr>mr_base = 0, mr_size = 4096\<rparr> \<lparr>mr_base = 8192, mr_size = 16384\<rparr>"
  by (simp_all add: overlap_def)

lemma overlap_sym: "overlap r1 r2 = overlap r2 r1"
  by (auto simp: overlap_def)

lemma overlap_iff_common_address:
  assumes "0 < mr_size r1" and "0 < mr_size r2"
  shows "overlap r1 r2 \<longleftrightarrow> (\<exists>a. region_contains r1 a \<and> region_contains r2 a)"
proof
  assume "overlap r1 r2"
  then show "\<exists>a. region_contains r1 a \<and> region_contains r2 a"
    using assms
    by (intro exI [of _ "max (mr_base r1) (mr_base r2)"])
      (auto simp: overlap_def region_contains_def between_def split: if_splits)
next
  assume "\<exists>a. region_contains r1 a \<and> region_contains r2 a"
  then show "overlap r1 r2"
    by (auto simp: overlap_def region_contains_def between_def)
qed

lemma not_overlap_iff:
  "\<not> overlap r1 r2 \<longleftrightarrow>
     mr_base r1 \<noteq> mr_base r2 \<and>
     (mr_base r1 + mr_size r1 \<le> mr_base r2 \<or> mr_base r2 + mr_size r2 \<le> mr_base r1)"
  by (auto simp: overlap_def)

end
