(* ===== verification/PT_Arch.thy ===== *)
theory PT_Arch
  imports PT_Definitions
begin

text \<open>
  The description of a paging architecture: the layers with their entry sizes and numbers
  of entries (\<^verbatim>\<open>Arch\<close>, \<^verbatim>\<open>ArchExec\<close> of \<^verbatim>\<open>definitions_t.rs\<close> and
  \<^verbatim>\<open>definitions_u.rs\<close>), the four x86 layers, and the proof that the executable
  index computations neither overflow nor differ from the specification. A read of a layer
  that does not exist is a panic of \<^verbatim>\<open>Vec\<close> indexing, the value \<open>None\<close>.
\<close>

section \<open>Specification\<close>

record ArchLayer =
  al_entry_size :: nat
  al_num_entries :: nat

record Arch =
  layers :: "ArchLayer list"

definition entry_size :: "Arch \<Rightarrow> nat \<Rightarrow> nat" where
  "entry_size a layer = al_entry_size (layers a ! layer)"

definition num_entries :: "Arch \<Rightarrow> nat \<Rightarrow> nat" where
  "num_entries a layer = al_num_entries (layers a ! layer)"

definition arch_entry_base :: "Arch \<Rightarrow> nat \<Rightarrow> nat \<Rightarrow> nat \<Rightarrow> nat" where
  "arch_entry_base a layer base idx = entry_base_from_index base idx (entry_size a layer)"

definition arch_next_entry_base :: "Arch \<Rightarrow> nat \<Rightarrow> nat \<Rightarrow> nat \<Rightarrow> nat" where
  "arch_next_entry_base a layer base idx = next_entry_base_from_index base idx (entry_size a layer)"

definition arch_index_for_vaddr :: "Arch \<Rightarrow> nat \<Rightarrow> nat \<Rightarrow> nat \<Rightarrow> nat" where
  "arch_index_for_vaddr a layer base vaddr = index_from_base_and_addr base vaddr (entry_size a layer)"

definition arch_upper_vaddr :: "Arch \<Rightarrow> nat \<Rightarrow> nat \<Rightarrow> nat" where
  "arch_upper_vaddr a layer base = arch_entry_base a layer base (num_entries a layer)"

definition entry_size_is_next_layer_size :: "Arch \<Rightarrow> nat \<Rightarrow> bool" where
  "entry_size_is_next_layer_size a i \<longleftrightarrow>
     (i + 1 < length (layers a) \<longrightarrow>
        entry_size a i = entry_size a (i + 1) * num_entries a (i + 1))"

definition arch_inv :: "Arch \<Rightarrow> bool" where
  "arch_inv a \<longleftrightarrow>
     length (layers a) \<le> X86_NUM_LAYERS \<and>
     (\<forall>i<length (layers a).
        0 < entry_size a i \<and> entry_size a i \<le> X86_MAX_ENTRY_SIZE \<and>
        0 < num_entries a i \<and> num_entries a i \<le> X86_NUM_ENTRIES \<and>
        entry_size_is_next_layer_size a i)"

definition contains_entry_size_at_index_atleast :: "Arch \<Rightarrow> nat \<Rightarrow> nat \<Rightarrow> bool" where
  "contains_entry_size_at_index_atleast a es min_idx \<longleftrightarrow>
     (\<exists>i<length (layers a). min_idx \<le> i \<and> entry_size a i = es)"

definition contains_entry_size :: "Arch \<Rightarrow> nat \<Rightarrow> bool" where
  "contains_entry_size a es \<longleftrightarrow> contains_entry_size_at_index_atleast a es 0"

definition x86_arch_spec :: Arch where
  "x86_arch_spec = \<lparr>layers =
     [\<lparr>al_entry_size = L0_ENTRY_SIZE, al_num_entries = 512\<rparr>,
      \<lparr>al_entry_size = L1_ENTRY_SIZE, al_num_entries = 512\<rparr>,
      \<lparr>al_entry_size = L2_ENTRY_SIZE, al_num_entries = 512\<rparr>,
      \<lparr>al_entry_size = L3_ENTRY_SIZE, al_num_entries = 512\<rparr>]\<rparr>"

declare arch_entry_base_def [pt_defs] arch_next_entry_base_def [pt_defs]
  arch_index_for_vaddr_def [pt_defs] arch_upper_vaddr_def [pt_defs]

section \<open>Facts about every architecture\<close>

lemma arch_invD:
  assumes "arch_inv a" and "i < length (layers a)"
  shows entry_size_pos: "0 < entry_size a i"
    and entry_size_le: "entry_size a i \<le> X86_MAX_ENTRY_SIZE"
    and num_entries_pos: "0 < num_entries a i"
    and num_entries_le: "num_entries a i \<le> X86_NUM_ENTRIES"
  using assms unfolding arch_inv_def by blast+

lemma arch_inv_next:
  assumes "arch_inv a" and "i + 1 < length (layers a)"
  shows "entry_size a i = entry_size a (i + 1) * num_entries a (i + 1)"
  using assms unfolding arch_inv_def entry_size_is_next_layer_size_def
  by (metis add_lessD1)

lemma entry_sizes_aligned:
  assumes "arch_inv a" and "i \<le> j" and "j < length (layers a)"
  shows "aligned (entry_size a i) (entry_size a j)"
  using assms(2,3)
proof (induction j rule: dec_induct)
  case base
  then show ?case by (simp add: aligned_def)
next
  case (step k)
  then have "entry_size a k = entry_size a (k + 1) * num_entries a (k + 1)"
    using assms(1) by (intro arch_inv_next) auto
  moreover have "aligned (entry_size a i) (entry_size a k)"
    using step by simp
  ultimately show ?case
    unfolding aligned_def
    by (metis Suc_eq_plus1 mod_mult_zero_implies_mod_zero)
qed

lemma entry_sizes_increase:
  assumes "arch_inv a" and "i \<le> j" and "j < length (layers a)"
  shows "entry_size a j \<le> entry_size a i"
proof -
  have "entry_size a j dvd entry_size a i"
    using entry_sizes_aligned [OF assms] by (simp add: aligned_def mod_eq_0_iff_dvd)
  moreover have "0 < entry_size a i"
    using assms by (intro entry_size_pos) auto
  ultimately show ?thesis by (simp add: dvd_imp_le)
qed

lemma contains_entry_size_pos:
  assumes "arch_inv a" and "contains_entry_size a es"
  shows "0 < es"
  using assms entry_size_pos
  unfolding contains_entry_size_def contains_entry_size_at_index_atleast_def by blast

section \<open>The x86 architecture\<close>

lemma x86_layers [simp]:
  "length (layers x86_arch_spec) = 4"
  "entry_size x86_arch_spec 0 = 549755813888"
  "entry_size x86_arch_spec (Suc 0) = 1073741824"
  "entry_size x86_arch_spec 1 = 1073741824"
  "entry_size x86_arch_spec 2 = 2097152"
  "entry_size x86_arch_spec 3 = 4096"
  "num_entries x86_arch_spec 0 = 512"
  "num_entries x86_arch_spec (Suc 0) = 512"
  "num_entries x86_arch_spec 1 = 512"
  "num_entries x86_arch_spec 2 = 512"
  "num_entries x86_arch_spec 3 = 512"
  by (simp_all add: x86_arch_spec_def entry_size_def num_entries_def)

lemma x86_layers_Suc [simp]:
  "entry_size x86_arch_spec (Suc (Suc 0)) = 2097152"
  "entry_size x86_arch_spec (Suc (Suc (Suc 0))) = 4096"
  by (simp_all add: x86_arch_spec_def entry_size_def)

lemma less_4_cases:
  assumes "(i::nat) < 4"
  obtains "i = 0" | "i = 1" | "i = 2" | "i = 3"
  using assms by linarith

lemma x86_num_entries [simp]: "i < 4 \<Longrightarrow> num_entries x86_arch_spec i = 512"
  by (erule less_4_cases) simp_all

lemma x86_arch_inv: "arch_inv x86_arch_spec"
proof -
  have "0 < entry_size x86_arch_spec i \<and> entry_size x86_arch_spec i \<le> X86_MAX_ENTRY_SIZE \<and>
        0 < num_entries x86_arch_spec i \<and> num_entries x86_arch_spec i \<le> X86_NUM_ENTRIES \<and>
        entry_size_is_next_layer_size x86_arch_spec i" if "i < 4" for i
    using that
    by (cases rule: less_4_cases) (simp_all add: entry_size_is_next_layer_size_def)
  then show ?thesis by (simp add: arch_inv_def)
qed

lemma x86_arch_spec_upper_bound:
  "arch_upper_vaddr x86_arch_spec 0 0 = 512 * 512 * 1024 * 1024 * 1024"
  by (simp add: pt_defs)

section \<open>The executable description\<close>

record ArchLayerExec =
  ale_entry_size :: usize
  ale_num_entries :: usize

record ArchExec =
  layers_exec :: "ArchLayerExec list"

definition arch_view :: "ArchExec \<Rightarrow> Arch" where
  "arch_view a = \<lparr>layers = map (\<lambda>l. \<lparr>al_entry_size = unat (ale_entry_size l),
                                    al_num_entries = unat (ale_num_entries l)\<rparr>) (layers_exec a)\<rparr>"

definition x86_arch_exec :: ArchExec where
  "x86_arch_exec = \<lparr>layers_exec =
     [\<lparr>ale_entry_size = of_nat L0_ENTRY_SIZE, ale_num_entries = 512\<rparr>,
      \<lparr>ale_entry_size = of_nat L1_ENTRY_SIZE, ale_num_entries = 512\<rparr>,
      \<lparr>ale_entry_size = of_nat L2_ENTRY_SIZE, ale_num_entries = 512\<rparr>,
      \<lparr>ale_entry_size = of_nat L3_ENTRY_SIZE, ale_num_entries = 512\<rparr>]\<rparr>"

definition entry_size_exec :: "ArchExec \<Rightarrow> nat \<Rightarrow> usize option" where
  "entry_size_exec a layer =
     (if layer < length (layers_exec a) then Some (ale_entry_size (layers_exec a ! layer)) else None)"

definition num_entries_exec :: "ArchExec \<Rightarrow> nat \<Rightarrow> usize option" where
  "num_entries_exec a layer =
     (if layer < length (layers_exec a) then Some (ale_num_entries (layers_exec a ! layer)) else None)"

definition index_for_vaddr_exec :: "ArchExec \<Rightarrow> nat \<Rightarrow> usize \<Rightarrow> usize \<Rightarrow> usize option" where
  "index_for_vaddr_exec a layer base vaddr = do {
     es \<leftarrow> entry_size_exec a layer;
     offset \<leftarrow> checked_sub vaddr base;
     checked_div offset es
   }"

definition entry_base_exec :: "ArchExec \<Rightarrow> nat \<Rightarrow> usize \<Rightarrow> usize \<Rightarrow> usize option" where
  "entry_base_exec a layer base idx = do {
     es \<leftarrow> entry_size_exec a layer;
     offset \<leftarrow> checked_mul idx es;
     checked_add base offset
   }"

definition next_entry_base_exec :: "ArchExec \<Rightarrow> nat \<Rightarrow> usize \<Rightarrow> usize \<Rightarrow> usize option" where
  "next_entry_base_exec a layer base idx = do {
     idx1 \<leftarrow> checked_add idx 1;
     es \<leftarrow> entry_size_exec a layer;
     offset \<leftarrow> checked_mul idx1 es;
     checked_add base offset
   }"

definition aligned_exec :: "usize \<Rightarrow> usize \<Rightarrow> bool option" where
  "aligned_exec addr sz = (if sz = 0 then None else Some (addr mod sz = 0))"

lemma x86_arch_exec_view: "arch_view x86_arch_exec = x86_arch_spec"
  by (simp add: arch_view_def x86_arch_exec_def x86_arch_spec_def)

lemma aligned_exec_correct: "unat sz > 0 \<Longrightarrow> aligned_exec addr sz = Some (aligned (unat addr) (unat sz))"
  by (auto simp: aligned_exec_def aligned_def unat_mod[symmetric] unat_eq_zero)

lemma length_arch_view [simp]: "length (layers (arch_view a)) = length (layers_exec a)"
  by (simp add: arch_view_def)

lemma entry_size_exec_view:
  assumes "layer < length (layers_exec a)"
  shows "\<exists>es. entry_size_exec a layer = Some es \<and> unat es = entry_size (arch_view a) layer"
  using assms by (simp add: entry_size_exec_def entry_size_def arch_view_def)

lemma num_entries_exec_view:
  assumes "layer < length (layers_exec a)"
  shows "\<exists>n. num_entries_exec a layer = Some n \<and> unat n = num_entries (arch_view a) layer"
  using assms by (simp add: num_entries_exec_def num_entries_def arch_view_def)

lemma index_for_vaddr_exec_view:
  assumes "arch_inv (arch_view a)" and "layer < length (layers_exec a)" and "base \<le> vaddr"
  shows "\<exists>i. index_for_vaddr_exec a layer base vaddr = Some i
           \<and> unat i = arch_index_for_vaddr (arch_view a) layer (unat base) (unat vaddr)"
proof -
  obtain es where es: "entry_size_exec a layer = Some es" "unat es = entry_size (arch_view a) layer"
    using entry_size_exec_view assms(2) by blast
  obtain off where off: "checked_sub vaddr base = Some off" "unat off = unat vaddr - unat base"
    using checked_subI assms(3) by (metis word_le_nat_alt)
  have "unat es \<noteq> 0"
    using es entry_size_pos [OF assms(1)] assms(2) by simp
  then obtain i where "checked_div off es = Some i" "unat i = unat off div unat es"
    using checked_divI by blast
  then show ?thesis using es off by (simp add: index_for_vaddr_exec_def pt_defs)
qed

lemma entry_base_exec_view:
  assumes "arch_inv (arch_view a)" and "layer < length (layers_exec a)"
    and "unat base \<le> MAX_BASE" and "unat idx \<le> X86_NUM_ENTRIES"
  shows "\<exists>b. entry_base_exec a layer base idx = Some b
           \<and> unat b = arch_entry_base (arch_view a) layer (unat base) (unat idx)"
proof -
  obtain es where es: "entry_size_exec a layer = Some es" "unat es = entry_size (arch_view a) layer"
    using entry_size_exec_view assms(2) by blast
  have "unat es \<le> X86_MAX_ENTRY_SIZE"
    using es entry_size_le [OF assms(1)] assms(2) by simp
  then have bound: "unat idx * unat es \<le> X86_NUM_ENTRIES * X86_MAX_ENTRY_SIZE"
    using assms(4) by (intro mult_le_mono)
  then obtain off where off: "checked_mul idx es = Some off" "unat off = unat idx * unat es"
    using checked_mulI [of idx es] by auto
  obtain b where "checked_add base off = Some b" "unat b = unat base + unat off"
    using checked_addI [of base off] bound off assms(3) by auto
  then show ?thesis using es off by (simp add: entry_base_exec_def pt_defs)
qed

lemma next_entry_base_exec_view:
  assumes "arch_inv (arch_view a)" and "layer < length (layers_exec a)"
    and "unat base \<le> MAX_BASE" and "unat idx \<le> X86_NUM_ENTRIES"
  shows "\<exists>b. next_entry_base_exec a layer base idx = Some b
           \<and> unat b = arch_next_entry_base (arch_view a) layer (unat base) (unat idx)"
proof -
  obtain es where es: "entry_size_exec a layer = Some es" "unat es = entry_size (arch_view a) layer"
    using entry_size_exec_view assms(2) by blast
  obtain idx1 where idx1: "checked_add idx 1 = Some idx1" "unat idx1 = unat idx + 1"
    using checked_addI [of idx 1] assms(4) by auto
  have "unat es \<le> X86_MAX_ENTRY_SIZE"
    using es entry_size_le [OF assms(1)] assms(2) by simp
  then have bound: "unat idx1 * unat es \<le> (X86_NUM_ENTRIES + 1) * X86_MAX_ENTRY_SIZE"
    using assms(4) idx1 by (intro mult_le_mono) simp_all
  then obtain off where off: "checked_mul idx1 es = Some off" "unat off = unat idx1 * unat es"
    using checked_mulI [of idx1 es] by auto
  obtain b where "checked_add base off = Some b" "unat b = unat base + unat off"
    using checked_addI [of base off] bound off assms(3) by auto
  then show ?thesis using es off idx1 by (simp add: next_entry_base_exec_def pt_defs)
qed

section \<open>Candidate mappings\<close>

definition candidate_mapping_in_bounds :: "nat \<Rightarrow> PageTableEntry \<Rightarrow> bool" where
  "candidate_mapping_in_bounds base pte \<longleftrightarrow>
     base + frame_size pte < arch_upper_vaddr x86_arch_spec 0 0"

definition candidate_mapping_overlaps_existing_vmem ::
    "(nat \<rightharpoonup> PageTableEntry) \<Rightarrow> nat \<Rightarrow> PageTableEntry \<Rightarrow> bool" where
  "candidate_mapping_overlaps_existing_vmem mappings base pte \<longleftrightarrow>
     (\<exists>b\<in>dom mappings. overlap (vmem_region base pte) (vmem_region b (the (mappings b))))"

definition candidate_mapping_overlaps_existing_pmem ::
    "(nat \<rightharpoonup> PageTableEntry) \<Rightarrow> PageTableEntry \<Rightarrow> bool" where
  "candidate_mapping_overlaps_existing_pmem mappings pte \<longleftrightarrow>
     (\<exists>b\<in>dom mappings. overlap (pte_frame pte) (pte_frame (the (mappings b))))"

end
