(* ===== verification/PT_Indexing.thy ===== *)
theory PT_Indexing
  imports PT_Arch
begin

text \<open>
  The indexing calculus of \<^verbatim>\<open>page-table/impl_u/indexing.rs\<close>: slot \<open>idx\<close> of a table at
  \<open>base\<close> covers the addresses from \<open>entry_base_from_index\<close> to \<open>next_entry_base_from_index\<close>,
  and \<open>index_from_base_and_addr\<close> finds the slot of an address. The source proves these
  facts by non-linear arithmetic; the page sizes of the architecture are an instance.
\<close>

definition nat_mul :: "nat \<Rightarrow> nat \<Rightarrow> nat" where
  "nat_mul a b = a * b"

lemma entry_base_from_index_support:
  assumes "0 < es"
  shows "nat_mul a b = a * b" and "nat_mul a b = nat_mul b a"
    and "aligned base (nat_mul es a) \<Longrightarrow> aligned base es"
  by (auto simp: nat_mul_def aligned_def mod_eq_0_iff_dvd intro: dvd_mult_left)

lemma entry_base_mono:
  assumes "0 < es" and "idx < idx2"
  shows "entry_base_from_index base idx es < entry_base_from_index base idx2 es"
    and "next_entry_base_from_index base idx es \<le> entry_base_from_index base idx2 es"
  using assms mult_le_mono1 [of "Suc idx" idx2 es] by (auto simp: pt_defs)

lemma next_entry_base:
  "next_entry_base_from_index base idx es = entry_base_from_index base (idx + 1) es"
  "next_entry_base_from_index base idx es = entry_base_from_index base idx es + es"
  by (simp_all add: pt_defs)

lemma entry_base_aligned:
  assumes "aligned base n" and "aligned es n"
  shows "aligned (entry_base_from_index base idx es) n" and "aligned (next_entry_base_from_index base idx es) n"
  using assms by (simp_all only: pt_defs mod_eq_0_iff_dvd) simp_all

lemma entry_base_self_aligned: "aligned base es \<Longrightarrow> aligned (entry_base_from_index base idx es) es"
  by (rule entry_base_aligned) (simp_all add: aligned_def)

lemma entry_base_above: "base \<le> entry_base_from_index base idx es"
  by (simp add: pt_defs)

text \<open>The slot of an address: its index is in range, and it is the only one that covers the address.\<close>

lemma index_of_address:
  assumes "base \<le> addr" and "addr < entry_base_from_index base n es" and "0 < es"
  defines "idx \<equiv> index_from_base_and_addr base addr es"
  shows "idx < n"
    and "between addr (entry_base_from_index base idx es) (next_entry_base_from_index base idx es)"
    and "aligned base es \<Longrightarrow> aligned addr es \<Longrightarrow> addr = entry_base_from_index base idx es"
proof -
  have i: "idx = (addr - base) div es" by (simp add: idx_def pt_defs)
  have eq: "(addr - base) = idx * es + (addr - base) mod es" unfolding i by simp
  have addr: "addr = base + idx * es + (addr - base) mod es" using eq assms(1) by linarith
  have lt: "(addr - base) mod es < es" using assms(3) by simp
  show "idx < n" using assms(1-3) unfolding i by (simp add: pt_defs less_mult_imp_div_less)
  show "between addr (entry_base_from_index base idx es) (next_entry_base_from_index base idx es)"
    using addr lt by (simp add: next_entry_base(2) between_def) (simp add: pt_defs)
  show "addr = entry_base_from_index base idx es" if "aligned base es" "aligned addr es"
  proof -
    have "(addr - base) mod es = 0" using that by (simp add: aligned_def mod_eq_0_iff_dvd)
    then show ?thesis using eq assms(1) by (simp add: pt_defs)
  qed
qed

lemma index_of_slot:
  assumes "between addr (entry_base_from_index base idx es) (next_entry_base_from_index base idx es)"
  shows "index_from_base_and_addr base addr es = idx"
proof -
  have "idx * es \<le> addr - base" "addr - base < Suc idx * es" using assms by (auto simp: pt_defs between_def)
  then show ?thesis by (simp add: pt_defs div_nat_eqI mult.commute)
qed

text \<open>The slots of a layer's table, at the architecture's entry sizes.\<close>

lemma x86_index_of_address:
  assumes "layer < 4" and "base \<le> addr" and "addr < arch_entry_base x86_arch_spec layer base 512"
  shows "arch_index_for_vaddr x86_arch_spec layer base addr < 512"
    and "between addr (arch_entry_base x86_arch_spec layer base (arch_index_for_vaddr x86_arch_spec layer base addr))
      (arch_next_entry_base x86_arch_spec layer base (arch_index_for_vaddr x86_arch_spec layer base addr))"
  using index_of_address [of base addr 512 "entry_size x86_arch_spec layer"] assms entry_size_pos [OF x86_arch_inv, of layer]
  by (simp_all add: arch_entry_base_def arch_next_entry_base_def arch_index_for_vaddr_def)

end
