(* ===== verification/PT_Interface.thy ===== *)
theory PT_Interface
  imports PT_Arch
begin

text \<open>
  The contract every layer of the page table fulfils, as a locale: a map from virtual base
  addresses to entries, changed by \<open>map_op\<close> and \<open>unmap_op\<close> and queried by \<open>resolve_op\<close>.
  An operation returns \<open>None\<close> if it does not return normally. The client lemmas are proved
  once from the contract; the flat table (\<^verbatim>\<open>l0.rs\<close>), the directory tree
  (\<^verbatim>\<open>l1.rs\<close>) and the page table in memory (\<^verbatim>\<open>l2_impl.rs\<close>) interpret it. The
  extension \<open>translated_page_table\<close> adds the MMU, whose translation follows the table.

  The second half is about whole sequences of requests. Every table that keeps the contract of
  \<open>page_table\<close> answers them like a map of entries that is searched and updated directly,
  \<open>table_serve\<close>; the client is only asked to make requests the operations accept.
\<close>

definition covered :: "(nat \<rightharpoonup> PageTableEntry) \<Rightarrow> nat \<Rightarrow> bool" where
  "covered maps va \<longleftrightarrow> (\<exists>b p. maps b = Some p \<and> between va b (b + frame_size p))"

locale page_table =
  fixes inv :: "'s \<Rightarrow> bool"
    and mappings :: "'s \<Rightarrow> nat \<rightharpoonup> PageTableEntry"
    and accepts_map :: "'s \<Rightarrow> 'v \<Rightarrow> 'p \<Rightarrow> bool"
    and accepts_unmap :: "'s \<Rightarrow> 'v \<Rightarrow> bool"
    and accepts_resolve :: "'s \<Rightarrow> 'v \<Rightarrow> bool"
    and map_op :: "'s \<Rightarrow> 'v \<Rightarrow> 'p \<Rightarrow> ('s \<times> (unit, unit) rust_result) option"
    and unmap_op :: "'s \<Rightarrow> 'v \<Rightarrow> ('s \<times> (unit, unit) rust_result) option"
    and resolve_op :: "'s \<Rightarrow> 'v \<Rightarrow> (nat \<times> PageTableEntry, unit) rust_result option"
    and addr :: "'v \<Rightarrow> nat"
    and entry :: "'p \<Rightarrow> PageTableEntry"
  assumes mapping_pos: "inv s \<Longrightarrow> mappings s b = Some q \<Longrightarrow> 0 < frame_size q"
    and mappings_disjoint: "inv s \<Longrightarrow> mappings s b1 = Some q1 \<Longrightarrow> mappings s b2 = Some q2 \<Longrightarrow> b1 \<noteq> b2 \<Longrightarrow>
          \<not> overlap (vmem_region b1 q1) (vmem_region b2 q2)"
    and map_law: "inv s \<Longrightarrow> accepts_map s v p \<Longrightarrow>
          \<exists>s' res. map_op s v p = Some (s', res) \<and> inv s' \<and>
            (if candidate_mapping_overlaps_existing_vmem (mappings s) (addr v) (entry p)
             then res = Err () \<and> mappings s' = mappings s
             else res = Ok () \<and> mappings s' = (mappings s)(addr v \<mapsto> entry p))"
    and unmap_law: "inv s \<Longrightarrow> accepts_unmap s v \<Longrightarrow>
          \<exists>s' res. unmap_op s v = Some (s', res) \<and> inv s' \<and>
            (if addr v \<in> dom (mappings s)
             then res = Ok () \<and> mappings s' = (mappings s)(addr v := None)
             else res = Err () \<and> mappings s' = mappings s)"
    and resolve_law: "inv s \<Longrightarrow> accepts_resolve s v \<Longrightarrow>
          \<exists>res. resolve_op s v = Some res \<and>
            (case res of
               Ok (b, q) \<Rightarrow> mappings s b = Some q \<and> between (addr v) b (b + frame_size q)
             | Err _ \<Rightarrow> \<not> covered (mappings s) (addr v))"
begin

lemma mapping_unique:
  assumes "inv s" and "mappings s b1 = Some p1" "between va b1 (b1 + frame_size p1)"
    and "mappings s b2 = Some p2" "between va b2 (b2 + frame_size p2)"
  shows "b1 = b2 \<and> p1 = p2"
  using mappings_disjoint [OF assms(1,2,4)] assms by (fastforce simp: not_overlap_iff between_def)

lemma map_Ok:
  assumes "inv s" and "accepts_map s v p" and "map_op s v p = Some (s', Ok ())"
  shows "inv s'" and "mappings s' = (mappings s)(addr v \<mapsto> entry p)"
    and "\<not> candidate_mapping_overlaps_existing_vmem (mappings s) (addr v) (entry p)"
  using map_law [OF assms(1,2)] assms(3) by (auto split: if_splits)

lemma unmap_Ok:
  assumes "inv s" and "accepts_unmap s v" and "unmap_op s v = Some (s', Ok ())"
  shows "inv s'" and "mappings s' = (mappings s)(addr v := None)" and "addr v \<in> dom (mappings s)"
  using unmap_law [OF assms(1,2)] assms(3) by (auto split: if_splits)

lemma resolve_mapped:
  assumes inv: "inv s" and "accepts_resolve s v"
    and b: "mappings s b = Some q" "between (addr v) b (b + frame_size q)"
  shows "resolve_op s v = Some (Ok (b, q))"
proof -
  obtain res where res: "resolve_op s v = Some res" and
    r: "case res of Ok (b, q) \<Rightarrow> mappings s b = Some q \<and> between (addr v) b (b + frame_size q)
        | Err _ \<Rightarrow> \<not> covered (mappings s) (addr v)"
    using resolve_law [OF assms(1,2)] by blast
  show ?thesis
  proof (cases res)
    case (Ok x)
    then show ?thesis using mapping_unique [OF inv b, of "fst x" "snd x"] r res by (auto simp: case_prod_beta)
  next
    case (Err e)
    then show ?thesis using r b by (auto simp: covered_def)
  qed
qed

lemma resolve_unmapped:
  assumes "inv s" and "accepts_resolve s v" and "\<not> covered (mappings s) (addr v)"
  shows "resolve_op s v = Some (Err ())"
  using resolve_law [OF assms(1,2)] assms(3) by (fastforce simp: covered_def split: rust_result.splits)

lemma resolve_after_map:
  assumes "inv s" and "accepts_map s v p" and "map_op s v p = Some (s', Ok ())"
    and "accepts_resolve s' w" and "between (addr w) (addr v) (addr v + frame_size (entry p))"
  shows "resolve_op s' w = Some (Ok (addr v, entry p))"
  using map_Ok [OF assms(1-3)] assms(4,5) by (intro resolve_mapped) simp_all

lemma resolve_preserved_by_map:
  assumes inv: "inv s" and acc: "accepts_map s v p" and m: "map_op s v p = Some (s', Ok ())"
    and w: "accepts_resolve s w" "accepts_resolve s' w" and r: "resolve_op s w = Some (Ok (b, q))"
  shows "resolve_op s' w = Some (Ok (b, q))"
proof -
  have b: "mappings s b = Some q" "between (addr w) b (b + frame_size q)"
    using resolve_law [OF inv w(1)] r by auto
  note ok = map_Ok [OF inv acc m]
  have "b \<noteq> addr v"
  proof
    assume "b = addr v"
    then have "overlap (vmem_region (addr v) (entry p)) (vmem_region b q)" by (simp add: overlap_def)
    moreover have "b \<in> dom (mappings s)" "the (mappings s b) = q" using b(1) by auto
    ultimately show False
      using ok(3) unfolding candidate_mapping_overlaps_existing_vmem_def by metis
  qed
  then show ?thesis using resolve_mapped [OF ok(1) w(2)] ok(2) b by simp
qed

lemma unmap_after_map:
  assumes "inv s" and "accepts_map s v p" and m: "map_op s v p = Some (s', Ok ())"
    and "accepts_unmap s' v"
  shows "\<exists>s''. unmap_op s' v = Some (s'', Ok ()) \<and> inv s'' \<and> mappings s'' = mappings s"
proof -
  note ok = map_Ok [OF assms(1-3)]
  have "addr v \<notin> dom (mappings s)"
  proof
    assume "addr v \<in> dom (mappings s)"
    then have "candidate_mapping_overlaps_existing_vmem (mappings s) (addr v) (entry p)"
      by (auto simp: candidate_mapping_overlaps_existing_vmem_def overlap_def intro!: bexI [of _ "addr v"])
    then show False using ok(3) by simp
  qed
  then have "(mappings s)(addr v := None) = mappings s" by (auto simp: domIff)
  then show ?thesis using unmap_law [OF ok(1) assms(4)] ok(2) by auto
qed

lemma map_twice_fails:
  assumes "inv s" and "accepts_map s v p" and "map_op s v p = Some (s', Ok ())"
    and "accepts_map s' v q"
  shows "\<exists>s''. map_op s' v q = Some (s'', Err ()) \<and> inv s'' \<and> mappings s'' = mappings s'"
proof -
  note ok = map_Ok [OF assms(1-3)]
  have "candidate_mapping_overlaps_existing_vmem (mappings s') (addr v) (entry q)"
    using ok(2) by (auto simp: candidate_mapping_overlaps_existing_vmem_def overlap_def intro!: bexI [of _ "addr v"])
  then show ?thesis using map_law [OF ok(1) assms(4)] by auto
qed

lemma resolve_after_unmap:
  assumes inv: "inv s" and acc: "accepts_unmap s v" and u: "unmap_op s v = Some (s', Ok ())"
    and q: "mappings s (addr v) = Some q" and w: "between (addr w) (addr v) (addr v + frame_size q)"
    and r: "accepts_resolve s' w"
  shows "resolve_op s' w = Some (Err ())"
proof (rule resolve_unmapped [OF _ r])
  note ok = unmap_Ok [OF inv acc u]
  show "inv s'" by (rule ok(1))
  show "\<not> covered (mappings s') (addr w)"
    using mapping_unique [OF inv _ _ q w] unfolding covered_def ok(2) by (auto split: if_splits)
qed

lemma unmap_twice_fails:
  assumes "inv s" and "accepts_unmap s v" and "unmap_op s v = Some (s', Ok ())" and "accepts_unmap s' v"
  shows "\<exists>s''. unmap_op s' v = Some (s'', Err ()) \<and> inv s'' \<and> mappings s'' = mappings s'"
  using unmap_law [OF unmap_Ok(1) [OF assms(1-3)] assms(4)] unmap_Ok(2) [OF assms(1-3)] by auto

lemma map_after_unmap:
  assumes inv: "inv s" and acc: "accepts_unmap s v" and u: "unmap_op s v = Some (s', Ok ())"
    and q: "mappings s (addr v) = Some q" and p: "accepts_map s' v p" "frame_size (entry p) = frame_size q"
  shows "\<exists>s''. map_op s' v p = Some (s'', Ok ()) \<and> inv s'' \<and> mappings s'' = (mappings s)(addr v \<mapsto> entry p)"
proof -
  note ok = unmap_Ok [OF inv acc u]
  have "\<not> candidate_mapping_overlaps_existing_vmem (mappings s') (addr v) (entry p)"
    using mappings_disjoint [OF inv q] p(2)
    unfolding ok(2) candidate_mapping_overlaps_existing_vmem_def by (auto split: if_splits)
  then show ?thesis using map_law [OF ok(1) p(1)] ok(2) by auto
qed

end

locale translated_page_table = page_table +
  fixes walk :: "'s \<Rightarrow> nat \<rightharpoonup> PageTableEntry"
  assumes walk_law: "inv s \<Longrightarrow> walk s = mappings s"
begin

lemma walk_after_map:
  assumes "inv s" and "accepts_map s v p" and "map_op s v p = Some (s', Ok ())"
  shows "walk s' = (walk s)(addr v \<mapsto> entry p)"
  using map_Ok [OF assms] walk_law assms(1) by simp

lemma walk_after_unmap:
  assumes "inv s" and "accepts_unmap s v" and "unmap_op s v = Some (s', Ok ())"
  shows "walk s' = (walk s)(addr v := None)" and "walk s' (addr v) = None"
  using unmap_Ok [OF assms] walk_law assms(1) by simp_all

lemma walk_resolve:
  assumes "inv s" and "accepts_resolve s v" and "resolve_op s v = Some (Ok (b, q))"
  shows "walk s b = Some q"
  using resolve_law [OF assms(1,2)] assms(3) walk_law assms(1) by auto

end

section \<open>Requests\<close>

datatype ('v, 'p) request = MapRequest 'v 'p | UnmapRequest 'v | ResolveRequest 'v

datatype response =
    MapResponse "(unit, unit) rust_result"
  | UnmapResponse "(unit, unit) rust_result"
  | ResolveResponse "(nat \<times> PageTableEntry, unit) rust_result"

text \<open>The table as a map.\<close>

definition table_resolve :: "(nat \<rightharpoonup> PageTableEntry) \<Rightarrow> nat \<Rightarrow> (nat \<times> PageTableEntry, unit) rust_result" where
  "table_resolve maps va =
     (if covered maps va
      then Ok (SOME bp. maps (fst bp) = Some (snd bp) \<and> between va (fst bp) (fst bp + frame_size (snd bp)))
      else Err ())"

fun table_answer ::
    "(nat \<rightharpoonup> PageTableEntry) \<Rightarrow> (nat, PageTableEntry) request \<Rightarrow> (nat \<rightharpoonup> PageTableEntry) \<times> response" where
  "table_answer maps (MapRequest va pte) =
     (if candidate_mapping_overlaps_existing_vmem maps va pte then (maps, MapResponse (Err ()))
      else (maps(va \<mapsto> pte), MapResponse (Ok ())))"
| "table_answer maps (UnmapRequest va) =
     (if va \<in> dom maps then (maps(va := None), UnmapResponse (Ok ())) else (maps, UnmapResponse (Err ())))"
| "table_answer maps (ResolveRequest va) = (maps, ResolveResponse (table_resolve maps va))"

fun table_serve ::
    "(nat \<rightharpoonup> PageTableEntry) \<Rightarrow> (nat, PageTableEntry) request list \<Rightarrow> (nat \<rightharpoonup> PageTableEntry) \<times> response list" where
  "table_serve maps [] = (maps, [])"
| "table_serve maps (r # rs) =
     (let (maps', a) = table_answer maps r; (maps'', as) = table_serve maps' rs in (maps'', a # as))"

text \<open>The operations of an implementation, in a record; \<open>None\<close> is a panic.\<close>

record ('s, 'v, 'p) table_ops =
  op_map :: "'s \<Rightarrow> 'v \<Rightarrow> 'p \<Rightarrow> ('s \<times> (unit, unit) rust_result) option"
  op_unmap :: "'s \<Rightarrow> 'v \<Rightarrow> ('s \<times> (unit, unit) rust_result) option"
  op_resolve :: "'s \<Rightarrow> 'v \<Rightarrow> (nat \<times> PageTableEntry, unit) rust_result option"
  op_accepts_map :: "'s \<Rightarrow> 'v \<Rightarrow> 'p \<Rightarrow> bool"
  op_accepts_unmap :: "'s \<Rightarrow> 'v \<Rightarrow> bool"
  op_accepts_resolve :: "'s \<Rightarrow> 'v \<Rightarrow> bool"

fun op_answer :: "('s, 'v, 'p) table_ops \<Rightarrow> 's \<Rightarrow> ('v, 'p) request \<Rightarrow> ('s \<times> response) option" where
  "op_answer ops s (MapRequest v p) = map_option (\<lambda>(s', res). (s', MapResponse res)) (op_map ops s v p)"
| "op_answer ops s (UnmapRequest v) = map_option (\<lambda>(s', res). (s', UnmapResponse res)) (op_unmap ops s v)"
| "op_answer ops s (ResolveRequest v) = map_option (\<lambda>res. (s, ResolveResponse res)) (op_resolve ops s v)"

fun op_serve :: "('s, 'v, 'p) table_ops \<Rightarrow> 's \<Rightarrow> ('v, 'p) request list \<Rightarrow> ('s \<times> response list) option" where
  "op_serve ops s [] = Some (s, [])"
| "op_serve ops s (r # rs) =
     Option.bind (op_answer ops s r) (\<lambda>(s', a). map_option (\<lambda>(s'', as). (s'', a # as)) (op_serve ops s' rs))"

fun op_accepts :: "('s, 'v, 'p) table_ops \<Rightarrow> 's \<Rightarrow> ('v, 'p) request \<Rightarrow> bool" where
  "op_accepts ops s (MapRequest v p) = op_accepts_map ops s v p"
| "op_accepts ops s (UnmapRequest v) = op_accepts_unmap ops s v"
| "op_accepts ops s (ResolveRequest v) = op_accepts_resolve ops s v"

text \<open>Every request is accepted in the state the earlier ones lead to.\<close>

fun op_accepts_all :: "('s, 'v, 'p) table_ops \<Rightarrow> 's \<Rightarrow> ('v, 'p) request list \<Rightarrow> bool" where
  "op_accepts_all ops s [] = True"
| "op_accepts_all ops s (r # rs) =
     (op_accepts ops s r \<and> (case op_answer ops s r of None \<Rightarrow> True | Some (s', a) \<Rightarrow> op_accepts_all ops s' rs))"

section \<open>Every page table answers like the map\<close>

context page_table
begin

lemma resolve_table:
  assumes "inv s" and "accepts_resolve s v"
  shows "resolve_op s v = Some (table_resolve (mappings s) (addr v))"
proof (cases "covered (mappings s) (addr v)")
  case True
  let ?P = "\<lambda>bp. mappings s (fst bp) = Some (snd bp) \<and> between (addr v) (fst bp) (fst bp + frame_size (snd bp))"
  from True have "\<exists>bp. ?P bp" by (auto simp: covered_def)
  then have "?P (SOME bp. ?P bp)" by (rule someI_ex)
  then show ?thesis
    using resolve_mapped [OF assms, of "fst (SOME bp. ?P bp)" "snd (SOME bp. ?P bp)"] True by (simp add: table_resolve_def)
qed (use resolve_unmapped [OF assms] in \<open>simp add: table_resolve_def\<close>)

lemma answer_table:
  assumes inv: "inv s" and acc: "op_accepts ops s r" and ops: "ops = \<lparr>op_map = map_op, op_unmap = unmap_op, op_resolve = resolve_op, op_accepts_map = accepts_map,
     op_accepts_unmap = accepts_unmap, op_accepts_resolve = accepts_resolve\<rparr>"
  shows "\<exists>s' a. op_answer ops s r = Some (s', a) \<and> inv s' \<and>
    table_answer (mappings s) (map_request addr entry r) = (mappings s', a)"
proof (cases r)
  case (MapRequest v p)
  then show ?thesis using map_law [OF inv, of v p] acc by (auto simp: ops)
next
  case (UnmapRequest v)
  then have "accepts_unmap s v" using acc by (simp add: ops)
  from unmap_law [OF inv this] obtain s' res where u: "unmap_op s v = Some (s', res)" "inv s'"
      "if addr v \<in> dom (mappings s) then res = Ok () \<and> mappings s' = (mappings s)(addr v := None)
       else res = Err () \<and> mappings s' = mappings s" by blast
  then have "table_answer (mappings s) (UnmapRequest (addr v)) = (mappings s', UnmapResponse res)"
    by (simp split: if_splits del: not_None_eq)
  then show ?thesis using u(1,2) UnmapRequest by (simp add: ops)
next
  case (ResolveRequest v)
  then show ?thesis using resolve_table [OF inv, of v] acc inv by (simp add: ops)
qed

lemma serve_table:
  assumes "inv s" and "op_accepts_all ops s rs" and ops: "ops = \<lparr>op_map = map_op, op_unmap = unmap_op, op_resolve = resolve_op, op_accepts_map = accepts_map,
     op_accepts_unmap = accepts_unmap, op_accepts_resolve = accepts_resolve\<rparr>"
  shows "\<exists>s' as. op_serve ops s rs = Some (s', as) \<and> inv s' \<and>
    table_serve (mappings s) (map (map_request addr entry) rs) = (mappings s', as)"
  using assms(1,2)
proof (induction rs arbitrary: s)
  case (Cons r rs)
  obtain s1 a where r: "op_answer ops s r = Some (s1, a)" "inv s1"
      "table_answer (mappings s) (map_request addr entry r) = (mappings s1, a)"
    using answer_table [OF Cons.prems(1) _ ops, of r] Cons.prems(2) by auto
  then show ?case using Cons.IH [OF r(2)] Cons.prems(2) by auto
qed simp

end

end
