(* ===== verification/PT_Contents.thy ===== *)
theory PT_Contents
  imports PT_Interface
begin

text \<open>
  The most abstract page table, \<^verbatim>\<open>page-table/impl_u/l0.rs\<close>: a finite map from virtual
  base addresses to entries between two bounds, with its operations \<open>map_frame\<close>,
  \<open>unmap\<close> and \<open>resolve\<close>. Where the source's specification function is
  \<^verbatim>\<open>arbitrary()\<close> the model is \<open>undefined\<close>.
\<close>

section \<open>State and invariant\<close>

record PageTableContents =
  pc_map :: "nat \<rightharpoonup> PageTableEntry"
  pc_arch :: Arch
  pc_lower :: nat
  pc_upper :: nat

definition pc_mappings_are_of_valid_size :: "PageTableContents \<Rightarrow> bool" where
  "pc_mappings_are_of_valid_size c \<longleftrightarrow>
     (\<forall>va\<in>dom (pc_map c). contains_entry_size (pc_arch c) (frame_size (the (pc_map c va))))"

definition pc_mappings_are_aligned :: "PageTableContents \<Rightarrow> bool" where
  "pc_mappings_are_aligned c \<longleftrightarrow>
     (\<forall>va\<in>dom (pc_map c).
        aligned va (frame_size (the (pc_map c va))) \<and>
        aligned (frame_base (the (pc_map c va))) (frame_size (the (pc_map c va))))"

definition pc_mappings_dont_overlap :: "PageTableContents \<Rightarrow> bool" where
  "pc_mappings_dont_overlap c \<longleftrightarrow>
     (\<forall>b1\<in>dom (pc_map c). \<forall>b2\<in>dom (pc_map c).
        b1 = b2 \<or> \<not> overlap (vmem_region b1 (the (pc_map c b1))) (vmem_region b2 (the (pc_map c b2))))"

definition pc_candidate_mapping_in_bounds :: "PageTableContents \<Rightarrow> nat \<Rightarrow> PageTableEntry \<Rightarrow> bool" where
  "pc_candidate_mapping_in_bounds c base pte \<longleftrightarrow>
     pc_lower c \<le> base \<and> base + frame_size pte \<le> pc_upper c"

definition pc_mappings_in_bounds :: "PageTableContents \<Rightarrow> bool" where
  "pc_mappings_in_bounds c \<longleftrightarrow>
     (\<forall>b1\<in>dom (pc_map c). pc_candidate_mapping_in_bounds c b1 (the (pc_map c b1)))"

definition pc_inv :: "PageTableContents \<Rightarrow> bool" where
  "pc_inv c \<longleftrightarrow>
     finite (dom (pc_map c)) \<and> arch_inv (pc_arch c) \<and> pc_mappings_are_of_valid_size c \<and>
     pc_mappings_are_aligned c \<and> pc_mappings_dont_overlap c \<and> pc_mappings_in_bounds c"

section \<open>Operations\<close>

definition pc_accepted_mapping :: "PageTableContents \<Rightarrow> nat \<Rightarrow> PageTableEntry \<Rightarrow> bool" where
  "pc_accepted_mapping c base pte \<longleftrightarrow>
     aligned base (frame_size pte) \<and> aligned (frame_base pte) (frame_size pte) \<and>
     pc_candidate_mapping_in_bounds c base pte \<and> contains_entry_size (pc_arch c) (frame_size pte)"

definition pc_valid_mapping :: "PageTableContents \<Rightarrow> nat \<Rightarrow> PageTableEntry \<Rightarrow> bool" where
  "pc_valid_mapping c base pte \<longleftrightarrow>
     (\<forall>b\<in>dom (pc_map c). \<not> overlap (vmem_region base pte) (vmem_region b (the (pc_map c b))))"

definition pc_map_frame ::
    "PageTableContents \<Rightarrow> nat \<Rightarrow> PageTableEntry \<Rightarrow> (PageTableContents, PageTableContents) rust_result" where
  "pc_map_frame c base pte =
     (if pc_accepted_mapping c base pte then
        if pc_valid_mapping c base pte
        then Ok (c\<lparr>pc_map := (pc_map c)(base \<mapsto> pte)\<rparr>)
        else Err c
      else undefined)"

definition pc_accepted_resolve :: "PageTableContents \<Rightarrow> nat \<Rightarrow> bool" where
  "pc_accepted_resolve c vaddr \<longleftrightarrow> between vaddr (pc_lower c) (pc_upper c)"

definition pc_resolve :: "PageTableContents \<Rightarrow> nat \<Rightarrow> (nat \<times> PageTableEntry, unit) rust_result" where
  "pc_resolve c vaddr =
     (if \<exists>base pte. pc_map c base = Some pte \<and> between vaddr base (base + frame_size pte)
      then Ok (SOME bp. pc_map c (fst bp) = Some (snd bp) \<and>
                        between vaddr (fst bp) (fst bp + frame_size (snd bp)))
      else Err ())"

definition pc_remove :: "PageTableContents \<Rightarrow> nat \<Rightarrow> PageTableContents" where
  "pc_remove c n = c\<lparr>pc_map := (pc_map c)(n := None)\<rparr>"

definition pc_accepted_unmap :: "PageTableContents \<Rightarrow> nat \<Rightarrow> bool" where
  "pc_accepted_unmap c base \<longleftrightarrow>
     between base (pc_lower c) (pc_upper c) \<and>
     (\<exists>i<length (layers (pc_arch c)). aligned base (entry_size (pc_arch c) i))"

definition pc_unmap :: "PageTableContents \<Rightarrow> nat \<Rightarrow> (PageTableContents, PageTableContents) rust_result" where
  "pc_unmap c base = (if base \<in> dom (pc_map c) then Ok (pc_remove c base) else Err c)"

definition pc_ranges_disjoint :: "PageTableContents \<Rightarrow> PageTableContents \<Rightarrow> bool" where
  "pc_ranges_disjoint c d =
     (if pc_lower c \<le> pc_lower d then pc_upper c \<le> pc_lower d else pc_upper d \<le> pc_lower c)"

definition pc_mappings_disjoint :: "PageTableContents \<Rightarrow> PageTableContents \<Rightarrow> bool" where
  "pc_mappings_disjoint c d \<longleftrightarrow>
     (\<forall>s\<in>dom (pc_map c). \<forall>t\<in>dom (pc_map d).
        \<not> overlap (vmem_region s (the (pc_map c s))) (vmem_region t (the (pc_map d t))))"

text \<open>
  The source quantifies the accepted page sizes of \<open>accepted_unmap\<close> over all numbers
  that are an entry size of the architecture; this is the same condition.
\<close>

lemma pc_accepted_unmap_iff:
  "pc_accepted_unmap c base \<longleftrightarrow> between base (pc_lower c) (pc_upper c) \<and>
     (\<exists>sz. contains_entry_size (pc_arch c) sz \<and> aligned base sz)"
  unfolding pc_accepted_unmap_def contains_entry_size_def contains_entry_size_at_index_atleast_def
  by auto

section \<open>Working with the invariant\<close>

lemma pc_invD:
  assumes "pc_inv c" and "pc_map c b = Some p"
  shows pc_inv_size: "contains_entry_size (pc_arch c) (frame_size p)"
    and pc_inv_pos: "0 < frame_size p"
    and pc_inv_aligned: "aligned b (frame_size p)" "aligned (frame_base p) (frame_size p)"
    and pc_inv_bounds: "pc_lower c \<le> b" "b + frame_size p \<le> pc_upper c"
proof -
  have b: "b \<in> dom (pc_map c)" "the (pc_map c b) = p"
    using assms(2) by auto
  show sz: "contains_entry_size (pc_arch c) (frame_size p)"
    using assms(1) b unfolding pc_inv_def pc_mappings_are_of_valid_size_def by blast
  then show "0 < frame_size p"
    using assms(1) contains_entry_size_pos unfolding pc_inv_def by blast
  show "aligned b (frame_size p)" "aligned (frame_base p) (frame_size p)"
    using assms(1) b unfolding pc_inv_def pc_mappings_are_aligned_def by blast+
  have "pc_candidate_mapping_in_bounds c b (the (pc_map c b))"
    using assms(1) b(1) unfolding pc_inv_def pc_mappings_in_bounds_def by blast
  then show "pc_lower c \<le> b" "b + frame_size p \<le> pc_upper c"
    by (simp_all add: pc_candidate_mapping_in_bounds_def b(2))
qed

lemma pc_inv_disjoint:
  assumes "pc_inv c" and "pc_map c b1 = Some p1" and "pc_map c b2 = Some p2" and "b1 \<noteq> b2"
  shows "\<not> overlap (vmem_region b1 p1) (vmem_region b2 p2)"
  using assms unfolding pc_inv_def pc_mappings_dont_overlap_def by (metis domI option.sel)

lemma pc_inv_unique:
  assumes "pc_inv c"
    and "pc_map c b1 = Some p1" "between va b1 (b1 + frame_size p1)"
    and "pc_map c b2 = Some p2" "between va b2 (b2 + frame_size p2)"
  shows "b1 = b2 \<and> p1 = p2"
proof -
  have "b1 = b2"
  proof (rule ccontr)
    assume "b1 \<noteq> b2"
    then have "\<not> overlap (vmem_region b1 p1) (vmem_region b2 p2)"
      using assms by (intro pc_inv_disjoint)
    then show False
      using assms(3,5) by (auto simp: not_overlap_iff between_def)
  qed
  then show ?thesis using assms(2,4) by simp
qed

lemma pc_resolve_Ok:
  assumes "pc_inv c" and "pc_map c b = Some p" and "between va b (b + frame_size p)"
  shows "pc_resolve c va = Ok (b, p)"
proof -
  let ?P = "\<lambda>bp. pc_map c (fst bp) = Some (snd bp) \<and>
                 between va (fst bp) (fst bp + frame_size (snd bp))"
  have "?P (b, p)" using assms by simp
  moreover have "bp = (b, p)" if "?P bp" for bp
    using pc_inv_unique [OF assms(1), of "fst bp" "snd bp" va b p] that assms
    by (metis prod.collapse)
  ultimately have "(SOME bp. ?P bp) = (b, p)" by (rule some_equality)
  then show ?thesis using assms unfolding pc_resolve_def by auto
qed

lemma pc_resolve_Err:
  assumes "\<And>b p. pc_map c b = Some p \<Longrightarrow> \<not> between va b (b + frame_size p)"
  shows "pc_resolve c va = Err ()"
  using assms unfolding pc_resolve_def by auto

lemma pc_map_frame_preserves_inv:
  assumes "pc_inv c" and "pc_accepted_mapping c base pte" and "pc_map_frame c base pte = Ok c'"
  shows "pc_inv c'"
proof -
  have valid: "pc_valid_mapping c base pte" and c': "c' = c\<lparr>pc_map := (pc_map c)(base \<mapsto> pte)\<rparr>"
    using assms by (auto simp: pc_map_frame_def split: if_splits)
  have "pc_mappings_dont_overlap c'"
    using assms(1) valid unfolding c' pc_inv_def pc_mappings_dont_overlap_def pc_valid_mapping_def
    by (auto simp: overlap_sym)
  then show ?thesis
    using assms(1,2) unfolding c' pc_inv_def pc_mappings_are_of_valid_size_def
      pc_mappings_are_aligned_def pc_mappings_in_bounds_def pc_accepted_mapping_def
      pc_candidate_mapping_in_bounds_def by auto
qed

lemma pc_map_frame_Err_unchanged:
  assumes "pc_accepted_mapping c base pte" and "pc_map_frame c base pte = Err c'"
  shows "c' = c"
  using assms by (auto simp: pc_map_frame_def split: if_splits)

lemma pc_unmap_preserves_inv:
  assumes "pc_inv c" and "pc_unmap c base = Ok c'"
  shows "pc_inv c'"
proof -
  have c': "c' = pc_remove c base"
    using assms by (auto simp: pc_unmap_def split: if_splits)
  show ?thesis
    using assms(1) unfolding c' pc_remove_def pc_inv_def pc_mappings_are_of_valid_size_def
      pc_mappings_are_aligned_def pc_mappings_in_bounds_def pc_mappings_dont_overlap_def
      pc_candidate_mapping_in_bounds_def by auto
qed

lemma pc_unmap_decrements_len:
  assumes "pc_inv c" and "pc_unmap c base = Ok c'"
  shows "card (dom (pc_map c')) + 1 = card (dom (pc_map c))"
proof -
  have "base \<in> dom (pc_map c)" and "dom (pc_map c') = dom (pc_map c) - {base}"
    using assms(2) by (auto simp: pc_unmap_def pc_remove_def split: if_splits)
  moreover have "finite (dom (pc_map c))"
    using assms(1) by (simp add: pc_inv_def)
  ultimately show ?thesis
    by (metis Suc_eq_plus1 card_Suc_Diff1)
qed

lemma pc_ranges_disjoint_implies_mappings_disjoint:
  assumes "pc_inv c" and "pc_inv d" and "pc_ranges_disjoint c d"
  shows "pc_mappings_disjoint c d"
  unfolding pc_mappings_disjoint_def
proof (intro ballI)
  fix s t assume "s \<in> dom (pc_map c)" and "t \<in> dom (pc_map d)"
  then obtain p q where p: "pc_map c s = Some p" and q: "pc_map d t = Some q" by blast
  note bounds = pc_inv_bounds [OF assms(1) p] pc_inv_bounds [OF assms(2) q]
    pc_inv_pos [OF assms(1) p] pc_inv_pos [OF assms(2) q]
  show "\<not> overlap (vmem_region s (the (pc_map c s))) (vmem_region t (the (pc_map d t)))"
    using bounds assms(3) p q
    by (auto simp: not_overlap_iff pc_ranges_disjoint_def split: if_splits)
qed

section \<open>The flat table as a page table\<close>

text \<open>
  The operations with the common result type: the new contents and the outcome.
\<close>

definition with_outcome :: "('a, 'a) rust_result \<Rightarrow> ('a \<times> (unit, unit) rust_result) option" where
  "with_outcome r = Some (case r of Ok c \<Rightarrow> (c, Ok ()) | Err c \<Rightarrow> (c, Err ()))"

lemma with_outcome_simps [simp]:
  "with_outcome (Ok c) = Some (c, Ok ())" "with_outcome (Err c) = Some (c, Err ())"
  by (simp_all add: with_outcome_def)

lemma valid_mapping_iff:
  "pc_valid_mapping c va pte = (\<not> candidate_mapping_overlaps_existing_vmem (pc_map c) va pte)"
  unfolding pc_valid_mapping_def candidate_mapping_overlaps_existing_vmem_def by blast

lemma pc_resolve_spec:
  assumes "pc_inv c"
  shows "case pc_resolve c va of
      Ok (b, q) \<Rightarrow> pc_map c b = Some q \<and> between va b (b + frame_size q)
    | Err _ \<Rightarrow> \<not> covered (pc_map c) va"
proof (cases "covered (pc_map c) va")
  case True
  then obtain b q where "pc_map c b = Some q" "between va b (b + frame_size q)"
    by (auto simp: covered_def)
  then show ?thesis using pc_resolve_Ok [OF assms] by simp
next
  case False
  then show ?thesis using pc_resolve_Err [of c va] by (auto simp: covered_def)
qed

interpretation l0: page_table pc_inv pc_map pc_accepted_mapping pc_accepted_unmap pc_accepted_resolve
    "\<lambda>c v p. with_outcome (pc_map_frame c v p)" "\<lambda>c v. with_outcome (pc_unmap c v)"
    "\<lambda>c v. Some (pc_resolve c v)" "\<lambda>v. v" "\<lambda>p. p"
proof (unfold_locales, goal_cases)
  case (1 c b q)
  then show ?case by (rule pc_inv_pos)
next
  case (2 c b1 q1 b2 q2)
  then show ?case by (rule pc_inv_disjoint)
next
  case (3 c v p)
  have "pc_map_frame c v p = Ok (c\<lparr>pc_map := (pc_map c)(v \<mapsto> p)\<rparr>)"
    if "\<not> candidate_mapping_overlaps_existing_vmem (pc_map c) v p"
    using that 3 by (simp add: pc_map_frame_def valid_mapping_iff)
  moreover have "pc_map_frame c v p = Err c" if "candidate_mapping_overlaps_existing_vmem (pc_map c) v p"
    using that 3 by (simp add: pc_map_frame_def valid_mapping_iff)
  ultimately show ?case
    using 3 pc_map_frame_preserves_inv [OF 3]
    by (cases "candidate_mapping_overlaps_existing_vmem (pc_map c) v p") auto
next
  case (4 c v)
  have "pc_unmap c v = Ok (pc_remove c v)" if "v \<in> dom (pc_map c)" using that by (simp add: pc_unmap_def)
  moreover have "pc_unmap c v = Err c" if "v \<notin> dom (pc_map c)" using that by (simp add: pc_unmap_def)
  ultimately show ?case
    using 4 pc_unmap_preserves_inv [OF 4(1)] by (cases "v \<in> dom (pc_map c)") (auto simp: pc_remove_def)
next
  case (5 c v)
  then show ?case using pc_resolve_spec by simp
qed

end
