(* ===== verification/PT_Directory.thy ===== *)
theory PT_Directory
  imports PT_Contents
begin

text \<open>
  The page table as a tree of directories, \<^verbatim>\<open>page-table/impl_u/l1.rs\<close>: the tree with
  its invariant, its interpretation as a flat \<open>PageTableContents\<close>, and the operations
  \<open>resolve\<close>, \<open>map_frame\<close> and \<open>unmap\<close>. The source's specification functions
  return \<^verbatim>\<open>arbitrary()\<close> outside their domain; the model is \<open>undefined\<close> there, or, for
  the interpretation functions and \<open>resolve\<close>, computes the same expression without the
  guard.
\<close>

section \<open>Trees of directories\<close>

datatype NodeEntry =
    NDirectory Directory
  | NPage PageTableEntry
  | NEmpty
and Directory =
    Directory (d_entries: "NodeEntry list") (d_layer: nat) (d_base_vaddr: nat)
      (d_arch: Arch) (d_flags: Flags)

definition dir_entry_size :: "Directory \<Rightarrow> nat" where
  "dir_entry_size d = entry_size (d_arch d) (d_layer d)"

definition dir_num_entries :: "Directory \<Rightarrow> nat" where
  "dir_num_entries d = num_entries (d_arch d) (d_layer d)"

definition dir_well_formed :: "Directory \<Rightarrow> bool" where
  "dir_well_formed d \<longleftrightarrow>
     arch_inv (d_arch d) \<and> d_layer d < length (layers (d_arch d)) \<and>
     aligned (d_base_vaddr d) (dir_entry_size d * dir_num_entries d) \<and>
     length (d_entries d) = dir_num_entries d \<and> d_flags d = permissive_flags"

definition dir_empty :: "Directory \<Rightarrow> bool" where
  "dir_empty d \<longleftrightarrow> (\<forall>i<dir_num_entries d. d_entries d ! i = NEmpty)"

definition dir_pages_match_entry_size :: "Directory \<Rightarrow> bool" where
  "dir_pages_match_entry_size d \<longleftrightarrow>
     (\<forall>i<length (d_entries d). case d_entries d ! i of
        NPage p \<Rightarrow> frame_size p = dir_entry_size d | _ \<Rightarrow> True)"

definition dir_directories_are_in_next_layer :: "Directory \<Rightarrow> bool" where
  "dir_directories_are_in_next_layer d \<longleftrightarrow>
     (\<forall>i<length (d_entries d). case d_entries d ! i of
        NDirectory d' \<Rightarrow> d_layer d' = d_layer d + 1 \<and>
                        d_base_vaddr d' = d_base_vaddr d + i * dir_entry_size d
      | _ \<Rightarrow> True)"

definition dir_directories_match_arch :: "Directory \<Rightarrow> bool" where
  "dir_directories_match_arch d \<longleftrightarrow>
     (\<forall>i<length (d_entries d). case d_entries d ! i of
        NDirectory d' \<Rightarrow> d_arch d' = d_arch d | _ \<Rightarrow> True)"

definition dir_directories_are_nonempty :: "Directory \<Rightarrow> bool" where
  "dir_directories_are_nonempty d \<longleftrightarrow>
     (\<forall>i<length (d_entries d). case d_entries d ! i of
        NDirectory d' \<Rightarrow> \<not> dir_empty d' | _ \<Rightarrow> True)"

definition dir_frames_aligned :: "Directory \<Rightarrow> bool" where
  "dir_frames_aligned d \<longleftrightarrow>
     (\<forall>i<length (d_entries d). case d_entries d ! i of
        NPage p \<Rightarrow> aligned (frame_base p) (dir_entry_size d) | _ \<Rightarrow> True)"

fun dir_inv :: "Directory \<Rightarrow> bool" where
  "dir_inv (Directory es l b a f) \<longleftrightarrow>
     (let d = Directory es l b a f in
        dir_well_formed d \<and> dir_pages_match_entry_size d \<and>
        dir_directories_are_in_next_layer d \<and> dir_directories_match_arch d \<and>
        (\<forall>e\<in>set es. case e of NDirectory d' \<Rightarrow> dir_inv d' | _ \<Rightarrow> True) \<and>
        dir_directories_are_nonempty d \<and> dir_frames_aligned d)"

definition dir_directories_obey_invariant :: "Directory \<Rightarrow> bool" where
  "dir_directories_obey_invariant d \<longleftrightarrow>
     (\<forall>i<length (d_entries d). case d_entries d ! i of NDirectory d' \<Rightarrow> dir_inv d' | _ \<Rightarrow> True)"

section \<open>Addresses covered by a directory\<close>

definition dir_upper_vaddr :: "Directory \<Rightarrow> nat" where
  "dir_upper_vaddr d = arch_upper_vaddr (d_arch d) (d_layer d) (d_base_vaddr d)"

definition dir_index_for_vaddr :: "Directory \<Rightarrow> nat \<Rightarrow> nat" where
  "dir_index_for_vaddr d vaddr = arch_index_for_vaddr (d_arch d) (d_layer d) (d_base_vaddr d) vaddr"

definition dir_entry_base :: "Directory \<Rightarrow> nat \<Rightarrow> nat" where
  "dir_entry_base d idx = arch_entry_base (d_arch d) (d_layer d) (d_base_vaddr d) idx"

definition dir_next_entry_base :: "Directory \<Rightarrow> nat \<Rightarrow> nat" where
  "dir_next_entry_base d idx = arch_next_entry_base (d_arch d) (d_layer d) (d_base_vaddr d) idx"

definition dir_entry_bounds :: "Directory \<Rightarrow> nat \<Rightarrow> nat \<times> nat" where
  "dir_entry_bounds d entry = (dir_entry_base d entry, dir_entry_base d (entry + 1))"

lemma size_child:
  assumes "NDirectory d' \<in> set (d_entries d)"
  shows "size d' < size d"
proof (cases d)
  case (Directory es l b a f)
  then have "size (NDirectory d') < Suc (size_list size es)"
    using assms by (auto intro: size_list_estimation le_imp_less_Suc)
  then show ?thesis by (simp add: Directory)
qed

lemma size_child_nth:
  assumes "i < length (d_entries d)" and "d_entries d ! i = NDirectory d'"
  shows "size d' < size d"
  using assms size_child nth_mem by metis

section \<open>Interpretation\<close>

function interp_aux :: "Directory \<Rightarrow> nat \<Rightarrow> PageTableContents"
  and interp_of_entry :: "Directory \<Rightarrow> nat \<Rightarrow> PageTableContents" where
  "interp_aux d i =
     (if i \<ge> length (d_entries d) then
        \<lparr>pc_map = Map.empty, pc_arch = d_arch d,
         pc_lower = dir_upper_vaddr d, pc_upper = dir_upper_vaddr d\<rparr>
      else
        let rem = interp_aux d (i + 1); entry_i = interp_of_entry d i in
        \<lparr>pc_map = pc_map rem ++ pc_map entry_i, pc_arch = d_arch d,
         pc_lower = pc_lower entry_i, pc_upper = pc_upper rem\<rparr>)"
| "interp_of_entry d entry =
     (if entry < length (d_entries d) then
        \<lparr>pc_map = (case d_entries d ! entry of
            NPage p \<Rightarrow> [dir_entry_base d entry \<mapsto> p]
          | NDirectory d' \<Rightarrow> pc_map (interp_aux d' 0)
          | NEmpty \<Rightarrow> Map.empty),
         pc_arch = d_arch d,
         pc_lower = fst (dir_entry_bounds d entry), pc_upper = snd (dir_entry_bounds d entry)\<rparr>
      else undefined)"
  by pat_completeness auto
termination
  by (relation "measures [\<lambda>x. case x of Inl (d, i) \<Rightarrow> size d | Inr (d, i) \<Rightarrow> size d,
                          \<lambda>x. case x of Inl (d, i) \<Rightarrow> length (d_entries d) - i
                                      | Inr (d, i) \<Rightarrow> length (d_entries d) - i,
                          \<lambda>x. case x of Inl _ \<Rightarrow> 1 | Inr _ \<Rightarrow> 0]")
    (auto simp: size_child_nth)

declare interp_aux.simps [simp del] interp_of_entry.simps [simp del]

definition dir_interp :: "Directory \<Rightarrow> PageTableContents" where
  "dir_interp d = interp_aux d 0"

section \<open>Operations\<close>

function dir_resolve :: "Directory \<Rightarrow> nat \<Rightarrow> (nat \<times> PageTableEntry, unit) rust_result" where
  "dir_resolve d vaddr =
     (let entry = dir_index_for_vaddr d vaddr in
      if entry < length (d_entries d) then
        (case d_entries d ! entry of
           NPage pte \<Rightarrow> Ok (dir_entry_base d entry, pte)
         | NDirectory d' \<Rightarrow> dir_resolve d' vaddr
         | NEmpty \<Rightarrow> Err ())
      else undefined)"
  by pat_completeness auto
termination
  by (relation "measure (\<lambda>(d, _). size d)") (auto simp: size_child_nth)

declare dir_resolve.simps [simp del]

definition dir_update :: "Directory \<Rightarrow> nat \<Rightarrow> NodeEntry \<Rightarrow> Directory" where
  "dir_update d n e =
     Directory ((d_entries d)[n := e]) (d_layer d) (d_base_vaddr d) (d_arch d) (d_flags d)"

definition dir_candidate_mapping_in_bounds :: "Directory \<Rightarrow> nat \<Rightarrow> PageTableEntry \<Rightarrow> bool" where
  "dir_candidate_mapping_in_bounds d base pte \<longleftrightarrow>
     d_base_vaddr d \<le> base \<and> base + frame_size pte \<le> dir_upper_vaddr d"

definition dir_accepted_mapping :: "Directory \<Rightarrow> nat \<Rightarrow> PageTableEntry \<Rightarrow> bool" where
  "dir_accepted_mapping d base pte \<longleftrightarrow>
     aligned base (frame_size pte) \<and> aligned (frame_base pte) (frame_size pte) \<and>
     dir_candidate_mapping_in_bounds d base pte \<and>
     contains_entry_size_at_index_atleast (d_arch d) (frame_size pte) (d_layer d)"

definition dir_new_empty_dir :: "Directory \<Rightarrow> nat \<Rightarrow> Directory" where
  "dir_new_empty_dir d entry =
     Directory (new_seq (num_entries (d_arch d) (d_layer d + 1)) NEmpty) (d_layer d + 1)
       (dir_entry_base d entry) (d_arch d) permissive_flags"

lemma dir_inv_layer: "dir_inv d \<Longrightarrow> d_layer d < length (layers (d_arch d))"
  by (cases d) (simp add: Let_def dir_well_formed_def)

lemma dir_inv_child_layer:
  assumes "dir_inv d" and "i < length (d_entries d)" and "d_entries d ! i = NDirectory d'"
  shows "d_layer d' = d_layer d + 1" and "d_arch d' = d_arch d"
  using assms
  by (cases d, force simp: Let_def dir_directories_are_in_next_layer_def
      dir_directories_match_arch_def)+

lemma dir_accepted_smaller_layer:
  assumes "dir_accepted_mapping d base pte" and "dir_entry_size d \<noteq> frame_size pte"
  shows "d_layer d + 1 < length (layers (d_arch d))"
proof -
  obtain i where i: "i < length (layers (d_arch d))" "d_layer d \<le> i"
      "entry_size (d_arch d) i = frame_size pte"
    using assms(1) unfolding dir_accepted_mapping_def contains_entry_size_at_index_atleast_def
    by blast
  then have "i \<noteq> d_layer d"
    using assms(2) by (auto simp: dir_entry_size_def)
  with i show ?thesis by linarith
qed

function dir_map_frame :: "Directory \<Rightarrow> nat \<Rightarrow> PageTableEntry \<Rightarrow> (Directory, Directory) rust_result" where
  "dir_map_frame d base pte =
     (if dir_inv d \<and> dir_accepted_mapping d base pte \<and>
         dir_index_for_vaddr d base < length (d_entries d) then
        let entry = dir_index_for_vaddr d base in
        case d_entries d ! entry of
          NPage p \<Rightarrow> Err d
        | NDirectory d' \<Rightarrow>
            if dir_entry_size d = frame_size pte then Err d
            else (case dir_map_frame d' base pte of
                    Ok d'' \<Rightarrow> Ok (dir_update d entry (NDirectory d''))
                  | Err d'' \<Rightarrow> Err (dir_update d entry (NDirectory d'')))
        | NEmpty \<Rightarrow>
            if dir_entry_size d = frame_size pte
            then Ok (dir_update d entry (NPage pte))
            else let new_dir = dir_new_empty_dir d entry in
                 Ok (dir_update d entry (NDirectory (get_Ok (dir_map_frame new_dir base pte))))
      else undefined)"
  by pat_completeness auto
termination
proof (relation "measure (\<lambda>(d, _). length (layers (d_arch d)) - d_layer d)", goal_cases)
  case 1
  then show ?case by simp
next
  case (2 d base pte entry d')
  then show ?case
    using dir_inv_child_layer [of d _ d'] dir_inv_layer [of d] by auto
next
  case (3 d base pte entry new_dir)
  then show ?case
    using dir_inv_layer [of d] dir_accepted_smaller_layer [of d base pte]
    by (auto simp: dir_new_empty_dir_def)
qed

declare dir_map_frame.simps [simp del]

definition dir_accepted_unmap :: "Directory \<Rightarrow> nat \<Rightarrow> bool" where
  "dir_accepted_unmap d base \<longleftrightarrow> pc_accepted_unmap (dir_interp d) base"

function dir_unmap :: "Directory \<Rightarrow> nat \<Rightarrow> (Directory, Directory) rust_result" where
  "dir_unmap d base =
     (if dir_inv d \<and> dir_accepted_unmap d base \<and>
         dir_index_for_vaddr d base < length (d_entries d) then
        let entry = dir_index_for_vaddr d base in
        case d_entries d ! entry of
          NPage p \<Rightarrow>
            if aligned base (dir_entry_size d) then Ok (dir_update d entry NEmpty) else Err d
        | NDirectory d' \<Rightarrow>
            (case dir_unmap d' base of
               Ok new_d \<Rightarrow>
                 Ok (dir_update d entry (if dir_empty new_d then NEmpty else NDirectory new_d))
             | Err new_d \<Rightarrow> Err (dir_update d entry (NDirectory new_d)))
        | NEmpty \<Rightarrow> Err d
      else undefined)"
  by pat_completeness auto
termination
  by (relation "measure (\<lambda>(d, _). size d)") (auto simp: size_child_nth)

declare dir_unmap.simps [simp del]

end
