(* ===== verification/PT_Directory_Interp.thy ===== *)
theory PT_Directory_Interp
  imports PT_Directory
begin

text \<open>
  What the interpretation of a directory tree contains. The recursion of \<open>interp_aux\<close>
  is replaced once and for all by a lookup rule (\<open>dir_lookup\<close>): an address is mapped
  by the tree exactly if the entry selected by its index maps it. From it follow the
  invariant of the interpreted page table and the effect of replacing one entry, on which
  the refinement proofs of all operations rest.
\<close>

section \<open>Unfolding the invariant\<close>

lemma dir_inv_iff:
  "dir_inv d \<longleftrightarrow>
     dir_well_formed d \<and> dir_pages_match_entry_size d \<and> dir_directories_are_in_next_layer d \<and>
     dir_directories_match_arch d \<and> dir_directories_obey_invariant d \<and>
     dir_directories_are_nonempty d \<and> dir_frames_aligned d"
proof -
  have "(\<forall>e\<in>set (d_entries d). case e of NDirectory d' \<Rightarrow> dir_inv d' | _ \<Rightarrow> True) \<longleftrightarrow>
        dir_directories_obey_invariant d"
    unfolding dir_directories_obey_invariant_def by (rule all_set_conv_all_nth)
  then show ?thesis by (cases d) (simp add: Let_def)
qed

lemma dir_entry_base_eq: "dir_entry_base d i = d_base_vaddr d + i * dir_entry_size d"
  by (simp add: dir_entry_base_def dir_entry_size_def pt_defs)

lemma dir_next_entry_base_eq: "dir_next_entry_base d i = dir_entry_base d (i + 1)"
  by (simp add: dir_next_entry_base_def dir_entry_base_def pt_defs)

lemma dir_upper_vaddr_eq: "dir_upper_vaddr d = dir_entry_base d (dir_num_entries d)"
  by (simp add: dir_upper_vaddr_def dir_entry_base_def dir_num_entries_def pt_defs)

lemma dir_index_eq: "dir_index_for_vaddr d va = (va - d_base_vaddr d) div dir_entry_size d"
  by (simp add: dir_index_for_vaddr_def dir_entry_size_def pt_defs)

lemma dir_inv_basics:
  assumes "dir_inv d"
  shows dir_es_pos: "0 < dir_entry_size d"
    and dir_ne_pos: "0 < dir_num_entries d"
    and dir_length: "length (d_entries d) = dir_num_entries d"
    and dir_arch_inv: "arch_inv (d_arch d)"
    and dir_layer_less: "d_layer d < length (layers (d_arch d))"
    and dir_base_aligned: "d_base_vaddr d mod dir_entry_size d = 0"
    and dir_flags: "d_flags d = permissive_flags"
proof -
  have wf: "dir_well_formed d" using assms by (simp add: dir_inv_iff)
  then have a: "arch_inv (d_arch d)" "d_layer d < length (layers (d_arch d))"
    by (simp_all add: dir_well_formed_def)
  show "0 < dir_entry_size d" "0 < dir_num_entries d"
    using a entry_size_pos num_entries_pos unfolding dir_entry_size_def dir_num_entries_def by blast+
  show "arch_inv (d_arch d)" "d_layer d < length (layers (d_arch d))" using a .
  show "length (d_entries d) = dir_num_entries d" "d_flags d = permissive_flags"
    using wf by (simp_all add: dir_well_formed_def)
  have "d_base_vaddr d mod (dir_entry_size d * dir_num_entries d) = 0"
    using wf by (simp add: dir_well_formed_def aligned_def)
  then show "d_base_vaddr d mod dir_entry_size d = 0"
    by (rule mod_mult_zero_implies_mod_zero)
qed

lemma dir_entry_base_mono: "i \<le> j \<Longrightarrow> dir_entry_base d i \<le> dir_entry_base d j"
  by (simp add: dir_entry_base_eq)

lemma dir_entry_base_0 [simp]: "dir_entry_base d 0 = d_base_vaddr d"
  by (simp add: dir_entry_base_eq)

lemma dir_entry_base_Suc:
  "dir_entry_base d (i + 1) = dir_entry_base d i + dir_entry_size d"
  "dir_entry_base d (Suc i) = dir_entry_base d i + dir_entry_size d"
  by (simp_all add: dir_entry_base_eq algebra_simps)

lemma dir_index_iff:
  assumes "dir_inv d" and "d_base_vaddr d \<le> va"
  shows "dir_index_for_vaddr d va = i \<longleftrightarrow> dir_entry_base d i \<le> va \<and> va < dir_entry_base d (i + 1)"
  unfolding dir_index_eq dir_entry_base_eq
  using assms dir_es_pos by (intro index_of_offset) auto

lemma dir_index_bounds:
  assumes "dir_inv d" and "d_base_vaddr d \<le> va"
  shows "dir_entry_base d (dir_index_for_vaddr d va) \<le> va"
    and "va < dir_entry_base d (dir_index_for_vaddr d va + 1)"
  using dir_index_iff [OF assms] by blast+

lemma dir_index_less:
  assumes "dir_inv d" and "d_base_vaddr d \<le> va" and "va < dir_upper_vaddr d"
  shows "dir_index_for_vaddr d va < dir_num_entries d"
proof (rule ccontr)
  assume "\<not> ?thesis"
  then have "dir_upper_vaddr d \<le> dir_entry_base d (dir_index_for_vaddr d va)"
    unfolding dir_upper_vaddr_eq by (intro dir_entry_base_mono) simp
  also have "\<dots> \<le> va" using dir_index_bounds [OF assms(1,2)] by simp
  finally show False using assms(3) by simp
qed

lemma dir_index_in_entry:
  assumes "dir_inv d" and "i < dir_num_entries d"
    and "dir_entry_base d i \<le> va" and "va < dir_entry_base d (i + 1)"
  shows "dir_index_for_vaddr d va = i" and "d_base_vaddr d \<le> va" and "va < dir_upper_vaddr d"
proof -
  have "d_base_vaddr d \<le> dir_entry_base d i" by (simp add: dir_entry_base_eq)
  then show b: "d_base_vaddr d \<le> va" using assms(3) by simp
  show "dir_index_for_vaddr d va = i"
    using dir_index_iff [OF assms(1) b] assms(3,4) by simp
  have "dir_entry_base d (i + 1) \<le> dir_upper_vaddr d"
    unfolding dir_upper_vaddr_eq using assms(2) by (intro dir_entry_base_mono) simp
  then show "va < dir_upper_vaddr d" using assms(4) by simp
qed

lemma dir_child:
  assumes "dir_inv d" and "i < dir_num_entries d" and "d_entries d ! i = NDirectory d'"
  shows child_inv: "dir_inv d'"
    and child_layer: "d_layer d' = d_layer d + 1"
    and child_base: "d_base_vaddr d' = dir_entry_base d i"
    and child_arch: "d_arch d' = d_arch d"
    and child_nonempty: "\<not> dir_empty d'"
    and child_size: "dir_entry_size d = dir_entry_size d' * dir_num_entries d'"
    and child_upper: "dir_upper_vaddr d' = dir_entry_base d (i + 1)"
proof -
  have i: "i < length (d_entries d)" using assms dir_length by simp
  note inv = assms(1) [unfolded dir_inv_iff]
  show ci: "dir_inv d'"
    using inv i assms(3) unfolding dir_directories_obey_invariant_def by fastforce
  show cl: "d_layer d' = d_layer d + 1" and cb: "d_base_vaddr d' = dir_entry_base d i"
    using inv i assms(3) unfolding dir_directories_are_in_next_layer_def dir_entry_base_eq
    by fastforce+
  show ca: "d_arch d' = d_arch d"
    using inv i assms(3) unfolding dir_directories_match_arch_def by fastforce
  show "\<not> dir_empty d'"
    using inv i assms(3) unfolding dir_directories_are_nonempty_def by fastforce
  show cs: "dir_entry_size d = dir_entry_size d' * dir_num_entries d'"
    using arch_inv_next [of "d_arch d" "d_layer d"] dir_layer_less [OF ci] dir_arch_inv [OF assms(1)] cl ca
    by (simp add: dir_entry_size_def dir_num_entries_def)
  show "dir_upper_vaddr d' = dir_entry_base d (i + 1)"
    unfolding dir_upper_vaddr_eq dir_entry_base_eq cb using cs
    by (simp add: algebra_simps dir_entry_base_eq)
qed

lemma dir_page:
  assumes "dir_inv d" and "i < dir_num_entries d" and "d_entries d ! i = NPage p"
  shows page_size: "frame_size p = dir_entry_size d"
    and page_aligned: "frame_base p mod dir_entry_size d = 0"
proof -
  have i: "i < length (d_entries d)" using assms dir_length by simp
  note inv = assms(1) [unfolded dir_inv_iff]
  show "frame_size p = dir_entry_size d"
    using inv i assms(3) unfolding dir_pages_match_entry_size_def by fastforce
  show "frame_base p mod dir_entry_size d = 0"
    using inv i assms(3) unfolding dir_frames_aligned_def aligned_def by fastforce
qed

lemma dir_invI:
  assumes "dir_well_formed d"
    and "\<And>i p. i < dir_num_entries d \<Longrightarrow> d_entries d ! i = NPage p \<Longrightarrow>
           frame_size p = dir_entry_size d \<and> frame_base p mod dir_entry_size d = 0"
    and "\<And>i d'. i < dir_num_entries d \<Longrightarrow> d_entries d ! i = NDirectory d' \<Longrightarrow>
           dir_inv d' \<and> d_layer d' = d_layer d + 1 \<and> d_base_vaddr d' = dir_entry_base d i \<and>
           d_arch d' = d_arch d \<and> \<not> dir_empty d'"
  shows "dir_inv d"
proof -
  have len: "length (d_entries d) = dir_num_entries d"
    using assms(1) by (simp add: dir_well_formed_def)
  have "dir_pages_match_entry_size d" "dir_frames_aligned d"
    using assms(2) len
    by (auto simp: dir_pages_match_entry_size_def dir_frames_aligned_def aligned_def
        split: NodeEntry.split)
  moreover have "dir_directories_are_in_next_layer d" "dir_directories_match_arch d"
    "dir_directories_obey_invariant d" "dir_directories_are_nonempty d"
    using assms(3) len
    by (auto simp: dir_directories_are_in_next_layer_def dir_directories_match_arch_def
        dir_directories_obey_invariant_def dir_directories_are_nonempty_def dir_entry_base_eq
        split: NodeEntry.split)
  ultimately show ?thesis using assms(1) by (simp add: dir_inv_iff)
qed

section \<open>Looking up an address\<close>

definition entry_map :: "Directory \<Rightarrow> nat \<Rightarrow> nat \<rightharpoonup> PageTableEntry" where
  "entry_map d i = (case d_entries d ! i of
     NPage p \<Rightarrow> [dir_entry_base d i \<mapsto> p]
   | NDirectory d' \<Rightarrow> pc_map (dir_interp d')
   | NEmpty \<Rightarrow> Map.empty)"

abbreviation dir_map :: "Directory \<Rightarrow> nat \<rightharpoonup> PageTableEntry" where
  "dir_map d \<equiv> pc_map (dir_interp d)"

lemma interp_of_entry_map:
  "i < length (d_entries d) \<Longrightarrow> pc_map (interp_of_entry d i) = entry_map d i"
  by (simp add: interp_of_entry.simps entry_map_def dir_interp_def split: NodeEntry.split)

lemma interp_aux_end:
  "length (d_entries d) \<le> i \<Longrightarrow> interp_aux d i =
     \<lparr>pc_map = Map.empty, pc_arch = d_arch d,
      pc_lower = dir_upper_vaddr d, pc_upper = dir_upper_vaddr d\<rparr>"
  by (subst interp_aux.simps) simp

lemma interp_aux_step:
  "i < length (d_entries d) \<Longrightarrow> interp_aux d i =
     \<lparr>pc_map = pc_map (interp_aux d (i + 1)) ++ entry_map d i, pc_arch = d_arch d,
      pc_lower = dir_entry_base d i, pc_upper = pc_upper (interp_aux d (i + 1))\<rparr>"
  by (subst interp_aux.simps)
    (simp add: Let_def interp_of_entry_map, simp add: interp_of_entry.simps dir_entry_bounds_def)

lemma interp_aux_fields:
  assumes "dir_inv d" and "i \<le> dir_num_entries d"
  shows "pc_lower (interp_aux d i) = dir_entry_base d i"
    and "pc_upper (interp_aux d i) = dir_upper_vaddr d"
    and "pc_arch (interp_aux d i) = d_arch d"
proof -
  have "pc_lower (interp_aux d i) = dir_entry_base d i \<and> pc_upper (interp_aux d i) = dir_upper_vaddr d
      \<and> pc_arch (interp_aux d i) = d_arch d"
    using assms(2)
  proof (induction "dir_num_entries d - i" arbitrary: i)
    case 0
    then show ?case
      using dir_length [OF assms(1)] by (simp add: interp_aux_end dir_upper_vaddr_eq)
  next
    case (Suc n)
    then have "i < dir_num_entries d" by simp
    moreover have "pc_upper (interp_aux d (i + 1)) = dir_upper_vaddr d"
      using Suc.hyps(1) [of "i + 1"] Suc.hyps(2) Suc.prems by simp
    ultimately show ?case
      using dir_length [OF assms(1)] by (simp add: interp_aux_step)
  qed
  then show "pc_lower (interp_aux d i) = dir_entry_base d i"
    "pc_upper (interp_aux d i) = dir_upper_vaddr d" "pc_arch (interp_aux d i) = d_arch d"
    by simp_all
qed

lemma dir_interp_fields [simp]:
  assumes "dir_inv d"
  shows "pc_lower (dir_interp d) = d_base_vaddr d"
    and "pc_upper (dir_interp d) = dir_upper_vaddr d"
    and "pc_arch (dir_interp d) = d_arch d"
  using interp_aux_fields [OF assms, of 0] by (simp_all add: dir_interp_def)

lemma interp_aux_lookup:
  assumes inv: "dir_inv d"
    and dom: "\<And>k. k < dir_num_entries d \<Longrightarrow>
                 dom (entry_map d k) \<subseteq> {dir_entry_base d k..<dir_entry_base d (k + 1)}"
    and "i \<le> dir_num_entries d"
  shows "pc_map (interp_aux d i) va =
    (if dir_entry_base d i \<le> va \<and> va < dir_upper_vaddr d
     then entry_map d (dir_index_for_vaddr d va) va else None)"
  using assms(3)
proof (induction "dir_num_entries d - i" arbitrary: i)
  case 0
  then have "i = dir_num_entries d" by simp
  then show ?case
    using dir_length [OF inv] by (auto simp: interp_aux_end dir_upper_vaddr_eq)
next
  case (Suc n)
  then have i: "i < dir_num_entries d" by simp
  have rem: "pc_map (interp_aux d (i + 1)) va =
      (if dir_entry_base d (i + 1) \<le> va \<and> va < dir_upper_vaddr d
       then entry_map d (dir_index_for_vaddr d va) va else None)"
    using Suc.hyps i by simp
  have step: "pc_map (interp_aux d i) va =
      (case entry_map d i va of Some p \<Rightarrow> Some p | None \<Rightarrow> pc_map (interp_aux d (i + 1)) va)"
    using dir_length [OF inv] i by (simp add: interp_aux_step map_add_def split: option.split)
  show ?case
  proof (cases "dir_entry_base d i \<le> va \<and> va < dir_entry_base d (i + 1)")
    case True
    then have "dir_index_for_vaddr d va = i" "va < dir_upper_vaddr d"
      using dir_index_in_entry [OF inv i] by auto
    then show ?thesis
      using True step rem by (auto split: option.split)
  next
    case False
    then have "entry_map d i va = None"
      using dom [OF i] by (auto simp: domIff subset_iff)
    then show ?thesis
      using False step rem dir_entry_base_mono [of i "i + 1" d] by auto
  qed
qed

lemma dir_map_dom_and_entry:
  assumes "dir_inv d"
  shows "dom (dir_map d) \<subseteq> {d_base_vaddr d..<dir_upper_vaddr d} \<and>
    (\<forall>k<dir_num_entries d. dom (entry_map d k) \<subseteq> {dir_entry_base d k..<dir_entry_base d (k + 1)})"
  using assms
proof (induction d rule: measure_induct_rule [of size])
  case (less d)
  have dom: "dom (entry_map d k) \<subseteq> {dir_entry_base d k..<dir_entry_base d (k + 1)}"
    if k: "k < dir_num_entries d" for k
  proof (cases "d_entries d ! k")
    case (NDirectory d')
    then have "dom (dir_map d') \<subseteq> {d_base_vaddr d'..<dir_upper_vaddr d'}"
      using less.IH [of d'] less.prems k size_child_nth [of k d d'] dir_length [OF less.prems]
        child_inv by auto
    then show ?thesis
      using child_base [OF less.prems k NDirectory] child_upper [OF less.prems k NDirectory] NDirectory
      by (simp add: entry_map_def)
  next
    case (NPage p)
    then show ?thesis
      using dir_es_pos [OF less.prems] by (simp add: entry_map_def dir_entry_base_Suc)
  qed (simp add: entry_map_def)
  have "dir_map d va = None" if "va \<notin> {d_base_vaddr d..<dir_upper_vaddr d}" for va
    using that interp_aux_lookup [OF less.prems dom, of 0 va]
    unfolding dir_interp_def by (auto split: if_splits)
  then have "dom (dir_map d) \<subseteq> {d_base_vaddr d..<dir_upper_vaddr d}"
    by (meson domIff subsetI)
  with dom show ?case by blast
qed

lemma dir_lookup:
  assumes "dir_inv d"
  shows "dir_map d va =
    (if d_base_vaddr d \<le> va \<and> va < dir_upper_vaddr d
     then entry_map d (dir_index_for_vaddr d va) va else None)"
  using interp_aux_lookup [OF assms, of 0 va] dir_map_dom_and_entry [OF assms]
  by (simp add: dir_interp_def)

lemma dir_lookup_in_range:
  assumes "dir_inv d" and "d_base_vaddr d \<le> va" and "va < dir_upper_vaddr d"
  shows "dir_map d va = (case d_entries d ! dir_index_for_vaddr d va of
      NPage p \<Rightarrow> if va = dir_entry_base d (dir_index_for_vaddr d va) then Some p else None
    | NDirectory d' \<Rightarrow> dir_map d' va
    | NEmpty \<Rightarrow> None)"
  using assms by (simp add: dir_lookup entry_map_def split: NodeEntry.split)

lemma dir_lookup_range:
  assumes "dir_inv d" and "dir_map d va = Some p"
  shows "d_base_vaddr d \<le> va" and "va < dir_upper_vaddr d"
  using assms by (auto simp: dir_lookup split: if_splits)

end
