(* ===== verification/PT_Directory_Wf.thy ===== *)
theory PT_Directory_Wf
  imports PT_Directory_Interp
begin

text \<open>
  The interpretation of a directory tree satisfies the invariant of the abstract page
  table, the mapping that covers an address lives in the entry selected by the address's
  index, and replacing one entry of a directory changes the mappings of that entry's
  address range only.
\<close>

section \<open>The interpreted mappings are well formed\<close>

lemma dir_index_range:
  assumes "dir_inv d" and "dir_map d va = Some p"
  shows "dir_index_for_vaddr d va < dir_num_entries d"
    and "dir_entry_base d (dir_index_for_vaddr d va) \<le> va"
    and "va < dir_entry_base d (dir_index_for_vaddr d va + 1)"
  using dir_lookup_range [OF assms] dir_index_less [OF assms(1)] dir_index_bounds [OF assms(1)]
  by blast+

lemma dir_entry_base_le_upper:
  "i < dir_num_entries d \<Longrightarrow> dir_entry_base d (i + 1) \<le> dir_upper_vaddr d"
  unfolding dir_upper_vaddr_eq by (intro dir_entry_base_mono) simp

lemma dir_entry_base_aligned: "dir_inv d \<Longrightarrow> dir_entry_base d i mod dir_entry_size d = 0"
  using dir_base_aligned by (simp add: dir_entry_base_eq mod_add_left_eq [symmetric])

lemma contains_at_least_weaken:
  assumes "contains_entry_size_at_index_atleast a es (m + 1)"
  shows "contains_entry_size_at_index_atleast a es m"
  using assms unfolding contains_entry_size_at_index_atleast_def by (metis add_leD1)

lemma dir_map_entry_wf:
  assumes "dir_inv d" and "dir_map d va = Some p"
  shows "va + frame_size p \<le> dir_entry_base d (dir_index_for_vaddr d va + 1) \<and>
    contains_entry_size_at_index_atleast (d_arch d) (frame_size p) (d_layer d) \<and>
    va mod frame_size p = 0 \<and> frame_base p mod frame_size p = 0"
  using assms
proof (induction d rule: measure_induct_rule [of size])
  case (less d)
  let ?i = "dir_index_for_vaddr d va"
  note r = dir_lookup_range [OF less.prems] and i = dir_index_range [OF less.prems]
  note look = dir_lookup_in_range [OF less.prems(1) r]
  show ?case
  proof (cases "d_entries d ! ?i")
    case (NDirectory d')
    then have p: "dir_map d' va = Some p" using look less.prems(2) by simp
    note c = dir_child [OF less.prems(1) i(1) NDirectory]
    have "size d' < size d"
      using size_child_nth i(1) NDirectory dir_length [OF less.prems(1)] by metis
    note IH = less.IH [OF this c(1) p]
    have "dir_entry_base d' (dir_index_for_vaddr d' va + 1) \<le> dir_entry_base d (?i + 1)"
      using dir_entry_base_le_upper dir_index_range [OF c(1) p] c(7) by metis
    with IH c(2,4) show ?thesis
      using contains_at_least_weaken by (metis add.commute le_trans)
  next
    case (NPage q)
    then have q: "q = p" "va = dir_entry_base d ?i"
      using look less.prems(2) by (auto split: if_splits)
    note s = dir_page [OF less.prems(1) i(1) NPage]
    have "contains_entry_size_at_index_atleast (d_arch d) (dir_entry_size d) (d_layer d)"
      using dir_layer_less [OF less.prems(1)]
      unfolding contains_entry_size_at_index_atleast_def dir_entry_size_def by blast
    moreover have "va mod dir_entry_size d = 0"
      using dir_entry_base_aligned [OF less.prems(1)] q(2) by metis
    moreover have "va + dir_entry_size d = dir_entry_base d (?i + 1)"
      using q(2) dir_entry_base_Suc(1) by metis
    ultimately show ?thesis using s q(1) by simp
  next
    case NEmpty
    then show ?thesis using look less.prems(2) by simp
  qed
qed

lemma dir_map_size_pos:
  assumes "dir_inv d" and "dir_map d va = Some p"
  shows "0 < frame_size p"
proof -
  have "contains_entry_size_at_index_atleast (d_arch d) (frame_size p) 0"
    using dir_map_entry_wf [OF assms]
    unfolding contains_entry_size_at_index_atleast_def by blast
  then show ?thesis
    using contains_entry_size_pos dir_arch_inv [OF assms(1)] contains_entry_size_def by metis
qed

lemma dir_map_upper:
  assumes "dir_inv d" and "dir_map d va = Some p"
  shows "va + frame_size p \<le> dir_upper_vaddr d"
  using dir_map_entry_wf [OF assms] dir_entry_base_le_upper [OF dir_index_range(1) [OF assms]]
  by linarith

lemma dir_map_ordered:
  assumes "dir_inv d" and "dir_map d b1 = Some p1" and "dir_map d b2 = Some p2" and "b1 < b2"
  shows "b1 + frame_size p1 \<le> b2"
  using assms
proof (induction d rule: measure_induct_rule [of size])
  case (less d)
  let ?i1 = "dir_index_for_vaddr d b1" and ?i2 = "dir_index_for_vaddr d b2"
  note inv = less.prems(1)
  note i1 = dir_index_range [OF inv less.prems(2)] and i2 = dir_index_range [OF inv less.prems(3)]
  note look = dir_lookup_in_range [OF inv dir_lookup_range [OF inv less.prems(2)]]
    dir_lookup_in_range [OF inv dir_lookup_range [OF inv less.prems(3)]]
  have end1: "b1 + frame_size p1 \<le> dir_entry_base d (?i1 + 1)"
    using dir_map_entry_wf [OF inv less.prems(2)] by simp
  have "?i1 \<le> ?i2"
    unfolding dir_index_eq using less.prems(4) by (intro div_le_mono) simp
  then consider "?i1 < ?i2" | "?i1 = ?i2" by linarith
  then show ?case
  proof cases
    case 1
    then have "dir_entry_base d (?i1 + 1) \<le> dir_entry_base d ?i2"
      by (intro dir_entry_base_mono) simp
    then show ?thesis using end1 i2(2) by simp
  next
    case 2
    show ?thesis
    proof (cases "d_entries d ! ?i1")
      case (NDirectory d')
      then have "dir_map d' b1 = Some p1" "dir_map d' b2 = Some p2"
        using look 2 less.prems(2,3) by auto
      moreover have "size d' < size d"
        using size_child_nth i1(1) NDirectory dir_length [OF inv] by metis
      ultimately show ?thesis
        using less.IH child_inv [OF inv i1(1) NDirectory] less.prems(4) by blast
    next
      case (NPage q)
      then have "b1 = b2" using look 2 less.prems(2,3) by (auto split: if_splits)
      then show ?thesis using less.prems(4) by simp
    next
      case NEmpty
      then show ?thesis using look less.prems(2) by simp
    qed
  qed
qed

theorem dir_interp_inv:
  assumes "dir_inv d"
  shows "pc_inv (dir_interp d)"
proof -
  have "finite (dom (dir_map d))"
    using dir_map_dom_and_entry [OF assms] finite_subset by blast
  moreover have "pc_mappings_are_of_valid_size (dir_interp d)"
    using dir_map_entry_wf [OF assms] assms
    unfolding pc_mappings_are_of_valid_size_def contains_entry_size_def
      contains_entry_size_at_index_atleast_def by fastforce
  moreover have "pc_mappings_are_aligned (dir_interp d)"
    using dir_map_entry_wf [OF assms]
    unfolding pc_mappings_are_aligned_def aligned_def by fastforce
  moreover have "pc_mappings_in_bounds (dir_interp d)"
    using dir_map_upper [OF assms] dir_lookup_range(1) [OF assms] assms
    unfolding pc_mappings_in_bounds_def pc_candidate_mapping_in_bounds_def by fastforce
  moreover have "pc_mappings_dont_overlap (dir_interp d)"
    unfolding pc_mappings_dont_overlap_def
  proof (intro ballI)
    fix b1 b2 assume "b1 \<in> dom (dir_map d)" and "b2 \<in> dom (dir_map d)"
    then obtain p1 p2 where p: "dir_map d b1 = Some p1" "dir_map d b2 = Some p2" by blast
    show "b1 = b2 \<or> \<not> overlap (vmem_region b1 (the (dir_map d b1))) (vmem_region b2 (the (dir_map d b2)))"
      using dir_map_ordered [OF assms p] dir_map_ordered [OF assms p(2,1)] p
      by (cases b1 b2 rule: linorder_cases) (auto simp: not_overlap_iff)
  qed
  ultimately show ?thesis
    using dir_arch_inv [OF assms] assms by (simp add: pc_inv_def)
qed

section \<open>Mappings that meet an address range\<close>

lemma dir_overlap_local:
  assumes inv: "dir_inv d" and b: "dir_map d b = Some p"
    and lo: "dir_entry_base d i \<le> va" and hi: "va + sz \<le> dir_entry_base d (i + 1)"
    and sz: "0 < sz" and ov: "overlap \<lparr>mr_base = va, mr_size = sz\<rparr> (vmem_region b p)"
  shows "dir_index_for_vaddr d b = i"
proof -
  let ?k = "dir_index_for_vaddr d b"
  note k = dir_index_range [OF inv b]
  have e: "b + frame_size p \<le> dir_entry_base d (?k + 1)" "0 < frame_size p"
    using dir_map_entry_wf [OF inv b] dir_map_size_pos [OF inv b] by auto
  have "\<not> ?k < i"
  proof
    assume "?k < i"
    then have "dir_entry_base d (?k + 1) \<le> dir_entry_base d i"
      by (intro dir_entry_base_mono) simp
    then show False using ov e lo sz by (auto simp: overlap_def split: if_splits)
  qed
  moreover have "\<not> i < ?k"
  proof
    assume "i < ?k"
    then have "dir_entry_base d (i + 1) \<le> dir_entry_base d ?k"
      by (intro dir_entry_base_mono) simp
    then show False using ov e hi sz k(2) by (auto simp: overlap_def split: if_splits)
  qed
  ultimately show ?thesis by simp
qed

lemma dir_cover_local:
  assumes "dir_inv d" and "dir_map d b = Some p" and "between va b (b + frame_size p)"
  shows "dir_index_for_vaddr d b = dir_index_for_vaddr d va"
proof -
  have "dir_index_for_vaddr d va = dir_index_for_vaddr d b"
    using dir_index_range [OF assms(1,2)] dir_map_entry_wf [OF assms(1,2)] assms(3)
    by (intro dir_index_in_entry(1) [OF assms(1)]) (auto simp: between_def)
  then show ?thesis by simp
qed

section \<open>Replacing one entry\<close>

definition same_shape :: "Directory \<Rightarrow> Directory \<Rightarrow> bool" where
  "same_shape d d' \<longleftrightarrow>
     d_layer d' = d_layer d \<and> d_base_vaddr d' = d_base_vaddr d \<and> d_arch d' = d_arch d"

definition entry_fits :: "Directory \<Rightarrow> nat \<Rightarrow> NodeEntry \<Rightarrow> bool" where
  "entry_fits d i e = (case e of
     NPage p \<Rightarrow> frame_size p = dir_entry_size d \<and> frame_base p mod dir_entry_size d = 0
   | NDirectory d' \<Rightarrow> dir_inv d' \<and> d_layer d' = d_layer d + 1 \<and>
       d_base_vaddr d' = dir_entry_base d i \<and> d_arch d' = d_arch d \<and> \<not> dir_empty d'
   | NEmpty \<Rightarrow> True)"

lemma dir_update_fields [simp]:
  "d_entries (dir_update d i e) = (d_entries d)[i := e]"
  "d_layer (dir_update d i e) = d_layer d" "d_base_vaddr (dir_update d i e) = d_base_vaddr d"
  "d_arch (dir_update d i e) = d_arch d" "d_flags (dir_update d i e) = d_flags d"
  "dir_entry_size (dir_update d i e) = dir_entry_size d"
  "dir_num_entries (dir_update d i e) = dir_num_entries d"
  "dir_entry_base (dir_update d i e) k = dir_entry_base d k"
  "dir_upper_vaddr (dir_update d i e) = dir_upper_vaddr d"
  "dir_index_for_vaddr (dir_update d i e) va = dir_index_for_vaddr d va"
  by (simp_all add: dir_update_def dir_entry_size_def dir_num_entries_def dir_entry_base_def
      dir_upper_vaddr_def dir_index_for_vaddr_def)

lemma same_shape_simps:
  assumes "same_shape d d'"
  shows "dir_entry_size d' = dir_entry_size d" "dir_num_entries d' = dir_num_entries d"
    "dir_entry_base d' k = dir_entry_base d k" "dir_upper_vaddr d' = dir_upper_vaddr d"
    "dir_index_for_vaddr d' va = dir_index_for_vaddr d va"
  using assms by (simp_all add: same_shape_def dir_entry_size_def dir_num_entries_def
      dir_entry_base_def dir_upper_vaddr_def dir_index_for_vaddr_def)

lemma same_shape_update [simp]: "same_shape d (dir_update d i e)"
  by (simp add: same_shape_def)

lemma dir_update_same [simp]: "dir_update d i (d_entries d ! i) = d"
  by (cases d) (simp add: dir_update_def)

lemma entry_fits_existing:
  assumes "dir_inv d" and "i < dir_num_entries d"
  shows "entry_fits d i (d_entries d ! i)"
  using dir_child [OF assms] dir_page [OF assms]
  by (auto simp: entry_fits_def split: NodeEntry.split)

lemma dir_update_inv:
  assumes inv: "dir_inv d" and i: "i < dir_num_entries d" and fits: "entry_fits d i e"
  shows "dir_inv (dir_update d i e)"
proof (rule dir_invI)
  have "dir_well_formed d" using inv by (simp add: dir_inv_iff)
  then show "dir_well_formed (dir_update d i e)"
    by (simp add: dir_well_formed_def)
next
  fix k p
  assume k: "k < dir_num_entries (dir_update d i e)" "d_entries (dir_update d i e) ! k = NPage p"
  then have "entry_fits d k (NPage p)"
    using fits entry_fits_existing [OF inv, of k] dir_length [OF inv] by (cases "k = i") auto
  then show "frame_size p = dir_entry_size (dir_update d i e) \<and>
      frame_base p mod dir_entry_size (dir_update d i e) = 0"
    by (simp add: entry_fits_def)
next
  fix k d'
  assume k: "k < dir_num_entries (dir_update d i e)" "d_entries (dir_update d i e) ! k = NDirectory d'"
  then have "entry_fits d k (NDirectory d')"
    using fits entry_fits_existing [OF inv, of k] dir_length [OF inv] by (cases "k = i") auto
  then show "dir_inv d' \<and> d_layer d' = d_layer (dir_update d i e) + 1 \<and>
      d_base_vaddr d' = dir_entry_base (dir_update d i e) k \<and>
      d_arch d' = d_arch (dir_update d i e) \<and> \<not> dir_empty d'"
    by (simp add: entry_fits_def)
qed

lemma dir_update_lookup:
  assumes inv: "dir_inv d" and i: "i < dir_num_entries d" and fits: "entry_fits d i e"
  shows "dir_map (dir_update d i e) va =
    (if dir_entry_base d i \<le> va \<and> va < dir_entry_base d (i + 1)
     then (case e of NPage p \<Rightarrow> if va = dir_entry_base d i then Some p else None
           | NDirectory d' \<Rightarrow> dir_map d' va | NEmpty \<Rightarrow> None)
     else dir_map d va)"
proof (cases "dir_entry_base d i \<le> va \<and> va < dir_entry_base d (i + 1)")
  case True
  then have "dir_index_for_vaddr d va = i" "d_base_vaddr d \<le> va" "va < dir_upper_vaddr d"
    using dir_index_in_entry [OF inv i] by auto
  then show ?thesis
    using True dir_lookup_in_range [OF dir_update_inv [OF assms], of va] dir_length [OF inv] i
    by (simp split: NodeEntry.split)
next
  case False
  show ?thesis
  proof (cases "d_base_vaddr d \<le> va \<and> va < dir_upper_vaddr d")
    case True
    then have "dir_index_for_vaddr d va \<noteq> i"
      using False dir_index_bounds [OF inv] by auto
    then show ?thesis
      using False True dir_lookup_in_range [OF dir_update_inv [OF assms], of va]
        dir_lookup_in_range [OF inv, of va] by (auto split: NodeEntry.split)
  next
    case oob: False
    then show ?thesis
      using False dir_lookup [OF dir_update_inv [OF assms], of va] dir_lookup [OF inv, of va] by auto
  qed
qed

section \<open>Empty directories\<close>

lemma dir_empty_map:
  assumes "dir_inv d" and "dir_empty d"
  shows "dir_map d = Map.empty"
proof
  fix va
  show "dir_map d va = None"
  proof (cases "d_base_vaddr d \<le> va \<and> va < dir_upper_vaddr d")
    case True
    then show ?thesis
      using assms dir_lookup_in_range [OF assms(1), of va] dir_index_less [OF assms(1), of va]
      by (simp add: dir_empty_def)
  qed (auto simp: dir_lookup [OF assms(1)])
qed

lemma dir_nonempty_map:
  assumes "dir_inv d" and "\<not> dir_empty d"
  shows "\<exists>va p. dir_map d va = Some p"
  using assms
proof (induction d rule: measure_induct_rule [of size])
  case (less d)
  obtain i where i: "i < dir_num_entries d" "d_entries d ! i \<noteq> NEmpty"
    using less.prems(2) by (auto simp: dir_empty_def)
  show ?case
  proof (cases "d_entries d ! i")
    case (NDirectory d')
    note c = dir_child [OF less.prems(1) i(1) NDirectory]
    have "size d' < size d"
      using size_child_nth i(1) NDirectory dir_length [OF less.prems(1)] by metis
    then obtain va p where p: "dir_map d' va = Some p"
      using less.IH c(1,5) by blast
    then have "dir_entry_base d i \<le> va" "va < dir_entry_base d (i + 1)"
      using dir_lookup_range [OF c(1) p] c(3,7) by simp_all
    note ii = dir_index_in_entry [OF less.prems(1) i(1) this]
    have "dir_map d va = Some p"
      using dir_lookup_in_range [OF less.prems(1) ii(2,3)] ii(1) NDirectory p by simp
    then show ?thesis by blast
  next
    case (NPage p)
    have "dir_entry_base d i < dir_entry_base d (i + 1)"
      using dir_es_pos [OF less.prems(1)] by (simp add: dir_entry_base_Suc)
    note ii = dir_index_in_entry [OF less.prems(1) i(1) order_refl this]
    have "dir_map d (dir_entry_base d i) = Some p"
      using dir_lookup_in_range [OF less.prems(1) ii(2,3)] ii(1) NPage by simp
    then show ?thesis by blast
  qed (use i in simp)
qed

lemma dir_new_empty_dir_facts:
  assumes inv: "dir_inv d" and i: "i < dir_num_entries d"
    and l: "d_layer d + 1 < length (layers (d_arch d))"
  shows "dir_inv (dir_new_empty_dir d i)"
    and "dir_empty (dir_new_empty_dir d i)"
    and "dir_upper_vaddr (dir_new_empty_dir d i) = dir_entry_base d (i + 1)"
proof -
  let ?n = "dir_new_empty_dir d i"
  have ent: "d_entries ?n = replicate (dir_num_entries ?n) NEmpty"
    by (simp add: dir_new_empty_dir_def new_seq_replicate dir_num_entries_def)
  have es: "dir_entry_size d = dir_entry_size ?n * dir_num_entries ?n"
    using arch_inv_next [OF dir_arch_inv [OF inv], of "d_layer d"] l
    by (simp add: dir_entry_size_def dir_num_entries_def dir_new_empty_dir_def)
  have "dir_well_formed ?n"
    unfolding dir_well_formed_def
    using dir_arch_inv [OF inv] l ent dir_entry_base_aligned [OF inv, of i] es
    by (simp add: aligned_def) (simp add: dir_new_empty_dir_def)
  then show "dir_inv ?n"
    by (rule dir_invI) (simp_all add: ent)
  show "dir_empty ?n" by (simp add: dir_empty_def ent)
  show "dir_upper_vaddr ?n = dir_entry_base d (i + 1)"
    unfolding dir_upper_vaddr_eq [of ?n] dir_entry_base_eq [of ?n] dir_entry_base_Suc es
    by (simp add: dir_new_empty_dir_def algebra_simps)
qed

lemma dir_update_nonempty:
  assumes "i < dir_num_entries d" and "length (d_entries d) = dir_num_entries d" and "e \<noteq> NEmpty"
  shows "\<not> dir_empty (dir_update d i e)"
  using assms by (auto simp: dir_empty_def intro!: exI [of _ i])

end
