(* ===== verification/PT_Directory_Refine.thy ===== *)
theory PT_Directory_Refine
  imports PT_Directory_Wf
begin

text \<open>
  The operations on directory trees refine the operations on the flat page table: the
  counterparts of \<^verbatim>\<open>lemma_resolve_refines\<close>, \<^verbatim>\<open>lemma_map_frame_refines_map_frame\<close>,
  \<^verbatim>\<open>lemma_map_frame_preserves_inv\<close>, \<^verbatim>\<open>lemma_unmap_refines_unmap\<close> and
  \<^verbatim>\<open>lemma_unmap_preserves_inv\<close> of \<^verbatim>\<open>page-table/impl_u/l1.rs\<close>.
\<close>

lemma size_child_index:
  assumes "dir_inv d" and "i < dir_num_entries d" and "d_entries d ! i = NDirectory d'"
  shows "size d' < size d"
  using assms size_child_nth dir_length by metis

section \<open>Resolving an address\<close>

lemma dir_resolve_covered:
  assumes "dir_inv d" and "dir_map d b = Some p" and "between va b (b + frame_size p)"
  shows "dir_resolve d va = Ok (b, p)"
  using assms
proof (induction d rule: measure_induct_rule [of size])
  case (less d)
  let ?i = "dir_index_for_vaddr d va"
  note inv = less.prems(1) and b = less.prems(2)
  have ib: "dir_index_for_vaddr d b = ?i"
    using dir_cover_local [OF less.prems] .
  then have i: "?i < dir_num_entries d" "?i < length (d_entries d)"
    using dir_index_range(1) [OF inv b] dir_length [OF inv] by simp_all
  note look = dir_lookup_in_range [OF inv dir_lookup_range [OF inv b], unfolded ib]
  show ?case
  proof (cases "d_entries d ! ?i")
    case (NDirectory d')
    then have "dir_map d' b = Some p" using look b by simp
    then have "dir_resolve d' va = Ok (b, p)"
      using less.IH size_child_index [OF inv i(1) NDirectory] child_inv [OF inv i(1) NDirectory]
        less.prems(3) by blast
    then show ?thesis
      using i NDirectory by (subst dir_resolve.simps) (simp add: Let_def)
  next
    case (NPage q)
    then have "q = p" "b = dir_entry_base d ?i"
      using look b by (auto split: if_splits)
    then show ?thesis
      using i NPage by (subst dir_resolve.simps) (simp add: Let_def)
  next
    case NEmpty
    then show ?thesis using look b by simp
  qed
qed

lemma dir_resolve_uncovered:
  assumes "dir_inv d" and "d_base_vaddr d \<le> va" and "va < dir_upper_vaddr d"
    and "\<And>b p. dir_map d b = Some p \<Longrightarrow> \<not> between va b (b + frame_size p)"
  shows "dir_resolve d va = Err ()"
  using assms
proof (induction d rule: measure_induct_rule [of size])
  case (less d)
  let ?i = "dir_index_for_vaddr d va"
  note inv = less.prems(1)
  have i: "?i < dir_num_entries d" "?i < length (d_entries d)"
    using dir_index_less [OF less.prems(1-3)] dir_length [OF inv] by simp_all
  note bounds = dir_index_bounds [OF less.prems(1,2)]
  show ?case
  proof (cases "d_entries d ! ?i")
    case (NDirectory d')
    note c = dir_child [OF inv i(1) NDirectory]
    have "\<not> between va b (b + frame_size p)" if p: "dir_map d' b = Some p" for b p
    proof -
      have r: "dir_entry_base d ?i \<le> b" "b < dir_entry_base d (?i + 1)"
        using dir_lookup_range [OF c(1) p] c(3,7) by simp_all
      note ii = dir_index_in_entry [OF inv i(1) r]
      have "dir_map d b = Some p"
        using dir_lookup_in_range [OF inv ii(2,3)] ii(1) NDirectory p by simp
      then show ?thesis by (rule less.prems(4))
    qed
    then have "dir_resolve d' va = Err ()"
      using less.IH [OF size_child_index [OF inv i(1) NDirectory] c(1)] bounds c(3,7) by metis
    then show ?thesis
      using i NDirectory by (subst dir_resolve.simps) (simp add: Let_def)
  next
    case (NPage p)
    have "dir_entry_base d ?i < dir_entry_base d (?i + 1)" using bounds by linarith
    note ii = dir_index_in_entry [OF inv i(1) order_refl this]
    have "dir_map d (dir_entry_base d ?i) = Some p"
      using dir_lookup_in_range [OF inv ii(2,3)] ii(1) NPage by simp
    moreover have "between va (dir_entry_base d ?i) (dir_entry_base d ?i + frame_size p)"
      using bounds page_size [OF inv i(1) NPage] by (simp add: between_def dir_entry_base_Suc)
    ultimately show ?thesis using less.prems(4) by blast
  next
    case NEmpty
    then show ?thesis
      using i by (subst dir_resolve.simps) (simp add: Let_def)
  qed
qed

section \<open>Mapping a frame\<close>

lemma dir_accepted_in_entry:
  assumes inv: "dir_inv d" and acc: "dir_accepted_mapping d va pte"
  shows "0 < frame_size pte"
    and "d_base_vaddr d \<le> va" and "va < dir_upper_vaddr d"
    and "va + frame_size pte \<le> dir_entry_base d (dir_index_for_vaddr d va + 1)"
    and "dir_entry_size d mod frame_size pte = 0"
proof -
  obtain j where j: "j < length (layers (d_arch d))" "d_layer d \<le> j"
      "entry_size (d_arch d) j = frame_size pte"
    using acc unfolding dir_accepted_mapping_def contains_entry_size_at_index_atleast_def by blast
  show pos: "0 < frame_size pte"
    using j entry_size_pos dir_arch_inv [OF inv] by metis
  show es: "dir_entry_size d mod frame_size pte = 0"
    using entry_sizes_aligned [OF dir_arch_inv [OF inv] j(2,1)] j(3)
    by (simp add: aligned_def dir_entry_size_def)
  show lo: "d_base_vaddr d \<le> va" and hi: "va < dir_upper_vaddr d"
    using acc pos by (simp_all add: dir_accepted_mapping_def dir_candidate_mapping_in_bounds_def)
  let ?e = "dir_entry_base d (dir_index_for_vaddr d va + 1)"
  have "?e mod dir_entry_size d = 0" by (rule dir_entry_base_aligned [OF inv])
  then have "frame_size pte dvd ?e" using es by (meson dvd_trans mod_eq_0_iff_dvd)
  moreover have "frame_size pte dvd va"
    using acc by (simp add: dir_accepted_mapping_def aligned_def mod_eq_0_iff_dvd)
  ultimately have "frame_size pte dvd ?e - va" by (rule dvd_diff_nat)
  moreover have "0 < ?e - va" using dir_index_bounds(2) [OF inv lo] by simp
  ultimately have "frame_size pte \<le> ?e - va" by (rule dvd_imp_le)
  then show "va + frame_size pte \<le> ?e" using \<open>0 < ?e - va\<close> by linarith
qed

lemma dir_accepted_child:
  assumes inv: "dir_inv d" and acc: "dir_accepted_mapping d va pte"
    and ne: "dir_entry_size d \<noteq> frame_size pte"
    and d': "d_layer d' = d_layer d + 1" "d_arch d' = d_arch d"
      "d_base_vaddr d' = dir_entry_base d (dir_index_for_vaddr d va)"
      "dir_upper_vaddr d' = dir_entry_base d (dir_index_for_vaddr d va + 1)"
  shows "dir_accepted_mapping d' va pte"
proof -
  obtain j where j: "j < length (layers (d_arch d))" "d_layer d \<le> j"
      "entry_size (d_arch d) j = frame_size pte"
    using acc unfolding dir_accepted_mapping_def contains_entry_size_at_index_atleast_def by blast
  moreover have "j \<noteq> d_layer d" using j(3) ne by (auto simp: dir_entry_size_def)
  ultimately have "contains_entry_size_at_index_atleast (d_arch d') (frame_size pte) (d_layer d')"
    unfolding contains_entry_size_at_index_atleast_def d' by (intro exI [of _ j]) auto
  moreover have "dir_candidate_mapping_in_bounds d' va pte"
    unfolding dir_candidate_mapping_in_bounds_def d'
    using dir_index_bounds(1) [OF inv] dir_accepted_in_entry [OF inv acc] by blast
  ultimately show ?thesis using acc by (simp add: dir_accepted_mapping_def)
qed

lemma dir_aligned_entry_base:
  assumes inv: "dir_inv d" and "d_base_vaddr d \<le> va" and "va mod dir_entry_size d = 0"
  shows "va = dir_entry_base d (dir_index_for_vaddr d va)"
  using aligned_offset_zero [OF dir_base_aligned [OF inv] assms(3), of "dir_index_for_vaddr d va"]
    dir_index_bounds [OF assms(1,2)] by (simp add: dir_entry_base_eq)

definition overlaps_existing :: "Directory \<Rightarrow> nat \<Rightarrow> PageTableEntry \<Rightarrow> bool" where
  "overlaps_existing d va pte \<longleftrightarrow>
     (\<exists>b p. dir_map d b = Some p \<and> overlap (vmem_region va pte) (vmem_region b p))"

lemma overlaps_existing_child:
  assumes inv: "dir_inv d" and acc: "dir_accepted_mapping d va pte"
    and e: "d_entries d ! dir_index_for_vaddr d va = NDirectory d'"
  shows "overlaps_existing d va pte = overlaps_existing d' va pte"
proof -
  let ?i = "dir_index_for_vaddr d va"
  note a = dir_accepted_in_entry [OF inv acc]
  have i: "?i < dir_num_entries d" using dir_index_less [OF inv a(2,3)] .
  note c = dir_child [OF inv i e]
  have "dir_map d' b = Some p"
    if p: "dir_map d b = Some p" and o: "overlap (vmem_region va pte) (vmem_region b p)" for b p
  proof -
    have "dir_index_for_vaddr d b = ?i"
      using dir_overlap_local [OF inv p dir_index_bounds(1) [OF inv a(2)] a(4,1) o] .
    then show ?thesis
      using dir_lookup_in_range [OF inv dir_lookup_range [OF inv p]] e p by simp
  qed
  moreover have "dir_map d b = Some p" if p: "dir_map d' b = Some p" for b p
  proof -
    have r: "dir_entry_base d ?i \<le> b" "b < dir_entry_base d (?i + 1)"
      using dir_lookup_range [OF c(1) p] c(3,7) by simp_all
    note ii = dir_index_in_entry [OF inv i r]
    show ?thesis
      using dir_lookup_in_range [OF inv ii(2,3)] ii(1) e p by simp
  qed
  ultimately show ?thesis unfolding overlaps_existing_def by blast
qed

lemma dir_update_map_child:
  assumes inv: "dir_inv d" and va: "d_base_vaddr d \<le> va" "va < dir_upper_vaddr d"
    and fits: "entry_fits d (dir_index_for_vaddr d va) (NDirectory d')"
    and d': "dir_map d' = m(va := x)"
    and m: "\<And>v. dir_entry_base d (dir_index_for_vaddr d va) \<le> v \<Longrightarrow>
              v < dir_entry_base d (dir_index_for_vaddr d va + 1) \<Longrightarrow> dir_map d v = m v"
  shows "dir_map (dir_update d (dir_index_for_vaddr d va) (NDirectory d')) = (dir_map d)(va := x)"
proof
  fix v
  have i: "dir_index_for_vaddr d va < dir_num_entries d" by (rule dir_index_less [OF inv va])
  show "dir_map (dir_update d (dir_index_for_vaddr d va) (NDirectory d')) v = ((dir_map d)(va := x)) v"
    using dir_update_lookup [OF inv i fits, of v] d' m [of v] dir_index_bounds [OF inv va(1)]
    by (auto simp del: fun_upd_apply) (auto simp: fun_upd_apply)
qed

text \<open>What \<open>map_frame\<close> does to a directory, and the five cases of the code.\<close>

definition map_frame_ok :: "Directory \<Rightarrow> nat \<Rightarrow> PageTableEntry \<Rightarrow> bool" where
  "map_frame_ok d va pte \<longleftrightarrow>
     (if overlaps_existing d va pte then dir_map_frame d va pte = Err d
      else \<exists>d'. dir_map_frame d va pte = Ok d' \<and> dir_inv d' \<and> same_shape d d' \<and>
                \<not> dir_empty d' \<and> dir_map d' = (dir_map d)(va \<mapsto> pte))"

lemma dir_accepted_index:
  assumes "dir_inv d" and "dir_accepted_mapping d va pte"
  shows "dir_index_for_vaddr d va < dir_num_entries d"
    and "dir_index_for_vaddr d va < length (d_entries d)"
  using dir_index_less dir_accepted_in_entry [OF assms] dir_length assms(1) by auto

lemma dir_entry_lookup:
  assumes "dir_inv d" and "i < dir_num_entries d"
    and "dir_entry_base d i \<le> v" and "v < dir_entry_base d (i + 1)"
  shows "dir_map d v = (case d_entries d ! i of
      NPage p \<Rightarrow> if v = dir_entry_base d i then Some p else None
    | NDirectory d' \<Rightarrow> dir_map d' v | NEmpty \<Rightarrow> None)"
  using dir_lookup_in_range [OF assms(1) dir_index_in_entry(2,3) [OF assms]]
  unfolding dir_index_in_entry(1) [OF assms] .

lemma map_frame_okI:
  assumes inv: "dir_inv d" and acc: "dir_accepted_mapping d va pte"
    and noov: "\<not> overlaps_existing d va pte"
    and fits: "entry_fits d (dir_index_for_vaddr d va) e" "e \<noteq> NEmpty"
    and res: "dir_map_frame d va pte = Ok (dir_update d (dir_index_for_vaddr d va) e)"
    and map: "dir_map (dir_update d (dir_index_for_vaddr d va) e) = (dir_map d)(va \<mapsto> pte)"
  shows "map_frame_ok d va pte"
proof -
  note i = dir_accepted_index [OF inv acc]
  have "dir_inv (dir_update d (dir_index_for_vaddr d va) e)"
    by (rule dir_update_inv [OF inv i(1) fits(1)])
  moreover have "\<not> dir_empty (dir_update d (dir_index_for_vaddr d va) e)"
    by (rule dir_update_nonempty [OF i(1) dir_length [OF inv] fits(2)])
  ultimately show ?thesis
    unfolding map_frame_ok_def
    using noov res map same_shape_update [of d "dir_index_for_vaddr d va" e] by auto
qed

lemma map_frame_ok_page:
  assumes inv: "dir_inv d" and acc: "dir_accepted_mapping d va pte"
    and e: "d_entries d ! dir_index_for_vaddr d va = NPage p"
  shows "map_frame_ok d va pte"
proof -
  let ?i = "dir_index_for_vaddr d va"
  note i = dir_accepted_index [OF inv acc]
  note bounds = dir_index_bounds [OF inv dir_accepted_in_entry(2) [OF inv acc]]
  have "dir_entry_base d ?i < dir_entry_base d (?i + 1)" using bounds by linarith
  then have "dir_map d (dir_entry_base d ?i) = Some p"
    using dir_entry_lookup [OF inv i(1) order_refl] e by simp
  moreover have "overlap (vmem_region va pte) (vmem_region (dir_entry_base d ?i) p)"
    using bounds page_size [OF inv i(1) e] by (auto simp: overlap_def dir_entry_base_Suc)
  ultimately have "overlaps_existing d va pte" by (auto simp: overlaps_existing_def)
  then show ?thesis
    using dir_map_frame.simps [of d va pte] inv acc i e by (simp add: Let_def map_frame_ok_def)
qed

lemma map_frame_ok_directory_same_size:
  assumes inv: "dir_inv d" and acc: "dir_accepted_mapping d va pte"
    and e: "d_entries d ! dir_index_for_vaddr d va = NDirectory d0"
    and sz: "dir_entry_size d = frame_size pte"
  shows "map_frame_ok d va pte"
proof -
  let ?i = "dir_index_for_vaddr d va"
  note i = dir_accepted_index [OF inv acc]
  note c = dir_child [OF inv i(1) e]
  have va: "va = dir_entry_base d ?i"
    using dir_aligned_entry_base [OF inv dir_accepted_in_entry(2) [OF inv acc]] acc sz
    by (simp add: dir_accepted_mapping_def aligned_def)
  obtain b p where p: "dir_map d0 b = Some p" using dir_nonempty_map c(1,5) by blast
  have "va \<le> b" "b < va + frame_size pte"
    using dir_lookup_range [OF c(1) p] c(3,7) va sz dir_entry_base_Suc(1) [of d ?i] by simp_all
  then have "overlaps_existing d0 va pte"
    using p unfolding overlaps_existing_def by (auto simp: overlap_def)
  then have "overlaps_existing d va pte"
    using overlaps_existing_child [OF inv acc e] by simp
  then show ?thesis
    using dir_map_frame.simps [of d va pte] inv acc i e sz by (simp add: Let_def map_frame_ok_def)
qed

lemma map_frame_ok_directory:
  assumes inv: "dir_inv d" and acc: "dir_accepted_mapping d va pte"
    and e: "d_entries d ! dir_index_for_vaddr d va = NDirectory d0"
    and sz: "dir_entry_size d \<noteq> frame_size pte" and rec: "map_frame_ok d0 va pte"
  shows "map_frame_ok d va pte"
proof -
  let ?i = "dir_index_for_vaddr d va"
  note i = dir_accepted_index [OF inv acc]
  note c = dir_child [OF inv i(1) e]
  note ov = overlaps_existing_child [OF inv acc e]
  note unf = dir_map_frame.simps [of d va pte]
  show ?thesis
  proof (cases "overlaps_existing d0 va pte")
    case True
    then have "dir_map_frame d va pte = Err (dir_update d ?i (d_entries d ! ?i))"
      using rec unf inv acc i e sz by (simp add: Let_def map_frame_ok_def)
    then show ?thesis using ov True by (simp add: map_frame_ok_def)
  next
    case False
    then obtain d1 where d1: "dir_map_frame d0 va pte = Ok d1" "dir_inv d1" "same_shape d0 d1"
        "\<not> dir_empty d1" "dir_map d1 = (dir_map d0)(va \<mapsto> pte)"
      using rec by (auto simp: map_frame_ok_def)
    have fits: "entry_fits d ?i (NDirectory d1)"
      using d1 c by (simp add: entry_fits_def same_shape_def)
    have "dir_map (dir_update d ?i (NDirectory d1)) = (dir_map d)(va \<mapsto> pte)"
      using dir_update_map_child [OF inv dir_accepted_in_entry(2,3) [OF inv acc] fits d1(5)]
        dir_entry_lookup [OF inv i(1)] e by simp
    moreover have "dir_map_frame d va pte = Ok (dir_update d ?i (NDirectory d1))"
      using d1(1) unf inv acc i e sz by (simp add: Let_def)
    ultimately show ?thesis
      using map_frame_okI [OF inv acc _ fits] ov False by simp
  qed
qed

lemma empty_entry_no_overlap:
  assumes inv: "dir_inv d" and acc: "dir_accepted_mapping d va pte"
    and e: "d_entries d ! dir_index_for_vaddr d va = NEmpty"
  shows "\<not> overlaps_existing d va pte"
proof
  note a = dir_accepted_in_entry [OF inv acc]
  assume "overlaps_existing d va pte"
  then obtain b p where p: "dir_map d b = Some p" and o: "overlap (vmem_region va pte) (vmem_region b p)"
    by (auto simp: overlaps_existing_def)
  have "dir_index_for_vaddr d b = dir_index_for_vaddr d va"
    using dir_overlap_local [OF inv p dir_index_bounds(1) [OF inv a(2)] a(4,1) o] .
  then show False
    using dir_entry_lookup [OF inv dir_index_range [OF inv p]] e p by simp
qed

lemma map_frame_ok_empty_same_size:
  assumes inv: "dir_inv d" and acc: "dir_accepted_mapping d va pte"
    and e: "d_entries d ! dir_index_for_vaddr d va = NEmpty"
    and sz: "dir_entry_size d = frame_size pte"
  shows "map_frame_ok d va pte"
proof -
  let ?i = "dir_index_for_vaddr d va"
  note i = dir_accepted_index [OF inv acc]
  note bounds = dir_index_bounds [OF inv dir_accepted_in_entry(2) [OF inv acc]]
  have va: "va = dir_entry_base d ?i"
    using dir_aligned_entry_base [OF inv dir_accepted_in_entry(2) [OF inv acc]] acc sz
    by (simp add: dir_accepted_mapping_def aligned_def)
  have fits: "entry_fits d ?i (NPage pte)"
    using sz acc by (simp add: entry_fits_def dir_accepted_mapping_def aligned_def)
  have "dir_map (dir_update d ?i (NPage pte)) v = ((dir_map d)(va \<mapsto> pte)) v" for v
    using dir_update_lookup [OF inv i(1) fits, of v] dir_entry_lookup [OF inv i(1), of v] e va bounds
    by auto
  moreover have "dir_map_frame d va pte = Ok (dir_update d ?i (NPage pte))"
    using dir_map_frame.simps [of d va pte] inv acc i e sz by (simp add: Let_def)
  ultimately show ?thesis
    using map_frame_okI [OF inv acc empty_entry_no_overlap [OF inv acc e] fits] by blast
qed

lemma map_frame_ok_empty:
  assumes inv: "dir_inv d" and acc: "dir_accepted_mapping d va pte"
    and e: "d_entries d ! dir_index_for_vaddr d va = NEmpty"
    and sz: "dir_entry_size d \<noteq> frame_size pte"
    and rec: "map_frame_ok (dir_new_empty_dir d (dir_index_for_vaddr d va)) va pte"
  shows "map_frame_ok d va pte"
proof -
  let ?i = "dir_index_for_vaddr d va" and ?n = "dir_new_empty_dir d (dir_index_for_vaddr d va)"
  note i = dir_accepted_index [OF inv acc]
  note n = dir_new_empty_dir_facts [OF inv i(1) dir_accepted_smaller_layer [OF acc sz]]
  have "\<not> overlaps_existing ?n va pte"
    using dir_empty_map [OF n(1,2)] by (simp add: overlaps_existing_def)
  then obtain d1 where d1: "dir_map_frame ?n va pte = Ok d1" "dir_inv d1" "same_shape ?n d1"
      "\<not> dir_empty d1" "dir_map d1 = (dir_map ?n)(va \<mapsto> pte)"
    using rec by (auto simp: map_frame_ok_def)
  have fits: "entry_fits d ?i (NDirectory d1)"
    using d1 by (simp add: entry_fits_def same_shape_def dir_new_empty_dir_def)
  have "dir_map (dir_update d ?i (NDirectory d1)) = (dir_map d)(va \<mapsto> pte)"
    using dir_update_map_child [OF inv dir_accepted_in_entry(2,3) [OF inv acc] fits d1(5)]
      dir_entry_lookup [OF inv i(1)] dir_empty_map [OF n(1,2)] e by simp
  moreover have "dir_map_frame d va pte = Ok (dir_update d ?i (NDirectory d1))"
    using d1(1) dir_map_frame.simps [of d va pte] inv acc i e sz by (simp add: Let_def)
  ultimately show ?thesis
    using map_frame_okI [OF inv acc empty_entry_no_overlap [OF inv acc e] fits] by blast
qed

lemma dir_map_frame_correct:
  assumes "dir_inv d" and "dir_accepted_mapping d va pte"
  shows "map_frame_ok d va pte"
  using assms
proof (induction "length (layers (d_arch d)) - d_layer d" arbitrary: d rule: less_induct)
  case (less d)
  let ?i = "dir_index_for_vaddr d va"
  note inv = less.prems(1) and acc = less.prems(2)
  note i = dir_accepted_index(1) [OF inv acc]
  show ?case
  proof (cases "d_entries d ! ?i")
    case (NDirectory d0)
    note c = dir_child [OF inv i NDirectory]
    show ?thesis
    proof (cases "dir_entry_size d = frame_size pte")
      case False
      then have "map_frame_ok d0 va pte"
        using less.hyps [of d0] dir_accepted_child [OF inv acc False] dir_layer_less [OF inv] c by simp
      then show ?thesis using map_frame_ok_directory [OF inv acc NDirectory False] by simp
    qed (rule map_frame_ok_directory_same_size [OF inv acc NDirectory])
  next
    case (NPage p)
    then show ?thesis by (rule map_frame_ok_page [OF inv acc])
  next
    case NEmpty
    let ?n = "dir_new_empty_dir d ?i"
    show ?thesis
    proof (cases "dir_entry_size d = frame_size pte")
      case False
      note l = dir_accepted_smaller_layer [OF acc False]
      note n = dir_new_empty_dir_facts [OF inv i l]
      have nf: "d_layer ?n = d_layer d + 1" "d_arch ?n = d_arch d" "d_base_vaddr ?n = dir_entry_base d ?i"
        by (simp_all add: dir_new_empty_dir_def)
      have "map_frame_ok ?n va pte"
        using less.hyps [of ?n] n(1) dir_accepted_child [OF inv acc False nf n(3)] nf l by simp
      then show ?thesis by (rule map_frame_ok_empty [OF inv acc NEmpty False])
    qed (rule map_frame_ok_empty_same_size [OF inv acc NEmpty])
  qed
qed

section \<open>Unmapping a frame\<close>

definition unmap_ok :: "Directory \<Rightarrow> nat \<Rightarrow> bool" where
  "unmap_ok d va \<longleftrightarrow>
     (if va \<in> dom (dir_map d)
      then \<exists>d'. dir_unmap d va = Ok d' \<and> dir_inv d' \<and> same_shape d d' \<and>
                dir_map d' = (dir_map d)(va := None)
      else dir_unmap d va = Err d)"

lemma dir_accepted_unmap_iff:
  assumes "dir_inv d"
  shows "dir_accepted_unmap d va \<longleftrightarrow> d_base_vaddr d \<le> va \<and> va < dir_upper_vaddr d \<and>
     (\<exists>i<length (layers (d_arch d)). aligned va (entry_size (d_arch d) i))"
  using assms by (simp add: dir_accepted_unmap_def pc_accepted_unmap_def between_def)

lemma dir_unmap_index:
  assumes "dir_inv d" and "dir_accepted_unmap d va"
  shows "dir_index_for_vaddr d va < dir_num_entries d"
    and "dir_index_for_vaddr d va < length (d_entries d)"
    and "dir_map d va = (case d_entries d ! dir_index_for_vaddr d va of
      NPage p \<Rightarrow> if va = dir_entry_base d (dir_index_for_vaddr d va) then Some p else None
    | NDirectory d' \<Rightarrow> dir_map d' va | NEmpty \<Rightarrow> None)"
  using dir_index_less dir_length dir_lookup_in_range assms dir_accepted_unmap_iff [OF assms(1)]
  by auto

lemma unmap_ok_page:
  assumes inv: "dir_inv d" and acc: "dir_accepted_unmap d va"
    and e: "d_entries d ! dir_index_for_vaddr d va = NPage p"
  shows "unmap_ok d va"
proof -
  let ?i = "dir_index_for_vaddr d va"
  note i = dir_unmap_index [OF inv acc]
  have lo: "d_base_vaddr d \<le> va" using acc inv by (simp add: dir_accepted_unmap_iff)
  have al: "aligned va (dir_entry_size d) \<longleftrightarrow> va = dir_entry_base d ?i"
    using dir_aligned_entry_base [OF inv lo] dir_entry_base_aligned [OF inv, of ?i]
    by (auto simp: aligned_def)
  have fits: "entry_fits d ?i NEmpty" by (simp add: entry_fits_def)
  note unf = dir_unmap.simps [of d va]
  show ?thesis
  proof (cases "va = dir_entry_base d ?i")
    case True
    have "dir_map (dir_update d ?i NEmpty) v = ((dir_map d)(va := None)) v" for v
      using dir_update_lookup [OF inv i(1) fits, of v] dir_entry_lookup [OF inv i(1), of v] e True
      by (auto simp del: fun_upd_apply) (auto simp: fun_upd_apply dir_entry_base_Suc dir_es_pos [OF inv])
    then show ?thesis
      using True i e al unf inv acc dir_update_inv [OF inv i(1) fits]
      by (auto simp: Let_def unmap_ok_def)
  next
    case False
    then show ?thesis using i e al unf inv acc by (simp add: Let_def unmap_ok_def domIff)
  qed
qed

lemma unmap_ok_directory:
  assumes inv: "dir_inv d" and acc: "dir_accepted_unmap d va"
    and e: "d_entries d ! dir_index_for_vaddr d va = NDirectory d0" and rec: "unmap_ok d0 va"
  shows "unmap_ok d va"
proof -
  let ?i = "dir_index_for_vaddr d va"
  note i = dir_unmap_index [OF inv acc]
  note c = dir_child [OF inv i(1) e]
  have r: "d_base_vaddr d \<le> va" "va < dir_upper_vaddr d"
    using acc inv by (simp_all add: dir_accepted_unmap_iff)
  have dom: "va \<in> dom (dir_map d) \<longleftrightarrow> va \<in> dom (dir_map d0)" using i(3) e by (simp add: domIff)
  note unf = dir_unmap.simps [of d va]
  show ?thesis
  proof (cases "va \<in> dom (dir_map d0)")
    case False
    then have "dir_unmap d va = Err (dir_update d ?i (d_entries d ! ?i))"
      using rec unf inv acc i e by (simp add: Let_def unmap_ok_def)
    then show ?thesis using dom False by (simp add: unmap_ok_def)
  next
    case True
    then obtain d1 where d1: "dir_unmap d0 va = Ok d1" "dir_inv d1" "same_shape d0 d1"
        "dir_map d1 = (dir_map d0)(va := None)"
      using rec by (auto simp: unmap_ok_def)
    define e1 where "e1 = (if dir_empty d1 then NEmpty else NDirectory d1)"
    have fits: "entry_fits d ?i e1"
      using d1 c by (simp add: e1_def entry_fits_def same_shape_def)
    have res: "dir_unmap d va = Ok (dir_update d ?i e1)"
      using d1(1) unf inv acc i e by (simp add: Let_def e1_def)
    have "dir_map (dir_update d ?i e1) v = ((dir_map d)(va := None)) v" for v
    proof -
      have "dir_map d1 v = (case e1 of NDirectory d' \<Rightarrow> dir_map d' v | _ \<Rightarrow> None)"
        using dir_empty_map [OF d1(2)] by (simp add: e1_def)
      moreover have "\<And>p. e1 \<noteq> NPage p" by (simp add: e1_def)
      ultimately show ?thesis
        using dir_update_lookup [OF inv i(1) fits, of v] dir_entry_lookup [OF inv i(1), of v] e d1(4)
          dir_index_bounds [OF inv r(1)]
        by (cases e1) (auto simp del: fun_upd_apply, auto simp: fun_upd_apply)
    qed
    then have "dir_map (dir_update d ?i e1) = (dir_map d)(va := None)" by blast
    then show ?thesis
      unfolding unmap_ok_def
      using dom True res dir_update_inv [OF inv i(1) fits] same_shape_update by auto
  qed
qed

lemma dir_unmap_correct:
  assumes "dir_inv d" and "dir_accepted_unmap d va"
  shows "unmap_ok d va"
  using assms
proof (induction d rule: measure_induct_rule [of size])
  case (less d)
  let ?i = "dir_index_for_vaddr d va"
  note inv = less.prems(1) and acc = less.prems(2)
  note i = dir_unmap_index [OF inv acc]
  show ?case
  proof (cases "d_entries d ! ?i")
    case (NDirectory d0)
    note c = dir_child [OF inv i(1) NDirectory]
    have "dir_accepted_unmap d0 va"
      using acc c dir_index_bounds [OF inv] dir_accepted_unmap_iff [OF inv]
        dir_accepted_unmap_iff [OF c(1)] by simp
    then have "unmap_ok d0 va"
      using less.IH size_child_index [OF inv i(1) NDirectory] c(1) by blast
    then show ?thesis by (rule unmap_ok_directory [OF inv acc NDirectory])
  next
    case (NPage p)
    then show ?thesis by (rule unmap_ok_page [OF inv acc])
  next
    case NEmpty
    then show ?thesis
      using dir_unmap.simps [of d va] inv acc i by (simp add: Let_def unmap_ok_def domIff)
  qed
qed

section \<open>Refinement of the flat page table\<close>

lemma overlaps_existing_iff:
  "overlaps_existing d va pte = candidate_mapping_overlaps_existing_vmem (dir_map d) va pte"
  unfolding overlaps_existing_def candidate_mapping_overlaps_existing_vmem_def dom_def by auto blast

lemma dir_accepted_mapping_interp:
  assumes "dir_inv d" and "dir_accepted_mapping d va pte"
  shows "pc_accepted_mapping (dir_interp d) va pte"
  using assms
  unfolding dir_accepted_mapping_def pc_accepted_mapping_def dir_candidate_mapping_in_bounds_def
    pc_candidate_mapping_in_bounds_def contains_entry_size_def
    contains_entry_size_at_index_atleast_def by auto

lemma dir_interp_same_shape:
  assumes "dir_inv d" and "dir_inv d'" and "same_shape d d'" and "dir_map d' = m"
  shows "dir_interp d' = (dir_interp d)\<lparr>pc_map := m\<rparr>"
  using assms by (intro PageTableContents.equality) (simp_all add: same_shape_simps, simp_all add: same_shape_def)

lemma dir_map_frame_refines:
  assumes inv: "dir_inv d" and acc: "dir_accepted_mapping d va pte"
  shows "result_map (dir_map_frame d va pte) dir_interp = pc_map_frame (dir_interp d) va pte"
proof -
  note acc' = dir_accepted_mapping_interp [OF assms]
  show ?thesis
  proof (cases "overlaps_existing d va pte")
    case True
    then show ?thesis
      using dir_map_frame_correct [OF assms] acc'
      by (simp add: map_frame_ok_def pc_map_frame_def valid_mapping_iff overlaps_existing_iff)
  next
    case False
    then obtain d' where "dir_map_frame d va pte = Ok d'" "dir_inv d'" "same_shape d d'"
        "dir_map d' = (dir_map d)(va \<mapsto> pte)"
      using dir_map_frame_correct [OF assms] by (auto simp: map_frame_ok_def)
    then show ?thesis
      using False acc' dir_interp_same_shape [OF inv]
      by (simp add: pc_map_frame_def valid_mapping_iff overlaps_existing_iff)
  qed
qed

lemma dir_unmap_refines:
  assumes inv: "dir_inv d" and acc: "dir_accepted_unmap d va"
  shows "result_map (dir_unmap d va) dir_interp = pc_unmap (dir_interp d) va"
proof (cases "va \<in> dom (dir_map d)")
  case True
  then obtain d' where "dir_unmap d va = Ok d'" "dir_inv d'" "same_shape d d'"
      "dir_map d' = (dir_map d)(va := None)"
    using dir_unmap_correct [OF assms] by (auto simp: unmap_ok_def)
  then show ?thesis
    using True dir_interp_same_shape [OF inv] by (simp add: pc_unmap_def pc_remove_def)
next
  case False
  then show ?thesis
    using dir_unmap_correct [OF assms] by (simp add: unmap_ok_def pc_unmap_def)
qed

lemma dir_resolve_refines:
  assumes inv: "dir_inv d" and acc: "pc_accepted_resolve (dir_interp d) va"
  shows "dir_resolve d va = pc_resolve (dir_interp d) va"
proof (cases "\<exists>b p. dir_map d b = Some p \<and> between va b (b + frame_size p)")
  case True
  then obtain b p where "dir_map d b = Some p" "between va b (b + frame_size p)" by blast
  then show ?thesis
    using dir_resolve_covered [OF inv] pc_resolve_Ok [OF dir_interp_inv [OF inv]] by simp
next
  case False
  then show ?thesis
    using dir_resolve_uncovered [OF inv] pc_resolve_Err acc inv
    by (simp add: pc_accepted_resolve_def between_def)
qed

lemma dir_map_frame_preserves_inv:
  assumes "dir_inv d" and "dir_accepted_mapping d va pte"
  shows "case dir_map_frame d va pte of
      Ok d' \<Rightarrow> dir_inv d' \<and> \<not> dir_empty d' \<and> same_shape d d' | Err d' \<Rightarrow> d' = d"
  using dir_map_frame_correct [OF assms] by (auto simp: map_frame_ok_def split: if_splits)

lemma dir_unmap_preserves_inv:
  assumes "dir_inv d" and "dir_accepted_unmap d va"
  shows "case dir_unmap d va of Ok d' \<Rightarrow> dir_inv d' \<and> same_shape d d' | Err d' \<Rightarrow> d' = d"
  using dir_unmap_correct [OF assms] by (auto simp: unmap_ok_def split: if_splits)

section \<open>The tree as a page table\<close>

lemma dir_map_frame_spec:
  assumes "dir_inv d" and "dir_accepted_mapping d va pte"
  shows "if candidate_mapping_overlaps_existing_vmem (dir_map d) va pte
    then dir_map_frame d va pte = Err d
    else \<exists>d'. dir_map_frame d va pte = Ok d' \<and> dir_inv d' \<and> dir_map d' = (dir_map d)(va \<mapsto> pte)"
  using dir_map_frame_correct [OF assms]
  unfolding map_frame_ok_def overlaps_existing_iff by (auto split: if_splits)

lemma dir_unmap_spec:
  assumes "dir_inv d" and "dir_accepted_unmap d va"
  shows "if va \<in> dom (dir_map d)
    then \<exists>d'. dir_unmap d va = Ok d' \<and> dir_inv d' \<and> dir_map d' = (dir_map d)(va := None)
    else dir_unmap d va = Err d"
  using dir_unmap_correct [OF assms] unfolding unmap_ok_def by (simp split: if_splits) blast

lemma dir_resolve_spec:
  assumes "dir_inv d" and "pc_accepted_resolve (dir_interp d) va"
  shows "case dir_resolve d va of
      Ok (b, q) \<Rightarrow> dir_map d b = Some q \<and> between va b (b + frame_size q)
    | Err _ \<Rightarrow> \<not> covered (dir_map d) va"
  using pc_resolve_spec [OF dir_interp_inv [OF assms(1)], of va] dir_resolve_refines [OF assms] by simp

interpretation l1: page_table dir_inv "\<lambda>d. dir_map d" dir_accepted_mapping dir_accepted_unmap
    "\<lambda>d. pc_accepted_resolve (dir_interp d)"
    "\<lambda>d v p. with_outcome (dir_map_frame d v p)" "\<lambda>d v. with_outcome (dir_unmap d v)"
    "\<lambda>d v. Some (dir_resolve d v)" "\<lambda>v. v" "\<lambda>p. p"
proof (unfold_locales, goal_cases)
  case (1 d b q)
  then show ?case using pc_inv_pos dir_interp_inv by blast
next
  case (2 d b1 q1 b2 q2)
  then show ?case using pc_inv_disjoint dir_interp_inv by blast
next
  case (3 d v p)
  then show ?case using dir_map_frame_spec [OF 3] by (auto split: if_splits)
next
  case (4 d v)
  then show ?case using dir_unmap_spec [OF 4] by (auto split: if_splits)
next
  case (5 d v)
  then show ?case using dir_resolve_spec by simp
qed

end
