(* ===== verification/PT_Entry.thy ===== *)
theory PT_Entry
  imports PT_Definitions
begin

text \<open>
  The 64-bit entries of x86 page tables: the masks and the entry format of
  \<^verbatim>\<open>page-table/spec_t/hardware.rs\<close> (how the MMU reads an entry) and the functions of
  \<^verbatim>\<open>page-table/impl_u/l2_impl.rs\<close> that build and take apart entries. The lemmas say
  bit by bit what a built entry contains, so that the MMU's view of it is exactly what was
  asked for, for every physical address width between 32 and 52.
\<close>

section \<open>Masks\<close>

definition MASK_FLAG_P :: u64 where "MASK_FLAG_P = bit_mask 0"
definition MASK_FLAG_RW :: u64 where "MASK_FLAG_RW = bit_mask 1"
definition MASK_FLAG_US :: u64 where "MASK_FLAG_US = bit_mask 2"
definition MASK_FLAG_PWT :: u64 where "MASK_FLAG_PWT = bit_mask 3"
definition MASK_FLAG_PCD :: u64 where "MASK_FLAG_PCD = bit_mask 4"
definition MASK_FLAG_A :: u64 where "MASK_FLAG_A = bit_mask 5"
definition MASK_FLAG_XD :: u64 where "MASK_FLAG_XD = bit_mask 63"
definition MASK_PG_FLAG_D :: u64 where "MASK_PG_FLAG_D = bit_mask 6"
definition MASK_PG_FLAG_G :: u64 where "MASK_PG_FLAG_G = bit_mask 8"
definition MASK_PG_FLAG_PAT :: u64 where "MASK_PG_FLAG_PAT = bit_mask 12"
definition MASK_L1_PG_FLAG_PS :: u64 where "MASK_L1_PG_FLAG_PS = bit_mask 7"
definition MASK_L2_PG_FLAG_PS :: u64 where "MASK_L2_PG_FLAG_PS = bit_mask 7"
definition MASK_L3_PG_FLAG_PAT :: u64 where "MASK_L3_PG_FLAG_PAT = bit_mask 7"

definition MASK_ADDR :: "nat \<Rightarrow> u64" where "MASK_ADDR mw = bitmask_inc 12 (mw - 1)"
definition MASK_L1_PG_ADDR :: "nat \<Rightarrow> u64" where "MASK_L1_PG_ADDR mw = bitmask_inc 30 (mw - 1)"
definition MASK_L2_PG_ADDR :: "nat \<Rightarrow> u64" where "MASK_L2_PG_ADDR mw = bitmask_inc 21 (mw - 1)"
definition MASK_L3_PG_ADDR :: "nat \<Rightarrow> u64" where "MASK_L3_PG_ADDR mw = bitmask_inc 12 (mw - 1)"
definition MASK_DIR_ADDR :: "nat \<Rightarrow> u64" where "MASK_DIR_ADDR mw = MASK_ADDR mw"

section \<open>The MMU's view of an entry\<close>

datatype GhostPageDirectoryEntry =
    GDirectory (gd_addr: usize) (gd_P: bool) (gd_RW: bool) (gd_US: bool) (gd_PWT: bool)
      (gd_PCD: bool) (gd_A: bool) (gd_XD: bool)
  | GPage (gp_addr: usize) (gp_P: bool) (gp_RW: bool) (gp_US: bool) (gp_PWT: bool) (gp_PCD: bool)
      (gp_A: bool) (gp_D: bool) (gp_G: bool) (gp_PAT: bool) (gp_XD: bool)
  | GEmpty

record PageDirectoryEntry =
  pde_entry :: u64
  pde_layer :: nat

definition all_mb0_bits_are_zero :: "nat \<Rightarrow> PageDirectoryEntry \<Rightarrow> bool" where
  "all_mb0_bits_are_zero mw e =
     (let v = pde_entry e in
      if v AND MASK_FLAG_P = MASK_FLAG_P then
        if pde_layer e = 0 then
          v AND bitmask_inc mw 51 = 0 \<and> v AND bit_mask 7 = 0
        else if pde_layer e = 1 then
          if v AND MASK_L1_PG_FLAG_PS = MASK_L1_PG_FLAG_PS
          then v AND bitmask_inc mw 51 = 0 \<and> v AND bitmask_inc 13 29 = 0
          else v AND bitmask_inc mw 51 = 0 \<and> v AND bit_mask 7 = 0
        else if pde_layer e = 2 then
          if v AND MASK_L2_PG_FLAG_PS = MASK_L2_PG_FLAG_PS
          then v AND bitmask_inc mw 62 = 0 \<and> v AND bitmask_inc 13 20 = 0
          else v AND bitmask_inc mw 62 = 0 \<and> v AND bit_mask 7 = 0
        else if pde_layer e = 3 then v AND bitmask_inc mw 62 = 0
        else undefined
      else True)"

definition pde_view :: "nat \<Rightarrow> PageDirectoryEntry \<Rightarrow> GhostPageDirectoryEntry" where
  "pde_view mw e =
     (let v = pde_entry e;
          flag_P = (v AND MASK_FLAG_P = MASK_FLAG_P);
          flag_RW = (v AND MASK_FLAG_RW = MASK_FLAG_RW);
          flag_US = (v AND MASK_FLAG_US = MASK_FLAG_US);
          flag_PWT = (v AND MASK_FLAG_PWT = MASK_FLAG_PWT);
          flag_PCD = (v AND MASK_FLAG_PCD = MASK_FLAG_PCD);
          flag_A = (v AND MASK_FLAG_A = MASK_FLAG_A);
          flag_XD = (v AND MASK_FLAG_XD = MASK_FLAG_XD);
          flag_D = (v AND MASK_PG_FLAG_D = MASK_PG_FLAG_D);
          flag_G = (v AND MASK_PG_FLAG_G = MASK_PG_FLAG_G)
      in if pde_layer e \<le> 3 then
        if v AND MASK_FLAG_P = MASK_FLAG_P \<and> all_mb0_bits_are_zero mw e then
          if pde_layer e = 0 then
            GDirectory (v AND MASK_ADDR mw) flag_P flag_RW flag_US flag_PWT flag_PCD flag_A flag_XD
          else if pde_layer e = 1 then
            if v AND MASK_L1_PG_FLAG_PS = MASK_L1_PG_FLAG_PS then
              GPage (v AND MASK_L1_PG_ADDR mw) flag_P flag_RW flag_US flag_PWT flag_PCD flag_A
                flag_D flag_G (v AND MASK_PG_FLAG_PAT = MASK_PG_FLAG_PAT) flag_XD
            else
              GDirectory (v AND MASK_ADDR mw) flag_P flag_RW flag_US flag_PWT flag_PCD flag_A flag_XD
          else if pde_layer e = 2 then
            if v AND MASK_L2_PG_FLAG_PS = MASK_L2_PG_FLAG_PS then
              GPage (v AND MASK_L2_PG_ADDR mw) flag_P flag_RW flag_US flag_PWT flag_PCD flag_A
                flag_D flag_G (v AND MASK_PG_FLAG_PAT = MASK_PG_FLAG_PAT) flag_XD
            else
              GDirectory (v AND MASK_ADDR mw) flag_P flag_RW flag_US flag_PWT flag_PCD flag_A flag_XD
          else
            GPage (v AND MASK_L3_PG_ADDR mw) flag_P flag_RW flag_US flag_PWT flag_PCD flag_A
              flag_D flag_G (v AND MASK_L3_PG_FLAG_PAT = MASK_L3_PG_FLAG_PAT) flag_XD
        else GEmpty
      else undefined)"

section \<open>Building and reading entries\<close>

definition addr_is_zero_padded :: "nat \<Rightarrow> nat \<Rightarrow> u64 \<Rightarrow> bool \<Rightarrow> bool" where
  "addr_is_zero_padded mw layer addr is_pg \<longleftrightarrow>
     (is_pg \<longrightarrow>
       (if layer = 1 then addr AND MASK_L1_PG_ADDR mw = addr
        else if layer = 2 then addr AND MASK_L2_PG_ADDR mw = addr
        else if layer = 3 then addr AND MASK_L3_PG_ADDR mw = addr
        else undefined))"

definition pde_hp_pat_is_zero :: "nat \<Rightarrow> PageDirectoryEntry \<Rightarrow> bool" where
  "pde_hp_pat_is_zero mw e \<longleftrightarrow>
     ((is_GPage (pde_view mw e) \<and> pde_layer e = 1 \<longrightarrow> pde_entry e AND MASK_PG_FLAG_PAT = 0) \<and>
      (is_GPage (pde_view mw e) \<and> pde_layer e = 2 \<longrightarrow> pde_entry e AND MASK_PG_FLAG_PAT = 0))"

definition new_entry ::
    "nat \<Rightarrow> u64 \<Rightarrow> bool \<Rightarrow> bool \<Rightarrow> bool \<Rightarrow> bool \<Rightarrow> bool \<Rightarrow> bool \<Rightarrow> PageDirectoryEntry" where
  "new_entry layer address is_pg is_wr is_sup is_writethrough disable_cache disable_exec =
     \<lparr>pde_entry =
        address
        OR MASK_FLAG_P
        OR (if is_pg \<and> layer \<noteq> 3 then MASK_L1_PG_FLAG_PS else 0)
        OR (if is_wr then MASK_FLAG_RW else 0)
        OR (if is_sup then 0 else MASK_FLAG_US)
        OR (if is_writethrough then MASK_FLAG_PWT else 0)
        OR (if disable_cache then MASK_FLAG_PCD else 0)
        OR (if disable_exec then MASK_FLAG_XD else 0),
      pde_layer = layer\<rparr>"

definition new_page_entry :: "nat \<Rightarrow> PageTableEntryExec \<Rightarrow> PageDirectoryEntry" where
  "new_page_entry layer pte =
     new_entry layer (mre_base (ptee_frame pte)) True (is_writable (ptee_flags pte))
       (is_supervisor (ptee_flags pte)) False False (disable_execute (ptee_flags pte))"

definition new_dir_entry :: "nat \<Rightarrow> u64 \<Rightarrow> PageDirectoryEntry" where
  "new_dir_entry layer address = new_entry layer address False True False False False False"

definition pde_flags :: "PageDirectoryEntry \<Rightarrow> Flags" where
  "pde_flags e =
     \<lparr>is_writable = (pde_entry e AND MASK_FLAG_RW = MASK_FLAG_RW),
      is_supervisor = (pde_entry e AND MASK_FLAG_US \<noteq> MASK_FLAG_US),
      disable_execute = (pde_entry e AND MASK_FLAG_XD = MASK_FLAG_XD)\<rparr>"

definition pde_address :: "nat \<Rightarrow> PageDirectoryEntry \<Rightarrow> u64" where
  "pde_address mw e = pde_entry e AND MASK_ADDR mw"

definition pde_is_mapping :: "PageDirectoryEntry \<Rightarrow> bool" where
  "pde_is_mapping e \<longleftrightarrow> (pde_entry e AND MASK_FLAG_P) = MASK_FLAG_P"

definition pde_is_page :: "PageDirectoryEntry \<Rightarrow> nat \<Rightarrow> bool" where
  "pde_is_page e layer =
     (if layer = 3 then True
      else if layer = 0 then False
      else (pde_entry e AND MASK_L1_PG_FLAG_PS) = MASK_L1_PG_FLAG_PS)"

definition pde_is_dir :: "PageDirectoryEntry \<Rightarrow> nat \<Rightarrow> bool" where
  "pde_is_dir e layer = (\<not> pde_is_page e layer)"

section \<open>Bits of the masks\<close>

lemmas flag_masks = MASK_FLAG_P_def MASK_FLAG_RW_def MASK_FLAG_US_def MASK_FLAG_PWT_def
  MASK_FLAG_PCD_def MASK_FLAG_A_def MASK_FLAG_XD_def MASK_PG_FLAG_D_def MASK_PG_FLAG_G_def
  MASK_PG_FLAG_PAT_def MASK_L1_PG_FLAG_PS_def MASK_L2_PG_FLAG_PS_def MASK_L3_PG_FLAG_PAT_def

lemmas addr_masks = MASK_ADDR_def MASK_L1_PG_ADDR_def MASK_L2_PG_ADDR_def MASK_L3_PG_ADDR_def
  MASK_DIR_ADDR_def

lemma and_bit_mask_iff: "k < 64 \<Longrightarrow> (v AND bit_mask k = bit_mask k) = bit v k"
  unfolding bit_mask_def by (rule push_bit_one_and_iff)

lemma and_bit_mask_zero_iff: "k < 64 \<Longrightarrow> (v AND bit_mask k = 0) = (\<not> bit v k)"
  unfolding bit_mask_def by (rule push_bit_one_and_zero_iff)

lemma bit_bit_mask: "bit (bit_mask k) n \<longleftrightarrow> n = k \<and> k < 64"
  by (auto simp: bit_mask_def bit_simps)

lemma bit_bitmask_inc:
  assumes "low \<le> high + 1"
  shows "bit (bitmask_inc low high) n \<longleftrightarrow> low \<le> n \<and> n \<le> high \<and> n < 64"
  using assms by (auto simp: bitmask_inc_def bit_simps)

lemmas flag_tests [pt_mask] = flag_masks and_bit_mask_iff and_bit_mask_zero_iff

lemma bit_mask_addr:
  assumes "max_phyaddr_width_facts mw"
  shows "bit (MASK_ADDR mw) n \<longleftrightarrow> 12 \<le> n \<and> n < mw"
    and "bit (MASK_L1_PG_ADDR mw) n \<longleftrightarrow> 30 \<le> n \<and> n < mw"
    and "bit (MASK_L2_PG_ADDR mw) n \<longleftrightarrow> 21 \<le> n \<and> n < mw"
    and "bit (MASK_L3_PG_ADDR mw) n \<longleftrightarrow> 12 \<le> n \<and> n < mw"
  using assms by (auto simp: addr_masks bit_bitmask_inc max_phyaddr_width_facts_def)

lemma and_bitmask_inc_zero_iff:
  fixes v :: u64
  assumes "low \<le> high + 1"
  shows "v AND bitmask_inc low high = 0 \<longleftrightarrow> (\<forall>n. low \<le> n \<and> n \<le> high \<longrightarrow> \<not> bit v n)"
  unfolding and_eq_zero_iff using assms bit_u64_less by (auto simp: bit_bitmask_inc)

section \<open>The entries that are built\<close>

lemma bit_new_entry:
  "bit (pde_entry (new_entry l a p w s wt dc xd)) n \<longleftrightarrow>
     bit a n \<or> n = 0 \<or> (n = 7 \<and> p \<and> l \<noteq> 3) \<or> (n = 1 \<and> w) \<or> (n = 2 \<and> \<not> s) \<or>
     (n = 3 \<and> wt) \<or> (n = 4 \<and> dc) \<or> (n = 63 \<and> xd)"
  by (auto simp: new_entry_def flag_masks bit_or_iff bit_bit_mask)

lemma new_entry_layer [simp]: "pde_layer (new_entry l a p w s wt dc xd) = l"
  by (simp add: new_entry_def)

definition entry_address_ok :: "nat \<Rightarrow> nat \<Rightarrow> u64 \<Rightarrow> bool \<Rightarrow> bool" where
  "entry_address_ok mw layer addr is_pg \<longleftrightarrow>
     layer \<le> 3 \<and> (if is_pg then 0 < layer else layer < 3) \<and>
     addr_is_zero_padded mw layer addr is_pg \<and> addr AND MASK_ADDR mw = addr"

lemma entry_address_bits:
  assumes "max_phyaddr_width_facts mw" and "entry_address_ok mw l a p" and "bit a n"
  shows "12 \<le> n \<and> n < mw \<and> (p \<and> l = 1 \<longrightarrow> 30 \<le> n) \<and> (p \<and> l = 2 \<longrightarrow> 21 \<le> n)"
  using assms
  by (auto simp: entry_address_ok_def addr_is_zero_padded_def and_eq_self_iff bit_mask_addr)

lemma new_entry_flag_bits:
  assumes "max_phyaddr_width_facts mw" and "entry_address_ok mw l a p"
  shows "bit (pde_entry (new_entry l a p w s wt dc xd)) 0"
    "bit (pde_entry (new_entry l a p w s wt dc xd)) 1 = w"
    "bit (pde_entry (new_entry l a p w s wt dc xd)) (Suc 0) = w"
    "bit (pde_entry (new_entry l a p w s wt dc xd)) 2 = (\<not> s)"
    "bit (pde_entry (new_entry l a p w s wt dc xd)) 3 = wt"
    "bit (pde_entry (new_entry l a p w s wt dc xd)) 4 = dc"
    "\<not> bit (pde_entry (new_entry l a p w s wt dc xd)) 5"
    "\<not> bit (pde_entry (new_entry l a p w s wt dc xd)) 6"
    "bit (pde_entry (new_entry l a p w s wt dc xd)) 7 = (p \<and> l \<noteq> 3)"
    "\<not> bit (pde_entry (new_entry l a p w s wt dc xd)) 8"
    "bit (pde_entry (new_entry l a p w s wt dc xd)) 63 = xd"
    "p \<Longrightarrow> l \<noteq> 3 \<Longrightarrow> \<not> bit (pde_entry (new_entry l a p w s wt dc xd)) 12"
  using entry_address_bits [OF assms] assms
  by (fastforce simp: bit_new_entry max_phyaddr_width_facts_def entry_address_ok_def)+

lemma new_entry_mask_addr:
  assumes "max_phyaddr_width_facts mw" and "entry_address_ok mw l a p"
  shows "pde_entry (new_entry l a p w s wt dc xd) AND MASK_ADDR mw = a"
    and "p \<Longrightarrow> l = 1 \<Longrightarrow> pde_entry (new_entry l a p w s wt dc xd) AND MASK_L1_PG_ADDR mw = a"
    and "p \<Longrightarrow> l = 2 \<Longrightarrow> pde_entry (new_entry l a p w s wt dc xd) AND MASK_L2_PG_ADDR mw = a"
    and "pde_entry (new_entry l a p w s wt dc xd) AND MASK_L3_PG_ADDR mw = a"
  using entry_address_bits [OF assms] assms(1)
  by (auto intro!: bit_eqI simp: bit_and_iff bit_mask_addr [OF assms(1)] bit_new_entry
      max_phyaddr_width_facts_def)

lemma new_entry_mb0:
  assumes mw: "max_phyaddr_width_facts mw" and ok: "entry_address_ok mw l a p"
  shows "all_mb0_bits_are_zero mw (new_entry l a p w s wt dc xd)"
proof -
  let ?v = "pde_entry (new_entry l a p w s wt dc xd)"
  note bits = new_entry_flag_bits [OF mw ok, of w s wt dc xd]
  have w: "32 \<le> mw" "mw \<le> 52" using mw by (simp_all add: max_phyaddr_width_facts_def)
  have high: "\<not> bit ?v n" if "mw \<le> n" "n \<le> 62" for n
    using that w entry_address_bits [OF mw ok] by (fastforce simp: bit_new_entry)
  have mid: "\<not> bit ?v n" if "p" "13 \<le> n" "n \<le> 29 \<and> l = 1 \<or> n \<le> 20 \<and> l = 2" for n
    using that entry_address_bits [OF mw ok] by (fastforce simp: bit_new_entry)
  have z: "?v AND bitmask_inc mw 51 = 0" "?v AND bitmask_inc mw 62 = 0"
    using w high by (auto simp: and_bitmask_inc_zero_iff)
  have z1: "p \<Longrightarrow> l = 1 \<Longrightarrow> ?v AND bitmask_inc 13 29 = 0"
    and z2: "p \<Longrightarrow> l = 2 \<Longrightarrow> ?v AND bitmask_inc 13 20 = 0"
    using mid by (auto simp: and_bitmask_inc_zero_iff)
  have "l = 0 \<and> \<not> p \<or> l = 1 \<or> l = 2 \<or> l = 3 \<and> p"
    using ok unfolding entry_address_ok_def by (auto split: if_splits)
  then consider "l = 0" "\<not> p" | "l = 1" "p" | "l = 1" "\<not> p" | "l = 2" "p" | "l = 2" "\<not> p" | "l = 3" "p"
    by blast
  then show ?thesis
    using bits z z1 z2 by cases (simp_all add: all_mb0_bits_are_zero_def Let_def pt_mask)
qed

lemma new_entry_view:
  assumes mw: "max_phyaddr_width_facts mw" and ok: "entry_address_ok mw l a p"
  shows "pde_view mw (new_entry l a p w s wt dc xd) =
    (if p then GPage a True w (\<not> s) wt dc False False False False xd
     else GDirectory a True w (\<not> s) wt dc False xd)"
proof -
  note bits = new_entry_flag_bits [OF mw ok, of w s wt dc xd]
  note addr = new_entry_mask_addr [OF mw ok, of w s wt dc xd]
  note mb0 = new_entry_mb0 [OF mw ok, of w s wt dc xd]
  have "l = 0 \<and> \<not> p \<or> l = 1 \<or> l = 2 \<or> l = 3 \<and> p"
    using ok unfolding entry_address_ok_def by (auto split: if_splits)
  then consider "l = 0" "\<not> p" | "l = 1" "p" | "l = 1" "\<not> p" | "l = 2" "p" | "l = 2" "\<not> p" | "l = 3" "p"
    by blast
  then show ?thesis
    using mb0 bits addr by cases (simp_all add: pde_view_def Let_def pt_mask)
qed

lemma new_entry_hp_pat:
  assumes mw: "max_phyaddr_width_facts mw" and ok: "entry_address_ok mw l a p"
  shows "pde_hp_pat_is_zero mw (new_entry l a p w s wt dc xd)"
  using new_entry_flag_bits(12) [OF mw ok, of w s wt dc xd]
  by (auto simp: pde_hp_pat_is_zero_def new_entry_view [OF mw ok] pt_mask)

section \<open>Reading an entry back\<close>

lemma zero_entry_view:
  assumes "pde_entry e = 0" and "pde_layer e \<le> 3"
  shows "pde_view mw e = GEmpty" and "all_mb0_bits_are_zero mw e" and "pde_hp_pat_is_zero mw e"
  using assms
  by (simp_all add: pde_view_def all_mb0_bits_are_zero_def pde_hp_pat_is_zero_def Let_def pt_mask)

lemma pde_is_mapping_iff:
  assumes "all_mb0_bits_are_zero mw e" and "pde_layer e \<le> 3"
  shows "pde_is_mapping e \<longleftrightarrow> pde_view mw e \<noteq> GEmpty"
  using assms by (simp add: pde_is_mapping_def pde_view_def Let_def)

lemma pde_is_page_iff:
  assumes "pde_view mw e \<noteq> GEmpty" and "pde_layer e \<le> 3"
  shows "pde_is_page e (pde_layer e) \<longleftrightarrow> is_GPage (pde_view mw e)"
    and "pde_is_dir e (pde_layer e) \<longleftrightarrow> is_GDirectory (pde_view mw e)"
  using assms
  by (auto simp: pde_is_dir_def pde_is_page_def pde_view_def Let_def MASK_L1_PG_FLAG_PS_def
      MASK_L2_PG_FLAG_PS_def split: if_splits)

lemma pde_page_layer_pos:
  assumes "is_GPage (pde_view mw e)" and "pde_layer e \<le> 3"
  shows "0 < pde_layer e"
  using assms by (auto simp: pde_view_def Let_def split: if_splits)

lemma pde_dir_layer_less:
  assumes "is_GDirectory (pde_view mw e)" and "pde_layer e \<le> 3"
  shows "pde_layer e < 3"
  using assms by (auto simp: pde_view_def Let_def split: if_splits)

lemma pde_address_mask:
  assumes mw: "max_phyaddr_width_facts mw" and hp: "pde_hp_pat_is_zero mw e"
    and mb0: "all_mb0_bits_are_zero mw e" and l: "pde_layer e \<le> 3"
    and page: "is_GPage (pde_view mw e)"
  shows "pde_layer e = 1 \<Longrightarrow> pde_entry e AND MASK_L1_PG_ADDR mw = pde_entry e AND MASK_ADDR mw"
    and "pde_layer e = 2 \<Longrightarrow> pde_entry e AND MASK_L2_PG_ADDR mw = pde_entry e AND MASK_ADDR mw"
proof -
  let ?v = "pde_entry e"
  have P: "bit ?v 0" "pde_layer e = 1 \<or> pde_layer e = 2 \<Longrightarrow> bit ?v 7"
    using page l by (auto simp: pde_view_def Let_def pt_mask split: if_splits)
  have 1: "\<not> bit ?v n" if "pde_layer e = 1" "12 \<le> n" "n \<le> 29" for n
    using that hp page mb0 P
    by (cases "n = 12") (auto simp: pde_hp_pat_is_zero_def all_mb0_bits_are_zero_def Let_def pt_mask
        and_bitmask_inc_zero_iff)
  have 2: "\<not> bit ?v n" if "pde_layer e = 2" "12 \<le> n" "n \<le> 20" for n
    using that hp page mb0 P
    by (cases "n = 12") (auto simp: pde_hp_pat_is_zero_def all_mb0_bits_are_zero_def Let_def pt_mask
        and_bitmask_inc_zero_iff)
  have "bit (?v AND MASK_L1_PG_ADDR mw) n = bit (?v AND MASK_ADDR mw) n" if "pde_layer e = 1" for n
    using 1 [OF that, of n] by (cases "n \<le> 29") (auto simp: bit_and_iff bit_mask_addr [OF mw])
  then show "pde_layer e = 1 \<Longrightarrow> ?v AND MASK_L1_PG_ADDR mw = ?v AND MASK_ADDR mw"
    by (blast intro: bit_eqI)
  have "bit (?v AND MASK_L2_PG_ADDR mw) n = bit (?v AND MASK_ADDR mw) n" if "pde_layer e = 2" for n
    using 2 [OF that, of n] by (cases "n \<le> 20") (auto simp: bit_and_iff bit_mask_addr [OF mw])
  then show "pde_layer e = 2 \<Longrightarrow> ?v AND MASK_L2_PG_ADDR mw = ?v AND MASK_ADDR mw"
    by (blast intro: bit_eqI)
qed

lemma pde_address_view:
  assumes mw: "max_phyaddr_width_facts mw" and hp: "pde_hp_pat_is_zero mw e"
    and mb0: "all_mb0_bits_are_zero mw e" and l: "pde_layer e \<le> 3"
  shows "is_GPage (pde_view mw e) \<Longrightarrow> pde_address mw e = gp_addr (pde_view mw e)"
    and "is_GDirectory (pde_view mw e) \<Longrightarrow> pde_address mw e = gd_addr (pde_view mw e)"
proof -
  assume page: "is_GPage (pde_view mw e)"
  note m = pde_address_mask [OF mw hp mb0 l page]
  show "pde_address mw e = gp_addr (pde_view mw e)"
    using page m l
    by (auto simp: pde_address_def pde_view_def Let_def MASK_L3_PG_ADDR_def MASK_ADDR_def
        split: if_splits)
next
  assume "is_GDirectory (pde_view mw e)"
  then show "pde_address mw e = gd_addr (pde_view mw e)"
    using l by (auto simp: pde_address_def pde_view_def Let_def split: if_splits)
qed

lemma pde_flags_view:
  assumes "is_GPage (pde_view mw e)" and "pde_layer e \<le> 3"
  shows "pde_flags e = \<lparr>is_writable = gp_RW (pde_view mw e), is_supervisor = \<not> gp_US (pde_view mw e),
                        disable_execute = gp_XD (pde_view mw e)\<rparr>"
  using assms by (auto simp: pde_flags_def pde_view_def Let_def split: if_splits)

section \<open>Aligned addresses\<close>

lemma aligned_bits:
  fixes a :: u64
  assumes "unat a mod 2 ^ k = 0" and "bit a n"
  shows "k \<le> n"
proof (rule ccontr)
  assume "\<not> k \<le> n"
  then have "bit (take_bit k (unat a)) n"
    using assms(2) by (simp add: bit_take_bit_iff bit_unsigned_iff)
  then show False using assms(1) by (simp add: take_bit_eq_mod)
qed

lemma phyaddr_bits:
  assumes mw: "max_phyaddr_width_facts mw" and "a \<le> MAX_PHYADDR mw" and "bit a n"
  shows "n < mw"
proof -
  have m: "mw < 64" using mw by (simp add: max_phyaddr_width_facts_def)
  have "uint (MAX_PHYADDR mw) = uint (mask mw :: u64)"
    unfolding MAX_PHYADDR_def mask_eq_exp_minus_1 push_bit_eq_mult by simp
  then have "uint a \<le> mask mw"
    using assms(2) m by (simp add: word_le_def uint_mask_eq min_def)
  then have "take_bit mw (uint a) = uint a"
    by (intro take_bit_int_eq_self) (simp_all add: mask_eq_exp_minus_1)
  then have "bit (take_bit mw (uint a)) n"
    using assms(3) bit_u64_less [OF assms(3)] by (simp add: bit_unsigned_iff)
  then show ?thesis by (simp add: bit_take_bit_iff)
qed

lemma aligned_mask_addr:
  assumes mw: "max_phyaddr_width_facts mw" and "a \<le> MAX_PHYADDR mw" and "aligned (unat a) PAGE_SIZE"
  shows "a AND MASK_ADDR mw = a"
  unfolding and_eq_self_iff
  using phyaddr_bits [OF assms(1,2)] aligned_bits [of a 12] assms(3)
  by (auto simp: bit_mask_addr [OF mw] aligned_def)

lemma aligned_entry_address_ok:
  assumes mw: "max_phyaddr_width_facts mw" and "a \<le> MAX_PHYADDR mw"
    and "l = 1 \<and> aligned (unat a) L1_ENTRY_SIZE \<or> l = 2 \<and> aligned (unat a) L2_ENTRY_SIZE \<or>
         l = 3 \<and> aligned (unat a) L3_ENTRY_SIZE"
  shows "entry_address_ok mw l a True"
proof -
  have "bit a n \<Longrightarrow> 12 \<le> n \<and> (l = 1 \<longrightarrow> 30 \<le> n) \<and> (l = 2 \<longrightarrow> 21 \<le> n)" for n
    using assms(3) aligned_bits [of a 12 n] aligned_bits [of a 21 n] aligned_bits [of a 30 n]
    by (auto simp: aligned_def)
  then show ?thesis
    using assms(3) phyaddr_bits [OF assms(1,2)]
    by (auto simp: entry_address_ok_def addr_is_zero_padded_def and_eq_self_iff bit_mask_addr [OF mw])
qed

end
