(* ===== verification/PT_Memory.thy ===== *)
theory PT_Memory
  imports PT_Arch
begin

text \<open>
  The memory interface of the page table, \<^verbatim>\<open>page-table/spec_t/mem.rs\<close>: physical
  memory behind a linear mapping, read and written a word at a time, with the ghost set of
  regions that belong to the page table. \<open>region_view\<close> is the window of physical
  memory a region covers.

  \<^verbatim>\<open>alloc_page\<close> and \<^verbatim>\<open>dealloc_page\<close> have no body in the source
  (\<^verbatim>\<open>unimplemented!()\<close>): they are the argument \<open>page_allocator\<close> of everything that
  calls them, and \<open>allocator_contract\<close> states their documented contract. The predicate
  \<open>pa_valid\<close> stands for the states of the opaque memory type the allocator can be in.
\<close>

section \<open>State\<close>

record PageTableMemory =
  phys_mem :: "nat \<Rightarrow> u64"
  phys_mem_ref :: nat
  cr3_reg :: u64
  regions :: "MemRegion set"
  alloc_available_pages :: nat

definition word_index :: "usize \<Rightarrow> usize" where
  "word_index addr = addr div 8"

definition word_index_spec :: "nat \<Rightarrow> nat" where
  "word_index_spec addr = addr div WORD_SIZE"

definition region_view :: "PageTableMemory \<Rightarrow> MemRegion \<Rightarrow> u64 list" where
  "region_view m r = map (\<lambda>i. phys_mem m (word_index_spec (mr_base r) + i)) [0..<mr_size r div WORD_SIZE]"

definition cr3 :: "PageTableMemory \<Rightarrow> MemRegionExec" where
  "cr3 m = \<lparr>mre_base = cr3_reg m, mre_size = of_nat PAGE_SIZE\<rparr>"

definition mem_inv :: "PageTableMemory \<Rightarrow> bool" where
  "mem_inv m \<longleftrightarrow>
     phys_mem_ref m \<le> 0x7FE0000000000000 \<and>
     (\<forall>s1\<in>regions m. \<forall>s2\<in>regions m. s1 \<noteq> s2 \<longrightarrow> \<not> overlap s1 s2) \<and>
     aligned (unat (mre_base (cr3 m))) PAGE_SIZE \<and> unat (mre_size (cr3 m)) = PAGE_SIZE"

section \<open>Reading and writing\<close>

definition spec_read :: "PageTableMemory \<Rightarrow> nat \<Rightarrow> MemRegion \<Rightarrow> u64" where
  "spec_read m idx region = region_view m region ! idx"

definition mem_read :: "PageTableMemory \<Rightarrow> usize \<Rightarrow> usize \<Rightarrow> u64 option" where
  "mem_read m pbase idx = do {
     word_offset \<leftarrow> checked_add (word_index pbase) idx;
     Some (phys_mem m (unat word_offset))
   }"

definition mem_write :: "PageTableMemory \<Rightarrow> usize \<Rightarrow> usize \<Rightarrow> u64 \<Rightarrow> PageTableMemory option" where
  "mem_write m pbase idx value = do {
     word_offset \<leftarrow> checked_add (word_index pbase) idx;
     Some (m\<lparr>phys_mem := (phys_mem m)(unat word_offset := value)\<rparr>)
   }"

text \<open>
  The source's \<^verbatim>\<open>check_overflow\<close> repeats the address computation of \<open>read\<close> and
  \<open>write\<close> in \<^verbatim>\<open>isize\<close> arithmetic: every intermediate value has to stay in range.
\<close>

definition isize_ok :: "int \<Rightarrow> bool" where
  "isize_ok x \<longleftrightarrow> - (2 ^ 63) \<le> x \<and> x < 2 ^ 63"

definition check_overflow :: "PageTableMemory \<Rightarrow> usize \<Rightarrow> usize \<Rightarrow> bool" where
  "check_overflow m pbase idx \<longleftrightarrow>
     (case checked_add (word_index pbase) idx of
        None \<Rightarrow> False
      | Some word_offset \<Rightarrow>
          isize_ok (int (unat word_offset)) \<and>
          isize_ok (int (unat word_offset) * int WORD_SIZE) \<and>
          isize_ok (int (phys_mem_ref m) + int (unat word_offset) * int WORD_SIZE))"

section \<open>The allocator\<close>

record page_allocator =
  pa_valid :: "PageTableMemory \<Rightarrow> bool"
  pa_alloc :: "PageTableMemory \<Rightarrow> MemRegionExec \<times> PageTableMemory"
  pa_dealloc :: "MemRegionExec \<Rightarrow> PageTableMemory \<Rightarrow> PageTableMemory"

definition alloc_page_contract :: "nat \<Rightarrow> page_allocator \<Rightarrow> bool" where
  "alloc_page_contract mw A \<longleftrightarrow>
     (\<forall>m r m'. pa_valid A m \<and> mem_inv m \<and> 0 < alloc_available_pages m \<and> pa_alloc A m = (r, m') \<longrightarrow>
        alloc_available_pages m' = alloc_available_pages m - 1 \<and>
        unat (mre_size r) = PAGE_SIZE \<and>
        unat (mre_base r) + PAGE_SIZE \<le> unat (MAX_PHYADDR mw) \<and>
        aligned (unat (mre_base r)) PAGE_SIZE \<and>
        region_view_exec r \<notin> regions m \<and>
        regions m' = insert (region_view_exec r) (regions m) \<and>
        region_view m' (region_view_exec r) = new_seq 512 0 \<and>
        (\<forall>r2\<in>regions m. region_view m' r2 = region_view m r2) \<and>
        cr3 m' = cr3 m \<and> phys_mem_ref m' = phys_mem_ref m \<and> mem_inv m' \<and> pa_valid A m')"

definition dealloc_page_contract :: "page_allocator \<Rightarrow> bool" where
  "dealloc_page_contract A \<longleftrightarrow>
     (\<forall>m r. pa_valid A m \<and> mem_inv m \<and> region_view_exec r \<in> regions m \<longrightarrow>
        regions (pa_dealloc A r m) = regions m - {region_view_exec r} \<and>
        (\<forall>r2\<in>regions m - {region_view_exec r}.
           region_view (pa_dealloc A r m) r2 = region_view m r2) \<and>
        cr3 (pa_dealloc A r m) = cr3 m \<and>
        phys_mem_ref (pa_dealloc A r m) = phys_mem_ref m \<and>
        mem_inv (pa_dealloc A r m) \<and> pa_valid A (pa_dealloc A r m))"

text \<open>
  Writing a word is not an allocator operation: it leaves the allocator in a valid state.
\<close>

definition allocator_contract :: "nat \<Rightarrow> page_allocator \<Rightarrow> bool" where
  "allocator_contract mw A \<longleftrightarrow>
     alloc_page_contract mw A \<and> dealloc_page_contract A \<and>
     (\<forall>m p. pa_valid A m \<longrightarrow> pa_valid A (m\<lparr>phys_mem := p\<rparr>))"

section \<open>Windows of physical memory\<close>

lemma length_region_view [simp]: "length (region_view m r) = mr_size r div 8"
  by (simp add: region_view_def)

lemma nth_region_view:
  "i < mr_size r div 8 \<Longrightarrow> region_view m r ! i = phys_mem m (mr_base r div 8 + i)"
  by (simp add: region_view_def word_index_spec_def)

lemma unat_word_index: "unat (word_index a) = word_index_spec (unat a)"
  by (simp add: word_index_def word_index_spec_def unat_div)

lemma word_index_no_overflow:
  assumes "unat idx < 512"
  shows "\<exists>off. checked_add (word_index pbase) idx = Some off
           \<and> unat off = unat pbase div 8 + unat idx"
proof -
  have "unat pbase < 2 ^ 64" by (rule order_less_le_trans [OF unsigned_less]) simp
  then have "unat pbase div 8 < 2 ^ 61" by (simp add: less_mult_imp_div_less)
  then show ?thesis
    using checked_addI [of "word_index pbase" idx] assms
    by (simp add: unat_word_index word_index_spec_def)
qed

lemma mem_read_correct:
  assumes "unat idx < 512" and "mr_base r = unat pbase" and "mr_size r = PAGE_SIZE"
  shows "mem_read m pbase idx = Some (spec_read m (unat idx) r)"
  using word_index_no_overflow [OF assms(1), of pbase] assms
  by (auto simp: mem_read_def spec_read_def nth_region_view)

lemma mem_write_frame:
  assumes "mem_write m pbase idx v = Some m'"
  shows "regions m' = regions m" "cr3 m' = cr3 m" "phys_mem_ref m' = phys_mem_ref m"
    "alloc_available_pages m' = alloc_available_pages m" "mem_inv m' = mem_inv m"
    "\<exists>p. m' = m\<lparr>phys_mem := p\<rparr>"
proof -
  obtain off where "checked_add (word_index pbase) idx = Some off"
      "m' = m\<lparr>phys_mem := (phys_mem m)(unat off := v)\<rparr>"
    using assms by (auto simp: mem_write_def bind_eq_Some_conv)
  then show "regions m' = regions m" "cr3 m' = cr3 m" "phys_mem_ref m' = phys_mem_ref m"
    "alloc_available_pages m' = alloc_available_pages m" "mem_inv m' = mem_inv m"
    "\<exists>p. m' = m\<lparr>phys_mem := p\<rparr>"
    by (auto simp: cr3_def mem_inv_def)
qed

lemma mem_write_correct:
  assumes idx: "unat idx < 512" and r: "mr_base r = unat pbase" "mr_size r = PAGE_SIZE"
    and al: "aligned (mr_base r) WORD_SIZE"
  shows "\<exists>m'. mem_write m pbase idx v = Some m' \<and>
           region_view m' r = (region_view m r)[unat idx := v] \<and>
           (\<forall>r2. \<not> overlap r r2 \<longrightarrow> region_view m' r2 = region_view m r2)"
proof -
  obtain off where off: "checked_add (word_index pbase) idx = Some off"
      "unat off = mr_base r div 8 + unat idx"
    using word_index_no_overflow [OF idx, of pbase] r by auto
  let ?m' = "m\<lparr>phys_mem := (phys_mem m)(unat off := v)\<rparr>"
  have "region_view ?m' r = (region_view m r)[unat idx := v]"
    by (rule nth_equalityI) (use off in \<open>auto simp: nth_region_view nth_list_update\<close>)
  moreover have "region_view ?m' r2 = region_view m r2" if no: "\<not> overlap r r2" for r2
  proof (rule nth_equalityI)
    fix i assume "i < length (region_view ?m' r2)"
    then have i: "i < mr_size r2 div 8" by simp
    consider "mr_base r + 4096 \<le> mr_base r2" | "mr_base r2 + mr_size r2 \<le> mr_base r"
      using no r by (auto simp: not_overlap_iff)
    then have "mr_base r2 div 8 + i \<noteq> mr_base r div 8 + unat idx"
    proof cases
      case 1
      then have "mr_base r div 8 + 512 \<le> mr_base r2 div 8"
        using div_le_mono [of "mr_base r + 4096" "mr_base r2" 8] by simp
      then show ?thesis using idx by linarith
    next
      case 2
      then have "mr_base r2 div 8 + mr_size r2 div 8 \<le> mr_base r div 8"
        using al unfolding aligned_def by simp
      then show ?thesis using i by linarith
    qed
    then show "region_view ?m' r2 ! i = region_view m r2 ! i"
      using i off(2) by (simp add: nth_region_view)
  qed simp
  ultimately show ?thesis using off(1) by (simp add: mem_write_def)
qed

lemma check_overflow_ok:
  assumes mw: "max_phyaddr_width_facts mw" and "pbase \<le> MAX_PHYADDR mw"
    and "phys_mem_ref m \<le> 0x7FE0000000000000" and idx: "unat idx < 512"
    and max: "unat (MAX_PHYADDR mw) < 2 ^ mw"
  shows "check_overflow m pbase idx"
proof -
  obtain off where off: "checked_add (word_index pbase) idx = Some off"
      "unat off = unat pbase div 8 + unat idx"
    using word_index_no_overflow [OF idx] by blast
  have "unat pbase < 2 ^ mw"
    using assms(2) max by (simp add: word_le_nat_alt)
  also have "(2::nat) ^ mw \<le> 2 ^ 52"
    using mw by (intro power_increasing) (simp_all add: max_phyaddr_width_facts_def)
  finally have "unat pbase div 8 < 2 ^ 49" by (simp add: less_mult_imp_div_less)
  then have "unat off < 2 ^ 49 + 512" using off(2) idx by simp
  then have "int (unat off) < int (2 ^ 49 + 512)" by (simp only: of_nat_less_iff)
  then have "uint off < 2 ^ 49 + 512" by simp
  moreover obtain k where "uint off = int k" using nonneg_int_cases [OF uint_ge_0] .
  ultimately show ?thesis
    using off(1) assms(3) by (simp add: check_overflow_def isize_ok_def)
qed

end
