(* ===== verification/PT_Impl.thy ===== *)
theory PT_Impl
  imports PT_Directory_Refine PT_Entry PT_Memory
begin

text \<open>
  The page table in memory, \<^verbatim>\<open>page-table/impl_u/l2_impl.rs\<close>: the ghost tree that
  records which memory region holds which directory, the invariant that ties memory and
  ghost tree together, the interpretation of memory as a \<open>Directory\<close> tree, and the
  executable operations \<open>resolve\<close>, \<open>map_frame\<close> and \<open>unmap\<close>.

  Executable functions return \<open>None\<close> where the Rust code would panic (arithmetic overflow,
  an index out of bounds). The memory is threaded through explicitly, and the \<open>Result\<close> of
  the source is a value of type \<open>rust_result\<close>. The width of physical addresses \<open>mw\<close> and
  the page allocator \<open>A\<close> are parameters.
\<close>

section \<open>Ghost tree, invariant and interpretation\<close>

datatype PTDir =
  PTDir (pt_region: MemRegion) (pt_entries: "PTDir option list") (pt_used_regions: "MemRegion set")

definition entry_at_spec :: "PageTableMemory \<Rightarrow> PTDir \<Rightarrow> nat \<Rightarrow> usize \<Rightarrow> nat \<Rightarrow> PageDirectoryEntry" where
  "entry_at_spec m pt layer ptr i = \<lparr>pde_entry = spec_read m i (pt_region pt), pde_layer = layer\<rparr>"

definition view_at ::
    "nat \<Rightarrow> PageTableMemory \<Rightarrow> PTDir \<Rightarrow> nat \<Rightarrow> usize \<Rightarrow> nat \<Rightarrow> GhostPageDirectoryEntry" where
  "view_at mw m pt layer ptr i =
     pde_view mw \<lparr>pde_entry = spec_read m i (pt_region pt), pde_layer = layer\<rparr>"

definition entry_at :: "PageTableMemory \<Rightarrow> nat \<Rightarrow> usize \<Rightarrow> usize \<Rightarrow> PageDirectoryEntry option" where
  "entry_at m layer ptr i = do {
     v \<leftarrow> mem_read m ptr i;
     Some \<lparr>pde_entry = v, pde_layer = layer\<rparr>
   }"

definition ghost_pt_matches_structure ::
    "nat \<Rightarrow> PageTableMemory \<Rightarrow> PTDir \<Rightarrow> nat \<Rightarrow> usize \<Rightarrow> bool" where
  "ghost_pt_matches_structure mw m pt layer ptr \<longleftrightarrow>
     (\<forall>i<X86_NUM_ENTRIES.
        is_GDirectory (view_at mw m pt layer ptr i) = (pt_entries pt ! i \<noteq> None))"

definition empty_at :: "nat \<Rightarrow> PageTableMemory \<Rightarrow> PTDir \<Rightarrow> nat \<Rightarrow> usize \<Rightarrow> bool" where
  "empty_at mw m pt layer ptr \<longleftrightarrow> (\<forall>i<X86_NUM_ENTRIES. view_at mw m pt layer ptr i = GEmpty)"

definition layer_in_range :: "nat \<Rightarrow> bool" where
  "layer_in_range layer \<longleftrightarrow> layer < X86_NUM_LAYERS"

definition directories_have_flags ::
    "nat \<Rightarrow> PageTableMemory \<Rightarrow> PTDir \<Rightarrow> nat \<Rightarrow> usize \<Rightarrow> bool" where
  "directories_have_flags mw m pt layer ptr \<longleftrightarrow>
     (\<forall>i<X86_NUM_ENTRIES. let entry = view_at mw m pt layer ptr i in
        is_GDirectory entry \<longrightarrow> gd_RW entry \<and> gd_US entry \<and> \<not> gd_XD entry)"

definition entry_mb0_bits_are_zero ::
    "nat \<Rightarrow> PageTableMemory \<Rightarrow> PTDir \<Rightarrow> nat \<Rightarrow> usize \<Rightarrow> bool" where
  "entry_mb0_bits_are_zero mw m pt layer ptr \<longleftrightarrow>
     (\<forall>i<X86_NUM_ENTRIES. all_mb0_bits_are_zero mw (entry_at_spec m pt layer ptr i))"

definition hp_pat_is_zero :: "nat \<Rightarrow> PageTableMemory \<Rightarrow> PTDir \<Rightarrow> nat \<Rightarrow> usize \<Rightarrow> bool" where
  "hp_pat_is_zero mw m pt layer ptr \<longleftrightarrow>
     (\<forall>i<X86_NUM_ENTRIES. pde_hp_pat_is_zero mw (entry_at_spec m pt layer ptr i))"

text \<open>
  The regions of the directory at entry \<open>i\<close> of the ghost tree. The source quantifies over
  single regions; the model states the same containments between sets.
\<close>

abbreviation child_regions :: "PTDir \<Rightarrow> nat \<Rightarrow> MemRegion set" where
  "child_regions pt i \<equiv> pt_used_regions (the (pt_entries pt ! i))"

definition ghost_pt_used_regions_pairwise_disjoint :: "PTDir \<Rightarrow> bool" where
  "ghost_pt_used_regions_pairwise_disjoint pt \<longleftrightarrow>
     (\<forall>i<length (pt_entries pt). \<forall>j<length (pt_entries pt).
        i \<noteq> j \<and> pt_entries pt ! i \<noteq> None \<and> pt_entries pt ! j \<noteq> None \<longrightarrow>
        child_regions pt i \<inter> child_regions pt j = {})"

definition ghost_pt_region_notin_used_regions :: "PTDir \<Rightarrow> bool" where
  "ghost_pt_region_notin_used_regions pt \<longleftrightarrow>
     (\<forall>i<length (pt_entries pt). pt_entries pt ! i \<noteq> None \<longrightarrow> pt_region pt \<notin> child_regions pt i)"

definition ghost_pt_used_regions_rtrancl :: "PTDir \<Rightarrow> bool" where
  "ghost_pt_used_regions_rtrancl pt \<longleftrightarrow>
     pt_region pt \<in> pt_used_regions pt \<and>
     (\<forall>i<length (pt_entries pt).
        pt_entries pt ! i \<noteq> None \<longrightarrow> child_regions pt i \<subseteq> pt_used_regions pt)"

declare conj_cong [fundef_cong]

function directories_obey_invariant_at ::
    "nat \<Rightarrow> PageTableMemory \<Rightarrow> PTDir \<Rightarrow> nat \<Rightarrow> usize \<Rightarrow> bool"
  and inv_at :: "nat \<Rightarrow> PageTableMemory \<Rightarrow> PTDir \<Rightarrow> nat \<Rightarrow> usize \<Rightarrow> bool" where
  "directories_obey_invariant_at mw m pt layer ptr =
     (if layer_in_range layer then
        (\<forall>i<X86_NUM_ENTRIES. let entry = view_at mw m pt layer ptr i in
           is_GDirectory entry \<longrightarrow> inv_at mw m (the (pt_entries pt ! i)) (layer + 1) (gd_addr entry))
      else undefined)"
| "inv_at mw m pt layer ptr =
     (unat ptr mod PAGE_SIZE = 0 \<and>
      mem_inv m \<and>
      pt_region pt \<in> regions m \<and>
      mr_base (pt_region pt) = unat ptr \<and>
      mr_size (pt_region pt) = PAGE_SIZE \<and>
      length (region_view m (pt_region pt)) = length (pt_entries pt) \<and>
      layer_in_range layer \<and>
      length (pt_entries pt) = X86_NUM_ENTRIES \<and>
      directories_obey_invariant_at mw m pt layer ptr \<and>
      directories_have_flags mw m pt layer ptr \<and>
      ghost_pt_matches_structure mw m pt layer ptr \<and>
      ghost_pt_used_regions_rtrancl pt \<and>
      ghost_pt_used_regions_pairwise_disjoint pt \<and>
      ghost_pt_region_notin_used_regions pt \<and>
      pt_used_regions pt \<subseteq> regions m \<and>
      hp_pat_is_zero mw m pt layer ptr \<and>
      entry_mb0_bits_are_zero mw m pt layer ptr)"
  by pat_completeness auto
termination
  by (relation "measure (\<lambda>x. case x of
       Inl (mw, m, pt, layer, ptr) \<Rightarrow> 2 * (X86_NUM_LAYERS - layer)
     | Inr (mw, m, pt, layer, ptr) \<Rightarrow> 2 * (X86_NUM_LAYERS - layer) + 1)")
    (auto simp: layer_in_range_def)

declare directories_obey_invariant_at.simps [simp del] inv_at.simps [simp del]

text \<open>
  The interpretation is only given for memories that satisfy the invariant; the model
  restricts it to layers in range, which is what its termination needs. The auxiliary
  function \<^verbatim>\<open>interp_at_aux\<close> of the source, which collects the 512 entries one by one,
  is \<open>map\<close> over the indices.
\<close>

function interp_at :: "nat \<Rightarrow> PageTableMemory \<Rightarrow> PTDir \<Rightarrow> nat \<Rightarrow> usize \<Rightarrow> nat \<Rightarrow> Directory"
  and interp_at_entry ::
    "nat \<Rightarrow> PageTableMemory \<Rightarrow> PTDir \<Rightarrow> nat \<Rightarrow> usize \<Rightarrow> nat \<Rightarrow> nat \<Rightarrow> NodeEntry" where
  "interp_at mw m pt layer ptr base_vaddr =
     Directory (map (interp_at_entry mw m pt layer ptr base_vaddr) [0..<X86_NUM_ENTRIES])
       layer base_vaddr x86_arch_spec permissive_flags"
| "interp_at_entry mw m pt layer ptr base_vaddr idx =
     (case view_at mw m pt layer ptr idx of
        GDirectory dir_addr p rw us pwt pcd a xd \<Rightarrow>
          if layer_in_range layer then
            NDirectory (interp_at mw m (the (pt_entries pt ! idx)) (layer + 1) dir_addr
              (arch_entry_base x86_arch_spec layer base_vaddr idx))
          else undefined
      | GPage addr p flag_RW flag_US pwt pcd a d g pat flag_XD \<Rightarrow>
          NPage \<lparr>pte_frame = \<lparr>mr_base = unat addr, mr_size = entry_size x86_arch_spec layer\<rparr>,
                 pte_flags = \<lparr>is_writable = flag_RW, is_supervisor = \<not> flag_US,
                              disable_execute = flag_XD\<rparr>\<rparr>
      | GEmpty \<Rightarrow> NEmpty)"
  by pat_completeness auto
termination
  by (relation "measure (\<lambda>x. case x of
       Inl (mw, m, pt, layer, ptr, b) \<Rightarrow> 2 * (X86_NUM_LAYERS - layer) + 1
     | Inr (mw, m, pt, layer, ptr, b, i) \<Rightarrow> 2 * (X86_NUM_LAYERS - layer))")
    (auto simp: layer_in_range_def)

declare interp_at.simps [simp del] interp_at_entry.simps [simp del]

definition pt_inv :: "nat \<Rightarrow> PageTableMemory \<Rightarrow> PTDir \<Rightarrow> bool" where
  "pt_inv mw m pt \<longleftrightarrow>
     pt_region pt = region_view_exec (cr3 m) \<and> inv_at mw m pt 0 (mre_base (cr3 m))"

definition pt_interp :: "nat \<Rightarrow> PageTableMemory \<Rightarrow> PTDir \<Rightarrow> Directory" where
  "pt_interp mw m pt = interp_at mw m pt 0 (mre_base (cr3 m)) 0"

definition accepted_mapping :: "nat \<Rightarrow> nat \<Rightarrow> PageTableEntry \<Rightarrow> bool" where
  "accepted_mapping mw vaddr pte \<longleftrightarrow>
     contains_entry_size_at_index_atleast x86_arch_spec (frame_size pte) 1 \<and>
     frame_base pte \<le> unat (MAX_PHYADDR mw)"

section \<open>Resolving\<close>

function resolve_aux ::
    "nat \<Rightarrow> PageTableMemory \<Rightarrow> nat \<Rightarrow> usize \<Rightarrow> usize \<Rightarrow> usize \<Rightarrow>
     (usize \<times> PageTableEntryExec, unit) rust_result option" where
  "resolve_aux mw m layer ptr base vaddr = do {
     idx \<leftarrow> index_for_vaddr_exec x86_arch_exec layer base vaddr;
     entry \<leftarrow> entry_at m layer ptr idx;
     if pde_is_mapping entry then do {
       entry_base \<leftarrow> entry_base_exec x86_arch_exec layer base idx;
       if pde_is_dir entry layer then
         resolve_aux mw m (layer + 1) (pde_address mw entry) entry_base vaddr
       else do {
         es \<leftarrow> entry_size_exec x86_arch_exec layer;
         Some (Ok (entry_base,
           \<lparr>ptee_frame = \<lparr>mre_base = pde_address mw entry, mre_size = es\<rparr>,
            ptee_flags = pde_flags entry\<rparr>))
       }
     }
     else Some (Err ())
   }"
  by pat_completeness auto

lemma index_for_vaddr_exec_layer:
  "index_for_vaddr_exec x86_arch_exec layer base vaddr = Some idx \<Longrightarrow> layer < X86_NUM_LAYERS"
  by (auto simp: index_for_vaddr_exec_def entry_size_exec_def x86_arch_exec_def bind_eq_Some_conv
      split: if_splits)

termination resolve_aux
  by (relation "measure (\<lambda>(mw, m, layer, ptr, base, vaddr). X86_NUM_LAYERS - layer)")
    (auto dest: index_for_vaddr_exec_layer)

declare resolve_aux.simps [simp del]

definition resolve ::
    "nat \<Rightarrow> PageTableMemory \<Rightarrow> usize \<Rightarrow> (usize \<times> PageTableEntryExec, unit) rust_result option" where
  "resolve mw m vaddr = resolve_aux mw m 0 (mre_base (cr3 m)) 0 vaddr"

section \<open>Mapping\<close>

definition insert_empty_directory ::
    "nat \<Rightarrow> page_allocator \<Rightarrow> PageTableMemory \<Rightarrow> PTDir \<Rightarrow> nat \<Rightarrow> usize \<Rightarrow> usize \<Rightarrow> usize \<Rightarrow>
     (PageTableMemory \<times> PTDir \<times> MemRegionExec \<times> PageDirectoryEntry) option" where
  "insert_empty_directory mw A m pt layer ptr base idx =
     (let (new_dir_region, m1) = pa_alloc A m;
          new_dir_ptr = mre_base new_dir_region;
          new_dir_pt = PTDir (region_view_exec new_dir_region) (new_seq X86_NUM_ENTRIES None)
                         {region_view_exec new_dir_region};
          new_dir_ent = new_dir_entry layer new_dir_ptr
      in do {
        m2 \<leftarrow> mem_write m1 ptr idx (pde_entry new_dir_ent);
        let pt_res = PTDir (pt_region pt) ((pt_entries pt)[unat idx := Some new_dir_pt])
                       (insert (pt_region new_dir_pt) (pt_used_regions pt));
        Some (m2, pt_res, new_dir_region, new_dir_ent)
      })"

function map_frame_aux ::
    "nat \<Rightarrow> page_allocator \<Rightarrow> PageTableMemory \<Rightarrow> PTDir \<Rightarrow> nat \<Rightarrow> usize \<Rightarrow> usize \<Rightarrow> usize \<Rightarrow>
     PageTableEntryExec \<Rightarrow> (PageTableMemory \<times> (PTDir \<times> MemRegion set, unit) rust_result) option" where
  "map_frame_aux mw A m pt layer ptr base vaddr pte = do {
     idx \<leftarrow> index_for_vaddr_exec x86_arch_exec layer base vaddr;
     entry \<leftarrow> entry_at m layer ptr idx;
     entry_base \<leftarrow> entry_base_exec x86_arch_exec layer base idx;
     es \<leftarrow> entry_size_exec x86_arch_exec layer;
     if pde_is_mapping entry then
       if pde_is_dir entry layer then
         if es = mre_size (ptee_frame pte) then Some (m, Err ())
         else do {
           let dir_addr = pde_address mw entry;
           let dir_pt = the (pt_entries pt ! unat idx);
           (m', res) \<leftarrow> map_frame_aux mw A m dir_pt (layer + 1) dir_addr entry_base vaddr pte;
           case res of
             Ok (dir_pt_res, new_regions) \<Rightarrow>
               Some (m', Ok (PTDir (pt_region pt) ((pt_entries pt)[unat idx := Some dir_pt_res])
                               (pt_used_regions pt \<union> new_regions), new_regions))
           | Err e \<Rightarrow> Some (m', Err e)
         }
       else Some (m, Err ())
     else
       if es = mre_size (ptee_frame pte) then do {
         let new_page_ent = new_page_entry layer pte;
         m' \<leftarrow> mem_write m ptr idx (pde_entry new_page_ent);
         Some (m', Ok (pt, {}))
       }
       else do {
         (m1, pt_with_empty, new_dir_region, new_dir_ent) \<leftarrow>
           insert_empty_directory mw A m pt layer ptr base idx;
         let new_dir_pt = the (pt_entries pt_with_empty ! unat idx);
         (m2, res) \<leftarrow>
           map_frame_aux mw A m1 new_dir_pt (layer + 1) (mre_base new_dir_region) entry_base vaddr pte;
         case res of
           Ok (dir_pt_res, dir_new_regions) \<Rightarrow>
             Some (m2, Ok (PTDir (pt_region pt_with_empty)
                             ((pt_entries pt_with_empty)[unat idx := Some dir_pt_res])
                             (pt_used_regions pt_with_empty \<union> dir_new_regions),
                           insert (region_view_exec new_dir_region) dir_new_regions))
         | Err e \<Rightarrow> Some (m2, Err e)
       }
   }"
  by pat_completeness auto
termination
  by (relation "measure (\<lambda>(mw, A, m, pt, layer, ptr, base, vaddr, pte). X86_NUM_LAYERS - layer)")
    (auto dest: index_for_vaddr_exec_layer)

declare map_frame_aux.simps [simp del]

definition map_frame ::
    "nat \<Rightarrow> page_allocator \<Rightarrow> PageTableMemory \<Rightarrow> PTDir \<Rightarrow> usize \<Rightarrow> PageTableEntryExec \<Rightarrow>
     (PageTableMemory \<times> PTDir \<times> (unit, unit) rust_result) option" where
  "map_frame mw A m pt vaddr pte = do {
     (m', res) \<leftarrow> map_frame_aux mw A m pt 0 (mre_base (cr3 m)) 0 vaddr pte;
     case res of
       Ok (pt', _) \<Rightarrow> Some (m', pt', Ok ())
     | Err e \<Rightarrow> Some (m', pt, Err ())
   }"

section \<open>Unmapping\<close>

lemma unat_Suc_less:
  assumes "idx < (n::usize)"
  shows "unat (idx + 1) = unat idx + 1"
proof -
  have "unat n < 2 ^ 64" by (rule order_less_le_trans [OF unsigned_less]) simp
  then show ?thesis
    using assms unat_add_no_overflow [of idx 1] by (simp add: word_less_nat_alt)
qed

text \<open>The loop of \<open>is_directory_empty\<close>, from index \<open>idx\<close> on.\<close>

function is_directory_empty_loop ::
    "PageTableMemory \<Rightarrow> nat \<Rightarrow> usize \<Rightarrow> usize \<Rightarrow> usize \<Rightarrow> bool option" where
  "is_directory_empty_loop m layer ptr n idx =
     (if idx < n then do {
        entry \<leftarrow> entry_at m layer ptr idx;
        if pde_is_mapping entry then Some False
        else is_directory_empty_loop m layer ptr n (idx + 1)
      }
      else Some True)"
  by pat_completeness auto
termination
  by (relation "measure (\<lambda>(m, layer, ptr, n, idx). unat n - unat idx)")
    (auto simp: unat_Suc_less word_less_nat_alt)

declare is_directory_empty_loop.simps [simp del]

definition is_directory_empty :: "PageTableMemory \<Rightarrow> nat \<Rightarrow> usize \<Rightarrow> bool option" where
  "is_directory_empty m layer ptr = do {
     n \<leftarrow> num_entries_exec x86_arch_exec layer;
     is_directory_empty_loop m layer ptr n 0
   }"

function unmap_aux ::
    "nat \<Rightarrow> page_allocator \<Rightarrow> PageTableMemory \<Rightarrow> PTDir \<Rightarrow> nat \<Rightarrow> usize \<Rightarrow> usize \<Rightarrow> usize \<Rightarrow>
     (PageTableMemory \<times> (PTDir \<times> MemRegion set, unit) rust_result) option" where
  "unmap_aux mw A m pt layer ptr base vaddr = do {
     idx \<leftarrow> index_for_vaddr_exec x86_arch_exec layer base vaddr;
     entry \<leftarrow> entry_at m layer ptr idx;
     entry_base \<leftarrow> entry_base_exec x86_arch_exec layer base idx;
     if pde_is_mapping entry then
       if pde_is_dir entry layer then do {
         let dir_addr = pde_address mw entry;
         let dir_pt = the (pt_entries pt ! unat idx);
         (m1, res) \<leftarrow> unmap_aux mw A m dir_pt (layer + 1) dir_addr entry_base vaddr;
         case res of
           Ok (dir_pt_res, rec_removed) \<Rightarrow> do {
             is_empty \<leftarrow> is_directory_empty m1 (layer + 1) dir_addr;
             if is_empty then do {
               m2 \<leftarrow> mem_write m1 ptr idx 0;
               let m3 = pa_dealloc A \<lparr>mre_base = dir_addr, mre_size = of_nat PAGE_SIZE\<rparr> m2;
               let removed_regions = insert (pt_region dir_pt_res) rec_removed;
               Some (m3, Ok (PTDir (pt_region pt) ((pt_entries pt)[unat idx := None])
                               (pt_used_regions pt - removed_regions), removed_regions))
             }
             else
               Some (m1, Ok (PTDir (pt_region pt) ((pt_entries pt)[unat idx := Some dir_pt_res])
                               (pt_used_regions pt - rec_removed), rec_removed))
           }
         | Err e \<Rightarrow> Some (m1, Err e)
       }
       else do {
         es \<leftarrow> entry_size_exec x86_arch_exec layer;
         al \<leftarrow> aligned_exec vaddr es;
         if al then do {
           m' \<leftarrow> mem_write m ptr idx 0;
           Some (m', Ok (pt, {}))
         }
         else Some (m, Err ())
       }
     else Some (m, Err ())
   }"
  by pat_completeness auto
termination
  by (relation "measure (\<lambda>(mw, A, m, pt, layer, ptr, base, vaddr). X86_NUM_LAYERS - layer)")
    (auto dest: index_for_vaddr_exec_layer)

declare unmap_aux.simps [simp del]

definition unmap ::
    "nat \<Rightarrow> page_allocator \<Rightarrow> PageTableMemory \<Rightarrow> PTDir \<Rightarrow> usize \<Rightarrow>
     (PageTableMemory \<times> PTDir \<times> (unit, unit) rust_result) option" where
  "unmap mw A m pt vaddr = do {
     (m', res) \<leftarrow> unmap_aux mw A m pt 0 (mre_base (cr3 m)) 0 vaddr;
     case res of
       Ok (pt', _) \<Rightarrow> Some (m', pt', Ok ())
     | Err e \<Rightarrow> Some (m', pt, Err ())
   }"

end
