(* ===== verification/PT_Impl_Inv.thy ===== *)
theory PT_Impl_Inv
  imports PT_Impl
begin

text \<open>
  The invariant and the interpretation of the page table in memory, slot by slot: what one
  of the 512 entries of a directory has to satisfy (\<open>slot_ok\<close>) and what it means
  (\<open>slot_node\<close>). The frame lemma says that both only depend on the regions the ghost tree
  lists; the update lemma says what a change of one slot does. The correctness proofs of
  \<open>map_frame\<close> and \<open>unmap\<close> instantiate the update lemma once per branch of the code.
\<close>

section \<open>Slots\<close>

definition slot_ok :: "nat \<Rightarrow> PageTableMemory \<Rightarrow> nat \<Rightarrow> u64 \<Rightarrow> PTDir option \<Rightarrow> bool" where
  "slot_ok mw m layer w c \<longleftrightarrow>
     (let e = \<lparr>pde_entry = w, pde_layer = layer\<rparr>; v = pde_view mw e in
        pde_hp_pat_is_zero mw e \<and> all_mb0_bits_are_zero mw e \<and> is_GDirectory v = (c \<noteq> None) \<and>
        (is_GDirectory v \<longrightarrow> gd_RW v \<and> gd_US v \<and> \<not> gd_XD v \<and>
           inv_at mw m (the c) (layer + 1) (gd_addr v)))"

definition slot_node :: "nat \<Rightarrow> PageTableMemory \<Rightarrow> nat \<Rightarrow> nat \<Rightarrow> u64 \<Rightarrow> PTDir option \<Rightarrow> NodeEntry" where
  "slot_node mw m layer entry_base w c =
     (case pde_view mw \<lparr>pde_entry = w, pde_layer = layer\<rparr> of
        GDirectory dir_addr p rw us pwt pcd a xd \<Rightarrow>
          NDirectory (interp_at mw m (the c) (layer + 1) dir_addr entry_base)
      | GPage addr p flag_RW flag_US pwt pcd a d g pat flag_XD \<Rightarrow>
          NPage \<lparr>pte_frame = \<lparr>mr_base = unat addr, mr_size = entry_size x86_arch_spec layer\<rparr>,
                 pte_flags = \<lparr>is_writable = flag_RW, is_supervisor = \<not> flag_US,
                              disable_execute = flag_XD\<rparr>\<rparr>
      | GEmpty \<Rightarrow> NEmpty)"

definition regions_ok :: "PTDir \<Rightarrow> bool" where
  "regions_ok pt \<longleftrightarrow> ghost_pt_used_regions_rtrancl pt \<and>
     ghost_pt_used_regions_pairwise_disjoint pt \<and> ghost_pt_region_notin_used_regions pt"

lemma inv_at_iff:
  "inv_at mw m pt layer ptr \<longleftrightarrow>
     unat ptr mod 4096 = 0 \<and> mem_inv m \<and> pt_region pt = \<lparr>mr_base = unat ptr, mr_size = 4096\<rparr> \<and>
     pt_region pt \<in> regions m \<and> layer < 4 \<and> length (pt_entries pt) = 512 \<and>
     pt_used_regions pt \<subseteq> regions m \<and> regions_ok pt \<and>
     (\<forall>i<512. slot_ok mw m layer (region_view m (pt_region pt) ! i) (pt_entries pt ! i))"
proof -
  have r: "pt_region pt = \<lparr>mr_base = unat ptr, mr_size = 4096\<rparr> \<longleftrightarrow>
        mr_base (pt_region pt) = unat ptr \<and> mr_size (pt_region pt) = 4096"
    by (cases "pt_region pt") simp
  show ?thesis
    unfolding inv_at.simps [of mw m pt] directories_obey_invariant_at.simps r regions_ok_def slot_ok_def
      directories_have_flags_def ghost_pt_matches_structure_def hp_pat_is_zero_def
      entry_mb0_bits_are_zero_def view_at_def entry_at_spec_def spec_read_def layer_in_range_def Let_def
    by (simp cong: conj_cong) blast
qed

lemma interp_at_slots:
  assumes "layer < 4"
  shows "interp_at mw m pt layer ptr b =
    Directory (map (\<lambda>i. slot_node mw m layer (arch_entry_base x86_arch_spec layer b i)
                 (region_view m (pt_region pt) ! i) (pt_entries pt ! i)) [0..<512])
      layer b x86_arch_spec permissive_flags"
  using assms
  by (simp add: interp_at.simps interp_at_entry.simps slot_node_def view_at_def spec_read_def
      layer_in_range_def cong: GhostPageDirectoryEntry.case_cong)

lemma interp_at_sel [simp]:
  "d_layer (interp_at mw m pt layer ptr b) = layer"
  "d_base_vaddr (interp_at mw m pt layer ptr b) = b"
  "d_arch (interp_at mw m pt layer ptr b) = x86_arch_spec"
  "d_flags (interp_at mw m pt layer ptr b) = permissive_flags"
  "length (d_entries (interp_at mw m pt layer ptr b)) = 512"
  by (simp_all add: interp_at.simps)

lemma interp_at_nth:
  assumes "layer < 4" and "i < 512"
  shows "d_entries (interp_at mw m pt layer ptr b) ! i =
    slot_node mw m layer (arch_entry_base x86_arch_spec layer b i)
      (region_view m (pt_region pt) ! i) (pt_entries pt ! i)"
  using assms by (simp add: interp_at_slots)

lemma inv_atD:
  assumes "inv_at mw m pt layer ptr"
  shows inv_at_mem: "mem_inv m" and inv_at_layer: "layer < 4"
    and inv_at_ptr: "unat ptr mod 4096 = 0"
    and inv_at_region: "pt_region pt = \<lparr>mr_base = unat ptr, mr_size = 4096\<rparr>"
    and inv_at_region_mem: "pt_region pt \<in> regions m"
    and inv_at_length: "length (pt_entries pt) = 512"
    and inv_at_used: "pt_used_regions pt \<subseteq> regions m"
    and inv_at_regions_ok: "regions_ok pt"
    and inv_at_slot: "i < 512 \<Longrightarrow> slot_ok mw m layer (region_view m (pt_region pt) ! i) (pt_entries pt ! i)"
  using assms unfolding inv_at_iff by blast+

lemma inv_at_used_region: "inv_at mw m pt layer ptr \<Longrightarrow> pt_region pt \<in> pt_used_regions pt"
  using inv_at_regions_ok unfolding regions_ok_def ghost_pt_used_regions_rtrancl_def by blast

lemma regions_okD:
  assumes "regions_ok pt" and "i < length (pt_entries pt)" and "pt_entries pt ! i = Some c"
  shows "pt_used_regions c \<subseteq> pt_used_regions pt" and "pt_region pt \<notin> pt_used_regions c"
    and "j < length (pt_entries pt) \<Longrightarrow> j \<noteq> i \<Longrightarrow> pt_entries pt ! j = Some c' \<Longrightarrow>
         pt_used_regions c' \<inter> pt_used_regions c = {}"
  using assms unfolding regions_ok_def ghost_pt_used_regions_rtrancl_def
    ghost_pt_used_regions_pairwise_disjoint_def ghost_pt_region_notin_used_regions_def
  by (metis option.sel option.distinct(1))+

lemma slot_child:
  assumes "slot_ok mw m layer w (Some c)"
  shows "\<exists>a. inv_at mw m c (layer + 1) a \<and>
    (\<forall>b. slot_node mw m layer b w (Some c) = NDirectory (interp_at mw m c (layer + 1) a b)) \<and>
    is_GDirectory (pde_view mw \<lparr>pde_entry = w, pde_layer = layer\<rparr>) \<and>
    gd_addr (pde_view mw \<lparr>pde_entry = w, pde_layer = layer\<rparr>) = a"
  using assms
  by (cases "pde_view mw \<lparr>pde_entry = w, pde_layer = layer\<rparr>")
    (simp_all add: slot_ok_def slot_node_def Let_def)

section \<open>Frame\<close>

text \<open>Slots without a child directory do not depend on memory at all.\<close>

lemma slot_no_child:
  assumes "slot_ok mw m layer w None"
  shows "slot_ok mw m' layer w None" and "slot_node mw m' layer b w None = slot_node mw m layer b w None"
  using assms
  by (cases "pde_view mw \<lparr>pde_entry = w, pde_layer = layer\<rparr>";
      simp add: slot_ok_def slot_node_def Let_def)+

lemma slot_with_child:
  assumes "slot_ok mw m layer w (Some c)"
    and "\<And>a. inv_at mw m c (layer + 1) a \<Longrightarrow>
            inv_at mw m' c (layer + 1) a \<and> (\<forall>b. interp_at mw m' c (layer + 1) a b = interp_at mw m c (layer + 1) a b)"
  shows "slot_ok mw m' layer w (Some c)"
    and "slot_node mw m' layer b w (Some c) = slot_node mw m layer b w (Some c)"
  using assms
  by (cases "pde_view mw \<lparr>pde_entry = w, pde_layer = layer\<rparr>";
      simp add: slot_ok_def slot_node_def Let_def)+

lemma inv_at_frame:
  assumes "inv_at mw m pt layer ptr" and "mem_inv m'" and "pt_used_regions pt \<subseteq> regions m'"
    and "\<And>r. r \<in> pt_used_regions pt \<Longrightarrow> region_view m' r = region_view m r"
  shows "inv_at mw m' pt layer ptr \<and> (\<forall>b. interp_at mw m' pt layer ptr b = interp_at mw m pt layer ptr b)"
  using assms
proof (induction "4 - layer" arbitrary: pt layer ptr)
  case 0
  then show ?case using inv_at_layer by fastforce
next
  case (Suc n)
  note inv = Suc.prems(1)
  have view: "region_view m' (pt_region pt) = region_view m (pt_region pt)"
    using Suc.prems(4) inv_at_used_region [OF inv] .
  let ?w = "\<lambda>i. region_view m (pt_region pt) ! i"
  have slot: "slot_ok mw m' layer (?w i) (pt_entries pt ! i) \<and>
      (\<forall>b. slot_node mw m' layer b (?w i) (pt_entries pt ! i) = slot_node mw m layer b (?w i) (pt_entries pt ! i))"
    if i: "i < 512" for i
  proof (cases "pt_entries pt ! i")
    case None
    then show ?thesis using slot_no_child [of mw m layer "?w i" m'] inv_at_slot [OF inv i] by simp
  next
    case (Some c)
    have sub: "pt_used_regions c \<subseteq> pt_used_regions pt"
      using regions_okD(1) [OF inv_at_regions_ok [OF inv] _ Some] i inv_at_length [OF inv] by simp
    have "inv_at mw m' c (layer + 1) a \<and>
        (\<forall>b. interp_at mw m' c (layer + 1) a b = interp_at mw m c (layer + 1) a b)"
      if "inv_at mw m c (layer + 1) a" for a
    proof (rule Suc.hyps(1) [OF _ that Suc.prems(2)])
      show "n = 4 - (layer + 1)" using Suc.hyps(2) by simp
    qed (use sub Suc.prems(3,4) in blast)+
    then show ?thesis using slot_with_child [of mw m layer "?w i" c m'] inv_at_slot [OF inv i] Some by simp
  qed
  have l: "layer < 4" by (rule inv_at_layer [OF inv])
  have "inv_at mw m' pt layer ptr"
    using inv slot Suc.prems(2,3) inv_at_used_region [OF inv] unfolding inv_at_iff view by blast
  moreover have "interp_at mw m' pt layer ptr b = interp_at mw m pt layer ptr b" for b
    unfolding interp_at_slots [OF l] view using slot by simp
  ultimately show ?case by blast
qed

section \<open>Changing one slot\<close>

definition unchanged :: "PageTableMemory \<Rightarrow> PageTableMemory \<Rightarrow> MemRegion set \<Rightarrow> bool" where
  "unchanged m m' R \<longleftrightarrow> (\<forall>r\<in>R. region_view m' r = region_view m r)"

lemma inv_at_update:
  assumes inv: "inv_at mw m pt layer ptr" and i: "i < 512"
    and pt': "pt_region pt' = pt_region pt" "pt_entries pt' = (pt_entries pt)[i := c]"
      "pt_used_regions pt' \<subseteq> regions m'" "regions_ok pt'"
    and m': "mem_inv m'" "region_view m' (pt_region pt) = (region_view m (pt_region pt))[i := w]"
    and others: "\<And>j d. j < 512 \<Longrightarrow> j \<noteq> i \<Longrightarrow> pt_entries pt ! j = Some d \<Longrightarrow> unchanged m m' (pt_used_regions d)"
    and slot: "slot_ok mw m' layer w c"
  shows "inv_at mw m' pt' layer ptr"
    and "interp_at mw m' pt' layer ptr b = dir_update (interp_at mw m pt layer ptr b) i
          (slot_node mw m' layer (arch_entry_base x86_arch_spec layer b i) w c)"
proof -
  let ?w = "\<lambda>j. region_view m (pt_region pt) ! j" and ?w' = "\<lambda>j. region_view m' (pt_region pt) ! j"
  have len: "length (pt_entries pt) = 512" "length (region_view m (pt_region pt)) = 512"
    using inv_at_length [OF inv] inv_at_region [OF inv] by simp_all
  have l: "layer < 4" by (rule inv_at_layer [OF inv])
  have same: "slot_ok mw m' layer (?w j) (pt_entries pt ! j) \<and>
      (\<forall>b. slot_node mw m' layer b (?w j) (pt_entries pt ! j) = slot_node mw m layer b (?w j) (pt_entries pt ! j))"
    if j: "j < 512" "j \<noteq> i" for j
  proof (cases "pt_entries pt ! j")
    case None
    then show ?thesis using slot_no_child [of mw m layer "?w j" m'] inv_at_slot [OF inv j(1)] by simp
  next
    case (Some d)
    have "j < length (pt_entries pt')" "pt_entries pt' ! j = Some d"
      using Some j len pt'(2) by simp_all
    then have "pt_used_regions d \<subseteq> regions m'"
      using regions_okD(1) [OF pt'(4)] pt'(3) by blast
    then have "inv_at mw m' d (layer + 1) a \<and>
        (\<forall>b. interp_at mw m' d (layer + 1) a b = interp_at mw m d (layer + 1) a b)"
      if "inv_at mw m d (layer + 1) a" for a
      using inv_at_frame [OF that m'(1)] others [OF j Some] by (simp add: unchanged_def)
    then show ?thesis using slot_with_child [of mw m layer "?w j" d m'] inv_at_slot [OF inv j(1)] Some by simp
  qed
  have "pt_region pt \<in> regions m'"
    using pt' unfolding regions_ok_def ghost_pt_used_regions_rtrancl_def by auto
  moreover have "slot_ok mw m' layer (?w' j) (pt_entries pt' ! j)" if "j < 512" for j
    using that same slot pt'(2) m'(2) len by (cases "j = i") simp_all
  ultimately show "inv_at mw m' pt' layer ptr"
    using inv pt' m'(1) len unfolding inv_at_iff by simp
  show "interp_at mw m' pt' layer ptr b = dir_update (interp_at mw m pt layer ptr b) i
          (slot_node mw m' layer (arch_entry_base x86_arch_spec layer b i) w c)"
    unfolding interp_at_slots [OF l] dir_update_def
    using pt' m'(2) len i same
    by (auto intro!: nth_equalityI simp: nth_list_update)
qed

lemma regions_ok_update:
  assumes ok: "regions_ok pt" and i: "i < length (pt_entries pt)"
    and pt': "pt_region pt' = pt_region pt" "pt_entries pt' = (pt_entries pt)[i := c]"
    and U: "pt_region pt \<in> pt_used_regions pt'"
    and others: "\<And>j d. j < length (pt_entries pt) \<Longrightarrow> j \<noteq> i \<Longrightarrow> pt_entries pt ! j = Some d \<Longrightarrow>
        pt_used_regions d \<subseteq> pt_used_regions pt' \<and>
        (\<forall>d'. c = Some d' \<longrightarrow> pt_used_regions d \<inter> pt_used_regions d' = {})"
    and new: "\<And>d'. c = Some d' \<Longrightarrow> pt_used_regions d' \<subseteq> pt_used_regions pt' \<and> pt_region pt \<notin> pt_used_regions d'"
  shows "regions_ok pt'"
  unfolding regions_ok_def
proof (intro conjI)
  have old: "pt_entries pt' ! j = (if j = i then c else pt_entries pt ! j)" for j
    using pt' i by (cases "j = i") simp_all
  have len: "length (pt_entries pt') = length (pt_entries pt)" using pt' by simp
  show "ghost_pt_used_regions_rtrancl pt'"
    unfolding ghost_pt_used_regions_rtrancl_def old len pt'(1)
  proof (intro conjI allI impI)
    fix j assume j: "j < length (pt_entries pt)" "(if j = i then c else pt_entries pt ! j) \<noteq> None"
    then obtain d where "(if j = i then c else pt_entries pt ! j) = Some d" by blast
    then show "pt_used_regions (the (if j = i then c else pt_entries pt ! j)) \<subseteq> pt_used_regions pt'"
      using new [of d] others [of j d] j(1) by (simp split: if_splits)
  qed (rule U)
  show "ghost_pt_region_notin_used_regions pt'"
    unfolding ghost_pt_region_notin_used_regions_def old len pt'(1)
  proof (intro allI impI)
    fix j assume j: "j < length (pt_entries pt)" "(if j = i then c else pt_entries pt ! j) \<noteq> None"
    then obtain d where "(if j = i then c else pt_entries pt ! j) = Some d" by blast
    then show "pt_region pt \<notin> pt_used_regions (the (if j = i then c else pt_entries pt ! j))"
      using new [of d] regions_okD(2) [OF ok j(1), of d] by (simp split: if_splits)
  qed
  show "ghost_pt_used_regions_pairwise_disjoint pt'"
    unfolding ghost_pt_used_regions_pairwise_disjoint_def old len
  proof (intro allI impI)
    fix j k
    assume jk: "j < length (pt_entries pt)" "k < length (pt_entries pt)"
      "j \<noteq> k \<and> (if j = i then c else pt_entries pt ! j) \<noteq> None \<and> (if k = i then c else pt_entries pt ! k) \<noteq> None"
    then obtain d d' where d: "(if j = i then c else pt_entries pt ! j) = Some d"
        "(if k = i then c else pt_entries pt ! k) = Some d'" by blast
    consider "j = i" "k \<noteq> i" | "k = i" "j \<noteq> i" | "j \<noteq> i" "k \<noteq> i" using jk by blast
    then have "pt_used_regions d \<inter> pt_used_regions d' = {}"
    proof cases
      case 1 then show ?thesis using others [of k d'] jk d by auto
    next
      case 2 then show ?thesis using others [of j d] jk d by auto
    next
      case 3
      then show ?thesis using regions_okD(3) [OF ok jk(2), of d' j d] jk d by simp
    qed
    then show "pt_used_regions (the (if j = i then c else pt_entries pt ! j)) \<inter>
        pt_used_regions (the (if k = i then c else pt_entries pt ! k)) = {}"
      using d by simp
  qed
qed

end
