(* ===== verification/PT_Impl_Step.thy ===== *)
theory PT_Impl_Step
  imports PT_Impl_Inv
begin

text \<open>
  What the executable code sees at one directory: the index, the entry, the entry's base
  and size it computes are those of the interpreted directory, and none of the computations
  overflows; the tests \<open>pde_is_mapping\<close> and \<open>pde_is_dir\<close> tell empty, directory and page
  entries apart. With this, \<open>resolve\<close> refines the tree's \<open>dir_resolve\<close>.
\<close>

section \<open>One step\<close>

lemma interp_at_dir_simps:
  "dir_entry_size (interp_at mw m pt layer ptr b) = entry_size x86_arch_spec layer"
  "dir_index_for_vaddr (interp_at mw m pt layer ptr b) va = arch_index_for_vaddr x86_arch_spec layer b va"
  "dir_entry_base (interp_at mw m pt layer ptr b) i = arch_entry_base x86_arch_spec layer b i"
  by (simp_all add: dir_entry_size_def dir_index_for_vaddr_def dir_entry_base_def)

lemma x86_exec_length [simp]: "length (layers_exec x86_arch_exec) = 4"
  by (simp add: x86_arch_exec_def)

lemma entry_at_spec_read:
  assumes "inv_at mw m pt layer ptr" and "unat idx < 512"
  shows "entry_at m layer ptr idx =
    Some \<lparr>pde_entry = region_view m (pt_region pt) ! unat idx, pde_layer = layer\<rparr>"
  using mem_read_correct [OF assms(2), of "pt_region pt" ptr m] inv_at_region [OF assms(1)]
  by (simp add: entry_at_def spec_read_def)

definition step_at ::
    "nat \<Rightarrow> PageTableMemory \<Rightarrow> PTDir \<Rightarrow> nat \<Rightarrow> usize \<Rightarrow> usize \<Rightarrow> usize \<Rightarrow> usize \<Rightarrow> usize \<Rightarrow> usize \<Rightarrow> bool"
  where
  "step_at mw m pt layer ptr base vaddr idx eb es \<longleftrightarrow>
     index_for_vaddr_exec x86_arch_exec layer base vaddr = Some idx \<and>
     unat idx = dir_index_for_vaddr (interp_at mw m pt layer ptr (unat base)) (unat vaddr) \<and>
     unat idx < 512 \<and>
     entry_at m layer ptr idx =
       Some \<lparr>pde_entry = region_view m (pt_region pt) ! unat idx, pde_layer = layer\<rparr> \<and>
     entry_base_exec x86_arch_exec layer base idx = Some eb \<and>
     unat eb = arch_entry_base x86_arch_spec layer (unat base) (unat idx) \<and>
     entry_size_exec x86_arch_exec layer = Some es \<and> unat es = entry_size x86_arch_spec layer"

lemma step_atD:
  assumes "step_at mw m pt layer ptr base vaddr i eb es"
  shows step_index: "index_for_vaddr_exec x86_arch_exec layer base vaddr = Some i"
    and step_index_spec: "unat i = dir_index_for_vaddr (interp_at mw m pt layer ptr (unat base)) (unat vaddr)"
    and step_index_less: "unat i < 512"
    and step_entry: "entry_at m layer ptr i =
       Some \<lparr>pde_entry = region_view m (pt_region pt) ! unat i, pde_layer = layer\<rparr>"
    and step_entry_base: "entry_base_exec x86_arch_exec layer base i = Some eb"
    and step_entry_base_spec: "unat eb = arch_entry_base x86_arch_spec layer (unat base) (unat i)"
    and step_entry_size: "entry_size_exec x86_arch_exec layer = Some es"
    and step_entry_size_spec: "unat es = entry_size x86_arch_spec layer"
  using assms unfolding step_at_def by blast+

lemmas step_exec = step_index step_entry step_entry_base step_entry_size

lemma step_node:
  assumes "step_at mw m pt layer ptr base vaddr i eb es" and "inv_at mw m pt layer ptr"
  shows "d_entries (interp_at mw m pt layer ptr (unat base)) ! unat i =
    slot_node mw m layer (unat eb) (region_view m (pt_region pt) ! unat i) (pt_entries pt ! unat i)"
  using interp_at_nth [OF inv_at_layer [OF assms(2)] step_index_less [OF assms(1)]]
    step_entry_base_spec [OF assms(1)] by simp

lemma exec_step:
  assumes inv: "inv_at mw m pt layer ptr"
    and va: "unat base \<le> unat vaddr" "unat vaddr < MAX_BASE"
    and i: "dir_index_for_vaddr (interp_at mw m pt layer ptr (unat base)) (unat vaddr) < 512"
  obtains i eb es where "step_at mw m pt layer ptr base vaddr i eb es"
proof -
  have l: "layer < length (layers_exec x86_arch_exec)" using inv_at_layer [OF inv] by simp
  note a = x86_arch_inv [folded x86_arch_exec_view]
  obtain idx where idx: "index_for_vaddr_exec x86_arch_exec layer base vaddr = Some idx"
      "unat idx = arch_index_for_vaddr x86_arch_spec layer (unat base) (unat vaddr)"
    using index_for_vaddr_exec_view [OF a l, of base vaddr] va(1)
    by (auto simp: x86_arch_exec_view word_le_nat_alt)
  then have small: "unat idx < 512" using i by (simp add: interp_at_dir_simps)
  obtain eb where "entry_base_exec x86_arch_exec layer base idx = Some eb"
      "unat eb = arch_entry_base x86_arch_spec layer (unat base) (unat idx)"
    using entry_base_exec_view [OF a l, of base idx] va small by (auto simp: x86_arch_exec_view)
  moreover obtain es where "entry_size_exec x86_arch_exec layer = Some es"
      "unat es = entry_size x86_arch_spec layer"
    using entry_size_exec_view [OF l] by (auto simp: x86_arch_exec_view)
  ultimately show thesis
    using that idx small entry_at_spec_read [OF inv small] by (simp add: step_at_def interp_at_dir_simps)
qed

lemma slot_cases:
  assumes mw: "max_phyaddr_width_facts mw" and ok: "slot_ok mw m layer w c" and l: "layer < 4"
  obtains
    (empty) "\<not> pde_is_mapping \<lparr>pde_entry = w, pde_layer = layer\<rparr>" "c = None"
      "\<And>b. slot_node mw m layer b w c = NEmpty"
  | (dir) d where "pde_is_mapping \<lparr>pde_entry = w, pde_layer = layer\<rparr>"
      "pde_is_dir \<lparr>pde_entry = w, pde_layer = layer\<rparr> layer" "c = Some d"
      "inv_at mw m d (layer + 1) (pde_address mw \<lparr>pde_entry = w, pde_layer = layer\<rparr>)"
      "\<And>b. slot_node mw m layer b w c =
         NDirectory (interp_at mw m d (layer + 1) (pde_address mw \<lparr>pde_entry = w, pde_layer = layer\<rparr>) b)"
  | (page) "pde_is_mapping \<lparr>pde_entry = w, pde_layer = layer\<rparr>"
      "\<not> pde_is_dir \<lparr>pde_entry = w, pde_layer = layer\<rparr> layer" "c = None"
      "\<And>b. slot_node mw m layer b w c =
         NPage \<lparr>pte_frame = \<lparr>mr_base = unat (pde_address mw \<lparr>pde_entry = w, pde_layer = layer\<rparr>),
                               mr_size = entry_size x86_arch_spec layer\<rparr>,
                 pte_flags = pde_flags \<lparr>pde_entry = w, pde_layer = layer\<rparr>\<rparr>"
proof -
  let ?e = "\<lparr>pde_entry = w, pde_layer = layer\<rparr>"
  have l3: "pde_layer ?e \<le> 3" using l by simp
  have s: "pde_hp_pat_is_zero mw ?e" "all_mb0_bits_are_zero mw ?e"
      "is_GDirectory (pde_view mw ?e) = (c \<noteq> None)"
    using ok by (simp_all add: slot_ok_def Let_def)
  note mapping = pde_is_mapping_iff [OF s(2) l3]
  note addr = pde_address_view [OF mw s(1,2) l3]
  show thesis
  proof (cases "pde_view mw ?e")
    case (GDirectory a p rw us pwt pcd ac xd)
    then obtain d where d: "c = Some d" using s(3) by auto
    have "pde_is_dir ?e layer" using pde_is_page_iff(2) [of mw ?e] GDirectory l3 by simp
    moreover have "pde_address mw ?e = a" using addr(2) GDirectory by simp
    ultimately show thesis
      using dir [of d] mapping GDirectory d ok by (simp add: slot_ok_def slot_node_def Let_def)
  next
    case (GPage a p rw us pwt pcd ac di g pat xd)
    have "\<not> pde_is_dir ?e layer" using pde_is_page_iff(2) [of mw ?e] GPage l3 by simp
    moreover have "pde_address mw ?e = a" using addr(1) GPage by simp
    moreover have "pde_flags ?e = \<lparr>is_writable = rw, is_supervisor = \<not> us, disable_execute = xd\<rparr>"
      using pde_flags_view [of mw ?e] GPage l3 by simp
    ultimately show thesis
      using page mapping GPage s(3) by (simp add: slot_node_def)
  next
    case GEmpty
    then show thesis using empty mapping s(3) by (simp add: slot_node_def)
  qed
qed

section \<open>Resolving\<close>

definition resolve_view ::
    "(usize \<times> PageTableEntryExec, unit) rust_result \<Rightarrow> (nat \<times> PageTableEntry, unit) rust_result" where
  "resolve_view res = result_map_ok res (\<lambda>v. (unat (fst v), pte_view (snd v)))"

lemma resolve_view_simps [simp]:
  "resolve_view (Ok (b, p)) = Ok (unat b, pte_view p)" "resolve_view (Err e) = Err e"
  by (simp_all add: resolve_view_def)

lemma dir_index_at:
  assumes inv: "inv_at mw m pt layer ptr" and dinv: "dir_inv (interp_at mw m pt layer ptr b)"
    and va: "b \<le> va" "va < dir_upper_vaddr (interp_at mw m pt layer ptr b)"
  shows "dir_index_for_vaddr (interp_at mw m pt layer ptr b) va < 512"
  using dir_index_less [OF dinv] dir_length [OF dinv] va by simp

lemma dir_resolve_at:
  assumes "i = dir_index_for_vaddr d va" and "i < length (d_entries d)"
  shows "dir_resolve d va = (case d_entries d ! i of
           NPage pte \<Rightarrow> Ok (dir_entry_base d i, pte)
         | NDirectory d' \<Rightarrow> dir_resolve d' va
         | NEmpty \<Rightarrow> Err ())"
  unfolding assms(1) using assms by (subst dir_resolve.simps) (simp add: Let_def)

lemma resolve_aux_correct:
  assumes mw: "max_phyaddr_width_facts mw" and "inv_at mw m pt layer ptr"
    and "dir_inv (interp_at mw m pt layer ptr (unat base))"
    and "unat base \<le> unat vaddr" and "unat vaddr < MAX_BASE"
    and "unat vaddr < dir_upper_vaddr (interp_at mw m pt layer ptr (unat base))"
  shows "\<exists>res. resolve_aux mw m layer ptr base vaddr = Some res \<and>
           resolve_view res = dir_resolve (interp_at mw m pt layer ptr (unat base)) (unat vaddr)"
  using assms(2-)
proof (induction "4 - layer" arbitrary: pt layer ptr base)
  case 0
  then show ?case using inv_at_layer by fastforce
next
  case (Suc n)
  let ?D = "interp_at mw m pt layer ptr (unat base)"
  note inv = Suc.prems(1) and dinv = Suc.prems(2)
  note idx = dir_index_at [OF inv dinv Suc.prems(3,5)]
  obtain i eb es where step: "step_at mw m pt layer ptr base vaddr i eb es"
    using exec_step [OF inv Suc.prems(3,4) idx] .
  have l: "layer < 4" using inv_at_layer [OF inv] .
  note node = step_node [OF step inv] and i = step_index_less [OF step]
  note unf = resolve_aux.simps [of mw m layer ptr base vaddr] step_exec [OF step]
  note res = dir_resolve_at [OF step_index_spec [OF step], unfolded interp_at_sel, OF i]
  show ?case
  proof (cases rule: slot_cases [OF mw inv_at_slot [OF inv i] l])
    case 1
    then show ?thesis using node by (simp add: unf res)
  next
    case (2 d)
    let ?a = "pde_address mw \<lparr>pde_entry = region_view m (pt_region pt) ! unat i, pde_layer = layer\<rparr>"
    have e: "d_entries ?D ! unat i = NDirectory (interp_at mw m d (layer + 1) ?a (unat eb))"
      using node 2(5) by simp
    have "unat i < dir_num_entries ?D" using dir_length [OF dinv] i by simp
    note c = dir_child [OF dinv this e]
    have b: "unat eb \<le> unat vaddr" "unat vaddr < dir_entry_base ?D (unat i + 1)"
      using dir_index_bounds [OF dinv, of "unat vaddr"] Suc.prems(3) step_index_spec [OF step]
        step_entry_base_spec [OF step] by (simp_all add: interp_at_dir_simps)
    have "n = 4 - (layer + 1)" using Suc.hyps(2) by simp
    from Suc.hyps(1) [OF this 2(4) c(1) b(1) Suc.prems(4)] show ?thesis
      using 2(1,2) e c(7) b(2) by (simp add: unf res)
  next
    case 3
    then show ?thesis
      using node step_entry_base_spec [OF step] step_entry_size_spec [OF step]
      by (simp add: unf res pte_view_def region_view_exec_def interp_at_dir_simps)
  qed
qed

end
