(* ===== verification/PT_Impl_Slots.thy ===== *)
theory PT_Impl_Slots
  imports PT_Impl_Step
begin

text \<open>
  The building blocks of the updates the code makes to one directory: writing a word,
  the slots that hold a new page entry, a new directory entry or zero, a zeroed page as an
  empty directory, and the replacement of one slot together with the bookkeeping of the
  regions in the ghost tree.
\<close>

section \<open>Replacing a slot\<close>

definition kept_regions :: "PTDir \<Rightarrow> nat \<Rightarrow> MemRegion set" where
  "kept_regions pt i = pt_used_regions pt -
     (case pt_entries pt ! i of None \<Rightarrow> {} | Some d \<Rightarrow> pt_used_regions d)"

lemma kept_region:
  assumes "inv_at mw m pt layer ptr" and "i < 512"
  shows "pt_region pt \<in> kept_regions pt i"
  using regions_okD(2) [OF inv_at_regions_ok [OF assms(1)]] inv_at_used_region [OF assms(1)]
    inv_at_length [OF assms(1)] assms(2)
  by (auto simp: kept_regions_def split: option.splits)

lemma kept_other:
  assumes inv: "inv_at mw m pt layer ptr" and "i < 512" and "j < 512" and "j \<noteq> i"
    and d: "pt_entries pt ! j = Some d"
  shows "pt_used_regions d \<subseteq> kept_regions pt i" and "pt_region pt \<notin> pt_used_regions d"
proof -
  have len: "j < length (pt_entries pt)" "i < length (pt_entries pt)"
    using inv_at_length [OF inv] assms by simp_all
  note ok = regions_okD [OF inv_at_regions_ok [OF inv] len(1) d]
  show "pt_region pt \<notin> pt_used_regions d" by (rule ok(2))
  have "pt_used_regions c \<inter> pt_used_regions d = {}" if "pt_entries pt ! i = Some c" for c
    using ok(3) [OF len(2) _ that] assms(4) by blast
  then show "pt_used_regions d \<subseteq> kept_regions pt i"
    using ok(1) by (auto simp: kept_regions_def split: option.splits)
qed

lemma slot_update:
  assumes inv: "inv_at mw m pt layer ptr" and i: "i < 512"
    and U: "kept_regions pt i \<subseteq> U" "U \<subseteq> regions m'"
    and new: "\<And>d. c = Some d \<Longrightarrow> pt_used_regions d \<subseteq> U \<and> pt_used_regions d \<inter> kept_regions pt i = {}"
    and m': "mem_inv m'" "region_view m' (pt_region pt) = (region_view m (pt_region pt))[i := w]"
      "unchanged m m' (kept_regions pt i - {pt_region pt})"
    and slot: "slot_ok mw m' layer w c"
  shows "inv_at mw m' (PTDir (pt_region pt) ((pt_entries pt)[i := c]) U) layer ptr \<and>
    interp_at mw m' (PTDir (pt_region pt) ((pt_entries pt)[i := c]) U) layer ptr b =
      dir_update (interp_at mw m pt layer ptr b) i
        (slot_node mw m' layer (arch_entry_base x86_arch_spec layer b i) w c)"
proof -
  let ?pt = "PTDir (pt_region pt) ((pt_entries pt)[i := c]) U"
  note len = inv_at_length [OF inv]
  note kept = kept_other [OF inv i]
  have ok: "regions_ok ?pt"
  proof (rule regions_ok_update [OF inv_at_regions_ok [OF inv], of i _ c])
    show "pt_region pt \<in> pt_used_regions ?pt" using kept_region [OF inv i] U(1) by auto
    show "pt_used_regions d \<subseteq> pt_used_regions ?pt \<and> pt_region pt \<notin> pt_used_regions d"
      if "c = Some d" for d
      using new [OF that] kept_region [OF inv i] by auto
    show "pt_used_regions d \<subseteq> pt_used_regions ?pt \<and>
        (\<forall>d'. c = Some d' \<longrightarrow> pt_used_regions d \<inter> pt_used_regions d' = {})"
      if "j < length (pt_entries pt)" "j \<noteq> i" "pt_entries pt ! j = Some d" for j d
      using kept(1) [of j d] that U(1) new len by fastforce
  qed (use i len in simp_all)
  have others: "unchanged m m' (pt_used_regions d)"
    if "j < 512" "j \<noteq> i" "pt_entries pt ! j = Some d" for j d
    using kept [OF that] m'(3) by (auto simp: unchanged_def)
  show ?thesis
    using inv_at_update [OF inv i _ _ _ ok m'(1,2) others slot] U(2) by simp
qed

section \<open>Writing a word of a directory\<close>

lemma regions_not_overlap:
  assumes "mem_inv m" and "r \<in> regions m" and "r' \<in> regions m" and "r \<noteq> r'"
  shows "\<not> overlap r r'"
  using assms by (simp add: mem_inv_def)

lemma allocator_contractD:
  assumes "allocator_contract mw A"
  shows "alloc_page_contract mw A" and "dealloc_page_contract A"
    and "pa_valid A m \<Longrightarrow> pa_valid A (m\<lparr>phys_mem := p\<rparr>)"
  using assms by (simp_all add: allocator_contract_def)

lemma node_write:
  assumes r: "r = \<lparr>mr_base = unat ptr, mr_size = 4096\<rparr>" "r \<in> regions m" "unat ptr mod 4096 = 0"
    and m: "mem_inv m" and idx: "unat idx < 512"
    and A: "allocator_contract mw A" "pa_valid A m"
  obtains m' where "mem_write m ptr idx v = Some m'"
    "region_view m' r = (region_view m r)[unat idx := v]"
    "unchanged m m' (regions m - {r})" "regions m' = regions m" "cr3 m' = cr3 m" "mem_inv m'"
    "pa_valid A m'" "alloc_available_pages m' = alloc_available_pages m"
proof -
  have "unat ptr mod 8 = 0"
    using r(3) mod_mult_zero_implies_mod_zero [of "unat ptr" 8 512] by simp
  then have al: "aligned (mr_base r) WORD_SIZE" using r(1) by (simp add: aligned_def)
  obtain m' where w: "mem_write m ptr idx v = Some m'"
      "region_view m' r = (region_view m r)[unat idx := v]"
      "\<forall>r2. \<not> overlap r r2 \<longrightarrow> region_view m' r2 = region_view m r2"
    using mem_write_correct [OF idx _ _ al, of ptr m v] r(1) by auto
  note f = mem_write_frame [OF w(1)]
  have "unchanged m m' (regions m - {r})"
    using w(3) regions_not_overlap [OF m r(2)] by (auto simp: unchanged_def)
  moreover have "pa_valid A m'" using f(6) allocator_contractD(3) [OF A(1,2)] by blast
  ultimately show thesis using that w f m by simp
qed

section \<open>The slots the code writes\<close>

lemma zero_slot:
  assumes "layer < 4"
  shows "slot_ok mw m layer 0 None" and "slot_node mw m layer b 0 None = NEmpty"
  using zero_entry_view [of "\<lparr>pde_entry = 0, pde_layer = layer\<rparr>" mw] assms
  by (simp_all add: slot_ok_def slot_node_def)

lemma new_page_entry_eta:
  "\<lparr>pde_entry = pde_entry (new_page_entry layer pte), pde_layer = layer\<rparr> = new_page_entry layer pte"
  by (simp add: new_page_entry_def new_entry_def)

lemma new_dir_entry_eta:
  "\<lparr>pde_entry = pde_entry (new_dir_entry layer a), pde_layer = layer\<rparr> = new_dir_entry layer a"
  by (simp add: new_dir_entry_def new_entry_def)

lemma new_page_slot:
  assumes mw: "max_phyaddr_width_facts mw"
    and ok: "entry_address_ok mw layer (mre_base (ptee_frame pte)) True"
    and sz: "frame_size (pte_view pte) = entry_size x86_arch_spec layer"
  shows "slot_ok mw m layer (pde_entry (new_page_entry layer pte)) None"
    and "slot_node mw m layer b (pde_entry (new_page_entry layer pte)) None = NPage (pte_view pte)"
  using new_entry_view [OF mw ok] new_entry_mb0 [OF mw ok] new_entry_hp_pat [OF mw ok] sz
  unfolding slot_ok_def slot_node_def new_page_entry_eta
  by (simp_all add: new_page_entry_def pte_view_def region_view_exec_def)

lemma new_dir_slot:
  assumes mw: "max_phyaddr_width_facts mw" and l: "layer < 3"
    and a: "a \<le> MAX_PHYADDR mw" "aligned (unat a) PAGE_SIZE" and d: "inv_at mw m d (layer + 1) a"
  shows "slot_ok mw m layer (pde_entry (new_dir_entry layer a)) (Some d)"
    and "slot_node mw m layer b (pde_entry (new_dir_entry layer a)) (Some d) =
           NDirectory (interp_at mw m d (layer + 1) a b)"
proof -
  have ok: "entry_address_ok mw layer a False"
    using l aligned_mask_addr [OF mw a] by (simp add: entry_address_ok_def addr_is_zero_padded_def)
  show "slot_ok mw m layer (pde_entry (new_dir_entry layer a)) (Some d)"
    and "slot_node mw m layer b (pde_entry (new_dir_entry layer a)) (Some d) =
           NDirectory (interp_at mw m d (layer + 1) a b)"
    using new_entry_view [OF mw ok] new_entry_mb0 [OF mw ok] new_entry_hp_pat [OF mw ok] d
    unfolding slot_ok_def slot_node_def new_dir_entry_eta
    by (simp_all add: new_dir_entry_def)
qed

section \<open>Empty directories\<close>

lemma empty_directory:
  assumes "mem_inv m" and "r \<in> regions m" and "r = \<lparr>mr_base = unat ptr, mr_size = 4096\<rparr>"
    and "unat ptr mod 4096 = 0" and "region_view m r = new_seq 512 0" and l: "layer < 4"
  shows "inv_at mw m (PTDir r (new_seq 512 None) {r}) layer ptr"
    and "interp_at mw m (PTDir r (new_seq 512 None) {r}) layer ptr b =
           Directory (new_seq 512 NEmpty) layer b x86_arch_spec permissive_flags"
proof -
  have "regions_ok (PTDir r (new_seq 512 None) {r})"
    by (simp add: regions_ok_def ghost_pt_used_regions_rtrancl_def
        ghost_pt_used_regions_pairwise_disjoint_def ghost_pt_region_notin_used_regions_def
        new_seq_replicate)
  then show "inv_at mw m (PTDir r (new_seq 512 None) {r}) layer ptr"
    using assms zero_slot(1) [OF l] unfolding inv_at_iff by (simp add: new_seq_replicate)
  show "interp_at mw m (PTDir r (new_seq 512 None) {r}) layer ptr b =
           Directory (new_seq 512 NEmpty) layer b x86_arch_spec permissive_flags"
    unfolding interp_at_slots [OF l] using assms(5) zero_slot(2) [OF l]
    by (auto intro!: nth_equalityI simp: new_seq_replicate)
qed

lemma interp_at_empty_iff:
  assumes mw: "max_phyaddr_width_facts mw" and inv: "inv_at mw m pt layer ptr"
  shows "dir_empty (interp_at mw m pt layer ptr b) \<longleftrightarrow> empty_at mw m pt layer ptr"
proof -
  have l: "layer < 4" using inv_at_layer [OF inv] .
  have "(d_entries (interp_at mw m pt layer ptr b) ! i = NEmpty) = (view_at mw m pt layer ptr i = GEmpty)"
    if "i < 512" for i
    unfolding interp_at_nth [OF l that]
    by (simp add: slot_node_def view_at_def spec_read_def split: GhostPageDirectoryEntry.splits)
  then show ?thesis
    using l by (simp add: dir_empty_def dir_num_entries_def empty_at_def)
qed

end
