(* ===== verification/PT_Impl_Map.thy ===== *)
theory PT_Impl_Map
  imports PT_Impl_Slots
begin

text \<open>
  \<open>map_frame\<close> on the page table in memory refines \<open>dir_map_frame\<close> on the interpreted tree:
  it never panics, keeps the invariant, only touches the regions of the table, reports the
  regions it allocated, and leaves memory untouched when it fails.
\<close>

section \<open>Postcondition\<close>

definition map_post ::
    "nat \<Rightarrow> page_allocator \<Rightarrow> PageTableMemory \<Rightarrow> PTDir \<Rightarrow> nat \<Rightarrow> usize \<Rightarrow> nat \<Rightarrow> nat \<Rightarrow> PageTableEntry \<Rightarrow>
     PageTableMemory \<Rightarrow> (PTDir \<times> MemRegion set, unit) rust_result \<Rightarrow> bool" where
  "map_post mw A m pt layer ptr b va pte m' res \<longleftrightarrow>
     cr3 m' = cr3 m \<and> pa_valid A m' \<and>
     alloc_available_pages m \<le> alloc_available_pages m' + (3 - layer) \<and>
     (case res of
        Ok (pt', N) \<Rightarrow>
          regions m' = regions m \<union> N \<and> pt_used_regions pt' = pt_used_regions pt \<union> N \<and>
          N \<inter> regions m = {} \<and> inv_at mw m' pt' layer ptr \<and>
          unchanged m m' (regions m - pt_used_regions pt) \<and> pt_region pt' = pt_region pt \<and>
          dir_map_frame (interp_at mw m pt layer ptr b) va pte = Ok (interp_at mw m' pt' layer ptr b)
      | Err _ \<Rightarrow>
          m' = m \<and> dir_map_frame (interp_at mw m pt layer ptr b) va pte = Err (interp_at mw m pt layer ptr b))"

lemma dir_map_frame_at:
  assumes "dir_inv d" and "dir_accepted_mapping d va pte" and i: "i = dir_index_for_vaddr d va"
  shows "dir_map_frame d va pte =
    (case d_entries d ! i of
       NPage p \<Rightarrow> Err d
     | NDirectory d' \<Rightarrow>
         if dir_entry_size d = frame_size pte then Err d
         else (case dir_map_frame d' va pte of
                 Ok d'' \<Rightarrow> Ok (dir_update d i (NDirectory d''))
               | Err d'' \<Rightarrow> Err (dir_update d i (NDirectory d'')))
     | NEmpty \<Rightarrow>
         if dir_entry_size d = frame_size pte then Ok (dir_update d i (NPage pte))
         else Ok (dir_update d i (NDirectory (get_Ok (dir_map_frame (dir_new_empty_dir d i) va pte)))))"
  unfolding i using assms dir_accepted_index [OF assms(1,2)]
  by (subst dir_map_frame.simps) (simp add: Let_def split: NodeEntry.split)

lemma slot_dir_replace:
  assumes mw: "max_phyaddr_width_facts mw" and ok: "slot_ok mw m layer w (Some d)" and l: "layer < 4"
    and d': "inv_at mw m' d' (layer + 1) (pde_address mw \<lparr>pde_entry = w, pde_layer = layer\<rparr>)"
  shows "slot_ok mw m' layer w (Some d')"
    and "slot_node mw m' layer b w (Some d') =
      NDirectory (interp_at mw m' d' (layer + 1) (pde_address mw \<lparr>pde_entry = w, pde_layer = layer\<rparr>) b)"
proof -
  let ?e = "\<lparr>pde_entry = w, pde_layer = layer\<rparr>"
  have s: "pde_hp_pat_is_zero mw ?e" "all_mb0_bits_are_zero mw ?e" "is_GDirectory (pde_view mw ?e)"
    using ok by (simp_all add: slot_ok_def Let_def)
  have "pde_address mw ?e = gd_addr (pde_view mw ?e)"
    using pde_address_view(2) [OF mw s(1,2) _ s(3)] l by simp
  then show "slot_ok mw m' layer w (Some d')"
    "slot_node mw m' layer b w (Some d') = NDirectory (interp_at mw m' d' (layer + 1) (pde_address mw ?e) b)"
    using ok d' s(3) by (cases "pde_view mw ?e"; simp add: slot_ok_def slot_node_def Let_def)+
qed

section \<open>The branches\<close>

lemma accepted_mapping_layer:
  assumes "accepted_mapping mw va pte"
  shows "frame_size pte \<noteq> entry_size x86_arch_spec 0"
proof
  assume e: "frame_size pte = entry_size x86_arch_spec 0"
  obtain j where "j < 4" "1 \<le> j" "entry_size x86_arch_spec j = entry_size x86_arch_spec 0"
    using assms e by (auto simp: accepted_mapping_def contains_entry_size_at_index_atleast_def)
  then show False by (cases rule: less_4_cases [of j]) simp_all
qed

lemma map_post_page:
  assumes mw: "max_phyaddr_width_facts mw" and A: "allocator_contract mw A" "pa_valid A m"
    and inv: "inv_at mw m pt layer ptr" and dinv: "dir_inv (interp_at mw m pt layer ptr b)"
    and acc: "accepted_mapping mw va (pte_view pte)"
      "dir_accepted_mapping (interp_at mw m pt layer ptr b) va (pte_view pte)"
    and i: "unat i = dir_index_for_vaddr (interp_at mw m pt layer ptr b) va" "unat i < 512"
    and none: "pt_entries pt ! unat i = None"
    and empty: "d_entries (interp_at mw m pt layer ptr b) ! unat i = NEmpty"
    and sz: "entry_size x86_arch_spec layer = frame_size (pte_view pte)"
  shows "\<exists>m'. mem_write m ptr i (pde_entry (new_page_entry layer pte)) = Some m' \<and>
      map_post mw A m pt layer ptr b va (pte_view pte) m' (Ok (pt, {}))"
proof -
  let ?D = "interp_at mw m pt layer ptr b" and ?w = "pde_entry (new_page_entry layer pte)"
  note l = inv_at_layer [OF inv] and used = inv_at_used [OF inv]
  obtain m' where m': "mem_write m ptr i ?w = Some m'"
      "region_view m' (pt_region pt) = (region_view m (pt_region pt))[unat i := ?w]"
      "unchanged m m' (regions m - {pt_region pt})" "regions m' = regions m" "cr3 m' = cr3 m"
      "mem_inv m'" "pa_valid A m'" "alloc_available_pages m' = alloc_available_pages m"
    using node_write [OF inv_at_region [OF inv] inv_at_region_mem [OF inv] inv_at_ptr [OF inv]
        inv_at_mem [OF inv] i(2) A] by blast
  have "layer \<noteq> 0" using accepted_mapping_layer [OF acc(1)] sz by (metis (no_types))
  then consider "layer = 1" | "layer = 2" | "layer = 3" using l by linarith
  then have "layer = 1 \<and> aligned (unat (mre_base (ptee_frame pte))) L1_ENTRY_SIZE \<or>
      layer = 2 \<and> aligned (unat (mre_base (ptee_frame pte))) L2_ENTRY_SIZE \<or>
      layer = 3 \<and> aligned (unat (mre_base (ptee_frame pte))) L3_ENTRY_SIZE"
    using acc(2) unfolding dir_accepted_mapping_def sz [symmetric]
    by cases (simp_all add: pte_view_def region_view_exec_def)
  moreover have "mre_base (ptee_frame pte) \<le> MAX_PHYADDR mw"
    using acc(1) by (simp add: accepted_mapping_def pte_view_def region_view_exec_def word_le_nat_alt)
  ultimately have "entry_address_ok mw layer (mre_base (ptee_frame pte)) True"
    using aligned_entry_address_ok [OF mw] by blast
  note slot = new_page_slot [OF mw this sz [symmetric], of m'] 
  have "kept_regions pt (unat i) = pt_used_regions pt" using none by (simp add: kept_regions_def)
  moreover have "PTDir (pt_region pt) ((pt_entries pt)[unat i := None]) (pt_used_regions pt) = pt"
    using none list_update_id [of "pt_entries pt" "unat i"] by (cases pt) simp
  ultimately have "inv_at mw m' pt layer ptr \<and>
      interp_at mw m' pt layer ptr b = dir_update ?D (unat i) (NPage (pte_view pte))"
    using slot_update [OF inv i(2), of "pt_used_regions pt" m' None ?w b] m' used slot
    by (auto simp: unchanged_def)
  moreover have "dir_map_frame ?D va (pte_view pte) = Ok (dir_update ?D (unat i) (NPage (pte_view pte)))"
    using dir_map_frame_at [OF dinv acc(2) i(1)] empty sz by (simp add: interp_at_dir_simps)
  ultimately show ?thesis
    using m' inv_at_used_region [OF inv] by (auto simp: map_post_def unchanged_def)
qed

lemma map_post_directory:
  assumes mw: "max_phyaddr_width_facts mw" and A: "allocator_contract mw A"
    and inv: "inv_at mw m pt layer ptr" and dinv: "dir_inv (interp_at mw m pt layer ptr b)"
    and acc: "dir_accepted_mapping (interp_at mw m pt layer ptr b) va pte"
    and i: "i = dir_index_for_vaddr (interp_at mw m pt layer ptr b) va" "i < 512"
    and d: "pt_entries pt ! i = Some d"
    and a: "a = pde_address mw \<lparr>pde_entry = region_view m (pt_region pt) ! i, pde_layer = layer\<rparr>"
      "d_entries (interp_at mw m pt layer ptr b) ! i = NDirectory (interp_at mw m d (layer + 1) a eb)"
      "eb = arch_entry_base x86_arch_spec layer b i"
    and sz: "entry_size x86_arch_spec layer \<noteq> frame_size pte"
    and rec: "map_post mw A m d (layer + 1) a eb va pte m' (Ok (d', N))"
  shows "map_post mw A m pt layer ptr b va pte m'
      (Ok (PTDir (pt_region pt) ((pt_entries pt)[i := Some d']) (pt_used_regions pt \<union> N), N))"
proof -
  let ?D = "interp_at mw m pt layer ptr b" and ?w = "region_view m (pt_region pt) ! i"
  let ?pt = "PTDir (pt_region pt) ((pt_entries pt)[i := Some d']) (pt_used_regions pt \<union> N)"
  note l = inv_at_layer [OF inv] and used = inv_at_used [OF inv]
  have r: "cr3 m' = cr3 m" "pa_valid A m'" "regions m' = regions m \<union> N"
      "pt_used_regions d' = pt_used_regions d \<union> N" "N \<inter> regions m = {}"
      "inv_at mw m' d' (layer + 1) a" "unchanged m m' (regions m - pt_used_regions d)"
      "dir_map_frame (interp_at mw m d (layer + 1) a eb) va pte = Ok (interp_at mw m' d' (layer + 1) a eb)"
      "alloc_available_pages m \<le> alloc_available_pages m' + (3 - (layer + 1))"
    using rec by (simp_all add: map_post_def)
  have reg: "pt_region pt \<notin> pt_used_regions d" "pt_used_regions d \<subseteq> pt_used_regions pt"
    using regions_okD [OF inv_at_regions_ok [OF inv] _ d] i inv_at_length [OF inv] by simp_all
  have kept: "kept_regions pt i = pt_used_regions pt - pt_used_regions d"
    using d by (simp add: kept_regions_def)
  have "slot_ok mw m layer ?w (Some d)" using inv_at_slot [OF inv i(2)] d by simp
  note slot = slot_dir_replace [OF mw this l r(6) [unfolded a(1)], folded a(1)]
  have view: "region_view m' (pt_region pt) = (region_view m (pt_region pt))[i := ?w]"
    using r(7) reg(1) inv_at_region_mem [OF inv] by (simp add: unchanged_def)
  have upd: "inv_at mw m' ?pt layer ptr \<and>
      interp_at mw m' ?pt layer ptr b = dir_update ?D i (NDirectory (interp_at mw m' d' (layer + 1) a eb))"
    unfolding a(3) slot(2) [of "arch_entry_base x86_arch_spec layer b i", symmetric]
  proof (rule slot_update [OF inv i(2) _ _ _ inv_at_mem [OF r(6)] view _ slot(1)])
    show "kept_regions pt i \<subseteq> pt_used_regions pt \<union> N" "pt_used_regions pt \<union> N \<subseteq> regions m'"
      using kept used r(3) by blast+
    show "unchanged m m' (kept_regions pt i - {pt_region pt})"
      using r(7) used kept by (auto simp: unchanged_def)
    show "pt_used_regions e \<subseteq> pt_used_regions pt \<union> N \<and> pt_used_regions e \<inter> kept_regions pt i = {}"
      if "Some d' = Some e" for e
      using that r(4,5) used kept reg(2) by auto
  qed
  moreover have "dir_map_frame ?D va pte = Ok (dir_update ?D i (NDirectory (interp_at mw m' d' (layer + 1) a eb)))"
    using dir_map_frame_at [OF dinv acc i(1)] a(2) sz r(8) by (simp add: interp_at_dir_simps)
  moreover have "unchanged m m' (regions m - pt_used_regions pt)"
    using r(7) reg(2) by (auto simp: unchanged_def)
  moreover have "alloc_available_pages m \<le> alloc_available_pages m' + (3 - layer)" using r(9) by simp
  ultimately show ?thesis using r by (simp add: map_post_def)
qed

lemma alloc_page_effect:
  assumes A: "allocator_contract mw A" "pa_valid A m" and m: "mem_inv m" "0 < alloc_available_pages m"
  obtains r m1 where "pa_alloc A m = (r, m1)"
    "region_view_exec r = \<lparr>mr_base = unat (mre_base r), mr_size = 4096\<rparr>"
    "unat (mre_base r) mod 4096 = 0" "mre_base r \<le> MAX_PHYADDR mw"
    "region_view_exec r \<notin> regions m" "regions m1 = insert (region_view_exec r) (regions m)"
    "region_view m1 (region_view_exec r) = new_seq 512 0" "unchanged m m1 (regions m)"
    "cr3 m1 = cr3 m" "mem_inv m1" "pa_valid A m1"
    "alloc_available_pages m1 = alloc_available_pages m - 1"
proof (cases "pa_alloc A m")
  case (Pair r m1)
  have c: "alloc_available_pages m1 = alloc_available_pages m - 1 \<and>
      unat (mre_size r) = PAGE_SIZE \<and> unat (mre_base r) + PAGE_SIZE \<le> unat (MAX_PHYADDR mw) \<and>
      aligned (unat (mre_base r)) PAGE_SIZE \<and> region_view_exec r \<notin> regions m \<and>
      regions m1 = insert (region_view_exec r) (regions m) \<and>
      region_view m1 (region_view_exec r) = new_seq 512 0 \<and>
      (\<forall>r2\<in>regions m. region_view m1 r2 = region_view m r2) \<and>
      cr3 m1 = cr3 m \<and> phys_mem_ref m1 = phys_mem_ref m \<and> mem_inv m1 \<and> pa_valid A m1"
    using allocator_contractD(1) [OF A(1)] A(2) m Pair unfolding alloc_page_contract_def by blast
  have r: "region_view_exec r = \<lparr>mr_base = unat (mre_base r), mr_size = 4096\<rparr>"
    using c by (simp add: region_view_exec_def)
  have le: "mre_base r \<le> MAX_PHYADDR mw" using c by (simp add: word_le_nat_alt)
  have al: "unat (mre_base r) mod 4096 = 0" using c by (simp add: aligned_def)
  show thesis
    by (rule that [OF Pair r al le]) (use c in \<open>simp_all add: unchanged_def\<close>)
qed

text \<open>Allocating a directory and linking it into the slot.\<close>

lemma insert_empty_directory_effect:
  assumes mw: "max_phyaddr_width_facts mw" and A: "allocator_contract mw A" "pa_valid A m"
    and inv: "inv_at mw m pt layer ptr" and i: "unat i < 512" and l: "layer < 3"
    and pages: "0 < alloc_available_pages m"
  obtains m2 r d where "insert_empty_directory mw A m pt layer ptr b i =
      Some (m2, PTDir (pt_region pt) ((pt_entries pt)[unat i := Some d])
        (insert (region_view_exec r) (pt_used_regions pt)), r, new_dir_entry layer (mre_base r))"
    "d = PTDir (region_view_exec r) (new_seq 512 None) {region_view_exec r}"
    "region_view_exec r \<notin> regions m" "regions m2 = insert (region_view_exec r) (regions m)"
    "mre_base r \<le> MAX_PHYADDR mw" "unat (mre_base r) mod 4096 = 0"
    "region_view m2 (pt_region pt) =
       (region_view m (pt_region pt))[unat i := pde_entry (new_dir_entry layer (mre_base r))]"
    "unchanged m m2 (regions m - {pt_region pt})" "cr3 m2 = cr3 m" "pa_valid A m2" "mem_inv m2"
    "alloc_available_pages m2 = alloc_available_pages m - 1"
    "inv_at mw m2 d (layer + 1) (mre_base r)"
    "interp_at mw m2 d (layer + 1) (mre_base r) eb =
       Directory (new_seq 512 NEmpty) (layer + 1) eb x86_arch_spec permissive_flags"
proof -
  obtain r m1 where a: "pa_alloc A m = (r, m1)"
    "region_view_exec r = \<lparr>mr_base = unat (mre_base r), mr_size = 4096\<rparr>"
    "unat (mre_base r) mod 4096 = 0" "mre_base r \<le> MAX_PHYADDR mw"
    "region_view_exec r \<notin> regions m" "regions m1 = insert (region_view_exec r) (regions m)"
    "region_view m1 (region_view_exec r) = new_seq 512 0" "unchanged m m1 (regions m)"
    "cr3 m1 = cr3 m" "mem_inv m1" "pa_valid A m1"
    "alloc_available_pages m1 = alloc_available_pages m - 1"
    using alloc_page_effect [OF A inv_at_mem [OF inv] pages] by blast
  have reg: "pt_region pt \<in> regions m1" "pt_region pt \<noteq> region_view_exec r"
    using inv_at_region_mem [OF inv] a(5,6) by auto
  obtain m2 where w: "mem_write m1 ptr i (pde_entry (new_dir_entry layer (mre_base r))) = Some m2"
      "region_view m2 (pt_region pt) =
         (region_view m1 (pt_region pt))[unat i := pde_entry (new_dir_entry layer (mre_base r))]"
      "unchanged m1 m2 (regions m1 - {pt_region pt})" "regions m2 = regions m1" "cr3 m2 = cr3 m1"
      "mem_inv m2" "pa_valid A m2" "alloc_available_pages m2 = alloc_available_pages m1"
    using node_write [OF inv_at_region [OF inv] reg(1) inv_at_ptr [OF inv] a(10) i A(1) a(11)] by blast
  have view: "region_view m1 (pt_region pt) = region_view m (pt_region pt)"
    using a(8) inv_at_region_mem [OF inv] by (simp add: unchanged_def)
  have zero: "region_view m2 (region_view_exec r) = new_seq 512 0"
    using w(3) a(6,7) reg(2) by (simp add: unchanged_def)
  have un: "unchanged m m2 (regions m - {pt_region pt})"
    using w(3) a(6,8) by (simp add: unchanged_def)
  have "region_view_exec r \<in> regions m2" "layer + 1 < 4" using w(4) a(6) l by simp_all
  note e = empty_directory [OF w(6) this(1) a(2,3) zero this(2)]
  show thesis
    by (rule that [OF _ refl a(5) _ a(4,3) _ un _ w(7,6) _ e])
      (use a w view in \<open>simp_all add: insert_empty_directory_def Let_def\<close>)
qed

lemma map_post_insert:
  assumes mw: "max_phyaddr_width_facts mw" and inv: "inv_at mw m pt layer ptr"
    and l: "layer < 3" and dinv: "dir_inv (interp_at mw m pt layer ptr b)"
    and acc: "dir_accepted_mapping (interp_at mw m pt layer ptr b) va pte"
    and i: "i = dir_index_for_vaddr (interp_at mw m pt layer ptr b) va" "i < 512"
    and none: "pt_entries pt ! i = None" "d_entries (interp_at mw m pt layer ptr b) ! i = NEmpty"
    and sz: "entry_size x86_arch_spec layer \<noteq> frame_size pte"
    and r: "region_view_exec r \<notin> regions m" "regions m2 = insert (region_view_exec r) (regions m)"
      "mre_base r \<le> MAX_PHYADDR mw" "unat (mre_base r) mod 4096 = 0"
    and view: "region_view m2 (pt_region pt) =
       (region_view m (pt_region pt))[i := pde_entry (new_dir_entry layer (mre_base r))]"
    and un: "unchanged m m2 (regions m - {pt_region pt})" and cr3: "cr3 m2 = cr3 m"
    and pages: "alloc_available_pages m2 = alloc_available_pages m - 1"
    and eb: "eb = arch_entry_base x86_arch_spec layer b i"
    and d: "interp_at mw m2 d (layer + 1) (mre_base r) eb = dir_new_empty_dir (interp_at mw m pt layer ptr b) i"
      "pt_used_regions d = {region_view_exec r}"
    and rec: "map_post mw A m2 d (layer + 1) (mre_base r) eb va pte m3 (Ok (d3, N))"
  shows "map_post mw A m pt layer ptr b va pte m3
      (Ok (PTDir (pt_region pt) ((pt_entries pt)[i := Some d3])
             (insert (region_view_exec r) (pt_used_regions pt) \<union> N), insert (region_view_exec r) N))"
proof -
  let ?D = "interp_at mw m pt layer ptr b" and ?R = "region_view_exec r"
  let ?U = "insert ?R (pt_used_regions pt) \<union> N" and ?w = "pde_entry (new_dir_entry layer (mre_base r))"
  let ?pt = "PTDir (pt_region pt) ((pt_entries pt)[i := Some d3]) ?U"
  note used = inv_at_used [OF inv] and reg = inv_at_region_mem [OF inv]
  have c: "cr3 m3 = cr3 m2" "pa_valid A m3" "regions m3 = regions m2 \<union> N"
      "pt_used_regions d3 = pt_used_regions d \<union> N" "N \<inter> regions m2 = {}"
      "inv_at mw m3 d3 (layer + 1) (mre_base r)" "unchanged m2 m3 (regions m2 - pt_used_regions d)"
      "dir_map_frame (dir_new_empty_dir ?D i) va pte = Ok (interp_at mw m3 d3 (layer + 1) (mre_base r) eb)"
      "alloc_available_pages m2 \<le> alloc_available_pages m3 + (3 - (layer + 1))"
    using rec d(1) by (simp_all add: map_post_def)
  have kept: "kept_regions pt i = pt_used_regions pt" using none(1) by (simp add: kept_regions_def)
  have un3: "unchanged m m3 (regions m - {pt_region pt})"
    using un c(7) r(1,2) d(2) by (auto simp: unchanged_def)
  have view3: "region_view m3 (pt_region pt) = (region_view m (pt_region pt))[i := ?w]"
    using view c(7) r(1,2) d(2) reg by (auto simp: unchanged_def)
  have "aligned (unat (mre_base r)) PAGE_SIZE" using r(4) by (simp add: aligned_def)
  note slot = new_dir_slot [OF mw l r(3) this c(6)]
  have "inv_at mw m3 ?pt layer ptr \<and>
      interp_at mw m3 ?pt layer ptr b = dir_update ?D i (NDirectory (interp_at mw m3 d3 (layer + 1) (mre_base r) eb))"
    unfolding eb slot(2) [of "arch_entry_base x86_arch_spec layer b i", symmetric]
  proof (rule slot_update [OF inv i(2) _ _ _ inv_at_mem [OF c(6)] view3 _ slot(1)])
    show "kept_regions pt i \<subseteq> ?U" "?U \<subseteq> regions m3" using kept used c(3) r(2) by blast+
    show "unchanged m m3 (kept_regions pt i - {pt_region pt})"
      using un3 used kept by (auto simp: unchanged_def)
    show "pt_used_regions e \<subseteq> ?U \<and> pt_used_regions e \<inter> kept_regions pt i = {}" if "Some d3 = Some e" for e
      using that c(4,5) used kept d(2) r(1,2) by auto
  qed
  moreover have "dir_map_frame ?D va pte =
      Ok (dir_update ?D i (NDirectory (interp_at mw m3 d3 (layer + 1) (mre_base r) eb)))"
    using dir_map_frame_at [OF dinv acc i(1)] none(2) sz c(8) by (simp add: interp_at_dir_simps)
  moreover have "unchanged m m3 (regions m - pt_used_regions pt)"
    using un3 inv_at_used_region [OF inv] by (auto simp: unchanged_def)
  moreover have "alloc_available_pages m \<le> alloc_available_pages m3 + (3 - layer)"
    using c(9) pages l by simp
  ultimately show ?thesis using c r(1,2) cr3 by (auto simp: map_post_def)
qed

section \<open>The whole operation\<close>

lemma dir_map_frame_Ok:
  assumes "dir_inv d" and "dir_accepted_mapping d va pte" and "\<not> overlaps_existing d va pte"
  shows "\<exists>d'. dir_map_frame d va pte = Ok d'"
  using dir_map_frame_correct [OF assms(1,2)] assms(3) by (auto simp: map_frame_ok_def)

lemma map_post_Err_not_Ok:
  assumes "map_post mw A m pt layer ptr b va pte m' res"
    and "dir_map_frame (interp_at mw m pt layer ptr b) va pte = Ok d"
  obtains pt' N where "res = Ok (pt', N)"
  using assms by (cases res) (auto simp: map_post_def)

definition map_refines ::
    "nat \<Rightarrow> page_allocator \<Rightarrow> PageTableMemory \<Rightarrow> PTDir \<Rightarrow> nat \<Rightarrow> usize \<Rightarrow> usize \<Rightarrow> usize \<Rightarrow>
     PageTableEntryExec \<Rightarrow> bool" where
  "map_refines mw A m pt layer ptr base vaddr pte \<longleftrightarrow>
     (\<exists>m' res. map_frame_aux mw A m pt layer ptr base vaddr pte = Some (m', res) \<and>
        map_post mw A m pt layer ptr (unat base) (unat vaddr) (pte_view pte) m' res)"

definition map_pre ::
    "nat \<Rightarrow> page_allocator \<Rightarrow> PageTableMemory \<Rightarrow> PTDir \<Rightarrow> nat \<Rightarrow> usize \<Rightarrow> usize \<Rightarrow> usize \<Rightarrow>
     PageTableEntryExec \<Rightarrow> bool" where
  "map_pre mw A m pt layer ptr base vaddr pte \<longleftrightarrow>
     pa_valid A m \<and> inv_at mw m pt layer ptr \<and> dir_inv (interp_at mw m pt layer ptr (unat base)) \<and>
     3 - layer \<le> alloc_available_pages m \<and> accepted_mapping mw (unat vaddr) (pte_view pte) \<and>
     dir_accepted_mapping (interp_at mw m pt layer ptr (unat base)) (unat vaddr) (pte_view pte)"

lemma map_preD:
  assumes "map_pre mw A m pt layer ptr base vaddr pte"
  shows pre_valid: "pa_valid A m" and pre_inv: "inv_at mw m pt layer ptr"
    and pre_dinv: "dir_inv (interp_at mw m pt layer ptr (unat base))"
    and pre_pages: "3 - layer \<le> alloc_available_pages m"
    and pre_acc: "accepted_mapping mw (unat vaddr) (pte_view pte)"
    and pre_dacc: "dir_accepted_mapping (interp_at mw m pt layer ptr (unat base)) (unat vaddr) (pte_view pte)"
  using assms unfolding map_pre_def by blast+

lemma map_refinesI:
  assumes "map_frame_aux mw A m pt layer ptr base vaddr pte = Some (m', res)"
    and "map_post mw A m pt layer ptr (unat base) (unat vaddr) (pte_view pte) m' res"
  shows "map_refines mw A m pt layer ptr base vaddr pte"
  using assms by (auto simp: map_refines_def)

lemma step_entry_size_eq:
  assumes "step_at mw m pt layer ptr base vaddr i eb es"
  shows "es = mre_size (ptee_frame pte) \<longleftrightarrow> entry_size x86_arch_spec layer = frame_size (pte_view pte)"
  using step_entry_size_spec [OF assms]
  by (simp add: pte_view_def region_view_exec_def word_unat_eq_iff)

lemma map_case_insert:
  assumes mw: "max_phyaddr_width_facts mw" and A: "allocator_contract mw A"
    and pre: "map_pre mw A m pt layer ptr base vaddr pte"
    and step: "step_at mw m pt layer ptr base vaddr i eb es"
    and unmapped: "\<not> pde_is_mapping \<lparr>pde_entry = region_view m (pt_region pt) ! unat i, pde_layer = layer\<rparr>"
    and none: "pt_entries pt ! unat i = None"
      "d_entries (interp_at mw m pt layer ptr (unat base)) ! unat i = NEmpty"
    and sz: "entry_size x86_arch_spec layer \<noteq> frame_size (pte_view pte)"
    and rec: "\<And>m2 d a. map_pre mw A m2 d (layer + 1) a eb vaddr pte \<Longrightarrow>
                map_refines mw A m2 d (layer + 1) a eb vaddr pte"
  shows "map_refines mw A m pt layer ptr base vaddr pte"
proof -
  let ?D = "interp_at mw m pt layer ptr (unat base)" and ?p = "pte_view pte"
  let ?n = "dir_new_empty_dir ?D (unat i)"
  note inv = pre_inv [OF pre] and dinv = pre_dinv [OF pre] and dacc = pre_dacc [OF pre]
  note idx = step_index_spec [OF step] step_index_less [OF step] and eb = step_entry_base_spec [OF step]
  have l: "layer < 3" using dir_accepted_smaller_layer [OF dacc] sz by (simp add: interp_at_dir_simps)
  have pages: "0 < alloc_available_pages m" using pre_pages [OF pre] l by simp
  from insert_empty_directory_effect [OF mw A pre_valid [OF pre] inv idx(2) l pages, of base "unat eb"]
  obtain m2 r d where ins: "insert_empty_directory mw A m pt layer ptr base i =
      Some (m2, PTDir (pt_region pt) ((pt_entries pt)[unat i := Some d])
        (insert (region_view_exec r) (pt_used_regions pt)), r, new_dir_entry layer (mre_base r))"
    "d = PTDir (region_view_exec r) (new_seq 512 None) {region_view_exec r}"
    "region_view_exec r \<notin> regions m" "regions m2 = insert (region_view_exec r) (regions m)"
    "mre_base r \<le> MAX_PHYADDR mw" "unat (mre_base r) mod 4096 = 0"
    "region_view m2 (pt_region pt) =
       (region_view m (pt_region pt))[unat i := pde_entry (new_dir_entry layer (mre_base r))]"
    "unchanged m m2 (regions m - {pt_region pt})" "cr3 m2 = cr3 m" "pa_valid A m2" "mem_inv m2"
    "alloc_available_pages m2 = alloc_available_pages m - 1"
    "inv_at mw m2 d (layer + 1) (mre_base r)"
    "interp_at mw m2 d (layer + 1) (mre_base r) (unat eb) =
       Directory (new_seq 512 NEmpty) (layer + 1) (unat eb) x86_arch_spec permissive_flags" .
  have i: "unat i < dir_num_entries ?D" using dir_length [OF dinv] idx(2) by simp
  have "d_layer ?D + 1 < length (layers (d_arch ?D))" using l by simp
  note nd = dir_new_empty_dir_facts [OF dinv i this]
  have new: "interp_at mw m2 d (layer + 1) (mre_base r) (unat eb) = ?n"
    using ins(14) l eb by (simp add: dir_new_empty_dir_def interp_at_dir_simps)
  have ndacc: "dir_accepted_mapping ?n (unat vaddr) ?p"
    by (rule dir_accepted_child [OF dinv dacc])
      (use sz idx(1) nd(3) l in \<open>simp_all add: interp_at_dir_simps(1) dir_new_empty_dir_def\<close>)
  have "\<not> overlaps_existing ?n (unat vaddr) ?p"
    using dir_empty_map [OF nd(1,2)] by (simp add: overlaps_existing_def)
  then obtain d' where ok: "dir_map_frame ?n (unat vaddr) ?p = Ok d'"
    using dir_map_frame_Ok [OF nd(1) ndacc] by blast
  have "map_pre mw A m2 d (layer + 1) (mre_base r) eb vaddr pte"
    unfolding map_pre_def new
    using nd(1) ndacc ins(10,12,13) pre_acc [OF pre] pre_pages [OF pre] by simp
  from rec [OF this] obtain m3 res where
    rec: "map_frame_aux mw A m2 d (layer + 1) (mre_base r) eb vaddr pte = Some (m3, res)"
      "map_post mw A m2 d (layer + 1) (mre_base r) (unat eb) (unat vaddr) ?p m3 res"
    by (auto simp: map_refines_def)
  obtain d3 N where res: "res = Ok (d3, N)" using map_post_Err_not_Ok [OF rec(2)] ok new by metis
  have "pt_used_regions d = {region_view_exec r}" using ins(2) by simp
  note post = map_post_insert [OF mw inv l dinv dacc idx none sz ins(3-9,12) eb new this rec(2) [unfolded res]]
  show ?thesis
    by (rule map_refinesI [OF _ post])
      (use unmapped sz step_entry_size_eq [OF step, of pte] ins(1) rec(1) res idx(2) inv_at_length [OF inv]
        in \<open>simp add: map_frame_aux.simps [of mw A m pt] step_exec [OF step]\<close>)
qed

lemma map_case_directory:
  assumes mw: "max_phyaddr_width_facts mw" and A: "allocator_contract mw A"
    and pre: "map_pre mw A m pt layer ptr base vaddr pte"
    and step: "step_at mw m pt layer ptr base vaddr i eb es"
    and a: "a = pde_address mw \<lparr>pde_entry = region_view m (pt_region pt) ! unat i, pde_layer = layer\<rparr>"
    and mapped: "pde_is_mapping \<lparr>pde_entry = region_view m (pt_region pt) ! unat i, pde_layer = layer\<rparr>"
      "pde_is_dir \<lparr>pde_entry = region_view m (pt_region pt) ! unat i, pde_layer = layer\<rparr> layer"
    and d: "pt_entries pt ! unat i = Some d" "inv_at mw m d (layer + 1) a"
    and e: "d_entries (interp_at mw m pt layer ptr (unat base)) ! unat i =
        NDirectory (interp_at mw m d (layer + 1) a (unat eb))"
    and sz: "entry_size x86_arch_spec layer \<noteq> frame_size (pte_view pte)"
    and rec: "map_pre mw A m d (layer + 1) a eb vaddr pte \<Longrightarrow> map_refines mw A m d (layer + 1) a eb vaddr pte"
  shows "map_refines mw A m pt layer ptr base vaddr pte"
proof -
  let ?D = "interp_at mw m pt layer ptr (unat base)" and ?p = "pte_view pte"
  let ?d = "interp_at mw m d (layer + 1) a (unat eb)"
  note inv = pre_inv [OF pre] and dinv = pre_dinv [OF pre] and dacc = pre_dacc [OF pre]
  note idx = step_index_spec [OF step] step_index_less [OF step] and eb = step_entry_base_spec [OF step]
  have i: "unat i < dir_num_entries ?D" using dir_length [OF dinv] idx(2) by simp
  note c = dir_child [OF dinv i e]
  have "dir_accepted_mapping ?d (unat vaddr) ?p"
    by (rule dir_accepted_child [OF dinv dacc])
      (use sz idx(1) eb c(7) in \<open>simp_all add: interp_at_dir_simps(1,3)\<close>)
  then have "map_pre mw A m d (layer + 1) a eb vaddr pte"
    unfolding map_pre_def using d(2) c(1) pre_valid [OF pre] pre_acc [OF pre] pre_pages [OF pre] by simp
  from rec [OF this] obtain m' res where
    rec: "map_frame_aux mw A m d (layer + 1) a eb vaddr pte = Some (m', res)"
      "map_post mw A m d (layer + 1) a (unat eb) (unat vaddr) ?p m' res"
    by (auto simp: map_refines_def)
  note exec = map_frame_aux.simps [of mw A m pt] step_exec [OF step]
  show ?thesis
  proof (cases res)
    case (Ok x)
    obtain d' N where x: "x = (d', N)" by (cases x)
    note post = map_post_directory [OF mw A inv dinv dacc idx d(1) a e eb sz rec(2) [unfolded Ok x]]
    show ?thesis
      by (rule map_refinesI [OF _ post])
        (use mapped sz step_entry_size_eq [OF step, of pte] rec(1) Ok x d(1) a in \<open>simp add: exec\<close>)
  next
    case (Err u)
    have "m' = m" "dir_map_frame ?d (unat vaddr) ?p = Err ?d"
      using rec(2) Err by (simp_all add: map_post_def)
    moreover have "dir_update ?D (unat i) (NDirectory ?d) = ?D" using dir_update_same e by metis
    ultimately have post: "map_post mw A m pt layer ptr (unat base) (unat vaddr) ?p m (Err u)"
      using dir_map_frame_at [OF dinv dacc idx(1)] e sz pre_valid [OF pre]
      by (simp add: interp_at_dir_simps(1) map_post_def)
    show ?thesis
      by (rule map_refinesI [OF _ post])
        (use mapped sz step_entry_size_eq [OF step, of pte] rec(1) Err d(1) a \<open>m' = m\<close> in \<open>simp add: exec\<close>)
  qed
qed

lemma map_frame_aux_correct:
  assumes mw: "max_phyaddr_width_facts mw" and A: "allocator_contract mw A" and va: "unat vaddr < MAX_BASE"
    and "map_pre mw A m pt layer ptr base vaddr pte"
  shows "map_refines mw A m pt layer ptr base vaddr pte"
  using assms(4)
proof (induction "4 - layer" arbitrary: m pt layer ptr base)
  case 0
  then show ?case using inv_at_layer [OF pre_inv] by fastforce
next
  case (Suc n)
  let ?D = "interp_at mw m pt layer ptr (unat base)" and ?p = "pte_view pte"
  note pre = Suc.prems and inv = pre_inv [OF Suc.prems] and dinv = pre_dinv [OF Suc.prems]
  note dacc = pre_dacc [OF pre] and a = dir_accepted_in_entry [OF dinv pre_dacc [OF pre]]
  have lo: "unat base \<le> unat vaddr" using a(2) by simp
  obtain i eb es where step: "step_at mw m pt layer ptr base vaddr i eb es"
    using exec_step [OF inv lo va dir_index_at [OF inv dinv lo a(3)]] .
  note idx = step_index_spec [OF step] step_index_less [OF step] and node = step_node [OF step inv]
  note exec = map_frame_aux.simps [of mw A m pt] step_exec [OF step]
  have rec: "map_refines mw A m2 d (layer + 1) a eb vaddr pte"
    if "map_pre mw A m2 d (layer + 1) a eb vaddr pte" for m2 d a
    using Suc.hyps(1) [OF _ that] Suc.hyps(2) by simp
  have err: "map_post mw A m pt layer ptr (unat base) (unat vaddr) ?p m (Err ())"
    if "dir_map_frame ?D (unat vaddr) ?p = Err ?D"
    using that pre_valid [OF pre] by (simp add: map_post_def)
  note sz = step_entry_size_eq [OF step, of pte] and at = dir_map_frame_at [OF dinv dacc idx(1)]
  show ?case
  proof (cases rule: slot_cases [OF mw inv_at_slot [OF inv idx(2)] inv_at_layer [OF inv]])
    case 1
    then have empty: "d_entries ?D ! unat i = NEmpty" using node by simp
    show ?thesis
    proof (cases "entry_size x86_arch_spec layer = frame_size ?p")
      case True
      from map_post_page [OF mw A pre_valid [OF pre] inv dinv pre_acc [OF pre] dacc idx 1(2) empty True]
      show ?thesis using 1 True sz by (auto simp: exec map_refines_def)
    next
      case False
      show ?thesis by (rule map_case_insert [OF mw A pre step 1(1,2) empty False rec])
    qed
  next
    case (2 d)
    show ?thesis
    proof (cases "entry_size x86_arch_spec layer = frame_size ?p")
      case True
      then have "dir_map_frame ?D (unat vaddr) ?p = Err ?D"
        using at 2(5) node by (simp add: interp_at_dir_simps(1))
      then show ?thesis
        by (intro map_refinesI [OF _ err]) (use 2 True sz in \<open>simp_all add: exec\<close>)
    next
      case False
      show ?thesis
        by (rule map_case_directory [OF mw A pre step refl 2(1-4) _ False rec])
          (use 2(5) node in simp)
    qed
  next
    case 3
    then have "dir_map_frame ?D (unat vaddr) ?p = Err ?D" using at node by simp
    then show ?thesis by (intro map_refinesI [OF _ err]) (use 3 in \<open>simp_all add: exec\<close>)
  qed
qed

end
