(* ===== verification/PT_Impl_Unmap.thy ===== *)
theory PT_Impl_Unmap
  imports PT_Impl_Map
begin

text \<open>
  \<open>unmap\<close> on the page table in memory refines \<open>dir_unmap\<close> on the interpreted tree. The
  loop that looks for a mapped entry decides emptiness of the directory, and an emptied
  directory is unlinked before its page goes back to the allocator.
\<close>

section \<open>Looking for a mapped entry\<close>

lemma pde_is_mapping_at:
  assumes inv: "inv_at mw m pt layer ptr" and i: "i < 512"
  shows "pde_is_mapping \<lparr>pde_entry = region_view m (pt_region pt) ! i, pde_layer = layer\<rparr> \<longleftrightarrow>
    view_at mw m pt layer ptr i \<noteq> GEmpty"
  using pde_is_mapping_iff [of mw "\<lparr>pde_entry = region_view m (pt_region pt) ! i, pde_layer = layer\<rparr>"]
    inv_at_slot [OF inv i] inv_at_layer [OF inv]
  by (simp add: slot_ok_def view_at_def spec_read_def Let_def)

lemma is_directory_empty_loop_correct:
  assumes inv: "inv_at mw m pt layer ptr"
  shows "is_directory_empty_loop m layer ptr 512 idx =
    Some (\<forall>i. unat idx \<le> i \<and> i < 512 \<longrightarrow> view_at mw m pt layer ptr i = GEmpty)"
proof (induction "512 - unat idx" arbitrary: idx)
  case 0
  then show ?case
    by (subst is_directory_empty_loop.simps) (auto simp: word_less_nat_alt)
next
  case (Suc n)
  then have less: "unat idx < 512" by simp
  then have w: "idx < 512" by (simp add: word_less_nat_alt)
  note next_idx = unat_Suc_less [OF w]
  note entry = entry_at_spec_read [OF inv less] and mapping = pde_is_mapping_at [OF inv less]
  have "n = 512 - unat (idx + 1)" using Suc.hyps(2) next_idx by simp
  note IH = Suc.hyps(1) [OF this]
  have le: "unat idx \<le> i \<longleftrightarrow> i = unat idx \<or> unat idx + 1 \<le> i" for i by arith
  have split: "(\<forall>i. unat idx \<le> i \<and> i < 512 \<longrightarrow> P i) \<longleftrightarrow> P (unat idx) \<and> (\<forall>i. unat idx + 1 \<le> i \<and> i < 512 \<longrightarrow> P i)"
    for P unfolding le using less by blast
  show ?case
    using w entry mapping IH unfolding split next_idx
    by (subst is_directory_empty_loop.simps) simp
qed

lemma is_directory_empty_correct:
  assumes mw: "max_phyaddr_width_facts mw" and inv: "inv_at mw m pt layer ptr"
  shows "is_directory_empty m layer ptr = Some (dir_empty (interp_at mw m pt layer ptr b))"
proof -
  have "num_entries_exec x86_arch_exec layer = Some 512"
    using inv_at_layer [OF inv] by (cases rule: less_4_cases) (simp_all add: num_entries_exec_def x86_arch_exec_def)
  then show ?thesis
    unfolding interp_at_empty_iff [OF mw inv]
    by (simp add: is_directory_empty_def is_directory_empty_loop_correct [OF inv] empty_at_def)
qed

section \<open>Postcondition\<close>

definition unmap_post ::
    "nat \<Rightarrow> page_allocator \<Rightarrow> PageTableMemory \<Rightarrow> PTDir \<Rightarrow> nat \<Rightarrow> usize \<Rightarrow> nat \<Rightarrow> nat \<Rightarrow>
     PageTableMemory \<Rightarrow> (PTDir \<times> MemRegion set, unit) rust_result \<Rightarrow> bool" where
  "unmap_post mw A m pt layer ptr b va m' res \<longleftrightarrow>
     cr3 m' = cr3 m \<and> pa_valid A m' \<and>
     (case res of
        Ok (pt', R) \<Rightarrow>
          regions m = regions m' \<union> R \<and> pt_used_regions pt = pt_used_regions pt' \<union> R \<and>
          R \<inter> regions m' = {} \<and> inv_at mw m' pt' layer ptr \<and>
          unchanged m m' (regions m - pt_used_regions pt) \<and> pt_region pt' = pt_region pt \<and>
          dir_unmap (interp_at mw m pt layer ptr b) va = Ok (interp_at mw m' pt' layer ptr b)
      | Err _ \<Rightarrow>
          m' = m \<and> dir_unmap (interp_at mw m pt layer ptr b) va = Err (interp_at mw m pt layer ptr b))"

definition unmap_pre ::
    "nat \<Rightarrow> page_allocator \<Rightarrow> PageTableMemory \<Rightarrow> PTDir \<Rightarrow> nat \<Rightarrow> usize \<Rightarrow> usize \<Rightarrow> usize \<Rightarrow> bool" where
  "unmap_pre mw A m pt layer ptr base vaddr \<longleftrightarrow>
     pa_valid A m \<and> inv_at mw m pt layer ptr \<and> dir_inv (interp_at mw m pt layer ptr (unat base)) \<and>
     dir_accepted_unmap (interp_at mw m pt layer ptr (unat base)) (unat vaddr)"

lemma unmap_preD:
  assumes "unmap_pre mw A m pt layer ptr base vaddr"
  shows unmap_pre_valid: "pa_valid A m" and unmap_pre_inv: "inv_at mw m pt layer ptr"
    and unmap_pre_dinv: "dir_inv (interp_at mw m pt layer ptr (unat base))"
    and unmap_pre_acc: "dir_accepted_unmap (interp_at mw m pt layer ptr (unat base)) (unat vaddr)"
  using assms unfolding unmap_pre_def by blast+

definition unmap_refines ::
    "nat \<Rightarrow> page_allocator \<Rightarrow> PageTableMemory \<Rightarrow> PTDir \<Rightarrow> nat \<Rightarrow> usize \<Rightarrow> usize \<Rightarrow> usize \<Rightarrow> bool" where
  "unmap_refines mw A m pt layer ptr base vaddr \<longleftrightarrow>
     (\<exists>m' res. unmap_aux mw A m pt layer ptr base vaddr = Some (m', res) \<and>
        unmap_post mw A m pt layer ptr (unat base) (unat vaddr) m' res)"

lemma unmap_refinesI:
  assumes "unmap_aux mw A m pt layer ptr base vaddr = Some (m', res)"
    and "unmap_post mw A m pt layer ptr (unat base) (unat vaddr) m' res"
  shows "unmap_refines mw A m pt layer ptr base vaddr"
  using assms by (auto simp: unmap_refines_def)

lemma dir_unmap_at:
  assumes "dir_inv d" and "dir_accepted_unmap d va" and i: "i = dir_index_for_vaddr d va"
  shows "dir_unmap d va =
    (case d_entries d ! i of
       NPage p \<Rightarrow> if aligned va (dir_entry_size d) then Ok (dir_update d i NEmpty) else Err d
     | NDirectory d' \<Rightarrow>
         (case dir_unmap d' va of
            Ok new_d \<Rightarrow> Ok (dir_update d i (if dir_empty new_d then NEmpty else NDirectory new_d))
          | Err new_d \<Rightarrow> Err (dir_update d i (NDirectory new_d)))
     | NEmpty \<Rightarrow> Err d)"
  unfolding i using assms dir_unmap_index [OF assms(1,2)]
  by (subst dir_unmap.simps) (simp add: Let_def split: NodeEntry.split)

lemma dir_accepted_unmap_child:
  assumes inv: "dir_inv d" and acc: "dir_accepted_unmap d va" and i: "i = dir_index_for_vaddr d va"
    and e: "d_entries d ! i = NDirectory d'"
  shows "dir_accepted_unmap d' va"
proof -
  have n: "i < dir_num_entries d" using dir_unmap_index(1) [OF inv acc] i by simp
  note c = dir_child [OF inv n e]
  show ?thesis
    using acc dir_index_bounds [OF inv, of va] c(3,4,7) i
    unfolding dir_accepted_unmap_iff [OF inv] dir_accepted_unmap_iff [OF c(1)] by simp
qed

section \<open>The branches\<close>

lemma unmap_post_page:
  assumes A: "allocator_contract mw A" and pre: "unmap_pre mw A m pt layer ptr base vaddr"
    and step: "step_at mw m pt layer ptr base vaddr i eb es"
    and none: "pt_entries pt ! unat i = None"
    and page: "d_entries (interp_at mw m pt layer ptr (unat base)) ! unat i = NPage p"
    and al: "aligned (unat vaddr) (entry_size x86_arch_spec layer)"
  shows "\<exists>m'. mem_write m ptr i 0 = Some m' \<and>
      unmap_post mw A m pt layer ptr (unat base) (unat vaddr) m' (Ok (pt, {}))"
proof -
  let ?D = "interp_at mw m pt layer ptr (unat base)"
  note inv = unmap_pre_inv [OF pre] and dinv = unmap_pre_dinv [OF pre] and acc = unmap_pre_acc [OF pre]
  note idx = step_index_spec [OF step] step_index_less [OF step] and used = inv_at_used [OF inv]
  obtain m' where m': "mem_write m ptr i 0 = Some m'"
      "region_view m' (pt_region pt) = (region_view m (pt_region pt))[unat i := 0]"
      "unchanged m m' (regions m - {pt_region pt})" "regions m' = regions m" "cr3 m' = cr3 m"
      "mem_inv m'" "pa_valid A m'"
    using node_write [OF inv_at_region [OF inv] inv_at_region_mem [OF inv] inv_at_ptr [OF inv]
        inv_at_mem [OF inv] idx(2) A unmap_pre_valid [OF pre]] by blast
  have kept: "kept_regions pt (unat i) = pt_used_regions pt" using none by (simp add: kept_regions_def)
  have same: "PTDir (pt_region pt) ((pt_entries pt)[unat i := None]) (pt_used_regions pt) = pt"
    using none list_update_id [of "pt_entries pt" "unat i"] by (cases pt) simp
  have "inv_at mw m' pt layer ptr \<and>
      interp_at mw m' pt layer ptr (unat base) = dir_update ?D (unat i) NEmpty"
    using slot_update [OF inv idx(2), of "pt_used_regions pt" m' None 0 "unat base"] m' used same kept
      zero_slot [OF inv_at_layer [OF inv]]
    by (auto simp: unchanged_def)
  moreover have "dir_unmap ?D (unat vaddr) = Ok (dir_update ?D (unat i) NEmpty)"
    using dir_unmap_at [OF dinv acc idx(1)] page al by (simp add: interp_at_dir_simps)
  ultimately show ?thesis
    using m' inv_at_used_region [OF inv] by (auto simp: unmap_post_def unchanged_def)
qed

text \<open>The child directory still holds a mapping: it stays.\<close>

lemma unmap_post_keep:
  assumes mw: "max_phyaddr_width_facts mw"
    and inv: "inv_at mw m pt layer ptr" and i: "i < 512" and d: "pt_entries pt ! i = Some d"
    and a: "a = pde_address mw \<lparr>pde_entry = region_view m (pt_region pt) ! i, pde_layer = layer\<rparr>"
      "eb = arch_entry_base x86_arch_spec layer b i"
    and rec: "unmap_post mw A m d (layer + 1) a eb va m1 (Ok (d', R))"
    and un: "dir_unmap (interp_at mw m pt layer ptr b) va =
      Ok (dir_update (interp_at mw m pt layer ptr b) i (NDirectory (interp_at mw m1 d' (layer + 1) a eb)))"
  shows "unmap_post mw A m pt layer ptr b va m1
      (Ok (PTDir (pt_region pt) ((pt_entries pt)[i := Some d']) (pt_used_regions pt - R), R))"
proof -
  let ?D = "interp_at mw m pt layer ptr b" and ?w = "region_view m (pt_region pt) ! i"
  let ?U = "pt_used_regions pt - R"
  let ?pt = "PTDir (pt_region pt) ((pt_entries pt)[i := Some d']) ?U"
  note l = inv_at_layer [OF inv] and used = inv_at_used [OF inv]
  have r: "cr3 m1 = cr3 m" "pa_valid A m1" "regions m = regions m1 \<union> R"
      "pt_used_regions d = pt_used_regions d' \<union> R" "R \<inter> regions m1 = {}"
      "inv_at mw m1 d' (layer + 1) a" "unchanged m m1 (regions m - pt_used_regions d)"
    using rec unfolding unmap_post_def rust_result.case prod.case by blast+
  have reg: "pt_region pt \<notin> pt_used_regions d" "pt_used_regions d \<subseteq> pt_used_regions pt"
    using regions_okD [OF inv_at_regions_ok [OF inv] _ d] i inv_at_length [OF inv] by simp_all
  have kept: "kept_regions pt i = pt_used_regions pt - pt_used_regions d"
    using d by (simp add: kept_regions_def)
  have "slot_ok mw m layer ?w (Some d)" using inv_at_slot [OF inv i] d by simp
  note slot = slot_dir_replace [OF mw this l r(6) [unfolded a(1)], folded a(1)]
  have view: "region_view m1 (pt_region pt) = (region_view m (pt_region pt))[i := ?w]"
    using r(7) reg(1) inv_at_region_mem [OF inv] by (simp add: unchanged_def)
  have upd: "inv_at mw m1 ?pt layer ptr \<and>
      interp_at mw m1 ?pt layer ptr b = dir_update ?D i (NDirectory (interp_at mw m1 d' (layer + 1) a eb))"
    unfolding a(2) slot(2) [of "arch_entry_base x86_arch_spec layer b i", symmetric]
  proof (rule slot_update [OF inv i _ _ _ inv_at_mem [OF r(6)] view _ slot(1)])
    show "kept_regions pt i \<subseteq> ?U" "?U \<subseteq> regions m1" using kept used r(3,4) by blast+
    show "unchanged m m1 (kept_regions pt i - {pt_region pt})"
      using r(7) used kept by (auto simp: unchanged_def)
    show "pt_used_regions e \<subseteq> ?U \<and> pt_used_regions e \<inter> kept_regions pt i = {}" if "Some d' = Some e" for e
      using that r(4,5) inv_at_used [OF r(6)] kept reg(2) by auto
  qed
  moreover have "unchanged m m1 (regions m - pt_used_regions pt)"
    using r(7) reg(2) by (auto simp: unchanged_def)
  moreover have "pt_used_regions pt = ?U \<union> R" using r(4) reg(2) by auto
  ultimately show ?thesis using r un by (simp add: unmap_post_def)
qed

text \<open>The child directory became empty: its entry is cleared and its page returned.\<close>

lemma unmap_post_remove:
  assumes A: "allocator_contract mw A"
    and inv: "inv_at mw m pt layer ptr" and i: "unat i < 512" and d: "pt_entries pt ! unat i = Some d"
    and rec: "unmap_post mw A m d (layer + 1) a eb va m1 (Ok (d', R))"
    and un: "dir_unmap (interp_at mw m pt layer ptr b) va =
      Ok (dir_update (interp_at mw m pt layer ptr b) (unat i) NEmpty)"
  obtains m2 where "mem_write m1 ptr i 0 = Some m2"
    "unmap_post mw A m pt layer ptr b va
      (pa_dealloc A \<lparr>mre_base = a, mre_size = of_nat PAGE_SIZE\<rparr> m2)
      (Ok (PTDir (pt_region pt) ((pt_entries pt)[unat i := None])
             (pt_used_regions pt - insert (pt_region d') R), insert (pt_region d') R))"
proof -
  let ?D = "interp_at mw m pt layer ptr b" and ?R = "insert (pt_region d') R"
  let ?U = "pt_used_regions pt - ?R" and ?r = "\<lparr>mre_base = a, mre_size = of_nat PAGE_SIZE\<rparr> :: MemRegionExec"
  let ?pt = "PTDir (pt_region pt) ((pt_entries pt)[unat i := None]) ?U"
  note l = inv_at_layer [OF inv] and used = inv_at_used [OF inv] and reg = inv_at_region_mem [OF inv]
  have r: "cr3 m1 = cr3 m" "pa_valid A m1" "regions m = regions m1 \<union> R"
      "pt_used_regions d = pt_used_regions d' \<union> R" "R \<inter> regions m1 = {}"
      "inv_at mw m1 d' (layer + 1) a" "unchanged m m1 (regions m - pt_used_regions d)"
    using rec unfolding unmap_post_def rust_result.case prod.case by blast+
  have sub: "pt_region pt \<notin> pt_used_regions d" "pt_used_regions d \<subseteq> pt_used_regions pt"
    using regions_okD [OF inv_at_regions_ok [OF inv] _ d] i inv_at_length [OF inv] by simp_all
  have d': "pt_region d' \<in> pt_used_regions d'" "pt_region d' \<in> regions m1"
      "region_view_exec ?r = pt_region d'"
    using inv_at_used_region [OF r(6)] inv_at_region_mem [OF r(6)] inv_at_region [OF r(6)]
    by (simp_all add: region_view_exec_def)
  have reg1: "pt_region pt \<in> regions m1" "pt_region pt \<noteq> pt_region d'"
    using reg sub(1) r(3,4) d'(1) by auto
  obtain m2 where w: "mem_write m1 ptr i 0 = Some m2"
      "region_view m2 (pt_region pt) = (region_view m1 (pt_region pt))[unat i := 0]"
      "unchanged m1 m2 (regions m1 - {pt_region pt})" "regions m2 = regions m1" "cr3 m2 = cr3 m1"
      "mem_inv m2" "pa_valid A m2"
    using node_write [OF inv_at_region [OF inv] reg1(1) inv_at_ptr [OF inv] inv_at_mem [OF r(6)] i A r(2)]
    by blast
  let ?m3 = "pa_dealloc A ?r m2"
  have m3: "regions ?m3 = regions m2 - {pt_region d'}"
      "unchanged m2 ?m3 (regions m2 - {pt_region d'})" "cr3 ?m3 = cr3 m2" "mem_inv ?m3" "pa_valid A ?m3"
    using allocator_contractD(2) [OF A] w(4,6,7) d'(2,3) unfolding dealloc_page_contract_def
    by (auto simp: unchanged_def)
  have view: "region_view ?m3 (pt_region pt) = (region_view m (pt_region pt))[unat i := 0]"
    using m3(2) w(2,4) reg1 r(7) reg sub(1) by (simp add: unchanged_def)
  have kept: "kept_regions pt (unat i) = pt_used_regions pt - pt_used_regions d"
    using d by (simp add: kept_regions_def)
  have un3: "unchanged m ?m3 (regions m - pt_used_regions d - {pt_region pt})"
    unfolding unchanged_def
  proof
    fix q assume q: "q \<in> regions m - pt_used_regions d - {pt_region pt}"
    then have "q \<in> regions m1" "q \<noteq> pt_region d'" using r(3,4) d'(1) by auto
    then show "region_view ?m3 q = region_view m q"
      using q r(7) w(3,4) m3(2) by (simp add: unchanged_def)
  qed
  have "inv_at mw ?m3 ?pt layer ptr \<and> interp_at mw ?m3 ?pt layer ptr b = dir_update ?D (unat i) NEmpty"
    unfolding zero_slot(2) [OF l, of mw ?m3 "arch_entry_base x86_arch_spec layer b (unat i)", symmetric]
  proof (rule slot_update [OF inv i _ _ _ m3(4) view _ zero_slot(1) [OF l]])
    show "kept_regions pt (unat i) \<subseteq> ?U" "?U \<subseteq> regions ?m3"
      using kept used r(3,4) d'(1) m3(1) w(4) by blast+
    show "unchanged m ?m3 (kept_regions pt (unat i) - {pt_region pt})"
      using un3 used kept by (auto simp: unchanged_def)
  qed simp
  moreover have "unchanged m ?m3 (regions m - pt_used_regions pt)"
    using un3 sub(2) inv_at_used_region [OF inv] by (auto simp: unchanged_def)
  moreover have "pt_used_regions pt = ?U \<union> ?R" "regions m = regions ?m3 \<union> ?R" "?R \<inter> regions ?m3 = {}"
    using r(3-5) sub(2) d'(1,2) m3(1) w(4) by auto
  ultimately show thesis
    using that [OF w(1)] un m3(3,5) w(5) r(1) by (simp add: unmap_post_def)
qed

section \<open>The whole operation\<close>

lemma unmap_case_directory:
  assumes mw: "max_phyaddr_width_facts mw" and A: "allocator_contract mw A"
    and pre: "unmap_pre mw A m pt layer ptr base vaddr"
    and step: "step_at mw m pt layer ptr base vaddr i eb es"
    and a: "a = pde_address mw \<lparr>pde_entry = region_view m (pt_region pt) ! unat i, pde_layer = layer\<rparr>"
    and mapped: "pde_is_mapping \<lparr>pde_entry = region_view m (pt_region pt) ! unat i, pde_layer = layer\<rparr>"
      "pde_is_dir \<lparr>pde_entry = region_view m (pt_region pt) ! unat i, pde_layer = layer\<rparr> layer"
    and d: "pt_entries pt ! unat i = Some d" "inv_at mw m d (layer + 1) a"
    and e: "d_entries (interp_at mw m pt layer ptr (unat base)) ! unat i =
        NDirectory (interp_at mw m d (layer + 1) a (unat eb))"
    and rec: "unmap_pre mw A m d (layer + 1) a eb vaddr \<Longrightarrow> unmap_refines mw A m d (layer + 1) a eb vaddr"
  shows "unmap_refines mw A m pt layer ptr base vaddr"
proof -
  let ?D = "interp_at mw m pt layer ptr (unat base)" and ?d = "interp_at mw m d (layer + 1) a (unat eb)"
  note inv = unmap_pre_inv [OF pre] and dinv = unmap_pre_dinv [OF pre] and acc = unmap_pre_acc [OF pre]
  note idx = step_index_spec [OF step] step_index_less [OF step] and eb = step_entry_base_spec [OF step]
  have n: "unat i < dir_num_entries ?D" using dir_length [OF dinv] idx(2) by simp
  have "unmap_pre mw A m d (layer + 1) a eb vaddr"
    unfolding unmap_pre_def
    using d(2) child_inv [OF dinv n e] unmap_pre_valid [OF pre]
      dir_accepted_unmap_child [OF dinv acc idx(1) e] by simp
  from rec [OF this] obtain m1 res where
    rec: "unmap_aux mw A m d (layer + 1) a eb vaddr = Some (m1, res)"
      "unmap_post mw A m d (layer + 1) a (unat eb) (unat vaddr) m1 res"
    by (auto simp: unmap_refines_def)
  note exec = unmap_aux.simps [of mw A m pt] step_exec [OF step]
  note at = dir_unmap_at [OF dinv acc idx(1)]
  show ?thesis
  proof (cases res)
    case (Ok x)
    obtain d' R where x: "x = (d', R)" by (cases x)
    let ?d' = "interp_at mw m1 d' (layer + 1) a (unat eb)"
    have r: "inv_at mw m1 d' (layer + 1) a" "dir_unmap ?d (unat vaddr) = Ok ?d'"
      using rec(2) Ok x by (simp_all add: unmap_post_def)
    note isempty = is_directory_empty_correct [OF mw r(1), of "unat eb"]
    have un: "dir_unmap ?D (unat vaddr) =
        Ok (dir_update ?D (unat i) (if dir_empty ?d' then NEmpty else NDirectory ?d'))"
      using at e r(2) by simp
    show ?thesis
    proof (cases "dir_empty ?d'")
      case True
      from unmap_post_remove [OF A inv idx(2) d(1) rec(2) [unfolded Ok x], of "unat base"] un True
      obtain m2 where m2: "mem_write m1 ptr i 0 = Some m2"
        "unmap_post mw A m pt layer ptr (unat base) (unat vaddr)
          (pa_dealloc A \<lparr>mre_base = a, mre_size = of_nat PAGE_SIZE\<rparr> m2)
          (Ok (PTDir (pt_region pt) ((pt_entries pt)[unat i := None])
                 (pt_used_regions pt - insert (pt_region d') R), insert (pt_region d') R))" by auto
      show ?thesis
        by (rule unmap_refinesI [OF _ m2(2)])
          (use mapped rec(1) Ok x d(1) a isempty True m2(1) in \<open>simp add: exec Let_def\<close>)
    next
      case False
      have post: "unmap_post mw A m pt layer ptr (unat base) (unat vaddr) m1
          (Ok (PTDir (pt_region pt) ((pt_entries pt)[unat i := Some d']) (pt_used_regions pt - R), R))"
        by (rule unmap_post_keep [OF mw inv idx(2) d(1) a eb rec(2) [unfolded Ok x]])
          (use un False in simp)
      show ?thesis
        by (rule unmap_refinesI [OF _ post])
          (use mapped rec(1) Ok x d(1) a isempty False in \<open>simp add: exec\<close>)
    qed
  next
    case (Err u)
    have r: "m1 = m" "dir_unmap ?d (unat vaddr) = Err ?d"
      using rec(2) Err by (simp_all add: unmap_post_def)
    have "dir_update ?D (unat i) (NDirectory ?d) = ?D" using dir_update_same e by metis
    then have post: "unmap_post mw A m pt layer ptr (unat base) (unat vaddr) m (Err u)"
      using at e r(2) unmap_pre_valid [OF pre] by (simp add: unmap_post_def)
    show ?thesis
      by (rule unmap_refinesI [OF _ post])
        (use mapped rec(1) Err d(1) a r(1) in \<open>simp add: exec\<close>)
  qed
qed

lemma unmap_aux_correct:
  assumes mw: "max_phyaddr_width_facts mw" and A: "allocator_contract mw A" and va: "unat vaddr < MAX_BASE"
    and "unmap_pre mw A m pt layer ptr base vaddr"
  shows "unmap_refines mw A m pt layer ptr base vaddr"
  using assms(4)
proof (induction "4 - layer" arbitrary: m pt layer ptr base)
  case 0
  then show ?case using inv_at_layer [OF unmap_pre_inv] by fastforce
next
  case (Suc n)
  let ?D = "interp_at mw m pt layer ptr (unat base)"
  note pre = Suc.prems and inv = unmap_pre_inv [OF Suc.prems] and dinv = unmap_pre_dinv [OF Suc.prems]
  note acc = unmap_pre_acc [OF pre]
  have lo: "unat base \<le> unat vaddr" "unat vaddr < dir_upper_vaddr ?D"
    using acc unfolding dir_accepted_unmap_iff [OF dinv] by simp_all
  obtain i eb es where step: "step_at mw m pt layer ptr base vaddr i eb es"
    using exec_step [OF inv lo(1) va dir_index_at [OF inv dinv lo]] .
  note idx = step_index_spec [OF step] step_index_less [OF step] and node = step_node [OF step inv]
  note exec = unmap_aux.simps [of mw A m pt] step_exec [OF step]
  have err: "unmap_post mw A m pt layer ptr (unat base) (unat vaddr) m (Err ())"
    if "dir_unmap ?D (unat vaddr) = Err ?D"
    using that unmap_pre_valid [OF pre] by (simp add: unmap_post_def)
  note at = dir_unmap_at [OF dinv acc idx(1)]
  show ?case
  proof (cases rule: slot_cases [OF mw inv_at_slot [OF inv idx(2)] inv_at_layer [OF inv]])
    case 1
    then have "dir_unmap ?D (unat vaddr) = Err ?D" using at node by simp
    then show ?thesis by (intro unmap_refinesI [OF _ err]) (use 1 in \<open>simp_all add: exec\<close>)
  next
    case (2 d)
    show ?thesis
      by (rule unmap_case_directory [OF mw A pre step refl 2(1-4)])
        (use 2(5) node Suc.hyps in simp_all)
  next
    case 3
    have "0 < unat es"
      using step_entry_size_spec [OF step] inv_at_layer [OF inv] entry_size_pos [OF x86_arch_inv] by simp
    note al = aligned_exec_correct [OF this, of vaddr, unfolded step_entry_size_spec [OF step]]
    show ?thesis
    proof (cases "aligned (unat vaddr) (entry_size x86_arch_spec layer)")
      case True
      from unmap_post_page [OF A pre step 3(3) _ True] node 3(4) obtain m' where
        "mem_write m ptr i 0 = Some m'"
        "unmap_post mw A m pt layer ptr (unat base) (unat vaddr) m' (Ok (pt, {}))" by auto
      then show ?thesis
        by (intro unmap_refinesI) (use 3 al True in \<open>simp_all add: exec\<close>)
    next
      case False
      then have "dir_unmap ?D (unat vaddr) = Err ?D" using at node 3(4) by (simp add: interp_at_dir_simps)
      then show ?thesis
        by (intro unmap_refinesI [OF _ err]) (use 3 al False in \<open>simp_all add: exec\<close>)
    qed
  qed
qed

end
