(* ===== verification/PT_Impl_Correct.thy ===== *)
theory PT_Impl_Correct
  imports PT_Impl_Unmap
begin

text \<open>
  Correctness of the public operations of \<^verbatim>\<open>page-table/impl_u/l2_impl.rs\<close>. In every
  state that satisfies the invariant, \<open>resolve\<close>, \<open>map_frame\<close> and \<open>unmap\<close> return (no panic),
  keep the invariant and do to the flat contents of the table what \<open>pc_resolve\<close>,
  \<open>pc_map_frame\<close> and \<open>pc_unmap\<close> do.
\<close>

definition pt_ok :: "nat \<Rightarrow> page_allocator \<Rightarrow> PageTableMemory \<Rightarrow> PTDir \<Rightarrow> bool" where
  "pt_ok mw A m pt \<longleftrightarrow> pt_inv mw m pt \<and> dir_inv (pt_interp mw m pt) \<and> pa_valid A m"

abbreviation pt_contents :: "nat \<Rightarrow> PageTableMemory \<Rightarrow> PTDir \<Rightarrow> PageTableContents" where
  "pt_contents mw m pt \<equiv> dir_interp (pt_interp mw m pt)"

lemma pt_okD:
  assumes "pt_ok mw A m pt"
  shows "inv_at mw m pt 0 (mre_base (cr3 m))"
    and "dir_inv (interp_at mw m pt 0 (mre_base (cr3 m)) (unat (0::usize)))"
    and "dir_inv (pt_interp mw m pt)" and "pa_valid A m"
    and "pt_interp mw m pt = interp_at mw m pt 0 (mre_base (cr3 m)) (unat (0::usize))"
  using assms by (simp_all add: pt_ok_def pt_inv_def pt_interp_def)

lemma pt_interp_bounds [simp]:
  "d_base_vaddr (pt_interp mw m pt) = 0" "dir_upper_vaddr (pt_interp mw m pt) = MAX_BASE"
  "d_arch (pt_interp mw m pt) = x86_arch_spec" "d_layer (pt_interp mw m pt) = 0"
  by (simp_all add: pt_interp_def dir_upper_vaddr_def x86_arch_spec_upper_bound)

section \<open>Resolve\<close>

lemma resolve_correct:
  assumes mw: "max_phyaddr_width_facts mw" and ok: "pt_ok mw A m pt" and va: "unat vaddr < MAX_BASE"
  shows "\<exists>res. resolve mw m vaddr = Some res \<and>
           resolve_view res = dir_resolve (pt_interp mw m pt) (unat vaddr)"
proof -
  note p = pt_okD [OF ok]
  have "unat vaddr < dir_upper_vaddr (interp_at mw m pt 0 (mre_base (cr3 m)) (unat (0::usize)))"
    using va pt_interp_bounds(2) [of mw m pt] unfolding p(5) by simp
  from resolve_aux_correct [OF mw p(1,2) _ va this] show ?thesis
    by (simp add: resolve_def p(5))
qed

section \<open>Map\<close>

lemma map_frame_correct:
  assumes mw: "max_phyaddr_width_facts mw" and A: "allocator_contract mw A" and ok: "pt_ok mw A m pt"
    and pages: "3 \<le> alloc_available_pages m" and va: "unat vaddr < MAX_BASE"
    and acc: "accepted_mapping mw (unat vaddr) (pte_view pte)"
      "dir_accepted_mapping (pt_interp mw m pt) (unat vaddr) (pte_view pte)"
  shows "\<exists>m' pt' res. map_frame mw A m pt vaddr pte = Some (m', pt', res) \<and> pt_ok mw A m' pt' \<and>
    pt_used_regions pt \<subseteq> pt_used_regions pt' \<and>
    unchanged m m' (regions m - pt_used_regions pt) \<and>
    alloc_available_pages m \<le> alloc_available_pages m' + 3 \<and>
    (case res of
       Ok _ \<Rightarrow> dir_map_frame (pt_interp mw m pt) (unat vaddr) (pte_view pte) = Ok (pt_interp mw m' pt')
     | Err _ \<Rightarrow> m' = m \<and> pt' = pt \<and>
         dir_map_frame (pt_interp mw m pt) (unat vaddr) (pte_view pte) = Err (pt_interp mw m pt))"
proof -
  let ?r = "mre_base (cr3 m)"
  note p = pt_okD [OF ok]
  have pre: "map_pre mw A m pt 0 ?r 0 vaddr pte"
    using p acc pages by (simp add: map_pre_def)
  from map_frame_aux_correct [OF mw A va this] obtain m' res where
    run: "map_frame_aux mw A m pt 0 ?r 0 vaddr pte = Some (m', res)" and
    post: "map_post mw A m pt 0 ?r 0 (unat vaddr) (pte_view pte) m' res"
    by (auto simp: map_refines_def)
  show ?thesis
  proof (cases res)
    case (Ok x)
    obtain pt' N where x: "x = (pt', N)" by (cases x)
    have r: "cr3 m' = cr3 m" "pa_valid A m'" "pt_used_regions pt' = pt_used_regions pt \<union> N"
        "inv_at mw m' pt' 0 ?r" "unchanged m m' (regions m - pt_used_regions pt)"
        "pt_region pt' = pt_region pt"
        "dir_map_frame (interp_at mw m pt 0 ?r 0) (unat vaddr) (pte_view pte) = Ok (interp_at mw m' pt' 0 ?r 0)"
        "alloc_available_pages m \<le> alloc_available_pages m' + (3 - 0)"
      using post unfolding map_post_def Ok x rust_result.case prod.case by blast+
    have new: "dir_map_frame (pt_interp mw m pt) (unat vaddr) (pte_view pte) = Ok (pt_interp mw m' pt')"
      using r(1,7) by (simp add: pt_interp_def)
    have "dir_inv (pt_interp mw m' pt')"
      using dir_map_frame_preserves_inv [OF p(3) acc(2)] new by simp
    moreover have "pt_inv mw m' pt'" using ok r(1,4,6) by (simp add: pt_ok_def pt_inv_def)
    ultimately have "pt_ok mw A m' pt'" using r(2) by (simp add: pt_ok_def)
    then show ?thesis using run Ok x new r(3,5,8) by (simp add: map_frame_def)
  next
    case (Err u)
    then have "m' = m"
      "dir_map_frame (pt_interp mw m pt) (unat vaddr) (pte_view pte) = Err (pt_interp mw m pt)"
      using post by (simp_all add: map_post_def pt_interp_def)
    then show ?thesis using run Err ok by (simp add: map_frame_def unchanged_def)
  qed
qed

section \<open>Unmap\<close>

lemma unmap_correct:
  assumes mw: "max_phyaddr_width_facts mw" and A: "allocator_contract mw A" and ok: "pt_ok mw A m pt"
    and va: "unat vaddr < MAX_BASE" and acc: "dir_accepted_unmap (pt_interp mw m pt) (unat vaddr)"
  shows "\<exists>m' pt' res. unmap mw A m pt vaddr = Some (m', pt', res) \<and> pt_ok mw A m' pt' \<and>
    pt_used_regions pt' \<subseteq> pt_used_regions pt \<and>
    unchanged m m' (regions m - pt_used_regions pt) \<and>
    (case res of
       Ok _ \<Rightarrow> dir_unmap (pt_interp mw m pt) (unat vaddr) = Ok (pt_interp mw m' pt')
     | Err _ \<Rightarrow> m' = m \<and> pt' = pt \<and> dir_unmap (pt_interp mw m pt) (unat vaddr) = Err (pt_interp mw m pt))"
proof -
  let ?r = "mre_base (cr3 m)"
  note p = pt_okD [OF ok]
  have pre: "unmap_pre mw A m pt 0 ?r 0 vaddr" using p acc by (simp add: unmap_pre_def)
  from unmap_aux_correct [OF mw A va this] obtain m' res where
    run: "unmap_aux mw A m pt 0 ?r 0 vaddr = Some (m', res)" and
    post: "unmap_post mw A m pt 0 ?r 0 (unat vaddr) m' res"
    by (auto simp: unmap_refines_def)
  show ?thesis
  proof (cases res)
    case (Ok x)
    obtain pt' R where x: "x = (pt', R)" by (cases x)
    have r: "cr3 m' = cr3 m" "pa_valid A m'" "pt_used_regions pt = pt_used_regions pt' \<union> R"
        "inv_at mw m' pt' 0 ?r" "unchanged m m' (regions m - pt_used_regions pt)"
        "pt_region pt' = pt_region pt"
        "dir_unmap (interp_at mw m pt 0 ?r 0) (unat vaddr) = Ok (interp_at mw m' pt' 0 ?r 0)"
      using post unfolding unmap_post_def Ok x rust_result.case prod.case by blast+
    have new: "dir_unmap (pt_interp mw m pt) (unat vaddr) = Ok (pt_interp mw m' pt')"
      using r(1,7) by (simp add: pt_interp_def)
    have "dir_inv (pt_interp mw m' pt')"
      using dir_unmap_preserves_inv [OF p(3) acc] new by simp
    moreover have "pt_inv mw m' pt'" using ok r(1,4,6) by (simp add: pt_ok_def pt_inv_def)
    ultimately have "pt_ok mw A m' pt'" using r(2) by (simp add: pt_ok_def)
    then show ?thesis using run Ok x new r(3,5) by (auto simp: unmap_def)
  next
    case (Err u)
    then have "m' = m" "dir_unmap (pt_interp mw m pt) (unat vaddr) = Err (pt_interp mw m pt)"
      using post by (simp_all add: unmap_post_def pt_interp_def)
    then show ?thesis using run Err ok by (simp add: unmap_def unchanged_def)
  qed
qed

section \<open>An initial page table\<close>

text \<open>A zeroed root page is a page table that maps nothing.\<close>

definition empty_table :: "PageTableMemory \<Rightarrow> PTDir" where
  "empty_table m =
     PTDir (region_view_exec (cr3 m)) (new_seq X86_NUM_ENTRIES None) {region_view_exec (cr3 m)}"

lemma empty_table_ok:
  assumes "mem_inv m" and "region_view_exec (cr3 m) \<in> regions m"
    and "region_view m (region_view_exec (cr3 m)) = new_seq 512 0" and "pa_valid A m"
  shows "pt_ok mw A m (empty_table m)" and "dir_map (pt_interp mw m (empty_table m)) = Map.empty"
proof -
  have r: "region_view_exec (cr3 m) = \<lparr>mr_base = unat (mre_base (cr3 m)), mr_size = 4096\<rparr>"
      "unat (mre_base (cr3 m)) mod 4096 = 0"
    using assms(1) by (simp_all add: mem_inv_def region_view_exec_def aligned_def)
  have "(0::nat) < 4" by simp
  note e = empty_directory [OF assms(1,2) r assms(3) this, of mw]
  have i: "pt_interp mw m (empty_table m) = Directory (new_seq 512 NEmpty) 0 0 x86_arch_spec permissive_flags"
    using e(2) by (simp add: pt_interp_def empty_table_def)
  have "dir_well_formed (pt_interp mw m (empty_table m))"
    unfolding i dir_well_formed_def
    by (simp add: x86_arch_inv new_seq_replicate dir_num_entries_def aligned_def)
  then have inv: "dir_inv (pt_interp mw m (empty_table m))"
    by (rule dir_invI) (simp_all add: i new_seq_replicate dir_num_entries_def)
  moreover have "pt_inv mw m (empty_table m)" using e(1) by (simp add: pt_inv_def empty_table_def)
  ultimately show "pt_ok mw A m (empty_table m)" using assms(4) by (simp add: pt_ok_def)
  have "dir_empty (pt_interp mw m (empty_table m))"
    by (simp add: dir_empty_def i new_seq_replicate dir_num_entries_def)
  then show "dir_map (pt_interp mw m (empty_table m)) = Map.empty" by (rule dir_empty_map [OF inv])
qed

section \<open>The page table in memory as a page table\<close>

definition pt_sys_inv :: "nat \<Rightarrow> page_allocator \<Rightarrow> PageTableMemory \<times> PTDir \<Rightarrow> bool" where
  "pt_sys_inv mw A s \<longleftrightarrow>
     max_phyaddr_width_facts mw \<and> allocator_contract mw A \<and> pt_ok mw A (fst s) (snd s)"

definition pt_accepts_map :: "nat \<Rightarrow> PageTableMemory \<times> PTDir \<Rightarrow> usize \<Rightarrow> PageTableEntryExec \<Rightarrow> bool" where
  "pt_accepts_map mw s vaddr pte \<longleftrightarrow>
     3 \<le> alloc_available_pages (fst s) \<and> unat vaddr < MAX_BASE \<and>
     accepted_mapping mw (unat vaddr) (pte_view pte) \<and>
     dir_accepted_mapping (pt_interp mw (fst s) (snd s)) (unat vaddr) (pte_view pte)"

definition pt_accepts_unmap :: "nat \<Rightarrow> PageTableMemory \<times> PTDir \<Rightarrow> usize \<Rightarrow> bool" where
  "pt_accepts_unmap mw s vaddr \<longleftrightarrow>
     unat vaddr < MAX_BASE \<and> dir_accepted_unmap (pt_interp mw (fst s) (snd s)) (unat vaddr)"

definition pt_map_op ::
    "nat \<Rightarrow> page_allocator \<Rightarrow> PageTableMemory \<times> PTDir \<Rightarrow> usize \<Rightarrow> PageTableEntryExec \<Rightarrow>
     ((PageTableMemory \<times> PTDir) \<times> (unit, unit) rust_result) option" where
  "pt_map_op mw A s vaddr pte =
     map_option (\<lambda>(m, pt, res). ((m, pt), res)) (map_frame mw A (fst s) (snd s) vaddr pte)"

definition pt_unmap_op ::
    "nat \<Rightarrow> page_allocator \<Rightarrow> PageTableMemory \<times> PTDir \<Rightarrow> usize \<Rightarrow>
     ((PageTableMemory \<times> PTDir) \<times> (unit, unit) rust_result) option" where
  "pt_unmap_op mw A s vaddr =
     map_option (\<lambda>(m, pt, res). ((m, pt), res)) (unmap mw A (fst s) (snd s) vaddr)"

definition pt_mappings :: "nat \<Rightarrow> PageTableMemory \<times> PTDir \<Rightarrow> nat \<rightharpoonup> PageTableEntry" where
  "pt_mappings mw s = dir_map (pt_interp mw (fst s) (snd s))"

lemma pt_sys_invD:
  assumes "pt_sys_inv mw A s"
  shows "max_phyaddr_width_facts mw" "allocator_contract mw A" "pt_ok mw A (fst s) (snd s)"
    "dir_inv (pt_interp mw (fst s) (snd s))"
  using assms by (simp_all add: pt_sys_inv_def pt_ok_def)

lemma pt_map_spec:
  assumes inv: "pt_sys_inv mw A s" and acc: "pt_accepts_map mw s vaddr pte"
  shows "\<exists>s' res. pt_map_op mw A s vaddr pte = Some (s', res) \<and> pt_sys_inv mw A s' \<and>
    (if candidate_mapping_overlaps_existing_vmem (pt_mappings mw s) (unat vaddr) (pte_view pte)
     then res = Err () \<and> pt_mappings mw s' = pt_mappings mw s
     else res = Ok () \<and> pt_mappings mw s' = (pt_mappings mw s)(unat vaddr \<mapsto> pte_view pte))"
proof -
  note i = pt_sys_invD [OF inv] and a = acc [unfolded pt_accepts_map_def]
  from map_frame_correct [OF i(1-3)] a obtain m' pt' res where
    r: "map_frame mw A (fst s) (snd s) vaddr pte = Some (m', pt', res)" "pt_ok mw A m' pt'"
      "case res of
         Ok _ \<Rightarrow> dir_map_frame (pt_interp mw (fst s) (snd s)) (unat vaddr) (pte_view pte) = Ok (pt_interp mw m' pt')
       | Err _ \<Rightarrow> m' = fst s \<and> pt' = snd s \<and>
           dir_map_frame (pt_interp mw (fst s) (snd s)) (unat vaddr) (pte_view pte) =
             Err (pt_interp mw (fst s) (snd s))" by blast
  have "pt_sys_inv mw A (m', pt')" using r(2) i by (simp add: pt_sys_inv_def)
  moreover have "pt_map_op mw A s vaddr pte = Some ((m', pt'), res)" using r(1) by (simp add: pt_map_op_def)
  ultimately show ?thesis
    using dir_map_frame_spec [OF i(4), of "unat vaddr" "pte_view pte"] a r(3)
    by (cases res) (auto simp: pt_mappings_def split: if_splits)
qed

lemma pt_unmap_spec:
  assumes inv: "pt_sys_inv mw A s" and acc: "pt_accepts_unmap mw s vaddr"
  shows "\<exists>s' res. pt_unmap_op mw A s vaddr = Some (s', res) \<and> pt_sys_inv mw A s' \<and>
    (if unat vaddr \<in> dom (pt_mappings mw s)
     then res = Ok () \<and> pt_mappings mw s' = (pt_mappings mw s)(unat vaddr := None)
     else res = Err () \<and> pt_mappings mw s' = pt_mappings mw s)"
proof -
  note i = pt_sys_invD [OF inv] and a = acc [unfolded pt_accepts_unmap_def]
  from unmap_correct [OF i(1-3)] a obtain m' pt' res where
    r: "unmap mw A (fst s) (snd s) vaddr = Some (m', pt', res)" "pt_ok mw A m' pt'"
      "case res of
         Ok _ \<Rightarrow> dir_unmap (pt_interp mw (fst s) (snd s)) (unat vaddr) = Ok (pt_interp mw m' pt')
       | Err _ \<Rightarrow> m' = fst s \<and> pt' = snd s \<and>
           dir_unmap (pt_interp mw (fst s) (snd s)) (unat vaddr) = Err (pt_interp mw (fst s) (snd s))" by blast
  have "pt_sys_inv mw A (m', pt')" using r(2) i by (simp add: pt_sys_inv_def)
  moreover have "pt_unmap_op mw A s vaddr = Some ((m', pt'), res)" using r(1) by (simp add: pt_unmap_op_def)
  ultimately show ?thesis
    using dir_unmap_spec [OF i(4), of "unat vaddr"] a r(3)
    by (cases res) (auto simp: pt_mappings_def split: if_splits)
qed

interpretation l2: page_table "pt_sys_inv mw A" "pt_mappings mw" "pt_accepts_map mw" "pt_accepts_unmap mw"
    "\<lambda>s vaddr. unat vaddr < MAX_BASE" "pt_map_op mw A" "pt_unmap_op mw A"
    "\<lambda>s vaddr. map_option resolve_view (resolve mw (fst s) vaddr)" unat pte_view for mw A
proof (unfold_locales, goal_cases)
  case (1 s b q)
  then show ?case unfolding pt_mappings_def using l1.mapping_pos pt_sys_invD(4) by blast
next
  case (2 s b1 q1 b2 q2)
  then show ?case unfolding pt_mappings_def using l1.mappings_disjoint pt_sys_invD(4) by blast
next
  case (3 s v p)
  then show ?case by (rule pt_map_spec)
next
  case (4 s v)
  then show ?case by (rule pt_unmap_spec)
next
  case (5 s v)
  note i = pt_sys_invD [OF 5(1)]
  have "pc_accepted_resolve (pt_contents mw (fst s) (snd s)) (unat v)"
    using 5(2) i(4) by (simp add: pc_accepted_resolve_def between_def)
  note spec = dir_resolve_spec [OF i(4) this]
  obtain res where "resolve mw (fst s) v = Some res"
      "resolve_view res = dir_resolve (pt_interp mw (fst s) (snd s)) (unat v)"
    using resolve_correct [OF i(1,3) 5(2)] by blast
  then show ?case unfolding pt_mappings_def using spec
    by (intro exI [of _ "resolve_view res"]) simp
qed

end
