(* ===== verification/PT_Walk.thy ===== *)
theory PT_Walk
  imports PT_Entry PT_Memory
begin

text \<open>
  The MMU's page table walk, the part of \<^verbatim>\<open>page-table/spec_t/hardware.rs\<close> that gives
  page table memory its meaning: the four index fields of a virtual address, the walk through
  at most four tables with the flags combined along the path, and the map it induces.
\<close>

definition l0_bits :: "u64 \<Rightarrow> u64" where
  "l0_bits addr = drop_bit 39 (addr AND bitmask_inc 39 47)"

definition l1_bits :: "u64 \<Rightarrow> u64" where
  "l1_bits addr = drop_bit 30 (addr AND bitmask_inc 30 38)"

definition l2_bits :: "u64 \<Rightarrow> u64" where
  "l2_bits addr = drop_bit 21 (addr AND bitmask_inc 21 29)"

definition l3_bits :: "u64 \<Rightarrow> u64" where
  "l3_bits addr = drop_bit 12 (addr AND bitmask_inc 12 20)"

definition read_entry :: "nat \<Rightarrow> PageTableMemory \<Rightarrow> nat \<Rightarrow> nat \<Rightarrow> nat \<Rightarrow> GhostPageDirectoryEntry" where
  "read_entry mw m dir_addr layer idx =
     (let region = \<lparr>mr_base = dir_addr, mr_size = PAGE_SIZE\<rparr>
      in pde_view mw \<lparr>pde_entry = spec_read m idx region, pde_layer = layer\<rparr>)"

definition valid_pt_walk :: "nat \<Rightarrow> PageTableMemory \<Rightarrow> u64 \<Rightarrow> PageTableEntry \<Rightarrow> bool" where
  "valid_pt_walk mw m addr pte =
    (let l0_idx = unat (l0_bits addr); l1_idx = unat (l1_bits addr);
         l2_idx = unat (l2_bits addr); l3_idx = unat (l3_bits addr) in
     case read_entry mw m (unat (mre_base (cr3 m))) 0 l0_idx of
       GDirectory dir_addr _ l0_RW l0_US _ _ _ l0_XD \<Rightarrow>
         (case read_entry mw m (unat dir_addr) 1 l1_idx of
            GPage page_addr _ l1_RW l1_US _ _ _ _ _ _ l1_XD \<Rightarrow>
              aligned (unat addr) L1_ENTRY_SIZE \<and>
              pte = \<lparr>pte_frame = \<lparr>mr_base = unat page_addr, mr_size = L1_ENTRY_SIZE\<rparr>,
                     pte_flags = \<lparr>is_writable = (l0_RW \<and> l1_RW),
                                  is_supervisor = (\<not> l0_US \<or> \<not> l1_US),
                                  disable_execute = (l0_XD \<or> l1_XD)\<rparr>\<rparr>
          | GDirectory dir_addr _ l1_RW l1_US _ _ _ l1_XD \<Rightarrow>
              (case read_entry mw m (unat dir_addr) 2 l2_idx of
                 GPage page_addr _ l2_RW l2_US _ _ _ _ _ _ l2_XD \<Rightarrow>
                   aligned (unat addr) L2_ENTRY_SIZE \<and>
                   pte = \<lparr>pte_frame = \<lparr>mr_base = unat page_addr, mr_size = L2_ENTRY_SIZE\<rparr>,
                          pte_flags = \<lparr>is_writable = (l0_RW \<and> l1_RW \<and> l2_RW),
                                       is_supervisor = (\<not> l0_US \<or> \<not> l1_US \<or> \<not> l2_US),
                                       disable_execute = (l0_XD \<or> l1_XD \<or> l2_XD)\<rparr>\<rparr>
               | GDirectory dir_addr _ l2_RW l2_US _ _ _ l2_XD \<Rightarrow>
                   (case read_entry mw m (unat dir_addr) 3 l3_idx of
                      GPage page_addr _ l3_RW l3_US _ _ _ _ _ _ l3_XD \<Rightarrow>
                        aligned (unat addr) L3_ENTRY_SIZE \<and>
                        pte = \<lparr>pte_frame = \<lparr>mr_base = unat page_addr, mr_size = L3_ENTRY_SIZE\<rparr>,
                               pte_flags = \<lparr>is_writable = (l0_RW \<and> l1_RW \<and> l2_RW \<and> l3_RW),
                                            is_supervisor = (\<not> l0_US \<or> \<not> l1_US \<or> \<not> l2_US \<or> \<not> l3_US),
                                            disable_execute = (l0_XD \<or> l1_XD \<or> l2_XD \<or> l3_XD)\<rparr>\<rparr>
                    | GDirectory _ _ _ _ _ _ _ _ \<Rightarrow> False
                    | GEmpty \<Rightarrow> False)
               | GEmpty \<Rightarrow> False)
          | GEmpty \<Rightarrow> False)
     | _ \<Rightarrow> False)"

definition nat_to_u64 :: "nat \<Rightarrow> u64" where
  "nat_to_u64 n = of_nat n"

definition interp_pt_mem :: "nat \<Rightarrow> PageTableMemory \<Rightarrow> nat \<rightharpoonup> PageTableEntry" where
  "interp_pt_mem mw m addr =
     (if addr < MAX_BASE \<and> (\<exists>pte. valid_pt_walk mw m (nat_to_u64 addr) pte)
      then Some (SOME pte. valid_pt_walk mw m (nat_to_u64 addr) pte) else None)"

section \<open>The walk is a function\<close>

lemma valid_pt_walk_unique:
  assumes "valid_pt_walk mw m addr p" and "valid_pt_walk mw m addr q"
  shows "p = q"
  using assms
  by (auto simp: valid_pt_walk_def Let_def split: GhostPageDirectoryEntry.splits)

lemma interp_pt_mem_Some_iff:
  "interp_pt_mem mw m addr = Some p \<longleftrightarrow> addr < MAX_BASE \<and> valid_pt_walk mw m (nat_to_u64 addr) p"
proof -
  have "(SOME q. valid_pt_walk mw m (nat_to_u64 addr) q) = p" if "valid_pt_walk mw m (nat_to_u64 addr) p"
    using that valid_pt_walk_unique by blast
  moreover have "valid_pt_walk mw m (nat_to_u64 addr) (SOME q. valid_pt_walk mw m (nat_to_u64 addr) q)"
    if "\<exists>q. valid_pt_walk mw m (nat_to_u64 addr) q"
    using that by (rule someI_ex)
  ultimately show ?thesis unfolding interp_pt_mem_def by auto
qed

section \<open>The index fields of an address\<close>

lemma bit_field_div_mod:
  fixes a :: u64
  assumes "lo + 9 \<le> 64"
  shows "unat (drop_bit lo (a AND bitmask_inc lo (lo + 8))) = unat a div 2 ^ lo mod 512"
proof -
  have "drop_bit lo (a AND bitmask_inc lo (lo + 8)) = take_bit 9 (drop_bit lo a)"
  proof (rule bit_eqI)
    fix n
    show "bit (drop_bit lo (a AND bitmask_inc lo (lo + 8))) n = bit (take_bit 9 (drop_bit lo a)) n"
      using bit_u64_less [of a "lo + n"] assms
      by (auto simp: bit_drop_bit_eq bit_and_iff bit_bitmask_inc bit_take_bit_iff)
  qed
  then have "unat (drop_bit lo (a AND bitmask_inc lo (lo + 8))) = take_bit 9 (drop_bit lo (unat a))"
    using assms by (simp add: unsigned_take_bit_eq unsigned_drop_bit_eq take_bit_nat_eq_self
        take_bit_drop_bit min.absorb1 add.commute)
  then show ?thesis by (simp add: take_bit_eq_mod drop_bit_eq_div)
qed

lemma index_bits:
  "unat (l0_bits a) = unat a div 549755813888 mod 512"
  "unat (l1_bits a) = unat a div 1073741824 mod 512"
  "unat (l2_bits a) = unat a div 2097152 mod 512"
  "unat (l3_bits a) = unat a div 4096 mod 512"
  using bit_field_div_mod [of 39 a] bit_field_div_mod [of 30 a] bit_field_div_mod [of 21 a]
    bit_field_div_mod [of 12 a]
  by (simp_all add: l0_bits_def l1_bits_def l2_bits_def l3_bits_def)

lemma unat_nat_to_u64: "addr < MAX_BASE \<Longrightarrow> unat (nat_to_u64 addr) = addr"
  by (simp add: nat_to_u64_def unat_of_nat)

end
