(* ===== verification/PT_Walk_Refine.thy ===== *)
theory PT_Walk_Refine
  imports PT_Impl_Correct PT_Walk
begin

text \<open>
  The MMU and the implementation agree (\<^verbatim>\<open>page-table/impl_u/l2_refinement.rs\<close>): in every
  memory that satisfies the page table invariant, the map that the hardware's page table
  walk induces is the map of the interpreted directory tree. The proof follows one level of
  the walk and one level of the tree at a time; directory entries carry permissive flags, so
  the flags the walk combines are those of the page entry.
\<close>

lemma index_div_mod:
  assumes b: "b mod (es * 512) = 0" and va: "b \<le> va" "va < b + 512 * es" and es: "0 < (es::nat)"
  shows "(va - b) div es = va div es mod 512"
proof -
  obtain k where k: "b = es * 512 * k" using b by auto
  have "(va - b) div es < 512" using va es by (simp add: less_mult_imp_div_less)
  moreover have "va div es = k * 512 + (va - b) div es"
  proof -
    have "va = (va - b) + es * (512 * k)" using va(1) k by simp
    then have "va div es = 512 * k + (va - b) div es" using es by (metis div_mult_self2 add.commute less_numeral_extra(3))
    then show ?thesis by simp
  qed
  ultimately show ?thesis by simp
qed

lemma aligned_at_entry_base:
  assumes inv: "dir_inv d" and va: "d_base_vaddr d \<le> va"
  shows "va = dir_entry_base d (dir_index_for_vaddr d va) \<longleftrightarrow> aligned va (dir_entry_size d)"
  using dir_aligned_entry_base [OF inv va] dir_entry_base_aligned [OF inv, of "dir_index_for_vaddr d va"]
  by (auto simp: aligned_def)

definition walk_at :: "nat \<Rightarrow> PageTableMemory \<Rightarrow> PTDir \<Rightarrow> nat \<Rightarrow> usize \<Rightarrow> nat \<Rightarrow> nat \<Rightarrow> bool" where
  "walk_at mw m pt layer ptr b va \<longleftrightarrow>
     inv_at mw m pt layer ptr \<and> dir_inv (interp_at mw m pt layer ptr b) \<and>
     b \<le> va \<and> va < dir_upper_vaddr (interp_at mw m pt layer ptr b)"

lemma walk_index:
  assumes w: "walk_at mw m pt layer ptr b va"
  shows "dir_index_for_vaddr (interp_at mw m pt layer ptr b) va = va div entry_size x86_arch_spec layer mod 512"
    and "va div entry_size x86_arch_spec layer mod 512 < 512"
proof -
  let ?D = "interp_at mw m pt layer ptr b" and ?es = "entry_size x86_arch_spec layer"
  have inv: "inv_at mw m pt layer ptr" and dinv: "dir_inv ?D" and va: "b \<le> va" "va < dir_upper_vaddr ?D"
    using w by (simp_all add: walk_at_def)
  have l: "layer < 4" by (rule inv_at_layer [OF inv])
  have "dir_well_formed ?D" using dinv by (simp add: dir_inv_iff)
  then have al: "b mod (?es * 512) = 0"
    using l by (simp add: dir_well_formed_def aligned_def interp_at_dir_simps dir_num_entries_def)
  have up: "dir_upper_vaddr ?D = b + 512 * ?es"
    using l by (simp add: dir_upper_vaddr_def pt_defs)
  have "0 < ?es" using dir_es_pos [OF dinv] by (simp add: interp_at_dir_simps)
  from index_div_mod [OF al va(1) va(2) [unfolded up] this]
  show "dir_index_for_vaddr ?D va = va div ?es mod 512"
    by (simp add: interp_at_dir_simps pt_defs)
qed simp

lemma read_entry_at:
  assumes "inv_at mw m pt layer ptr"
  shows "read_entry mw m (unat ptr) layer i =
    pde_view mw \<lparr>pde_entry = region_view m (pt_region pt) ! i, pde_layer = layer\<rparr>"
  using inv_at_region [OF assms] by (simp add: read_entry_def spec_read_def Let_def)

lemma walk_step:
  assumes w: "walk_at mw m pt layer ptr b va"
  obtains
    (empty) "read_entry mw m (unat ptr) layer (va div entry_size x86_arch_spec layer mod 512) = GEmpty"
      "dir_map (interp_at mw m pt layer ptr b) va = None"
  | (page) a p rw us pwt pcd ac di g pat xd where
      "read_entry mw m (unat ptr) layer (va div entry_size x86_arch_spec layer mod 512) =
         GPage a p rw us pwt pcd ac di g pat xd"
      "dir_map (interp_at mw m pt layer ptr b) va =
         (if aligned va (entry_size x86_arch_spec layer)
          then Some \<lparr>pte_frame = \<lparr>mr_base = unat a, mr_size = entry_size x86_arch_spec layer\<rparr>,
                     pte_flags = \<lparr>is_writable = rw, is_supervisor = \<not> us, disable_execute = xd\<rparr>\<rparr>
          else None)"
      "0 < layer"
  | (dir) a p pwt pcd ac d b' where
      "read_entry mw m (unat ptr) layer (va div entry_size x86_arch_spec layer mod 512) =
         GDirectory a p True True pwt pcd ac False"
      "walk_at mw m d (layer + 1) a b' va" "layer < 3"
      "dir_map (interp_at mw m pt layer ptr b) va = dir_map (interp_at mw m d (layer + 1) a b') va"
proof -
  let ?D = "interp_at mw m pt layer ptr b" and ?es = "entry_size x86_arch_spec layer"
  let ?i = "va div ?es mod 512"
  have inv: "inv_at mw m pt layer ptr" and dinv: "dir_inv ?D" and va: "b \<le> va" "va < dir_upper_vaddr ?D"
    using w by (simp_all add: walk_at_def)
  have l: "layer < 4" by (rule inv_at_layer [OF inv])
  note i = walk_index [OF w]
  have n: "?i < dir_num_entries ?D" using dir_length [OF dinv] i(2) by simp
  let ?e = "\<lparr>pde_entry = region_view m (pt_region pt) ! ?i, pde_layer = layer\<rparr>"
  note read = read_entry_at [OF inv, of ?i]
  note node = interp_at_nth [OF l i(2), of mw m pt ptr b]
  have look: "dir_map ?D va = (case d_entries ?D ! ?i of
      NPage p \<Rightarrow> if va = dir_entry_base ?D ?i then Some p else None
    | NDirectory d' \<Rightarrow> dir_map d' va | NEmpty \<Rightarrow> None)"
    using dir_lookup_in_range [OF dinv, of va] va unfolding i(1) by simp
  have ok: "slot_ok mw m layer (region_view m (pt_region pt) ! ?i) (pt_entries pt ! ?i)"
    by (rule inv_at_slot [OF inv i(2)])
  show thesis
  proof (cases "pde_view mw ?e")
    case GEmpty
    then show thesis using empty read look node by (simp add: slot_node_def)
  next
    case (GPage a p rw us pwt pcd ac di g pat xd)
    have "va = dir_entry_base ?D ?i \<longleftrightarrow> aligned va ?es"
      using aligned_at_entry_base [OF dinv, of va] va(1) i(1) by (simp add: interp_at_dir_simps(1))
    moreover have "0 < layer" using pde_page_layer_pos [of mw ?e] GPage l by simp
    ultimately show thesis using page GPage read look node by (simp add: slot_node_def)
  next
    case (GDirectory a p rw us pwt pcd ac xd)
    obtain d where d: "pt_entries pt ! ?i = Some d" "inv_at mw m d (layer + 1) a" "rw" "us" "\<not> xd"
      using ok GDirectory by (auto simp: slot_ok_def Let_def)
    let ?b = "arch_entry_base x86_arch_spec layer b ?i"
    have e: "d_entries ?D ! ?i = NDirectory (interp_at mw m d (layer + 1) a ?b)"
      using node GDirectory d(1) by (simp add: slot_node_def)
    note c = dir_child [OF dinv n e]
    have "walk_at mw m d (layer + 1) a ?b va"
      using d(2) c dir_index_bounds [OF dinv, of va] va(1) i(1)
      by (simp add: walk_at_def interp_at_dir_simps(3))
    moreover have "layer < 3" using inv_at_layer [OF d(2)] by simp
    ultimately show thesis using dir [OF _ _ _ , of a p pwt pcd ac d ?b] GDirectory d(3-5) read look e by simp
  qed
qed

section \<open>The walk, level by level\<close>

definition page_at :: "nat \<Rightarrow> u64 \<Rightarrow> bool \<Rightarrow> bool \<Rightarrow> bool \<Rightarrow> PageTableEntry" where
  "page_at es a rw us xd =
     \<lparr>pte_frame = \<lparr>mr_base = unat a, mr_size = es\<rparr>,
      pte_flags = \<lparr>is_writable = rw, is_supervisor = \<not> us, disable_execute = xd\<rparr>\<rparr>"

lemma walk_layer3:
  assumes "walk_at mw m pt 3 ptr b va"
  shows "dir_map (interp_at mw m pt 3 ptr b) va = Some q \<longleftrightarrow>
    (case read_entry mw m (unat ptr) 3 (va div 4096 mod 512) of
       GPage a _ rw us _ _ _ _ _ _ xd \<Rightarrow> aligned va 4096 \<and> q = page_at 4096 a rw us xd
     | _ \<Rightarrow> False)"
  by (rule walk_step [OF assms]) (auto simp: page_at_def)

text \<open>
  Below the root, the page the walk finds from a table at some layer, with the flags
  \<open>rw0\<close>, \<open>us0\<close> and \<open>xd0\<close> collected so far.
\<close>

lemma walk_layer2:
  assumes w: "walk_at mw m pt 2 ptr b va"
  shows "dir_map (interp_at mw m pt 2 ptr b) va = Some q \<longleftrightarrow>
    (case read_entry mw m (unat ptr) 2 (va div 2097152 mod 512) of
       GPage a _ rw us _ _ _ _ _ _ xd \<Rightarrow> aligned va 2097152 \<and> q = page_at 2097152 a rw us xd
     | GDirectory ptr' _ rw0 us0 _ _ _ xd0 \<Rightarrow>
         (case read_entry mw m (unat ptr') 3 (va div 4096 mod 512) of
            GPage a _ rw us _ _ _ _ _ _ xd \<Rightarrow>
              aligned va 4096 \<and> q = page_at 4096 a (rw0 \<and> rw) (us0 \<and> us) (xd0 \<or> xd)
          | _ \<Rightarrow> False)
     | _ \<Rightarrow> False)"
proof (cases rule: walk_step [OF w])
  case (3 a p pwt pcd ac d b')
  then have "walk_at mw m d 3 a b' va" by simp
  note next_layer = walk_layer3 [OF this, of q]
  show ?thesis using 3 next_layer by (simp cong: GhostPageDirectoryEntry.case_cong)
qed (auto simp: page_at_def)

lemma walk_layer1:
  assumes w: "walk_at mw m pt 1 ptr b va"
  shows "dir_map (interp_at mw m pt 1 ptr b) va = Some q \<longleftrightarrow>
    (case read_entry mw m (unat ptr) 1 (va div 1073741824 mod 512) of
       GPage a _ rw us _ _ _ _ _ _ xd \<Rightarrow> aligned va 1073741824 \<and> q = page_at 1073741824 a rw us xd
     | GDirectory ptr' _ rw0 us0 _ _ _ xd0 \<Rightarrow>
         (case read_entry mw m (unat ptr') 2 (va div 2097152 mod 512) of
            GPage a _ rw us _ _ _ _ _ _ xd \<Rightarrow>
              aligned va 2097152 \<and> q = page_at 2097152 a (rw0 \<and> rw) (us0 \<and> us) (xd0 \<or> xd)
          | GDirectory ptr' _ rw1 us1 _ _ _ xd1 \<Rightarrow>
              (case read_entry mw m (unat ptr') 3 (va div 4096 mod 512) of
                 GPage a _ rw us _ _ _ _ _ _ xd \<Rightarrow>
                   aligned va 4096 \<and>
                   q = page_at 4096 a (rw0 \<and> rw1 \<and> rw) (us0 \<and> us1 \<and> us) (xd0 \<or> xd1 \<or> xd)
               | _ \<Rightarrow> False)
          | _ \<Rightarrow> False)
     | _ \<Rightarrow> False)"
proof (cases rule: walk_step [OF w])
  case (3 a p pwt pcd ac d b')
  then have w2: "walk_at mw m d 2 a b' va" by (simp add: numeral_2_eq_2)
  note next_layer = walk_layer2 [OF w2, of q]
  have "dir_map (interp_at mw m pt 1 ptr b) va = dir_map (interp_at mw m d 2 a b') va"
    using 3(4) by (simp add: numeral_2_eq_2)
  then show ?thesis using 3(1) next_layer by (simp cong: GhostPageDirectoryEntry.case_cong)
qed (auto simp: page_at_def)

theorem page_table_walk_interp:
  assumes inv: "pt_inv mw m pt" and dinv: "dir_inv (pt_interp mw m pt)"
  shows "dir_map (pt_interp mw m pt) = interp_pt_mem mw m"
proof
  fix va
  have "dir_map (pt_interp mw m pt) va = Some q \<longleftrightarrow> interp_pt_mem mw m va = Some q" for q
  proof (cases "va < MAX_BASE")
    case False
    then show ?thesis using dir_lookup_range(2) [OF dinv, of va q] by (auto simp: interp_pt_mem_def)
  next
    case True
    have w0: "walk_at mw m pt 0 (mre_base (cr3 m)) 0 va"
      using inv dinv True pt_interp_bounds(2) [of mw m pt]
      by (simp add: walk_at_def pt_inv_def pt_interp_def)
    note idx = index_bits [of "nat_to_u64 va", unfolded unat_nat_to_u64 [OF True]]
    note walk = valid_pt_walk_def [of mw m "nat_to_u64 va" q, unfolded Let_def idx unat_nat_to_u64 [OF True]]
    have "dir_map (pt_interp mw m pt) va = Some q \<longleftrightarrow> valid_pt_walk mw m (nat_to_u64 va) q"
    proof (cases rule: walk_step [OF w0])
      case (3 a p pwt pcd ac d b')
      then have w1: "walk_at mw m d 1 a b' va" by simp
      note next_layer = walk_layer1 [OF w1, of q]
      then show ?thesis using 3(1,4)
        by (simp add: walk pt_interp_def page_at_def cong: GhostPageDirectoryEntry.case_cong)
    qed (simp_all add: walk pt_interp_def)
    then show ?thesis using True by (simp add: interp_pt_mem_Some_iff)
  qed
  then show "dir_map (pt_interp mw m pt) va = interp_pt_mem mw m va"
    by (metis not_Some_eq)
qed

section \<open>The MMU follows the page table in memory\<close>

interpretation mmu: translated_page_table "pt_sys_inv mw A" "pt_mappings mw" "pt_accepts_map mw"
    "pt_accepts_unmap mw" "\<lambda>s vaddr. unat vaddr < MAX_BASE" "pt_map_op mw A" "pt_unmap_op mw A"
    "\<lambda>s vaddr. map_option resolve_view (resolve mw (fst s) vaddr)" unat pte_view
    "\<lambda>s. interp_pt_mem mw (fst s)" for mw A
  by unfold_locales
    (simp add: pt_mappings_def pt_sys_inv_def pt_ok_def page_table_walk_interp)

end
