(* ===== verification/PT_Example.thy ===== *)
theory PT_Example
  imports PT_Walk_Refine
begin

text \<open>
  A concrete page allocator and a concrete page table, on which the properties of the
  implementation are exercised. The source leaves allocation to the surrounding system; this
  allocator hands out the first free page of a pool of fifteen, zeroed, and is shown to
  satisfy \<open>allocator_contract\<close>, so the contract is satisfiable.
\<close>

section \<open>An allocator over a pool of pages\<close>

definition pool_page :: "nat \<Rightarrow> MemRegion" where
  "pool_page k = \<lparr>mr_base = k * 4096, mr_size = 4096\<rparr>"

definition pool_page_exec :: "nat \<Rightarrow> MemRegionExec" where
  "pool_page_exec k = \<lparr>mre_base = of_nat (k * 4096), mre_size = of_nat 4096\<rparr>"

definition free_pages :: "MemRegion set \<Rightarrow> nat list" where
  "free_pages rs = filter (\<lambda>k. pool_page k \<notin> rs) [1..<17]"

definition pool_valid :: "PageTableMemory \<Rightarrow> bool" where
  "pool_valid m \<longleftrightarrow>
     (\<forall>r\<in>regions m. \<exists>k. r = pool_page k) \<and>
     alloc_available_pages m = length (free_pages (regions m))"

definition zero_page :: "nat \<Rightarrow> (nat \<Rightarrow> u64) \<Rightarrow> nat \<Rightarrow> u64" where
  "zero_page k mem i = (if k * 512 \<le> i \<and> i < k * 512 + 512 then 0 else mem i)"

definition pool_alloc :: "PageTableMemory \<Rightarrow> MemRegionExec \<times> PageTableMemory" where
  "pool_alloc m =
     (case free_pages (regions m) of
        [] \<Rightarrow> (pool_page_exec 0, m)
      | k # ks \<Rightarrow> (pool_page_exec k,
          m\<lparr>phys_mem := zero_page k (phys_mem m), regions := insert (pool_page k) (regions m),
            alloc_available_pages := length ks\<rparr>))"

definition pool_dealloc :: "MemRegionExec \<Rightarrow> PageTableMemory \<Rightarrow> PageTableMemory" where
  "pool_dealloc r m =
     (let rs = regions m - {region_view_exec r}
      in m\<lparr>regions := rs, alloc_available_pages := length (free_pages rs)\<rparr>)"

definition pool_allocator :: page_allocator where
  "pool_allocator = \<lparr>pa_valid = pool_valid, pa_alloc = pool_alloc, pa_dealloc = pool_dealloc\<rparr>"

lemma pool_page_view: "k < 17 \<Longrightarrow> region_view_exec (pool_page_exec k) = pool_page k"
proof -
  assume "k < 17"
  then have "unat (of_nat (k * 4096) :: usize) = k * 4096"
    by (simp only: unsigned_of_nat take_bit_nat_def) simp
  then show ?thesis
    unfolding region_view_exec_def pool_page_exec_def pool_page_def by simp
qed

lemma pool_pages_disjoint: "pool_page i \<noteq> pool_page j \<Longrightarrow> \<not> overlap (pool_page i) (pool_page j)"
  by (cases "i < j") (auto simp: pool_page_def not_overlap_iff)

lemma free_pages_insert:
  assumes "free_pages rs = k # ks"
  shows "pool_page k \<notin> rs" and "k < 17" and "free_pages (insert (pool_page k) rs) = ks"
proof -
  have k: "k \<in> set (free_pages rs)" using assms by simp
  then show "pool_page k \<notin> rs" "k < 17" by (simp_all add: free_pages_def)
  have "free_pages (insert (pool_page k) rs) = filter (\<lambda>j. j \<noteq> k) (free_pages rs)"
    by (simp add: free_pages_def pool_page_def conj_commute)
  moreover have "distinct (k # ks)" unfolding assms [symmetric] by (simp add: free_pages_def)
  then have "filter (\<lambda>j. j \<noteq> k) ks = ks" by (auto simp: filter_id_conv)
  ultimately show "free_pages (insert (pool_page k) rs) = ks" using assms by simp
qed

lemma zero_page_view:
  assumes "m' = m\<lparr>phys_mem := zero_page k (phys_mem m), regions := R, alloc_available_pages := n\<rparr>"
  shows "region_view m' (pool_page k) = new_seq 512 0"
    and "pool_page j \<noteq> pool_page k \<Longrightarrow> region_view m' (pool_page j) = region_view m (pool_page j)"
proof -
  show "region_view m' (pool_page k) = new_seq 512 0"
    by (rule nth_equalityI)
      (simp_all add: nth_region_view new_seq_replicate assms, simp_all add: pool_page_def zero_page_def)
  assume "pool_page j \<noteq> pool_page k"
  then have "j \<noteq> k" by auto
  then show "region_view m' (pool_page j) = region_view m (pool_page j)"
    by (intro nth_equalityI)
      (auto simp: nth_region_view assms, auto simp: pool_page_def zero_page_def)
qed

lemma MAX_PHYADDR_unat:
  assumes "max_phyaddr_width_facts mw"
  shows "unat (MAX_PHYADDR mw) = 2 ^ mw - 1"
proof -
  have "mw < 64" using assms by (simp add: max_phyaddr_width_facts_def)
  moreover from this have "(2::nat) ^ mw < 2 ^ 64" by (intro power_strict_increasing) simp_all
  ultimately have "unat (push_bit mw (1::u64)) = 2 ^ mw"
    by (simp add: unsigned_push_bit_eq take_bit_nat_def push_bit_nat_def del: push_bit_of_1)
  then show ?thesis unfolding MAX_PHYADDR_def
    by (simp add: unat_sub_if' del: push_bit_of_1)
qed

lemma pool_alloc_contract:
  assumes mw: "max_phyaddr_width_facts mw"
  shows "alloc_page_contract mw pool_allocator"
  unfolding alloc_page_contract_def
proof (intro allI impI, elim conjE)
  fix m r m'
  assume v: "pa_valid pool_allocator m" and inv: "mem_inv m" and av: "0 < alloc_available_pages m"
    and al: "pa_alloc pool_allocator m = (r, m')"
  have v': "pool_valid m" using v by (simp add: pool_allocator_def)
  then obtain k ks where ks: "free_pages (regions m) = k # ks"
    using av by (cases "free_pages (regions m)") (auto simp: pool_valid_def)
  note fp = free_pages_insert [OF ks]
  have r: "r = pool_page_exec k" and
    m': "m' = m\<lparr>phys_mem := zero_page k (phys_mem m), regions := insert (pool_page k) (regions m),
            alloc_available_pages := length ks\<rparr>"
    using al ks by (simp_all add: pool_allocator_def pool_alloc_def)
  note view = pool_page_view [OF fp(2)]
  have rs: "\<exists>j. r2 = pool_page j \<and> pool_page j \<noteq> pool_page k" if "r2 \<in> regions m" for r2
    using that v' fp(1) unfolding pool_valid_def by metis
  have base: "unat (mre_base r) = k * 4096" "unat (mre_size r) = 4096"
    using view unfolding r region_view_exec_def pool_page_def by simp_all
  have "(2::nat) ^ 32 \<le> 2 ^ mw"
    using mw by (intro power_increasing) (simp_all add: max_phyaddr_width_facts_def)
  then have "k * 4096 + 4096 \<le> unat (MAX_PHYADDR mw)"
    using fp(2) by (simp add: MAX_PHYADDR_unat [OF mw])
  moreover have "mem_inv m'"
    using inv rs pool_pages_disjoint unfolding mem_inv_def m' cr3_def by (auto simp: overlap_sym)
  moreover have "pool_valid m'"
    using v' fp(3) unfolding pool_valid_def m' by auto
  moreover have "\<forall>r2\<in>regions m. region_view m' r2 = region_view m r2"
    using rs zero_page_view(2) [OF m'] by metis
  ultimately show "alloc_available_pages m' = alloc_available_pages m - 1 \<and>
        unat (mre_size r) = PAGE_SIZE \<and>
        unat (mre_base r) + PAGE_SIZE \<le> unat (MAX_PHYADDR mw) \<and>
        aligned (unat (mre_base r)) PAGE_SIZE \<and>
        region_view_exec r \<notin> regions m \<and>
        regions m' = insert (region_view_exec r) (regions m) \<and>
        region_view m' (region_view_exec r) = new_seq 512 0 \<and>
        (\<forall>r2\<in>regions m. region_view m' r2 = region_view m r2) \<and>
        cr3 m' = cr3 m \<and> phys_mem_ref m' = phys_mem_ref m \<and> mem_inv m' \<and> pa_valid pool_allocator m'"
    using v' ks fp(1) base view zero_page_view(1) [OF m']
    by (simp add: r pool_valid_def aligned_def pool_allocator_def m' cr3_def)
qed

lemma pool_allocator_contract:
  assumes "max_phyaddr_width_facts mw"
  shows "allocator_contract mw pool_allocator"
proof -
  have "dealloc_page_contract pool_allocator"
    unfolding dealloc_page_contract_def pool_allocator_def pool_dealloc_def pool_valid_def mem_inv_def
    by (auto simp: Let_def cr3_def region_view_def)
  then show ?thesis
    using pool_alloc_contract [OF assms]
    by (auto simp: allocator_contract_def pool_allocator_def pool_valid_def)
qed

section \<open>A concrete page table\<close>

definition ex_mem :: PageTableMemory where
  "ex_mem = \<lparr>phys_mem = (\<lambda>_. 0), phys_mem_ref = 0, cr3_reg = 0x1000,
             regions = {pool_page 1}, alloc_available_pages = 15\<rparr>"

definition ex_table :: "PageTableMemory \<times> PTDir" where
  "ex_table = (ex_mem, empty_table ex_mem)"

definition ex_page :: PageTableEntryExec where
  "ex_page = \<lparr>ptee_frame = \<lparr>mre_base = 0x200000, mre_size = 4096\<rparr>, ptee_flags = permissive_flags\<rparr>"

lemma ex_width: "max_phyaddr_width_facts 52"
  by (simp add: max_phyaddr_width_facts_def)

lemma ex_page_view: "pte_view ex_page = \<lparr>pte_frame = \<lparr>mr_base = 0x200000, mr_size = 4096\<rparr>, pte_flags = permissive_flags\<rparr>"
  by (simp add: pte_view_def ex_page_def region_view_exec_def)

lemma ex_cr3: "region_view_exec (cr3 ex_mem) = pool_page 1"
  by (simp add: region_view_exec_def cr3_def ex_mem_def pool_page_def)

lemma ex_mem_ok: "mem_inv ex_mem" "pool_valid ex_mem"
    "region_view ex_mem (pool_page 1) = new_seq 512 0"
proof -
  show "mem_inv ex_mem" by (simp add: mem_inv_def ex_mem_def cr3_def aligned_def)
  have "free_pages {pool_page 1} = [2..<17]"
    by (simp add: free_pages_def pool_page_def upt_rec)
  then show "pool_valid ex_mem" by (auto simp: pool_valid_def ex_mem_def)
  show "region_view ex_mem (pool_page 1) = new_seq 512 0"
    by (rule nth_equalityI)
      (simp_all add: nth_region_view new_seq_replicate, simp_all add: pool_page_def ex_mem_def)
qed

lemma ex_table_inv: "pt_sys_inv 52 pool_allocator ex_table"
  and ex_table_empty: "pt_mappings 52 ex_table = Map.empty"
proof -
  have "region_view_exec (cr3 ex_mem) \<in> regions ex_mem" by (simp add: ex_cr3) (simp add: ex_mem_def)
  note e = empty_table_ok [OF ex_mem_ok(1) this, unfolded ex_cr3, OF ex_mem_ok(3)]
  have "pa_valid pool_allocator ex_mem" using ex_mem_ok(2) by (simp add: pool_allocator_def)
  then show "pt_sys_inv 52 pool_allocator ex_table"
    using e(1) by (simp add: pt_sys_inv_def ex_width pool_allocator_contract ex_table_def)
  show "pt_mappings 52 ex_table = Map.empty"
    using e(2) \<open>pa_valid pool_allocator ex_mem\<close> by (simp add: pt_mappings_def ex_table_def)
qed

section \<open>Which arguments the operations accept\<close>

lemma pt_accepts_map_page:
  assumes "3 \<le> alloc_available_pages (fst s)" and "unat vaddr + 4096 \<le> MAX_BASE"
    and "unat vaddr mod 4096 = 0"
  shows "pt_accepts_map 52 s vaddr ex_page"
proof -
  have "contains_entry_size_at_index_atleast x86_arch_spec 4096 i" if "i \<le> 3" for i
    unfolding contains_entry_size_at_index_atleast_def
    by (rule exI [of _ 3]) (use that in simp)
  then show ?thesis
    using assms
    by (simp add: pt_accepts_map_def accepted_mapping_def dir_accepted_mapping_def ex_page_view
        aligned_def dir_candidate_mapping_in_bounds_def MAX_PHYADDR_unat [OF ex_width])
qed

lemma pt_accepts_unmap_page:
  assumes "pt_sys_inv mw A s" and "unat vaddr < MAX_BASE" and "unat vaddr mod 4096 = 0"
  shows "pt_accepts_unmap mw s vaddr"
proof -
  have "\<exists>i<4. unat vaddr mod entry_size x86_arch_spec i = 0"
    by (rule exI [of _ 3]) (use assms(3) in simp)
  then show ?thesis
    using assms(2) pt_sys_invD(4) [OF assms(1)]
    by (simp add: pt_accepts_unmap_def dir_accepted_unmap_def pc_accepted_unmap_def between_def aligned_def)
qed

lemma ex_map_accepted: "pt_accepts_map 52 ex_table 0x5000 ex_page"
  by (rule pt_accepts_map_page) (simp_all add: ex_table_def ex_mem_def)

text \<open>After the first map the table holds exactly the new page.\<close>

lemma ex_mapped:
  obtains s' where "pt_map_op 52 pool_allocator ex_table 0x5000 ex_page = Some (s', Ok ())"
    and "pt_sys_inv 52 pool_allocator s'" and "pt_mappings 52 s' = [0x5000 \<mapsto> pte_view ex_page]"
  using pt_map_spec [OF ex_table_inv ex_map_accepted]
  by (auto simp: ex_table_empty candidate_mapping_overlaps_existing_vmem_def)

end
