(* ===== verification/PT_Spec.thy ===== *)
theory PT_Spec
  imports PT_Walk
begin

text \<open>
  The page table as a state machine, \<^verbatim>\<open>page-table/impl_u/spec_pt.rs\<close>: the steps by
  which an operation of the page table changes the memory seen through the MMU. Mapping an
  entry is one view-changing write (\<open>spt_step_Map_End\<close>), unmapping likewise
  (\<open>spt_step_Unmap_Start\<close>); everything else leaves the view unchanged.
\<close>

record PageTableVariables =
  pt_mem :: PageTableMemory

datatype PageTableStep =
    PTMapStart nat PageTableEntry
  | PTMapEnd nat PageTableEntry "(unit, unit) rust_result"
  | PTUnmapStart nat "(unit, unit) rust_result"
  | PTUnmapEnd
  | PTViewStutter
  | PTStutter

definition spt_interp :: "nat \<Rightarrow> PageTableVariables \<Rightarrow> nat \<rightharpoonup> PageTableEntry" where
  "spt_interp mw s = interp_pt_mem mw (pt_mem s)"

definition spt_step_Map_Start ::
    "PageTableVariables \<Rightarrow> PageTableVariables \<Rightarrow> nat \<Rightarrow> PageTableEntry \<Rightarrow> bool" where
  "spt_step_Map_Start s1 s2 vaddr pte \<longleftrightarrow> s2 = s1"

definition spt_step_Map_End ::
    "nat \<Rightarrow> PageTableVariables \<Rightarrow> PageTableVariables \<Rightarrow> nat \<Rightarrow> PageTableEntry \<Rightarrow>
     (unit, unit) rust_result \<Rightarrow> bool" where
  "spt_step_Map_End mw s1 s2 vaddr pte result \<longleftrightarrow>
     (if candidate_mapping_overlaps_existing_vmem (spt_interp mw s1) vaddr pte
      then is_Err result \<and> spt_interp mw s2 = spt_interp mw s1
      else is_Ok result \<and> spt_interp mw s2 = (spt_interp mw s1)(vaddr \<mapsto> pte))"

definition spt_step_Unmap_Start ::
    "nat \<Rightarrow> PageTableVariables \<Rightarrow> PageTableVariables \<Rightarrow> nat \<Rightarrow> (unit, unit) rust_result \<Rightarrow> bool" where
  "spt_step_Unmap_Start mw s1 s2 vaddr result \<longleftrightarrow>
     (if vaddr \<in> dom (spt_interp mw s1)
      then is_Ok result \<and> spt_interp mw s2 = (spt_interp mw s1)(vaddr := None)
      else is_Err result \<and> spt_interp mw s2 = spt_interp mw s1)"

definition spt_step_Unmap_End :: "PageTableVariables \<Rightarrow> PageTableVariables \<Rightarrow> bool" where
  "spt_step_Unmap_End s1 s2 \<longleftrightarrow> s2 = s1"

definition spt_step_Stutter :: "PageTableVariables \<Rightarrow> PageTableVariables \<Rightarrow> bool" where
  "spt_step_Stutter s1 s2 \<longleftrightarrow> s1 = s2"

definition spt_step_View_Stutter :: "nat \<Rightarrow> PageTableVariables \<Rightarrow> PageTableVariables \<Rightarrow> bool" where
  "spt_step_View_Stutter mw s1 s2 \<longleftrightarrow> spt_interp mw s2 = spt_interp mw s1"

definition spt_init :: "PageTableVariables \<Rightarrow> bool" where
  "spt_init s \<longleftrightarrow>
     mem_inv (pt_mem s) \<and>
     regions (pt_mem s) = {region_view_exec (cr3 (pt_mem s))} \<and>
     length (region_view (pt_mem s) (region_view_exec (cr3 (pt_mem s)))) = 512 \<and>
     (\<forall>i<512. region_view (pt_mem s) (region_view_exec (cr3 (pt_mem s))) ! i = 0)"

fun spt_next_step ::
    "nat \<Rightarrow> PageTableVariables \<Rightarrow> PageTableVariables \<Rightarrow> PageTableStep \<Rightarrow> bool" where
  "spt_next_step mw s1 s2 (PTMapStart vaddr pte) = spt_step_Map_Start s1 s2 vaddr pte"
| "spt_next_step mw s1 s2 (PTMapEnd vaddr pte result) = spt_step_Map_End mw s1 s2 vaddr pte result"
| "spt_next_step mw s1 s2 (PTUnmapStart vaddr result) = spt_step_Unmap_Start mw s1 s2 vaddr result"
| "spt_next_step mw s1 s2 PTUnmapEnd = spt_step_Unmap_End s1 s2"
| "spt_next_step mw s1 s2 PTViewStutter = spt_step_View_Stutter mw s1 s2"
| "spt_next_step mw s1 s2 PTStutter = spt_step_Stutter s1 s2"

definition spt_next :: "nat \<Rightarrow> PageTableVariables \<Rightarrow> PageTableVariables \<Rightarrow> bool" where
  "spt_next mw s1 s2 \<longleftrightarrow> (\<exists>step. spt_next_step mw s1 s2 step)"

end
