(* ===== verification/PT_Properties.thy ===== *)
theory PT_Properties
  imports PT_Example PT_Spec
begin

text \<open>
  The properties of the page table: what \<open>map_frame\<close>, \<open>unmap\<close> and \<open>resolve\<close> do to the
  translation the MMU computes from memory, that they never panic and touch no foreign
  memory, the round trips between them, and the refinement of the directory tree to the flat
  table. Each property with hypotheses is exercised on the table of \<open>PT_Example\<close>.
\<close>

section \<open>The operations, as the MMU sees them\<close>

lemma pt_ok_sys: "max_phyaddr_width_facts mw \<Longrightarrow> allocator_contract mw A \<Longrightarrow> pt_ok mw A m pt \<Longrightarrow> pt_sys_inv mw A (m, pt)"
  by (simp add: pt_sys_inv_def)

lemma pt_ok_walk: "pt_ok mw A m pt \<Longrightarrow> dir_map (pt_interp mw m pt) = interp_pt_mem mw m"
  by (simp add: pt_ok_def page_table_walk_interp)

lemma ex_table_ok: "allocator_contract 52 pool_allocator" "pt_ok 52 pool_allocator ex_mem (empty_table ex_mem)"
    "interp_pt_mem 52 ex_mem = Map.empty" "3 \<le> alloc_available_pages ex_mem"
proof -
  show "allocator_contract 52 pool_allocator" by (rule pool_allocator_contract [OF ex_width])
  show ok: "pt_ok 52 pool_allocator ex_mem (empty_table ex_mem)"
    using ex_table_inv by (simp add: pt_sys_inv_def ex_table_def)
  show "interp_pt_mem 52 ex_mem = Map.empty"
    using ex_table_empty pt_ok_walk [OF ok] by (simp add: pt_mappings_def ex_table_def)
  show "3 \<le> alloc_available_pages ex_mem" by (simp add: ex_mem_def)
qed

lemma ex_mapped_frame:
  obtains m pt where "map_frame 52 pool_allocator ex_mem (empty_table ex_mem) 0x5000 ex_page = Some (m, pt, Ok ())"
    and "pt_ok 52 pool_allocator m pt" and "interp_pt_mem 52 m = [0x5000 \<mapsto> pte_view ex_page]"
proof -
  obtain s' where s': "pt_map_op 52 pool_allocator ex_table 0x5000 ex_page = Some (s', Ok ())"
      "pt_sys_inv 52 pool_allocator s'" "pt_mappings 52 s' = [0x5000 \<mapsto> pte_view ex_page]"
    by (rule ex_mapped)
  have ok: "pt_ok 52 pool_allocator (fst s') (snd s')" using s'(2) by (simp add: pt_sys_inv_def)
  have "map_frame 52 pool_allocator ex_mem (empty_table ex_mem) 0x5000 ex_page = Some (fst s', snd s', Ok ())"
    using s'(1) by (auto simp: pt_map_op_def ex_table_def)
  then show ?thesis using that ok s'(3) pt_ok_walk [OF ok] by (simp add: pt_mappings_def)
qed

text \<open>
  C1. From any state that satisfies the invariant, \<open>map_frame\<close> returns without a panic. If
  the requested range overlaps an existing mapping it reports an error and changes nothing;
  otherwise it succeeds and the translation the MMU computes from the new memory is the old
  one with the new entry added. The invariant is kept, the table's frames only grow, no other
  region of memory changes, and at most three pages are allocated.
\<close>

theorem map_frame_updates_translation:
  assumes "max_phyaddr_width_facts mw" and "allocator_contract mw A" and ok: "pt_ok mw A m pt"
    and "3 \<le> alloc_available_pages m" and "unat vaddr < MAX_BASE"
    and "accepted_mapping mw (unat vaddr) (pte_view pte)"
    and acc: "dir_accepted_mapping (pt_interp mw m pt) (unat vaddr) (pte_view pte)"
  shows "\<exists>m' pt' res. map_frame mw A m pt vaddr pte = Some (m', pt', res) \<and> pt_ok mw A m' pt' \<and>
    pt_used_regions pt \<subseteq> pt_used_regions pt' \<and> unchanged m m' (regions m - pt_used_regions pt) \<and>
    alloc_available_pages m \<le> alloc_available_pages m' + 3 \<and>
    (if candidate_mapping_overlaps_existing_vmem (interp_pt_mem mw m) (unat vaddr) (pte_view pte)
     then res = Err () \<and> m' = m \<and> pt' = pt
     else res = Ok () \<and> interp_pt_mem mw m' = (interp_pt_mem mw m)(unat vaddr \<mapsto> pte_view pte))"
proof -
  obtain m' pt' res where r: "map_frame mw A m pt vaddr pte = Some (m', pt', res)" "pt_ok mw A m' pt'"
      "pt_used_regions pt \<subseteq> pt_used_regions pt'" "unchanged m m' (regions m - pt_used_regions pt)"
      "alloc_available_pages m \<le> alloc_available_pages m' + 3"
      "case res of
         Ok _ \<Rightarrow> dir_map_frame (pt_interp mw m pt) (unat vaddr) (pte_view pte) = Ok (pt_interp mw m' pt')
       | Err _ \<Rightarrow> m' = m \<and> pt' = pt \<and>
           dir_map_frame (pt_interp mw m pt) (unat vaddr) (pte_view pte) = Err (pt_interp mw m pt)"
    using map_frame_correct [OF assms] by blast
  then show ?thesis
    using dir_map_frame_spec [OF pt_okD(3) [OF ok] acc] pt_ok_walk [OF ok] pt_ok_walk [OF r(2)]
    by (cases res) (auto split: if_splits)
qed

theorem map_frame_updates_translation_witness:
  "\<exists>m' pt'. map_frame 52 pool_allocator ex_mem (empty_table ex_mem) 0x5000 ex_page = Some (m', pt', Ok ()) \<and>
     pt_ok 52 pool_allocator m' pt' \<and> interp_pt_mem 52 m' = [0x5000 \<mapsto> pte_view ex_page]"
  using map_frame_updates_translation [OF ex_width ex_table_ok(1,2,4), of "0x5000" ex_page] ex_map_accepted
  by (auto simp: pt_accepts_map_def ex_table_def ex_table_ok(3) candidate_mapping_overlaps_existing_vmem_def)

text \<open>
  C2. From any state that satisfies the invariant, \<open>unmap\<close> returns without a panic. If a
  mapping starts at the address it is removed from the translation the MMU computes, and
  nothing else changes in it; otherwise it reports an error and changes nothing. The
  invariant is kept, emptied directories are given back, and no foreign region changes.
\<close>

theorem unmap_updates_translation:
  assumes "max_phyaddr_width_facts mw" and "allocator_contract mw A" and ok: "pt_ok mw A m pt"
    and "unat vaddr < MAX_BASE" and acc: "dir_accepted_unmap (pt_interp mw m pt) (unat vaddr)"
  shows "\<exists>m' pt' res. unmap mw A m pt vaddr = Some (m', pt', res) \<and> pt_ok mw A m' pt' \<and>
    pt_used_regions pt' \<subseteq> pt_used_regions pt \<and> unchanged m m' (regions m - pt_used_regions pt) \<and>
    (if unat vaddr \<in> dom (interp_pt_mem mw m)
     then res = Ok () \<and> interp_pt_mem mw m' = (interp_pt_mem mw m)(unat vaddr := None)
     else res = Err () \<and> m' = m \<and> pt' = pt)"
proof -
  obtain m' pt' res where r: "unmap mw A m pt vaddr = Some (m', pt', res)" "pt_ok mw A m' pt'"
      "pt_used_regions pt' \<subseteq> pt_used_regions pt" "unchanged m m' (regions m - pt_used_regions pt)"
      "case res of
         Ok _ \<Rightarrow> dir_unmap (pt_interp mw m pt) (unat vaddr) = Ok (pt_interp mw m' pt')
       | Err _ \<Rightarrow> m' = m \<and> pt' = pt \<and> dir_unmap (pt_interp mw m pt) (unat vaddr) = Err (pt_interp mw m pt)"
    using unmap_correct [OF assms] by blast
  then show ?thesis
    using dir_unmap_spec [OF pt_okD(3) [OF ok] acc] pt_ok_walk [OF ok] pt_ok_walk [OF r(2)]
    by (cases res) (auto split: if_splits)
qed

theorem unmap_updates_translation_witness:
  "\<exists>m1 pt1 m2 pt2. map_frame 52 pool_allocator ex_mem (empty_table ex_mem) 0x5000 ex_page = Some (m1, pt1, Ok ()) \<and>
     unmap 52 pool_allocator m1 pt1 0x5000 = Some (m2, pt2, Ok ()) \<and> interp_pt_mem 52 m2 = Map.empty"
proof -
  obtain m pt where m: "map_frame 52 pool_allocator ex_mem (empty_table ex_mem) 0x5000 ex_page = Some (m, pt, Ok ())"
      "pt_ok 52 pool_allocator m pt" "interp_pt_mem 52 m = [0x5000 \<mapsto> pte_view ex_page]"
    by (rule ex_mapped_frame)
  have a: "dir_accepted_unmap (pt_interp 52 m pt) (unat (0x5000::usize))"
    using pt_accepts_unmap_page [OF pt_ok_sys [OF ex_width ex_table_ok(1) m(2)], of "0x5000"]
    by (simp add: pt_accepts_unmap_def)
  show ?thesis
    using unmap_updates_translation [OF ex_width ex_table_ok(1) m(2) _ a] m(1,3) by auto
qed

text \<open>
  C3. \<open>resolve\<close> returns without a panic for every address below the table's upper bound, and
  its result is what the MMU's translation says: the base and entry of the mapping that
  covers the address, or an error if no mapping covers it.
\<close>

theorem resolve_agrees_with_translation:
  assumes "max_phyaddr_width_facts mw" and "allocator_contract mw A" and ok: "pt_ok mw A m pt"
    and "unat vaddr < MAX_BASE"
  shows "\<exists>res. resolve mw m vaddr = Some res \<and>
    (case resolve_view res of
       Ok (b, q) \<Rightarrow> interp_pt_mem mw m b = Some q \<and> between (unat vaddr) b (b + frame_size q)
     | Err _ \<Rightarrow> \<not> covered (interp_pt_mem mw m) (unat vaddr))"
proof -
  have s: "pt_sys_inv mw A (m, pt)" using assms by (simp add: pt_sys_inv_def)
  have "pt_mappings mw (m, pt) = interp_pt_mem mw m" using pt_ok_walk [OF ok] by (simp add: pt_mappings_def)
  with l2.resolve_law [OF s, of vaddr] show ?thesis
    using assms(4) by (fastforce split: rust_result.splits)
qed

theorem resolve_agrees_with_translation_witness:
  "\<exists>m pt res. map_frame 52 pool_allocator ex_mem (empty_table ex_mem) 0x5000 ex_page = Some (m, pt, Ok ()) \<and>
     resolve 52 m 0x5008 = Some res \<and> resolve_view res = Ok (0x5000, pte_view ex_page)"
proof -
  obtain m pt where m: "map_frame 52 pool_allocator ex_mem (empty_table ex_mem) 0x5000 ex_page = Some (m, pt, Ok ())"
      "pt_ok 52 pool_allocator m pt" "interp_pt_mem 52 m = [0x5000 \<mapsto> pte_view ex_page]"
    by (rule ex_mapped_frame)
  obtain res where res: "resolve 52 m 0x5008 = Some res" and
    r: "case resolve_view res of
          Ok (b, q) \<Rightarrow> interp_pt_mem 52 m b = Some q \<and> between (unat (0x5008::usize)) b (b + frame_size q)
        | Err _ \<Rightarrow> \<not> covered (interp_pt_mem 52 m) (unat (0x5008::usize))"
    using resolve_agrees_with_translation [OF ex_width ex_table_ok(1) m(2), of "0x5008"] by auto
  have "covered [0x5000 \<mapsto> pte_view ex_page] 0x5008"
    unfolding covered_def by (rule exI [of _ "0x5000"]) (simp add: between_def ex_page_view)
  then have "resolve_view res = Ok (0x5000, pte_view ex_page)"
    using r by (cases "resolve_view res") (auto simp: m(3) split: if_splits)
  then show ?thesis using m(1) res by blast
qed

text \<open>
  C4. The MMU's four-level walk of memory, bit by bit, finds exactly the mappings of the
  directory tree the table's memory is interpreted as.
\<close>

theorem mmu_walk_finds_tree:
  assumes "pt_inv mw m pt" and "dir_inv (pt_interp mw m pt)"
  shows "interp_pt_mem mw m = dir_map (pt_interp mw m pt)"
  using page_table_walk_interp [OF assms] by simp

theorem mmu_walk_finds_tree_witness:
  "\<exists>m pt. map_frame 52 pool_allocator ex_mem (empty_table ex_mem) 0x5000 ex_page = Some (m, pt, Ok ()) \<and>
     interp_pt_mem 52 m = dir_map (pt_interp 52 m pt) \<and> interp_pt_mem 52 m 0x5000 = Some (pte_view ex_page)"
proof -
  obtain m pt where m: "map_frame 52 pool_allocator ex_mem (empty_table ex_mem) 0x5000 ex_page = Some (m, pt, Ok ())"
      "pt_ok 52 pool_allocator m pt" "interp_pt_mem 52 m = [0x5000 \<mapsto> pte_view ex_page]"
    by (rule ex_mapped_frame)
  then have "pt_inv 52 m pt" "dir_inv (pt_interp 52 m pt)" by (simp_all add: pt_ok_def)
  from mmu_walk_finds_tree [OF this] have "interp_pt_mem 52 m = dir_map (pt_interp 52 m pt)" .
  moreover have "interp_pt_mem 52 m 0x5000 = Some (pte_view ex_page)" using m(3) by simp
  ultimately show ?thesis using m(1) by blast
qed

section \<open>Round trips\<close>

text \<open>
  C32. Unmapping an address right after mapping it succeeds and gives back the translation
  from before, including for the MMU.
\<close>

theorem unmap_undoes_map:
  assumes inv: "pt_sys_inv mw A s" and "pt_accepts_map mw s vaddr pte"
    and "pt_map_op mw A s vaddr pte = Some (s1, Ok ())" and "pt_accepts_unmap mw s1 vaddr"
  shows "\<exists>s2. pt_unmap_op mw A s1 vaddr = Some (s2, Ok ()) \<and> pt_sys_inv mw A s2 \<and>
    interp_pt_mem mw (fst s2) = interp_pt_mem mw (fst s)"
  using l2.unmap_after_map [OF assms] mmu.walk_law inv by metis

theorem unmap_undoes_map_witness:
  "\<exists>s1 s2. pt_map_op 52 pool_allocator ex_table 0x5000 ex_page = Some (s1, Ok ()) \<and>
     pt_unmap_op 52 pool_allocator s1 0x5000 = Some (s2, Ok ()) \<and>
     interp_pt_mem 52 (fst s2) = interp_pt_mem 52 ex_mem"
proof -
  obtain s1 where s1: "pt_map_op 52 pool_allocator ex_table 0x5000 ex_page = Some (s1, Ok ())"
      "pt_sys_inv 52 pool_allocator s1" by (rule ex_mapped)
  have "pt_accepts_unmap 52 s1 0x5000" by (rule pt_accepts_unmap_page [OF s1(2)]) simp_all
  from unmap_undoes_map [OF ex_table_inv ex_map_accepted s1(1) this] show ?thesis
    using s1(1) by (auto simp: ex_table_def)
qed

text \<open>
  Mapping one page does not disturb another: an address that resolved before a
  successful \<open>map_frame\<close> resolves to the same entry afterwards.
\<close>

theorem map_preserves_resolve:
  assumes "pt_sys_inv mw A s" and "pt_accepts_map mw s vaddr pte"
    and "pt_map_op mw A s vaddr pte = Some (s', Ok ())" and "unat w < MAX_BASE"
    and "map_option resolve_view (resolve mw (fst s) w) = Some (Ok (b, q))"
  shows "map_option resolve_view (resolve mw (fst s') w) = Some (Ok (b, q))"
  using l2.resolve_preserved_by_map [OF assms(1-3,4,4,5)] .

text \<open>The table after one map accepts a second one at another address.\<close>

lemma ex_mapped_twice:
  obtains s1 s2 where "pt_map_op 52 pool_allocator ex_table 0x5000 ex_page = Some (s1, Ok ())"
    and "pt_sys_inv 52 pool_allocator s1" and "pt_mappings 52 s1 = [0x5000 \<mapsto> pte_view ex_page]"
    and "pt_accepts_map 52 s1 0x6000 ex_page"
    and "pt_map_op 52 pool_allocator s1 0x6000 ex_page = Some (s2, Ok ())"
proof -
  obtain s1 where s1: "pt_map_op 52 pool_allocator ex_table 0x5000 ex_page = Some (s1, Ok ())"
      "pt_sys_inv 52 pool_allocator s1" "pt_mappings 52 s1 = [0x5000 \<mapsto> pte_view ex_page]"
    by (rule ex_mapped)
  have "alloc_available_pages ex_mem \<le> alloc_available_pages (fst s1) + 3"
    using map_frame_correct [OF ex_width ex_table_ok(1,2,4), of "0x5000" ex_page] ex_map_accepted s1(1)
    by (auto simp: pt_accepts_map_def pt_map_op_def ex_table_def)
  then have acc: "pt_accepts_map 52 s1 0x6000 ex_page"
    by (intro pt_accepts_map_page) (simp_all add: ex_mem_def)
  have "\<not> candidate_mapping_overlaps_existing_vmem (pt_mappings 52 s1) 0x6000 (pte_view ex_page)"
    unfolding s1(3) candidate_mapping_overlaps_existing_vmem_def
    by (simp add: ex_page_view not_overlap_iff)
  then obtain s2 where "pt_map_op 52 pool_allocator s1 0x6000 ex_page = Some (s2, Ok ())"
    using pt_map_spec [OF s1(2) acc] by (auto split: if_splits)
  then show ?thesis using that s1 acc by blast
qed

theorem map_preserves_resolve_witness:
  "\<exists>s1 s2. pt_map_op 52 pool_allocator ex_table 0x5000 ex_page = Some (s1, Ok ()) \<and>
     pt_map_op 52 pool_allocator s1 0x6000 ex_page = Some (s2, Ok ()) \<and>
     map_option resolve_view (resolve 52 (fst s2) 0x5008) = Some (Ok (0x5000, pte_view ex_page))"
proof -
  obtain s1 s2 where s: "pt_map_op 52 pool_allocator ex_table 0x5000 ex_page = Some (s1, Ok ())"
    "pt_sys_inv 52 pool_allocator s1" "pt_mappings 52 s1 = [0x5000 \<mapsto> pte_view ex_page]"
    "pt_accepts_map 52 s1 0x6000 ex_page"
    "pt_map_op 52 pool_allocator s1 0x6000 ex_page = Some (s2, Ok ())"
    by (rule ex_mapped_twice)
  have "map_option resolve_view (resolve 52 (fst s1) 0x5008) = Some (Ok (0x5000, pte_view ex_page))"
    using l2.resolve_mapped [OF s(2), of "0x5008" "0x5000" "pte_view ex_page"] s(3)
    by (simp add: between_def ex_page_view)
  then have "map_option resolve_view (resolve 52 (fst s2) 0x5008) = Some (Ok (0x5000, pte_view ex_page))"
    by (intro map_preserves_resolve [OF s(2,4,5)]) simp_all
  then show ?thesis using s(1,5) by blast
qed

text \<open>
  After a successful \<open>unmap\<close>, no address of the removed range resolves any more.
\<close>

theorem unmapped_range_does_not_resolve:
  assumes inv: "pt_sys_inv mw A s" and "pt_accepts_unmap mw s vaddr"
    and "pt_unmap_op mw A s vaddr = Some (s', Ok ())"
    and q: "interp_pt_mem mw (fst s) (unat vaddr) = Some q"
    and "between (unat w) (unat vaddr) (unat vaddr + frame_size q)" and "unat w < MAX_BASE"
  shows "resolve mw (fst s') w = Some (Err ())"
proof -
  have "pt_mappings mw s (unat vaddr) = Some q" using mmu.walk_law [OF inv] q by simp
  from l2.resolve_after_unmap [OF assms(1-3) this assms(5,6)] obtain r where
    "resolve mw (fst s') w = Some r" "resolve_view r = Err ()" by auto
  then show ?thesis by (cases r) (simp_all add: resolve_view_def)
qed

theorem unmapped_range_does_not_resolve_witness:
  "\<exists>s1 s2. pt_map_op 52 pool_allocator ex_table 0x5000 ex_page = Some (s1, Ok ()) \<and>
     pt_unmap_op 52 pool_allocator s1 0x5000 = Some (s2, Ok ()) \<and>
     resolve 52 (fst s2) 0x5ff8 = Some (Err ())"
proof -
  obtain s1 where s: "pt_map_op 52 pool_allocator ex_table 0x5000 ex_page = Some (s1, Ok ())"
    "pt_sys_inv 52 pool_allocator s1" "pt_mappings 52 s1 = [0x5000 \<mapsto> pte_view ex_page]"
    by (rule ex_mapped)
  have acc: "pt_accepts_unmap 52 s1 0x5000" by (rule pt_accepts_unmap_page [OF s(2)]) simp_all
  obtain s2 where s2: "pt_unmap_op 52 pool_allocator s1 0x5000 = Some (s2, Ok ())"
    using pt_unmap_spec [OF s(2) acc] s(3) by auto
  have "interp_pt_mem 52 (fst s1) (unat (0x5000::usize)) = Some (pte_view ex_page)"
    using mmu.walk_law [OF s(2)] s(3) by simp
  from unmapped_range_does_not_resolve [OF s(2) acc s2 this, of "0x5ff8"]
  have "resolve 52 (fst s2) 0x5ff8 = Some (Err ())" by (simp add: between_def ex_page_view)
  then show ?thesis using s(1) s2 by blast
qed

section \<open>The directory tree and the flat table\<close>

abbreviation ex_tree :: Directory where
  "ex_tree \<equiv> pt_interp 52 ex_mem (empty_table ex_mem)"

lemma ex_tree_ok: "dir_inv ex_tree" "dir_map ex_tree = Map.empty"
    "dir_accepted_mapping ex_tree 0x5000 (pte_view ex_page)"
proof -
  show "dir_inv ex_tree" using ex_table_ok(2) by (simp add: pt_ok_def)
  show "dir_map ex_tree = Map.empty" using pt_ok_walk [OF ex_table_ok(2)] ex_table_ok(3) by simp
  show "dir_accepted_mapping ex_tree 0x5000 (pte_view ex_page)"
    using ex_map_accepted by (simp add: pt_accepts_map_def ex_table_def)
qed

text \<open>
  C35. The contents of a directory tree that satisfies the invariant form a well-formed flat
  table: finitely many mappings, of sizes the architecture has, aligned, inside the bounds
  of the tree and not overlapping.
\<close>

theorem tree_contents_well_formed:
  assumes "dir_inv d"
  shows "pc_inv (dir_interp d) \<and> pc_lower (dir_interp d) = d_base_vaddr d \<and>
    pc_upper (dir_interp d) = dir_upper_vaddr d"
  using dir_interp_inv [OF assms] assms by simp_all

theorem tree_contents_well_formed_witness:
  "pc_inv (dir_interp ex_tree) \<and> pc_upper (dir_interp ex_tree) = MAX_BASE"
  using tree_contents_well_formed [OF ex_tree_ok(1)] by simp

text \<open>
  C36. Mapping on the directory tree refines mapping on the flat table: \<open>dir_map_frame\<close>
  succeeds and fails exactly when \<open>pc_map_frame\<close> does on the interpretation, and the results
  correspond.
\<close>

theorem tree_map_refines_flat:
  assumes "dir_inv d" and "dir_accepted_mapping d va pte"
  shows "result_map (dir_map_frame d va pte) dir_interp = pc_map_frame (dir_interp d) va pte"
  using assms by (rule dir_map_frame_refines)

theorem tree_map_refines_flat_witness:
  "result_map (dir_map_frame ex_tree 0x5000 (pte_view ex_page)) dir_interp =
     Ok ((dir_interp ex_tree)\<lparr>pc_map := [0x5000 \<mapsto> pte_view ex_page]\<rparr>)"
  using tree_map_refines_flat [OF ex_tree_ok(1,3)] dir_accepted_mapping_interp [OF ex_tree_ok(1,3)]
  by (simp add: pc_map_frame_def ex_tree_ok(2) pc_valid_mapping_def)

text \<open>
  C37. Unmapping on the directory tree refines unmapping on the flat table, including the
  removal of directories that become empty.
\<close>

theorem tree_unmap_refines_flat:
  assumes "dir_inv d" and "dir_accepted_unmap d va"
  shows "result_map (dir_unmap d va) dir_interp = pc_unmap (dir_interp d) va \<and>
    (case dir_unmap d va of Ok d' \<Rightarrow> dir_inv d' | Err d' \<Rightarrow> d' = d)"
  using dir_unmap_refines [OF assms] dir_unmap_preserves_inv [OF assms] by (auto split: rust_result.splits)

theorem tree_unmap_refines_flat_witness:
  "\<exists>d. dir_map_frame ex_tree 0x5000 (pte_view ex_page) = Ok d \<and>
     result_map (dir_unmap d 0x5000) dir_interp = Ok (dir_interp ex_tree)"
proof -
  have "\<not> candidate_mapping_overlaps_existing_vmem (dir_map ex_tree) 0x5000 (pte_view ex_page)"
    by (simp add: ex_tree_ok(2) candidate_mapping_overlaps_existing_vmem_def)
  then obtain d where d: "dir_map_frame ex_tree 0x5000 (pte_view ex_page) = Ok d" "dir_inv d"
      "dir_map d = [0x5000 \<mapsto> pte_view ex_page]"
    using dir_map_frame_spec [OF ex_tree_ok(1,3)] by (auto simp: ex_tree_ok(2))
  have i: "dir_interp d = (dir_interp ex_tree)\<lparr>pc_map := [0x5000 \<mapsto> pte_view ex_page]\<rparr>"
    using dir_map_frame_preserves_inv [OF ex_tree_ok(1,3)] d by (intro dir_interp_same_shape) (auto simp: ex_tree_ok(1))
  have "contains_entry_size x86_arch_spec 4096"
    unfolding contains_entry_size_def contains_entry_size_at_index_atleast_def by (rule exI [of _ 3]) simp
  then have acc: "dir_accepted_unmap d 0x5000"
    unfolding dir_accepted_unmap_def pc_accepted_unmap_iff i
    by (simp add: between_def aligned_def ex_tree_ok(1)) (rule exI [of _ 4096], simp)
  from tree_unmap_refines_flat [OF d(2) acc]
  have "result_map (dir_unmap d 0x5000) dir_interp = Ok (dir_interp ex_tree)"
    by (simp add: pc_unmap_def pc_remove_def i) (simp add: ex_tree_ok)
  then show ?thesis using d(1) by blast
qed

text \<open>
  Looking an address up by walking the directory tree gives the answer of the flat
  table's \<open>resolve\<close>, which searches all mappings.
\<close>

theorem tree_resolve_refines_flat:
  assumes "dir_inv d" and "pc_accepted_resolve (dir_interp d) va"
  shows "dir_resolve d va = pc_resolve (dir_interp d) va"
  using assms by (rule dir_resolve_refines)

theorem tree_resolve_refines_flat_witness:
  "dir_resolve ex_tree 0x5000 = Err ()"
proof -
  have "pc_accepted_resolve (dir_interp ex_tree) 0x5000"
    by (simp add: pc_accepted_resolve_def between_def ex_tree_ok(1))
  from tree_resolve_refines_flat [OF ex_tree_ok(1) this] show ?thesis
    by (simp add: pc_resolve_def ex_tree_ok(2))
qed

section \<open>Entries, memory words and address arithmetic\<close>

text \<open>
  C38. An entry built by \<open>new_entry\<close>, for any physical address width, is read by the MMU as
  exactly the directory or page that was asked for, with no reserved bit set, and the
  accessors of the implementation give back the address and the flags.
\<close>

theorem built_entry_reads_back:
  assumes mw: "max_phyaddr_width_facts mw" and ok: "entry_address_ok mw l a p"
  shows "pde_view mw (new_entry l a p w s wt dc xd) =
      (if p then GPage a True w (\<not> s) wt dc False False False False xd
       else GDirectory a True w (\<not> s) wt dc False xd) \<and>
    all_mb0_bits_are_zero mw (new_entry l a p w s wt dc xd) \<and>
    pde_is_mapping (new_entry l a p w s wt dc xd) \<and>
    pde_is_page (new_entry l a p w s wt dc xd) l = p \<and>
    pde_address mw (new_entry l a p w s wt dc xd) = a \<and>
    pde_flags (new_entry l a p w s wt dc xd) =
      \<lparr>is_writable = w, is_supervisor = s, disable_execute = xd\<rparr>"
proof -
  let ?e = "new_entry l a p w s wt dc xd"
  have l: "l \<le> 3" using ok by (simp add: entry_address_ok_def)
  note view = new_entry_view [OF mw ok, of w s wt dc xd]
  have "pde_flags ?e = \<lparr>is_writable = w, is_supervisor = s, disable_execute = xd\<rparr>"
    using new_entry_flag_bits [OF mw ok, of w s wt dc xd] by (simp add: pde_flags_def pt_mask)
  moreover have "pde_is_mapping ?e"
    using pde_is_mapping_iff [OF new_entry_mb0 [OF mw ok]] l view by simp
  moreover have "pde_is_page ?e l = p"
    using pde_is_page_iff(1) [of mw ?e] l view by simp
  ultimately show ?thesis
    using view new_entry_mb0 [OF mw ok] new_entry_mask_addr(1) [OF mw ok] by (simp add: pde_address_def)
qed

theorem built_entry_reads_back_witness:
  "pde_address 52 (new_entry 1 0x40000000 True True False False False True) = 0x40000000 \<and>
   pde_view 40 (new_entry 0 0x3000 False True False False False False) =
     GDirectory 0x3000 True True True False False False False"
proof -
  have "entry_address_ok 52 1 0x40000000 True"
    by (rule aligned_entry_address_ok [OF ex_width])
      (simp_all add: word_le_nat_alt MAX_PHYADDR_unat [OF ex_width] aligned_def)
  moreover have mw: "max_phyaddr_width_facts 40" by (simp add: max_phyaddr_width_facts_def)
  have "entry_address_ok 40 0 0x3000 False"
    using aligned_mask_addr [OF mw, of "0x3000"]
    by (simp add: entry_address_ok_def addr_is_zero_padded_def word_le_nat_alt MAX_PHYADDR_unat [OF mw] aligned_def)
  ultimately show ?thesis
    using built_entry_reads_back [OF ex_width, of 1 "0x40000000" True]
      built_entry_reads_back [OF mw, of 0 "0x3000" False] by simp
qed

text \<open>
  Writing entry \<open>idx\<close> of the page at \<open>pbase\<close> changes that word and no other: the page's
  view is updated at \<open>idx\<close>, the views of all regions that do not overlap the page stay as
  they are, and reading the word back gives the written value.
\<close>

theorem write_updates_one_word:
  assumes idx: "unat idx < 512" and r: "mr_base r = unat pbase" "mr_size r = PAGE_SIZE"
    and "aligned (mr_base r) WORD_SIZE"
  shows "\<exists>m'. mem_write m pbase idx v = Some m' \<and> mem_read m' pbase idx = Some v \<and>
    region_view m' r = (region_view m r)[unat idx := v] \<and>
    (\<forall>r2. \<not> overlap r r2 \<longrightarrow> region_view m' r2 = region_view m r2) \<and>
    regions m' = regions m \<and> mem_inv m' = mem_inv m"
proof -
  obtain m' where m': "mem_write m pbase idx v = Some m'" "region_view m' r = (region_view m r)[unat idx := v]"
      "\<forall>r2. \<not> overlap r r2 \<longrightarrow> region_view m' r2 = region_view m r2"
    using mem_write_correct [OF assms] by blast
  have "length (region_view m r) = 512" using r(2) by simp
  then have "mem_read m' pbase idx = Some v"
    using mem_read_correct [OF idx r, of m'] m'(2) idx by (simp add: spec_read_def)
  then show ?thesis using m' mem_write_frame [OF m'(1)] by blast
qed

theorem write_updates_one_word_witness:
  "\<exists>m'. mem_write ex_mem 0x1000 511 7 = Some m' \<and> mem_read m' 0x1000 511 = Some 7 \<and>
     region_view m' (pool_page 2) = region_view ex_mem (pool_page 2)"
  using write_updates_one_word [of 511 "pool_page 1" "0x1000" ex_mem 7]
  by (auto simp: pool_page_def aligned_def not_overlap_iff)

text \<open>
  The address arithmetic of \<open>read\<close> and \<open>write\<close> never leaves the range of \<open>isize\<close> for an
  entry of a page below the physical address limit, wherever the memory is mapped.
\<close>

theorem memory_access_does_not_overflow:
  assumes mw: "max_phyaddr_width_facts mw" and "pbase \<le> MAX_PHYADDR mw" and "mem_inv m"
    and "unat idx < 512"
  shows "check_overflow m pbase idx"
  by (rule check_overflow_ok [OF assms(1,2)])
    (use assms in \<open>simp_all add: mem_inv_def MAX_PHYADDR_unat\<close>)

theorem memory_access_does_not_overflow_witness:
  "check_overflow ex_mem (MAX_PHYADDR 52) 511"
  by (rule memory_access_does_not_overflow [OF ex_width]) (simp_all add: ex_mem_ok)

text \<open>
  C39. The checked index and base computations do not overflow for any address below the
  table's bound, and the slot they compute is the one whose range contains the address.
\<close>

theorem index_selects_covering_slot:
  assumes l: "layer < 4" and b: "base \<le> vaddr"
    and up: "unat vaddr < arch_upper_vaddr x86_arch_spec layer (unat base)" and "unat vaddr < MAX_BASE"
  shows "\<exists>i eb. index_for_vaddr_exec x86_arch_exec layer base vaddr = Some i \<and> unat i < 512 \<and>
    entry_base_exec x86_arch_exec layer base i = Some eb \<and>
    unat eb = unat base + unat i * entry_size x86_arch_spec layer \<and>
    between (unat vaddr) (unat eb) (unat eb + entry_size x86_arch_spec layer)"
proof -
  let ?k = "entry_size x86_arch_spec layer"
  have len: "layer < length (layers_exec x86_arch_exec)" using l by (simp add: x86_arch_exec_def)
  have pos: "0 < ?k" using entry_size_pos [OF x86_arch_inv] l by simp
  note arch = x86_arch_inv [folded x86_arch_exec_view]
  obtain i where i: "index_for_vaddr_exec x86_arch_exec layer base vaddr = Some i"
      "unat i = (unat vaddr - unat base) div ?k"
    using index_for_vaddr_exec_view [OF arch len b] by (auto simp: x86_arch_exec_view pt_defs)
  have "unat base \<le> unat vaddr" using b by (simp add: word_le_nat_alt)
  then have at: "unat base + unat i * ?k \<le> unat vaddr" "unat vaddr < unat base + (unat i + 1) * ?k"
    using index_of_offset [OF pos, of "unat base" "unat vaddr" "unat i"] i(2) by simp_all
  have "unat vaddr < unat base + 512 * ?k" using up l by (simp add: arch_upper_vaddr_def pt_defs)
  then have "unat i * ?k < 512 * ?k" using at(1) by linarith
  then have i512: "unat i < 512" by simp
  then obtain eb where "entry_base_exec x86_arch_exec layer base i = Some eb" "unat eb = unat base + unat i * ?k"
    using entry_base_exec_view [OF arch len, of base i] assms(4) \<open>unat base \<le> unat vaddr\<close>
    by (auto simp: x86_arch_exec_view pt_defs)
  then show ?thesis using i(1) i512 at by (auto simp: between_def)
qed

theorem index_selects_covering_slot_witness:
  "\<exists>i eb. index_for_vaddr_exec x86_arch_exec 0 0 0x8080604020 = Some i \<and>
     entry_base_exec x86_arch_exec 0 0 i = Some eb \<and> unat eb \<le> 0x8080604020"
  using index_selects_covering_slot [of 0 0 "0x8080604020"]
  by (auto simp: x86_arch_spec_upper_bound between_def)

text \<open>
  C40. The loop of \<open>is_directory_empty\<close> over a directory's memory terminates without a panic
  and says whether the directory it stands for has no entries.
\<close>

theorem directory_emptiness_test_correct:
  assumes "max_phyaddr_width_facts mw" and "inv_at mw m pt layer ptr"
  shows "is_directory_empty m layer ptr = Some (dir_empty (interp_at mw m pt layer ptr b))"
  using assms by (rule is_directory_empty_correct)

theorem directory_emptiness_test_correct_witness:
  "\<exists>m pt. map_frame 52 pool_allocator ex_mem (empty_table ex_mem) 0x5000 ex_page = Some (m, pt, Ok ()) \<and>
     is_directory_empty m 0 (mre_base (cr3 m)) = Some False"
proof -
  obtain m pt where m: "map_frame 52 pool_allocator ex_mem (empty_table ex_mem) 0x5000 ex_page = Some (m, pt, Ok ())"
      "pt_ok 52 pool_allocator m pt" "interp_pt_mem 52 m = [0x5000 \<mapsto> pte_view ex_page]"
    by (rule ex_mapped_frame)
  have "dir_map (pt_interp 52 m pt) \<noteq> Map.empty" using pt_ok_walk [OF m(2)] m(3) by simp
  then have "\<not> dir_empty (pt_interp 52 m pt)" using dir_empty_map pt_okD(3) [OF m(2)] by blast
  then show ?thesis
    using directory_emptiness_test_correct [OF ex_width pt_okD(1) [OF m(2)], of 0] m(1)
    by (auto simp: pt_interp_def)
qed

end
