(* ===== verification/PT_Ispec.thy ===== *)
theory PT_Ispec
  imports PT_Properties
begin

text \<open>
  The page table as its users call it, the implementation of \<^verbatim>\<open>InterfaceSpec\<close> at the end of
  \<^verbatim>\<open>page-table/impl_u/l2_refinement.rs\<close>: the state is the memory alone, and each operation
  picks a ghost directory tree that satisfies the invariant (\<^verbatim>\<open>choose\<close>) and runs \<open>map_frame\<close>,
  \<open>unmap\<close> or \<open>resolve\<close> with it. The choice is \<open>ghost_tree\<close>, a Hilbert choice as in the source;
  whichever tree it is, the results are those of the MMU's translation.
\<close>

section \<open>The interface\<close>

definition ispec_inv :: "nat \<Rightarrow> PageTableMemory \<Rightarrow> bool" where
  "ispec_inv mw m \<longleftrightarrow> (\<exists>pt. pt_inv mw m pt \<and> dir_inv (pt_interp mw m pt))"

definition ghost_tree :: "nat \<Rightarrow> PageTableMemory \<Rightarrow> PTDir" where
  "ghost_tree mw m = (SOME pt. pt_inv mw m pt \<and> dir_inv (pt_interp mw m pt))"

definition ispec_map_frame ::
    "nat \<Rightarrow> page_allocator \<Rightarrow> PageTableMemory \<Rightarrow> usize \<Rightarrow> PageTableEntryExec \<Rightarrow>
     (PageTableMemory \<times> (unit, unit) rust_result) option" where
  "ispec_map_frame mw A m vaddr pte =
     map_option (\<lambda>(m', pt', res). (m', res)) (map_frame mw A m (ghost_tree mw m) vaddr pte)"

definition ispec_unmap ::
    "nat \<Rightarrow> page_allocator \<Rightarrow> PageTableMemory \<Rightarrow> usize \<Rightarrow> (PageTableMemory \<times> (unit, unit) rust_result) option" where
  "ispec_unmap mw A m vaddr =
     map_option (\<lambda>(m', pt', res). (m', res)) (unmap mw A m (ghost_tree mw m) vaddr)"

definition ispec_resolve ::
    "nat \<Rightarrow> PageTableMemory \<Rightarrow> usize \<Rightarrow> (usize \<times> PageTableEntryExec, unit) rust_result option" where
  "ispec_resolve mw m vaddr =
     map_option (\<lambda>res. case res of Ok (v, pte) \<Rightarrow> Ok (v, pte) | Err e \<Rightarrow> Err e) (resolve mw m vaddr)"

section \<open>What the interface asks of its callers\<close>

definition ispec_sys_inv :: "nat \<Rightarrow> page_allocator \<Rightarrow> PageTableMemory \<Rightarrow> bool" where
  "ispec_sys_inv mw A m \<longleftrightarrow>
     max_phyaddr_width_facts mw \<and> allocator_contract mw A \<and> ispec_inv mw m \<and> pa_valid A m"

definition ispec_accepts_map :: "nat \<Rightarrow> PageTableMemory \<Rightarrow> usize \<Rightarrow> PageTableEntryExec \<Rightarrow> bool" where
  "ispec_accepts_map mw m vaddr pte \<longleftrightarrow>
     3 \<le> alloc_available_pages m \<and> unat vaddr < MAX_BASE \<and>
     unat vaddr + frame_size (pte_view pte) \<le> MAX_BASE \<and>
     aligned (unat vaddr) (frame_size (pte_view pte)) \<and>
     aligned (frame_base (pte_view pte)) (frame_size (pte_view pte)) \<and>
     accepted_mapping mw (unat vaddr) (pte_view pte)"

definition ispec_accepts_unmap :: "usize \<Rightarrow> bool" where
  "ispec_accepts_unmap vaddr \<longleftrightarrow>
     unat vaddr < MAX_BASE \<and> (\<exists>i<4. aligned (unat vaddr) (entry_size x86_arch_spec i))"

lemma ispec_sys_inv_tree: "ispec_sys_inv mw A m \<longleftrightarrow> pt_sys_inv mw A (m, ghost_tree mw m)"
proof
  assume i: "ispec_sys_inv mw A m"
  then have "\<exists>pt. pt_inv mw m pt \<and> dir_inv (pt_interp mw m pt)" by (simp add: ispec_sys_inv_def ispec_inv_def)
  from someI_ex [OF this] i show "pt_sys_inv mw A (m, ghost_tree mw m)"
    by (simp add: ghost_tree_def pt_sys_inv_def pt_ok_def ispec_sys_inv_def)
qed (auto simp: pt_sys_inv_def pt_ok_def ispec_sys_inv_def ispec_inv_def)

lemma pt_sys_inv_ispec: "pt_sys_inv mw A (m, pt) \<Longrightarrow> ispec_sys_inv mw A m"
  by (auto simp: pt_sys_inv_def pt_ok_def ispec_sys_inv_def ispec_inv_def)

lemma pt_mappings_walk: "pt_sys_inv mw A (m, pt) \<Longrightarrow> pt_mappings mw (m, pt) = interp_pt_mem mw m"
  using mmu.walk_law by fastforce

lemma ispec_accepts_map_tree: "ispec_accepts_map mw m vaddr pte \<Longrightarrow> pt_accepts_map mw (m, pt) vaddr pte"
  by (auto simp: ispec_accepts_map_def pt_accepts_map_def dir_accepted_mapping_def dir_candidate_mapping_in_bounds_def
      accepted_mapping_def contains_entry_size_at_index_atleast_def)

lemma ispec_accepts_unmap_tree:
  assumes "ispec_accepts_unmap vaddr" and "pt_sys_inv mw A (m, pt)"
  shows "pt_accepts_unmap mw (m, pt) vaddr"
  using assms pt_sys_invD(4) [OF assms(2)]
  by (simp add: ispec_accepts_unmap_def pt_accepts_unmap_def dir_accepted_unmap_def pc_accepted_unmap_def between_def)

lemma ispec_resolve_eq: "ispec_resolve mw m vaddr = resolve mw m vaddr"
proof -
  have "(case res of Ok (v, pte) \<Rightarrow> Ok (v, pte) | Err e \<Rightarrow> Err e) = res" for res :: "(usize \<times> PageTableEntryExec, unit) rust_result"
    by (auto split: rust_result.splits)
  then show ?thesis by (simp add: ispec_resolve_def option.map_ident_strong)
qed

section \<open>A page table over memory alone\<close>

lemma ispec_map_law:
  assumes inv: "ispec_sys_inv mw A m" and acc: "ispec_accepts_map mw m vaddr pte"
  shows "\<exists>m' res. ispec_map_frame mw A m vaddr pte = Some (m', res) \<and> ispec_sys_inv mw A m' \<and>
    (if candidate_mapping_overlaps_existing_vmem (interp_pt_mem mw m) (unat vaddr) (pte_view pte)
     then res = Err () \<and> interp_pt_mem mw m' = interp_pt_mem mw m
     else res = Ok () \<and> interp_pt_mem mw m' = (interp_pt_mem mw m)(unat vaddr \<mapsto> pte_view pte))"
proof -
  let ?s = "(m, ghost_tree mw m)"
  have i: "pt_sys_inv mw A ?s" using inv by (simp add: ispec_sys_inv_tree)
  obtain m' pt' res where r: "pt_map_op mw A ?s vaddr pte = Some ((m', pt'), res)" "pt_sys_inv mw A (m', pt')"
      "if candidate_mapping_overlaps_existing_vmem (pt_mappings mw ?s) (unat vaddr) (pte_view pte)
       then res = Err () \<and> pt_mappings mw (m', pt') = pt_mappings mw ?s
       else res = Ok () \<and> pt_mappings mw (m', pt') = (pt_mappings mw ?s)(unat vaddr \<mapsto> pte_view pte)"
    using pt_map_spec [OF i ispec_accepts_map_tree [OF acc]] by auto
  have "ispec_map_frame mw A m vaddr pte = Some (m', res)"
    using r(1) by (auto simp: ispec_map_frame_def pt_map_op_def)
  with r(3) pt_sys_inv_ispec [OF r(2)] show ?thesis
    unfolding pt_mappings_walk [OF i] pt_mappings_walk [OF r(2)] by blast
qed

lemma ispec_unmap_law:
  assumes inv: "ispec_sys_inv mw A m" and acc: "ispec_accepts_unmap vaddr"
  shows "\<exists>m' res. ispec_unmap mw A m vaddr = Some (m', res) \<and> ispec_sys_inv mw A m' \<and>
    (if unat vaddr \<in> dom (interp_pt_mem mw m)
     then res = Ok () \<and> interp_pt_mem mw m' = (interp_pt_mem mw m)(unat vaddr := None)
     else res = Err () \<and> interp_pt_mem mw m' = interp_pt_mem mw m)"
proof -
  let ?s = "(m, ghost_tree mw m)"
  have i: "pt_sys_inv mw A ?s" using inv by (simp add: ispec_sys_inv_tree)
  obtain m' pt' res where r: "pt_unmap_op mw A ?s vaddr = Some ((m', pt'), res)" "pt_sys_inv mw A (m', pt')"
      "if unat vaddr \<in> dom (pt_mappings mw ?s)
       then res = Ok () \<and> pt_mappings mw (m', pt') = (pt_mappings mw ?s)(unat vaddr := None)
       else res = Err () \<and> pt_mappings mw (m', pt') = pt_mappings mw ?s"
    using pt_unmap_spec [OF i ispec_accepts_unmap_tree [OF acc i]] by auto
  have "ispec_unmap mw A m vaddr = Some (m', res)"
    using r(1) by (auto simp: ispec_unmap_def pt_unmap_op_def)
  with r(3) pt_sys_inv_ispec [OF r(2)] show ?thesis
    unfolding pt_mappings_walk [OF i] pt_mappings_walk [OF r(2)] by blast
qed

definition ispec_resolve_op :: "nat \<Rightarrow> PageTableMemory \<Rightarrow> usize \<Rightarrow> (nat \<times> PageTableEntry, unit) rust_result option" where
  "ispec_resolve_op mw m vaddr = map_option resolve_view (ispec_resolve mw m vaddr)"

interpretation ispec: page_table "ispec_sys_inv mw A" "interp_pt_mem mw" "ispec_accepts_map mw" "\<lambda>m. ispec_accepts_unmap"
    "\<lambda>m vaddr. unat vaddr < MAX_BASE" "ispec_map_frame mw A" "ispec_unmap mw A" "ispec_resolve_op mw" unat pte_view for mw A
proof (unfold_locales, goal_cases)
  case (1 m b q)
  then show ?case using l2.mapping_pos pt_mappings_walk unfolding ispec_sys_inv_tree by metis
next
  case (2 m b1 q1 b2 q2)
  then show ?case using l2.mappings_disjoint pt_mappings_walk unfolding ispec_sys_inv_tree by metis
next
  case (3 m v p)
  then show ?case by (rule ispec_map_law)
next
  case (4 m v)
  then show ?case by (rule ispec_unmap_law)
next
  case (5 m v)
  then have i: "pt_sys_inv mw A (m, ghost_tree mw m)" by (simp add: ispec_sys_inv_tree)
  from l2.resolve_law [OF i 5(2)] show ?case
    unfolding pt_mappings_walk [OF i] by (simp add: ispec_resolve_op_def ispec_resolve_eq)
qed

section \<open>Sessions\<close>

definition ispec_ops ::
    "nat \<Rightarrow> page_allocator \<Rightarrow> (PageTableMemory, usize, PageTableEntryExec) table_ops" where
  "ispec_ops mw A =
     \<lparr>op_map = ispec_map_frame mw A, op_unmap = ispec_unmap mw A, op_resolve = ispec_resolve_op mw,
      op_accepts_map = ispec_accepts_map mw, op_accepts_unmap = (\<lambda>m. ispec_accepts_unmap),
      op_accepts_resolve = (\<lambda>m vaddr. unat vaddr < MAX_BASE)\<rparr>"

text \<open>A zeroed root page satisfies the invariant and translates nothing.\<close>

lemma ispec_init_implies_inv:
  fixes A :: page_allocator
  assumes "spt_init \<lparr>pt_mem = m\<rparr>" and "pa_valid A m"
  shows "ispec_inv mw m" and "interp_pt_mem mw m = Map.empty"
proof -
  let ?r = "region_view_exec (cr3 m)"
  have "region_view m ?r = new_seq 512 0"
    using assms(1) by (intro nth_equalityI) (simp_all add: spt_init_def new_seq_replicate)
  moreover have "mem_inv m" "?r \<in> regions m" using assms(1) by (simp_all add: spt_init_def)
  ultimately have e: "pt_ok mw A m (empty_table m)" "dir_map (pt_interp mw m (empty_table m)) = Map.empty"
    using empty_table_ok [of m A mw] assms(2) by simp_all
  then show "ispec_inv mw m" by (auto simp: ispec_inv_def pt_ok_def)
  show "interp_pt_mem mw m = Map.empty" using e pt_ok_walk [OF e(1)] by simp
qed

text \<open>
  C5. The page table, from a zeroed root page on, serves every sequence of accepted requests
  without a panic, and answers each of them, errors included, like a map of entries that is
  empty at first: a map request fails exactly if it overlaps an entry, an unmap request
  exactly if no entry starts at its address, and a resolve request returns the entry that covers
  its address. At the end the MMU's translation is that map.
\<close>

theorem page_table_serves_requests:
  assumes "max_phyaddr_width_facts mw" and "allocator_contract mw A"
    and "spt_init \<lparr>pt_mem = m\<rparr>" and "pa_valid A m"
    and "op_accepts_all (ispec_ops mw A) m rs"
  shows "\<exists>m' as. op_serve (ispec_ops mw A) m rs = Some (m', as) \<and> ispec_inv mw m' \<and>
    table_serve Map.empty (map (map_request unat pte_view) rs) = (interp_pt_mem mw m', as)"
proof -
  note init = ispec_init_implies_inv [OF assms(3,4), of mw]
  have "ispec_sys_inv mw A m" using assms init(1) by (simp add: ispec_sys_inv_def)
  from ispec.serve_table [OF this assms(5) ispec_ops_def] show ?thesis
    unfolding init(2) by (auto simp: ispec_sys_inv_def)
qed

definition ex_session :: "(usize, PageTableEntryExec) request list" where
  "ex_session = [MapRequest 0x5000 ex_page, ResolveRequest 0x5008, UnmapRequest 0x5000, ResolveRequest 0x5008]"

lemma ex_session_accepted: "op_accepts_all (ispec_ops 52 A) ex_mem ex_session"
proof -
  have "ispec_accepts_map 52 ex_mem 0x5000 ex_page"
    using ex_map_accepted by (simp add: ispec_accepts_map_def pt_accepts_map_def dir_accepted_mapping_def
        dir_candidate_mapping_in_bounds_def ex_table_def)
  moreover have "ispec_accepts_unmap 0x5000"
    by (auto simp: ispec_accepts_unmap_def aligned_def intro!: exI [of _ 3])
  ultimately show ?thesis
    by (auto simp: ex_session_def ispec_ops_def split: option.splits)
qed

lemma ex_session_answers:
  "table_serve Map.empty (map (map_request unat pte_view) ex_session) =
     (Map.empty, [MapResponse (Ok ()), ResolveResponse (Ok (0x5000, pte_view ex_page)), UnmapResponse (Ok ()),
        ResolveResponse (Err ())])"
proof -
  let ?M = "[0x5000 \<mapsto> pte_view ex_page]" and ?P = "\<lambda>bp :: nat \<times> PageTableEntry. [0x5000 \<mapsto> pte_view ex_page] (fst bp) = Some (snd bp) \<and>
      between 0x5008 (fst bp) (fst bp + frame_size (snd bp))"
  have "?P (0x5000, pte_view ex_page)" by (simp add: between_def ex_page_view)
  moreover have "bp = (0x5000, pte_view ex_page)" if "?P bp" for bp
    using that by (cases bp) (auto split: if_splits)
  ultimately have "(SOME bp. ?P bp) = (0x5000, pte_view ex_page)" by (rule some_equality)
  moreover have "covered ?M 0x5008" by (auto simp: covered_def between_def ex_page_view)
  ultimately have "table_resolve ?M 0x5008 = Ok (0x5000, pte_view ex_page)" by (simp add: table_resolve_def)
  then show ?thesis
    by (simp add: ex_session_def candidate_mapping_overlaps_existing_vmem_def table_resolve_def covered_def)
qed

theorem page_table_serves_requests_witness:
  "\<exists>m'. op_serve (ispec_ops 52 pool_allocator) ex_mem ex_session =
     Some (m', [MapResponse (Ok ()), ResolveResponse (Ok (0x5000, pte_view ex_page)), UnmapResponse (Ok ()),
       ResolveResponse (Err ())]) \<and> interp_pt_mem 52 m' = Map.empty"
proof -
  have "spt_init \<lparr>pt_mem = ex_mem\<rparr>"
    using ex_mem_ok by (simp add: spt_init_def ex_cr3 new_seq_replicate) (simp add: ex_mem_def)
  moreover have "pa_valid pool_allocator ex_mem" using ex_mem_ok(2) by (simp add: pool_allocator_def)
  ultimately show ?thesis
    using page_table_serves_requests [OF ex_width ex_table_ok(1) _ _ ex_session_accepted] ex_session_answers by fastforce
qed

end
