(* ===== verification/HW_Machine.thy ===== *)
theory HW_Machine
  imports PT_Spec
begin

text \<open>
  The hardware state machine of \<^verbatim>\<open>page-table/spec_t/hardware.rs\<close>: physical memory,
  NUMA nodes with their cores and TLBs, and the page table memory the MMU walks. A TLB is
  filled from the page table and emptied at any time; reads and writes go through it. The
  model keeps the source's structure of nested maps; \<open>core_tlb\<close> abbreviates the path to a
  core's TLB. Looking up a missing key is unspecified, in the source as in the model.
\<close>

record HWConstants =
  NUMA_no :: nat
  core_no :: nat
  hw_phys_mem_size :: nat

record CoreVariables =
  tlb :: "nat \<rightharpoonup> PageTableEntry"

record NUMAVariables =
  cores :: "nat \<rightharpoonup> CoreVariables"

record HWVariables =
  hw_mem :: "nat list"
  NUMAs :: "nat \<rightharpoonup> NUMAVariables"
  global_pt :: PageTableMemory

record Core =
  NUMA_id :: nat
  core_id :: nat

datatype HWStep =
    ReadWrite nat nat HWRWOp "(nat \<times> PageTableEntry) option" Core
  | PTMemOp
  | is_TLBFill: TLBFill nat PageTableEntry Core
  | is_TLBEvict: TLBEvict nat Core

abbreviation numa_cores :: "HWVariables \<Rightarrow> Core \<Rightarrow> nat \<rightharpoonup> CoreVariables" where
  "numa_cores s core \<equiv> cores (the (NUMAs s (NUMA_id core)))"

abbreviation core_tlb :: "HWVariables \<Rightarrow> Core \<Rightarrow> nat \<rightharpoonup> PageTableEntry" where
  "core_tlb s core \<equiv> tlb (the (numa_cores s core (core_id core)))"

definition valid_NUMA_id :: "HWConstants \<Rightarrow> nat \<Rightarrow> bool" where
  "valid_NUMA_id c n \<longleftrightarrow> n < NUMA_no c"

definition valid_core_id :: "HWConstants \<Rightarrow> nat \<Rightarrow> bool" where
  "valid_core_id c n \<longleftrightarrow> n < core_no c"

definition valid_core :: "HWConstants \<Rightarrow> Core \<Rightarrow> bool" where
  "valid_core c core \<longleftrightarrow> valid_NUMA_id c (NUMA_id core) \<and> valid_core_id c (core_id core)"

definition NUMA_init :: "HWConstants \<Rightarrow> NUMAVariables \<Rightarrow> bool" where
  "NUMA_init c n \<longleftrightarrow>
     core_no c > 0 \<and>
     (\<forall>i. valid_core_id c i = (i \<in> dom (cores n))) \<and>
     (\<forall>i. valid_core_id c i \<longrightarrow> dom (tlb (the (cores n i))) = {})"

definition hw_init :: "HWConstants \<Rightarrow> HWVariables \<Rightarrow> bool" where
  "hw_init c s \<longleftrightarrow>
     NUMA_no c > 0 \<and>
     (\<forall>i. valid_NUMA_id c i = (i \<in> dom (NUMAs s))) \<and>
     (\<forall>i. valid_NUMA_id c i \<longrightarrow> NUMA_init c (the (NUMAs s i)))"

definition hw_step_ReadWrite ::
    "nat \<Rightarrow> HWConstants \<Rightarrow> HWVariables \<Rightarrow> HWVariables \<Rightarrow> nat \<Rightarrow> nat \<Rightarrow> HWRWOp \<Rightarrow>
     (nat \<times> PageTableEntry) option \<Rightarrow> Core \<Rightarrow> bool" where
  "hw_step_ReadWrite mw c s1 s2 vaddr paddr op pte core \<longleftrightarrow>
     aligned vaddr 8 \<and>
     NUMAs s2 = NUMAs s1 \<and>
     valid_core c core \<and>
     (case pte of
        Some (base, pte) \<Rightarrow>
          let pmem_idx = word_index_spec paddr in
          core_tlb s1 core base = Some pte \<and>
          between vaddr base (base + frame_size pte) \<and>
          paddr = frame_base pte + (vaddr - base) \<and>
          (case op of
             HWStore new_value result \<Rightarrow>
               if pmem_idx < length (hw_mem s1) \<and> \<not> is_supervisor (pte_flags pte)
                  \<and> is_writable (pte_flags pte)
               then result = HWStoreOk \<and> hw_mem s2 = (hw_mem s1)[pmem_idx := new_value]
               else result = HWStorePagefault \<and> hw_mem s2 = hw_mem s1
           | HWLoad is_exec result \<Rightarrow>
               hw_mem s2 = hw_mem s1 \<and>
               (if pmem_idx < length (hw_mem s1) \<and> \<not> is_supervisor (pte_flags pte)
                   \<and> (is_exec \<longrightarrow> \<not> disable_execute (pte_flags pte))
                then result = HWLoadValue (hw_mem s1 ! pmem_idx)
                else result = HWLoadPagefault))
      | None \<Rightarrow>
          \<not> (\<exists>base pte. interp_pt_mem mw (global_pt s1) base = Some pte \<and>
               between vaddr base (base + frame_size pte)) \<and>
          hw_mem s2 = hw_mem s1 \<and>
          (case op of
             HWStore new_value result \<Rightarrow> result = HWStorePagefault
           | HWLoad is_exec result \<Rightarrow> result = HWLoadPagefault))"

definition hw_step_PTMemOp :: "HWConstants \<Rightarrow> HWVariables \<Rightarrow> HWVariables \<Rightarrow> bool" where
  "hw_step_PTMemOp c s1 s2 \<longleftrightarrow> hw_mem s2 = hw_mem s1 \<and> NUMAs s2 = NUMAs s1"

definition other_NUMAs_and_cores_unchanged ::
    "HWConstants \<Rightarrow> HWVariables \<Rightarrow> HWVariables \<Rightarrow> Core \<Rightarrow> bool" where
  "other_NUMAs_and_cores_unchanged c s1 s2 core \<longleftrightarrow>
     hw_mem s2 = hw_mem s1 \<and>
     dom (NUMAs s2) = dom (NUMAs s1) \<and>
     (NUMAs s2)(NUMA_id core := None) = (NUMAs s1)(NUMA_id core := None) \<and>
     dom (numa_cores s2 core) = dom (numa_cores s1 core) \<and>
     (numa_cores s2 core)(core_id core := None) = (numa_cores s1 core)(core_id core := None)"

definition hw_step_TLBFill ::
    "nat \<Rightarrow> HWConstants \<Rightarrow> HWVariables \<Rightarrow> HWVariables \<Rightarrow> nat \<Rightarrow> PageTableEntry \<Rightarrow> Core \<Rightarrow> bool" where
  "hw_step_TLBFill mw c s1 s2 vaddr pte core \<longleftrightarrow>
     valid_core c core \<and>
     interp_pt_mem mw (global_pt s1) vaddr = Some pte \<and>
     core_tlb s2 core = (core_tlb s1 core)(vaddr \<mapsto> pte) \<and>
     other_NUMAs_and_cores_unchanged c s1 s2 core"

definition hw_step_TLBEvict ::
    "HWConstants \<Rightarrow> HWVariables \<Rightarrow> HWVariables \<Rightarrow> nat \<Rightarrow> Core \<Rightarrow> bool" where
  "hw_step_TLBEvict c s1 s2 vaddr core \<longleftrightarrow>
     valid_core c core \<and>
     vaddr \<in> dom (core_tlb s1 core) \<and>
     core_tlb s2 core = (core_tlb s1 core)(vaddr := None) \<and>
     other_NUMAs_and_cores_unchanged c s1 s2 core"

fun hw_next_step :: "nat \<Rightarrow> HWConstants \<Rightarrow> HWVariables \<Rightarrow> HWVariables \<Rightarrow> HWStep \<Rightarrow> bool" where
  "hw_next_step mw c s1 s2 (ReadWrite vaddr paddr op pte core) =
     hw_step_ReadWrite mw c s1 s2 vaddr paddr op pte core"
| "hw_next_step mw c s1 s2 PTMemOp = hw_step_PTMemOp c s1 s2"
| "hw_next_step mw c s1 s2 (TLBFill vaddr pte core) = hw_step_TLBFill mw c s1 s2 vaddr pte core"
| "hw_next_step mw c s1 s2 (TLBEvict vaddr core) = hw_step_TLBEvict c s1 s2 vaddr core"

definition hw_next :: "nat \<Rightarrow> HWConstants \<Rightarrow> HWVariables \<Rightarrow> HWVariables \<Rightarrow> bool" where
  "hw_next mw c s1 s2 \<longleftrightarrow> (\<exists>step. hw_next_step mw c s1 s2 step)"

section \<open>What a step does to the TLBs\<close>

lemma hw_init_tlb:
  assumes "hw_init c s" and "valid_core c core"
  shows "core_tlb s core = Map.empty"
  using assms unfolding hw_init_def valid_core_def NUMA_init_def by auto

lemma other_cores_tlb:
  assumes o: "other_NUMAs_and_cores_unchanged c s1 s2 core" and ne: "core' \<noteq> core"
  shows "core_tlb s2 core' = core_tlb s1 core'"
proof (cases "NUMA_id core' = NUMA_id core")
  case True
  then have "core_id core' \<noteq> core_id core" using ne by (cases core; cases core') simp
  then show ?thesis
    using o True unfolding other_NUMAs_and_cores_unchanged_def by (metis fun_upd_other)
next
  case False
  then show ?thesis
    using o unfolding other_NUMAs_and_cores_unchanged_def by (metis fun_upd_other)
qed

lemma hw_TLBFill_tlb:
  assumes "hw_step_TLBFill mw c s1 s2 vaddr pte core"
  shows "core_tlb s2 core' = (if core' = core then (core_tlb s1 core)(vaddr \<mapsto> pte) else core_tlb s1 core')"
  using assms other_cores_tlb [of c s1 s2 core core'] by (auto simp: hw_step_TLBFill_def)

lemma hw_TLBEvict_tlb:
  assumes "hw_step_TLBEvict c s1 s2 vaddr core"
  shows "core_tlb s2 core' = (if core' = core then (core_tlb s1 core)(vaddr := None) else core_tlb s1 core')"
  using assms other_cores_tlb [of c s1 s2 core core'] by (auto simp: hw_step_TLBEvict_def)

end
