(* ===== verification/MMU_Atomic.thy ===== *)
theory MMU_Atomic
  imports HW_Machine
begin

text \<open>
  The planned memory-management unit with writes that become visible late,
  \<^verbatim>\<open>page-table/spec_t/atomic_mmu.rs\<close>: reads of page-table memory are only known to be
  current when every pending write is the reader's own. A fence makes the pending writes current
  for all cores when they are those of the fencing core and each of them overwrote an entry that
  was \<^emph>\<open>not\<close> empty: so says \<^verbatim>\<open>is_mfence_sufficient\<close>, which the model follows. The
  comment on \<^verbatim>\<open>step_MFence\<close> says the opposite, that no valid entry may have been modified, and
  the last section shows what the condition of the code lets happen after an empty entry is
  filled. The file leaves some parts
  open, which are the fields of \<open>mmu_params\<close>: \<^verbatim>\<open>PTMemView::read\<close> and \<^verbatim>\<open>write\<close>, the layer at
  which a written entry is interpreted, what \<^verbatim>\<open>invlpg\<close> does to the pending writes, and the
  initial states.
\<close>

section \<open>State\<close>

record VA =
  va_idx :: "nat list"
  va_offset :: nat

datatype Lbl =
    LTau
  | LWalk Core VA "PageTableEntry option"
  | LInvlpg Core VA
  | LMFence Core
  | LMemWrite Core usize usize
  | LMemRead Core usize usize

record PTMemView =
  pv_phys_mem_ref :: usize
  pv_cr3 :: usize
  pv_mem :: "usize list"

record PTWrite =
  pw_core :: Core
  pw_pa :: usize
  pw_old :: GhostPageDirectoryEntry
  pw_new :: GhostPageDirectoryEntry

record MMUState =
  mmu_mem :: PTMemView
  mmu_writes :: "PTWrite set"

record mmu_params =
  mem_read :: "PTMemView \<Rightarrow> usize \<Rightarrow> usize"
  mem_write :: "PTMemView \<Rightarrow> usize \<Rightarrow> usize \<Rightarrow> PTMemView"
  phyaddr_width :: nat
  write_layer :: nat
  invlpg_clears :: bool
  any_init :: "MMUState \<Rightarrow> bool"

definition all_writes_by_core :: "MMUState \<Rightarrow> Core \<Rightarrow> bool" where
  "all_writes_by_core s core \<longleftrightarrow> (\<forall>w\<in>mmu_writes s. pw_core w = core)"

definition no_overlapping_writes :: "MMUState \<Rightarrow> usize \<Rightarrow> bool" where
  "no_overlapping_writes s pa \<longleftrightarrow> (\<forall>w\<in>mmu_writes s. pw_pa w \<noteq> pa)"

definition is_mfence_sufficient :: "MMUState \<Rightarrow> Core \<Rightarrow> bool" where
  "is_mfence_sufficient s core \<longleftrightarrow> (\<forall>w\<in>mmu_writes s. pw_core w = core \<and> pw_old w \<noteq> GEmpty)"

section \<open>Steps\<close>

definition written_entry :: "mmu_params \<Rightarrow> usize \<Rightarrow> GhostPageDirectoryEntry" where
  "written_entry P v = pde_view (phyaddr_width P) \<lparr>pde_entry = v, pde_layer = write_layer P\<rparr>"

definition mmu_step_MemWrite :: "mmu_params \<Rightarrow> MMUState \<Rightarrow> MMUState \<Rightarrow> Lbl \<Rightarrow> bool" where
  "mmu_step_MemWrite P pre post lbl =
     (case lbl of LMemWrite core pa v \<Rightarrow>
        mmu_mem post = mem_write P (mmu_mem pre) pa v \<and>
        mmu_writes post = insert \<lparr>pw_core = core, pw_pa = pa,
            pw_old = written_entry P (mem_read P (mmu_mem pre) pa), pw_new = written_entry P v\<rparr> (mmu_writes pre)
      | _ \<Rightarrow> False)"

definition mmu_step_MemRead :: "mmu_params \<Rightarrow> MMUState \<Rightarrow> MMUState \<Rightarrow> Lbl \<Rightarrow> bool" where
  "mmu_step_MemRead P pre post lbl =
     (case lbl of LMemRead core pa v \<Rightarrow>
        (mmu_writes pre = {} \<or> all_writes_by_core pre core \<longrightarrow> v = mem_read P (mmu_mem pre) pa) \<and>
        post = pre
      | _ \<Rightarrow> False)"

definition mmu_step_Walk :: "MMUState \<Rightarrow> MMUState \<Rightarrow> Lbl \<Rightarrow> bool" where
  "mmu_step_Walk pre post lbl = (case lbl of LWalk core va result \<Rightarrow> post = pre | _ \<Rightarrow> False)"

definition mmu_step_MFence :: "MMUState \<Rightarrow> MMUState \<Rightarrow> Lbl \<Rightarrow> bool" where
  "mmu_step_MFence pre post lbl =
     (case lbl of LMFence core \<Rightarrow>
        mmu_mem post = mmu_mem pre \<and>
        (is_mfence_sufficient pre core \<longrightarrow> mmu_writes post = {})
      | _ \<Rightarrow> False)"

definition mmu_step_Invlpg :: "mmu_params \<Rightarrow> MMUState \<Rightarrow> MMUState \<Rightarrow> Lbl \<Rightarrow> bool" where
  "mmu_step_Invlpg P pre post lbl =
     (case lbl of LInvlpg core va \<Rightarrow>
        mmu_mem post = mmu_mem pre \<and>
        mmu_writes post = (if invlpg_clears P then {} else mmu_writes pre)
      | _ \<Rightarrow> False)"

definition mmu_step_Stutter :: "MMUState \<Rightarrow> MMUState \<Rightarrow> Lbl \<Rightarrow> bool" where
  "mmu_step_Stutter pre post lbl \<longleftrightarrow> lbl = LTau \<and> post = pre"

datatype MMUStep = MMUMemWrite | MMUMemRead | MMUWalk | MMUMFence | MMUInvlpg | MMUStutter

fun mmu_next_step :: "mmu_params \<Rightarrow> MMUState \<Rightarrow> MMUState \<Rightarrow> MMUStep \<Rightarrow> Lbl \<Rightarrow> bool" where
  "mmu_next_step P pre post MMUMemWrite lbl = mmu_step_MemWrite P pre post lbl"
| "mmu_next_step P pre post MMUMemRead lbl = mmu_step_MemRead P pre post lbl"
| "mmu_next_step P pre post MMUWalk lbl = mmu_step_Walk pre post lbl"
| "mmu_next_step P pre post MMUMFence lbl = mmu_step_MFence pre post lbl"
| "mmu_next_step P pre post MMUInvlpg lbl = mmu_step_Invlpg P pre post lbl"
| "mmu_next_step P pre post MMUStutter lbl = mmu_step_Stutter pre post lbl"

definition mmu_init :: "mmu_params \<Rightarrow> MMUState \<Rightarrow> bool" where
  "mmu_init P pre = any_init P pre"

definition mmu_next :: "mmu_params \<Rightarrow> MMUState \<Rightarrow> MMUState \<Rightarrow> Lbl \<Rightarrow> bool" where
  "mmu_next P pre post lbl \<longleftrightarrow> (\<exists>step. mmu_next_step P pre post step lbl)"

inductive mmu_run :: "mmu_params \<Rightarrow> MMUState \<Rightarrow> Lbl list \<Rightarrow> MMUState \<Rightarrow> bool" for P where
  mmu_run_done: "mmu_run P s [] s"
| mmu_run_step: "mmu_next P s s' l \<Longrightarrow> mmu_run P s' ls s'' \<Longrightarrow> mmu_run P s (l # ls) s''"

inductive_cases mmu_run_NilE: "mmu_run P s [] s'"
inductive_cases mmu_run_ConsE: "mmu_run P s (l # ls) s'"

lemma mmu_run_Nil [simp]: "mmu_run P s [] s' \<longleftrightarrow> s' = s"
  by (auto elim: mmu_run_NilE intro: mmu_run_done)

lemma mmu_run_append: "mmu_run P s (ls @ ms) s'' \<longleftrightarrow> (\<exists>s'. mmu_run P s ls s' \<and> mmu_run P s' ms s'')"
proof (induction ls arbitrary: s)
  case (Cons l ls)
  then show ?case by (auto elim!: mmu_run_ConsE) (blast intro: mmu_run_step)+
qed simp

lemma mmu_step_exists:
  "(\<exists>step. mmu_next_step P pre post step lbl) \<longleftrightarrow>
     mmu_step_MemWrite P pre post lbl \<or> mmu_step_MemRead P pre post lbl \<or> mmu_step_Walk pre post lbl \<or>
     mmu_step_MFence pre post lbl \<or> mmu_step_Invlpg P pre post lbl \<or> mmu_step_Stutter pre post lbl"
  (is "?l \<longleftrightarrow> ?r")
proof
  show ?r if ?l
  proof -
    from that obtain step where "mmu_next_step P pre post step lbl" by blast
    then show ?thesis by (cases step) simp_all
  qed
qed (metis mmu_next_step.simps)

text \<open>The label determines the step.\<close>

lemma mmu_next_simps:
  "mmu_next P s s' LTau \<longleftrightarrow> s' = s"
  "mmu_next P s s' (LWalk core va res) \<longleftrightarrow> s' = s"
  "mmu_next P s s' (LMemRead core pa v) \<longleftrightarrow>
     s' = s \<and> (mmu_writes s = {} \<or> all_writes_by_core s core \<longrightarrow> v = mem_read P (mmu_mem s) pa)"
  "mmu_next P s s' (LMFence core) \<longleftrightarrow>
     mmu_mem s' = mmu_mem s \<and> (is_mfence_sufficient s core \<longrightarrow> mmu_writes s' = {})"
  "mmu_next P s s' (LInvlpg core va) \<longleftrightarrow>
     mmu_mem s' = mmu_mem s \<and> mmu_writes s' = (if invlpg_clears P then {} else mmu_writes s)"
  "mmu_next P s s' (LMemWrite core pa v) \<longleftrightarrow>
     mmu_mem s' = mem_write P (mmu_mem s) pa v \<and>
     mmu_writes s' = insert \<lparr>pw_core = core, pw_pa = pa,
       pw_old = written_entry P (mem_read P (mmu_mem s) pa), pw_new = written_entry P v\<rparr> (mmu_writes s)"
  by (auto simp: mmu_next_def mmu_step_exists mmu_step_MemWrite_def mmu_step_MemRead_def mmu_step_Walk_def
      mmu_step_MFence_def mmu_step_Invlpg_def mmu_step_Stutter_def)

section \<open>Reads of the writer\<close>

text \<open>The memory after the writes of a run, in their order.\<close>

fun mem_after :: "mmu_params \<Rightarrow> PTMemView \<Rightarrow> Lbl list \<Rightarrow> PTMemView" where
  "mem_after P m [] = m"
| "mem_after P m (LMemWrite core pa v # ls) = mem_after P (mem_write P m pa v) ls"
| "mem_after P m (_ # ls) = mem_after P m ls"

fun only_writer :: "Core \<Rightarrow> Lbl list \<Rightarrow> bool" where
  "only_writer core [] = True"
| "only_writer core (LMemWrite c pa v # ls) = (c = core \<and> only_writer core ls)"
| "only_writer core (_ # ls) = only_writer core ls"

lemma mmu_run_mem: "mmu_run P s ls s' \<Longrightarrow> mmu_mem s' = mem_after P (mmu_mem s) ls"
proof (induction rule: mmu_run.induct)
  case (mmu_run_step s s' l ls s'')
  then show ?case by (cases l) (simp_all add: mmu_next_simps)
qed simp

lemma mem_after_append [simp]: "mem_after P m (ls @ ms) = mem_after P (mem_after P m ls) ms"
  by (induction P m ls rule: mem_after.induct) simp_all

lemma only_writer_append [simp]: "only_writer core (ls @ ms) \<longleftrightarrow> only_writer core ls \<and> only_writer core ms"
  by (induction core ls rule: only_writer.induct) simp_all

text \<open>
  A fence that is not sufficient may leave any writes pending, so that only fences taken when
  they are sufficient keep the writes by one core.
\<close>

lemma all_writes_step:
  assumes "mmu_next P s s' l" and "all_writes_by_core s core" and "only_writer core [l]"
    and "\<And>c. l = LMFence c \<Longrightarrow> is_mfence_sufficient s c"
  shows "all_writes_by_core s' core"
  using assms by (cases l) (auto simp: mmu_next_simps all_writes_by_core_def)

fun no_fence :: "Lbl list \<Rightarrow> bool" where
  "no_fence [] = True"
| "no_fence (LMFence core # ls) = False"
| "no_fence (_ # ls) = no_fence ls"

lemma no_fence_append [simp]: "no_fence (ls @ ms) \<longleftrightarrow> no_fence ls \<and> no_fence ms"
  by (induction ls rule: no_fence.induct) simp_all

lemma all_writes_run:
  assumes "mmu_run P s ls s'" and "all_writes_by_core s core" and "only_writer core ls" and "no_fence ls"
  shows "all_writes_by_core s' core"
  using assms
proof (induction rule: mmu_run.induct)
  case (mmu_run_step s s' l ls s'')
  have "only_writer core [l]" "only_writer core ls" "no_fence ls" "\<And>c. l \<noteq> LMFence c"
    using mmu_run_step.prems(2,3) by (cases l; simp)+
  then show ?case using mmu_run_step.IH all_writes_step [OF mmu_run_step.hyps(1) mmu_run_step.prems(1)] by blast
qed

lemma read_current:
  assumes "mmu_run P s (ls @ LMemRead core pa v # ms) s'" and "all_writes_by_core s core" and "only_writer core ls" and "no_fence ls"
  shows "v = mem_read P (mem_after P (mmu_mem s) ls) pa"
proof -
  from assms(1) obtain t where t: "mmu_run P s ls t" and "mmu_run P t (LMemRead core pa v # ms) s'"
    unfolding mmu_run_append by blast
  then have "all_writes_by_core t core \<longrightarrow> v = mem_read P (mmu_mem t) pa"
    by (auto elim!: mmu_run_ConsE simp: mmu_next_simps)
  then show ?thesis using all_writes_run [OF t] mmu_run_mem [OF t] assms by simp
qed

section \<open>Fences\<close>

text \<open>All writes come from one core and hit entries that are not empty at the time.\<close>

fun overwrites_present :: "mmu_params \<Rightarrow> Core \<Rightarrow> PTMemView \<Rightarrow> Lbl list \<Rightarrow> bool" where
  "overwrites_present P core m [] = True"
| "overwrites_present P core m (LMemWrite c pa v # ls) =
     (c = core \<and> written_entry P (mem_read P m pa) \<noteq> GEmpty \<and> overwrites_present P core (mem_write P m pa v) ls)"
| "overwrites_present P core m (_ # ls) = overwrites_present P core m ls"

lemma sufficient_run:
  assumes "mmu_run P s ls s'" and "is_mfence_sufficient s core" and "overwrites_present P core (mmu_mem s) ls"
    and "no_fence ls"
  shows "is_mfence_sufficient s' core"
  using assms
proof (induction rule: mmu_run.induct)
  case (mmu_run_step s s' l ls s'')
  have "is_mfence_sufficient s' core \<and> overwrites_present P core (mmu_mem s') ls \<and> no_fence ls"
    using mmu_run_step.prems mmu_run_step.hyps(1)
    by (cases l) (auto simp: mmu_next_simps is_mfence_sufficient_def)
  then show ?case using mmu_run_step.IH by blast
qed

lemma fence_clears:
  assumes "mmu_run P s (ls @ [LMFence core]) s'" and "mmu_writes s = {}" and "overwrites_present P core (mmu_mem s) ls"
    and "no_fence ls"
  shows "mmu_writes s' = {}" and "mmu_mem s' = mem_after P (mmu_mem s) ls"
proof -
  from assms(1) obtain t where t: "mmu_run P s ls t" and f: "mmu_next P t s' (LMFence core)"
    unfolding mmu_run_append by (auto elim!: mmu_run_ConsE)
  from assms(2) have "is_mfence_sufficient s core" by (simp add: is_mfence_sufficient_def)
  from sufficient_run [OF t this assms(3,4)] f show "mmu_writes s' = {}" by (simp add: mmu_next_simps)
  from f mmu_run_mem [OF t] show "mmu_mem s' = mem_after P (mmu_mem s) ls" by (simp add: mmu_next_simps)
qed

text \<open>
  A write that fills an empty entry survives a fence; and since such a fence may leave any pending
  writes, even the writer's own reads are not known to be current after it.
\<close>

lemma insufficient_fence:
  assumes "w \<in> mmu_writes s" and "pw_old w = GEmpty"
  shows "mmu_next P s (s\<lparr>mmu_writes := ws\<rparr>) (LMFence core)"
  using assms by (auto simp: mmu_next_simps is_mfence_sufficient_def)

lemma fence_forgets_writer:
  assumes "w \<in> mmu_writes s" and "pw_old w = GEmpty"
  shows "\<exists>s'. mmu_run P s [LMFence core, LMemRead reader pa v] s'"
proof -
  obtain other :: Core where other: "other \<noteq> reader" by (metis Core.select_convs(2) n_not_Suc_n)
  let ?s = "s\<lparr>mmu_writes := {\<lparr>pw_core = other, pw_pa = pa, pw_old = GEmpty, pw_new = GEmpty\<rparr>}\<rparr>"
  have "mmu_next P ?s ?s (LMemRead reader pa v)"
    using other by (simp add: mmu_next_simps all_writes_by_core_def)
  then have "mmu_run P ?s [LMemRead reader pa v] ?s" by (rule mmu_run_step) simp
  from mmu_run_step [OF insufficient_fence [OF assms] this] show ?thesis by blast
qed

lemma stale_read:
  assumes "w \<in> mmu_writes s" and "pw_core w \<noteq> core"
  shows "mmu_next P s s (LMemRead core pa v)"
  using assms by (auto simp: mmu_next_simps all_writes_by_core_def)

section \<open>Word memory\<close>

text \<open>
  The parameters for a page table of words at increasing addresses, the layout that the comment
  on \<^verbatim>\<open>PTMemView::read\<close> sketches, with leaf entries and 52 physical address bits.
\<close>

definition word_mmu :: mmu_params where
  "word_mmu = \<lparr>mem_read = (\<lambda>m pa. pv_mem m ! (unat pa div 8)),
     mem_write = (\<lambda>m pa v. m\<lparr>pv_mem := (pv_mem m)[unat pa div 8 := v]\<rparr>),
     phyaddr_width = 52, write_layer = 3, invlpg_clears = True, any_init = (\<lambda>s. mmu_writes s = {})\<rparr>"

text \<open>The word at address 8 is \<open>v\<close>, no write is pending.\<close>

definition word_view :: "usize \<Rightarrow> PTMemView" where
  "word_view v = \<lparr>pv_phys_mem_ref = 0, pv_cr3 = 0, pv_mem = [0, v, 0, 0]\<rparr>"

abbreviation settled :: "usize \<Rightarrow> MMUState" where
  "settled v \<equiv> \<lparr>mmu_mem = word_view v, mmu_writes = {}\<rparr>"

definition mmu_core :: "nat \<Rightarrow> Core" where
  "mmu_core i = \<lparr>NUMA_id = 0, core_id = i\<rparr>"

lemma word_mmu_entries: "written_entry word_mmu 0 = GEmpty" "written_entry word_mmu 1 \<noteq> GEmpty"
  by (code_simp, code_simp)

lemma word_mmu_mem:
  "mem_read word_mmu (word_view v) 8 = v" "mem_write word_mmu (word_view v) 8 w = word_view w"
  by (simp_all add: word_mmu_def word_view_def)

text \<open>
  Core 0 replaces the entry 1, which is present, by 7; core 1 may read the old word before the
  fence and not after it.
\<close>

definition litmus :: "usize \<Rightarrow> usize \<Rightarrow> Lbl list" where
  "litmus before after =
     [LMemWrite (mmu_core 0) 8 7, LMemRead (mmu_core 1) 8 before, LMFence (mmu_core 0), LMemRead (mmu_core 1) 8 after]"

lemma litmus_run: "mmu_run word_mmu (settled 1) (litmus 1 7) (settled 7)"
proof -
  let ?w = "\<lparr>pw_core = mmu_core 0, pw_pa = 8, pw_old = written_entry word_mmu 1, pw_new = written_entry word_mmu 7\<rparr>"
  have w: "mmu_next word_mmu (settled 1) ((settled 7)\<lparr>mmu_writes := {?w}\<rparr>) (LMemWrite (mmu_core 0) 8 7)"
    by (simp add: mmu_next_simps word_mmu_mem)
  have r: "mmu_next word_mmu ((settled 7)\<lparr>mmu_writes := {?w}\<rparr>) ((settled 7)\<lparr>mmu_writes := {?w}\<rparr>) (LMemRead (mmu_core 1) 8 1)"
    by (rule stale_read [of ?w]) (simp_all add: mmu_core_def)
  have f: "mmu_next word_mmu ((settled 7)\<lparr>mmu_writes := {?w}\<rparr>) (settled 7) (LMFence (mmu_core 0))"
    by (simp add: mmu_next_simps)
  have "mmu_next word_mmu (settled 7) (settled 7) (LMemRead (mmu_core 1) 8 7)"
    by (simp add: mmu_next_simps word_mmu_mem)
  then have "mmu_run word_mmu (settled 7) [LMemRead (mmu_core 1) 8 7] (settled 7)" by (rule mmu_run_step) simp
  from mmu_run_step [OF w mmu_run_step [OF r mmu_run_step [OF f this]]] show ?thesis by (simp add: litmus_def)
qed

section \<open>What a fence guarantees, and what it does not\<close>

text \<open>
  C33. A fence does what the code says of it: after a core has overwritten only entries that were
  not empty and has executed a fence, every core reads what was written: up to its own later
  writes, which it sees at once, a read returns the word of the memory that all writes so far, in
  their order, have produced.
\<close>

theorem fenced_reads_are_current:
  assumes run: "mmu_run P s (ls @ [LMFence core] @ ms @ LMemRead reader pa v # ns) s'"
    and "mmu_writes s = {}" and "overwrites_present P core (mmu_mem s) ls" and "no_fence ls"
    and own: "only_writer reader ms" "no_fence ms"
  shows "v = mem_read P (mem_after P (mmu_mem s) (ls @ ms)) pa"
proof -
  from run have "mmu_run P s ((ls @ [LMFence core]) @ ms @ LMemRead reader pa v # ns) s'" by simp
  then obtain t where t: "mmu_run P s (ls @ [LMFence core]) t" "mmu_run P t (ms @ LMemRead reader pa v # ns) s'"
    unfolding mmu_run_append [of P s "ls @ [LMFence core]"] by blast
  note c = fence_clears [OF t(1) assms(2,3,4)]
  have "all_writes_by_core t reader" using c(1) by (simp add: all_writes_by_core_def)
  from read_current [OF t(2) this own] c(2) show ?thesis by simp
qed

theorem fenced_reads_are_current_witness:
  "mmu_run word_mmu (settled 1) (litmus 1 7) (settled 7) \<and>
   mem_read word_mmu (mem_after word_mmu (word_view 1) [LMemWrite (mmu_core 0) 8 7, LMemRead (mmu_core 1) 8 1]) 8 = 7"
proof -
  have present: "overwrites_present word_mmu (mmu_core 0) (mmu_mem (settled 1)) [LMemWrite (mmu_core 0) 8 7, LMemRead (mmu_core 1) 8 1]"
    by (simp add: word_mmu_mem word_mmu_entries)
  show ?thesis
    using litmus_run fenced_reads_are_current [of word_mmu "settled 1" "[LMemWrite (mmu_core 0) 8 7, LMemRead (mmu_core 1) 8 1]"
        "mmu_core 0" "[]" "mmu_core 1" 8 7 "[]", OF _ _ present]
    by (simp add: litmus_def)
qed

text \<open>
  C34. The case the fence is meant for is not covered: after a core has filled an empty entry and
  has executed a fence, a read of the entry by any core, its own reads included, may still
  return any value, the one from before the write among them.
\<close>

theorem filled_entry_not_fenced:
  assumes "written_entry P (mem_read P (mmu_mem s) pa) = GEmpty"
  shows "\<exists>s'. mmu_run P s [LMemWrite core pa new, LMFence core, LMemRead reader pa v] s'"
proof -
  let ?w = "\<lparr>pw_core = core, pw_pa = pa, pw_old = written_entry P (mem_read P (mmu_mem s) pa), pw_new = written_entry P new\<rparr>"
  let ?s = "s\<lparr>mmu_mem := mem_write P (mmu_mem s) pa new, mmu_writes := insert ?w (mmu_writes s)\<rparr>"
  have write_step: "mmu_next P s ?s (LMemWrite core pa new)" by (simp add: mmu_next_simps)
  obtain s' where "mmu_run P ?s [LMFence core, LMemRead reader pa v] s'"
    using fence_forgets_writer [of ?w ?s P core reader pa v] assms by auto
  from mmu_run_step [OF write_step this] show ?thesis by blast
qed

theorem filled_entry_not_fenced_witness:
  "\<exists>s'. mmu_run word_mmu (settled 0) [LMemWrite (mmu_core 0) 8 7, LMFence (mmu_core 0), LMemRead (mmu_core 1) 8 0] s'"
  using filled_entry_not_fenced [of word_mmu "settled 0" 8] by (simp add: word_mmu_mem word_mmu_entries)

end
