(* ===== verification/HL_Spec.thy ===== *)
theory HL_Spec
  imports PT_Memory
begin

text \<open>
  What user processes see of virtual memory, \<^verbatim>\<open>page-table/spec_t/hlspec.rs\<close>: a map
  of memory words, a map of mappings, and the operation each thread has in flight. Mapping
  and unmapping take two steps, so that reads and writes of other threads can happen in
  between. The flag \<open>hl_sound\<close> turns false when a process starts an operation that overlaps
  another; from then on nothing is promised.
\<close>

section \<open>State\<close>

record AbstractConstants =
  hl_thread_no :: nat
  hl_phys_mem_size :: nat

datatype AbstractArguments =
    AMap nat PageTableEntry
  | AUnmap nat "PageTableEntry option"
  | AEmpty

record AbstractVariables =
  vmem :: "nat \<rightharpoonup> nat"
  thread_state :: "nat \<rightharpoonup> AbstractArguments"
  hl_mappings :: "nat \<rightharpoonup> PageTableEntry"
  hl_sound :: bool

datatype AbstractStep =
    AReadWrite nat nat RWOp "(nat \<times> PageTableEntry) option"
  | AMapStart nat nat PageTableEntry
  | AMapEnd nat "(unit, unit) rust_result"
  | AUnmapStart nat nat
  | AUnmapEnd nat "(unit, unit) rust_result"
  | AStutter

definition hl_wf :: "AbstractConstants \<Rightarrow> AbstractVariables \<Rightarrow> bool" where
  "hl_wf c s \<longleftrightarrow>
     (\<forall>i. i < hl_thread_no c \<longleftrightarrow> i \<in> dom (thread_state s)) \<and>
     finite (dom (hl_mappings s)) \<and> finite (dom (vmem s))"

definition hl_init :: "AbstractConstants \<Rightarrow> AbstractVariables \<Rightarrow> bool" where
  "hl_init c s \<longleftrightarrow>
     vmem s = Map.empty \<and> hl_mappings s = Map.empty \<and>
     (\<forall>i<hl_thread_no c. the (thread_state s i) = AEmpty) \<and>
     hl_wf c s \<and> hl_sound s"

definition mem_domain_from_entry_contains :: "nat \<Rightarrow> nat \<Rightarrow> nat \<Rightarrow> PageTableEntry \<Rightarrow> bool" where
  "mem_domain_from_entry_contains phys_mem_size vaddr base pte \<longleftrightarrow>
     between vaddr base (base + frame_size pte) \<and>
     word_index_spec (frame_base pte + (vaddr - base)) < phys_mem_size"

definition mem_domain_from_mappings_contains :: "nat \<Rightarrow> nat \<Rightarrow> (nat \<rightharpoonup> PageTableEntry) \<Rightarrow> bool" where
  "mem_domain_from_mappings_contains phys_mem_size word_idx mappings \<longleftrightarrow>
     (\<exists>base pte. mappings base = Some pte \<and>
        mem_domain_from_entry_contains phys_mem_size (word_idx * WORD_SIZE) base pte)"

definition mem_domain_from_mappings :: "nat \<Rightarrow> (nat \<rightharpoonup> PageTableEntry) \<Rightarrow> nat set" where
  "mem_domain_from_mappings phys_mem_size mappings =
     {word_idx. mem_domain_from_mappings_contains phys_mem_size word_idx mappings}"

definition mem_domain_from_entry :: "nat \<Rightarrow> nat \<Rightarrow> PageTableEntry \<Rightarrow> nat set" where
  "mem_domain_from_entry phys_mem_size base pte =
     {word_idx. mem_domain_from_entry_contains phys_mem_size (word_idx * WORD_SIZE) base pte}"

definition valid_thread :: "AbstractConstants \<Rightarrow> nat \<Rightarrow> bool" where
  "valid_thread c thread_id \<longleftrightarrow> thread_id < hl_thread_no c"

definition state_unchanged_besides_thread_state ::
    "AbstractVariables \<Rightarrow> AbstractVariables \<Rightarrow> nat \<Rightarrow> AbstractArguments \<Rightarrow> bool" where
  "state_unchanged_besides_thread_state s1 s2 thread_id thread_arguments \<longleftrightarrow>
     thread_state s2 = (thread_state s1)(thread_id \<mapsto> thread_arguments) \<and>
     vmem s2 = vmem s1 \<and> hl_mappings s2 = hl_mappings s1 \<and> hl_sound s2 = hl_sound s1"

definition unsound_state :: "AbstractVariables \<Rightarrow> AbstractVariables \<Rightarrow> bool" where
  "unsound_state s1 s2 \<longleftrightarrow> \<not> hl_sound s2"

section \<open>Overlap with operations in flight\<close>

definition hl_overlaps_inflight_vmem :: "AbstractArguments set \<Rightarrow> nat \<Rightarrow> nat \<Rightarrow> bool" where
  "hl_overlaps_inflight_vmem inflightargs base candidate_size \<longleftrightarrow>
     (\<exists>b\<in>inflightargs. case b of
        AMap vaddr pte \<Rightarrow>
          overlap \<lparr>mr_base = vaddr, mr_size = frame_size pte\<rparr> \<lparr>mr_base = base, mr_size = candidate_size\<rparr>
      | AUnmap vaddr pte \<Rightarrow>
          let sz = (case pte of Some p \<Rightarrow> frame_size p | None \<Rightarrow> 0) in
          overlap \<lparr>mr_base = vaddr, mr_size = sz\<rparr> \<lparr>mr_base = base, mr_size = candidate_size\<rparr>
      | AEmpty \<Rightarrow> False)"

definition hl_overlaps_inflight_pmem :: "AbstractArguments set \<Rightarrow> PageTableEntry \<Rightarrow> bool" where
  "hl_overlaps_inflight_pmem inflightargs candidate \<longleftrightarrow>
     (\<exists>b\<in>inflightargs. case b of
        AMap vaddr pte \<Rightarrow> overlap (pte_frame candidate) (pte_frame pte)
      | AUnmap vaddr pte \<Rightarrow>
          (case pte of Some p \<Rightarrow> overlap (pte_frame candidate) (pte_frame p) | None \<Rightarrow> False)
      | AEmpty \<Rightarrow> False)"

section \<open>Steps\<close>

definition hl_step_ReadWrite ::
    "AbstractConstants \<Rightarrow> AbstractVariables \<Rightarrow> AbstractVariables \<Rightarrow> nat \<Rightarrow> nat \<Rightarrow> RWOp \<Rightarrow>
     (nat \<times> PageTableEntry) option \<Rightarrow> bool" where
  "hl_step_ReadWrite c s1 s2 thread_id vaddr op pte \<longleftrightarrow>
    (let vmem_idx = word_index_spec vaddr in
     hl_sound s2 = hl_sound s1 \<and>
     aligned vaddr 8 \<and>
     hl_mappings s2 = hl_mappings s1 \<and>
     valid_thread c thread_id \<and>
     the (thread_state s1 thread_id) = AEmpty \<and>
     thread_state s2 = thread_state s1 \<and>
     (case pte of
        Some (base, pte) \<Rightarrow>
          let pmem_idx = word_index_spec (frame_base pte + (vaddr - base)) in
          hl_mappings s1 base = Some pte \<and>
          between vaddr base (base + frame_size pte) \<and>
          (case op of
             Store new_value result \<Rightarrow>
               if pmem_idx < hl_phys_mem_size c \<and> \<not> is_supervisor (pte_flags pte)
                  \<and> is_writable (pte_flags pte)
               then result = StoreOk \<and> vmem s2 = (vmem s1)(vmem_idx \<mapsto> new_value)
               else result = StoreUndefined \<and> vmem s2 = vmem s1
           | Load is_exec result \<Rightarrow>
               vmem s2 = vmem s1 \<and>
               (if pmem_idx < hl_phys_mem_size c \<and> \<not> is_supervisor (pte_flags pte)
                   \<and> (is_exec \<longrightarrow> \<not> disable_execute (pte_flags pte))
                then result = LoadValue (the (vmem s1 vmem_idx))
                else result = LoadUndefined))
      | None \<Rightarrow>
          vmem_idx \<notin> mem_domain_from_mappings (hl_phys_mem_size c) (hl_mappings s1) \<and>
          vmem s2 = vmem s1 \<and>
          (case op of
             Store new_value result \<Rightarrow> result = StoreUndefined
           | Load is_exec result \<Rightarrow> result = LoadUndefined)))"

definition hl_step_Map_sound ::
    "(nat \<rightharpoonup> PageTableEntry) \<Rightarrow> AbstractArguments set \<Rightarrow> nat \<Rightarrow> PageTableEntry \<Rightarrow> bool" where
  "hl_step_Map_sound mappings inflights vaddr pte \<longleftrightarrow>
     \<not> hl_overlaps_inflight_vmem inflights vaddr (frame_size pte) \<and>
     \<not> candidate_mapping_overlaps_existing_pmem mappings pte \<and>
     \<not> hl_overlaps_inflight_pmem inflights pte"

definition hl_step_Map_enabled :: "nat \<Rightarrow> nat \<Rightarrow> PageTableEntry \<Rightarrow> bool" where
  "hl_step_Map_enabled mw vaddr pte \<longleftrightarrow>
     aligned vaddr (frame_size pte) \<and>
     aligned (frame_base pte) (frame_size pte) \<and>
     frame_base pte \<le> unat (MAX_PHYADDR mw) \<and>
     candidate_mapping_in_bounds vaddr pte \<and>
     (frame_size pte = L3_ENTRY_SIZE \<or> frame_size pte = L2_ENTRY_SIZE \<or> frame_size pte = L1_ENTRY_SIZE)"

definition hl_step_Map_start ::
    "nat \<Rightarrow> AbstractConstants \<Rightarrow> AbstractVariables \<Rightarrow> AbstractVariables \<Rightarrow> nat \<Rightarrow> nat \<Rightarrow>
     PageTableEntry \<Rightarrow> bool" where
  "hl_step_Map_start mw c s1 s2 thread_id vaddr pte \<longleftrightarrow>
     hl_step_Map_enabled mw vaddr pte \<and>
     valid_thread c thread_id \<and>
     the (thread_state s1 thread_id) = AEmpty \<and>
     (if hl_step_Map_sound (hl_mappings s1) (ran (thread_state s1)) vaddr pte
      then state_unchanged_besides_thread_state s1 s2 thread_id (AMap vaddr pte)
      else unsound_state s1 s2)"

definition hl_step_Map_end ::
    "AbstractConstants \<Rightarrow> AbstractVariables \<Rightarrow> AbstractVariables \<Rightarrow> nat \<Rightarrow>
     (unit, unit) rust_result \<Rightarrow> bool" where
  "hl_step_Map_end c s1 s2 thread_id result \<longleftrightarrow>
     hl_sound s2 = hl_sound s1 \<and>
     valid_thread c thread_id \<and>
     thread_state s2 = (thread_state s1)(thread_id \<mapsto> AEmpty) \<and>
     (case the (thread_state s1 thread_id) of
        AMap vaddr pte \<Rightarrow>
          (if candidate_mapping_overlaps_existing_vmem (hl_mappings s1) vaddr pte
           then is_Err result \<and> hl_mappings s2 = hl_mappings s1 \<and> vmem s2 = vmem s1
           else is_Ok result \<and>
             hl_mappings s2 = (hl_mappings s1)(vaddr \<mapsto> pte) \<and>
             (\<forall>idx\<in>dom (vmem s1). the (vmem s2 idx) = the (vmem s1 idx)) \<and>
             dom (vmem s2) = mem_domain_from_mappings (hl_phys_mem_size c) (hl_mappings s2))
      | _ \<Rightarrow> False)"

definition hl_step_Unmap_sound :: "AbstractArguments set \<Rightarrow> nat \<Rightarrow> nat \<Rightarrow> bool" where
  "hl_step_Unmap_sound inflights vaddr pte_size \<longleftrightarrow> \<not> hl_overlaps_inflight_vmem inflights vaddr pte_size"

definition hl_step_Unmap_enabled :: "nat \<Rightarrow> bool" where
  "hl_step_Unmap_enabled vaddr \<longleftrightarrow>
     vaddr < arch_upper_vaddr x86_arch_spec 0 0 \<and>
     (aligned vaddr L3_ENTRY_SIZE \<or> aligned vaddr L2_ENTRY_SIZE \<or> aligned vaddr L1_ENTRY_SIZE)"

definition hl_step_Unmap_start ::
    "AbstractConstants \<Rightarrow> AbstractVariables \<Rightarrow> AbstractVariables \<Rightarrow> nat \<Rightarrow> nat \<Rightarrow> bool" where
  "hl_step_Unmap_start c s1 s2 thread_id vaddr \<longleftrightarrow>
    (let pte = hl_mappings s1 vaddr;
         pte_size = (case pte of Some p \<Rightarrow> frame_size p | None \<Rightarrow> 0) in
     hl_step_Unmap_enabled vaddr \<and>
     valid_thread c thread_id \<and>
     the (thread_state s1 thread_id) = AEmpty \<and>
     (if hl_step_Unmap_sound (ran (thread_state s1)) vaddr pte_size then
        thread_state s2 = (thread_state s1)(thread_id \<mapsto> AUnmap vaddr pte) \<and>
        (if pte = None then hl_mappings s2 = hl_mappings s1 \<and> vmem s2 = vmem s1
         else hl_mappings s2 = (hl_mappings s1)(vaddr := None) \<and>
           dom (vmem s2) = mem_domain_from_mappings (hl_phys_mem_size c) (hl_mappings s2) \<and>
           (\<forall>idx\<in>dom (vmem s2). the (vmem s2 idx) = the (vmem s1 idx))) \<and>
        dom (vmem s2) =
          mem_domain_from_mappings (hl_phys_mem_size c) ((hl_mappings s1)(vaddr := None)) \<and>
        hl_sound s2 = hl_sound s1
      else unsound_state s1 s2))"

definition hl_step_Unmap_end ::
    "AbstractConstants \<Rightarrow> AbstractVariables \<Rightarrow> AbstractVariables \<Rightarrow> nat \<Rightarrow>
     (unit, unit) rust_result \<Rightarrow> bool" where
  "hl_step_Unmap_end c s1 s2 thread_id result \<longleftrightarrow>
     valid_thread c thread_id \<and>
     thread_state s2 = (thread_state s1)(thread_id \<mapsto> AEmpty) \<and>
     hl_sound s2 = hl_sound s1 \<and> hl_mappings s2 = hl_mappings s1 \<and> vmem s2 = vmem s1 \<and>
     (case the (thread_state s1 thread_id) of
        AUnmap vaddr pte \<Rightarrow> if pte \<noteq> None then is_Ok result else is_Err result
      | _ \<Rightarrow> False)"

definition hl_step_Stutter :: "AbstractConstants \<Rightarrow> AbstractVariables \<Rightarrow> AbstractVariables \<Rightarrow> bool" where
  "hl_step_Stutter c s1 s2 \<longleftrightarrow> s1 = s2"

definition hl_next_step ::
    "nat \<Rightarrow> AbstractConstants \<Rightarrow> AbstractVariables \<Rightarrow> AbstractVariables \<Rightarrow> AbstractStep \<Rightarrow> bool" where
  "hl_next_step mw c s1 s2 step \<longleftrightarrow>
     (if hl_sound s1 then
        (case step of
           AReadWrite thread_id vaddr op pte \<Rightarrow> hl_step_ReadWrite c s1 s2 thread_id vaddr op pte
         | AMapStart thread_id vaddr pte \<Rightarrow> hl_step_Map_start mw c s1 s2 thread_id vaddr pte
         | AMapEnd thread_id result \<Rightarrow> hl_step_Map_end c s1 s2 thread_id result
         | AUnmapStart thread_id vaddr \<Rightarrow> hl_step_Unmap_start c s1 s2 thread_id vaddr
         | AUnmapEnd thread_id result \<Rightarrow> hl_step_Unmap_end c s1 s2 thread_id result
         | AStutter \<Rightarrow> hl_step_Stutter c s1 s2)
      else \<not> hl_sound s2)"

definition hl_next :: "nat \<Rightarrow> AbstractConstants \<Rightarrow> AbstractVariables \<Rightarrow> AbstractVariables \<Rightarrow> bool" where
  "hl_next mw c s1 s2 \<longleftrightarrow> (\<exists>step. hl_next_step mw c s1 s2 step)"

section \<open>Invariant\<close>

definition pmem_no_overlap :: "(nat \<rightharpoonup> PageTableEntry) \<Rightarrow> bool" where
  "pmem_no_overlap mappings \<longleftrightarrow>
     (\<forall>b1\<in>dom mappings. \<forall>b2\<in>dom mappings.
        overlap (pte_frame (the (mappings b1))) (pte_frame (the (mappings b2))) \<longrightarrow> b1 = b2)"

definition inflight_map_no_overlap_pmem :: "AbstractArguments set \<Rightarrow> (nat \<rightharpoonup> PageTableEntry) \<Rightarrow> bool" where
  "inflight_map_no_overlap_pmem inflightargs mappings \<longleftrightarrow>
     (\<forall>b\<in>inflightargs. case b of
        AMap vaddr pte \<Rightarrow> \<not> candidate_mapping_overlaps_existing_pmem mappings pte
      | _ \<Rightarrow> True)"

definition inflight_map_no_overlap_inflight_pmem :: "AbstractArguments set \<Rightarrow> bool" where
  "inflight_map_no_overlap_inflight_pmem inflightargs \<longleftrightarrow>
     (\<forall>b\<in>inflightargs. case b of
        AMap vaddr pte \<Rightarrow> \<not> hl_overlaps_inflight_pmem (inflightargs - {b}) pte
      | _ \<Rightarrow> True)"

definition mappings_frame_sizes_over_zero :: "(nat \<rightharpoonup> PageTableEntry) \<Rightarrow> bool" where
  "mappings_frame_sizes_over_zero mappings \<longleftrightarrow>
     (\<forall>base\<in>dom mappings. above_zero (frame_size (the (mappings base))))"

definition inflight_mem_size_over_zero :: "AbstractArguments set \<Rightarrow> bool" where
  "inflight_mem_size_over_zero inflightargs \<longleftrightarrow>
     (\<forall>b\<in>inflightargs. case b of AMap vaddr pte \<Rightarrow> above_zero (frame_size pte) | _ \<Rightarrow> True)"

definition if_map_then_unique :: "(nat \<rightharpoonup> AbstractArguments) \<Rightarrow> nat \<Rightarrow> bool" where
  "if_map_then_unique ts i \<longleftrightarrow>
     (case the (ts i) of
        AMap vaddr pte \<Rightarrow> the (ts i) \<notin> ran (ts(i := None))
      | _ \<Rightarrow> True)"

definition inflight_maps_unique :: "(nat \<rightharpoonup> AbstractArguments) \<Rightarrow> bool" where
  "inflight_maps_unique ts \<longleftrightarrow> (\<forall>a\<in>dom ts. if_map_then_unique ts a)"

definition hl_inv :: "AbstractConstants \<Rightarrow> AbstractVariables \<Rightarrow> bool" where
  "hl_inv c s \<longleftrightarrow>
     hl_wf c s \<and> pmem_no_overlap (hl_mappings s) \<and>
     inflight_map_no_overlap_pmem (ran (thread_state s)) (hl_mappings s) \<and>
     inflight_map_no_overlap_inflight_pmem (ran (thread_state s)) \<and>
     mappings_frame_sizes_over_zero (hl_mappings s) \<and>
     inflight_mem_size_over_zero (ran (thread_state s)) \<and>
     inflight_maps_unique (thread_state s)"

end
