(* ===== verification/OS_Machine.thy ===== *)
theory OS_Machine
  imports HW_Machine HL_Spec
begin

text \<open>
  The whole system, \<^verbatim>\<open>page-table/spec_t/os.rs\<close>: user-level threads pinned to cores
  start mapping and unmapping operations, a kernel lock lets one core at a time change the
  page table, and an unmap that removed an entry asks all cores to drop it from their TLBs
  before it ends. The state interprets into the process-level specification \<open>HL_Spec\<close>.
\<close>

section \<open>State\<close>

record OSConstants =
  os_hwc :: HWConstants
  ULT2core :: "nat \<rightharpoonup> Core"
  ULT_no :: nat

record ShootdownVector =
  sd_vaddr :: nat
  open_requests :: "Core set"

type_synonym unmap_result = "(PageTableEntry, unit) rust_result"

datatype CoreState =
    CIdle
  | MapWaiting nat nat PageTableEntry
  | MapExecuting nat nat PageTableEntry
  | UnmapWaiting nat nat
  | UnmapOpExecuting nat nat unmap_result
  | UnmapOpDone nat nat unmap_result
  | UnmapShootdownWaiting nat nat unmap_result

record OSVariables =
  os_hw :: HWVariables
  core_states :: "Core \<rightharpoonup> CoreState"
  TLB_Shootdown :: ShootdownVector
  os_sound :: bool

abbreviation core_state :: "OSVariables \<Rightarrow> Core \<Rightarrow> CoreState" where
  "core_state s core \<equiv> the (core_states s core)"

abbreviation ult_core :: "OSConstants \<Rightarrow> nat \<Rightarrow> Core" where
  "ult_core c ULT_id \<equiv> the (ULT2core c ULT_id)"

fun holds_lock :: "CoreState \<Rightarrow> bool" where
  "holds_lock CIdle = False"
| "holds_lock (MapWaiting _ _ _) = False"
| "holds_lock (UnmapWaiting _ _) = False"
| "holds_lock _ = True"

definition is_idle :: "CoreState \<Rightarrow> bool" where
  "is_idle st \<longleftrightarrow> st = CIdle"

fun result_pte_size :: "unmap_result \<Rightarrow> nat" where
  "result_pte_size (Ok pte) = frame_size pte"
| "result_pte_size (Err _) = 0"

definition mapped_size :: "(nat \<rightharpoonup> PageTableEntry) \<Rightarrow> nat \<Rightarrow> nat" where
  "mapped_size pt vaddr = (case pt vaddr of Some pte \<Rightarrow> frame_size pte | None \<Rightarrow> 0)"

fun vmem_pte_size :: "CoreState \<Rightarrow> (nat \<rightharpoonup> PageTableEntry) \<Rightarrow> nat" where
  "vmem_pte_size (MapWaiting _ _ pte) pt = frame_size pte"
| "vmem_pte_size (MapExecuting _ _ pte) pt = frame_size pte"
| "vmem_pte_size (UnmapWaiting _ vaddr) pt = mapped_size pt vaddr"
| "vmem_pte_size (UnmapOpExecuting _ _ result) pt = result_pte_size result"
| "vmem_pte_size (UnmapOpDone _ _ result) pt = result_pte_size result"
| "vmem_pte_size (UnmapShootdownWaiting _ _ result) pt = result_pte_size result"
| "vmem_pte_size CIdle pt = undefined"

fun cs_vaddr :: "CoreState \<Rightarrow> nat" where
  "cs_vaddr (MapWaiting _ vaddr _) = vaddr"
| "cs_vaddr (MapExecuting _ vaddr _) = vaddr"
| "cs_vaddr (UnmapWaiting _ vaddr) = vaddr"
| "cs_vaddr (UnmapOpExecuting _ vaddr _) = vaddr"
| "cs_vaddr (UnmapOpDone _ vaddr _) = vaddr"
| "cs_vaddr (UnmapShootdownWaiting _ vaddr _) = vaddr"
| "cs_vaddr CIdle = undefined"

definition valid_ULT :: "OSConstants \<Rightarrow> nat \<Rightarrow> bool" where
  "valid_ULT c ULT_id \<longleftrightarrow> ULT_id < ULT_no c"

definition osc_interp :: "OSConstants \<Rightarrow> AbstractConstants" where
  "osc_interp c = \<lparr>hl_thread_no = ULT_no c, hl_phys_mem_size = hw_phys_mem_size (os_hwc c)\<rparr>"

definition kernel_lock :: "OSConstants \<Rightarrow> OSVariables \<Rightarrow> Core option" where
  "kernel_lock c s =
     (if \<exists>core. valid_core (os_hwc c) core \<and> holds_lock (core_state s core)
      then Some (SOME core. valid_core (os_hwc c) core \<and> holds_lock (core_state s core))
      else None)"

definition pt_variables :: "OSVariables \<Rightarrow> PageTableVariables" where
  "pt_variables s = \<lparr>pt_mem = global_pt (os_hw s)\<rparr>"

definition os_pt :: "nat \<Rightarrow> OSVariables \<Rightarrow> nat \<rightharpoonup> PageTableEntry" where
  "os_pt mw s = interp_pt_mem mw (global_pt (os_hw s))"

section \<open>Invariants stated by the source\<close>

fun cs_ULT :: "CoreState \<Rightarrow> nat option" where
  "cs_ULT (MapWaiting ULT_id _ _) = Some ULT_id"
| "cs_ULT (MapExecuting ULT_id _ _) = Some ULT_id"
| "cs_ULT (UnmapWaiting ULT_id _) = Some ULT_id"
| "cs_ULT (UnmapOpExecuting ULT_id _ _) = Some ULT_id"
| "cs_ULT (UnmapOpDone ULT_id _ _) = Some ULT_id"
| "cs_ULT (UnmapShootdownWaiting ULT_id _ _) = Some ULT_id"
| "cs_ULT CIdle = None"

definition valid_ids :: "OSConstants \<Rightarrow> OSVariables \<Rightarrow> bool" where
  "valid_ids c s \<longleftrightarrow>
     (\<forall>core. valid_core (os_hwc c) core \<longrightarrow>
        (case cs_ULT (core_state s core) of
           Some ULT_id \<Rightarrow> valid_ULT c ULT_id \<and> ult_core c ULT_id = core
         | None \<Rightarrow> True))"

definition successful_unmaps :: "nat \<Rightarrow> OSConstants \<Rightarrow> OSVariables \<Rightarrow> bool" where
  "successful_unmaps mw c s \<longleftrightarrow>
     (\<forall>core. valid_core (os_hwc c) core \<longrightarrow>
        (case core_state s core of
           UnmapOpExecuting _ vaddr _ \<Rightarrow> vaddr \<notin> dom (os_pt mw s)
         | UnmapOpDone _ vaddr _ \<Rightarrow> vaddr \<notin> dom (os_pt mw s)
         | UnmapShootdownWaiting _ vaddr _ \<Rightarrow> vaddr \<notin> dom (os_pt mw s)
         | _ \<Rightarrow> True))"

definition os_wf :: "OSConstants \<Rightarrow> OSVariables \<Rightarrow> bool" where
  "os_wf c s \<longleftrightarrow>
     (\<forall>i. valid_ULT c i \<longleftrightarrow> i \<in> dom (ULT2core c)) \<and>
     (\<forall>i. valid_ULT c i \<longrightarrow> valid_core (os_hwc c) (ult_core c i)) \<and>
     (\<forall>core. valid_core (os_hwc c) core \<longleftrightarrow> core \<in> dom (core_states s)) \<and>
     (\<forall>core1 core2. valid_core (os_hwc c) core1 \<and> holds_lock (core_state s core1) \<and>
        valid_core (os_hwc c) core2 \<and> holds_lock (core_state s core2) \<longrightarrow> core1 = core2)"

definition basic_inv :: "nat \<Rightarrow> OSConstants \<Rightarrow> OSVariables \<Rightarrow> bool" where
  "basic_inv mw c s \<longleftrightarrow> os_wf c s \<and> valid_ids c s \<and> successful_unmaps mw c s"

definition shootdown_cores_valid :: "OSConstants \<Rightarrow> OSVariables \<Rightarrow> bool" where
  "shootdown_cores_valid c s \<longleftrightarrow> (\<forall>core\<in>open_requests (TLB_Shootdown s). valid_core (os_hwc c) core)"

definition successful_IPI :: "OSConstants \<Rightarrow> OSVariables \<Rightarrow> bool" where
  "successful_IPI c s \<longleftrightarrow>
     (\<forall>dispatcher. valid_core (os_hwc c) dispatcher \<longrightarrow>
        (case core_state s dispatcher of
           UnmapShootdownWaiting _ vaddr _ \<Rightarrow>
             (\<forall>handler. handler \<notin> open_requests (TLB_Shootdown s) \<longrightarrow>
                vaddr \<notin> dom (core_tlb (os_hw s) handler))
         | _ \<Rightarrow> True))"

definition Unmap_vaddr :: "OSVariables \<Rightarrow> nat set" where
  "Unmap_vaddr s =
     {v. \<exists>core\<in>dom (core_states s).
           case core_state s core of
             UnmapOpDone _ vaddr result \<Rightarrow> is_Ok result \<and> vaddr = v
           | UnmapShootdownWaiting _ vaddr result \<Rightarrow> is_Ok result \<and> vaddr = v
           | _ \<Rightarrow> False}"

definition TLB_dom_subset_of_pt_and_inflight_unmap_vaddr :: "nat \<Rightarrow> OSConstants \<Rightarrow> OSVariables \<Rightarrow> bool" where
  "TLB_dom_subset_of_pt_and_inflight_unmap_vaddr mw c s \<longleftrightarrow>
     (\<forall>core. valid_core (os_hwc c) core \<longrightarrow>
        dom (core_tlb (os_hw s) core) \<subseteq> dom (os_pt mw s) \<union> Unmap_vaddr s)"

definition tlb_inv :: "nat \<Rightarrow> OSConstants \<Rightarrow> OSVariables \<Rightarrow> bool" where
  "tlb_inv mw c s \<longleftrightarrow>
     shootdown_cores_valid c s \<and> successful_IPI c s \<and>
     TLB_dom_subset_of_pt_and_inflight_unmap_vaddr mw c s"

definition cs_region :: "nat \<Rightarrow> OSVariables \<Rightarrow> Core \<Rightarrow> MemRegion" where
  "cs_region mw s core =
     \<lparr>mr_base = cs_vaddr (core_state s core), mr_size = vmem_pte_size (core_state s core) (os_pt mw s)\<rparr>"

definition inflight_map_no_overlap_inflight_vmem :: "nat \<Rightarrow> OSConstants \<Rightarrow> OSVariables \<Rightarrow> bool" where
  "inflight_map_no_overlap_inflight_vmem mw c s \<longleftrightarrow>
     (\<forall>core1 core2. valid_core (os_hwc c) core1 \<and> valid_core (os_hwc c) core2 \<and>
        \<not> is_idle (core_state s core1) \<and> \<not> is_idle (core_state s core2) \<and>
        overlap (cs_region mw s core1) (cs_region mw s core2) \<longrightarrow> core1 = core2)"

definition existing_map_no_overlap_existing_vmem :: "nat \<Rightarrow> OSVariables \<Rightarrow> bool" where
  "existing_map_no_overlap_existing_vmem mw s \<longleftrightarrow>
     (\<forall>vaddr\<in>dom (os_pt mw s).
        \<not> candidate_mapping_overlaps_existing_vmem ((os_pt mw s)(vaddr := None)) vaddr
            (the (os_pt mw s vaddr)))"

definition overlapping_vmem_inv :: "nat \<Rightarrow> OSConstants \<Rightarrow> OSVariables \<Rightarrow> bool" where
  "overlapping_vmem_inv mw c s \<longleftrightarrow>
     (os_sound s \<longrightarrow>
        inflight_map_no_overlap_inflight_vmem mw c s \<and> existing_map_no_overlap_existing_vmem mw s)"

definition os_inv :: "nat \<Rightarrow> OSConstants \<Rightarrow> OSVariables \<Rightarrow> bool" where
  "os_inv mw c s \<longleftrightarrow> basic_inv mw c s \<and> overlapping_vmem_inv mw c s"

section \<open>Interpretation\<close>

definition inflight_unmap_vaddr :: "nat \<Rightarrow> OSVariables \<Rightarrow> nat set" where
  "inflight_unmap_vaddr mw s =
     {v. v \<in> dom (os_pt mw s) \<and>
         (\<exists>core\<in>dom (core_states s).
            case core_state s core of
              UnmapWaiting _ vaddr \<Rightarrow> vaddr = v
            | UnmapOpExecuting _ vaddr _ \<Rightarrow> vaddr = v
            | UnmapOpDone _ vaddr _ \<Rightarrow> vaddr = v
            | UnmapShootdownWaiting _ vaddr _ \<Rightarrow> vaddr = v
            | _ \<Rightarrow> False)}"

definition effective_mappings :: "nat \<Rightarrow> OSVariables \<Rightarrow> nat \<rightharpoonup> PageTableEntry" where
  "effective_mappings mw s =
     (\<lambda>v. if v \<in> dom (os_pt mw s) \<and> v \<notin> inflight_unmap_vaddr mw s then os_pt mw s v else None)"

definition interp_vmem :: "nat \<Rightarrow> OSConstants \<Rightarrow> OSVariables \<Rightarrow> nat \<rightharpoonup> nat" where
  "interp_vmem mw c s =
     (let mappings = effective_mappings mw s in
      (\<lambda>vmem_idx.
        (if mem_domain_from_mappings_contains (hl_phys_mem_size (osc_interp c)) vmem_idx mappings then
          (let vaddr = vmem_idx * WORD_SIZE;
               entry = (SOME e. mappings (fst e) = Some (snd e) \<and>
                          between vaddr (fst e) (fst e + frame_size (snd e)));
               paddr = frame_base (snd entry) + (vaddr - fst entry)
           in Some (hw_mem (os_hw s) ! word_index_spec paddr))
        else None)))"

definition result_pte :: "unmap_result \<Rightarrow> PageTableEntry option" where
  "result_pte result = (case result of Ok pte \<Rightarrow> Some pte | Err _ \<Rightarrow> None)"

definition cs_arguments :: "(nat \<rightharpoonup> PageTableEntry) \<Rightarrow> nat \<Rightarrow> CoreState \<Rightarrow> AbstractArguments" where
  "cs_arguments pt ult_id st =
     (case st of
        MapWaiting ULT_id vaddr pte \<Rightarrow> if ULT_id = ult_id then AMap vaddr pte else AEmpty
      | MapExecuting ULT_id vaddr pte \<Rightarrow> if ULT_id = ult_id then AMap vaddr pte else AEmpty
      | UnmapWaiting ULT_id vaddr \<Rightarrow> if ULT_id = ult_id then AUnmap vaddr (pt vaddr) else AEmpty
      | UnmapOpExecuting ULT_id vaddr result \<Rightarrow>
          if ULT_id = ult_id then AUnmap vaddr (result_pte result) else AEmpty
      | UnmapOpDone ULT_id vaddr result \<Rightarrow>
          if ULT_id = ult_id then AUnmap vaddr (result_pte result) else AEmpty
      | UnmapShootdownWaiting ULT_id vaddr result \<Rightarrow>
          if ULT_id = ult_id then AUnmap vaddr (result_pte result) else AEmpty
      | CIdle \<Rightarrow> AEmpty)"

definition interp_thread_state :: "nat \<Rightarrow> OSConstants \<Rightarrow> OSVariables \<Rightarrow> nat \<rightharpoonup> AbstractArguments" where
  "interp_thread_state mw c s =
     (\<lambda>ult_id. if valid_ULT c ult_id
        then Some (cs_arguments (os_pt mw s) ult_id (core_state s (ult_core c ult_id))) else None)"

definition os_interp :: "nat \<Rightarrow> OSConstants \<Rightarrow> OSVariables \<Rightarrow> AbstractVariables" where
  "os_interp mw c s =
     \<lparr>vmem = interp_vmem mw c s, thread_state = interp_thread_state mw c s,
      hl_mappings = effective_mappings mw s, hl_sound = os_sound s\<rparr>"

section \<open>Overlap with operations in flight\<close>

definition os_overlaps_inflight_pmem ::
    "(nat \<rightharpoonup> PageTableEntry) \<Rightarrow> CoreState set \<Rightarrow> PageTableEntry \<Rightarrow> bool" where
  "os_overlaps_inflight_pmem pt inflightargs candidate \<longleftrightarrow>
     (\<exists>b\<in>inflightargs. case b of
        MapWaiting _ vaddr pte \<Rightarrow> overlap (pte_frame candidate) (pte_frame pte)
      | MapExecuting _ vaddr pte \<Rightarrow> overlap (pte_frame candidate) (pte_frame pte)
      | UnmapWaiting _ vaddr \<Rightarrow>
          vaddr \<in> dom pt \<and> overlap (pte_frame candidate) (pte_frame (the (pt vaddr)))
      | UnmapOpExecuting _ vaddr result \<Rightarrow>
          is_Ok result \<and> overlap (pte_frame candidate) (pte_frame (get_Ok result))
      | UnmapOpDone _ vaddr result \<Rightarrow>
          is_Ok result \<and> overlap (pte_frame candidate) (pte_frame (get_Ok result))
      | UnmapShootdownWaiting _ vaddr result \<Rightarrow>
          is_Ok result \<and> overlap (pte_frame candidate) (pte_frame (get_Ok result))
      | CIdle \<Rightarrow> False)"

definition os_overlaps_inflight_vmem ::
    "(nat \<rightharpoonup> PageTableEntry) \<Rightarrow> CoreState set \<Rightarrow> nat \<Rightarrow> nat \<Rightarrow> bool" where
  "os_overlaps_inflight_vmem pt inflightargs base candidate_size \<longleftrightarrow>
     (\<exists>b\<in>inflightargs. b \<noteq> CIdle \<and>
        overlap \<lparr>mr_base = cs_vaddr b, mr_size = vmem_pte_size b pt\<rparr>
          \<lparr>mr_base = base, mr_size = candidate_size\<rparr>)"

section \<open>Steps\<close>

definition os_step_HW ::
    "nat \<Rightarrow> OSConstants \<Rightarrow> OSVariables \<Rightarrow> OSVariables \<Rightarrow> nat \<Rightarrow> HWStep \<Rightarrow> bool" where
  "os_step_HW mw c s1 s2 ULT_id system_step \<longleftrightarrow>
     valid_ULT c ULT_id \<and>
     (core_state s1 (ult_core c ULT_id) = CIdle \<or> is_TLBFill system_step \<or> is_TLBEvict system_step) \<and>
     system_step \<noteq> PTMemOp \<and>
     hw_next_step mw (os_hwc c) (os_hw s1) (os_hw s2) system_step \<and>
     spt_step_Stutter (pt_variables s1) (pt_variables s2) \<and>
     core_states s2 = core_states s1 \<and>
     TLB_Shootdown s2 = TLB_Shootdown s1 \<and>
     os_sound s2 = os_sound s1"

definition os_step_Map_sound ::
    "(nat \<rightharpoonup> PageTableEntry) \<Rightarrow> CoreState set \<Rightarrow> nat \<Rightarrow> PageTableEntry \<Rightarrow> bool" where
  "os_step_Map_sound pt inflightargs vaddr pte \<longleftrightarrow>
     \<not> candidate_mapping_overlaps_existing_pmem pt pte \<and>
     \<not> os_overlaps_inflight_pmem pt inflightargs pte \<and>
     \<not> os_overlaps_inflight_vmem pt inflightargs vaddr (frame_size pte)"

definition os_step_Map_enabled :: "nat \<Rightarrow> PageTableMemory \<Rightarrow> nat \<Rightarrow> PageTableEntry \<Rightarrow> bool" where
  "os_step_Map_enabled mw m vaddr pte \<longleftrightarrow>
     aligned vaddr (frame_size pte) \<and>
     aligned (frame_base pte) (frame_size pte) \<and>
     frame_base pte \<le> unat (MAX_PHYADDR mw) \<and>
     candidate_mapping_in_bounds vaddr pte \<and>
     (frame_size pte = L3_ENTRY_SIZE \<or> frame_size pte = L2_ENTRY_SIZE \<or> frame_size pte = L1_ENTRY_SIZE) \<and>
     alloc_available_pages m \<ge> 3"

text \<open>
  The source writes \<^verbatim>\<open>s2.sound == s1.sound && step_Map_sound(..)\<close>. Rust parses this as
  the conjunction of the equation with the condition, and so does the model.
\<close>

definition os_step_Map_Start ::
    "nat \<Rightarrow> OSConstants \<Rightarrow> OSVariables \<Rightarrow> OSVariables \<Rightarrow> nat \<Rightarrow> nat \<Rightarrow> PageTableEntry \<Rightarrow> bool" where
  "os_step_Map_Start mw c s1 s2 ULT_id vaddr pte \<longleftrightarrow>
    (let core = ult_core c ULT_id in
     valid_ULT c ULT_id \<and>
     core_state s1 core = CIdle \<and>
     os_step_Map_enabled mw (global_pt (os_hw s1)) vaddr pte \<and>
     hw_step_PTMemOp (os_hwc c) (os_hw s1) (os_hw s2) \<and>
     spt_step_Stutter (pt_variables s1) (pt_variables s2) \<and>
     core_states s2 = (core_states s1)(core \<mapsto> MapWaiting ULT_id vaddr pte) \<and>
     TLB_Shootdown s2 = TLB_Shootdown s1 \<and>
     (os_sound s2 = os_sound s1 \<and> os_step_Map_sound (os_pt mw s1) (ran (core_states s1)) vaddr pte))"

definition os_step_Map_op_Start :: "OSConstants \<Rightarrow> OSVariables \<Rightarrow> OSVariables \<Rightarrow> Core \<Rightarrow> bool" where
  "os_step_Map_op_Start c s1 s2 core \<longleftrightarrow>
     valid_core (os_hwc c) core \<and>
     (case core_state s1 core of
        MapWaiting ULT_id vaddr pte \<Rightarrow>
          kernel_lock c s1 = None \<and>
          hw_step_PTMemOp (os_hwc c) (os_hw s1) (os_hw s2) \<and>
          spt_step_Map_Start (pt_variables s1) (pt_variables s2) vaddr pte \<and>
          core_states s2 = (core_states s1)(core \<mapsto> MapExecuting ULT_id vaddr pte) \<and>
          TLB_Shootdown s2 = TLB_Shootdown s1 \<and> os_sound s2 = os_sound s1
      | _ \<Rightarrow> False)"

definition os_step_Map_End ::
    "nat \<Rightarrow> OSConstants \<Rightarrow> OSVariables \<Rightarrow> OSVariables \<Rightarrow> Core \<Rightarrow> (unit, unit) rust_result \<Rightarrow> bool" where
  "os_step_Map_End mw c s1 s2 core result \<longleftrightarrow>
     valid_core (os_hwc c) core \<and>
     (case core_state s1 core of
        MapExecuting ULT_id vaddr pte \<Rightarrow>
          hw_step_PTMemOp (os_hwc c) (os_hw s1) (os_hw s2) \<and>
          spt_step_Map_End mw (pt_variables s1) (pt_variables s2) vaddr pte result \<and>
          TLB_Shootdown s2 = TLB_Shootdown s1 \<and>
          core_states s2 = (core_states s1)(core \<mapsto> CIdle) \<and>
          os_sound s1 = os_sound s2
      | _ \<Rightarrow> False)"

definition os_step_Unmap_sound :: "(nat \<rightharpoonup> PageTableEntry) \<Rightarrow> CoreState set \<Rightarrow> nat \<Rightarrow> nat \<Rightarrow> bool" where
  "os_step_Unmap_sound pt inflightargs vaddr pte_size \<longleftrightarrow>
     \<not> os_overlaps_inflight_vmem pt inflightargs vaddr pte_size"

definition os_step_Unmap_enabled :: "nat \<Rightarrow> bool" where
  "os_step_Unmap_enabled vaddr \<longleftrightarrow>
     vaddr < arch_upper_vaddr x86_arch_spec 0 0 \<and>
     (aligned vaddr L3_ENTRY_SIZE \<or> aligned vaddr L2_ENTRY_SIZE \<or> aligned vaddr L1_ENTRY_SIZE)"

definition os_step_Unmap_Start ::
    "nat \<Rightarrow> OSConstants \<Rightarrow> OSVariables \<Rightarrow> OSVariables \<Rightarrow> nat \<Rightarrow> nat \<Rightarrow> bool" where
  "os_step_Unmap_Start mw c s1 s2 ULT_id vaddr \<longleftrightarrow>
    (let pt = interp_pt_mem mw (global_pt (os_hw s1));
         core = ult_core c ULT_id;
         pte_size = (if vaddr \<in> dom pt then frame_size (the (pt vaddr)) else 0) in
     valid_ULT c ULT_id \<and>
     core_state s1 core = CIdle \<and>
     os_step_Unmap_enabled vaddr \<and>
     hw_step_PTMemOp (os_hwc c) (os_hw s1) (os_hw s2) \<and>
     spt_step_Stutter (pt_variables s1) (pt_variables s2) \<and>
     core_states s2 = (core_states s1)(core \<mapsto> UnmapWaiting ULT_id vaddr) \<and>
     TLB_Shootdown s2 = TLB_Shootdown s1 \<and>
     (os_sound s2 = os_sound s1 \<and> os_step_Unmap_sound pt (ran (core_states s1)) vaddr pte_size))"

definition os_step_Unmap_Op_Start ::
    "nat \<Rightarrow> OSConstants \<Rightarrow> OSVariables \<Rightarrow> OSVariables \<Rightarrow> Core \<Rightarrow> (unit, unit) rust_result \<Rightarrow> bool" where
  "os_step_Unmap_Op_Start mw c s1 s2 core result \<longleftrightarrow>
     valid_core (os_hwc c) core \<and>
     (case core_state s1 core of
        UnmapWaiting ULT_id vaddr \<Rightarrow>
          kernel_lock c s1 = None \<and>
          hw_step_PTMemOp (os_hwc c) (os_hw s1) (os_hw s2) \<and>
          spt_step_Unmap_Start mw (pt_variables s1) (pt_variables s2) vaddr result \<and>
          (if is_Ok result
           then core_states s2 = (core_states s1)(core \<mapsto>
                  UnmapOpExecuting ULT_id vaddr (Ok (the (os_pt mw s1 vaddr))))
           else core_states s2 = (core_states s1)(core \<mapsto> UnmapOpExecuting ULT_id vaddr (Err ()))) \<and>
          TLB_Shootdown s2 = TLB_Shootdown s1 \<and> os_sound s2 = os_sound s1
      | _ \<Rightarrow> False)"

definition os_step_Unmap_Op_End :: "OSConstants \<Rightarrow> OSVariables \<Rightarrow> OSVariables \<Rightarrow> Core \<Rightarrow> bool" where
  "os_step_Unmap_Op_End c s1 s2 core \<longleftrightarrow>
     valid_core (os_hwc c) core \<and>
     (case core_state s1 core of
        UnmapOpExecuting ULT_id vaddr result \<Rightarrow>
          hw_step_PTMemOp (os_hwc c) (os_hw s1) (os_hw s2) \<and>
          spt_step_Unmap_End (pt_variables s1) (pt_variables s2) \<and>
          core_states s2 = (core_states s1)(core \<mapsto> UnmapOpDone ULT_id vaddr result) \<and>
          TLB_Shootdown s2 = TLB_Shootdown s1 \<and> os_sound s2 = os_sound s1
      | _ \<Rightarrow> False)"

definition os_step_Unmap_Initiate_Shootdown ::
    "OSConstants \<Rightarrow> OSVariables \<Rightarrow> OSVariables \<Rightarrow> Core \<Rightarrow> bool" where
  "os_step_Unmap_Initiate_Shootdown c s1 s2 core \<longleftrightarrow>
     valid_core (os_hwc c) core \<and>
     (case core_state s1 core of
        UnmapOpDone ULT_id vaddr result \<Rightarrow>
          is_Ok result \<and>
          hw_step_PTMemOp (os_hwc c) (os_hw s1) (os_hw s2) \<and>
          spt_step_Stutter (pt_variables s1) (pt_variables s2) \<and>
          core_states s2 = (core_states s1)(core \<mapsto> UnmapShootdownWaiting ULT_id vaddr result) \<and>
          TLB_Shootdown s2 = \<lparr>sd_vaddr = vaddr, open_requests = {core. valid_core (os_hwc c) core}\<rparr> \<and>
          os_sound s2 = os_sound s1
      | _ \<Rightarrow> False)"

definition os_step_Ack_Shootdown_IPI ::
    "nat \<Rightarrow> OSConstants \<Rightarrow> OSVariables \<Rightarrow> OSVariables \<Rightarrow> Core \<Rightarrow> bool" where
  "os_step_Ack_Shootdown_IPI mw c s1 s2 core \<longleftrightarrow>
     core \<in> open_requests (TLB_Shootdown s1) \<and>
     sd_vaddr (TLB_Shootdown s1) \<notin> dom (core_tlb (os_hw s1) core) \<and>
     sd_vaddr (TLB_Shootdown s1) \<notin> dom (os_pt mw s1) \<and>
     hw_step_PTMemOp (os_hwc c) (os_hw s1) (os_hw s2) \<and>
     spt_step_Stutter (pt_variables s1) (pt_variables s2) \<and>
     core_states s2 = core_states s1 \<and>
     TLB_Shootdown s2 = \<lparr>sd_vaddr = sd_vaddr (TLB_Shootdown s1),
                         open_requests = open_requests (TLB_Shootdown s1) - {core}\<rparr> \<and>
     os_sound s2 = os_sound s1"

definition os_step_Unmap_End :: "OSConstants \<Rightarrow> OSVariables \<Rightarrow> OSVariables \<Rightarrow> Core \<Rightarrow> bool" where
  "os_step_Unmap_End c s1 s2 core \<longleftrightarrow>
     valid_core (os_hwc c) core \<and>
     (case core_state s1 core of
        UnmapShootdownWaiting _ _ result \<Rightarrow> open_requests (TLB_Shootdown s1) = {}
      | UnmapOpDone _ _ result \<Rightarrow> is_Err result
      | _ \<Rightarrow> False) \<and>
     hw_step_PTMemOp (os_hwc c) (os_hw s1) (os_hw s2) \<and>
     spt_step_Stutter (pt_variables s1) (pt_variables s2) \<and>
     core_states s2 = (core_states s1)(core \<mapsto> CIdle) \<and>
     TLB_Shootdown s2 = TLB_Shootdown s1 \<and>
     os_sound s1 = os_sound s2"

definition os_step_View_Stutter :: "nat \<Rightarrow> OSConstants \<Rightarrow> OSVariables \<Rightarrow> OSVariables \<Rightarrow> Core \<Rightarrow> bool" where
  "os_step_View_Stutter mw c s1 s2 core \<longleftrightarrow>
     valid_core (os_hwc c) core \<and>
     (case core_state s1 core of
        UnmapOpExecuting _ _ _ \<Rightarrow> True | MapExecuting _ _ _ \<Rightarrow> True | _ \<Rightarrow> False) \<and>
     hw_step_PTMemOp (os_hwc c) (os_hw s1) (os_hw s2) \<and>
     spt_step_View_Stutter mw (pt_variables s1) (pt_variables s2) \<and>
     core_states s2 = core_states s1 \<and>
     TLB_Shootdown s2 = TLB_Shootdown s1 \<and>
     os_sound s2 = os_sound s1"

datatype OSStep =
    OSHW nat HWStep
  | OSMapStart nat nat PageTableEntry
  | OSMapOpStart Core
  | OSMapEnd Core "(unit, unit) rust_result"
  | OSUnmapStart nat nat
  | OSUnmapOpStart Core "(unit, unit) rust_result"
  | OSUnmapOpEnd Core
  | OSUnmapInitiateShootdown Core
  | OSAckShootdownIPI Core
  | OSUnmapEnd Core
  | OSViewStutter Core

fun os_next_step :: "nat \<Rightarrow> OSConstants \<Rightarrow> OSVariables \<Rightarrow> OSVariables \<Rightarrow> OSStep \<Rightarrow> bool" where
  "os_next_step mw c s1 s2 (OSHW ULT_id step) = os_step_HW mw c s1 s2 ULT_id step"
| "os_next_step mw c s1 s2 (OSMapStart ULT_id vaddr pte) = os_step_Map_Start mw c s1 s2 ULT_id vaddr pte"
| "os_next_step mw c s1 s2 (OSMapOpStart core) = os_step_Map_op_Start c s1 s2 core"
| "os_next_step mw c s1 s2 (OSMapEnd core result) = os_step_Map_End mw c s1 s2 core result"
| "os_next_step mw c s1 s2 (OSUnmapStart ULT_id vaddr) = os_step_Unmap_Start mw c s1 s2 ULT_id vaddr"
| "os_next_step mw c s1 s2 (OSUnmapOpStart core result) = os_step_Unmap_Op_Start mw c s1 s2 core result"
| "os_next_step mw c s1 s2 (OSUnmapOpEnd core) = os_step_Unmap_Op_End c s1 s2 core"
| "os_next_step mw c s1 s2 (OSUnmapInitiateShootdown core) = os_step_Unmap_Initiate_Shootdown c s1 s2 core"
| "os_next_step mw c s1 s2 (OSAckShootdownIPI core) = os_step_Ack_Shootdown_IPI mw c s1 s2 core"
| "os_next_step mw c s1 s2 (OSUnmapEnd core) = os_step_Unmap_End c s1 s2 core"
| "os_next_step mw c s1 s2 (OSViewStutter core) = os_step_View_Stutter mw c s1 s2 core"

definition os_next :: "nat \<Rightarrow> OSConstants \<Rightarrow> OSVariables \<Rightarrow> OSVariables \<Rightarrow> bool" where
  "os_next mw c s1 s2 \<longleftrightarrow> (\<exists>step. os_next_step mw c s1 s2 step)"

definition os_init :: "nat \<Rightarrow> OSConstants \<Rightarrow> OSVariables \<Rightarrow> bool" where
  "os_init mw c s \<longleftrightarrow>
     interp_pt_mem mw (global_pt (os_hw s)) = Map.empty \<and>
     hw_init (os_hwc c) (os_hw s) \<and>
     (\<forall>core. valid_core (os_hwc c) core \<longrightarrow> spt_init (pt_variables s)) \<and>
     (\<forall>i. valid_ULT c i \<longleftrightarrow> i \<in> dom (ULT2core c)) \<and>
     (\<forall>i. valid_ULT c i \<longrightarrow> valid_core (os_hwc c) (ult_core c i)) \<and>
     (\<forall>core. valid_core (os_hwc c) core \<longleftrightarrow> core \<in> dom (core_states s)) \<and>
     (\<forall>core. valid_core (os_hwc c) core \<longrightarrow> core_state s core = CIdle) \<and>
     open_requests (TLB_Shootdown s) = {} \<and>
     os_sound s"

section \<open>The step of the specification a system step amounts to\<close>

fun rw_interp :: "HWRWOp \<Rightarrow> (nat \<times> PageTableEntry) option \<Rightarrow> RWOp" where
  "rw_interp (HWStore v HWStoreOk) (Some _) = Store v StoreOk"
| "rw_interp (HWStore v HWStoreOk) None = Store v StoreUndefined"
| "rw_interp (HWStore v HWStorePagefault) _ = Store v StoreUndefined"
| "rw_interp (HWLoad x (HWLoadValue v)) (Some _) = Load x (LoadValue v)"
| "rw_interp (HWLoad x (HWLoadValue v)) None = Load x LoadUndefined"
| "rw_interp (HWLoad x HWLoadPagefault) _ = Load x LoadUndefined"

definition hl_pte :: "nat \<Rightarrow> OSVariables \<Rightarrow> (nat \<times> PageTableEntry) option \<Rightarrow> (nat \<times> PageTableEntry) option" where
  "hl_pte mw s pte =
     (case pte of
        None \<Rightarrow> None
      | Some (base, p) \<Rightarrow> if base \<notin> dom (effective_mappings mw s) then None else pte)"

fun os_step_interp :: "nat \<Rightarrow> OSConstants \<Rightarrow> OSVariables \<Rightarrow> OSStep \<Rightarrow> AbstractStep" where
  "os_step_interp mw c s (OSHW ULT_id step) =
     (case step of
        ReadWrite vaddr paddr op pte core \<Rightarrow>
          AReadWrite ULT_id vaddr (rw_interp op (hl_pte mw s pte)) (hl_pte mw s pte)
      | PTMemOp \<Rightarrow> undefined
      | TLBFill vaddr pte core \<Rightarrow> AStutter
      | TLBEvict vaddr core \<Rightarrow> AStutter)"
| "os_step_interp mw c s (OSMapStart ULT_id vaddr pte) = AMapStart ULT_id vaddr pte"
| "os_step_interp mw c s (OSMapOpStart core) = AStutter"
| "os_step_interp mw c s (OSMapEnd core result) =
     (case core_state s core of MapExecuting ULT_id _ _ \<Rightarrow> AMapEnd ULT_id result | _ \<Rightarrow> undefined)"
| "os_step_interp mw c s (OSUnmapStart ULT_id vaddr) = AUnmapStart ULT_id vaddr"
| "os_step_interp mw c s (OSUnmapOpStart core result) = AStutter"
| "os_step_interp mw c s (OSUnmapOpEnd core) = AStutter"
| "os_step_interp mw c s (OSUnmapInitiateShootdown core) = AStutter"
| "os_step_interp mw c s (OSAckShootdownIPI core) = AStutter"
| "os_step_interp mw c s (OSUnmapEnd core) =
     (case core_state s core of
        UnmapShootdownWaiting ULT_id _ result \<Rightarrow> AUnmapEnd ULT_id (result_map_ok result (\<lambda>r. ()))
      | UnmapOpDone ULT_id _ result \<Rightarrow> AUnmapEnd ULT_id (result_map_ok result (\<lambda>r. ()))
      | _ \<Rightarrow> undefined)"
| "os_step_interp mw c s (OSViewStutter core) = AStutter"

inductive os_reachable :: "nat \<Rightarrow> OSConstants \<Rightarrow> OSVariables \<Rightarrow> bool" for mw c where
  os_reachable_init: "os_init mw c s \<Longrightarrow> os_reachable mw c s"
| os_reachable_step: "os_reachable mw c s1 \<Longrightarrow> os_next mw c s1 s2 \<Longrightarrow> os_reachable mw c s2"

text \<open>Every step but a hardware step leaves the TLBs and physical memory alone.\<close>

lemma os_step_memop:
  assumes "os_next_step mw c s1 s2 st"
  shows "(\<exists>u hw. st = OSHW u hw \<and> os_step_HW mw c s1 s2 u hw) \<or> hw_step_PTMemOp (os_hwc c) (os_hw s1) (os_hw s2)"
  using assms
  by (cases st) (auto simp: os_step_Map_Start_def os_step_Map_op_Start_def os_step_Map_End_def
      os_step_Unmap_Start_def os_step_Unmap_Op_Start_def os_step_Unmap_Op_End_def
      os_step_Unmap_Initiate_Shootdown_def os_step_Ack_Shootdown_IPI_def os_step_Unmap_End_def
      os_step_View_Stutter_def Let_def split: CoreState.splits)

end
