(* ===== verification/HL_Invariant.thy ===== *)
theory HL_Invariant
  imports HL_Spec
begin

text \<open>
  The invariant of the process-level specification (\<^verbatim>\<open>page-table/spec_t/hlproof.rs\<close>
  and the end of \<^verbatim>\<open>hlspec.rs\<close>): physical frames of mappings, and of mappings in
  flight, never overlap while the run is sound. The source's proof of
  \<^verbatim>\<open>insert_map_preserves_unique\<close> assumes that frames in flight are nonempty; here it
  follows from the enabling condition of the map step.
\<close>

section \<open>The invariant, thread by thread\<close>

fun args_pte :: "AbstractArguments \<Rightarrow> PageTableEntry option" where
  "args_pte (AMap v p) = Some p"
| "args_pte (AUnmap v p) = p"
| "args_pte AEmpty = None"

definition inflight_frames_disjoint :: "(nat \<rightharpoonup> AbstractArguments) \<Rightarrow> bool" where
  "inflight_frames_disjoint ts \<longleftrightarrow>
     (\<forall>t u v p a q. ts t = Some (AMap v p) \<and> ts u = Some a \<and> t \<noteq> u \<and> args_pte a = Some q \<longrightarrow>
        \<not> overlap (pte_frame p) (pte_frame q))"

lemma hl_overlaps_inflight_pmem_iff:
  "hl_overlaps_inflight_pmem S p \<longleftrightarrow> (\<exists>a\<in>S. \<exists>q. args_pte a = Some q \<and> overlap (pte_frame p) (pte_frame q))"
proof -
  have "(case a of AMap v q \<Rightarrow> overlap (pte_frame p) (pte_frame q)
         | AUnmap v q \<Rightarrow> (case q of Some q \<Rightarrow> overlap (pte_frame p) (pte_frame q) | None \<Rightarrow> False)
         | AEmpty \<Rightarrow> False) \<longleftrightarrow> (\<exists>q. args_pte a = Some q \<and> overlap (pte_frame p) (pte_frame q))" for a
    by (cases a) (auto split: option.splits)
  then show ?thesis unfolding hl_overlaps_inflight_pmem_def by simp
qed

lemma overlap_refl [simp]: "overlap r r"
  by (simp add: overlap_def)

lemma inflight_maps_unique_iff:
  "inflight_maps_unique ts \<longleftrightarrow>
     (\<forall>t u v p. ts t = Some (AMap v p) \<and> ts u = Some (AMap v p) \<longrightarrow> t = u)"
proof -
  have "if_map_then_unique ts t \<longleftrightarrow> (\<forall>u v p. ts t = Some (AMap v p) \<and> ts u = Some (AMap v p) \<longrightarrow> t = u)"
    if "t \<in> dom ts" for t
    using that unfolding if_map_then_unique_def ran_def
    by (auto split: AbstractArguments.splits)
  then show ?thesis unfolding inflight_maps_unique_def by blast
qed

lemma inflight_frames_disjoint_iff:
  "inflight_frames_disjoint ts \<longleftrightarrow>
     inflight_map_no_overlap_inflight_pmem (ran ts) \<and> inflight_maps_unique ts"
proof
  assume d: "inflight_frames_disjoint ts"
  have "\<not> hl_overlaps_inflight_pmem (ran ts - {AMap v p}) p" if map: "AMap v p \<in> ran ts" for v p
  proof
    assume "hl_overlaps_inflight_pmem (ran ts - {AMap v p}) p"
    then obtain a q where a: "a \<in> ran ts" "a \<noteq> AMap v p" "args_pte a = Some q"
        "overlap (pte_frame p) (pte_frame q)"
      unfolding hl_overlaps_inflight_pmem_iff by blast
    obtain t u where tu: "ts t = Some (AMap v p)" "ts u = Some a"
      using map a(1) by (auto simp: ran_def)
    then have "t \<noteq> u" using a(2) by auto
    then show False using d tu a(3,4) unfolding inflight_frames_disjoint_def by blast
  qed
  then have "inflight_map_no_overlap_inflight_pmem (ran ts)"
    unfolding inflight_map_no_overlap_inflight_pmem_def by (auto split: AbstractArguments.splits)
  moreover have "inflight_maps_unique ts"
    unfolding inflight_maps_unique_iff
  proof (intro allI impI)
    fix t u v p
    assume "ts t = Some (AMap v p) \<and> ts u = Some (AMap v p)"
    then have "t \<noteq> u \<Longrightarrow> \<not> overlap (pte_frame p) (pte_frame p)"
      using d args_pte.simps(1) unfolding inflight_frames_disjoint_def by blast
    then show "t = u" by auto
  qed
  ultimately show "inflight_map_no_overlap_inflight_pmem (ran ts) \<and> inflight_maps_unique ts" ..
next
  assume a: "inflight_map_no_overlap_inflight_pmem (ran ts) \<and> inflight_maps_unique ts"
  show "inflight_frames_disjoint ts"
    unfolding inflight_frames_disjoint_def
  proof (intro allI impI)
    fix t u v p a' q
    assume h: "ts t = Some (AMap v p) \<and> ts u = Some a' \<and> t \<noteq> u \<and> args_pte a' = Some q"
    then have "a' \<noteq> AMap v p" using a unfolding inflight_maps_unique_iff by blast
    then have "a' \<in> ran ts - {AMap v p}" using h by (auto simp: ran_def)
    moreover have "\<not> hl_overlaps_inflight_pmem (ran ts - {AMap v p}) p"
      using a h ranI [of ts t] unfolding inflight_map_no_overlap_inflight_pmem_def by fastforce
    ultimately show "\<not> overlap (pte_frame p) (pte_frame q)"
      using h unfolding hl_overlaps_inflight_pmem_iff by blast
  qed
qed

definition maps_avoid :: "(nat \<rightharpoonup> AbstractArguments) \<Rightarrow> (nat \<rightharpoonup> PageTableEntry) \<Rightarrow> bool" where
  "maps_avoid ts maps \<longleftrightarrow>
     (\<forall>t v p b q. ts t = Some (AMap v p) \<and> maps b = Some q \<longrightarrow> \<not> overlap (pte_frame p) (pte_frame q))"

lemma maps_avoid_iff: "inflight_map_no_overlap_pmem (ran ts) maps \<longleftrightarrow> maps_avoid ts maps"
  unfolding inflight_map_no_overlap_pmem_def maps_avoid_def candidate_mapping_overlaps_existing_pmem_def
  by (auto simp: ran_def split: AbstractArguments.splits) force

lemma pmem_no_overlap_iff:
  "pmem_no_overlap maps \<longleftrightarrow>
     (\<forall>a b p q. maps a = Some p \<and> maps b = Some q \<and> overlap (pte_frame p) (pte_frame q) \<longrightarrow> a = b)"
  unfolding pmem_no_overlap_def by (auto simp: dom_def)

lemma hl_inv_iff:
  "hl_inv c s \<longleftrightarrow>
     hl_wf c s \<and> pmem_no_overlap (hl_mappings s) \<and> maps_avoid (thread_state s) (hl_mappings s) \<and>
     inflight_frames_disjoint (thread_state s) \<and>
     (\<forall>b q. hl_mappings s b = Some q \<longrightarrow> 0 < frame_size q) \<and>
     (\<forall>t v p. thread_state s t = Some (AMap v p) \<longrightarrow> 0 < frame_size p)"
proof -
  have sizes: "mappings_frame_sizes_over_zero maps \<longleftrightarrow> (\<forall>b q. maps b = Some q \<longrightarrow> 0 < frame_size q)" for maps
    unfolding mappings_frame_sizes_over_zero_def above_zero_def by (auto simp: dom_def)
  have inflight: "inflight_mem_size_over_zero (ran ts) \<longleftrightarrow> (\<forall>t v p. ts t = Some (AMap v p) \<longrightarrow> 0 < frame_size p)"
    for ts unfolding inflight_mem_size_over_zero_def above_zero_def
    by (auto simp: ran_def split: AbstractArguments.splits)
  show ?thesis
    unfolding hl_inv_def maps_avoid_iff inflight_frames_disjoint_iff sizes inflight by argo
qed

section \<open>Finite memory\<close>

lemma mem_domain_from_mappings_finite:
  assumes "finite (dom maps)"
  shows "finite (mem_domain_from_mappings n maps)"
proof -
  have "mem_domain_from_mappings n maps \<subseteq> (\<Union>b\<in>dom maps. {..b + frame_size (the (maps b))})"
    unfolding mem_domain_from_mappings_def mem_domain_from_mappings_contains_def
      mem_domain_from_entry_contains_def between_def by force
  then show ?thesis by (rule finite_subset) (use assms in simp)
qed

section \<open>Preservation\<close>

lemma hl_init_implies_inv:
  assumes "hl_init c s"
  shows "hl_inv c s"
proof -
  have no_map: "thread_state s t \<noteq> Some (AMap v p)" for t v p
  proof
    assume t: "thread_state s t = Some (AMap v p)"
    then have "t < hl_thread_no c" using assms by (auto simp: hl_init_def hl_wf_def)
    then show False using assms t by (auto simp: hl_init_def)
  qed
  have "hl_mappings s = Map.empty" "hl_wf c s" using assms by (simp_all add: hl_init_def)
  then show ?thesis
    unfolding hl_inv_iff pmem_no_overlap_iff maps_avoid_def inflight_frames_disjoint_def
    by (simp add: no_map)
qed

lemma hl_Map_start_inv:
  assumes inv: "hl_inv c s1" and step: "hl_step_Map_start mw c s1 s2 t v p" and s: "hl_sound s2"
  shows "hl_inv c s2"
proof -
  have en: "hl_step_Map_enabled mw v p" "t < hl_thread_no c"
    and u: "state_unchanged_besides_thread_state s1 s2 t (AMap v p)"
    and snd: "hl_step_Map_sound (hl_mappings s1) (ran (thread_state s1)) v p"
    using step s by (auto simp: hl_step_Map_start_def unsound_state_def valid_thread_def split: if_splits)
  have s2: "thread_state s2 = (thread_state s1)(t \<mapsto> AMap v p)" "hl_mappings s2 = hl_mappings s1"
      "vmem s2 = vmem s1"
    using u by (simp_all add: state_unchanged_besides_thread_state_def)
  have pos: "0 < frame_size p" using en(1) by (auto simp: hl_step_Map_enabled_def)
  have new: "\<not> overlap (pte_frame p) (pte_frame q)" if "hl_mappings s1 b = Some q" for b q
    using snd that unfolding hl_step_Map_sound_def candidate_mapping_overlaps_existing_pmem_def by force
  have inflight: "\<not> overlap (pte_frame p) (pte_frame q)" if "thread_state s1 u = Some a" "args_pte a = Some q" for u a q
    using snd that unfolding hl_step_Map_sound_def hl_overlaps_inflight_pmem_iff ran_def by blast
  have "inflight_frames_disjoint (thread_state s2)"
    using inv inflight unfolding hl_inv_iff inflight_frames_disjoint_def s2
    by (auto split: if_splits simp: overlap_sym)
  moreover have "hl_wf c s2" using inv en(2) s2 unfolding hl_inv_iff hl_wf_def by (auto simp: dom_def)
  ultimately show ?thesis
    using inv new pos unfolding hl_inv_iff s2 maps_avoid_def by (auto split: if_splits)
qed

text \<open>A thread that becomes idle, and mappings that shrink, preserve the thread conditions.\<close>

lemma inflight_frames_disjoint_upd:
  assumes "inflight_frames_disjoint ts" and "\<And>v p. a \<noteq> AMap v p"
    and "\<And>u v p q. ts u = Some (AMap v p) \<Longrightarrow> args_pte a = Some q \<Longrightarrow> \<not> overlap (pte_frame p) (pte_frame q)"
  shows "inflight_frames_disjoint (ts(t \<mapsto> a))"
  using assms unfolding inflight_frames_disjoint_def by (auto split: if_splits)

lemma hl_Map_end_inv:
  assumes inv: "hl_inv c s1" and step: "hl_step_Map_end c s1 s2 t res"
  shows "hl_inv c s2"
proof -
  obtain v p where vp: "the (thread_state s1 t) = AMap v p"
    using step by (auto simp: hl_step_Map_end_def split: AbstractArguments.splits)
  have t: "t < hl_thread_no c" "thread_state s2 = (thread_state s1)(t \<mapsto> AEmpty)"
    using step by (simp_all add: hl_step_Map_end_def valid_thread_def)
  have "t \<in> dom (thread_state s1)" using inv t(1) by (simp add: hl_inv_iff hl_wf_def)
  then have tv: "thread_state s1 t = Some (AMap v p)" using vp by auto
  have dis: "inflight_frames_disjoint (thread_state s2)"
    unfolding t(2) by (rule inflight_frames_disjoint_upd) (use inv in \<open>simp_all add: hl_inv_iff\<close>)
  have wf1: "\<forall>i. i < hl_thread_no c \<longleftrightarrow> i \<in> dom (thread_state s2)"
    using inv t unfolding hl_inv_iff hl_wf_def by (auto simp: dom_def)
  show ?thesis
  proof (cases "candidate_mapping_overlaps_existing_vmem (hl_mappings s1) v p")
    case True
    then have "hl_mappings s2 = hl_mappings s1" "vmem s2 = vmem s1"
      using step vp by (simp_all add: hl_step_Map_end_def)
    then show ?thesis
      using inv dis wf1 t(2) unfolding hl_inv_iff hl_wf_def maps_avoid_def by (auto split: if_splits)
  next
    case False
    then have m: "hl_mappings s2 = (hl_mappings s1)(v \<mapsto> p)"
        "dom (vmem s2) = mem_domain_from_mappings (hl_phys_mem_size c) (hl_mappings s2)"
      using step vp by (simp_all add: hl_step_Map_end_def)
    have fin: "finite (dom (hl_mappings s2))" using inv m(1) by (simp add: hl_inv_iff hl_wf_def)
    have "hl_wf c s2"
      using wf1 fin m(2) mem_domain_from_mappings_finite by (simp add: hl_wf_def)
    moreover have "pmem_no_overlap (hl_mappings s2)"
      using inv tv unfolding hl_inv_iff pmem_no_overlap_iff maps_avoid_def m(1)
      by (simp split: if_splits) (metis overlap_sym)
    moreover have "maps_avoid (thread_state s2) (hl_mappings s2)"
      using inv tv unfolding hl_inv_iff maps_avoid_def inflight_frames_disjoint_def m(1) t(2)
      by (simp split: if_splits) (metis args_pte.simps(1))
    moreover have "0 < frame_size q" if "hl_mappings s2 b = Some q" for b q
      using that inv tv m(1) unfolding hl_inv_iff by (auto split: if_splits)
    moreover have "0 < frame_size q" if "thread_state s2 u = Some (AMap w q)" for u w q
      using that inv t(2) unfolding hl_inv_iff by (auto split: if_splits)
    ultimately show ?thesis using dis unfolding hl_inv_iff by blast
  qed
qed

lemma hl_Unmap_start_inv:
  assumes inv: "hl_inv c s1" and step: "hl_step_Unmap_start c s1 s2 t v" and s: "hl_sound s2"
  shows "hl_inv c s2"
proof -
  let ?pte = "hl_mappings s1 v"
  have t: "t < hl_thread_no c" "thread_state s2 = (thread_state s1)(t \<mapsto> AUnmap v ?pte)"
    and m: "hl_mappings s2 = (hl_mappings s1)(v := None)"
    and mem: "dom (vmem s2) = mem_domain_from_mappings (hl_phys_mem_size c) ((hl_mappings s1)(v := None))"
    using step s by (auto simp: hl_step_Unmap_start_def unsound_state_def valid_thread_def Let_def split: if_splits)
  have fin: "finite (dom (hl_mappings s2))"
    using inv m by (simp add: hl_inv_iff hl_wf_def)
  have "inflight_frames_disjoint (thread_state s2)"
    unfolding t(2) by (rule inflight_frames_disjoint_upd)
      (use inv in \<open>auto simp: hl_inv_iff maps_avoid_def\<close>)
  moreover have "hl_wf c s2"
    using inv t fin mem mem_domain_from_mappings_finite [OF fin] m unfolding hl_inv_iff hl_wf_def
    by (auto simp: dom_def)
  moreover have "pmem_no_overlap (hl_mappings s2)"
    using inv unfolding hl_inv_iff pmem_no_overlap_iff m by (auto split: if_splits)
  moreover have "maps_avoid (thread_state s2) (hl_mappings s2)"
    using inv unfolding hl_inv_iff maps_avoid_def m t(2) by (auto split: if_splits)
  moreover have "0 < frame_size q" if "hl_mappings s2 b = Some q" for b q
    using that inv m unfolding hl_inv_iff by (auto split: if_splits)
  moreover have "0 < frame_size q" if "thread_state s2 u = Some (AMap w q)" for u w q
    using that inv t(2) unfolding hl_inv_iff by (auto split: if_splits)
  ultimately show ?thesis unfolding hl_inv_iff by blast
qed

lemma hl_Unmap_end_inv:
  assumes inv: "hl_inv c s1" and step: "hl_step_Unmap_end c s1 s2 t res"
  shows "hl_inv c s2"
proof -
  have t: "t < hl_thread_no c" "thread_state s2 = (thread_state s1)(t \<mapsto> AEmpty)"
      "hl_mappings s2 = hl_mappings s1" "vmem s2 = vmem s1"
    using step by (simp_all add: hl_step_Unmap_end_def valid_thread_def)
  have "inflight_frames_disjoint (thread_state s2)"
    unfolding t(2) by (rule inflight_frames_disjoint_upd) (use inv in \<open>simp_all add: hl_inv_iff\<close>)
  moreover have "hl_wf c s2" using inv t unfolding hl_inv_iff hl_wf_def by (auto simp: dom_def)
  moreover have "maps_avoid (thread_state s2) (hl_mappings s1)"
    using inv unfolding hl_inv_iff maps_avoid_def t(2) by (auto split: if_splits)
  moreover have "0 < frame_size q" if "thread_state s2 u = Some (AMap w q)" for u w q
    using that inv t(2) unfolding hl_inv_iff by (auto split: if_splits)
  ultimately show ?thesis using inv unfolding hl_inv_iff t(3) by blast
qed

lemma hl_ReadWrite_inv:
  assumes inv: "hl_inv c s1" and step: "hl_step_ReadWrite c s1 s2 t va rw pte"
  shows "hl_inv c s2"
proof -
  have same: "hl_mappings s2 = hl_mappings s1" "thread_state s2 = thread_state s1"
    using step by (simp_all add: hl_step_ReadWrite_def Let_def)
  have "vmem s2 = vmem s1 \<or> (\<exists>i x. vmem s2 = (vmem s1)(i \<mapsto> x))"
    using step unfolding hl_step_ReadWrite_def Let_def
    by (cases pte; cases rw; fastforce split: if_splits)
  then have "finite (dom (vmem s2))" using inv by (auto simp: hl_inv_iff hl_wf_def)
  then show ?thesis using inv unfolding hl_inv_iff hl_wf_def same by blast
qed

lemma hl_next_preserves_inv:
  assumes nx: "hl_next mw c s1 s2" and inv: "hl_sound s1 \<Longrightarrow> hl_inv c s1" and s: "hl_sound s2"
  shows "hl_inv c s2"
proof -
  obtain step where step: "hl_next_step mw c s1 s2 step" using nx by (auto simp: hl_next_def)
  then have s1: "hl_sound s1" using s by (auto simp: hl_next_step_def split: if_splits)
  note i = inv [OF s1]
  show ?thesis
  proof (cases step)
    case AStutter
    then show ?thesis using step s1 i by (simp add: hl_next_step_def hl_step_Stutter_def)
  qed (use step s1 in \<open>auto simp: hl_next_step_def intro: hl_ReadWrite_inv [OF i]
        hl_Map_start_inv [OF i _ s] hl_Map_end_inv [OF i] hl_Unmap_start_inv [OF i _ s]
        hl_Unmap_end_inv [OF i]\<close>)
qed

inductive hl_reachable :: "nat \<Rightarrow> AbstractConstants \<Rightarrow> AbstractVariables \<Rightarrow> bool" for mw c where
  hl_reachable_init: "hl_init c s \<Longrightarrow> hl_reachable mw c s"
| hl_reachable_step: "hl_reachable mw c s1 \<Longrightarrow> hl_next mw c s1 s2 \<Longrightarrow> hl_reachable mw c s2"

lemma hl_reachable_inv:
  assumes "hl_reachable mw c s" and "hl_sound s"
  shows "hl_inv c s"
  using assms
proof induction
  case (hl_reachable_init s)
  show ?case using hl_reachable_init(1) by (rule hl_init_implies_inv)
next
  case (hl_reachable_step s1 s2)
  then show ?case using hl_next_preserves_inv by blast
qed

end
