(* ===== verification/OS_Invariant.thy ===== *)
theory OS_Invariant
  imports OS_Machine HL_Invariant
begin

text \<open>
  Inductive invariants of the system (\<^verbatim>\<open>page-table/spec_t/os_invariant.rs\<close>). The state of
  all cores and the mappings of the page table satisfy \<open>cores_inv\<close>: the kernel lock is
  exclusive, operations in flight cover disjoint address ranges, and the entries that are
  mapped, or removed by an unmap that has not ended (\<open>resident\<close> entries), are disjoint both in
  virtual and in physical memory. TLBs only hold resident entries, and a core that has
  acknowledged a shootdown no longer holds the removed one. The source leaves parts of these
  proofs as \<^verbatim>\<open>admit\<close> and \<^verbatim>\<open>assume\<close>; here they are derived.
\<close>

section \<open>What a core state says about memory\<close>

fun mapping_entry :: "CoreState \<Rightarrow> (nat \<times> PageTableEntry) option" where
  "mapping_entry (MapWaiting _ v p) = Some (v, p)"
| "mapping_entry (MapExecuting _ v p) = Some (v, p)"
| "mapping_entry _ = None"

fun removed_vaddr :: "CoreState \<Rightarrow> nat option" where
  "removed_vaddr (UnmapOpExecuting _ v _) = Some v"
| "removed_vaddr (UnmapOpDone _ v _) = Some v"
| "removed_vaddr (UnmapShootdownWaiting _ v _) = Some v"
| "removed_vaddr _ = None"

fun removed_entry :: "CoreState \<Rightarrow> (nat \<times> PageTableEntry) option" where
  "removed_entry (UnmapOpExecuting _ v r) = map_option (Pair v) (result_pte r)"
| "removed_entry (UnmapOpDone _ v r) = map_option (Pair v) (result_pte r)"
| "removed_entry (UnmapShootdownWaiting _ v r) = map_option (Pair v) (result_pte r)"
| "removed_entry _ = None"

fun shootdown_ok :: "CoreState \<Rightarrow> bool" where
  "shootdown_ok (UnmapShootdownWaiting _ _ r) = is_Ok r"
| "shootdown_ok _ = True"

lemma result_pte_simps [simp]: "result_pte (Ok p) = Some p" "result_pte (Err e) = None"
  by (simp_all add: result_pte_def)

lemma removed_entry_vaddr: "removed_entry st = Some (v, p) \<Longrightarrow> removed_vaddr st = Some v"
  by (cases st) auto

lemma removed_entry_size: "removed_entry st = Some (v, p) \<Longrightarrow> vmem_pte_size st pt = frame_size p"
  by (cases st) (auto simp: result_pte_def split: rust_result.splits)

lemma removed_entry_lock: "removed_entry st = Some e \<Longrightarrow> holds_lock st"
  by (cases st) auto

lemma removed_entry_not_idle: "removed_vaddr st = Some v \<Longrightarrow> st \<noteq> CIdle \<and> cs_vaddr st = v"
  by (cases st) auto

lemma mapping_entry_region:
  "mapping_entry st = Some (v, p) \<Longrightarrow> st \<noteq> CIdle \<and> cs_vaddr st = v \<and> vmem_pte_size st pt = frame_size p"
  by (cases st) auto

definition op_region :: "(nat \<rightharpoonup> PageTableEntry) \<Rightarrow> CoreState \<Rightarrow> MemRegion" where
  "op_region pt st = \<lparr>mr_base = cs_vaddr st, mr_size = vmem_pte_size st pt\<rparr>"

text \<open>Only a waiting unmap looks its size up in the page table.\<close>

lemma vmem_pte_size_cong:
  assumes "st \<noteq> CIdle" and "pt' (cs_vaddr st) = pt (cs_vaddr st)"
  shows "vmem_pte_size st pt' = vmem_pte_size st pt"
  using assms by (cases st) (simp_all add: mapped_size_def)

definition page_entry :: "nat \<Rightarrow> PageTableEntry \<Rightarrow> bool" where
  "page_entry v p \<longleftrightarrow>
     (frame_size p = L3_ENTRY_SIZE \<or> frame_size p = L2_ENTRY_SIZE \<or> frame_size p = L1_ENTRY_SIZE) \<and>
     aligned v (frame_size p) \<and> aligned (frame_base p) (frame_size p)"

section \<open>The invariant of the cores\<close>

definition resident ::
    "(Core \<Rightarrow> bool) \<Rightarrow> (Core \<Rightarrow> CoreState) \<Rightarrow> (nat \<rightharpoonup> PageTableEntry) \<Rightarrow> nat \<Rightarrow> PageTableEntry \<Rightarrow> bool" where
  "resident V st pt v p \<longleftrightarrow> pt v = Some p \<or> (\<exists>core. V core \<and> removed_entry (st core) = Some (v, p))"

definition lock_exclusive :: "(Core \<Rightarrow> bool) \<Rightarrow> (Core \<Rightarrow> CoreState) \<Rightarrow> bool" where
  "lock_exclusive V st \<longleftrightarrow>
     (\<forall>i j. V i \<and> V j \<and> holds_lock (st i) \<and> holds_lock (st j) \<longrightarrow> i = j)"

definition ops_disjoint :: "(Core \<Rightarrow> bool) \<Rightarrow> (Core \<Rightarrow> CoreState) \<Rightarrow> (nat \<rightharpoonup> PageTableEntry) \<Rightarrow> bool" where
  "ops_disjoint V st pt \<longleftrightarrow>
     (\<forall>i j. V i \<and> V j \<and> i \<noteq> j \<and> st i \<noteq> CIdle \<and> st j \<noteq> CIdle \<longrightarrow>
        \<not> overlap (op_region pt (st i)) (op_region pt (st j)))"

definition removed_unmapped :: "(Core \<Rightarrow> bool) \<Rightarrow> (Core \<Rightarrow> CoreState) \<Rightarrow> (nat \<rightharpoonup> PageTableEntry) \<Rightarrow> bool" where
  "removed_unmapped V st pt \<longleftrightarrow>
     (\<forall>i v. V i \<and> removed_vaddr (st i) = Some v \<longrightarrow> pt v = None)"

definition resident_disjoint :: "(Core \<Rightarrow> bool) \<Rightarrow> (Core \<Rightarrow> CoreState) \<Rightarrow> (nat \<rightharpoonup> PageTableEntry) \<Rightarrow> bool" where
  "resident_disjoint V st pt \<longleftrightarrow>
     (\<forall>v p w q. resident V st pt v p \<and> resident V st pt w q \<and> v \<noteq> w \<longrightarrow>
        \<not> overlap (pte_frame p) (pte_frame q) \<and> \<not> overlap (vmem_region v p) (vmem_region w q))"

definition maps_disjoint :: "(Core \<Rightarrow> bool) \<Rightarrow> (Core \<Rightarrow> CoreState) \<Rightarrow> (nat \<rightharpoonup> PageTableEntry) \<Rightarrow> bool" where
  "maps_disjoint V st pt \<longleftrightarrow>
     (\<forall>i v p. V i \<and> mapping_entry (st i) = Some (v, p) \<longrightarrow>
        page_entry v p \<and>
        (\<forall>w q. resident V st pt w q \<longrightarrow> \<not> overlap (pte_frame p) (pte_frame q)) \<and>
        (\<forall>j w q. V j \<and> j \<noteq> i \<and> mapping_entry (st j) = Some (w, q) \<longrightarrow>
           \<not> overlap (pte_frame p) (pte_frame q)))"

definition cores_inv :: "(Core \<Rightarrow> bool) \<Rightarrow> (Core \<Rightarrow> CoreState) \<Rightarrow> (nat \<rightharpoonup> PageTableEntry) \<Rightarrow> bool" where
  "cores_inv V st pt \<longleftrightarrow>
     lock_exclusive V st \<and> ops_disjoint V st pt \<and> removed_unmapped V st pt \<and>
     resident_disjoint V st pt \<and> maps_disjoint V st pt \<and>
     (\<forall>v p. resident V st pt v p \<longrightarrow> page_entry v p) \<and>
     (\<forall>i. V i \<longrightarrow> shootdown_ok (st i))"

lemma cores_invD:
  assumes "cores_inv V st pt"
  shows ci_lock: "V i \<Longrightarrow> V j \<Longrightarrow> holds_lock (st i) \<Longrightarrow> holds_lock (st j) \<Longrightarrow> i = j"
    and ci_ops: "V i \<Longrightarrow> V j \<Longrightarrow> i \<noteq> j \<Longrightarrow> st i \<noteq> CIdle \<Longrightarrow> st j \<noteq> CIdle \<Longrightarrow>
      \<not> overlap (op_region pt (st i)) (op_region pt (st j))"
    and ci_removed: "V i \<Longrightarrow> removed_vaddr (st i) = Some v \<Longrightarrow> pt v = None"
    and ci_frames: "resident V st pt v p \<Longrightarrow> resident V st pt w q \<Longrightarrow> v \<noteq> w \<Longrightarrow>
      \<not> overlap (pte_frame p) (pte_frame q)"
    and ci_vmem: "resident V st pt v p \<Longrightarrow> resident V st pt w q \<Longrightarrow> v \<noteq> w \<Longrightarrow>
      \<not> overlap (vmem_region v p) (vmem_region w q)"
    and ci_map_page: "V i \<Longrightarrow> mapping_entry (st i) = Some (v, p) \<Longrightarrow> page_entry v p"
    and ci_map_resident: "V i \<Longrightarrow> mapping_entry (st i) = Some (v, p) \<Longrightarrow> resident V st pt w q \<Longrightarrow>
      \<not> overlap (pte_frame p) (pte_frame q)"
    and ci_map_map: "V i \<Longrightarrow> mapping_entry (st i) = Some (v, p) \<Longrightarrow> V j \<Longrightarrow> j \<noteq> i \<Longrightarrow>
      mapping_entry (st j) = Some (w, q) \<Longrightarrow> \<not> overlap (pte_frame p) (pte_frame q)"
    and ci_page: "resident V st pt v p \<Longrightarrow> page_entry v p"
    and ci_shootdown: "V i \<Longrightarrow> shootdown_ok (st i)"
proof -
  have parts: "lock_exclusive V st" "ops_disjoint V st pt" "removed_unmapped V st pt"
      "resident_disjoint V st pt" "maps_disjoint V st pt"
      "\<forall>v p. resident V st pt v p \<longrightarrow> page_entry v p" "\<forall>i. V i \<longrightarrow> shootdown_ok (st i)"
    using assms unfolding cores_inv_def by blast+
  show "V i \<Longrightarrow> V j \<Longrightarrow> holds_lock (st i) \<Longrightarrow> holds_lock (st j) \<Longrightarrow> i = j"
    using parts(1) unfolding lock_exclusive_def by blast
  show "V i \<Longrightarrow> V j \<Longrightarrow> i \<noteq> j \<Longrightarrow> st i \<noteq> CIdle \<Longrightarrow> st j \<noteq> CIdle \<Longrightarrow>
      \<not> overlap (op_region pt (st i)) (op_region pt (st j))"
    using parts(2) unfolding ops_disjoint_def by blast
  show "V i \<Longrightarrow> removed_vaddr (st i) = Some v \<Longrightarrow> pt v = None"
    using parts(3) unfolding removed_unmapped_def by blast
  show "resident V st pt v p \<Longrightarrow> resident V st pt w q \<Longrightarrow> v \<noteq> w \<Longrightarrow>
      \<not> overlap (pte_frame p) (pte_frame q)"
    and "resident V st pt v p \<Longrightarrow> resident V st pt w q \<Longrightarrow> v \<noteq> w \<Longrightarrow>
      \<not> overlap (vmem_region v p) (vmem_region w q)"
    using parts(4) unfolding resident_disjoint_def by blast+
  show "V i \<Longrightarrow> mapping_entry (st i) = Some (v, p) \<Longrightarrow> page_entry v p"
    and "V i \<Longrightarrow> mapping_entry (st i) = Some (v, p) \<Longrightarrow> resident V st pt w q \<Longrightarrow>
      \<not> overlap (pte_frame p) (pte_frame q)"
    and "V i \<Longrightarrow> mapping_entry (st i) = Some (v, p) \<Longrightarrow> V j \<Longrightarrow> j \<noteq> i \<Longrightarrow>
      mapping_entry (st j) = Some (w, q) \<Longrightarrow> \<not> overlap (pte_frame p) (pte_frame q)"
    using parts(5) unfolding maps_disjoint_def by blast+
  show "resident V st pt v p \<Longrightarrow> page_entry v p" using parts(6) by blast
  show "V i \<Longrightarrow> shootdown_ok (st i)" using parts(7) by blast
qed

text \<open>Operations in flight on different cores have different base addresses.\<close>

lemma ci_vaddr_distinct:
  assumes "cores_inv V st pt" and "V i" "V j" "i \<noteq> j" "st i \<noteq> CIdle" "st j \<noteq> CIdle"
  shows "cs_vaddr (st i) \<noteq> cs_vaddr (st j)"
  using ci_ops [OF assms] by (auto simp: op_region_def overlap_def)

text \<open>
  One core moves to a new state while the page table changes from \<open>pt\<close> to \<open>pt'\<close>: what has to
  be shown for the invariant to survive.
\<close>

lemma cores_inv_update:
  assumes inv: "cores_inv V st pt" and c: "V core"
    and lock: "holds_lock X \<Longrightarrow> holds_lock (st core) \<or> (\<forall>k. V k \<longrightarrow> \<not> holds_lock (st k))"
    and sizes: "\<And>k. V k \<Longrightarrow> k \<noteq> core \<Longrightarrow> st k \<noteq> CIdle \<Longrightarrow>
      vmem_pte_size (st k) pt' = vmem_pte_size (st k) pt"
    and region: "X \<noteq> CIdle \<Longrightarrow> st core \<noteq> CIdle \<and> op_region pt' X = op_region pt (st core) \<or>
      (\<forall>k. V k \<and> st k \<noteq> CIdle \<longrightarrow> \<not> overlap (op_region pt (st k)) (op_region pt' X))"
    and removed: "\<And>k v. V k \<Longrightarrow> k \<noteq> core \<Longrightarrow> removed_vaddr (st k) = Some v \<Longrightarrow> pt' v = None"
      "\<And>v. removed_vaddr X = Some v \<Longrightarrow> pt' v = None"
    and res: "\<And>v p. resident V (st(core := X)) pt' v p \<Longrightarrow> resident V st pt v p \<or>
      mapping_entry (st core) = Some (v, p) \<and> mapping_entry X = None \<and>
        (\<forall>w q. resident V st pt w q \<longrightarrow> \<not> overlap (vmem_region v p) (vmem_region w q))"
    and map: "\<And>v p. mapping_entry X = Some (v, p) \<Longrightarrow> mapping_entry (st core) = Some (v, p) \<or>
      page_entry v p \<and> (\<forall>w q. resident V st pt w q \<longrightarrow> \<not> overlap (pte_frame p) (pte_frame q)) \<and>
        (\<forall>k w q. V k \<and> mapping_entry (st k) = Some (w, q) \<longrightarrow> \<not> overlap (pte_frame p) (pte_frame q))"
    and ok: "shootdown_ok X"
  shows "cores_inv V (st(core := X)) pt'"
proof -
  have "lock_exclusive V (st(core := X))"
    unfolding lock_exclusive_def using ci_lock [OF inv] lock c by (metis fun_upd_other fun_upd_same)
  moreover have "ops_disjoint V (st(core := X)) pt'"
  proof -
    have same: "op_region pt' (st k) = op_region pt (st k)" if "V k" "k \<noteq> core" "st k \<noteq> CIdle" for k
      using sizes that by (simp add: op_region_def)
    have new: "\<not> overlap (op_region pt (st k)) (op_region pt' X)" if "V k" "k \<noteq> core" "st k \<noteq> CIdle" "X \<noteq> CIdle" for k
      using region [OF that(4)] ci_ops [OF inv that(1) c that(2,3)] that by metis
    show ?thesis
      unfolding ops_disjoint_def using ci_ops [OF inv] same new overlap_sym
      by (metis fun_upd_other fun_upd_same)
  qed
  moreover have "removed_unmapped V (st(core := X)) pt'"
    unfolding removed_unmapped_def using removed by auto
  moreover have "resident_disjoint V (st(core := X)) pt'"
    unfolding resident_disjoint_def
    using res ci_frames [OF inv] ci_vmem [OF inv] ci_map_resident [OF inv c] overlap_sym
    by (metis Pair_inject option.inject)
  moreover have "maps_disjoint V (st(core := X)) pt'"
    unfolding maps_disjoint_def
  proof (intro allI impI conjI)
    fix i v p
    assume i: "V i \<and> mapping_entry ((st(core := X)) i) = Some (v, p)"
    then show "page_entry v p"
      using map ci_map_page [OF inv] c by (cases "i = core") auto
    show "\<not> overlap (pte_frame p) (pte_frame q)" if "resident V (st(core := X)) pt' w q" for w q
    proof (cases "i = core")
      case True
      then have X: "mapping_entry X = Some (v, p)" using i by simp
      then have "resident V st pt w q" using res [OF that] by simp
      then show ?thesis using map [OF X] ci_map_resident [OF inv c, of v p w q] by blast
    next
      case False
      then have "mapping_entry (st i) = Some (v, p)" "V i" using i by simp_all
      then show ?thesis
        using res [OF that] ci_map_resident [OF inv, of i v p w q] ci_map_map [OF inv, of i v p core w q] c False
        by blast
    qed
    show "\<not> overlap (pte_frame p) (pte_frame q)"
      if "V j \<and> j \<noteq> i \<and> mapping_entry ((st(core := X)) j) = Some (w, q)" for j w q
      using that i map ci_map_map [OF inv] c overlap_sym by (auto split: if_splits) metis+
  qed
  moreover have "page_entry v p" if "resident V (st(core := X)) pt' v p" for v p
    using res [OF that] ci_page [OF inv] ci_map_page [OF inv c] by blast
  moreover have "\<forall>i. V i \<longrightarrow> shootdown_ok ((st(core := X)) i)"
    using ci_shootdown [OF inv] ok by simp
  ultimately show ?thesis unfolding cores_inv_def by blast
qed

section \<open>Preservation, one kind of move at a time\<close>

lemma resident_upd:
  "resident V (st(core := X)) pt v p \<longleftrightarrow>
     pt v = Some p \<or> (V core \<and> removed_entry X = Some (v, p)) \<or>
     (\<exists>k. k \<noteq> core \<and> V k \<and> removed_entry (st k) = Some (v, p))"
  unfolding resident_def by (metis fun_upd_other fun_upd_same)

lemma resident_pt [intro]: "pt v = Some p \<Longrightarrow> resident V st pt v p"
  by (simp add: resident_def)

lemma resident_removed [intro]: "V k \<Longrightarrow> removed_entry (st k) = Some (v, p) \<Longrightarrow> resident V st pt v p"
  by (auto simp: resident_def)

text \<open>A core that only changes its phase.\<close>

lemma cores_inv_relabel:
  assumes inv: "cores_inv V st pt" and c: "V core" "st core \<noteq> CIdle"
    and lock: "holds_lock (st core) \<or> (\<forall>k. V k \<longrightarrow> \<not> holds_lock (st k))"
    and same: "op_region pt X = op_region pt (st core)" "removed_vaddr X = removed_vaddr (st core)"
      "removed_entry X = removed_entry (st core)" "mapping_entry X = mapping_entry (st core)"
    and ok: "shootdown_ok X"
  shows "cores_inv V (st(core := X)) pt"
proof (rule cores_inv_update [OF inv c(1)])
  show "resident V st pt v p \<or> mapping_entry (st core) = Some (v, p) \<and> mapping_entry X = None \<and>
      (\<forall>w q. resident V st pt w q \<longrightarrow> \<not> overlap (vmem_region v p) (vmem_region w q))"
    if "resident V (st(core := X)) pt v p" for v p
    using that same(3) unfolding resident_upd by auto
qed (use assms ci_removed [OF inv] in auto)

text \<open>A core whose operation ends, or that fails, without a change of the page table.\<close>

lemma cores_inv_idle:
  assumes inv: "cores_inv V st pt" and c: "V core"
  shows "cores_inv V (st(core := CIdle)) pt"
proof (rule cores_inv_update [OF inv c])
  show "resident V st pt v p \<or> mapping_entry (st core) = Some (v, p) \<and> mapping_entry CIdle = None \<and>
      (\<forall>w q. resident V st pt w q \<longrightarrow> \<not> overlap (vmem_region v p) (vmem_region w q))"
    if "resident V (st(core := CIdle)) pt v p" for v p
    using that unfolding resident_upd by auto
qed (use ci_removed [OF inv] in simp_all)

lemma cores_inv_map_start:
  assumes inv: "cores_inv V st pt" and c: "V core" "st core = CIdle"
    and page: "page_entry v p" and S: "\<And>k. V k \<Longrightarrow> st k \<in> S" and sound: "os_step_Map_sound pt S v p"
  shows "cores_inv V (st(core := MapWaiting u v p)) pt"
proof (rule cores_inv_update [OF inv c(1)])
  note s = sound [unfolded os_step_Map_sound_def]
  have inflight: "\<not> overlap (pte_frame p) (pte_frame q)"
    if "V k" "mapping_entry (st k) = Some (w, q) \<or> removed_entry (st k) = Some (w, q)" for k w q
    using s S [OF that(1)] that(2) unfolding os_overlaps_inflight_pmem_def
    by (cases "st k") (force simp: result_pte_def split: rust_result.splits)+
  have existing: "\<not> overlap (pte_frame p) (pte_frame q)" if "pt w = Some q" for w q
    using s that unfolding candidate_mapping_overlaps_existing_pmem_def by force
  show "mapping_entry (st core) = Some (v', p') \<or>
      page_entry v' p' \<and> (\<forall>w q. resident V st pt w q \<longrightarrow> \<not> overlap (pte_frame p') (pte_frame q)) \<and>
      (\<forall>k w q. V k \<and> mapping_entry (st k) = Some (w, q) \<longrightarrow> \<not> overlap (pte_frame p') (pte_frame q))"
    if "mapping_entry (MapWaiting u v p) = Some (v', p')" for v' p'
    using that page inflight existing by (auto simp: resident_def)
  show "st core \<noteq> CIdle \<and> op_region pt (MapWaiting u v p) = op_region pt (st core) \<or>
      (\<forall>k. V k \<and> st k \<noteq> CIdle \<longrightarrow> \<not> overlap (op_region pt (st k)) (op_region pt (MapWaiting u v p)))"
    using s S unfolding os_overlaps_inflight_vmem_def op_region_def by auto
  show "resident V st pt w q \<or> mapping_entry (st core) = Some (w, q) \<and> mapping_entry (MapWaiting u v p) = None \<and>
      (\<forall>x r. resident V st pt x r \<longrightarrow> \<not> overlap (vmem_region w q) (vmem_region x r))"
    if "resident V (st(core := MapWaiting u v p)) pt w q" for w q
    using that unfolding resident_upd by auto
qed (use ci_removed [OF inv] in simp_all)

lemma cores_inv_unmap_start:
  assumes inv: "cores_inv V st pt" and c: "V core" "st core = CIdle"
    and S: "\<And>k. V k \<Longrightarrow> st k \<in> S" and sound: "os_step_Unmap_sound pt S v (mapped_size pt v)"
  shows "cores_inv V (st(core := UnmapWaiting u v)) pt"
proof (rule cores_inv_update [OF inv c(1)])
  show "st core \<noteq> CIdle \<and> op_region pt (UnmapWaiting u v) = op_region pt (st core) \<or>
      (\<forall>k. V k \<and> st k \<noteq> CIdle \<longrightarrow> \<not> overlap (op_region pt (st k)) (op_region pt (UnmapWaiting u v)))"
    using sound S unfolding os_step_Unmap_sound_def os_overlaps_inflight_vmem_def op_region_def by auto
  show "resident V st pt w q \<or> mapping_entry (st core) = Some (w, q) \<and> mapping_entry (UnmapWaiting u v) = None \<and>
      (\<forall>x r. resident V st pt x r \<longrightarrow> \<not> overlap (vmem_region w q) (vmem_region x r))"
    if "resident V (st(core := UnmapWaiting u v)) pt w q" for w q
    using that unfolding resident_upd by auto
qed (use ci_removed [OF inv] in simp_all)

text \<open>A successful map: the core holds the lock, so no removed entry is pending.\<close>

lemma resident_locked:
  assumes "cores_inv V st pt" and "V core" "holds_lock (st core)" "removed_entry (st core) = None"
  shows "resident V st pt = (\<lambda>v p. pt v = Some p)"
proof -
  have "removed_entry (st k) \<noteq> Some e" if "V k" for k e
    using ci_lock [OF assms(1) that assms(2)] removed_entry_lock [of "st k" e] assms(3,4) by (cases "k = core") auto
  then show ?thesis unfolding resident_def by (intro ext) blast
qed

lemma cores_inv_map_end:
  assumes inv: "cores_inv V st pt" and c: "V core" "st core = MapExecuting u v p"
    and free: "\<not> candidate_mapping_overlaps_existing_vmem pt v p"
  shows "cores_inv V (st(core := CIdle)) (pt(v \<mapsto> p))"
proof (rule cores_inv_update [OF inv c(1)])
  have none: "\<not> removed_entry (st k) = Some e" if "V k" for k e
    using ci_lock [OF inv that c(1)] removed_entry_lock [of "st k" e] c by (cases "k = core") auto
  have res: "resident V st pt = (\<lambda>w q. pt w = Some q)" by (rule resident_locked [OF inv c(1)]) (simp_all add: c)
  show "vmem_pte_size (st k) (pt(v \<mapsto> p)) = vmem_pte_size (st k) pt" if "V k" "k \<noteq> core" "st k \<noteq> CIdle" for k
    using ci_vaddr_distinct [OF inv that(1) c(1) that(2,3)] c(2)
    by (intro vmem_pte_size_cong [OF that(3)]) simp
  show "(pt(v \<mapsto> p)) w = None" if "V k" "k \<noteq> core" "removed_vaddr (st k) = Some w" for k w
    using ci_removed [OF inv that(1,3)] ci_vaddr_distinct [OF inv that(1) c(1) that(2)]
      removed_entry_not_idle [OF that(3)] c(2) by simp
  show "resident V st pt w q \<or> mapping_entry (st core) = Some (w, q) \<and> mapping_entry CIdle = None \<and>
      (\<forall>x r. resident V st pt x r \<longrightarrow> \<not> overlap (vmem_region w q) (vmem_region x r))"
    if "resident V (st(core := CIdle)) (pt(v \<mapsto> p)) w q" for w q
  proof (cases "w = v")
    case True
    then have "q = p" using that none unfolding resident_upd by auto
    then show ?thesis
      using True free c(2) unfolding res candidate_mapping_overlaps_existing_vmem_def by force
  next
    case False
    then show ?thesis using that none unfolding resident_upd res by auto
  qed
qed simp_all

lemma cores_inv_unmap_op:
  assumes inv: "cores_inv V st pt" and c: "V core" "st core = UnmapWaiting u v"
    and lock: "\<forall>k. V k \<longrightarrow> \<not> holds_lock (st k)"
    and r: "r = (case pt v of Some p \<Rightarrow> Ok p | None \<Rightarrow> Err ())"
  shows "cores_inv V (st(core := UnmapOpExecuting u v r)) (pt(v := None))"
proof (rule cores_inv_update [OF inv c(1)])
  have rp: "result_pte r = pt v" unfolding r by (simp split: option.split)
  show "vmem_pte_size (st k) (pt(v := None)) = vmem_pte_size (st k) pt" if "V k" "k \<noteq> core" "st k \<noteq> CIdle" for k
    using ci_vaddr_distinct [OF inv that(1) c(1) that(2,3)] c(2)
    by (intro vmem_pte_size_cong [OF that(3)]) simp
  show "st core \<noteq> CIdle \<and> op_region (pt(v := None)) (UnmapOpExecuting u v r) = op_region pt (st core) \<or>
      (\<forall>k. V k \<and> st k \<noteq> CIdle \<longrightarrow> \<not> overlap (op_region pt (st k)) (op_region (pt(v := None)) (UnmapOpExecuting u v r)))"
    using c(2) unfolding op_region_def r by (simp add: mapped_size_def split: option.split)
  show "resident V st pt w q \<or> mapping_entry (st core) = Some (w, q) \<and>
      mapping_entry (UnmapOpExecuting u v r) = None \<and>
      (\<forall>x y. resident V st pt x y \<longrightarrow> \<not> overlap (vmem_region w q) (vmem_region x y))"
    if "resident V (st(core := UnmapOpExecuting u v r)) (pt(v := None)) w q" for w q
    using that rp unfolding resident_upd by (auto split: if_splits)
qed (use lock ci_removed [OF inv] in auto)

section \<open>The invariant of the system\<close>

abbreviation sys_core :: "OSConstants \<Rightarrow> Core \<Rightarrow> bool" where
  "sys_core c \<equiv> valid_core (os_hwc c)"

abbreviation sys_states :: "OSVariables \<Rightarrow> Core \<Rightarrow> CoreState" where
  "sys_states s \<equiv> \<lambda>core. core_state s core"

abbreviation sys_resident :: "nat \<Rightarrow> OSConstants \<Rightarrow> OSVariables \<Rightarrow> nat \<Rightarrow> PageTableEntry \<Rightarrow> bool" where
  "sys_resident mw c s \<equiv> resident (sys_core c) (sys_states s) (os_pt mw s)"

definition sys_cores_inv :: "nat \<Rightarrow> OSConstants \<Rightarrow> OSVariables \<Rightarrow> bool" where
  "sys_cores_inv mw c s \<longleftrightarrow> cores_inv (sys_core c) (sys_states s) (os_pt mw s)"

definition ids_inv :: "OSConstants \<Rightarrow> OSVariables \<Rightarrow> bool" where
  "ids_inv c s \<longleftrightarrow>
     (\<forall>i. valid_ULT c i \<longleftrightarrow> i \<in> dom (ULT2core c)) \<and>
     (\<forall>i. valid_ULT c i \<longrightarrow> sys_core c (ult_core c i)) \<and>
     (\<forall>core. sys_core c core \<longleftrightarrow> core \<in> dom (core_states s)) \<and>
     valid_ids c s"

definition tlb_resident :: "nat \<Rightarrow> OSConstants \<Rightarrow> OSVariables \<Rightarrow> bool" where
  "tlb_resident mw c s \<longleftrightarrow>
     (\<forall>core v p. sys_core c core \<and> core_tlb (os_hw s) core v = Some p \<longrightarrow> sys_resident mw c s v p)"

definition shootdown_acked :: "OSConstants \<Rightarrow> OSVariables \<Rightarrow> bool" where
  "shootdown_acked c s \<longleftrightarrow>
     (\<forall>d u v r. sys_core c d \<and> core_state s d = UnmapShootdownWaiting u v r \<longrightarrow>
        sd_vaddr (TLB_Shootdown s) = v \<and>
        (\<forall>core. sys_core c core \<and> core \<notin> open_requests (TLB_Shootdown s) \<longrightarrow>
           core_tlb (os_hw s) core v = None))"

definition sys_inv :: "nat \<Rightarrow> OSConstants \<Rightarrow> OSVariables \<Rightarrow> bool" where
  "sys_inv mw c s \<longleftrightarrow>
     ids_inv c s \<and> sys_cores_inv mw c s \<and> tlb_resident mw c s \<and> shootdown_acked c s \<and>
     shootdown_cores_valid c s \<and> os_sound s"

lemma sys_invD:
  assumes "sys_inv mw c s"
  shows "ids_inv c s" "sys_cores_inv mw c s" "tlb_resident mw c s" "shootdown_acked c s"
    "shootdown_cores_valid c s" "os_sound s"
  using assms by (simp_all add: sys_inv_def)

section \<open>How the steps change the parts of the state\<close>

lemma sys_states_upd:
  "core_states s2 = (core_states s1)(core \<mapsto> X) \<Longrightarrow> sys_states s2 = (sys_states s1)(core := X)"
  by auto

lemma stutter_pt: "spt_step_Stutter (pt_variables s1) (pt_variables s2) \<Longrightarrow> os_pt mw s2 = os_pt mw s1"
  by (simp add: spt_step_Stutter_def pt_variables_def os_pt_def)

lemma os_pt_spt_interp: "spt_interp mw (pt_variables s) = os_pt mw s"
  by (simp add: spt_interp_def pt_variables_def os_pt_def)

lemma no_lock_holder: "kernel_lock c s = None \<Longrightarrow> \<forall>k. sys_core c k \<longrightarrow> \<not> holds_lock (core_state s k)"
  by (auto simp: kernel_lock_def split: if_splits)

lemma ids_state_in_ran:
  assumes "ids_inv c s" and "sys_core c k"
  shows "core_state s k \<in> ran (core_states s)"
  using assms unfolding ids_inv_def ran_def by (metis (mono_tags, lifting) domD mem_Collect_eq option.sel)

text \<open>
  The steps that move one core: the core, its new state and the page table after the step.
\<close>

definition core_move ::
    "nat \<Rightarrow> OSVariables \<Rightarrow> OSVariables \<Rightarrow> Core \<Rightarrow> CoreState \<Rightarrow> (nat \<rightharpoonup> PageTableEntry) \<Rightarrow> bool" where
  "core_move mw s1 s2 core X pt' \<longleftrightarrow>
     sys_states s2 = (sys_states s1)(core := X) \<and>
     dom (core_states s2) = insert core (dom (core_states s1)) \<and>
     NUMAs (os_hw s2) = NUMAs (os_hw s1) \<and> hw_mem (os_hw s2) = hw_mem (os_hw s1) \<and>
     os_pt mw s2 = pt' \<and> os_sound s2 = os_sound s1"

lemma core_moveI:
  assumes "core_states s2 = (core_states s1)(core \<mapsto> X)" and "hw_step_PTMemOp (os_hwc c) (os_hw s1) (os_hw s2)"
    and "os_pt mw s2 = pt'" and "os_sound s2 = os_sound s1"
  shows "core_move mw s1 s2 core X pt'"
  using assms by (auto simp: core_move_def hw_step_PTMemOp_def)

lemma core_move_states: "core_move mw s1 s2 core X pt' \<Longrightarrow> core_state s2 k = (if k = core then X else core_state s1 k)"
  unfolding core_move_def by (metis fun_upd_apply)

lemma core_move_ids:
  assumes ids: "ids_inv c s1" and m: "core_move mw s1 s2 core X pt'" and core: "sys_core c core"
    and X: "cs_ULT X = None \<or> cs_ULT X = cs_ULT (core_state s1 core) \<or>
      (\<exists>u. cs_ULT X = Some u \<and> valid_ULT c u \<and> ult_core c u = core)"
  shows "ids_inv c s2"
proof -
  have "case cs_ULT (core_state s2 k) of Some u \<Rightarrow> valid_ULT c u \<and> ult_core c u = k | None \<Rightarrow> True"
    if "sys_core c k" for k
  proof (cases "k = core")
    case True
    moreover have "case cs_ULT (core_state s1 core) of Some u \<Rightarrow> valid_ULT c u \<and> ult_core c u = core | None \<Rightarrow> True"
      using ids core by (simp add: ids_inv_def valid_ids_def)
    ultimately show ?thesis using X core_move_states [OF m, of k] by auto
  next
    case False
    then show ?thesis
      using ids that core_move_states [OF m, of k] by (simp add: ids_inv_def valid_ids_def)
  qed
  then have "valid_ids c s2" by (simp add: valid_ids_def)
  moreover have "dom (core_states s2) = dom (core_states s1)"
    using m ids core by (auto simp: core_move_def ids_inv_def)
  ultimately show ?thesis using ids unfolding ids_inv_def by metis
qed

text \<open>
  The TLB part survives if the resident entries stay, or the core's own removed entry has
  left all TLBs.
\<close>

lemma core_move_tlb:
  assumes m: "core_move mw s1 s2 core X pt'" and tlb: "tlb_resident mw c s1"
    and keep: "\<And>v p. sys_resident mw c s1 v p \<Longrightarrow> (\<exists>k. sys_core c k \<and> core_tlb (os_hw s1) k v = Some p) \<Longrightarrow>
      resident (sys_core c) ((sys_states s1)(core := X)) pt' v p"
  shows "tlb_resident mw c s2"
proof -
  have "sys_states s2 = (sys_states s1)(core := X)" "os_pt mw s2 = pt'" "NUMAs (os_hw s2) = NUMAs (os_hw s1)"
    using m by (simp_all add: core_move_def)
  then show ?thesis using tlb keep unfolding tlb_resident_def by metis
qed

lemma core_move_acked:
  assumes m: "core_move mw s1 s2 core X pt'" and a: "shootdown_acked c s1"
    and sd: "TLB_Shootdown s2 = TLB_Shootdown s1" and X: "\<And>u v r. X \<noteq> UnmapShootdownWaiting u v r"
  shows "shootdown_acked c s2"
proof -
  have "NUMAs (os_hw s2) = NUMAs (os_hw s1)" using m by (simp add: core_move_def)
  then show ?thesis
    using a X unfolding shootdown_acked_def sd core_move_states [OF m] by (auto split: if_splits)
qed

lemma core_move_cores_inv:
  assumes "core_move mw s1 s2 core X pt'"
    and "cores_inv (sys_core c) ((sys_states s1)(core := X)) pt'"
  shows "sys_cores_inv mw c s2"
  using assms by (simp add: core_move_def sys_cores_inv_def)

lemma core_move_sys_inv:
  assumes inv: "sys_inv mw c s1" and m: "core_move mw s1 s2 core X pt'" and core: "sys_core c core"
    and X: "cs_ULT X = None \<or> cs_ULT X = cs_ULT (core_state s1 core) \<or>
      (\<exists>u. cs_ULT X = Some u \<and> valid_ULT c u \<and> ult_core c u = core)"
    and cores: "cores_inv (sys_core c) ((sys_states s1)(core := X)) pt'"
    and keep: "\<And>v p. sys_resident mw c s1 v p \<Longrightarrow> (\<exists>k. sys_core c k \<and> core_tlb (os_hw s1) k v = Some p) \<Longrightarrow>
      resident (sys_core c) ((sys_states s1)(core := X)) pt' v p"
    and sd: "TLB_Shootdown s2 = TLB_Shootdown s1" and nX: "\<And>u v r. X \<noteq> UnmapShootdownWaiting u v r"
  shows "sys_inv mw c s2"
proof -
  note i = sys_invD [OF inv]
  have "shootdown_cores_valid c s2" using i(5) sd by (simp add: shootdown_cores_valid_def)
  moreover have "os_sound s2" using i(6) m by (simp add: core_move_def)
  ultimately show ?thesis
    using core_move_ids [OF i(1) m core X] core_move_cores_inv [OF m cores]
      core_move_tlb [OF m i(3) keep] core_move_acked [OF m i(4) sd nX]
    by (simp add: sys_inv_def)
qed

section \<open>Every step as a move\<close>

lemma map_start_move:
  assumes ids: "ids_inv c s1" and step: "os_step_Map_Start mw c s1 s2 u v p"
  shows "sys_core c (ult_core c u)" "core_state s1 (ult_core c u) = CIdle" "valid_ULT c u"
    "core_move mw s1 s2 (ult_core c u) (MapWaiting u v p) (os_pt mw s1)"
    "TLB_Shootdown s2 = TLB_Shootdown s1" "page_entry v p"
    "os_step_Map_sound (os_pt mw s1) (ran (core_states s1)) v p"
proof -
  show u: "valid_ULT c u" and "core_state s1 (ult_core c u) = CIdle"
    "TLB_Shootdown s2 = TLB_Shootdown s1" "os_step_Map_sound (os_pt mw s1) (ran (core_states s1)) v p"
    using step by (simp_all add: os_step_Map_Start_def Let_def)
  show "sys_core c (ult_core c u)" using ids u unfolding ids_inv_def by blast
  show "core_move mw s1 s2 (ult_core c u) (MapWaiting u v p) (os_pt mw s1)"
    using step stutter_pt by (intro core_moveI) (auto simp: os_step_Map_Start_def Let_def)
  show "page_entry v p"
    using step by (simp add: os_step_Map_Start_def Let_def os_step_Map_enabled_def page_entry_def)
qed

lemma map_op_start_move:
  assumes step: "os_step_Map_op_Start c s1 s2 core"
  obtains u v p where "sys_core c core" "core_state s1 core = MapWaiting u v p"
    "core_move mw s1 s2 core (MapExecuting u v p) (os_pt mw s1)"
    "TLB_Shootdown s2 = TLB_Shootdown s1" "\<forall>k. sys_core c k \<longrightarrow> \<not> holds_lock (core_state s1 k)"
proof -
  obtain u v p where st: "core_state s1 core = MapWaiting u v p"
    using step by (auto simp: os_step_Map_op_Start_def split: CoreState.splits)
  note s = step [unfolded os_step_Map_op_Start_def st CoreState.case]
  have "os_pt mw s2 = os_pt mw s1"
    using s by (simp add: spt_step_Map_Start_def os_pt_def pt_variables_def)
  then show thesis
    using s st no_lock_holder by (intro that [of u v p] core_moveI [where c = c]) auto
qed

lemma map_end_move:
  assumes step: "os_step_Map_End mw c s1 s2 core result"
  obtains u v p pt' where "sys_core c core" "core_state s1 core = MapExecuting u v p"
    "core_move mw s1 s2 core CIdle pt'" "TLB_Shootdown s2 = TLB_Shootdown s1"
    "if candidate_mapping_overlaps_existing_vmem (os_pt mw s1) v p
     then is_Err result \<and> pt' = os_pt mw s1 else is_Ok result \<and> pt' = (os_pt mw s1)(v \<mapsto> p)"
proof -
  obtain u v p where st: "core_state s1 core = MapExecuting u v p"
    using step by (auto simp: os_step_Map_End_def split: CoreState.splits)
  note s = step [unfolded os_step_Map_End_def st CoreState.case spt_step_Map_End_def os_pt_spt_interp]
  show thesis
    using s st by (intro that [of u v p "os_pt mw s2"] core_moveI [where c = c]) auto
qed

lemma unmap_start_move:
  assumes ids: "ids_inv c s1" and step: "os_step_Unmap_Start mw c s1 s2 u v"
  shows "sys_core c (ult_core c u)" "core_state s1 (ult_core c u) = CIdle" "valid_ULT c u"
    "core_move mw s1 s2 (ult_core c u) (UnmapWaiting u v) (os_pt mw s1)"
    "TLB_Shootdown s2 = TLB_Shootdown s1"
    "os_step_Unmap_sound (os_pt mw s1) (ran (core_states s1)) v (mapped_size (os_pt mw s1) v)"
proof -
  have size: "mapped_size pt v = (if v \<in> dom pt then frame_size (the (pt v)) else 0)" for pt
    by (simp add: mapped_size_def domIff split: option.split)
  show u: "valid_ULT c u" and "core_state s1 (ult_core c u) = CIdle" "TLB_Shootdown s2 = TLB_Shootdown s1"
    "os_step_Unmap_sound (os_pt mw s1) (ran (core_states s1)) v (mapped_size (os_pt mw s1) v)"
    using step by (simp_all only: os_step_Unmap_Start_def Let_def size os_pt_def)
  show "sys_core c (ult_core c u)" using ids u unfolding ids_inv_def by blast
  show "core_move mw s1 s2 (ult_core c u) (UnmapWaiting u v) (os_pt mw s1)"
    using step stutter_pt by (intro core_moveI) (auto simp: os_step_Unmap_Start_def Let_def)
qed

lemma unmap_op_start_move:
  assumes step: "os_step_Unmap_Op_Start mw c s1 s2 core result"
  obtains u v where "sys_core c core" "core_state s1 core = UnmapWaiting u v"
    "core_move mw s1 s2 core
       (UnmapOpExecuting u v (case os_pt mw s1 v of Some p \<Rightarrow> Ok p | None \<Rightarrow> Err ())) ((os_pt mw s1)(v := None))"
    "TLB_Shootdown s2 = TLB_Shootdown s1" "\<forall>k. sys_core c k \<longrightarrow> \<not> holds_lock (core_state s1 k)"
proof -
  obtain u v where st: "core_state s1 core = UnmapWaiting u v"
    using step by (auto simp: os_step_Unmap_Op_Start_def split: CoreState.splits)
  note s = step [unfolded os_step_Unmap_Op_Start_def st CoreState.case spt_step_Unmap_Start_def os_pt_spt_interp]
  let ?r = "case os_pt mw s1 v of Some p \<Rightarrow> Ok p | None \<Rightarrow> Err ()"
  have "core_states s2 = (core_states s1)(core \<mapsto> UnmapOpExecuting u v ?r) \<and>
      os_pt mw s2 = (os_pt mw s1)(v := None)"
  proof (cases "os_pt mw s1 v")
    case None
    then show ?thesis using s by (cases result) (auto simp: domIff)
  next
    case (Some p)
    then show ?thesis using s by (cases result) (auto simp: domIff)
  qed
  then show thesis
    using s st no_lock_holder by (intro that [of u v] core_moveI [where c = c]) auto
qed

lemma unmap_op_end_move:
  assumes step: "os_step_Unmap_Op_End c s1 s2 core"
  obtains u v r where "sys_core c core" "core_state s1 core = UnmapOpExecuting u v r"
    "core_move mw s1 s2 core (UnmapOpDone u v r) (os_pt mw s1)" "TLB_Shootdown s2 = TLB_Shootdown s1"
proof -
  obtain u v r where st: "core_state s1 core = UnmapOpExecuting u v r"
    using step by (auto simp: os_step_Unmap_Op_End_def split: CoreState.splits)
  note s = step [unfolded os_step_Unmap_Op_End_def st CoreState.case]
  have "os_pt mw s2 = os_pt mw s1"
    using s by (simp add: spt_step_Unmap_End_def os_pt_def pt_variables_def)
  then show thesis using s st by (intro that [of u v r] core_moveI [where c = c]) auto
qed

lemma initiate_shootdown_move:
  assumes step: "os_step_Unmap_Initiate_Shootdown c s1 s2 core"
  obtains u v r where "sys_core c core" "core_state s1 core = UnmapOpDone u v r" "is_Ok r"
    "core_move mw s1 s2 core (UnmapShootdownWaiting u v r) (os_pt mw s1)"
    "TLB_Shootdown s2 = \<lparr>sd_vaddr = v, open_requests = {core. sys_core c core}\<rparr>"
proof -
  obtain u v r where st: "core_state s1 core = UnmapOpDone u v r"
    using step by (auto simp: os_step_Unmap_Initiate_Shootdown_def split: CoreState.splits)
  note s = step [unfolded os_step_Unmap_Initiate_Shootdown_def st CoreState.case]
  show thesis using s st stutter_pt by (intro that [of u v r] core_moveI [where c = c]) auto
qed

lemma unmap_end_move:
  assumes step: "os_step_Unmap_End c s1 s2 core"
  obtains u v r where "sys_core c core"
    "core_state s1 core = UnmapShootdownWaiting u v r \<and> open_requests (TLB_Shootdown s1) = {} \<or>
     core_state s1 core = UnmapOpDone u v r \<and> is_Err r"
    "core_move mw s1 s2 core CIdle (os_pt mw s1)" "TLB_Shootdown s2 = TLB_Shootdown s1"
proof -
  note s = step [unfolded os_step_Unmap_End_def]
  obtain u v r where st: "core_state s1 core = UnmapShootdownWaiting u v r \<and> open_requests (TLB_Shootdown s1) = {} \<or>
     core_state s1 core = UnmapOpDone u v r \<and> is_Err r"
    using s by (cases "core_state s1 core") auto
  have "core_move mw s1 s2 core CIdle (os_pt mw s1)"
    using s stutter_pt by (intro core_moveI [where c = c]) auto
  then show thesis using s st that by blast
qed

section \<open>Preservation by every step\<close>

lemma sys_cores: "sys_inv mw c s \<Longrightarrow> cores_inv (sys_core c) (sys_states s) (os_pt mw s)"
  by (simp add: sys_inv_def sys_cores_inv_def)

lemma resident_same_core:
  assumes "removed_entry X = removed_entry (st core)" and "\<And>w q. pt w = Some q \<Longrightarrow> pt' w = Some q"
    and "resident V st pt v p"
  shows "resident V (st(core := X)) pt' v p"
  using assms unfolding resident_def by (metis fun_upd_apply)

lemma resident_keep:
  assumes "resident V st pt w q" and "removed_entry (st core) \<noteq> Some (w, q)"
    and "pt w = Some q \<Longrightarrow> pt' w = Some q \<or> (V core \<and> removed_entry X = Some (w, q))"
  shows "resident V (st(core := X)) pt' w q"
proof (cases "pt w = Some q")
  case True
  then show ?thesis using assms(3) by (auto simp: resident_upd)
next
  case False
  then obtain k where "V k" "removed_entry (st k) = Some (w, q)" using assms(1) by (auto simp: resident_def)
  moreover from this have "k \<noteq> core" using assms(2) by blast
  ultimately show ?thesis unfolding resident_def by (intro disjI2 exI [of _ k]) simp
qed

lemma candidate_free:
  assumes "\<not> candidate_mapping_overlaps_existing_vmem pt v p"
  shows "pt v = None"
proof (rule ccontr)
  assume "pt v \<noteq> None"
  then have "v \<in> dom pt" by auto
  moreover have "overlap (vmem_region v p) (vmem_region v (the (pt v)))" by (simp add: overlap_def)
  ultimately show False using assms unfolding candidate_mapping_overlaps_existing_vmem_def by blast
qed

lemma map_start_inv:
  assumes inv: "sys_inv mw c s1" and step: "os_step_Map_Start mw c s1 s2 u v p"
  shows "sys_inv mw c s2"
proof -
  note m = map_start_move [OF sys_invD(1) [OF inv] step]
  show ?thesis
  proof (rule core_move_sys_inv [OF inv m(4,1) _ _ _ m(5)])
    show "cores_inv (sys_core c) ((sys_states s1)(ult_core c u := MapWaiting u v p)) (os_pt mw s1)"
      by (rule cores_inv_map_start [OF sys_cores [OF inv] m(1,2,6) _ m(7)])
        (rule ids_state_in_ran [OF sys_invD(1) [OF inv]])
  qed (use m(2,3) in \<open>auto intro: resident_same_core\<close>)
qed

lemma map_op_start_inv:
  assumes inv: "sys_inv mw c s1" and step: "os_step_Map_op_Start c s1 s2 core"
  shows "sys_inv mw c s2"
proof -
  obtain u v p where m: "sys_core c core" "core_state s1 core = MapWaiting u v p"
    "core_move mw s1 s2 core (MapExecuting u v p) (os_pt mw s1)"
    "TLB_Shootdown s2 = TLB_Shootdown s1" "\<forall>k. sys_core c k \<longrightarrow> \<not> holds_lock (core_state s1 k)"
    by (rule map_op_start_move [OF step])
  show ?thesis
  proof (rule core_move_sys_inv [OF inv m(3,1) _ _ _ m(4)])
    show "cores_inv (sys_core c) ((sys_states s1)(core := MapExecuting u v p)) (os_pt mw s1)"
      by (rule cores_inv_relabel [OF sys_cores [OF inv] m(1)]) (use m(2,5) in \<open>simp_all add: op_region_def\<close>)
  qed (use m(2) in \<open>auto intro: resident_same_core\<close>)
qed

lemma map_end_inv:
  assumes inv: "sys_inv mw c s1" and step: "os_step_Map_End mw c s1 s2 core result"
  shows "sys_inv mw c s2"
proof -
  obtain u v p pt' where m: "sys_core c core" "core_state s1 core = MapExecuting u v p"
    "core_move mw s1 s2 core CIdle pt'" "TLB_Shootdown s2 = TLB_Shootdown s1"
    "if candidate_mapping_overlaps_existing_vmem (os_pt mw s1) v p
     then is_Err result \<and> pt' = os_pt mw s1 else is_Ok result \<and> pt' = (os_pt mw s1)(v \<mapsto> p)"
    by (rule map_end_move [OF step])
  note free = candidate_free [of "os_pt mw s1" v p]
  show ?thesis
  proof (rule core_move_sys_inv [OF inv m(3,1) _ _ _ m(4)])
    show "cores_inv (sys_core c) ((sys_states s1)(core := CIdle)) pt'"
      using m(5) cores_inv_idle [OF sys_cores [OF inv] m(1)] cores_inv_map_end [OF sys_cores [OF inv] m(1,2)]
      by (auto split: if_splits)
    show "resident (sys_core c) ((sys_states s1)(core := CIdle)) pt' w q" if "sys_resident mw c s1 w q" for w q
      by (rule resident_same_core [OF _ _ that]) (use m(2,5) free in \<open>auto split: if_splits\<close>)
  qed simp_all
qed

lemma unmap_start_inv:
  assumes inv: "sys_inv mw c s1" and step: "os_step_Unmap_Start mw c s1 s2 u v"
  shows "sys_inv mw c s2"
proof -
  note m = unmap_start_move [OF sys_invD(1) [OF inv] step]
  show ?thesis
  proof (rule core_move_sys_inv [OF inv m(4,1) _ _ _ m(5)])
    show "cores_inv (sys_core c) ((sys_states s1)(ult_core c u := UnmapWaiting u v)) (os_pt mw s1)"
      by (rule cores_inv_unmap_start [OF sys_cores [OF inv] m(1,2) _ m(6)])
        (rule ids_state_in_ran [OF sys_invD(1) [OF inv]])
  qed (use m(2,3) in \<open>auto intro: resident_same_core\<close>)
qed

lemma unmap_op_start_inv:
  assumes inv: "sys_inv mw c s1" and step: "os_step_Unmap_Op_Start mw c s1 s2 core result"
  shows "sys_inv mw c s2"
proof -
  obtain u v where m: "sys_core c core" "core_state s1 core = UnmapWaiting u v"
    "core_move mw s1 s2 core
       (UnmapOpExecuting u v (case os_pt mw s1 v of Some p \<Rightarrow> Ok p | None \<Rightarrow> Err ())) ((os_pt mw s1)(v := None))"
    "TLB_Shootdown s2 = TLB_Shootdown s1" "\<forall>k. sys_core c k \<longrightarrow> \<not> holds_lock (core_state s1 k)"
    by (rule unmap_op_start_move [OF step])
  let ?X = "UnmapOpExecuting u v (case os_pt mw s1 v of Some p \<Rightarrow> Ok p | None \<Rightarrow> Err ())"
  show ?thesis
  proof (rule core_move_sys_inv [OF inv m(3,1) _ _ _ m(4)])
    show "cores_inv (sys_core c) ((sys_states s1)(core := ?X)) ((os_pt mw s1)(v := None))"
      by (rule cores_inv_unmap_op [OF sys_cores [OF inv] m(1,2,5) refl])
    show "resident (sys_core c) ((sys_states s1)(core := ?X)) ((os_pt mw s1)(v := None)) w q"
      if "sys_resident mw c s1 w q" for w q
      by (rule resident_keep [OF that], use m(1,2) in simp) (cases "w = v"; use m(1) in simp)
  qed (use m(2) in simp_all)
qed

lemma unmap_op_end_inv:
  assumes inv: "sys_inv mw c s1" and step: "os_step_Unmap_Op_End c s1 s2 core"
  shows "sys_inv mw c s2"
proof -
  obtain u v r where m: "sys_core c core" "core_state s1 core = UnmapOpExecuting u v r"
    "core_move mw s1 s2 core (UnmapOpDone u v r) (os_pt mw s1)" "TLB_Shootdown s2 = TLB_Shootdown s1"
    by (rule unmap_op_end_move [OF step])
  show ?thesis
  proof (rule core_move_sys_inv [OF inv m(3,1) _ _ _ m(4)])
    show "cores_inv (sys_core c) ((sys_states s1)(core := UnmapOpDone u v r)) (os_pt mw s1)"
      by (rule cores_inv_relabel [OF sys_cores [OF inv] m(1)]) (use m(2) in \<open>simp_all add: op_region_def\<close>)
  qed (use m(2) in \<open>auto intro: resident_same_core\<close>)
qed

lemma initiate_shootdown_inv:
  assumes inv: "sys_inv mw c s1" and step: "os_step_Unmap_Initiate_Shootdown c s1 s2 core"
  shows "sys_inv mw c s2"
proof -
  obtain u v r where m: "sys_core c core" "core_state s1 core = UnmapOpDone u v r" "is_Ok r"
    "core_move mw s1 s2 core (UnmapShootdownWaiting u v r) (os_pt mw s1)"
    "TLB_Shootdown s2 = \<lparr>sd_vaddr = v, open_requests = {core. sys_core c core}\<rparr>"
    by (rule initiate_shootdown_move [OF step])
  let ?X = "UnmapShootdownWaiting u v r"
  note i = sys_invD [OF inv]
  have cores: "cores_inv (sys_core c) ((sys_states s1)(core := ?X)) (os_pt mw s1)"
    by (rule cores_inv_relabel [OF sys_cores [OF inv] m(1)]) (use m(2,3) in \<open>simp_all add: op_region_def\<close>)
  have tlb: "tlb_resident mw c s2"
    by (rule core_move_tlb [OF m(4) i(3)]) (use m(2) in \<open>auto intro: resident_same_core\<close>)
  have "d = core" if "sys_core c d" "core_state s2 d = UnmapShootdownWaiting u' v' r'" for d u' v' r'
    using that ci_lock [OF sys_cores [OF inv] that(1) m(1)] m(2) core_move_states [OF m(4), of d]
    by (auto split: if_splits)
  then have "shootdown_acked c s2"
    unfolding shootdown_acked_def using core_move_states [OF m(4), of core] m(5) by fastforce
  moreover have "shootdown_cores_valid c s2" by (simp add: shootdown_cores_valid_def m(5))
  moreover have "os_sound s2" using m(4) i(6) by (simp add: core_move_def)
  moreover have "ids_inv c s2" by (rule core_move_ids [OF i(1) m(4,1)]) (simp add: m(2))
  ultimately show ?thesis
    using core_move_cores_inv [OF m(4) cores] tlb by (simp add: sys_inv_def)
qed

lemma unmap_end_inv:
  assumes inv: "sys_inv mw c s1" and step: "os_step_Unmap_End c s1 s2 core"
  shows "sys_inv mw c s2"
proof -
  obtain u v r where m: "sys_core c core"
    "core_state s1 core = UnmapShootdownWaiting u v r \<and> open_requests (TLB_Shootdown s1) = {} \<or>
     core_state s1 core = UnmapOpDone u v r \<and> is_Err r"
    "core_move mw s1 s2 core CIdle (os_pt mw s1)" "TLB_Shootdown s2 = TLB_Shootdown s1"
    by (rule unmap_end_move [OF step])
  note i = sys_invD [OF inv]
  have gone: "removed_entry (core_state s1 core) \<noteq> Some (w, q)"
    if "sys_core c k" "core_tlb (os_hw s1) k w = Some q" for k w q
  proof
    assume e: "removed_entry (core_state s1 core) = Some (w, q)"
    then have "core_state s1 core = UnmapShootdownWaiting u v r" "open_requests (TLB_Shootdown s1) = {}" "w = v"
      using m(2) by (auto simp: result_pte_def split: rust_result.splits)
    then have "core_tlb (os_hw s1) k v = None"
      using i(4) m(1) that(1) unfolding shootdown_acked_def by (metis empty_iff)
    then show False using that(2) \<open>w = v\<close> by simp
  qed
  show ?thesis
  proof (rule core_move_sys_inv [OF inv m(3,1) _ _ _ m(4)])
    show "cores_inv (sys_core c) ((sys_states s1)(core := CIdle)) (os_pt mw s1)"
      by (rule cores_inv_idle [OF sys_cores [OF inv] m(1)])
    show "resident (sys_core c) ((sys_states s1)(core := CIdle)) (os_pt mw s1) w q"
      if "sys_resident mw c s1 w q" "\<exists>k. sys_core c k \<and> core_tlb (os_hw s1) k w = Some q" for w q
      by (rule resident_keep [OF that(1)]) (use gone that(2) in auto)
  qed simp_all
qed

text \<open>Steps that move no core.\<close>

lemma shootdown_ackedD:
  assumes "shootdown_acked c s" and "sys_core c d" and "core_state s d = UnmapShootdownWaiting u v r"
  shows "sd_vaddr (TLB_Shootdown s) = v"
    and "sys_core c k \<Longrightarrow> k \<notin> open_requests (TLB_Shootdown s) \<Longrightarrow> core_tlb (os_hw s) k v = None"
  using assms(1) [unfolded shootdown_acked_def, rule_format, OF conjI, OF assms(2,3)] by simp_all

lemma same_cores_sys_inv:
  assumes inv: "sys_inv mw c s1" and st: "core_states s2 = core_states s1" and pt: "os_pt mw s2 = os_pt mw s1"
    and snd: "os_sound s2 = os_sound s1"
    and tlb: "\<And>k v p. sys_core c k \<Longrightarrow> core_tlb (os_hw s2) k v = Some p \<Longrightarrow>
      core_tlb (os_hw s1) k v = Some p \<or> os_pt mw s1 v = Some p"
    and sd: "sd_vaddr (TLB_Shootdown s2) = sd_vaddr (TLB_Shootdown s1)"
      "open_requests (TLB_Shootdown s2) \<subseteq> open_requests (TLB_Shootdown s1)"
    and ack: "\<And>k. sys_core c k \<Longrightarrow> k \<in> open_requests (TLB_Shootdown s1) \<Longrightarrow>
      k \<notin> open_requests (TLB_Shootdown s2) \<Longrightarrow> core_tlb (os_hw s2) k (sd_vaddr (TLB_Shootdown s1)) = None"
  shows "sys_inv mw c s2"
proof -
  note i = sys_invD [OF inv]
  have "ids_inv c s2" using i(1) unfolding ids_inv_def valid_ids_def st .
  moreover have "sys_cores_inv mw c s2" using i(2) by (simp only: sys_cores_inv_def st pt)
  moreover have "tlb_resident mw c s2"
    using i(3) tlb unfolding tlb_resident_def st pt by (metis resident_def)
  moreover have "shootdown_acked c s2"
    unfolding shootdown_acked_def st sd(1)
  proof (intro allI impI conjI)
    fix d u v r
    assume d: "sys_core c d \<and> core_state s1 d = UnmapShootdownWaiting u v r"
    then show v: "sd_vaddr (TLB_Shootdown s1) = v" using shootdown_ackedD(1) [OF i(4)] d by blast
    fix k assume k: "sys_core c k \<and> k \<notin> open_requests (TLB_Shootdown s2)"
    show "core_tlb (os_hw s2) k v = None"
    proof (cases "k \<in> open_requests (TLB_Shootdown s1)")
      case True
      then have "core_tlb (os_hw s2) k (sd_vaddr (TLB_Shootdown s1)) = None"
        using k by (intro ack) simp_all
      then show ?thesis unfolding v .
    next
      case False
      have "os_pt mw s1 v = None" using ci_removed [OF sys_cores [OF inv], of d v] d by simp
      moreover have "core_tlb (os_hw s1) k v = None" using shootdown_ackedD(2) [OF i(4)] d k False by blast
      ultimately have "core_tlb (os_hw s2) k v \<noteq> Some p" for p using tlb [of k v p] k by auto
      then show ?thesis by (metis not_Some_eq)
    qed
  qed
  moreover have "shootdown_cores_valid c s2" using i(5) sd(2) by (auto simp: shootdown_cores_valid_def)
  ultimately show ?thesis using i(6) snd by (simp add: sys_inv_def)
qed

lemma hw_step_inv:
  assumes inv: "sys_inv mw c s1" and step: "os_step_HW mw c s1 s2 u hw"
  shows "sys_inv mw c s2"
proof -
  note s = step [unfolded os_step_HW_def]
  have tlb: "core_tlb (os_hw s1) k v = Some p \<or> os_pt mw s1 v = Some p"
    if "core_tlb (os_hw s2) k v = Some p" for k v p
  proof (cases hw)
    case (ReadWrite va pa op e k')
    then have "NUMAs (os_hw s2) = NUMAs (os_hw s1)" using s by (simp add: hw_step_ReadWrite_def)
    then show ?thesis using that by simp
  next
    case PTMemOp
    then show ?thesis using s by simp
  next
    case (TLBFill w q k')
    then have f: "hw_step_TLBFill mw (os_hwc c) (os_hw s1) (os_hw s2) w q k'" using s by simp
    then have "os_pt mw s1 w = Some q" by (simp add: hw_step_TLBFill_def os_pt_def)
    then show ?thesis using that hw_TLBFill_tlb [OF f, of k] by (auto split: if_splits)
  next
    case (TLBEvict w k')
    then have "hw_step_TLBEvict (os_hwc c) (os_hw s1) (os_hw s2) w k'" using s by simp
    from hw_TLBEvict_tlb [OF this, of k] show ?thesis using that by (auto split: if_splits)
  qed
  show ?thesis
    by (rule same_cores_sys_inv [OF inv]) (use s stutter_pt tlb in auto)
qed

lemma ack_inv:
  assumes inv: "sys_inv mw c s1" and step: "os_step_Ack_Shootdown_IPI mw c s1 s2 core"
  shows "sys_inv mw c s2"
proof -
  note s = step [unfolded os_step_Ack_Shootdown_IPI_def]
  have n: "NUMAs (os_hw s2) = NUMAs (os_hw s1)" using s by (simp add: hw_step_PTMemOp_def)
  show ?thesis
    by (rule same_cores_sys_inv [OF inv]) (use s n stutter_pt in \<open>auto simp: domIff\<close>)
qed

lemma view_stutter_inv:
  assumes inv: "sys_inv mw c s1" and step: "os_step_View_Stutter mw c s1 s2 core"
  shows "sys_inv mw c s2"
proof -
  note s = step [unfolded os_step_View_Stutter_def]
  have n: "NUMAs (os_hw s2) = NUMAs (os_hw s1)" using s by (simp add: hw_step_PTMemOp_def)
  have "os_pt mw s2 = os_pt mw s1" using s by (simp add: spt_step_View_Stutter_def os_pt_spt_interp)
  then show ?thesis
    by (intro same_cores_sys_inv [OF inv]) (use s n in auto)
qed

section \<open>Reachable states\<close>

lemma cores_inv_idle_empty:
  assumes "\<And>k. V k \<Longrightarrow> st k = CIdle"
  shows "cores_inv V st Map.empty"
proof -
  have "\<not> resident V st Map.empty v p" for v p using assms by (auto simp: resident_def)
  then show ?thesis
    using assms unfolding cores_inv_def lock_exclusive_def ops_disjoint_def removed_unmapped_def
      resident_disjoint_def maps_disjoint_def by auto
qed

lemma os_init_sys_inv:
  assumes init: "os_init mw c s"
  shows "sys_inv mw c s"
proof -
  have idle: "core_state s k = CIdle" if "sys_core c k" for k using init that by (simp add: os_init_def)
  have pt: "os_pt mw s = Map.empty" using init by (simp add: os_init_def os_pt_def)
  have "hw_init (os_hwc c) (os_hw s)" using init by (simp add: os_init_def)
  then have "core_tlb (os_hw s) k = Map.empty" if "sys_core c k" for k using hw_init_tlb that by blast
  then have "tlb_resident mw c s" unfolding tlb_resident_def by (metis option.distinct(1))
  moreover have "valid_ids c s" using idle by (simp add: valid_ids_def)
  then have "ids_inv c s" using init unfolding os_init_def ids_inv_def by blast
  moreover have "sys_cores_inv mw c s"
    unfolding sys_cores_inv_def pt by (rule cores_inv_idle_empty) (rule idle)
  moreover have "shootdown_acked c s"
    using idle unfolding shootdown_acked_def by (metis CoreState.distinct(11))
  moreover have "shootdown_cores_valid c s" "os_sound s"
    using init by (simp_all add: os_init_def shootdown_cores_valid_def)
  ultimately show ?thesis by (simp add: sys_inv_def)
qed

lemma os_next_sys_inv:
  assumes "sys_inv mw c s1" and "os_next_step mw c s1 s2 step"
  shows "sys_inv mw c s2"
  using assms(2)
  by (cases step)
    (simp_all add: hw_step_inv [OF assms(1)] map_start_inv [OF assms(1)] map_op_start_inv [OF assms(1)]
      map_end_inv [OF assms(1)] unmap_start_inv [OF assms(1)] unmap_op_start_inv [OF assms(1)]
      unmap_op_end_inv [OF assms(1)] initiate_shootdown_inv [OF assms(1)] ack_inv [OF assms(1)]
      unmap_end_inv [OF assms(1)] view_stutter_inv [OF assms(1)])

lemma os_reachable_sys_inv: "os_reachable mw c s \<Longrightarrow> sys_inv mw c s"
proof (induction rule: os_reachable.induct)
  case (os_reachable_init s)
  then show ?case by (rule os_init_sys_inv)
next
  case (os_reachable_step s1 s2)
  then show ?case using os_next_sys_inv unfolding os_next_def by blast
qed

section \<open>The invariants the source states\<close>

lemma sys_inv_os_wf:
  assumes inv: "sys_inv mw c s"
  shows "os_wf c s"
proof -
  have "core1 = core2" if "sys_core c core1 \<and> holds_lock (core_state s core1) \<and>
      sys_core c core2 \<and> holds_lock (core_state s core2)" for core1 core2
    using ci_lock [OF sys_cores [OF inv]] that by blast
  then show ?thesis
    using sys_invD(1) [OF inv] unfolding os_wf_def ids_inv_def by (intro conjI) blast+
qed

lemma sys_inv_os_inv:
  assumes inv: "sys_inv mw c s"
  shows "os_inv mw c s"
proof -
  note cores = sys_cores [OF inv]
  have "case core_state s k of
      UnmapOpExecuting _ v _ \<Rightarrow> v \<notin> dom (os_pt mw s) | UnmapOpDone _ v _ \<Rightarrow> v \<notin> dom (os_pt mw s)
    | UnmapShootdownWaiting _ v _ \<Rightarrow> v \<notin> dom (os_pt mw s) | _ \<Rightarrow> True" if "sys_core c k" for k
    using ci_removed [OF cores that] by (auto simp: domIff split: CoreState.split)
  then have "successful_unmaps mw c s" by (simp add: successful_unmaps_def)
  moreover have "valid_ids c s" using sys_invD(1) [OF inv] by (simp add: ids_inv_def)
  moreover have "inflight_map_no_overlap_inflight_vmem mw c s"
    unfolding inflight_map_no_overlap_inflight_vmem_def cs_region_def is_idle_def op_region_def [symmetric]
    using ci_ops [OF cores] by blast
  moreover have "existing_map_no_overlap_existing_vmem mw s"
    unfolding existing_map_no_overlap_existing_vmem_def candidate_mapping_overlaps_existing_vmem_def
    using ci_vmem [OF cores] by (auto simp: resident_def split: if_splits)
  ultimately show ?thesis
    using sys_inv_os_wf [OF inv] by (simp add: os_inv_def basic_inv_def overlapping_vmem_inv_def)
qed

end
