(* ===== verification/OS_Interp.thy ===== *)
theory OS_Interp
  imports OS_Invariant
begin

text \<open>
  The interpretation of the system state as a state of the process-level specification, as
  a function of three things: the states of the cores, the mappings of the page table, and
  physical memory. The lemmas say how virtual memory as a process sees it changes when
  mappings come and go and when physical memory is written.
\<close>

section \<open>Effective mappings\<close>

fun unmap_vaddr :: "CoreState \<Rightarrow> nat option" where
  "unmap_vaddr (UnmapWaiting _ v) = Some v"
| "unmap_vaddr (UnmapOpExecuting _ v _) = Some v"
| "unmap_vaddr (UnmapOpDone _ v _) = Some v"
| "unmap_vaddr (UnmapShootdownWaiting _ v _) = Some v"
| "unmap_vaddr _ = None"

lemma unmap_vaddr_not_idle: "unmap_vaddr st = Some v \<Longrightarrow> st \<noteq> CIdle \<and> cs_vaddr st = v"
  by (cases st) auto

lemma removed_unmap_vaddr: "removed_vaddr st = Some v \<Longrightarrow> unmap_vaddr st = Some v"
  by (cases st) auto

definition eff :: "(Core \<Rightarrow> bool) \<Rightarrow> (Core \<Rightarrow> CoreState) \<Rightarrow> (nat \<rightharpoonup> PageTableEntry) \<Rightarrow> nat \<rightharpoonup> PageTableEntry" where
  "eff V st pt v = (if \<exists>k. V k \<and> unmap_vaddr (st k) = Some v then None else pt v)"

lemma effective_mappings_eff:
  assumes "ids_inv c s"
  shows "effective_mappings mw s = eff (sys_core c) (sys_states s) (os_pt mw s)"
proof
  fix v
  have "(case st of UnmapWaiting _ va \<Rightarrow> va = v | UnmapOpExecuting _ va _ \<Rightarrow> va = v
      | UnmapOpDone _ va _ \<Rightarrow> va = v | UnmapShootdownWaiting _ va _ \<Rightarrow> va = v | _ \<Rightarrow> False)
      \<longleftrightarrow> unmap_vaddr st = Some v" for st
    by (cases st) auto
  then have "v \<in> inflight_unmap_vaddr mw s \<longleftrightarrow>
      v \<in> dom (os_pt mw s) \<and> (\<exists>k\<in>dom (core_states s). unmap_vaddr (core_state s k) = Some v)"
    by (simp add: inflight_unmap_vaddr_def)
  moreover have "sys_core c k \<longleftrightarrow> k \<in> dom (core_states s)" for k
    using assms unfolding ids_inv_def by blast
  ultimately have "v \<in> inflight_unmap_vaddr mw s \<longleftrightarrow>
      v \<in> dom (os_pt mw s) \<and> (\<exists>k. sys_core c k \<and> unmap_vaddr (core_state s k) = Some v)"
    by (simp only: Bex_def)
  then show "effective_mappings mw s v = eff (sys_core c) (sys_states s) (os_pt mw s) v"
    unfolding effective_mappings_def eff_def by (cases "os_pt mw s v") (simp_all add: domIff)
qed

lemma eff_le: "eff V st pt v = Some p \<Longrightarrow> pt v = Some p"
  by (simp add: eff_def split: if_splits)

lemma eff_resident: "eff V st pt v = Some p \<Longrightarrow> resident V st pt v p"
  using eff_le by (auto simp: resident_def)

text \<open>A core that changes phase, or starts or ends a map, leaves the effective mappings alone.\<close>

lemma eff_same:
  assumes "unmap_vaddr X = unmap_vaddr (st core)"
  shows "eff V (st(core := X)) pt = eff V st pt"
proof
  fix v
  have "unmap_vaddr ((st(core := X)) k) = unmap_vaddr (st k)" for k using assms by simp
  then show "eff V (st(core := X)) pt v = eff V st pt v" by (simp only: eff_def)
qed

text \<open>An unmap that starts takes its address out; it stays out until it ends.\<close>

lemma eff_unmap:
  assumes "V core" and "unmap_vaddr X = Some v" and "unmap_vaddr (st core) = None"
  shows "eff V (st(core := X)) pt = (eff V st pt)(v := None)"
proof
  fix w
  have "(\<exists>k. V k \<and> unmap_vaddr ((st(core := X)) k) = Some w) \<longleftrightarrow>
      w = v \<or> (\<exists>k. V k \<and> unmap_vaddr (st k) = Some w)"
    using assms by (metis fun_upd_apply option.distinct(1) option.inject)
  then show "eff V (st(core := X)) pt w = ((eff V st pt)(v := None)) w" by (simp add: eff_def)
qed

lemma eff_unmapped:
  assumes "V core" and "unmap_vaddr (st core) = Some v"
  shows "eff V st (pt(v := None)) = eff V st pt"
  using assms by (auto simp: eff_def fun_eq_iff)

lemma eff_end:
  assumes "pt v = None" and "unmap_vaddr (st core) = Some v" and "unmap_vaddr X = None"
  shows "eff V (st(core := X)) pt = eff V st pt"
proof
  fix w
  show "eff V (st(core := X)) pt w = eff V st pt w"
  proof (cases "w = v")
    case True
    then show ?thesis using assms(1) by (simp add: eff_def)
  next
    case False
    then have "(\<exists>k. V k \<and> unmap_vaddr ((st(core := X)) k) = Some w) \<longleftrightarrow> (\<exists>k. V k \<and> unmap_vaddr (st k) = Some w)"
      using assms(2,3) by (metis fun_upd_apply option.distinct(1) option.inject)
    then show ?thesis by (simp only: eff_def)
  qed
qed

lemma eff_insert:
  assumes "\<And>k. V k \<Longrightarrow> unmap_vaddr (st k) \<noteq> Some v"
  shows "eff V st (pt(v \<mapsto> p)) = (eff V st pt)(v \<mapsto> p)"
  using assms by (auto simp: eff_def fun_eq_iff)

section \<open>Virtual memory\<close>

definition vm_of :: "nat \<Rightarrow> (nat \<rightharpoonup> PageTableEntry) \<Rightarrow> nat list \<Rightarrow> nat \<rightharpoonup> nat" where
  "vm_of n E mem =
     (\<lambda>idx. if mem_domain_from_mappings_contains n idx E then
        (let vaddr = idx * WORD_SIZE;
             entry = (SOME e. E (fst e) = Some (snd e) \<and> between vaddr (fst e) (fst e + frame_size (snd e)));
             paddr = frame_base (snd entry) + (vaddr - fst entry)
         in Some (mem ! word_index_spec paddr))
      else None)"

lemma interp_vmem_vm_of:
  "interp_vmem mw c s = vm_of (hw_phys_mem_size (os_hwc c)) (effective_mappings mw s) (hw_mem (os_hw s))"
  by (simp add: interp_vmem_def vm_of_def osc_interp_def Let_def)

definition virt_disjoint :: "(nat \<rightharpoonup> PageTableEntry) \<Rightarrow> bool" where
  "virt_disjoint E \<longleftrightarrow>
     (\<forall>v p w q. E v = Some p \<and> E w = Some q \<and> v \<noteq> w \<longrightarrow> \<not> overlap (vmem_region v p) (vmem_region w q))"

lemma virt_disjoint_unique:
  assumes "virt_disjoint E" and "E v = Some p" "between a v (v + frame_size p)"
    and "E w = Some q" "between a w (w + frame_size q)"
  shows "v = w"
  using assms unfolding virt_disjoint_def by (fastforce simp: not_overlap_iff between_def)

lemma virt_disjoint_subset: "virt_disjoint E' \<Longrightarrow> E \<subseteq>\<^sub>m E' \<Longrightarrow> virt_disjoint E"
  unfolding virt_disjoint_def map_le_def dom_def by (metis (mono_tags, lifting) mem_Collect_eq option.distinct(1))

definition phys_word :: "nat \<Rightarrow> PageTableEntry \<Rightarrow> nat \<Rightarrow> nat" where
  "phys_word b p idx = word_index_spec (frame_base p + (idx * WORD_SIZE - b))"

lemma mem_domain_iff:
  "idx \<in> mem_domain_from_mappings n E \<longleftrightarrow>
     (\<exists>b p. E b = Some p \<and> between (idx * WORD_SIZE) b (b + frame_size p) \<and> phys_word b p idx < n)"
  by (simp add: mem_domain_from_mappings_def mem_domain_from_mappings_contains_def
      mem_domain_from_entry_contains_def phys_word_def)

lemma vm_of_dom: "dom (vm_of n E mem) = mem_domain_from_mappings n E"
  by (auto simp: vm_of_def mem_domain_from_mappings_def Let_def split: if_splits)

lemma vm_of_lookup:
  assumes "virt_disjoint E" and e: "E b = Some p" "between (idx * WORD_SIZE) b (b + frame_size p)"
    and "phys_word b p idx < n"
  shows "vm_of n E mem idx = Some (mem ! phys_word b p idx)"
proof -
  let ?P = "\<lambda>e. E (fst e) = Some (snd e) \<and>
      between (idx * WORD_SIZE) (fst e) (fst e + frame_size (snd e))"
  have "?P (b, p)" using e by simp
  moreover have "e = (b, p)" if "?P e" for e
    using virt_disjoint_unique [OF assms(1), of "fst e" "snd e" "idx * WORD_SIZE" b p] that e
    by (metis option.inject prod.collapse)
  ultimately have "(SOME e. ?P e) = (b, p)" by (rule some_equality)
  moreover have "mem_domain_from_mappings_contains n idx E"
    using assms mem_domain_iff by (auto simp: mem_domain_from_mappings_def)
  ultimately show ?thesis by (simp add: vm_of_def phys_word_def)
qed

text \<open>Adding mappings does not change what a mapped word holds.\<close>

lemma vm_of_mono:
  assumes "virt_disjoint E'" and "E \<subseteq>\<^sub>m E'" and "idx \<in> dom (vm_of n E mem)"
  shows "vm_of n E' mem idx = vm_of n E mem idx"
proof -
  obtain b p where e: "E b = Some p" "between (idx * WORD_SIZE) b (b + frame_size p)" "phys_word b p idx < n"
    using assms(3) mem_domain_iff by (auto simp: vm_of_dom)
  then have "E' b = Some p" using assms(2) by (metis domI map_le_def)
  then show ?thesis
    using vm_of_lookup [OF assms(1) _ e(2,3)] vm_of_lookup [OF virt_disjoint_subset [OF assms(1,2)] e] by simp
qed

section \<open>Writing physical memory\<close>

lemma page_entry_sizes:
  assumes "page_entry v p"
  shows "0 < frame_size p" "frame_size p mod 8 = 0" "v mod 8 = 0" "frame_base p mod 8 = 0"
proof -
  have sz: "frame_size p = 8 * 512 \<or> frame_size p = 8 * 262144 \<or> frame_size p = 8 * 134217728"
    using assms by (auto simp: page_entry_def)
  then show "0 < frame_size p" "frame_size p mod 8 = 0" by auto
  have "aligned v (frame_size p)" "aligned (frame_base p) (frame_size p)"
    using assms by (simp_all add: page_entry_def)
  then show "v mod 8 = 0" "frame_base p mod 8 = 0"
    using sz mod_mult_zero_implies_mod_zero unfolding aligned_def by metis+
qed

lemma frame_word_bounds:
  assumes "page_entry v p" and "off < frame_size p"
  shows "frame_base p div 8 \<le> word_index_spec (frame_base p + off)"
    and "word_index_spec (frame_base p + off) < (frame_base p + frame_size p) div 8"
proof -
  show "frame_base p div 8 \<le> word_index_spec (frame_base p + off)"
    by (simp add: word_index_spec_def div_le_mono)
  have "(frame_base p + frame_size p) mod 8 = 0"
    using page_entry_sizes [OF assms(1)] by (simp add: mod_add_eq [symmetric])
  then have "frame_base p + frame_size p = (frame_base p + frame_size p) div 8 * 8"
    by (metis add.right_neutral div_mult_mod_eq)
  then show "word_index_spec (frame_base p + off) < (frame_base p + frame_size p) div 8"
    using assms(2) unfolding word_index_spec_def const_values
    by (intro less_mult_imp_div_less) linarith
qed

lemma disjoint_frames_words:
  assumes p: "page_entry v p" "a < frame_size p" and q: "page_entry w q" "b < frame_size q"
    and "\<not> overlap (pte_frame p) (pte_frame q)"
  shows "word_index_spec (frame_base p + a) \<noteq> word_index_spec (frame_base q + b)"
proof -
  consider "frame_base p + frame_size p \<le> frame_base q" | "frame_base q + frame_size q \<le> frame_base p"
    using assms(5) by (auto simp: not_overlap_iff)
  then show ?thesis
  proof cases
    case 1
    then have "(frame_base p + frame_size p) div 8 \<le> frame_base q div 8" by (rule div_le_mono)
    then show ?thesis using frame_word_bounds [OF p] frame_word_bounds [OF q] by linarith
  next
    case 2
    then have "(frame_base q + frame_size q) div 8 \<le> frame_base p div 8" by (rule div_le_mono)
    then show ?thesis using frame_word_bounds [OF p] frame_word_bounds [OF q] by linarith
  qed
qed

lemma phys_word_inj:
  assumes "page_entry b p" and "b \<le> i * WORD_SIZE" "b \<le> j * WORD_SIZE" and "phys_word b p i = phys_word b p j"
  shows "i = j"
proof -
  obtain x y where "b = 8 * x" "frame_base p = 8 * y"
    using page_entry_sizes [OF assms(1)] by (metis mod_0_imp_dvd dvd_def)
  then show ?thesis
    using assms(2-4) by (simp add: phys_word_def word_index_spec_def)
qed

lemma vm_of_write:
  assumes virt: "virt_disjoint E" and page: "\<And>v p. E v = Some p \<Longrightarrow> page_entry v p"
    and phys: "\<And>v p w q. E v = Some p \<Longrightarrow> E w = Some q \<Longrightarrow> v \<noteq> w \<Longrightarrow> \<not> overlap (pte_frame p) (pte_frame q)"
    and e: "E b = Some p" "between (i * WORD_SIZE) b (b + frame_size p)" "phys_word b p i < n"
    and len: "length mem = n"
  shows "vm_of n E (mem[phys_word b p i := x]) = (vm_of n E mem)(i \<mapsto> x)"
proof
  fix j
  show "vm_of n E (mem[phys_word b p i := x]) j = ((vm_of n E mem)(i \<mapsto> x)) j"
  proof (cases "j \<in> mem_domain_from_mappings n E")
    case False
    moreover have "i \<in> mem_domain_from_mappings n E" using e mem_domain_iff by auto
    ultimately have "j \<noteq> i" "j \<notin> dom (vm_of n E m)" for m by (auto simp: vm_of_dom)
    then show ?thesis by (auto simp: domIff)
  next
    case True
    then obtain d q where f: "E d = Some q" "between (j * WORD_SIZE) d (d + frame_size q)" "phys_word d q j < n"
      by (auto simp: mem_domain_iff)
    note look = vm_of_lookup [OF virt f]
    have "phys_word b p i = phys_word d q j \<longleftrightarrow> i = j"
    proof (cases "b = d")
      case True
      then show ?thesis
        using f e phys_word_inj [OF page [OF e(1)], of i j] by (auto simp: between_def)
    next
      case False
      then have "phys_word b p i \<noteq> phys_word d q j"
        unfolding phys_word_def using e f page phys
        by (intro disjoint_frames_words [of b p _ d q]) (auto simp: between_def)
      moreover have "i \<noteq> j" using virt_disjoint_unique [OF virt e(1,2) f(1)] f(2) False by blast
      ultimately show ?thesis by simp
    qed
    then show ?thesis using look e(3) len by (simp add: nth_list_update)
  qed
qed

lemma vm_of_write_other:
  assumes virt: "virt_disjoint E" and page: "\<And>v p. E v = Some p \<Longrightarrow> page_entry v p"
    and p: "page_entry b p" "off < frame_size p"
    and phys: "\<And>v q. E v = Some q \<Longrightarrow> \<not> overlap (pte_frame p) (pte_frame q)"
  shows "vm_of n E (mem[word_index_spec (frame_base p + off) := x]) = vm_of n E mem"
proof
  fix j
  show "vm_of n E (mem[word_index_spec (frame_base p + off) := x]) j = vm_of n E mem j"
  proof (cases "j \<in> mem_domain_from_mappings n E")
    case False
    then have "j \<notin> dom (vm_of n E m)" for m by (simp add: vm_of_dom)
    then show ?thesis by (simp add: domIff)
  next
    case True
    then obtain d q where f: "E d = Some q" "between (j * WORD_SIZE) d (d + frame_size q)" "phys_word d q j < n"
      by (auto simp: mem_domain_iff)
    have "word_index_spec (frame_base p + off) \<noteq> phys_word d q j"
      unfolding phys_word_def using f page phys p
      by (intro disjoint_frames_words [of b p _ d q]) (auto simp: between_def)
    then show ?thesis using vm_of_lookup [OF virt f] by simp
  qed
qed

end
