(* ===== verification/OS_Refinement.thy ===== *)
theory OS_Refinement
  imports OS_Interp
begin

text \<open>
  The system refines the process-level specification
  (\<^verbatim>\<open>page-table/impl_u/os_refinement.rs\<close>): every step of the system is the step of
  \<open>HL_Spec\<close> that \<open>os_step_interp\<close> names, between the interpretations of the states. Memory
  accesses through stale TLB entries and the admitted cases of the source are included.
\<close>

section \<open>Thread states\<close>

lemma interp_thread_state_eq:
  "interp_thread_state mw c s =
     (\<lambda>u. if valid_ULT c u then Some (cs_arguments (os_pt mw s) u (sys_states s (ult_core c u))) else None)"
  by (simp add: interp_thread_state_def)

lemma cs_arguments_other:
  "cs_ULT st = None \<or> cs_ULT st = Some u \<Longrightarrow> w \<noteq> u \<Longrightarrow> cs_arguments pt w st = AEmpty"
  by (cases st) (auto simp: cs_arguments_def)

lemma cs_arguments_cong:
  assumes "st \<noteq> CIdle \<Longrightarrow> pt' (cs_vaddr st) = pt (cs_vaddr st)"
  shows "cs_arguments pt' u st = cs_arguments pt u st"
  using assms by (cases st) (auto simp: cs_arguments_def)

lemma cs_arguments_AMap:
  "cs_arguments pt u st = AMap v p \<Longrightarrow>
     st \<noteq> CIdle \<and> cs_vaddr st = v \<and> vmem_pte_size st pt = frame_size p \<and> mapping_entry st = Some (v, p)"
  by (cases st) (auto simp: cs_arguments_def split: if_splits)

lemma cs_arguments_AUnmap:
  "cs_arguments pt u st = AUnmap v e \<Longrightarrow>
     st \<noteq> CIdle \<and> cs_vaddr st = v \<and> vmem_pte_size st pt = (case e of Some p \<Rightarrow> frame_size p | None \<Rightarrow> 0)"
  by (cases st) (auto simp: cs_arguments_def mapped_size_def result_pte_def
      split: if_splits option.splits rust_result.splits)

text \<open>One core moves on behalf of a thread: only that thread's operation changes.\<close>

lemma threads_move:
  assumes m: "core_move mw s1 s2 (ult_core c u) X pt'" and u: "valid_ULT c u"
    and ids: "cs_ULT X = None \<or> cs_ULT X = Some u"
      "cs_ULT (core_state s1 (ult_core c u)) = None \<or> cs_ULT (core_state s1 (ult_core c u)) = Some u"
    and other: "\<And>k. sys_core c k \<Longrightarrow> k \<noteq> ult_core c u \<Longrightarrow> core_state s1 k \<noteq> CIdle \<Longrightarrow>
      pt' (cs_vaddr (core_state s1 k)) = os_pt mw s1 (cs_vaddr (core_state s1 k))"
    and valid: "\<And>i. valid_ULT c i \<Longrightarrow> sys_core c (ult_core c i)"
  shows "interp_thread_state mw c s2 = (interp_thread_state mw c s1)(u \<mapsto> cs_arguments pt' u X)"
proof
  fix w
  have pt: "os_pt mw s2 = pt'" using m by (simp add: core_move_def)
  note st = core_move_states [OF m]
  show "interp_thread_state mw c s2 w = ((interp_thread_state mw c s1)(u \<mapsto> cs_arguments pt' u X)) w"
  proof (cases "valid_ULT c w \<and> w \<noteq> u")
    case False
    then show ?thesis using u unfolding interp_thread_state_def st pt by (cases "w = u") simp_all
  next
    case True
    have "cs_arguments pt' w (core_state s2 (ult_core c w)) =
        cs_arguments (os_pt mw s1) w (core_state s1 (ult_core c w))"
    proof (cases "ult_core c w = ult_core c u")
      case same: True
      have "w \<noteq> u" using True ..
      then have "cs_arguments pt' w X = AEmpty"
        "cs_arguments (os_pt mw s1) w (core_state s1 (ult_core c u)) = AEmpty"
        using cs_arguments_other [OF ids(1)] cs_arguments_other [OF ids(2)] by blast+
      then show ?thesis unfolding same st by (simp only: if_True refl)
    next
      case False
      have "cs_arguments pt' w (core_state s1 (ult_core c w)) =
          cs_arguments (os_pt mw s1) w (core_state s1 (ult_core c w))"
        by (rule cs_arguments_cong, rule other [OF _ False]) (use valid True in blast)
      then show ?thesis unfolding st using False by (simp only: if_False)
    qed
    then show ?thesis unfolding interp_thread_state_def pt using True by simp
  qed
qed

lemma threads_same:
  assumes "interp_thread_state mw c s2 = (interp_thread_state mw c s1)(u \<mapsto> cs_arguments pt' u X)"
    and "valid_ULT c u" and "cs_arguments pt' u X = cs_arguments (os_pt mw s1) u (core_state s1 (ult_core c u))"
  shows "interp_thread_state mw c s2 = interp_thread_state mw c s1"
  using assms by (auto simp: interp_thread_state_def fun_eq_iff)

section \<open>The parts of an interpreted state\<close>

definition mem_size_ok :: "OSConstants \<Rightarrow> OSVariables \<Rightarrow> bool" where
  "mem_size_ok c s \<longleftrightarrow> length (hw_mem (os_hw s)) = hw_phys_mem_size (os_hwc c)"

abbreviation sys_eff :: "nat \<Rightarrow> OSConstants \<Rightarrow> OSVariables \<Rightarrow> nat \<rightharpoonup> PageTableEntry" where
  "sys_eff mw c s \<equiv> eff (sys_core c) (sys_states s) (os_pt mw s)"

lemma os_interp_simps:
  assumes "sys_inv mw c s"
  shows "hl_mappings (os_interp mw c s) = sys_eff mw c s"
    and "vmem (os_interp mw c s) = vm_of (hw_phys_mem_size (os_hwc c)) (sys_eff mw c s) (hw_mem (os_hw s))"
    and "thread_state (os_interp mw c s) = interp_thread_state mw c s"
    and "hl_sound (os_interp mw c s)"
  using sys_invD(6) [OF assms] effective_mappings_eff [OF sys_invD(1) [OF assms], of mw]
  by (simp_all add: os_interp_def interp_vmem_vm_of)

lemma osc_interp_simps [simp]:
  "hl_phys_mem_size (osc_interp c) = hw_phys_mem_size (os_hwc c)"
  "valid_thread (osc_interp c) u = valid_ULT c u"
  by (simp_all add: osc_interp_def valid_thread_def valid_ULT_def)

lemma sys_eff_facts:
  assumes inv: "sys_inv mw c s"
  shows "virt_disjoint (sys_eff mw c s)"
    and "sys_eff mw c s v = Some p \<Longrightarrow> page_entry v p"
    and "sys_eff mw c s v = Some p \<Longrightarrow> sys_eff mw c s w = Some q \<Longrightarrow> v \<noteq> w \<Longrightarrow>
      \<not> overlap (pte_frame p) (pte_frame q)"
  using ci_vmem [OF sys_cores [OF inv] eff_resident eff_resident]
    ci_page [OF sys_cores [OF inv] eff_resident]
    ci_frames [OF sys_cores [OF inv] eff_resident eff_resident]
  by (auto simp: virt_disjoint_def)

lemma sys_core_states:
  "core_move mw s1 s2 core X pt' \<Longrightarrow> sys_eff mw c s2 = eff (sys_core c) ((sys_states s1)(core := X)) pt'"
  by (simp add: core_move_def)

lemma move_mem: "core_move mw s1 s2 core X pt' \<Longrightarrow> hw_mem (os_hw s2) = hw_mem (os_hw s1)"
  by (simp add: core_move_def)

lemma ids_valid: "sys_inv mw c s \<Longrightarrow> valid_ULT c i \<Longrightarrow> sys_core c (ult_core c i)"
  using sys_invD(1) unfolding ids_inv_def by blast

lemma ids_core:
  assumes "sys_inv mw c s" and "sys_core c k" and "cs_ULT (core_state s k) = Some u"
  shows "valid_ULT c u" and "ult_core c u = k"
  using sys_invD(1) [OF assms(1)] assms(2,3) unfolding ids_inv_def valid_ids_def by fastforce+

text \<open>A move that changes neither a thread's operation nor the effective mappings is a stutter.\<close>

lemma move_stutter:
  assumes inv: "sys_inv mw c s1" "sys_inv mw c s2" and m: "core_move mw s1 s2 core X pt'"
    and core: "sys_core c core" and u: "cs_ULT (core_state s1 core) = Some u" "cs_ULT X = Some u"
    and other: "\<And>k. sys_core c k \<Longrightarrow> k \<noteq> core \<Longrightarrow> core_state s1 k \<noteq> CIdle \<Longrightarrow>
      pt' (cs_vaddr (core_state s1 k)) = os_pt mw s1 (cs_vaddr (core_state s1 k))"
    and args: "cs_arguments pt' u X = cs_arguments (os_pt mw s1) u (core_state s1 core)"
    and eff: "eff (sys_core c) ((sys_states s1)(core := X)) pt' = sys_eff mw c s1"
  shows "os_interp mw c s2 = os_interp mw c s1"
proof -
  have ult: "valid_ULT c u" "ult_core c u = core" using ids_core [OF inv(1) core u(1)] .
  have "interp_thread_state mw c s2 = (interp_thread_state mw c s1)(u \<mapsto> cs_arguments pt' u X)"
    by (rule threads_move [OF m [folded ult(2)] ult(1)]) (use u ult(2) other ids_valid [OF inv(1)] in auto)
  then have "interp_thread_state mw c s2 = interp_thread_state mw c s1"
    by (rule threads_same) (use ult args in simp_all)
  then show ?thesis
    using os_interp_simps [OF inv(1)] os_interp_simps [OF inv(2)] sys_core_states [OF m, of c] eff move_mem [OF m]
    by (intro AbstractVariables.equality) simp_all
qed

lemma same_interp:
  assumes "core_states s2 = core_states s1" and "os_pt mw s2 = os_pt mw s1" and "os_sound s2 = os_sound s1"
    and "hw_mem (os_hw s2) = hw_mem (os_hw s1)"
  shows "os_interp mw c s2 = os_interp mw c s1"
proof -
  have e: "effective_mappings mw s2 = effective_mappings mw s1"
    unfolding effective_mappings_def inflight_unmap_vaddr_def assms(1,2) ..
  show ?thesis
    unfolding os_interp_def interp_vmem_vm_of e interp_thread_state_def assms by simp
qed

section \<open>Stuttering steps\<close>

lemma map_op_start_refines:
  assumes inv: "sys_inv mw c s1" and step: "os_step_Map_op_Start c s1 s2 core"
  shows "os_interp mw c s2 = os_interp mw c s1"
proof -
  obtain u v p where m: "sys_core c core" "core_state s1 core = MapWaiting u v p"
    "core_move mw s1 s2 core (MapExecuting u v p) (os_pt mw s1)"
    by (rule map_op_start_move [OF step])
  show ?thesis
    by (rule move_stutter [OF inv map_op_start_inv [OF inv step] m(3,1), of u])
      (use m(2) in \<open>simp_all add: cs_arguments_def eff_same\<close>)
qed

lemma unmap_op_end_refines:
  assumes inv: "sys_inv mw c s1" and step: "os_step_Unmap_Op_End c s1 s2 core"
  shows "os_interp mw c s2 = os_interp mw c s1"
proof -
  obtain u v r where m: "sys_core c core" "core_state s1 core = UnmapOpExecuting u v r"
    "core_move mw s1 s2 core (UnmapOpDone u v r) (os_pt mw s1)"
    by (rule unmap_op_end_move [OF step])
  show ?thesis
    by (rule move_stutter [OF inv unmap_op_end_inv [OF inv step] m(3,1), of u])
      (use m(2) in \<open>simp_all add: cs_arguments_def eff_same\<close>)
qed

lemma initiate_shootdown_refines:
  assumes inv: "sys_inv mw c s1" and step: "os_step_Unmap_Initiate_Shootdown c s1 s2 core"
  shows "os_interp mw c s2 = os_interp mw c s1"
proof -
  obtain u v r where m: "sys_core c core" "core_state s1 core = UnmapOpDone u v r"
    "core_move mw s1 s2 core (UnmapShootdownWaiting u v r) (os_pt mw s1)"
    by (rule initiate_shootdown_move [OF step])
  show ?thesis
    by (rule move_stutter [OF inv initiate_shootdown_inv [OF inv step] m(3,1), of u])
      (use m(2) in \<open>simp_all add: cs_arguments_def eff_same\<close>)
qed

lemma unmap_op_start_refines:
  assumes inv: "sys_inv mw c s1" and step: "os_step_Unmap_Op_Start mw c s1 s2 core result"
  shows "os_interp mw c s2 = os_interp mw c s1"
proof -
  obtain u v where m: "sys_core c core" "core_state s1 core = UnmapWaiting u v"
    "core_move mw s1 s2 core
       (UnmapOpExecuting u v (case os_pt mw s1 v of Some p \<Rightarrow> Ok p | None \<Rightarrow> Err ())) ((os_pt mw s1)(v := None))"
    by (rule unmap_op_start_move [OF step])
  let ?X = "UnmapOpExecuting u v (case os_pt mw s1 v of Some p \<Rightarrow> Ok p | None \<Rightarrow> Err ())"
  have "eff (sys_core c) ((sys_states s1)(core := ?X)) ((os_pt mw s1)(v := None)) =
      eff (sys_core c) (sys_states s1) ((os_pt mw s1)(v := None))"
    by (rule eff_same) (simp add: m(2))
  also have "\<dots> = sys_eff mw c s1" by (rule eff_unmapped [where core = core]) (simp_all add: m(1,2))
  finally have e: "eff (sys_core c) ((sys_states s1)(core := ?X)) ((os_pt mw s1)(v := None)) = sys_eff mw c s1" .
  show ?thesis
  proof (rule move_stutter [OF inv unmap_op_start_inv [OF inv step] m(3,1) _ _ _ _ e, of u])
    fix k assume k: "sys_core c k" "k \<noteq> core" "core_state s1 k \<noteq> CIdle"
    show "((os_pt mw s1)(v := None)) (cs_vaddr (core_state s1 k)) = os_pt mw s1 (cs_vaddr (core_state s1 k))"
      using ci_vaddr_distinct [OF sys_cores [OF inv] k(1) m(1) k(2,3)] m(2) by simp
  qed (use m(2) in \<open>simp_all add: cs_arguments_def split: option.split\<close>)
qed

section \<open>Overlap checks\<close>

text \<open>Every operation a thread has in flight belongs to a core.\<close>

lemma thread_args_core:
  assumes inv: "sys_inv mw c s" and "a \<in> ran (interp_thread_state mw c s)"
  obtains u k where "sys_core c k" "core_state s k \<in> ran (core_states s)"
    "a = cs_arguments (os_pt mw s) u (core_state s k)"
proof -
  obtain u where u: "valid_ULT c u" "a = cs_arguments (os_pt mw s) u (core_state s (ult_core c u))"
    using assms(2) by (auto simp: ran_def interp_thread_state_def split: if_splits)
  note k = ids_valid [OF inv u(1)]
  show thesis by (rule that [OF k ids_state_in_ran [OF sys_invD(1) [OF inv] k] u(2)])
qed

lemma vmem_overlap_hl_os:
  assumes inv: "sys_inv mw c s"
    and "\<not> os_overlaps_inflight_vmem (os_pt mw s) (ran (core_states s)) v sz"
  shows "\<not> hl_overlaps_inflight_vmem (ran (interp_thread_state mw c s)) v sz"
proof
  assume "hl_overlaps_inflight_vmem (ran (interp_thread_state mw c s)) v sz"
  then obtain a where a: "a \<in> ran (interp_thread_state mw c s)" and
    o: "case a of AMap va pte \<Rightarrow> overlap \<lparr>mr_base = va, mr_size = frame_size pte\<rparr> \<lparr>mr_base = v, mr_size = sz\<rparr>
      | AUnmap va pte \<Rightarrow> let z = (case pte of Some p \<Rightarrow> frame_size p | None \<Rightarrow> 0) in
          overlap \<lparr>mr_base = va, mr_size = z\<rparr> \<lparr>mr_base = v, mr_size = sz\<rparr>
      | AEmpty \<Rightarrow> False"
    unfolding hl_overlaps_inflight_vmem_def by blast
  obtain u k where k: "core_state s k \<in> ran (core_states s)" "a = cs_arguments (os_pt mw s) u (core_state s k)"
    using thread_args_core [OF inv a] .
  have "core_state s k \<noteq> CIdle \<and> overlap \<lparr>mr_base = cs_vaddr (core_state s k),
      mr_size = vmem_pte_size (core_state s k) (os_pt mw s)\<rparr> \<lparr>mr_base = v, mr_size = sz\<rparr>"
  proof (cases a)
    case (AMap va pte)
    then show ?thesis using o cs_arguments_AMap [OF k(2) [symmetric, unfolded AMap]] by simp
  next
    case (AUnmap va pte)
    then show ?thesis using o cs_arguments_AUnmap [OF k(2) [symmetric, unfolded AUnmap]] by (simp add: Let_def)
  qed (use o in simp)
  then show False using assms(2) k(1) unfolding os_overlaps_inflight_vmem_def by blast
qed

lemma cs_arguments_pte:
  assumes "args_pte (cs_arguments pt u st) = Some q" and "overlap (pte_frame p) (pte_frame q)" and "st \<in> S"
  shows "os_overlaps_inflight_pmem pt S p"
  unfolding os_overlaps_inflight_pmem_def
  by (rule bexI [OF _ assms(3)], cases st)
    (use assms(1,2) in \<open>auto simp: cs_arguments_def result_pte_def split: if_splits rust_result.splits\<close>)

lemma pmem_overlap_hl_os:
  assumes inv: "sys_inv mw c s"
    and "\<not> os_overlaps_inflight_pmem (os_pt mw s) (ran (core_states s)) p"
  shows "\<not> hl_overlaps_inflight_pmem (ran (interp_thread_state mw c s)) p"
proof
  assume "hl_overlaps_inflight_pmem (ran (interp_thread_state mw c s)) p"
  then obtain a q where a: "a \<in> ran (interp_thread_state mw c s)" "args_pte a = Some q"
      "overlap (pte_frame p) (pte_frame q)"
    unfolding hl_overlaps_inflight_pmem_iff by blast
  obtain u k where k: "core_state s k \<in> ran (core_states s)" "a = cs_arguments (os_pt mw s) u (core_state s k)"
    using thread_args_core [OF inv a(1)] .
  show False using cs_arguments_pte [OF _ a(3) k(1)] a(2) k(2) assms(2) by metis
qed

section \<open>Starting operations\<close>

lemma candidate_pmem_eff:
  "candidate_mapping_overlaps_existing_pmem (eff V st pt) p \<Longrightarrow> candidate_mapping_overlaps_existing_pmem pt p"
  unfolding candidate_mapping_overlaps_existing_pmem_def by (auto simp: dom_def eff_def split: if_splits)

lemma map_start_refines:
  assumes inv: "sys_inv mw c s1" and step: "os_step_Map_Start mw c s1 s2 u v p"
  shows "hl_step_Map_start mw (osc_interp c) (os_interp mw c s1) (os_interp mw c s2) u v p"
proof -
  note m = map_start_move [OF sys_invD(1) [OF inv] step] and inv2 = map_start_inv [OF inv step]
  note i1 = os_interp_simps [OF inv] and i2 = os_interp_simps [OF inv2]
  have "hl_step_Map_enabled mw v p"
    using step by (simp add: os_step_Map_Start_def Let_def os_step_Map_enabled_def hl_step_Map_enabled_def)
  moreover have "the (interp_thread_state mw c s1 u) = AEmpty"
    using m(2,3) by (simp add: interp_thread_state_def cs_arguments_def)
  moreover have "hl_step_Map_sound (sys_eff mw c s1) (ran (interp_thread_state mw c s1)) v p"
  proof -
    note snd = m(7) [unfolded os_step_Map_sound_def]
    have "\<not> candidate_mapping_overlaps_existing_pmem (sys_eff mw c s1) p"
      using snd by (blast dest: candidate_pmem_eff)
    then show ?thesis
      using snd vmem_overlap_hl_os [OF inv] pmem_overlap_hl_os [OF inv] by (simp add: hl_step_Map_sound_def)
  qed
  moreover have "interp_thread_state mw c s2 = (interp_thread_state mw c s1)(u \<mapsto> AMap v p)"
    using threads_move [OF m(4,3)] m(2) ids_valid [OF inv] by (simp add: cs_arguments_def)
  moreover have "sys_eff mw c s2 = sys_eff mw c s1"
    unfolding sys_core_states [OF m(4)] by (rule eff_same) (simp add: m(2))
  ultimately show ?thesis
    using m(3) i1 i2 move_mem [OF m(4)]
    by (simp add: hl_step_Map_start_def state_unchanged_besides_thread_state_def)
qed

lemma unmap_start_refines:
  assumes inv: "sys_inv mw c s1" and step: "os_step_Unmap_Start mw c s1 s2 u v"
  shows "hl_step_Unmap_start (osc_interp c) (os_interp mw c s1) (os_interp mw c s2) u v"
proof -
  note m = unmap_start_move [OF sys_invD(1) [OF inv] step] and inv2 = unmap_start_inv [OF inv step]
  note i1 = os_interp_simps [OF inv] and i2 = os_interp_simps [OF inv2]
  let ?n = "hw_phys_mem_size (os_hwc c)" and ?E = "sys_eff mw c s1"
  have free: "unmap_vaddr (core_state s1 k) \<noteq> Some v" if k: "sys_core c k" for k
  proof
    assume "unmap_vaddr (core_state s1 k) = Some v"
    from unmap_vaddr_not_idle [OF this] show False
      using m(6) ids_state_in_ran [OF sys_invD(1) [OF inv] k]
      unfolding os_step_Unmap_sound_def os_overlaps_inflight_vmem_def by (auto simp: overlap_def)
  qed
  then have pte: "?E v = os_pt mw s1 v" unfolding eff_def by auto
  have "sys_eff mw c s2 = ?E(v := None)"
    unfolding sys_core_states [OF m(4)] by (rule eff_unmap [where core = "ult_core c u"]) (simp_all add: m(1,2))
  then have E: "hl_mappings (os_interp mw c s2) = ?E(v := None)" "vmem (os_interp mw c s2) = vm_of ?n (?E(v := None)) (hw_mem (os_hw s1))"
    using i2 move_mem [OF m(4)] by simp_all
  have "?E(v := None) \<subseteq>\<^sub>m ?E" by (simp add: map_le_def)
  note mono = vm_of_mono [OF sys_eff_facts(1) [OF inv] this]
  have snd: "hl_step_Unmap_sound (ran (interp_thread_state mw c s1)) v
      (case os_pt mw s1 v of Some p \<Rightarrow> frame_size p | None \<Rightarrow> 0)"
    using vmem_overlap_hl_os [OF inv] m(6)
    by (simp add: hl_step_Unmap_sound_def os_step_Unmap_sound_def mapped_size_def)
  have th: "interp_thread_state mw c s2 = (interp_thread_state mw c s1)(u \<mapsto> AUnmap v (os_pt mw s1 v))"
    using threads_move [OF m(4,3)] m(2) ids_valid [OF inv] by (simp add: cs_arguments_def)
  have en: "hl_step_Unmap_enabled v" "the (interp_thread_state mw c s1 u) = AEmpty"
    using step m(2,3)
    by (simp_all add: os_step_Unmap_Start_def Let_def os_step_Unmap_enabled_def hl_step_Unmap_enabled_def
        interp_thread_state_def cs_arguments_def)
  have idx: "\<forall>i\<in>dom (vm_of ?n (?E(v := None)) (hw_mem (os_hw s1))).
      the (vm_of ?n (?E(v := None)) (hw_mem (os_hw s1)) i) = the (vm_of ?n ?E (hw_mem (os_hw s1)) i)"
    using mono by simp
  have none: "?E(v := None) = ?E" if "os_pt mw s1 v = None" using that pte by (simp add: fun_upd_idem)
  show ?thesis
    unfolding hl_step_Unmap_start_def Let_def i1(1-3) E i2(3) th pte osc_interp_simps
    using en snd m(3) idx none i1(4) i2(4) vm_of_dom [of ?n "?E(v := None)" "hw_mem (os_hw s1)"] by auto
qed

section \<open>Ending operations\<close>

text \<open>
  An unmap that waits covers a range disjoint from that of a map in flight, so the map meets
  the same conflicts in the page table and in the effective mappings.
\<close>

lemma conflict_eff:
  assumes inv: "cores_inv V st pt" and c: "V core" "st core = MapExecuting u v p"
  shows "candidate_mapping_overlaps_existing_vmem (eff V st pt) v p =
      candidate_mapping_overlaps_existing_vmem pt v p"
proof
  assume "candidate_mapping_overlaps_existing_vmem pt v p"
  then obtain w q where w: "pt w = Some q" "overlap (vmem_region v p) (vmem_region w q)"
    unfolding candidate_mapping_overlaps_existing_vmem_def by auto
  have "unmap_vaddr (st k) \<noteq> Some w" if k: "V k" for k
  proof
    assume un: "unmap_vaddr (st k) = Some w"
    have "removed_vaddr (st k) \<noteq> Some w" using ci_removed [OF inv k] w(1) by auto
    then obtain u' where st: "st k = UnmapWaiting u' w" using un by (cases "st k") auto
    then have "core \<noteq> k" using c by auto
    then have "\<not> overlap (op_region pt (st core)) (op_region pt (st k))"
      by (intro ci_ops [OF inv c(1) k]) (simp_all add: c(2) st)
    then show False using w by (simp add: c(2) st op_region_def mapped_size_def)
  qed
  then have "eff V st pt w = Some q" using w(1) by (auto simp: eff_def)
  then show "candidate_mapping_overlaps_existing_vmem (eff V st pt) v p"
    using w(2) unfolding candidate_mapping_overlaps_existing_vmem_def by force
next
  assume "candidate_mapping_overlaps_existing_vmem (eff V st pt) v p"
  then show "candidate_mapping_overlaps_existing_vmem pt v p"
    unfolding candidate_mapping_overlaps_existing_vmem_def by (auto simp: dom_def eff_def split: if_splits)
qed

lemma not_unmapping:
  assumes inv: "cores_inv V st pt" and c: "V core" "st core = MapExecuting u v p" and k: "V k"
  shows "unmap_vaddr (st k) \<noteq> Some v"
proof
  assume un: "unmap_vaddr (st k) = Some v"
  then have "core \<noteq> k" using c by auto
  then show False
    using ci_vaddr_distinct [OF inv c(1) k] unmap_vaddr_not_idle [OF un] by (simp add: c(2))
qed

lemma map_end_refines:
  assumes inv: "sys_inv mw c s1" and step: "os_step_Map_End mw c s1 s2 core result"
  obtains u v p where "core_state s1 core = MapExecuting u v p"
    "hl_step_Map_end (osc_interp c) (os_interp mw c s1) (os_interp mw c s2) u result"
proof -
  note inv2 = map_end_inv [OF inv step] and cores = sys_cores [OF inv]
  note i1 = os_interp_simps [OF inv] and i2 = os_interp_simps [OF inv2]
  obtain u v p pt' where m: "sys_core c core" "core_state s1 core = MapExecuting u v p"
    "core_move mw s1 s2 core CIdle pt'" "TLB_Shootdown s2 = TLB_Shootdown s1"
    "if candidate_mapping_overlaps_existing_vmem (os_pt mw s1) v p
     then is_Err result \<and> pt' = os_pt mw s1 else is_Ok result \<and> pt' = (os_pt mw s1)(v \<mapsto> p)"
    by (rule map_end_move [OF step])
  let ?n = "hw_phys_mem_size (os_hwc c)" and ?E = "sys_eff mw c s1" and ?M = "hw_mem (os_hw s1)"
  let ?bad = "candidate_mapping_overlaps_existing_vmem (os_pt mw s1) v p"
  have ult: "valid_ULT c u" "ult_core c u = core" using ids_core [OF inv m(1)] m(2) by simp_all
  have "eff (sys_core c) ((sys_states s1)(core := CIdle)) pt' = eff (sys_core c) (sys_states s1) pt'"
    by (rule eff_same) (simp add: m(2))
  also have "\<dots> = (if ?bad then ?E else ?E(v \<mapsto> p))"
    using m(5) eff_insert [of "sys_core c" "sys_states s1" v] not_unmapping [OF cores m(1,2)] by simp
  finally have E2: "sys_eff mw c s2 = (if ?bad then ?E else ?E(v \<mapsto> p))"
    using sys_core_states [OF m(3), of c] by simp
  have other: "pt' (cs_vaddr (core_state s1 k)) = os_pt mw s1 (cs_vaddr (core_state s1 k))"
    if "sys_core c k" "k \<noteq> core" "core_state s1 k \<noteq> CIdle" for k
    using ci_vaddr_distinct [OF cores that(1) m(1) that(2,3)] m(2,5) by (auto split: if_splits)
  have th: "interp_thread_state mw c s2 = (interp_thread_state mw c s1)(u \<mapsto> AEmpty)"
    using threads_move [OF m(3) [folded ult(2)] ult(1)] m(2) ult(2) other ids_valid [OF inv]
    by (simp add: cs_arguments_def)
  have arg: "the (interp_thread_state mw c s1 u) = AMap v p"
    using ult m(2) by (simp add: interp_thread_state_def cs_arguments_def)
  have none: "?E v = None" if "\<not> ?bad" using candidate_free [OF that] by (simp add: eff_def)
  have mono: "?E \<subseteq>\<^sub>m ?E(v \<mapsto> p)" if "\<not> ?bad" using none [OF that] by (auto simp: map_le_def)
  have keep: "vm_of ?n (?E(v \<mapsto> p)) ?M idx = vm_of ?n ?E ?M idx" if "\<not> ?bad" "idx \<in> dom (vm_of ?n ?E ?M)" for idx
    using sys_eff_facts(1) [OF inv2] vm_of_mono [OF _ mono [OF that(1)] that(2)] that(1) E2 by simp
  have "hl_step_Map_end (osc_interp c) (os_interp mw c s1) (os_interp mw c s2) u result"
    unfolding hl_step_Map_end_def i1(1-3) i2(1-3) th arg E2 move_mem [OF m(3)] osc_interp_simps
      conflict_eff [OF cores m(1,2)] AbstractArguments.case
    using i1(4) i2(4) ult(1) m(5) keep vm_of_dom by (simp split: if_splits)
  then show thesis by (rule that [OF m(2)])
qed

lemma unmap_end_refines:
  assumes inv: "sys_inv mw c s1" and step: "os_step_Unmap_End c s1 s2 core"
  obtains u v r where
    "core_state s1 core = UnmapShootdownWaiting u v r \<or> core_state s1 core = UnmapOpDone u v r"
    "hl_step_Unmap_end (osc_interp c) (os_interp mw c s1) (os_interp mw c s2) u (result_map_ok r (\<lambda>r. ()))"
proof -
  note inv2 = unmap_end_inv [OF inv step] and cores = sys_cores [OF inv]
  note i1 = os_interp_simps [OF inv] and i2 = os_interp_simps [OF inv2]
  obtain u v r where m: "sys_core c core"
    "core_state s1 core = UnmapShootdownWaiting u v r \<and> open_requests (TLB_Shootdown s1) = {} \<or>
     core_state s1 core = UnmapOpDone u v r \<and> is_Err r"
    "core_move mw s1 s2 core CIdle (os_pt mw s1)"
    by (rule unmap_end_move [OF step])
  have st: "core_state s1 core = UnmapShootdownWaiting u v r \<or> core_state s1 core = UnmapOpDone u v r"
    using m(2) by blast
  then have facts: "cs_ULT (core_state s1 core) = Some u" "unmap_vaddr (core_state s1 core) = Some v"
    "removed_vaddr (core_state s1 core) = Some v"
    "cs_arguments (os_pt mw s1) u (core_state s1 core) = AUnmap v (result_pte r)"
    by (auto simp: cs_arguments_def)
  have ult: "valid_ULT c u" "ult_core c u = core" using ids_core [OF inv m(1) facts(1)] .
  have E2: "sys_eff mw c s2 = sys_eff mw c s1"
    unfolding sys_core_states [OF m(3)]
    by (rule eff_end [where v = v]) (simp_all add: facts(2) ci_removed [OF cores m(1) facts(3)])
  have th: "interp_thread_state mw c s2 = (interp_thread_state mw c s1)(u \<mapsto> AEmpty)"
    using threads_move [OF m(3) [folded ult(2)] ult(1)] facts(1) ult(2) ids_valid [OF inv]
    by (simp add: cs_arguments_def)
  have arg: "the (interp_thread_state mw c s1 u) = AUnmap v (result_pte r)"
    using ult facts(4) by (simp add: interp_thread_state_def)
  have "hl_step_Unmap_end (osc_interp c) (os_interp mw c s1) (os_interp mw c s2) u (result_map_ok r (\<lambda>r. ()))"
    unfolding hl_step_Unmap_end_def i1(1-3) i2(1-3) th arg E2 move_mem [OF m(3)] osc_interp_simps
    using i1(4) i2(4) ult(1) by (cases r) simp_all
  then show thesis by (rule that [OF st])
qed

section \<open>Memory accesses\<close>

lemma phys_word_at:
  "aligned vaddr 8 \<Longrightarrow> phys_word b p (word_index_spec vaddr) = word_index_spec (frame_base p + (vaddr - b))"
  by (auto simp: phys_word_def word_index_spec_def aligned_def)

lemma word_index_at: "aligned vaddr 8 \<Longrightarrow> word_index_spec vaddr * WORD_SIZE = vaddr"
  by (auto simp: word_index_spec_def aligned_def)

text \<open>A TLB entry at the base of an effective mapping is that mapping.\<close>

lemma tlb_entry_eff:
  assumes inv: "cores_inv V st pt" and "resident V st pt b p" and "eff V st pt b = Some q"
  shows "q = p"
proof -
  have "pt b = Some q" using assms(3) by (rule eff_le)
  moreover have "removed_entry (st k) \<noteq> Some (b, p)" if "V k" for k
    using ci_removed [OF inv that] removed_entry_vaddr calculation by fastforce
  ultimately show ?thesis using assms(2) by (auto simp: resident_def)
qed

text \<open>An address covered by no entry of a disjoint map is outside the domain of virtual memory.\<close>

lemma outside_domain:
  assumes "aligned vaddr 8" and "\<And>b q. E b = Some q \<Longrightarrow> \<not> between vaddr b (b + frame_size q)"
  shows "word_index_spec vaddr \<notin> mem_domain_from_mappings n E"
  unfolding mem_domain_iff word_index_at [OF assms(1)] using assms(2) by blast

text \<open>
  An access through a TLB entry that is still mapped reads or writes the word of virtual
  memory; one through a stale entry touches none, and is undefined in the specification.
\<close>

definition hw_access :: "nat \<Rightarrow> nat list \<Rightarrow> nat list \<Rightarrow> nat \<Rightarrow> HWRWOp \<Rightarrow> nat \<Rightarrow> PageTableEntry \<Rightarrow> bool" where
  "hw_access n M M' vaddr op base pte \<longleftrightarrow>
    (let pmem_idx = word_index_spec (frame_base pte + (vaddr - base)) in
     case op of
       HWStore new_value result \<Rightarrow>
         if pmem_idx < n \<and> \<not> is_supervisor (pte_flags pte) \<and> is_writable (pte_flags pte)
         then result = HWStoreOk \<and> M' = M[pmem_idx := new_value]
         else result = HWStorePagefault \<and> M' = M
     | HWLoad is_exec result \<Rightarrow>
         M' = M \<and>
         (if pmem_idx < n \<and> \<not> is_supervisor (pte_flags pte) \<and> (is_exec \<longrightarrow> \<not> disable_execute (pte_flags pte))
          then result = HWLoadValue (M ! pmem_idx) else result = HWLoadPagefault))"

lemma access_mapped:
  assumes virt: "virt_disjoint E" and page: "\<And>v p. E v = Some p \<Longrightarrow> page_entry v p"
    and phys: "\<And>v p w q. E v = Some p \<Longrightarrow> E w = Some q \<Longrightarrow> v \<noteq> w \<Longrightarrow> \<not> overlap (pte_frame p) (pte_frame q)"
    and len: "length M = n" and al: "aligned vaddr 8"
    and b: "E b = Some p" "between vaddr b (b + frame_size p)" and acc: "hw_access n M M' vaddr op b p"
    and th: "hl_sound s2 = hl_sound s1" "thread_state s2 = thread_state s1" "the (thread_state s1 u) = AEmpty"
      "hl_mappings s1 = E" "hl_mappings s2 = E" "valid_thread c u" "hl_phys_mem_size c = n"
    and vm: "vmem s1 = vm_of n E M" "vmem s2 = vm_of n E M'"
  shows "hl_step_ReadWrite c s1 s2 u vaddr (rw_interp op (Some (b, p))) (Some (b, p))"
proof -
  note i = word_index_at [OF al] and w = phys_word_at [OF al, of b p]
  note look = vm_of_lookup [OF virt b(1), where idx = "word_index_spec vaddr", unfolded i w, OF b(2)]
  have wr: "vm_of n E (M[word_index_spec (frame_base p + (vaddr - b)) := x]) = (vm_of n E M)(word_index_spec vaddr \<mapsto> x)"
    if "word_index_spec (frame_base p + (vaddr - b)) < n" for x
    by (rule vm_of_write [where i = "word_index_spec vaddr" and b = b and p = p, unfolded i w])
      (use virt page phys b that len in blast)+
  show ?thesis
  proof (cases op)
    case (HWStore x r)
    then show ?thesis using acc th b al wr unfolding hl_step_ReadWrite_def hw_access_def Let_def vm
      by (auto split: if_splits)
  next
    case (HWLoad x r)
    then show ?thesis using acc th b al look unfolding hl_step_ReadWrite_def hw_access_def Let_def vm
      by (auto split: if_splits)
  qed
qed

lemma rw_interp_none [simp]:
  "rw_interp (HWStore x r) None = Store x StoreUndefined"
  "rw_interp (HWLoad b l) None = Load b LoadUndefined"
  by (cases r; simp) (cases l; simp)

lemma access_unmapped:
  assumes out: "aligned vaddr 8" "\<And>b q. E b = Some q \<Longrightarrow> \<not> between vaddr b (b + frame_size q)"
    and th: "hl_sound s2 = hl_sound s1" "thread_state s2 = thread_state s1" "the (thread_state s1 u) = AEmpty"
      "hl_mappings s1 = E" "hl_mappings s2 = E" "valid_thread c u"
    and vm: "vmem s2 = vmem s1"
  shows "hl_step_ReadWrite c s1 s2 u vaddr (rw_interp op None) None"
  using out(1) th vm outside_domain [OF out]
  by (cases op) (simp_all add: hl_step_ReadWrite_def Let_def)

lemma access_stale:
  assumes virt: "virt_disjoint E" and page: "\<And>v p. E v = Some p \<Longrightarrow> page_entry v p"
    and p: "page_entry b p" "between vaddr b (b + frame_size p)"
    and phys: "\<And>v q. E v = Some q \<Longrightarrow> \<not> overlap (pte_frame p) (pte_frame q)"
    and acc: "hw_access n M M' vaddr op b p"
  shows "vm_of n E M' = vm_of n E M"
proof -
  have "vaddr - b < frame_size p" using p(2) by (simp add: between_def) linarith
  from vm_of_write_other [OF virt page p(1) this phys] show ?thesis
    using acc by (auto simp: hw_access_def Let_def split: HWRWOp.splits if_splits)
qed

lemma read_write_refines:
  assumes inv: "sys_inv mw c s1" and len: "mem_size_ok c s1"
    and step: "os_step_HW mw c s1 s2 u (ReadWrite vaddr paddr op pte core)"
  shows "hl_step_ReadWrite (osc_interp c) (os_interp mw c s1) (os_interp mw c s2) u vaddr
      (rw_interp op (hl_pte mw s1 pte)) (hl_pte mw s1 pte)"
proof -
  note s = step [unfolded os_step_HW_def] and cores = sys_cores [OF inv]
  let ?E = "sys_eff mw c s1" and ?n = "hw_phys_mem_size (os_hwc c)"
  have rw: "hw_step_ReadWrite mw (os_hwc c) (os_hw s1) (os_hw s2) vaddr paddr op pte core"
    and u: "valid_ULT c u" "core_state s1 (ult_core c u) = CIdle"
    and same: "core_states s2 = core_states s1" "os_pt mw s2 = os_pt mw s1"
    using s stutter_pt by auto
  note rw' = rw [unfolded hw_step_ReadWrite_def]
  have al: "aligned vaddr 8" and core: "sys_core c core" using rw' by simp_all
  note i1 = os_interp_simps [OF inv] and i2 = os_interp_simps [OF hw_step_inv [OF inv step]]
  have E2: "sys_eff mw c s2 = ?E" unfolding same ..
  have th: "hl_sound (os_interp mw c s2) = hl_sound (os_interp mw c s1)"
    "thread_state (os_interp mw c s2) = thread_state (os_interp mw c s1)"
    "the (thread_state (os_interp mw c s1) u) = AEmpty"
    "hl_mappings (os_interp mw c s1) = ?E" "hl_mappings (os_interp mw c s2) = ?E" "valid_thread (osc_interp c) u"
    unfolding i1 i2(1,3) E2 interp_thread_state_def same using i1(4) i2(4) u by (simp_all add: cs_arguments_def)
  note facts = sys_eff_facts [OF inv]
  have eff: "effective_mappings mw s1 = ?E" by (rule effective_mappings_eff [OF sys_invD(1) [OF inv]])
  show ?thesis
  proof (cases pte)
    case None
    have "\<not> between vaddr b (b + frame_size q)" if "?E b = Some q" for b q
      using rw' None eff_le [OF that] by (auto simp: os_pt_def)
    moreover have "vmem (os_interp mw c s2) = vmem (os_interp mw c s1)"
      using rw' None i1(2) i2(2) E2 by simp
    ultimately show ?thesis using access_unmapped [OF al _ th] None by (simp add: hl_pte_def)
  next
    case (Some e)
    obtain b p where e: "pte = Some (b, p)" using Some by (cases e) simp
    have tlb: "core_tlb (os_hw s1) core b = Some p" "between vaddr b (b + frame_size p)"
      and acc: "hw_access ?n (hw_mem (os_hw s1)) (hw_mem (os_hw s2)) vaddr op b p"
      using rw' len unfolding e hw_access_def mem_size_ok_def by (auto simp: Let_def split: HWRWOp.splits)
    have res: "sys_resident mw c s1 b p"
      using sys_invD(3) [OF inv] core tlb(1) unfolding tlb_resident_def by blast
    show ?thesis
    proof (cases "?E b")
      case (Some q)
      then have "?E b = Some p" using tlb_entry_eff [OF cores res] by blast
      then show ?thesis
        using access_mapped [OF facts len [unfolded mem_size_ok_def] al _ tlb(2) acc th] i1(2) i2(2) E2 e
        by (simp add: hl_pte_def eff domIff)
    next
      case None
      have free: "\<not> overlap (vmem_region b p) (vmem_region w q)" "\<not> overlap (pte_frame p) (pte_frame q)"
        if "?E w = Some q" for w q
        using ci_vmem [OF cores res eff_resident [OF that]] ci_frames [OF cores res eff_resident [OF that]]
          that None by (metis option.distinct(1))+
      have "\<not> between vaddr w (w + frame_size q)" if "?E w = Some q" for w q
        using free(1) [OF that] tlb(2) by (auto simp: not_overlap_iff between_def)
      moreover have "vmem (os_interp mw c s2) = vmem (os_interp mw c s1)"
        using access_stale [OF facts(1,2) ci_page [OF cores res] tlb(2) free(2) acc] i1(2) i2(2) E2 by simp
      ultimately show ?thesis
        using access_unmapped [OF al _ th] e None by (simp add: hl_pte_def eff domIff)
    qed
  qed
qed

section \<open>Every step\<close>

lemma hw_quiet_refines:
  assumes step: "os_step_HW mw c s1 s2 u hw" and "is_TLBFill hw \<or> is_TLBEvict hw"
  shows "os_interp mw c s2 = os_interp mw c s1"
proof (rule same_interp)
  note s = step [unfolded os_step_HW_def]
  show "hw_mem (os_hw s2) = hw_mem (os_hw s1)"
    using s assms(2)
    by (cases hw) (auto simp: hw_step_TLBFill_def hw_step_TLBEvict_def other_NUMAs_and_cores_unchanged_def)
qed (use step stutter_pt in \<open>auto simp: os_step_HW_def\<close>)

lemma ack_refines:
  "os_step_Ack_Shootdown_IPI mw c s1 s2 core \<Longrightarrow> os_interp mw c s2 = os_interp mw c s1"
  by (rule same_interp) (use stutter_pt in \<open>auto simp: os_step_Ack_Shootdown_IPI_def hw_step_PTMemOp_def\<close>)

lemma view_stutter_refines:
  "os_step_View_Stutter mw c s1 s2 core \<Longrightarrow> os_interp mw c s2 = os_interp mw c s1"
  by (rule same_interp)
    (auto simp: os_step_View_Stutter_def hw_step_PTMemOp_def spt_step_View_Stutter_def os_pt_spt_interp)

lemma hl_stutter:
  assumes "sys_inv mw c s1" and "os_interp mw c s2 = os_interp mw c s1"
  shows "hl_next_step mw (osc_interp c) (os_interp mw c s1) (os_interp mw c s2) AStutter"
  using os_interp_simps(4) [OF assms(1)] assms(2) by (simp add: hl_next_step_def hl_step_Stutter_def)

lemma hl_sound_step:
  assumes "sys_inv mw c s1"
  shows "hl_next_step mw a (os_interp mw c s1) t st =
    (case st of
       AReadWrite u vaddr op pte \<Rightarrow> hl_step_ReadWrite a (os_interp mw c s1) t u vaddr op pte
     | AMapStart u vaddr pte \<Rightarrow> hl_step_Map_start mw a (os_interp mw c s1) t u vaddr pte
     | AMapEnd u r \<Rightarrow> hl_step_Map_end a (os_interp mw c s1) t u r
     | AUnmapStart u vaddr \<Rightarrow> hl_step_Unmap_start a (os_interp mw c s1) t u vaddr
     | AUnmapEnd u r \<Rightarrow> hl_step_Unmap_end a (os_interp mw c s1) t u r
     | AStutter \<Rightarrow> hl_step_Stutter a (os_interp mw c s1) t)"
  using os_interp_simps(4) [OF assms] by (simp add: hl_next_step_def)

lemma hw_step_refines:
  assumes inv: "sys_inv mw c s1" and len: "mem_size_ok c s1" and step: "os_step_HW mw c s1 s2 u hw"
  shows "hl_next_step mw (osc_interp c) (os_interp mw c s1) (os_interp mw c s2) (os_step_interp mw c s1 (OSHW u hw))"
proof (cases hw)
  case (ReadWrite vaddr paddr op pte core)
  then show ?thesis using read_write_refines [OF inv len] step by (simp add: hl_sound_step [OF inv])
next
  case PTMemOp
  then show ?thesis using step by (simp add: os_step_HW_def)
next
  case (TLBFill v p k)
  then show ?thesis using hl_stutter [OF inv hw_quiet_refines [OF step]] by simp
next
  case (TLBEvict v k)
  then show ?thesis using hl_stutter [OF inv hw_quiet_refines [OF step]] by simp
qed

lemma os_step_refines:
  assumes inv: "sys_inv mw c s1" and len: "mem_size_ok c s1" and step: "os_next_step mw c s1 s2 st"
  shows "hl_next_step mw (osc_interp c) (os_interp mw c s1) (os_interp mw c s2) (os_step_interp mw c s1 st)"
  using step
proof (cases st)
  case (OSHW u hw)
  then show ?thesis using hw_step_refines [OF inv len] step by simp
next
  case (OSMapStart u v p)
  then show ?thesis using map_start_refines [OF inv] step by (simp add: hl_sound_step [OF inv])
next
  case (OSMapEnd core r)
  then have "os_step_Map_End mw c s1 s2 core r" using step by simp
  then obtain u v p where "core_state s1 core = MapExecuting u v p"
    "hl_step_Map_end (osc_interp c) (os_interp mw c s1) (os_interp mw c s2) u r"
    using map_end_refines [OF inv] by blast
  then show ?thesis using OSMapEnd by (simp add: hl_sound_step [OF inv])
next
  case (OSUnmapStart u v)
  then show ?thesis using unmap_start_refines [OF inv] step by (simp add: hl_sound_step [OF inv])
next
  case (OSUnmapEnd core)
  then have "os_step_Unmap_End c s1 s2 core" using step by simp
  then obtain u v r where
    "core_state s1 core = UnmapShootdownWaiting u v r \<or> core_state s1 core = UnmapOpDone u v r"
    "hl_step_Unmap_end (osc_interp c) (os_interp mw c s1) (os_interp mw c s2) u (result_map_ok r (\<lambda>r. ()))"
    using unmap_end_refines [OF inv] by blast
  then show ?thesis using OSUnmapEnd by (auto simp: hl_sound_step [OF inv])
qed (use step hl_stutter [OF inv] map_op_start_refines [OF inv] unmap_op_start_refines [OF inv]
      unmap_op_end_refines [OF inv] initiate_shootdown_refines [OF inv] ack_refines view_stutter_refines
    in \<open>simp_all\<close>)

section \<open>Behaviours\<close>

lemma hw_access_length: "hw_access n M M' vaddr op b p \<Longrightarrow> length M' = length M"
  by (cases op) (auto simp: hw_access_def Let_def split: if_splits)

lemma hw_step_mem_size:
  assumes "os_step_HW mw c s1 s2 u hw"
  shows "mem_size_ok c s2 = mem_size_ok c s1"
proof -
  have "length (hw_mem (os_hw s2)) = length (hw_mem (os_hw s1))"
  proof (cases hw)
    case (ReadWrite v pa op e core)
    then have rw: "hw_step_ReadWrite mw (os_hwc c) (os_hw s1) (os_hw s2) v pa op e core"
      using assms by (simp add: os_step_HW_def)
    show ?thesis
    proof (cases e)
      case None
      then show ?thesis using rw by (simp add: hw_step_ReadWrite_def)
    next
      case (Some bp)
      obtain b q where "e = Some (b, q)" using Some by (cases bp) simp
      then have "hw_access (length (hw_mem (os_hw s1))) (hw_mem (os_hw s1)) (hw_mem (os_hw s2)) v op b q"
        using rw unfolding hw_step_ReadWrite_def hw_access_def by (auto simp: Let_def split: HWRWOp.splits)
      then show ?thesis by (rule hw_access_length)
    qed
  qed (use assms in \<open>simp_all add: os_step_HW_def hw_step_TLBFill_def hw_step_TLBEvict_def
      other_NUMAs_and_cores_unchanged_def\<close>)
  then show ?thesis by (simp add: mem_size_ok_def)
qed

lemma os_step_mem_size:
  assumes step: "os_next_step mw c s1 s2 st"
  shows "mem_size_ok c s2 = mem_size_ok c s1"
  using os_step_memop [OF step] hw_step_mem_size by (auto simp: hw_step_PTMemOp_def mem_size_ok_def)

lemma os_init_refines:
  assumes init: "os_init mw c s"
  shows "hl_init (osc_interp c) (os_interp mw c s)"
proof -
  have inv: "sys_inv mw c s" by (rule os_init_sys_inv [OF init])
  have idle: "core_state s k = CIdle" if "sys_core c k" for k using init that by (simp add: os_init_def)
  have pt: "os_pt mw s = Map.empty" using init by (simp add: os_init_def os_pt_def)
  have E: "sys_eff mw c s = Map.empty" by (rule ext) (simp add: eff_def pt)
  have vm: "vm_of n Map.empty M = Map.empty" for n M
    by (simp add: vm_of_def mem_domain_from_mappings_contains_def)
  have ts: "interp_thread_state mw c s u = (if valid_ULT c u then Some AEmpty else None)" for u
  proof (cases "valid_ULT c u")
    case True
    show ?thesis
      unfolding interp_thread_state_def idle [OF ids_valid [OF inv True]] cs_arguments_def by simp
  qed (simp add: interp_thread_state_def)
  note i = os_interp_simps [OF inv, unfolded E vm]
  show ?thesis
    unfolding hl_init_def hl_wf_def i(1-3) using i(4) ts
    by (simp add: osc_interp_def valid_ULT_def domIff)
qed

lemma os_reachable_mem_size_init:
  assumes "os_reachable mw c s" and "mem_size_ok c s"
  shows "hl_reachable mw (osc_interp c) (os_interp mw c s)"
  using assms
proof induction
  case (os_reachable_init s)
  then show ?case by (intro hl_reachable_init os_init_refines)
next
  case (os_reachable_step s1 s2)
  then obtain st where st: "os_next_step mw c s1 s2 st" by (auto simp: os_next_def)
  note inv = os_reachable_sys_inv [OF os_reachable_step.hyps(1)]
  have len: "mem_size_ok c s1" using os_step_mem_size [OF st] os_reachable_step.prems by simp
  show ?case
    using hl_reachable_step os_reachable_step.IH [OF len] os_step_refines [OF inv len st]
    unfolding hl_next_def by blast
qed

end
