(* ===== verification/OS_Example.thy ===== *)
theory OS_Example
  imports OS_Refinement PT_Example
begin

text \<open>
  A run of a small system: one core, one thread, and the page table of \<open>PT_Example\<close>. The
  thread maps a page, the core's TLB caches the entry, and the thread unmaps the page again.
  The states of the run are where the properties of the system are exercised.
\<close>

definition ex_core :: Core where
  "ex_core = \<lparr>NUMA_id = 0, core_id = 0\<rparr>"

definition ex_const :: OSConstants where
  "ex_const = \<lparr>os_hwc = \<lparr>NUMA_no = 1, core_no = 1, hw_phys_mem_size = 0x41000\<rparr>,
     ULT2core = [0 \<mapsto> ex_core], ULT_no = 1\<rparr>"

definition ex_hw :: "nat list \<Rightarrow> (nat \<rightharpoonup> PageTableEntry) \<Rightarrow> PageTableMemory \<Rightarrow> HWVariables" where
  "ex_hw M T m = \<lparr>hw_mem = M, NUMAs = [0 \<mapsto> \<lparr>cores = [0 \<mapsto> \<lparr>tlb = T\<rparr>]\<rparr>], global_pt = m\<rparr>"

definition ex_os :: "HWVariables \<Rightarrow> CoreState \<Rightarrow> ShootdownVector \<Rightarrow> OSVariables" where
  "ex_os hw st sd = \<lparr>os_hw = hw, core_states = [ex_core \<mapsto> st], TLB_Shootdown = sd, os_sound = True\<rparr>"

definition no_requests :: ShootdownVector where
  "no_requests = \<lparr>sd_vaddr = 0, open_requests = {}\<rparr>"

definition ex_words :: "nat list" where
  "ex_words = replicate 0x41000 0"

abbreviation ex_entry :: PageTableEntry where
  "ex_entry \<equiv> pte_view ex_page"

lemma ex_valid_core [simp]: "valid_core (os_hwc ex_const) k \<longleftrightarrow> k = ex_core"
  by (cases k) (simp add: ex_const_def valid_core_def valid_NUMA_id_def valid_core_id_def ex_core_def)

lemma ex_valid_ULT [simp]: "valid_ULT ex_const i \<longleftrightarrow> i = 0"
  by (simp add: ex_const_def valid_ULT_def)

lemma ex_ult_core [simp]: "ULT2core ex_const = [0 \<mapsto> ex_core]"
  by (simp add: ex_const_def)

lemma ex_os_simps [simp]:
  "os_hw (ex_os hw st sd) = hw" "core_states (ex_os hw st sd) = [ex_core \<mapsto> st]"
  "TLB_Shootdown (ex_os hw st sd) = sd" "os_sound (ex_os hw st sd)"
  "pt_variables (ex_os hw st sd) = \<lparr>pt_mem = global_pt hw\<rparr>"
  "os_pt mw (ex_os hw st sd) = interp_pt_mem mw (global_pt hw)"
  by (simp_all add: ex_os_def pt_variables_def os_pt_def)

lemma ex_hw_simps [simp]:
  "hw_mem (ex_hw M T m) = M" "global_pt (ex_hw M T m) = m" "core_tlb (ex_hw M T m) ex_core = T"
  by (simp_all add: ex_hw_def ex_core_def)

lemma ex_ptmemop [simp]: "hw_step_PTMemOp c (ex_hw M T m) (ex_hw M T m')"
  by (simp add: hw_step_PTMemOp_def ex_hw_def)

lemma ex_lock: "kernel_lock ex_const (ex_os hw st sd) = None \<longleftrightarrow> \<not> holds_lock st"
  by (simp add: kernel_lock_def)

text \<open>The page table before and after the page is mapped.\<close>

lemma ex_empty_pt: "interp_pt_mem 52 ex_mem = Map.empty"
proof -
  have ok: "pt_ok 52 pool_allocator ex_mem (empty_table ex_mem)"
    using ex_table_inv by (simp add: pt_sys_inv_def ex_table_def)
  show ?thesis
    using ex_table_empty page_table_walk_interp ok by (simp add: pt_mappings_def ex_table_def pt_ok_def)
qed

lemma ex_mapped_pt: obtains m where "interp_pt_mem 52 m = [0x5000 \<mapsto> ex_entry]" "3 \<le> alloc_available_pages m"
proof -
  have ok: "pt_ok 52 pool_allocator ex_mem (empty_table ex_mem)"
    using ex_table_inv by (simp add: pt_sys_inv_def ex_table_def)
  have acc: "accepted_mapping 52 0x5000 ex_entry" "dir_accepted_mapping (pt_interp 52 ex_mem (empty_table ex_mem)) 0x5000 ex_entry"
    using ex_map_accepted by (simp_all add: pt_accepts_map_def ex_table_def)
  note frame = map_frame_correct [OF ex_width pool_allocator_contract [OF ex_width] ok, of "0x5000" ex_page]
  have free: "alloc_available_pages ex_mem = 15" by (simp add: ex_mem_def)
  obtain s' where s': "pt_map_op 52 pool_allocator ex_table 0x5000 ex_page = Some (s', Ok ())"
      "pt_sys_inv 52 pool_allocator s'" "pt_mappings 52 s' = [0x5000 \<mapsto> ex_entry]"
    by (rule ex_mapped)
  have "map_frame 52 pool_allocator ex_mem (empty_table ex_mem) 0x5000 ex_page = Some (fst s', snd s', Ok ())"
    using s'(1) by (auto simp: pt_map_op_def ex_table_def)
  then have "alloc_available_pages ex_mem \<le> alloc_available_pages (fst s') + 3"
    using frame acc free by auto
  then have "3 \<le> alloc_available_pages (fst s')" using free by simp
  moreover have "interp_pt_mem 52 (fst s') = [0x5000 \<mapsto> ex_entry]"
    using s' page_table_walk_interp by (simp add: pt_sys_inv_def pt_ok_def pt_mappings_def)
  ultimately show ?thesis using that by blast
qed

section \<open>The run\<close>

definition ex_start :: OSVariables where
  "ex_start = ex_os (ex_hw ex_words Map.empty ex_mem) CIdle no_requests"

lemma ex_init: "os_init 52 ex_const ex_start"
proof -
  have "hw_init (os_hwc ex_const) (ex_hw ex_words Map.empty ex_mem)"
    by (simp add: hw_init_def NUMA_init_def ex_const_def valid_NUMA_id_def valid_core_id_def ex_hw_def)
  moreover have "spt_init \<lparr>pt_mem = ex_mem\<rparr>"
    using ex_mem_ok by (simp add: spt_init_def ex_cr3 new_seq_replicate) (simp add: ex_mem_def)
  ultimately show ?thesis
    by (simp add: os_init_def ex_start_def ex_empty_pt no_requests_def)
qed

definition ex_map_waiting :: OSVariables where
  "ex_map_waiting = ex_os (ex_hw ex_words Map.empty ex_mem) (MapWaiting 0 0x5000 ex_entry) no_requests"

lemma ex_map_start: "os_next_step 52 ex_const ex_start ex_map_waiting (OSMapStart 0 0x5000 ex_entry)"
proof -
  have "unat (MAX_PHYADDR 52) = 2 ^ 52 - 1" by (rule MAX_PHYADDR_unat [OF ex_width])
  then have "os_step_Map_enabled 52 ex_mem 0x5000 ex_entry"
    by (simp add: os_step_Map_enabled_def ex_page_view aligned_def candidate_mapping_in_bounds_def ex_mem_def
        x86_arch_spec_upper_bound)
  moreover have "os_step_Map_sound Map.empty {CIdle} 0x5000 ex_entry"
    by (simp add: os_step_Map_sound_def candidate_mapping_overlaps_existing_pmem_def
        os_overlaps_inflight_pmem_def os_overlaps_inflight_vmem_def)
  ultimately show ?thesis
    by (simp add: os_step_Map_Start_def ex_start_def ex_map_waiting_def ex_empty_pt Let_def spt_step_Stutter_def)
qed

definition ex_map_executing :: OSVariables where
  "ex_map_executing = ex_os (ex_hw ex_words Map.empty ex_mem) (MapExecuting 0 0x5000 ex_entry) no_requests"

lemma ex_map_op_start: "os_next_step 52 ex_const ex_map_waiting ex_map_executing (OSMapOpStart ex_core)"
  by (simp add: os_step_Map_op_Start_def ex_map_waiting_def ex_map_executing_def ex_lock spt_step_Map_Start_def)

text \<open>The page table after the page is mapped, and the states the run passes with it.\<close>

definition ex_pt1 :: PageTableMemory where
  "ex_pt1 = (SOME m. interp_pt_mem 52 m = [0x5000 \<mapsto> ex_entry] \<and> 3 \<le> alloc_available_pages m)"

lemma ex_pt1 [simp]: "interp_pt_mem 52 ex_pt1 = [0x5000 \<mapsto> ex_entry]" "3 \<le> alloc_available_pages ex_pt1"
proof -
  have "\<exists>m. interp_pt_mem 52 m = [0x5000 \<mapsto> ex_entry] \<and> 3 \<le> alloc_available_pages m" by (blast intro: ex_mapped_pt)
  from someI_ex [OF this]
  show "interp_pt_mem 52 ex_pt1 = [0x5000 \<mapsto> ex_entry]" "3 \<le> alloc_available_pages ex_pt1"
    unfolding ex_pt1_def by simp_all
qed

definition ex_mapped_state :: "(nat \<rightharpoonup> PageTableEntry) \<Rightarrow> OSVariables" where
  "ex_mapped_state T = ex_os (ex_hw ex_words T ex_pt1) CIdle no_requests"

lemma ex_map_end: "os_next_step 52 ex_const ex_map_executing (ex_mapped_state Map.empty) (OSMapEnd ex_core (Ok ()))"
  by (simp add: os_step_Map_End_def ex_map_executing_def ex_mapped_state_def spt_step_Map_End_def
      spt_interp_def ex_empty_pt candidate_mapping_overlaps_existing_vmem_def)

lemma ex_tlb_fill:
  "os_next_step 52 ex_const (ex_mapped_state Map.empty) (ex_mapped_state [0x5000 \<mapsto> ex_entry])
     (OSHW 0 (TLBFill 0x5000 ex_entry ex_core))"
proof -
  have "other_NUMAs_and_cores_unchanged (os_hwc ex_const) (ex_hw ex_words Map.empty ex_pt1)
      (ex_hw ex_words [0x5000 \<mapsto> ex_entry] ex_pt1) ex_core"
    by (simp add: other_NUMAs_and_cores_unchanged_def ex_hw_def ex_core_def)
  then show ?thesis
    by (simp add: os_step_HW_def hw_step_TLBFill_def ex_mapped_state_def spt_step_Stutter_def)
qed

definition ex_unmap_waiting :: OSVariables where
  "ex_unmap_waiting = ex_os (ex_hw ex_words [0x5000 \<mapsto> ex_entry] ex_pt1) (UnmapWaiting 0 0x5000) no_requests"

definition ex_unmap_executing :: OSVariables where
  "ex_unmap_executing =
     ex_os (ex_hw ex_words [0x5000 \<mapsto> ex_entry] ex_mem) (UnmapOpExecuting 0 0x5000 (Ok ex_entry)) no_requests"

definition ex_unmap_done :: OSVariables where
  "ex_unmap_done =
     ex_os (ex_hw ex_words [0x5000 \<mapsto> ex_entry] ex_mem) (UnmapOpDone 0 0x5000 (Ok ex_entry)) no_requests"

definition ex_shootdown :: "(nat \<rightharpoonup> PageTableEntry) \<Rightarrow> Core set \<Rightarrow> OSVariables" where
  "ex_shootdown T R =
     ex_os (ex_hw ex_words T ex_mem) (UnmapShootdownWaiting 0 0x5000 (Ok ex_entry))
       \<lparr>sd_vaddr = 0x5000, open_requests = R\<rparr>"

lemma ex_unmap_start:
  "os_next_step 52 ex_const (ex_mapped_state [0x5000 \<mapsto> ex_entry]) ex_unmap_waiting (OSUnmapStart 0 0x5000)"
  by (simp add: os_step_Unmap_Start_def Let_def ex_mapped_state_def ex_unmap_waiting_def spt_step_Stutter_def
      os_step_Unmap_enabled_def os_step_Unmap_sound_def os_overlaps_inflight_vmem_def aligned_def
      x86_arch_spec_upper_bound)

lemma ex_unmap_op_start:
  "os_next_step 52 ex_const ex_unmap_waiting ex_unmap_executing (OSUnmapOpStart ex_core (Ok ()))"
  by (simp add: os_step_Unmap_Op_Start_def ex_unmap_waiting_def ex_unmap_executing_def ex_lock
      spt_step_Unmap_Start_def spt_interp_def ex_empty_pt)

lemma ex_unmap_op_end: "os_next_step 52 ex_const ex_unmap_executing ex_unmap_done (OSUnmapOpEnd ex_core)"
  by (simp add: os_step_Unmap_Op_End_def ex_unmap_executing_def ex_unmap_done_def spt_step_Unmap_End_def)

lemma ex_initiate:
  "os_next_step 52 ex_const ex_unmap_done (ex_shootdown [0x5000 \<mapsto> ex_entry] {ex_core})
     (OSUnmapInitiateShootdown ex_core)"
  by (auto simp: os_step_Unmap_Initiate_Shootdown_def ex_unmap_done_def ex_shootdown_def spt_step_Stutter_def)

lemma ex_evict:
  "os_next_step 52 ex_const (ex_shootdown [0x5000 \<mapsto> ex_entry] {ex_core}) (ex_shootdown Map.empty {ex_core})
     (OSHW 0 (TLBEvict 0x5000 ex_core))"
proof -
  have "other_NUMAs_and_cores_unchanged (os_hwc ex_const) (ex_hw ex_words [0x5000 \<mapsto> ex_entry] ex_mem)
      (ex_hw ex_words Map.empty ex_mem) ex_core"
    by (simp add: other_NUMAs_and_cores_unchanged_def ex_hw_def ex_core_def)
  then show ?thesis
    by (simp add: os_step_HW_def hw_step_TLBEvict_def ex_shootdown_def spt_step_Stutter_def)
qed

lemma ex_ack:
  "os_next_step 52 ex_const (ex_shootdown Map.empty {ex_core}) (ex_shootdown Map.empty {}) (OSAckShootdownIPI ex_core)"
  by (simp add: os_step_Ack_Shootdown_IPI_def ex_shootdown_def spt_step_Stutter_def ex_empty_pt)

definition ex_end :: OSVariables where
  "ex_end = ex_os (ex_hw ex_words Map.empty ex_mem) CIdle \<lparr>sd_vaddr = 0x5000, open_requests = {}\<rparr>"

lemma ex_unmap_end: "os_next_step 52 ex_const (ex_shootdown Map.empty {}) ex_end (OSUnmapEnd ex_core)"
  by (simp add: os_step_Unmap_End_def ex_shootdown_def ex_end_def spt_step_Stutter_def)

lemma os_reachable_next: "os_reachable mw c s1 \<Longrightarrow> os_next_step mw c s1 s2 st \<Longrightarrow> os_reachable mw c s2"
  by (rule os_reachable_step) (auto simp: os_next_def)

lemma ex_reachable:
  shows "os_reachable 52 ex_const ex_start" "os_reachable 52 ex_const ex_map_executing"
    "os_reachable 52 ex_const (ex_mapped_state [0x5000 \<mapsto> ex_entry])"
    "os_reachable 52 ex_const (ex_shootdown [0x5000 \<mapsto> ex_entry] {ex_core})"
    "os_reachable 52 ex_const (ex_shootdown Map.empty {})"
proof -
  show s: "os_reachable 52 ex_const ex_start" by (rule os_reachable_init [OF ex_init])
  show e: "os_reachable 52 ex_const ex_map_executing"
    by (rule os_reachable_next [OF os_reachable_next [OF s ex_map_start] ex_map_op_start])
  show m: "os_reachable 52 ex_const (ex_mapped_state [0x5000 \<mapsto> ex_entry])"
    by (rule os_reachable_next [OF os_reachable_next [OF e ex_map_end] ex_tlb_fill])
  show w: "os_reachable 52 ex_const (ex_shootdown [0x5000 \<mapsto> ex_entry] {ex_core})"
    by (rule os_reachable_next [OF os_reachable_next [OF os_reachable_next [OF os_reachable_next
        [OF m ex_unmap_start] ex_unmap_op_start] ex_unmap_op_end] ex_initiate])
  show "os_reachable 52 ex_const (ex_shootdown Map.empty {})"
    by (rule os_reachable_next [OF os_reachable_next [OF w ex_evict] ex_ack])
qed

text \<open>The thread starts to map a second page while the first one is mapped.\<close>

definition ex_entry2 :: PageTableEntry where
  "ex_entry2 = \<lparr>pte_frame = \<lparr>mr_base = 0x300000, mr_size = 4096\<rparr>, pte_flags = permissive_flags\<rparr>"

definition ex_second_map :: OSVariables where
  "ex_second_map = ex_os (ex_hw ex_words [0x5000 \<mapsto> ex_entry] ex_pt1) (MapWaiting 0 0x6000 ex_entry2) no_requests"

lemma ex_second_map_start:
  "os_next_step 52 ex_const (ex_mapped_state [0x5000 \<mapsto> ex_entry]) ex_second_map (OSMapStart 0 0x6000 ex_entry2)"
proof -
  have "unat (MAX_PHYADDR 52) = 2 ^ 52 - 1" by (rule MAX_PHYADDR_unat [OF ex_width])
  then have "os_step_Map_enabled 52 ex_pt1 0x6000 ex_entry2"
    by (simp add: os_step_Map_enabled_def ex_entry2_def aligned_def candidate_mapping_in_bounds_def
        x86_arch_spec_upper_bound)
  moreover have "os_step_Map_sound [0x5000 \<mapsto> ex_entry] {CIdle} 0x6000 ex_entry2"
    by (simp add: os_step_Map_sound_def candidate_mapping_overlaps_existing_pmem_def ex_entry2_def ex_page_view
        os_overlaps_inflight_pmem_def os_overlaps_inflight_vmem_def overlap_def)
  ultimately show ?thesis
    by (simp add: os_step_Map_Start_def ex_mapped_state_def ex_second_map_def Let_def spt_step_Stutter_def)
qed

text \<open>A second map at the same address fails.\<close>

definition ex_remap :: "CoreState \<Rightarrow> OSVariables" where
  "ex_remap st = ex_os (ex_hw ex_words [0x5000 \<mapsto> ex_entry] ex_pt1) st no_requests"

lemma ex_remap_steps:
  "os_step_Map_Start 52 ex_const (ex_mapped_state [0x5000 \<mapsto> ex_entry]) (ex_remap (MapWaiting 0 0x5000 ex_entry2)) 0 0x5000 ex_entry2"
  "os_next_step 52 ex_const (ex_remap (MapWaiting 0 0x5000 ex_entry2)) (ex_remap (MapExecuting 0 0x5000 ex_entry2)) (OSMapOpStart ex_core)"
  "os_step_Map_End 52 ex_const (ex_remap (MapExecuting 0 0x5000 ex_entry2)) (ex_remap CIdle) ex_core (Err ())"
proof -
  have "unat (MAX_PHYADDR 52) = 2 ^ 52 - 1" by (rule MAX_PHYADDR_unat [OF ex_width])
  then have "os_step_Map_enabled 52 ex_pt1 0x5000 ex_entry2"
    by (simp add: os_step_Map_enabled_def ex_entry2_def aligned_def candidate_mapping_in_bounds_def
        x86_arch_spec_upper_bound)
  moreover have "os_step_Map_sound [0x5000 \<mapsto> ex_entry] {CIdle} 0x5000 ex_entry2"
    by (simp add: os_step_Map_sound_def candidate_mapping_overlaps_existing_pmem_def ex_entry2_def ex_page_view
        os_overlaps_inflight_pmem_def os_overlaps_inflight_vmem_def overlap_def)
  ultimately show "os_step_Map_Start 52 ex_const (ex_mapped_state [0x5000 \<mapsto> ex_entry])
      (ex_remap (MapWaiting 0 0x5000 ex_entry2)) 0 0x5000 ex_entry2"
    by (simp add: os_step_Map_Start_def ex_mapped_state_def ex_remap_def Let_def spt_step_Stutter_def)
  show "os_next_step 52 ex_const (ex_remap (MapWaiting 0 0x5000 ex_entry2)) (ex_remap (MapExecuting 0 0x5000 ex_entry2))
      (OSMapOpStart ex_core)"
    by (simp add: os_step_Map_op_Start_def ex_remap_def ex_lock spt_step_Map_Start_def)
  show "os_step_Map_End 52 ex_const (ex_remap (MapExecuting 0 0x5000 ex_entry2)) (ex_remap CIdle) ex_core (Err ())"
    by (simp add: os_step_Map_End_def ex_remap_def spt_step_Map_End_def spt_interp_def ex_entry2_def ex_page_view
        candidate_mapping_overlaps_existing_vmem_def overlap_def)
qed

lemma ex_mem_size: "mem_size_ok ex_const (ex_os (ex_hw ex_words T m) st sd)"
  by (simp add: mem_size_ok_def ex_words_def ex_const_def)

end
