(* ===== verification/OS_Progress.thy ===== *)
theory OS_Progress
  imports OS_Invariant
begin

text \<open>
  A TLB shootdown can always be completed: from every reachable state in which an unmap waits
  for acknowledgements, evictions and acknowledgements by the cores that have not answered
  lead to a state in which the unmap has ended. The source states no such property; it shows
  that the enabling conditions of the shootdown steps cannot block each other for ever.

  Then the alternative form of the overlap invariant of
  \<^verbatim>\<open>page-table/spec_t/os_invariant.rs\<close>, over the values of the map of core states, with
  its equivalence with the form over cores; and two definitions of
  \<^verbatim>\<open>page-table/spec_t/os.rs\<close>: \<open>shootdown_exists\<close>, which the source states and never
  uses and which holds of every reachable state, and \<open>set_core_idle\<close>.
\<close>

section \<open>The hardware keeps its cores\<close>

definition hw_cores_exist :: "HWConstants \<Rightarrow> HWVariables \<Rightarrow> bool" where
  "hw_cores_exist c s \<longleftrightarrow>
     (\<forall>core. valid_core c core \<longrightarrow> NUMA_id core \<in> dom (NUMAs s) \<and> core_id core \<in> dom (numa_cores s core))"

lemma hw_init_cores_exist: "hw_init c s \<Longrightarrow> hw_cores_exist c s"
  unfolding hw_init_def hw_cores_exist_def valid_core_def NUMA_init_def by blast

lemma other_cores_exist:
  assumes o: "other_NUMAs_and_cores_unchanged c s1 s2 k" and e: "hw_cores_exist c s1"
  shows "hw_cores_exist c s2"
  unfolding hw_cores_exist_def
proof (intro allI impI conjI)
  fix core assume core: "valid_core c core"
  show "NUMA_id core \<in> dom (NUMAs s2)"
    using o e core unfolding other_NUMAs_and_cores_unchanged_def hw_cores_exist_def by blast
  have d: "core_id core \<in> dom (numa_cores s1 core)" using e core unfolding hw_cores_exist_def by blast
  show "core_id core \<in> dom (numa_cores s2 core)"
  proof (cases "NUMA_id core = NUMA_id k")
    case True
    then show ?thesis using o d unfolding other_NUMAs_and_cores_unchanged_def by simp
  next
    case False
    then have "NUMAs s2 (NUMA_id core) = NUMAs s1 (NUMA_id core)"
      using o unfolding other_NUMAs_and_cores_unchanged_def by (metis fun_upd_other)
    then show ?thesis using d by simp
  qed
qed

lemma same_cores_exist: "NUMAs s2 = NUMAs s1 \<Longrightarrow> hw_cores_exist c s2 = hw_cores_exist c s1"
  by (simp add: hw_cores_exist_def)

lemma os_step_numas:
  assumes "os_next_step mw c s1 s2 st"
  shows "NUMAs (os_hw s2) = NUMAs (os_hw s1) \<or> (\<exists>k. other_NUMAs_and_cores_unchanged (os_hwc c) (os_hw s1) (os_hw s2) k)"
  using os_step_memop [OF assms]
proof (elim disjE exE conjE)
  fix u hw assume "os_step_HW mw c s1 s2 u hw"
  then show ?thesis
    by (cases hw) (auto simp: os_step_HW_def hw_step_ReadWrite_def hw_step_TLBFill_def hw_step_TLBEvict_def)
qed (simp add: hw_step_PTMemOp_def)

lemma os_reachable_cores_exist: "os_reachable mw c s \<Longrightarrow> hw_cores_exist (os_hwc c) (os_hw s)"
proof (induction rule: os_reachable.induct)
  case (os_reachable_init s)
  then show ?case by (intro hw_init_cores_exist) (simp add: os_init_def)
next
  case (os_reachable_step s1 s2)
  then obtain st where "os_next_step mw c s1 s2 st" by (auto simp: os_next_def)
  from os_step_numas [OF this] show ?case
    using os_reachable_step.IH other_cores_exist same_cores_exist by blast
qed

section \<open>One acknowledgement\<close>

definition set_tlb :: "HWVariables \<Rightarrow> Core \<Rightarrow> (nat \<rightharpoonup> PageTableEntry) \<Rightarrow> HWVariables" where
  "set_tlb s k T =
     s\<lparr>NUMAs := (NUMAs s)(NUMA_id k \<mapsto> (the (NUMAs s (NUMA_id k)))
          \<lparr>cores := (numa_cores s k)(core_id k \<mapsto> (the (numa_cores s k (core_id k)))\<lparr>tlb := T\<rparr>)\<rparr>)\<rparr>"

lemma set_tlb_other:
  assumes "hw_cores_exist c s" and "valid_core c k"
  shows "other_NUMAs_and_cores_unchanged c s (set_tlb s k T) k" and "core_tlb (set_tlb s k T) k = T"
    and "global_pt (set_tlb s k T) = global_pt s" and "hw_mem (set_tlb s k T) = hw_mem s"
  using assms unfolding other_NUMAs_and_cores_unchanged_def set_tlb_def hw_cores_exist_def by auto

definition ack_state :: "OSVariables \<Rightarrow> Core \<Rightarrow> OSVariables" where
  "ack_state s k = s\<lparr>TLB_Shootdown := \<lparr>sd_vaddr = sd_vaddr (TLB_Shootdown s),
     open_requests = open_requests (TLB_Shootdown s) - {k}\<rparr>\<rparr>"

lemma evict_step:
  assumes r: "os_reachable mw c s" and k: "sys_core c k" and u: "valid_ULT c u"
    and v: "v \<in> dom (core_tlb (os_hw s) k)"
  shows "os_next mw c s (s\<lparr>os_hw := set_tlb (os_hw s) k ((core_tlb (os_hw s) k)(v := None))\<rparr>)"
proof -
  note t = set_tlb_other [OF os_reachable_cores_exist [OF r] k]
  have "os_next_step mw c s (s\<lparr>os_hw := set_tlb (os_hw s) k ((core_tlb (os_hw s) k)(v := None))\<rparr>) (OSHW u (TLBEvict v k))"
    using k u v t by (simp add: os_step_HW_def hw_step_TLBEvict_def spt_step_Stutter_def pt_variables_def)
  then show ?thesis unfolding os_next_def by blast
qed

lemma ack_step:
  assumes "k \<in> open_requests (TLB_Shootdown s)" and "core_tlb (os_hw s) k (sd_vaddr (TLB_Shootdown s)) = None"
    and "os_pt mw s (sd_vaddr (TLB_Shootdown s)) = None"
  shows "os_next mw c s (ack_state s k)"
proof -
  have "os_next_step mw c s (ack_state s k) (OSAckShootdownIPI k)"
    using assms by (simp add: os_step_Ack_Shootdown_IPI_def ack_state_def hw_step_PTMemOp_def spt_step_Stutter_def
        pt_variables_def domIff)
  then show ?thesis unfolding os_next_def by blast
qed

lemma acknowledge_one:
  assumes r: "os_reachable mw c s" and d: "sys_core c d" "core_state s d = UnmapShootdownWaiting u v res"
    and k: "k \<in> open_requests (TLB_Shootdown s)"
  obtains s' where "(os_next mw c)\<^sup>*\<^sup>* s s'" "core_states s' = core_states s" "os_pt mw s' = os_pt mw s"
    "open_requests (TLB_Shootdown s') = open_requests (TLB_Shootdown s) - {k}"
proof -
  note inv = os_reachable_sys_inv [OF r]
  have sd: "sd_vaddr (TLB_Shootdown s) = v" by (rule shootdown_ackedD(1) [OF sys_invD(4) [OF inv] d])
  have pt: "os_pt mw s v = None" using ci_removed [OF sys_cores [OF inv] d(1)] d(2) by simp
  have core: "sys_core c k" using sys_invD(5) [OF inv] k by (simp add: shootdown_cores_valid_def)
  have u: "valid_ULT c u" using sys_invD(1) [OF inv] d unfolding ids_inv_def valid_ids_def by fastforce
  show thesis
  proof (cases "core_tlb (os_hw s) k v")
    case None
    then have "os_next mw c s (ack_state s k)" using ack_step [OF k] pt sd by simp
    then show thesis
      by (intro that [of "ack_state s k"]) (simp_all add: ack_state_def os_pt_def r_into_rtranclp)
  next
    case (Some p)
    let ?s = "s\<lparr>os_hw := set_tlb (os_hw s) k ((core_tlb (os_hw s) k)(v := None))\<rparr>"
    note t = set_tlb_other [OF os_reachable_cores_exist [OF r] core]
    have "os_next mw c s ?s" by (rule evict_step [OF r core u]) (simp add: Some domIff)
    moreover have "os_next mw c ?s (ack_state ?s k)"
      by (rule ack_step) (use k sd pt t in \<open>simp_all add: os_pt_def\<close>)
    ultimately have "(os_next mw c)\<^sup>*\<^sup>* s (ack_state ?s k)" by (meson converse_rtranclp_into_rtranclp r_into_rtranclp)
    then show thesis
      by (intro that [of "ack_state ?s k"]) (simp_all add: ack_state_def os_pt_def t(3))
  qed
qed

section \<open>Completing the shootdown\<close>

lemma os_reachable_star: "os_reachable mw c s \<Longrightarrow> (os_next mw c)\<^sup>*\<^sup>* s s' \<Longrightarrow> os_reachable mw c s'"
  by (rotate_tac, induction rule: rtranclp_induct) (auto intro: os_reachable_step)

lemma valid_cores_finite: "finite {core. valid_core c core}"
proof -
  have "{core. valid_core c core} \<subseteq>
      (\<lambda>(n, i). \<lparr>NUMA_id = n, core_id = i\<rparr>) ` ({..<NUMA_no c} \<times> {..<core_no c})"
  proof
    fix k assume "k \<in> {core. valid_core c core}"
    then have "k = (\<lambda>(n, i). \<lparr>NUMA_id = n, core_id = i\<rparr>) (NUMA_id k, core_id k)"
        "(NUMA_id k, core_id k) \<in> {..<NUMA_no c} \<times> {..<core_no c}"
      by (simp_all add: valid_core_def valid_NUMA_id_def valid_core_id_def)
    then show "k \<in> (\<lambda>(n, i). \<lparr>NUMA_id = n, core_id = i\<rparr>) ` ({..<NUMA_no c} \<times> {..<core_no c})"
      by (rule image_eqI)
  qed
  then show ?thesis by (rule finite_subset) simp
qed

lemma acknowledge_all:
  assumes "finite R" and "open_requests (TLB_Shootdown s) = R" and "os_reachable mw c s"
    and "sys_core c d" "core_state s d = UnmapShootdownWaiting u v res"
  shows "\<exists>s'. (os_next mw c)\<^sup>*\<^sup>* s s' \<and> core_states s' = core_states s \<and> os_pt mw s' = os_pt mw s \<and>
    open_requests (TLB_Shootdown s') = {}"
  using assms
proof (induction R arbitrary: s rule: finite_induct)
  case empty
  then show ?case by blast
next
  case (insert k R)
  have "k \<in> open_requests (TLB_Shootdown s)" using insert.prems(1) by simp
  then obtain s1 where s1: "(os_next mw c)\<^sup>*\<^sup>* s s1" "core_states s1 = core_states s" "os_pt mw s1 = os_pt mw s"
    "open_requests (TLB_Shootdown s1) = open_requests (TLB_Shootdown s) - {k}"
    by (rule acknowledge_one [OF insert.prems(2-4)])
  have "open_requests (TLB_Shootdown s1) = R" using s1(4) insert.prems(1) insert.hyps(2) by simp
  moreover have "os_reachable mw c s1" by (rule os_reachable_star [OF insert.prems(2) s1(1)])
  ultimately obtain s' where "(os_next mw c)\<^sup>*\<^sup>* s1 s'" "core_states s' = core_states s1"
      "os_pt mw s' = os_pt mw s1" "open_requests (TLB_Shootdown s') = {}"
    using insert.IH [of s1] insert.prems(3,4) s1(2) by auto
  then show ?case using s1 by (metis rtranclp_trans)
qed

lemma shootdown_completes:
  assumes r: "os_reachable mw c s" and d: "sys_core c d" "core_state s d = UnmapShootdownWaiting u v res"
  shows "\<exists>s'. (os_next mw c)\<^sup>*\<^sup>* s s' \<and> core_states s' = (core_states s)(d \<mapsto> CIdle) \<and> os_pt mw s' = os_pt mw s"
proof -
  have "open_requests (TLB_Shootdown s) \<subseteq> {core. sys_core c core}"
    using sys_invD(5) [OF os_reachable_sys_inv [OF r]] by (auto simp: shootdown_cores_valid_def)
  then have "finite (open_requests (TLB_Shootdown s))" by (rule finite_subset) (rule valid_cores_finite)
  from acknowledge_all [OF this refl r d] obtain s1 where s1: "(os_next mw c)\<^sup>*\<^sup>* s s1"
    "core_states s1 = core_states s" "os_pt mw s1 = os_pt mw s" "open_requests (TLB_Shootdown s1) = {}" by blast
  let ?s = "s1\<lparr>core_states := (core_states s1)(d \<mapsto> CIdle)\<rparr>"
  have "os_next_step mw c s1 ?s (OSUnmapEnd d)"
    using d s1(2,4) by (simp add: os_step_Unmap_End_def hw_step_PTMemOp_def spt_step_Stutter_def pt_variables_def)
  then have "os_next mw c s1 ?s" unfolding os_next_def by blast
  with s1(1) have "(os_next mw c)\<^sup>*\<^sup>* s ?s" by (rule rtranclp.rtrancl_into_rtrancl)
  then show ?thesis using s1 by (intro exI [of _ ?s]) (simp add: os_pt_def)
qed

section \<open>Overlap over the values\<close>

definition unique_CoreStates :: "(Core \<rightharpoonup> CoreState) \<Rightarrow> bool" where
  "unique_CoreStates m \<longleftrightarrow>
     (\<forall>a. a \<in> dom m \<and> \<not> is_idle (the (m a)) \<longrightarrow> the (m a) \<notin> ran (m(a := None)))"

definition no_overlap_vmem_values :: "(Core \<rightharpoonup> CoreState) \<Rightarrow> (nat \<rightharpoonup> PageTableEntry) \<Rightarrow> bool" where
  "no_overlap_vmem_values m pt \<longleftrightarrow>
     (\<forall>state1\<in>ran m. \<forall>state2\<in>ran m. \<not> is_idle state1 \<and> \<not> is_idle state2 \<and>
        overlap \<lparr>mr_base = cs_vaddr state1, mr_size = vmem_pte_size state1 pt\<rparr>
          \<lparr>mr_base = cs_vaddr state2, mr_size = vmem_pte_size state2 pt\<rparr> \<longrightarrow> state1 = state2)"

lemma unique_CoreStates_iff:
  "unique_CoreStates m \<longleftrightarrow> (\<forall>a b st. m a = Some st \<longrightarrow> m b = Some st \<longrightarrow> \<not> is_idle st \<longrightarrow> a = b)"
  by (auto simp: unique_CoreStates_def ran_def) (metis domI option.sel)

lemma no_overlap_vmem_values_iff:
  "no_overlap_vmem_values m pt \<longleftrightarrow>
     (\<forall>a b st1 st2. m a = Some st1 \<longrightarrow> m b = Some st2 \<longrightarrow> \<not> is_idle st1 \<longrightarrow> \<not> is_idle st2 \<longrightarrow>
        overlap (op_region pt st1) (op_region pt st2) \<longrightarrow> st1 = st2)"
  by (auto simp: no_overlap_vmem_values_def op_region_def ran_def)

lemma overlap_self [simp]: "overlap r r"
  by (simp add: overlap_def)

lemma overlap_values_equiv:
  assumes "basic_inv mw c s"
  shows "inflight_map_no_overlap_inflight_vmem mw c s \<longleftrightarrow>
    unique_CoreStates (core_states s) \<and> no_overlap_vmem_values (core_states s) (os_pt mw s)"
proof -
  have dom: "valid_core (os_hwc c) core \<longleftrightarrow> (\<exists>st. core_states s core = Some st)" for core
    using assms by (auto simp: basic_inv_def os_wf_def)
  have "inflight_map_no_overlap_inflight_vmem mw c s \<longleftrightarrow>
      (\<forall>a b st1 st2. core_states s a = Some st1 \<longrightarrow> core_states s b = Some st2 \<longrightarrow> \<not> is_idle st1 \<longrightarrow> \<not> is_idle st2 \<longrightarrow>
         overlap (op_region (os_pt mw s) st1) (op_region (os_pt mw s) st2) \<longrightarrow> a = b)"
    unfolding inflight_map_no_overlap_inflight_vmem_def cs_region_def op_region_def dom by fastforce
  also have "\<dots> \<longleftrightarrow> unique_CoreStates (core_states s) \<and> no_overlap_vmem_values (core_states s) (os_pt mw s)"
    unfolding unique_CoreStates_iff no_overlap_vmem_values_iff
    by (intro iffI conjI allI impI) (metis overlap_self, metis option.inject, metis)
  finally show ?thesis .
qed

lemma idle_preserves_overlap:
  assumes "unique_CoreStates m" and "no_overlap_vmem_values m pt"
  shows "unique_CoreStates (m(core \<mapsto> CIdle))" and "no_overlap_vmem_values (m(core \<mapsto> CIdle)) pt"
  using assms unfolding unique_CoreStates_iff no_overlap_vmem_values_iff by (auto simp: is_idle_def split: if_splits)

section \<open>A pending shootdown has a core that waits for it\<close>

definition shootdown_exists :: "OSConstants \<Rightarrow> OSVariables \<Rightarrow> bool" where
  "shootdown_exists c s \<longleftrightarrow>
     (open_requests (TLB_Shootdown s) \<noteq> {} \<longrightarrow>
        (\<exists>core. valid_core (os_hwc c) core \<and>
           (case core_state s core of UnmapShootdownWaiting _ vaddr _ \<Rightarrow> True | _ \<Rightarrow> False)))"

definition set_core_idle :: "OSVariables \<Rightarrow> Core \<Rightarrow> OSVariables" where
  "set_core_idle s core =
     \<lparr>os_hw = os_hw s, core_states = (core_states s)(core \<mapsto> CIdle), TLB_Shootdown = TLB_Shootdown s, os_sound = os_sound s\<rparr>"

fun waits_shootdown :: "CoreState \<Rightarrow> bool" where
  "waits_shootdown (UnmapShootdownWaiting _ _ _) = True"
| "waits_shootdown _ = False"

lemma shootdown_exists_iff:
  "shootdown_exists c s \<longleftrightarrow>
     open_requests (TLB_Shootdown s) = {} \<or> (\<exists>core. valid_core (os_hwc c) core \<and> waits_shootdown (core_state s core))"
proof -
  have "(case st of UnmapShootdownWaiting a vaddr b \<Rightarrow> True | _ \<Rightarrow> False) = waits_shootdown st" for st
    by (cases st) simp_all
  then show ?thesis by (auto simp: shootdown_exists_def)
qed

text \<open>
  Only \<^verbatim>\<open>UnmapEnd\<close> ends the waiting, and only when no request is open; no other step moves a
  core that waits.
\<close>

lemma step_keeps_waiting:
  assumes step: "os_next_step mw c s1 s2 st" and w: "valid_core (os_hwc c) core" "waits_shootdown (core_state s1 core)"
  shows "waits_shootdown (core_state s2 core) \<or> open_requests (TLB_Shootdown s2) = {}"
proof (cases st)
  case (OSMapStart i v p)
  then have "core_states s2 = (core_states s1)(ult_core c i \<mapsto> MapWaiting i v p)" "core_state s1 (ult_core c i) = CIdle"
    using step by (simp_all add: os_step_Map_Start_def Let_def)
  then show ?thesis using w(2) by (cases "core = ult_core c i") simp_all
next
  case (OSUnmapStart i v)
  then have "core_states s2 = (core_states s1)(ult_core c i \<mapsto> UnmapWaiting i v)" "core_state s1 (ult_core c i) = CIdle"
    using step by (simp_all add: os_step_Unmap_Start_def Let_def)
  then show ?thesis using w(2) by (cases "core = ult_core c i") simp_all
qed (use step w(2) in \<open>auto simp: os_step_HW_def os_step_Map_op_Start_def os_step_Map_End_def os_step_Unmap_Op_Start_def
    os_step_Unmap_Op_End_def os_step_Unmap_Initiate_Shootdown_def os_step_Ack_Shootdown_IPI_def os_step_Unmap_End_def
    os_step_View_Stutter_def split: CoreState.splits if_splits\<close>)

lemma step_opens_requests:
  assumes "os_next_step mw c s1 s2 st" and "open_requests (TLB_Shootdown s1) = {}"
  shows "open_requests (TLB_Shootdown s2) = {} \<or>
    (\<exists>core. valid_core (os_hwc c) core \<and> waits_shootdown (core_state s2 core))"
  using assms
  by (cases st) (auto simp: os_step_HW_def os_step_Map_Start_def os_step_Unmap_Start_def Let_def os_step_Map_op_Start_def
    os_step_Map_End_def os_step_Unmap_Op_Start_def os_step_Unmap_Op_End_def os_step_Unmap_Initiate_Shootdown_def
    os_step_Ack_Shootdown_IPI_def os_step_Unmap_End_def os_step_View_Stutter_def split: CoreState.splits if_splits)

lemma reachable_shootdown_exists:
  assumes "os_reachable mw c s"
  shows "shootdown_exists c s"
  using assms
proof (induction rule: os_reachable.induct)
  case (os_reachable_init s)
  then show ?case by (simp add: os_init_def shootdown_exists_iff)
next
  case (os_reachable_step s1 s2)
  obtain st where st: "os_next_step mw c s1 s2 st" using os_reachable_step.hyps(2) by (auto simp: os_next_def)
  show ?case
    using os_reachable_step.IH step_keeps_waiting [OF st] step_opens_requests [OF st] unfolding shootdown_exists_iff by blast
qed

text \<open>The end of an unmap, as the source writes it.\<close>

lemma unmap_end_sets_idle:
  assumes "os_next_step mw c s1 s2 (OSUnmapEnd core)"
  shows "core_states s2 = core_states (set_core_idle s1 core) \<and> TLB_Shootdown s2 = TLB_Shootdown (set_core_idle s1 core)"
  using assms by (simp add: os_step_Unmap_End_def set_core_idle_def)

section \<open>The outcome of a map in flight\<close>

text \<open>
  While a core maps a range no other operation changes what the page table holds of the range:
  the operation would overlap the map, and the two are in flight together.
\<close>

lemma conflict_kept:
  assumes inv: "sys_inv mw c s1" and step: "os_next_step mw c s1 s2 st" and core: "sys_core c core"
    and maps: "mapping_entry (core_state s1 core) = Some (v, p)" "mapping_entry (core_state s2 core) = Some (v, p)"
  shows "candidate_mapping_overlaps_existing_vmem (os_pt mw s2) v p = candidate_mapping_overlaps_existing_vmem (os_pt mw s1) v p"
proof -
  note m1 = mapping_entry_region [OF maps(1)]
  have apart: "\<not> overlap (op_region (os_pt mw s1) (core_state s1 core)) (op_region (os_pt mw s1) (core_state s1 k))"
    if "sys_core c k" "k \<noteq> core" "core_state s1 k \<noteq> CIdle" for k
    using ci_ops [OF sys_cores [OF inv] core that(1)] that m1 by auto
  have region: "op_region (os_pt mw s1) (core_state s1 core) = vmem_region v p" using m1 by (simp add: op_region_def)
  show ?thesis
  proof (cases "\<exists>k r. st = OSMapEnd k r \<or> st = OSUnmapOpStart k r")
    case False
    have "os_pt mw s2 = os_pt mw s1"
      using step False stutter_pt [of s1 s2 mw] os_pt_spt_interp [of mw]
      by (cases st) (auto simp: os_step_HW_def os_step_Map_Start_def os_step_Unmap_Start_def Let_def os_step_Map_op_Start_def
        os_step_Unmap_Op_End_def os_step_Unmap_Initiate_Shootdown_def os_step_Ack_Shootdown_IPI_def os_step_Unmap_End_def
        os_step_View_Stutter_def spt_step_View_Stutter_def spt_step_Map_Start_def spt_step_Unmap_End_def pt_variables_def os_pt_def
        split: CoreState.splits)
    then show ?thesis by simp
  next
    case True
    then consider (map_ends) k r where "os_step_Map_End mw c s1 s2 k r" | (unmaps) k r where "os_step_Unmap_Op_Start mw c s1 s2 k r"
      using step by auto
    then show ?thesis
    proof cases
      case map_ends
      obtain u w q pt' where m: "sys_core c k" "core_state s1 k = MapExecuting u w q" "core_move mw s1 s2 k CIdle pt'"
          "if candidate_mapping_overlaps_existing_vmem (os_pt mw s1) w q
           then is_Err r \<and> pt' = os_pt mw s1 else is_Ok r \<and> pt' = (os_pt mw s1)(w \<mapsto> q)"
        by (rule map_end_move [OF map_ends])
      have k: "k \<noteq> core" using maps(2) core_move_states [OF m(3), of core] by auto
      have "\<not> overlap (vmem_region v p) (vmem_region w q)"
        using apart [OF m(1) k] m(2) region by (simp add: op_region_def)
      moreover have "w \<notin> dom (os_pt mw s1)" if "\<not> candidate_mapping_overlaps_existing_vmem (os_pt mw s1) w q"
        using candidate_free [OF that] by blast
      ultimately show ?thesis
        using m(3,4) by (auto simp: core_move_def candidate_mapping_overlaps_existing_vmem_def split: if_splits)
    next
      case unmaps
      obtain u w where m: "sys_core c k" "core_state s1 k = UnmapWaiting u w"
          "core_move mw s1 s2 k
            (UnmapOpExecuting u w (case os_pt mw s1 w of Some p \<Rightarrow> Ok p | None \<Rightarrow> Err ())) ((os_pt mw s1)(w := None))"
        by (rule unmap_op_start_move [OF unmaps])
      have k: "k \<noteq> core" using maps(1) m(2) by auto
      have "\<not> overlap (vmem_region v p) (vmem_region w q)" if "os_pt mw s1 w = Some q" for q
        using apart [OF m(1) k] m(2) region that by (simp add: op_region_def mapped_size_def)
      then show ?thesis
        using m(3) by (auto simp: core_move_def candidate_mapping_overlaps_existing_vmem_def)
    qed
  qed
qed

text \<open>Any steps, of all cores, during which \<open>core\<close> is in the map of entry \<open>p\<close> at \<open>v\<close>.\<close>

abbreviation map_in_flight where
  "map_in_flight mw c core v p \<equiv> (\<lambda>s s'. os_next mw c s s' \<and> mapping_entry (core_state s' core) = Some (v, p))\<^sup>*\<^sup>*"

lemma conflict_kept_run:
  assumes "map_in_flight mw c core v p s1 s2" and "sys_inv mw c s1" and "sys_core c core"
    and "mapping_entry (core_state s1 core) = Some (v, p)"
  shows "sys_inv mw c s2 \<and> mapping_entry (core_state s2 core) = Some (v, p) \<and>
    candidate_mapping_overlaps_existing_vmem (os_pt mw s2) v p = candidate_mapping_overlaps_existing_vmem (os_pt mw s1) v p"
  using assms(1)
proof (induction rule: rtranclp_induct)
  case (step s s')
  then show ?case using conflict_kept [OF _ _ assms(3)] os_next_sys_inv unfolding os_next_def by blast
qed (use assms in simp)

end
