(* ===== verification/OS_Properties.thy ===== *)
theory OS_Properties
  imports OS_Example OS_Progress PT_Properties
begin

text \<open>
  The properties of the system: its invariant, the TLB protocol, and that processes see the
  behaviour of the process-level specification. Each is exercised on the run of
  \<open>OS_Example\<close>.
\<close>

text \<open>
  C6. Every step the system takes from a reachable state is the step of the process-level
  specification that the source names for it, between the interpretations of the two states.
  This includes memory accesses through TLB entries that an unmap has made stale.
\<close>

theorem system_refines_process_view:
  assumes "os_reachable mw c s1" and "mem_size_ok c s1" and "os_next_step mw c s1 s2 step"
  shows "hl_next_step mw (osc_interp c) (os_interp mw c s1) (os_interp mw c s2) (os_step_interp mw c s1 step)"
  by (rule os_step_refines [OF os_reachable_sys_inv [OF assms(1)] assms(2,3)])

theorem system_refines_process_view_witness:
  "hl_next_step 52 (osc_interp ex_const) (os_interp 52 ex_const ex_map_executing)
     (os_interp 52 ex_const (ex_mapped_state Map.empty)) (AMapEnd 0 (Ok ()))"
  using system_refines_process_view [OF ex_reachable(2) _ ex_map_end] ex_mem_size
  by (simp add: ex_map_executing_def)

text \<open>
  C17. Every reachable state of the system is sound and satisfies the invariant of the source:
  identifiers are valid, one core at a time holds the kernel lock, unmapped addresses stay
  unmapped until their unmap ends, and neither operations in flight nor existing mappings
  overlap in virtual memory.
\<close>

theorem reachable_states_satisfy_os_inv:
  assumes "os_reachable mw c s"
  shows "os_inv mw c s \<and> os_sound s"
  using sys_inv_os_inv sys_invD(6) os_reachable_sys_inv [OF assms] by blast

theorem reachable_states_satisfy_os_inv_witness:
  "os_inv 52 ex_const (ex_shootdown [0x5000 \<mapsto> ex_entry] {ex_core})"
  using reachable_states_satisfy_os_inv [OF ex_reachable(4)] by simp

text \<open>
  Every reachable state of the system is interpreted as a reachable state of the
  process-level specification, and that state satisfies the invariant of the specification.
\<close>

theorem reachable_states_interpret_to_reachable:
  assumes "os_reachable mw c s" and "mem_size_ok c s"
  shows "hl_reachable mw (osc_interp c) (os_interp mw c s) \<and> hl_inv (osc_interp c) (os_interp mw c s)"
proof -
  have r: "hl_reachable mw (osc_interp c) (os_interp mw c s)" by (rule os_reachable_mem_size_init [OF assms])
  then show ?thesis
    using hl_reachable_inv [OF r] os_interp_simps(4) [OF os_reachable_sys_inv [OF assms(1)]] by simp
qed

theorem reachable_states_interpret_to_reachable_witness:
  "hl_inv (osc_interp ex_const) (os_interp 52 ex_const (ex_mapped_state [0x5000 \<mapsto> ex_entry]))"
  using reachable_states_interpret_to_reachable [OF ex_reachable(3)] ex_mem_size
  by (simp add: ex_mapped_state_def)

text \<open>
  C18. When an unmap that removed an entry ends, no TLB of any core holds an entry at the
  address, and the page table has none.
\<close>

theorem unmap_end_leaves_no_stale_entry:
  assumes r: "os_reachable mw c s1" and step: "os_step_Unmap_End c s1 s2 core"
    and st: "core_state s1 core = UnmapShootdownWaiting u v res" and k: "sys_core c k"
  shows "core_tlb (os_hw s2) k v = None \<and> os_pt mw s2 v = None"
proof -
  note inv = os_reachable_sys_inv [OF r]
  have s: "sys_core c core" "open_requests (TLB_Shootdown s1) = {}" "NUMAs (os_hw s2) = NUMAs (os_hw s1)"
      "os_pt mw s2 = os_pt mw s1"
    using step stutter_pt by (auto simp: os_step_Unmap_End_def st hw_step_PTMemOp_def)
  have "core_tlb (os_hw s1) k v = None"
    using shootdown_ackedD(2) [OF sys_invD(4) [OF inv] s(1) st k] s(2) by blast
  moreover have "os_pt mw s1 v = None" using ci_removed [OF sys_cores [OF inv] s(1)] st by simp
  ultimately show ?thesis using s(3,4) by simp
qed

theorem unmap_end_leaves_no_stale_entry_witness:
  "core_tlb (os_hw ex_end) ex_core 0x5000 = None \<and> os_pt 52 ex_end 0x5000 = None"
proof -
  have "os_step_Unmap_End ex_const (ex_shootdown Map.empty {}) ex_end ex_core" using ex_unmap_end by simp
  then show ?thesis
    using unmap_end_leaves_no_stale_entry [OF ex_reachable(5)] by (simp add: ex_shootdown_def)
qed

text \<open>
  C30. A TLB entry of any core is either an entry of the page table or one that an unmap in
  flight has removed and not yet finished shooting down.
\<close>

theorem tlb_entries_are_mapped_or_being_unmapped:
  assumes "os_reachable mw c s" and "sys_core c k" and "core_tlb (os_hw s) k v = Some p"
  shows "os_pt mw s v = Some p \<or> (\<exists>core. sys_core c core \<and> removed_entry (core_state s core) = Some (v, p))"
  using sys_invD(3) [OF os_reachable_sys_inv [OF assms(1)]] assms(2,3)
  unfolding tlb_resident_def resident_def by blast

theorem tlb_entries_are_mapped_or_being_unmapped_witness:
  "\<exists>core. sys_core ex_const core \<and>
     removed_entry (core_state (ex_shootdown [0x5000 \<mapsto> ex_entry] {ex_core}) core) = Some (0x5000, ex_entry)"
  using tlb_entries_are_mapped_or_being_unmapped [OF ex_reachable(4), of ex_core "0x5000" ex_entry]
  by (simp add: ex_shootdown_def ex_empty_pt)



text \<open>
  C21. A TLB shootdown can always be completed: from a reachable state in which an unmap waits
  for acknowledgements there are steps that end it, without touching any other core's
  operation or the page table.
\<close>

theorem shootdown_can_complete:
  assumes "os_reachable mw c s" and "sys_core c d" and "core_state s d = UnmapShootdownWaiting u v res"
  shows "\<exists>s'. (os_next mw c)\<^sup>*\<^sup>* s s' \<and> core_states s' = (core_states s)(d \<mapsto> CIdle) \<and> os_pt mw s' = os_pt mw s"
  by (rule shootdown_completes [OF assms])

theorem shootdown_can_complete_witness:
  "\<exists>s'. (os_next 52 ex_const)\<^sup>*\<^sup>* (ex_shootdown [0x5000 \<mapsto> ex_entry] {ex_core}) s' \<and> core_states s' = [ex_core \<mapsto> CIdle]"
  using shootdown_can_complete [OF ex_reachable(4), of ex_core] by (auto simp: ex_shootdown_def)




text \<open>
  The process-level specification keeps its invariant: in every reachable state that is
  sound, mappings and operations in flight use disjoint frames of positive size.
\<close>

theorem process_view_invariant:
  assumes "hl_reachable mw c s" and "hl_sound s"
  shows "hl_inv c s"
  by (rule hl_reachable_inv [OF assms])

theorem process_view_invariant_witness:
  "hl_inv (osc_interp ex_const) (os_interp 52 ex_const ex_map_waiting)"
proof (rule process_view_invariant)
  have r: "os_reachable 52 ex_const ex_map_waiting"
    by (rule os_reachable_next [OF ex_reachable(1) ex_map_start])
  show "hl_reachable 52 (osc_interp ex_const) (os_interp 52 ex_const ex_map_waiting)"
    by (rule os_reachable_mem_size_init [OF r]) (simp add: ex_map_waiting_def ex_mem_size)
  show "hl_sound (os_interp 52 ex_const ex_map_waiting)"
    by (rule os_interp_simps(4) [OF os_reachable_sys_inv [OF r]])
qed

text \<open>
  C19. The outcome of a map is decided when the thread asks for it, whatever the other cores do
  until it ends: it reports an error and leaves the page table alone if the requested range
  overlapped an entry of the page table at the start, even though other mappings may have come
  and gone since, and otherwise it succeeds and adds exactly the entry.
\<close>

theorem map_outcome_decided_at_start:
  assumes r: "os_reachable mw c s0" and start: "os_step_Map_Start mw c s0 s1 u v p"
    and run: "map_in_flight mw c (ult_core c u) v p s1 s2" and finish: "os_step_Map_End mw c s2 s3 (ult_core c u) result"
  shows "if candidate_mapping_overlaps_existing_vmem (os_pt mw s0) v p
    then is_Err result \<and> os_pt mw s3 = os_pt mw s2
    else is_Ok result \<and> os_pt mw s3 = (os_pt mw s2)(v \<mapsto> p)"
proof -
  note inv = os_reachable_sys_inv [OF r]
  note m = map_start_move [OF sys_invD(1) [OF inv] start]
  have st: "core_state s1 (ult_core c u) = MapWaiting u v p" "os_pt mw s1 = os_pt mw s0"
    using core_move_states [OF m(4)] m(4) by (simp_all add: core_move_def)
  have kept: "mapping_entry (core_state s2 (ult_core c u)) = Some (v, p)"
      "candidate_mapping_overlaps_existing_vmem (os_pt mw s2) v p = candidate_mapping_overlaps_existing_vmem (os_pt mw s0) v p"
    using conflict_kept_run [OF run map_start_inv [OF inv start] m(1)] st by simp_all
  obtain u' v' p' pt' where e: "core_state s2 (ult_core c u) = MapExecuting u' v' p'" "core_move mw s2 s3 (ult_core c u) CIdle pt'"
    "if candidate_mapping_overlaps_existing_vmem (os_pt mw s2) v' p'
     then is_Err result \<and> pt' = os_pt mw s2 else is_Ok result \<and> pt' = (os_pt mw s2)(v' \<mapsto> p')"
    by (rule map_end_move [OF finish])
  then show ?thesis using kept by (simp add: core_move_def split: if_splits)
qed

theorem map_outcome_decided_at_start_witness:
  "\<exists>s1 s2 s3 res. os_step_Map_Start 52 ex_const (ex_mapped_state [0x5000 \<mapsto> ex_entry]) s1 0 0x5000 ex_entry2 \<and>
     map_in_flight 52 ex_const ex_core 0x5000 ex_entry2 s1 s2 \<and> os_step_Map_End 52 ex_const s2 s3 ex_core res \<and>
     is_Err res \<and> os_pt 52 s3 = [0x5000 \<mapsto> ex_entry]"
proof -
  have run: "map_in_flight 52 ex_const ex_core 0x5000 ex_entry2
      (ex_remap (MapWaiting 0 0x5000 ex_entry2)) (ex_remap (MapExecuting 0 0x5000 ex_entry2))"
    using ex_remap_steps(2) unfolding os_next_def by (intro r_into_rtranclp conjI) (blast, simp add: ex_remap_def)
  have "candidate_mapping_overlaps_existing_vmem (os_pt 52 (ex_mapped_state [0x5000 \<mapsto> ex_entry])) 0x5000 ex_entry2"
    by (simp add: candidate_mapping_overlaps_existing_vmem_def ex_mapped_state_def ex_entry2_def ex_page_view overlap_def)
  then have fails: "is_Err (Err () :: (unit, unit) rust_result) \<and>
      os_pt 52 (ex_remap CIdle) = os_pt 52 (ex_remap (MapExecuting 0 0x5000 ex_entry2))"
    using map_outcome_decided_at_start [OF ex_reachable(3) ex_remap_steps(1), of "ex_remap (MapExecuting 0 0x5000 ex_entry2)"
        "ex_remap CIdle" "Err ()"] run ex_remap_steps(3) by simp
  have "os_pt 52 (ex_remap (MapExecuting 0 0x5000 ex_entry2)) = [0x5000 \<mapsto> ex_entry]" by (simp add: ex_remap_def)
  with fails show ?thesis
    by (intro exI [of _ "ex_remap (MapWaiting 0 0x5000 ex_entry2)"] exI [of _ "ex_remap (MapExecuting 0 0x5000 ex_entry2)"]
        exI [of _ "ex_remap CIdle"] exI [of _ "Err ()"] conjI ex_remap_steps(1,3) run) simp_all
qed

end
