(* ===== verification/HL_User.thy ===== *)
theory HL_User
  imports HL_Invariant PT_Example
begin

text \<open>
  A user program against the process-level specification, \<^verbatim>\<open>page-table/hlspec_user.rs\<close>: thread 1
  maps a page, stores to it and loads the stored word, and thread 2 starts to unmap it. The
  states of \<^verbatim>\<open>program_1\<close> are the definitions \<open>user_s1\<close> to \<open>user_s6\<close>; every assertion about a
  step is proved, and the words a map adds to the memory are computed as in the module \<^verbatim>\<open>util\<close>.
  The value a freshly mapped word has, \<^verbatim>\<open>arbitrary()\<close> in the source, is the parameter \<open>fresh\<close>.
\<close>

lemma max_phyaddr_at_least:
  assumes "max_phyaddr_width_facts mw"
  shows "0xffffffff \<le> MAX_PHYADDR mw" and "0xffffffff \<le> unat (MAX_PHYADDR mw)"
proof -
  have "(2::nat) ^ 32 \<le> 2 ^ mw" using assms by (intro power_increasing) (simp_all add: max_phyaddr_width_facts_def)
  then show u: "0xffffffff \<le> unat (MAX_PHYADDR mw)" by (simp add: MAX_PHYADDR_unat [OF assms])
  then show "0xffffffff \<le> MAX_PHYADDR mw" by (simp add: word_le_nat_alt)
qed

section \<open>The words of a range\<close>

function all_words_in_range :: "nat \<Rightarrow> nat \<Rightarrow> nat set" where
  "all_words_in_range vaddr sz =
     (if aligned sz WORD_SIZE then
        if sz > 0 then insert (word_index_spec vaddr) (all_words_in_range (vaddr + WORD_SIZE) (sz - WORD_SIZE)) else {}
      else undefined)"
  by auto
termination by (relation "measure snd") (simp_all add: WORD_SIZE_def)

declare all_words_in_range.simps [simp del]

function extend_mem_domain :: "nat \<Rightarrow> (nat \<rightharpoonup> nat) \<Rightarrow> nat \<Rightarrow> nat \<Rightarrow> nat \<rightharpoonup> nat" where
  "extend_mem_domain fresh m vaddr sz =
     (if sz > 0
      then (extend_mem_domain fresh m (vaddr + WORD_SIZE) (sz - WORD_SIZE))(word_index_spec vaddr \<mapsto> fresh)
      else m)"
  by auto
termination by (relation "measure (\<lambda>(fresh, m, vaddr, sz). sz)") (simp_all add: WORD_SIZE_def)

declare extend_mem_domain.simps [simp del]

function contract_mem_domain :: "(nat \<rightharpoonup> nat) \<Rightarrow> nat \<Rightarrow> nat \<Rightarrow> nat \<rightharpoonup> nat" where
  "contract_mem_domain m vaddr sz =
     (if sz > 0
      then (contract_mem_domain m (vaddr + WORD_SIZE) (sz - WORD_SIZE))(word_index_spec vaddr := None)
      else m)"
  by auto
termination by (relation "measure (\<lambda>(m, vaddr, sz). sz)") (simp_all add: WORD_SIZE_def)

declare contract_mem_domain.simps [simp del]

text \<open>In terms of a number of words, so that induction is structural.\<close>

lemma word_range_0:
  "all_words_in_range vaddr 0 = {}" "extend_mem_domain fresh m vaddr 0 = m" "contract_mem_domain m vaddr 0 = m"
  by (simp_all add: all_words_in_range.simps extend_mem_domain.simps contract_mem_domain.simps aligned_def)

lemma word_range_Suc:
  "all_words_in_range (w * WORD_SIZE) (Suc n * WORD_SIZE) = insert w (all_words_in_range (Suc w * WORD_SIZE) (n * WORD_SIZE))"
  "extend_mem_domain fresh m (w * WORD_SIZE) (Suc n * WORD_SIZE) =
     (extend_mem_domain fresh m (Suc w * WORD_SIZE) (n * WORD_SIZE))(w \<mapsto> fresh)"
  "contract_mem_domain m (w * WORD_SIZE) (Suc n * WORD_SIZE) =
     (contract_mem_domain m (Suc w * WORD_SIZE) (n * WORD_SIZE))(w := None)"
proof -
  have eq: "Suc n * WORD_SIZE > 0" "aligned (Suc n * WORD_SIZE) WORD_SIZE" "Suc n * WORD_SIZE - WORD_SIZE = n * WORD_SIZE"
      "w * WORD_SIZE + WORD_SIZE = Suc w * WORD_SIZE" "word_index_spec (w * WORD_SIZE) = w"
    by (simp_all only: aligned_def word_index_spec_def) (simp_all add: WORD_SIZE_def)
  show "all_words_in_range (w * WORD_SIZE) (Suc n * WORD_SIZE) = insert w (all_words_in_range (Suc w * WORD_SIZE) (n * WORD_SIZE))"
    by (subst all_words_in_range.simps) (simp only: eq if_True)
  show "extend_mem_domain fresh m (w * WORD_SIZE) (Suc n * WORD_SIZE) =
     (extend_mem_domain fresh m (Suc w * WORD_SIZE) (n * WORD_SIZE))(w \<mapsto> fresh)"
    by (subst extend_mem_domain.simps) (simp only: eq if_True)
  show "contract_mem_domain m (w * WORD_SIZE) (Suc n * WORD_SIZE) =
     (contract_mem_domain m (Suc w * WORD_SIZE) (n * WORD_SIZE))(w := None)"
    by (subst contract_mem_domain.simps) (simp only: eq if_True)
qed

lemma all_words_in_range_words:
  "all_words_in_range (w * WORD_SIZE) (n * WORD_SIZE) = {w..<w + n}"
proof (induction n arbitrary: w)
  case (Suc n)
  show ?case unfolding word_range_Suc Suc by auto
qed (simp add: word_range_0)

lemma extend_words:
  "extend_mem_domain fresh m (w * WORD_SIZE) (n * WORD_SIZE) = (\<lambda>i. if i \<in> {w..<w + n} then Some fresh else m i)"
proof (induction n arbitrary: w)
  case (Suc n)
  show ?case unfolding word_range_Suc Suc by (auto simp: fun_eq_iff)
qed (simp add: word_range_0)

lemma contract_words:
  "contract_mem_domain m (w * WORD_SIZE) (n * WORD_SIZE) = (\<lambda>i. if i \<in> {w..<w + n} then None else m i)"
proof (induction n arbitrary: w)
  case (Suc n)
  show ?case unfolding word_range_Suc Suc by (auto simp: fun_eq_iff)
qed (simp add: word_range_0)

lemma aligned_words: "aligned n WORD_SIZE \<Longrightarrow> \<exists>k. n = k * WORD_SIZE"
  by (auto simp: aligned_def mod_eq_0_iff_dvd dvd_def mult.commute)

text \<open>The contracts of the two lemmas that build the memories of the program.\<close>

lemma extend_mem_domain_dom:
  assumes "aligned vaddr WORD_SIZE" and "aligned sz WORD_SIZE"
  shows "dom (extend_mem_domain fresh m vaddr sz) = dom m \<union> all_words_in_range vaddr sz"
    and "dom (extend_mem_domain fresh m vaddr sz) =
      dom m \<union> {w. word_index_spec vaddr \<le> w \<and> w < word_index_spec vaddr + sz div WORD_SIZE}"
proof -
  obtain w n where "vaddr = w * WORD_SIZE" "sz = n * WORD_SIZE" using assms aligned_words by metis
  then show "dom (extend_mem_domain fresh m vaddr sz) = dom m \<union> all_words_in_range vaddr sz"
      "dom (extend_mem_domain fresh m vaddr sz) =
        dom m \<union> {w. word_index_spec vaddr \<le> w \<and> w < word_index_spec vaddr + sz div WORD_SIZE}"
    using extend_words [of fresh m w n] all_words_in_range_words [of w n]
    by (auto simp: word_index_spec_def dom_def split: if_splits)
qed

lemma contract_mem_domain_dom:
  assumes "aligned vaddr WORD_SIZE" and "aligned sz WORD_SIZE"
  shows "dom (contract_mem_domain m vaddr sz) = dom m - all_words_in_range vaddr sz"
    and "dom (contract_mem_domain m vaddr sz) =
      dom m - {w. word_index_spec vaddr \<le> w \<and> w < word_index_spec vaddr + sz div WORD_SIZE}"
proof -
  obtain w n where "vaddr = w * WORD_SIZE" "sz = n * WORD_SIZE" using assms aligned_words by metis
  then show "dom (contract_mem_domain m vaddr sz) = dom m - all_words_in_range vaddr sz"
      "dom (contract_mem_domain m vaddr sz) =
        dom m - {w. word_index_spec vaddr \<le> w \<and> w < word_index_spec vaddr + sz div WORD_SIZE}"
    using contract_words [of m w n] all_words_in_range_words [of w n]
    by (auto simp: word_index_spec_def dom_def split: if_splits)
qed

section \<open>The program\<close>

definition user_const :: AbstractConstants where
  "user_const = \<lparr>hl_thread_no = 4, hl_phys_mem_size = 4096 * 4096\<rparr>"

definition user_s1 :: AbstractVariables where
  "user_s1 = \<lparr>vmem = Map.empty, thread_state = [0 \<mapsto> AEmpty, 1 \<mapsto> AEmpty, 2 \<mapsto> AEmpty, 3 \<mapsto> AEmpty],
     hl_mappings = Map.empty, hl_sound = True\<rparr>"

definition user_pte1 :: PageTableEntry where
  "user_pte1 = \<lparr>pte_frame = \<lparr>mr_base = 4096, mr_size = 4096\<rparr>,
     pte_flags = \<lparr>is_writable = True, is_supervisor = False, disable_execute = True\<rparr>\<rparr>"

definition user_s2 :: AbstractVariables where
  "user_s2 = user_s1\<lparr>thread_state := (thread_state user_s1)(1 \<mapsto> AMap (4096 * 3) user_pte1)\<rparr>"

definition user_s3 :: "nat \<Rightarrow> AbstractVariables" where
  "user_s3 fresh = user_s2\<lparr>thread_state := (thread_state user_s2)(1 \<mapsto> AEmpty),
     hl_mappings := (hl_mappings user_s2)(4096 * 3 \<mapsto> user_pte1),
     vmem := extend_mem_domain fresh (vmem user_s2) (4096 * 3) 4096\<rparr>"

definition user_s4 :: "nat \<Rightarrow> AbstractVariables" where
  "user_s4 fresh = (user_s3 fresh)\<lparr>vmem := (vmem (user_s3 fresh))(512 * 3 \<mapsto> 42)\<rparr>"

definition user_s5 :: "nat \<Rightarrow> AbstractVariables" where
  "user_s5 fresh = user_s4 fresh"

definition user_s6 :: "nat \<Rightarrow> AbstractVariables" where
  "user_s6 fresh = (user_s5 fresh)\<lparr>thread_state := (thread_state (user_s5 fresh))(2 \<mapsto> AUnmap (4096 * 3) (Some user_pte1)),
     hl_mappings := (hl_mappings (user_s5 fresh))(4096 * 3 := None),
     vmem := contract_mem_domain (vmem (user_s5 fresh)) (4096 * 3) 4096\<rparr>"

lemma user_init: "hl_wf user_const user_s1" "hl_init user_const user_s1"
proof -
  have "i < 4 \<longleftrightarrow> i \<in> {0, 1, 2, 3}" for i :: nat by auto
  then show "hl_wf user_const user_s1" by (auto simp: hl_wf_def user_const_def user_s1_def)
  then show "hl_init user_const user_s1"
    by (auto simp: hl_init_def user_const_def user_s1_def)
qed

text \<open>Words 1536 to 2047 are the memory of the page.\<close>

lemma user_words: "dom (extend_mem_domain fresh Map.empty (4096 * 3) 4096) = {1536..<2048}"
    "contract_mem_domain m (4096 * 3) 4096 = (\<lambda>i. if i \<in> {1536..<2048} then None else m i)"
  using extend_words [of fresh Map.empty 1536 512] contract_words [of m 1536 512]
  by (simp_all add: WORD_SIZE_def dom_def set_eq_iff)

lemma user_domain:
  "mem_domain_from_mappings (4096 * 4096) [4096 * 3 \<mapsto> user_pte1] = {1536..<2048}"
  by (auto simp: mem_domain_from_mappings_def mem_domain_from_mappings_contains_def
      mem_domain_from_entry_contains_def user_pte1_def between_def word_index_spec_def WORD_SIZE_def)

lemma user_map_start:
  assumes "max_phyaddr_width_facts mw"
  shows "hl_step_Map_enabled mw (4096 * 3) user_pte1"
    and "hl_next_step mw user_const user_s1 user_s2 (AMapStart 1 (4096 * 3) user_pte1)"
proof -
  show en: "hl_step_Map_enabled mw (4096 * 3) user_pte1"
    using max_phyaddr_at_least(2) [OF assms]
    by (simp add: hl_step_Map_enabled_def user_pte1_def aligned_def candidate_mapping_in_bounds_def x86_arch_spec_upper_bound)
  have "hl_step_Map_sound (hl_mappings user_s1) (ran (thread_state user_s1)) (4096 * 3) user_pte1"
    by (auto simp: hl_step_Map_sound_def user_s1_def hl_overlaps_inflight_vmem_def hl_overlaps_inflight_pmem_def
        candidate_mapping_overlaps_existing_pmem_def)
  then show "hl_next_step mw user_const user_s1 user_s2 (AMapStart 1 (4096 * 3) user_pte1)"
    using en by (simp add: hl_next_step_def hl_step_Map_start_def user_s2_def state_unchanged_besides_thread_state_def)
      (simp add: user_s1_def user_const_def valid_thread_def)
qed

lemma user_map_end: "hl_next_step mw user_const user_s2 (user_s3 fresh) (AMapEnd 1 (Ok ()))"
  by (simp add: hl_next_step_def hl_step_Map_end_def user_s3_def user_s2_def user_s1_def user_const_def valid_thread_def
      candidate_mapping_overlaps_existing_vmem_def
      user_words [simplified] user_domain [simplified])

lemma user_store:
  "hl_next_step mw user_const (user_s3 fresh) (user_s4 fresh)
     (AReadWrite 1 (4096 * 3) (Store 42 StoreOk) (Some (4096 * 3, user_pte1)))"
  by (simp add: hl_next_step_def hl_step_ReadWrite_def user_s4_def user_s3_def user_s2_def user_s1_def user_const_def
      valid_thread_def aligned_def between_def word_index_spec_def WORD_SIZE_def user_pte1_def)

lemma user_load:
  "hl_next_step mw user_const (user_s4 fresh) (user_s5 fresh)
     (AReadWrite 1 (4096 * 3) (Load False (LoadValue 42)) (Some (4096 * 3, user_pte1)))"
  by (simp add: hl_next_step_def hl_step_ReadWrite_def user_s5_def user_s4_def user_s3_def user_s2_def user_s1_def user_const_def
      valid_thread_def aligned_def between_def word_index_spec_def WORD_SIZE_def user_pte1_def)

lemma user_unmap_start: "hl_next_step mw user_const (user_s5 fresh) (user_s6 fresh) (AUnmapStart 2 (4096 * 3))"
proof -
  have "hl_step_Unmap_sound (ran (thread_state (user_s5 fresh))) (4096 * 3) 4096"
    by (auto simp: hl_step_Unmap_sound_def hl_overlaps_inflight_vmem_def user_s5_def user_s4_def user_s3_def user_s2_def user_s1_def)
  moreover have "dom (vmem (user_s6 fresh)) = {}" "hl_mappings (user_s6 fresh) = Map.empty"
    using user_words(1) [of fresh]
    by (auto simp: user_s6_def user_s5_def user_s4_def user_s3_def user_s2_def user_s1_def user_words(2) [simplified] dom_def
        split: if_splits)
  moreover have "mem_domain_from_mappings n Map.empty = {}" for n
    by (simp add: mem_domain_from_mappings_def mem_domain_from_mappings_contains_def)
  moreover have "hl_step_Unmap_enabled (4096 * 3)" "valid_thread user_const 2" "frame_size user_pte1 = 4096"
    by (simp_all add: hl_step_Unmap_enabled_def aligned_def x86_arch_spec_upper_bound valid_thread_def user_const_def user_pte1_def)
  ultimately show ?thesis
    by (simp add: hl_next_step_def hl_step_Unmap_start_def Let_def user_s6_def user_s5_def user_s4_def user_s3_def user_s2_def user_s1_def)
qed

end
