(* ===== verification/OS_Trace.thy ===== *)
theory OS_Trace
  imports OS_Example HL_User PT_Ispec
begin

text \<open>
  The system run of \<^verbatim>\<open>page-table/os_trace.rs\<close> on one NUMA node with four cores: core 1 maps
  a page, core 2 caches the entry and stores through it, and core 1 unmaps the page, which
  needs an acknowledgement of every core, core 2's only after it has evicted the entry. The
  states of \<^verbatim>\<open>program_1\<close> are \<open>trace_s1\<close> to \<open>trace_s16\<close>. Its three page table memories, of
  which the source assumes what they map, are the parameters \<open>g\<close>, \<open>g2\<close> and \<open>g3\<close>.
\<close>

section \<open>The states\<close>

definition trace_const :: OSConstants where
  "trace_const = \<lparr>os_hwc = \<lparr>NUMA_no = 1, core_no = 4, hw_phys_mem_size = 4096 * 4096\<rparr>,
     ULT2core = (\<lambda>i. if i < 4 then Some \<lparr>NUMA_id = 0, core_id = i\<rparr> else None), ULT_no = 4\<rparr>"

definition trace_mem :: "nat list" where
  "trace_mem = replicate (4096 * 4096) 0"

definition trace_numa :: NUMAVariables where
  "trace_numa = \<lparr>cores = (\<lambda>i. if i < 4 then Some \<lparr>tlb = Map.empty\<rparr> else None)\<rparr>"

definition trace_s1 :: "PageTableMemory \<Rightarrow> OSVariables" where
  "trace_s1 g =
     \<lparr>os_hw = \<lparr>hw_mem = trace_mem, NUMAs = (\<lambda>i. if i < 1 then Some trace_numa else None), global_pt = g\<rparr>,
      core_states = (\<lambda>core. if NUMA_id core < 1 \<and> core_id core < 4 then Some CIdle else None),
      TLB_Shootdown = \<lparr>sd_vaddr = 0, open_requests = {}\<rparr>,
      os_sound = True\<rparr>"

definition trace_pte1 :: PageTableEntry where
  "trace_pte1 = \<lparr>pte_frame = \<lparr>mr_base = 4096, mr_size = 4096\<rparr>,
     pte_flags = \<lparr>is_writable = True, is_supervisor = False, disable_execute = True\<rparr>\<rparr>"

definition core0 :: Core where "core0 = \<lparr>NUMA_id = 0, core_id = 0\<rparr>"
definition core1 :: Core where "core1 = \<lparr>NUMA_id = 0, core_id = 1\<rparr>"
definition core2 :: Core where "core2 = \<lparr>NUMA_id = 0, core_id = 2\<rparr>"
definition core3 :: Core where "core3 = \<lparr>NUMA_id = 0, core_id = 3\<rparr>"

abbreviation set_core :: "OSVariables \<Rightarrow> Core \<Rightarrow> CoreState \<Rightarrow> OSVariables" where
  "set_core s core st \<equiv> s\<lparr>core_states := (core_states s)(core \<mapsto> st)\<rparr>"

abbreviation set_tlb2 :: "OSVariables \<Rightarrow> (nat \<rightharpoonup> PageTableEntry) \<Rightarrow> OSVariables" where
  "set_tlb2 s T \<equiv> s\<lparr>os_hw := (os_hw s)\<lparr>NUMAs := (NUMAs (os_hw s))(0 \<mapsto>
     \<lparr>cores = (cores (the (NUMAs (os_hw s) 0)))(2 \<mapsto> \<lparr>tlb = T\<rparr>)\<rparr>)\<rparr>\<rparr>"

abbreviation tlb2 :: "OSVariables \<Rightarrow> nat \<rightharpoonup> PageTableEntry" where
  "tlb2 s \<equiv> tlb (the (cores (the (NUMAs (os_hw s) 0)) 2))"

definition trace_s2 :: "PageTableMemory \<Rightarrow> OSVariables" where
  "trace_s2 g = set_core (trace_s1 g) core1 (MapWaiting 1 (4096 * 3) trace_pte1)"

definition trace_s3 :: "PageTableMemory \<Rightarrow> OSVariables" where
  "trace_s3 g = set_core (trace_s2 g) core1 (MapExecuting 1 (4096 * 3) trace_pte1)"

definition trace_s4 :: "PageTableMemory \<Rightarrow> PageTableMemory \<Rightarrow> OSVariables" where
  "trace_s4 g g2 = (set_core (trace_s3 g) core1 CIdle)\<lparr>os_hw := (os_hw (trace_s3 g))\<lparr>global_pt := g2\<rparr>\<rparr>"

definition trace_s5 :: "PageTableMemory \<Rightarrow> PageTableMemory \<Rightarrow> OSVariables" where
  "trace_s5 g g2 = set_tlb2 (trace_s4 g g2) ((tlb2 (trace_s4 g g2))(4096 * 3 \<mapsto> trace_pte1))"

definition trace_s6 :: "PageTableMemory \<Rightarrow> PageTableMemory \<Rightarrow> OSVariables" where
  "trace_s6 g g2 = (trace_s5 g g2)\<lparr>os_hw := (os_hw (trace_s5 g g2))\<lparr>hw_mem := (hw_mem (os_hw (trace_s5 g g2)))[512 := 42]\<rparr>\<rparr>"

definition trace_s7 :: "PageTableMemory \<Rightarrow> PageTableMemory \<Rightarrow> OSVariables" where
  "trace_s7 g g2 = set_core (trace_s6 g g2) core1 (UnmapWaiting 1 (4096 * 3))"

definition trace_s8 :: "PageTableMemory \<Rightarrow> PageTableMemory \<Rightarrow> PageTableMemory \<Rightarrow> OSVariables" where
  "trace_s8 g g2 g3 = (set_core (trace_s7 g g2) core1 (UnmapOpExecuting 1 (4096 * 3) (Ok trace_pte1)))
     \<lparr>os_hw := (os_hw (trace_s7 g g2))\<lparr>global_pt := g3\<rparr>\<rparr>"

definition trace_s9b :: "PageTableMemory \<Rightarrow> PageTableMemory \<Rightarrow> PageTableMemory \<Rightarrow> OSVariables" where
  "trace_s9b g g2 g3 = set_core (trace_s8 g g2 g3) core1 (UnmapOpDone 1 (4096 * 3) (Ok trace_pte1))"

definition trace_s10 :: "PageTableMemory \<Rightarrow> PageTableMemory \<Rightarrow> PageTableMemory \<Rightarrow> OSVariables" where
  "trace_s10 g g2 g3 = (set_core (trace_s9b g g2 g3) core1 (UnmapShootdownWaiting 1 (4096 * 3) (Ok trace_pte1)))
     \<lparr>TLB_Shootdown := \<lparr>sd_vaddr = 4096 * 3, open_requests = {core0, core1, core2, core3}\<rparr>\<rparr>"

definition trace_s11 :: "PageTableMemory \<Rightarrow> PageTableMemory \<Rightarrow> PageTableMemory \<Rightarrow> OSVariables" where
  "trace_s11 g g2 g3 = (trace_s10 g g2 g3)\<lparr>TLB_Shootdown := \<lparr>sd_vaddr = 4096 * 3, open_requests = {core0, core2, core3}\<rparr>\<rparr>"

definition trace_s12 :: "PageTableMemory \<Rightarrow> PageTableMemory \<Rightarrow> PageTableMemory \<Rightarrow> OSVariables" where
  "trace_s12 g g2 g3 = (trace_s11 g g2 g3)\<lparr>TLB_Shootdown := \<lparr>sd_vaddr = 4096 * 3, open_requests = {core2, core3}\<rparr>\<rparr>"

definition trace_s13 :: "PageTableMemory \<Rightarrow> PageTableMemory \<Rightarrow> PageTableMemory \<Rightarrow> OSVariables" where
  "trace_s13 g g2 g3 = (trace_s12 g g2 g3)\<lparr>TLB_Shootdown := \<lparr>sd_vaddr = 4096 * 3, open_requests = {core2}\<rparr>\<rparr>"

definition trace_s14 :: "PageTableMemory \<Rightarrow> PageTableMemory \<Rightarrow> PageTableMemory \<Rightarrow> OSVariables" where
  "trace_s14 g g2 g3 = set_tlb2 (trace_s13 g g2 g3) ((tlb2 (trace_s13 g g2 g3))(4096 * 3 := None))"

definition trace_s15 :: "PageTableMemory \<Rightarrow> PageTableMemory \<Rightarrow> PageTableMemory \<Rightarrow> OSVariables" where
  "trace_s15 g g2 g3 = (trace_s14 g g2 g3)\<lparr>TLB_Shootdown := \<lparr>sd_vaddr = 4096 * 3, open_requests = {}\<rparr>\<rparr>"

definition trace_s16 :: "PageTableMemory \<Rightarrow> PageTableMemory \<Rightarrow> PageTableMemory \<Rightarrow> OSVariables" where
  "trace_s16 g g2 g3 = set_core (trace_s15 g g2 g3) core1 CIdle"

section \<open>The states, component by component\<close>

text \<open>
  Every state of the run is given by the page table memory, the state of core 1, the TLB of
  core 2, the word at index 512 and the shootdown vector; all other cores are idle with an empty TLB.
\<close>

definition trace_state ::
    "PageTableMemory \<Rightarrow> CoreState \<Rightarrow> (nat \<rightharpoonup> PageTableEntry) \<Rightarrow> nat list \<Rightarrow> ShootdownVector \<Rightarrow> OSVariables" where
  "trace_state g st T M sd =
     \<lparr>os_hw = \<lparr>hw_mem = M,
        NUMAs = [0 \<mapsto> \<lparr>cores = (\<lambda>i. if i = 2 then Some \<lparr>tlb = T\<rparr> else if i < 4 then Some \<lparr>tlb = Map.empty\<rparr> else None)\<rparr>],
        global_pt = g\<rparr>,
      core_states = (\<lambda>core. if core = core1 then Some st
        else if NUMA_id core < 1 \<and> core_id core < 4 then Some CIdle else None),
      TLB_Shootdown = sd, os_sound = True\<rparr>"

definition trace_sd :: "Core set \<Rightarrow> ShootdownVector" where
  "trace_sd R = \<lparr>sd_vaddr = 4096 * 3, open_requests = R\<rparr>"

abbreviation trace_mem2 :: "nat list" where "trace_mem2 \<equiv> trace_mem[512 := 42]"
abbreviation trace_cached :: "nat \<rightharpoonup> PageTableEntry" where "trace_cached \<equiv> [4096 * 3 \<mapsto> trace_pte1]"

lemma trace_cores [simp]: "core0 \<noteq> core1" "core1 \<noteq> core2" "core2 \<noteq> core1" "core3 \<noteq> core1" "core1 \<noteq> core0" "core1 \<noteq> core3"
    "core0 \<noteq> core2" "core0 \<noteq> core3" "core2 \<noteq> core0" "core2 \<noteq> core3" "core3 \<noteq> core0" "core3 \<noteq> core2"
  by (simp_all add: core0_def core1_def core2_def core3_def)

lemma trace_state_simps [simp]:
  "hw_mem (os_hw (trace_state g st T M sd)) = M" "global_pt (os_hw (trace_state g st T M sd)) = g"
  "core_states (trace_state g st T M sd) core1 = Some st" "core_states (trace_state g st T M sd) core2 = Some CIdle"
  "core_tlb (os_hw (trace_state g st T M sd)) core2 = T" "core_tlb (os_hw (trace_state g st T M sd)) core0 = Map.empty"
  "core_tlb (os_hw (trace_state g st T M sd)) core1 = Map.empty" "core_tlb (os_hw (trace_state g st T M sd)) core3 = Map.empty"
  "TLB_Shootdown (trace_state g st T M sd) = sd" "os_sound (trace_state g st T M sd)"
  "pt_variables (trace_state g st T M sd) = \<lparr>pt_mem = g\<rparr>"
  "os_pt mw (trace_state g st T M sd) = interp_pt_mem mw g"
  by (simp_all add: trace_state_def pt_variables_def os_pt_def, simp_all add: core0_def core1_def core2_def core3_def)

lemma trace_update [simp]:
  "(core_states (trace_state g' st' T' M' sd') = (core_states (trace_state g st T M sd))(core1 \<mapsto> st')) \<longleftrightarrow> True"
  "hw_step_PTMemOp c (os_hw (trace_state g st T M sd)) (os_hw (trace_state g' st' T M sd'))"
  by (auto simp: trace_state_def hw_step_PTMemOp_def)

lemma trace_states:
  "trace_s1 g = trace_state g CIdle Map.empty trace_mem \<lparr>sd_vaddr = 0, open_requests = {}\<rparr>"
  "trace_s2 g = trace_state g (MapWaiting 1 (4096 * 3) trace_pte1) Map.empty trace_mem \<lparr>sd_vaddr = 0, open_requests = {}\<rparr>"
  "trace_s3 g = trace_state g (MapExecuting 1 (4096 * 3) trace_pte1) Map.empty trace_mem \<lparr>sd_vaddr = 0, open_requests = {}\<rparr>"
  "trace_s4 g g2 = trace_state g2 CIdle Map.empty trace_mem \<lparr>sd_vaddr = 0, open_requests = {}\<rparr>"
  "trace_s5 g g2 = trace_state g2 CIdle trace_cached trace_mem \<lparr>sd_vaddr = 0, open_requests = {}\<rparr>"
  "trace_s6 g g2 = trace_state g2 CIdle trace_cached trace_mem2 \<lparr>sd_vaddr = 0, open_requests = {}\<rparr>"
  "trace_s7 g g2 = trace_state g2 (UnmapWaiting 1 (4096 * 3)) trace_cached trace_mem2 \<lparr>sd_vaddr = 0, open_requests = {}\<rparr>"
  "trace_s8 g g2 g3 = trace_state g3 (UnmapOpExecuting 1 (4096 * 3) (Ok trace_pte1)) trace_cached trace_mem2
     \<lparr>sd_vaddr = 0, open_requests = {}\<rparr>"
  "trace_s9b g g2 g3 = trace_state g3 (UnmapOpDone 1 (4096 * 3) (Ok trace_pte1)) trace_cached trace_mem2
     \<lparr>sd_vaddr = 0, open_requests = {}\<rparr>"
proof -
  show s1: "trace_s1 g = trace_state g CIdle Map.empty trace_mem \<lparr>sd_vaddr = 0, open_requests = {}\<rparr>" for g
    by (auto simp: trace_s1_def trace_state_def trace_numa_def core1_def fun_eq_iff)
  show s2: "trace_s2 g = trace_state g (MapWaiting 1 (4096 * 3) trace_pte1) Map.empty trace_mem \<lparr>sd_vaddr = 0, open_requests = {}\<rparr>" for g
    unfolding trace_s2_def s1 by (simp add: trace_state_def fun_eq_iff)
  show s3: "trace_s3 g = trace_state g (MapExecuting 1 (4096 * 3) trace_pte1) Map.empty trace_mem \<lparr>sd_vaddr = 0, open_requests = {}\<rparr>" for g
    unfolding trace_s3_def s2 by (simp add: trace_state_def fun_eq_iff)
  show s4: "trace_s4 g g2 = trace_state g2 CIdle Map.empty trace_mem \<lparr>sd_vaddr = 0, open_requests = {}\<rparr>"
    unfolding trace_s4_def s3 by (simp add: trace_state_def fun_eq_iff)
  show s5: "trace_s5 g g2 = trace_state g2 CIdle trace_cached trace_mem \<lparr>sd_vaddr = 0, open_requests = {}\<rparr>"
    unfolding trace_s5_def s4 by (simp add: trace_state_def fun_eq_iff)
  show s6: "trace_s6 g g2 = trace_state g2 CIdle trace_cached trace_mem2 \<lparr>sd_vaddr = 0, open_requests = {}\<rparr>"
    unfolding trace_s6_def s5 by (simp add: trace_state_def)
  show s7: "trace_s7 g g2 = trace_state g2 (UnmapWaiting 1 (4096 * 3)) trace_cached trace_mem2 \<lparr>sd_vaddr = 0, open_requests = {}\<rparr>"
    unfolding trace_s7_def s6 by (simp add: trace_state_def fun_eq_iff)
  show s8: "trace_s8 g g2 g3 = trace_state g3 (UnmapOpExecuting 1 (4096 * 3) (Ok trace_pte1)) trace_cached trace_mem2
     \<lparr>sd_vaddr = 0, open_requests = {}\<rparr>"
    unfolding trace_s8_def s7 by (simp add: trace_state_def fun_eq_iff)
  show "trace_s9b g g2 g3 = trace_state g3 (UnmapOpDone 1 (4096 * 3) (Ok trace_pte1)) trace_cached trace_mem2
     \<lparr>sd_vaddr = 0, open_requests = {}\<rparr>"
    unfolding trace_s9b_def s8 by (simp add: trace_state_def fun_eq_iff)
qed

abbreviation trace_waiting :: "PageTableMemory \<Rightarrow> (nat \<rightharpoonup> PageTableEntry) \<Rightarrow> Core set \<Rightarrow> OSVariables" where
  "trace_waiting g T R \<equiv> trace_state g (UnmapShootdownWaiting 1 (4096 * 3) (Ok trace_pte1)) T trace_mem2 (trace_sd R)"

lemma trace_shootdown_states:
  "trace_s10 g g2 g3 = trace_waiting g3 trace_cached {core0, core1, core2, core3}"
  "trace_s11 g g2 g3 = trace_waiting g3 trace_cached {core0, core2, core3}"
  "trace_s12 g g2 g3 = trace_waiting g3 trace_cached {core2, core3}"
  "trace_s13 g g2 g3 = trace_waiting g3 trace_cached {core2}"
  "trace_s14 g g2 g3 = trace_waiting g3 Map.empty {core2}"
  "trace_s15 g g2 g3 = trace_waiting g3 Map.empty {}"
  "trace_s16 g g2 g3 = trace_state g3 CIdle Map.empty trace_mem2 (trace_sd {})"
proof -
  have tlb: "(tlb2 (trace_state g st T M sd)) = T" for g st T M sd by (simp add: trace_state_def)
  show s10: "trace_s10 g g2 g3 = trace_waiting g3 trace_cached {core0, core1, core2, core3}"
    unfolding trace_s10_def trace_states by (simp add: trace_state_def trace_sd_def fun_eq_iff)
  show s11: "trace_s11 g g2 g3 = trace_waiting g3 trace_cached {core0, core2, core3}"
    unfolding trace_s11_def s10 by (simp add: trace_state_def trace_sd_def)
  show s12: "trace_s12 g g2 g3 = trace_waiting g3 trace_cached {core2, core3}"
    unfolding trace_s12_def s11 by (simp add: trace_state_def trace_sd_def)
  show s13: "trace_s13 g g2 g3 = trace_waiting g3 trace_cached {core2}"
    unfolding trace_s13_def s12 by (simp add: trace_state_def trace_sd_def)
  show s14: "trace_s14 g g2 g3 = trace_waiting g3 Map.empty {core2}"
    unfolding trace_s14_def s13 tlb by (simp add: trace_state_def trace_sd_def fun_eq_iff)
  show s15: "trace_s15 g g2 g3 = trace_waiting g3 Map.empty {}"
    unfolding trace_s15_def s14 by (simp add: trace_state_def trace_sd_def)
  show "trace_s16 g g2 g3 = trace_state g3 CIdle Map.empty trace_mem2 (trace_sd {})"
    unfolding trace_s16_def s15 by (simp add: trace_state_def trace_sd_def fun_eq_iff)
qed

section \<open>The steps\<close>

lemma trace_ids [simp]:
  "valid_core (os_hwc trace_const) core \<longleftrightarrow> core \<in> {core0, core1, core2, core3}"
  "valid_ULT trace_const i \<longleftrightarrow> i < 4" "ult_core trace_const 1 = core1" "ult_core trace_const (Suc 0) = core1" "ult_core trace_const 2 = core2"
proof -
  have "n < 4 \<longleftrightarrow> n \<in> {0, 1, 2, 3}" for n :: nat by auto
  then show "valid_core (os_hwc trace_const) core \<longleftrightarrow> core \<in> {core0, core1, core2, core3}"
    by (cases core) (auto simp: trace_const_def valid_core_def valid_NUMA_id_def valid_core_id_def
        core0_def core1_def core2_def core3_def)
qed (simp_all add: trace_const_def valid_ULT_def core1_def core2_def)

lemma trace_lock: "\<not> holds_lock st \<Longrightarrow> kernel_lock trace_const (trace_state g st T M sd) = None"
  by (auto simp: kernel_lock_def trace_state_def core0_def core1_def core2_def core3_def)

lemma trace_inflight: "ran (core_states (trace_state g CIdle T M sd)) = {CIdle}"
  by (auto simp: trace_state_def ran_def core1_def intro!: exI [of _ "\<lparr>NUMA_id = 0, core_id = 1\<rparr>"] split: if_splits)

lemma trace_pte1_frame [simp]: "frame_size trace_pte1 = 4096" "frame_base trace_pte1 = 4096"
  by (simp_all add: trace_pte1_def)

lemma trace_map_start:
  assumes "max_phyaddr_width_facts mw" and "interp_pt_mem mw g = Map.empty" and "3 \<le> alloc_available_pages g"
  shows "os_next_step mw trace_const (trace_s1 g) (trace_s2 g) (OSMapStart 1 (4096 * 3) trace_pte1)"
proof -
  have "os_step_Map_enabled mw g (4096 * 3) trace_pte1"
    using max_phyaddr_at_least(2) [OF assms(1)] assms(3)
    by (simp add: os_step_Map_enabled_def aligned_def candidate_mapping_in_bounds_def x86_arch_spec_upper_bound)
  moreover have "os_step_Map_sound Map.empty {CIdle} (4096 * 3) trace_pte1"
    by (simp add: os_step_Map_sound_def candidate_mapping_overlaps_existing_pmem_def
        os_overlaps_inflight_pmem_def os_overlaps_inflight_vmem_def)
  ultimately show ?thesis
    by (simp add: os_step_Map_Start_def trace_states Let_def spt_step_Stutter_def trace_inflight assms(2))
qed

lemma trace_map_op_start: "os_next_step mw trace_const (trace_s2 g) (trace_s3 g) (OSMapOpStart core1)"
  by (simp add: os_step_Map_op_Start_def trace_states trace_lock spt_step_Map_Start_def)

lemma trace_map_end:
  assumes "interp_pt_mem mw g = Map.empty" and "interp_pt_mem mw g2 = (interp_pt_mem mw g)(4096 * 3 \<mapsto> trace_pte1)"
  shows "os_next_step mw trace_const (trace_s3 g) (trace_s4 g g2) (OSMapEnd core1 (Ok ()))"
  using assms by (simp add: os_step_Map_End_def trace_states spt_step_Map_End_def spt_interp_def
      candidate_mapping_overlaps_existing_vmem_def)

lemma trace_other_cores:
  "other_NUMAs_and_cores_unchanged c (os_hw (trace_state g st T M sd)) (os_hw (trace_state g' st T' M sd)) core2"
  by (auto simp: other_NUMAs_and_cores_unchanged_def trace_state_def core2_def fun_eq_iff split: if_splits)

lemma trace_tlb_fill:
  assumes "interp_pt_mem mw g2 = trace_cached"
  shows "os_next_step mw trace_const (trace_s4 g g2) (trace_s5 g g2) (OSHW 2 (TLBFill (4096 * 3) trace_pte1 core2))"
  using assms by (simp add: os_step_HW_def hw_step_TLBFill_def trace_states trace_other_cores spt_step_Stutter_def)
    (simp add: trace_state_def)

lemma trace_store:
  "os_next_step mw trace_const (trace_s5 g g2) (trace_s6 g g2)
     (OSHW 2 (ReadWrite (4096 * 3) 4096 (HWStore 42 HWStoreOk) (Some (4096 * 3, trace_pte1)) core2))"
proof -
  have "length trace_mem = 4096 * 4096" by (simp add: trace_mem_def)
  moreover have "NUMAs (os_hw (trace_state g2 CIdle T M sd)) = NUMAs (os_hw (trace_state g2 CIdle T M' sd))"
      "core_states (trace_state g2 CIdle T M sd) = core_states (trace_state g2 CIdle T M' sd)" for T M M' sd
    by (simp_all add: trace_state_def)
  ultimately show ?thesis
    by (simp add: os_step_HW_def hw_step_ReadWrite_def trace_states spt_step_Stutter_def aligned_def between_def word_index_spec_def)
      (simp add: trace_pte1_def)
qed

lemma trace_unmap_start:
  assumes "interp_pt_mem mw g2 = trace_cached"
  shows "os_next_step mw trace_const (trace_s6 g g2) (trace_s7 g g2) (OSUnmapStart 1 (4096 * 3))"
proof -
  have "os_step_Unmap_enabled (4096 * 3)"
    by (simp add: os_step_Unmap_enabled_def aligned_def x86_arch_spec_upper_bound)
  moreover have "os_step_Unmap_sound pt {CIdle} v n" for pt v n
    by (simp add: os_step_Unmap_sound_def os_overlaps_inflight_vmem_def)
  ultimately show ?thesis
    by (simp add: os_step_Unmap_Start_def Let_def trace_states spt_step_Stutter_def trace_inflight)
qed

lemma trace_unmap_op_start:
  assumes "interp_pt_mem mw g2 = trace_cached" and "interp_pt_mem mw g3 = (interp_pt_mem mw g2)(4096 * 3 := None)"
  shows "os_next_step mw trace_const (trace_s7 g g2) (trace_s8 g g2 g3) (OSUnmapOpStart core1 (Ok ()))"
  using assms by (simp add: os_step_Unmap_Op_Start_def trace_states trace_lock spt_step_Unmap_Start_def spt_interp_def)

lemma trace_unmap_op_end: "os_next_step mw trace_const (trace_s8 g g2 g3) (trace_s9b g g2 g3) (OSUnmapOpEnd core1)"
  by (simp add: os_step_Unmap_Op_End_def trace_states spt_step_Unmap_End_def)

lemma trace_initiate:
  "os_next_step mw trace_const (trace_s9b g g2 g3) (trace_s10 g g2 g3) (OSUnmapInitiateShootdown core1)"
  by (auto simp: os_step_Unmap_Initiate_Shootdown_def trace_states trace_shootdown_states spt_step_Stutter_def trace_sd_def)

lemma trace_ack:
  assumes "interp_pt_mem mw g3 = Map.empty" and "core \<in> R" and "core \<noteq> core2 \<or> T = Map.empty"
    and "core \<in> {core0, core1, core2, core3}"
  shows "os_next_step mw trace_const (trace_waiting g3 T R) (trace_waiting g3 T (R - {core})) (OSAckShootdownIPI core)"
proof -
  have "core_tlb (os_hw (trace_waiting g3 T R)) core = Map.empty" using assms(3,4) by auto
  then show ?thesis
    using assms(1,2) by (simp add: os_step_Ack_Shootdown_IPI_def trace_sd_def spt_step_Stutter_def) (simp add: trace_state_def)
qed

lemma trace_acks:
  assumes "interp_pt_mem mw g3 = Map.empty"
  shows "os_next_step mw trace_const (trace_s10 g g2 g3) (trace_s11 g g2 g3) (OSAckShootdownIPI core1)"
    and "os_next_step mw trace_const (trace_s11 g g2 g3) (trace_s12 g g2 g3) (OSAckShootdownIPI core0)"
    and "os_next_step mw trace_const (trace_s12 g g2 g3) (trace_s13 g g2 g3) (OSAckShootdownIPI core3)"
    and "os_next_step mw trace_const (trace_s14 g g2 g3) (trace_s15 g g2 g3) (OSAckShootdownIPI core2)"
  unfolding trace_shootdown_states
  using trace_ack [OF assms, of core1 "{core0, core1, core2, core3}" trace_cached]
    trace_ack [OF assms, of core0 "{core0, core2, core3}" trace_cached]
    trace_ack [OF assms, of core3 "{core2, core3}" trace_cached] trace_ack [OF assms, of core2 "{core2}" Map.empty]
  by (simp_all only: insert_Diff_if insert_iff empty_iff trace_cores trace_cores [symmetric] simp_thms Diff_empty
      Diff_insert0 empty_Diff if_True if_False)

lemma trace_evict:
  "os_next_step mw trace_const (trace_s13 g g2 g3) (trace_s14 g g2 g3) (OSHW 2 (TLBEvict (4096 * 3) core2))"
  by (simp add: os_step_HW_def hw_step_TLBEvict_def trace_shootdown_states trace_other_cores spt_step_Stutter_def)
    (simp add: trace_state_def)

lemma trace_unmap_end: "os_next_step mw trace_const (trace_s15 g g2 g3) (trace_s16 g g2 g3) (OSUnmapEnd core1)"
  by (simp add: os_step_Unmap_End_def trace_shootdown_states spt_step_Stutter_def) (simp add: trace_sd_def)

section \<open>The run\<close>

fun os_path :: "nat \<Rightarrow> OSConstants \<Rightarrow> OSVariables \<Rightarrow> (OSStep \<times> OSVariables) list \<Rightarrow> bool" where
  "os_path mw c s [] = True"
| "os_path mw c s ((step, s') # ss) = (os_next_step mw c s s' step \<and> os_path mw c s' ss)"

lemma os_path_reachable: "os_reachable mw c s \<Longrightarrow> os_path mw c s ss \<Longrightarrow> (step, s') \<in> set ss \<Longrightarrow> os_reachable mw c s'"
  by (induction mw c s ss rule: os_path.induct) (auto intro: os_reachable_next)

definition trace_program :: "PageTableMemory \<Rightarrow> PageTableMemory \<Rightarrow> PageTableMemory \<Rightarrow> (OSStep \<times> OSVariables) list" where
  "trace_program g g2 g3 =
     [(OSMapStart 1 (4096 * 3) trace_pte1, trace_s2 g),
      (OSMapOpStart core1, trace_s3 g),
      (OSMapEnd core1 (Ok ()), trace_s4 g g2),
      (OSHW 2 (TLBFill (4096 * 3) trace_pte1 core2), trace_s5 g g2),
      (OSHW 2 (ReadWrite (4096 * 3) 4096 (HWStore 42 HWStoreOk) (Some (4096 * 3, trace_pte1)) core2), trace_s6 g g2),
      (OSUnmapStart 1 (4096 * 3), trace_s7 g g2),
      (OSUnmapOpStart core1 (Ok ()), trace_s8 g g2 g3),
      (OSUnmapOpEnd core1, trace_s9b g g2 g3),
      (OSUnmapInitiateShootdown core1, trace_s10 g g2 g3),
      (OSAckShootdownIPI core1, trace_s11 g g2 g3),
      (OSAckShootdownIPI core0, trace_s12 g g2 g3),
      (OSAckShootdownIPI core3, trace_s13 g g2 g3),
      (OSHW 2 (TLBEvict (4096 * 3) core2), trace_s14 g g2 g3),
      (OSAckShootdownIPI core2, trace_s15 g g2 g3),
      (OSUnmapEnd core1, trace_s16 g g2 g3)]"

lemma trace_program_runs:
  assumes "max_phyaddr_width_facts mw" and "interp_pt_mem mw g = Map.empty" and "3 \<le> alloc_available_pages g"
    and "interp_pt_mem mw g2 = (interp_pt_mem mw g)(4096 * 3 \<mapsto> trace_pte1)"
    and "interp_pt_mem mw g3 = (interp_pt_mem mw g2)(4096 * 3 := None)"
  shows "os_path mw trace_const (trace_s1 g) (trace_program g g2 g3)"
proof -
  have pt: "interp_pt_mem mw g2 = trace_cached" "interp_pt_mem mw g3 = Map.empty" using assms by simp_all
  show ?thesis
    unfolding trace_program_def os_path.simps
    by (intro conjI TrueI trace_map_start [OF assms(1-3)] trace_map_op_start trace_map_end [OF assms(2,4)]
        trace_tlb_fill [OF pt(1)] trace_store trace_unmap_start [OF pt(1)] trace_unmap_op_start [OF pt(1) assms(5)]
        trace_unmap_op_end trace_initiate trace_acks [OF pt(2)] trace_evict trace_unmap_end)
qed

text \<open>
  Core 2 could not have acknowledged the shootdown while its TLB held the entry: without the
  eviction the run would be stuck.
\<close>

lemma trace_ack_needs_evict: "\<not> os_next_step mw trace_const (trace_s13 g g2 g3) s (OSAckShootdownIPI core2)"
  by (simp add: os_step_Ack_Shootdown_IPI_def trace_shootdown_states trace_sd_def)

lemma trace_init:
  assumes "interp_pt_mem mw g = Map.empty" and "spt_init \<lparr>pt_mem = g\<rparr>"
  shows "os_init mw trace_const (trace_s1 g)"
proof -
  have "hw_init (os_hwc trace_const) (os_hw (trace_s1 g))"
    by (auto simp: hw_init_def NUMA_init_def trace_const_def valid_NUMA_id_def valid_core_id_def trace_s1_def trace_numa_def
        split: if_splits)
  moreover have "core \<in> {core0, core1, core2, core3} \<longleftrightarrow> core \<in> dom (core_states (trace_s1 g))" for core
    using trace_ids(1) [of core] by (simp add: trace_const_def valid_core_def valid_NUMA_id_def valid_core_id_def trace_s1_def dom_def)
  moreover have "core_state (trace_s1 g) core = CIdle" if "core \<in> {core0, core1, core2, core3}" for core
    using that by (auto simp: trace_s1_def core0_def core1_def core2_def core3_def)
  moreover have "i < 4 \<longleftrightarrow> i \<in> dom (ULT2core trace_const)" "i < 4 \<Longrightarrow> ult_core trace_const i \<in> {core0, core1, core2, core3}" for i
    using trace_ids(1) [of "\<lparr>NUMA_id = 0, core_id = i\<rparr>"]
    by (auto simp: trace_const_def dom_def valid_core_def valid_NUMA_id_def valid_core_id_def)
  ultimately show ?thesis
    using assms by (simp add: os_init_def) (simp add: trace_s1_def os_pt_def pt_variables_def)
qed

text \<open>
  The memories the source assumes exist: mapping the page in the zeroed table of \<open>PT_Example\<close>
  gives the second one, and the zeroed table itself serves as the third.
\<close>

definition trace_page :: PageTableEntryExec where
  "trace_page = \<lparr>ptee_frame = \<lparr>mre_base = 4096, mre_size = 4096\<rparr>,
     ptee_flags = \<lparr>is_writable = True, is_supervisor = False, disable_execute = True\<rparr>\<rparr>"

lemma trace_page_view: "pte_view trace_page = trace_pte1"
  by (simp add: pte_view_def trace_page_def trace_pte1_def region_view_exec_def)

lemma trace_memory:
  obtains m where "ispec_map_frame 52 pool_allocator ex_mem 0x3000 trace_page = Some (m, Ok ())"
    and "interp_pt_mem 52 m = [4096 * 3 \<mapsto> trace_pte1]"
proof -
  have "contains_entry_size_at_index_atleast x86_arch_spec 4096 1"
    unfolding contains_entry_size_at_index_atleast_def by (rule exI [of _ 3]) simp
  then have acc: "ispec_accepts_map 52 ex_mem 0x3000 trace_page"
    using max_phyaddr_at_least(2) [OF ex_width]
    by (simp add: ispec_accepts_map_def trace_page_view aligned_def accepted_mapping_def ex_table_ok(4))
  have "pt_sys_inv 52 pool_allocator (ex_mem, empty_table ex_mem)"
    using ex_table_inv by (simp add: ex_table_def)
  from ispec_map_law [OF pt_sys_inv_ispec [OF this] acc] show ?thesis
    using that by (auto simp: ex_table_ok(3) trace_page_view candidate_mapping_overlaps_existing_vmem_def)
qed

lemma trace_possible:
  "\<exists>g2. os_path 52 trace_const (trace_s1 ex_mem) (trace_program ex_mem g2 ex_mem) \<and>
     os_reachable 52 trace_const (trace_s16 ex_mem g2 ex_mem)"
proof -
  obtain g2 where g2: "interp_pt_mem 52 g2 = [4096 * 3 \<mapsto> trace_pte1]" by (rule trace_memory)
  have "os_path 52 trace_const (trace_s1 ex_mem) (trace_program ex_mem g2 ex_mem)"
    by (rule trace_program_runs [OF ex_width ex_table_ok(3,4)]) (simp_all add: g2 ex_table_ok(3))
  moreover have "spt_init \<lparr>pt_mem = ex_mem\<rparr>"
    using ex_mem_ok by (simp add: spt_init_def ex_cr3 new_seq_replicate) (simp add: ex_mem_def)
  then have "os_reachable 52 trace_const (trace_s1 ex_mem)"
    by (intro os_reachable_init trace_init) (simp_all add: ex_table_ok(3))
  ultimately show ?thesis
    using os_path_reachable [of 52 trace_const "trace_s1 ex_mem" "trace_program ex_mem g2 ex_mem" "OSUnmapEnd core1"]
    by (auto simp: trace_program_def)
qed

end
