(* ===== verification/NR_Types.thy ===== *)
theory NR_Types
  imports Main
begin

text \<open>
  Node replication: the data types its state machines share
  (\<^verbatim>\<open>verified-node-replication/src/lib.rs\<close>, \<^verbatim>\<open>spec/types.rs\<close>,
  \<^verbatim>\<open>spec/utils.rs\<close>). The replicated data structure is a parameter of everything: a
  \<open>Dispatch\<close> record holds the specification functions of the trait of that name.
\<close>

section \<open>The replicated data structure\<close>

record ('r, 'w, 'v, 'resp) Dispatch =
  init_spec :: 'v
  dispatch_spec :: "'v \<Rightarrow> 'r \<Rightarrow> 'resp"
  dispatch_mut_spec :: "'v \<Rightarrow> 'w \<Rightarrow> 'v \<times> 'resp"

type_synonym NodeId = nat
type_synonym LogIdx = nat
type_synonym ReqId = nat
type_synonym ThreadId = nat

record 'w LogEntry =
  le_op :: 'w
  le_node_id :: NodeId

datatype ('r, 'w) InputOperation =
    InRead 'r NodeId
  | InWrite 'w

datatype 'resp OutputOperation =
    OutRead 'resp
  | OutWrite 'resp

datatype ('r, 'w, 'resp) AsyncLabel =
    is_Internal: Internal
  | LStart ReqId "('r, 'w) InputOperation"
  | LEnd ReqId "'resp OutputOperation"

section \<open>Sequences and maps\<close>

definition seq_unique :: "'a list \<Rightarrow> bool" where
  "seq_unique s \<longleftrightarrow> (\<forall>i<length s. \<forall>j<length s. i \<noteq> j \<longrightarrow> s ! i \<noteq> s ! j)"

definition seq_disjoint :: "'a list \<Rightarrow> 'a list \<Rightarrow> bool" where
  "seq_disjoint s t \<longleftrightarrow> (\<forall>i<length s. \<forall>j<length t. s ! i \<noteq> t ! j)"

definition seq_to_set :: "'a list \<Rightarrow> 'a set" where
  "seq_to_set s = {a. a \<in> set s}"

fun map_new_rec :: "nat \<Rightarrow> 'v \<Rightarrow> nat \<rightharpoonup> 'v" where
  "map_new_rec 0 val = [0 \<mapsto> val]"
| "map_new_rec (Suc n) val = (map_new_rec n val)(Suc n \<mapsto> val)"

definition map_contains_value :: "('k \<rightharpoonup> 'v) \<Rightarrow> 'v \<Rightarrow> bool" where
  "map_contains_value m val \<longleftrightarrow> (\<exists>i\<in>dom m. the (m i) = val)"

definition rangeincl :: "nat \<Rightarrow> nat \<Rightarrow> nat \<Rightarrow> bool" where
  "rangeincl low mid high \<longleftrightarrow> low \<le> mid \<and> mid \<le> high"

text \<open>The map whose domain is the numbers below a bound.\<close>

definition map_below :: "nat \<Rightarrow> 'v \<Rightarrow> nat \<rightharpoonup> 'v" where
  "map_below n v = (\<lambda>i. if i < n then Some v else None)"

lemma map_below_simps [simp]:
  "dom (map_below n v) = {..<n}" "map_below n v i = Some w \<longleftrightarrow> i < n \<and> w = v"
  by (auto simp: map_below_def split: if_splits)

lemma seq_unique_distinct [simp]: "seq_unique s \<longleftrightarrow> distinct s"
  by (auto simp: seq_unique_def distinct_conv_nth)

lemma seq_disjoint_iff [simp]: "seq_disjoint s t \<longleftrightarrow> set s \<inter> set t = {}"
proof -
  have "seq_disjoint s t \<longleftrightarrow> (\<forall>x\<in>set s. \<forall>y\<in>set t. x \<noteq> y)"
    unfolding seq_disjoint_def by (metis in_set_conv_nth nth_mem)
  then show ?thesis by blast
qed

lemma seq_to_set_eq [simp]: "seq_to_set s = set s"
  by (simp add: seq_to_set_def)

lemma map_new_rec_lookup: "map_new_rec n val i = (if i \<le> n then Some val else None)"
  by (induction n) auto

lemma ball_dom_iff: "(\<forall>k\<in>dom m. P k (the (m k))) \<longleftrightarrow> (\<forall>k x. m k = Some x \<longrightarrow> P k x)"
proof
  assume "\<forall>k\<in>dom m. P k (the (m k))"
  then show "\<forall>k x. m k = Some x \<longrightarrow> P k x" by (metis domI option.sel)
qed auto

end
