(* ===== verification/NR_Cyclic_Buffer.thy ===== *)
theory NR_Cyclic_Buffer
  imports NR_Types "HOL-Library.Word"
begin

text \<open>
  The cyclic buffer (\<^verbatim>\<open>spec/cyclicbuffer.rs\<close>): the bounded log that implements the
  unbounded one. Logical indices are integers, a logical index lives in the physical entry
  \<open>log_entry_idx\<close>, and whether the entry of a logical index has been written is read off
  a bit that changes its meaning with every round through the buffer.
\<close>

section \<open>Entries\<close>

definition LOG_SIZE :: nat where
  "LOG_SIZE = 512 * 1024"

type_synonym CellId = nat
type_synonym LogicalLogIdx = int

record 'w ConcreteLogEntry =
  cle_op :: 'w
  cle_node_id :: "64 word"

text \<open>
  The permission for a cell names the cell and holds its value; a token of the unbounded log
  names the instance of that machine, the index and the entry.
\<close>

record 'w CellPerm =
  cp_pcell :: CellId
  cp_value :: "'w ConcreteLogEntry option option"

record 'w LogToken =
  lt_instance :: nat
  lt_key :: LogIdx
  lt_value :: "'w LogEntry"

record 'w StoredType =
  st_cell_perms :: "'w CellPerm"
  st_log_entry :: "'w LogToken option"

definition stored_type_inv :: "'w StoredType \<Rightarrow> int \<Rightarrow> CellId \<Rightarrow> nat \<Rightarrow> bool" where
  "stored_type_inv st idx cell_id unbounded_log_instance \<longleftrightarrow>
     cp_value (st_cell_perms st) \<noteq> None \<and> cp_pcell (st_cell_perms st) = cell_id \<and>
     (idx \<ge> 0 \<longrightarrow>
        (case (st_log_entry st, cp_value (st_cell_perms st)) of
           (Some token, Some (Some entry)) \<Rightarrow>
             int (lt_key token) = idx \<and> lt_instance token = unbounded_log_instance \<and>
             unat (cle_node_id entry) = le_node_id (lt_value token) \<and> cle_op entry = le_op (lt_value token)
         | _ \<Rightarrow> False))"

section \<open>Physical indices and alive bits\<close>

definition log_entry_idx :: "LogicalLogIdx \<Rightarrow> nat \<Rightarrow> LogIdx" where
  "log_entry_idx logical buffer_size = nat (logical mod int buffer_size)"

definition log_entry_alive_value :: "LogicalLogIdx \<Rightarrow> nat \<Rightarrow> bool" where
  "log_entry_alive_value logical buffer_size \<longleftrightarrow> (logical div int buffer_size) mod 2 = 0"

definition log_entry_is_alive :: "(LogIdx \<rightharpoonup> bool) \<Rightarrow> LogicalLogIdx \<Rightarrow> nat \<Rightarrow> bool" where
  "log_entry_is_alive alive_bits logical buffer_size \<longleftrightarrow>
     the (alive_bits (log_entry_idx logical buffer_size)) = log_entry_alive_value logical buffer_size"

fun map_min_value :: "(NodeId \<rightharpoonup> nat) \<Rightarrow> nat \<Rightarrow> nat" where
  "map_min_value m 0 = the (m 0)"
| "map_min_value m (Suc idx) = min (map_min_value m idx) (the (m (Suc idx)))"

lemma map_min_value_le: "n \<le> idx \<Longrightarrow> map_min_value m idx \<le> the (m n)"
  by (induction idx) (auto simp: le_Suc_eq min_def)

lemma map_min_value_witness: "\<exists>n\<le>idx. map_min_value m idx = the (m n)"
  by (induction idx) (auto simp: min_def le_Suc_eq)

lemma map_min_value_contains: "\<forall>n\<le>idx. n \<in> dom m \<Longrightarrow> map_contains_value m (map_min_value m idx)"
  using map_min_value_witness [of idx m] by (auto simp: map_contains_value_def)

text \<open>One round through the buffer returns to the same entry with the opposite bit.\<close>

lemma log_entry_idx_less: "0 < bs \<Longrightarrow> log_entry_idx i bs < bs"
  by (simp add: log_entry_idx_def nat_less_iff)

lemma log_entry_idx_round: "log_entry_idx (i + int bs) bs = log_entry_idx i bs"
  by (simp add: log_entry_idx_def)

lemma log_entry_alive_value_wrap_around:
  assumes "0 < bs"
  shows "log_entry_alive_value (i + int bs) bs \<longleftrightarrow> \<not> log_entry_alive_value i bs"
proof -
  have "(q + 1) mod 2 = 0 \<longleftrightarrow> \<not> q mod 2 = 0" for q :: int by presburger
  then show ?thesis using assms by (simp add: log_entry_alive_value_def div_add_self2)
qed

lemma log_entry_alive_wrap_around:
  "0 < bs \<Longrightarrow> log_entry_is_alive bits (i + int bs) bs \<longleftrightarrow> \<not> log_entry_is_alive bits i bs"
  by (auto simp: log_entry_is_alive_def log_entry_idx_round log_entry_alive_value_wrap_around)

lemma log_entry_idx_wrap_around:
  assumes "start \<le> i" "i < start + int bs" "start \<le> j" "j < start + int bs" "i \<noteq> j"
  shows "log_entry_idx i bs \<noteq> log_entry_idx j bs"
proof
  assume "log_entry_idx i bs = log_entry_idx j bs"
  moreover have "0 < int bs" using assms(1,2) by linarith
  ultimately have "i mod int bs = j mod int bs"
    by (simp only: log_entry_idx_def eq_nat_nat_iff pos_mod_sign)
  then have "int bs dvd i - j" by (simp add: mod_eq_dvd_iff)
  moreover have "\<bar>i - j\<bar> < int bs" using assms by linarith
  ultimately show False using assms(5) zdvd_not_zless [of "\<bar>i - j\<bar>" "int bs"] by auto
qed

text \<open>Writing the bit of one index changes no other index of a window of the buffer's size.\<close>

lemma flip_alive:
  assumes "start \<le> c" "c < start + int bs" "start \<le> i" "i < start + int bs"
  shows "log_entry_is_alive (bits(log_entry_idx c bs \<mapsto> log_entry_alive_value c bs)) i bs \<longleftrightarrow>
    i = c \<or> log_entry_is_alive bits i bs"
  using log_entry_idx_wrap_around [of start i bs c] assms by (auto simp: log_entry_is_alive_def)

section \<open>State\<close>

datatype 'w ReaderState =
    RStarting LogIdx
  | RRange LogIdx LogIdx LogIdx
  | RGuard LogIdx LogIdx LogIdx "'w StoredType"

datatype 'w CBCombiner =
    CBIdle
  | CBReading "'w ReaderState"
  | CBAdvancingHead nat LogIdx
  | CBAdvancingTail LogIdx
  | CBAppending LogIdx LogIdx

fun no_overlap_with :: "'w CBCombiner \<Rightarrow> 'w CBCombiner \<Rightarrow> bool" where
  "no_overlap_with (CBAppending cur_idx tail) other =
     (case other of
        CBReading (RGuard start end cur val) \<Rightarrow> cur_idx > cur \<or> tail \<le> cur
      | CBAppending cur_idx2 tail2 \<Rightarrow> cur_idx \<ge> tail2 \<or> tail \<le> cur_idx2
      | _ \<Rightarrow> True)"
| "no_overlap_with _ other = True"

record 'w CyclicBuffer =
  cb_unbounded_log_instance :: nat
  cb_cell_ids :: "CellId list"
  cb_buffer_size :: LogIdx
  cb_num_replicas :: nat
  cb_head :: LogIdx
  cb_tail :: LogIdx
  cb_local_versions :: "NodeId \<rightharpoonup> LogIdx"
  cb_contents :: "LogicalLogIdx \<rightharpoonup> 'w StoredType"
  cb_alive_bits :: "LogIdx \<rightharpoonup> bool"
  cb_combiner :: "NodeId \<rightharpoonup> 'w CBCombiner"

abbreviation cb_alive where
  "cb_alive s i \<equiv> log_entry_is_alive (cb_alive_bits s) i (cb_buffer_size s)"

abbreviation cb_cell where
  "cb_cell s i \<equiv> cb_cell_ids s ! log_entry_idx i (cb_buffer_size s)"

abbreviation cb_min_version where
  "cb_min_version s \<equiv> map_min_value (cb_local_versions s) (cb_num_replicas s - 1)"

section \<open>Invariant\<close>

definition cb_log_size :: "'w CyclicBuffer \<Rightarrow> bool" where
  "cb_log_size s \<longleftrightarrow> cb_buffer_size s = LOG_SIZE"

definition cb_cell_ids_inv :: "'w CyclicBuffer \<Rightarrow> bool" where
  "cb_cell_ids_inv s \<longleftrightarrow> length (cb_cell_ids s) = cb_buffer_size s"

definition cb_complete :: "'w CyclicBuffer \<Rightarrow> bool" where
  "cb_complete s \<longleftrightarrow>
     (\<forall>i. i < cb_num_replicas s \<longleftrightarrow> i \<in> dom (cb_local_versions s)) \<and>
     (\<forall>i. i < cb_buffer_size s \<longleftrightarrow> i \<in> dom (cb_alive_bits s)) \<and>
     (\<forall>i. i < cb_num_replicas s \<longleftrightarrow> i \<in> dom (cb_combiner s)) \<and>
     (\<forall>i\<in>dom (cb_contents s). - int (cb_buffer_size s) \<le> i \<and> i < int (cb_tail s))"

definition cb_pointer_ordering :: "'w CyclicBuffer \<Rightarrow> bool" where
  "cb_pointer_ordering s \<longleftrightarrow>
     cb_head s \<le> cb_tail s \<and>
     (\<forall>i\<in>dom (cb_local_versions s).
        cb_head s \<le> the (cb_local_versions s i) \<and> the (cb_local_versions s i) \<le> cb_tail s) \<and>
     (\<forall>i\<in>dom (cb_local_versions s). cb_tail s \<le> the (cb_local_versions s i) + cb_buffer_size s)"

definition cb_pointer_differences :: "'w CyclicBuffer \<Rightarrow> bool" where
  "cb_pointer_differences s \<longleftrightarrow>
     (\<forall>i\<in>dom (cb_local_versions s).
        the (cb_local_versions s i) \<le> cb_tail s \<and> cb_tail s \<le> the (cb_local_versions s i) + cb_buffer_size s)"

definition cb_ranges_no_overlap :: "'w CyclicBuffer \<Rightarrow> bool" where
  "cb_ranges_no_overlap s \<longleftrightarrow>
     (\<forall>i\<in>dom (cb_combiner s). \<forall>j\<in>dom (cb_combiner s). i \<noteq> j \<longrightarrow>
        no_overlap_with (the (cb_combiner s i)) (the (cb_combiner s j)))"

definition cb_upcoming_bits_are_not_alive :: "'w CyclicBuffer \<Rightarrow> bool" where
  "cb_upcoming_bits_are_not_alive s \<longleftrightarrow>
     (\<forall>i. int (cb_tail s) \<le> i \<and> i < int (cb_min_version s) + int (cb_buffer_size s) \<longrightarrow> \<not> cb_alive s i)"

definition cb_inv_buffer_contents :: "'w CyclicBuffer \<Rightarrow> bool" where
  "cb_inv_buffer_contents s \<longleftrightarrow>
     (\<forall>i. int (cb_tail s) - int (cb_buffer_size s) \<le> i \<and> i < int (cb_tail s) \<longrightarrow>
        (cb_alive s i \<or> i < int (cb_min_version s)) = (i \<in> dom (cb_contents s))) \<and>
     (\<forall>i\<ge>int (cb_tail s). i \<notin> dom (cb_contents s))"

definition cb_contents_meet_inv :: "'w CyclicBuffer \<Rightarrow> bool" where
  "cb_contents_meet_inv s \<longleftrightarrow>
     (\<forall>i\<in>dom (cb_contents s).
        stored_type_inv (the (cb_contents s i)) i (cb_cell s i) (cb_unbounded_log_instance s))"

fun reader_state_valid :: "'w CyclicBuffer \<Rightarrow> NodeId \<Rightarrow> 'w ReaderState \<Rightarrow> bool" where
  "reader_state_valid s node_id (RStarting start) =
     (start = the (cb_local_versions s node_id) \<and> start \<le> cb_tail s)"
| "reader_state_valid s node_id (RRange start end cur) =
     (the (cb_local_versions s node_id) = start \<and> start \<le> end \<and>
      int (cb_tail s) - int (cb_buffer_size s) \<le> int end \<and> end \<le> cb_tail s \<and>
      start \<le> cur \<and> cur \<le> end \<and>
      (\<forall>i. int start \<le> i \<and> i < int cur \<longrightarrow> cb_alive s i) \<and>
      (\<forall>i. int start \<le> i \<and> i < int cur \<longrightarrow> i \<in> dom (cb_contents s)))"
| "reader_state_valid s node_id (RGuard start end cur val) =
     (the (cb_local_versions s node_id) = start \<and> start \<le> end \<and>
      int (cb_tail s) - int (cb_buffer_size s) \<le> int end \<and> end \<le> cb_tail s \<and>
      start \<le> cur \<and> cur < end \<and>
      (\<forall>i. int start \<le> i \<and> i \<le> int cur \<longrightarrow> cb_alive s i) \<and>
      (\<forall>i. int start \<le> i \<and> i \<le> int cur \<longrightarrow> i \<in> dom (cb_contents s)) \<and>
      int cur \<in> dom (cb_contents s) \<and> the (cb_contents s (int cur)) = val)"

definition cb_all_reader_state_valid :: "'w CyclicBuffer \<Rightarrow> bool" where
  "cb_all_reader_state_valid s \<longleftrightarrow>
     (\<forall>n\<in>dom (cb_combiner s). case the (cb_combiner s n) of CBReading rs \<Rightarrow> reader_state_valid s n rs | _ \<Rightarrow> True)"

fun cb_combiner_valid :: "'w CyclicBuffer \<Rightarrow> NodeId \<Rightarrow> 'w CBCombiner \<Rightarrow> bool" where
  "cb_combiner_valid s node_id CBIdle = True"
| "cb_combiner_valid s node_id (CBReading rs) = True"
| "cb_combiner_valid s node_id (CBAdvancingHead idx min_local_version) =
     (idx \<le> cb_num_replicas s \<and> (\<forall>n<idx. min_local_version \<le> the (cb_local_versions s n)))"
| "cb_combiner_valid s node_id (CBAdvancingTail observed_head) =
     (\<forall>n<cb_num_replicas s. observed_head \<le> the (cb_local_versions s n))"
| "cb_combiner_valid s node_id (CBAppending cur_idx tail) =
     (the (cb_local_versions s node_id) \<le> cur_idx \<and> cur_idx \<le> tail \<and> tail \<le> cb_tail s \<and>
      int (cb_tail s) - int (cb_buffer_size s) \<le> int cur_idx \<and> cur_idx \<le> cb_tail s \<and>
      (\<forall>i. cur_idx \<le> i \<and> i < tail \<longrightarrow> \<not> cb_alive s (int i)))"

definition cb_all_combiner_valid :: "'w CyclicBuffer \<Rightarrow> bool" where
  "cb_all_combiner_valid s \<longleftrightarrow> (\<forall>n\<in>dom (cb_combiner s). cb_combiner_valid s n (the (cb_combiner s n)))"

definition cb_invariant :: "'w CyclicBuffer \<Rightarrow> bool" where
  "cb_invariant s \<longleftrightarrow>
     cb_log_size s \<and> cb_cell_ids_inv s \<and> cb_complete s \<and> cb_pointer_ordering s \<and> cb_pointer_differences s \<and>
     cb_ranges_no_overlap s \<and> cb_upcoming_bits_are_not_alive s \<and> cb_inv_buffer_contents s \<and>
     cb_contents_meet_inv s \<and> cb_all_reader_state_valid s \<and> cb_all_combiner_valid s"

section \<open>Transitions\<close>

definition cb_initialize ::
    "nat \<Rightarrow> nat \<Rightarrow> (LogicalLogIdx \<rightharpoonup> 'w StoredType) \<Rightarrow> CellId list \<Rightarrow> nat \<Rightarrow> 'w CyclicBuffer \<Rightarrow> bool" where
  "cb_initialize buffer_size num_replicas contents cell_ids unbounded_log_instance s \<longleftrightarrow>
     num_replicas > 0 \<and> buffer_size = LOG_SIZE \<and> length cell_ids = buffer_size \<and>
     (\<forall>i. - int buffer_size \<le> i \<and> i < 0 \<longleftrightarrow> i \<in> dom contents) \<and>
     (\<forall>i\<in>dom contents.
        stored_type_inv (the (contents i)) i (cell_ids ! log_entry_idx i buffer_size) unbounded_log_instance) \<and>
     s = \<lparr>cb_unbounded_log_instance = unbounded_log_instance, cb_cell_ids = cell_ids, cb_buffer_size = buffer_size,
          cb_num_replicas = num_replicas, cb_head = 0, cb_tail = 0, cb_local_versions = map_below num_replicas 0,
          cb_contents = contents,
          cb_alive_bits =
            (\<lambda>i. if i < buffer_size then Some (\<not> log_entry_alive_value (int i) buffer_size) else None),
          cb_combiner = map_below num_replicas CBIdle\<rparr>"

abbreviation cb_set where
  "cb_set s n c \<equiv> s\<lparr>cb_combiner := (cb_combiner s)(n \<mapsto> c)\<rparr>"

definition reader_start :: "'w CyclicBuffer \<Rightarrow> NodeId \<Rightarrow> 'w CyclicBuffer option" where
  "reader_start s node_id =
     (case (cb_local_versions s node_id, cb_combiner s node_id) of
        (Some local_head, Some CBIdle) \<Rightarrow> Some (cb_set s node_id (CBReading (RStarting local_head)))
      | _ \<Rightarrow> None)"

definition reader_enter :: "'w CyclicBuffer \<Rightarrow> NodeId \<Rightarrow> 'w CyclicBuffer option" where
  "reader_enter s node_id =
     (case cb_combiner s node_id of
        Some (CBReading (RStarting start)) \<Rightarrow> Some (cb_set s node_id (CBReading (RRange start (cb_tail s) start)))
      | _ \<Rightarrow> None)"

definition reader_guard :: "'w CyclicBuffer \<Rightarrow> NodeId \<Rightarrow> 'w CyclicBuffer option" where
  "reader_guard s node_id =
     (case cb_combiner s node_id of
        Some (CBReading (RRange start end cur)) \<Rightarrow>
          if cur < end \<and>
             cb_alive_bits s (log_entry_idx (int cur) (cb_buffer_size s)) =
               Some (log_entry_alive_value (int cur) (cb_buffer_size s))
          then Some (cb_set s node_id (CBReading (RGuard start end cur (the (cb_contents s (int cur)))))) else None
      | _ \<Rightarrow> None)"

definition reader_unguard :: "'w CyclicBuffer \<Rightarrow> NodeId \<Rightarrow> 'w CyclicBuffer option" where
  "reader_unguard s node_id =
     (case cb_combiner s node_id of
        Some (CBReading (RGuard start end cur val)) \<Rightarrow>
          Some (cb_set s node_id (CBReading (RRange start end (cur + 1))))
      | _ \<Rightarrow> None)"

definition reader_finish :: "'w CyclicBuffer \<Rightarrow> NodeId \<Rightarrow> 'w CyclicBuffer option" where
  "reader_finish s node_id =
     (case (cb_combiner s node_id, cb_local_versions s node_id) of
        (Some (CBReading (RRange start end cur)), Some _) \<Rightarrow>
          if cur = end
          then Some (s\<lparr>cb_local_versions := (cb_local_versions s)(node_id \<mapsto> end),
                       cb_combiner := (cb_combiner s)(node_id \<mapsto> CBIdle)\<rparr>) else None
      | _ \<Rightarrow> None)"

definition reader_abort :: "'w CyclicBuffer \<Rightarrow> NodeId \<Rightarrow> 'w CyclicBuffer option" where
  "reader_abort s node_id =
     (case cb_combiner s node_id of
        Some (CBReading (RStarting start)) \<Rightarrow> Some (cb_set s node_id CBIdle)
      | Some (CBReading (RRange start end cur)) \<Rightarrow> Some (cb_set s node_id CBIdle)
      | _ \<Rightarrow> None)"

definition advance_head_start :: "'w CyclicBuffer \<Rightarrow> NodeId \<Rightarrow> 'w CyclicBuffer option" where
  "advance_head_start s node_id =
     (case (cb_local_versions s 0, cb_combiner s node_id) of
        (Some local_head_0, Some CBIdle) \<Rightarrow> Some (cb_set s node_id (CBAdvancingHead 1 local_head_0))
      | _ \<Rightarrow> None)"

definition advance_head_next :: "'w CyclicBuffer \<Rightarrow> NodeId \<Rightarrow> 'w CyclicBuffer option" where
  "advance_head_next s node_id =
     (case cb_combiner s node_id of
        Some (CBAdvancingHead idx min_local_version) \<Rightarrow>
          (case cb_local_versions s idx of
             Some local_head_at_idx \<Rightarrow>
               if idx < cb_num_replicas s
               then Some (cb_set s node_id (CBAdvancingHead (idx + 1) (min min_local_version local_head_at_idx))) else None
           | None \<Rightarrow> None)
      | _ \<Rightarrow> None)"

definition advance_head_finish :: "'w CyclicBuffer \<Rightarrow> NodeId \<Rightarrow> 'w CyclicBuffer option" where
  "advance_head_finish s node_id =
     (case cb_combiner s node_id of
        Some (CBAdvancingHead idx min_local_version) \<Rightarrow>
          if idx = cb_num_replicas s then Some ((cb_set s node_id CBIdle)\<lparr>cb_head := min_local_version\<rparr>) else None
      | _ \<Rightarrow> None)"

definition advance_head_abort :: "'w CyclicBuffer \<Rightarrow> NodeId \<Rightarrow> 'w CyclicBuffer option" where
  "advance_head_abort s node_id =
     (case cb_combiner s node_id of
        Some (CBAdvancingHead idx min_local_version) \<Rightarrow> Some (cb_set s node_id CBIdle) | _ \<Rightarrow> None)"

definition advance_tail_start :: "'w CyclicBuffer \<Rightarrow> NodeId \<Rightarrow> 'w CyclicBuffer option" where
  "advance_tail_start s node_id =
     (case cb_combiner s node_id of
        Some CBIdle \<Rightarrow> Some (cb_set s node_id (CBAdvancingTail (cb_head s))) | _ \<Rightarrow> None)"

text \<open>
  Advancing the tail withdraws the entries one round behind the new ones, whose cells are about
  to be written. That all of them are there to be withdrawn is \<open>withdrawn_present\<close> in
  \<open>NR_Cyclic_Inv\<close>.
\<close>

definition withdrawn_range :: "'w CyclicBuffer \<Rightarrow> nat \<Rightarrow> int set" where
  "withdrawn_range s new_tail =
     {int (cb_tail s) - int (cb_buffer_size s) ..< int new_tail - int (cb_buffer_size s)}"

definition advance_tail_finish :: "'w CyclicBuffer \<Rightarrow> NodeId \<Rightarrow> nat \<Rightarrow> 'w CyclicBuffer option" where
  "advance_tail_finish s node_id new_tail =
     (case cb_combiner s node_id of
        Some (CBAdvancingTail observed_head) \<Rightarrow>
          if cb_tail s \<le> new_tail \<and> new_tail \<le> observed_head + cb_buffer_size s
          then Some (s\<lparr>cb_combiner := (cb_combiner s)(node_id \<mapsto> CBAppending (cb_tail s) new_tail),
                       cb_tail := new_tail, cb_contents := cb_contents s |` (- withdrawn_range s new_tail)\<rparr>) else None
      | _ \<Rightarrow> None)"

definition advance_tail_abort :: "'w CyclicBuffer \<Rightarrow> NodeId \<Rightarrow> 'w CyclicBuffer option" where
  "advance_tail_abort s node_id =
     (case cb_combiner s node_id of
        Some (CBAdvancingTail observed_head) \<Rightarrow> Some (cb_set s node_id CBIdle) | _ \<Rightarrow> None)"

definition append_flip_bit :: "'w CyclicBuffer \<Rightarrow> NodeId \<Rightarrow> 'w StoredType \<Rightarrow> 'w CyclicBuffer option" where
  "append_flip_bit s node_id deposited =
     (case cb_combiner s node_id of
        Some (CBAppending cur_idx tail) \<Rightarrow>
          (case cb_alive_bits s (log_entry_idx (int cur_idx) (cb_buffer_size s)) of
             Some old \<Rightarrow>
               if cur_idx < tail \<and>
                  stored_type_inv deposited (int cur_idx) (cb_cell s (int cur_idx)) (cb_unbounded_log_instance s)
               then Some (s\<lparr>cb_combiner := (cb_combiner s)(node_id \<mapsto> CBAppending (cur_idx + 1) tail),
                            cb_alive_bits := (cb_alive_bits s)
                              (log_entry_idx (int cur_idx) (cb_buffer_size s) \<mapsto>
                                 log_entry_alive_value (int cur_idx) (cb_buffer_size s)),
                            cb_contents := (cb_contents s)(int cur_idx \<mapsto> deposited)\<rparr>) else None
           | None \<Rightarrow> None)
      | _ \<Rightarrow> None)"

definition append_finish :: "'w CyclicBuffer \<Rightarrow> NodeId \<Rightarrow> 'w CyclicBuffer option" where
  "append_finish s node_id =
     (case cb_combiner s node_id of
        Some (CBAppending cur_idx tail) \<Rightarrow> if cur_idx = tail then Some (cb_set s node_id CBIdle) else None
      | _ \<Rightarrow> None)"

inductive cb_next :: "'w CyclicBuffer \<Rightarrow> 'w CyclicBuffer \<Rightarrow> bool" where
  cb_next_reader_start: "reader_start s n = Some s' \<Longrightarrow> cb_next s s'"
| cb_next_reader_enter: "reader_enter s n = Some s' \<Longrightarrow> cb_next s s'"
| cb_next_reader_guard: "reader_guard s n = Some s' \<Longrightarrow> cb_next s s'"
| cb_next_reader_unguard: "reader_unguard s n = Some s' \<Longrightarrow> cb_next s s'"
| cb_next_reader_finish: "reader_finish s n = Some s' \<Longrightarrow> cb_next s s'"
| cb_next_reader_abort: "reader_abort s n = Some s' \<Longrightarrow> cb_next s s'"
| cb_next_advance_head_start: "advance_head_start s n = Some s' \<Longrightarrow> cb_next s s'"
| cb_next_advance_head_next: "advance_head_next s n = Some s' \<Longrightarrow> cb_next s s'"
| cb_next_advance_head_finish: "advance_head_finish s n = Some s' \<Longrightarrow> cb_next s s'"
| cb_next_advance_head_abort: "advance_head_abort s n = Some s' \<Longrightarrow> cb_next s s'"
| cb_next_advance_tail_start: "advance_tail_start s n = Some s' \<Longrightarrow> cb_next s s'"
| cb_next_advance_tail_finish: "advance_tail_finish s n t = Some s' \<Longrightarrow> cb_next s s'"
| cb_next_advance_tail_abort: "advance_tail_abort s n = Some s' \<Longrightarrow> cb_next s s'"
| cb_next_append_flip_bit: "append_flip_bit s n st = Some s' \<Longrightarrow> cb_next s s'"
| cb_next_append_finish: "append_finish s n = Some s' \<Longrightarrow> cb_next s s'"

inductive cb_reachable :: "'w CyclicBuffer \<Rightarrow> bool" where
  cb_reachable_init: "cb_initialize bs N contents cells inst s \<Longrightarrow> cb_reachable s"
| cb_reachable_step: "cb_reachable s \<Longrightarrow> cb_next s s' \<Longrightarrow> cb_reachable s'"

end
