(* ===== verification/NR_Unbounded_Log.thy ===== *)
theory NR_Unbounded_Log
  imports NR_Types
begin

text \<open>
  The unbounded log (\<^verbatim>\<open>spec/unbounded_log.rs\<close>): the log is a map from indices to
  entries tagged with the node that wrote them, every node has a replica of the data
  structure, and a combiner per node places its operations into the log and applies the log
  to its replica. The machine is tokenized in the source; \<^verbatim>\<open>remove\<close> and \<^verbatim>\<open>have\<close>
  are lookups that must succeed, \<^verbatim>\<open>add\<close> is an update.
\<close>

section \<open>State\<close>

datatype ('r, 'resp) ReadonlyState =
    ROInit 'r NodeId
  | ROVersionUpperBound 'r NodeId LogIdx
  | ROReadyToRead 'r NodeId LogIdx
  | RODone 'r NodeId LogIdx 'resp

datatype ('w, 'resp) UpdateState =
    UInit 'w
  | UPlaced 'w LogIdx
  | UApplied 'resp LogIdx
  | UDone 'resp LogIdx

datatype ULCombiner =
    CReady
  | CPlaced "ReqId list"
  | CLoadedLocalVersion "ReqId list" LogIdx
  | CLoop "ReqId list" LogIdx nat LogIdx
  | CUpdatedVersion "ReqId list" LogIdx

fun queued_ops :: "ULCombiner \<Rightarrow> ReqId list" where
  "queued_ops CReady = []"
| "queued_ops (CPlaced q) = q"
| "queued_ops (CLoadedLocalVersion q _) = q"
| "queued_ops (CLoop q _ _ _) = q"
| "queued_ops (CUpdatedVersion q _) = q"

record ('r, 'w, 'v, 'resp) UnboundedLog =
  ul_num_replicas :: nat
  ul_log :: "LogIdx \<rightharpoonup> 'w LogEntry"
  ul_tail :: nat
  ul_replicas :: "NodeId \<rightharpoonup> 'v"
  ul_local_versions :: "NodeId \<rightharpoonup> LogIdx"
  ul_version_upper_bound :: LogIdx
  ul_local_reads :: "ReqId \<rightharpoonup> ('r, 'resp) ReadonlyState"
  ul_local_updates :: "ReqId \<rightharpoonup> ('w, 'resp) UpdateState"
  ul_combiner :: "NodeId \<rightharpoonup> ULCombiner"

text \<open>The version a node's replica is at; it runs ahead of the published local version.\<close>

definition current_local_version :: "('r, 'w, 'v, 'resp) UnboundedLog \<Rightarrow> NodeId \<Rightarrow> nat" where
  "current_local_version s node_id =
     (case the (ul_combiner s node_id) of
        CReady \<Rightarrow> the (ul_local_versions s node_id)
      | CPlaced _ \<Rightarrow> the (ul_local_versions s node_id)
      | CLoadedLocalVersion _ lversion \<Rightarrow> lversion
      | CLoop _ lversion _ _ \<Rightarrow> lversion
      | CUpdatedVersion _ tail \<Rightarrow> tail)"

fun ul_compute_nrstate_at_version ::
    "('r, 'w, 'v, 'resp) Dispatch \<Rightarrow> (LogIdx \<rightharpoonup> 'w LogEntry) \<Rightarrow> LogIdx \<Rightarrow> 'v" where
  "ul_compute_nrstate_at_version D log 0 = init_spec D"
| "ul_compute_nrstate_at_version D log (Suc ver) =
     fst (dispatch_mut_spec D (ul_compute_nrstate_at_version D log ver) (le_op (the (log ver))))"

section \<open>What the combiners rely on\<close>

definition LogContainsEntriesUpToHere :: "(LogIdx \<rightharpoonup> 'w LogEntry) \<Rightarrow> LogIdx \<Rightarrow> bool" where
  "LogContainsEntriesUpToHere log end \<longleftrightarrow> (\<forall>i<end. i \<in> dom log)"

definition LogNoEntriesFromHere :: "(LogIdx \<rightharpoonup> 'w LogEntry) \<Rightarrow> LogIdx \<Rightarrow> bool" where
  "LogNoEntriesFromHere log start \<longleftrightarrow> (\<forall>i\<ge>start. i \<notin> dom log)"

function LogRangeNoNodeId :: "(LogIdx \<rightharpoonup> 'w LogEntry) \<Rightarrow> LogIdx \<Rightarrow> LogIdx \<Rightarrow> NodeId \<Rightarrow> bool" where
  "LogRangeNoNodeId log start end node_id \<longleftrightarrow>
     (start < end \<longrightarrow>
        start \<in> dom log \<and> le_node_id (the (log start)) \<noteq> node_id \<and>
        LogRangeNoNodeId log (start + 1) end node_id)"
  by pat_completeness auto
termination by (relation "measure (\<lambda>(_, start, end, _). end - start)") auto

text \<open>The source leaves both ranges unspecified when the lower end exceeds the upper one.\<close>

function LogRangeMatchesQueue ::
    "ReqId list \<Rightarrow> (LogIdx \<rightharpoonup> 'w LogEntry) \<Rightarrow> nat \<Rightarrow> LogIdx \<Rightarrow> LogIdx \<Rightarrow> NodeId \<Rightarrow>
     (ReqId \<rightharpoonup> ('w, 'resp) UpdateState) \<Rightarrow> bool" where
  "LogRangeMatchesQueue queue log queueIndex lower upper nodeId updates \<longleftrightarrow>
     (lower = upper \<longrightarrow> queueIndex = length queue) \<and>
     (lower < upper \<longrightarrow>
        lower \<in> dom log \<and>
        (if le_node_id (the (log lower)) = nodeId
         then queueIndex < length queue \<and>
           (case updates (queue ! queueIndex) of Some (UPlaced op idx) \<Rightarrow> idx = lower | _ \<Rightarrow> False) \<and>
           LogRangeMatchesQueue queue log (queueIndex + 1) (lower + 1) upper nodeId updates
         else LogRangeMatchesQueue queue log queueIndex (lower + 1) upper nodeId updates))"
  by pat_completeness auto
termination by (relation "measure (\<lambda>(_, _, _, lower, upper, _, _). upper - lower)") auto

declare LogRangeNoNodeId.simps [simp del] LogRangeMatchesQueue.simps [simp del]

fun is_UPlaced :: "('w, 'resp) UpdateState \<Rightarrow> bool" where
  "is_UPlaced (UPlaced _ _) = True"
| "is_UPlaced _ = False"

fun is_UAppliedDone :: "('w, 'resp) UpdateState \<Rightarrow> bool" where
  "is_UAppliedDone (UApplied _ _) = True"
| "is_UAppliedDone (UDone _ _) = True"
| "is_UAppliedDone _ = False"

definition QueueRidsUpdateDone :: "ReqId list \<Rightarrow> (ReqId \<rightharpoonup> ('w, 'resp) UpdateState) \<Rightarrow> nat \<Rightarrow> bool" where
  "QueueRidsUpdateDone queue updates bound \<longleftrightarrow>
     (\<forall>j<bound. case updates (queue ! j) of None \<Rightarrow> True | Some u \<Rightarrow> is_UAppliedDone u)"

definition QueueRidsUpdatePlaced :: "ReqId list \<Rightarrow> (ReqId \<rightharpoonup> ('w, 'resp) UpdateState) \<Rightarrow> nat \<Rightarrow> bool" where
  "QueueRidsUpdatePlaced queue updates bound \<longleftrightarrow>
     (\<forall>j. bound \<le> j \<and> j < length queue \<longrightarrow>
        (case updates (queue ! j) of None \<Rightarrow> False | Some u \<Rightarrow> is_UPlaced u))"

section \<open>Invariant\<close>

definition inv_request_ids_finite :: "('r, 'w, 'v, 'resp) UnboundedLog \<Rightarrow> bool" where
  "inv_request_ids_finite s \<longleftrightarrow>
     finite (dom (ul_local_reads s)) \<and> finite (dom (ul_local_updates s)) \<and> finite (dom (ul_combiner s))"

definition inv_replicas_complete :: "('r, 'w, 'v, 'resp) UnboundedLog \<Rightarrow> bool" where
  "inv_replicas_complete s \<longleftrightarrow> (\<forall>n. n < ul_num_replicas s \<longleftrightarrow> n \<in> dom (ul_replicas s))"

definition inv_local_combiner_complete :: "('r, 'w, 'v, 'resp) UnboundedLog \<Rightarrow> bool" where
  "inv_local_combiner_complete s \<longleftrightarrow> (\<forall>n. n < ul_num_replicas s \<longleftrightarrow> n \<in> dom (ul_combiner s))"

definition combiner_local_versions_domains :: "('r, 'w, 'v, 'resp) UnboundedLog \<Rightarrow> bool" where
  "combiner_local_versions_domains s \<longleftrightarrow> (\<forall>k. k \<in> dom (ul_local_versions s) \<longleftrightarrow> k \<in> dom (ul_combiner s))"

definition combiner_replicas_domains :: "('r, 'w, 'v, 'resp) UnboundedLog \<Rightarrow> bool" where
  "combiner_replicas_domains s \<longleftrightarrow> (\<forall>k. k \<in> dom (ul_replicas s) \<longleftrightarrow> k \<in> dom (ul_combiner s))"

definition wf_node_id :: "('r, 'w, 'v, 'resp) UnboundedLog \<Rightarrow> NodeId \<Rightarrow> bool" where
  "wf_node_id s node_id \<longleftrightarrow>
     node_id < ul_num_replicas s \<and> node_id \<in> dom (ul_combiner s) \<and>
     node_id \<in> dom (ul_local_versions s) \<and> node_id \<in> dom (ul_replicas s)"

definition inv_version_in_range :: "('r, 'w, 'v, 'resp) UnboundedLog \<Rightarrow> bool" where
  "inv_version_in_range s \<longleftrightarrow> ul_version_upper_bound s \<le> ul_tail s"

definition inv_local_version_upper_bound_heads :: "('r, 'w, 'v, 'resp) UnboundedLog \<Rightarrow> bool" where
  "inv_local_version_upper_bound_heads s \<longleftrightarrow>
     (\<forall>n\<in>dom (ul_local_versions s). the (ul_local_versions s n) \<le> ul_version_upper_bound s)"

fun wf_readstate :: "('r, 'w, 'v, 'resp) UnboundedLog \<Rightarrow> ('r, 'resp) ReadonlyState \<Rightarrow> bool" where
  "wf_readstate s (ROInit op node_id) = True"
| "wf_readstate s (ROVersionUpperBound op node_id vub) = (vub \<le> ul_version_upper_bound s)"
| "wf_readstate s (ROReadyToRead op node_id vub) =
     (wf_node_id s node_id \<and> vub \<le> ul_version_upper_bound s \<and> vub \<le> current_local_version s node_id)"
| "wf_readstate s (RODone op node_id vub ret) =
     (wf_node_id s node_id \<and> vub \<le> ul_version_upper_bound s \<and> vub \<le> current_local_version s node_id)"

definition inv_readonly_requests_wf :: "('r, 'w, 'v, 'resp) UnboundedLog \<Rightarrow> bool" where
  "inv_readonly_requests_wf s \<longleftrightarrow> (\<forall>rid\<in>dom (ul_local_reads s). wf_readstate s (the (ul_local_reads s rid)))"

definition wf_combiner_for_node_id :: "('r, 'w, 'v, 'resp) UnboundedLog \<Rightarrow> NodeId \<Rightarrow> bool" where
  "wf_combiner_for_node_id s node_id \<longleftrightarrow>
    (let lv = the (ul_local_versions s node_id); log = ul_log s; updates = ul_local_updates s in
     case the (ul_combiner s node_id) of
       CReady \<Rightarrow> LogRangeNoNodeId log lv (ul_tail s) node_id
     | CPlaced queue \<Rightarrow>
         LogRangeMatchesQueue queue log 0 lv (ul_tail s) node_id updates \<and>
         QueueRidsUpdatePlaced queue updates 0 \<and> seq_unique queue
     | CLoadedLocalVersion queue lversion \<Rightarrow>
         lversion = lv \<and>
         LogRangeMatchesQueue queue log 0 lversion (ul_tail s) node_id updates \<and>
         QueueRidsUpdatePlaced queue updates 0 \<and> seq_unique queue
     | CLoop queue lversion idx tail \<Rightarrow>
         tail \<le> ul_tail s \<and> lversion \<ge> lv \<and> lversion \<le> tail \<and>
         LogContainsEntriesUpToHere log lversion \<and> idx \<le> length queue \<and>
         LogRangeMatchesQueue queue log idx lversion tail node_id updates \<and>
         LogRangeNoNodeId log tail (ul_tail s) node_id \<and>
         QueueRidsUpdatePlaced queue updates idx \<and> QueueRidsUpdateDone queue updates idx \<and>
         seq_unique queue
     | CUpdatedVersion queue tail \<Rightarrow>
         tail \<le> ul_version_upper_bound s \<and> lv \<le> tail \<and>
         LogContainsEntriesUpToHere log tail \<and>
         LogRangeNoNodeId log tail (ul_tail s) node_id \<and>
         QueueRidsUpdateDone queue updates (length queue) \<and> seq_unique queue)"

definition combiner_states_wf :: "('r, 'w, 'v, 'resp) UnboundedLog \<Rightarrow> bool" where
  "combiner_states_wf s \<longleftrightarrow> (\<forall>n\<in>dom (ul_combiner s). wf_combiner_for_node_id s n)"

definition inv_log_complete :: "('r, 'w, 'v, 'resp) UnboundedLog \<Rightarrow> bool" where
  "inv_log_complete s \<longleftrightarrow>
     LogContainsEntriesUpToHere (ul_log s) (ul_tail s) \<and> LogNoEntriesFromHere (ul_log s) (ul_tail s)"

fun inv_local_updates_wf :: "('r, 'w, 'v, 'resp) UnboundedLog \<Rightarrow> ('w, 'resp) UpdateState \<Rightarrow> bool" where
  "inv_local_updates_wf s (UInit op) = True"
| "inv_local_updates_wf s (UPlaced op idx) = (idx \<in> dom (ul_log s) \<and> idx < ul_tail s)"
| "inv_local_updates_wf s (UApplied ret idx) = (idx \<in> dom (ul_log s) \<and> idx < ul_tail s)"
| "inv_local_updates_wf s (UDone ret idx) = (idx \<in> dom (ul_log s) \<and> idx < ul_version_upper_bound s)"

definition inv_local_updates :: "('r, 'w, 'v, 'resp) UnboundedLog \<Rightarrow> bool" where
  "inv_local_updates s \<longleftrightarrow>
     (\<forall>rid\<in>dom (ul_local_updates s). inv_local_updates_wf s (the (ul_local_updates s rid)))"

fun read_results_match ::
    "('r, 'w, 'v, 'resp) Dispatch \<Rightarrow> ('r, 'w, 'v, 'resp) UnboundedLog \<Rightarrow> ('r, 'resp) ReadonlyState \<Rightarrow> bool" where
  "read_results_match D s (RODone op node_id vub ret) =
     (\<exists>v. rangeincl vub v (ul_version_upper_bound s) \<and> v \<le> current_local_version s node_id \<and>
        ret = dispatch_spec D (ul_compute_nrstate_at_version D (ul_log s) v) op)"
| "read_results_match D s _ = True"

definition inv_read_results ::
    "('r, 'w, 'v, 'resp) Dispatch \<Rightarrow> ('r, 'w, 'v, 'resp) UnboundedLog \<Rightarrow> bool" where
  "inv_read_results D s \<longleftrightarrow> (\<forall>rid\<in>dom (ul_local_reads s). read_results_match D s (the (ul_local_reads s rid)))"

fun update_results_match ::
    "('r, 'w, 'v, 'resp) Dispatch \<Rightarrow> ('r, 'w, 'v, 'resp) UnboundedLog \<Rightarrow> ('w, 'resp) UpdateState \<Rightarrow> bool" where
  "update_results_match D s (UApplied ret idx) =
     (ret = snd (dispatch_mut_spec D (ul_compute_nrstate_at_version D (ul_log s) idx) (le_op (the (ul_log s idx)))))"
| "update_results_match D s (UDone ret idx) =
     (ret = snd (dispatch_mut_spec D (ul_compute_nrstate_at_version D (ul_log s) idx) (le_op (the (ul_log s idx)))))"
| "update_results_match D s _ = True"

definition inv_update_results ::
    "('r, 'w, 'v, 'resp) Dispatch \<Rightarrow> ('r, 'w, 'v, 'resp) UnboundedLog \<Rightarrow> bool" where
  "inv_update_results D s \<longleftrightarrow>
     (\<forall>rid\<in>dom (ul_local_updates s). update_results_match D s (the (ul_local_updates s rid)))"

definition inv_combiner_rids_distinct :: "('r, 'w, 'v, 'resp) UnboundedLog \<Rightarrow> bool" where
  "inv_combiner_rids_distinct s \<longleftrightarrow>
     (\<forall>n1\<in>dom (ul_combiner s). \<forall>n2\<in>dom (ul_combiner s). n1 \<noteq> n2 \<longrightarrow>
        seq_disjoint (queued_ops (the (ul_combiner s n1))) (queued_ops (the (ul_combiner s n2))))"

definition replica_state ::
    "('r, 'w, 'v, 'resp) Dispatch \<Rightarrow> ('r, 'w, 'v, 'resp) UnboundedLog \<Rightarrow> bool" where
  "replica_state D s \<longleftrightarrow>
     (\<forall>n\<in>dom (ul_replicas s).
        the (ul_replicas s n) = ul_compute_nrstate_at_version D (ul_log s) (current_local_version s n))"

definition current_local_version_in_range :: "('r, 'w, 'v, 'resp) UnboundedLog \<Rightarrow> bool" where
  "current_local_version_in_range s \<longleftrightarrow> (\<forall>n\<in>dom (ul_replicas s). current_local_version s n \<le> ul_tail s)"

definition ul_invariant ::
    "('r, 'w, 'v, 'resp) Dispatch \<Rightarrow> ('r, 'w, 'v, 'resp) UnboundedLog \<Rightarrow> bool" where
  "ul_invariant D s \<longleftrightarrow>
     inv_request_ids_finite s \<and> inv_replicas_complete s \<and> inv_local_combiner_complete s \<and>
     combiner_local_versions_domains s \<and> combiner_replicas_domains s \<and>
     inv_version_in_range s \<and> inv_local_version_upper_bound_heads s \<and> inv_readonly_requests_wf s \<and>
     combiner_states_wf s \<and> inv_log_complete s \<and> inv_local_updates s \<and> inv_read_results D s \<and>
     inv_update_results D s \<and> inv_combiner_rids_distinct s \<and> replica_state D s \<and>
     current_local_version_in_range s"

section \<open>Initial state and transitions\<close>

definition ul_initialize :: "('r, 'w, 'v, 'resp) Dispatch \<Rightarrow> nat \<Rightarrow> ('r, 'w, 'v, 'resp) UnboundedLog" where
  "ul_initialize D number_of_nodes =
     \<lparr>ul_num_replicas = number_of_nodes, ul_log = Map.empty, ul_tail = 0,
      ul_replicas = map_below number_of_nodes (init_spec D),
      ul_local_versions = map_below number_of_nodes 0, ul_version_upper_bound = 0,
      ul_local_reads = Map.empty, ul_local_updates = Map.empty,
      ul_combiner = map_below number_of_nodes CReady\<rparr>"

abbreviation set_read where
  "set_read s rid r \<equiv> s\<lparr>ul_local_reads := (ul_local_reads s)(rid \<mapsto> r)\<rparr>"

abbreviation set_combiner where
  "set_combiner s n c \<equiv> s\<lparr>ul_combiner := (ul_combiner s)(n \<mapsto> c)\<rparr>"

definition readonly_version_upper_bound ::
    "('r, 'w, 'v, 'resp) UnboundedLog \<Rightarrow> ReqId \<Rightarrow> ('r, 'w, 'v, 'resp) UnboundedLog option" where
  "readonly_version_upper_bound s rid =
     (case ul_local_reads s rid of
        Some (ROInit op node_id) \<Rightarrow>
          Some (set_read s rid (ROVersionUpperBound op node_id (ul_version_upper_bound s)))
      | _ \<Rightarrow> None)"

definition readonly_ready_to_read ::
    "('r, 'w, 'v, 'resp) UnboundedLog \<Rightarrow> ReqId \<Rightarrow> ('r, 'w, 'v, 'resp) UnboundedLog option" where
  "readonly_ready_to_read s rid =
     (case ul_local_reads s rid of
        Some (ROVersionUpperBound op node_id vub) \<Rightarrow>
          (case ul_local_versions s node_id of
             Some local_head \<Rightarrow>
               if local_head \<ge> vub then Some (set_read s rid (ROReadyToRead op node_id vub)) else None
           | None \<Rightarrow> None)
      | _ \<Rightarrow> None)"

definition readonly_apply ::
    "('r, 'w, 'v, 'resp) Dispatch \<Rightarrow> ('r, 'w, 'v, 'resp) UnboundedLog \<Rightarrow> ReqId \<Rightarrow>
     ('r, 'w, 'v, 'resp) UnboundedLog option" where
  "readonly_apply D s rid =
     (case ul_local_reads s rid of
        Some (ROReadyToRead op node_id vub) \<Rightarrow>
          (case (ul_combiner s node_id, ul_replicas s node_id) of
             (Some CReady, Some state) \<Rightarrow> Some (set_read s rid (RODone op node_id vub (dispatch_spec D state op)))
           | _ \<Rightarrow> None)
      | _ \<Rightarrow> None)"

definition readonly_view_oob ::
    "('r, 'w, 'v, 'resp) UnboundedLog \<Rightarrow> NodeId \<Rightarrow> 'v \<Rightarrow> ('r, 'w, 'v, 'resp) UnboundedLog option" where
  "readonly_view_oob s replica res =
     (if replica < ul_num_replicas s \<and> res = the (ul_replicas s replica) then Some s else None)"

definition update_place_ops_in_log_one ::
    "('r, 'w, 'v, 'resp) UnboundedLog \<Rightarrow> NodeId \<Rightarrow> ReqId \<Rightarrow> ('r, 'w, 'v, 'resp) UnboundedLog option" where
  "update_place_ops_in_log_one s node_id rid =
     (case (ul_combiner s node_id, ul_local_updates s rid) of
        (Some (CPlaced queue), Some (UInit op)) \<Rightarrow>
          Some (s\<lparr>ul_tail := ul_tail s + 1,
                  ul_log := (ul_log s)(ul_tail s \<mapsto> \<lparr>le_op = op, le_node_id = node_id\<rparr>),
                  ul_local_updates := (ul_local_updates s)(rid \<mapsto> UPlaced op (ul_tail s)),
                  ul_combiner := (ul_combiner s)(node_id \<mapsto> CPlaced (queue @ [rid]))\<rparr>)
      | _ \<Rightarrow> None)"

definition update_done ::
    "('r, 'w, 'v, 'resp) UnboundedLog \<Rightarrow> ReqId \<Rightarrow> ('r, 'w, 'v, 'resp) UnboundedLog option" where
  "update_done s rid =
     (case ul_local_updates s rid of
        Some (UApplied ret idx) \<Rightarrow>
          if ul_version_upper_bound s > idx
          then Some (s\<lparr>ul_local_updates := (ul_local_updates s)(rid \<mapsto> UDone ret idx)\<rparr>) else None
      | _ \<Rightarrow> None)"

definition exec_trivial_start ::
    "('r, 'w, 'v, 'resp) UnboundedLog \<Rightarrow> NodeId \<Rightarrow> ('r, 'w, 'v, 'resp) UnboundedLog option" where
  "exec_trivial_start s node_id =
     (case ul_combiner s node_id of
        Some CReady \<Rightarrow> Some (set_combiner s node_id (CPlaced [])) | _ \<Rightarrow> None)"

definition exec_load_local_version ::
    "('r, 'w, 'v, 'resp) UnboundedLog \<Rightarrow> NodeId \<Rightarrow> ('r, 'w, 'v, 'resp) UnboundedLog option" where
  "exec_load_local_version s node_id =
     (case (ul_combiner s node_id, ul_local_versions s node_id) of
        (Some (CPlaced queue), Some lversion) \<Rightarrow> Some (set_combiner s node_id (CLoadedLocalVersion queue lversion))
      | _ \<Rightarrow> None)"

definition exec_load_global_head ::
    "('r, 'w, 'v, 'resp) UnboundedLog \<Rightarrow> NodeId \<Rightarrow> ('r, 'w, 'v, 'resp) UnboundedLog option" where
  "exec_load_global_head s node_id =
     (case ul_combiner s node_id of
        Some (CLoadedLocalVersion queue lversion) \<Rightarrow>
          Some (set_combiner s node_id (CLoop queue lversion 0 (ul_tail s)))
      | _ \<Rightarrow> None)"

definition exec_dispatch_local ::
    "('r, 'w, 'v, 'resp) Dispatch \<Rightarrow> ('r, 'w, 'v, 'resp) UnboundedLog \<Rightarrow> NodeId \<Rightarrow>
     ('r, 'w, 'v, 'resp) UnboundedLog option" where
  "exec_dispatch_local D s node_id =
     (case (ul_combiner s node_id, ul_replicas s node_id) of
        (Some (CLoop queue lversion idx tail), Some old_nr_state) \<Rightarrow>
          (let rid = queue ! idx in
           case (ul_local_updates s rid, ul_log s lversion) of
             (Some local_update, Some log_entry) \<Rightarrow>
               if lversion < tail \<and> le_node_id log_entry = node_id then
                 (let (new_nr_state, ret) = dispatch_mut_spec D old_nr_state (le_op log_entry) in
                  Some (s\<lparr>ul_local_updates := (ul_local_updates s)(rid \<mapsto> UApplied ret lversion),
                          ul_replicas := (ul_replicas s)(node_id \<mapsto> new_nr_state),
                          ul_combiner := (ul_combiner s)(node_id \<mapsto> CLoop queue (lversion + 1) (idx + 1) tail)\<rparr>))
               else None
           | _ \<Rightarrow> None)
      | _ \<Rightarrow> None)"

definition exec_dispatch_remote ::
    "('r, 'w, 'v, 'resp) Dispatch \<Rightarrow> ('r, 'w, 'v, 'resp) UnboundedLog \<Rightarrow> NodeId \<Rightarrow>
     ('r, 'w, 'v, 'resp) UnboundedLog option" where
  "exec_dispatch_remote D s node_id =
     (case (ul_combiner s node_id, ul_replicas s node_id) of
        (Some (CLoop queue lversion idx tail), Some old_nr_state) \<Rightarrow>
          (case ul_log s lversion of
             Some log_entry \<Rightarrow>
               if lversion < tail \<and> le_node_id log_entry \<noteq> node_id then
                 Some (s\<lparr>ul_replicas := (ul_replicas s)(node_id \<mapsto> fst (dispatch_mut_spec D old_nr_state (le_op log_entry))),
                         ul_combiner := (ul_combiner s)(node_id \<mapsto> CLoop queue (lversion + 1) idx tail)\<rparr>)
               else None
           | None \<Rightarrow> None)
      | _ \<Rightarrow> None)"

definition exec_update_version_upper_bound ::
    "('r, 'w, 'v, 'resp) UnboundedLog \<Rightarrow> NodeId \<Rightarrow> ('r, 'w, 'v, 'resp) UnboundedLog option" where
  "exec_update_version_upper_bound s node_id =
     (case ul_combiner s node_id of
        Some (CLoop queue lversion idx tail) \<Rightarrow>
          if lversion = tail then
            Some (s\<lparr>ul_version_upper_bound :=
                      (if ul_version_upper_bound s \<ge> tail then ul_version_upper_bound s else tail),
                    ul_combiner := (ul_combiner s)(node_id \<mapsto> CUpdatedVersion queue tail)\<rparr>)
          else None
      | _ \<Rightarrow> None)"

definition exec_finish ::
    "('r, 'w, 'v, 'resp) UnboundedLog \<Rightarrow> NodeId \<Rightarrow> ('r, 'w, 'v, 'resp) UnboundedLog option" where
  "exec_finish s node_id =
     (case (ul_combiner s node_id, ul_local_versions s node_id) of
        (Some (CUpdatedVersion queue tail), Some old_local_head) \<Rightarrow>
          Some (s\<lparr>ul_local_versions := (ul_local_versions s)(node_id \<mapsto> tail),
                  ul_combiner := (ul_combiner s)(node_id \<mapsto> CReady)\<rparr>)
      | _ \<Rightarrow> None)"

definition exec_finish_no_change ::
    "('r, 'w, 'v, 'resp) UnboundedLog \<Rightarrow> NodeId \<Rightarrow> ('r, 'w, 'v, 'resp) UnboundedLog option" where
  "exec_finish_no_change s node_id =
     (case ul_combiner s node_id of
        Some (CLoadedLocalVersion queue lversion) \<Rightarrow>
          if lversion = ul_tail s then Some (set_combiner s node_id CReady) else None
      | _ \<Rightarrow> None)"

inductive ul_next ::
    "('r, 'w, 'v, 'resp) Dispatch \<Rightarrow> ('r, 'w, 'v, 'resp) UnboundedLog \<Rightarrow> ('r, 'w, 'v, 'resp) UnboundedLog \<Rightarrow> bool"
  for D where
  ul_next_readonly_version_upper_bound: "readonly_version_upper_bound s rid = Some s' \<Longrightarrow> ul_next D s s'"
| ul_next_readonly_ready_to_read: "readonly_ready_to_read s rid = Some s' \<Longrightarrow> ul_next D s s'"
| ul_next_readonly_apply: "readonly_apply D s rid = Some s' \<Longrightarrow> ul_next D s s'"
| ul_next_readonly_view_oob: "readonly_view_oob s n res = Some s' \<Longrightarrow> ul_next D s s'"
| ul_next_update_place_ops_in_log_one: "update_place_ops_in_log_one s n rid = Some s' \<Longrightarrow> ul_next D s s'"
| ul_next_update_done: "update_done s rid = Some s' \<Longrightarrow> ul_next D s s'"
| ul_next_exec_trivial_start: "exec_trivial_start s n = Some s' \<Longrightarrow> ul_next D s s'"
| ul_next_exec_load_local_version: "exec_load_local_version s n = Some s' \<Longrightarrow> ul_next D s s'"
| ul_next_exec_load_global_head: "exec_load_global_head s n = Some s' \<Longrightarrow> ul_next D s s'"
| ul_next_exec_dispatch_local: "exec_dispatch_local D s n = Some s' \<Longrightarrow> ul_next D s s'"
| ul_next_exec_dispatch_remote: "exec_dispatch_remote D s n = Some s' \<Longrightarrow> ul_next D s s'"
| ul_next_exec_update_version_upper_bound: "exec_update_version_upper_bound s n = Some s' \<Longrightarrow> ul_next D s s'"
| ul_next_exec_finish: "exec_finish s n = Some s' \<Longrightarrow> ul_next D s s'"
| ul_next_exec_finish_no_change: "exec_finish_no_change s n = Some s' \<Longrightarrow> ul_next D s s'"

section \<open>Requests entering and leaving\<close>

definition combiner_request_id_fresh :: "(NodeId \<rightharpoonup> ULCombiner) \<Rightarrow> ReqId \<Rightarrow> bool" where
  "combiner_request_id_fresh combiners rid \<longleftrightarrow>
     (\<forall>n\<in>dom combiners. rid \<notin> set (queued_ops (the (combiners n))))"

definition get_fresh_nat :: "ReqId set \<Rightarrow> (NodeId \<rightharpoonup> ULCombiner) \<Rightarrow> nat" where
  "get_fresh_nat reqs combiner = (SOME n. n \<notin> reqs \<and> combiner_request_id_fresh combiner n)"

definition get_fresh_rid :: "('r, 'w, 'v, 'resp) UnboundedLog \<Rightarrow> ReqId" where
  "get_fresh_rid s = get_fresh_nat (dom (ul_local_updates s) \<union> dom (ul_local_reads s)) (ul_combiner s)"

definition add_ticket ::
    "('r, 'w, 'v, 'resp) UnboundedLog \<Rightarrow> ('r, 'w, 'v, 'resp) UnboundedLog \<Rightarrow> ('r, 'w) InputOperation \<Rightarrow> ReqId \<Rightarrow> bool" where
  "add_ticket pre post input rid \<longleftrightarrow>
     rid \<notin> dom (ul_local_reads pre) \<and> rid \<notin> dom (ul_local_updates pre) \<and>
     (case input of
        InRead read_op node_id \<Rightarrow>
          post = pre\<lparr>ul_local_reads := (ul_local_reads pre)(rid \<mapsto> ROInit read_op node_id)\<rparr>
      | InWrite write_op \<Rightarrow>
          post = pre\<lparr>ul_local_updates := (ul_local_updates pre)(rid \<mapsto> UInit write_op)\<rparr>)"

definition consume_stub ::
    "('r, 'w, 'v, 'resp) UnboundedLog \<Rightarrow> ('r, 'w, 'v, 'resp) UnboundedLog \<Rightarrow> 'resp OutputOperation \<Rightarrow> ReqId \<Rightarrow> bool" where
  "consume_stub pre post output rid \<longleftrightarrow>
     (case output of
        OutRead response \<Rightarrow>
          (case ul_local_reads pre rid of
             Some (RODone op node_id vub ret) \<Rightarrow>
               ret = response \<and> post = pre\<lparr>ul_local_reads := (ul_local_reads pre)(rid := None)\<rparr>
           | _ \<Rightarrow> False)
      | OutWrite response \<Rightarrow>
          (case ul_local_updates pre rid of
             Some (UDone ret idx) \<Rightarrow>
               ret = response \<and> post = pre\<lparr>ul_local_updates := (ul_local_updates pre)(rid := None)\<rparr>
           | _ \<Rightarrow> False))"

text \<open>
  The machine with its environment: tickets enter with the identifier \<open>get_fresh_rid\<close>
  chooses, stubs leave, and every other step is internal.
\<close>

inductive ul_step ::
    "('r, 'w, 'v, 'resp) Dispatch \<Rightarrow> ('r, 'w, 'v, 'resp) UnboundedLog \<Rightarrow> ('r, 'w, 'resp) AsyncLabel \<Rightarrow>
     ('r, 'w, 'v, 'resp) UnboundedLog \<Rightarrow> bool" for D where
  ul_step_internal: "ul_next D s s' \<Longrightarrow> ul_step D s Internal s'"
| ul_step_start: "add_ticket s s' input (get_fresh_rid s) \<Longrightarrow> ul_step D s (LStart (get_fresh_rid s) input) s'"
| ul_step_end: "consume_stub s s' output rid \<Longrightarrow> ul_step D s (LEnd rid output) s'"

inductive ul_behavior ::
    "('r, 'w, 'v, 'resp) Dispatch \<Rightarrow> nat \<Rightarrow> ('r, 'w, 'resp) AsyncLabel list \<Rightarrow> ('r, 'w, 'v, 'resp) UnboundedLog \<Rightarrow> bool"
  for D n where
  ul_behavior_init: "n > 0 \<Longrightarrow> ul_behavior D n [] (ul_initialize D n)"
| ul_behavior_step: "ul_behavior D n ls s \<Longrightarrow> ul_step D s l s' \<Longrightarrow> ul_behavior D n (ls @ [l]) s'"

end
