(* ===== verification/NR_Exec_Log.thy ===== *)
theory NR_Exec_Log
  imports NR_Cyclic_Buffer NR_Unbounded_Log
begin

text \<open>
  The code of the shared log (\<^verbatim>\<open>exec/log.rs\<close>) and the part of a replica's combiner that
  drives it (\<^verbatim>\<open>exec/replica.rs\<close>). Every replica has one combiner; combiners and clients
  interleave at every access to shared memory: an atomic operation, or a read or a write of a
  log cell. A step returns \<open>None\<close> where the code would panic: an index out of range, an
  unwrapped \<open>None\<close>, an addition that overflows.

  The counters that only decide when a starvation warning is printed are left out.
\<close>

section \<open>Constants and checked arithmetic\<close>

definition MAX_REPLICAS :: nat where "MAX_REPLICAS = 16"

definition MAX_THREADS_PER_REPLICA :: nat where "MAX_THREADS_PER_REPLICA = 64"

definition MAX_PENDING_OPS :: nat where "MAX_PENDING_OPS = 1"

definition MAX_REQUESTS :: nat where "MAX_REQUESTS = MAX_THREADS_PER_REPLICA * MAX_PENDING_OPS"

definition GC_FROM_HEAD :: nat where "GC_FROM_HEAD = MAX_PENDING_OPS * MAX_THREADS_PER_REPLICA"

definition MAX_IDX :: "64 word" where "MAX_IDX = 0xfffffffff0000000"

definition u64_add :: "64 word \<Rightarrow> 64 word \<Rightarrow> 64 word option" where
  "u64_add a b = (if unat a + unat b < 2 ^ 64 then Some (a + b) else None)"

definition nth_opt :: "'a list \<Rightarrow> nat \<Rightarrow> 'a option" where
  "nth_opt xs i = (if i < length xs then Some (xs ! i) else None)"

section \<open>The shared log\<close>

record 'w BufferEntry =
  be_log_entry :: "'w ConcreteLogEntry option"
  be_alive :: bool

record 'w NrLog =
  nl_slog :: "'w BufferEntry list"
  nl_version_upper_bound :: "64 word"
  nl_head :: "64 word"
  nl_tail :: "64 word"
  nl_local_versions :: "64 word list"

definition nrlog_new :: "nat \<Rightarrow> nat \<Rightarrow> 'w NrLog" where
  "nrlog_new num_replicas log_size =
     \<lparr>nl_slog = replicate log_size \<lparr>be_log_entry = None, be_alive = False\<rparr>,
      nl_version_upper_bound = 0, nl_head = 0, nl_tail = 0, nl_local_versions = replicate num_replicas 0\<rparr>"

definition log_index :: "'w NrLog \<Rightarrow> 64 word \<Rightarrow> nat" where
  "log_index l logical = unat logical mod length (nl_slog l)"

definition is_alive_value :: "64 word \<Rightarrow> bool" where
  "is_alive_value logical \<longleftrightarrow> unat logical div LOG_SIZE mod 2 = 0"

text \<open>The number of entries that may be in use before the log is collected.\<close>

definition gc_threshold :: "'w NrLog \<Rightarrow> 64 word" where
  "gc_threshold l = of_nat (length (nl_slog l)) - of_nat GC_FROM_HEAD"

section \<open>The combiner of a replica\<close>

text \<open>\<open>execute\<close> is called from three places.\<close>

datatype ExecCaller = FromAppend | FromAdvanceHead | FromCombine

text \<open>
  The program points of a combiner, named after the function they belong to (\<open>A\<close>: append,
  \<open>H\<close>: advance\_head and find\_min\_local\_version, \<open>E\<close>: execute, \<open>N\<close>: the round of the
  combiner around them), with the local variables that are live there.

    \<^item> \<open>ALoadTail\<close>, \<open>ALoadHead tail\<close>, \<open>ACas tail new_tail advance\<close>,
      \<open>AWrite tail idx advance\<close> (writes the cell), \<open>AFlip tail idx advance\<close> (stores the
      alive bit), \<open>APanic\<close> (the tail is too big);
    \<^item> \<open>HLoadHead\<close>, \<open>HLoadTail head\<close>, \<open>HMinFirst head tail\<close>,
      \<open>HMinNext idx min head tail\<close>, \<open>HStore min tail\<close>;
    \<^item> \<open>ELoadLocal caller\<close>, \<open>ELoadTail caller local_version\<close>,
      \<open>EAlive caller local_version global_tail\<close> (loads the alive bit),
      \<open>ERead caller local_version global_tail\<close> (reads the cell and applies the operation),
      \<open>EPublish caller global_tail\<close>, \<open>EStore caller global_tail\<close>;
    \<^item> \<open>NIdle\<close>, \<open>NCollect\<close>, \<open>NRelease\<close> (the data is written and the lock on it about to be
      released), \<open>NRespond i\<close> (delivering response \<open>i\<close>).
\<close>

datatype NodePc =
    NIdle | NCollect | NRelease | NRespond nat
  | ALoadTail | ALoadHead "64 word" | ACas "64 word" "64 word" bool
  | AWrite "64 word" nat bool | AFlip "64 word" nat bool | APanic
  | HLoadHead | HLoadTail "64 word" | HMinFirst "64 word" "64 word"
  | HMinNext nat "64 word" "64 word" "64 word" | HStore "64 word" "64 word"
  | ELoadLocal ExecCaller | ELoadTail ExecCaller "64 word" | EAlive ExecCaller "64 word" "64 word"
  | ERead ExecCaller "64 word" "64 word" | EPublish ExecCaller "64 word" | EStore ExecCaller "64 word"

text \<open>
  A combiner with its buffers, the replica of the data structure, and the request identifiers,
  which are ghost state in the source.
\<close>

record ('w, 'v, 'resp) Node =
  np_pc :: NodePc
  np_ops :: "'w list"
  np_rids :: "ReqId list"
  np_responses :: "'resp list"
  np_data :: 'v

abbreviation goto where
  "goto p pc \<equiv> p\<lparr>np_pc := pc\<rparr>"

text \<open>Where control goes at the end of a loop and at a return.\<close>

definition execute_return :: "ExecCaller \<Rightarrow> NodePc" where
  "execute_return k = (case k of FromAppend \<Rightarrow> ALoadTail | FromAdvanceHead \<Rightarrow> HLoadHead | FromCombine \<Rightarrow> NRelease)"

definition execute_loop :: "ExecCaller \<Rightarrow> 64 word \<Rightarrow> 64 word \<Rightarrow> NodePc" where
  "execute_loop k local_version global_tail =
     (if local_version < global_tail then EAlive k local_version global_tail else EPublish k global_tail)"

definition append_loop :: "nat \<Rightarrow> 64 word \<Rightarrow> nat \<Rightarrow> bool \<Rightarrow> NodePc" where
  "append_loop nops t idx advance =
     (if idx < nops then AWrite t idx advance else if advance then HLoadHead else ELoadLocal FromCombine)"

definition min_loop :: "nat \<Rightarrow> nat \<Rightarrow> 64 word \<Rightarrow> 64 word \<Rightarrow> 64 word \<Rightarrow> NodePc" where
  "min_loop num_replicas idx m global_head global_tail =
     (if idx < num_replicas then HMinNext idx m global_head global_tail
      else if m = global_head then ELoadLocal FromAdvanceHead else HStore m global_tail)"

section \<open>Appending\<close>

definition entry_of :: "'w \<Rightarrow> NodeId \<Rightarrow> 'w ConcreteLogEntry" where
  "entry_of op nid = \<lparr>cle_op = op, cle_node_id = of_nat nid\<rparr>"

text \<open>\<open>weak\<close> tells whether the weak compare-and-exchange may succeed this time.\<close>

definition append_step ::
    "NodeId \<Rightarrow> bool \<Rightarrow> 'w NrLog \<Rightarrow> ('w, 'v, 'resp) Node \<Rightarrow> ('w NrLog \<times> ('w, 'v, 'resp) Node) option" where
  "append_step nid weak l p =
     (case np_pc p of
        ALoadTail \<Rightarrow> Some (l, goto p (ALoadHead (nl_tail l)))
      | ALoadHead t \<Rightarrow>
          (case u64_add (nl_head l) (gc_threshold l) of
             None \<Rightarrow> None
           | Some limit \<Rightarrow>
               if limit < t then Some (l, goto p (ELoadLocal FromAppend))
               else (case u64_add t (of_nat (length (np_ops p))) of
                       None \<Rightarrow> None
                     | Some new_tail \<Rightarrow>
                         Some (l, goto p (if MAX_IDX \<le> new_tail then APanic else ACas t new_tail (limit < new_tail)))))
      | ACas t new_tail advance \<Rightarrow>
          if nl_tail l = t \<and> weak
          then Some (l\<lparr>nl_tail := new_tail\<rparr>, goto p (append_loop (length (np_ops p)) t 0 advance))
          else Some (l, goto p ALoadTail)
      | AWrite t idx advance \<Rightarrow>
          (case (u64_add t (of_nat idx), nth_opt (np_ops p) idx) of
             (Some logical, Some op) \<Rightarrow>
               (case nth_opt (nl_slog l) (log_index l logical) of
                  Some e \<Rightarrow>
                    Some (l\<lparr>nl_slog := (nl_slog l)[log_index l logical := e\<lparr>be_log_entry := Some (entry_of op nid)\<rparr>]\<rparr>,
                          goto p (AFlip t idx advance))
                | None \<Rightarrow> None)
           | _ \<Rightarrow> None)
      | AFlip t idx advance \<Rightarrow>
          (case u64_add t (of_nat idx) of
             Some logical \<Rightarrow>
               (case nth_opt (nl_slog l) (log_index l logical) of
                  Some e \<Rightarrow>
                    Some (l\<lparr>nl_slog := (nl_slog l)[log_index l logical := e\<lparr>be_alive := is_alive_value logical\<rparr>]\<rparr>,
                          goto p (append_loop (length (np_ops p)) t (idx + 1) advance))
                | None \<Rightarrow> None)
           | None \<Rightarrow> None)
      | _ \<Rightarrow> None)"

section \<open>Advancing the head\<close>

definition find_min_local_version_step ::
    "'w NrLog \<Rightarrow> ('w, 'v, 'resp) Node \<Rightarrow> ('w NrLog \<times> ('w, 'v, 'resp) Node) option" where
  "find_min_local_version_step l p =
     (case np_pc p of
        HMinFirst global_head global_tail \<Rightarrow>
          (case nth_opt (nl_local_versions l) 0 of
             Some m \<Rightarrow> Some (l, goto p (min_loop (length (nl_local_versions l)) 1 m global_head global_tail))
           | None \<Rightarrow> None)
      | HMinNext idx m global_head global_tail \<Rightarrow>
          (case nth_opt (nl_local_versions l) idx of
             Some cur_local_tail \<Rightarrow>
               Some (l, goto p (min_loop (length (nl_local_versions l)) (idx + 1)
                 (if cur_local_tail < m then cur_local_tail else m) global_head global_tail))
           | None \<Rightarrow> None)
      | _ \<Rightarrow> None)"

definition advance_head_step ::
    "'w NrLog \<Rightarrow> ('w, 'v, 'resp) Node \<Rightarrow> ('w NrLog \<times> ('w, 'v, 'resp) Node) option" where
  "advance_head_step l p =
     (case np_pc p of
        HLoadHead \<Rightarrow> Some (l, goto p (HLoadTail (nl_head l)))
      | HLoadTail global_head \<Rightarrow> Some (l, goto p (HMinFirst global_head (nl_tail l)))
      | HStore m global_tail \<Rightarrow>
          (case u64_add m (of_nat (length (nl_slog l))) of
             Some limit \<Rightarrow>
               Some (l\<lparr>nl_head := m\<rparr>,
                     goto p (if global_tail < limit - of_nat GC_FROM_HEAD
                             then ELoadLocal FromCombine else ELoadLocal FromAdvanceHead))
           | None \<Rightarrow> None)
      | _ \<Rightarrow> None)"

section \<open>Executing\<close>

definition execute_step ::
    "('r, 'w, 'v, 'resp) Dispatch \<Rightarrow> NodeId \<Rightarrow> 'w NrLog \<Rightarrow> ('w, 'v, 'resp) Node \<Rightarrow>
     ('w NrLog \<times> ('w, 'v, 'resp) Node) option" where
  "execute_step D nid l p =
     (case np_pc p of
        ELoadLocal k \<Rightarrow>
          (case nth_opt (nl_local_versions l) nid of
             Some local_version \<Rightarrow> Some (l, goto p (ELoadTail k local_version))
           | None \<Rightarrow> None)
      | ELoadTail k local_version \<Rightarrow>
          Some (l, goto p (if local_version = nl_tail l then execute_return k
                           else execute_loop k local_version (nl_tail l)))
      | EAlive k local_version global_tail \<Rightarrow>
          (case nth_opt (nl_slog l) (log_index l local_version) of
             Some e \<Rightarrow>
               Some (l, if be_alive e = is_alive_value local_version
                        then goto p (ERead k local_version global_tail) else p)
           | None \<Rightarrow> None)
      | ERead k local_version global_tail \<Rightarrow>
          (case nth_opt (nl_slog l) (log_index l local_version) of
             Some e \<Rightarrow>
               (case (be_log_entry e, u64_add local_version 1) of
                  (Some entry, Some next_version) \<Rightarrow>
                    (let (data, res) = dispatch_mut_spec D (np_data p) (cle_op entry) in
                     Some (l, p\<lparr>np_data := data,
                                np_responses := (if cle_node_id entry = of_nat nid then np_responses p @ [res]
                                                 else np_responses p),
                                np_pc := execute_loop k next_version global_tail\<rparr>))
                | _ \<Rightarrow> None)
           | None \<Rightarrow> None)
      | EPublish k global_tail \<Rightarrow>
          Some (l\<lparr>nl_version_upper_bound := max (nl_version_upper_bound l) global_tail\<rparr>, goto p (EStore k global_tail))
      | EStore k global_tail \<Rightarrow>
          if nid < length (nl_local_versions l)
          then Some (l\<lparr>nl_local_versions := (nl_local_versions l)[nid := global_tail]\<rparr>, goto p (execute_return k))
          else None
      | _ \<Rightarrow> None)"

text \<open>The step of a combiner that is inside \<open>append\<close> or \<open>execute\<close>.\<close>

fun pc_in_append :: "NodePc \<Rightarrow> bool" where
  "pc_in_append ALoadTail = True"
| "pc_in_append (ALoadHead _) = True"
| "pc_in_append (ACas _ _ _) = True"
| "pc_in_append (AWrite _ _ _) = True"
| "pc_in_append (AFlip _ _ _) = True"
| "pc_in_append _ = False"

fun pc_in_find_min :: "NodePc \<Rightarrow> bool" where
  "pc_in_find_min (HMinFirst _ _) = True"
| "pc_in_find_min (HMinNext _ _ _ _) = True"
| "pc_in_find_min _ = False"

fun pc_in_advance_head :: "NodePc \<Rightarrow> bool" where
  "pc_in_advance_head HLoadHead = True"
| "pc_in_advance_head (HLoadTail _) = True"
| "pc_in_advance_head (HStore _ _) = True"
| "pc_in_advance_head _ = False"

fun pc_in_execute :: "NodePc \<Rightarrow> bool" where
  "pc_in_execute (ELoadLocal _) = True"
| "pc_in_execute (ELoadTail _ _) = True"
| "pc_in_execute (EAlive _ _ _) = True"
| "pc_in_execute (ERead _ _ _) = True"
| "pc_in_execute (EPublish _ _) = True"
| "pc_in_execute (EStore _ _) = True"
| "pc_in_execute _ = False"

definition pc_in_log :: "NodePc \<Rightarrow> bool" where
  "pc_in_log pc \<longleftrightarrow> pc_in_append pc \<or> pc_in_find_min pc \<or> pc_in_advance_head pc \<or> pc_in_execute pc"

definition node_step ::
    "('r, 'w, 'v, 'resp) Dispatch \<Rightarrow> NodeId \<Rightarrow> bool \<Rightarrow> 'w NrLog \<Rightarrow> ('w, 'v, 'resp) Node \<Rightarrow>
     ('w NrLog \<times> ('w, 'v, 'resp) Node) option" where
  "node_step D nid weak l p =
     (if pc_in_append (np_pc p) then append_step nid weak l p
      else if pc_in_find_min (np_pc p) then find_min_local_version_step l p
      else if pc_in_advance_head (np_pc p) then advance_head_step l p
      else if pc_in_execute (np_pc p) then execute_step D nid l p
      else None)"

section \<open>The system: clients, combiners and the log\<close>

text \<open>
  An update waits until a combiner collects it, and is answered when the combiner delivers its
  response. A read takes the version it must see, waits until the replica has reached it, and
  reads the replica while no combiner holds the lock on it.
\<close>

datatype ('w, 'resp) UpdateReq = UpPending 'w | UpTaken NodeId nat | UpDone 'resp

datatype ('r, 'resp) ReadStage = RdInit 'r NodeId | RdVersion 'r NodeId "64 word" | RdReady 'r NodeId | RdDone 'resp

record ('r, 'w, 'v, 'resp) NrSystem =
  ns_log :: "'w NrLog"
  ns_nodes :: "('w, 'v, 'resp) Node list"
  ns_updates :: "ReqId \<rightharpoonup> ('w, 'resp) UpdateReq"
  ns_reads :: "ReqId \<rightharpoonup> ('r, 'resp) ReadStage"

definition node_new :: "('r, 'w, 'v, 'resp) Dispatch \<Rightarrow> ('w, 'v, 'resp) Node" where
  "node_new D = \<lparr>np_pc = NIdle, np_ops = [], np_rids = [], np_responses = [], np_data = init_spec D\<rparr>"

definition system_new :: "('r, 'w, 'v, 'resp) Dispatch \<Rightarrow> nat \<Rightarrow> ('r, 'w, 'v, 'resp) NrSystem" where
  "system_new D num_replicas =
     \<lparr>ns_log = nrlog_new num_replicas LOG_SIZE, ns_nodes = replicate num_replicas (node_new D),
      ns_updates = Map.empty, ns_reads = Map.empty\<rparr>"

text \<open>The points at which the combiner holds the write lock on the replica's data.\<close>

definition holds_data_lock :: "NodePc \<Rightarrow> bool" where
  "holds_data_lock pc \<longleftrightarrow> (case pc of NIdle \<Rightarrow> False | NCollect \<Rightarrow> False | NRespond _ \<Rightarrow> False | _ \<Rightarrow> True)"

definition get_version_upper_bound :: "'w NrLog \<Rightarrow> 64 word" where
  "get_version_upper_bound l = nl_version_upper_bound l"

definition is_replica_synced_for_reads :: "'w NrLog \<Rightarrow> NodeId \<Rightarrow> 64 word \<Rightarrow> bool option" where
  "is_replica_synced_for_reads l node_id version_upper_bound =
     map_option (\<lambda>local_version. version_upper_bound \<le> local_version) (nth_opt (nl_local_versions l) node_id)"

definition read_version :: "'w NrLog \<Rightarrow> ('r, 'resp) ReadStage \<Rightarrow> ('r, 'resp) ReadStage option" where
  "read_version l r =
     (case r of RdInit op n \<Rightarrow> Some (RdVersion op n (get_version_upper_bound l)) | _ \<Rightarrow> None)"

definition read_sync :: "'w NrLog \<Rightarrow> ('r, 'resp) ReadStage \<Rightarrow> ('r, 'resp) ReadStage option" where
  "read_sync l r =
     (case r of
        RdVersion op n v \<Rightarrow>
          map_option (\<lambda>is_synced. if is_synced then RdReady op n else r) (is_replica_synced_for_reads l n v)
      | _ \<Rightarrow> None)"

definition read_replica ::
    "('r, 'w, 'v, 'resp) Dispatch \<Rightarrow> ('w, 'v, 'resp) Node list \<Rightarrow> ('r, 'resp) ReadStage \<Rightarrow> ('r, 'resp) ReadStage option" where
  "read_replica D nodes r =
     (case r of
        RdReady op n \<Rightarrow>
          if n < length nodes \<and> \<not> holds_data_lock (np_pc (nodes ! n))
          then Some (RdDone (dispatch_spec D (np_data (nodes ! n)) op)) else None
      | _ \<Rightarrow> None)"

abbreviation set_node where
  "set_node s n p \<equiv> s\<lparr>ns_nodes := (ns_nodes s)[n := p]\<rparr>"

text \<open>The steps of the combiner around the log: collect, lock, unlock, deliver.\<close>

definition combine_begin :: "('w, 'v, 'resp) Node \<Rightarrow> ('w, 'v, 'resp) Node option" where
  "combine_begin p = (case np_pc p of NIdle \<Rightarrow> Some (goto p NCollect) | _ \<Rightarrow> None)"

definition combine_collect :: "ReqId \<Rightarrow> 'w \<Rightarrow> ('w, 'v, 'resp) Node \<Rightarrow> ('w, 'v, 'resp) Node option" where
  "combine_collect rid op p =
     (case np_pc p of
        NCollect \<Rightarrow>
          if length (np_ops p) < MAX_REQUESTS
          then Some (p\<lparr>np_ops := np_ops p @ [op], np_rids := np_rids p @ [rid]\<rparr>) else None
      | _ \<Rightarrow> None)"

definition combine_lock :: "('w, 'v, 'resp) Node \<Rightarrow> ('w, 'v, 'resp) Node option" where
  "combine_lock p = (case np_pc p of NCollect \<Rightarrow> Some (goto p ALoadTail) | _ \<Rightarrow> None)"

definition combine_unlock :: "('w, 'v, 'resp) Node \<Rightarrow> ('w, 'v, 'resp) Node option" where
  "combine_unlock p = (case np_pc p of NRelease \<Rightarrow> Some (goto p (NRespond 0)) | _ \<Rightarrow> None)"

text \<open>The response delivered next, and the combiner after it.\<close>

definition combine_respond :: "('w, 'v, 'resp) Node \<Rightarrow> (ReqId \<times> 'resp \<times> ('w, 'v, 'resp) Node) option" where
  "combine_respond p =
     (case np_pc p of
        NRespond i \<Rightarrow>
          (case (nth_opt (np_rids p) i, nth_opt (np_responses p) i) of
             (Some rid, Some resp) \<Rightarrow> Some (rid, resp, goto p (NRespond (i + 1)))
           | _ \<Rightarrow> None)
      | _ \<Rightarrow> None)"

definition combine_end :: "('w, 'v, 'resp) Node \<Rightarrow> ('w, 'v, 'resp) Node option" where
  "combine_end p =
     (case np_pc p of
        NRespond i \<Rightarrow>
          if i < length (np_rids p) then None
          else Some (p\<lparr>np_pc := NIdle, np_ops := [], np_rids := [], np_responses := []\<rparr>)
      | _ \<Rightarrow> None)"

definition fresh_rid :: "('r, 'w, 'v, 'resp) NrSystem \<Rightarrow> ReqId" where
  "fresh_rid s = get_fresh_nat (dom (ns_updates s) \<union> dom (ns_reads s)) Map.empty"

inductive system_step ::
    "('r, 'w, 'v, 'resp) Dispatch \<Rightarrow> ('r, 'w, 'v, 'resp) NrSystem \<Rightarrow> ('r, 'w, 'resp) AsyncLabel \<Rightarrow>
     ('r, 'w, 'v, 'resp) NrSystem \<Rightarrow> bool" for D where
  sys_update_start: "rid = fresh_rid s \<Longrightarrow>
    system_step D s (LStart rid (InWrite op)) (s\<lparr>ns_updates := (ns_updates s)(rid \<mapsto> UpPending op)\<rparr>)"
| sys_read_start: "rid = fresh_rid s \<Longrightarrow> n < length (ns_nodes s) \<Longrightarrow>
    system_step D s (LStart rid (InRead rop n)) (s\<lparr>ns_reads := (ns_reads s)(rid \<mapsto> RdInit rop n)\<rparr>)"
| sys_combine_begin: "n < length (ns_nodes s) \<Longrightarrow> combine_begin (ns_nodes s ! n) = Some p \<Longrightarrow>
    system_step D s Internal (set_node s n p)"
| sys_combine_collect: "n < length (ns_nodes s) \<Longrightarrow> ns_updates s rid = Some (UpPending op) \<Longrightarrow>
    combine_collect rid op (ns_nodes s ! n) = Some p \<Longrightarrow>
    system_step D s Internal ((set_node s n p)\<lparr>ns_updates := (ns_updates s)
      (rid \<mapsto> UpTaken n (length (np_rids (ns_nodes s ! n))))\<rparr>)"
| sys_combine_lock: "n < length (ns_nodes s) \<Longrightarrow> combine_lock (ns_nodes s ! n) = Some p \<Longrightarrow>
    system_step D s Internal (set_node s n p)"
| sys_node: "n < length (ns_nodes s) \<Longrightarrow> node_step D n weak (ns_log s) (ns_nodes s ! n) = Some (l, p) \<Longrightarrow>
    system_step D s Internal ((set_node s n p)\<lparr>ns_log := l\<rparr>)"
| sys_combine_unlock: "n < length (ns_nodes s) \<Longrightarrow> combine_unlock (ns_nodes s ! n) = Some p \<Longrightarrow>
    system_step D s Internal (set_node s n p)"
| sys_combine_respond: "n < length (ns_nodes s) \<Longrightarrow> combine_respond (ns_nodes s ! n) = Some (rid, resp, p) \<Longrightarrow>
    system_step D s Internal ((set_node s n p)\<lparr>ns_updates := (ns_updates s)(rid \<mapsto> UpDone resp)\<rparr>)"
| sys_combine_end: "n < length (ns_nodes s) \<Longrightarrow> combine_end (ns_nodes s ! n) = Some p \<Longrightarrow>
    system_step D s Internal (set_node s n p)"
| sys_update_end: "ns_updates s rid = Some (UpDone resp) \<Longrightarrow>
    system_step D s (LEnd rid (OutWrite resp)) (s\<lparr>ns_updates := (ns_updates s)(rid := None)\<rparr>)"
| sys_read_version: "ns_reads s rid = Some r \<Longrightarrow> read_version (ns_log s) r = Some r' \<Longrightarrow>
    system_step D s Internal (s\<lparr>ns_reads := (ns_reads s)(rid \<mapsto> r')\<rparr>)"
| sys_read_sync: "ns_reads s rid = Some r \<Longrightarrow> read_sync (ns_log s) r = Some r' \<Longrightarrow>
    system_step D s Internal (s\<lparr>ns_reads := (ns_reads s)(rid \<mapsto> r')\<rparr>)"
| sys_read_apply: "ns_reads s rid = Some r \<Longrightarrow> read_replica D (ns_nodes s) r = Some r' \<Longrightarrow>
    system_step D s Internal (s\<lparr>ns_reads := (ns_reads s)(rid \<mapsto> r')\<rparr>)"
| sys_read_end: "ns_reads s rid = Some (RdDone resp) \<Longrightarrow>
    system_step D s (LEnd rid (OutRead resp)) (s\<lparr>ns_reads := (ns_reads s)(rid := None)\<rparr>)"

inductive system_behavior ::
    "('r, 'w, 'v, 'resp) Dispatch \<Rightarrow> nat \<Rightarrow> ('r, 'w, 'resp) AsyncLabel list \<Rightarrow> ('r, 'w, 'v, 'resp) NrSystem \<Rightarrow> bool"
  for D N where
  system_behavior_new: "0 < N \<Longrightarrow> N \<le> MAX_REPLICAS \<Longrightarrow> system_behavior D N [] (system_new D N)"
| system_behavior_step: "system_behavior D N ls s \<Longrightarrow> system_step D s l s' \<Longrightarrow> system_behavior D N (ls @ [l]) s'"

end
