(* ===== verification/NR_Cyclic_Inv.thy ===== *)
theory NR_Cyclic_Inv
  imports NR_Cyclic_Buffer
begin

text \<open>
  The invariant of the cyclic buffer is inductive, and the buffer never takes away or
  overwrites an entry a reader holds.
\<close>

section \<open>The invariant, by node\<close>

abbreviation cb_lv where
  "cb_lv s n \<equiv> the (cb_local_versions s n)"

fun node_valid :: "'w CyclicBuffer \<Rightarrow> NodeId \<Rightarrow> 'w CBCombiner \<Rightarrow> bool" where
  "node_valid s n (CBReading rs) = reader_state_valid s n rs"
| "node_valid s n c = cb_combiner_valid s n c"

lemma node_valid_iff:
  "node_valid s n c \<longleftrightarrow> (case c of CBReading rs \<Rightarrow> reader_state_valid s n rs | _ \<Rightarrow> True) \<and> cb_combiner_valid s n c"
  by (cases c) auto

lemma min_version_iff:
  assumes "0 < cb_num_replicas s"
  shows "i < int (cb_min_version s) + k \<longleftrightarrow> (\<forall>n<cb_num_replicas s. i < int (cb_lv s n) + k)"
proof
  assume i: "i < int (cb_min_version s) + k"
  show "\<forall>n<cb_num_replicas s. i < int (cb_lv s n) + k"
  proof (intro allI impI)
    fix n assume "n < cb_num_replicas s"
    then have "cb_min_version s \<le> cb_lv s n" by (intro map_min_value_le) simp
    then show "i < int (cb_lv s n) + k" using i by linarith
  qed
next
  assume i: "\<forall>n<cb_num_replicas s. i < int (cb_lv s n) + k"
  obtain n where "n \<le> cb_num_replicas s - 1" "cb_min_version s = cb_lv s n"
    using map_min_value_witness [of "cb_num_replicas s - 1" "cb_local_versions s"] by blast
  then show "i < int (cb_min_version s) + k" using i assms by simp
qed

text \<open>An index every replica has passed.\<close>

definition passed :: "'w CyclicBuffer \<Rightarrow> int \<Rightarrow> bool" where
  "passed s i \<longleftrightarrow> (\<forall>n<cb_num_replicas s. i < int (cb_lv s n))"

lemma passed_round:
  "passed s (i - int (cb_buffer_size s)) \<longleftrightarrow> (\<forall>n<cb_num_replicas s. i < int (cb_lv s n) + int (cb_buffer_size s))"
  by (auto simp: passed_def diff_less_eq)

definition cb_ok :: "'w CyclicBuffer \<Rightarrow> bool" where
  "cb_ok s \<longleftrightarrow>
     0 < cb_num_replicas s \<and> cb_buffer_size s = LOG_SIZE \<and> length (cb_cell_ids s) = cb_buffer_size s \<and>
     dom (cb_local_versions s) = {..<cb_num_replicas s} \<and> dom (cb_alive_bits s) = {..<cb_buffer_size s} \<and>
     dom (cb_combiner s) = {..<cb_num_replicas s} \<and>
     dom (cb_contents s) \<subseteq> {- int (cb_buffer_size s)..<int (cb_tail s)} \<and>
     cb_head s \<le> cb_tail s \<and>
     (\<forall>n<cb_num_replicas s. cb_head s \<le> cb_lv s n \<and> cb_lv s n \<le> cb_tail s \<and> cb_tail s \<le> cb_lv s n + cb_buffer_size s) \<and>
     (\<forall>n<cb_num_replicas s. \<forall>m<cb_num_replicas s. n \<noteq> m \<longrightarrow>
        no_overlap_with (the (cb_combiner s n)) (the (cb_combiner s m))) \<and>
     (\<forall>i\<ge>int (cb_tail s). passed s (i - int (cb_buffer_size s)) \<longrightarrow> \<not> cb_alive s i) \<and>
     (\<forall>i. int (cb_tail s) - int (cb_buffer_size s) \<le> i \<and> i < int (cb_tail s) \<longrightarrow>
        (cb_alive s i \<or> passed s i) = (i \<in> dom (cb_contents s))) \<and>
     (\<forall>i\<in>dom (cb_contents s). stored_type_inv (the (cb_contents s i)) i (cb_cell s i) (cb_unbounded_log_instance s)) \<and>
     (\<forall>n<cb_num_replicas s. node_valid s n (the (cb_combiner s n)))"

lemma cb_okD:
  assumes "cb_ok s"
  shows "0 < cb_num_replicas s" and "cb_buffer_size s = LOG_SIZE" and "length (cb_cell_ids s) = cb_buffer_size s"
    and "dom (cb_local_versions s) = {..<cb_num_replicas s}" and "dom (cb_alive_bits s) = {..<cb_buffer_size s}"
    and "dom (cb_combiner s) = {..<cb_num_replicas s}"
    and "dom (cb_contents s) \<subseteq> {- int (cb_buffer_size s)..<int (cb_tail s)}" and "cb_head s \<le> cb_tail s"
    and "n < cb_num_replicas s \<Longrightarrow>
      cb_head s \<le> cb_lv s n \<and> cb_lv s n \<le> cb_tail s \<and> cb_tail s \<le> cb_lv s n + cb_buffer_size s"
    and "n < cb_num_replicas s \<Longrightarrow> m < cb_num_replicas s \<Longrightarrow> n \<noteq> m \<Longrightarrow>
      no_overlap_with (the (cb_combiner s n)) (the (cb_combiner s m))"
    and "int (cb_tail s) \<le> i \<Longrightarrow> passed s (i - int (cb_buffer_size s)) \<Longrightarrow> \<not> cb_alive s i"
    and "int (cb_tail s) - int (cb_buffer_size s) \<le> i \<Longrightarrow> i < int (cb_tail s) \<Longrightarrow>
      (cb_alive s i \<or> passed s i) = (i \<in> dom (cb_contents s))"
    and "i \<in> dom (cb_contents s) \<Longrightarrow>
      stored_type_inv (the (cb_contents s i)) i (cb_cell s i) (cb_unbounded_log_instance s)"
    and "n < cb_num_replicas s \<Longrightarrow> node_valid s n (the (cb_combiner s n))"
proof -
  note c = assms [unfolded cb_ok_def]
  show "0 < cb_num_replicas s" "cb_buffer_size s = LOG_SIZE" "length (cb_cell_ids s) = cb_buffer_size s"
    "dom (cb_local_versions s) = {..<cb_num_replicas s}" "dom (cb_alive_bits s) = {..<cb_buffer_size s}"
    "dom (cb_combiner s) = {..<cb_num_replicas s}"
    "dom (cb_contents s) \<subseteq> {- int (cb_buffer_size s)..<int (cb_tail s)}" "cb_head s \<le> cb_tail s"
    using c by - (elim conjE, assumption)+
  have "\<forall>n<cb_num_replicas s. cb_head s \<le> cb_lv s n \<and> cb_lv s n \<le> cb_tail s \<and> cb_tail s \<le> cb_lv s n + cb_buffer_size s"
    using c by (elim conjE) assumption
  then show "n < cb_num_replicas s \<Longrightarrow>
      cb_head s \<le> cb_lv s n \<and> cb_lv s n \<le> cb_tail s \<and> cb_tail s \<le> cb_lv s n + cb_buffer_size s" by blast
  have "\<forall>n<cb_num_replicas s. \<forall>m<cb_num_replicas s. n \<noteq> m \<longrightarrow>
      no_overlap_with (the (cb_combiner s n)) (the (cb_combiner s m))" using c by (elim conjE) assumption
  then show "n < cb_num_replicas s \<Longrightarrow> m < cb_num_replicas s \<Longrightarrow> n \<noteq> m \<Longrightarrow>
      no_overlap_with (the (cb_combiner s n)) (the (cb_combiner s m))" by blast
  have "\<forall>i\<ge>int (cb_tail s). passed s (i - int (cb_buffer_size s)) \<longrightarrow> \<not> cb_alive s i"
    using c by (elim conjE) assumption
  then show "int (cb_tail s) \<le> i \<Longrightarrow> passed s (i - int (cb_buffer_size s)) \<Longrightarrow> \<not> cb_alive s i" by blast
  have "\<forall>i. int (cb_tail s) - int (cb_buffer_size s) \<le> i \<and> i < int (cb_tail s) \<longrightarrow>
      (cb_alive s i \<or> passed s i) = (i \<in> dom (cb_contents s))" using c by (elim conjE) assumption
  then show "int (cb_tail s) - int (cb_buffer_size s) \<le> i \<Longrightarrow> i < int (cb_tail s) \<Longrightarrow>
      (cb_alive s i \<or> passed s i) = (i \<in> dom (cb_contents s))" by blast
  have "\<forall>i\<in>dom (cb_contents s). stored_type_inv (the (cb_contents s i)) i (cb_cell s i) (cb_unbounded_log_instance s)"
    using c by (elim conjE) assumption
  then show "i \<in> dom (cb_contents s) \<Longrightarrow>
      stored_type_inv (the (cb_contents s i)) i (cb_cell s i) (cb_unbounded_log_instance s)" by (rule bspec)
  have "\<forall>n<cb_num_replicas s. node_valid s n (the (cb_combiner s n))" using c by (elim conjE) assumption
  then show "n < cb_num_replicas s \<Longrightarrow> node_valid s n (the (cb_combiner s n))" by blast
qed

lemma cb_ok_node:
  assumes "cb_ok s" and "cb_combiner s n = Some c"
  shows "n < cb_num_replicas s" "node_valid s n c"
proof -
  have "n \<in> dom (cb_combiner s)" using assms(2) by blast
  then show n: "n < cb_num_replicas s" using cb_okD(6) [OF assms(1)] by simp
  show "node_valid s n c" using cb_okD(14) [OF assms(1) n] assms(2) by simp
qed

lemma passed_iff_min: "0 < cb_num_replicas s \<Longrightarrow> passed s i \<longleftrightarrow> i < int (cb_min_version s)"
  using min_version_iff [of s i 0] by (simp add: passed_def)

lemma passed_round_iff_min:
  "0 < cb_num_replicas s \<Longrightarrow>
     passed s (i - int (cb_buffer_size s)) \<longleftrightarrow> i < int (cb_min_version s) + int (cb_buffer_size s)"
  by (simp add: passed_iff_min diff_less_eq)

lemma passed_witness:
  assumes "0 < cb_num_replicas s"
  shows "\<exists>k<cb_num_replicas s. \<forall>i. passed s i \<longleftrightarrow> i < int (cb_lv s k)"
proof -
  obtain k where "k \<le> cb_num_replicas s - 1" "cb_min_version s = cb_lv s k"
    using map_min_value_witness [of "cb_num_replicas s - 1" "cb_local_versions s"] by blast
  then show ?thesis using passed_iff_min [OF assms] assms by (intro exI [of _ k]) simp
qed

lemma nodes_iff_dom:
  "dom m = {..<N::nat} \<Longrightarrow> (\<forall>n\<in>dom m. P n) \<longleftrightarrow> (\<forall>n<N. P n)" for m :: "nat \<rightharpoonup> 'a"
  by blast

text \<open>With at least one replica, this is the invariant of the source.\<close>

lemma cb_invariant_iff: "0 < cb_num_replicas s \<and> cb_invariant s \<longleftrightarrow> cb_ok s"
proof (cases "0 < cb_num_replicas s \<and> dom (cb_local_versions s) = {..<cb_num_replicas s} \<and>
    dom (cb_alive_bits s) = {..<cb_buffer_size s} \<and> dom (cb_combiner s) = {..<cb_num_replicas s}")
  case True
  then have N: "0 < cb_num_replicas s" and d: "dom (cb_local_versions s) = {..<cb_num_replicas s}"
    "dom (cb_alive_bits s) = {..<cb_buffer_size s}" "dom (cb_combiner s) = {..<cb_num_replicas s}" by simp_all
  have "cb_complete s \<longleftrightarrow> dom (cb_contents s) \<subseteq> {- int (cb_buffer_size s)..<int (cb_tail s)}"
    unfolding cb_complete_def d by auto
  moreover have "cb_upcoming_bits_are_not_alive s \<longleftrightarrow>
      (\<forall>i\<ge>int (cb_tail s). passed s (i - int (cb_buffer_size s)) \<longrightarrow> \<not> cb_alive s i)"
    unfolding cb_upcoming_bits_are_not_alive_def passed_round_iff_min [OF N] by blast
  moreover have "cb_all_reader_state_valid s \<and> cb_all_combiner_valid s \<longleftrightarrow>
      (\<forall>n<cb_num_replicas s. node_valid s n (the (cb_combiner s n)))"
    unfolding cb_all_reader_state_valid_def cb_all_combiner_valid_def node_valid_iff nodes_iff_dom [OF d(3)] by blast
  moreover have "cb_inv_buffer_contents s \<longleftrightarrow> (\<forall>i\<ge>int (cb_tail s). i \<notin> dom (cb_contents s)) \<and>
      (\<forall>i. int (cb_tail s) - int (cb_buffer_size s) \<le> i \<and> i < int (cb_tail s) \<longrightarrow>
        (cb_alive s i \<or> passed s i) = (i \<in> dom (cb_contents s)))"
    unfolding cb_inv_buffer_contents_def passed_iff_min [OF N] by blast
  moreover have "cb_pointer_ordering s \<and> cb_pointer_differences s \<longleftrightarrow> cb_head s \<le> cb_tail s \<and>
     (\<forall>n<cb_num_replicas s. cb_head s \<le> cb_lv s n \<and> cb_lv s n \<le> cb_tail s \<and> cb_tail s \<le> cb_lv s n + cb_buffer_size s)"
    unfolding cb_pointer_ordering_def cb_pointer_differences_def nodes_iff_dom [OF d(1)] by blast
  moreover have "cb_ranges_no_overlap s \<longleftrightarrow> (\<forall>n<cb_num_replicas s. \<forall>m<cb_num_replicas s. n \<noteq> m \<longrightarrow>
      no_overlap_with (the (cb_combiner s n)) (the (cb_combiner s m)))"
    unfolding cb_ranges_no_overlap_def nodes_iff_dom [OF d(3)] by blast
  moreover have "dom (cb_contents s) \<subseteq> {- int (cb_buffer_size s)..<int (cb_tail s)} \<Longrightarrow>
      \<forall>i\<ge>int (cb_tail s). i \<notin> dom (cb_contents s)" by force
  ultimately show ?thesis
    unfolding cb_invariant_def cb_ok_def cb_log_size_def cb_cell_ids_inv_def cb_contents_meet_inv_def
    using N d by argo
next
  case False
  then show ?thesis unfolding cb_ok_def cb_invariant_def cb_complete_def by blast
qed

lemma cb_okI:
  assumes "0 < cb_num_replicas s" and "cb_buffer_size s = LOG_SIZE" and "length (cb_cell_ids s) = cb_buffer_size s"
    and "dom (cb_local_versions s) = {..<cb_num_replicas s}" and "dom (cb_alive_bits s) = {..<cb_buffer_size s}"
    and "dom (cb_combiner s) = {..<cb_num_replicas s}"
    and "\<And>i. i \<in> dom (cb_contents s) \<Longrightarrow> - int (cb_buffer_size s) \<le> i \<and> i < int (cb_tail s)"
    and "cb_head s \<le> cb_tail s"
    and "\<And>n. n < cb_num_replicas s \<Longrightarrow>
      cb_head s \<le> cb_lv s n \<and> cb_lv s n \<le> cb_tail s \<and> cb_tail s \<le> cb_lv s n + cb_buffer_size s"
    and "\<And>n m. n < cb_num_replicas s \<Longrightarrow> m < cb_num_replicas s \<Longrightarrow> n \<noteq> m \<Longrightarrow>
      no_overlap_with (the (cb_combiner s n)) (the (cb_combiner s m))"
    and "\<And>i. int (cb_tail s) \<le> i \<Longrightarrow> passed s (i - int (cb_buffer_size s)) \<Longrightarrow> \<not> cb_alive s i"
    and "\<And>i. int (cb_tail s) - int (cb_buffer_size s) \<le> i \<Longrightarrow> i < int (cb_tail s) \<Longrightarrow>
      (cb_alive s i \<or> passed s i) = (i \<in> dom (cb_contents s))"
    and "\<And>i. i \<in> dom (cb_contents s) \<Longrightarrow>
      stored_type_inv (the (cb_contents s i)) i (cb_cell s i) (cb_unbounded_log_instance s)"
    and "\<And>n. n < cb_num_replicas s \<Longrightarrow> node_valid s n (the (cb_combiner s n))"
  shows "cb_ok s"
proof -
  have "dom (cb_contents s) \<subseteq> {- int (cb_buffer_size s)..<int (cb_tail s)}"
    using assms(7) by (intro subsetI) simp
  moreover have "\<forall>n<cb_num_replicas s.
      cb_head s \<le> cb_lv s n \<and> cb_lv s n \<le> cb_tail s \<and> cb_tail s \<le> cb_lv s n + cb_buffer_size s"
    using assms(9) by simp
  moreover have "\<forall>n<cb_num_replicas s. \<forall>m<cb_num_replicas s. n \<noteq> m \<longrightarrow>
      no_overlap_with (the (cb_combiner s n)) (the (cb_combiner s m))" using assms(10) by simp
  moreover have "\<forall>i\<ge>int (cb_tail s). passed s (i - int (cb_buffer_size s)) \<longrightarrow> \<not> cb_alive s i"
    using assms(11) by simp
  moreover have "\<forall>i. int (cb_tail s) - int (cb_buffer_size s) \<le> i \<and> i < int (cb_tail s) \<longrightarrow>
      (cb_alive s i \<or> passed s i) = (i \<in> dom (cb_contents s))"
    using assms(12) by (intro allI impI) (elim conjE)
  moreover have "\<forall>i\<in>dom (cb_contents s). stored_type_inv (the (cb_contents s i)) i (cb_cell s i) (cb_unbounded_log_instance s)"
    using assms(13) by (rule ballI)
  moreover have "\<forall>n<cb_num_replicas s. node_valid s n (the (cb_combiner s n))" using assms(14) by simp
  ultimately show ?thesis
    unfolding cb_ok_def using assms(1-6,8) by (intro conjI) assumption+
qed

section \<open>Frame lemmas\<close>

lemma node_valid_frame:
  assumes v: "node_valid s n c"
    and same: "cb_num_replicas s' = cb_num_replicas s" "cb_buffer_size s' = cb_buffer_size s" "cb_lv s' n = cb_lv s n"
    and lv: "\<And>m. m < cb_num_replicas s \<Longrightarrow> cb_lv s m \<le> cb_lv s' m"
    and tail: "cb_tail s \<le> cb_tail s'" "cb_tail s' \<le> cb_lv s n + cb_buffer_size s"
    and read: "\<And>i. int (cb_lv s n) \<le> i \<Longrightarrow> i < int (cb_tail s) \<Longrightarrow> cb_alive s i \<Longrightarrow>
      cb_alive s' i \<and> cb_contents s' i = cb_contents s i"
    and app: "\<And>a t i. c = CBAppending a t \<Longrightarrow> a \<le> i \<Longrightarrow> i < t \<Longrightarrow> \<not> cb_alive s (int i) \<Longrightarrow> \<not> cb_alive s' (int i)"
  shows "node_valid s' n c"
proof (cases c)
  case (CBReading rs)
  have alive: "cb_alive s' i \<and> cb_contents s' i = cb_contents s i"
    if "int (cb_lv s n) \<le> i" "i \<le> int k" "int k < int (cb_tail s)" "cb_alive s i" for i k
    using that by (intro read) auto
  have v': "reader_state_valid s n rs" using v CBReading by simp
  have "reader_state_valid s' n rs"
  proof (cases rs)
    case (RStarting start)
    then show ?thesis using v' same tail by simp
  next
    case (RRange start "end" cur)
    then have "cb_alive s' i \<and> cb_contents s' i = cb_contents s i" if "int start \<le> i" "i < int cur" for i
      using v' that by (intro read) auto
    then show ?thesis using v' RRange same tail by (simp add: domIff)
  next
    case (RGuard start "end" cur val)
    then have "cb_alive s' i \<and> cb_contents s' i = cb_contents s i" if "int start \<le> i" "i \<le> int cur" for i
      using v' that by (intro read) auto
    then show ?thesis using v' RGuard same tail by (simp add: domIff)
  qed
  then show ?thesis using CBReading by simp
next
  case (CBAdvancingHead idx k)
  then show ?thesis using v same lv by (auto intro: le_trans)
next
  case (CBAdvancingTail h)
  then show ?thesis using v same lv by (auto intro: le_trans)
next
  case (CBAppending a t)
  then show ?thesis using v same tail app by auto
qed (use v in simp)

lemma no_overlap_idle [simp]:
  "no_overlap_with c CBIdle" "no_overlap_with c (CBReading (RStarting i))" "no_overlap_with c (CBReading (RRange i j k))"
  "no_overlap_with c (CBAdvancingHead i j)" "no_overlap_with c (CBAdvancingTail i)"
  by (cases c; simp)+

lemma node_valid_set [simp]: "node_valid (cb_set s n c) m x = node_valid s m x"
proof (cases x)
  case (CBReading rs)
  then show ?thesis by (cases rs) simp_all
qed simp_all

text \<open>A step that changes the state of one node's combiner only.\<close>

lemma cb_ok_set:
  assumes ok: "cb_ok s" and n: "n < cb_num_replicas s" and v: "node_valid s n c"
    and overlap: "\<And>m. m < cb_num_replicas s \<Longrightarrow> m \<noteq> n \<Longrightarrow>
      no_overlap_with c (the (cb_combiner s m)) \<and> no_overlap_with (the (cb_combiner s m)) c"
  shows "cb_ok (cb_set s n c)"
proof (rule cb_okI)
  show "node_valid (cb_set s n c) m (the (cb_combiner (cb_set s n c) m))" if "m < cb_num_replicas (cb_set s n c)" for m
    using that v cb_okD(14) [OF ok] by (cases "m = n") simp_all
  show "no_overlap_with (the (cb_combiner (cb_set s n c) k)) (the (cb_combiner (cb_set s n c) m))"
    if "k < cb_num_replicas (cb_set s n c)" "m < cb_num_replicas (cb_set s n c)" "k \<noteq> m" for k m
    using that overlap cb_okD(10) [OF ok] by simp
  have p: "passed (cb_set s n c) i = passed s i" for i by (simp add: passed_def)
  show "(cb_alive (cb_set s n c) i \<or> passed (cb_set s n c) i) = (i \<in> dom (cb_contents (cb_set s n c)))"
    if "int (cb_tail (cb_set s n c)) - int (cb_buffer_size (cb_set s n c)) \<le> i" "i < int (cb_tail (cb_set s n c))" for i
    unfolding p using cb_okD(12) [OF ok] that by simp
  show "\<not> cb_alive (cb_set s n c) i"
    if "int (cb_tail (cb_set s n c)) \<le> i" "passed (cb_set s n c) (i - int (cb_buffer_size (cb_set s n c)))" for i
    using cb_okD(11) [OF ok] that unfolding p by simp
qed (use n cb_okD(1-6,8,9,13) [OF ok] subsetD [OF cb_okD(7) [OF ok]] in \<open>simp_all add: insert_absorb\<close>)

section \<open>Readers\<close>

lemmas cb_splits = option.splits CBCombiner.splits ReaderState.splits if_splits

lemma reader_start_ok:
  assumes ok: "cb_ok s" and step: "reader_start s n = Some s'"
  shows "cb_ok s'"
proof -
  obtain h where s: "cb_local_versions s n = Some h" "cb_combiner s n = Some CBIdle"
      "s' = cb_set s n (CBReading (RStarting h))"
    using step by (auto simp: reader_start_def split: cb_splits)
  note n = cb_ok_node(1) [OF ok s(2)]
  show ?thesis unfolding s(3) by (rule cb_ok_set [OF ok n]) (use s cb_okD(9) [OF ok n] in simp_all)
qed

lemma reader_enter_ok:
  assumes ok: "cb_ok s" and step: "reader_enter s n = Some s'"
  shows "cb_ok s'"
proof -
  obtain start where s: "cb_combiner s n = Some (CBReading (RStarting start))"
      "s' = cb_set s n (CBReading (RRange start (cb_tail s) start))"
    using step by (auto simp: reader_enter_def split: cb_splits)
  note n = cb_ok_node [OF ok s(1)]
  show ?thesis unfolding s(2) by (rule cb_ok_set [OF ok n(1)]) (use n(2) in auto)
qed

text \<open>What a reader about to look at an entry finds there.\<close>

lemma guard_facts:
  assumes ok: "cb_ok s" and s: "cb_combiner s n = Some (CBReading (RRange start end cur))" "cur < end"
    and alive: "cb_alive s (int cur)"
  shows "int cur \<in> dom (cb_contents s)"
    and "\<And>i. int start \<le> i \<Longrightarrow> i \<le> int cur \<Longrightarrow> cb_alive s i \<and> i \<in> dom (cb_contents s)"
    and "cur < cb_tail s"
proof -
  note n = cb_ok_node [OF ok s(1)]
  have r: "cb_lv s n = start" "end \<le> cb_tail s" "start \<le> cur" using n(2) by auto
  show tail: "cur < cb_tail s" using r s(2) by simp
  have "int (cb_tail s) - int (cb_buffer_size s) \<le> int cur" using cb_okD(9) [OF ok n(1)] r by linarith
  then show dom: "int cur \<in> dom (cb_contents s)" using cb_okD(12) [OF ok, of "int cur"] tail alive by simp
  show "cb_alive s i \<and> i \<in> dom (cb_contents s)" if "int start \<le> i" "i \<le> int cur" for i
    using that n(2) dom alive by (cases "i = int cur") auto
qed

lemma reader_guard_ok:
  assumes ok: "cb_ok s" and step: "reader_guard s n = Some s'"
  shows "cb_ok s'"
proof -
  obtain start "end" cur where s: "cb_combiner s n = Some (CBReading (RRange start end cur))" "cur < end"
      "cb_alive s (int cur)" "s' = cb_set s n (CBReading (RGuard start end cur (the (cb_contents s (int cur)))))"
    using step by (auto simp: reader_guard_def log_entry_is_alive_def split: cb_splits)
  note n = cb_ok_node [OF ok s(1)] and g = guard_facts [OF ok s(1-3)]
  have "no_overlap_with (the (cb_combiner s m)) (CBReading (RGuard start end cur v))" if m: "m < cb_num_replicas s" for m v
  proof (cases "the (cb_combiner s m)")
    case (CBAppending a t)
    then have "\<forall>i. a \<le> i \<and> i < t \<longrightarrow> \<not> cb_alive s (int i)" using cb_okD(14) [OF ok m] by simp
    then have "\<not> (a \<le> cur \<and> cur < t)" using s(3) by blast
    then show ?thesis using CBAppending by auto
  qed simp_all
  then show ?thesis
    unfolding s(4) by (intro cb_ok_set [OF ok n(1)]) (use n(2) s(2) g(1,2) in simp_all)
qed

lemma reader_unguard_ok:
  assumes ok: "cb_ok s" and step: "reader_unguard s n = Some s'"
  shows "cb_ok s'"
proof -
  obtain start "end" cur val where s: "cb_combiner s n = Some (CBReading (RGuard start end cur val))"
      "s' = cb_set s n (CBReading (RRange start end (cur + 1)))"
    using step by (auto simp: reader_unguard_def split: cb_splits)
  note n = cb_ok_node [OF ok s(1)]
  show ?thesis unfolding s(2) by (rule cb_ok_set [OF ok n(1)]) (use n(2) in simp_all)
qed

lemma reader_abort_ok:
  assumes ok: "cb_ok s" and step: "reader_abort s n = Some s'"
  shows "cb_ok s'"
proof -
  have s: "s' = cb_set s n CBIdle" and c: "\<exists>c. cb_combiner s n = Some c"
    using step by (auto simp: reader_abort_def split: cb_splits)
  then show ?thesis using cb_ok_node(1) [OF ok] by (auto intro: cb_ok_set [OF ok])
qed

text \<open>
  Finishing a round of reading publishes the reader's new version: the indices all replicas
  have passed now include ones that are still alive, so the round after them is free.
\<close>

lemma reader_finish_ok:
  assumes ok: "cb_ok s" and step: "reader_finish s n = Some s'"
  shows "cb_ok s'"
proof -
  obtain start "end" where s: "cb_combiner s n = Some (CBReading (RRange start end end))"
      "s' = s\<lparr>cb_local_versions := (cb_local_versions s)(n \<mapsto> end), cb_combiner := (cb_combiner s)(n \<mapsto> CBIdle)\<rparr>"
    using step by (auto simp: reader_finish_def split: cb_splits)
  note n = cb_ok_node [OF ok s(1)]
  have r: "cb_lv s n = start" "start \<le> end" "end \<le> cb_tail s" "int (cb_tail s) - int (cb_buffer_size s) \<le> int end"
      "\<And>i. int start \<le> i \<Longrightarrow> i < int end \<Longrightarrow> cb_alive s i"
    using n(2) by auto
  have lv: "cb_lv s' m = (if m = n then end else cb_lv s m)" for m using s(2) by simp
  have same: "cb_num_replicas s' = cb_num_replicas s" "cb_buffer_size s' = cb_buffer_size s" "cb_tail s' = cb_tail s"
      "cb_head s' = cb_head s" "cb_alive_bits s' = cb_alive_bits s" "cb_contents s' = cb_contents s"
      "cb_cell_ids s' = cb_cell_ids s" "cb_unbounded_log_instance s' = cb_unbounded_log_instance s"
      "cb_combiner s' = (cb_combiner s)(n \<mapsto> CBIdle)" using s(2) by simp_all
  have passed: "cb_alive s i \<or> passed s i" if "passed s' i" for i
    using that r n(1) by (auto simp: passed_def lv same) (metis not_le)
  have passed': "passed s' i" if "passed s i" for i
    using that r n(1) by (force simp: passed_def lv same)
  have "0 < cb_buffer_size s" using cb_okD(2) [OF ok] by (simp add: LOG_SIZE_def)
  then have round: "cb_alive s (i - int (cb_buffer_size s)) \<longleftrightarrow> \<not> cb_alive s i" for i
    using log_entry_alive_wrap_around [of "cb_buffer_size s" "cb_alive_bits s" "i - int (cb_buffer_size s)"] by simp
  show ?thesis
  proof (rule cb_okI)
    show "\<not> cb_alive s' i" if "int (cb_tail s') \<le> i" "passed s' (i - int (cb_buffer_size s'))" for i
      using passed [of "i - int (cb_buffer_size s)"] cb_okD(11) [OF ok, of i] that round by (auto simp: same)
    show "(cb_alive s' i \<or> passed s' i) = (i \<in> dom (cb_contents s'))"
      if "int (cb_tail s') - int (cb_buffer_size s') \<le> i" "i < int (cb_tail s')" for i
      using cb_okD(12) [OF ok, of i] that passed passed' unfolding same by blast
    show "node_valid s' m (the (cb_combiner s' m))" if "m < cb_num_replicas s'" for m
    proof (cases "m = n")
      case False
      have m: "m < cb_num_replicas s" using that same(1) by simp
      have c: "the (cb_combiner s' m) = the (cb_combiner s m)" using False same(9) by simp
      show ?thesis
        unfolding c
      proof (rule node_valid_frame [OF cb_okD(14) [OF ok m]])
        show "cb_tail s' \<le> cb_lv s m + cb_buffer_size s" using cb_okD(9) [OF ok m] same(3) by simp
      qed (use False r(1,2) in \<open>simp_all add: same lv\<close>)
    qed (simp add: same)
    show "no_overlap_with (the (cb_combiner s' k)) (the (cb_combiner s' m))"
      if "k < cb_num_replicas s'" "m < cb_num_replicas s'" "k \<noteq> m" for k m
      using that cb_okD(10) [OF ok] by (simp add: same)
    show "cb_head s' \<le> cb_lv s' m \<and> cb_lv s' m \<le> cb_tail s' \<and> cb_tail s' \<le> cb_lv s' m + cb_buffer_size s'"
      if "m < cb_num_replicas s'" for m
      using that cb_okD(9) [OF ok, of m] cb_okD(9) [OF ok n(1)] r by (auto simp: same lv)
  qed (use n(1) s(2) cb_okD(1-6,8,13) [OF ok] subsetD [OF cb_okD(7) [OF ok]] in \<open>simp_all add: insert_absorb\<close>)
qed

section \<open>Advancing the head\<close>

lemma advance_head_start_ok:
  assumes ok: "cb_ok s" and step: "advance_head_start s n = Some s'"
  shows "cb_ok s'"
proof -
  obtain h where s: "cb_local_versions s 0 = Some h" "cb_combiner s n = Some CBIdle" "s' = cb_set s n (CBAdvancingHead 1 h)"
    using step by (auto simp: advance_head_start_def split: cb_splits)
  note n = cb_ok_node(1) [OF ok s(2)]
  show ?thesis unfolding s(3) by (rule cb_ok_set [OF ok n]) (use s cb_okD(1) [OF ok] in simp_all)
qed

lemma advance_head_next_ok:
  assumes ok: "cb_ok s" and step: "advance_head_next s n = Some s'"
  shows "cb_ok s'"
proof -
  obtain k v h where s: "cb_combiner s n = Some (CBAdvancingHead k v)" "cb_local_versions s k = Some h"
      "k < cb_num_replicas s" "s' = cb_set s n (CBAdvancingHead (k + 1) (min v h))"
    using step by (auto simp: advance_head_next_def split: cb_splits)
  note n = cb_ok_node [OF ok s(1)]
  have "min v h \<le> cb_lv s m" if "m < Suc k" for m
    using n(2) s(2) that by (cases "m = k") (auto intro: min.coboundedI1)
  then show ?thesis unfolding s(4) by (intro cb_ok_set [OF ok n(1)]) (use s(3) in simp_all)
qed

lemma advance_head_abort_ok:
  assumes ok: "cb_ok s" and step: "advance_head_abort s n = Some s'"
  shows "cb_ok s'"
proof -
  have "s' = cb_set s n CBIdle" "\<exists>c. cb_combiner s n = Some c"
    using step by (auto simp: advance_head_abort_def split: cb_splits)
  then show ?thesis using cb_ok_node(1) [OF ok] by (auto intro: cb_ok_set [OF ok])
qed

lemma cb_ok_head:
  assumes ok: "cb_ok s" and h: "\<And>n. n < cb_num_replicas s \<Longrightarrow> h \<le> cb_lv s n"
  shows "cb_ok (s\<lparr>cb_head := h\<rparr>)"
proof (rule cb_okI)
  let ?s = "s\<lparr>cb_head := h\<rparr>"
  have p: "passed ?s i = passed s i" for i by (simp add: passed_def)
  show "(cb_alive ?s i \<or> passed ?s i) = (i \<in> dom (cb_contents ?s))"
    if "int (cb_tail ?s) - int (cb_buffer_size ?s) \<le> i" "i < int (cb_tail ?s)" for i
    unfolding p using cb_okD(12) [OF ok] that by simp
  show "\<not> cb_alive ?s i" if "int (cb_tail ?s) \<le> i" "passed ?s (i - int (cb_buffer_size ?s))" for i
    using cb_okD(11) [OF ok] that unfolding p by simp
  show "node_valid ?s m (the (cb_combiner ?s m))" if "m < cb_num_replicas ?s" for m
  proof -
    have "node_valid s m (the (cb_combiner s m))" using cb_okD(14) [OF ok] that by simp
    from node_valid_frame [OF this, of ?s] show ?thesis using cb_okD(9) [OF ok, of m] that by simp
  qed
  show "cb_head ?s \<le> cb_tail ?s"
    using h [OF cb_okD(1) [OF ok]] cb_okD(9) [OF ok cb_okD(1) [OF ok]] by simp
qed (use h cb_okD(1-6,9,10,13) [OF ok] subsetD [OF cb_okD(7) [OF ok]] in simp_all)

lemma advance_head_finish_ok:
  assumes ok: "cb_ok s" and step: "advance_head_finish s n = Some s'"
  shows "cb_ok s'"
proof -
  obtain v where s: "cb_combiner s n = Some (CBAdvancingHead (cb_num_replicas s) v)"
      "s' = (cb_set s n CBIdle)\<lparr>cb_head := v\<rparr>"
    using step by (auto simp: advance_head_finish_def split: cb_splits)
  note n = cb_ok_node [OF ok s(1)]
  have "cb_ok (cb_set s n CBIdle)" by (rule cb_ok_set [OF ok n(1)]) simp_all
  then show ?thesis unfolding s(2) by (rule cb_ok_head) (use n(2) in simp)
qed

section \<open>Advancing the tail\<close>

lemma advance_tail_start_ok:
  assumes ok: "cb_ok s" and step: "advance_tail_start s n = Some s'"
  shows "cb_ok s'"
proof -
  have s: "cb_combiner s n = Some CBIdle" "s' = cb_set s n (CBAdvancingTail (cb_head s))"
    using step by (auto simp: advance_tail_start_def split: cb_splits)
  note n = cb_ok_node(1) [OF ok s(1)]
  show ?thesis unfolding s(2) by (rule cb_ok_set [OF ok n]) (use cb_okD(9) [OF ok] in simp_all)
qed

lemma advance_tail_abort_ok:
  assumes ok: "cb_ok s" and step: "advance_tail_abort s n = Some s'"
  shows "cb_ok s'"
proof -
  have "s' = cb_set s n CBIdle" "\<exists>c. cb_combiner s n = Some c"
    using step by (auto simp: advance_tail_abort_def split: cb_splits)
  then show ?thesis using cb_ok_node(1) [OF ok] by (auto intro: cb_ok_set [OF ok])
qed

text \<open>The entries withdrawn have been passed by all replicas and are in the buffer.\<close>

lemma withdrawn_present:
  assumes ok: "cb_ok s" and s: "cb_combiner s n = Some (CBAdvancingTail h)" "t \<le> h + cb_buffer_size s"
    and i: "i \<in> withdrawn_range s t"
  shows "passed s i" and "i \<in> dom (cb_contents s)"
proof -
  note n = cb_ok_node [OF ok s(1)]
  show p: "passed s i" using n(2) s(2) i unfolding passed_def withdrawn_range_def by fastforce
  have "i < int (cb_lv s n)" using p n(1) by (simp add: passed_def)
  then have "i < int (cb_tail s)" using cb_okD(9) [OF ok n(1)] by linarith
  then show "i \<in> dom (cb_contents s)"
    using cb_okD(12) [OF ok, of i] i p by (simp add: withdrawn_range_def)
qed

lemma advance_tail_finish_ok:
  assumes ok: "cb_ok s" and step: "advance_tail_finish s n t = Some s'"
  shows "cb_ok s'"
proof -
  obtain h where s: "cb_combiner s n = Some (CBAdvancingTail h)" "cb_tail s \<le> t" "t \<le> h + cb_buffer_size s"
      "s' = s\<lparr>cb_combiner := (cb_combiner s)(n \<mapsto> CBAppending (cb_tail s) t), cb_tail := t,
              cb_contents := cb_contents s |` (- withdrawn_range s t)\<rparr>"
    using step by (auto simp: advance_tail_finish_def split: cb_splits)
  note n = cb_ok_node [OF ok s(1)]
  have same: "cb_num_replicas s' = cb_num_replicas s" "cb_buffer_size s' = cb_buffer_size s" "cb_tail s' = t"
      "cb_head s' = cb_head s" "cb_alive_bits s' = cb_alive_bits s" "cb_local_versions s' = cb_local_versions s"
      "cb_cell_ids s' = cb_cell_ids s" "cb_unbounded_log_instance s' = cb_unbounded_log_instance s"
      "cb_combiner s' = (cb_combiner s)(n \<mapsto> CBAppending (cb_tail s) t)"
      "cb_contents s' = cb_contents s |` (- withdrawn_range s t)" using s(4) by simp_all
  have t: "t \<le> cb_lv s m + cb_buffer_size s" if "m < cb_num_replicas s" for m
    using n(2) s(3) that by (auto intro: le_trans)
  have p: "passed s' i = passed s i" for i by (simp add: passed_def same)
  have free: "passed s (i - int (cb_buffer_size s))" if "i < int t" for i
    using t that by (fastforce simp: passed_def)
  have contents: "cb_contents s' i = cb_contents s i" if "int (cb_lv s m) \<le> i" "m < cb_num_replicas s" for i m
    using that t [OF that(2)] by (simp add: same withdrawn_range_def restrict_map_def)
  show ?thesis
  proof (rule cb_okI)
    show "node_valid s' m (the (cb_combiner s' m))" if "m < cb_num_replicas s'" for m
    proof (cases "m = n")
      case True
      then show ?thesis
        using cb_okD(9) [OF ok n(1)] s(2) t [OF n(1)] cb_okD(11) [OF ok, of "int i" for i] free
        by (auto simp: same)
    next
      case False
      have m: "m < cb_num_replicas s" using that same(1) by simp
      have c: "the (cb_combiner s' m) = the (cb_combiner s m)" using False same(9) by simp
      show ?thesis
        unfolding c by (rule node_valid_frame [OF cb_okD(14) [OF ok m]])
          (use t m s(2) contents in \<open>simp_all add: same(1-9)\<close>)
    qed
    show "no_overlap_with (the (cb_combiner s' k)) (the (cb_combiner s' m))"
      if "k < cb_num_replicas s'" "m < cb_num_replicas s'" "k \<noteq> m" for k m
      using that cb_okD(10) [OF ok, of k m] cb_okD(14) [OF ok, of m] cb_okD(14) [OF ok, of k] unfolding same
      by (cases "the (cb_combiner s k)"; cases "the (cb_combiner s m)")
        (auto split: CBCombiner.splits ReaderState.splits if_splits)
    show "cb_head s' \<le> cb_lv s' m \<and> cb_lv s' m \<le> cb_tail s' \<and> cb_tail s' \<le> cb_lv s' m + cb_buffer_size s'"
      if "m < cb_num_replicas s'" for m
      using that cb_okD(9) [OF ok, of m] t [of m] s(2) by (simp add: same(1-8))
    show "\<not> cb_alive s' i" if "int (cb_tail s') \<le> i" "passed s' (i - int (cb_buffer_size s'))" for i
      using that cb_okD(11) [OF ok, of i] s(2) unfolding p by (simp add: same(1-8))
    show "(cb_alive s' i \<or> passed s' i) = (i \<in> dom (cb_contents s'))"
      if i: "int (cb_tail s') - int (cb_buffer_size s') \<le> i" "i < int (cb_tail s')" for i
    proof (cases "i < int (cb_tail s)")
      case True
      then show ?thesis
        using cb_okD(12) [OF ok, of i] i s(2) unfolding p same by (simp add: withdrawn_range_def restrict_map_def domIff)
    next
      case False
      then have "i \<notin> dom (cb_contents s')" using subsetD [OF cb_okD(7) [OF ok], of i] by (auto simp: same)
      moreover have "\<not> cb_alive s i" using cb_okD(11) [OF ok] False i(2) free by (simp add: same)
      moreover have "\<not> passed s i" using cb_okD(9) [OF ok n(1)] n(1) False by (force simp: passed_def)
      ultimately show ?thesis unfolding p by (simp add: same(1-8))
    qed
    show "- int (cb_buffer_size s') \<le> i \<and> i < int (cb_tail s')" if "i \<in> dom (cb_contents s')" for i
      using that subsetD [OF cb_okD(7) [OF ok], of i] s(2) by (auto simp: same)
    show "stored_type_inv (the (cb_contents s' i)) i (cb_cell s' i) (cb_unbounded_log_instance s')"
      if "i \<in> dom (cb_contents s')" for i
      using that cb_okD(13) [OF ok, of i] by (auto simp: same restrict_map_def domIff split: if_splits)
  qed (use n(1) cb_okD(1-6,8) [OF ok] s(2) in \<open>simp_all add: same(1-9) insert_absorb\<close>)
qed

section \<open>Appending\<close>

text \<open>The entry a combiner is about to write is neither alive nor in the buffer.\<close>

lemma append_facts:
  assumes ok: "cb_ok s" and s: "cb_combiner s n = Some (CBAppending c t)" "c < t"
  shows "\<not> cb_alive s (int c)" and "int c \<notin> dom (cb_contents s)" and "c < cb_tail s"
    and "m < cb_num_replicas s \<Longrightarrow> int c < int (cb_lv s m) + int (cb_buffer_size s)"
    and "\<not> passed s (int c)"
proof -
  note n = cb_ok_node [OF ok s(1)]
  show alive: "\<not> cb_alive s (int c)" and tail: "c < cb_tail s" using n(2) s(2) by simp_all
  show "\<not> passed s (int c)" using n by (auto simp: passed_def)
  then show "int c \<notin> dom (cb_contents s)" using cb_okD(12) [OF ok, of "int c"] n(2) alive tail by simp
  show "m < cb_num_replicas s \<Longrightarrow> int c < int (cb_lv s m) + int (cb_buffer_size s)"
    using tail cb_okD(9) [OF ok, of m] by simp
qed

lemma append_flip_bit_ok:
  assumes ok: "cb_ok s" and step: "append_flip_bit s n st = Some s'"
  shows "cb_ok s'"
proof -
  obtain c t where s: "cb_combiner s n = Some (CBAppending c t)" "c < t"
      "stored_type_inv st (int c) (cb_cell s (int c)) (cb_unbounded_log_instance s)"
      "s' = s\<lparr>cb_combiner := (cb_combiner s)(n \<mapsto> CBAppending (c + 1) t),
              cb_alive_bits := (cb_alive_bits s)(log_entry_idx (int c) (cb_buffer_size s) \<mapsto>
                log_entry_alive_value (int c) (cb_buffer_size s)),
              cb_contents := (cb_contents s)(int c \<mapsto> st)\<rparr>"
    using step by (auto simp: append_flip_bit_def split: cb_splits)
  note n = cb_ok_node [OF ok s(1)] and f = append_facts [OF ok s(1,2)]
  have same: "cb_num_replicas s' = cb_num_replicas s" "cb_buffer_size s' = cb_buffer_size s" "cb_tail s' = cb_tail s"
      "cb_head s' = cb_head s" "cb_local_versions s' = cb_local_versions s" "cb_cell_ids s' = cb_cell_ids s"
      "cb_unbounded_log_instance s' = cb_unbounded_log_instance s"
      "cb_combiner s' = (cb_combiner s)(n \<mapsto> CBAppending (c + 1) t)" "cb_contents s' = (cb_contents s)(int c \<mapsto> st)"
    using s(4) by simp_all
  have p: "passed s' i = passed s i" for i by (simp add: passed_def same)
  have lv: "cb_lv s n \<le> c" using n(2) by simp
  obtain k where k: "k < cb_num_replicas s" "\<And>i. passed s i \<longleftrightarrow> i < int (cb_lv s k)"
    using passed_witness [OF cb_okD(1) [OF ok]] by blast
  have k_le: "cb_lv s k \<le> cb_lv s m" if "m < cb_num_replicas s" for m
    using k(2) [of "int (cb_lv s m)"] that by (fastforce simp: passed_def not_less)
  have alive: "cb_alive s' i \<longleftrightarrow> i = int c \<or> cb_alive s i"
    if "int (cb_lv s k) \<le> i" "i < int (cb_lv s k) + int (cb_buffer_size s)" for i
    unfolding s(4) using that flip_alive [of "int (cb_lv s k)" "int c" "cb_buffer_size s" i] f(4) [OF k(1)]
      k_le [OF n(1)] lv by simp
  have tail: "int (cb_tail s) \<le> int (cb_lv s k) + int (cb_buffer_size s)" using cb_okD(9) [OF ok k(1)] by linarith
  have bits: "log_entry_idx (int c) (cb_buffer_size s) < cb_buffer_size s"
    using cb_okD(2) [OF ok] by (simp add: log_entry_idx_less LOG_SIZE_def)
  show ?thesis
  proof (rule cb_okI)
    show "node_valid s' m (the (cb_combiner s' m))" if "m < cb_num_replicas s'" for m
    proof (cases "m = n")
      case True
      have "\<not> cb_alive s' (int i)" if i: "c < i" "i < t" for i
        using alive [of "int i"] i n(2) lv k_le [OF n(1)] tail by simp
      then show ?thesis using True n(2) s(2) by (simp add: same Suc_le_eq)
    next
      case False
      have m: "m < cb_num_replicas s" using that same(1) by simp
      have c: "the (cb_combiner s' m) = the (cb_combiner s m)" using False same(8) by simp
      show ?thesis
        unfolding c
      proof (rule node_valid_frame [OF cb_okD(14) [OF ok m]])
        show "cb_alive s' i \<and> cb_contents s' i = cb_contents s i"
          if "int (cb_lv s m) \<le> i" "i < int (cb_tail s)" "cb_alive s i" for i
          using that alive [of i] tail k_le [OF m] f(1) by (auto simp: same(9))
        show "\<not> cb_alive s' (int i)"
          if a: "the (cb_combiner s m) = CBAppending b u" "b \<le> i" "i < u" "\<not> cb_alive s (int i)" for b u i
        proof -
          have "no_overlap_with (CBAppending c t) (CBAppending b u)"
            using cb_okD(10) [OF ok n(1) m] False s(1) a(1) by simp
          then have "i \<noteq> c" using a(2,3) s(2) by auto
          then show ?thesis
            using alive [of "int i"] a cb_okD(14) [OF ok m] k_le [OF m] tail by simp
        qed
      qed (use cb_okD(9) [OF ok m] in \<open>simp_all add: same(1-5)\<close>)
    qed
    show "no_overlap_with (the (cb_combiner s' i)) (the (cb_combiner s' j))"
      if "i < cb_num_replicas s'" "j < cb_num_replicas s'" "i \<noteq> j" for i j
      using that cb_okD(10) [OF ok, of i j] s(1) unfolding same
      by (cases "the (cb_combiner s i)"; cases "the (cb_combiner s j)")
        (auto split: CBCombiner.splits ReaderState.splits if_splits)
    show "\<not> cb_alive s' i" if "int (cb_tail s') \<le> i" "passed s' (i - int (cb_buffer_size s'))" for i
      using that cb_okD(11) [OF ok, of i] alive [of i] cb_okD(9) [OF ok k(1)] f(3) k(2) unfolding p
      by (simp add: same(1-8) diff_less_eq)
    show "(cb_alive s' i \<or> passed s' i) = (i \<in> dom (cb_contents s'))"
      if i: "int (cb_tail s') - int (cb_buffer_size s') \<le> i" "i < int (cb_tail s')" for i
      using cb_okD(12) [OF ok, of i] i alive [of i] k(2) [of i] k(2) [of "int c"] f(5) tail
      unfolding p by (cases "i < int (cb_lv s k)") (auto simp: same)
    show "- int (cb_buffer_size s') \<le> i \<and> i < int (cb_tail s')" if "i \<in> dom (cb_contents s')" for i
      using that subsetD [OF cb_okD(7) [OF ok], of i] f(3) by (auto simp: same split: if_splits)
    show "stored_type_inv (the (cb_contents s' i)) i (cb_cell s' i) (cb_unbounded_log_instance s')"
      if "i \<in> dom (cb_contents s')" for i
      using that cb_okD(13) [OF ok, of i] s(3) by (auto simp: same split: if_splits)
    show "dom (cb_alive_bits s') = {..<cb_buffer_size s'}"
      using cb_okD(5) [OF ok] bits by (simp add: s(4) insert_absorb)
  qed (use n(1) cb_okD(1-4,6,8,9) [OF ok] in \<open>simp_all add: same(1-8) insert_absorb\<close>)
qed

lemma append_finish_ok:
  assumes ok: "cb_ok s" and step: "append_finish s n = Some s'"
  shows "cb_ok s'"
proof -
  have "s' = cb_set s n CBIdle" "\<exists>c. cb_combiner s n = Some c"
    using step by (auto simp: append_finish_def split: cb_splits)
  then show ?thesis using cb_ok_node(1) [OF ok] by (auto intro: cb_ok_set [OF ok])
qed

lemmas cb_transitions_ok =
  reader_start_ok reader_enter_ok reader_guard_ok reader_unguard_ok reader_finish_ok reader_abort_ok
  advance_head_start_ok advance_head_next_ok advance_head_finish_ok advance_head_abort_ok
  advance_tail_start_ok advance_tail_finish_ok advance_tail_abort_ok append_flip_bit_ok append_finish_ok

lemma cb_next_ok: "cb_next s s' \<Longrightarrow> cb_ok s \<Longrightarrow> cb_ok s'"
  by (induction rule: cb_next.induct) (blast intro: cb_transitions_ok)+

section \<open>Reachable buffers\<close>

lemma cb_initialize_ok:
  assumes "cb_initialize bs N contents cells inst s"
  shows "cb_ok s"
proof -
  have i: "0 < N" "bs = LOG_SIZE" "length cells = bs"
      "\<And>i. - int bs \<le> i \<and> i < 0 \<longleftrightarrow> i \<in> dom contents"
      "\<And>i. i \<in> dom contents \<Longrightarrow> stored_type_inv (the (contents i)) i (cells ! log_entry_idx i bs) inst"
      "s = \<lparr>cb_unbounded_log_instance = inst, cb_cell_ids = cells, cb_buffer_size = bs,
          cb_num_replicas = N, cb_head = 0, cb_tail = 0, cb_local_versions = map_below N 0, cb_contents = contents,
          cb_alive_bits = (\<lambda>i. if i < bs then Some (\<not> log_entry_alive_value (int i) bs) else None),
          cb_combiner = map_below N CBIdle\<rparr>"
    using assms unfolding cb_initialize_def by blast+
  have lv: "cb_lv s n = 0" "the (cb_combiner s n) = CBIdle" if "n < N" for n
    using that by (simp_all add: i(6) map_below_def)
  have p: "passed s k \<longleftrightarrow> k < 0" for k using i(1,6) lv by (auto simp: passed_def)
  show ?thesis
  proof (rule cb_okI)
    show "\<not> cb_alive s k" if "int (cb_tail s) \<le> k" "passed s (k - int (cb_buffer_size s))" for k
    proof -
      have k: "0 \<le> k" "k < int bs" using that i(6) unfolding p by simp_all
      then have "log_entry_idx k bs = nat k" "nat k < bs" by (simp_all add: log_entry_idx_def nat_less_iff)
      then show ?thesis using k by (simp add: i(6) log_entry_is_alive_def)
    qed
    show "(cb_alive s k \<or> passed s k) = (k \<in> dom (cb_contents s))"
      if "int (cb_tail s) - int (cb_buffer_size s) \<le> k" "k < int (cb_tail s)" for k
      using that i(4) [of k] i(6) unfolding p by simp
    show "dom (cb_alive_bits s) = {..<cb_buffer_size s}" by (auto simp: i(6) split: if_splits)
  qed (use i(1-5) lv in \<open>simp_all add: i(6)\<close>)
qed

lemma cb_reachable_ok: "cb_reachable s \<Longrightarrow> cb_ok s"
  by (induction rule: cb_reachable.induct) (auto intro: cb_initialize_ok cb_next_ok)

section \<open>What the buffer guarantees\<close>

text \<open>The entry a reader is looking at stays in the buffer, unchanged, as long as it looks.\<close>

lemma guard_guards:
  assumes "cb_ok s" and "cb_combiner s n = Some (CBReading (RGuard start end cur val))"
  shows "cb_contents s (int cur) = Some val"
    and "stored_type_inv val (int cur) (cb_cell s (int cur)) (cb_unbounded_log_instance s)"
proof -
  have g: "int cur \<in> dom (cb_contents s)" "the (cb_contents s (int cur)) = val"
    using cb_ok_node(2) [OF assms] by simp_all
  then show "cb_contents s (int cur) = Some val" by auto
  show "stored_type_inv val (int cur) (cb_cell s (int cur)) (cb_unbounded_log_instance s)"
    using cb_okD(13) [OF assms(1) g(1)] g(2) by simp
qed

text \<open>Two combiners never append to the same index, nor one to an index another reads.\<close>

lemma appending_disjoint:
  assumes ok: "cb_ok s" and s: "cb_combiner s n = Some (CBAppending a t)" "cb_combiner s m = Some (CBAppending b u)" "n \<noteq> m"
  shows "{a..<t} \<inter> {b..<u} = {}"
  using cb_okD(10) [OF ok cb_ok_node(1) [OF ok s(1)] cb_ok_node(1) [OF ok s(2)] s(3)] s by auto

text \<open>A cell that is about to be written belongs to no index in the buffer that a reader may still reach.\<close>

lemma append_cell_free:
  assumes ok: "cb_ok s" and s: "cb_combiner s n = Some (CBAppending c t)" "c < t"
    and i: "m < cb_num_replicas s" "int (cb_lv s m) \<le> i" "i < int (cb_tail s)" "i \<in> dom (cb_contents s)"
  shows "log_entry_idx i (cb_buffer_size s) \<noteq> log_entry_idx (int c) (cb_buffer_size s)"
proof -
  note f = append_facts [OF ok s] and n = cb_ok_node [OF ok s(1)]
  obtain k where k: "k < cb_num_replicas s" "\<And>i. passed s i \<longleftrightarrow> i < int (cb_lv s k)"
    using passed_witness [OF cb_okD(1) [OF ok]] by blast
  have "\<not> passed s i" using i(1,2) by (force simp: passed_def)
  moreover have "i < int (cb_lv s k) + int (cb_buffer_size s)" using cb_okD(9) [OF ok k(1)] i(3) by linarith
  ultimately show ?thesis
    using f(2) f(4) [OF k(1)] f(5) i(4) unfolding k(2)
    by (intro log_entry_idx_wrap_around [where start = "int (cb_lv s k)"]) (auto simp: not_less)
qed

end
