(* ===== verification/NR_Unbounded_Inv.thy ===== *)
theory NR_Unbounded_Inv
  imports NR_Unbounded_Log
begin

text \<open>
  The invariant of the unbounded log is inductive. The two recursive range predicates become
  statements about the list of log indices a node wrote (\<open>entries_of\<close>); the rest of the
  invariant is put in a form over the parts of the state, with one monotonicity lemma for
  each kind of part.
\<close>

section \<open>Ranges of the log\<close>

definition entries_of :: "(LogIdx \<rightharpoonup> 'w LogEntry) \<Rightarrow> LogIdx \<Rightarrow> LogIdx \<Rightarrow> NodeId \<Rightarrow> LogIdx list" where
  "entries_of log lo hi n = filter (\<lambda>i. le_node_id (the (log i)) = n) [lo..<hi]"

lemma range_all_Suc:
  "lo < hi \<Longrightarrow> (\<forall>i. lo \<le> i \<and> i < hi \<longrightarrow> P i) \<longleftrightarrow> P lo \<and> (\<forall>i. lo + 1 \<le> i \<and> i < hi \<longrightarrow> P i)" for lo hi :: nat
  by (auto simp: Suc_le_eq) (metis le_neq_implies_less)

lemma no_node_iff:
  "LogRangeNoNodeId log lo hi n \<longleftrightarrow> (\<forall>i. lo \<le> i \<and> i < hi \<longrightarrow> i \<in> dom log \<and> le_node_id (the (log i)) \<noteq> n)"
proof (induction log lo hi n rule: LogRangeNoNodeId.induct)
  case (1 log start "end" n)
  show ?case
  proof (cases "start < end")
    case True
    show ?thesis
      unfolding range_all_Suc [OF True] 1 [OF True, symmetric]
      by (subst LogRangeNoNodeId.simps) (simp add: True)
  next
    case False
    then show ?thesis by (subst LogRangeNoNodeId.simps) auto
  qed
qed

lemma placed_at_iff:
  "(case u of Some (UPlaced op idx) \<Rightarrow> idx = lo | _ \<Rightarrow> False) \<longleftrightarrow> (\<exists>op. u = Some (UPlaced op lo))"
  by (auto split: option.splits UpdateState.splits)

lemma matches_iff:
  assumes "lo \<le> hi"
  shows "LogRangeMatchesQueue q log k lo hi n ups \<longleftrightarrow>
    (\<forall>i. lo \<le> i \<and> i < hi \<longrightarrow> i \<in> dom log) \<and> k + length (entries_of log lo hi n) = length q \<and>
    (\<forall>j<length (entries_of log lo hi n). \<exists>op. ups (q ! (k + j)) = Some (UPlaced op (entries_of log lo hi n ! j)))"
  using assms
proof (induction q log k lo hi n ups rule: LogRangeMatchesQueue.induct)
  case (1 q log k lo hi n ups)
  show ?case
  proof (cases "lo = hi")
    case True
    then show ?thesis by (subst LogRangeMatchesQueue.simps) (auto simp: entries_of_def)
  next
    case False
    then have lt: "lo < hi" using 1 by simp
    then have e: "entries_of log lo hi n =
        (if le_node_id (the (log lo)) = n then lo # entries_of log (lo + 1) hi n else entries_of log (lo + 1) hi n)"
      by (simp add: entries_of_def upt_conv_Cons)
    have r: "(\<forall>i. lo \<le> i \<and> i < hi \<longrightarrow> i \<in> dom log) \<longleftrightarrow>
        lo \<in> dom log \<and> (\<forall>i. lo + 1 \<le> i \<and> i < hi \<longrightarrow> i \<in> dom log)"
      by (rule range_all_Suc [OF lt])
    show ?thesis
    proof (cases "le_node_id (the (log lo)) = n")
      case True
      have "(\<forall>j<Suc m. P j) \<longleftrightarrow> P 0 \<and> (\<forall>j<m. P (Suc j))" for m and P :: "nat \<Rightarrow> bool"
        by (metis less_Suc_eq_0_disj)
      then show ?thesis
        using 1 lt True by (subst LogRangeMatchesQueue.simps) (auto simp: e r placed_at_iff)
    next
      case False
      then show ?thesis using 1 lt by (subst LogRangeMatchesQueue.simps) (auto simp: e r)
    qed
  qed
qed

lemma entries_of_cong:
  "(\<And>i. lo \<le> i \<Longrightarrow> i < hi \<Longrightarrow> log' i = log i) \<Longrightarrow> entries_of log' lo hi n = entries_of log lo hi n"
  unfolding entries_of_def by (rule filter_cong) auto

lemma entries_of_append:
  "lo \<le> hi \<Longrightarrow> entries_of (log(hi \<mapsto> e)) lo (Suc hi) n = entries_of log lo hi n @ (if le_node_id e = n then [hi] else [])"
  using entries_of_cong [of lo hi "log(hi \<mapsto> e)" log n] by (simp add: entries_of_def)

text \<open>A range without entries of the node, followed by one that matches, matches.\<close>

lemma no_node_empty: "LogRangeNoNodeId log lo hi n \<Longrightarrow> entries_of log lo hi n = []"
  by (auto simp: no_node_iff entries_of_def filter_empty_conv)

lemma matches_empty_queue:
  "lo \<le> hi \<Longrightarrow> LogRangeNoNodeId log lo hi n \<Longrightarrow> LogRangeMatchesQueue [] log 0 lo hi n ups"
  using no_node_empty [of log lo hi n] by (simp add: matches_iff no_node_iff)

section \<open>Updates that change\<close>

definition finished :: "('w, 'resp) UpdateState option \<Rightarrow> bool" where
  "finished u \<longleftrightarrow> (case u of None \<Rightarrow> True | Some u \<Rightarrow> is_UAppliedDone u)"

lemma finished_simps [simp]:
  "finished None" "finished (Some (UApplied r i))" "finished (Some (UDone r i))"
  "\<not> finished (Some (UInit w))" "\<not> finished (Some (UPlaced w i))"
  by (simp_all add: finished_def)

definition update_ok :: "('w, 'resp) UpdateState option \<Rightarrow> ('w, 'resp) UpdateState option \<Rightarrow> bool" where
  "update_ok u u' \<longleftrightarrow> u' = u \<or> (finished u \<and> finished u')"

lemma queue_done_iff: "QueueRidsUpdateDone q ups b \<longleftrightarrow> (\<forall>j<b. finished (ups (q ! j)))"
  by (simp add: QueueRidsUpdateDone_def finished_def)

lemma queue_placed_iff:
  "QueueRidsUpdatePlaced q ups b \<longleftrightarrow> (\<forall>j. b \<le> j \<and> j < length q \<longrightarrow> (\<exists>op i. ups (q ! j) = Some (UPlaced op i)))"
proof -
  have "(case u of None \<Rightarrow> False | Some u \<Rightarrow> is_UPlaced u) \<longleftrightarrow> (\<exists>op i. u = Some (UPlaced op i))"
    for u :: "('a, 'b) UpdateState option"
    by (cases u; simp) (metis is_UPlaced.elims(2) is_UPlaced.simps(1))
  then show ?thesis by (simp add: QueueRidsUpdatePlaced_def)
qed

lemma matches_placed:
  assumes "LogRangeMatchesQueue q log k lo hi n ups" and "lo \<le> hi"
  shows "QueueRidsUpdatePlaced q ups k"
  unfolding queue_placed_iff
proof (intro allI impI)
  fix j assume j: "k \<le> j \<and> j < length q"
  note m = assms(1) [unfolded matches_iff [OF assms(2)]]
  then have "j - k < length (entries_of log lo hi n)" using j by linarith
  then have "\<exists>op. ups (q ! (k + (j - k))) = Some (UPlaced op (entries_of log lo hi n ! (j - k)))" using m by blast
  then show "\<exists>op i. ups (q ! j) = Some (UPlaced op i)" using j by auto
qed

lemma matches_update:
  assumes "LogRangeMatchesQueue q log k lo hi n ups" and "lo \<le> hi"
    and "\<And>r. r \<in> set q \<Longrightarrow> update_ok (ups r) (ups' r)"
  shows "LogRangeMatchesQueue q log k lo hi n ups'"
proof -
  note m = assms(1) [unfolded matches_iff [OF assms(2)]]
  have "ups' (q ! (k + j)) = ups (q ! (k + j))" if j: "j < length (entries_of log lo hi n)" for j
  proof -
    have "update_ok (ups (q ! (k + j))) (ups' (q ! (k + j)))" using m j by (intro assms(3) nth_mem) linarith
    moreover obtain op where "ups (q ! (k + j)) = Some (UPlaced op (entries_of log lo hi n ! j))" using m j by blast
    ultimately show ?thesis by (simp add: update_ok_def)
  qed
  then show ?thesis using m by (simp add: matches_iff [OF assms(2)])
qed

lemma queue_done_update:
  assumes "QueueRidsUpdateDone q ups b" and "b \<le> length q" and "\<And>r. r \<in> set q \<Longrightarrow> update_ok (ups r) (ups' r)"
  shows "QueueRidsUpdateDone q ups' b"
  unfolding queue_done_iff
proof (intro allI impI)
  fix j assume j: "j < b"
  then have "finished (ups (q ! j))" using assms(1) by (simp add: queue_done_iff)
  moreover have "update_ok (ups (q ! j)) (ups' (q ! j))" using j assms(2) by (intro assms(3) nth_mem) simp
  ultimately show "finished (ups' (q ! j))" by (auto simp: update_ok_def)
qed

section \<open>The log grows\<close>

lemma no_node_append:
  "LogRangeNoNodeId log lo hi n \<Longrightarrow> lo \<le> hi \<Longrightarrow> le_node_id e \<noteq> n \<Longrightarrow> LogRangeNoNodeId (log(hi \<mapsto> e)) lo (Suc hi) n"
  by (auto simp: no_node_iff less_Suc_eq)

lemma matches_append_other:
  assumes "LogRangeMatchesQueue q log k lo hi n ups" and "lo \<le> hi" and "le_node_id e \<noteq> n"
  shows "LogRangeMatchesQueue q (log(hi \<mapsto> e)) k lo (Suc hi) n ups"
  using assms by (auto simp: matches_iff entries_of_append less_Suc_eq)

lemma matches_append_own:
  assumes "LogRangeMatchesQueue q log 0 lo hi n ups" and "lo \<le> hi" and "le_node_id e = n" and "r \<notin> set q"
  shows "LogRangeMatchesQueue (q @ [r]) (log(hi \<mapsto> e)) 0 lo (Suc hi) n (ups(r \<mapsto> UPlaced op hi))"
proof -
  note m = assms(1) [unfolded matches_iff [OF assms(2)]]
  let ?L = "entries_of log lo hi n"
  have "\<exists>w. (ups(r \<mapsto> UPlaced op hi)) ((q @ [r]) ! j) = Some (UPlaced w ((?L @ [hi]) ! j))" if "j < Suc (length ?L)" for j
  proof (cases "j = length ?L")
    case True
    then show ?thesis using m by (simp add: nth_append)
  next
    case False
    then have j: "j < length ?L" "j < length q" using that m by auto
    then have "q ! j \<noteq> r" using assms(4) by auto
    then show ?thesis using m j by (simp add: nth_append)
  qed
  then show ?thesis
    using m assms(2,3) by (auto simp: matches_iff entries_of_append less_Suc_eq)
qed

lemma matches_frame:
  assumes "LogRangeMatchesQueue q log k lo hi n ups" and "lo \<le> hi" and "hi \<le> t"
  shows "LogRangeMatchesQueue q (log(t \<mapsto> e)) k lo hi n ups"
  using assms entries_of_cong [of lo hi "log(t \<mapsto> e)" log n] by (simp add: matches_iff)

section \<open>The invariant, part by part\<close>

fun wf_comb ::
    "(LogIdx \<rightharpoonup> 'w LogEntry) \<Rightarrow> LogIdx \<Rightarrow> LogIdx \<Rightarrow> LogIdx \<Rightarrow> (ReqId \<rightharpoonup> ('w, 'resp) UpdateState) \<Rightarrow> NodeId \<Rightarrow>
     ULCombiner \<Rightarrow> bool" where
  "wf_comb log gtail vub lv ups n CReady \<longleftrightarrow> LogRangeNoNodeId log lv gtail n"
| "wf_comb log gtail vub lv ups n (CPlaced q) \<longleftrightarrow>
     LogRangeMatchesQueue q log 0 lv gtail n ups \<and> distinct q"
| "wf_comb log gtail vub lv ups n (CLoadedLocalVersion q l) \<longleftrightarrow>
     l = lv \<and> LogRangeMatchesQueue q log 0 lv gtail n ups \<and> distinct q"
| "wf_comb log gtail vub lv ups n (CLoop q l i t) \<longleftrightarrow>
     t \<le> gtail \<and> lv \<le> l \<and> l \<le> t \<and> i \<le> length q \<and> LogRangeMatchesQueue q log i l t n ups \<and>
     LogRangeNoNodeId log t gtail n \<and> QueueRidsUpdateDone q ups i \<and> distinct q"
| "wf_comb log gtail vub lv ups n (CUpdatedVersion q t) \<longleftrightarrow>
     t \<le> vub \<and> lv \<le> t \<and> LogRangeNoNodeId log t gtail n \<and> QueueRidsUpdateDone q ups (length q) \<and> distinct q"

text \<open>The version a node's replica is at, from its combiner and its published version.\<close>

fun comb_version :: "ULCombiner \<Rightarrow> LogIdx \<Rightarrow> LogIdx" where
  "comb_version CReady lv = lv"
| "comb_version (CPlaced _) lv = lv"
| "comb_version (CLoadedLocalVersion _ l) lv = l"
| "comb_version (CLoop _ l _ _) lv = l"
| "comb_version (CUpdatedVersion _ t) lv = t"

lemma current_local_version_eq:
  "current_local_version s n = comb_version (the (ul_combiner s n)) (the (ul_local_versions s n))"
  by (simp add: current_local_version_def split: ULCombiner.split)

lemma wf_combiner_iff:
  assumes "dom (ul_log s) = {..<ul_tail s}" and "ul_version_upper_bound s \<le> ul_tail s"
    and "the (ul_local_versions s n) \<le> ul_tail s"
  shows "wf_combiner_for_node_id s n \<longleftrightarrow>
    wf_comb (ul_log s) (ul_tail s) (ul_version_upper_bound s) (the (ul_local_versions s n)) (ul_local_updates s) n
      (the (ul_combiner s n))"
proof -
  have "LogContainsEntriesUpToHere (ul_log s) l" if "l \<le> ul_tail s" for l
    using assms(1) that by (auto simp: LogContainsEntriesUpToHere_def)
  then show ?thesis
    using assms(2,3) matches_placed
    by (cases "the (ul_combiner s n)") (auto simp: wf_combiner_for_node_id_def Let_def)
qed

fun read_ok ::
    "('r, 'w, 'v, 'resp) Dispatch \<Rightarrow> nat \<Rightarrow> LogIdx \<Rightarrow> (NodeId \<Rightarrow> LogIdx) \<Rightarrow> (LogIdx \<rightharpoonup> 'w LogEntry) \<Rightarrow>
     ('r, 'resp) ReadonlyState \<Rightarrow> bool" where
  "read_ok D N vub clv log (ROInit op n) \<longleftrightarrow> True"
| "read_ok D N vub clv log (ROVersionUpperBound op n b) \<longleftrightarrow> b \<le> vub"
| "read_ok D N vub clv log (ROReadyToRead op n b) \<longleftrightarrow> n < N \<and> b \<le> vub \<and> b \<le> clv n"
| "read_ok D N vub clv log (RODone op n b ret) \<longleftrightarrow> n < N \<and> b \<le> vub \<and> b \<le> clv n \<and>
     (\<exists>v. b \<le> v \<and> v \<le> vub \<and> v \<le> clv n \<and> ret = dispatch_spec D (ul_compute_nrstate_at_version D log v) op)"

fun update_entry_ok ::
    "('r, 'w, 'v, 'resp) Dispatch \<Rightarrow> LogIdx \<Rightarrow> LogIdx \<Rightarrow> (LogIdx \<rightharpoonup> 'w LogEntry) \<Rightarrow> ('w, 'resp) UpdateState \<Rightarrow> bool" where
  "update_entry_ok D gtail vub log (UInit op) \<longleftrightarrow> True"
| "update_entry_ok D gtail vub log (UPlaced op i) \<longleftrightarrow> i < gtail"
| "update_entry_ok D gtail vub log (UApplied ret i) \<longleftrightarrow> i < gtail \<and>
     ret = snd (dispatch_mut_spec D (ul_compute_nrstate_at_version D log i) (le_op (the (log i))))"
| "update_entry_ok D gtail vub log (UDone ret i) \<longleftrightarrow> i < vub \<and>
     ret = snd (dispatch_mut_spec D (ul_compute_nrstate_at_version D log i) (le_op (the (log i))))"

lemma nrstate_cong:
  "(\<And>i. i < v \<Longrightarrow> log' i = log i) \<Longrightarrow> ul_compute_nrstate_at_version D log' v = ul_compute_nrstate_at_version D log v"
  by (induction v) simp_all

lemma read_ok_mono:
  assumes "read_ok D N vub clv log r" and "vub \<le> vub'" and "\<And>n. n < N \<Longrightarrow> clv n \<le> clv' n"
    and "\<And>i. i < vub \<Longrightarrow> log' i = log i"
  shows "read_ok D N vub' clv' log' r"
proof (cases r)
  case (RODone op n b ret)
  then obtain v where v: "n < N" "b \<le> vub" "b \<le> clv n" "b \<le> v" "v \<le> vub" "v \<le> clv n"
      "ret = dispatch_spec D (ul_compute_nrstate_at_version D log v) op"
    using assms(1) by auto
  then have "ul_compute_nrstate_at_version D log' v = ul_compute_nrstate_at_version D log v"
    by (intro nrstate_cong assms(4)) simp
  then show ?thesis using RODone v assms(2) assms(3) [OF v(1)] by (auto intro!: exI [of _ v])
next
  case (ROReadyToRead op n b)
  then show ?thesis using assms(1,2) assms(3) [of n] by auto
qed (use assms in auto)

lemma update_entry_ok_mono:
  assumes "update_entry_ok D gtail vub log u" and "gtail \<le> gtail'" "vub \<le> vub'" "vub \<le> gtail"
    and "\<And>i. i < gtail \<Longrightarrow> log' i = log i"
  shows "update_entry_ok D gtail' vub' log' u"
proof -
  have "ul_compute_nrstate_at_version D log' i = ul_compute_nrstate_at_version D log i \<and> log' i = log i" if "i < gtail" for i
    using that by (intro conjI nrstate_cong assms(5)) simp_all
  then show ?thesis using assms by (cases u) auto
qed

definition ul_inv_parts ::
    "('r, 'w, 'v, 'resp) Dispatch \<Rightarrow> nat \<Rightarrow> (LogIdx \<rightharpoonup> 'w LogEntry) \<Rightarrow> LogIdx \<Rightarrow> (NodeId \<rightharpoonup> 'v) \<Rightarrow> (NodeId \<rightharpoonup> LogIdx) \<Rightarrow>
     LogIdx \<Rightarrow> (ReqId \<rightharpoonup> ('r, 'resp) ReadonlyState) \<Rightarrow> (ReqId \<rightharpoonup> ('w, 'resp) UpdateState) \<Rightarrow>
     (NodeId \<rightharpoonup> ULCombiner) \<Rightarrow> bool" where
  "ul_inv_parts D N log gtail reps lv vub reads ups comb \<longleftrightarrow>
     finite (dom reads) \<and> finite (dom ups) \<and>
     dom reps = {..<N} \<and> dom comb = {..<N} \<and> dom lv = {..<N} \<and> dom log = {..<gtail} \<and> vub \<le> gtail \<and>
     (\<forall>n<N. the (lv n) \<le> vub) \<and>
     (\<forall>rid r. reads rid = Some r \<longrightarrow> read_ok D N vub (\<lambda>n. comb_version (the (comb n)) (the (lv n))) log r) \<and>
     (\<forall>rid u. ups rid = Some u \<longrightarrow> update_entry_ok D gtail vub log u) \<and>
     (\<forall>n<N. wf_comb log gtail vub (the (lv n)) ups n (the (comb n))) \<and>
     (\<forall>n<N. \<forall>m<N. n \<noteq> m \<longrightarrow> set (queued_ops (the (comb n))) \<inter> set (queued_ops (the (comb m))) = {}) \<and>
     (\<forall>n<N. the (reps n) = ul_compute_nrstate_at_version D log (comb_version (the (comb n)) (the (lv n)))) \<and>
     (\<forall>n<N. comb_version (the (comb n)) (the (lv n)) \<le> gtail)"

abbreviation ul_parts where
  "ul_parts D s \<equiv> ul_inv_parts D (ul_num_replicas s) (ul_log s) (ul_tail s) (ul_replicas s) (ul_local_versions s)
     (ul_version_upper_bound s) (ul_local_reads s) (ul_local_updates s) (ul_combiner s)"

lemma set_iff_dom: "(\<forall>n. n < N \<longleftrightarrow> n \<in> dom m) \<longleftrightarrow> dom m = {..<N::nat}"
  by auto

lemma log_complete_iff: "inv_log_complete s \<longleftrightarrow> dom (ul_log s) = {..<ul_tail s}"
  unfolding inv_log_complete_def LogContainsEntriesUpToHere_def LogNoEntriesFromHere_def set_eq_iff lessThan_iff
  by (metis not_less)

lemma wf_read_results_iff:
  assumes "dom (ul_combiner s) = {..<ul_num_replicas s}" "dom (ul_local_versions s) = {..<ul_num_replicas s}"
    "dom (ul_replicas s) = {..<ul_num_replicas s}"
  shows "wf_readstate s r \<and> read_results_match D s r \<longleftrightarrow>
    read_ok D (ul_num_replicas s) (ul_version_upper_bound s)
      (\<lambda>n. comb_version (the (ul_combiner s n)) (the (ul_local_versions s n))) (ul_log s) r"
proof -
  have "wf_node_id s n \<longleftrightarrow> n < ul_num_replicas s" for n
    using assms by (simp add: wf_node_id_def)
  then show ?thesis
    by (cases r) (auto simp: rangeincl_def current_local_version_eq)
qed

lemma update_entry_iff:
  assumes "dom (ul_log s) = {..<ul_tail s}" and "ul_version_upper_bound s \<le> ul_tail s"
  shows "inv_local_updates_wf s u \<and> update_results_match D s u \<longleftrightarrow>
    update_entry_ok D (ul_tail s) (ul_version_upper_bound s) (ul_log s) u"
  using assms by (cases u) auto

lemma ul_invariant_iff: "ul_invariant D s \<longleftrightarrow> ul_parts D s"
proof (cases "dom (ul_replicas s) = {..<ul_num_replicas s} \<and> dom (ul_combiner s) = {..<ul_num_replicas s} \<and>
    dom (ul_local_versions s) = {..<ul_num_replicas s} \<and> dom (ul_log s) = {..<ul_tail s} \<and>
    ul_version_upper_bound s \<le> ul_tail s \<and>
    (\<forall>n<ul_num_replicas s. the (ul_local_versions s n) \<le> ul_version_upper_bound s)")
  case True
  have lv: "the (ul_local_versions s n) \<le> ul_tail s" if "n < ul_num_replicas s" for n
    by (rule le_trans [where j = "ul_version_upper_bound s"]) (use True that in blast)+
  have comb: "combiner_states_wf s \<longleftrightarrow> (\<forall>n<ul_num_replicas s.
      wf_comb (ul_log s) (ul_tail s) (ul_version_upper_bound s) (the (ul_local_versions s n)) (ul_local_updates s) n
        (the (ul_combiner s n)))"
  proof -
    have "dom (ul_combiner s) = {..<ul_num_replicas s}" using True by blast
    then have "combiner_states_wf s \<longleftrightarrow> (\<forall>n<ul_num_replicas s. wf_combiner_for_node_id s n)"
      by (simp only: combiner_states_wf_def Ball_def lessThan_iff)
    also have "\<dots> \<longleftrightarrow> (\<forall>n<ul_num_replicas s.
      wf_comb (ul_log s) (ul_tail s) (ul_version_upper_bound s) (the (ul_local_versions s n)) (ul_local_updates s) n
        (the (ul_combiner s n)))"
      by (intro all_cong wf_combiner_iff lv) (use True in blast)+
    finally show ?thesis .
  qed
  have reads: "inv_readonly_requests_wf s \<and> inv_read_results D s \<longleftrightarrow>
      (\<forall>rid r. ul_local_reads s rid = Some r \<longrightarrow> read_ok D (ul_num_replicas s) (ul_version_upper_bound s)
        (\<lambda>n. comb_version (the (ul_combiner s n)) (the (ul_local_versions s n))) (ul_log s) r)"
    unfolding inv_readonly_requests_wf_def inv_read_results_def ball_conj_distrib [symmetric]
    using True wf_read_results_iff [of s _ D] ball_dom_iff [of "ul_local_reads s"
      "\<lambda>_ r. read_ok D (ul_num_replicas s) (ul_version_upper_bound s)
        (\<lambda>n. comb_version (the (ul_combiner s n)) (the (ul_local_versions s n))) (ul_log s) r"] by simp
  have updates: "inv_local_updates s \<and> inv_update_results D s \<longleftrightarrow>
      (\<forall>rid u. ul_local_updates s rid = Some u \<longrightarrow>
        update_entry_ok D (ul_tail s) (ul_version_upper_bound s) (ul_log s) u)"
    unfolding inv_local_updates_def inv_update_results_def ball_conj_distrib [symmetric]
    using True update_entry_iff [of s _ D] ball_dom_iff [of "ul_local_updates s"
      "\<lambda>_ u. update_entry_ok D (ul_tail s) (ul_version_upper_bound s) (ul_log s) u"] by simp
  have fin: "inv_request_ids_finite s \<longleftrightarrow> finite (dom (ul_local_reads s)) \<and> finite (dom (ul_local_updates s))"
    using True by (simp add: inv_request_ids_finite_def)
  have doms: "inv_replicas_complete s" "inv_local_combiner_complete s" "combiner_local_versions_domains s"
      "combiner_replicas_domains s" "inv_version_in_range s" "inv_local_version_upper_bound_heads s" "inv_log_complete s"
    using True by (simp_all add: inv_replicas_complete_def inv_local_combiner_complete_def
        combiner_local_versions_domains_def combiner_replicas_domains_def inv_version_in_range_def
        inv_local_version_upper_bound_heads_def log_complete_iff)
  have rest: "inv_combiner_rids_distinct s \<longleftrightarrow> (\<forall>n<ul_num_replicas s. \<forall>m<ul_num_replicas s. n \<noteq> m \<longrightarrow>
        set (queued_ops (the (ul_combiner s n))) \<inter> set (queued_ops (the (ul_combiner s m))) = {})"
      "replica_state D s \<longleftrightarrow> (\<forall>n<ul_num_replicas s. the (ul_replicas s n) = ul_compute_nrstate_at_version D (ul_log s)
        (comb_version (the (ul_combiner s n)) (the (ul_local_versions s n))))"
      "current_local_version_in_range s \<longleftrightarrow>
        (\<forall>n<ul_num_replicas s. comb_version (the (ul_combiner s n)) (the (ul_local_versions s n)) \<le> ul_tail s)"
    using True by (simp_all add: inv_combiner_rids_distinct_def replica_state_def current_local_version_in_range_def
        current_local_version_eq Ball_def)
  have "ul_invariant D s \<longleftrightarrow> inv_request_ids_finite s \<and> (inv_readonly_requests_wf s \<and> inv_read_results D s) \<and>
      (inv_local_updates s \<and> inv_update_results D s) \<and> combiner_states_wf s \<and>
      inv_combiner_rids_distinct s \<and> replica_state D s \<and> current_local_version_in_range s"
    using doms by (simp add: ul_invariant_def conj_ac)
  also have "\<dots> \<longleftrightarrow> ul_parts D s"
  proof -
    have lvs: "(\<forall>n<ul_num_replicas s. the (ul_local_versions s n) \<le> ul_version_upper_bound s) \<longleftrightarrow> True" using True by blast
    show ?thesis
      unfolding ul_inv_parts_def fin reads updates comb rest lvs using True by (simp only: conj_assoc simp_thms)
  qed
  finally show ?thesis .
next
  case False
  have "\<not> ul_parts D s" using False unfolding ul_inv_parts_def by argo
  moreover have "\<not> ul_invariant D s"
  proof
    assume "ul_invariant D s"
    then have i: "inv_replicas_complete s" "inv_local_combiner_complete s" "combiner_local_versions_domains s"
      "inv_version_in_range s" "inv_local_version_upper_bound_heads s" "inv_log_complete s"
      unfolding ul_invariant_def by blast+
    have "dom (ul_replicas s) = {..<ul_num_replicas s}" "dom (ul_combiner s) = {..<ul_num_replicas s}"
      using i(1,2) by (simp_all only: inv_replicas_complete_def inv_local_combiner_complete_def set_iff_dom)
    moreover from this have "dom (ul_local_versions s) = {..<ul_num_replicas s}"
      using i(3) unfolding combiner_local_versions_domains_def by blast
    ultimately show False
      using False i(4-6) by (auto simp: log_complete_iff inv_version_in_range_def inv_local_version_upper_bound_heads_def)
  qed
  ultimately show ?thesis by blast
qed

lemma ul_initialize_parts: "ul_parts D (ul_initialize D n)"
  by (simp add: ul_inv_parts_def ul_initialize_def map_below_def no_node_iff dom_def lessThan_def)

section \<open>Preservation\<close>

lemma ul_partsD:
  assumes "ul_inv_parts D N log gtail reps lv vub reads ups comb"
  shows p_fin: "finite (dom reads)" "finite (dom ups)"
    and p_dom: "dom reps = {..<N}" "dom comb = {..<N}" "dom lv = {..<N}" "dom log = {..<gtail}"
    and p_vub: "vub \<le> gtail"
    and p_lv: "n < N \<Longrightarrow> the (lv n) \<le> vub"
    and p_read: "reads rid = Some r \<Longrightarrow> read_ok D N vub (\<lambda>n. comb_version (the (comb n)) (the (lv n))) log r"
    and p_update: "ups rid = Some u \<Longrightarrow> update_entry_ok D gtail vub log u"
    and p_comb: "n < N \<Longrightarrow> wf_comb log gtail vub (the (lv n)) ups n (the (comb n))"
    and p_distinct: "n < N \<Longrightarrow> m < N \<Longrightarrow> n \<noteq> m \<Longrightarrow>
      set (queued_ops (the (comb n))) \<inter> set (queued_ops (the (comb m))) = {}"
    and p_replica: "n < N \<Longrightarrow> the (reps n) = ul_compute_nrstate_at_version D log (comb_version (the (comb n)) (the (lv n)))"
    and p_version: "n < N \<Longrightarrow> comb_version (the (comb n)) (the (lv n)) \<le> gtail"
proof -
  note i = assms [unfolded ul_inv_parts_def]
  show "finite (dom reads)" "finite (dom ups)" "dom reps = {..<N}" "dom comb = {..<N}" "dom lv = {..<N}"
      "dom log = {..<gtail}" "vub \<le> gtail"
    using i by - (elim conjE, assumption)+
  have "\<forall>n<N. the (lv n) \<le> vub" using i by (elim conjE) assumption
  then show "n < N \<Longrightarrow> the (lv n) \<le> vub" by blast
  have "\<forall>rid r. reads rid = Some r \<longrightarrow> read_ok D N vub (\<lambda>n. comb_version (the (comb n)) (the (lv n))) log r"
    using i by (elim conjE) assumption
  then show "reads rid = Some r \<Longrightarrow> read_ok D N vub (\<lambda>n. comb_version (the (comb n)) (the (lv n))) log r" by blast
  have "\<forall>rid u. ups rid = Some u \<longrightarrow> update_entry_ok D gtail vub log u" using i by (elim conjE) assumption
  then show "ups rid = Some u \<Longrightarrow> update_entry_ok D gtail vub log u" by blast
  have "\<forall>n<N. wf_comb log gtail vub (the (lv n)) ups n (the (comb n))" using i by (elim conjE) assumption
  then show "n < N \<Longrightarrow> wf_comb log gtail vub (the (lv n)) ups n (the (comb n))" by blast
  have "\<forall>n<N. \<forall>m<N. n \<noteq> m \<longrightarrow> set (queued_ops (the (comb n))) \<inter> set (queued_ops (the (comb m))) = {}"
    using i by (elim conjE) assumption
  then show "n < N \<Longrightarrow> m < N \<Longrightarrow> n \<noteq> m \<Longrightarrow>
      set (queued_ops (the (comb n))) \<inter> set (queued_ops (the (comb m))) = {}" by blast
  have "\<forall>n<N. the (reps n) = ul_compute_nrstate_at_version D log (comb_version (the (comb n)) (the (lv n)))"
    using i by (elim conjE) assumption
  then show "n < N \<Longrightarrow> the (reps n) = ul_compute_nrstate_at_version D log (comb_version (the (comb n)) (the (lv n)))" by blast
  have "\<forall>n<N. comb_version (the (comb n)) (the (lv n)) \<le> gtail" using i by (elim conjE) assumption
  then show "n < N \<Longrightarrow> comb_version (the (comb n)) (the (lv n)) \<le> gtail" by blast
qed

text \<open>A read request changes to a state that is correct.\<close>

lemma parts_read:
  assumes inv: "ul_inv_parts D N log gtail reps lv vub reads ups comb"
    and r: "read_ok D N vub (\<lambda>n. comb_version (the (comb n)) (the (lv n))) log r"
  shows "ul_inv_parts D N log gtail reps lv vub (reads(rid \<mapsto> r)) ups comb"
  using inv r unfolding ul_inv_parts_def by simp

lemma parts_read_remove:
  "ul_inv_parts D N log gtail reps lv vub reads ups comb \<Longrightarrow>
     ul_inv_parts D N log gtail reps lv vub (reads(rid := None)) ups comb"
  unfolding ul_inv_parts_def by simp

text \<open>Update requests change: the combiners whose queues hold them must not notice.\<close>

lemma wf_comb_update:
  assumes "wf_comb log gtail vub lv ups n c" and "lv \<le> gtail"
    and "\<And>r. r \<in> set (queued_ops c) \<Longrightarrow> update_ok (ups r) (ups' r)"
  shows "wf_comb log gtail vub lv ups' n c"
  using assms matches_update [of _ log _ _ _ n ups ups'] queue_done_update [of _ ups _ ups']
  by (cases c) auto

lemma wf_comb_vub: "wf_comb log gtail vub lv ups n c \<Longrightarrow> vub \<le> vub' \<Longrightarrow> wf_comb log gtail vub' lv ups n c"
  by (cases c) auto

lemma wf_comb_queue_not_init:
  assumes "wf_comb log gtail vub lv ups n c" and "lv \<le> gtail" and "r \<in> set (queued_ops c)"
  shows "ups r \<noteq> Some (UInit op)"
proof -
  have placed: "ups r \<noteq> Some (UInit op)" if "QueueRidsUpdatePlaced q ups 0" "r \<in> set q" for q
    using that by (auto simp: queue_placed_iff in_set_conv_nth)
  have "ups r \<noteq> Some (UInit op)"
    if qs: "QueueRidsUpdatePlaced q ups i" "QueueRidsUpdateDone q ups i" "r \<in> set q" for q i
  proof -
    obtain j where j: "j < length q" "r = q ! j" using qs(3) by (auto simp: in_set_conv_nth)
    show ?thesis
    proof (cases "j < i")
      case True
      then have "finished (ups r)" using qs(2) j by (simp add: queue_done_iff)
      then show ?thesis by auto
    next
      case False
      then have "\<exists>w k. ups r = Some (UPlaced w k)" using qs(1) j by (simp add: queue_placed_iff)
      then show ?thesis by auto
    qed
  qed
  note queue = this
  have last: "QueueRidsUpdatePlaced q ups (length q)" for q by (auto simp: queue_placed_iff)
  show ?thesis
  proof (cases c)
    case (CPlaced q)
    then show ?thesis using assms placed [OF matches_placed [of q log 0 lv gtail n ups]] by simp
  next
    case (CLoadedLocalVersion q l)
    then show ?thesis using assms placed [OF matches_placed [of q log 0 lv gtail n ups]] by simp
  next
    case (CLoop q l i t)
    then show ?thesis using assms queue [OF matches_placed [of q log i l t n ups]] by simp
  next
    case (CUpdatedVersion q t)
    then show ?thesis using assms queue [OF last [of q]] by simp
  qed (use assms(3) in simp)
qed

lemma parts_update:
  assumes inv: "ul_inv_parts D N log gtail reps lv vub reads ups comb"
    and u: "update_entry_ok D gtail vub log u"
    and ok: "update_ok (ups rid) (Some u) \<or> (\<forall>n<N. rid \<notin> set (queued_ops (the (comb n))))"
  shows "ul_inv_parts D N log gtail reps lv vub reads (ups(rid \<mapsto> u)) comb"
proof -
  have "wf_comb log gtail vub (the (lv n)) (ups(rid \<mapsto> u)) n (the (comb n))" if n: "n < N" for n
  proof (rule wf_comb_update [OF p_comb [OF inv n]])
    show "the (lv n) \<le> gtail" using p_lv [OF inv n] p_vub [OF inv] by simp
    show "update_ok (ups r) ((ups(rid \<mapsto> u)) r)" if "r \<in> set (queued_ops (the (comb n)))" for r
      using ok that n by (cases "r = rid") (auto simp: update_ok_def)
  qed
  then show ?thesis using inv u unfolding ul_inv_parts_def by simp
qed

lemma parts_update_remove:
  assumes inv: "ul_inv_parts D N log gtail reps lv vub reads ups comb" and "finished (ups rid)"
  shows "ul_inv_parts D N log gtail reps lv vub reads (ups(rid := None)) comb"
proof -
  have "wf_comb log gtail vub (the (lv n)) (ups(rid := None)) n (the (comb n))" if n: "n < N" for n
  proof (rule wf_comb_update [OF p_comb [OF inv n]])
    show "the (lv n) \<le> gtail" using p_lv [OF inv n] p_vub [OF inv] by simp
  qed (use assms(2) in \<open>simp add: update_ok_def\<close>)
  then show ?thesis using inv unfolding ul_inv_parts_def by simp
qed

text \<open>
  A combiner moves to another phase, its replica with it, and the updates of its queue may
  change as well.
\<close>

lemma parts_combiner_updates:
  assumes inv: "ul_inv_parts D N log gtail reps lv vub reads ups comb" and n: "n < N"
    and wf: "wf_comb log gtail vub (the (lv n)) ups' n c"
    and queue: "set (queued_ops c) \<subseteq> set (queued_ops (the (comb n)))"
    and version: "comb_version (the (comb n)) (the (lv n)) \<le> comb_version c (the (lv n))"
      "comb_version c (the (lv n)) \<le> gtail"
    and rep: "v = ul_compute_nrstate_at_version D log (comb_version c (the (lv n)))"
    and ups: "finite (dom ups')" "\<And>i u. ups' i = Some u \<Longrightarrow> update_entry_ok D gtail vub log u"
    and other: "\<And>m r. m < N \<Longrightarrow> m \<noteq> n \<Longrightarrow> r \<in> set (queued_ops (the (comb m))) \<Longrightarrow> ups' r = ups r"
  shows "ul_inv_parts D N log gtail (reps(n \<mapsto> v)) lv vub reads ups' (comb(n \<mapsto> c))"
proof -
  have "read_ok D N vub (\<lambda>m. comb_version (the ((comb(n \<mapsto> c)) m)) (the (lv m))) log r" if "reads i = Some r" for i r
    by (rule read_ok_mono [OF p_read [OF inv that]]) (use version in auto)
  moreover have "set (queued_ops (the ((comb(n \<mapsto> c)) k))) \<inter> set (queued_ops (the ((comb(n \<mapsto> c)) m))) = {}"
    if "k < N" "m < N" "k \<noteq> m" for k m
    using p_distinct [OF inv that] queue that(3) by auto
  moreover have "wf_comb log gtail vub (the (lv m)) ups' m (the ((comb(n \<mapsto> c)) m))" if m: "m < N" for m
  proof (cases "m = n")
    case False
    have "the (lv m) \<le> gtail" using p_lv [OF inv m] p_vub [OF inv] by simp
    then have "wf_comb log gtail vub (the (lv m)) ups' m (the (comb m))"
      by (rule wf_comb_update [OF p_comb [OF inv m]]) (use other [OF m False] in \<open>simp add: update_ok_def\<close>)
    then show ?thesis using False by simp
  qed (use wf in simp)
  moreover have "the ((reps(n \<mapsto> v)) m) =
      ul_compute_nrstate_at_version D log (comb_version (the ((comb(n \<mapsto> c)) m)) (the (lv m)))" if "m < N" for m
    using rep p_replica [OF inv that] by simp
  moreover have "comb_version (the ((comb(n \<mapsto> c)) m)) (the (lv m)) \<le> gtail" if "m < N" for m
    using version p_version [OF inv that] by simp
  moreover have "dom (reps(n \<mapsto> v)) = {..<N}" "dom (comb(n \<mapsto> c)) = {..<N}"
    using p_dom [OF inv] n by auto
  ultimately show ?thesis
    using p_fin(1) [OF inv] ups p_dom(3,4) [OF inv] p_vub [OF inv] p_lv [OF inv] unfolding ul_inv_parts_def
    by (intro conjI allI impI) assumption+
qed

lemma parts_combiner:
  assumes inv: "ul_inv_parts D N log gtail reps lv vub reads ups comb" and "n < N"
    and "wf_comb log gtail vub (the (lv n)) ups n c" "set (queued_ops c) \<subseteq> set (queued_ops (the (comb n)))"
    and "comb_version (the (comb n)) (the (lv n)) \<le> comb_version c (the (lv n))"
      "comb_version c (the (lv n)) \<le> gtail"
    and "v = ul_compute_nrstate_at_version D log (comb_version c (the (lv n)))"
  shows "ul_inv_parts D N log gtail (reps(n \<mapsto> v)) lv vub reads ups (comb(n \<mapsto> c))"
  by (rule parts_combiner_updates [OF assms p_fin(2) [OF inv] p_update [OF inv] refl])

lemma parts_phase:
  assumes inv: "ul_inv_parts D N log gtail reps lv vub reads ups comb" and n: "comb n = Some c0"
    and wf: "wf_comb log gtail vub (the (lv n)) ups n c"
    and queue: "set (queued_ops c) \<subseteq> set (queued_ops c0)"
    and version: "comb_version c (the (lv n)) = comb_version c0 (the (lv n))"
  shows "ul_inv_parts D N log gtail reps lv vub reads ups (comb(n \<mapsto> c))"
proof -
  have "n \<in> dom comb" using n by blast
  then have N: "n < N" using p_dom(2) [OF inv] by simp
  have "n \<in> dom reps" using p_dom(1) [OF inv] N by simp
  then have "reps(n \<mapsto> the (reps n)) = reps" by auto
  then show ?thesis
    using parts_combiner [OF inv N wf, of "the (reps n)"] queue version n p_version [OF inv N] p_replica [OF inv N] by simp
qed

text \<open>The version upper bound grows.\<close>

lemma parts_vub:
  assumes inv: "ul_inv_parts D N log gtail reps lv vub reads ups comb" and "vub \<le> vub'" "vub' \<le> gtail"
  shows "ul_inv_parts D N log gtail reps lv vub' reads ups comb"
proof -
  have "the (lv n) \<le> vub'" if "n < N" for n using p_lv [OF inv that] assms(2) by simp
  moreover have "read_ok D N vub' (\<lambda>n. comb_version (the (comb n)) (the (lv n))) log r" if "reads rid = Some r" for rid r
    by (rule read_ok_mono [OF p_read [OF inv that] assms(2)]) simp_all
  moreover have "update_entry_ok D gtail vub' log u" if "ups rid = Some u" for rid u
    by (rule update_entry_ok_mono [OF p_update [OF inv that] _ assms(2) p_vub [OF inv]]) simp_all
  moreover have "wf_comb log gtail vub' (the (lv n)) ups n (the (comb n))" if "n < N" for n
    by (rule wf_comb_vub [OF p_comb [OF inv that] assms(2)])
  ultimately show ?thesis
    using p_fin [OF inv] p_dom [OF inv] assms(3) p_distinct [OF inv] p_replica [OF inv] p_version [OF inv]
    unfolding ul_inv_parts_def by (intro conjI allI impI) assumption+
qed

text \<open>One entry is appended to the log.\<close>

lemma wf_comb_append:
  assumes "wf_comb log gtail vub lv ups n c" and "lv \<le> gtail" and "le_node_id e \<noteq> n" and "vub \<le> gtail"
  shows "wf_comb (log(gtail \<mapsto> e)) (Suc gtail) vub lv ups n c"
  using assms no_node_append [of log _ gtail n e] matches_append_other [of _ log _ _ gtail n ups e]
    matches_frame [of _ log _ _ _ n ups gtail e]
  by (cases c) auto

lemma parts_append:
  assumes inv: "ul_inv_parts D N log gtail reps lv vub reads ups comb" and n: "comb n = Some (CPlaced q)"
    and r: "ups rid = Some (UInit op)"
  shows "ul_inv_parts D N (log(gtail \<mapsto> \<lparr>le_op = op, le_node_id = n\<rparr>)) (Suc gtail) reps lv vub reads
    (ups(rid \<mapsto> UPlaced op gtail)) (comb(n \<mapsto> CPlaced (q @ [rid])))"
proof -
  let ?log = "log(gtail \<mapsto> \<lparr>le_op = op, le_node_id = n\<rparr>)" and ?ups = "ups(rid \<mapsto> UPlaced op gtail)"
  let ?comb = "comb(n \<mapsto> CPlaced (q @ [rid]))"
  have "n \<in> dom comb" using n by blast
  then have N: "n < N" using p_dom(2) [OF inv] by simp
  have lv: "the (lv m) \<le> gtail" if "m < N" for m using p_lv [OF inv that] p_vub [OF inv] by simp
  have fresh: "rid \<notin> set (queued_ops (the (comb m)))" if "m < N" for m
    using wf_comb_queue_not_init [OF p_comb [OF inv that] lv [OF that]] r by blast
  have vers: "comb_version (the (?comb m)) (the (lv m)) = comb_version (the (comb m)) (the (lv m))" for m
    using n by simp
  have log: "?log i = log i" if "i < gtail" for i using that by simp
  have "wf_comb ?log (Suc gtail) vub (the (lv m)) ?ups m (the (?comb m))" if m: "m < N" for m
  proof (cases "m = n")
    case True
    then have "LogRangeMatchesQueue q log 0 (the (lv n)) gtail n ups" "distinct q" "rid \<notin> set q"
      using p_comb [OF inv N] fresh [OF N] n by simp_all
    then show ?thesis using True matches_append_own [OF _ lv [OF N], of q log n ups] by simp
  next
    case False
    have "wf_comb log gtail vub (the (lv m)) ?ups m (the (comb m))"
      by (rule wf_comb_update [OF p_comb [OF inv m] lv [OF m]]) (use fresh [OF m] in \<open>auto simp: update_ok_def\<close>)
    from wf_comb_append [OF this lv [OF m] _ p_vub [OF inv]] show ?thesis using False by simp
  qed
  moreover have "set (queued_ops (the (?comb k))) \<inter> set (queued_ops (the (?comb m))) = {}"
    if km: "k < N" "m < N" "k \<noteq> m" for k m
    using p_distinct [OF inv km] fresh [OF km(1)] fresh [OF km(2)] n km(3) by auto
  moreover have "read_ok D N vub (\<lambda>m. comb_version (the (?comb m)) (the (lv m))) ?log r" if "reads i = Some r" for i r
    unfolding vers using p_vub [OF inv] by (intro read_ok_mono [OF p_read [OF inv that]]) (auto intro!: log)
  moreover have "update_entry_ok D (Suc gtail) vub ?log u" if "?ups i = Some u" for i u
  proof (cases "i = rid")
    case False
    then have "ups i = Some u" using that by simp
    from update_entry_ok_mono [OF p_update [OF inv this] _ order_refl p_vub [OF inv]] show ?thesis using log by simp
  qed (use that in auto)
  moreover have "the (reps m) = ul_compute_nrstate_at_version D ?log (comb_version (the (?comb m)) (the (lv m)))"
    if "m < N" for m
    unfolding vers p_replica [OF inv that] using p_version [OF inv that]
    by (intro nrstate_cong [symmetric]) simp
  moreover have "comb_version (the (?comb m)) (the (lv m)) \<le> Suc gtail" if "m < N" for m
    unfolding vers using p_version [OF inv that] by simp
  moreover have "dom ?log = {..<Suc gtail}" "dom ?comb = {..<N}" "finite (dom ?ups)" "vub \<le> Suc gtail"
    using p_dom [OF inv] p_fin [OF inv] p_vub [OF inv] N by auto
  ultimately show ?thesis
    using p_fin(1) [OF inv] p_dom(1,3) [OF inv] p_lv [OF inv]
    unfolding ul_inv_parts_def by (intro conjI allI impI) assumption+
qed

end
