(* ===== verification/NR_Unbounded_Steps.thy ===== *)
theory NR_Unbounded_Steps
  imports NR_Unbounded_Inv
begin

text \<open>
  Every transition of the unbounded log keeps its invariant, and so do tickets that enter and
  stubs that leave. The safety conditions the source states as properties and assertions of
  the machine follow.
\<close>

section \<open>Reads\<close>

lemma readonly_version_upper_bound_inv:
  assumes inv: "ul_parts D s" and step: "readonly_version_upper_bound s rid = Some s'"
  shows "ul_parts D s'"
proof -
  obtain op n where "s' = set_read s rid (ROVersionUpperBound op n (ul_version_upper_bound s))"
    using step by (auto simp: readonly_version_upper_bound_def split: option.splits ReadonlyState.splits)
  then show ?thesis using parts_read [OF inv] by simp
qed

lemma readonly_ready_to_read_inv:
  assumes inv: "ul_parts D s" and step: "readonly_ready_to_read s rid = Some s'"
  shows "ul_parts D s'"
proof -
  obtain op n b h where s: "ul_local_reads s rid = Some (ROVersionUpperBound op n b)"
      "ul_local_versions s n = Some h" "b \<le> h" "s' = set_read s rid (ROReadyToRead op n b)"
    using step by (auto simp: readonly_ready_to_read_def split: option.splits ReadonlyState.splits if_splits)
  have "n \<in> dom (ul_local_versions s)" using s(2) by blast
  then have n: "n < ul_num_replicas s" using p_dom [OF inv] by simp
  have "the (ul_local_versions s n) \<le> comb_version (the (ul_combiner s n)) (the (ul_local_versions s n))"
    using p_comb [OF inv n] by (cases "the (ul_combiner s n)") auto
  then show ?thesis
    using parts_read [OF inv, of "ROReadyToRead op n b"] p_read [OF inv s(1)] n s by simp
qed

lemma readonly_apply_inv:
  assumes inv: "ul_parts D s" and step: "readonly_apply D s rid = Some s'"
  shows "ul_parts D s'"
proof -
  obtain op n b v where s: "ul_local_reads s rid = Some (ROReadyToRead op n b)"
      "ul_combiner s n = Some CReady" "ul_replicas s n = Some v"
      "s' = set_read s rid (RODone op n b (dispatch_spec D v op))"
    using step by (auto simp: readonly_apply_def split: option.splits ReadonlyState.splits ULCombiner.splits)
  have r: "n < ul_num_replicas s" "b \<le> ul_version_upper_bound s" "b \<le> the (ul_local_versions s n)"
    using p_read [OF inv s(1)] s(2) by simp_all
  have "v = ul_compute_nrstate_at_version D (ul_log s) (the (ul_local_versions s n))"
    using p_replica [OF inv r(1)] s(2,3) by simp
  then have "read_ok D (ul_num_replicas s) (ul_version_upper_bound s)
      (\<lambda>n. comb_version (the (ul_combiner s n)) (the (ul_local_versions s n))) (ul_log s)
      (RODone op n b (dispatch_spec D v op))"
    using r s(2) p_lv [OF inv r(1)] by auto
  then show ?thesis using parts_read [OF inv] s(4) by simp
qed

section \<open>Updates\<close>

lemma update_place_inv:
  assumes inv: "ul_parts D s" and step: "update_place_ops_in_log_one s n rid = Some s'"
  shows "ul_parts D s'"
proof -
  obtain q op where "ul_combiner s n = Some (CPlaced q)" "ul_local_updates s rid = Some (UInit op)"
      "s' = s\<lparr>ul_tail := ul_tail s + 1, ul_log := (ul_log s)(ul_tail s \<mapsto> \<lparr>le_op = op, le_node_id = n\<rparr>),
         ul_local_updates := (ul_local_updates s)(rid \<mapsto> UPlaced op (ul_tail s)),
         ul_combiner := (ul_combiner s)(n \<mapsto> CPlaced (q @ [rid]))\<rparr>"
    using step by (auto simp: update_place_ops_in_log_one_def split: option.splits ULCombiner.splits UpdateState.splits)
  then show ?thesis using parts_append [OF inv, of n q rid op] by simp
qed

lemma update_done_inv:
  assumes inv: "ul_parts D s" and step: "update_done s rid = Some s'"
  shows "ul_parts D s'"
proof -
  obtain ret i where s: "ul_local_updates s rid = Some (UApplied ret i)" "i < ul_version_upper_bound s"
      "s' = s\<lparr>ul_local_updates := (ul_local_updates s)(rid \<mapsto> UDone ret i)\<rparr>"
    using step by (auto simp: update_done_def split: option.splits UpdateState.splits if_splits)
  have "update_entry_ok D (ul_tail s) (ul_version_upper_bound s) (ul_log s) (UDone ret i)"
    using p_update [OF inv s(1)] s(2) by simp
  then show ?thesis using parts_update [OF inv, of "UDone ret i" rid] s by (simp add: update_ok_def)
qed

section \<open>Combiner\<close>

lemma exec_trivial_start_inv:
  assumes inv: "ul_parts D s" and step: "exec_trivial_start s n = Some s'"
  shows "ul_parts D s'"
proof -
  have s: "ul_combiner s n = Some CReady" "s' = set_combiner s n (CPlaced [])"
    using step by (auto simp: exec_trivial_start_def split: option.splits ULCombiner.splits)
  then have "n \<in> dom (ul_combiner s)" by blast
  then have n: "n < ul_num_replicas s" using p_dom [OF inv] by simp
  have "the (ul_local_versions s n) \<le> ul_tail s" using p_lv [OF inv n] p_vub [OF inv] by simp
  then show ?thesis
    using parts_phase [OF inv s(1), of "CPlaced []"] p_comb [OF inv n] s
      matches_empty_queue [of "the (ul_local_versions s n)" "ul_tail s" "ul_log s" n "ul_local_updates s"] by simp
qed

lemma exec_load_local_version_inv:
  assumes inv: "ul_parts D s" and step: "exec_load_local_version s n = Some s'"
  shows "ul_parts D s'"
proof -
  obtain q l where s: "ul_combiner s n = Some (CPlaced q)" "ul_local_versions s n = Some l"
      "s' = set_combiner s n (CLoadedLocalVersion q l)"
    using step by (auto simp: exec_load_local_version_def split: option.splits ULCombiner.splits)
  then have "n \<in> dom (ul_combiner s)" by blast
  then have n: "n < ul_num_replicas s" using p_dom [OF inv] by simp
  show ?thesis using parts_phase [OF inv s(1), of "CLoadedLocalVersion q l"] p_comb [OF inv n] s by simp
qed

lemma exec_load_global_head_inv:
  assumes inv: "ul_parts D s" and step: "exec_load_global_head s n = Some s'"
  shows "ul_parts D s'"
proof -
  obtain q l where s: "ul_combiner s n = Some (CLoadedLocalVersion q l)"
      "s' = set_combiner s n (CLoop q l 0 (ul_tail s))"
    using step by (auto simp: exec_load_global_head_def split: option.splits ULCombiner.splits)
  then have "n \<in> dom (ul_combiner s)" by blast
  then have n: "n < ul_num_replicas s" using p_dom [OF inv] by simp
  have "the (ul_local_versions s n) \<le> ul_tail s" using p_lv [OF inv n] p_vub [OF inv] by simp
  moreover have "LogRangeNoNodeId (ul_log s) t t n" for t by (simp add: no_node_iff)
  ultimately show ?thesis
    using parts_phase [OF inv s(1), of "CLoop q l 0 (ul_tail s)"] p_comb [OF inv n] s
    by (simp add: queue_done_iff)
qed

text \<open>The next entry of the loop, and what it says about the queue.\<close>

lemma loop_facts:
  assumes inv: "ul_parts D s" and c: "ul_combiner s n = Some (CLoop q l i t)"
  shows "n < ul_num_replicas s" "t \<le> ul_tail s" "the (ul_local_versions s n) \<le> l" "l \<le> t" "i \<le> length q"
    "LogRangeMatchesQueue q (ul_log s) i l t n (ul_local_updates s)"
    "LogRangeNoNodeId (ul_log s) t (ul_tail s) n" "QueueRidsUpdateDone q (ul_local_updates s) i" "distinct q"
    "the (ul_replicas s n) = ul_compute_nrstate_at_version D (ul_log s) l"
proof -
  have "n \<in> dom (ul_combiner s)" using c by blast
  then show n: "n < ul_num_replicas s" using p_dom [OF inv] by simp
  show "t \<le> ul_tail s" "the (ul_local_versions s n) \<le> l" "l \<le> t" "i \<le> length q"
    "LogRangeMatchesQueue q (ul_log s) i l t n (ul_local_updates s)"
    "LogRangeNoNodeId (ul_log s) t (ul_tail s) n" "QueueRidsUpdateDone q (ul_local_updates s) i" "distinct q"
    using p_comb [OF inv n] c by simp_all
  show "the (ul_replicas s n) = ul_compute_nrstate_at_version D (ul_log s) l"
    using p_replica [OF inv n] c by simp
qed

lemma loop_local:
  assumes "LogRangeMatchesQueue q log i l t n ups" and "l < t" and "le_node_id (the (log l)) = n"
  shows "i < length q" "\<exists>op. ups (q ! i) = Some (UPlaced op l)" "LogRangeMatchesQueue q log (i + 1) (l + 1) t n ups"
  using assms by (simp_all add: LogRangeMatchesQueue.simps [of q log i l t n ups] placed_at_iff)

lemma loop_remote:
  assumes "LogRangeMatchesQueue q log i l t n ups" and "l < t" and "le_node_id (the (log l)) \<noteq> n"
  shows "LogRangeMatchesQueue q log i (l + 1) t n ups"
  using assms by (simp add: LogRangeMatchesQueue.simps [of q log i l t n ups])

lemma loop_end: "LogRangeMatchesQueue q log i t t n ups \<Longrightarrow> i = length q"
  by (simp add: LogRangeMatchesQueue.simps [of q log i t t n ups])

lemma exec_dispatch_remote_inv:
  assumes inv: "ul_parts D s" and step: "exec_dispatch_remote D s n = Some s'"
  shows "ul_parts D s'"
proof -
  obtain q l i t v e where s: "ul_combiner s n = Some (CLoop q l i t)" "ul_replicas s n = Some v"
      "ul_log s l = Some e" "l < t" "le_node_id e \<noteq> n"
      "s' = s\<lparr>ul_replicas := (ul_replicas s)(n \<mapsto> fst (dispatch_mut_spec D v (le_op e))),
              ul_combiner := (ul_combiner s)(n \<mapsto> CLoop q (l + 1) i t)\<rparr>"
    using step by (auto simp: exec_dispatch_remote_def split: option.splits ULCombiner.splits if_splits)
  note f = loop_facts [OF inv s(1)]
  have wf: "wf_comb (ul_log s) (ul_tail s) (ul_version_upper_bound s) (the (ul_local_versions s n))
      (ul_local_updates s) n (CLoop q (l + 1) i t)"
    using f s(3-5) loop_remote [OF f(6) s(4)] by simp
  have "fst (dispatch_mut_spec D v (le_op e)) = ul_compute_nrstate_at_version D (ul_log s) (l + 1)"
    using f(10) s(2,3) by simp
  then show ?thesis
    using parts_combiner [OF inv f(1) wf] s(1,4,6) f(2) by simp
qed

lemma exec_dispatch_local_inv:
  assumes inv: "ul_parts D s" and step: "exec_dispatch_local D s n = Some s'"
  shows "ul_parts D s'"
proof -
  obtain q l i t v e st ret where s: "ul_combiner s n = Some (CLoop q l i t)" "ul_replicas s n = Some v"
      "ul_log s l = Some e" "l < t" "le_node_id e = n" "dispatch_mut_spec D v (le_op e) = (st, ret)"
      "s' = s\<lparr>ul_local_updates := (ul_local_updates s)(q ! i \<mapsto> UApplied ret l),
              ul_replicas := (ul_replicas s)(n \<mapsto> st), ul_combiner := (ul_combiner s)(n \<mapsto> CLoop q (l + 1) (i + 1) t)\<rparr>"
    using step by (auto simp: exec_dispatch_local_def Let_def split: option.splits ULCombiner.splits if_splits prod.splits)
  note f = loop_facts [OF inv s(1)]
  have own: "le_node_id (the (ul_log s l)) = n" using s(3,5) by simp
  note m = loop_local [OF f(6) s(4) own]
  let ?ups = "(ul_local_updates s)(q ! i \<mapsto> UApplied ret l)" and ?c = "CLoop q (l + 1) (i + 1) t"
  have ret: "st = ul_compute_nrstate_at_version D (ul_log s) (l + 1)"
      "ret = snd (dispatch_mut_spec D (ul_compute_nrstate_at_version D (ul_log s) l) (le_op (the (ul_log s l))))"
    using f(10) s(2,3,6) by simp_all
  have q: "q ! i \<noteq> q ! j" if "i \<noteq> j" "j < length q" for j using f(9) m(1) that by (simp add: nth_eq_iff_index_eq)
  have tail: "LogRangeMatchesQueue q (ul_log s) (i + 1) (l + 1) t n ?ups"
  proof -
    have "l + 1 \<le> t" using s(4) by simp
    moreover from this have "q ! i \<noteq> q ! Suc (i + j)" if "j < length (entries_of (ul_log s) (l + 1) t n)" for j
      using m(3) that by (intro q) (simp_all add: matches_iff)
    ultimately show ?thesis using m(3) by (simp add: matches_iff) metis
  qed
  have "QueueRidsUpdateDone q ?ups (i + 1)" using f(8) by (auto simp: queue_done_iff less_Suc_eq)
  then have wf: "wf_comb (ul_log s) (ul_tail s) (ul_version_upper_bound s) (the (ul_local_versions s n)) ?ups n ?c"
    using f tail m(1) s(4) by simp
  have other: "?ups r = ul_local_updates s r"
    if "k < ul_num_replicas s" "k \<noteq> n" "r \<in> set (queued_ops (the (ul_combiner s k)))" for k r
  proof -
    have "q ! i \<in> set q" using m(1) by (rule nth_mem)
    then have "q ! i \<noteq> r" using p_distinct [OF inv f(1) that(1)] that(2,3) s(1) by auto
    then show ?thesis by simp
  qed
  have entry: "update_entry_ok D (ul_tail s) (ul_version_upper_bound s) (ul_log s) u" if "?ups r = Some u" for r u
    using that ret(2) s(4) f(2) p_update [OF inv] by (auto split: if_splits)
  have fin: "finite (dom ?ups)" using p_fin [OF inv] by (simp only: dom_fun_upd) simp
  have "ul_inv_parts D (ul_num_replicas s) (ul_log s) (ul_tail s) ((ul_replicas s)(n \<mapsto> st)) (ul_local_versions s)
     (ul_version_upper_bound s) (ul_local_reads s) ?ups ((ul_combiner s)(n \<mapsto> ?c))"
    by (rule parts_combiner_updates [OF inv f(1) wf _ _ _ _ _ entry other]; (rule fin)?)
      (use s(1,4) f(2) ret(1) in simp_all)
  then show ?thesis using s(7) by simp
qed

lemma exec_update_version_upper_bound_inv:
  assumes inv: "ul_parts D s" and step: "exec_update_version_upper_bound s n = Some s'"
  shows "ul_parts D s'"
proof -
  obtain q t i where s: "ul_combiner s n = Some (CLoop q t i t)"
      "s' = s\<lparr>ul_version_upper_bound := max (ul_version_upper_bound s) t,
              ul_combiner := (ul_combiner s)(n \<mapsto> CUpdatedVersion q t)\<rparr>"
    using step
    by (auto simp: exec_update_version_upper_bound_def max_def split: option.splits ULCombiner.splits if_splits)
  note f = loop_facts [OF inv s(1)]
  have "i = length q" by (rule loop_end [OF f(6)])
  have "ul_inv_parts D (ul_num_replicas s) (ul_log s) (ul_tail s) (ul_replicas s) (ul_local_versions s)
      (max (ul_version_upper_bound s) t) (ul_local_reads s) (ul_local_updates s) (ul_combiner s)"
    by (rule parts_vub [OF inv]) (use f(2) p_vub [OF inv] in simp_all)
  from parts_phase [OF this s(1), of "CUpdatedVersion q t"] show ?thesis
    using f \<open>i = length q\<close> s(2) by simp
qed

lemma exec_finish_inv:
  assumes inv: "ul_parts D s" and step: "exec_finish s n = Some s'"
  shows "ul_parts D s'"
proof -
  obtain q t where s: "ul_combiner s n = Some (CUpdatedVersion q t)"
      "s' = s\<lparr>ul_local_versions := (ul_local_versions s)(n \<mapsto> t), ul_combiner := (ul_combiner s)(n \<mapsto> CReady)\<rparr>"
    using step by (auto simp: exec_finish_def split: option.splits ULCombiner.splits)
  have "n \<in> dom (ul_combiner s)" using s by blast
  then have n: "n < ul_num_replicas s" using p_dom [OF inv] by simp
  have c: "t \<le> ul_version_upper_bound s" "LogRangeNoNodeId (ul_log s) t (ul_tail s) n"
    using p_comb [OF inv n] s(1) by simp_all
  let ?lv = "(ul_local_versions s)(n \<mapsto> t)" and ?comb = "(ul_combiner s)(n \<mapsto> CReady)"
  have vers: "comb_version (the (?comb m)) (the (?lv m)) =
      comb_version (the (ul_combiner s m)) (the (ul_local_versions s m))" for m
    using s(1) by simp
  have "ul_inv_parts D (ul_num_replicas s) (ul_log s) (ul_tail s) (ul_replicas s) ?lv
      (ul_version_upper_bound s) (ul_local_reads s) (ul_local_updates s) ?comb"
    unfolding ul_inv_parts_def vers
  proof (intro conjI allI impI)
    show "set (queued_ops (the (?comb k))) \<inter> set (queued_ops (the (?comb m))) = {}"
      if "k < ul_num_replicas s" "m < ul_num_replicas s" "k \<noteq> m" for k m
      using p_distinct [OF inv that] by auto
    show "dom ?comb = {..<ul_num_replicas s}" "dom ?lv = {..<ul_num_replicas s}"
      using p_dom [OF inv] n by auto
  qed (use c p_fin [OF inv] p_dom [OF inv] p_vub [OF inv] p_lv [OF inv] p_read [OF inv] p_update [OF inv]
      p_comb [OF inv] p_replica [OF inv] p_version [OF inv] in simp_all)
  then show ?thesis using s(2) by simp
qed

lemma exec_finish_no_change_inv:
  assumes inv: "ul_parts D s" and step: "exec_finish_no_change s n = Some s'"
  shows "ul_parts D s'"
proof -
  obtain q where s: "ul_combiner s n = Some (CLoadedLocalVersion q (ul_tail s))" "s' = set_combiner s n CReady"
    using step by (auto simp: exec_finish_no_change_def split: option.splits ULCombiner.splits if_splits)
  have "n \<in> dom (ul_combiner s)" using s by blast
  then have n: "n < ul_num_replicas s" using p_dom [OF inv] by simp
  have "the (ul_local_versions s n) = ul_tail s" using p_comb [OF inv n] s(1) by simp
  then show ?thesis
    using parts_phase [OF inv s(1), of CReady] s(2) by (simp add: no_node_iff)
qed

lemmas ul_next_inv =
  readonly_version_upper_bound_inv readonly_ready_to_read_inv readonly_apply_inv update_place_inv update_done_inv
  exec_trivial_start_inv exec_load_local_version_inv exec_load_global_head_inv exec_dispatch_local_inv
  exec_dispatch_remote_inv exec_update_version_upper_bound_inv exec_finish_inv exec_finish_no_change_inv

lemma ul_next_parts: "ul_next D s s' \<Longrightarrow> ul_parts D s \<Longrightarrow> ul_parts D s'"
  by (induction rule: ul_next.induct)
    (auto simp: readonly_view_oob_def split: if_splits intro: ul_next_inv)

section \<open>Tickets and stubs\<close>

lemma get_fresh_nat_not_in:
  assumes "finite reqs" and "finite (dom comb)"
  shows "get_fresh_nat reqs comb \<notin> reqs \<and> combiner_request_id_fresh comb (get_fresh_nat reqs comb)"
proof -
  have "finite (reqs \<union> (\<Union>n\<in>dom comb. set (queued_ops (the (comb n)))))" using assms by simp
  then obtain r where "r \<notin> reqs \<union> (\<Union>n\<in>dom comb. set (queued_ops (the (comb n))))"
    using ex_new_if_finite [OF infinite_UNIV_nat] by blast
  then have "\<exists>r. r \<notin> reqs \<and> combiner_request_id_fresh comb r" by (auto simp: combiner_request_id_fresh_def)
  then show ?thesis unfolding get_fresh_nat_def by (rule someI_ex)
qed

lemma get_fresh_rid_ok:
  assumes "ul_parts D s"
  shows "get_fresh_rid s \<notin> dom (ul_local_reads s)" "get_fresh_rid s \<notin> dom (ul_local_updates s)"
    "combiner_request_id_fresh (ul_combiner s) (get_fresh_rid s)"
  using get_fresh_nat_not_in [of "dom (ul_local_updates s) \<union> dom (ul_local_reads s)" "ul_combiner s"]
    p_fin [OF assms] p_dom [OF assms] by (simp_all add: get_fresh_rid_def)

lemma add_ticket_inv:
  assumes inv: "ul_parts D s" and step: "add_ticket s s' input rid"
    and fresh: "combiner_request_id_fresh (ul_combiner s) rid"
  shows "ul_parts D s'"
proof (cases input)
  case (InRead op n)
  then show ?thesis using step parts_read [OF inv, of "ROInit op n"] by (simp add: add_ticket_def)
next
  case (InWrite op)
  have "rid \<notin> set (queued_ops (the (ul_combiner s n)))" if "n < ul_num_replicas s" for n
    using fresh that p_dom(2) [OF inv] by (simp add: combiner_request_id_fresh_def)
  then show ?thesis using InWrite step parts_update [OF inv, of "UInit op"] by (simp add: add_ticket_def)
qed

lemma consume_stub_inv:
  assumes inv: "ul_parts D s" and step: "consume_stub s s' out rid"
  shows "ul_parts D s'"
proof (cases out)
  case (OutRead resp)
  then show ?thesis
    using step parts_read_remove [OF inv] by (auto simp: consume_stub_def split: option.splits ReadonlyState.splits)
next
  case (OutWrite resp)
  then show ?thesis
    using step parts_update_remove [OF inv]
    by (auto simp: consume_stub_def split: option.splits UpdateState.splits)
qed

lemma ul_step_parts:
  assumes "ul_step D s l s'" and "ul_parts D s"
  shows "ul_parts D s'"
  using assms
  by (induction rule: ul_step.induct)
    (auto intro: ul_next_parts add_ticket_inv consume_stub_inv get_fresh_rid_ok(3))

lemma ul_behavior_parts: "ul_behavior D n ls s \<Longrightarrow> ul_parts D s"
proof (induction rule: ul_behavior.induct)
  case ul_behavior_init
  show ?case by (rule ul_initialize_parts)
qed (rule ul_step_parts)

section \<open>Safety conditions of the source\<close>

text \<open>
  A combiner that finds a local entry has an update waiting in its queue for it; when it has
  applied everything, its queue is used up; and when it finds the log unchanged, its queue
  was empty. The index the log grows at is free.
\<close>

lemma pre_exec_dispatch_local:
  assumes inv: "ul_parts D s" and "ul_combiner s n = Some (CLoop q l i t)"
    and "ul_log s l = Some e" "le_node_id e = n" "l < t"
  shows "i < length q \<and> (\<exists>op. ul_local_updates s (q ! i) = Some (UPlaced op l))"
  using loop_local(1,2) [OF loop_facts(6) [OF assms(1,2)]] assms(3-5) by simp

lemma pre_exec_update_version_upper_bound:
  assumes inv: "ul_parts D s" and "ul_combiner s n = Some (CLoop q t i t)"
  shows "i = length q"
  by (rule loop_end [OF loop_facts(6) [OF assms]])

lemma finish_no_change_empty:
  assumes inv: "ul_parts D s" and c: "ul_combiner s n = Some (CLoadedLocalVersion q (ul_tail s))"
  shows "q = []"
proof -
  have "n \<in> dom (ul_combiner s)" using c by blast
  then have "n < ul_num_replicas s" using p_dom [OF inv] by simp
  then have "LogRangeMatchesQueue q (ul_log s) 0 (ul_tail s) (ul_tail s) n (ul_local_updates s)"
    using p_comb [OF inv] c by fastforce
  from loop_end [OF this] show ?thesis by simp
qed

lemma log_slot_free: "ul_parts D s \<Longrightarrow> ul_log s (ul_tail s) = None"
  using p_dom(4) [of D] by (metis domIff lessThan_iff less_irrefl)

end
