(* ===== verification/NR_Exec_Coupling.thy ===== *)
theory NR_Exec_Coupling
  imports NR_Exec_Log NR_Cyclic_Inv NR_Unbounded_Steps
begin

text \<open>
  The ghost state behind the code of the log. At every point of the execution there is a
  state of the unbounded log and a state of the cyclic buffer that agree with the shared
  memory, and the program point of every combiner determines its states in both machines. The
  words of the code are read as the numbers of the machines.
\<close>

section \<open>Words and numbers\<close>

lemma u64_add_Some: "u64_add a b = Some c \<longleftrightarrow> unat a + unat b < 2 ^ 64 \<and> c = a + b"
  by (auto simp: u64_add_def)

lemma unat_add_small: "unat a + unat b < 2 ^ 64 \<Longrightarrow> unat (a + b :: 64 word) = unat a + unat b"
  by (rule unat_add_lem [THEN iffD1]) simp

lemma u64_add_unat: "u64_add a b = Some c \<Longrightarrow> unat c = unat a + unat b"
  unfolding u64_add_Some using unat_add_small by blast

lemma u64_add_ok: "unat a + unat b < 2 ^ 64 \<Longrightarrow> \<exists>c. u64_add a b = Some c \<and> unat c = unat a + unat b"
  unfolding u64_add_Some using unat_add_small by blast

lemma nth_opt_Some: "nth_opt xs i = Some x \<longleftrightarrow> i < length xs \<and> xs ! i = x"
  by (auto simp: nth_opt_def)

lemma log_entry_idx_nat: "log_entry_idx (int k) bs = k mod bs"
  by (simp add: log_entry_idx_def flip: zmod_int)

lemma log_entry_alive_value_nat: "log_entry_alive_value (int k) bs \<longleftrightarrow> k div bs mod 2 = 0"
proof -
  have "int k div int bs mod 2 = int (k div bs mod 2)" by (simp add: zdiv_int zmod_int)
  then show ?thesis by (simp add: log_entry_alive_value_def)
qed

lemma is_alive_value_eq: "unat w = k \<Longrightarrow> is_alive_value w \<longleftrightarrow> log_entry_alive_value (int k) LOG_SIZE"
  by (simp add: is_alive_value_def log_entry_alive_value_nat)

lemma log_index_eq: "length (nl_slog l) = LOG_SIZE \<Longrightarrow> log_index l w = unat w mod LOG_SIZE"
  by (simp add: log_index_def)

lemma LOG_SIZE_pos [simp]: "0 < LOG_SIZE"
  by (simp add: LOG_SIZE_def)

lemma log_index_less: "length (nl_slog l) = LOG_SIZE \<Longrightarrow> log_index l w < LOG_SIZE"
  by (simp add: log_index_def)

lemma unat_max_idx: "unat MAX_IDX = 0xfffffffff0000000"
  by (simp add: MAX_IDX_def)

lemma gc_threshold_unat: "length (nl_slog l) = LOG_SIZE \<Longrightarrow> unat (gc_threshold l) = LOG_SIZE - GC_FROM_HEAD"
  by (simp add: gc_threshold_def LOG_SIZE_def GC_FROM_HEAD_def MAX_PENDING_OPS_def MAX_THREADS_PER_REPLICA_def)

lemma unat_of_nat_small: "n < 2 ^ 64 \<Longrightarrow> unat (of_nat n :: 64 word) = n"
  by (simp add: unat_of_nat)

section \<open>One combiner\<close>

text \<open>The requests a combiner has collected and not delivered yet.\<close>

definition delivered :: "NodePc \<Rightarrow> nat" where
  "delivered pc = (case pc of NRespond i \<Rightarrow> i | _ \<Rightarrow> 0)"

definition undelivered :: "('w, 'v, 'resp) Node \<Rightarrow> ReqId set" where
  "undelivered p = {rid. \<exists>i<length (np_rids p). delivered (np_pc p) \<le> i \<and> np_rids p ! i = rid}"

text \<open>Its requests are all new, or partly applied, or done (from the first one not delivered).\<close>

definition ups_new :: "('w, 'v, 'resp) Node \<Rightarrow> (ReqId \<rightharpoonup> ('w, 'resp) UpdateState) \<Rightarrow> bool" where
  "ups_new p ups \<longleftrightarrow>
     np_responses p = [] \<and> (\<forall>i<length (np_rids p). ups (np_rids p ! i) = Some (UInit (np_ops p ! i)))"

definition ups_applied :: "('w, 'v, 'resp) Node \<Rightarrow> nat \<Rightarrow> (ReqId \<rightharpoonup> ('w, 'resp) UpdateState) \<Rightarrow> bool" where
  "ups_applied p bound ups \<longleftrightarrow>
     length (np_responses p) \<le> length (np_rids p) \<and>
     (\<forall>i<length (np_responses p). \<exists>idx<bound. ups (np_rids p ! i) = Some (UApplied (np_responses p ! i) idx))"

definition ups_done :: "('w, 'v, 'resp) Node \<Rightarrow> nat \<Rightarrow> (ReqId \<rightharpoonup> ('w, 'resp) UpdateState) \<Rightarrow> bool" where
  "ups_done p from ups \<longleftrightarrow>
     length (np_responses p) = length (np_rids p) \<and>
     (\<forall>i<length (np_rids p). from \<le> i \<longrightarrow> (\<exists>idx. ups (np_rids p ! i) = Some (UDone (np_responses p ! i) idx)))"

text \<open>
  Between two executions, and inside one with queue \<open>q\<close> and position \<open>idx\<close>. Before the
  entries are placed the queue is empty; after that the first execution that finds work
  answers all requests, and the queue of a later one is empty.
\<close>

definition between_execs ::
    "ExecCaller \<Rightarrow> ('w, 'v, 'resp) Node \<Rightarrow> ULCombiner \<Rightarrow> (ReqId \<rightharpoonup> ('w, 'resp) UpdateState) \<Rightarrow> bool" where
  "between_execs k p u ups \<longleftrightarrow>
     (if k = FromAppend then u = CReady \<and> ups_new p ups
      else u = CPlaced (np_rids p) \<and> np_responses p = [] \<or> u = CReady \<and> ups_done p 0 ups)"

definition during ::
    "ExecCaller \<Rightarrow> ('w, 'v, 'resp) Node \<Rightarrow> ReqId list \<Rightarrow> nat \<Rightarrow> nat \<Rightarrow> (ReqId \<rightharpoonup> ('w, 'resp) UpdateState) \<Rightarrow> bool" where
  "during k p q idx bound ups \<longleftrightarrow>
     (if k = FromAppend then q = [] \<and> ups_new p ups
      else q = np_rids p \<and> idx = length (np_responses p) \<and> ups_applied p bound ups \<or> q = [] \<and> ups_done p 0 ups)"

definition after ::
    "ExecCaller \<Rightarrow> ('w, 'v, 'resp) Node \<Rightarrow> (ReqId \<rightharpoonup> ('w, 'resp) UpdateState) \<Rightarrow> bool" where
  "after k p ups \<longleftrightarrow> (if k = FromAppend then ups_new p ups else ups_done p 0 ups)"

definition appending ::
    "nat \<Rightarrow> (LogIdx \<rightharpoonup> 'w LogEntry) \<Rightarrow> NodeId \<Rightarrow> ('w, 'v, 'resp) Node \<Rightarrow> 64 word \<Rightarrow> nat \<Rightarrow> ULCombiner \<Rightarrow> 'w CBCombiner \<Rightarrow> bool" where
  "appending gtail log n p t idx u v \<longleftrightarrow>
     u = CPlaced (np_rids p) \<and> np_responses p = [] \<and> idx < length (np_ops p) \<and>
     v = CBAppending (unat t + idx) (unat t + length (np_ops p)) \<and> unat t + length (np_ops p) \<le> gtail \<and>
     (\<forall>i<length (np_ops p). log (unat t + i) = Some \<lparr>le_op = np_ops p ! i, le_node_id = n\<rparr>)"

fun pc_rel ::
    "nat \<Rightarrow> nat \<Rightarrow> (LogIdx \<rightharpoonup> 'w LogEntry) \<Rightarrow> 'w BufferEntry list \<Rightarrow> NodeId \<Rightarrow> ('w, 'v, 'resp) Node \<Rightarrow> ULCombiner \<Rightarrow>
     'w CBCombiner \<Rightarrow> (ReqId \<rightharpoonup> ('w, 'resp) UpdateState) \<Rightarrow> NodePc \<Rightarrow> bool" where
  "pc_rel N gtail log slog n p u v ups NIdle \<longleftrightarrow>
     u = CReady \<and> v = CBIdle \<and> np_ops p = [] \<and> np_rids p = [] \<and> np_responses p = []"
| "pc_rel N gtail log slog n p u v ups NCollect \<longleftrightarrow> u = CReady \<and> v = CBIdle \<and> ups_new p ups"
| "pc_rel N gtail log slog n p u v ups NRelease \<longleftrightarrow> u = CReady \<and> v = CBIdle \<and> ups_done p 0 ups"
| "pc_rel N gtail log slog n p u v ups (NRespond i) \<longleftrightarrow> u = CReady \<and> v = CBIdle \<and> ups_done p i ups"
| "pc_rel N gtail log slog n p u v ups ALoadTail \<longleftrightarrow> u = CReady \<and> v = CBIdle \<and> ups_new p ups"
| "pc_rel N gtail log slog n p u v ups (ALoadHead t) \<longleftrightarrow> u = CReady \<and> v = CBIdle \<and> ups_new p ups \<and> unat t \<le> gtail"
| "pc_rel N gtail log slog n p u v ups (ACas t nt adv) \<longleftrightarrow>
     u = CReady \<and> ups_new p ups \<and> unat nt = unat t + length (np_ops p) \<and> nt < MAX_IDX \<and> (adv \<longrightarrow> np_ops p \<noteq> []) \<and>
     (\<exists>h. v = CBAdvancingTail h \<and> unat nt \<le> h + LOG_SIZE)"
| "pc_rel N gtail log slog n p u v ups APanic \<longleftrightarrow> u = CReady \<and> ups_new p ups \<and> (\<exists>h. v = CBAdvancingTail h)"
| "pc_rel N gtail log slog n p u v ups (AWrite t idx adv) \<longleftrightarrow> appending gtail log n p t idx u v"
| "pc_rel N gtail log slog n p u v ups (AFlip t idx adv) \<longleftrightarrow>
     appending gtail log n p t idx u v \<and>
     be_log_entry (slog ! ((unat t + idx) mod LOG_SIZE)) = Some (entry_of (np_ops p ! idx) n)"
| "pc_rel N gtail log slog n p u v ups HLoadHead \<longleftrightarrow> between_execs FromAdvanceHead p u ups \<and> v = CBIdle"
| "pc_rel N gtail log slog n p u v ups (HLoadTail gh) \<longleftrightarrow> between_execs FromAdvanceHead p u ups \<and> v = CBIdle"
| "pc_rel N gtail log slog n p u v ups (HMinFirst gh gt) \<longleftrightarrow> between_execs FromAdvanceHead p u ups \<and> v = CBIdle"
| "pc_rel N gtail log slog n p u v ups (HMinNext idx m gh gt) \<longleftrightarrow>
     between_execs FromAdvanceHead p u ups \<and> v = CBAdvancingHead idx (unat m) \<and> idx < N \<and> m \<le> MAX_IDX"
| "pc_rel N gtail log slog n p u v ups (HStore m gt) \<longleftrightarrow>
     between_execs FromAdvanceHead p u ups \<and> v = CBAdvancingHead N (unat m) \<and> m \<le> MAX_IDX"
| "pc_rel N gtail log slog n p u v ups (ELoadLocal k) \<longleftrightarrow> between_execs k p u ups \<and> v = CBIdle"
| "pc_rel N gtail log slog n p u v ups (ELoadTail k lv) \<longleftrightarrow>
     (\<exists>q. u = CLoadedLocalVersion q (unat lv) \<and> during k p q 0 0 ups) \<and> v = CBReading (RStarting (unat lv))"
| "pc_rel N gtail log slog n p u v ups (EAlive k lv gt) \<longleftrightarrow>
     (\<exists>q idx. u = CLoop q (unat lv) idx (unat gt) \<and> during k p q idx (unat gt) ups) \<and>
     (\<exists>st. v = CBReading (RRange st (unat gt) (unat lv))) \<and> lv < gt"
| "pc_rel N gtail log slog n p u v ups (ERead k lv gt) \<longleftrightarrow>
     (\<exists>q idx. u = CLoop q (unat lv) idx (unat gt) \<and> during k p q idx (unat gt) ups) \<and>
     (\<exists>st val. v = CBReading (RGuard st (unat gt) (unat lv) val)) \<and> lv < gt"
| "pc_rel N gtail log slog n p u v ups (EPublish k gt) \<longleftrightarrow>
     (\<exists>q idx. u = CLoop q (unat gt) idx (unat gt) \<and> during k p q idx (unat gt) ups) \<and>
     (\<exists>st. v = CBReading (RRange st (unat gt) (unat gt)))"
| "pc_rel N gtail log slog n p u v ups (EStore k gt) \<longleftrightarrow>
     (\<exists>q. u = CUpdatedVersion q (unat gt) \<and> set q \<subseteq> set (np_rids p)) \<and> after k p ups \<and>
     (\<exists>st. v = CBReading (RRange st (unat gt) (unat gt)))"

definition node_rel ::
    "'w NrLog \<Rightarrow> ('r, 'w, 'v, 'resp) UnboundedLog \<Rightarrow> 'w CyclicBuffer \<Rightarrow> NodeId \<Rightarrow> ('w, 'v, 'resp) Node \<Rightarrow> bool" where
  "node_rel l g c n p \<longleftrightarrow>
     ul_replicas g n = Some (np_data p) \<and> length (np_ops p) \<le> MAX_REQUESTS \<and> length (np_ops p) = length (np_rids p) \<and>
     (\<exists>u v. ul_combiner g n = Some u \<and> cb_combiner c n = Some v \<and>
        pc_rel (ul_num_replicas g) (ul_tail g) (ul_log g) (nl_slog l) n p u v (ul_local_updates g) (np_pc p))"

section \<open>Shared memory\<close>

definition cell_rel ::
    "'w NrLog \<Rightarrow> ('r, 'w, 'v, 'resp) UnboundedLog \<Rightarrow> LogicalLogIdx \<Rightarrow> 'w StoredType \<Rightarrow> bool" where
  "cell_rel l g i st \<longleftrightarrow>
     cp_value (st_cell_perms st) = Some (be_log_entry (nl_slog l ! log_entry_idx i LOG_SIZE)) \<and>
     (0 \<le> i \<longrightarrow> (\<exists>tok. st_log_entry st = Some tok \<and> ul_log g (nat i) = Some (lt_value tok)))"

definition log_rel :: "'w NrLog \<Rightarrow> ('r, 'w, 'v, 'resp) UnboundedLog \<Rightarrow> 'w CyclicBuffer \<Rightarrow> bool" where
  "log_rel l g c \<longleftrightarrow>
     length (nl_slog l) = LOG_SIZE \<and> length (nl_local_versions l) = ul_num_replicas g \<and>
     cb_num_replicas c = ul_num_replicas g \<and> ul_num_replicas g \<le> MAX_REPLICAS \<and>
     unat (nl_tail l) = ul_tail g \<and> cb_tail c = ul_tail g \<and> nl_tail l \<le> MAX_IDX \<and>
     unat (nl_head l) = cb_head c \<and> unat (nl_version_upper_bound l) = ul_version_upper_bound g \<and>
     (\<forall>i<ul_num_replicas g. ul_local_versions g i = Some (unat (nl_local_versions l ! i)) \<and>
        cb_local_versions c i = Some (unat (nl_local_versions l ! i))) \<and>
     (\<forall>i<LOG_SIZE. cb_alive_bits c i = Some (be_alive (nl_slog l ! i))) \<and>
     dom (cb_contents c) \<subseteq> {int (ul_tail g) - int LOG_SIZE ..< int (ul_tail g)} \<and>
     (\<forall>i st. cb_contents c i = Some st \<longrightarrow> cell_rel l g i st)"

section \<open>Requests\<close>

fun update_rel :: "('w, 'resp) UpdateReq option \<Rightarrow> ('w, 'resp) UpdateState option \<Rightarrow> bool" where
  "update_rel None u = (u = None)"
| "update_rel (Some (UpPending op)) u = (u = Some (UInit op))"
| "update_rel (Some (UpTaken n i)) u = (u \<noteq> None)"
| "update_rel (Some (UpDone r)) u = (\<exists>idx. u = Some (UDone r idx))"

fun read_rel :: "nat \<Rightarrow> ('r, 'resp) ReadStage option \<Rightarrow> ('r, 'resp) ReadonlyState option \<Rightarrow> bool" where
  "read_rel N None x = (x = None)"
| "read_rel N (Some (RdInit op n)) x = (n < N \<and> x = Some (ROInit op n))"
| "read_rel N (Some (RdVersion op n v)) x = (n < N \<and> x = Some (ROVersionUpperBound op n (unat v)))"
| "read_rel N (Some (RdReady op n)) x = (n < N \<and> (\<exists>v. x = Some (ROReadyToRead op n v)))"
| "read_rel N (Some (RdDone r)) x = (\<exists>op n v. x = Some (RODone op n v r))"

text \<open>A request is marked as taken exactly while the combiner holds it.\<close>

definition taken_rel :: "('r, 'w, 'v, 'resp) NrSystem \<Rightarrow> bool" where
  "taken_rel s \<longleftrightarrow>
     (\<forall>rid n i. ns_updates s rid = Some (UpTaken n i) \<longleftrightarrow>
        n < length (ns_nodes s) \<and> i < length (np_rids (ns_nodes s ! n)) \<and>
        delivered (np_pc (ns_nodes s ! n)) \<le> i \<and> np_rids (ns_nodes s ! n) ! i = rid)"

definition system_rel ::
    "('r, 'w, 'v, 'resp) NrSystem \<Rightarrow> ('r, 'w, 'v, 'resp) UnboundedLog \<Rightarrow> 'w CyclicBuffer \<Rightarrow> bool" where
  "system_rel s g c \<longleftrightarrow>
     log_rel (ns_log s) g c \<and> length (ns_nodes s) = ul_num_replicas g \<and>
     (\<forall>n<length (ns_nodes s). node_rel (ns_log s) g c n (ns_nodes s ! n)) \<and>
     (\<forall>rid. update_rel (ns_updates s rid) (ul_local_updates g rid)) \<and>
     (\<forall>rid. read_rel (ul_num_replicas g) (ns_reads s rid) (ul_local_reads g rid)) \<and> taken_rel s"

lemma log_relD:
  assumes "log_rel l g c"
  shows "length (nl_slog l) = LOG_SIZE" "length (nl_local_versions l) = ul_num_replicas g"
    "cb_num_replicas c = ul_num_replicas g" "ul_num_replicas g \<le> MAX_REPLICAS"
    "unat (nl_tail l) = ul_tail g" "cb_tail c = ul_tail g" "nl_tail l \<le> MAX_IDX"
    "unat (nl_head l) = cb_head c" "unat (nl_version_upper_bound l) = ul_version_upper_bound g"
    "i < ul_num_replicas g \<Longrightarrow> ul_local_versions g i = Some (unat (nl_local_versions l ! i))"
    "i < ul_num_replicas g \<Longrightarrow> cb_local_versions c i = Some (unat (nl_local_versions l ! i))"
    "i < LOG_SIZE \<Longrightarrow> cb_alive_bits c i = Some (be_alive (nl_slog l ! i))"
    "dom (cb_contents c) \<subseteq> {int (ul_tail g) - int LOG_SIZE ..< int (ul_tail g)}"
    "cb_contents c j = Some st \<Longrightarrow> cell_rel l g j st"
  using assms by (simp_all add: log_rel_def)

lemma system_relD:
  assumes "system_rel s g c"
  shows "log_rel (ns_log s) g c" "length (ns_nodes s) = ul_num_replicas g"
    "n < length (ns_nodes s) \<Longrightarrow> node_rel (ns_log s) g c n (ns_nodes s ! n)"
    "update_rel (ns_updates s rid) (ul_local_updates g rid)"
    "read_rel (ul_num_replicas g) (ns_reads s rid) (ul_local_reads g rid)" "taken_rel s"
  using assms by (simp_all add: system_rel_def)

lemma taken_relD:
  "taken_rel s \<Longrightarrow> ns_updates s rid = Some (UpTaken n i) \<longleftrightarrow>
     n < length (ns_nodes s) \<and> i < length (np_rids (ns_nodes s ! n)) \<and>
     delivered (np_pc (ns_nodes s ! n)) \<le> i \<and> np_rids (ns_nodes s ! n) ! i = rid"
  by (simp add: taken_rel_def)

section \<open>What a step of one combiner leaves alone\<close>

definition ul_local ::
    "('r, 'w, 'v, 'resp) Dispatch \<Rightarrow> NodeId \<Rightarrow> ReqId set \<Rightarrow> ('r, 'w, 'v, 'resp) UnboundedLog \<Rightarrow>
     ('r, 'w, 'v, 'resp) UnboundedLog \<Rightarrow> bool" where
  "ul_local D n R g g' \<longleftrightarrow>
     (ul_next D)\<^sup>*\<^sup>* g g' \<and> ul_num_replicas g' = ul_num_replicas g \<and>
     (\<forall>m. m \<noteq> n \<longrightarrow> ul_combiner g' m = ul_combiner g m \<and> ul_replicas g' m = ul_replicas g m) \<and>
     (\<forall>rid. rid \<notin> R \<longrightarrow> ul_local_updates g' rid = ul_local_updates g rid) \<and>
     dom (ul_local_updates g') = dom (ul_local_updates g) \<and> ul_local_reads g' = ul_local_reads g \<and>
     ul_tail g \<le> ul_tail g' \<and> (\<forall>i e. ul_log g i = Some e \<longrightarrow> ul_log g' i = Some e) \<and>
     (\<forall>rid r i. ul_local_updates g rid = Some (UDone r i) \<longrightarrow> ul_local_updates g' rid = Some (UDone r i))"

definition cb_local :: "NodeId \<Rightarrow> 'w CyclicBuffer \<Rightarrow> 'w CyclicBuffer \<Rightarrow> bool" where
  "cb_local n c c' \<longleftrightarrow>
     cb_next\<^sup>*\<^sup>* c c' \<and> (\<forall>m. m \<noteq> n \<longrightarrow> cb_combiner c' m = cb_combiner c m)"

lemma ul_local_refl [simp]: "ul_local D n R g g"
  by (simp add: ul_local_def)

lemma cb_local_refl [simp]: "cb_local n c c"
  by (simp add: cb_local_def)

lemma ul_local_trans: "ul_local D n R g g' \<Longrightarrow> ul_local D n R g' g'' \<Longrightarrow> ul_local D n R g g''"
  unfolding ul_local_def by (auto intro: rtranclp_trans)

lemma ul_local_step:
  assumes "ul_next D g g'" "ul_num_replicas g' = ul_num_replicas g"
    "\<And>m. m \<noteq> n \<Longrightarrow> ul_combiner g' m = ul_combiner g m" "\<And>m. m \<noteq> n \<Longrightarrow> ul_replicas g' m = ul_replicas g m"
    "\<And>rid. rid \<notin> R \<Longrightarrow> ul_local_updates g' rid = ul_local_updates g rid"
    "dom (ul_local_updates g') = dom (ul_local_updates g)" "ul_local_reads g' = ul_local_reads g"
    "ul_tail g \<le> ul_tail g'" "\<And>i e. ul_log g i = Some e \<Longrightarrow> ul_log g' i = Some e"
    "\<And>rid r i. ul_local_updates g rid = Some (UDone r i) \<Longrightarrow> ul_local_updates g' rid = Some (UDone r i)"
  shows "ul_local D n R g g'"
  using assms by (simp add: ul_local_def)

lemma cb_local_step: "cb_next c c' \<Longrightarrow> (\<And>m. m \<noteq> n \<Longrightarrow> cb_combiner c' m = cb_combiner c m) \<Longrightarrow> cb_local n c c'"
  by (simp add: cb_local_def)

lemma ups_cong:
  assumes "\<And>rid. rid \<in> set (np_rids p) \<Longrightarrow> ups' rid = ups rid"
  shows "ups_new p ups' = ups_new p ups"
    and "ups_applied p b ups' = ups_applied p b ups" and "ups_done p i ups' = ups_done p i ups"
  using assms by (auto simp: ups_new_def ups_applied_def ups_done_def)

lemma ups_done_frame:
  "ups_done p i ups \<Longrightarrow> (\<And>j. i \<le> j \<Longrightarrow> j < length (np_rids p) \<Longrightarrow> ups' (np_rids p ! j) = ups (np_rids p ! j)) \<Longrightarrow>
   ups_done p i ups'"
  by (simp add: ups_done_def)

lemma appending_mono:
  "appending gtail log n p t idx u v \<Longrightarrow> gtail \<le> gtail' \<Longrightarrow> (\<And>i e. log i = Some e \<Longrightarrow> log' i = Some e) \<Longrightarrow>
   appending gtail' log' n p t idx u v"
  by (auto simp: appending_def)

lemma undelivered_all: "delivered (np_pc p) = 0 \<Longrightarrow> undelivered p = set (np_rids p)"
  by (auto simp: undelivered_def in_set_conv_nth)

lemma pc_rel_frame:
  assumes rel: "pc_rel N gtail log slog n p u v ups (np_pc p)" and tl: "gtail \<le> gtail'"
    and log: "\<And>i e. log i = Some e \<Longrightarrow> log' i = Some e"
    and ups: "\<And>rid. rid \<in> undelivered p \<Longrightarrow> ups' rid = ups rid"
    and cell: "\<And>t idx adv. np_pc p = AFlip t idx adv \<Longrightarrow>
      be_log_entry (slog' ! ((unat t + idx) mod LOG_SIZE)) =
      be_log_entry (slog ! ((unat t + idx) mod LOG_SIZE))"
  shows "pc_rel N gtail' log' slog' n p u v ups' (np_pc p)"
proof (cases "delivered (np_pc p) = 0")
  case True
  then have "\<And>rid. rid \<in> set (np_rids p) \<Longrightarrow> ups' rid = ups rid" using ups by (simp add: undelivered_all)
  note c = ups_cong [OF this]
  have "between_execs k p u ups' = between_execs k p u ups" "during k p q i b ups' = during k p q i b ups"
    "after k p ups' = after k p ups" for k q i b
    by (simp_all add: between_execs_def during_def after_def c)
  note d = this
  show ?thesis
  proof (cases "np_pc p")
    case (AWrite t idx adv)
    then have "appending gtail log n p t idx u v" using rel by simp
    from appending_mono [OF this tl log] show ?thesis using AWrite by simp
  next
    case (AFlip t idx adv)
    then have "appending gtail log n p t idx u v" using rel by simp
    from appending_mono [OF this tl log] show ?thesis using rel cell [OF AFlip] AFlip by simp
  next
    case (ALoadHead t)
    then show ?thesis using rel tl by (simp add: c)
  next
    case (ACas t nt adv)
    then show ?thesis using rel by (auto simp: c)
  qed (use rel in \<open>simp_all add: c d\<close>)
next
  case False
  then obtain i where i: "np_pc p = NRespond i" by (auto simp: delivered_def split: NodePc.splits)
  have "ups' (np_rids p ! j) = ups (np_rids p ! j)" if "i \<le> j" "j < length (np_rids p)" for j
    using that by (intro ups) (auto simp: undelivered_def delivered_def i)
  then show ?thesis using rel ups_done_frame [of p i ups ups'] by (simp add: i)
qed

lemma node_relD:
  assumes "node_rel l g c n p"
  shows "ul_replicas g n = Some (np_data p)" "length (np_ops p) \<le> MAX_REQUESTS" "length (np_ops p) = length (np_rids p)"
    "\<exists>u v. ul_combiner g n = Some u \<and> cb_combiner c n = Some v \<and>
       pc_rel (ul_num_replicas g) (ul_tail g) (ul_log g) (nl_slog l) n p u v (ul_local_updates g) (np_pc p)"
  using assms by (simp_all add: node_rel_def)

lemma node_relI:
  assumes "ul_replicas g n = Some (np_data p)" "length (np_ops p) \<le> MAX_REQUESTS" "length (np_ops p) = length (np_rids p)"
    "ul_combiner g n = Some u" "cb_combiner c n = Some v"
    "pc_rel (ul_num_replicas g) (ul_tail g) (ul_log g) (nl_slog l) n p u v (ul_local_updates g) (np_pc p)"
  shows "node_rel l g c n p"
  using assms by (simp add: node_rel_def)

text \<open>The cells other combiners have written and not published yet.\<close>

definition cells_kept :: "'w NrLog \<Rightarrow> 'w NrLog \<Rightarrow> ('w, 'v, 'resp) Node \<Rightarrow> bool" where
  "cells_kept l l' p \<longleftrightarrow>
     (\<forall>t idx adv. np_pc p = AFlip t idx adv \<longrightarrow>
        be_log_entry (nl_slog l' ! ((unat t + idx) mod LOG_SIZE)) =
        be_log_entry (nl_slog l ! ((unat t + idx) mod LOG_SIZE)))"

lemma node_rel_frame:
  assumes rel: "node_rel l g c m p" and u: "ul_local D n R g g'" and cb: "cb_local n c c'" and m: "m \<noteq> n"
    and R: "undelivered p \<inter> R = {}" and cells: "cells_kept l l' p"
  shows "node_rel l' g' c' m p"
proof -
  obtain x y where xy: "ul_combiner g m = Some x" "cb_combiner c m = Some y"
      "pc_rel (ul_num_replicas g) (ul_tail g) (ul_log g) (nl_slog l) m p x y (ul_local_updates g) (np_pc p)"
    using node_relD(4) [OF rel] by blast
  have num: "ul_num_replicas g' = ul_num_replicas g" and same: "ul_combiner g' m = ul_combiner g m" "ul_replicas g' m = ul_replicas g m"
    "cb_combiner c' m = cb_combiner c m"
    using u cb m by (simp_all add: ul_local_def cb_local_def)
  have "pc_rel (ul_num_replicas g) (ul_tail g') (ul_log g') (nl_slog l') m p x y (ul_local_updates g') (np_pc p)"
  proof (rule pc_rel_frame [OF xy(3)])
    show "ul_tail g \<le> ul_tail g'" using u by (simp add: ul_local_def)
    show "ul_log g i = Some e \<Longrightarrow> ul_log g' i = Some e" for i e using u by (simp add: ul_local_def)
    show "ul_local_updates g' rid = ul_local_updates g rid" if "rid \<in> undelivered p" for rid
    proof -
      have "rid \<notin> R" using R that by blast
      then show ?thesis using u by (simp add: ul_local_def)
    qed
  qed (use cells in \<open>simp add: cells_kept_def\<close>)
  then show ?thesis using node_relD(1-3) [OF rel] xy(1,2) by (intro node_relI) (simp_all add: num same)
qed

section \<open>Simulation of one combiner\<close>

text \<open>
  A combiner whose requests are in the log and not applied has touched neither them nor its
  replica, except when it has just put them there.
\<close>

fun is_Placed :: "ULCombiner \<Rightarrow> bool" where
  "is_Placed (CPlaced q) = True"
| "is_Placed _ = False"

fun may_place :: "NodePc \<Rightarrow> bool" where
  "may_place (ACas t nt adv) = True"
| "may_place _ = False"

definition combiner_kept ::
    "NodeId \<Rightarrow> NodePc \<Rightarrow> ('r, 'w, 'v, 'resp) UnboundedLog \<Rightarrow> ('r, 'w, 'v, 'resp) UnboundedLog \<Rightarrow> bool" where
  "combiner_kept n pc g g' \<longleftrightarrow>
     (is_Placed (the (ul_combiner g' n)) \<longrightarrow>
        ul_replicas g' n = ul_replicas g n \<and>
        (may_place pc \<or> ul_combiner g' n = ul_combiner g n \<and> ul_local_updates g' = ul_local_updates g))"

lemma combiner_kept_refl [simp]: "combiner_kept n pc g g"
  by (simp add: combiner_kept_def)

lemma combiner_kept_other: "\<not> is_Placed (the (ul_combiner g' n)) \<Longrightarrow> combiner_kept n pc g g'"
  by (simp add: combiner_kept_def)

definition node_sim ::
    "('r, 'w, 'v, 'resp) Dispatch \<Rightarrow> NodeId \<Rightarrow> ReqId set \<Rightarrow> NodePc \<Rightarrow> ('r, 'w, 'v, 'resp) UnboundedLog \<Rightarrow> 'w CyclicBuffer \<Rightarrow>
     'w NrLog \<Rightarrow> ('w, 'v, 'resp) Node \<Rightarrow> bool" where
  "node_sim D n R pc g c l p \<longleftrightarrow>
     (\<exists>g' c'. ul_local D n R g g' \<and> cb_local n c c' \<and> combiner_kept n pc g g' \<and> log_rel l g' c' \<and> node_rel l g' c' n p)"

lemma node_simI:
  "ul_local D n R g g' \<Longrightarrow> cb_local n c c' \<Longrightarrow> log_rel l g' c' \<Longrightarrow> node_rel l g' c' n p \<Longrightarrow> combiner_kept n pc g g' \<Longrightarrow>
   node_sim D n R pc g c l p"
  by (auto simp: node_sim_def)

text \<open>What a step of the system leaves alone in the machines, for every combiner.\<close>

definition node_kept ::
    "NodeId \<Rightarrow> ('w, 'v, 'resp) Node \<Rightarrow> ('r, 'w, 'v, 'resp) UnboundedLog \<Rightarrow> ('r, 'w, 'v, 'resp) UnboundedLog \<Rightarrow> bool" where
  "node_kept n p g g' \<longleftrightarrow>
     (is_Placed (the (ul_combiner g' n)) \<longrightarrow>
        ul_replicas g' n = ul_replicas g n \<and>
        (may_place (np_pc p) \<or> ul_combiner g' n = ul_combiner g n \<and>
           (\<forall>rid\<in>undelivered p. ul_local_updates g' rid = ul_local_updates g rid))) \<and>
     (\<forall>rid\<in>undelivered p. \<forall>r i. ul_local_updates g rid = Some (UDone r i) \<longrightarrow> ul_local_updates g' rid = Some (UDone r i))"

definition system_kept ::
    "('r, 'w, 'v, 'resp) NrSystem \<Rightarrow> ('r, 'w, 'v, 'resp) UnboundedLog \<Rightarrow> ('r, 'w, 'v, 'resp) UnboundedLog \<Rightarrow> bool" where
  "system_kept s g g' \<longleftrightarrow> (\<forall>n<length (ns_nodes s). node_kept n (ns_nodes s ! n) g g')"

lemma system_kept_refl [simp]: "system_kept s g g"
  by (simp add: system_kept_def node_kept_def)

definition system_sim ::
    "('r, 'w, 'v, 'resp) Dispatch \<Rightarrow> ('r, 'w, 'v, 'resp) NrSystem \<Rightarrow> ('r, 'w, 'v, 'resp) NrSystem \<Rightarrow>
     ('r, 'w, 'v, 'resp) UnboundedLog \<Rightarrow> 'w CyclicBuffer \<Rightarrow> bool" where
  "system_sim D s s' g c \<longleftrightarrow>
     (\<exists>g' c'. (ul_next D)\<^sup>*\<^sup>* g g' \<and> cb_next\<^sup>*\<^sup>* c c' \<and> system_kept s g g' \<and> system_rel s' g' c')"

lemma undelivered_taken:
  assumes "taken_rel s" "n < length (ns_nodes s)" "rid \<in> undelivered (ns_nodes s ! n)"
  shows "\<exists>i. ns_updates s rid = Some (UpTaken n i)"
  using assms by (auto simp: undelivered_def taken_relD)

lemma undelivered_disjoint:
  assumes t: "taken_rel s" and n: "n < length (ns_nodes s)" "m < length (ns_nodes s)" "n \<noteq> m"
  shows "undelivered (ns_nodes s ! m) \<inter> undelivered (ns_nodes s ! n) = {}"
proof -
  have False if "rid \<in> undelivered (ns_nodes s ! m)" "rid \<in> undelivered (ns_nodes s ! n)" for rid
    using undelivered_taken [OF t n(2) that(1)] undelivered_taken [OF t n(1) that(2)] n(3) by auto
  then show ?thesis by blast
qed

lemma rids_distinct:
  assumes "taken_rel s" "n < length (ns_nodes s)" "delivered (np_pc (ns_nodes s ! n)) = 0"
  shows "distinct (np_rids (ns_nodes s ! n))"
proof -
  have taken: "ns_updates s (np_rids (ns_nodes s ! n) ! i) = Some (UpTaken n i)"
    if "i < length (np_rids (ns_nodes s ! n))" for i
    using assms(2,3) that by (intro taken_relD [OF assms(1), THEN iffD2] conjI) simp_all
  have "i = j" if "i < length (np_rids (ns_nodes s ! n))" "j < length (np_rids (ns_nodes s ! n))"
    "np_rids (ns_nodes s ! n) ! i = np_rids (ns_nodes s ! n) ! j" for i j
    using taken [OF that(1)] taken [OF that(2)] unfolding that(3) by simp
  then show ?thesis unfolding distinct_conv_nth by blast
qed

lemma system_sim_node:
  assumes sr: "system_rel s g c" and n: "n < length (ns_nodes s)"
    and sim: "node_sim D n (undelivered (ns_nodes s ! n)) (np_pc (ns_nodes s ! n)) g c l' p'"
    and p': "np_rids p' = np_rids (ns_nodes s ! n)" "delivered (np_pc p') = delivered (np_pc (ns_nodes s ! n))"
    and cells: "\<And>m. m < length (ns_nodes s) \<Longrightarrow> m \<noteq> n \<Longrightarrow> cells_kept (ns_log s) l' (ns_nodes s ! m)"
  shows "system_sim D s ((set_node s n p')\<lparr>ns_log := l'\<rparr>) g c"
proof -
  let ?R = "undelivered (ns_nodes s ! n)" and ?s = "(set_node s n p')\<lparr>ns_log := l'\<rparr>"
  obtain g' c' where s: "ul_local D n ?R g g'" "cb_local n c c'" "log_rel l' g' c'" "node_rel l' g' c' n p'"
      and kept: "combiner_kept n (np_pc (ns_nodes s ! n)) g g'"
    using sim by (auto simp: node_sim_def)
  note d = system_relD [OF sr]
  have num: "ul_num_replicas g' = ul_num_replicas g" and reads: "ul_local_reads g' = ul_local_reads g"
    and ups: "dom (ul_local_updates g') = dom (ul_local_updates g)"
    using s(1) by (simp_all add: ul_local_def)
  have "system_rel ?s g' c'"
    unfolding system_rel_def
  proof (intro conjI allI impI)
    show "node_rel (ns_log ?s) g' c' m (ns_nodes ?s ! m)" if "m < length (ns_nodes ?s)" for m
    proof (cases "m = n")
      case False
      have m: "m < length (ns_nodes s)" using that by simp
      from node_rel_frame [OF d(3) [OF m] s(1,2) False undelivered_disjoint [OF d(6) n m] cells [OF m False]]
      show ?thesis using False by auto
    qed (use s(4) n in simp)
    show "update_rel (ns_updates ?s rid) (ul_local_updates g' rid)" for rid
    proof (cases "rid \<in> ?R")
      case True
      from undelivered_taken [OF d(6) n this] obtain i where i: "ns_updates s rid = Some (UpTaken n i)" by blast
      then have "ul_local_updates g rid \<noteq> None" using d(4) [of rid] by simp
      then have "rid \<in> dom (ul_local_updates g')" using ups by blast
      then show ?thesis using i by auto
    next
      case False
      then have "ul_local_updates g' rid = ul_local_updates g rid" using s(1) by (simp add: ul_local_def)
      then show ?thesis using d(4) [of rid] by simp
    qed
    have "np_rids (ns_nodes ?s ! m) = np_rids (ns_nodes s ! m)"
      "delivered (np_pc (ns_nodes ?s ! m)) = delivered (np_pc (ns_nodes s ! m))" for m
      using p' n by (cases "m = n"; simp)+
    then show "taken_rel ?s" using d(6) unfolding taken_rel_def by simp
  qed (use s(3) d(2,5) num reads in simp_all)
  moreover have "system_kept s g g'"
    unfolding system_kept_def
  proof (intro allI impI)
    fix m
    assume m: "m < length (ns_nodes s)"
    have finished: "ul_local_updates g rid = Some (UDone r i) \<Longrightarrow> ul_local_updates g' rid = Some (UDone r i)" for rid r i
      using s(1) by (simp add: ul_local_def)
    have other: "ul_local_updates g' rid = ul_local_updates g rid" if "rid \<in> undelivered (ns_nodes s ! m)" "m \<noteq> n" for rid
      using s(1) that undelivered_disjoint [OF d(6) n m] by (auto simp: ul_local_def)
    show "node_kept m (ns_nodes s ! m) g g'"
      using kept finished other s(1) by (cases "m = n") (auto simp: node_kept_def combiner_kept_def ul_local_def)
  qed
  ultimately show ?thesis using s(1,2) by (auto simp: system_sim_def ul_local_def cb_local_def)
qed

text \<open>A step that changes no memory and, in the machines, at most the two states of the combiner.\<close>

lemma set_combiner_same: "ul_combiner g n = Some u \<Longrightarrow> set_combiner g n u = g"
  by (simp add: fun_upd_idem)

lemma cb_set_same: "cb_combiner c n = Some v \<Longrightarrow> cb_set c n v = c"
  by (simp add: fun_upd_idem)

lemma log_rel_combiner [simp]: "log_rel l (set_combiner g n u) (cb_set c n v) = log_rel l g c"
  by (simp add: log_rel_def cell_rel_def)

lemma node_sim_move:
  assumes lr: "log_rel l g c" and nr: "node_rel l g c n p"
    and ul: "ul_local D n R g (set_combiner g n u)" and cb: "cb_local n c (cb_set c n v)"
    and rel: "pc_rel (ul_num_replicas g) (ul_tail g) (ul_log g) (nl_slog l) n (goto p pc) u v (ul_local_updates g) pc"
    and kept: "combiner_kept n (np_pc p) g (set_combiner g n u)"
  shows "node_sim D n R (np_pc p) g c l (goto p pc)"
  by (rule node_simI [OF ul cb _ _ kept]) (use lr rel node_relD(1-3) [OF nr] in \<open>auto intro: node_relI\<close>)

text \<open>The same where only one of the machines moves.\<close>

lemma node_sim_cb:
  assumes lr: "log_rel l g c" and nr: "node_rel l g c n p" and u: "ul_combiner g n = Some u"
    and cb: "cb_local n c (cb_set c n v)"
    and rel: "pc_rel (ul_num_replicas g) (ul_tail g) (ul_log g) (nl_slog l) n (goto p pc) u v (ul_local_updates g) pc"
  shows "node_sim D n R (np_pc p) g c l (goto p pc)"
  using node_sim_move [OF lr nr _ cb rel, of D R] by (simp add: set_combiner_same [OF u])

lemma node_sim_stay:
  assumes lr: "log_rel l g c" and nr: "node_rel l g c n p" and u: "ul_combiner g n = Some u" "cb_combiner c n = Some v"
    and rel: "pc_rel (ul_num_replicas g) (ul_tail g) (ul_log g) (nl_slog l) n (goto p pc) u v (ul_local_updates g) pc"
  shows "node_sim D n R (np_pc p) g c l (goto p pc)"
  using node_sim_cb [OF lr nr u(1) _ rel, of D R] by (simp add: cb_set_same [OF u(2)])

lemma ups_goto [simp]:
  "ups_new (goto p pc) ups = ups_new p ups" "ups_applied (goto p pc) b ups = ups_applied p b ups"
  "ups_done (goto p pc) i ups = ups_done p i ups" "between_execs k (goto p pc) u ups = between_execs k p u ups"
  "during k (goto p pc) q i b ups = during k p q i b ups" "after k (goto p pc) ups = after k p ups"
  "appending gt log n (goto p pc) t idx u v = appending gt log n p t idx u v"
  by (simp_all add: ups_new_def ups_applied_def ups_done_def between_execs_def during_def after_def appending_def)

end
