(* ===== verification/NR_Serves_Log.thy ===== *)
theory NR_Serves_Log
  imports NR_Exec_Coupling
begin

text \<open>
  A combiner that runs alone finishes its work on the log: from a log in which every entry has
  been written completely it appends its operation, applies all entries to its replica and
  returns. The log is not collected here, so the entries must fit (\<open>SERVE_BOUND\<close>); what happens
  beyond that depends on the other replicas.
\<close>

definition SERVE_BOUND :: nat where "SERVE_BOUND = LOG_SIZE - GC_FROM_HEAD"

text \<open>A log of \<open>T\<close> entries on which no combiner is working.\<close>

definition log_settled :: "nat \<Rightarrow> nat \<Rightarrow> 'w NrLog \<Rightarrow> bool" where
  "log_settled N T l \<longleftrightarrow>
     length (nl_slog l) = LOG_SIZE \<and> nl_head l = 0 \<and> nl_tail l = of_nat T \<and> T \<le> SERVE_BOUND \<and>
     (\<exists>v\<le>T. nl_version_upper_bound l = of_nat v) \<and> length (nl_local_versions l) = N \<and>
     (\<forall>n<N. \<exists>v\<le>T. nl_local_versions l ! n = of_nat v) \<and>
     (\<forall>i<T. be_alive (nl_slog l ! i) \<and> be_log_entry (nl_slog l ! i) \<noteq> None)"

lemma log_settledD:
  assumes "log_settled N T l"
  shows "length (nl_slog l) = LOG_SIZE" "nl_head l = 0" "nl_tail l = of_nat T" "T \<le> SERVE_BOUND"
    "\<exists>v\<le>T. nl_version_upper_bound l = of_nat v" "length (nl_local_versions l) = N"
    "n < N \<Longrightarrow> \<exists>v\<le>T. nl_local_versions l ! n = of_nat v"
    "i < T \<Longrightarrow> be_alive (nl_slog l ! i)" "i < T \<Longrightarrow> \<exists>e. be_log_entry (nl_slog l ! i) = Some e"
  using assms by (auto simp: log_settled_def)

lemma serve_bound: "SERVE_BOUND < LOG_SIZE" "LOG_SIZE < 2 ^ 64" "LOG_SIZE < unat MAX_IDX"
  by (simp_all add: SERVE_BOUND_def LOG_SIZE_def GC_FROM_HEAD_def MAX_PENDING_OPS_def MAX_THREADS_PER_REPLICA_def MAX_IDX_def)

lemma position_unat: "i \<le> SERVE_BOUND \<Longrightarrow> unat (of_nat i :: 64 word) = i"
  using serve_bound by (intro unat_of_nat_small) simp

lemma position_less: "i \<le> SERVE_BOUND \<Longrightarrow> j \<le> SERVE_BOUND \<Longrightarrow> (of_nat i :: 64 word) < of_nat j \<longleftrightarrow> i < j"
  by (simp add: word_less_nat_alt position_unat)

lemma position_eq: "i \<le> SERVE_BOUND \<Longrightarrow> j \<le> SERVE_BOUND \<Longrightarrow> (of_nat i :: 64 word) = of_nat j \<longleftrightarrow> i = j"
  by (metis position_unat)

lemma position_add:
  assumes "i + j \<le> SERVE_BOUND"
  shows "u64_add (of_nat i) (of_nat j) = Some (of_nat (i + j))"
  using assms serve_bound position_unat [of i] position_unat [of j] by (simp add: u64_add_def)

lemma position_index: "length (nl_slog l) = LOG_SIZE \<Longrightarrow> i \<le> SERVE_BOUND \<Longrightarrow> log_index l (of_nat i) = i"
  using serve_bound(1) by (simp add: log_index_eq position_unat)

lemma position_alive: "i \<le> SERVE_BOUND \<Longrightarrow> is_alive_value (of_nat i)"
  using serve_bound(1) by (simp add: is_alive_value_def position_unat)

section \<open>Runs of one combiner\<close>

definition node_runs ::
    "('r, 'w, 'v, 'resp) Dispatch \<Rightarrow> NodeId \<Rightarrow> 'w NrLog \<times> ('w, 'v, 'resp) Node \<Rightarrow> 'w NrLog \<times> ('w, 'v, 'resp) Node \<Rightarrow> bool" where
  "node_runs D n = (\<lambda>(l, p) s. np_pc p \<noteq> NRelease \<and> node_step D n True l p = Some s)\<^sup>*\<^sup>*"

lemma node_runs_refl [simp]: "node_runs D n s s"
  by (simp add: node_runs_def)

lemma node_runs_trans: "node_runs D n s s' \<Longrightarrow> node_runs D n s' s'' \<Longrightarrow> node_runs D n s s''"
  unfolding node_runs_def by (rule rtranclp_trans)

lemma node_runs_step:
  "np_pc p \<noteq> NRelease \<Longrightarrow> node_step D n True l p = Some s \<Longrightarrow> node_runs D n s s' \<Longrightarrow> node_runs D n (l, p) s'"
  unfolding node_runs_def by (rule converse_rtranclp_into_rtranclp) simp

lemmas log_step_defs = node_step_def append_step_def execute_step_def nth_opt_def append_loop_def

section \<open>Executing\<close>

lemma execute_loop_runs:
  assumes "log_settled N T l" and "a \<le> T"
  shows "\<exists>data resps. node_runs D n (l, goto p (execute_loop FromCombine (of_nat a) (of_nat T)))
    (l, p\<lparr>np_data := data, np_responses := resps, np_pc := EPublish FromCombine (of_nat T)\<rparr>)"
  using assms(2)
proof (induction "T - a" arbitrary: a p)
  case 0
  then show ?case
    using log_settledD(4) [OF assms(1)]
    by (intro exI [of _ "np_data p"] exI [of _ "np_responses p"]) (simp add: execute_loop_def)
next
  case (Suc d)
  note s = log_settledD [OF assms(1)]
  have lt: "a < T" "a < LOG_SIZE" "a + 1 \<le> SERVE_BOUND" using Suc.hyps(2) s(4) serve_bound(1) by simp_all
  have idx: "log_index l (of_nat a) = a" using position_index [OF s(1)] lt by simp
  obtain e where e: "be_log_entry (nl_slog l ! a) = Some e" using s(9) [OF lt(1)] by blast
  have next_version: "u64_add (of_nat a) 1 = Some (of_nat (Suc a))" using position_add [OF lt(3)] by simp
  obtain data res where d: "dispatch_mut_spec D (np_data p) (cle_op e) = (data, res)" by fastforce
  have hyp: "d = T - Suc a" "Suc a \<le> T" using Suc.hyps(2) lt(1) by simp_all
  let ?p = "p\<lparr>np_data := data, np_responses := (if cle_node_id e = of_nat n then np_responses p @ [res] else np_responses p)\<rparr>"
  obtain data' resps where run: "node_runs D n (l, goto ?p (execute_loop FromCombine (of_nat (Suc a)) (of_nat T)))
      (l, ?p\<lparr>np_data := data', np_responses := resps, np_pc := EPublish FromCombine (of_nat T)\<rparr>)"
    using Suc.hyps(1) [of "Suc a" ?p] hyp by blast
  have loop: "execute_loop FromCombine (of_nat a) (of_nat T) = EAlive FromCombine (of_nat a) (of_nat T)"
    using lt s(4) by (simp add: execute_loop_def position_less)
  have alive: "node_step D n True l (goto p (EAlive FromCombine (of_nat a) (of_nat T))) = Some (l, goto p (ERead FromCombine (of_nat a) (of_nat T)))"
    using idx s(1,8) lt position_alive [of a] by (simp add: log_step_defs)
  have read: "node_step D n True l (goto p (ERead FromCombine (of_nat a) (of_nat T))) =
      Some (l, goto ?p (execute_loop FromCombine (of_nat (Suc a)) (of_nat T)))"
    using idx s(1) lt e next_version d by (simp add: log_step_defs)
  show ?case
    unfolding loop using run
    by (intro exI [of _ data'] exI [of _ resps] node_runs_step [OF _ alive] node_runs_step [OF _ read]) simp_all
qed

lemma execute_runs:
  assumes l: "log_settled N T l" and n: "n < N" and pc: "np_pc p = ELoadLocal FromCombine"
  shows "\<exists>l' p'. node_runs D n (l, p) (l', p') \<and> log_settled N T l' \<and> nl_local_versions l' ! n = of_nat T \<and>
    np_pc p' = NRelease \<and> np_ops p' = np_ops p \<and> np_rids p' = np_rids p"
proof -
  note s = log_settledD [OF l]
  obtain v where v: "v \<le> T" "nl_local_versions l ! n = of_nat v" using s(7) [OF n] by blast
  have first: "node_step D n True l p = Some (l, goto p (ELoadTail FromCombine (of_nat v)))"
    using pc n s(6) v by (simp add: log_step_defs)
  show ?thesis
  proof (cases "v = T")
    case True
    have last: "node_step D n True l (goto p (ELoadTail FromCombine (of_nat v))) = Some (l, goto p NRelease)"
      using True s(3) by (simp add: log_step_defs execute_return_def)
    then have "node_runs D n (l, p) (l, goto p NRelease)"
      using pc by (intro node_runs_step [OF _ first] node_runs_step [OF _ last]) simp_all
    then show ?thesis using l True v by (intro exI [of _ l] exI [of _ "goto p NRelease"]) simp
  next
    case False
    have neq: "(of_nat v :: 64 word) \<noteq> of_nat T" using False v(1) s(4) by (simp add: position_eq)
    have load: "node_step D n True l (goto p (ELoadTail FromCombine (of_nat v))) =
        Some (l, goto p (execute_loop FromCombine (of_nat v) (of_nat T)))"
      using neq s(3) by (simp add: log_step_defs)
    obtain data resps where run: "node_runs D n (l, goto p (execute_loop FromCombine (of_nat v) (of_nat T)))
        (l, p\<lparr>np_data := data, np_responses := resps, np_pc := EPublish FromCombine (of_nat T)\<rparr>)"
      using execute_loop_runs [OF l v(1), of D n p] by blast
    let ?p = "p\<lparr>np_data := data, np_responses := resps\<rparr>"
    let ?l = "l\<lparr>nl_version_upper_bound := max (nl_version_upper_bound l) (of_nat T)\<rparr>"
    let ?l' = "?l\<lparr>nl_local_versions := (nl_local_versions l)[n := of_nat T]\<rparr>"
    have publish: "node_step D n True l (goto ?p (EPublish FromCombine (of_nat T))) = Some (?l, goto ?p (EStore FromCombine (of_nat T)))"
      by (simp add: log_step_defs)
    have store: "node_step D n True ?l (goto ?p (EStore FromCombine (of_nat T))) = Some (?l', goto ?p NRelease)"
      using n s(6) by (simp add: log_step_defs execute_return_def)
    have end_run: "node_runs D n (l, goto ?p (EPublish FromCombine (of_nat T))) (?l', goto ?p NRelease)"
      by (intro node_runs_step [OF _ publish] node_runs_step [OF _ store]) simp_all
    have "node_runs D n (l, p) (?l', goto ?p NRelease)"
      using node_runs_trans [OF run] end_run pc
      by (intro node_runs_step [OF _ first] node_runs_step [OF _ load]) simp_all
    moreover have "log_settled N T ?l'"
      using s n by (auto simp: log_settled_def max_def nth_list_update)
    ultimately show ?thesis using n s(6) by (intro exI [of _ ?l'] exI [of _ "goto ?p NRelease"]) simp
  qed
qed

section \<open>Appending\<close>

text \<open>A combiner has at most one operation here, that of the thread that combines.\<close>

lemma settled_limit:
  assumes "log_settled N T l"
  shows "u64_add (nl_head l) (gc_threshold l) = Some (of_nat SERVE_BOUND)"
proof -
  have "unat (gc_threshold l) = SERVE_BOUND"
    using gc_threshold_unat [OF log_settledD(1) [OF assms]] by (simp add: SERVE_BOUND_def)
  then have "gc_threshold l = of_nat SERVE_BOUND" by (simp add: word_unat_eq_iff position_unat)
  then show ?thesis using log_settledD(2) [OF assms] position_add [of 0 SERVE_BOUND] by simp
qed

lemma append_tail_runs:
  assumes l: "log_settled N T l" and ops: "T + length (np_ops p) \<le> SERVE_BOUND" and pc: "np_pc p = ALoadTail"
  shows "node_runs D n (l, p) (l\<lparr>nl_tail := of_nat (T + length (np_ops p))\<rparr>,
    goto p (append_loop (length (np_ops p)) (of_nat T) 0 False))"
proof -
  note s = log_settledD [OF l]
  let ?new = "of_nat (T + length (np_ops p)) :: 64 word"
  have one: "node_step D n True l p = Some (l, goto p (ALoadHead (of_nat T)))"
    using pc s(3) by (simp add: log_step_defs)
  have "unat ?new < unat MAX_IDX" using position_unat [OF ops] serve_bound ops by simp
  then have small: "\<not> MAX_IDX \<le> ?new" by (simp add: word_le_nat_alt)
  have within: "\<not> (of_nat SERVE_BOUND :: 64 word) < of_nat T" "\<not> (of_nat SERVE_BOUND :: 64 word) < ?new"
    using s(4) ops position_less [of SERVE_BOUND T] position_less [of SERVE_BOUND "T + length (np_ops p)"] by simp_all
  have two: "node_step D n True l (goto p (ALoadHead (of_nat T))) = Some (l, goto p (ACas (of_nat T) ?new False))"
    using settled_limit [OF l] position_add [OF ops] small within by (simp add: node_step_def append_step_def del: of_nat_add)
  have three: "node_step D n True l (goto p (ACas (of_nat T) ?new False)) =
      Some (l\<lparr>nl_tail := ?new\<rparr>, goto p (append_loop (length (np_ops p)) (of_nat T) 0 False))"
    using s(3) by (simp add: node_step_def append_step_def)
  show ?thesis
    using pc by (intro node_runs_step [OF _ one] node_runs_step [OF _ two] node_runs_step [OF _ three]) simp_all
qed

lemma append_runs:
  assumes l: "log_settled N T l" and ops: "length (np_ops p) \<le> 1" "T + length (np_ops p) \<le> SERVE_BOUND" and pc: "np_pc p = ALoadTail"
  shows "\<exists>l'. node_runs D n (l, p) (l', goto p (ELoadLocal FromCombine)) \<and> log_settled N (T + length (np_ops p)) l'"
proof (cases "np_ops p")
  case Nil
  have "l\<lparr>nl_tail := of_nat T\<rparr> = l" using log_settledD(3) [OF l] by simp
  then show ?thesis
    using append_tail_runs [OF l ops(2) pc, of D n] Nil l by (intro exI [of _ l]) (simp add: append_loop_def)
next
  case (Cons op rest)
  then have nops: "np_ops p = [op]" "length (np_ops p) = 1" "T + 1 \<le> SERVE_BOUND" using ops by simp_all
  note s = log_settledD [OF l]
  let ?l = "l\<lparr>nl_tail := of_nat (T + 1)\<rparr>"
  let ?w = "?l\<lparr>nl_slog := (nl_slog l)[T := (nl_slog l ! T)\<lparr>be_log_entry := Some (entry_of op n)\<rparr>]\<rparr>"
  let ?f = "?l\<lparr>nl_slog := (nl_slog l)[T := (nl_slog l ! T)\<lparr>be_log_entry := Some (entry_of op n), be_alive := True\<rparr>]\<rparr>"
  have T: "T < LOG_SIZE" "T \<le> SERVE_BOUND" using nops(3) serve_bound(1) by simp_all
  have pos: "u64_add (of_nat T) 0 = Some (of_nat T)" using position_add [of T 0] T by simp
  have idx: "log_index ?l (of_nat T) = T" "log_index ?w (of_nat T) = T"
    using T s(1) by (simp_all add: log_index_eq position_unat)
  have put: "node_step D n True ?l (goto p (AWrite (of_nat T) 0 False)) = Some (?w, goto p (AFlip (of_nat T) 0 False))"
    using pos idx(1) T s(1) nops(1) by (simp add: node_step_def append_step_def nth_opt_def)
  have flip: "node_step D n True ?w (goto p (AFlip (of_nat T) 0 False)) = Some (?f, goto p (ELoadLocal FromCombine))"
    using pos idx(2) T s(1) nops(1) position_alive [OF T(2)] by (simp add: node_step_def append_step_def nth_opt_def append_loop_def)
  have "node_runs D n (l, p) (?l, goto p (AWrite (of_nat T) 0 False))"
    using append_tail_runs [OF l ops(2) pc, of D n] nops by (simp add: append_loop_def)
  then have "node_runs D n (l, p) (?f, goto p (ELoadLocal FromCombine))"
    by (rule node_runs_trans) (intro node_runs_step [OF _ put] node_runs_step [OF _ flip]; simp)
  moreover have "log_settled N (T + 1) ?f"
  proof -
    have "\<exists>v\<le>T + 1. nl_version_upper_bound l = of_nat v" "\<forall>m<N. \<exists>v\<le>T + 1. nl_local_versions l ! m = of_nat v"
      using s(5) s(7) by (meson trans_le_add1)+
    then show ?thesis
      using s(1,2,6,8,9) nops(3) T by (simp add: log_settled_def nth_list_update less_Suc_eq)
  qed
  ultimately show ?thesis unfolding nops(2) by blast
qed

text \<open>The whole of the log's work in one round of a combiner.\<close>

lemma round_runs:
  assumes l: "log_settled N T l" and n: "n < N" and ops: "length (np_ops p) \<le> 1" "T + length (np_ops p) \<le> SERVE_BOUND"
    and pc: "np_pc p = ALoadTail"
  shows "\<exists>l' p'. node_runs D n (l, p) (l', p') \<and> log_settled N (T + length (np_ops p)) l' \<and>
    nl_local_versions l' ! n = of_nat (T + length (np_ops p)) \<and> np_pc p' = NRelease \<and> np_ops p' = np_ops p \<and> np_rids p' = np_rids p"
proof -
  obtain l1 where l1: "node_runs D n (l, p) (l1, goto p (ELoadLocal FromCombine))" "log_settled N (T + length (np_ops p)) l1"
    using append_runs [OF l ops pc, of D n] by blast
  obtain l2 p2 where l2: "node_runs D n (l1, goto p (ELoadLocal FromCombine)) (l2, p2)" "log_settled N (T + length (np_ops p)) l2"
      "nl_local_versions l2 ! n = of_nat (T + length (np_ops p))" "np_pc p2 = NRelease" "np_ops p2 = np_ops p" "np_rids p2 = np_rids p"
    using execute_runs [OF l1(2) n, of "goto p (ELoadLocal FromCombine)" D] by auto
  from node_runs_trans [OF l1(1) l2(1)] l2 show ?thesis by blast
qed

end
