(* ===== verification/NR_RwLock.thy ===== *)
theory NR_RwLock
  imports NR_Types "HOL-Library.Multiset"
begin

text \<open>
  The distributed reader-writer lock (\<^verbatim>\<open>spec/rwlock.rs\<close>): one exclusive flag and
  \<open>rc_width\<close> reader counts. A writer sets the flag and then visits every count until it
  finds it zero; a reader increments its count, and enters when it finds the flag clear. The
  protected value is in \<open>rw_storage\<close> unless the writer holds it.
\<close>

section \<open>State and transitions\<close>

record 't RwLockSpec =
  rw_user_inv :: "'t set"
  rw_rc_width :: int
  rw_storage :: "'t option"
  rw_exc_locked :: bool
  rw_ref_counts :: "int \<rightharpoonup> int"
  rw_exc_pending :: "int option"
  rw_exc_guard :: "unit option"
  rw_shared_pending :: "int multiset"
  rw_shared_guard :: "(int \<times> 't) multiset"

definition rw_initialize :: "int \<Rightarrow> 't \<Rightarrow> 't set \<Rightarrow> 't RwLockSpec option" where
  "rw_initialize rc_width init_t user_inv =
     (if 0 < rc_width \<and> init_t \<in> user_inv
      then Some \<lparr>rw_user_inv = user_inv, rw_rc_width = rc_width, rw_storage = Some init_t, rw_exc_locked = False,
                 rw_ref_counts = (\<lambda>i. if 0 \<le> i \<and> i < rc_width then Some 0 else None), rw_exc_pending = None,
                 rw_exc_guard = None, rw_shared_pending = {#}, rw_shared_guard = {#}\<rparr>
      else None)"

definition exc_start :: "'t RwLockSpec \<Rightarrow> 't RwLockSpec option" where
  "exc_start s = (if \<not> rw_exc_locked s then Some (s\<lparr>rw_exc_locked := True, rw_exc_pending := Some 0\<rparr>) else None)"

definition exc_check_count :: "'t RwLockSpec \<Rightarrow> 't RwLockSpec option" where
  "exc_check_count s =
     (case rw_exc_pending s of
        Some r \<Rightarrow> if rw_ref_counts s r = Some 0 then Some (s\<lparr>rw_exc_pending := Some (r + 1)\<rparr>) else None
      | None \<Rightarrow> None)"

definition exc_finish :: "'t RwLockSpec \<Rightarrow> 't RwLockSpec option" where
  "exc_finish s =
     (if rw_exc_pending s = Some (rw_rc_width s)
      then Some (s\<lparr>rw_exc_pending := None, rw_exc_guard := Some (), rw_storage := None\<rparr>) else None)"

definition exc_release :: "'t RwLockSpec \<Rightarrow> 't \<Rightarrow> 't RwLockSpec option" where
  "exc_release s t =
     (if t \<in> rw_user_inv s \<and> rw_exc_guard s = Some ()
      then Some (s\<lparr>rw_exc_locked := False, rw_exc_guard := None, rw_storage := Some t\<rparr>) else None)"

definition shared_start :: "'t RwLockSpec \<Rightarrow> int \<Rightarrow> 't RwLockSpec option" where
  "shared_start s r =
     (case rw_ref_counts s r of
        Some rc \<Rightarrow> Some (s\<lparr>rw_ref_counts := (rw_ref_counts s)(r \<mapsto> rc + 1),
                          rw_shared_pending := add_mset r (rw_shared_pending s)\<rparr>)
      | None \<Rightarrow> None)"

definition shared_abandon :: "'t RwLockSpec \<Rightarrow> int \<Rightarrow> 't RwLockSpec option" where
  "shared_abandon s r =
     (case rw_ref_counts s r of
        Some rc \<Rightarrow>
          if rc > 0 \<and> r \<in># rw_shared_pending s
          then Some (s\<lparr>rw_ref_counts := (rw_ref_counts s)(r \<mapsto> rc - 1),
                       rw_shared_pending := rw_shared_pending s - {#r#}\<rparr>) else None
      | None \<Rightarrow> None)"

definition shared_finish :: "'t RwLockSpec \<Rightarrow> int \<Rightarrow> 't RwLockSpec option" where
  "shared_finish s r =
     (if \<not> rw_exc_locked s \<and> r \<in># rw_shared_pending s
      then Some (s\<lparr>rw_shared_pending := rw_shared_pending s - {#r#},
                   rw_shared_guard := add_mset (r, the (rw_storage s)) (rw_shared_guard s)\<rparr>) else None)"

definition shared_release :: "'t RwLockSpec \<Rightarrow> int \<times> 't \<Rightarrow> 't RwLockSpec option" where
  "shared_release s val =
     (if val \<in># rw_shared_guard s then
        (case rw_ref_counts s (fst val) of
           Some rc \<Rightarrow> Some (s\<lparr>rw_ref_counts := (rw_ref_counts s)(fst val \<mapsto> rc - 1),
                             rw_shared_guard := rw_shared_guard s - {#val#}\<rparr>)
         | None \<Rightarrow> None)
      else None)"

lemmas rw_transition_defs =
  exc_start_def exc_check_count_def exc_finish_def exc_release_def shared_start_def shared_abandon_def
  shared_finish_def shared_release_def

inductive rw_next :: "'t RwLockSpec \<Rightarrow> 't RwLockSpec \<Rightarrow> bool" where
  rw_next_exc_start: "exc_start s = Some s' \<Longrightarrow> rw_next s s'"
| rw_next_exc_check_count: "exc_check_count s = Some s' \<Longrightarrow> rw_next s s'"
| rw_next_exc_finish: "exc_finish s = Some s' \<Longrightarrow> rw_next s s'"
| rw_next_exc_release: "exc_release s t = Some s' \<Longrightarrow> rw_next s s'"
| rw_next_shared_start: "shared_start s r = Some s' \<Longrightarrow> rw_next s s'"
| rw_next_shared_abandon: "shared_abandon s r = Some s' \<Longrightarrow> rw_next s s'"
| rw_next_shared_finish: "shared_finish s r = Some s' \<Longrightarrow> rw_next s s'"
| rw_next_shared_release: "shared_release s val = Some s' \<Longrightarrow> rw_next s s'"

inductive rw_reachable :: "'t RwLockSpec \<Rightarrow> bool" where
  rw_reachable_init: "rw_initialize w t I = Some s \<Longrightarrow> rw_reachable s"
| rw_reachable_step: "rw_reachable s \<Longrightarrow> rw_next s s' \<Longrightarrow> rw_reachable s'"

section \<open>Invariant\<close>

definition sto_user_inv :: "'t RwLockSpec \<Rightarrow> bool" where
  "sto_user_inv s \<longleftrightarrow> (case rw_storage s of None \<Rightarrow> True | Some t \<Rightarrow> t \<in> rw_user_inv s)"

definition ref_counts_domain :: "'t RwLockSpec \<Rightarrow> bool" where
  "ref_counts_domain s \<longleftrightarrow> 0 < rw_rc_width s \<and> (\<forall>i. 0 \<le> i \<and> i < rw_rc_width s \<longleftrightarrow> i \<in> dom (rw_ref_counts s))"

definition exc_inv :: "'t RwLockSpec \<Rightarrow> bool" where
  "exc_inv s \<longleftrightarrow>
     (rw_exc_locked s \<longleftrightarrow> rw_exc_pending s \<noteq> None \<or> rw_exc_guard s \<noteq> None) \<and>
     (rw_storage s \<noteq> None \<longleftrightarrow> rw_exc_guard s = None) \<and>
     (case rw_exc_pending s of
        Some cur_r \<Rightarrow> 0 \<le> cur_r \<and> cur_r \<le> rw_rc_width s \<and> rw_exc_guard s = None \<and>
          (\<forall>x\<in>#rw_shared_guard s. \<not> (0 \<le> fst x \<and> fst x < cur_r))
      | None \<Rightarrow> True)"

definition shared_pending_in_range :: "'t RwLockSpec \<Rightarrow> bool" where
  "shared_pending_in_range s \<longleftrightarrow> (\<forall>r\<in>#rw_shared_pending s. 0 \<le> r \<and> r < rw_rc_width s)"

definition shared_guard_in_range :: "'t RwLockSpec \<Rightarrow> bool" where
  "shared_guard_in_range s \<longleftrightarrow> (\<forall>x\<in>#rw_shared_guard s. 0 \<le> fst x \<and> fst x < rw_rc_width s)"

definition shared_inv_agree :: "'t RwLockSpec \<Rightarrow> bool" where
  "shared_inv_agree s \<longleftrightarrow> (\<forall>v\<in>#rw_shared_guard s. rw_storage s = Some (snd v))"

definition filter_r :: "(int \<times> 't) multiset \<Rightarrow> int \<Rightarrow> (int \<times> 't) multiset" where
  "filter_r shared_guard r = filter_mset (\<lambda>val. fst val = r) shared_guard"

definition shared_counts_agree :: "'t RwLockSpec \<Rightarrow> bool" where
  "shared_counts_agree s \<longleftrightarrow>
     (\<forall>r. 0 \<le> r \<and> r < rw_rc_width s \<longrightarrow>
        the (rw_ref_counts s r) = int (count (rw_shared_pending s) r) + int (size (filter_r (rw_shared_guard s) r)))"

definition rw_invariant :: "'t RwLockSpec \<Rightarrow> bool" where
  "rw_invariant s \<longleftrightarrow>
     sto_user_inv s \<and> ref_counts_domain s \<and> exc_inv s \<and> shared_pending_in_range s \<and> shared_guard_in_range s \<and>
     shared_inv_agree s \<and> shared_counts_agree s"

lemmas rw_invariant_defs =
  rw_invariant_def sto_user_inv_def ref_counts_domain_def exc_inv_def shared_pending_in_range_def
  shared_guard_in_range_def shared_inv_agree_def shared_counts_agree_def

lemma filter_r_simps [simp]:
  "filter_r {#} r = {#}" "filter_r (add_mset v m) r = (if fst v = r then add_mset v (filter_r m r) else filter_r m r)"
  by (simp_all add: filter_r_def)

lemma size_filter_r_remove:
  assumes "v \<in># m"
  shows "int (size (filter_r (m - {#v#}) r)) = int (size (filter_r m r)) - (if fst v = r then 1 else 0)"
proof -
  have "int (size (filter_r (add_mset v (m - {#v#})) r)) =
      int (size (filter_r (m - {#v#}) r)) + (if fst v = r then 1 else 0)" by simp
  then show ?thesis using assms by simp
qed

lemma count_remove: "r \<in># m \<Longrightarrow> int (count (m - {#r#}) x) = int (count m x) - (if x = r then 1 else 0)"
  by (auto simp: of_nat_diff Suc_leI)

lemma size_filter_r_0: "size (filter_r m r) = 0 \<Longrightarrow> x \<in># m \<Longrightarrow> fst x \<noteq> r"
  by (metis add_mset_not_empty filter_r_simps(2) insert_DiffM size_eq_0_iff_empty)

lemma size_filter_r_pos: "v \<in># m \<Longrightarrow> fst v = r \<Longrightarrow> 0 < size (filter_r m r)"
  using size_filter_r_0 [of m r v] by (cases "size (filter_r m r)") auto

lemma not_Some_unit [simp]: "x \<noteq> Some () \<longleftrightarrow> x = None"
  by (cases x) auto

section \<open>The invariant is inductive\<close>

lemma rwD:
  assumes "rw_invariant s"
  shows "rw_storage s = Some t \<Longrightarrow> t \<in> rw_user_inv s" "0 < rw_rc_width s"
    "dom (rw_ref_counts s) = {0..<rw_rc_width s}"
    "rw_exc_locked s \<longleftrightarrow> rw_exc_pending s \<noteq> None \<or> rw_exc_guard s \<noteq> None"
    "rw_storage s = None \<longleftrightarrow> rw_exc_guard s \<noteq> None"
    "rw_exc_pending s = Some c \<Longrightarrow> 0 \<le> c \<and> c \<le> rw_rc_width s \<and> rw_exc_guard s = None"
    "rw_exc_pending s = Some c \<Longrightarrow> x \<in># rw_shared_guard s \<Longrightarrow> c \<le> fst x"
    "r \<in># rw_shared_pending s \<Longrightarrow> 0 \<le> r \<and> r < rw_rc_width s"
    "x \<in># rw_shared_guard s \<Longrightarrow> 0 \<le> fst x \<and> fst x < rw_rc_width s"
    "x \<in># rw_shared_guard s \<Longrightarrow> rw_storage s = Some (snd x)"
    "rw_ref_counts s r = Some k \<Longrightarrow> k = int (count (rw_shared_pending s) r) + int (size (filter_r (rw_shared_guard s) r))"
proof -
  note inv = assms [unfolded rw_invariant_def sto_user_inv_def ref_counts_domain_def exc_inv_def
      shared_pending_in_range_def shared_guard_in_range_def shared_inv_agree_def]
  show "rw_storage s = Some t \<Longrightarrow> t \<in> rw_user_inv s" "0 < rw_rc_width s"
    "rw_exc_locked s \<longleftrightarrow> rw_exc_pending s \<noteq> None \<or> rw_exc_guard s \<noteq> None"
    "rw_storage s = None \<longleftrightarrow> rw_exc_guard s \<noteq> None"
    "rw_exc_pending s = Some c \<Longrightarrow> 0 \<le> c \<and> c \<le> rw_rc_width s \<and> rw_exc_guard s = None"
    "r \<in># rw_shared_pending s \<Longrightarrow> 0 \<le> r \<and> r < rw_rc_width s"
    "x \<in># rw_shared_guard s \<Longrightarrow> rw_storage s = Some (snd x)"
    using inv by (auto split: option.splits)
  show range: "x \<in># rw_shared_guard s \<Longrightarrow> 0 \<le> fst x \<and> fst x < rw_rc_width s" using inv by blast
  show "rw_exc_pending s = Some c \<Longrightarrow> x \<in># rw_shared_guard s \<Longrightarrow> c \<le> fst x"
    using inv range by (cases "c \<le> fst x") auto
  show dom: "dom (rw_ref_counts s) = {0..<rw_rc_width s}"
    using inv by (intro set_eqI) (simp only: atLeastLessThan_iff)
  have agree: "shared_counts_agree s" using inv by (elim conjE) assumption
  show "k = int (count (rw_shared_pending s) r) + int (size (filter_r (rw_shared_guard s) r))"
    if "rw_ref_counts s r = Some k"
  proof -
    have "r \<in> dom (rw_ref_counts s)" using that by blast
    then have "0 \<le> r \<and> r < rw_rc_width s" using dom by simp
    then show ?thesis using agree that unfolding shared_counts_agree_def by force
  qed
qed

lemma rwI:
  assumes "\<And>t. rw_storage s = Some t \<Longrightarrow> t \<in> rw_user_inv s" "0 < rw_rc_width s"
    "dom (rw_ref_counts s) = {0..<rw_rc_width s}"
    "rw_exc_locked s \<longleftrightarrow> rw_exc_pending s \<noteq> None \<or> rw_exc_guard s \<noteq> None"
    "rw_storage s = None \<longleftrightarrow> rw_exc_guard s \<noteq> None"
    "\<And>c. rw_exc_pending s = Some c \<Longrightarrow> 0 \<le> c \<and> c \<le> rw_rc_width s \<and> rw_exc_guard s = None"
    "\<And>c x. rw_exc_pending s = Some c \<Longrightarrow> x \<in># rw_shared_guard s \<Longrightarrow> c \<le> fst x"
    "\<And>r. r \<in># rw_shared_pending s \<Longrightarrow> 0 \<le> r \<and> r < rw_rc_width s"
    "\<And>x. x \<in># rw_shared_guard s \<Longrightarrow> 0 \<le> fst x \<and> fst x < rw_rc_width s"
    "\<And>x. x \<in># rw_shared_guard s \<Longrightarrow> rw_storage s = Some (snd x)"
    "\<And>r k. rw_ref_counts s r = Some k \<Longrightarrow> k = int (count (rw_shared_pending s) r) + int (size (filter_r (rw_shared_guard s) r))"
  shows "rw_invariant s"
proof -
  have "the (rw_ref_counts s r) = int (count (rw_shared_pending s) r) + int (size (filter_r (rw_shared_guard s) r))"
    if "0 \<le> r \<and> r < rw_rc_width s" for r
  proof -
    have "r \<in> dom (rw_ref_counts s)" using that assms(3) by simp
    then show ?thesis using assms(11) by force
  qed
  then have "shared_counts_agree s" by (simp add: shared_counts_agree_def)
  moreover have "exc_inv s" using assms(4-7) by (force simp: exc_inv_def split: option.splits)
  moreover have "sto_user_inv s" using assms(1) by (simp add: sto_user_inv_def split: option.splits)
  ultimately show ?thesis
    using assms(2,3,8-10)
    by (auto simp: rw_invariant_def ref_counts_domain_def shared_pending_in_range_def shared_guard_in_range_def
        shared_inv_agree_def)
qed

lemma rw_initialize_invariant: "rw_initialize w t I = Some s \<Longrightarrow> rw_invariant s"
  by (rule rwI) (auto simp: rw_initialize_def split: if_splits)

lemma exc_start_invariant:
  assumes inv: "rw_invariant s" and step: "exc_start s = Some s'"
  shows "rw_invariant s'"
proof -
  have s: "\<not> rw_exc_locked s" "s' = s\<lparr>rw_exc_locked := True, rw_exc_pending := Some 0\<rparr>"
    using step by (auto simp: exc_start_def split: if_splits)
  show ?thesis
    unfolding s(2) using s(1) rwD [OF inv] by (intro rwI) (auto simp: less_imp_le)
qed

lemma exc_check_count_invariant:
  assumes inv: "rw_invariant s" and step: "exc_check_count s = Some s'"
  shows "rw_invariant s'"
proof -
  obtain r where s: "rw_exc_pending s = Some r" "rw_ref_counts s r = Some 0" "s' = s\<lparr>rw_exc_pending := Some (r + 1)\<rparr>"
    using step by (auto simp: exc_check_count_def split: option.splits if_splits)
  have "r \<in> dom (rw_ref_counts s)" using s(2) by blast
  then have r: "0 \<le> r" "r < rw_rc_width s" using rwD(3) [OF inv] by simp_all
  have "size (filter_r (rw_shared_guard s) r) = 0" using rwD(11) [OF inv s(2)] by linarith
  then have "r + 1 \<le> fst x" if "x \<in># rw_shared_guard s" for x
    using rwD(7) [OF inv s(1) that] size_filter_r_0 that by fastforce
  then show ?thesis
    unfolding s(3) using s(1) r rwD [OF inv] by (intro rwI) auto
qed

lemma exc_finish_invariant:
  assumes inv: "rw_invariant s" and step: "exc_finish s = Some s'"
  shows "rw_invariant s'"
proof -
  have s: "rw_exc_pending s = Some (rw_rc_width s)" "s' = s\<lparr>rw_exc_pending := None, rw_exc_guard := Some (), rw_storage := None\<rparr>"
    using step by (auto simp: exc_finish_def split: if_splits)
  have "x \<notin># rw_shared_guard s" for x using rwD(7) [OF inv s(1), of x] rwD(9) [OF inv, of x] by auto
  then show ?thesis
    unfolding s(2) using s(1) rwD [OF inv] by (intro rwI) auto
qed

lemma exc_release_invariant:
  assumes inv: "rw_invariant s" and step: "exc_release s t = Some s'"
  shows "rw_invariant s'"
proof -
  have s: "t \<in> rw_user_inv s" "rw_exc_guard s = Some ()"
      "s' = s\<lparr>rw_exc_locked := False, rw_exc_guard := None, rw_storage := Some t\<rparr>"
    using step by (auto simp: exc_release_def split: if_splits)
  have "rw_exc_pending s = None" using rwD(6) [OF inv] s(2) by (cases "rw_exc_pending s") auto
  moreover have "x \<notin># rw_shared_guard s" for x using rwD(10) [OF inv, of x] rwD(5) [OF inv] s(2) by auto
  ultimately show ?thesis
    unfolding s(3) using s(1) rwD [OF inv] by (intro rwI) auto
qed

lemma shared_start_invariant:
  assumes inv: "rw_invariant s" and step: "shared_start s r = Some s'"
  shows "rw_invariant s'"
proof -
  obtain rc where s: "rw_ref_counts s r = Some rc"
      "s' = s\<lparr>rw_ref_counts := (rw_ref_counts s)(r \<mapsto> rc + 1), rw_shared_pending := add_mset r (rw_shared_pending s)\<rparr>"
    using step by (auto simp: shared_start_def split: option.splits)
  have "r \<in> dom (rw_ref_counts s)" using s(1) by blast
  then show ?thesis
    unfolding s(2) using s(1) rwD [OF inv] by (intro rwI) (auto split: if_splits)
qed

lemma shared_abandon_invariant:
  assumes inv: "rw_invariant s" and step: "shared_abandon s r = Some s'"
  shows "rw_invariant s'"
proof -
  obtain rc where s: "rw_ref_counts s r = Some rc" "r \<in># rw_shared_pending s"
      "s' = s\<lparr>rw_ref_counts := (rw_ref_counts s)(r \<mapsto> rc - 1), rw_shared_pending := rw_shared_pending s - {#r#}\<rparr>"
    using step by (auto simp: shared_abandon_def split: option.splits if_splits)
  have "r \<in> dom (rw_ref_counts s)" using s(1) by blast
  then show ?thesis
    unfolding s(3) using s(1) rwD [OF inv] count_remove [OF s(2)]
    by (intro rwI) (auto split: if_splits dest: in_diffD)
qed

lemma shared_finish_invariant:
  assumes inv: "rw_invariant s" and step: "shared_finish s r = Some s'"
  shows "rw_invariant s'"
proof -
  have s: "\<not> rw_exc_locked s" "r \<in># rw_shared_pending s"
      "s' = s\<lparr>rw_shared_pending := rw_shared_pending s - {#r#},
              rw_shared_guard := add_mset (r, the (rw_storage s)) (rw_shared_guard s)\<rparr>"
    using step by (auto simp: shared_finish_def split: if_splits)
  obtain t where "rw_storage s = Some t" using s(1) rwD(4,5) [OF inv] by auto
  then show ?thesis
    unfolding s(3) using s(1) rwD [OF inv] count_remove [OF s(2)] rwD(8) [OF inv s(2)]
    by (intro rwI) (auto split: if_splits dest: in_diffD)
qed

lemma shared_release_invariant:
  assumes inv: "rw_invariant s" and step: "shared_release s val = Some s'"
  shows "rw_invariant s'"
proof -
  obtain rc where s: "rw_ref_counts s (fst val) = Some rc" "val \<in># rw_shared_guard s"
      "s' = s\<lparr>rw_ref_counts := (rw_ref_counts s)(fst val \<mapsto> rc - 1), rw_shared_guard := rw_shared_guard s - {#val#}\<rparr>"
    using step by (auto simp: shared_release_def split: option.splits if_splits)
  have "rw_exc_guard s = None" using rwD(5,10) [OF inv] s(2) by fastforce
  moreover have "fst val \<in> dom (rw_ref_counts s)" using s(1) by blast
  ultimately show ?thesis
    unfolding s(3) using s(1) rwD [OF inv] size_filter_r_remove [OF s(2)]
    by (intro rwI) (auto split: if_splits dest: in_diffD)
qed

lemmas rw_transitions_invariant =
  exc_start_invariant exc_check_count_invariant exc_finish_invariant exc_release_invariant shared_start_invariant
  shared_abandon_invariant shared_finish_invariant shared_release_invariant

lemma rw_next_invariant: "rw_next s s' \<Longrightarrow> rw_invariant s \<Longrightarrow> rw_invariant s'"
  by (induction rule: rw_next.induct) (blast intro: rw_transitions_invariant)+

lemma rw_reachable_invariant: "rw_reachable s \<Longrightarrow> rw_invariant s"
  by (induction rule: rw_reachable.induct) (auto intro: rw_initialize_invariant rw_next_invariant)

section \<open>What the lock guarantees\<close>

text \<open>A writer and a reader never hold the lock together, and every reader sees the stored value.\<close>

lemma writer_excludes_readers: "rw_invariant s \<Longrightarrow> rw_exc_guard s \<noteq> None \<Longrightarrow> rw_shared_guard s = {#}"
  using rwD(5,10) [of s] by (metis multiset_nonemptyE option.distinct(1))

lemma reader_sees_storage: "rw_invariant s \<Longrightarrow> v \<in># rw_shared_guard s \<Longrightarrow> rw_storage s = Some (snd v)"
  by (rule rwD(10))

lemma pending_count_positive:
  "rw_invariant s \<Longrightarrow> r \<in># rw_shared_pending s \<Longrightarrow> rw_ref_counts s r = Some rc \<Longrightarrow> 0 < rc"
  using rwD(11) [of s r rc] count_greater_zero_iff [of "rw_shared_pending s" r] by linarith

lemma guard_count_positive:
  assumes "rw_invariant s" and "v \<in># rw_shared_guard s" and "rw_ref_counts s (fst v) = Some rc"
  shows "0 < rc"
  using rwD(11) [OF assms(1,3)] size_filter_r_pos [OF assms(2) refl] by linarith

text \<open>The writer that has visited every count finds a value to take, and it satisfies the user's invariant.\<close>

lemma writer_finds_value:
  assumes "rw_invariant s" and "rw_exc_pending s = Some (rw_rc_width s)"
  shows "\<exists>x\<in>rw_user_inv s. rw_storage s = Some x"
  using rwD(1,5,6) [OF assms(1)] assms(2) by fastforce

end
