(* ===== verification/NR_Exec_RwLock.thy ===== *)
theory NR_Exec_RwLock
  imports NR_RwLock "HOL-Library.Word"
begin

text \<open>
  The code of the reader-writer lock (\<^verbatim>\<open>exec/rwlock.rs\<close>): a flag, an array of 64-bit
  reader counts and a cell, worked on by threads that interleave at every atomic operation.
  The loops of the source are the loops of the program counter. Behind every reachable state
  of the code there is a reachable state of the lock's state machine.
\<close>

section \<open>The code\<close>

definition MAX_RC :: "64 word" where
  "MAX_RC = 0xfffffffffffffff0"

record 't RwLock =
  rl_data :: "'t option"
  rl_exc_locked :: bool
  rl_ref_counts :: "64 word list"
  rl_user_inv :: "'t set"

text \<open>
  Where a thread is. The comment names the operation it does next.

    \<^item> \<open>WAcquire\<close>: compare-and-exchange on the flag; \<open>WWait idx\<close>: load the count of
      \<open>idx\<close>, or take the data when all are done; \<open>WHeld t\<close>: has the data;
      \<open>WPut v\<close>: put the data back; \<open>WUnlock\<close>: clear the flag;
    \<^item> \<open>RLoad tid\<close>: load the count; \<open>RInc tid rc\<close>: compare-and-exchange it; \<open>RCheck tid\<close>:
      load the flag; \<open>RUndo tid\<close>: subtract and retry; \<open>RHeld tid\<close>: may borrow the data;
      \<open>RRelease tid\<close>: subtract; \<open>RPanic\<close>: the count is at its maximum.
\<close>

datatype 't RwPc =
    LIdle
  | WAcquire | WWait nat | WHeld 't | WPut 't | WUnlock
  | RLoad nat | RInc nat "64 word" | RCheck nat | RUndo nat | RHeld nat | RRelease nat | RPanic

definition rwlock_new :: "nat \<Rightarrow> 't \<Rightarrow> 't set \<Rightarrow> 't RwLock" where
  "rwlock_new rc_width t I =
     \<lparr>rl_data = Some t, rl_exc_locked = False, rl_ref_counts = replicate rc_width 0, rl_user_inv = I\<rparr>"

definition acquire_write_step :: "'t RwLock \<Rightarrow> 't RwPc \<Rightarrow> ('t RwLock \<times> 't RwPc) option" where
  "acquire_write_step l pc =
     (case pc of
        WAcquire \<Rightarrow>
          if \<not> rl_exc_locked l then Some (l\<lparr>rl_exc_locked := True\<rparr>, WWait 0) else Some (l, WAcquire)
      | WWait idx \<Rightarrow>
          if idx < length (rl_ref_counts l)
          then Some (l, if rl_ref_counts l ! idx \<noteq> 0 then WWait idx else WWait (idx + 1))
          else (case rl_data l of Some t \<Rightarrow> Some (l\<lparr>rl_data := None\<rparr>, WHeld t) | None \<Rightarrow> None)
      | _ \<Rightarrow> None)"

definition acquire_read_step :: "'t RwLock \<Rightarrow> 't RwPc \<Rightarrow> ('t RwLock \<times> 't RwPc) option" where
  "acquire_read_step l pc =
     (case pc of
        RLoad tid \<Rightarrow>
          (let rc = rl_ref_counts l ! tid in Some (l, if rc = MAX_RC then RPanic else RInc tid rc))
      | RInc tid rc \<Rightarrow>
          if rl_ref_counts l ! tid = rc
          then Some (l\<lparr>rl_ref_counts := (rl_ref_counts l)[tid := rc + 1]\<rparr>, RCheck tid)
          else Some (l, RLoad tid)
      | RCheck tid \<Rightarrow> Some (l, if rl_exc_locked l then RUndo tid else RHeld tid)
      | RUndo tid \<Rightarrow>
          Some (l\<lparr>rl_ref_counts := (rl_ref_counts l)[tid := rl_ref_counts l ! tid - 1]\<rparr>, RLoad tid)
      | _ \<Rightarrow> None)"

definition release_write_step :: "'t RwLock \<Rightarrow> 't RwPc \<Rightarrow> ('t RwLock \<times> 't RwPc) option" where
  "release_write_step l pc =
     (case pc of
        WPut val \<Rightarrow> Some (l\<lparr>rl_data := Some val\<rparr>, WUnlock)
      | WUnlock \<Rightarrow> Some (l\<lparr>rl_exc_locked := False\<rparr>, LIdle)
      | _ \<Rightarrow> None)"

definition release_read_step :: "'t RwLock \<Rightarrow> 't RwPc \<Rightarrow> ('t RwLock \<times> 't RwPc) option" where
  "release_read_step l pc =
     (case pc of
        RRelease tid \<Rightarrow>
          Some (l\<lparr>rl_ref_counts := (rl_ref_counts l)[tid := rl_ref_counts l ! tid - 1]\<rparr>, LIdle)
      | _ \<Rightarrow> None)"

definition rwlock_borrow :: "'t RwLock \<Rightarrow> 't option" where
  "rwlock_borrow l = rl_data l"

lemmas rwl_step_defs = acquire_write_step_def acquire_read_step_def release_write_step_def release_read_step_def

text \<open>The lock with its threads: calls, under the preconditions of the source, and steps.\<close>

inductive rwl_step :: "'t RwLock \<times> 't RwPc list \<Rightarrow> 't RwLock \<times> 't RwPc list \<Rightarrow> bool" where
  rwl_acquire_write_call: "i < length ths \<Longrightarrow> ths ! i = LIdle \<Longrightarrow> rwl_step (l, ths) (l, ths[i := WAcquire])"
| rwl_acquire_read_call: "i < length ths \<Longrightarrow> ths ! i = LIdle \<Longrightarrow> tid < length (rl_ref_counts l) \<Longrightarrow>
    rwl_step (l, ths) (l, ths[i := RLoad tid])"
| rwl_release_write_call: "i < length ths \<Longrightarrow> ths ! i = WHeld t \<Longrightarrow> val \<in> rl_user_inv l \<Longrightarrow>
    rwl_step (l, ths) (l, ths[i := WPut val])"
| rwl_release_read_call: "i < length ths \<Longrightarrow> ths ! i = RHeld tid \<Longrightarrow> rwl_step (l, ths) (l, ths[i := RRelease tid])"
| rwl_acquire_write: "i < length ths \<Longrightarrow> acquire_write_step l (ths ! i) = Some (l', pc) \<Longrightarrow>
    rwl_step (l, ths) (l', ths[i := pc])"
| rwl_acquire_read: "i < length ths \<Longrightarrow> acquire_read_step l (ths ! i) = Some (l', pc) \<Longrightarrow>
    rwl_step (l, ths) (l', ths[i := pc])"
| rwl_release_write: "i < length ths \<Longrightarrow> release_write_step l (ths ! i) = Some (l', pc) \<Longrightarrow>
    rwl_step (l, ths) (l', ths[i := pc])"
| rwl_release_read: "i < length ths \<Longrightarrow> release_read_step l (ths ! i) = Some (l', pc) \<Longrightarrow>
    rwl_step (l, ths) (l', ths[i := pc])"

inductive rwl_reachable :: "'t RwLock \<times> 't RwPc list \<Rightarrow> bool" where
  rwl_reachable_new: "0 < rc_width \<Longrightarrow> t \<in> I \<Longrightarrow> rwl_reachable (rwlock_new rc_width t I, replicate n LIdle)"
| rwl_reachable_step: "rwl_reachable s \<Longrightarrow> rwl_step s s' \<Longrightarrow> rwl_reachable s'"

section \<open>Tokens\<close>

text \<open>The tokens of the state machine a thread holds at each point of the code.\<close>

fun pending_token :: "'t RwPc \<Rightarrow> int multiset" where
  "pending_token (RCheck tid) = {#int tid#}"
| "pending_token (RUndo tid) = {#int tid#}"
| "pending_token _ = {#}"

fun guard_token :: "'t RwPc \<Rightarrow> int multiset" where
  "guard_token (RHeld tid) = {#int tid#}"
| "guard_token (RRelease tid) = {#int tid#}"
| "guard_token _ = {#}"

fun exc_pending_token :: "'t RwPc \<Rightarrow> int multiset" where
  "exc_pending_token (WWait idx) = {#int idx#}"
| "exc_pending_token _ = {#}"

fun exc_guard_token :: "'t RwPc \<Rightarrow> unit multiset" where
  "exc_guard_token (WHeld t) = {#()#}"
| "exc_guard_token (WPut t) = {#()#}"
| "exc_guard_token WUnlock = {#()#}"
| "exc_guard_token _ = {#}"

definition all_tokens :: "('a \<Rightarrow> 'b multiset) \<Rightarrow> 'a list \<Rightarrow> 'b multiset" where
  "all_tokens f ths = sum_list (map f ths)"

definition opt_token :: "'a option \<Rightarrow> 'a multiset" where
  "opt_token x = (case x of None \<Rightarrow> {#} | Some y \<Rightarrow> {#y#})"

lemma opt_token_simps [simp]: "opt_token None = {#}" "opt_token (Some y) = {#y#}"
  by (simp_all add: opt_token_def)

lemma opt_token_single: "{#y#} + r = opt_token x \<Longrightarrow> x = Some y \<and> r = {#}"
  by (cases x) (auto simp: single_is_union)

lemma opt_token_empty [simp]: "opt_token x = {#} \<longleftrightarrow> x = None" "{#} = opt_token x \<longleftrightarrow> x = None"
  by (cases x; simp)+

lemma all_tokens_split:
  "i < length ths \<Longrightarrow> \<exists>r. all_tokens f ths = f (ths ! i) + r \<and> (\<forall>x. all_tokens f (ths[i := x]) = f x + r)"
proof (induction ths arbitrary: i)
  case (Cons y ths)
  show ?case
  proof (cases i)
    case (Suc j)
    then obtain r where "all_tokens f ths = f (ths ! j) + r" "\<forall>x. all_tokens f (ths[j := x]) = f x + r"
      using Cons by auto
    then show ?thesis using Suc by (intro exI [of _ "f y + r"]) (simp add: all_tokens_def)
  qed (auto simp: all_tokens_def)
qed simp

lemma all_tokens_idle: "f LIdle = {#} \<Longrightarrow> all_tokens f (replicate n LIdle) = {#}"
  by (induction n) (simp_all add: all_tokens_def)

section \<open>The coupling\<close>

fun pc_ok :: "'t RwLock \<Rightarrow> 't RwPc \<Rightarrow> bool" where
  "pc_ok l (WWait idx) = (idx \<le> length (rl_ref_counts l))"
| "pc_ok l (WPut v) = (v \<in> rl_user_inv l)"
| "pc_ok l WUnlock = (\<exists>v\<in>rl_user_inv l. rl_data l = Some v)"
| "pc_ok l (RLoad tid) = (tid < length (rl_ref_counts l))"
| "pc_ok l (RInc tid rc) = (tid < length (rl_ref_counts l) \<and> rc \<noteq> MAX_RC)"
| "pc_ok l (RCheck tid) = (tid < length (rl_ref_counts l))"
| "pc_ok l (RUndo tid) = (tid < length (rl_ref_counts l))"
| "pc_ok l (RHeld tid) = (tid < length (rl_ref_counts l))"
| "pc_ok l (RRelease tid) = (tid < length (rl_ref_counts l))"
| "pc_ok l _ = True"

definition lock_coupled :: "'t RwLock \<Rightarrow> 't RwLockSpec \<Rightarrow> bool" where
  "lock_coupled l g \<longleftrightarrow>
     rl_exc_locked l = rw_exc_locked g \<and> rl_user_inv l = rw_user_inv g \<and>
     rw_rc_width g = int (length (rl_ref_counts l)) \<and>
     (\<forall>i<length (rl_ref_counts l). rw_ref_counts g (int i) = Some (uint (rl_ref_counts l ! i)) \<and>
        rl_ref_counts l ! i \<le> MAX_RC) \<and>
     (\<forall>t. rw_storage g = Some t \<longrightarrow> rl_data l = Some t)"

definition tokens_coupled :: "'t RwPc list \<Rightarrow> 't RwLockSpec \<Rightarrow> bool" where
  "tokens_coupled ths g \<longleftrightarrow>
     all_tokens pending_token ths = rw_shared_pending g \<and>
     all_tokens guard_token ths = image_mset fst (rw_shared_guard g) \<and>
     all_tokens exc_pending_token ths = opt_token (rw_exc_pending g) \<and>
     all_tokens exc_guard_token ths = opt_token (rw_exc_guard g)"

definition rw_coupled :: "'t RwLock \<Rightarrow> 't RwPc list \<Rightarrow> 't RwLockSpec \<Rightarrow> bool" where
  "rw_coupled l ths g \<longleftrightarrow> lock_coupled l g \<and> tokens_coupled ths g \<and> (\<forall>pc\<in>set ths. pc_ok l pc)"

lemma tokens_coupled_split:
  assumes "tokens_coupled ths g" and "i < length ths"
  obtains p q ep eg where
    "rw_shared_pending g = pending_token (ths ! i) + p" "image_mset fst (rw_shared_guard g) = guard_token (ths ! i) + q"
    "opt_token (rw_exc_pending g) = exc_pending_token (ths ! i) + ep"
    "opt_token (rw_exc_guard g) = exc_guard_token (ths ! i) + eg"
    "\<And>pc h. tokens_coupled (ths[i := pc]) h \<longleftrightarrow>
       rw_shared_pending h = pending_token pc + p \<and> image_mset fst (rw_shared_guard h) = guard_token pc + q \<and>
       opt_token (rw_exc_pending h) = exc_pending_token pc + ep \<and> opt_token (rw_exc_guard h) = exc_guard_token pc + eg"
proof -
  note split = all_tokens_split [OF assms(2)]
  obtain p where p: "all_tokens pending_token ths = pending_token (ths ! i) + p"
      "\<And>x. all_tokens pending_token (ths[i := x]) = pending_token x + p" using split by blast
  obtain q where q: "all_tokens guard_token ths = guard_token (ths ! i) + q"
      "\<And>x. all_tokens guard_token (ths[i := x]) = guard_token x + q" using split by blast
  obtain ep where ep: "all_tokens exc_pending_token ths = exc_pending_token (ths ! i) + ep"
      "\<And>x. all_tokens exc_pending_token (ths[i := x]) = exc_pending_token x + ep" using split by blast
  obtain eg where eg: "all_tokens exc_guard_token ths = exc_guard_token (ths ! i) + eg"
      "\<And>x. all_tokens exc_guard_token (ths[i := x]) = exc_guard_token x + eg" using split by blast
  have "rw_shared_pending g = pending_token (ths ! i) + p" "image_mset fst (rw_shared_guard g) = guard_token (ths ! i) + q"
    "opt_token (rw_exc_pending g) = exc_pending_token (ths ! i) + ep"
    "opt_token (rw_exc_guard g) = exc_guard_token (ths ! i) + eg"
    using assms(1) p(1) q(1) ep(1) eg(1) by (simp_all add: tokens_coupled_def)
  then show ?thesis
    by (rule that) (auto simp: tokens_coupled_def p(2) q(2) ep(2) eg(2))
qed

lemma all_tokens_same:
  "i < length ths \<Longrightarrow> f x = f (ths ! i) \<Longrightarrow> all_tokens f (ths[i := x]) = all_tokens f ths"
  using all_tokens_split [of i ths f] by auto

lemma all_tokens_empty: "all_tokens f ths = {#} \<Longrightarrow> pc \<in> set ths \<Longrightarrow> f pc = {#}"
  by (induction ths) (auto simp: all_tokens_def)

lemma pc_ok_same_data:
  "pc_ok l pc \<Longrightarrow> length (rl_ref_counts l') = length (rl_ref_counts l) \<Longrightarrow> rl_user_inv l' = rl_user_inv l \<Longrightarrow>
   rl_data l' = rl_data l \<or> exc_guard_token pc = {#} \<Longrightarrow> pc_ok l' pc"
  by (cases pc) auto

lemma pcs_ok_update:
  assumes "\<forall>pc\<in>set ths. pc_ok l pc" and "pc_ok l' pc1"
    and "length (rl_ref_counts l') = length (rl_ref_counts l)" "rl_user_inv l' = rl_user_inv l" "rl_data l' = rl_data l"
  shows "\<forall>pc\<in>set (ths[i := pc1]). pc_ok l' pc"
  using assms set_update_subset_insert [of ths i pc1] by (auto intro: pc_ok_same_data [of l])

text \<open>The data changes only where no other thread holds the exclusive guard.\<close>

lemma pcs_ok_update_data:
  assumes "\<forall>pc\<in>set ths. pc_ok l pc" and "pc_ok l' pc1" and "i < length ths"
    and "length (rl_ref_counts l') = length (rl_ref_counts l)" "rl_user_inv l' = rl_user_inv l"
    and none: "all_tokens exc_guard_token (ths[i := LIdle]) = {#}"
  shows "\<forall>pc\<in>set (ths[i := pc1]). pc_ok l' pc"
proof
  fix pc assume "pc \<in> set (ths[i := pc1])"
  then have "pc = pc1 \<or> pc \<in> set (ths[i := LIdle])"
    using set_update_subset_insert [of "ths[i := LIdle]" i pc1] by auto
  then show "pc_ok l' pc"
  proof
    assume pc: "pc \<in> set (ths[i := LIdle])"
    then have "pc_ok l pc" using assms(1) set_update_subset_insert [of ths i LIdle] by fastforce
    then show ?thesis using all_tokens_empty [OF none pc] assms(4,5) by (auto intro: pc_ok_same_data)
  qed (use assms(2) in simp)
qed

lemma rw_coupledI:
  "lock_coupled l g \<Longrightarrow> tokens_coupled ths g \<Longrightarrow> \<forall>pc\<in>set ths. pc_ok l pc \<Longrightarrow> rw_coupled l ths g"
  by (simp add: rw_coupled_def)

lemma rw_coupledD:
  assumes "rw_coupled l ths g"
  shows "lock_coupled l g" "tokens_coupled ths g" "\<forall>pc\<in>set ths. pc_ok l pc" "i < length ths \<Longrightarrow> pc_ok l (ths ! i)"
  using assms by (simp_all add: rw_coupled_def)

lemma lock_coupled_count:
  assumes "lock_coupled l g" and "tid < length (rl_ref_counts l)"
  shows "rw_ref_counts g (int tid) = Some (uint (rl_ref_counts l ! tid))" "rl_ref_counts l ! tid \<le> MAX_RC"
  using assms by (simp_all add: lock_coupled_def)

lemma lock_coupled_set_count:
  assumes "lock_coupled l g" and "tid < length (rl_ref_counts l)" and "w \<le> MAX_RC" and "rw_ref_counts g' = (rw_ref_counts g)(int tid \<mapsto> uint w)"
    and "rw_exc_locked g' = rw_exc_locked g" "rw_user_inv g' = rw_user_inv g" "rw_rc_width g' = rw_rc_width g"
      "rw_storage g' = rw_storage g"
  shows "lock_coupled (l\<lparr>rl_ref_counts := (rl_ref_counts l)[tid := w]\<rparr>) g'"
  using assms by (auto simp: lock_coupled_def nth_list_update)

lemma max_rc_succ: "rc \<le> MAX_RC \<Longrightarrow> rc \<noteq> MAX_RC \<Longrightarrow> rc + 1 \<le> MAX_RC \<and> uint (rc + 1) = uint rc + 1"
proof -
  assume "rc \<le> MAX_RC" "rc \<noteq> MAX_RC"
  then have rc: "uint rc < 0xfffffffffffffff0" by (auto simp: MAX_RC_def word_le_def word_uint_eq_iff)
  have nn: "0 \<le> uint rc" by simp
  have "uint (rc + 1) = (uint rc + 1) mod 2 ^ 64" by (simp add: uint_word_ariths)
  also have "\<dots> = uint rc + 1" using rc nn by (intro mod_pos_pos_trivial) auto
  finally have e: "uint (rc + 1) = uint rc + 1" .
  moreover have "rc + 1 \<le> MAX_RC" unfolding word_le_def e using rc by (simp add: MAX_RC_def)
  ultimately show ?thesis by blast
qed

lemma rc_pred: "(rc :: 64 word) \<le> MAX_RC \<Longrightarrow> 0 < uint rc \<Longrightarrow> rc - 1 \<le> MAX_RC \<and> uint (rc - 1) = uint rc - 1"
proof -
  assume le: "rc \<le> MAX_RC" and pos: "0 < uint rc"
  have lt: "uint rc < 2 ^ 64" using uint_lt2p [of rc] by simp
  have "uint (rc - 1) = (uint rc - 1) mod 2 ^ 64" by (simp add: uint_word_ariths)
  also have "\<dots> = uint rc - 1" using pos lt by (intro mod_pos_pos_trivial) auto
  finally have e: "uint (rc - 1) = uint rc - 1" .
  moreover have "rc - 1 \<le> MAX_RC" using le unfolding word_le_def e by simp
  ultimately show ?thesis by blast
qed

section \<open>Every step of the code is a step of the machine, or none\<close>

definition simulated :: "'t RwLock \<Rightarrow> 't RwPc list \<Rightarrow> 't RwLockSpec \<Rightarrow> bool" where
  "simulated l' ths' g \<longleftrightarrow> (\<exists>g'. (g' = g \<or> rw_next g g') \<and> rw_coupled l' ths' g')"

lemma simulated_step: "rw_next g g' \<Longrightarrow> rw_coupled l' ths' g' \<Longrightarrow> simulated l' ths' g"
  by (auto simp: simulated_def)

text \<open>Calls, failed compare-and-exchanges and loads that change no token.\<close>

lemma same_tokens_simulated:
  assumes c: "rw_coupled l ths g" and i: "i < length ths" and pc: "pc_ok l pc"
    and same: "pending_token pc = pending_token (ths ! i)" "guard_token pc = guard_token (ths ! i)"
      "exc_pending_token pc = exc_pending_token (ths ! i)" "exc_guard_token pc = exc_guard_token (ths ! i)"
  shows "simulated l (ths[i := pc]) g"
proof -
  have "tokens_coupled (ths[i := pc]) g"
    using rw_coupledD(2) [OF c] by (simp add: tokens_coupled_def same [THEN all_tokens_same [OF i]])
  then have "rw_coupled l (ths[i := pc]) g"
    using rw_coupledD(1) [OF c] pcs_ok_update [OF rw_coupledD(3) [OF c] pc] by (auto intro: rw_coupledI)
  then show ?thesis by (auto simp: simulated_def)
qed

lemma write_start_simulated:
  assumes c: "rw_coupled l ths g" and i: "i < length ths" "ths ! i = WAcquire" and free: "\<not> rl_exc_locked l"
    and inv: "rw_invariant g"
  shows "simulated (l\<lparr>rl_exc_locked := True\<rparr>) (ths[i := WWait 0]) g"
proof (rule simulated_step [of g "g\<lparr>rw_exc_locked := True, rw_exc_pending := Some 0\<rparr>"])
  have "\<not> rw_exc_locked g" using rw_coupledD(1) [OF c] free by (simp add: lock_coupled_def)
  then have none: "rw_exc_pending g = None" using rwD(4) [OF inv] by auto
  show "rw_next g (g\<lparr>rw_exc_locked := True, rw_exc_pending := Some 0\<rparr>)"
    using \<open>\<not> rw_exc_locked g\<close> by (intro rw_next_exc_start) (simp add: exc_start_def)
  show "rw_coupled (l\<lparr>rl_exc_locked := True\<rparr>) (ths[i := WWait 0]) (g\<lparr>rw_exc_locked := True, rw_exc_pending := Some 0\<rparr>)"
  proof (rule rw_coupledI)
    show "lock_coupled (l\<lparr>rl_exc_locked := True\<rparr>) (g\<lparr>rw_exc_locked := True, rw_exc_pending := Some 0\<rparr>)"
      using rw_coupledD(1) [OF c] by (simp add: lock_coupled_def)
    show "tokens_coupled (ths[i := WWait 0]) (g\<lparr>rw_exc_locked := True, rw_exc_pending := Some 0\<rparr>)"
      by (rule tokens_coupled_split [OF rw_coupledD(2) [OF c] i(1)]) (simp add: i(2) none)
    show "\<forall>pc\<in>set (ths[i := WWait 0]). pc_ok (l\<lparr>rl_exc_locked := True\<rparr>) pc"
      by (rule pcs_ok_update [OF rw_coupledD(3) [OF c]]) simp_all
  qed
qed

lemma write_wait_pending:
  assumes c: "rw_coupled l ths g" and i: "i < length ths" "ths ! i = WWait idx"
  shows "rw_exc_pending g = Some (int idx)"
proof (rule tokens_coupled_split [OF rw_coupledD(2) [OF c] i(1)])
  fix ep :: "int multiset" assume "opt_token (rw_exc_pending g) = exc_pending_token (ths ! i) + ep"
  then have "{#int idx#} + ep = opt_token (rw_exc_pending g)" by (simp add: i(2))
  from opt_token_single [OF this] show ?thesis by (rule conjunct1)
qed

lemma write_check_simulated:
  assumes c: "rw_coupled l ths g" and i: "i < length ths" "ths ! i = WWait idx"
    and idx: "idx < length (rl_ref_counts l)" "rl_ref_counts l ! idx = 0"
  shows "simulated l (ths[i := WWait (idx + 1)]) g"
proof (rule simulated_step [of g "g\<lparr>rw_exc_pending := Some (int idx + 1)\<rparr>"])
  note pend = write_wait_pending [OF c i]
  have "rw_ref_counts g (int idx) = Some 0" using lock_coupled_count(1) [OF rw_coupledD(1) [OF c] idx(1)] idx(2) by simp
  then show "rw_next g (g\<lparr>rw_exc_pending := Some (int idx + 1)\<rparr>)"
    using pend by (intro rw_next_exc_check_count) (simp add: exc_check_count_def)
  show "rw_coupled l (ths[i := WWait (idx + 1)]) (g\<lparr>rw_exc_pending := Some (int idx + 1)\<rparr>)"
  proof (rule rw_coupledI)
    show "lock_coupled l (g\<lparr>rw_exc_pending := Some (int idx + 1)\<rparr>)"
      using rw_coupledD(1) [OF c] by (simp add: lock_coupled_def)
    show "tokens_coupled (ths[i := WWait (idx + 1)]) (g\<lparr>rw_exc_pending := Some (int idx + 1)\<rparr>)"
      by (rule tokens_coupled_split [OF rw_coupledD(2) [OF c] i(1)]) (simp add: i(2) pend)
    show "\<forall>pc\<in>set (ths[i := WWait (idx + 1)]). pc_ok l pc"
      using idx(1) by (intro pcs_ok_update [OF rw_coupledD(3) [OF c]]) simp_all
  qed
qed

lemma write_finish_value:
  assumes c: "rw_coupled l ths g" and i: "i < length ths" "ths ! i = WWait (length (rl_ref_counts l))" and inv: "rw_invariant g"
  shows "\<exists>t\<in>rl_user_inv l. rl_data l = Some t"
proof -
  have "rw_exc_pending g = Some (rw_rc_width g)"
    using write_wait_pending [OF c i] rw_coupledD(1) [OF c] by (simp add: lock_coupled_def)
  then obtain t where "t \<in> rw_user_inv g" "rw_storage g = Some t" using writer_finds_value [OF inv] by blast
  then show ?thesis using rw_coupledD(1) [OF c] by (auto simp: lock_coupled_def)
qed

lemma write_finish_simulated:
  assumes c: "rw_coupled l ths g" and i: "i < length ths" "ths ! i = WWait (length (rl_ref_counts l))" and inv: "rw_invariant g"
  shows "simulated (l\<lparr>rl_data := None\<rparr>) (ths[i := WHeld t]) g"
proof (rule simulated_step [of g "g\<lparr>rw_exc_pending := None, rw_exc_guard := Some (), rw_storage := None\<rparr>"])
  note lc = rw_coupledD(1) [OF c]
  have pend: "rw_exc_pending g = Some (rw_rc_width g)" "rw_rc_width g = int (length (rl_ref_counts l))"
    using write_wait_pending [OF c i] lc by (simp_all add: lock_coupled_def)
  have none: "rw_exc_guard g = None" using rwD(6) [OF inv pend(1)] by blast
  show "rw_next g (g\<lparr>rw_exc_pending := None, rw_exc_guard := Some (), rw_storage := None\<rparr>)"
    using pend by (intro rw_next_exc_finish) (simp add: exc_finish_def)
  show "rw_coupled (l\<lparr>rl_data := None\<rparr>) (ths[i := WHeld t]) (g\<lparr>rw_exc_pending := None, rw_exc_guard := Some (), rw_storage := None\<rparr>)"
  proof (rule rw_coupledI)
    show "lock_coupled (l\<lparr>rl_data := None\<rparr>) (g\<lparr>rw_exc_pending := None, rw_exc_guard := Some (), rw_storage := None\<rparr>)"
      using lc by (simp add: lock_coupled_def)
    show "tokens_coupled (ths[i := WHeld t]) (g\<lparr>rw_exc_pending := None, rw_exc_guard := Some (), rw_storage := None\<rparr>)"
      by (rule tokens_coupled_split [OF rw_coupledD(2) [OF c] i(1)]) (simp add: i(2) pend none)
    show "\<forall>pc\<in>set (ths[i := WHeld t]). pc_ok (l\<lparr>rl_data := None\<rparr>) pc"
    proof (rule pcs_ok_update_data [OF rw_coupledD(3) [OF c]])
      show "all_tokens exc_guard_token (ths[i := LIdle]) = {#}"
        using all_tokens_split [OF i(1), of exc_guard_token] rw_coupledD(2) [OF c] i(2) none
        by (auto simp: tokens_coupled_def)
    qed (simp_all add: i)
  qed
qed

text \<open>Putting the data back changes only the cell: the machine's storage is empty until the flag is cleared.\<close>

lemma exc_guard_alone:
  assumes c: "rw_coupled l ths g" and i: "i < length ths" and tok: "exc_guard_token (ths ! i) = {#()#}"
  shows "rw_exc_guard g = Some ()" "all_tokens exc_guard_token (ths[i := LIdle]) = {#}"
proof -
  obtain r where r: "all_tokens exc_guard_token ths = exc_guard_token (ths ! i) + r"
      "\<And>x. all_tokens exc_guard_token (ths[i := x]) = exc_guard_token x + r"
    using all_tokens_split [OF i, of exc_guard_token] by blast
  have "{#()#} + r = opt_token (rw_exc_guard g)" using rw_coupledD(2) [OF c] r(1) tok by (simp add: tokens_coupled_def)
  then have "rw_exc_guard g = Some () \<and> r = {#}" by (rule opt_token_single)
  then show "rw_exc_guard g = Some ()" "all_tokens exc_guard_token (ths[i := LIdle]) = {#}" using r(2) by simp_all
qed

lemma write_put_simulated:
  assumes c: "rw_coupled l ths g" and i: "i < length ths" "ths ! i = WPut v" and inv: "rw_invariant g"
  shows "simulated (l\<lparr>rl_data := Some v\<rparr>) (ths[i := WUnlock]) g"
proof -
  have tok: "exc_guard_token (ths ! i) = {#()#}" by (simp add: i(2))
  note guard = exc_guard_alone [OF c i(1) tok]
  have empty: "rw_storage g = None" using rwD(5) [OF inv] guard(1) by simp
  have "rw_coupled (l\<lparr>rl_data := Some v\<rparr>) (ths[i := WUnlock]) g"
  proof (rule rw_coupledI)
    show "lock_coupled (l\<lparr>rl_data := Some v\<rparr>) g" using rw_coupledD(1) [OF c] empty by (simp add: lock_coupled_def)
    show "tokens_coupled (ths[i := WUnlock]) g"
      by (rule tokens_coupled_split [OF rw_coupledD(2) [OF c] i(1)]) (simp add: i(2))
    show "\<forall>pc\<in>set (ths[i := WUnlock]). pc_ok (l\<lparr>rl_data := Some v\<rparr>) pc"
      using rw_coupledD(4) [OF c i(1)] i(2) by (intro pcs_ok_update_data [OF rw_coupledD(3) [OF c] _ i(1) _ _ guard(2)]) simp_all
  qed
  then show ?thesis by (auto simp: simulated_def)
qed

lemma write_unlock_simulated:
  assumes c: "rw_coupled l ths g" and i: "i < length ths" "ths ! i = WUnlock"
  shows "simulated (l\<lparr>rl_exc_locked := False\<rparr>) (ths[i := LIdle]) g"
proof -
  have tok: "exc_guard_token (ths ! i) = {#()#}" by (simp add: i(2))
  note guard = exc_guard_alone [OF c i(1) tok]
  note lc = rw_coupledD(1) [OF c]
  obtain v where v: "v \<in> rl_user_inv l" "rl_data l = Some v" using rw_coupledD(4) [OF c i(1)] i(2) by auto
  let ?g = "g\<lparr>rw_exc_locked := False, rw_exc_guard := None, rw_storage := Some v\<rparr>"
  have step: "rw_next g ?g"
    using guard(1) v(1) lc by (intro rw_next_exc_release [of g v]) (simp add: exc_release_def lock_coupled_def)
  have "rw_coupled (l\<lparr>rl_exc_locked := False\<rparr>) (ths[i := LIdle]) ?g"
  proof (rule rw_coupledI)
    show "lock_coupled (l\<lparr>rl_exc_locked := False\<rparr>) ?g" using lc v by (simp add: lock_coupled_def)
    show "tokens_coupled (ths[i := LIdle]) ?g"
      by (rule tokens_coupled_split [OF rw_coupledD(2) [OF c] i(1)]) (simp add: i(2) guard(1))
    show "\<forall>pc\<in>set (ths[i := LIdle]). pc_ok (l\<lparr>rl_exc_locked := False\<rparr>) pc"
      by (rule pcs_ok_update [OF rw_coupledD(3) [OF c]]) simp_all
  qed
  with step show ?thesis by (rule simulated_step)
qed

text \<open>The reader.\<close>

lemma read_start_simulated:
  assumes c: "rw_coupled l ths g" and i: "i < length ths" "ths ! i = RInc tid rc"
    and same: "rl_ref_counts l ! tid = rc"
  shows "simulated (l\<lparr>rl_ref_counts := (rl_ref_counts l)[tid := rc + 1]\<rparr>) (ths[i := RCheck tid]) g"
proof -
  let ?l = "l\<lparr>rl_ref_counts := (rl_ref_counts l)[tid := rc + 1]\<rparr>"
  let ?g = "g\<lparr>rw_ref_counts := (rw_ref_counts g)(int tid \<mapsto> uint rc + 1),
              rw_shared_pending := add_mset (int tid) (rw_shared_pending g)\<rparr>"
  have tid: "tid < length (rl_ref_counts l)" "rc \<noteq> MAX_RC" using rw_coupledD(4) [OF c i(1)] i(2) by simp_all
  note count = lock_coupled_count [OF rw_coupledD(1) [OF c] tid(1)]
  have succ: "rc + 1 \<le> MAX_RC \<and> uint (rc + 1) = uint rc + 1" using count(2) same tid(2) by (intro max_rc_succ) simp_all
  have "rw_next g ?g" using count(1) same by (intro rw_next_shared_start [of g "int tid"]) (simp add: shared_start_def)
  moreover have "rw_coupled ?l (ths[i := RCheck tid]) ?g"
  proof (rule rw_coupledI)
    show "lock_coupled ?l ?g"
      using succ by (intro lock_coupled_set_count [OF rw_coupledD(1) [OF c] tid(1)]) simp_all
    show "tokens_coupled (ths[i := RCheck tid]) ?g"
      by (rule tokens_coupled_split [OF rw_coupledD(2) [OF c] i(1)]) (simp add: i(2))
    show "\<forall>pc\<in>set (ths[i := RCheck tid]). pc_ok ?l pc"
      using tid(1) by (intro pcs_ok_update [OF rw_coupledD(3) [OF c]]) simp_all
  qed
  ultimately show ?thesis by (rule simulated_step)
qed

lemma pending_token_member:
  assumes c: "rw_coupled l ths g" and i: "i < length ths" and tok: "pending_token (ths ! i) = {#int tid#}"
  shows "int tid \<in># rw_shared_pending g"
  by (rule tokens_coupled_split [OF rw_coupledD(2) [OF c] i]) (simp add: tok)

lemma read_finish_simulated:
  assumes c: "rw_coupled l ths g" and i: "i < length ths" "ths ! i = RCheck tid" and free: "\<not> rl_exc_locked l"
  shows "simulated l (ths[i := RHeld tid]) g"
proof -
  let ?g = "g\<lparr>rw_shared_pending := rw_shared_pending g - {#int tid#},
              rw_shared_guard := add_mset (int tid, the (rw_storage g)) (rw_shared_guard g)\<rparr>"
  note lc = rw_coupledD(1) [OF c]
  have "int tid \<in># rw_shared_pending g" using pending_token_member [OF c i(1)] i(2) by simp
  then have "rw_next g ?g"
    using lc free by (intro rw_next_shared_finish [of g "int tid"]) (simp add: shared_finish_def lock_coupled_def)
  moreover have "rw_coupled l (ths[i := RHeld tid]) ?g"
  proof (rule rw_coupledI)
    show "lock_coupled l ?g" using lc by (simp add: lock_coupled_def)
    show "tokens_coupled (ths[i := RHeld tid]) ?g"
      by (rule tokens_coupled_split [OF rw_coupledD(2) [OF c] i(1)]) (simp add: i(2))
    show "\<forall>pc\<in>set (ths[i := RHeld tid]). pc_ok l pc"
      using rw_coupledD(4) [OF c i(1)] i(2) by (intro pcs_ok_update [OF rw_coupledD(3) [OF c]]) simp_all
  qed
  ultimately show ?thesis by (rule simulated_step)
qed

lemma read_undo_count:
  assumes c: "rw_coupled l ths g" and i: "i < length ths" and tok: "pending_token (ths ! i) = {#int tid#}"
    and tid: "tid < length (rl_ref_counts l)" and inv: "rw_invariant g"
  shows "0 < uint (rl_ref_counts l ! tid)"
  using pending_count_positive [OF inv pending_token_member [OF c i tok] lock_coupled_count(1) [OF rw_coupledD(1) [OF c] tid]] .

lemma read_undo_simulated:
  assumes c: "rw_coupled l ths g" and i: "i < length ths" "ths ! i = RUndo tid" and inv: "rw_invariant g"
  shows "simulated (l\<lparr>rl_ref_counts := (rl_ref_counts l)[tid := rl_ref_counts l ! tid - 1]\<rparr>) (ths[i := RLoad tid]) g"
proof -
  let ?rc = "rl_ref_counts l ! tid"
  let ?l = "l\<lparr>rl_ref_counts := (rl_ref_counts l)[tid := ?rc - 1]\<rparr>"
  let ?g = "g\<lparr>rw_ref_counts := (rw_ref_counts g)(int tid \<mapsto> uint ?rc - 1),
              rw_shared_pending := rw_shared_pending g - {#int tid#}\<rparr>"
  have tok: "pending_token (ths ! i) = {#int tid#}" by (simp add: i(2))
  have tid: "tid < length (rl_ref_counts l)" using rw_coupledD(4) [OF c i(1)] i(2) by simp
  note count = lock_coupled_count [OF rw_coupledD(1) [OF c] tid]
  note pos = read_undo_count [OF c i(1) tok tid inv]
  have "rw_next g ?g"
    using count(1) pos pending_token_member [OF c i(1) tok]
    by (intro rw_next_shared_abandon [of g "int tid"]) (simp add: shared_abandon_def)
  moreover have "rw_coupled ?l (ths[i := RLoad tid]) ?g"
  proof (rule rw_coupledI)
    show "lock_coupled ?l ?g"
      using rc_pred [OF count(2) pos] by (intro lock_coupled_set_count [OF rw_coupledD(1) [OF c] tid]) simp_all
    show "tokens_coupled (ths[i := RLoad tid]) ?g"
      by (rule tokens_coupled_split [OF rw_coupledD(2) [OF c] i(1)]) (simp add: i(2))
    show "\<forall>pc\<in>set (ths[i := RLoad tid]). pc_ok ?l pc"
      using tid by (intro pcs_ok_update [OF rw_coupledD(3) [OF c]]) simp_all
  qed
  ultimately show ?thesis by (rule simulated_step)
qed

lemma read_guard_member:
  assumes c: "rw_coupled l ths g" and i: "i < length ths" and tok: "guard_token (ths ! i) = {#int tid#}"
  obtains v where "v \<in># rw_shared_guard g" "fst v = int tid"
    "\<And>q. image_mset fst (rw_shared_guard g) = add_mset (int tid) q \<Longrightarrow> image_mset fst (rw_shared_guard g - {#v#}) = q"
proof (rule tokens_coupled_split [OF rw_coupledD(2) [OF c] i])
  fix q assume "image_mset fst (rw_shared_guard g) = guard_token (ths ! i) + q"
  then have "image_mset fst (rw_shared_guard g) = add_mset (int tid) q" using tok by simp
  from msed_map_invR [OF this] obtain m v where
    "rw_shared_guard g = add_mset v m" "fst v = int tid" by blast
  then show thesis using that [of v] by auto
qed

lemma read_release_count:
  assumes c: "rw_coupled l ths g" and i: "i < length ths" and tok: "guard_token (ths ! i) = {#int tid#}"
    and tid: "tid < length (rl_ref_counts l)" and inv: "rw_invariant g"
  shows "0 < uint (rl_ref_counts l ! tid)"
proof -
  obtain v where v: "v \<in># rw_shared_guard g" "fst v = int tid" by (rule read_guard_member [OF c i tok])
  have "rw_ref_counts g (fst v) = Some (uint (rl_ref_counts l ! tid))"
    using lock_coupled_count(1) [OF rw_coupledD(1) [OF c] tid] v(2) by simp
  then show ?thesis by (rule guard_count_positive [OF inv v(1)])
qed

lemma read_release_simulated:
  assumes c: "rw_coupled l ths g" and i: "i < length ths" "ths ! i = RRelease tid" and inv: "rw_invariant g"
  shows "simulated (l\<lparr>rl_ref_counts := (rl_ref_counts l)[tid := rl_ref_counts l ! tid - 1]\<rparr>) (ths[i := LIdle]) g"
proof -
  let ?rc = "rl_ref_counts l ! tid"
  let ?l = "l\<lparr>rl_ref_counts := (rl_ref_counts l)[tid := ?rc - 1]\<rparr>"
  have tok: "guard_token (ths ! i) = {#int tid#}" by (simp add: i(2))
  obtain v where v: "v \<in># rw_shared_guard g" "fst v = int tid"
      "\<And>q. image_mset fst (rw_shared_guard g) = add_mset (int tid) q \<Longrightarrow> image_mset fst (rw_shared_guard g - {#v#}) = q"
    by (rule read_guard_member [OF c i(1) tok]) blast
  let ?g = "g\<lparr>rw_ref_counts := (rw_ref_counts g)(fst v \<mapsto> uint ?rc - 1), rw_shared_guard := rw_shared_guard g - {#v#}\<rparr>"
  have tid: "tid < length (rl_ref_counts l)" using rw_coupledD(4) [OF c i(1)] i(2) by simp
  note count = lock_coupled_count [OF rw_coupledD(1) [OF c] tid]
  note pos = read_release_count [OF c i(1) tok tid inv]
  have "rw_next g ?g"
    using count(1) v(1,2) by (intro rw_next_shared_release [of g v]) (simp add: shared_release_def)
  moreover have "rw_coupled ?l (ths[i := LIdle]) ?g"
  proof (rule rw_coupledI)
    show "lock_coupled ?l ?g"
      using rc_pred [OF count(2) pos] v(2) by (intro lock_coupled_set_count [OF rw_coupledD(1) [OF c] tid]) simp_all
    show "tokens_coupled (ths[i := LIdle]) ?g"
      by (rule tokens_coupled_split [OF rw_coupledD(2) [OF c] i(1)]) (simp add: i(2) v(3))
    show "\<forall>pc\<in>set (ths[i := LIdle]). pc_ok ?l pc"
      by (rule pcs_ok_update [OF rw_coupledD(3) [OF c]]) simp_all
  qed
  ultimately show ?thesis by (rule simulated_step)
qed

section \<open>Every reachable state of the code\<close>

lemma simulated_refl: "rw_coupled l ths g \<Longrightarrow> i < length ths \<Longrightarrow> simulated l (ths[i := ths ! i]) g"
  by (auto simp: simulated_def)

lemma acquire_write_simulated:
  assumes c: "rw_coupled l ths g" and i: "i < length ths" and inv: "rw_invariant g"
    and step: "acquire_write_step l (ths ! i) = Some (l', pc)"
  shows "simulated l' (ths[i := pc]) g"
proof (cases "ths ! i")
  case WAcquire
  then show ?thesis
    using step write_start_simulated [OF c i WAcquire _ inv] simulated_refl [OF c i]
    by (auto simp: acquire_write_step_def split: if_splits)
next
  case (WWait idx)
  have le: "idx \<le> length (rl_ref_counts l)" using rw_coupledD(4) [OF c i] WWait by simp
  show ?thesis
  proof (cases "idx < length (rl_ref_counts l)")
    case True
    then show ?thesis
      using step WWait write_check_simulated [OF c i WWait True] simulated_refl [OF c i]
      by (auto simp: acquire_write_step_def split: if_splits)
  next
    case False
    then have w: "ths ! i = WWait (length (rl_ref_counts l))" using le WWait by simp
    show ?thesis
      using step False w write_finish_simulated [OF c i w inv]
      by (auto simp: acquire_write_step_def split: option.splits)
  qed
qed (use step in \<open>simp_all add: acquire_write_step_def\<close>)

lemma acquire_read_simulated:
  assumes c: "rw_coupled l ths g" and i: "i < length ths" and inv: "rw_invariant g"
    and step: "acquire_read_step l (ths ! i) = Some (l', pc)"
  shows "simulated l' (ths[i := pc]) g"
proof (cases "ths ! i")
  case (RLoad tid)
  have "tid < length (rl_ref_counts l)" using rw_coupledD(4) [OF c i] RLoad by simp
  then have "simulated l (ths[i := pc]) g" if "pc = RPanic \<or> pc = RInc tid (rl_ref_counts l ! tid) \<and> rl_ref_counts l ! tid \<noteq> MAX_RC"
    using that RLoad by (intro same_tokens_simulated [OF c i]) auto
  then show ?thesis using step RLoad by (auto simp: acquire_read_step_def Let_def split: if_splits)
next
  case (RInc tid rc)
  have "tid < length (rl_ref_counts l)" using rw_coupledD(4) [OF c i] RInc by simp
  then have "simulated l (ths[i := RLoad tid]) g" using RInc by (intro same_tokens_simulated [OF c i]) auto
  then show ?thesis
    using step RInc read_start_simulated [OF c i RInc] by (auto simp: acquire_read_step_def split: if_splits)
next
  case (RCheck tid)
  have "tid < length (rl_ref_counts l)" using rw_coupledD(4) [OF c i] RCheck by simp
  then have "simulated l (ths[i := RUndo tid]) g" using RCheck by (intro same_tokens_simulated [OF c i]) auto
  then show ?thesis
    using step RCheck read_finish_simulated [OF c i RCheck] by (auto simp: acquire_read_step_def split: if_splits)
next
  case (RUndo tid)
  then show ?thesis using step read_undo_simulated [OF c i RUndo inv] by (simp add: acquire_read_step_def)
qed (use step in \<open>simp_all add: acquire_read_step_def\<close>)

lemma release_write_simulated:
  assumes c: "rw_coupled l ths g" and i: "i < length ths" and inv: "rw_invariant g"
    and step: "release_write_step l (ths ! i) = Some (l', pc)"
  shows "simulated l' (ths[i := pc]) g"
  using step write_put_simulated [OF c i _ inv] write_unlock_simulated [OF c i]
  by (cases "ths ! i") (auto simp: release_write_step_def)

lemma release_read_simulated:
  assumes c: "rw_coupled l ths g" and i: "i < length ths" and inv: "rw_invariant g"
    and step: "release_read_step l (ths ! i) = Some (l', pc)"
  shows "simulated l' (ths[i := pc]) g"
  using step read_release_simulated [OF c i _ inv] by (cases "ths ! i") (auto simp: release_read_step_def)

lemma rwl_step_simulated:
  assumes step: "rwl_step (l, ths) (l', ths')" and c: "rw_coupled l ths g" and inv: "rw_invariant g"
  shows "simulated l' ths' g"
  using step
proof (cases rule: rwl_step.cases)
  case (rwl_acquire_write_call i)
  then show ?thesis using same_tokens_simulated [OF c, of i WAcquire] by simp
next
  case (rwl_acquire_read_call i tid)
  then show ?thesis using same_tokens_simulated [OF c, of i "RLoad tid"] by simp
next
  case (rwl_release_write_call i t val)
  then show ?thesis using same_tokens_simulated [OF c, of i "WPut val"] by simp
next
  case (rwl_release_read_call i tid)
  then have "tid < length (rl_ref_counts l)" using rw_coupledD(4) [OF c, of i] by simp
  then show ?thesis using rwl_release_read_call same_tokens_simulated [OF c, of i "RRelease tid"] by simp
qed (blast intro: acquire_write_simulated [OF c _ inv] acquire_read_simulated [OF c _ inv]
      release_write_simulated [OF c _ inv] release_read_simulated [OF c _ inv])+

lemma rwlock_new_coupled:
  assumes "0 < w" and "t \<in> I"
  shows "\<exists>g. rw_reachable g \<and> rw_coupled (rwlock_new w t I) (replicate n LIdle) g"
proof -
  obtain g where g: "rw_initialize (int w) t I = Some g" using assms by (simp add: rw_initialize_def)
  have "rw_coupled (rwlock_new w t I) (replicate n LIdle) g"
  proof (rule rw_coupledI)
    show "lock_coupled (rwlock_new w t I) g"
      using g assms by (auto simp: rw_initialize_def rwlock_new_def lock_coupled_def)
    show "tokens_coupled (replicate n LIdle) g"
      using g assms by (auto simp: rw_initialize_def tokens_coupled_def all_tokens_idle)
  qed (simp add: rwlock_new_def)
  then show ?thesis using rw_reachable_init [OF g] by blast
qed

lemma rwl_reachable_coupled:
  "rwl_reachable s \<Longrightarrow> \<exists>g. rw_reachable g \<and> rw_coupled (fst s) (snd s) g"
proof (induction rule: rwl_reachable.induct)
  case (rwl_reachable_new rc_width t I n)
  then show ?case using rwlock_new_coupled by simp
next
  case (rwl_reachable_step s s')
  then obtain g where g: "rw_reachable g" "rw_coupled (fst s) (snd s) g" by blast
  have "rwl_step (fst s, snd s) (fst s', snd s')" using rwl_reachable_step by simp
  then have "simulated (fst s') (snd s') g" by (rule rwl_step_simulated [OF _ g(2) rw_reachable_invariant [OF g(1)]])
  then show ?case using g(1) by (auto simp: simulated_def intro: rw_reachable.intros)
qed

section \<open>What the code guarantees\<close>

lemma token_in_all: "i < length ths \<Longrightarrow> x \<in># f (ths ! i) \<Longrightarrow> x \<in># all_tokens f ths"
  using all_tokens_split [of i ths f] by auto

lemma held_write_data:
  assumes c: "rw_coupled l ths g" and i: "i < length ths" "exc_guard_token (ths ! i) = {#()#}" and inv: "rw_invariant g"
    and j: "j < length ths" "j \<noteq> i"
  shows "exc_guard_token (ths ! j) = {#}" "guard_token (ths ! j) = {#}"
proof -
  note guard = exc_guard_alone [OF c i]
  have "ths ! j \<in> set (ths[i := LIdle])" using j by (metis length_list_update nth_list_update_neq nth_mem)
  then show "exc_guard_token (ths ! j) = {#}" by (rule all_tokens_empty [OF guard(2)])
  have "rw_shared_guard g = {#}" using writer_excludes_readers [OF inv] guard(1) by simp
  then have "all_tokens guard_token ths = {#}" using rw_coupledD(2) [OF c] by (simp add: tokens_coupled_def)
  then show "guard_token (ths ! j) = {#}" by (rule all_tokens_empty) (use j in simp)
qed

lemma reader_borrows:
  assumes c: "rw_coupled l ths g" and i: "i < length ths" "guard_token (ths ! i) \<noteq> {#}" and inv: "rw_invariant g"
  shows "\<exists>t\<in>rl_user_inv l. rwlock_borrow l = Some t"
proof -
  obtain tid where "tid \<in># guard_token (ths ! i)" using i(2) by (meson multiset_nonemptyE)
  then have "tid \<in># all_tokens guard_token ths" by (rule token_in_all [OF i(1)])
  moreover have "all_tokens guard_token ths = image_mset fst (rw_shared_guard g)"
    using rw_coupledD(2) [OF c] by (simp add: tokens_coupled_def)
  ultimately have "tid \<in># image_mset fst (rw_shared_guard g)" by simp
  then obtain v where "v \<in># rw_shared_guard g" by auto
  from reader_sees_storage [OF inv this] have st: "rw_storage g = Some (snd v)" .
  then have "snd v \<in> rw_user_inv g" by (rule rwD(1) [OF inv])
  then show ?thesis using st rw_coupledD(1) [OF c] by (auto simp: lock_coupled_def rwlock_borrow_def)
qed

text \<open>The points at which a thread is inside one of the four operations.\<close>

fun in_operation :: "'t RwPc \<Rightarrow> bool" where
  "in_operation LIdle = False"
| "in_operation (WHeld t) = False"
| "in_operation (RHeld tid) = False"
| "in_operation RPanic = False"
| "in_operation _ = True"

definition op_step :: "'t RwLock \<Rightarrow> 't RwPc \<Rightarrow> ('t RwLock \<times> 't RwPc) option" where
  "op_step l pc =
     (case acquire_write_step l pc of Some r \<Rightarrow> Some r | None \<Rightarrow>
      case acquire_read_step l pc of Some r \<Rightarrow> Some r | None \<Rightarrow>
      case release_write_step l pc of Some r \<Rightarrow> Some r | None \<Rightarrow> release_read_step l pc)"

lemma operation_never_stuck:
  assumes c: "rw_coupled l ths g" and i: "i < length ths" and inv: "rw_invariant g" and op: "in_operation (ths ! i)"
  shows "op_step l (ths ! i) \<noteq> None"
proof (cases "ths ! i")
  case (WWait idx)
  then have "idx \<le> length (rl_ref_counts l)" using rw_coupledD(4) [OF c i] by simp
  then show ?thesis
    using write_finish_value [OF c i _ inv] WWait by (cases "idx < length (rl_ref_counts l)") (auto simp: op_step_def rwl_step_defs)
qed (use op in \<open>auto simp: op_step_def rwl_step_defs Let_def\<close>)

text \<open>Every subtraction is from a positive count, and every addition stays below the maximum.\<close>

lemma counts_in_range:
  assumes c: "rw_coupled l ths g" and i: "i < length ths" and inv: "rw_invariant g"
  shows "ths ! i = RUndo tid \<Longrightarrow> 0 < uint (rl_ref_counts l ! tid)"
    and "ths ! i = RRelease tid \<Longrightarrow> 0 < uint (rl_ref_counts l ! tid)"
    and "tid < length (rl_ref_counts l) \<Longrightarrow> rl_ref_counts l ! tid \<le> MAX_RC"
  using read_undo_count [OF c i _ _ inv] read_release_count [OF c i _ _ inv] rw_coupledD(4) [OF c i]
    lock_coupled_count(2) [OF rw_coupledD(1) [OF c]] by auto

end
