(* ===== verification/NR_Exec_Replica.thy ===== *)
theory NR_Exec_Replica
  imports NR_Exec_Log NR_Exec_RwLock
begin

text \<open>
  The code of a replica (\<^verbatim>\<open>exec/replica.rs\<close>), of the contexts in which its threads
  leave their operations (\<^verbatim>\<open>exec/context.rs\<close>), and of the replicated data structure
  made of them and of the log (\<^verbatim>\<open>exec/mod.rs\<close>). Threads interleave at every access to
  shared memory. A thread that finds the combiner lock free becomes the combiner of its
  replica: it collects the operations of all contexts, takes the write lock on the data, runs
  \<^verbatim>\<open>append\<close> and \<^verbatim>\<open>execute\<close> of the log, and writes the responses back. A step returns
  \<open>None\<close> where the code would panic.
\<close>

definition RESPONSE_CHECK_INTERVAL :: nat where "RESPONSE_CHECK_INTERVAL = 0x20000000"

section \<open>Contexts\<close>

record ('w, 'resp) PendingOperation =
  po_op :: 'w
  po_resp :: "'resp option"

definition pending_operation_new :: "'w \<Rightarrow> ('w, 'resp) PendingOperation" where
  "pending_operation_new op = \<lparr>po_op = op, po_resp = None\<rparr>"

text \<open>A context: the cell, the flag that says whose turn it is, and the ticket, a ghost.\<close>

record ('w, 'resp) Context =
  cx_batch :: "('w, 'resp) PendingOperation option"
  cx_atomic :: "64 word"
  cx_update :: "ReqId option"

definition context_new :: "('w, 'resp) Context" where
  "context_new = \<lparr>cx_batch = None, cx_atomic = 0, cx_update = None\<rparr>"

text \<open>Enqueueing writes the cell and then the flag; dequeueing reads the flag and then the cell.\<close>

definition enqueue_op_put :: "'w \<Rightarrow> ('w, 'resp) Context \<Rightarrow> ('w, 'resp) Context option" where
  "enqueue_op_put op cx =
     (case cx_batch cx of None \<Rightarrow> Some (cx\<lparr>cx_batch := Some (pending_operation_new op)\<rparr>) | Some _ \<Rightarrow> None)"

definition enqueue_op_store :: "ReqId \<Rightarrow> ('w, 'resp) Context \<Rightarrow> ('w, 'resp) Context" where
  "enqueue_op_store rid cx = cx\<lparr>cx_atomic := 1, cx_update := Some rid\<rparr>"

definition dequeue_response_load :: "('w, 'resp) Context \<Rightarrow> bool \<times> ('w, 'resp) Context" where
  "dequeue_response_load cx = (if cx_atomic cx = 0 then (True, cx\<lparr>cx_update := None\<rparr>) else (False, cx))"

definition dequeue_response_take :: "('w, 'resp) Context \<Rightarrow> ('resp \<times> ('w, 'resp) Context) option" where
  "dequeue_response_take cx =
     (case cx_batch cx of
        Some po \<Rightarrow> (case po_resp po of Some resp \<Rightarrow> Some (resp, cx\<lparr>cx_batch := None\<rparr>) | None \<Rightarrow> None)
      | None \<Rightarrow> None)"

section \<open>Threads\<close>

text \<open>Where \<^verbatim>\<open>try_combine\<close> is called from: waiting for a response, or for the replica to catch up.\<close>

datatype 'r TryCaller = TryUpdate | TryRead 'r "64 word"

text \<open>
  The program points of a thread, named after what it does next.

    \<^item> \<open>TPut op\<close>, \<open>TStore\<close>: \<^verbatim>\<open>enqueue_op\<close>; \<open>TDequeue iter\<close>, \<open>TTake\<close>: the loop of
      \<^verbatim>\<open>get_response\<close>; \<open>TReturnMut resp\<close>: \<^verbatim>\<open>execute_mut\<close> returns;
    \<^item> \<open>TVersion op\<close>, \<open>TSync op v\<close>, \<open>TAcquireRead op\<close>, \<open>TReleaseRead resp\<close>,
      \<open>TReturn resp\<close>: \<^verbatim>\<open>execute\<close>;
    \<^item> \<open>TTryLoad k\<close>, \<open>TTryCas k\<close>, \<open>TUnlock k\<close>: the combiner lock;
    \<^item> \<open>TCollect k idx\<close> (loads the flag of context \<open>idx\<close>), \<open>TCollectOp k idx\<close> (reads its cell),
      \<open>TAcquireWrite k\<close>, \<open>TCombine k\<close> (in the log), \<open>TReleaseWrite k\<close>,
      \<open>TDistribute k idx\<close> (writes the cell), \<open>TRespond k idx\<close> (clears the flag): \<^verbatim>\<open>combine\<close>.
\<close>

datatype ('r, 'w, 'resp) ThreadPc =
    TIdle
  | TPut 'w | TStore | TDequeue nat | TTake | TReturnMut 'resp
  | TVersion 'r | TSync 'r "64 word" | TAcquireRead 'r | TReleaseRead 'resp | TReturn 'resp
  | TTryLoad "'r TryCaller" | TTryCas "'r TryCaller" | TUnlock "'r TryCaller"
  | TCollect "'r TryCaller" nat | TCollectOp "'r TryCaller" nat
  | TAcquireWrite "'r TryCaller" | TCombine "'r TryCaller" | TReleaseWrite "'r TryCaller"
  | TDistribute "'r TryCaller" nat | TRespond "'r TryCaller" nat

text \<open>A thread, with its place in the operations of the lock and, a ghost, the ticket of its request.\<close>

record ('r, 'w, 'v, 'resp) Thread =
  th_pc :: "('r, 'w, 'resp) ThreadPc"
  th_lock :: "'v RwPc"
  th_rid :: ReqId

section \<open>Replicas\<close>

text \<open>
  \<open>rp_node\<close> holds the buffers of the combiner (\<^verbatim>\<open>collected_operations\<close>,
  \<^verbatim>\<open>responses\<close>, the data while it is taken out of the lock) and its position in the log;
  \<open>rp_num_ops\<close> is \<^verbatim>\<open>collected_operations_per_thread\<close>. \<open>rp_tokens\<close> are the threads not
  registered yet.
\<close>

record ('r, 'w, 'v, 'resp) Replica =
  rp_combiner :: "64 word"
  rp_contexts :: "('w, 'resp) Context list"
  rp_num_ops :: "64 word list"
  rp_data :: "'v RwLock"
  rp_node :: "('w, 'v, 'resp) Node"
  rp_tokens :: "ThreadId list"
  rp_threads :: "('r, 'w, 'v, 'resp) Thread list"

definition replica_new :: "('r, 'w, 'v, 'resp) Dispatch \<Rightarrow> nat \<Rightarrow> ('r, 'w, 'v, 'resp) Replica" where
  "replica_new D num_threads =
     \<lparr>rp_combiner = 0, rp_contexts = replicate num_threads context_new, rp_num_ops = [],
      rp_data = rwlock_new MAX_THREADS_PER_REPLICA (init_spec D) UNIV, rp_node = node_new D,
      rp_tokens = [0..<num_threads],
      rp_threads = replicate num_threads \<lparr>th_pc = TIdle, th_lock = LIdle, th_rid = 0\<rparr>\<rparr>"

definition replica_register ::
    "('r, 'w, 'v, 'resp) Replica \<Rightarrow> ThreadId option \<times> ('r, 'w, 'v, 'resp) Replica" where
  "replica_register rp =
     (if rp_tokens rp = [] then (None, rp)
      else (Some (last (rp_tokens rp)), rp\<lparr>rp_tokens := butlast (rp_tokens rp)\<rparr>))"

abbreviation set_thread where
  "set_thread rp t th \<equiv> rp\<lparr>rp_threads := (rp_threads rp)[t := th]\<rparr>"

abbreviation tgoto where
  "tgoto rp t pc \<equiv> set_thread rp t ((rp_threads rp ! t)\<lparr>th_pc := pc\<rparr>)"

abbreviation lgoto where
  "lgoto rp t pc lpc \<equiv> set_thread rp t ((rp_threads rp ! t)\<lparr>th_pc := pc, th_lock := lpc\<rparr>)"

abbreviation set_context where
  "set_context rp i cx \<equiv> rp\<lparr>rp_contexts := (rp_contexts rp)[i := cx]\<rparr>"

section \<open>Updates: make\_pending and get\_response\<close>

definition make_pending_step :: "ThreadId \<Rightarrow> ('r, 'w, 'v, 'resp) Replica \<Rightarrow> ('r, 'w, 'v, 'resp) Replica option" where
  "make_pending_step t rp =
     (case nth_opt (rp_contexts rp) t of
        None \<Rightarrow> None
      | Some cx \<Rightarrow>
          (case th_pc (rp_threads rp ! t) of
             TPut op \<Rightarrow>
               (case enqueue_op_put op cx of Some cx' \<Rightarrow> Some (tgoto (set_context rp t cx') t TStore) | None \<Rightarrow> None)
           | TStore \<Rightarrow>
               Some (tgoto (set_context rp t (enqueue_op_store (th_rid (rp_threads rp ! t)) cx)) t (TTryLoad TryUpdate))
           | _ \<Rightarrow> None))"

definition get_response_step :: "ThreadId \<Rightarrow> ('r, 'w, 'v, 'resp) Replica \<Rightarrow> ('r, 'w, 'v, 'resp) Replica option" where
  "get_response_step t rp =
     (case nth_opt (rp_contexts rp) t of
        None \<Rightarrow> None
      | Some cx \<Rightarrow>
          (case th_pc (rp_threads rp ! t) of
             TDequeue iter \<Rightarrow>
               if iter = RESPONSE_CHECK_INTERVAL then Some (tgoto rp t (TTryLoad TryUpdate))
               else (let (ready, cx') = dequeue_response_load cx in
                     Some (tgoto (set_context rp t cx') t (if ready then TTake else TDequeue (iter + 1))))
           | TTake \<Rightarrow>
               (case dequeue_response_take cx of
                  Some (resp, cx') \<Rightarrow> Some (tgoto (set_context rp t cx') t (TReturnMut resp))
                | None \<Rightarrow> None)
           | _ \<Rightarrow> None))"

section \<open>Reads: execute\<close>

definition execute_read_step ::
    "('r, 'w, 'v, 'resp) Dispatch \<Rightarrow> NodeId \<Rightarrow> ThreadId \<Rightarrow> 'w NrLog \<Rightarrow> ('r, 'w, 'v, 'resp) Replica \<Rightarrow>
     ('r, 'w, 'v, 'resp) Replica option" where
  "execute_read_step D nid t l rp =
     (case th_pc (rp_threads rp ! t) of
        TVersion op \<Rightarrow> Some (tgoto rp t (TSync op (get_version_upper_bound l)))
      | TSync op version_upper_bound \<Rightarrow>
          (case is_replica_synced_for_reads l nid version_upper_bound of
             Some is_synced \<Rightarrow>
               Some (if is_synced then lgoto rp t (TAcquireRead op) (RLoad t)
                     else tgoto rp t (TTryLoad (TryRead op version_upper_bound)))
           | None \<Rightarrow> None)
      | TAcquireRead op \<Rightarrow>
          (case th_lock (rp_threads rp ! t) of
             RHeld tid \<Rightarrow>
               (case rwlock_borrow (rp_data rp) of
                  Some v \<Rightarrow> Some (lgoto rp t (TReleaseRead (dispatch_spec D v op)) (RRelease tid))
                | None \<Rightarrow> None)
           | lpc \<Rightarrow>
               (case acquire_read_step (rp_data rp) lpc of
                  Some (d, lpc') \<Rightarrow> Some (lgoto (rp\<lparr>rp_data := d\<rparr>) t (TAcquireRead op) lpc')
                | None \<Rightarrow> None))
      | TReleaseRead resp \<Rightarrow>
          (case release_read_step (rp_data rp) (th_lock (rp_threads rp ! t)) of
             Some (d, lpc') \<Rightarrow> Some (lgoto (rp\<lparr>rp_data := d\<rparr>) t (TReturn resp) lpc')
           | None \<Rightarrow> None)
      | _ \<Rightarrow> None)"

section \<open>Combining\<close>

definition try_return :: "'r TryCaller \<Rightarrow> ('r, 'w, 'resp) ThreadPc" where
  "try_return k = (case k of TryUpdate \<Rightarrow> TDequeue 0 | TryRead op v \<Rightarrow> TSync op v)"

definition acquire_combiner_lock_step ::
    "ThreadId \<Rightarrow> ('r, 'w, 'v, 'resp) Replica \<Rightarrow> ('r, 'w, 'v, 'resp) Replica option" where
  "acquire_combiner_lock_step t rp =
     (case th_pc (rp_threads rp ! t) of
        TTryLoad k \<Rightarrow> Some (tgoto rp t (if rp_combiner rp \<noteq> 0 then try_return k else TTryCas k))
      | TTryCas k \<Rightarrow>
          if rp_combiner rp = 0 then
            (case combine_begin (rp_node rp) of
               Some p \<Rightarrow> Some (tgoto (rp\<lparr>rp_combiner := 2, rp_node := p\<rparr>) t (TCollect k 0))
             | None \<Rightarrow> None)
          else Some (tgoto rp t (try_return k))
      | _ \<Rightarrow> None)"

definition release_combiner_lock_step ::
    "ThreadId \<Rightarrow> ('r, 'w, 'v, 'resp) Replica \<Rightarrow> ('r, 'w, 'v, 'resp) Replica option" where
  "release_combiner_lock_step t rp =
     (case th_pc (rp_threads rp ! t) of
        TUnlock k \<Rightarrow> Some (tgoto (rp\<lparr>rp_combiner := 0\<rparr>) t (try_return k))
      | _ \<Rightarrow> None)"

definition collect_thread_ops_step ::
    "ThreadId \<Rightarrow> ('r, 'w, 'v, 'resp) Replica \<Rightarrow> ('r, 'w, 'v, 'resp) Replica option" where
  "collect_thread_ops_step t rp =
     (case th_pc (rp_threads rp ! t) of
        TCollect k thread_idx \<Rightarrow>
          if thread_idx < MAX_THREADS_PER_REPLICA then
            (case nth_opt (rp_contexts rp) thread_idx of
               Some cx \<Rightarrow>
                 Some (if cx_atomic cx = 1 then tgoto rp t (TCollectOp k thread_idx)
                       else tgoto (rp\<lparr>rp_num_ops := rp_num_ops rp @ [cx_atomic cx]\<rparr>) t (TCollect k (thread_idx + 1)))
             | None \<Rightarrow> None)
          else Some (lgoto rp t (TAcquireWrite k) WAcquire)
      | TCollectOp k thread_idx \<Rightarrow>
          (case nth_opt (rp_contexts rp) thread_idx of
             Some cx \<Rightarrow>
               (case (cx_batch cx, cx_update cx) of
                  (Some po, Some rid) \<Rightarrow>
                    (case combine_collect rid (po_op po) (rp_node rp) of
                       Some p \<Rightarrow>
                         Some (tgoto (set_context (rp\<lparr>rp_node := p, rp_num_ops := rp_num_ops rp @ [1]\<rparr>) thread_idx
                           (cx\<lparr>cx_update := None\<rparr>)) t (TCollect k (thread_idx + 1)))
                     | None \<Rightarrow> None)
                | _ \<Rightarrow> None)
           | None \<Rightarrow> None)
      | _ \<Rightarrow> None)"

text \<open>From the write lock to the end of the log's work on the data.\<close>

definition combine_step ::
    "('r, 'w, 'v, 'resp) Dispatch \<Rightarrow> NodeId \<Rightarrow> ThreadId \<Rightarrow> bool \<Rightarrow> 'w NrLog \<Rightarrow> ('r, 'w, 'v, 'resp) Replica \<Rightarrow>
     ('w NrLog \<times> ('r, 'w, 'v, 'resp) Replica) option" where
  "combine_step D nid t weak l rp =
     (case th_pc (rp_threads rp ! t) of
        TAcquireWrite k \<Rightarrow>
          (case acquire_write_step (rp_data rp) (th_lock (rp_threads rp ! t)) of
             Some (d, WHeld v) \<Rightarrow>
               (case combine_lock (rp_node rp) of
                  Some p \<Rightarrow> Some (l, lgoto (rp\<lparr>rp_data := d, rp_node := p\<lparr>np_data := v\<rparr>\<rparr>) t (TCombine k) (WHeld v))
                | None \<Rightarrow> None)
           | Some (d, lpc) \<Rightarrow> Some (l, lgoto (rp\<lparr>rp_data := d\<rparr>) t (TAcquireWrite k) lpc)
           | None \<Rightarrow> None)
      | TCombine k \<Rightarrow>
          if np_pc (rp_node rp) = NRelease
          then Some (l, lgoto rp t (TReleaseWrite k) (WPut (np_data (rp_node rp))))
          else (case node_step D nid weak l (rp_node rp) of
                  Some (l', p) \<Rightarrow> Some (l', rp\<lparr>rp_node := p\<rparr>) | None \<Rightarrow> None)
      | TReleaseWrite k \<Rightarrow>
          (case release_write_step (rp_data rp) (th_lock (rp_threads rp ! t)) of
             Some (d, LIdle) \<Rightarrow>
               (case combine_unlock (rp_node rp) of
                  Some p \<Rightarrow> Some (l, lgoto (rp\<lparr>rp_data := d, rp_node := p\<rparr>) t (TDistribute k 0) LIdle)
                | None \<Rightarrow> None)
           | Some (d, lpc) \<Rightarrow> Some (l, lgoto (rp\<lparr>rp_data := d\<rparr>) t (TReleaseWrite k) lpc)
           | None \<Rightarrow> None)
      | _ \<Rightarrow> None)"

text \<open>Responses are delivered in the order of the contexts, then the buffers are cleared.\<close>

definition distribute_thread_resps_step ::
    "ThreadId \<Rightarrow> ('r, 'w, 'v, 'resp) Replica \<Rightarrow> ('r, 'w, 'v, 'resp) Replica option" where
  "distribute_thread_resps_step t rp =
     (case th_pc (rp_threads rp ! t) of
        TDistribute k thread_idx \<Rightarrow>
          if thread_idx < MAX_THREADS_PER_REPLICA then
            (case nth_opt (rp_num_ops rp) thread_idx of
               Some num_ops \<Rightarrow>
                 if num_ops = 0 then Some (tgoto rp t (TDistribute k (thread_idx + 1)))
                 else
                   (case (nth_opt (rp_contexts rp) thread_idx, combine_respond (rp_node rp)) of
                      (Some cx, Some (_, resp, _)) \<Rightarrow>
                        (case cx_batch cx of
                           Some op_resp \<Rightarrow>
                             Some (tgoto (set_context rp thread_idx (cx\<lparr>cx_batch := Some (op_resp\<lparr>po_resp := Some resp\<rparr>)\<rparr>))
                               t (TRespond k thread_idx))
                         | None \<Rightarrow> None)
                    | _ \<Rightarrow> None)
             | None \<Rightarrow> None)
          else
            (case combine_end (rp_node rp) of
               Some p \<Rightarrow> Some (tgoto (rp\<lparr>rp_node := p, rp_num_ops := []\<rparr>) t (TUnlock k))
             | None \<Rightarrow> None)
      | TRespond k thread_idx \<Rightarrow>
          (case (nth_opt (rp_contexts rp) thread_idx, combine_respond (rp_node rp)) of
             (Some cx, Some (rid, _, p)) \<Rightarrow>
               Some (tgoto (set_context (rp\<lparr>rp_node := p\<rparr>) thread_idx (cx\<lparr>cx_atomic := 0, cx_update := Some rid\<rparr>))
                 t (TDistribute k (thread_idx + 1)))
           | _ \<Rightarrow> None)
      | _ \<Rightarrow> None)"

section \<open>The step of a thread\<close>

fun pc_in_make_pending :: "('r, 'w, 'resp) ThreadPc \<Rightarrow> bool" where
  "pc_in_make_pending (TPut _) = True"
| "pc_in_make_pending TStore = True"
| "pc_in_make_pending _ = False"

fun pc_in_get_response :: "('r, 'w, 'resp) ThreadPc \<Rightarrow> bool" where
  "pc_in_get_response (TDequeue _) = True"
| "pc_in_get_response TTake = True"
| "pc_in_get_response _ = False"

fun pc_in_execute_read :: "('r, 'w, 'resp) ThreadPc \<Rightarrow> bool" where
  "pc_in_execute_read (TVersion _) = True"
| "pc_in_execute_read (TSync _ _) = True"
| "pc_in_execute_read (TAcquireRead _) = True"
| "pc_in_execute_read (TReleaseRead _) = True"
| "pc_in_execute_read _ = False"

fun pc_in_acquire_combiner :: "('r, 'w, 'resp) ThreadPc \<Rightarrow> bool" where
  "pc_in_acquire_combiner (TTryLoad _) = True"
| "pc_in_acquire_combiner (TTryCas _) = True"
| "pc_in_acquire_combiner _ = False"

fun pc_in_collect :: "('r, 'w, 'resp) ThreadPc \<Rightarrow> bool" where
  "pc_in_collect (TCollect _ _) = True"
| "pc_in_collect (TCollectOp _ _) = True"
| "pc_in_collect _ = False"

fun pc_in_data :: "('r, 'w, 'resp) ThreadPc \<Rightarrow> bool" where
  "pc_in_data (TAcquireWrite _) = True"
| "pc_in_data (TCombine _) = True"
| "pc_in_data (TReleaseWrite _) = True"
| "pc_in_data _ = False"

fun pc_in_distribute :: "('r, 'w, 'resp) ThreadPc \<Rightarrow> bool" where
  "pc_in_distribute (TDistribute _ _) = True"
| "pc_in_distribute (TRespond _ _) = True"
| "pc_in_distribute _ = False"

definition thread_step ::
    "('r, 'w, 'v, 'resp) Dispatch \<Rightarrow> NodeId \<Rightarrow> ThreadId \<Rightarrow> bool \<Rightarrow> 'w NrLog \<Rightarrow> ('r, 'w, 'v, 'resp) Replica \<Rightarrow>
     ('w NrLog \<times> ('r, 'w, 'v, 'resp) Replica) option" where
  "thread_step D nid t weak l rp =
     (let pc = th_pc (rp_threads rp ! t) in
      if pc_in_make_pending pc then map_option (Pair l) (make_pending_step t rp)
      else if pc_in_get_response pc then map_option (Pair l) (get_response_step t rp)
      else if pc_in_execute_read pc then map_option (Pair l) (execute_read_step D nid t l rp)
      else if pc_in_acquire_combiner pc then map_option (Pair l) (acquire_combiner_lock_step t rp)
      else if pc_in_collect pc then map_option (Pair l) (collect_thread_ops_step t rp)
      else if pc_in_data pc then combine_step D nid t weak l rp
      else if pc_in_distribute pc then map_option (Pair l) (distribute_thread_resps_step t rp)
      else map_option (Pair l) (release_combiner_lock_step t rp))"

section \<open>The replicated data structure\<close>

record ('r, 'w, 'v, 'resp) NodeReplicated =
  nr_log :: "'w NrLog"
  nr_replicas :: "('r, 'w, 'v, 'resp) Replica list"

definition node_replicated_new ::
    "('r, 'w, 'v, 'resp) Dispatch \<Rightarrow> nat \<Rightarrow> ('r, 'w, 'v, 'resp) NodeReplicated" where
  "node_replicated_new D num_replicas =
     \<lparr>nr_log = nrlog_new num_replicas LOG_SIZE,
      nr_replicas = replicate num_replicas (replica_new D MAX_THREADS_PER_REPLICA)\<rparr>"

definition node_replicated_register ::
    "NodeId \<Rightarrow> ('r, 'w, 'v, 'resp) NodeReplicated \<Rightarrow> ThreadId option \<times> ('r, 'w, 'v, 'resp) NodeReplicated" where
  "node_replicated_register replica_id nr =
     (if replica_id < length (nr_replicas nr)
      then (let (res, rp) = replica_register (nr_replicas nr ! replica_id)
            in (res, nr\<lparr>nr_replicas := (nr_replicas nr)[replica_id := rp]\<rparr>))
      else (None, nr))"

text \<open>
  A call of \<^verbatim>\<open>execute_mut\<close> or \<^verbatim>\<open>execute\<close> with the token of thread \<open>t\<close> of replica
  \<open>replica_id\<close>; \<open>None\<close> is the error they return for a replica that does not exist.
\<close>

definition start_call ::
    "ReqId \<Rightarrow> ('r, 'w, 'resp) ThreadPc \<Rightarrow> NodeId \<Rightarrow> ThreadId \<Rightarrow> ('r, 'w, 'v, 'resp) NodeReplicated \<Rightarrow>
     ('r, 'w, 'v, 'resp) NodeReplicated option" where
  "start_call rid pc replica_id t nr =
     (if replica_id < length (nr_replicas nr)
      then (let rp = nr_replicas nr ! replica_id
            in Some (nr\<lparr>nr_replicas := (nr_replicas nr)
                 [replica_id := set_thread rp t ((rp_threads rp ! t)\<lparr>th_pc := pc, th_rid := rid\<rparr>)]\<rparr>))
      else None)"

definition execute_mut_call where
  "execute_mut_call rid op = start_call rid (TPut op)"

definition execute_call where
  "execute_call rid op = start_call rid (TVersion op)"

text \<open>The requests in flight, and the identifier a new one gets.\<close>

definition in_flight :: "('r, 'w, 'v, 'resp) NodeReplicated \<Rightarrow> NodeId \<Rightarrow> ThreadId \<Rightarrow> bool" where
  "in_flight nr n t \<longleftrightarrow>
     n < length (nr_replicas nr) \<and> t < length (rp_threads (nr_replicas nr ! n)) \<and>
     th_pc (rp_threads (nr_replicas nr ! n) ! t) \<noteq> TIdle"

abbreviation thread_of where
  "thread_of nr n t \<equiv> rp_threads (nr_replicas nr ! n) ! t"

definition rids_in_flight :: "('r, 'w, 'v, 'resp) NodeReplicated \<Rightarrow> ReqId set" where
  "rids_in_flight nr = {th_rid (thread_of nr n t) | n t. in_flight nr n t}"

text \<open>The token of a thread that is registered and not in a call is with its client.\<close>

definition may_call :: "('r, 'w, 'v, 'resp) NodeReplicated \<Rightarrow> NodeId \<Rightarrow> ThreadId \<Rightarrow> bool" where
  "may_call nr n t \<longleftrightarrow>
     n < length (nr_replicas nr) \<and> t < length (rp_threads (nr_replicas nr ! n)) \<and>
     t \<notin> set (rp_tokens (nr_replicas nr ! n)) \<and> th_pc (thread_of nr n t) = TIdle"

abbreviation set_replica where
  "set_replica nr n rp \<equiv> nr\<lparr>nr_replicas := (nr_replicas nr)[n := rp]\<rparr>"

inductive program_step ::
    "('r, 'w, 'v, 'resp) Dispatch \<Rightarrow> ('r, 'w, 'v, 'resp) NodeReplicated \<Rightarrow> ('r, 'w, 'resp) AsyncLabel \<Rightarrow>
     ('r, 'w, 'v, 'resp) NodeReplicated \<Rightarrow> bool" for D where
  program_register: "node_replicated_register n nr = (res, nr') \<Longrightarrow> program_step D nr Internal nr'"
| program_execute_mut: "may_call nr n t \<Longrightarrow> rid = get_fresh_nat (rids_in_flight nr) Map.empty \<Longrightarrow>
    execute_mut_call rid op n t nr = Some nr' \<Longrightarrow> program_step D nr (LStart rid (InWrite op)) nr'"
| program_execute: "may_call nr n t \<Longrightarrow> rid = get_fresh_nat (rids_in_flight nr) Map.empty \<Longrightarrow>
    execute_call rid op n t nr = Some nr' \<Longrightarrow> program_step D nr (LStart rid (InRead op n)) nr'"
| program_thread: "n < length (nr_replicas nr) \<Longrightarrow> t < length (rp_threads (nr_replicas nr ! n)) \<Longrightarrow>
    thread_step D n t weak (nr_log nr) (nr_replicas nr ! n) = Some (l, rp) \<Longrightarrow>
    program_step D nr Internal ((set_replica nr n rp)\<lparr>nr_log := l\<rparr>)"
| program_return_mut: "n < length (nr_replicas nr) \<Longrightarrow> t < length (rp_threads (nr_replicas nr ! n)) \<Longrightarrow>
    th_pc (thread_of nr n t) = TReturnMut resp \<Longrightarrow>
    program_step D nr (LEnd (th_rid (thread_of nr n t)) (OutWrite resp)) (set_replica nr n (tgoto (nr_replicas nr ! n) t TIdle))"
| program_return: "n < length (nr_replicas nr) \<Longrightarrow> t < length (rp_threads (nr_replicas nr ! n)) \<Longrightarrow>
    th_pc (thread_of nr n t) = TReturn resp \<Longrightarrow>
    program_step D nr (LEnd (th_rid (thread_of nr n t)) (OutRead resp)) (set_replica nr n (tgoto (nr_replicas nr ! n) t TIdle))"

inductive program_behavior ::
    "('r, 'w, 'v, 'resp) Dispatch \<Rightarrow> nat \<Rightarrow> ('r, 'w, 'resp) AsyncLabel list \<Rightarrow> ('r, 'w, 'v, 'resp) NodeReplicated \<Rightarrow> bool"
  for D N where
  program_behavior_new: "0 < N \<Longrightarrow> N \<le> MAX_REPLICAS \<Longrightarrow> program_behavior D N [] (node_replicated_new D N)"
| program_behavior_step: "program_behavior D N ls nr \<Longrightarrow> program_step D nr l nr' \<Longrightarrow> program_behavior D N (ls @ [l]) nr'"

end
