(* ===== verification/NR_Serves_Replica.thy ===== *)
theory NR_Serves_Replica
  imports NR_Serves_Log NR_Exec_Replica
begin

text \<open>
  A thread that runs alone on its replica finishes a round of the combiner: it takes the
  combiner lock, collects from the contexts, takes the write lock on the data, works on the log,
  and delivers the responses. The steps are followed one by one, the loops by induction.
\<close>

section \<open>Runs of one thread\<close>

definition thread_runs ::
    "('r, 'w, 'v, 'resp) Dispatch \<Rightarrow> NodeId \<Rightarrow> ThreadId \<Rightarrow> 'w NrLog \<times> ('r, 'w, 'v, 'resp) Replica \<Rightarrow>
     'w NrLog \<times> ('r, 'w, 'v, 'resp) Replica \<Rightarrow> bool" where
  "thread_runs D n t = (\<lambda>(l, rp) s. thread_step D n t True l rp = Some s)\<^sup>*\<^sup>*"

lemma thread_runs_refl [simp]: "thread_runs D n t s s"
  by (simp add: thread_runs_def)

lemma thread_runs_trans: "thread_runs D n t s s' \<Longrightarrow> thread_runs D n t s' s'' \<Longrightarrow> thread_runs D n t s s''"
  unfolding thread_runs_def by (rule rtranclp_trans)

lemma thread_runs_step: "thread_step D n t True l rp = Some s \<Longrightarrow> thread_runs D n t s s' \<Longrightarrow> thread_runs D n t (l, rp) s'"
  unfolding thread_runs_def by (rule converse_rtranclp_into_rtranclp) simp

text \<open>
  The replica \<open>R\<close>, in which nothing is going on, with thread \<open>t\<close> at \<open>pc\<close>: only its own context can
  be in use.
\<close>

definition solo ::
    "('r, 'w, 'v, 'resp) Replica \<Rightarrow> ThreadId \<Rightarrow> 64 word \<Rightarrow> ('w, 'resp) Context \<Rightarrow> 64 word list \<Rightarrow> 'v RwLock \<Rightarrow>
     ('w, 'v, 'resp) Node \<Rightarrow> ('r, 'w, 'resp) ThreadPc \<Rightarrow> 'v RwPc \<Rightarrow> ('r, 'w, 'v, 'resp) Replica" where
  "solo R t comb cx ops d p pc lpc =
     R\<lparr>rp_combiner := comb, rp_contexts := (replicate MAX_THREADS_PER_REPLICA context_new)[t := cx], rp_num_ops := ops,
       rp_data := d, rp_node := p,
       rp_threads := (rp_threads R)[t := \<lparr>th_pc = pc, th_lock = lpc, th_rid = th_rid (rp_threads R ! t)\<rparr>]\<rparr>"

definition solo_ok :: "('r, 'w, 'v, 'resp) Replica \<Rightarrow> ThreadId \<Rightarrow> bool" where
  "solo_ok R t \<longleftrightarrow> t < MAX_THREADS_PER_REPLICA \<and> length (rp_threads R) = MAX_THREADS_PER_REPLICA"

lemma solo_simps [simp]:
  "rp_combiner (solo R t comb cx ops d p pc lpc) = comb" "rp_num_ops (solo R t comb cx ops d p pc lpc) = ops"
  "rp_data (solo R t comb cx ops d p pc lpc) = d" "rp_node (solo R t comb cx ops d p pc lpc) = p"
  "length (rp_threads (solo R t comb cx ops d p pc lpc)) = length (rp_threads R)"
  "(solo R t comb cx ops d p pc lpc)\<lparr>rp_combiner := comb'\<rparr> = solo R t comb' cx ops d p pc lpc"
  "(solo R t comb cx ops d p pc lpc)\<lparr>rp_num_ops := ops'\<rparr> = solo R t comb cx ops' d p pc lpc"
  "(solo R t comb cx ops d p pc lpc)\<lparr>rp_data := d'\<rparr> = solo R t comb cx ops d' p pc lpc"
  "(solo R t comb cx ops d p pc lpc)\<lparr>rp_node := p'\<rparr> = solo R t comb cx ops d p' pc lpc"
  by (simp_all add: solo_def)

lemma solo_thread:
  assumes "solo_ok R t"
  shows "th_pc (rp_threads (solo R t comb cx ops d p pc lpc) ! t) = pc"
    "th_lock (rp_threads (solo R t comb cx ops d p pc lpc) ! t) = lpc"
    "th_rid (rp_threads (solo R t comb cx ops d p pc lpc) ! t) = th_rid (rp_threads R ! t)"
    "tgoto (solo R t comb cx ops d p pc lpc) t pc' = solo R t comb cx ops d p pc' lpc"
    "lgoto (solo R t comb cx ops d p pc lpc) t pc' lpc' = solo R t comb cx ops d p pc' lpc'"
    "(solo R t comb cx ops d p pc lpc)\<lparr>rp_threads := (rp_threads (solo R t comb' cx' ops' d' p' pc lpc))
       [t := (rp_threads (solo R t comb' cx' ops' d' p' pc lpc) ! t)\<lparr>th_pc := pc'\<rparr>]\<rparr> = solo R t comb cx ops d p pc' lpc"
    "(solo R t comb cx ops d p pc lpc)\<lparr>rp_threads := (rp_threads (solo R t comb' cx' ops' d' p' pc lpc))
       [t := (rp_threads (solo R t comb' cx' ops' d' p' pc lpc) ! t)\<lparr>th_pc := pc', th_lock := lpc'\<rparr>]\<rparr> = solo R t comb cx ops d p pc' lpc'"
  using assms by (simp_all add: solo_def solo_ok_def)

lemma solo_contexts:
  assumes "solo_ok R t"
  shows "length (rp_contexts (solo R t comb cx ops d p pc lpc)) = MAX_THREADS_PER_REPLICA"
    "rp_contexts (solo R t comb cx ops d p pc lpc) ! t = cx"
    "i < MAX_THREADS_PER_REPLICA \<Longrightarrow> i \<noteq> t \<Longrightarrow> rp_contexts (solo R t comb cx ops d p pc lpc) ! i = context_new"
    "(solo R t comb cx ops d p pc lpc)\<lparr>rp_contexts := (rp_contexts (solo R t comb' cx' ops' d' p' pc' lpc'))[t := cx'']\<rparr> =
       solo R t comb cx'' ops d p pc lpc"
  using assms by (simp_all add: solo_def solo_ok_def)

lemmas thread_step_defs = thread_step_def make_pending_step_def get_response_step_def execute_read_step_def
  acquire_combiner_lock_step_def collect_thread_ops_step_def combine_step_def distribute_thread_resps_step_def
  release_combiner_lock_step_def Let_def nth_opt_def

section \<open>The request a combiner finds\<close>

text \<open>What a round is about: a request in the thread's own context, or nothing.\<close>

type_synonym 'w own_request = "(ReqId \<times> 'w) option"

definition pending_cx :: "'w own_request \<Rightarrow> ('w, 'resp) Context" where
  "pending_cx req = (case req of None \<Rightarrow> context_new
     | Some (rid, op) \<Rightarrow> \<lparr>cx_batch = Some (pending_operation_new op), cx_atomic = 1, cx_update = Some rid\<rparr>)"

definition taken_cx :: "'w own_request \<Rightarrow> ('w, 'resp) Context" where
  "taken_cx req = (pending_cx req)\<lparr>cx_update := None\<rparr>"

definition req_ops :: "'w own_request \<Rightarrow> 'w list" where
  "req_ops req = (case req of None \<Rightarrow> [] | Some (rid, op) \<Rightarrow> [op])"

definition req_rids :: "'w own_request \<Rightarrow> ReqId list" where
  "req_rids req = (case req of None \<Rightarrow> [] | Some (rid, op) \<Rightarrow> [rid])"

lemma context_new_simps [simp]:
  "cx_batch context_new = None" "cx_atomic context_new = 0" "cx_update context_new = None"
  by (simp_all add: context_new_def)

lemma req_simps [simp]:
  "pending_cx None = context_new" "taken_cx None = context_new" "req_ops None = []" "req_rids None = []"
  "pending_cx (Some (rid, op)) = \<lparr>cx_batch = Some (pending_operation_new op), cx_atomic = 1, cx_update = Some rid\<rparr>"
  "taken_cx (Some (rid, op)) = \<lparr>cx_batch = Some (pending_operation_new op), cx_atomic = 1, cx_update = None\<rparr>"
  "req_ops (Some (rid, op)) = [op]" "req_rids (Some (rid, op)) = [rid]"
  by (simp_all add: pending_cx_def taken_cx_def req_ops_def req_rids_def context_new_def)

definition req_counts :: "'w own_request \<Rightarrow> ThreadId \<Rightarrow> 64 word list" where
  "req_counts req t = map (\<lambda>i. if i = t \<and> req \<noteq> None then 1 else 0) [0..<MAX_THREADS_PER_REPLICA]"

lemma req_counts_nth:
  "length (req_counts req t) = MAX_THREADS_PER_REPLICA"
  "i < MAX_THREADS_PER_REPLICA \<Longrightarrow> req_counts req t ! i = (if i = t \<and> req \<noteq> None then 1 else 0)"
  by (simp_all add: req_counts_def)

lemma req_lengths: "length (req_ops req) \<le> 1" "length (req_rids req) = length (req_ops req)"
  by (simp_all add: req_ops_def req_rids_def split: option.splits)

text \<open>The node of the combiner when it has visited the contexts below \<open>idx\<close>.\<close>

definition collect_node :: "'v \<Rightarrow> 'w own_request \<Rightarrow> bool \<Rightarrow> ('w, 'v, 'resp) Node" where
  "collect_node v req visited =
     \<lparr>np_pc = NCollect, np_ops = (if visited then req_ops req else []), np_rids = (if visited then req_rids req else []),
      np_responses = [], np_data = v\<rparr>"

section \<open>Collecting\<close>

lemma collect_own: "combine_collect rid op (collect_node v (Some (rid, op)) False) = Some (collect_node v (Some (rid, op)) True)"
  by (simp add: combine_collect_def collect_node_def MAX_REQUESTS_def MAX_PENDING_OPS_def MAX_THREADS_PER_REPLICA_def)

lemma collect_one_runs:
  assumes ok: "solo_ok R t" and idx: "idx < MAX_THREADS_PER_REPLICA"
  shows "thread_runs D n t
    (l, solo R t 2 (if t < idx then taken_cx req else pending_cx req) (take idx (req_counts req t)) d
       (collect_node v req (t < idx)) (TCollect k idx) LIdle)
    (l, solo R t 2 (if t < Suc idx then taken_cx req else pending_cx req) (take (Suc idx) (req_counts req t)) d
       (collect_node v req (t < Suc idx)) (TCollect k (Suc idx)) LIdle)"
proof -
  note s = solo_thread [OF ok] solo_contexts [OF ok]
  have take: "take (Suc idx) (req_counts req t) = take idx (req_counts req t) @ [if idx = t \<and> req \<noteq> None then 1 else 0]"
    using idx by (simp add: take_Suc_conv_app_nth req_counts_nth)
  show ?thesis
  proof (cases "idx = t \<and> req \<noteq> None")
    case False
    let ?cx = "if t < idx then taken_cx req else pending_cx req"
    have same: "(if t < Suc idx then taken_cx req else pending_cx req) = ?cx" "collect_node v req (t < Suc idx) = collect_node v req (t < idx)"
      using False by (cases req; auto simp: collect_node_def)+
    have cx: "cx_atomic (rp_contexts (solo R t 2 ?cx ops d p pc LIdle) ! idx) = 0" for ops p pc
      using False idx s by (cases "idx = t"; cases req; simp)
    have take0: "take (Suc idx) (req_counts req t) = take idx (req_counts req t) @ [0]" using take False by auto
    show ?thesis
      unfolding same take0 using idx cx
      by (intro thread_runs_step [OF _ thread_runs_refl]) (simp add: thread_step_defs s cong: if_cong)
  next
    case True
    then obtain rid op where req: "req = Some (rid, op)" "idx = t" by auto
    let ?mid = "solo R t 2 (pending_cx req) (take idx (req_counts req t)) d (collect_node v req False) (TCollectOp k idx) LIdle"
    have one: "thread_step D n t True l (solo R t 2 (pending_cx req) (take idx (req_counts req t)) d (collect_node v req False)
        (TCollect k idx) LIdle) = Some (l, ?mid)"
      using idx s req by (simp add: thread_step_defs)
    have two: "thread_step D n t True l ?mid = Some (l, solo R t 2 (taken_cx req) (take (Suc idx) (req_counts req t)) d
        (collect_node v req True) (TCollect k (Suc idx)) LIdle)"
      using idx take unfolding req by (simp add: thread_step_defs s pending_operation_new_def collect_own)
    show ?thesis
      using thread_runs_step [OF one thread_runs_step [OF two thread_runs_refl]] req by simp
  qed
qed

lemma collect_runs:
  assumes ok: "solo_ok R t" and idx: "idx \<le> MAX_THREADS_PER_REPLICA"
  shows "thread_runs D n t
    (l, solo R t 2 (pending_cx req) [] d (collect_node v req False) (TCollect k 0) LIdle)
    (l, solo R t 2 (if t < idx then taken_cx req else pending_cx req) (take idx (req_counts req t)) d
       (collect_node v req (t < idx)) (TCollect k idx) LIdle)"
  using idx
proof (induction idx)
  case (Suc idx)
  then show ?case
    by (intro thread_runs_trans [OF Suc.IH collect_one_runs [OF ok]]) simp_all
qed simp

lemma begin_runs:
  assumes ok: "solo_ok R t"
  shows "thread_runs D n t
    (l, solo R t 0 (pending_cx req) [] d \<lparr>np_pc = NIdle, np_ops = [], np_rids = [], np_responses = [], np_data = v\<rparr> (TTryLoad k) LIdle)
    (l, solo R t 2 (taken_cx req) (req_counts req t) d (collect_node v req True) (TAcquireWrite k) WAcquire)"
    (is "thread_runs D n t (l, ?rest (TTryLoad k)) _")
proof -
  note s = solo_thread [OF ok]
  have one: "thread_step D n t True l (?rest (TTryLoad k)) = Some (l, ?rest (TTryCas k))"
    by (simp add: thread_step_defs s)
  have two: "thread_step D n t True l (?rest (TTryCas k)) =
      Some (l, solo R t 2 (pending_cx req) [] d (collect_node v req False) (TCollect k 0) LIdle)"
    by (simp add: thread_step_defs s combine_begin_def collect_node_def)
  have t: "t < MAX_THREADS_PER_REPLICA" using ok by (simp add: solo_ok_def)
  have three: "thread_step D n t True l
      (solo R t 2 (taken_cx req) (req_counts req t) d (collect_node v req True) (TCollect k MAX_THREADS_PER_REPLICA) LIdle) =
      Some (l, solo R t 2 (taken_cx req) (req_counts req t) d (collect_node v req True) (TAcquireWrite k) WAcquire)"
    by (simp add: thread_step_defs s)
  have "thread_runs D n t (l, solo R t 2 (pending_cx req) [] d (collect_node v req False) (TCollect k 0) LIdle)
      (l, solo R t 2 (taken_cx req) (req_counts req t) d (collect_node v req True) (TCollect k MAX_THREADS_PER_REPLICA) LIdle)"
    using collect_runs [OF ok order_refl, of D n l req d v k] t req_counts_nth(1) [of req t] by simp
  from thread_runs_trans [OF this thread_runs_step [OF three thread_runs_refl]] show ?thesis
    by (intro thread_runs_step [OF one] thread_runs_step [OF two])
qed

section \<open>The data\<close>

text \<open>The lock without readers.\<close>

definition data_lock :: "'v option \<Rightarrow> bool \<Rightarrow> 'v RwLock" where
  "data_lock v locked = \<lparr>rl_data = v, rl_exc_locked = locked, rl_ref_counts = replicate MAX_THREADS_PER_REPLICA 0, rl_user_inv = UNIV\<rparr>"

lemma wait_runs:
  assumes ok: "solo_ok R t" and idx: "idx \<le> MAX_THREADS_PER_REPLICA"
  shows "thread_runs D n t
    (l, solo R t comb cx ops (data_lock v True) p (TAcquireWrite k) (WWait 0))
    (l, solo R t comb cx ops (data_lock v True) p (TAcquireWrite k) (WWait idx))"
  using idx
proof (induction idx)
  case (Suc idx)
  have "thread_step D n t True l (solo R t comb cx ops (data_lock v True) p (TAcquireWrite k) (WWait idx)) =
      Some (l, solo R t comb cx ops (data_lock v True) p (TAcquireWrite k) (WWait (Suc idx)))"
    using Suc.prems by (simp add: thread_step_defs solo_thread [OF ok] acquire_write_step_def data_lock_def)
  from thread_runs_trans [OF Suc.IH thread_runs_step [OF this thread_runs_refl]] Suc.prems show ?case by simp
qed simp

lemma acquire_write_runs:
  assumes ok: "solo_ok R t" and pc: "np_pc p = NCollect"
  shows "thread_runs D n t
    (l, solo R t comb cx ops (data_lock (Some v) False) p (TAcquireWrite k) WAcquire)
    (l, solo R t comb cx ops (data_lock None True) (p\<lparr>np_pc := ALoadTail, np_data := v\<rparr>) (TCombine k) (WHeld v))"
proof -
  note s = solo_thread [OF ok]
  have one: "thread_step D n t True l (solo R t comb cx ops (data_lock (Some v) False) p (TAcquireWrite k) WAcquire) =
      Some (l, solo R t comb cx ops (data_lock (Some v) True) p (TAcquireWrite k) (WWait 0))"
    by (simp add: thread_step_defs s acquire_write_step_def data_lock_def)
  have two: "thread_step D n t True l
      (solo R t comb cx ops (data_lock (Some v) True) p (TAcquireWrite k) (WWait MAX_THREADS_PER_REPLICA)) =
      Some (l, solo R t comb cx ops (data_lock None True) (p\<lparr>np_pc := ALoadTail, np_data := v\<rparr>) (TCombine k) (WHeld v))"
    using pc by (simp add: thread_step_defs s acquire_write_step_def data_lock_def combine_lock_def)
  from thread_runs_trans [OF wait_runs [OF ok order_refl] thread_runs_step [OF two thread_runs_refl]]
  show ?thesis by (rule thread_runs_step [OF one])
qed

lemma combine_runs:
  assumes ok: "solo_ok R t" and run: "node_runs D n s s'"
  shows "thread_runs D n t (fst s, solo R t comb cx ops d (snd s) (TCombine k) lpc) (fst s', solo R t comb cx ops d (snd s') (TCombine k) lpc)"
  using run unfolding node_runs_def
proof (induction rule: rtranclp_induct)
  case (step s1 s2)
  then have step: "np_pc (snd s1) \<noteq> NRelease" "node_step D n True (fst s1) (snd s1) = Some s2" by (auto simp: case_prod_beta)
  have "thread_step D n t True (fst s1) (solo R t comb cx ops d (snd s1) (TCombine k) lpc) =
      Some (fst s2, solo R t comb cx ops d (snd s2) (TCombine k) lpc)"
    using step by (cases s2) (simp add: thread_step_defs solo_thread [OF ok])
  from thread_runs_trans [OF step.IH thread_runs_step [OF this thread_runs_refl]] show ?case .
qed simp

lemma release_write_runs:
  assumes ok: "solo_ok R t" and pc: "np_pc p = NRelease"
  shows "thread_runs D n t
    (l, solo R t comb cx ops (data_lock None True) p (TCombine k) (WHeld v))
    (l, solo R t comb cx ops (data_lock (Some (np_data p)) False) (goto p (NRespond 0)) (TDistribute k 0) LIdle)"
proof -
  note s = solo_thread [OF ok]
  have one: "thread_step D n t True l (solo R t comb cx ops (data_lock None True) p (TCombine k) (WHeld v)) =
      Some (l, solo R t comb cx ops (data_lock None True) p (TReleaseWrite k) (WPut (np_data p)))"
    using pc by (simp add: thread_step_defs s)
  have two: "thread_step D n t True l (solo R t comb cx ops (data_lock None True) p (TReleaseWrite k) (WPut (np_data p))) =
      Some (l, solo R t comb cx ops (data_lock (Some (np_data p)) True) p (TReleaseWrite k) WUnlock)"
    by (simp add: thread_step_defs s release_write_step_def data_lock_def)
  have three: "thread_step D n t True l (solo R t comb cx ops (data_lock (Some (np_data p)) True) p (TReleaseWrite k) WUnlock) =
      Some (l, solo R t comb cx ops (data_lock (Some (np_data p)) False) (goto p (NRespond 0)) (TDistribute k 0) LIdle)"
    using pc by (simp add: thread_step_defs s release_write_step_def data_lock_def combine_unlock_def)
  show ?thesis
    by (intro thread_runs_step [OF one] thread_runs_step [OF two] thread_runs_step [OF three] thread_runs_refl)
qed

section \<open>Delivering the response\<close>

definition done_cx :: "'w own_request \<Rightarrow> 'resp list \<Rightarrow> ('w, 'resp) Context" where
  "done_cx req resps = (case req of None \<Rightarrow> context_new
     | Some (rid, op) \<Rightarrow> \<lparr>cx_batch = Some \<lparr>po_op = op, po_resp = Some (hd resps)\<rparr>, cx_atomic = 0, cx_update = Some rid\<rparr>)"

lemma done_cx_simps [simp]:
  "done_cx None resps = context_new"
  "done_cx (Some (rid, op)) resps = \<lparr>cx_batch = Some \<lparr>po_op = op, po_resp = Some (hd resps)\<rparr>, cx_atomic = 0, cx_update = Some rid\<rparr>"
  by (simp_all add: done_cx_def)

definition respond_node :: "'v \<Rightarrow> 'w own_request \<Rightarrow> 'resp list \<Rightarrow> bool \<Rightarrow> ('w, 'v, 'resp) Node" where
  "respond_node v req resps visited =
     \<lparr>np_pc = NRespond (if visited then length (req_rids req) else 0), np_ops = req_ops req, np_rids = req_rids req,
      np_responses = resps, np_data = v\<rparr>"

lemma respond_own:
  "combine_respond (respond_node v (Some (rid, op)) [resp] False) = Some (rid, resp, respond_node v (Some (rid, op)) [resp] True)"
  by (simp add: combine_respond_def respond_node_def nth_opt_def)

lemma distribute_one_runs:
  assumes ok: "solo_ok R t" and idx: "idx < MAX_THREADS_PER_REPLICA" and len: "length resps = length (req_rids req)"
  shows "thread_runs D n t
    (l, solo R t 2 (if t < idx then done_cx req resps else taken_cx req) (req_counts req t) d
       (respond_node v req resps (t < idx)) (TDistribute k idx) LIdle)
    (l, solo R t 2 (if t < Suc idx then done_cx req resps else taken_cx req) (req_counts req t) d
       (respond_node v req resps (t < Suc idx)) (TDistribute k (Suc idx)) LIdle)"
proof -
  note s = solo_thread [OF ok] solo_contexts [OF ok]
  show ?thesis
  proof (cases "idx = t \<and> req \<noteq> None")
    case False
    let ?cx = "if t < idx then done_cx req resps else taken_cx req"
    have same: "(if t < Suc idx then done_cx req resps else taken_cx req) = ?cx"
        "respond_node v req resps (t < Suc idx) = respond_node v req resps (t < idx)"
      using False by (cases req; auto simp: respond_node_def)+
    have "req_counts req t ! idx = 0" "idx < length (req_counts req t)" using False idx by (auto simp: req_counts_nth)
    then show ?thesis
      unfolding same using idx
      by (intro thread_runs_step [OF _ thread_runs_refl]) (simp add: thread_step_defs s cong: if_cong)
  next
    case True
    then obtain rid op where req: "req = Some (rid, op)" "idx = t" by auto
    obtain resp where resps: "resps = [resp]" using len req by (cases resps) auto
    let ?cx = "\<lparr>cx_batch = Some \<lparr>po_op = op, po_resp = Some resp\<rparr>, cx_atomic = 1, cx_update = None\<rparr>"
    let ?mid = "solo R t 2 ?cx (req_counts req t) d (respond_node v req resps False) (TRespond k idx) LIdle"
    have counts: "req_counts req t ! t = 1" "t < length (req_counts req t)" using idx req by (auto simp: req_counts_nth)
    have one: "thread_step D n t True l (solo R t 2 (taken_cx req) (req_counts req t) d (respond_node v req resps False)
        (TDistribute k idx) LIdle) = Some (l, ?mid)"
      using idx counts unfolding req resps by (simp add: thread_step_defs s pending_operation_new_def respond_own)
    have two: "thread_step D n t True l ?mid = Some (l, solo R t 2 (done_cx req resps) (req_counts req t) d
        (respond_node v req resps True) (TDistribute k (Suc idx)) LIdle)"
      using idx unfolding req resps by (simp add: thread_step_defs s respond_own)
    show ?thesis
      using thread_runs_step [OF one thread_runs_step [OF two thread_runs_refl]] req by simp
  qed
qed

lemma distribute_runs:
  assumes ok: "solo_ok R t" and len: "length resps = length (req_rids req)" and idx: "idx \<le> MAX_THREADS_PER_REPLICA"
  shows "thread_runs D n t
    (l, solo R t 2 (taken_cx req) (req_counts req t) d (respond_node v req resps False) (TDistribute k 0) LIdle)
    (l, solo R t 2 (if t < idx then done_cx req resps else taken_cx req) (req_counts req t) d
       (respond_node v req resps (t < idx)) (TDistribute k idx) LIdle)"
  using idx
proof (induction idx)
  case (Suc idx)
  then show ?case
    by (intro thread_runs_trans [OF Suc.IH distribute_one_runs [OF ok _ len]]) simp_all
qed simp

definition idle_node :: "'v \<Rightarrow> ('w, 'v, 'resp) Node" where
  "idle_node v = \<lparr>np_pc = NIdle, np_ops = [], np_rids = [], np_responses = [], np_data = v\<rparr>"

lemma end_runs:
  assumes ok: "solo_ok R t" and len: "length resps = length (req_rids req)"
  shows "thread_runs D n t
    (l, solo R t 2 (taken_cx req) (req_counts req t) d (respond_node v req resps False) (TDistribute k 0) LIdle)
    (l, solo R t 0 (done_cx req resps) [] d (idle_node v) (try_return k) LIdle)"
proof -
  note s = solo_thread [OF ok]
  have t: "t < MAX_THREADS_PER_REPLICA" using ok by (simp add: solo_ok_def)
  have one: "thread_step D n t True l
      (solo R t 2 (done_cx req resps) (req_counts req t) d (respond_node v req resps True) (TDistribute k MAX_THREADS_PER_REPLICA) LIdle) =
      Some (l, solo R t 2 (done_cx req resps) [] d (idle_node v) (TUnlock k) LIdle)"
    by (simp add: thread_step_defs s combine_end_def respond_node_def idle_node_def)
  have two: "thread_step D n t True l (solo R t 2 (done_cx req resps) [] d (idle_node v) (TUnlock k) LIdle) =
      Some (l, solo R t 0 (done_cx req resps) [] d (idle_node v) (try_return k) LIdle)"
    by (simp add: thread_step_defs s)
  show ?thesis
    using thread_runs_trans [OF distribute_runs [OF ok len order_refl]] thread_runs_step [OF one thread_runs_step [OF two thread_runs_refl]] t
    by simp
qed

section \<open>A round of the combiner, up to the responses\<close>

lemma round_thread_runs:
  fixes D :: "('r, 'w, 'v, 'resp) Dispatch"
  assumes ok: "solo_ok R t" and l: "log_settled N T l" and n: "n < N" and bound: "T + length (req_ops req) \<le> SERVE_BOUND"
  shows "\<exists>l' v' resps. thread_runs D n t
      (l, solo R t 0 (pending_cx req) [] (data_lock (Some v) False) (idle_node v) (TTryLoad k) LIdle)
      (l', solo R t 2 (taken_cx req) (req_counts req t) (data_lock (Some v') False) (respond_node v' req resps False) (TDistribute k 0) LIdle) \<and>
    log_settled N (T + length (req_ops req)) l' \<and> nl_local_versions l' ! n = of_nat (T + length (req_ops req))"
proof -
  let ?p = "(collect_node v req True :: ('w, 'v, 'resp) Node)\<lparr>np_pc := ALoadTail, np_data := v\<rparr>"
  have ops: "length (np_ops ?p) \<le> 1" "np_ops ?p = req_ops req" "np_rids ?p = req_rids req"
    using req_lengths [of req] by (simp_all add: collect_node_def)
  obtain l' p' where run: "node_runs D n (l, ?p) (l', p')" "log_settled N (T + length (req_ops req)) l'"
      "nl_local_versions l' ! n = of_nat (T + length (req_ops req))" "np_pc p' = NRelease" "np_ops p' = req_ops req" "np_rids p' = req_rids req"
    using round_runs [OF l n, of ?p D] ops bound unfolding ops(2,3) by auto
  have enter: "thread_runs D n t (l, solo R t 0 (pending_cx req) [] (data_lock (Some v) False) (idle_node v) (TTryLoad k) LIdle)
      (l, solo R t 2 (taken_cx req) (req_counts req t) (data_lock None True) ?p (TCombine k) (WHeld v))"
    using begin_runs [OF ok] acquire_write_runs [OF ok] unfolding idle_node_def
    by (rule thread_runs_trans) (simp add: collect_node_def)
  have log: "thread_runs D n t (l, solo R t 2 (taken_cx req) (req_counts req t) (data_lock None True) ?p (TCombine k) (WHeld v))
      (l', solo R t 2 (taken_cx req) (req_counts req t) (data_lock None True) p' (TCombine k) (WHeld v))"
    using combine_runs [OF ok run(1)] by simp
  have "goto p' (NRespond 0) = respond_node (np_data p') req (np_responses p') False"
    using run(5,6) by (simp add: respond_node_def)
  then have "thread_runs D n t (l', solo R t 2 (taken_cx req) (req_counts req t) (data_lock None True) p' (TCombine k) (WHeld v))
      (l', solo R t 2 (taken_cx req) (req_counts req t) (data_lock (Some (np_data p')) False)
        (respond_node (np_data p') req (np_responses p') False) (TDistribute k 0) LIdle)"
    using release_write_runs [OF ok run(4)] by metis
  then show ?thesis
    using thread_runs_trans [OF thread_runs_trans [OF enter log]] run(2,3) by blast
qed

section \<open>The calls around the rounds\<close>

lemma enqueue_runs:
  assumes ok: "solo_ok R t"
  shows "thread_runs D n t (l, solo R t c context_new ops d p (TPut op) LIdle)
    (l, solo R t c (pending_cx (Some (th_rid (rp_threads R ! t), op))) ops d p (TTryLoad TryUpdate) LIdle)"
proof -
  note s = solo_thread [OF ok] solo_contexts [OF ok]
  let ?cx = "\<lparr>cx_batch = Some (pending_operation_new op), cx_atomic = 0, cx_update = None\<rparr>"
  have t: "t < MAX_THREADS_PER_REPLICA" using ok by (simp add: solo_ok_def)
  have one: "thread_step D n t True l (solo R t c context_new ops d p (TPut op) LIdle) = Some (l, solo R t c ?cx ops d p TStore LIdle)"
    using t by (simp add: thread_step_defs s enqueue_op_put_def context_new_def)
  have two: "thread_step D n t True l (solo R t c ?cx ops d p TStore LIdle) =
      Some (l, solo R t c (pending_cx (Some (th_rid (rp_threads R ! t), op))) ops d p (TTryLoad TryUpdate) LIdle)"
    using t by (simp add: thread_step_defs s enqueue_op_store_def)
  show ?thesis by (rule thread_runs_step [OF one thread_runs_step [OF two thread_runs_refl]])
qed

lemma dequeue_runs:
  assumes ok: "solo_ok R t"
  shows "thread_runs D n t (l, solo R t c (done_cx (Some (rid, op)) [resp]) ops d p (TDequeue 0) LIdle)
    (l, solo R t c context_new ops d p (TReturnMut resp) LIdle)"
proof -
  note s = solo_thread [OF ok] solo_contexts [OF ok]
  let ?cx = "\<lparr>cx_batch = Some \<lparr>po_op = op, po_resp = Some resp\<rparr>, cx_atomic = 0, cx_update = None\<rparr>"
  have t: "t < MAX_THREADS_PER_REPLICA" using ok by (simp add: solo_ok_def)
  have one: "thread_step D n t True l (solo R t c (done_cx (Some (rid, op)) [resp]) ops d p (TDequeue 0) LIdle) =
      Some (l, solo R t c ?cx ops d p TTake LIdle)"
    using t by (simp add: thread_step_defs s dequeue_response_load_def RESPONSE_CHECK_INTERVAL_def)
  have two: "thread_step D n t True l (solo R t c ?cx ops d p TTake LIdle) = Some (l, solo R t c context_new ops d p (TReturnMut resp) LIdle)"
    using t by (simp add: thread_step_defs s dequeue_response_take_def context_new_def)
  show ?thesis by (rule thread_runs_step [OF one thread_runs_step [OF two thread_runs_refl]])
qed

lemma read_runs:
  assumes ok: "solo_ok R t" and synced: "is_replica_synced_for_reads l n u = Some True"
  shows "thread_runs D n t (l, solo R t c cx ops (data_lock (Some v) False) p (TSync op u) LIdle)
    (l, solo R t c cx ops (data_lock (Some v) False) p (TReturn (dispatch_spec D v op)) LIdle)"
proof -
  note s = solo_thread [OF ok]
  have t: "t < MAX_THREADS_PER_REPLICA" using ok by (simp add: solo_ok_def)
  let ?free = "data_lock (Some v) False :: _ RwLock"
  let ?read = "?free\<lparr>rl_ref_counts := (replicate MAX_THREADS_PER_REPLICA 0)[t := 1]\<rparr>"
  let ?at = "\<lambda>d pc lpc. solo R t c cx ops d p pc lpc"
  have counts: "?free\<lparr>rl_ref_counts := (replicate MAX_THREADS_PER_REPLICA 0)[t := 0]\<rparr> = ?free"
    by (simp add: data_lock_def) (metis list_update_id nth_replicate t)
  have synced_step: "thread_step D n t True l (?at ?free (TSync op u) LIdle) = Some (l, ?at ?free (TAcquireRead op) (RLoad t))"
    using synced by (simp add: thread_step_defs s)
  have load_step: "thread_step D n t True l (?at ?free (TAcquireRead op) (RLoad t)) = Some (l, ?at ?free (TAcquireRead op) (RInc t 0))"
    using t by (simp add: thread_step_defs s acquire_read_step_def data_lock_def MAX_RC_def)
  have inc: "thread_step D n t True l (?at ?free (TAcquireRead op) (RInc t 0)) = Some (l, ?at ?read (TAcquireRead op) (RCheck t))"
    using t by (simp add: thread_step_defs s acquire_read_step_def data_lock_def)
  have check: "thread_step D n t True l (?at ?read (TAcquireRead op) (RCheck t)) = Some (l, ?at ?read (TAcquireRead op) (RHeld t))"
    by (simp add: thread_step_defs s acquire_read_step_def data_lock_def)
  have read: "thread_step D n t True l (?at ?read (TAcquireRead op) (RHeld t)) =
      Some (l, ?at ?read (TReleaseRead (dispatch_spec D v op)) (RRelease t))"
    by (simp add: thread_step_defs s rwlock_borrow_def data_lock_def)
  have release: "thread_step D n t True l (?at ?read (TReleaseRead (dispatch_spec D v op)) (RRelease t)) =
      Some (l, ?at ?free (TReturn (dispatch_spec D v op)) LIdle)"
    using t counts by (simp add: thread_step_defs s release_read_step_def)
  show ?thesis
    by (intro thread_runs_step [OF synced_step] thread_runs_step [OF load_step] thread_runs_step [OF inc] thread_runs_step [OF check]
        thread_runs_step [OF read] thread_runs_step [OF release] thread_runs_refl)
qed

lemma version_runs:
  assumes ok: "solo_ok R t"
  shows "thread_runs D n t (l, solo R t c cx ops d p (TVersion op) LIdle)
    (l, solo R t c cx ops d p (TSync op (nl_version_upper_bound l)) LIdle)"
  by (intro thread_runs_step [OF _ thread_runs_refl])
    (simp add: thread_step_defs solo_thread [OF ok] get_version_upper_bound_def)

lemma behind_runs:
  assumes ok: "solo_ok R t" and behind: "is_replica_synced_for_reads l n u = Some False"
  shows "thread_runs D n t (l, solo R t c cx ops d p (TSync op u) LIdle) (l, solo R t c cx ops d p (TTryLoad (TryRead op u)) LIdle)"
  using behind by (intro thread_runs_step [OF _ thread_runs_refl]) (simp add: thread_step_defs solo_thread [OF ok])

end
