(* ===== verification/NR_Flat_Combiner.thy ===== *)
theory NR_Flat_Combiner
  imports NR_Types
begin

text \<open>
  The flat combiner (\<^verbatim>\<open>spec/flat_combiner.rs\<close>): every thread of a replica has a slot
  in which it leaves a request and finds the response; the combiner walks over the slots
  twice, first collecting the requests and then delivering the responses.
\<close>

section \<open>State\<close>

datatype ClientState =
    CLIdle
  | CLWaiting ReqId

datatype SlotState =
    SlotEmpty
  | SlotRequest ReqId
  | is_InProgress: SlotInProgress ReqId
  | SlotResponse ReqId

fun get_ReqId :: "SlotState \<Rightarrow> ReqId option" where
  "get_ReqId SlotEmpty = None"
| "get_ReqId (SlotRequest rid) = Some rid"
| "get_ReqId (SlotInProgress rid) = Some rid"
| "get_ReqId (SlotResponse rid) = Some rid"

datatype FCState =
    FCCollecting "ReqId option list"
  | FCResponding "ReqId option list" nat

fun req_len :: "FCState \<Rightarrow> nat" where
  "req_len (FCCollecting reqs) = length reqs"
| "req_len (FCResponding reqs _) = length reqs"

fun req_is_none :: "FCState \<Rightarrow> nat \<Rightarrow> bool" where
  "req_is_none (FCCollecting reqs) tid = (reqs ! tid = None)"
| "req_is_none (FCResponding reqs _) tid = (reqs ! tid = None)"

fun req_is_some :: "FCState \<Rightarrow> nat \<Rightarrow> bool" where
  "req_is_some (FCCollecting reqs) tid = (reqs ! tid \<noteq> None)"
| "req_is_some (FCResponding reqs _) tid = (reqs ! tid \<noteq> None)"

record FlatCombiner =
  fc_num_threads :: nat
  fc_clients :: "ThreadId \<rightharpoonup> ClientState"
  fc_slots :: "ThreadId \<rightharpoonup> SlotState"
  fc_combiner :: FCState

section \<open>Invariant\<close>

definition fc_inv_complete :: "FlatCombiner \<Rightarrow> bool" where
  "fc_inv_complete s \<longleftrightarrow>
     (\<forall>i. i \<in> dom (fc_clients s) \<longleftrightarrow> i < fc_num_threads s) \<and>
     (\<forall>i. i \<in> dom (fc_slots s) \<longleftrightarrow> i < fc_num_threads s)"

definition fc_inv_client_slot_empty :: "FlatCombiner \<Rightarrow> bool" where
  "fc_inv_client_slot_empty s \<longleftrightarrow>
     (\<forall>i\<in>dom (fc_clients s). (the (fc_clients s i) = CLIdle) = (the (fc_slots s i) = SlotEmpty))"

definition fc_inv_client_reqids :: "FlatCombiner \<Rightarrow> bool" where
  "fc_inv_client_reqids s \<longleftrightarrow>
     (\<forall>i\<in>dom (fc_clients s).
        case the (fc_clients s i) of CLIdle \<Rightarrow> True | CLWaiting rid \<Rightarrow> get_ReqId (the (fc_slots s i)) = Some rid)"

definition fc_inv_combiner_elements :: "FlatCombiner \<Rightarrow> bool" where
  "fc_inv_combiner_elements s \<longleftrightarrow>
     (case fc_combiner s of
        FCCollecting elems \<Rightarrow> length elems \<le> fc_num_threads s
      | FCResponding elems idx \<Rightarrow> length elems = fc_num_threads s \<and> idx \<le> length elems)"

definition slot_in_progress :: "(ThreadId \<rightharpoonup> SlotState) \<Rightarrow> ThreadId \<Rightarrow> bool" where
  "slot_in_progress slots tid \<longleftrightarrow> is_InProgress (the (slots tid))"

definition fc_inv_combiner_slots_not_in_progress :: "FlatCombiner \<Rightarrow> bool" where
  "fc_inv_combiner_slots_not_in_progress s \<longleftrightarrow>
     (case fc_combiner s of
        FCCollecting elems \<Rightarrow>
          (\<forall>i<length elems. elems ! i = None \<longrightarrow> \<not> slot_in_progress (fc_slots s) i) \<and>
          (\<forall>i. length elems \<le> i \<and> i < fc_num_threads s \<longrightarrow> \<not> slot_in_progress (fc_slots s) i)
      | FCResponding elems idx \<Rightarrow>
          (\<forall>i<length elems. elems ! i = None \<longrightarrow> \<not> slot_in_progress (fc_slots s) i) \<and>
          (\<forall>i<idx. \<not> slot_in_progress (fc_slots s) i))"

definition fc_inv_combiner_request_ids :: "FlatCombiner \<Rightarrow> bool" where
  "fc_inv_combiner_request_ids s \<longleftrightarrow>
     (case fc_combiner s of
        FCCollecting elems \<Rightarrow>
          (\<forall>i<length elems. elems ! i \<noteq> None \<longrightarrow> the (fc_slots s i) = SlotInProgress (the (elems ! i)))
      | FCResponding elems idx \<Rightarrow>
          (\<forall>i. idx \<le> i \<and> i < length elems \<and> elems ! i \<noteq> None \<longrightarrow>
             the (fc_slots s i) = SlotInProgress (the (elems ! i))))"

definition fc_invariant :: "FlatCombiner \<Rightarrow> bool" where
  "fc_invariant s \<longleftrightarrow>
     fc_inv_complete s \<and> fc_inv_client_slot_empty s \<and> fc_inv_client_reqids s \<and> fc_inv_combiner_elements s \<and>
     fc_inv_combiner_slots_not_in_progress s \<and> fc_inv_combiner_request_ids s"

section \<open>Transitions\<close>

definition fc_initialize :: "nat \<Rightarrow> FlatCombiner" where
  "fc_initialize num_threads =
     \<lparr>fc_num_threads = num_threads, fc_clients = map_below num_threads CLIdle,
      fc_slots = map_below num_threads SlotEmpty, fc_combiner = FCCollecting []\<rparr>"

definition combiner_collect_empty :: "FlatCombiner \<Rightarrow> FlatCombiner option" where
  "combiner_collect_empty s =
     (case fc_combiner s of
        FCCollecting elems \<Rightarrow>
          (case fc_slots s (length elems) of
             Some SlotEmpty \<Rightarrow> Some (s\<lparr>fc_combiner := FCCollecting (elems @ [None])\<rparr>)
           | Some (SlotResponse rid) \<Rightarrow> Some (s\<lparr>fc_combiner := FCCollecting (elems @ [None])\<rparr>)
           | _ \<Rightarrow> None)
      | _ \<Rightarrow> None)"

definition combiner_collect_request :: "FlatCombiner \<Rightarrow> FlatCombiner option" where
  "combiner_collect_request s =
     (case fc_combiner s of
        FCCollecting elems \<Rightarrow>
          (case fc_slots s (length elems) of
             Some (SlotRequest rid) \<Rightarrow>
               Some (s\<lparr>fc_slots := (fc_slots s)(length elems \<mapsto> SlotInProgress rid),
                       fc_combiner := FCCollecting (elems @ [Some rid])\<rparr>)
           | _ \<Rightarrow> None)
      | _ \<Rightarrow> None)"

definition combiner_responding_start :: "FlatCombiner \<Rightarrow> FlatCombiner option" where
  "combiner_responding_start s =
     (case fc_combiner s of
        FCCollecting elems \<Rightarrow>
          if length elems = fc_num_threads s then Some (s\<lparr>fc_combiner := FCResponding elems 0\<rparr>) else None
      | _ \<Rightarrow> None)"

definition combiner_responding_empty :: "FlatCombiner \<Rightarrow> FlatCombiner option" where
  "combiner_responding_empty s =
     (case fc_combiner s of
        FCResponding elems tid \<Rightarrow>
          if tid < fc_num_threads s \<and> req_is_none (fc_combiner s) tid
          then Some (s\<lparr>fc_combiner := FCResponding elems (tid + 1)\<rparr>) else None
      | _ \<Rightarrow> None)"

text \<open>
  The source asserts that the slot it answers is in progress with the collected request; that
  it always is is \<open>responding_result_safe\<close> below.
\<close>

definition combiner_responding_result :: "FlatCombiner \<Rightarrow> FlatCombiner option" where
  "combiner_responding_result s =
     (case fc_combiner s of
        FCResponding elems tid \<Rightarrow>
          if tid < fc_num_threads s \<and> \<not> req_is_none (fc_combiner s) tid then
            (case fc_slots s tid of
               Some (SlotInProgress rid) \<Rightarrow>
                 Some (s\<lparr>fc_combiner := FCResponding elems (tid + 1),
                         fc_slots := (fc_slots s)(tid \<mapsto> SlotResponse rid)\<rparr>)
             | _ \<Rightarrow> None)
          else None
      | _ \<Rightarrow> None)"

definition combiner_responding_done :: "FlatCombiner \<Rightarrow> FlatCombiner option" where
  "combiner_responding_done s =
     (case fc_combiner s of
        FCResponding elems tid \<Rightarrow>
          if tid = fc_num_threads s then Some (s\<lparr>fc_combiner := FCCollecting []\<rparr>) else None
      | _ \<Rightarrow> None)"

definition send_request :: "FlatCombiner \<Rightarrow> ThreadId \<Rightarrow> ReqId \<Rightarrow> FlatCombiner option" where
  "send_request s tid rid =
     (case (fc_clients s tid, fc_slots s tid) of
        (Some CLIdle, Some SlotEmpty) \<Rightarrow>
          Some (s\<lparr>fc_clients := (fc_clients s)(tid \<mapsto> CLWaiting rid),
                  fc_slots := (fc_slots s)(tid \<mapsto> SlotRequest rid)\<rparr>)
      | _ \<Rightarrow> None)"

definition recv_response :: "FlatCombiner \<Rightarrow> ThreadId \<Rightarrow> ReqId \<Rightarrow> FlatCombiner option" where
  "recv_response s tid rid =
     (if fc_clients s tid = Some (CLWaiting rid) \<and> fc_slots s tid = Some (SlotResponse rid)
      then Some (s\<lparr>fc_clients := (fc_clients s)(tid \<mapsto> CLIdle), fc_slots := (fc_slots s)(tid \<mapsto> SlotEmpty)\<rparr>)
      else None)"

lemmas fc_transition_defs =
  combiner_collect_empty_def combiner_collect_request_def combiner_responding_start_def combiner_responding_empty_def
  combiner_responding_result_def combiner_responding_done_def send_request_def recv_response_def

inductive fc_next :: "FlatCombiner \<Rightarrow> FlatCombiner \<Rightarrow> bool" where
  fc_next_collect_empty: "combiner_collect_empty s = Some s' \<Longrightarrow> fc_next s s'"
| fc_next_collect_request: "combiner_collect_request s = Some s' \<Longrightarrow> fc_next s s'"
| fc_next_responding_start: "combiner_responding_start s = Some s' \<Longrightarrow> fc_next s s'"
| fc_next_responding_empty: "combiner_responding_empty s = Some s' \<Longrightarrow> fc_next s s'"
| fc_next_responding_result: "combiner_responding_result s = Some s' \<Longrightarrow> fc_next s s'"
| fc_next_responding_done: "combiner_responding_done s = Some s' \<Longrightarrow> fc_next s s'"
| fc_next_send_request: "send_request s tid rid = Some s' \<Longrightarrow> fc_next s s'"
| fc_next_recv_response: "recv_response s tid rid = Some s' \<Longrightarrow> fc_next s s'"

inductive fc_reachable :: "nat \<Rightarrow> FlatCombiner \<Rightarrow> bool" for n where
  fc_reachable_init: "fc_reachable n (fc_initialize n)"
| fc_reachable_step: "fc_reachable n s \<Longrightarrow> fc_next s s' \<Longrightarrow> fc_reachable n s'"

section \<open>The invariant is inductive\<close>

text \<open>What the combiner knows of the slot of one thread, and what the client does.\<close>

fun slot_ok :: "FCState \<Rightarrow> ThreadId \<Rightarrow> SlotState \<Rightarrow> bool" where
  "slot_ok (FCCollecting elems) i x =
     (if i < length elems
      then (case elems ! i of None \<Rightarrow> \<not> is_InProgress x | Some rid \<Rightarrow> x = SlotInProgress rid)
      else \<not> is_InProgress x)"
| "slot_ok (FCResponding elems idx) i x =
     (case elems ! i of
        None \<Rightarrow> \<not> is_InProgress x
      | Some rid \<Rightarrow> if i < idx then \<not> is_InProgress x else x = SlotInProgress rid)"

fun client_ok :: "ClientState \<Rightarrow> SlotState \<Rightarrow> bool" where
  "client_ok CLIdle x = (x = SlotEmpty)"
| "client_ok (CLWaiting rid) x = (get_ReqId x = Some rid)"

definition fc_ok :: "FlatCombiner \<Rightarrow> bool" where
  "fc_ok s \<longleftrightarrow>
     dom (fc_clients s) = {..<fc_num_threads s} \<and> dom (fc_slots s) = {..<fc_num_threads s} \<and>
     fc_inv_combiner_elements s \<and>
     (\<forall>i<fc_num_threads s. slot_ok (fc_combiner s) i (the (fc_slots s i)) \<and>
        client_ok (the (fc_clients s i)) (the (fc_slots s i)))"

lemma client_ok_iff:
  "client_ok c x \<longleftrightarrow> (c = CLIdle) = (x = SlotEmpty) \<and>
     (case c of CLIdle \<Rightarrow> True | CLWaiting rid \<Rightarrow> get_ReqId x = Some rid)"
  by (cases c; cases x) auto

lemma fc_slots_iff:
  assumes "fc_inv_combiner_elements s"
  shows "(\<forall>i<fc_num_threads s. slot_ok (fc_combiner s) i (the (fc_slots s i))) \<longleftrightarrow>
    fc_inv_combiner_slots_not_in_progress s \<and> fc_inv_combiner_request_ids s"
proof (cases "fc_combiner s")
  case (FCCollecting elems)
  then have "length elems \<le> fc_num_threads s" using assms by (simp add: fc_inv_combiner_elements_def)
  then show ?thesis
    using FCCollecting
    by (auto simp: fc_inv_combiner_slots_not_in_progress_def fc_inv_combiner_request_ids_def slot_in_progress_def
        not_less split: option.splits if_splits)
next
  case (FCResponding elems idx)
  then have "length elems = fc_num_threads s" "idx \<le> length elems"
    using assms by (simp_all add: fc_inv_combiner_elements_def)
  then show ?thesis
    using FCResponding
    by (auto simp: fc_inv_combiner_slots_not_in_progress_def fc_inv_combiner_request_ids_def slot_in_progress_def
        not_less split: option.splits if_splits) (metis not_None_eq less_le_trans)
qed

lemma fc_invariant_iff: "fc_invariant s \<longleftrightarrow> fc_ok s"
proof -
  have "fc_inv_complete s \<longleftrightarrow> dom (fc_clients s) = {..<fc_num_threads s} \<and> dom (fc_slots s) = {..<fc_num_threads s}"
    unfolding fc_inv_complete_def by blast
  moreover have "fc_inv_client_slot_empty s \<and> fc_inv_client_reqids s \<longleftrightarrow>
      (\<forall>i\<in>dom (fc_clients s). client_ok (the (fc_clients s i)) (the (fc_slots s i)))"
    unfolding fc_inv_client_slot_empty_def fc_inv_client_reqids_def client_ok_iff by blast
  ultimately show ?thesis
    unfolding fc_invariant_def fc_ok_def using fc_slots_iff [of s] by auto
qed

lemma fc_initialize_ok: "fc_ok (fc_initialize n)"
  by (simp add: fc_ok_def fc_initialize_def fc_inv_combiner_elements_def) (simp add: map_below_def)

text \<open>A transition that moves the combiner from one slot to the next.\<close>

lemma fc_ok_combiner:
  assumes ok: "fc_ok s" and elems: "fc_inv_combiner_elements (s\<lparr>fc_combiner := c\<rparr>)"
    and slots: "\<And>i. i < fc_num_threads s \<Longrightarrow> slot_ok (fc_combiner s) i (the (fc_slots s i)) \<Longrightarrow> slot_ok c i (the (fc_slots s i))"
  shows "fc_ok (s\<lparr>fc_combiner := c\<rparr>)"
  using assms by (simp add: fc_ok_def fc_inv_combiner_elements_def)

lemma fc_ok_slot:
  assumes ok: "fc_ok s" and t: "tid < fc_num_threads s" and elems: "fc_inv_combiner_elements s'"
    and slots: "\<And>i. i < fc_num_threads s \<Longrightarrow> i \<noteq> tid \<Longrightarrow> slot_ok (fc_combiner s) i (the (fc_slots s i)) \<Longrightarrow>
      slot_ok (fc_combiner s') i (the (fc_slots s i))"
    and new: "slot_ok (fc_combiner s') tid x" "client_ok y x"
    and s': "fc_num_threads s' = fc_num_threads s" "fc_slots s' = (fc_slots s)(tid \<mapsto> x)"
      "fc_clients s' = (fc_clients s)(tid \<mapsto> y)"
  shows "fc_ok s'"
  using ok t elems slots new unfolding fc_ok_def s' by auto

lemma fc_okD:
  assumes "fc_ok s"
  shows "fc_slots s i = Some x \<Longrightarrow> i < fc_num_threads s"
    and "i < fc_num_threads s \<Longrightarrow> slot_ok (fc_combiner s) i (the (fc_slots s i))"
    and "i < fc_num_threads s \<Longrightarrow> client_ok (the (fc_clients s i)) (the (fc_slots s i))"
    and "i < fc_num_threads s \<Longrightarrow> \<exists>x. fc_slots s i = Some x" and "i < fc_num_threads s \<Longrightarrow> \<exists>y. fc_clients s i = Some y"
    and "fc_inv_combiner_elements s"
  using assms by (auto simp: fc_ok_def)

lemma combiner_collect_empty_ok:
  assumes ok: "fc_ok s" and step: "combiner_collect_empty s = Some s'"
  shows "fc_ok s'"
proof -
  obtain elems x where s: "fc_combiner s = FCCollecting elems" "fc_slots s (length elems) = Some x" "\<not> is_InProgress x"
      "s' = s\<lparr>fc_combiner := FCCollecting (elems @ [None])\<rparr>"
    using step by (auto simp: combiner_collect_empty_def split: FCState.splits option.splits SlotState.splits)
  have "length elems < fc_num_threads s" using fc_okD(1) [OF ok] s(2) .
  then show ?thesis
    unfolding s(4) using s(1-3)
    by (intro fc_ok_combiner [OF ok]) (auto simp: fc_inv_combiner_elements_def nth_append not_less le_Suc_eq split: if_splits)
qed

lemma combiner_collect_request_ok:
  assumes ok: "fc_ok s" and step: "combiner_collect_request s = Some s'"
  shows "fc_ok s'"
proof -
  obtain elems rid where s: "fc_combiner s = FCCollecting elems" "fc_slots s (length elems) = Some (SlotRequest rid)"
      "s' = s\<lparr>fc_slots := (fc_slots s)(length elems \<mapsto> SlotInProgress rid), fc_combiner := FCCollecting (elems @ [Some rid])\<rparr>"
    using step by (auto simp: combiner_collect_request_def split: FCState.splits option.splits SlotState.splits)
  have t: "length elems < fc_num_threads s" using fc_okD(1) [OF ok] s(2) .
  obtain y where y: "fc_clients s (length elems) = Some y" using fc_okD(5) [OF ok t] by blast
  have "client_ok y (SlotInProgress rid)" using fc_okD(3) [OF ok t] s(2) y by (cases y) auto
  then show ?thesis
    using t s y by (intro fc_ok_slot [OF ok t]) (auto simp: fc_inv_combiner_elements_def nth_append split: if_splits)
qed

lemma combiner_responding_start_ok:
  assumes ok: "fc_ok s" and step: "combiner_responding_start s = Some s'"
  shows "fc_ok s'"
proof -
  obtain elems where s: "fc_combiner s = FCCollecting elems" "length elems = fc_num_threads s"
      "s' = s\<lparr>fc_combiner := FCResponding elems 0\<rparr>"
    using step by (auto simp: combiner_responding_start_def split: FCState.splits if_splits)
  show ?thesis
    unfolding s(3) using s(1,2) by (intro fc_ok_combiner [OF ok]) (auto simp: fc_inv_combiner_elements_def split: option.splits)
qed

lemma combiner_responding_empty_ok:
  assumes ok: "fc_ok s" and step: "combiner_responding_empty s = Some s'"
  shows "fc_ok s'"
proof -
  obtain elems tid where s: "fc_combiner s = FCResponding elems tid" "tid < fc_num_threads s" "elems ! tid = None"
      "s' = s\<lparr>fc_combiner := FCResponding elems (tid + 1)\<rparr>"
    using step by (auto simp: combiner_responding_empty_def split: FCState.splits if_splits)
  have "slot_ok (FCResponding elems (tid + 1)) i x" if "slot_ok (FCResponding elems tid) i x" for i x
    using that s(3) by (auto simp: less_Suc_eq split: option.splits if_splits)
  then show ?thesis
    unfolding s(4) using s(1,2) fc_okD(6) [OF ok]
    by (intro fc_ok_combiner [OF ok]) (simp_all add: fc_inv_combiner_elements_def)
qed

text \<open>The slot the combiner answers holds the request it collected there.\<close>

lemma responding_result_safe:
  assumes ok: "fc_ok s" and s: "fc_combiner s = FCResponding elems tid" "tid < fc_num_threads s" "elems ! tid \<noteq> None"
  shows "fc_slots s tid = Some (SlotInProgress (the (elems ! tid)))"
  using fc_okD(2,4) [OF ok s(2)] s(1,3) by auto

lemma combiner_responding_result_ok:
  assumes ok: "fc_ok s" and step: "combiner_responding_result s = Some s'"
  shows "fc_ok s'"
proof -
  obtain elems tid rid where s: "fc_combiner s = FCResponding elems tid" "tid < fc_num_threads s" "elems ! tid \<noteq> None"
      "fc_slots s tid = Some (SlotInProgress rid)"
      "s' = s\<lparr>fc_combiner := FCResponding elems (tid + 1), fc_slots := (fc_slots s)(tid \<mapsto> SlotResponse rid)\<rparr>"
    using step by (auto simp: combiner_responding_result_def split: FCState.splits if_splits option.splits SlotState.splits)
  obtain y where y: "fc_clients s tid = Some y" using fc_okD(5) [OF ok s(2)] by blast
  have "client_ok y (SlotResponse rid)" using fc_okD(3) [OF ok s(2)] s(4) y by (cases y) auto
  moreover have "slot_ok (FCResponding elems (tid + 1)) i x" if "slot_ok (FCResponding elems tid) i x" "i \<noteq> tid" for i x
    using that by (auto simp: less_Suc_eq split: option.splits if_splits)
  ultimately show ?thesis
    using s y fc_okD(6) [OF ok] by (intro fc_ok_slot [OF ok s(2)]) (auto simp: fc_inv_combiner_elements_def)
qed

lemma combiner_responding_done_ok:
  assumes ok: "fc_ok s" and step: "combiner_responding_done s = Some s'"
  shows "fc_ok s'"
proof -
  obtain elems where s: "fc_combiner s = FCResponding elems (fc_num_threads s)" "s' = s\<lparr>fc_combiner := FCCollecting []\<rparr>"
    using step by (auto simp: combiner_responding_done_def split: FCState.splits if_splits)
  show ?thesis
    unfolding s(2) using s(1)
    by (intro fc_ok_combiner [OF ok]) (auto simp: fc_inv_combiner_elements_def split: option.splits if_splits)
qed

lemma send_request_ok:
  assumes ok: "fc_ok s" and step: "send_request s tid rid = Some s'"
  shows "fc_ok s'"
proof -
  have s: "fc_slots s tid = Some SlotEmpty"
      "s' = s\<lparr>fc_clients := (fc_clients s)(tid \<mapsto> CLWaiting rid), fc_slots := (fc_slots s)(tid \<mapsto> SlotRequest rid)\<rparr>"
    using step by (auto simp: send_request_def split: option.splits ClientState.splits SlotState.splits)
  have t: "tid < fc_num_threads s" using fc_okD(1) [OF ok] s(1) .
  have "slot_ok (fc_combiner s) tid (SlotRequest rid)"
    using fc_okD(2) [OF ok t] s(1) by (cases "fc_combiner s") (auto split: option.splits if_splits)
  then show ?thesis
    using s fc_okD(6) [OF ok] by (intro fc_ok_slot [OF ok t]) (auto simp: fc_inv_combiner_elements_def split: FCState.splits)
qed

lemma recv_response_ok:
  assumes ok: "fc_ok s" and step: "recv_response s tid rid = Some s'"
  shows "fc_ok s'"
proof -
  have s: "fc_slots s tid = Some (SlotResponse rid)"
      "s' = s\<lparr>fc_clients := (fc_clients s)(tid \<mapsto> CLIdle), fc_slots := (fc_slots s)(tid \<mapsto> SlotEmpty)\<rparr>"
    using step by (auto simp: recv_response_def split: if_splits)
  have t: "tid < fc_num_threads s" using fc_okD(1) [OF ok] s(1) .
  have "slot_ok (fc_combiner s) tid SlotEmpty"
    using fc_okD(2) [OF ok t] s(1) by (cases "fc_combiner s") (auto split: option.splits if_splits)
  then show ?thesis
    using s fc_okD(6) [OF ok] by (intro fc_ok_slot [OF ok t]) (auto simp: fc_inv_combiner_elements_def split: FCState.splits)
qed

lemmas fc_transitions_ok =
  combiner_collect_empty_ok combiner_collect_request_ok combiner_responding_start_ok combiner_responding_empty_ok
  combiner_responding_result_ok combiner_responding_done_ok send_request_ok recv_response_ok

lemma fc_next_ok: "fc_next s s' \<Longrightarrow> fc_ok s \<Longrightarrow> fc_ok s'"
  by (induction rule: fc_next.induct) (blast intro: fc_transitions_ok)+

lemma fc_reachable_ok: "fc_reachable n s \<Longrightarrow> fc_ok s"
  by (induction rule: fc_reachable.induct) (auto intro: fc_initialize_ok fc_next_ok)

section \<open>Safety conditions and progress\<close>

text \<open>The conditions the source states as properties of the machine.\<close>

lemma pre_combiner_collect_request:
  assumes "fc_ok s" and "fc_combiner s = FCCollecting elems" and "fc_slots s (length elems) = Some x"
  shows "\<not> is_InProgress x"
  using fc_okD(2) [OF assms(1) fc_okD(1) [OF assms(1,3)]] assms(2,3) by simp

lemma pre_send_request: "fc_ok s \<Longrightarrow> fc_clients s tid = Some CLIdle \<Longrightarrow> fc_slots s tid = Some x \<Longrightarrow> x = SlotEmpty"
  using fc_okD(1,3) [of s tid] by fastforce

lemma pre_recv_response:
  "fc_ok s \<Longrightarrow> fc_clients s tid = Some (CLWaiting rid) \<Longrightarrow> fc_slots s tid = Some x \<Longrightarrow> get_ReqId x = Some rid"
  using fc_okD(1,3) [of s tid] by fastforce

text \<open>The combiner can always take a step of its own: it never waits for a client.\<close>

inductive fc_combiner_step :: "FlatCombiner \<Rightarrow> FlatCombiner \<Rightarrow> bool" where
  fc_combiner_collect_empty: "combiner_collect_empty s = Some s' \<Longrightarrow> fc_combiner_step s s'"
| fc_combiner_collect_request: "combiner_collect_request s = Some s' \<Longrightarrow> fc_combiner_step s s'"
| fc_combiner_responding_start: "combiner_responding_start s = Some s' \<Longrightarrow> fc_combiner_step s s'"
| fc_combiner_responding_empty: "combiner_responding_empty s = Some s' \<Longrightarrow> fc_combiner_step s s'"
| fc_combiner_responding_result: "combiner_responding_result s = Some s' \<Longrightarrow> fc_combiner_step s s'"
| fc_combiner_responding_done: "combiner_responding_done s = Some s' \<Longrightarrow> fc_combiner_step s s'"

lemma combiner_can_step:
  assumes ok: "fc_ok s"
  shows "\<exists>s'. fc_combiner_step s s'"
proof (cases "fc_combiner s")
  case (FCCollecting elems)
  show ?thesis
  proof (cases "length elems = fc_num_threads s")
    case True
    then have "combiner_responding_start s = Some (s\<lparr>fc_combiner := FCResponding elems 0\<rparr>)"
      using FCCollecting by (simp add: combiner_responding_start_def)
    then show ?thesis by (blast intro: fc_combiner_responding_start)
  next
    case False
    then have t: "length elems < fc_num_threads s"
      using fc_okD(6) [OF ok] FCCollecting by (simp add: fc_inv_combiner_elements_def)
    then obtain x where x: "fc_slots s (length elems) = Some x" using fc_okD(4) [OF ok] by blast
    then have "\<not> is_InProgress x" using pre_combiner_collect_request [OF ok FCCollecting] by blast
    then have "combiner_collect_empty s \<noteq> None \<or> combiner_collect_request s \<noteq> None"
      using FCCollecting x by (cases x) (simp_all add: combiner_collect_empty_def combiner_collect_request_def)
    then show ?thesis by (blast intro: fc_combiner_collect_empty fc_combiner_collect_request)
  qed
next
  case (FCResponding elems tid)
  then have "tid \<le> fc_num_threads s" using fc_okD(6) [OF ok] by (simp add: fc_inv_combiner_elements_def)
  then consider "tid = fc_num_threads s" | "tid < fc_num_threads s" "elems ! tid = None"
    | "tid < fc_num_threads s" "elems ! tid \<noteq> None" by force
  then have "combiner_responding_done s \<noteq> None \<or> combiner_responding_empty s \<noteq> None \<or> combiner_responding_result s \<noteq> None"
    using FCResponding responding_result_safe [OF ok FCResponding]
    by cases (simp_all add: combiner_responding_done_def combiner_responding_empty_def combiner_responding_result_def)
  then show ?thesis
    by (blast intro: fc_combiner_responding_done fc_combiner_responding_empty fc_combiner_responding_result)
qed

lemma fc_combiner_step_ok: "fc_combiner_step s s' \<Longrightarrow> fc_ok s \<Longrightarrow> fc_ok s'"
  by (induction rule: fc_combiner_step.induct) (blast intro: fc_transitions_ok)+

section \<open>Every request is answered\<close>

abbreviation fc_steps where
  "fc_steps \<equiv> fc_combiner_step\<^sup>*\<^sup>*"

fun slot_collected :: "SlotState \<Rightarrow> SlotState" where
  "slot_collected (SlotRequest rid) = SlotInProgress rid"
| "slot_collected x = x"

fun slot_answered :: "SlotState \<Rightarrow> SlotState" where
  "slot_answered (SlotInProgress rid) = SlotResponse rid"
| "slot_answered x = x"

text \<open>One step of either walk, and what it does to the slot of a thread.\<close>

lemma collect_one:
  assumes ok: "fc_ok s" and c: "fc_combiner s = FCCollecting elems" and l: "length elems < fc_num_threads s"
    and x: "fc_slots s tid = Some x"
  shows "\<exists>s' e. fc_combiner_step s s' \<and> fc_num_threads s' = fc_num_threads s \<and>
    fc_combiner s' = FCCollecting (elems @ [e]) \<and>
    fc_slots s' tid = Some (if tid = length elems then slot_collected x else x)"
proof -
  obtain y where y: "fc_slots s (length elems) = Some y" using fc_okD(4) [OF ok l] by blast
  then have "\<not> is_InProgress y" using pre_combiner_collect_request [OF ok c] by blast
  then consider rid where "y = SlotRequest rid" | "y = SlotEmpty" | rid where "y = SlotResponse rid"
    by (cases y) auto
  then show ?thesis
  proof cases
    case 1
    have "fc_combiner_step s (s\<lparr>fc_slots := (fc_slots s)(length elems \<mapsto> SlotInProgress rid),
        fc_combiner := FCCollecting (elems @ [Some rid])\<rparr>)"
      by (rule fc_combiner_collect_request) (simp add: combiner_collect_request_def c y 1)
    then show ?thesis by (intro exI conjI, assumption) (use x y 1 in auto)
  next
    case 2
    have "fc_combiner_step s (s\<lparr>fc_combiner := FCCollecting (elems @ [None])\<rparr>)"
      by (rule fc_combiner_collect_empty) (simp add: combiner_collect_empty_def c y 2)
    then show ?thesis by (intro exI conjI, assumption) (use x y 2 in auto)
  next
    case 3
    have "fc_combiner_step s (s\<lparr>fc_combiner := FCCollecting (elems @ [None])\<rparr>)"
      by (rule fc_combiner_collect_empty) (simp add: combiner_collect_empty_def c y 3)
    then show ?thesis by (intro exI conjI, assumption) (use x y 3 in auto)
  qed
qed

lemma answer_one:
  assumes ok: "fc_ok s" and c: "fc_combiner s = FCResponding elems k" and l: "k < fc_num_threads s"
    and x: "fc_slots s tid = Some x"
  shows "\<exists>s'. fc_combiner_step s s' \<and> fc_num_threads s' = fc_num_threads s \<and>
    fc_combiner s' = FCResponding elems (Suc k) \<and>
    fc_slots s' tid = Some (if tid = k then slot_answered x else x)"
proof (cases "elems ! k")
  case None
  have step: "fc_combiner_step s (s\<lparr>fc_combiner := FCResponding elems (Suc k)\<rparr>)"
    by (rule fc_combiner_responding_empty) (simp add: combiner_responding_empty_def c l None)
  have same: "slot_answered x = x" if "tid = k"
    using fc_okD(2) [OF ok l] c None x that by (cases x) auto
  show ?thesis using step by (intro exI conjI, assumption) (use x same in auto)
next
  case (Some rid)
  have y: "fc_slots s k = Some (SlotInProgress rid)" using responding_result_safe [OF ok c l] Some by simp
  have "fc_combiner_step s (s\<lparr>fc_combiner := FCResponding elems (Suc k), fc_slots := (fc_slots s)(k \<mapsto> SlotResponse rid)\<rparr>)"
    by (rule fc_combiner_responding_result) (simp add: combiner_responding_result_def c l Some y)
  then show ?thesis by (intro exI conjI, assumption) (use x y in auto)
qed

text \<open>The combiner on its own goes through the rest of the slots.\<close>

lemma collect_all:
  assumes "fc_ok s" and "fc_combiner s = FCCollecting elems" and "fc_slots s tid = Some x"
  shows "\<exists>s' elems'. fc_steps s s' \<and> fc_ok s' \<and> fc_combiner s' = FCCollecting elems' \<and> length elems' = fc_num_threads s' \<and>
    fc_slots s' tid = Some (if length elems \<le> tid then slot_collected x else x)"
  using assms
proof (induction "fc_num_threads s - length elems" arbitrary: s elems x rule: less_induct)
  case less
  note ok = less.prems(1) and c = less.prems(2) and x = less.prems(3)
  have t: "tid < fc_num_threads s" using fc_okD(1) [OF ok x] .
  have le: "length elems \<le> fc_num_threads s" using fc_okD(6) [OF ok] c by (simp add: fc_inv_combiner_elements_def)
  show ?case
  proof (cases "length elems = fc_num_threads s")
    case True
    then show ?thesis using ok c x t by (intro exI [of _ s] exI [of _ elems]) simp
  next
    case False
    with le have l: "length elems < fc_num_threads s" by simp
    obtain s1 e where s1: "fc_combiner_step s s1" "fc_num_threads s1 = fc_num_threads s"
        "fc_combiner s1 = FCCollecting (elems @ [e])" "fc_slots s1 tid = Some (if tid = length elems then slot_collected x else x)"
      using collect_one [OF ok c l x] by blast
    have ok1: "fc_ok s1" by (rule fc_combiner_step_ok [OF s1(1) ok])
    have "fc_num_threads s1 - length (elems @ [e]) < fc_num_threads s - length elems" using l s1(2) by simp
    from less.hyps [OF this ok1 s1(3,4)] obtain s' elems' where s': "fc_steps s1 s'" "fc_ok s'"
        "fc_combiner s' = FCCollecting elems'" "length elems' = fc_num_threads s'"
        "fc_slots s' tid = Some (if length (elems @ [e]) \<le> tid then slot_collected (if tid = length elems then slot_collected x else x)
           else if tid = length elems then slot_collected x else x)" by blast
    have "fc_steps s s'" using s1(1) s'(1) by (rule converse_rtranclp_into_rtranclp)
    then show ?thesis using s' by (intro exI [of _ s'] exI [of _ elems']) (auto split: if_splits)
  qed
qed

lemma answer_all:
  assumes "fc_ok s" and "fc_combiner s = FCResponding elems k" and "fc_slots s tid = Some x"
  shows "\<exists>s'. fc_steps s s' \<and> fc_ok s' \<and> fc_combiner s' = FCCollecting [] \<and>
    fc_slots s' tid = Some (if k \<le> tid then slot_answered x else x)"
  using assms
proof (induction "fc_num_threads s - k" arbitrary: s k x rule: less_induct)
  case less
  note ok = less.prems(1) and c = less.prems(2) and x = less.prems(3)
  have t: "tid < fc_num_threads s" using fc_okD(1) [OF ok x] .
  have le: "k \<le> fc_num_threads s" using fc_okD(6) [OF ok] c by (simp add: fc_inv_combiner_elements_def)
  show ?case
  proof (cases "k = fc_num_threads s")
    case True
    have step: "fc_combiner_step s (s\<lparr>fc_combiner := FCCollecting []\<rparr>)"
      by (rule fc_combiner_responding_done) (simp add: combiner_responding_done_def c True)
    from fc_combiner_step_ok [OF step ok] show ?thesis
      by (intro exI [of _ "s\<lparr>fc_combiner := FCCollecting []\<rparr>"]) (use step x t True in auto)
  next
    case False
    with le have l: "k < fc_num_threads s" by simp
    obtain s1 where s1: "fc_combiner_step s s1" "fc_num_threads s1 = fc_num_threads s"
        "fc_combiner s1 = FCResponding elems (Suc k)" "fc_slots s1 tid = Some (if tid = k then slot_answered x else x)"
      using answer_one [OF ok c l x] by blast
    have ok1: "fc_ok s1" by (rule fc_combiner_step_ok [OF s1(1) ok])
    have "fc_num_threads s1 - Suc k < fc_num_threads s - k" using l s1(2) by simp
    from less.hyps [OF this ok1 s1(3,4)] obtain s' where s': "fc_steps s1 s'" "fc_ok s'" "fc_combiner s' = FCCollecting []"
        "fc_slots s' tid = Some (if Suc k \<le> tid then slot_answered (if tid = k then slot_answered x else x)
           else if tid = k then slot_answered x else x)" by blast
    have "fc_steps s s'" using s1(1) s'(1) by (rule converse_rtranclp_into_rtranclp)
    then show ?thesis using s' by (intro exI [of _ s']) (auto split: if_splits)
  qed
qed

lemma round_answers:
  assumes ok: "fc_ok s" and c: "fc_combiner s = FCCollecting elems" and x: "fc_slots s tid = Some (SlotRequest rid)"
  shows "\<exists>s'. fc_steps s s' \<and> fc_ok s' \<and> fc_combiner s' = FCCollecting [] \<and>
    fc_slots s' tid = Some (if length elems \<le> tid then SlotResponse rid else SlotRequest rid)"
proof -
  let ?x = "if length elems \<le> tid then SlotInProgress rid else SlotRequest rid"
  obtain s1 es where s1: "fc_steps s s1" "fc_ok s1" "fc_combiner s1 = FCCollecting es" "length es = fc_num_threads s1"
      "fc_slots s1 tid = Some ?x"
    using collect_all [OF assms] by auto
  have step: "fc_combiner_step s1 (s1\<lparr>fc_combiner := FCResponding es 0\<rparr>)"
    by (rule fc_combiner_responding_start) (simp add: combiner_responding_start_def s1(3,4))
  obtain s' where s': "fc_steps (s1\<lparr>fc_combiner := FCResponding es 0\<rparr>) s'" "fc_ok s'" "fc_combiner s' = FCCollecting []"
      "fc_slots s' tid = Some (slot_answered ?x)"
    using answer_all [OF fc_combiner_step_ok [OF step s1(2)], of es 0 tid ?x] s1(5) by auto
  have "fc_steps s s'" using s1(1) converse_rtranclp_into_rtranclp [OF step s'(1)] by (rule rtranclp_trans)
  then show ?thesis using s' by (intro exI [of _ s']) auto
qed

text \<open>So a request in a slot is answered by the combiner alone, at the latest in the next round.\<close>

lemma request_is_answered:
  assumes ok: "fc_ok s" and x: "fc_slots s tid = Some (SlotRequest rid)"
  shows "\<exists>s'. fc_steps s s' \<and> fc_slots s' tid = Some (SlotResponse rid)"
proof -
  have idle: "\<exists>s'. fc_steps t s' \<and> fc_slots s' tid = Some (SlotResponse rid)"
    if "fc_ok t" "fc_combiner t = FCCollecting []" "fc_slots t tid = Some (SlotRequest rid)" for t
    using round_answers [OF that] by auto
  have "\<exists>t. fc_steps s t \<and> fc_ok t \<and> fc_combiner t = FCCollecting [] \<and>
      (fc_slots t tid = Some (SlotResponse rid) \<or> fc_slots t tid = Some (SlotRequest rid))"
  proof (cases "fc_combiner s")
    case (FCCollecting elems)
    from round_answers [OF ok this x] show ?thesis by (auto split: if_splits)
  next
    case (FCResponding elems k)
    from answer_all [OF ok this x] show ?thesis by (auto split: if_splits)
  qed
  then show ?thesis using idle by (meson rtranclp_trans)
qed

end
