(* ===== verification/NR_Exec_Threads.thy ===== *)
theory NR_Exec_Threads
  imports NR_Exec_Replica NR_Flat_Combiner
begin

text \<open>
  The ghost state behind the code of the replicas: a flat combiner for every replica, whose
  slots are the contexts, and the system of \<open>NR_Exec_Log\<close>, in which a combiner and its requests
  are one component. The program point of every thread determines its client in the flat
  combiner and the state of its request, and the point of the combining thread the combiner.
\<close>

section \<open>Requests collected from the contexts\<close>

text \<open>
  How the collected identifiers match the contexts (\<^verbatim>\<open>exec/utils.rs\<close>). The source leaves
  the value unspecified where \<open>bools_end < bools_start\<close>.
\<close>

function rids_match :: "ReqId option list \<Rightarrow> ReqId list \<Rightarrow> nat \<Rightarrow> nat \<Rightarrow> nat \<Rightarrow> nat \<Rightarrow> bool" where
  "rids_match bools rids bools_start bools_end rids_start rids_end \<longleftrightarrow>
     (if bools_end \<le> bools_start then rids_end = rids_start
      else (case bools ! (bools_end - 1) of
              Some rid \<Rightarrow> rids_start < rids_end \<and> rids ! (rids_end - 1) = rid \<and>
                rids_match bools rids bools_start (bools_end - 1) rids_start (rids_end - 1)
            | None \<Rightarrow> rids_match bools rids bools_start (bools_end - 1) rids_start rids_end))"
  by pat_completeness auto
termination by (relation "measure (\<lambda>(_, _, _, bools_end, _, _). bools_end)") auto

declare rids_match.simps [simp del]

definition somes :: "'a option list \<Rightarrow> 'a list" where
  "somes xs = map the (filter (\<lambda>x. x \<noteq> None) xs)"

lemma somes_simps [simp]:
  "somes [] = []" "somes (xs @ ys) = somes xs @ somes ys" "somes [None] = []" "somes [Some x] = [x]"
  by (simp_all add: somes_def)

lemma somes_length: "length (somes xs) \<le> length xs"
  by (simp add: somes_def)

lemma somes_split: "i < length xs \<Longrightarrow> somes xs = somes (take i xs) @ somes [xs ! i] @ somes (drop (Suc i) xs)"
  using id_take_nth_drop [of i xs] by (metis append_Cons append_Nil somes_simps(2))

lemma somes_take_Suc: "i < length xs \<Longrightarrow> somes (take (Suc i) xs) = somes (take i xs) @ somes [xs ! i]"
  by (simp add: take_Suc_conv_app_nth)

lemma somes_nth:
  assumes "i < length xs" "xs ! i = Some x"
  shows "length (somes (take i xs)) < length (somes xs)" "somes xs ! length (somes (take i xs)) = x"
  using somes_split [OF assms(1)] by (simp_all add: assms(2))

lemma rids_match_somes:
  assumes "j \<le> length bools" "k \<le> length rids"
  shows "rids_match bools rids 0 j 0 k \<longleftrightarrow> take k rids = somes (take j bools)"
  using assms
proof (induction j arbitrary: k)
  case 0
  then show ?case by (subst rids_match.simps) auto
next
  case (Suc j)
  have s: "somes (take (Suc j) bools) = somes (take j bools) @ somes [bools ! j]"
    using Suc.prems(1) by (intro somes_take_Suc) simp
  show ?case
  proof (cases "bools ! j")
    case None
    then show ?thesis using Suc s by (subst rids_match.simps) simp
  next
    case (Some rid)
    show ?thesis
    proof (cases k)
      case 0
      then show ?thesis using s Some by (subst rids_match.simps) simp
    next
      case (Suc k')
      then have "take k rids = take k' rids @ [rids ! k']" using Suc.prems by (simp add: take_Suc_conv_app_nth)
      then show ?thesis using Suc.IH [of k'] Suc.prems Suc s Some by (subst rids_match.simps) auto
    qed
  qed
qed

lemma rids_match_all: "rids_match bools rids 0 (length bools) 0 (length rids) \<longleftrightarrow> rids = somes bools"
  using rids_match_somes [of "length bools" bools "length rids" rids] by simp

definition op_counts :: "ReqId option list \<Rightarrow> 64 word list" where
  "op_counts elems = map (\<lambda>x. if x = None then 0 else 1) elems"

lemma op_counts_simps [simp]:
  "op_counts [] = []" "op_counts (xs @ ys) = op_counts xs @ op_counts ys" "op_counts [None] = [0]"
  "op_counts [Some x] = [1]" "length (op_counts xs) = length xs"
  "i < length xs \<Longrightarrow> op_counts xs ! i = (if xs ! i = None then 0 else 1)"
  by (simp_all add: op_counts_def)

section \<open>One thread\<close>

text \<open>
  What a thread knows of its context \<open>cx\<close>, of its client \<open>cl\<close> and slot \<open>sl\<close> in the flat
  combiner, and of its request, which is an update \<open>u\<close> or a read \<open>r\<close> of the system.
\<close>

fun caller_rel ::
    "NodeId \<Rightarrow> ReqId \<Rightarrow> ('w, 'resp) Context \<Rightarrow> ClientState option \<Rightarrow> ('w, 'resp) UpdateReq option \<Rightarrow>
     ('r, 'resp) ReadStage option \<Rightarrow> 'r TryCaller \<Rightarrow> bool" where
  "caller_rel n rid cx cl u r TryUpdate \<longleftrightarrow> cl = Some (CLWaiting rid) \<and> r = None"
| "caller_rel n rid cx cl u r (TryRead op v) \<longleftrightarrow>
     cl = Some CLIdle \<and> cx_batch cx = None \<and> u = None \<and> r = Some (RdVersion op n v)"

fun client_rel ::
    "NodeId \<Rightarrow> ReqId \<Rightarrow> ('w, 'resp) Context \<Rightarrow> ClientState option \<Rightarrow> SlotState option \<Rightarrow> ('w, 'resp) UpdateReq option \<Rightarrow>
     ('r, 'resp) ReadStage option \<Rightarrow> ('r, 'w, 'resp) ThreadPc \<Rightarrow> bool" where
  "client_rel n rid cx cl sl u r TIdle \<longleftrightarrow> cl = Some CLIdle \<and> sl = Some SlotEmpty \<and> cx_batch cx = None"
| "client_rel n rid cx cl sl u r (TPut op) \<longleftrightarrow>
     cl = Some CLIdle \<and> cx_batch cx = None \<and> u = Some (UpPending op) \<and> r = None"
| "client_rel n rid cx cl sl u r TStore \<longleftrightarrow>
     cl = Some CLIdle \<and> (\<exists>po. cx_batch cx = Some po \<and> u = Some (UpPending (po_op po))) \<and> r = None"
| "client_rel n rid cx cl sl u r (TDequeue iter) \<longleftrightarrow> caller_rel n rid cx cl u r TryUpdate"
| "client_rel n rid cx cl sl u r TTake \<longleftrightarrow>
     cl = Some CLIdle \<and> (\<exists>po x. cx_batch cx = Some po \<and> po_resp po = Some x \<and> u = Some (UpDone x)) \<and> r = None"
| "client_rel n rid cx cl sl u r (TReturnMut x) \<longleftrightarrow>
     cl = Some CLIdle \<and> cx_batch cx = None \<and> u = Some (UpDone x) \<and> r = None"
| "client_rel n rid cx cl sl u r (TVersion op) \<longleftrightarrow>
     cl = Some CLIdle \<and> cx_batch cx = None \<and> u = None \<and> r = Some (RdInit op n)"
| "client_rel n rid cx cl sl u r (TSync op v) \<longleftrightarrow> caller_rel n rid cx cl u r (TryRead op v)"
| "client_rel n rid cx cl sl u r (TAcquireRead op) \<longleftrightarrow>
     cl = Some CLIdle \<and> cx_batch cx = None \<and> u = None \<and> r = Some (RdReady op n)"
| "client_rel n rid cx cl sl u r (TReleaseRead x) \<longleftrightarrow>
     cl = Some CLIdle \<and> cx_batch cx = None \<and> u = None \<and> r = Some (RdDone x)"
| "client_rel n rid cx cl sl u r (TReturn x) \<longleftrightarrow>
     cl = Some CLIdle \<and> cx_batch cx = None \<and> u = None \<and> r = Some (RdDone x)"
| "client_rel n rid cx cl sl u r (TTryLoad k) \<longleftrightarrow> caller_rel n rid cx cl u r k"
| "client_rel n rid cx cl sl u r (TTryCas k) \<longleftrightarrow> caller_rel n rid cx cl u r k"
| "client_rel n rid cx cl sl u r (TUnlock k) \<longleftrightarrow> caller_rel n rid cx cl u r k"
| "client_rel n rid cx cl sl u r (TCollect k idx) \<longleftrightarrow> caller_rel n rid cx cl u r k"
| "client_rel n rid cx cl sl u r (TCollectOp k idx) \<longleftrightarrow> caller_rel n rid cx cl u r k"
| "client_rel n rid cx cl sl u r (TAcquireWrite k) \<longleftrightarrow> caller_rel n rid cx cl u r k"
| "client_rel n rid cx cl sl u r (TCombine k) \<longleftrightarrow> caller_rel n rid cx cl u r k"
| "client_rel n rid cx cl sl u r (TReleaseWrite k) \<longleftrightarrow> caller_rel n rid cx cl u r k"
| "client_rel n rid cx cl sl u r (TDistribute k idx) \<longleftrightarrow> caller_rel n rid cx cl u r k"
| "client_rel n rid cx cl sl u r (TRespond k idx) \<longleftrightarrow> caller_rel n rid cx cl u r k"

text \<open>The invariant of the atomic of a context.\<close>

fun slot_rel ::
    "ReqId \<Rightarrow> ('w, 'resp) Context \<Rightarrow> ('w, 'resp) UpdateReq option \<Rightarrow> SlotState \<Rightarrow> bool" where
  "slot_rel rid cx u SlotEmpty \<longleftrightarrow> cx_atomic cx = 0 \<and> cx_update cx = None"
| "slot_rel rid cx u (SlotRequest x) \<longleftrightarrow>
     x = rid \<and> cx_atomic cx = 1 \<and> cx_update cx = Some rid \<and>
     (\<exists>po. cx_batch cx = Some po \<and> u = Some (UpPending (po_op po)))"
| "slot_rel rid cx u (SlotInProgress x) \<longleftrightarrow> x = rid \<and> cx_atomic cx = 1 \<and> cx_batch cx \<noteq> None \<and> u \<noteq> None"
| "slot_rel rid cx u (SlotResponse x) \<longleftrightarrow>
     x = rid \<and> cx_atomic cx = 0 \<and> cx_update cx = Some rid \<and>
     (\<exists>po y. cx_batch cx = Some po \<and> po_resp po = Some y \<and> u = Some (UpDone y))"

text \<open>Where a thread is in the operations of the lock on the data.\<close>

fun reading :: "'v RwPc \<Rightarrow> bool" where
  "reading (RLoad tid) = True"
| "reading (RInc tid rc) = True"
| "reading (RCheck tid) = True"
| "reading (RUndo tid) = True"
| "reading (RHeld tid) = True"
| "reading RPanic = True"
| "reading _ = False"

fun lock_rel :: "('r, 'w, 'resp) ThreadPc \<Rightarrow> 'v RwPc \<Rightarrow> bool" where
  "lock_rel (TAcquireRead op) lpc \<longleftrightarrow> reading lpc"
| "lock_rel (TReleaseRead resp) lpc \<longleftrightarrow> (\<exists>tid. lpc = RRelease tid)"
| "lock_rel (TAcquireWrite k) lpc \<longleftrightarrow> lpc = WAcquire \<or> (\<exists>idx. lpc = WWait idx)"
| "lock_rel (TCombine k) lpc \<longleftrightarrow> (\<exists>v. lpc = WHeld v)"
| "lock_rel (TReleaseWrite k) lpc \<longleftrightarrow> (\<exists>v. lpc = WPut v) \<or> lpc = WUnlock"
| "lock_rel _ lpc \<longleftrightarrow> lpc = LIdle"

definition thread_rel ::
    "NodeId \<Rightarrow> ('r, 'w, 'v, 'resp) Thread \<Rightarrow> ('w, 'resp) Context \<Rightarrow> ClientState option \<Rightarrow> SlotState option \<Rightarrow>
     ('w, 'resp) UpdateReq option \<Rightarrow> ('r, 'resp) ReadStage option \<Rightarrow> bool" where
  "thread_rel n th cx cl sl u r \<longleftrightarrow>
     client_rel n (th_rid th) cx cl sl u r (th_pc th) \<and> (\<exists>x. sl = Some x \<and> slot_rel (th_rid th) cx u x) \<and>
     lock_rel (th_pc th) (th_lock th)"

lemma thread_rel_frame:
  assumes "thread_rel n th cx cl sl u r" and "th_pc th \<noteq> TIdle \<Longrightarrow> u' = u \<and> r' = r"
  shows "thread_rel n th cx cl sl u' r'"
  using assms by (cases "th_pc th = TIdle") (auto simp: thread_rel_def)

section \<open>The combiner\<close>

fun combining :: "('r, 'w, 'resp) ThreadPc \<Rightarrow> bool" where
  "combining (TUnlock k) = True"
| "combining (TCollect k idx) = True"
| "combining (TCollectOp k idx) = True"
| "combining (TAcquireWrite k) = True"
| "combining (TCombine k) = True"
| "combining (TReleaseWrite k) = True"
| "combining (TDistribute k idx) = True"
| "combining (TRespond k idx) = True"
| "combining _ = False"

definition combiner_free :: "FCState \<Rightarrow> 64 word list \<Rightarrow> ('w, 'v, 'resp) Node \<Rightarrow> bool" where
  "combiner_free fcs ops p \<longleftrightarrow> fcs = FCCollecting [] \<and> ops = [] \<and> np_pc p = NIdle \<and> np_rids p = []"

definition collected :: "ReqId option list \<Rightarrow> 64 word list \<Rightarrow> ('w, 'v, 'resp) Node \<Rightarrow> bool" where
  "collected elems ops p \<longleftrightarrow> np_rids p = somes elems \<and> ops = op_counts elems"

definition all_collected :: "FCState \<Rightarrow> nat \<Rightarrow> 64 word list \<Rightarrow> ('w, 'v, 'resp) Node \<Rightarrow> bool" where
  "all_collected fcs idx ops p \<longleftrightarrow>
     (\<exists>elems. fcs = FCResponding elems idx \<and> length elems = MAX_THREADS_PER_REPLICA \<and> collected elems ops p)"

definition responding :: "FCState \<Rightarrow> nat \<Rightarrow> ('w, 'v, 'resp) Node \<Rightarrow> bool" where
  "responding fcs idx p \<longleftrightarrow>
     (\<exists>elems. fcs = FCResponding elems idx \<and> np_pc p = NRespond (length (somes (take idx elems))))"

text \<open>\<open>d\<close> is what the lock stores, \<open>cxs\<close> and \<open>us\<close> are the contexts and the updates of the threads.\<close>

fun combine_rel ::
    "FCState \<Rightarrow> 64 word list \<Rightarrow> ('w, 'v, 'resp) Node \<Rightarrow> 'v option \<Rightarrow> 'v RwPc \<Rightarrow> (ThreadId \<Rightarrow> ('w, 'resp) Context) \<Rightarrow>
     (ThreadId \<Rightarrow> ('w, 'resp) UpdateReq option) \<Rightarrow> ('r, 'w, 'resp) ThreadPc \<Rightarrow> bool" where
  "combine_rel fcs ops p d lpc cxs us (TCollect k idx) \<longleftrightarrow>
     (\<exists>elems. fcs = FCCollecting elems \<and> length elems = idx \<and> collected elems ops p) \<and> np_pc p = NCollect"
| "combine_rel fcs ops p d lpc cxs us (TCollectOp k idx) \<longleftrightarrow>
     (\<exists>elems rid po. fcs = FCCollecting (elems @ [Some rid]) \<and> length elems = idx \<and> collected elems ops p \<and>
        cx_update (cxs idx) = Some rid \<and> cx_batch (cxs idx) = Some po \<and> us idx = Some (UpPending (po_op po))) \<and>
     np_pc p = NCollect \<and> idx < MAX_THREADS_PER_REPLICA"
| "combine_rel fcs ops p d lpc cxs us (TAcquireWrite k) \<longleftrightarrow> all_collected fcs 0 ops p \<and> np_pc p = NCollect"
| "combine_rel fcs ops p d lpc cxs us (TCombine k) \<longleftrightarrow>
     all_collected fcs 0 ops p \<and> holds_data_lock (np_pc p) \<and> d = None"
| "combine_rel fcs ops p d lpc cxs us (TReleaseWrite k) \<longleftrightarrow>
     all_collected fcs 0 ops p \<and> np_pc p = NRelease \<and> (lpc = WPut (np_data p) \<or> lpc = WUnlock)"
| "combine_rel fcs ops p d lpc cxs us (TDistribute k idx) \<longleftrightarrow> all_collected fcs idx ops p \<and> responding fcs idx p"
| "combine_rel fcs ops p d lpc cxs us (TRespond k idx) \<longleftrightarrow>
     all_collected fcs idx ops p \<and> responding fcs idx p \<and> idx < MAX_THREADS_PER_REPLICA \<and> req_is_some fcs idx \<and>
     (\<exists>po rid resp p'. cx_batch (cxs idx) = Some po \<and> po_resp po = Some resp \<and> combine_respond p = Some (rid, resp, p'))"
| "combine_rel fcs ops p d lpc cxs us (TUnlock k) \<longleftrightarrow> combiner_free fcs ops p"
| "combine_rel fcs ops p d lpc cxs us _ \<longleftrightarrow> False"

definition combiner_rel ::
    "(ReqId \<rightharpoonup> ('w, 'resp) UpdateReq) \<Rightarrow> FlatCombiner \<Rightarrow> ('w, 'v, 'resp) Node \<Rightarrow> ('r, 'w, 'v, 'resp) Replica \<Rightarrow> bool" where
  "combiner_rel ups fc p rp \<longleftrightarrow>
     (\<exists>c. (\<forall>t<MAX_THREADS_PER_REPLICA. combining (th_pc (rp_threads rp ! t)) \<longleftrightarrow> c = Some t) \<and>
        (rp_combiner rp = 0 \<longleftrightarrow> c = None) \<and>
        (c = None \<longrightarrow> combiner_free (fc_combiner fc) (rp_num_ops rp) p) \<and>
        (\<forall>t. c = Some t \<longrightarrow>
           t < MAX_THREADS_PER_REPLICA \<and>
           combine_rel (fc_combiner fc) (rp_num_ops rp) p (rl_data (rp_data rp)) (th_lock (rp_threads rp ! t))
             (nth (rp_contexts rp)) (\<lambda>t. ups (th_rid (rp_threads rp ! t))) (th_pc (rp_threads rp ! t))))"

section \<open>A replica, and the program\<close>

abbreviation thread_rel_at where
  "thread_rel_at ups reads n fc rp t \<equiv>
     thread_rel n (rp_threads rp ! t) (rp_contexts rp ! t) (fc_clients fc t) (fc_slots fc t)
       (ups (th_rid (rp_threads rp ! t))) (reads (th_rid (rp_threads rp ! t)))"

definition replica_rel ::
    "(ReqId \<rightharpoonup> ('w, 'resp) UpdateReq) \<Rightarrow> (ReqId \<rightharpoonup> ('r, 'resp) ReadStage) \<Rightarrow> ('w, 'v, 'resp) Node \<Rightarrow> NodeId \<Rightarrow>
     FlatCombiner \<Rightarrow> ('r, 'w, 'v, 'resp) Replica \<Rightarrow> bool" where
  "replica_rel ups reads p n fc rp \<longleftrightarrow>
     rp_node rp = p \<and> length (rp_contexts rp) = MAX_THREADS_PER_REPLICA \<and>
     length (rp_threads rp) = MAX_THREADS_PER_REPLICA \<and> fc_num_threads fc = MAX_THREADS_PER_REPLICA \<and>
     length (rl_ref_counts (rp_data rp)) = MAX_THREADS_PER_REPLICA \<and> rl_user_inv (rp_data rp) = UNIV \<and>
     fc_reachable MAX_THREADS_PER_REPLICA fc \<and> rwl_reachable (rp_data rp, map th_lock (rp_threads rp)) \<and>
     (\<forall>d. rl_data (rp_data rp) = Some d \<longrightarrow> d = np_data p) \<and> combiner_rel ups fc p rp \<and>
     (\<forall>t<MAX_THREADS_PER_REPLICA. thread_rel_at ups reads n fc rp t)"

definition distinct_rids :: "('r, 'w, 'v, 'resp) NodeReplicated \<Rightarrow> bool" where
  "distinct_rids nr \<longleftrightarrow>
     (\<forall>n t m i. in_flight nr n t \<and> in_flight nr m i \<and> th_rid (thread_of nr n t) = th_rid (thread_of nr m i) \<longrightarrow>
        n = m \<and> t = i)"

definition program_rel ::
    "('r, 'w, 'v, 'resp) NodeReplicated \<Rightarrow> ('r, 'w, 'v, 'resp) NrSystem \<Rightarrow> (NodeId \<Rightarrow> FlatCombiner) \<Rightarrow> bool" where
  "program_rel nr s fcs \<longleftrightarrow>
     nr_log nr = ns_log s \<and> length (nr_replicas nr) = length (ns_nodes s) \<and>
     (\<forall>n<length (nr_replicas nr).
        replica_rel (ns_updates s) (ns_reads s) (ns_nodes s ! n) n (fcs n) (nr_replicas nr ! n)) \<and>
     distinct_rids nr \<and> rids_in_flight nr = dom (ns_updates s) \<union> dom (ns_reads s)"

end
