(* ===== verification/NR_Exec_Threads_Sim.thy ===== *)
theory NR_Exec_Threads_Sim
  imports NR_Exec_Threads
begin

text \<open>
  What a step of one thread leaves alone, and how the relation of a replica is restored after
  a step of a thread that is not the combiner and after a step of the combiner.
\<close>

section \<open>Reading the relation of a replica\<close>

lemma replica_relD:
  assumes "replica_rel ups reads p n fc rp"
  shows "rp_node rp = p" "length (rp_contexts rp) = MAX_THREADS_PER_REPLICA"
    "length (rp_threads rp) = MAX_THREADS_PER_REPLICA" "fc_num_threads fc = MAX_THREADS_PER_REPLICA"
    "length (rl_ref_counts (rp_data rp)) = MAX_THREADS_PER_REPLICA" "rl_user_inv (rp_data rp) = UNIV"
    "fc_reachable MAX_THREADS_PER_REPLICA fc" "rwl_reachable (rp_data rp, map th_lock (rp_threads rp))"
    "rl_data (rp_data rp) = Some d \<Longrightarrow> d = np_data p" "combiner_rel ups fc p rp"
    "t < MAX_THREADS_PER_REPLICA \<Longrightarrow> thread_rel_at ups reads n fc rp t"
  using assms by (simp_all add: replica_rel_def)

lemma replica_fc_ok: "replica_rel ups reads p n fc rp \<Longrightarrow> fc_ok fc"
  by (rule fc_reachable_ok [OF replica_relD(7)])

lemma thread_relD:
  assumes "thread_rel n th cx cl sl u r"
  shows "client_rel n (th_rid th) cx cl sl u r (th_pc th)" "\<exists>x. sl = Some x \<and> slot_rel (th_rid th) cx u x"
    "lock_rel (th_pc th) (th_lock th)"
  using assms by (simp_all add: thread_rel_def)

lemma thread_relI:
  assumes "client_rel n (th_rid th) cx cl (Some x) u r (th_pc th)" "sl = Some x" "slot_rel (th_rid th) cx u x"
    "lock_rel (th_pc th) (th_lock th)"
  shows "thread_rel n th cx cl sl u r"
  using assms by (simp add: thread_rel_def)

text \<open>A waiting client knows nothing of its context but what the slot says.\<close>

lemma caller_rel_waiting:
  "caller_rel n rid cx (Some (CLWaiting y)) u r k \<Longrightarrow> caller_rel n rid cx' (Some (CLWaiting y)) u' r k"
  by (cases k) auto

lemma client_rel_waiting:
  "client_rel n rid cx (Some (CLWaiting y)) sl u r pc \<Longrightarrow> client_rel n rid cx' (Some (CLWaiting y)) sl' u' r pc"
  by (cases pc) (auto dest: caller_rel_waiting)

lemma busy_slot_client:
  assumes "replica_rel ups reads p n fc rp" and "t < MAX_THREADS_PER_REPLICA" and "fc_slots fc t = Some x" "x \<noteq> SlotEmpty"
  shows "\<exists>y. fc_clients fc t = Some (CLWaiting y)"
proof -
  note ok = replica_fc_ok [OF assms(1)] and num = replica_relD(4) [OF assms(1)]
  obtain cl where cl: "fc_clients fc t = Some cl" using fc_okD(5) [OF ok] assms(2) num by auto
  have "client_ok cl x" using fc_okD(3) [OF ok, of t] assms(2,3) num cl by simp
  then show ?thesis using cl assms(4) by (cases cl) auto
qed

lemma waiting_not_idle: "client_rel n rid cx (Some (CLWaiting y)) sl u r pc \<Longrightarrow> pc \<noteq> TIdle"
  by auto

section \<open>The caller of the combiner\<close>

fun caller_of :: "('r, 'w, 'resp) ThreadPc \<Rightarrow> 'r TryCaller" where
  "caller_of (TTryCas k) = k"
| "caller_of (TUnlock k) = k"
| "caller_of (TCollect k idx) = k"
| "caller_of (TCollectOp k idx) = k"
| "caller_of (TAcquireWrite k) = k"
| "caller_of (TCombine k) = k"
| "caller_of (TReleaseWrite k) = k"
| "caller_of (TDistribute k idx) = k"
| "caller_of (TRespond k idx) = k"
| "caller_of _ = TryUpdate"

lemma client_rel_combining: "combining pc \<Longrightarrow> client_rel n rid cx cl sl u r pc = caller_rel n rid cx cl u r (caller_of pc)"
  by (cases pc) simp_all

lemma client_rel_try_return: "client_rel n rid cx cl sl u r (try_return k) = caller_rel n rid cx cl u r k"
  by (cases k) (simp_all add: try_return_def)

lemma try_return_simps [simp]: "\<not> combining (try_return k)" "try_return k \<noteq> TIdle" "lock_rel (try_return k) lpc = (lpc = LIdle)"
  by (cases k; simp add: try_return_def)+

text \<open>The context the combiner looks at is that of a waiting thread.\<close>

definition in_progress_at :: "FlatCombiner \<Rightarrow> ThreadId \<Rightarrow> bool" where
  "in_progress_at fc t \<longleftrightarrow> (\<exists>rid. fc_slots fc t = Some (SlotInProgress rid))"

lemma collecting_in_progress:
  assumes "fc_ok fc" "fc_combiner fc = FCCollecting (elems @ [Some rid])"
  shows "fc_slots fc (length elems) = Some (SlotInProgress rid)"
proof -
  have "length elems < fc_num_threads fc" using fc_okD(6) [OF assms(1)] assms(2) by (simp add: fc_inv_combiner_elements_def)
  from fc_okD(2,4) [OF assms(1) this] show ?thesis using assms(2) by (auto simp: nth_append)
qed

lemma combine_rel_frame:
  assumes rel: "combine_rel (fc_combiner fc) ops p d lpc cxs us pc" and ok: "fc_ok fc" "fc_num_threads fc = MAX_THREADS_PER_REPLICA"
    and same: "\<And>i. in_progress_at fc i \<Longrightarrow> cxs' i = cxs i \<and> us' i = us i"
  shows "combine_rel (fc_combiner fc) ops p d lpc cxs' us' pc"
proof (cases pc)
  case (TCollectOp k idx)
  then obtain elems rid where "fc_combiner fc = FCCollecting (elems @ [Some rid])" "length elems = idx" using rel by auto
  then have "in_progress_at fc idx" using collecting_in_progress [OF ok(1)] by (auto simp: in_progress_at_def)
  then show ?thesis using rel TCollectOp same by simp
next
  case (TRespond k idx)
  then obtain elems where "fc_combiner fc = FCResponding elems idx" "idx < fc_num_threads fc" "elems ! idx \<noteq> None"
    using rel ok(2) by (auto simp: responding_def)
  then have "in_progress_at fc idx" using responding_result_safe [OF ok(1)] by (auto simp: in_progress_at_def)
  then show ?thesis using rel TRespond same by simp
qed (use rel in simp_all)

lemma in_progress_not_idle:
  assumes "replica_rel ups reads p n fc rp" and "t < MAX_THREADS_PER_REPLICA" and "in_progress_at fc t"
  shows "th_pc (rp_threads rp ! t) \<noteq> TIdle"
proof -
  obtain y where y: "fc_clients fc t = Some (CLWaiting y)"
    using busy_slot_client [OF assms(1,2)] assms(3) by (auto simp: in_progress_at_def)
  from thread_relD(1) [OF replica_relD(11) [OF assms(1,2)], unfolded y] show ?thesis by (rule waiting_not_idle)
qed

section \<open>After a step of a thread that is not the combiner\<close>

text \<open>The operations of the lock a reader performs.\<close>

definition lock_kept :: "'v RwLock \<Rightarrow> 'v RwLock \<Rightarrow> bool" where
  "lock_kept d d' \<longleftrightarrow>
     rl_data d' = rl_data d \<and> length (rl_ref_counts d') = length (rl_ref_counts d) \<and> rl_user_inv d' = rl_user_inv d"

lemma lock_kept_refl [simp]: "lock_kept d d"
  by (simp add: lock_kept_def)

definition client_fields where
  "client_fields rp rp' t th' cx' \<longleftrightarrow>
     rp_node rp' = rp_node rp \<and> rp_threads rp' = (rp_threads rp)[t := th'] \<and>
     rp_contexts rp' = (rp_contexts rp)[t := cx'] \<and> rp_num_ops rp' = rp_num_ops rp \<and> rp_combiner rp' = rp_combiner rp"

lemma combiner_rel_client:
  assumes rr: "replica_rel ups reads p n fc rp" and t: "t < MAX_THREADS_PER_REPLICA"
    and comb: "\<not> combining (th_pc (rp_threads rp ! t))" "\<not> combining (th_pc th')"
    and fc': "fc_combiner fc' = fc_combiner fc"
    and slot: "\<not> in_progress_at fc t \<or> cx' = rp_contexts rp ! t \<and> ups' (th_rid th') = ups (th_rid (rp_threads rp ! t))"
    and ups: "\<And>i. i < MAX_THREADS_PER_REPLICA \<Longrightarrow> i \<noteq> t \<Longrightarrow> th_pc (rp_threads rp ! i) \<noteq> TIdle \<Longrightarrow>
      ups' (th_rid (rp_threads rp ! i)) = ups (th_rid (rp_threads rp ! i))"
    and d: "rl_data (rp_data rp') = rl_data (rp_data rp)"
    and rp': "client_fields rp rp' t th' cx'"
  shows "combiner_rel ups' fc' p rp'"
proof -
  note r = replica_relD [OF rr]
  let ?ths = "(rp_threads rp)[t := th']" and ?cxs = "(rp_contexts rp)[t := cx']"
  obtain c where c: "\<forall>i<MAX_THREADS_PER_REPLICA. combining (th_pc (rp_threads rp ! i)) \<longleftrightarrow> c = Some i"
    "rp_combiner rp = 0 \<longleftrightarrow> c = None" "c = None \<longrightarrow> combiner_free (fc_combiner fc) (rp_num_ops rp) p"
    "\<forall>i. c = Some i \<longrightarrow>
         i < MAX_THREADS_PER_REPLICA \<and>
         combine_rel (fc_combiner fc) (rp_num_ops rp) p (rl_data (rp_data rp)) (th_lock (rp_threads rp ! i))
           (nth (rp_contexts rp)) (\<lambda>i. ups (th_rid (rp_threads rp ! i))) (th_pc (rp_threads rp ! i))"
    using r(10) unfolding combiner_rel_def by blast
  have ct: "c \<noteq> Some t" using c(1) comb(1) t by blast
  have "combining (th_pc (?ths ! i)) \<longleftrightarrow> c = Some i" if "i < MAX_THREADS_PER_REPLICA" for i
    using c(1) comb(2) ct r(3) that by (cases "i = t") simp_all
  moreover have "i < MAX_THREADS_PER_REPLICA \<and>
      combine_rel (fc_combiner fc) (rp_num_ops rp) p (rl_data (rp_data rp)) (th_lock (?ths ! i))
        (nth ?cxs) (\<lambda>i. ups' (th_rid (?ths ! i))) (th_pc (?ths ! i))" if ci: "c = Some i" for i
  proof -
    have i: "i < MAX_THREADS_PER_REPLICA" "i \<noteq> t" using c(4) ct ci by auto
    have same: "?cxs ! j = rp_contexts rp ! j \<and> ups' (th_rid (?ths ! j)) = ups (th_rid (rp_threads rp ! j))"
      if j: "in_progress_at fc j" for j
    proof -
      have j': "j < MAX_THREADS_PER_REPLICA"
        using j fc_okD(1) [OF replica_fc_ok [OF rr]] r(4) by (auto simp: in_progress_at_def)
      show ?thesis
      proof (cases "j = t")
        case True
        then show ?thesis using slot j t r(2,3) by simp
      next
        case False
        then show ?thesis using ups [OF j' False in_progress_not_idle [OF rr j' j]] by simp
      qed
    qed
    have "combine_rel (fc_combiner fc) (rp_num_ops rp) p (rl_data (rp_data rp)) (th_lock (rp_threads rp ! i))
        (nth (rp_contexts rp)) (\<lambda>i. ups (th_rid (rp_threads rp ! i))) (th_pc (rp_threads rp ! i))"
      using c(4) ci by simp
    from combine_rel_frame [OF this replica_fc_ok [OF rr] r(4), of "nth ?cxs" "\<lambda>i. ups' (th_rid (?ths ! i))"] same i
    show ?thesis by simp
  qed
  ultimately show ?thesis
    using c(2,3) d fc' rp' unfolding combiner_rel_def client_fields_def by (intro exI [of _ c]) simp
qed

lemma replica_rel_client:
  assumes rr: "replica_rel ups reads p n fc rp" and t: "t < MAX_THREADS_PER_REPLICA"
    and comb: "\<not> combining (th_pc (rp_threads rp ! t))" "\<not> combining (th_pc th')"
    and fc': "fc_reachable MAX_THREADS_PER_REPLICA fc'" "fc_num_threads fc' = fc_num_threads fc" "fc_combiner fc' = fc_combiner fc"
      "\<And>i. i \<noteq> t \<Longrightarrow> fc_clients fc' i = fc_clients fc i \<and> fc_slots fc' i = fc_slots fc i"
    and slot: "\<not> in_progress_at fc t \<or> cx' = rp_contexts rp ! t \<and> ups' (th_rid th') = ups (th_rid (rp_threads rp ! t))"
    and reqs: "\<And>i. i < MAX_THREADS_PER_REPLICA \<Longrightarrow> i \<noteq> t \<Longrightarrow> th_pc (rp_threads rp ! i) \<noteq> TIdle \<Longrightarrow>
      ups' (th_rid (rp_threads rp ! i)) = ups (th_rid (rp_threads rp ! i)) \<and>
      reads' (th_rid (rp_threads rp ! i)) = reads (th_rid (rp_threads rp ! i))"
    and d: "lock_kept (rp_data rp) (rp_data rp')" "rwl_reachable (rp_data rp', (map th_lock (rp_threads rp))[t := th_lock th'])"
    and th: "thread_rel n th' cx' (fc_clients fc' t) (fc_slots fc' t) (ups' (th_rid th')) (reads' (th_rid th'))"
    and rp': "client_fields rp rp' t th' cx'"
  shows "replica_rel ups' reads' p n fc' rp'"
proof -
  note r = replica_relD [OF rr]
  have f: "rp_node rp' = rp_node rp" "rp_threads rp' = (rp_threads rp)[t := th']" "rp_contexts rp' = (rp_contexts rp)[t := cx']"
    using rp' by (simp_all add: client_fields_def)
  have comb': "combiner_rel ups' fc' p rp'"
    by (rule combiner_rel_client [OF rr t comb fc'(3) _ _ _ rp']) (use slot reqs d(1) in \<open>simp_all add: lock_kept_def\<close>)
  have threads: "thread_rel_at ups' reads' n fc' rp' i" if i: "i < MAX_THREADS_PER_REPLICA" for i
  proof (cases "i = t")
    case True
    then show ?thesis using th r(2,3) t by (simp add: f)
  next
    case False
    then show ?thesis using thread_rel_frame [OF r(11) [OF i] reqs [OF i False]] fc'(4) [OF False] by (simp add: f)
  qed
  have "length (rl_ref_counts (rp_data rp')) = MAX_THREADS_PER_REPLICA" "rl_user_inv (rp_data rp') = UNIV"
    "\<forall>x. rl_data (rp_data rp') = Some x \<longrightarrow> x = np_data p"
    using d(1) r(5,6,9) by (simp_all add: lock_kept_def)
  then show ?thesis
    unfolding replica_rel_def using r(1-4) fc'(1,2) d(2) comb' threads by (simp add: map_update f)
qed

section \<open>After a step of the combiner\<close>

lemma combinerD:
  assumes "combiner_rel ups fc p rp" and "t < MAX_THREADS_PER_REPLICA" and "combining (th_pc (rp_threads rp ! t))"
  shows "rp_combiner rp \<noteq> 0"
    and "i < MAX_THREADS_PER_REPLICA \<Longrightarrow> combining (th_pc (rp_threads rp ! i)) \<Longrightarrow> i = t"
    and "combine_rel (fc_combiner fc) (rp_num_ops rp) p (rl_data (rp_data rp)) (th_lock (rp_threads rp ! t))
      (nth (rp_contexts rp)) (\<lambda>i. ups (th_rid (rp_threads rp ! i))) (th_pc (rp_threads rp ! t))"
  using assms unfolding combiner_rel_def by fastforce+

lemma combinerD_free:
  assumes "combiner_rel ups fc p rp" and "rp_combiner rp = 0"
  shows "combiner_free (fc_combiner fc) (rp_num_ops rp) p"
    and "i < MAX_THREADS_PER_REPLICA \<Longrightarrow> \<not> combining (th_pc (rp_threads rp ! i))"
  using assms unfolding combiner_rel_def by fastforce+

lemma combinerI:
  assumes "t < MAX_THREADS_PER_REPLICA" "rp_combiner rp \<noteq> 0" "combining (th_pc (rp_threads rp ! t))"
    and "\<And>i. i < MAX_THREADS_PER_REPLICA \<Longrightarrow> i \<noteq> t \<Longrightarrow> \<not> combining (th_pc (rp_threads rp ! i))"
    and "combine_rel (fc_combiner fc) (rp_num_ops rp) p (rl_data (rp_data rp)) (th_lock (rp_threads rp ! t))
      (nth (rp_contexts rp)) (\<lambda>i. ups (th_rid (rp_threads rp ! i))) (th_pc (rp_threads rp ! t))"
  shows "combiner_rel ups fc p rp"
  using assms unfolding combiner_rel_def by (intro exI [of _ "Some t"]) auto

lemma combinerI_free:
  assumes "rp_combiner rp = 0" "\<And>i. i < MAX_THREADS_PER_REPLICA \<Longrightarrow> \<not> combining (th_pc (rp_threads rp ! i))"
    and "combiner_free (fc_combiner fc) (rp_num_ops rp) p"
  shows "combiner_rel ups fc p rp"
  using assms unfolding combiner_rel_def by (intro exI [of _ None]) auto

text \<open>
  The combiner \<open>t\<close> moves to another point with the same caller; the context \<open>j\<close> and its slot
  change at most where the client of \<open>j\<close> waits.
\<close>

definition context_step ::
    "FlatCombiner \<Rightarrow> FlatCombiner \<Rightarrow> ThreadId \<Rightarrow> ReqId \<Rightarrow> ('w, 'resp) Context \<Rightarrow> ('w, 'resp) Context \<Rightarrow>
     ('w, 'resp) UpdateReq option \<Rightarrow> ('w, 'resp) UpdateReq option \<Rightarrow> bool" where
  "context_step fc fc' j rid cx cx' u u' \<longleftrightarrow>
     fc_slots fc' j = fc_slots fc j \<and> cx' = cx \<and> u' = u \<or>
     (\<exists>y x. fc_clients fc j = Some (CLWaiting y) \<and> fc_slots fc' j = Some x \<and> slot_rel rid cx' u' x)"

lemma context_step_same: "fc_slots fc' j = fc_slots fc j \<Longrightarrow> context_step fc fc' j rid cx cx u u"
  by (simp add: context_step_def)

lemma thread_rel_context:
  assumes th: "thread_rel n th cx (fc_clients fc j) (fc_slots fc j) u r"
    and "context_step fc fc' j (th_rid th) cx cx' u u'"
  shows "thread_rel n th cx' (fc_clients fc j) (fc_slots fc' j) u' r"
  using assms(2) unfolding context_step_def
proof (elim disjE exE conjE)
  fix y x
  assume w: "fc_clients fc j = Some (CLWaiting y)" "fc_slots fc' j = Some x" "slot_rel (th_rid th) cx' u' x"
  show ?thesis
    using client_rel_waiting [OF thread_relD(1) [OF th, unfolded w(1)]] thread_relD(3) [OF th] w by (auto intro: thread_relI)
qed (use th in simp)

lemma replica_rel_combine:
  assumes rr: "replica_rel ups reads p n fc rp" and t: "t < MAX_THREADS_PER_REPLICA" and j: "j < MAX_THREADS_PER_REPLICA"
    and rp': "rp_node rp' = p'" "rp_threads rp' = (rp_threads rp)[t := th']" "rp_contexts rp' = (rp_contexts rp)[j := cx']"
    and caller: "\<And>cx cl sl u r. client_rel n (th_rid (rp_threads rp ! t)) cx cl sl u r (th_pc (rp_threads rp ! t)) =
        caller_rel n (th_rid (rp_threads rp ! t)) cx cl u r k"
      "\<And>cx cl sl u r. client_rel n (th_rid (rp_threads rp ! t)) cx cl sl u r (th_pc th') =
        caller_rel n (th_rid (rp_threads rp ! t)) cx cl u r k"
    and th': "th_rid th' = th_rid (rp_threads rp ! t)" "lock_rel (th_pc th') (th_lock th')"
    and fc': "fc_reachable MAX_THREADS_PER_REPLICA fc'" "fc_num_threads fc' = fc_num_threads fc" "fc_clients fc' = fc_clients fc"
      "\<And>i. i \<noteq> j \<Longrightarrow> fc_slots fc' i = fc_slots fc i"
    and change: "context_step fc fc' j (th_rid (rp_threads rp ! j)) (rp_contexts rp ! j) cx' (ups (th_rid (rp_threads rp ! j)))
        (ups' (th_rid (rp_threads rp ! j)))"
    and reqs: "\<And>i. i < MAX_THREADS_PER_REPLICA \<Longrightarrow> i \<noteq> j \<Longrightarrow> th_pc (rp_threads rp ! i) \<noteq> TIdle \<Longrightarrow>
        ups' (th_rid (rp_threads rp ! i)) = ups (th_rid (rp_threads rp ! i))"
    and lock: "length (rl_ref_counts (rp_data rp')) = MAX_THREADS_PER_REPLICA" "rl_user_inv (rp_data rp') = UNIV"
      "rwl_reachable (rp_data rp', (map th_lock (rp_threads rp))[t := th_lock th'])"
      "\<And>d. rl_data (rp_data rp') = Some d \<Longrightarrow> d = np_data p'"
    and comb: "combiner_rel ups' fc' p' rp'"
  shows "replica_rel ups' reads p' n fc' rp'"
proof -
  note r = replica_relD [OF rr]
  have "thread_rel_at ups' reads n fc' rp' i" if i: "i < MAX_THREADS_PER_REPLICA" for i
  proof -
    let ?th = "rp_threads rp ! i" and ?cx = "rp_contexts rp' ! i"
    have "thread_rel n ?th ?cx (fc_clients fc i) (fc_slots fc' i) (ups' (th_rid ?th)) (reads (th_rid ?th))"
    proof (cases "i = j")
      case True
      then show ?thesis using thread_rel_context [OF r(11) [OF j] change] r(2) j rp'(3) by simp
    next
      case False
      then show ?thesis using thread_rel_frame [OF r(11) [OF i]] reqs [OF i False] fc'(4) [OF False] rp'(3) by simp
    qed
    note now = this
    show ?thesis
    proof (cases "i = t")
      case True
      have "client_rel n (th_rid th') ?cx (fc_clients fc t) (fc_slots fc' t) (ups' (th_rid th')) (reads (th_rid th')) (th_pc th')"
        using thread_relD(1) [OF now] unfolding True th'(1) caller by simp
      then have "thread_rel n th' ?cx (fc_clients fc t) (fc_slots fc' t) (ups' (th_rid th')) (reads (th_rid th'))"
        using thread_relD(2) [OF now] th' True by (auto simp: thread_rel_def)
      then show ?thesis using True t r(3) rp'(2) fc'(3) by simp
    next
      case False
      then show ?thesis using now rp'(2) fc'(3) by simp
    qed
  qed
  then show ?thesis
    unfolding replica_rel_def using r(2-4) rp' fc'(1,2) lock comb by (simp add: map_update)
qed

end
