(* ===== verification/NR_Exec_Threads_Steps.thy ===== *)
theory NR_Exec_Threads_Steps
  imports NR_Exec_Threads_Sim
begin

text \<open>
  Every step of a thread is matched by a step of the system, or by none, and by steps of the
  flat combiner of its replica.
\<close>

section \<open>Simulation of one replica\<close>

definition thread_rids :: "('r, 'w, 'v, 'resp) Replica \<Rightarrow> ReqId set" where
  "thread_rids rp = {th_rid (rp_threads rp ! t) | t. t < length (rp_threads rp) \<and> th_pc (rp_threads rp ! t) \<noteq> TIdle}"

definition rids_ok :: "('r, 'w, 'v, 'resp) Replica \<Rightarrow> bool" where
  "rids_ok rp \<longleftrightarrow>
     (\<forall>t<length (rp_threads rp). \<forall>i<length (rp_threads rp).
        th_pc (rp_threads rp ! t) \<noteq> TIdle \<and> th_pc (rp_threads rp ! i) \<noteq> TIdle \<and>
        th_rid (rp_threads rp ! t) = th_rid (rp_threads rp ! i) \<longrightarrow> t = i)"

definition requests_kept ::
    "('r, 'w, 'v, 'resp) Replica \<Rightarrow> ('r, 'w, 'v, 'resp) NrSystem \<Rightarrow> ('r, 'w, 'v, 'resp) NrSystem \<Rightarrow> bool" where
  "requests_kept rp s s' \<longleftrightarrow>
     (\<forall>rid. rid \<notin> thread_rids rp \<longrightarrow> ns_updates s' rid = ns_updates s rid \<and> ns_reads s' rid = ns_reads s rid) \<and>
     dom (ns_updates s') \<union> dom (ns_reads s') = dom (ns_updates s) \<union> dom (ns_reads s)"

definition threads_kept :: "('r, 'w, 'v, 'resp) Replica \<Rightarrow> ('r, 'w, 'v, 'resp) Replica \<Rightarrow> bool" where
  "threads_kept rp rp' \<longleftrightarrow>
     length (rp_threads rp') = length (rp_threads rp) \<and>
     (\<forall>t<length (rp_threads rp).
        th_rid (rp_threads rp' ! t) = th_rid (rp_threads rp ! t) \<and>
        (th_pc (rp_threads rp' ! t) = TIdle \<longleftrightarrow> th_pc (rp_threads rp ! t) = TIdle))"

definition replica_sim ::
    "('r, 'w, 'v, 'resp) Dispatch \<Rightarrow> ('r, 'w, 'v, 'resp) NrSystem \<Rightarrow> NodeId \<Rightarrow> ('r, 'w, 'v, 'resp) Replica \<Rightarrow>
     'w NrLog \<Rightarrow> ('r, 'w, 'v, 'resp) Replica \<Rightarrow> bool" where
  "replica_sim D s n rp l' rp' \<longleftrightarrow>
     threads_kept rp rp' \<and>
     (\<exists>s' fc'. (s' = s \<or> system_step D s Internal s') \<and> ns_log s' = l' \<and> length (ns_nodes s') = length (ns_nodes s) \<and>
        (\<forall>m. m \<noteq> n \<longrightarrow> ns_nodes s' ! m = ns_nodes s ! m) \<and> requests_kept rp s s' \<and>
        replica_rel (ns_updates s') (ns_reads s') (ns_nodes s' ! n) n fc' rp')"

lemma threads_keptI:
  assumes "t < length (rp_threads rp)" "rp_threads rp' = (rp_threads rp)[t := th']"
    and "th_rid th' = th_rid (rp_threads rp ! t)" "th_pc th' \<noteq> TIdle" "th_pc (rp_threads rp ! t) \<noteq> TIdle"
  shows "threads_kept rp rp'"
  using assms by (auto simp: threads_kept_def nth_list_update)

lemma requests_kept_refl [simp]: "requests_kept rp s s"
  by (simp add: requests_kept_def)

abbreviation system_replica_rel where
  "system_replica_rel s n fc rp \<equiv> replica_rel (ns_updates s) (ns_reads s) (ns_nodes s ! n) n fc rp"

section \<open>Steps of threads that are not the combiner\<close>

lemma client_sim:
  assumes rr: "system_replica_rel s n fc rp" and t: "t < MAX_THREADS_PER_REPLICA" and ids: "rids_ok rp"
    and comb: "\<not> combining (th_pc (rp_threads rp ! t))" "\<not> combining (th_pc th')"
    and busy: "th_pc (rp_threads rp ! t) \<noteq> TIdle" "th_pc th' \<noteq> TIdle" and rid: "th_rid th' = th_rid (rp_threads rp ! t)"
    and fc': "fc' = fc \<or> fc_next fc fc'" "fc_num_threads fc' = fc_num_threads fc" "fc_combiner fc' = fc_combiner fc"
      "\<And>i. i \<noteq> t \<Longrightarrow> fc_clients fc' i = fc_clients fc i \<and> fc_slots fc' i = fc_slots fc i"
    and slot: "\<not> in_progress_at fc t \<or> cx' = rp_contexts rp ! t"
    and d: "lock_kept (rp_data rp) (rp_data rp')" "rwl_reachable (rp_data rp', (map th_lock (rp_threads rp))[t := th_lock th'])"
    and s': "s' = s \<or> system_step D s Internal s'" "ns_log s' = ns_log s" "ns_nodes s' = ns_nodes s" "ns_updates s' = ns_updates s"
      "ns_reads s' = ns_reads s \<or> (\<exists>x. ns_reads s (th_rid th') \<noteq> None \<and> ns_reads s' = (ns_reads s)(th_rid th' \<mapsto> x))"
    and th: "thread_rel n th' cx' (fc_clients fc' t) (fc_slots fc' t) (ns_updates s (th_rid th')) (ns_reads s' (th_rid th'))"
    and rp': "client_fields rp rp' t th' cx'"
  shows "replica_sim D s n rp (ns_log s) rp'"
proof -
  have len: "length (rp_threads rp) = MAX_THREADS_PER_REPLICA" by (rule replica_relD(3) [OF rr])
  have "fc_reachable MAX_THREADS_PER_REPLICA fc'" using fc'(1) replica_relD(7) [OF rr] by (auto intro: fc_reachable_step)
  moreover have "ns_reads s' (th_rid (rp_threads rp ! i)) = ns_reads s (th_rid (rp_threads rp ! i))"
    if i: "i < MAX_THREADS_PER_REPLICA" "i \<noteq> t" "th_pc (rp_threads rp ! i) \<noteq> TIdle" for i
  proof -
    have "th_rid (rp_threads rp ! i) \<noteq> th_rid th'" using ids i t busy(1) len unfolding rid rids_ok_def by metis
    then show ?thesis using s'(5) by auto
  qed
  ultimately have rel: "replica_rel (ns_updates s') (ns_reads s') (ns_nodes s' ! n) n fc' rp'"
    unfolding s'(3,4) using slot th rid
    by (intro replica_rel_client [OF rr t comb _ fc'(2-4) _ _ d _ rp']) auto
  have "th_rid th' \<in> thread_rids rp" using t len busy(1) rid by (auto simp: thread_rids_def)
  moreover have "dom (ns_reads s') = dom (ns_reads s)"
    using s'(5) by (elim disjE exE conjE) (simp_all add: insert_absorb domIff)
  ultimately have "requests_kept rp s s'" using s'(4,5) by (auto simp: requests_kept_def)
  then show ?thesis
    using rel s'(1-3) threads_keptI [of t rp rp' th'] t len rp' rid busy
    unfolding replica_sim_def client_fields_def by (intro conjI exI [of _ s'] exI [of _ fc']) auto
qed

lemma lock_same: "t < length ths \<Longrightarrow> th_lock (ths ! t) = lpc \<Longrightarrow> (map th_lock ths)[t := lpc] = map th_lock ths"
  by (simp add: list_update_same_conv)

text \<open>Steps at which neither the lock on the data nor the system moves.\<close>

lemma client_sim_stay:
  assumes rr: "system_replica_rel s n fc rp" and t: "t < MAX_THREADS_PER_REPLICA" and ids: "rids_ok rp"
    and comb: "\<not> combining (th_pc (rp_threads rp ! t))" "\<not> combining pc"
    and busy: "th_pc (rp_threads rp ! t) \<noteq> TIdle" "pc \<noteq> TIdle"
    and fc': "fc' = fc \<or> fc_next fc fc'" "fc_num_threads fc' = fc_num_threads fc" "fc_combiner fc' = fc_combiner fc"
      "\<And>i. i \<noteq> t \<Longrightarrow> fc_clients fc' i = fc_clients fc i \<and> fc_slots fc' i = fc_slots fc i"
    and slot: "\<not> in_progress_at fc t \<or> cx' = rp_contexts rp ! t"
    and th: "client_rel n (th_rid (rp_threads rp ! t)) cx' (fc_clients fc' t) (Some x)
        (ns_updates s (th_rid (rp_threads rp ! t))) (ns_reads s (th_rid (rp_threads rp ! t))) pc"
      "fc_slots fc' t = Some x" "slot_rel (th_rid (rp_threads rp ! t)) cx' (ns_updates s (th_rid (rp_threads rp ! t))) x"
    and lock: "lock_rel pc (th_lock (rp_threads rp ! t))"
    and rp': "rp' = tgoto (set_context rp t cx') t pc"
  shows "replica_sim D s n rp (ns_log s) rp'"
proof (rule client_sim [OF rr t ids comb(1) _ busy(1) _ _ fc'(1-4) slot])
  have len: "length (rp_threads rp) = MAX_THREADS_PER_REPLICA" by (rule replica_relD(3) [OF rr])
  show "client_fields rp rp' t ((rp_threads rp ! t)\<lparr>th_pc := pc\<rparr>) cx'" by (simp add: rp' client_fields_def)
  show "rwl_reachable (rp_data rp', (map th_lock (rp_threads rp))[t := th_lock ((rp_threads rp ! t)\<lparr>th_pc := pc\<rparr>)])"
    using replica_relD(8) [OF rr] t len by (simp add: rp' lock_same)
qed (use comb busy th lock in \<open>auto simp: rp' intro: thread_relI\<close>)

lemma same_context: "set_context rp t (rp_contexts rp ! t) = rp"
  by simp

lemma make_pending_sim:
  assumes rr: "system_replica_rel s n fc rp" and t: "t < MAX_THREADS_PER_REPLICA" and ids: "rids_ok rp"
    and step: "make_pending_step t rp = Some rp'"
  shows "replica_sim D s n rp (ns_log s) rp'"
proof -
  let ?th = "rp_threads rp ! t" and ?cx = "rp_contexts rp ! t"
  note th = thread_relD [OF replica_relD(11) [OF rr t]]
  have nth: "nth_opt (rp_contexts rp) t = Some ?cx" using t replica_relD(2) [OF rr] by (simp add: nth_opt_def)
  obtain x where x: "fc_slots fc t = Some x" "slot_rel (th_rid ?th) ?cx (ns_updates s (th_rid ?th)) x" using th(2) by blast
  consider op cx' where "th_pc ?th = TPut op" "enqueue_op_put op ?cx = Some cx'" "rp' = tgoto (set_context rp t cx') t TStore"
    | "th_pc ?th = TStore" "rp' = tgoto (set_context rp t (enqueue_op_store (th_rid ?th) ?cx)) t (TTryLoad TryUpdate)"
    using step by (auto simp: make_pending_step_def nth split: ThreadPc.splits option.splits)
  then show ?thesis
  proof cases
    case 1
    have idle: "x = SlotEmpty" using th(1) 1(1) pre_send_request [OF replica_fc_ok [OF rr] _ x(1)] by simp
    have cx': "cx' = ?cx\<lparr>cx_batch := Some (pending_operation_new op)\<rparr>"
      using 1(2) by (simp add: enqueue_op_put_def split: option.splits)
    show ?thesis
      by (rule client_sim_stay [OF rr t ids, where fc' = fc and x = x and cx' = cx' and pc = TStore])
        (use 1 th x idle in \<open>auto simp: cx' in_progress_at_def pending_operation_new_def\<close>)
  next
    case 2
    have cl: "fc_clients fc t = Some CLIdle" using th(1) 2(1) by simp
    have idle: "x = SlotEmpty" using pre_send_request [OF replica_fc_ok [OF rr] cl x(1)] .
    let ?fc = "fc\<lparr>fc_clients := (fc_clients fc)(t \<mapsto> CLWaiting (th_rid ?th)), fc_slots := (fc_slots fc)(t \<mapsto> SlotRequest (th_rid ?th))\<rparr>"
    have "fc_next fc ?fc" by (rule fc_next_send_request [of _ t "th_rid ?th"]) (simp add: send_request_def cl x(1) idle)
    then show ?thesis
      by (intro client_sim_stay [OF rr t ids, where fc' = ?fc and x = "SlotRequest (th_rid ?th)"
            and cx' = "enqueue_op_store (th_rid ?th) ?cx" and pc = "TTryLoad TryUpdate"])
        (use 2 th x idle in \<open>auto simp: in_progress_at_def enqueue_op_store_def\<close>)
  qed
qed

lemma get_response_sim:
  assumes rr: "system_replica_rel s n fc rp" and t: "t < MAX_THREADS_PER_REPLICA" and ids: "rids_ok rp"
    and step: "get_response_step t rp = Some rp'"
  shows "replica_sim D s n rp (ns_log s) rp'"
proof -
  let ?th = "rp_threads rp ! t" and ?cx = "rp_contexts rp ! t"
  note th = thread_relD [OF replica_relD(11) [OF rr t]]
  have nth: "nth_opt (rp_contexts rp) t = Some ?cx" using t replica_relD(2) [OF rr] by (simp add: nth_opt_def)
  obtain x where x: "fc_slots fc t = Some x" "slot_rel (th_rid ?th) ?cx (ns_updates s (th_rid ?th)) x" using th(2) by blast
  consider (check) iter where "th_pc ?th = TDequeue iter" "rp' = tgoto rp t (TTryLoad TryUpdate)"
    | (wait) iter where "th_pc ?th = TDequeue iter" "rp' = tgoto rp t (TDequeue (iter + 1))"
    | (ready) iter where "th_pc ?th = TDequeue iter" "cx_atomic ?cx = 0" "rp' = tgoto (set_context rp t (?cx\<lparr>cx_update := None\<rparr>)) t TTake"
    | (take) resp cx' where "th_pc ?th = TTake" "dequeue_response_take ?cx = Some (resp, cx')"
        "rp' = tgoto (set_context rp t cx') t (TReturnMut resp)"
    using step
    by (auto simp: get_response_step_def nth dequeue_response_load_def split: ThreadPc.splits option.splits if_splits)
  then show ?thesis
  proof cases
    case check
    show ?thesis
      by (rule client_sim_stay [OF rr t ids, where fc' = fc and x = x and cx' = ?cx and pc = "TTryLoad TryUpdate"])
        (use check th x in auto)
  next
    case wait
    show ?thesis
      by (rule client_sim_stay [OF rr t ids, where fc' = fc and x = x and cx' = ?cx and pc = "TDequeue (iter + 1)"])
        (use wait th x in auto)
  next
    case ready
    have cl: "fc_clients fc t = Some (CLWaiting (th_rid ?th))" using th(1) ready(1) by simp
    have "get_ReqId x = Some (th_rid ?th)" by (rule pre_recv_response [OF replica_fc_ok [OF rr] cl x(1)])
    then have resp: "x = SlotResponse (th_rid ?th)" using x(2) ready(2) by (cases x) auto
    let ?fc = "fc\<lparr>fc_clients := (fc_clients fc)(t \<mapsto> CLIdle), fc_slots := (fc_slots fc)(t \<mapsto> SlotEmpty)\<rparr>"
    have "fc_next fc ?fc" by (rule fc_next_recv_response [of _ t "th_rid ?th"]) (simp add: recv_response_def cl x(1) resp)
    then show ?thesis
      by (intro client_sim_stay [OF rr t ids, where fc' = ?fc and x = SlotEmpty and cx' = "?cx\<lparr>cx_update := None\<rparr>" and pc = TTake])
        (use ready th x resp in \<open>auto simp: in_progress_at_def\<close>)
  next
    case take
    have idle: "x = SlotEmpty" using th(1) take(1) pre_send_request [OF replica_fc_ok [OF rr] _ x(1)] by simp
    have cx': "cx' = ?cx\<lparr>cx_batch := None\<rparr>" "\<exists>po. cx_batch ?cx = Some po \<and> po_resp po = Some resp"
      using take(2) by (auto simp: dequeue_response_take_def split: option.splits)
    show ?thesis
      by (rule client_sim_stay [OF rr t ids, where fc' = fc and x = x and cx' = cx' and pc = "TReturnMut resp"])
        (use take th x idle cx' in \<open>auto simp: in_progress_at_def\<close>)
  qed
qed

section \<open>Reads\<close>

lemma acquire_read_kept:
  assumes "acquire_read_step d lpc = Some (d', lpc')"
  shows "lock_kept d d'" "reading lpc'"
  using assms by (auto simp: acquire_read_step_def lock_kept_def Let_def split: RwPc.splits if_splits)

lemma release_read_kept:
  assumes "release_read_step d lpc = Some (d', lpc')"
  shows "lock_kept d d'" "lpc' = LIdle"
  using assms by (auto simp: release_read_step_def lock_kept_def split: RwPc.splits)

text \<open>While a reader holds the lock, the combiner is outside of the log.\<close>

lemma node_locked:
  assumes "combiner_rel ups fc p rp" and "holds_data_lock (np_pc p)"
  shows "\<exists>i<MAX_THREADS_PER_REPLICA. \<exists>k. th_pc (rp_threads rp ! i) = TCombine k \<or> th_pc (rp_threads rp ! i) = TReleaseWrite k"
proof -
  obtain c where c: "c = None \<longrightarrow> combiner_free (fc_combiner fc) (rp_num_ops rp) p"
    "\<forall>i. c = Some i \<longrightarrow>
         i < MAX_THREADS_PER_REPLICA \<and>
         combine_rel (fc_combiner fc) (rp_num_ops rp) p (rl_data (rp_data rp)) (th_lock (rp_threads rp ! i))
           (nth (rp_contexts rp)) (\<lambda>i. ups (th_rid (rp_threads rp ! i))) (th_pc (rp_threads rp ! i))"
    using assms(1) unfolding combiner_rel_def by blast
  show ?thesis
  proof (cases c)
    case None
    then show ?thesis using c(1) assms(2) by (simp add: combiner_free_def holds_data_lock_def)
  next
    case (Some i)
    then have i: "i < MAX_THREADS_PER_REPLICA"
      "combine_rel (fc_combiner fc) (rp_num_ops rp) p (rl_data (rp_data rp)) (th_lock (rp_threads rp ! i))
         (nth (rp_contexts rp)) (\<lambda>i. ups (th_rid (rp_threads rp ! i))) (th_pc (rp_threads rp ! i))"
      using c(2) by simp_all
    then show ?thesis
      using assms(2) by (cases "th_pc (rp_threads rp ! i)") (auto simp: holds_data_lock_def combiner_free_def responding_def)
  qed
qed

lemma reader_excludes_combiner:
  assumes rr: "system_replica_rel s n fc rp" and t: "t < MAX_THREADS_PER_REPLICA" and held: "th_lock (rp_threads rp ! t) = RHeld tid"
  shows "\<not> holds_data_lock (np_pc (ns_nodes s ! n))"
proof
  assume "holds_data_lock (np_pc (ns_nodes s ! n))"
  from node_locked [OF replica_relD(10) [OF rr] this] obtain i k where i: "i < MAX_THREADS_PER_REPLICA"
    "th_pc (rp_threads rp ! i) = TCombine k \<or> th_pc (rp_threads rp ! i) = TReleaseWrite k" by blast
  have excl: "exc_guard_token (th_lock (rp_threads rp ! i)) = {#()#}"
    using thread_relD(3) [OF replica_relD(11) [OF rr i(1)]] i(2) by auto
  have len: "length (rp_threads rp) = MAX_THREADS_PER_REPLICA" by (rule replica_relD(3) [OF rr])
  obtain g where g: "rw_reachable g" "rw_coupled (rp_data rp) (map th_lock (rp_threads rp)) g"
    using rwl_reachable_coupled [OF replica_relD(8) [OF rr]] by auto
  have "t \<noteq> i" using excl held by auto
  then have "guard_token (th_lock (rp_threads rp ! t)) = {#}"
    using held_write_data(2) [OF g(2), of i t] rw_reachable_invariant [OF g(1)] excl i(1) t len by simp
  then show False by (simp add: held)
qed

text \<open>Steps of a reader, with and without a step of the system.\<close>

lemma reader_sim:
  assumes rr: "system_replica_rel s n fc rp" and t: "t < MAX_THREADS_PER_REPLICA" and ids: "rids_ok rp"
    and comb: "\<not> combining (th_pc (rp_threads rp ! t))" "\<not> combining pc"
    and busy: "th_pc (rp_threads rp ! t) \<noteq> TIdle" "pc \<noteq> TIdle"
    and lock: "d = rp_data rp \<and> lpc = th_lock (rp_threads rp ! t) \<or>
        rwl_step (rp_data rp, map th_lock (rp_threads rp)) (d, (map th_lock (rp_threads rp))[t := lpc])" "lock_kept (rp_data rp) d"
    and s': "s' = s \<or> (\<exists>y x. system_step D s Internal s' \<and> ns_reads s (th_rid (rp_threads rp ! t)) = Some y \<and>
        s' = s\<lparr>ns_reads := (ns_reads s)(th_rid (rp_threads rp ! t) \<mapsto> x)\<rparr>)"
    and th: "client_rel n (th_rid (rp_threads rp ! t)) (rp_contexts rp ! t) (fc_clients fc t) (fc_slots fc t)
        (ns_updates s (th_rid (rp_threads rp ! t))) (ns_reads s' (th_rid (rp_threads rp ! t))) pc" "lock_rel pc lpc"
    and rp': "rp' = lgoto (rp\<lparr>rp_data := d\<rparr>) t pc lpc"
  shows "replica_sim D s n rp (ns_log s) rp'"
proof (rule client_sim [OF rr t ids comb(1) _ busy(1), where fc' = fc and cx' = "rp_contexts rp ! t" and s' = s'
      and th' = "(rp_threads rp ! t)\<lparr>th_pc := pc, th_lock := lpc\<rparr>"])
  have len: "length (rp_threads rp) = MAX_THREADS_PER_REPLICA" by (rule replica_relD(3) [OF rr])
  note rd = replica_relD(8) [OF rr]
  show "rwl_reachable (rp_data rp', (map th_lock (rp_threads rp))[t := th_lock ((rp_threads rp ! t)\<lparr>th_pc := pc, th_lock := lpc\<rparr>)])"
    using lock(1) rd rwl_reachable_step [OF rd] t len by (auto simp: rp' lock_same)
  obtain x where "fc_slots fc t = Some x"
      "slot_rel (th_rid (rp_threads rp ! t)) (rp_contexts rp ! t) (ns_updates s (th_rid (rp_threads rp ! t))) x"
    using thread_relD(2) [OF replica_relD(11) [OF rr t]] by blast
  then show "thread_rel n ((rp_threads rp ! t)\<lparr>th_pc := pc, th_lock := lpc\<rparr>) (rp_contexts rp ! t) (fc_clients fc t) (fc_slots fc t)
     (ns_updates s (th_rid ((rp_threads rp ! t)\<lparr>th_pc := pc, th_lock := lpc\<rparr>)))
     (ns_reads s' (th_rid ((rp_threads rp ! t)\<lparr>th_pc := pc, th_lock := lpc\<rparr>)))"
    using th by (auto simp: thread_rel_def)
qed (use comb busy lock(2) s' in \<open>auto simp: rp' client_fields_def\<close>)

lemma read_reqs:
  "client_rel n rid cx cl sl u r (TVersion op) \<Longrightarrow> r = Some (RdInit op n)"
  "client_rel n rid cx cl sl u r (TSync op v) \<Longrightarrow> r = Some (RdVersion op n v)"
  "client_rel n rid cx cl sl u r (TAcquireRead op) \<Longrightarrow> r = Some (RdReady op n)"
  by simp_all

lemma execute_read_cases:
  assumes "execute_read_step D n t l rp = Some rp'"
  obtains (version) op where "th_pc (rp_threads rp ! t) = TVersion op" "rp' = tgoto rp t (TSync op (get_version_upper_bound l))"
  | (synced) op v where "th_pc (rp_threads rp ! t) = TSync op v" "is_replica_synced_for_reads l n v = Some True"
      "rp' = lgoto rp t (TAcquireRead op) (RLoad t)"
  | (unsynced) op v where "th_pc (rp_threads rp ! t) = TSync op v" "rp' = tgoto rp t (TTryLoad (TryRead op v))"
  | (borrow) op tid v where "th_pc (rp_threads rp ! t) = TAcquireRead op" "th_lock (rp_threads rp ! t) = RHeld tid"
      "rwlock_borrow (rp_data rp) = Some v" "rp' = lgoto rp t (TReleaseRead (dispatch_spec D v op)) (RRelease tid)"
  | (lock) op d lpc where "th_pc (rp_threads rp ! t) = TAcquireRead op"
      "acquire_read_step (rp_data rp) (th_lock (rp_threads rp ! t)) = Some (d, lpc)"
      "rp' = lgoto (rp\<lparr>rp_data := d\<rparr>) t (TAcquireRead op) lpc"
  | (unlock) resp d lpc where "th_pc (rp_threads rp ! t) = TReleaseRead resp"
      "release_read_step (rp_data rp) (th_lock (rp_threads rp ! t)) = Some (d, lpc)"
      "rp' = lgoto (rp\<lparr>rp_data := d\<rparr>) t (TReturn resp) lpc"
proof (cases "th_pc (rp_threads rp ! t)")
  case (TVersion op)
  then show ?thesis using assms version by (simp add: execute_read_step_def)
next
  case (TSync op v)
  then show ?thesis
    using assms synced unsynced by (auto simp: execute_read_step_def split: option.splits if_splits)
next
  case (TAcquireRead op)
  show ?thesis
  proof (cases "\<exists>tid. th_lock (rp_threads rp ! t) = RHeld tid")
    case True
    then show ?thesis using assms TAcquireRead borrow by (auto simp: execute_read_step_def split: option.splits)
  next
    case False
    then have "(case acquire_read_step (rp_data rp) (th_lock (rp_threads rp ! t)) of
        Some (d, lpc') \<Rightarrow> Some (lgoto (rp\<lparr>rp_data := d\<rparr>) t (TAcquireRead op) lpc') | None \<Rightarrow> None) = Some rp'"
      using assms TAcquireRead by (cases "th_lock (rp_threads rp ! t)") (simp_all add: execute_read_step_def)
    then show ?thesis using TAcquireRead lock by (auto split: option.splits)
  qed
next
  case (TReleaseRead resp)
  then show ?thesis using assms unlock by (auto simp: execute_read_step_def split: option.splits)
qed (use assms in \<open>simp_all add: execute_read_step_def\<close>)

lemma lgoto_idle [simp]: "th_lock (rp_threads rp ! t) = LIdle \<Longrightarrow> lgoto rp t pc LIdle = tgoto rp t pc"
  by (cases "rp_threads rp ! t") simp

lemma execute_read_sim:
  assumes rr: "system_replica_rel s n fc rp" and t: "t < MAX_THREADS_PER_REPLICA" and ids: "rids_ok rp"
    and n: "n < length (ns_nodes s)" and step: "execute_read_step D n t (ns_log s) rp = Some rp'"
  shows "replica_sim D s n rp (ns_log s) rp'"
proof -
  let ?th = "rp_threads rp ! t"
  note th = thread_relD [OF replica_relD(11) [OF rr t]]
  have len: "t < length (map th_lock (rp_threads rp))" "map th_lock (rp_threads rp) ! t = th_lock ?th"
    using t replica_relD(3) [OF rr] by simp_all
  have read_step: "\<exists>y x. system_step D s Internal s' \<and> ns_reads s (th_rid ?th) = Some y \<and>
      s' = s\<lparr>ns_reads := (ns_reads s)(th_rid ?th \<mapsto> x)\<rparr>"
    if "system_step D s Internal s'" "s' = s\<lparr>ns_reads := (ns_reads s)(th_rid ?th \<mapsto> x)\<rparr>" "ns_reads s (th_rid ?th) = Some y" for s' x y
    using that by blast
  show ?thesis
    using step
  proof (cases rule: execute_read_cases)
    case (version op)
    note r = read_reqs(1) [OF th(1) [unfolded version(1)]]
    let ?s = "s\<lparr>ns_reads := (ns_reads s)(th_rid ?th \<mapsto> RdVersion op n (get_version_upper_bound (ns_log s)))\<rparr>"
    have "system_step D s Internal ?s" by (rule sys_read_version [OF r]) (simp add: read_version_def)
    from read_step [OF this refl r] show ?thesis
      by (intro reader_sim [OF rr t ids, where s' = ?s and d = "rp_data rp" and lpc = "th_lock ?th"
            and pc = "TSync op (get_version_upper_bound (ns_log s))"]) (use version th in auto)
  next
    case (synced op v)
    note r = read_reqs(2) [OF th(1) [unfolded synced(1)]]
    let ?s = "s\<lparr>ns_reads := (ns_reads s)(th_rid ?th \<mapsto> RdReady op n)\<rparr>"
    have "system_step D s Internal ?s" by (rule sys_read_sync [OF r]) (simp add: read_sync_def synced(2))
    moreover have "rwl_step (rp_data rp, map th_lock (rp_threads rp)) (rp_data rp, (map th_lock (rp_threads rp))[t := RLoad t])"
      using len t th(3) synced(1) replica_relD(5) [OF rr] by (intro rwl_acquire_read_call) simp_all
    ultimately show ?thesis
      by (intro reader_sim [OF rr t ids, where s' = ?s and d = "rp_data rp" and lpc = "RLoad t" and pc = "TAcquireRead op"])
        (use synced th read_step [OF _ refl r] in auto)
  next
    case (unsynced op v)
    show ?thesis
      by (rule reader_sim [OF rr t ids, where s' = s and d = "rp_data rp" and lpc = "th_lock ?th" and pc = "TTryLoad (TryRead op v)"])
        (use unsynced th in auto)
  next
    case (borrow op tid v)
    note r = read_reqs(3) [OF th(1) [unfolded borrow(1)]]
    have v: "v = np_data (ns_nodes s ! n)" using replica_relD(9) [OF rr] borrow(3) by (simp add: rwlock_borrow_def)
    let ?s = "s\<lparr>ns_reads := (ns_reads s)(th_rid ?th \<mapsto> RdDone (dispatch_spec D v op))\<rparr>"
    have "system_step D s Internal ?s"
      using n reader_excludes_combiner [OF rr t borrow(2)] by (intro sys_read_apply [OF r]) (simp add: read_replica_def v)
    moreover have "rwl_step (rp_data rp, map th_lock (rp_threads rp)) (rp_data rp, (map th_lock (rp_threads rp))[t := RRelease tid])"
      using len borrow(2) by (intro rwl_release_read_call) simp_all
    ultimately show ?thesis
      by (intro reader_sim [OF rr t ids, where s' = ?s and d = "rp_data rp" and lpc = "RRelease tid"
            and pc = "TReleaseRead (dispatch_spec D v op)"]) (use borrow th read_step [OF _ refl r] in auto)
  next
    case (lock op d lpc)
    have "rwl_step (rp_data rp, map th_lock (rp_threads rp)) (d, (map th_lock (rp_threads rp))[t := lpc])"
      using len lock(2) by (intro rwl_acquire_read) simp_all
    then show ?thesis
      by (intro reader_sim [OF rr t ids, where s' = s and d = d and lpc = lpc and pc = "TAcquireRead op"])
        (use lock th acquire_read_kept [OF lock(2)] in auto)
  next
    case (unlock resp d lpc)
    have "rwl_step (rp_data rp, map th_lock (rp_threads rp)) (d, (map th_lock (rp_threads rp))[t := lpc])"
      using len unlock(2) by (intro rwl_release_read) simp_all
    then show ?thesis
      by (intro reader_sim [OF rr t ids, where s' = s and d = d and lpc = lpc and pc = "TReturn resp"])
        (use unlock th release_read_kept [OF unlock(2)] in auto)
  qed
qed

section \<open>Steps of the combiner\<close>

lemma combine_sim:
  assumes rr: "system_replica_rel s n fc rp" and t: "t < MAX_THREADS_PER_REPLICA" and ids: "rids_ok rp" and j: "j < MAX_THREADS_PER_REPLICA"
    and rp': "rp_node rp' = ns_nodes s' ! n" "rp_threads rp' = (rp_threads rp)[t := th']" "rp_contexts rp' = (rp_contexts rp)[j := cx']"
    and caller: "\<And>rid cx cl sl u r. client_rel n rid cx cl sl u r (th_pc (rp_threads rp ! t)) = caller_rel n rid cx cl u r k"
      "\<And>rid cx cl sl u r. client_rel n rid cx cl sl u r (th_pc th') = caller_rel n rid cx cl u r k"
    and busy: "th_pc (rp_threads rp ! t) \<noteq> TIdle" "th_pc th' \<noteq> TIdle"
    and th': "th_rid th' = th_rid (rp_threads rp ! t)" "lock_rel (th_pc th') (th_lock th')"
    and fc': "fc' = fc \<or> fc_next fc fc'" "fc_num_threads fc' = fc_num_threads fc" "fc_clients fc' = fc_clients fc"
      "\<And>i. i \<noteq> j \<Longrightarrow> fc_slots fc' i = fc_slots fc i"
    and change: "context_step fc fc' j (th_rid (rp_threads rp ! j)) (rp_contexts rp ! j) cx'
        (ns_updates s (th_rid (rp_threads rp ! j))) (ns_updates s' (th_rid (rp_threads rp ! j)))"
    and s': "s' = s \<or> system_step D s Internal s'" "ns_log s' = l'" "length (ns_nodes s') = length (ns_nodes s)"
      "\<And>m. m \<noteq> n \<Longrightarrow> ns_nodes s' ! m = ns_nodes s ! m" "ns_reads s' = ns_reads s"
      "ns_updates s' = ns_updates s \<or> (\<exists>x. in_progress_at fc j \<and> ns_updates s' = (ns_updates s)(th_rid (rp_threads rp ! j) \<mapsto> x))"
    and lock: "length (rl_ref_counts (rp_data rp')) = MAX_THREADS_PER_REPLICA" "rl_user_inv (rp_data rp') = UNIV"
      "rwl_reachable (rp_data rp', (map th_lock (rp_threads rp))[t := th_lock th'])"
      "\<And>d. rl_data (rp_data rp') = Some d \<Longrightarrow> d = np_data (ns_nodes s' ! n)"
    and comb: "combiner_rel (ns_updates s') fc' (ns_nodes s' ! n) rp'"
  shows "replica_sim D s n rp l' rp'"
proof -
  have len: "length (rp_threads rp) = MAX_THREADS_PER_REPLICA" by (rule replica_relD(3) [OF rr])
  have busy_j: "th_pc (rp_threads rp ! j) \<noteq> TIdle" if "in_progress_at fc j" by (rule in_progress_not_idle [OF rr j that])
  have ups_j: "ns_updates s (th_rid (rp_threads rp ! j)) \<noteq> None" if "in_progress_at fc j"
    using thread_relD(2) [OF replica_relD(11) [OF rr j]] that by (auto simp: in_progress_at_def)
  have fc_reach: "fc_reachable MAX_THREADS_PER_REPLICA fc'" using fc'(1) replica_relD(7) [OF rr] by (auto intro: fc_reachable_step)
  have reqs: "ns_updates s' (th_rid (rp_threads rp ! i)) = ns_updates s (th_rid (rp_threads rp ! i))"
    if i: "i < MAX_THREADS_PER_REPLICA" "i \<noteq> j" "th_pc (rp_threads rp ! i) \<noteq> TIdle" for i
  proof (cases "in_progress_at fc j")
    case True
    then have "th_rid (rp_threads rp ! i) \<noteq> th_rid (rp_threads rp ! j)"
      using ids i j busy_j len unfolding rids_ok_def by metis
    then show ?thesis using s'(6) by auto
  qed (use s'(6) in simp)
  have rel: "replica_rel (ns_updates s') (ns_reads s') (ns_nodes s' ! n) n fc' rp'"
    unfolding s'(5) by (rule replica_rel_combine [OF rr t j rp' caller th' fc_reach fc'(2-4) change reqs lock comb])
  have "th_rid (rp_threads rp ! j) \<in> thread_rids rp" if "in_progress_at fc j"
    using j len busy_j [OF that] by (auto simp: thread_rids_def)
  moreover have "dom (ns_updates s') = dom (ns_updates s)"
    using s'(6) ups_j by (elim disjE exE conjE) (simp_all add: insert_absorb domIff)
  ultimately have "requests_kept rp s s'" using s'(5,6) by (auto simp: requests_kept_def)
  then show ?thesis
    using rel s'(1-4) threads_keptI [of t rp rp' th'] t len rp'(2) th'(1) busy
    unfolding replica_sim_def by (intro conjI exI [of _ s'] exI [of _ fc']) auto
qed

lemma combiner_step_rel:
  assumes "t < MAX_THREADS_PER_REPLICA" "length (rp_threads rp) = MAX_THREADS_PER_REPLICA"
    and "\<And>i. i < MAX_THREADS_PER_REPLICA \<Longrightarrow> i \<noteq> t \<Longrightarrow> \<not> combining (th_pc (rp_threads rp ! i))"
    and "rp_threads rp' = (rp_threads rp)[t := th']" "th_rid th' = th_rid (rp_threads rp ! t)"
    and "combining (th_pc th')" "rp_combiner rp' \<noteq> 0"
    and "combine_rel (fc_combiner fc') (rp_num_ops rp') p' (rl_data (rp_data rp')) (th_lock th') (nth (rp_contexts rp'))
      (\<lambda>i. ups' (th_rid (rp_threads rp ! i))) (th_pc th')"
  shows "combiner_rel ups' fc' p' rp'"
proof (rule combinerI [OF assms(1)])
  have "th_rid (rp_threads rp' ! i) = th_rid (rp_threads rp ! i)" for i
    using assms(1,2,4,5) by (cases "i = t") simp_all
  then show "combine_rel (fc_combiner fc') (rp_num_ops rp') p' (rl_data (rp_data rp')) (th_lock (rp_threads rp' ! t))
      (nth (rp_contexts rp')) (\<lambda>i. ups' (th_rid (rp_threads rp' ! i))) (th_pc (rp_threads rp' ! t))"
    using assms(1,2,4,8) by simp
qed (use assms(1-7) in simp_all)

lemma not_combining_others:
  "combiner_rel ups fc p rp \<Longrightarrow> t < MAX_THREADS_PER_REPLICA \<Longrightarrow> combining (th_pc (rp_threads rp ! t)) \<Longrightarrow>
   i < MAX_THREADS_PER_REPLICA \<Longrightarrow> i \<noteq> t \<Longrightarrow> \<not> combining (th_pc (rp_threads rp ! i))"
  using combinerD(2) by blast

lemma acquire_combiner_lock_sim:
  assumes rr: "system_replica_rel s n fc rp" and t: "t < MAX_THREADS_PER_REPLICA" and ids: "rids_ok rp"
    and n: "n < length (ns_nodes s)" and step: "acquire_combiner_lock_step t rp = Some rp'"
  shows "replica_sim D s n rp (ns_log s) rp'"
proof -
  let ?th = "rp_threads rp ! t" and ?cx = "rp_contexts rp ! t" and ?p = "ns_nodes s ! n"
  note th = thread_relD [OF replica_relD(11) [OF rr t]] and r = replica_relD [OF rr]
  obtain x where x: "fc_slots fc t = Some x" "slot_rel (th_rid ?th) ?cx (ns_updates s (th_rid ?th)) x" using th(2) by blast
  consider (leave) k pc where "th_pc ?th = TTryLoad k \<or> th_pc ?th = TTryCas k" "pc = try_return k \<or> pc = TTryCas k" "rp' = tgoto rp t pc"
    | (enter) k p where "th_pc ?th = TTryCas k" "rp_combiner rp = 0" "combine_begin ?p = Some p"
        "rp' = tgoto (rp\<lparr>rp_combiner := 2, rp_node := p\<rparr>) t (TCollect k 0)"
    using step r(1) by (auto simp: acquire_combiner_lock_step_def split: ThreadPc.splits option.splits if_splits)
  then show ?thesis
  proof cases
    case leave
    have "client_rel n (th_rid ?th) ?cx (fc_clients fc t) (Some x) (ns_updates s (th_rid ?th)) (ns_reads s (th_rid ?th)) pc"
      using leave(1,2) th(1) by (auto simp: client_rel_try_return)
    moreover have "th_lock ?th = LIdle" using leave(1) th(3) by auto
    then have "\<not> combining pc" "pc \<noteq> TIdle" "lock_rel pc (th_lock ?th)" using leave(2) by (elim disjE, simp_all)+
    ultimately show ?thesis
      by (intro client_sim_stay [OF rr t ids, where fc' = fc and x = x and cx' = ?cx and pc = pc]) (use leave(1,3) x in auto)
  next
    case enter
    note free = combinerD_free [OF r(10) enter(2)]
    have p: "p = goto ?p NCollect" using enter(3) by (simp add: combine_begin_def split: NodePc.splits)
    let ?s = "set_node s n p" and ?th' = "?th\<lparr>th_pc := TCollect k 0\<rparr>"
    have "system_step D s Internal ?s" by (rule sys_combine_begin [OF n enter(3)])
    moreover have "combiner_rel (ns_updates s) fc p rp'"
      by (rule combiner_step_rel [OF t r(3) free(2), of rp' ?th'])
        (use free(1) enter(4) p in \<open>simp_all add: combiner_free_def collected_def\<close>)
    ultimately show ?thesis
      by (intro combine_sim [OF rr t ids t, where s' = ?s and th' = ?th' and cx' = ?cx and k = k and fc' = fc])
        (use enter(1,4) th n r(5,6,8,9) t p in \<open>auto simp: context_step_same lock_same r(3)\<close>)
  qed
qed

end
