(* ===== verification/NR_Exec_Collect.thy ===== *)
theory NR_Exec_Collect
  imports NR_Exec_Threads_Steps
begin

text \<open>
  The steps of the combiner outside of the log: collecting the operations from the contexts,
  taking and releasing the lock on the data, and delivering the responses.
\<close>

section \<open>Collecting\<close>

lemma collecting_length:
  assumes "system_replica_rel s n fc rp" "fc_combiner fc = FCCollecting elems"
  shows "length elems \<le> MAX_THREADS_PER_REPLICA"
  using fc_okD(6) [OF replica_fc_ok [OF assms(1)]] replica_relD(4) [OF assms(1)] assms(2)
  by (simp add: fc_inv_combiner_elements_def)

lemma collect_load_sim:
  assumes rr: "system_replica_rel s n fc rp" and t: "t < MAX_THREADS_PER_REPLICA" and ids: "rids_ok rp"
    and pc: "th_pc (rp_threads rp ! t) = TCollect k idx" and idx: "idx < MAX_THREADS_PER_REPLICA"
    and rp': "rp' = (if cx_atomic (rp_contexts rp ! idx) = 1 then tgoto rp t (TCollectOp k idx)
      else tgoto (rp\<lparr>rp_num_ops := rp_num_ops rp @ [cx_atomic (rp_contexts rp ! idx)]\<rparr>) t (TCollect k (idx + 1)))"
  shows "replica_sim D s n rp (ns_log s) rp'"
proof -
  let ?th = "rp_threads rp ! t" and ?cx = "rp_contexts rp ! idx" and ?rid = "th_rid (rp_threads rp ! idx)"
  note r = replica_relD [OF rr] and th = thread_relD [OF replica_relD(11) [OF rr t]]
  have lt: "t < length (rp_threads rp)" using t r(3) by simp
  have c: "combining (th_pc ?th)" by (simp add: pc)
  note others = not_combining_others [OF r(10) t c]
  obtain elems where e: "fc_combiner fc = FCCollecting elems" "length elems = idx" "collected elems (rp_num_ops rp) (ns_nodes s ! n)"
      "np_pc (ns_nodes s ! n) = NCollect"
    using combinerD(3) [OF r(10) t c] by (auto simp: pc)
  obtain x where x: "fc_slots fc idx = Some x" "slot_rel ?rid ?cx (ns_updates s ?rid) x"
    using thread_relD(2) [OF r(11) [OF idx]] by blast
  have progress: "\<not> is_InProgress x" using pre_combiner_collect_request [OF replica_fc_ok [OF rr] e(1)] x(1) e(2) by simp
  show ?thesis
  proof (cases "cx_atomic ?cx = 1")
    case True
    then have req: "x = SlotRequest ?rid" using x(2) progress by (cases x) auto
    let ?fc = "fc\<lparr>fc_slots := (fc_slots fc)(idx \<mapsto> SlotInProgress ?rid), fc_combiner := FCCollecting (elems @ [Some ?rid])\<rparr>"
    have "fc_next fc ?fc"
      by (rule fc_next_collect_request) (use e(1,2) x(1) req in \<open>simp add: combiner_collect_request_def\<close>)
    moreover have "context_step fc ?fc idx ?rid ?cx ?cx (ns_updates s ?rid) (ns_updates s ?rid)"
      using busy_slot_client [OF rr idx x(1)] x(2) req unfolding context_step_def by auto
    moreover have "combiner_rel (ns_updates s) ?fc (ns_nodes s ! n) rp'"
      by (rule combiner_step_rel [OF t r(3) others, of rp' "?th\<lparr>th_pc := TCollectOp k idx\<rparr>"])
        (use rp' True e idx x(2) req combinerD(1) [OF r(10) t c] in auto)
    ultimately show ?thesis
      by (intro combine_sim [OF rr t ids idx, where s' = s and th' = "?th\<lparr>th_pc := TCollectOp k idx\<rparr>" and cx' = ?cx
            and k = k and fc' = ?fc]) (use rp' True pc th r lt in \<open>auto simp: lock_same\<close>)
  next
    case False
    then have zero: "x = SlotEmpty \<or> x = SlotResponse ?rid" "cx_atomic ?cx = 0" using x(2) progress by (cases x; auto)+
    let ?fc = "fc\<lparr>fc_combiner := FCCollecting (elems @ [None])\<rparr>"
    have "fc_next fc ?fc"
      by (rule fc_next_collect_empty) (use e(1,2) x(1) zero(1) in \<open>auto simp: combiner_collect_empty_def\<close>)
    moreover have "combiner_rel (ns_updates s) ?fc (ns_nodes s ! n) rp'"
      by (rule combiner_step_rel [OF t r(3) others, of rp' "?th\<lparr>th_pc := TCollect k (idx + 1)\<rparr>"])
        (use rp' False e zero(2) combinerD(1) [OF r(10) t c] in \<open>auto simp: collected_def\<close>)
    ultimately show ?thesis
      by (intro combine_sim [OF rr t ids t, where s' = s and th' = "?th\<lparr>th_pc := TCollect k (idx + 1)\<rparr>"
            and cx' = "rp_contexts rp ! t" and k = k and fc' = ?fc])
        (use rp' False pc th r lt in \<open>auto simp: lock_same context_step_same\<close>)
  qed
qed

lemma collect_end_sim:
  assumes rr: "system_replica_rel s n fc rp" and t: "t < MAX_THREADS_PER_REPLICA" and ids: "rids_ok rp"
    and pc: "th_pc (rp_threads rp ! t) = TCollect k idx" and idx: "MAX_THREADS_PER_REPLICA \<le> idx"
    and rp': "rp' = lgoto rp t (TAcquireWrite k) WAcquire"
  shows "replica_sim D s n rp (ns_log s) rp'"
proof -
  let ?th = "rp_threads rp ! t" and ?th' = "(rp_threads rp ! t)\<lparr>th_pc := TAcquireWrite k, th_lock := WAcquire\<rparr>"
  note r = replica_relD [OF rr] and th = thread_relD [OF replica_relD(11) [OF rr t]]
  have lt: "t < length (map th_lock (rp_threads rp))" "map th_lock (rp_threads rp) ! t = th_lock ?th" using t r(3) by simp_all
  have c: "combining (th_pc ?th)" by (simp add: pc)
  note others = not_combining_others [OF r(10) t c]
  obtain elems where e: "fc_combiner fc = FCCollecting elems" "length elems = idx" "collected elems (rp_num_ops rp) (ns_nodes s ! n)"
      "np_pc (ns_nodes s ! n) = NCollect"
    using combinerD(3) [OF r(10) t c] by (auto simp: pc)
  have len: "length elems = MAX_THREADS_PER_REPLICA" using collecting_length [OF rr e(1)] e(2) idx by simp
  let ?fc = "fc\<lparr>fc_combiner := FCResponding elems 0\<rparr>"
  have "fc_next fc ?fc"
    by (rule fc_next_responding_start) (use e(1) len r(4) in \<open>simp add: combiner_responding_start_def\<close>)
  moreover have "combiner_rel (ns_updates s) ?fc (ns_nodes s ! n) rp'"
    by (rule combiner_step_rel [OF t r(3) others, of rp' ?th'])
      (use rp' e len combinerD(1) [OF r(10) t c] in \<open>auto simp: all_collected_def\<close>)
  moreover have "rwl_step (rp_data rp, map th_lock (rp_threads rp)) (rp_data rp, (map th_lock (rp_threads rp))[t := WAcquire])"
    using lt th(3) pc by (intro rwl_acquire_write_call) simp_all
  then have "rwl_reachable (rp_data rp, (map th_lock (rp_threads rp))[t := WAcquire])" by (rule rwl_reachable_step [OF r(8)])
  ultimately show ?thesis
    by (intro combine_sim [OF rr t ids t, where s' = s and th' = ?th' and cx' = "rp_contexts rp ! t" and k = k and fc' = ?fc])
      (use rp' pc th r lt in \<open>auto simp: context_step_same\<close>)
qed

lemma collect_op_sim:
  assumes rr: "system_replica_rel s n fc rp" and t: "t < MAX_THREADS_PER_REPLICA" and ids: "rids_ok rp" and n: "n < length (ns_nodes s)"
    and pc: "th_pc (rp_threads rp ! t) = TCollectOp k idx"
    and cx: "cx_batch (rp_contexts rp ! idx) = Some po" "cx_update (rp_contexts rp ! idx) = Some rid"
    and p: "combine_collect rid (po_op po) (ns_nodes s ! n) = Some p"
    and rp': "rp' = tgoto (set_context (rp\<lparr>rp_node := p, rp_num_ops := rp_num_ops rp @ [1]\<rparr>) idx
      ((rp_contexts rp ! idx)\<lparr>cx_update := None\<rparr>)) t (TCollect k (idx + 1))"
  shows "replica_sim D s n rp (ns_log s) rp'"
proof -
  let ?th = "rp_threads rp ! t" and ?cx = "rp_contexts rp ! idx" and ?rid = "th_rid (rp_threads rp ! idx)"
    and ?th' = "(rp_threads rp ! t)\<lparr>th_pc := TCollect k (idx + 1)\<rparr>"
  note r = replica_relD [OF rr] and th = thread_relD [OF replica_relD(11) [OF rr t]]
  have lt: "t < length (rp_threads rp)" using t r(3) by simp
  have c: "combining (th_pc ?th)" by (simp add: pc)
  note others = not_combining_others [OF r(10) t c]
  obtain elems where e: "fc_combiner fc = FCCollecting (elems @ [Some rid])" "length elems = idx"
      "collected elems (rp_num_ops rp) (ns_nodes s ! n)" "ns_updates s ?rid = Some (UpPending (po_op po))"
    and idx: "idx < MAX_THREADS_PER_REPLICA"
    using combinerD(3) [OF r(10) t c] cx by (auto simp: pc)
  have slot: "fc_slots fc idx = Some (SlotInProgress rid)" using collecting_in_progress [OF replica_fc_ok [OF rr] e(1)] e(2) by simp
  have rid: "rid = ?rid" "cx_atomic ?cx = 1" using thread_relD(2) [OF r(11) [OF idx]] slot by auto
  let ?s = "(set_node s n p)\<lparr>ns_updates := (ns_updates s)(rid \<mapsto> UpTaken n (length (np_rids (ns_nodes s ! n))))\<rparr>"
  have step: "system_step D s Internal ?s" by (rule sys_combine_collect [OF n _ p]) (use e(4) rid(1) in simp)
  have p': "p = (ns_nodes s ! n)\<lparr>np_ops := np_ops (ns_nodes s ! n) @ [po_op po], np_rids := np_rids (ns_nodes s ! n) @ [rid]\<rparr>"
      "np_pc (ns_nodes s ! n) = NCollect"
    using p by (simp_all add: combine_collect_def split: NodePc.splits if_splits)
  have "context_step fc fc idx ?rid ?cx (?cx\<lparr>cx_update := None\<rparr>) (ns_updates s ?rid) (ns_updates ?s ?rid)"
    using busy_slot_client [OF rr idx slot] slot rid cx(1) unfolding context_step_def by auto
  moreover have "combiner_rel (ns_updates ?s) fc p rp'"
    by (rule combiner_step_rel [OF t r(3) others, of rp' ?th'])
      (use rp' e p' combinerD(1) [OF r(10) t c] in \<open>auto simp: collected_def\<close>)
  ultimately show ?thesis
    by (intro combine_sim [OF rr t ids idx, where s' = ?s and th' = ?th' and cx' = "?cx\<lparr>cx_update := None\<rparr>" and k = k and fc' = fc])
      (use rp' pc th r lt n step slot rid(1) p'(1) in \<open>auto simp: lock_same in_progress_at_def\<close>)
qed

lemma collect_thread_ops_sim:
  assumes rr: "system_replica_rel s n fc rp" and t: "t < MAX_THREADS_PER_REPLICA" and ids: "rids_ok rp" and n: "n < length (ns_nodes s)"
    and step: "collect_thread_ops_step t rp = Some rp'"
  shows "replica_sim D s n rp (ns_log s) rp'"
proof (cases "th_pc (rp_threads rp ! t)")
  case (TCollect k idx)
  show ?thesis
  proof (cases "idx < MAX_THREADS_PER_REPLICA")
    case True
    then show ?thesis
      using step replica_relD(2) [OF rr] TCollect
      by (intro collect_load_sim [OF rr t ids TCollect True]) (simp add: collect_thread_ops_step_def nth_opt_def split: if_splits)
  next
    case False
    then show ?thesis
      using step TCollect by (intro collect_end_sim [OF rr t ids TCollect]) (simp_all add: collect_thread_ops_step_def)
  qed
next
  case (TCollectOp k idx)
  then obtain po rid p where "cx_batch (rp_contexts rp ! idx) = Some po" "cx_update (rp_contexts rp ! idx) = Some rid"
      "combine_collect rid (po_op po) (ns_nodes s ! n) = Some p"
      "rp' = tgoto (set_context (rp\<lparr>rp_node := p, rp_num_ops := rp_num_ops rp @ [1]\<rparr>) idx
        ((rp_contexts rp ! idx)\<lparr>cx_update := None\<rparr>)) t (TCollect k (idx + 1))"
    using step replica_relD(1) [OF rr]
    by (auto simp: collect_thread_ops_step_def nth_opt_def split: option.splits if_splits)
  then show ?thesis by (rule collect_op_sim [OF rr t ids n TCollectOp])
qed (use step in \<open>simp_all add: collect_thread_ops_step_def\<close>)

section \<open>In the log, with the lock on the data\<close>

lemma log_pcs_hold [simp]:
  "holds_data_lock (append_loop nops t i adv)" "holds_data_lock (min_loop N i m gh gt)"
  "holds_data_lock (execute_loop k lv gt)" "holds_data_lock (execute_return k)"
  by (simp_all add: append_loop_def min_loop_def execute_loop_def execute_return_def holds_data_lock_def split: ExecCaller.split)

lemma append_step_keeps:
  "append_step n weak l p = Some (l', p') \<Longrightarrow> np_rids p' = np_rids p \<and> holds_data_lock (np_pc p')"
  by (cases "np_pc p")
    (auto simp: append_step_def holds_data_lock_def [of "ALoadHead _"] holds_data_lock_def [of "ELoadLocal _"]
      holds_data_lock_def [of "ACas _ _ _"] holds_data_lock_def [of APanic] holds_data_lock_def [of ALoadTail]
      holds_data_lock_def [of "AFlip _ _ _"] split: option.splits if_splits)

lemma find_min_step_keeps:
  "find_min_local_version_step l p = Some (l', p') \<Longrightarrow> np_rids p' = np_rids p \<and> holds_data_lock (np_pc p')"
  by (cases "np_pc p") (auto simp: find_min_local_version_step_def split: option.splits)

lemma advance_head_step_keeps:
  "advance_head_step l p = Some (l', p') \<Longrightarrow> np_rids p' = np_rids p \<and> holds_data_lock (np_pc p')"
  by (cases "np_pc p")
    (auto simp: advance_head_step_def holds_data_lock_def [of "HLoadTail _"] holds_data_lock_def [of "HMinFirst _ _"]
      holds_data_lock_def [of "ELoadLocal _"] split: option.splits)

lemma execute_step_keeps:
  "execute_step D n l p = Some (l', p') \<Longrightarrow> np_rids p' = np_rids p \<and> holds_data_lock (np_pc p')"
  by (cases "np_pc p")
    (auto simp: execute_step_def holds_data_lock_def [of "ELoadTail _ _"] holds_data_lock_def [of "ERead _ _ _"]
      holds_data_lock_def [of "EAlive _ _ _"] holds_data_lock_def [of "EStore _ _"] split: option.splits prod.splits if_splits)

lemma node_step_keeps:
  "node_step D n weak l p = Some (l', p') \<Longrightarrow> np_rids p' = np_rids p \<and> holds_data_lock (np_pc p')"
  using append_step_keeps find_min_step_keeps advance_head_step_keeps execute_step_keeps
  unfolding node_step_def by (fastforce split: if_splits)

lemma acquire_write_kept:
  assumes "acquire_write_step d lpc = Some (d', lpc')"
  shows "length (rl_ref_counts d') = length (rl_ref_counts d)" "rl_user_inv d' = rl_user_inv d"
    "lpc' = WHeld v \<Longrightarrow> rl_data d = Some v \<and> rl_data d' = None"
    "(\<forall>v. lpc' \<noteq> WHeld v) \<Longrightarrow> rl_data d' = rl_data d \<and> (lpc' = WAcquire \<or> (\<exists>idx. lpc' = WWait idx))"
  using assms by (auto simp: acquire_write_step_def split: RwPc.splits option.splits if_splits)

lemma all_collected_node:
  "all_collected fcs idx ops p \<Longrightarrow> np_rids p' = np_rids p \<Longrightarrow> all_collected fcs idx ops p'"
  by (auto simp: all_collected_def collected_def)

text \<open>Steps of the combiner between the two passes over the contexts: only the lock and the node move.\<close>

lemma data_sim:
  assumes rr: "system_replica_rel s n fc rp" and t: "t < MAX_THREADS_PER_REPLICA" and ids: "rids_ok rp"
    and pc: "pc_in_data (th_pc (rp_threads rp ! t))" "combining pc" "caller_of pc = caller_of (th_pc (rp_threads rp ! t))"
    and rp': "rp' = lgoto (rp\<lparr>rp_data := d, rp_node := p\<rparr>) t pc lpc" and lock: "lock_rel pc lpc"
      "d = rp_data rp \<and> lpc = th_lock (rp_threads rp ! t) \<or>
        rwl_step (rp_data rp, map th_lock (rp_threads rp)) (d, (map th_lock (rp_threads rp))[t := lpc])"
      "length (rl_ref_counts d) = length (rl_ref_counts (rp_data rp))" "rl_user_inv d = rl_user_inv (rp_data rp)"
      "\<And>v. rl_data d = Some v \<Longrightarrow> v = np_data p"
    and s': "s' = s \<or> system_step D s Internal s'" "ns_log s' = l'" "length (ns_nodes s') = length (ns_nodes s)"
      "\<And>m. m \<noteq> n \<Longrightarrow> ns_nodes s' ! m = ns_nodes s ! m" "ns_nodes s' ! n = p" "ns_reads s' = ns_reads s" "ns_updates s' = ns_updates s"
    and comb: "combine_rel (fc_combiner fc) (rp_num_ops rp) p (rl_data d) lpc (nth (rp_contexts rp))
      (\<lambda>i. ns_updates s (th_rid (rp_threads rp ! i))) pc"
  shows "replica_sim D s n rp l' rp'"
proof -
  let ?th = "rp_threads rp ! t" and ?th' = "(rp_threads rp ! t)\<lparr>th_pc := pc, th_lock := lpc\<rparr>"
  note r = replica_relD [OF rr]
  have lt: "t < length (rp_threads rp)" using t r(3) by simp
  have c: "combining (th_pc ?th)" using pc(1) by (cases "th_pc ?th") simp_all
  then have busy: "th_pc ?th \<noteq> TIdle" "pc \<noteq> TIdle" using pc(2) by auto
  have "combiner_rel (ns_updates s) fc p rp'"
    by (rule combiner_step_rel [OF t r(3) not_combining_others [OF r(10) t c], of rp' ?th'])
      (use rp' comb pc(2) combinerD(1) [OF r(10) t c] in simp_all)
  moreover have "rwl_reachable (d, (map th_lock (rp_threads rp))[t := lpc])"
    using lock(2) r(8) rwl_reachable_step [OF r(8)] lt by (auto simp: lock_same)
  ultimately show ?thesis
    by (intro combine_sim [OF rr t ids t, where s' = s' and th' = ?th' and cx' = "rp_contexts rp ! t"
          and k = "caller_of (th_pc ?th)" and fc' = fc])
      (use rp' r(5,6) lock s' busy pc c in \<open>simp_all add: context_step_same client_rel_combining\<close>)
qed

lemma acquire_write_sim:
  assumes rr: "system_replica_rel s n fc rp" and t: "t < MAX_THREADS_PER_REPLICA" and ids: "rids_ok rp" and n: "n < length (ns_nodes s)"
    and pc: "th_pc (rp_threads rp ! t) = TAcquireWrite k" and step: "combine_step D n t weak (ns_log s) rp = Some (l', rp')"
  shows "replica_sim D s n rp l' rp'"
proof -
  let ?th = "rp_threads rp ! t" and ?p = "ns_nodes s ! n"
  note r = replica_relD [OF rr]
  have len: "t < length (map th_lock (rp_threads rp))" "map th_lock (rp_threads rp) ! t = th_lock ?th" using t r(3) by simp_all
  have c: "combining (th_pc ?th)" by (simp add: pc)
  have rel: "all_collected (fc_combiner fc) 0 (rp_num_ops rp) ?p" "np_pc ?p = NCollect"
    using combinerD(3) [OF r(10) t c] by (simp_all add: pc)
  obtain d lpc where a: "acquire_write_step (rp_data rp) (th_lock ?th) = Some (d, lpc)"
    using step pc by (auto simp: combine_step_def split: option.splits)
  note kept = acquire_write_kept [OF a]
  have rwl: "rwl_step (rp_data rp, map th_lock (rp_threads rp)) (d, (map th_lock (rp_threads rp))[t := lpc])"
    using len a by (intro rwl_acquire_write) simp_all
  show ?thesis
  proof (cases "\<exists>v. lpc = WHeld v")
    case True
    then obtain v where v: "lpc = WHeld v" by blast
    then obtain p where p: "combine_lock ?p = Some p" "l' = ns_log s"
        "rp' = lgoto (rp\<lparr>rp_data := d, rp_node := p\<lparr>np_data := v\<rparr>\<rparr>) t (TCombine k) (WHeld v)"
      using step pc a r(1) by (auto simp: combine_step_def split: option.splits)
    have p': "p = goto ?p ALoadTail" using p(1) by (simp add: combine_lock_def split: NodePc.splits)
    have data: "v = np_data p" using r(9) kept(3) [OF v] by (simp add: p')
    have node: "p\<lparr>np_data := v\<rparr> = p" by (simp add: data)
    have "system_step D s Internal (set_node s n p)" by (rule sys_combine_lock [OF n p(1)])
    then show ?thesis
      by (intro data_sim [OF rr t ids, where s' = "set_node s n p" and p = p and d = d and lpc = lpc and pc = "TCombine k"])
        (use p(2,3) node n pc kept v rwl rel p' in \<open>auto simp: holds_data_lock_def intro: all_collected_node\<close>)
  next
    case False
    then have *: "l' = ns_log s" "rp' = lgoto (rp\<lparr>rp_data := d\<rparr>) t (TAcquireWrite k) lpc"
      using step pc a by (auto simp: combine_step_def split: RwPc.splits)
    have same: "rp\<lparr>rp_data := d, rp_node := ?p\<rparr> = rp\<lparr>rp_data := d\<rparr>" using r(1) by (cases rp) simp
    show ?thesis
      by (rule data_sim [OF rr t ids, where s' = s and p = ?p and d = d and lpc = lpc and pc = "TAcquireWrite k"])
        (use * same pc kept False rwl rel r(9) in auto)
  qed
qed

lemma combine_log_sim:
  assumes rr: "system_replica_rel s n fc rp" and t: "t < MAX_THREADS_PER_REPLICA" and ids: "rids_ok rp" and n: "n < length (ns_nodes s)"
    and pc: "th_pc (rp_threads rp ! t) = TCombine k" and step: "combine_step D n t weak (ns_log s) rp = Some (l', rp')"
  shows "replica_sim D s n rp l' rp'"
proof -
  let ?th = "rp_threads rp ! t" and ?p = "ns_nodes s ! n"
  note r = replica_relD [OF rr] and th = thread_relD [OF replica_relD(11) [OF rr t]]
  have len: "t < length (map th_lock (rp_threads rp))" "map th_lock (rp_threads rp) ! t = th_lock ?th" using t r(3) by simp_all
  have c: "combining (th_pc ?th)" by (simp add: pc)
  have rel: "all_collected (fc_combiner fc) 0 (rp_num_ops rp) ?p" "rl_data (rp_data rp) = None"
    using combinerD(3) [OF r(10) t c] by (simp_all add: pc)
  obtain v where v: "th_lock ?th = WHeld v" using th(3) pc by auto
  show ?thesis
  proof (cases "np_pc ?p = NRelease")
    case True
    then have *: "l' = ns_log s" "rp' = lgoto rp t (TReleaseWrite k) (WPut (np_data ?p))"
      using step pc r(1) by (simp_all add: combine_step_def)
    have same: "rp\<lparr>rp_data := rp_data rp, rp_node := ?p\<rparr> = rp" using r(1) by (cases rp) simp
    have "rwl_step (rp_data rp, map th_lock (rp_threads rp)) (rp_data rp, (map th_lock (rp_threads rp))[t := WPut (np_data ?p)])"
      using len v r(6) by (intro rwl_release_write_call [of _ _ v]) simp_all
    then show ?thesis
      by (intro data_sim [OF rr t ids, where s' = s and p = ?p and d = "rp_data rp" and lpc = "WPut (np_data ?p)"
            and pc = "TReleaseWrite k"]) (use * same pc rel True r(9) in auto)
  next
    case False
    then obtain p where p: "node_step D n weak (ns_log s) ?p = Some (l', p)" "rp' = rp\<lparr>rp_node := p\<rparr>"
      using step pc r(1) by (auto simp: combine_step_def split: option.splits)
    let ?s = "(set_node s n p)\<lparr>ns_log := l'\<rparr>"
    have sys: "system_step D s Internal ?s" by (rule sys_node [OF n p(1)])
    have same: "rp' = lgoto (rp\<lparr>rp_data := rp_data rp, rp_node := p\<rparr>) t (TCombine k) (th_lock ?th)"
    proof -
      have "?th\<lparr>th_pc := TCombine k, th_lock := th_lock ?th\<rparr> = ?th" using pc by (cases ?th) simp
      then show ?thesis using len(1) by (simp add: p(2))
    qed
    show ?thesis
      by (rule data_sim [OF rr t ids, where s' = ?s and p = p and d = "rp_data rp" and lpc = "th_lock ?th" and pc = "TCombine k"])
        (use same pc rel node_step_keeps [OF p(1)] sys n v in \<open>auto intro: all_collected_node\<close>)
  qed
qed

lemma release_write_kept:
  assumes "release_write_step d lpc = Some (d', lpc')"
  shows "length (rl_ref_counts d') = length (rl_ref_counts d)" "rl_user_inv d' = rl_user_inv d"
    "lpc = WPut v \<Longrightarrow> rl_data d' = Some v \<and> lpc' = WUnlock" "lpc = WUnlock \<Longrightarrow> rl_data d' = rl_data d \<and> lpc' = LIdle"
  using assms by (auto simp: release_write_step_def split: RwPc.splits)

lemma release_write_sim:
  assumes rr: "system_replica_rel s n fc rp" and t: "t < MAX_THREADS_PER_REPLICA" and ids: "rids_ok rp" and n: "n < length (ns_nodes s)"
    and pc: "th_pc (rp_threads rp ! t) = TReleaseWrite k" and step: "combine_step D n t weak (ns_log s) rp = Some (l', rp')"
  shows "replica_sim D s n rp l' rp'"
proof -
  let ?th = "rp_threads rp ! t" and ?p = "ns_nodes s ! n"
  note r = replica_relD [OF rr]
  have len: "t < length (map th_lock (rp_threads rp))" "map th_lock (rp_threads rp) ! t = th_lock ?th" using t r(3) by simp_all
  have c: "combining (th_pc ?th)" by (simp add: pc)
  have rel: "all_collected (fc_combiner fc) 0 (rp_num_ops rp) ?p" "np_pc ?p = NRelease"
      "th_lock ?th = WPut (np_data ?p) \<or> th_lock ?th = WUnlock"
    using combinerD(3) [OF r(10) t c] by (simp_all add: pc)
  obtain d lpc where a: "release_write_step (rp_data rp) (th_lock ?th) = Some (d, lpc)"
    using step pc by (auto simp: combine_step_def split: option.splits)
  note kept = release_write_kept [OF a]
  have rwl: "rwl_step (rp_data rp, map th_lock (rp_threads rp)) (d, (map th_lock (rp_threads rp))[t := lpc])"
    using len a by (intro rwl_release_write) simp_all
  show ?thesis
  proof (cases "th_lock ?th = WUnlock")
    case True
    note k = kept(4) [OF True]
    obtain p where p: "combine_unlock ?p = Some p" "l' = ns_log s"
        "rp' = lgoto (rp\<lparr>rp_data := d, rp_node := p\<rparr>) t (TDistribute k 0) LIdle"
      using step pc a k r(1) by (auto simp: combine_step_def split: option.splits)
    have p': "p = goto ?p (NRespond 0)" using p(1) by (simp add: combine_unlock_def split: NodePc.splits)
    have "responding (fc_combiner fc) 0 p" using rel(1) by (auto simp: all_collected_def responding_def p')
    moreover have "system_step D s Internal (set_node s n p)" by (rule sys_combine_unlock [OF n p(1)])
    ultimately show ?thesis
      by (intro data_sim [OF rr t ids, where s' = "set_node s n p" and p = p and d = d and lpc = LIdle and pc = "TDistribute k 0"])
        (use p(2,3) n pc kept k rwl rel(1) p' r(9) in \<open>auto intro: all_collected_node\<close>)
  next
    case False
    then have put: "th_lock ?th = WPut (np_data ?p)" using rel(3) by simp
    note k = kept(3) [OF put]
    have *: "l' = ns_log s" "rp' = lgoto (rp\<lparr>rp_data := d\<rparr>) t (TReleaseWrite k) WUnlock"
      using step pc a k by (auto simp: combine_step_def)
    have same: "rp\<lparr>rp_data := d, rp_node := ?p\<rparr> = rp\<lparr>rp_data := d\<rparr>" using r(1) by (cases rp) simp
    show ?thesis
      by (rule data_sim [OF rr t ids, where s' = s and p = ?p and d = d and lpc = WUnlock and pc = "TReleaseWrite k"])
        (use * same pc kept k rwl rel in auto)
  qed
qed

lemma combine_step_sim:
  assumes rr: "system_replica_rel s n fc rp" and t: "t < MAX_THREADS_PER_REPLICA" and ids: "rids_ok rp" and n: "n < length (ns_nodes s)"
    and step: "combine_step D n t weak (ns_log s) rp = Some (l', rp')"
  shows "replica_sim D s n rp l' rp'"
proof (cases "th_pc (rp_threads rp ! t)")
  case (TAcquireWrite k)
  then show ?thesis using acquire_write_sim [OF rr t ids n _ step] by blast
next
  case (TCombine k)
  then show ?thesis using combine_log_sim [OF rr t ids n _ step] by blast
next
  case (TReleaseWrite k)
  then show ?thesis using release_write_sim [OF rr t ids n _ step] by blast
qed (use step in \<open>simp_all add: combine_step_def\<close>)

section \<open>Delivering the responses\<close>

lemma respondingD:
  assumes "system_replica_rel s n fc rp" and "all_collected (fc_combiner fc) idx ops p" "responding (fc_combiner fc) idx p"
  obtains elems where "fc_combiner fc = FCResponding elems idx" "length elems = MAX_THREADS_PER_REPLICA" "idx \<le> MAX_THREADS_PER_REPLICA"
    "np_rids p = somes elems" "ops = op_counts elems" "np_pc p = NRespond (length (somes (take idx elems)))"
proof -
  obtain elems where e: "fc_combiner fc = FCResponding elems idx" "length elems = MAX_THREADS_PER_REPLICA" "collected elems ops p"
      "np_pc p = NRespond (length (somes (take idx elems)))"
    using assms(2,3) by (auto simp: all_collected_def responding_def)
  have "idx \<le> MAX_THREADS_PER_REPLICA"
    using fc_okD(6) [OF replica_fc_ok [OF assms(1)]] e(1,2) by (simp add: fc_inv_combiner_elements_def)
  then show thesis using e that by (simp add: collected_def)
qed

lemma combine_respond_SomeD:
  assumes "combine_respond p = Some (rid, resp, p')" "np_pc p = NRespond i"
  shows "i < length (np_rids p)" "rid = np_rids p ! i" "resp = np_responses p ! i" "p' = goto p (NRespond (i + 1))"
  using assms by (auto simp: combine_respond_def nth_opt_def split: option.splits if_splits)

lemma distribute_skip_sim:
  assumes rr: "system_replica_rel s n fc rp" and t: "t < MAX_THREADS_PER_REPLICA" and ids: "rids_ok rp"
    and pc: "th_pc (rp_threads rp ! t) = TDistribute k idx" and idx: "idx < MAX_THREADS_PER_REPLICA" and none: "rp_num_ops rp ! idx = 0"
    and rp': "rp' = tgoto rp t (TDistribute k (idx + 1))"
  shows "replica_sim D s n rp (ns_log s) rp'"
proof -
  let ?th = "rp_threads rp ! t" and ?p = "ns_nodes s ! n" and ?th' = "(rp_threads rp ! t)\<lparr>th_pc := TDistribute k (idx + 1)\<rparr>"
  note r = replica_relD [OF rr] and th = thread_relD [OF replica_relD(11) [OF rr t]]
  have lt: "t < length (rp_threads rp)" using t r(3) by simp
  have c: "combining (th_pc ?th)" by (simp add: pc)
  have "all_collected (fc_combiner fc) idx (rp_num_ops rp) ?p" "responding (fc_combiner fc) idx ?p"
    using combinerD(3) [OF r(10) t c] by (simp_all add: pc)
  then obtain elems where e: "fc_combiner fc = FCResponding elems idx" "length elems = MAX_THREADS_PER_REPLICA"
      "np_rids ?p = somes elems" "rp_num_ops rp = op_counts elems" "np_pc ?p = NRespond (length (somes (take idx elems)))"
    using respondingD [OF rr] by metis
  have empty: "elems ! idx = None" using none e(2,4) idx by (auto split: if_splits)
  let ?fc = "fc\<lparr>fc_combiner := FCResponding elems (idx + 1)\<rparr>"
  have "fc_next fc ?fc"
    by (rule fc_next_responding_empty) (use e(1) idx empty r(4) in \<open>simp add: combiner_responding_empty_def\<close>)
  moreover have "combiner_rel (ns_updates s) ?fc ?p rp'"
    by (rule combiner_step_rel [OF t r(3) not_combining_others [OF r(10) t c], of rp' ?th'])
      (use rp' e idx empty combinerD(1) [OF r(10) t c] somes_take_Suc [of idx elems]
        in \<open>simp_all add: all_collected_def responding_def collected_def\<close>)
  ultimately show ?thesis
    by (intro combine_sim [OF rr t ids t, where s' = s and th' = ?th' and cx' = "rp_contexts rp ! t" and k = k and fc' = ?fc])
      (use rp' pc th r lt in \<open>auto simp: lock_same context_step_same\<close>)
qed

lemma distribute_write_sim:
  assumes rr: "system_replica_rel s n fc rp" and t: "t < MAX_THREADS_PER_REPLICA" and ids: "rids_ok rp"
    and pc: "th_pc (rp_threads rp ! t) = TDistribute k idx" and idx: "idx < MAX_THREADS_PER_REPLICA" and some: "rp_num_ops rp ! idx \<noteq> 0"
    and resp: "combine_respond (ns_nodes s ! n) = Some (rid, resp, p)" and po: "cx_batch (rp_contexts rp ! idx) = Some po"
    and rp': "rp' = tgoto (set_context rp idx ((rp_contexts rp ! idx)\<lparr>cx_batch := Some (po\<lparr>po_resp := Some resp\<rparr>)\<rparr>)) t (TRespond k idx)"
  shows "replica_sim D s n rp (ns_log s) rp'"
proof -
  let ?th = "rp_threads rp ! t" and ?p = "ns_nodes s ! n" and ?th' = "(rp_threads rp ! t)\<lparr>th_pc := TRespond k idx\<rparr>"
    and ?cx = "rp_contexts rp ! idx" and ?cx' = "(rp_contexts rp ! idx)\<lparr>cx_batch := Some (po\<lparr>po_resp := Some resp\<rparr>)\<rparr>"
    and ?rid = "th_rid (rp_threads rp ! idx)"
  note r = replica_relD [OF rr] and th = thread_relD [OF replica_relD(11) [OF rr t]]
  have lt: "t < length (rp_threads rp)" "idx < length (rp_contexts rp)" using t idx r(2,3) by simp_all
  have c: "combining (th_pc ?th)" by (simp add: pc)
  have rel: "all_collected (fc_combiner fc) idx (rp_num_ops rp) ?p" "responding (fc_combiner fc) idx ?p"
    using combinerD(3) [OF r(10) t c] by (simp_all add: pc)
  then obtain elems where e: "fc_combiner fc = FCResponding elems idx" "length elems = MAX_THREADS_PER_REPLICA"
      "rp_num_ops rp = op_counts elems"
    using respondingD [OF rr] by metis
  obtain x where full: "elems ! idx = Some x" using some e(2,3) idx by fastforce
  have slot: "fc_slots fc idx = Some (SlotInProgress x)"
    using responding_result_safe [OF replica_fc_ok [OF rr] e(1)] full idx r(4) by simp
  have "context_step fc fc idx ?rid ?cx ?cx' (ns_updates s ?rid) (ns_updates s ?rid)"
    using busy_slot_client [OF rr idx slot] thread_relD(2) [OF r(11) [OF idx]] slot unfolding context_step_def by auto
  moreover have "combiner_rel (ns_updates s) fc ?p rp'"
    by (rule combiner_step_rel [OF t r(3) not_combining_others [OF r(10) t c], of rp' ?th'])
      (use rp' rel e full idx lt resp combinerD(1) [OF r(10) t c] in simp_all)
  ultimately show ?thesis
    by (intro combine_sim [OF rr t ids idx, where s' = s and th' = ?th' and cx' = ?cx' and k = k and fc' = fc])
      (use rp' pc th r lt in \<open>auto simp: lock_same\<close>)
qed

lemma distribute_end_sim:
  assumes rr: "system_replica_rel s n fc rp" and t: "t < MAX_THREADS_PER_REPLICA" and ids: "rids_ok rp" and n: "n < length (ns_nodes s)"
    and pc: "th_pc (rp_threads rp ! t) = TDistribute k idx" and idx: "MAX_THREADS_PER_REPLICA \<le> idx"
    and p: "combine_end (ns_nodes s ! n) = Some p" and rp': "rp' = tgoto (rp\<lparr>rp_node := p, rp_num_ops := []\<rparr>) t (TUnlock k)"
  shows "replica_sim D s n rp (ns_log s) rp'"
proof -
  let ?th = "rp_threads rp ! t" and ?p = "ns_nodes s ! n" and ?th' = "(rp_threads rp ! t)\<lparr>th_pc := TUnlock k\<rparr>"
  note r = replica_relD [OF rr] and th = thread_relD [OF replica_relD(11) [OF rr t]]
  have lt: "t < length (rp_threads rp)" using t r(3) by simp
  have c: "combining (th_pc ?th)" by (simp add: pc)
  have "all_collected (fc_combiner fc) idx (rp_num_ops rp) ?p" "responding (fc_combiner fc) idx ?p"
    using combinerD(3) [OF r(10) t c] by (simp_all add: pc)
  then obtain elems where e: "fc_combiner fc = FCResponding elems idx" "idx \<le> MAX_THREADS_PER_REPLICA"
    using respondingD [OF rr] by metis
  then have i: "idx = fc_num_threads fc" using idx r(4) by simp
  have p': "np_pc p = NIdle" "np_rids p = []" "np_data p = np_data ?p"
    using p by (auto simp: combine_end_def split: NodePc.splits if_splits)
  let ?fc = "fc\<lparr>fc_combiner := FCCollecting []\<rparr>" and ?s = "set_node s n p"
  have "fc_next fc ?fc" by (rule fc_next_responding_done) (use e(1) i in \<open>simp add: combiner_responding_done_def\<close>)
  moreover have "combiner_rel (ns_updates s) ?fc p rp'"
    by (rule combiner_step_rel [OF t r(3) not_combining_others [OF r(10) t c], of rp' ?th'])
      (use rp' p' combinerD(1) [OF r(10) t c] in \<open>simp_all add: combiner_free_def\<close>)
  moreover have "system_step D s Internal ?s" by (rule sys_combine_end [OF n p])
  ultimately show ?thesis
    by (intro combine_sim [OF rr t ids t, where s' = ?s and th' = ?th' and cx' = "rp_contexts rp ! t" and k = k and fc' = ?fc])
      (use rp' pc th r(5,6,8,9) lt n p' in \<open>auto simp: lock_same context_step_same\<close>)
qed

lemma distribute_respond_sim:
  assumes rr: "system_replica_rel s n fc rp" and t: "t < MAX_THREADS_PER_REPLICA" and ids: "rids_ok rp" and n: "n < length (ns_nodes s)"
    and pc: "th_pc (rp_threads rp ! t) = TRespond k idx" and p: "combine_respond (ns_nodes s ! n) = Some (rid, resp, p)"
    and rp': "rp' = tgoto (set_context (rp\<lparr>rp_node := p\<rparr>) idx ((rp_contexts rp ! idx)\<lparr>cx_atomic := 0, cx_update := Some rid\<rparr>)) t
      (TDistribute k (idx + 1))"
  shows "replica_sim D s n rp (ns_log s) rp'"
proof -
  let ?th = "rp_threads rp ! t" and ?p = "ns_nodes s ! n" and ?th' = "(rp_threads rp ! t)\<lparr>th_pc := TDistribute k (idx + 1)\<rparr>"
    and ?cx = "rp_contexts rp ! idx" and ?cx' = "(rp_contexts rp ! idx)\<lparr>cx_atomic := 0, cx_update := Some rid\<rparr>"
    and ?rid = "th_rid (rp_threads rp ! idx)"
  note r = replica_relD [OF rr] and th = thread_relD [OF replica_relD(11) [OF rr t]]
  have c: "combining (th_pc ?th)" by (simp add: pc)
  note cr = combinerD(3) [OF r(10) t c, unfolded pc, simplified]
  have idx: "idx < MAX_THREADS_PER_REPLICA" using cr by simp
  have lt: "t < length (rp_threads rp)" "idx < length (rp_contexts rp)" using t idx r(2,3) by simp_all
  obtain elems where e: "fc_combiner fc = FCResponding elems idx" "length elems = MAX_THREADS_PER_REPLICA"
      "np_rids ?p = somes elems" "rp_num_ops rp = op_counts elems" "np_pc ?p = NRespond (length (somes (take idx elems)))"
    using respondingD [OF rr] cr by metis
  have full: "elems ! idx \<noteq> None" using cr e(1) by simp
  note rs = combine_respond_SomeD [OF p e(5)]
  have er: "elems ! idx = Some rid" using full somes_nth(2) [of idx elems] rs(2) e(2,3) idx by auto
  have slot: "fc_slots fc idx = Some (SlotInProgress rid)"
    using responding_result_safe [OF replica_fc_ok [OF rr] e(1)] er idx r(4) by simp
  have rid: "rid = ?rid" using thread_relD(2) [OF r(11) [OF idx]] slot by auto
  obtain po where po: "cx_batch ?cx = Some po" "po_resp po = Some resp" using cr p by auto
  let ?fc = "fc\<lparr>fc_combiner := FCResponding elems (idx + 1), fc_slots := (fc_slots fc)(idx \<mapsto> SlotResponse rid)\<rparr>"
  let ?s = "(set_node s n p)\<lparr>ns_updates := (ns_updates s)(rid \<mapsto> UpDone resp)\<rparr>"
  have fc: "fc_next fc ?fc"
    by (rule fc_next_responding_result) (use e(1) er idx slot r(4) in \<open>simp add: combiner_responding_result_def\<close>)
  have sys: "system_step D s Internal ?s" by (rule sys_combine_respond [OF n p])
  have "context_step fc ?fc idx ?rid ?cx ?cx' (ns_updates s ?rid) (ns_updates ?s ?rid)"
    using busy_slot_client [OF rr idx slot] rid po unfolding context_step_def by auto
  moreover have "combiner_rel (ns_updates ?s) ?fc p rp'"
    by (rule combiner_step_rel [OF t r(3) not_combining_others [OF r(10) t c], of rp' ?th'])
      (use rp' e er idx rs(4) combinerD(1) [OF r(10) t c] somes_take_Suc [of idx elems]
        in \<open>simp_all add: all_collected_def responding_def collected_def\<close>)
  ultimately show ?thesis
    by (intro combine_sim [OF rr t ids idx, where s' = ?s and th' = ?th' and cx' = ?cx' and k = k and fc' = ?fc])
      (use rp' pc th r lt n fc sys slot rid rs(4) in \<open>auto simp: lock_same in_progress_at_def\<close>)
qed

lemma distribute_thread_resps_sim:
  assumes rr: "system_replica_rel s n fc rp" and t: "t < MAX_THREADS_PER_REPLICA" and ids: "rids_ok rp" and n: "n < length (ns_nodes s)"
    and step: "distribute_thread_resps_step t rp = Some rp'"
  shows "replica_sim D s n rp (ns_log s) rp'"
proof (cases "th_pc (rp_threads rp ! t)")
  case (TDistribute k idx)
  note node = replica_relD(1) [OF rr]
  consider (skip) "idx < MAX_THREADS_PER_REPLICA" "rp_num_ops rp ! idx = 0" "rp' = tgoto rp t (TDistribute k (idx + 1))"
    | (fill) rid resp p po where "idx < MAX_THREADS_PER_REPLICA" "rp_num_ops rp ! idx \<noteq> 0"
        "combine_respond (ns_nodes s ! n) = Some (rid, resp, p)" "cx_batch (rp_contexts rp ! idx) = Some po"
        "rp' = tgoto (set_context rp idx ((rp_contexts rp ! idx)\<lparr>cx_batch := Some (po\<lparr>po_resp := Some resp\<rparr>)\<rparr>)) t (TRespond k idx)"
    | (finish) p where "MAX_THREADS_PER_REPLICA \<le> idx" "combine_end (ns_nodes s ! n) = Some p"
        "rp' = tgoto (rp\<lparr>rp_node := p, rp_num_ops := []\<rparr>) t (TUnlock k)"
    using step TDistribute node
    by (auto simp: distribute_thread_resps_step_def nth_opt_def not_less split: if_splits option.splits)
  then show ?thesis
    by cases (blast intro: distribute_skip_sim [OF rr t ids TDistribute] distribute_write_sim [OF rr t ids TDistribute]
        distribute_end_sim [OF rr t ids n TDistribute])+
next
  case (TRespond k idx)
  then obtain rid resp p where "combine_respond (ns_nodes s ! n) = Some (rid, resp, p)"
      "rp' = tgoto (set_context (rp\<lparr>rp_node := p\<rparr>) idx ((rp_contexts rp ! idx)\<lparr>cx_atomic := 0, cx_update := Some rid\<rparr>)) t
        (TDistribute k (idx + 1))"
    using step replica_relD(1) [OF rr]
    by (auto simp: distribute_thread_resps_step_def nth_opt_def split: if_splits option.splits)
  then show ?thesis by (rule distribute_respond_sim [OF rr t ids n TRespond])
qed (use step in \<open>simp_all add: distribute_thread_resps_step_def\<close>)

end
