(* ===== verification/NR_Exec_Append.thy ===== *)
theory NR_Exec_Append
  imports NR_Exec_Coupling
begin

text \<open>
  The steps of \<^verbatim>\<open>append\<close>, \<^verbatim>\<open>advance_head\<close> and
  \<^verbatim>\<open>find_min_local_version\<close>: each succeeds and is matched by steps of the unbounded log
  and of the cyclic buffer.
\<close>

section \<open>Steps of the machines\<close>

lemma ul_local_combiner:
  "ul_next D g (set_combiner g n u) \<Longrightarrow> ul_local D n R g (set_combiner g n u)"
  by (rule ul_local_step) simp_all

lemma cb_local_combiner: "cb_next c (cb_set c n v) \<Longrightarrow> cb_local n c (cb_set c n v)"
  by (rule cb_local_step) simp_all

lemma ul_start:
  "ul_combiner g n = Some CReady \<Longrightarrow> ul_local D n R g (set_combiner g n (CPlaced []))"
  by (intro ul_local_combiner ul_next_exec_trivial_start [of g n]) (simp add: exec_trivial_start_def)

text \<open>All operations of a combiner are placed in the log, one after the other.\<close>

lemma place_one:
  assumes u: "ul_combiner g n = Some (CPlaced q)" "ul_local_updates g rid = Some (UInit op)" and rid: "rid \<in> R"
    and inv: "ul_parts D g"
    and g': "g' = g\<lparr>ul_tail := ul_tail g + 1, ul_log := (ul_log g)(ul_tail g \<mapsto> \<lparr>le_op = op, le_node_id = n\<rparr>),
      ul_local_updates := (ul_local_updates g)(rid \<mapsto> UPlaced op (ul_tail g)),
      ul_combiner := (ul_combiner g)(n \<mapsto> CPlaced (q @ [rid]))\<rparr>"
  shows "ul_local D n R g g'" "ul_parts D g'"
proof -
  have next_step: "ul_next D g g'"
    using u by (intro ul_next_update_place_ops_in_log_one [of g n rid]) (simp add: update_place_ops_in_log_one_def g')
  show "ul_parts D g'" by (rule ul_next_parts [OF next_step inv])
  have "ul_log g (ul_tail g) = None" using log_slot_free [OF inv] .
  then show "ul_local D n R g g'"
    using u(2) rid by (intro ul_local_step [OF next_step]) (auto simp: g')
qed

lemma place_all:
  assumes "ul_combiner g n = Some (CPlaced q)" and "length ops = length rids" and "distinct rids" and "set rids \<subseteq> R"
    and "\<And>i. i < length rids \<Longrightarrow> ul_local_updates g (rids ! i) = Some (UInit (ops ! i))" and "ul_parts D g"
  shows "\<exists>g'. ul_local D n R g g' \<and> ul_combiner g' n = Some (CPlaced (q @ rids)) \<and>
    ul_tail g' = ul_tail g + length rids \<and> ul_replicas g' = ul_replicas g \<and>
    ul_local_versions g' = ul_local_versions g \<and> ul_version_upper_bound g' = ul_version_upper_bound g \<and>
    (\<forall>i<length rids. ul_log g' (ul_tail g + i) = Some \<lparr>le_op = ops ! i, le_node_id = n\<rparr>)"
  using assms
proof (induction rids arbitrary: g q ops)
  case Nil
  then show ?case by (intro exI [of _ g]) simp
next
  case (Cons rid rids)
  obtain op ops' where ops: "ops = op # ops'" "length ops' = length rids" using Cons.prems(2) by (cases ops) auto
  let ?g = "g\<lparr>ul_tail := ul_tail g + 1, ul_log := (ul_log g)(ul_tail g \<mapsto> \<lparr>le_op = op, le_node_id = n\<rparr>),
      ul_local_updates := (ul_local_updates g)(rid \<mapsto> UPlaced op (ul_tail g)),
      ul_combiner := (ul_combiner g)(n \<mapsto> CPlaced (q @ [rid]))\<rparr>"
  have u0: "ul_local_updates g rid = Some (UInit op)" using Cons.prems(5) [of 0] ops by simp
  have R: "rid \<in> R" "set rids \<subseteq> R" using Cons.prems(4) by simp_all
  note one = place_one [OF Cons.prems(1) u0 R(1) Cons.prems(6) refl]
  have init: "ul_local_updates ?g (rids ! i) = Some (UInit (ops' ! i))" if "i < length rids" for i
  proof -
    have "rids ! i \<noteq> rid" using Cons.prems(3) that by (auto simp: in_set_conv_nth)
    then show ?thesis using Cons.prems(5) [of "Suc i"] that ops by simp
  qed
  have "\<exists>g'. ul_local D n R ?g g' \<and> ul_combiner g' n = Some (CPlaced ((q @ [rid]) @ rids)) \<and>
    ul_tail g' = ul_tail ?g + length rids \<and> ul_replicas g' = ul_replicas ?g \<and>
    ul_local_versions g' = ul_local_versions ?g \<and> ul_version_upper_bound g' = ul_version_upper_bound ?g \<and>
    (\<forall>i<length rids. ul_log g' (ul_tail ?g + i) = Some \<lparr>le_op = ops' ! i, le_node_id = n\<rparr>)"
    by (rule Cons.IH [OF _ ops(2) _ R(2) init one(2)]) (use Cons.prems(3) in simp_all)
  then obtain g' where g': "ul_local D n R ?g g'" "ul_combiner g' n = Some (CPlaced ((q @ [rid]) @ rids))"
    "ul_tail g' = ul_tail ?g + length rids" "ul_replicas g' = ul_replicas ?g"
    "ul_local_versions g' = ul_local_versions ?g" "ul_version_upper_bound g' = ul_version_upper_bound ?g"
    "\<forall>i<length rids. ul_log g' (ul_tail ?g + i) = Some \<lparr>le_op = ops' ! i, le_node_id = n\<rparr>"
    by (elim exE conjE) (rule that)
  have "ul_log g' (ul_tail g) = Some \<lparr>le_op = op, le_node_id = n\<rparr>" using g'(1) by (simp add: ul_local_def)
  then have "ul_log g' (ul_tail g + i) = Some \<lparr>le_op = ops ! i, le_node_id = n\<rparr>" if "i < length (rid # rids)" for i
    using g'(7) [rule_format, of "i - 1"] that ops(1) by (cases i) simp_all
  then show ?case
    using ul_local_trans [OF one(1) g'(1)] g'(2-6) by (intro exI [of _ g']) simp
qed

text \<open>
  The step succeeds, the machines follow, and the only cell that changes is the one a combiner
  at \<open>AWrite\<close> writes.
\<close>

definition step_sim ::
    "('r, 'w, 'v, 'resp) Dispatch \<Rightarrow> NodeId \<Rightarrow> ReqId set \<Rightarrow> ('r, 'w, 'v, 'resp) UnboundedLog \<Rightarrow> 'w CyclicBuffer \<Rightarrow>
     'w NrLog \<Rightarrow> ('w, 'v, 'resp) Node \<Rightarrow> ('w NrLog \<times> ('w, 'v, 'resp) Node) option \<Rightarrow> bool" where
  "step_sim D n R g c l p r \<longleftrightarrow>
     (\<exists>l' p'. r = Some (l', p') \<and> node_sim D n R (np_pc p) g c l' p' \<and> np_rids p' = np_rids p \<and> delivered (np_pc p') = 0 \<and>
        (\<forall>i. be_log_entry (nl_slog l' ! i) \<noteq> be_log_entry (nl_slog l ! i) \<longrightarrow>
           (\<exists>t idx adv. np_pc p = AWrite t idx adv \<and> i = (unat t + idx) mod LOG_SIZE)))"

lemma step_simI:
  assumes "r = Some (l', p')" "node_sim D n R (np_pc p) g c l' p'" "np_rids p' = np_rids p" "delivered (np_pc p') = 0"
    and "\<And>i. be_log_entry (nl_slog l' ! i) = be_log_entry (nl_slog l ! i)"
  shows "step_sim D n R g c l p r"
  using assms by (simp add: step_sim_def)

lemma delivered_0 [simp]:
  "delivered NIdle = 0" "delivered NCollect = 0" "delivered NRelease = 0" "delivered ALoadTail = 0"
  "delivered (ALoadHead t) = 0" "delivered (ACas t nt adv) = 0" "delivered (AWrite t idx adv) = 0"
  "delivered (AFlip t idx adv) = 0" "delivered APanic = 0" "delivered HLoadHead = 0" "delivered (HLoadTail gh) = 0"
  "delivered (HMinFirst gh gt) = 0" "delivered (HMinNext idx m gh gt) = 0" "delivered (HStore m gt) = 0"
  "delivered (ELoadLocal k) = 0" "delivered (ELoadTail k lv) = 0" "delivered (EAlive k lv gt) = 0"
  "delivered (ERead k lv gt) = 0" "delivered (EPublish k gt) = 0" "delivered (EStore k gt) = 0"
  by (simp_all add: delivered_def)

lemma delivered_loops [simp]:
  "delivered (append_loop nops t idx adv) = 0" "delivered (execute_loop k lv gt) = 0"
  "delivered (min_loop N idx m gh gt) = 0" "delivered (execute_return k) = 0"
  by (simp_all add: append_loop_def execute_loop_def min_loop_def execute_return_def split: ExecCaller.split)

section \<open>Observing and reserving\<close>

lemma u64_add_fits:
  "unat a + unat b \<le> 18446744073709551615 \<Longrightarrow> \<exists>c. u64_add a b = Some c \<and> unat c = unat a + unat b"
  by (rule u64_add_ok) simp

lemma tail_bound:
  "log_rel l g c \<Longrightarrow> ul_tail g \<le> unat MAX_IDX"
  using log_relD(5,7) [of l g c] by (simp add: word_le_nat_alt)

lemma load_tail_sim:
  assumes lr: "log_rel l g c" and nr: "node_rel l g c n p" and pc: "np_pc p = ALoadTail"
  shows "step_sim D n R g c l p (append_step n weak l p)"
proof -
  obtain u v where "ul_combiner g n = Some u" "cb_combiner c n = Some v" "u = CReady" "v = CBIdle"
      "ups_new p (ul_local_updates g)"
    using node_relD(4) [OF nr] pc by auto
  then have "node_sim D n R (np_pc p) g c l (goto p (ALoadHead (nl_tail l)))"
    using log_relD(5) [OF lr] by (intro node_sim_stay [OF lr nr]) simp_all
  then show ?thesis by (rule step_simI [rotated]) (use pc in \<open>simp_all add: append_step_def\<close>)
qed

lemma tail_start:
  assumes "cb_combiner c n = Some CBIdle"
  shows "cb_local n c (cb_set c n (CBAdvancingTail (cb_head c)))"
  using assms by (intro cb_local_combiner cb_next_advance_tail_start [of c n]) (simp add: advance_tail_start_def)

lemma load_head_sim:
  assumes lr: "log_rel l g c" and nr: "node_rel l g c n p" and ok: "cb_ok c" and pc: "np_pc p = ALoadHead t"
  shows "step_sim D n R g c l p (append_step n weak l p)"
proof -
  obtain u v where s: "ul_combiner g n = Some u" "cb_combiner c n = Some v" "u = CReady" "v = CBIdle"
      "ups_new p (ul_local_updates g)" "unat t \<le> ul_tail g"
    using node_relD(4) [OF nr] pc by auto
  note lens = log_relD(1,5,6,8) [OF lr] node_relD(2) [OF nr]
  have bounds: "cb_head c \<le> ul_tail g" "ul_tail g \<le> unat MAX_IDX" "length (np_ops p) \<le> 64"
    using cb_okD(8) [OF ok] lens tail_bound [OF lr]
    by (simp_all add: MAX_REQUESTS_def MAX_THREADS_PER_REPLICA_def MAX_PENDING_OPS_def)
  have gc: "unat (gc_threshold l) = LOG_SIZE - 64" "64 \<le> LOG_SIZE" "LOG_SIZE < 1048576"
    using gc_threshold_unat [OF lens(1)]
    by (simp_all add: GC_FROM_HEAD_def MAX_PENDING_OPS_def MAX_THREADS_PER_REPLICA_def LOG_SIZE_def)
  have "unat (nl_head l) + unat (gc_threshold l) \<le> 18446744073709551615"
    using bounds(1,2) lens(4) gc unfolding unat_max_idx by linarith
  then obtain limit where limit: "u64_add (nl_head l) (gc_threshold l) = Some limit"
      "unat limit = unat (nl_head l) + unat (gc_threshold l)"
    using u64_add_fits by blast
  have nops: "unat (of_nat (length (np_ops p)) :: 64 word) = length (np_ops p)"
    using bounds(3) by (intro unat_of_nat_small) simp
  have "unat t + unat (of_nat (length (np_ops p)) :: 64 word) \<le> 18446744073709551615"
    using s(6) bounds(2,3) unfolding nops unat_max_idx by linarith
  then obtain nt where nt: "u64_add t (of_nat (length (np_ops p))) = Some nt" "unat nt = unat t + length (np_ops p)"
    using u64_add_fits [of t "of_nat (length (np_ops p))"] nops by metis
  have start: "cb_local n c (cb_set c n (CBAdvancingTail (cb_head c)))" using tail_start s(2,4) by simp
  consider "limit < t" | "\<not> limit < t" "MAX_IDX \<le> nt" | "\<not> limit < t" "nt < MAX_IDX" by force
  then show ?thesis
  proof cases
    case 1
    have "node_sim D n R (np_pc p) g c l (goto p (ELoadLocal FromAppend))"
      using s by (intro node_sim_stay [OF lr nr s(1,2)]) (simp add: between_execs_def)
    then show ?thesis by (rule step_simI [rotated]) (use pc limit(1) 1 in \<open>simp_all add: append_step_def\<close>)
  next
    case 2
    have "node_sim D n R (np_pc p) g c l (goto p APanic)"
      using s by (intro node_sim_cb [OF lr nr s(1) start]) simp
    then show ?thesis by (rule step_simI [rotated]) (use pc limit(1) nt(1) 2 in \<open>simp_all add: append_step_def\<close>)
  next
    case 3
    have "unat t \<le> unat limit" using 3(1) by (simp add: word_less_nat_alt)
    then have "unat nt \<le> cb_head c + LOG_SIZE" using nt(2) limit(2) gc bounds(3) lens(4) by linarith
    moreover have "np_ops p \<noteq> []" if "limit < nt" using 3(1) that nt(2) by (auto simp: word_less_nat_alt)
    ultimately have "node_sim D n R (np_pc p) g c l (goto p (ACas t nt (limit < nt)))"
      using s nt(2) 3(2) by (intro node_sim_cb [OF lr nr s(1) start]) simp
    then show ?thesis by (rule step_simI [rotated]) (use pc limit(1) nt(1) 3 in \<open>simp_all add: append_step_def not_le [symmetric]\<close>)
  qed
qed

lemma log_rel_cb: "log_rel l g (cb_set c n v) = log_rel l g c"
  by (simp add: log_rel_def)

lemma cell_rel_mono:
  assumes "cell_rel l g i st" and "\<And>i e. ul_log g i = Some e \<Longrightarrow> ul_log g' i = Some e"
    and "be_log_entry (nl_slog l' ! log_entry_idx i LOG_SIZE) = be_log_entry (nl_slog l ! log_entry_idx i LOG_SIZE)"
  shows "cell_rel l' g' i st"
  using assms by (auto simp: cell_rel_def)

text \<open>Reserving entries: the buffer's tail moves and the operations enter the log.\<close>

lemma tail_finish:
  assumes "cb_combiner c n = Some (CBAdvancingTail h)" "cb_tail c \<le> nt" "nt \<le> h + LOG_SIZE" "cb_buffer_size c = LOG_SIZE"
    and c': "c' = c\<lparr>cb_combiner := (cb_combiner c)(n \<mapsto> CBAppending (cb_tail c) nt), cb_tail := nt,
      cb_contents := cb_contents c |` (- withdrawn_range c nt)\<rparr>"
  shows "cb_local n c c'"
  using assms by (intro cb_local_step [OF cb_next_advance_tail_finish [of c n nt]]) (simp_all add: advance_tail_finish_def)

lemma append_done:
  assumes "cb_combiner c n = Some (CBAppending t t)"
  shows "cb_local n c (cb_set c n CBIdle)"
  using assms by (intro cb_local_combiner cb_next_append_finish [of c n]) (simp add: append_finish_def)

lemma cb_local_trans: "cb_local n c c' \<Longrightarrow> cb_local n c' c'' \<Longrightarrow> cb_local n c c''"
  unfolding cb_local_def by (auto intro: rtranclp_trans)

lemma cas_success_log_rel:
  assumes lr: "log_rel l g c" and ok: "cb_ok c" and nt: "unat nt = k" "ul_tail g \<le> k" "nt \<le> MAX_IDX"
    and g': "ul_local D n R g g'" "ul_tail g' = k" "ul_local_versions g' = ul_local_versions g"
      "ul_version_upper_bound g' = ul_version_upper_bound g"
    and c': "c' = c\<lparr>cb_combiner := x, cb_tail := k, cb_contents := cb_contents c |` (- withdrawn_range c k)\<rparr>"
  shows "log_rel (l\<lparr>nl_tail := nt\<rparr>) g' c'"
proof -
  note d = log_relD [OF lr]
  have num: "ul_num_replicas g' = ul_num_replicas g" and log: "\<And>i e. ul_log g i = Some e \<Longrightarrow> ul_log g' i = Some e"
    using g'(1) by (simp_all add: ul_local_def)
  have "cell_rel (l\<lparr>nl_tail := nt\<rparr>) g' i st" if "cb_contents c i = Some st" for i st
    by (rule cell_rel_mono [OF d(14) [OF that] log]) simp_all
  then have cells: "\<forall>i st. cb_contents c' i = Some st \<longrightarrow> cell_rel (l\<lparr>nl_tail := nt\<rparr>) g' i st"
    by (simp add: c' restrict_map_def)
  have "dom (cb_contents c) - withdrawn_range c k \<subseteq> {int k - int LOG_SIZE ..< int k}"
    using d(13) nt(2) cb_okD(2) [OF ok] d(6) by (auto simp: withdrawn_range_def subset_iff)
  then have dom: "dom (cb_contents c') \<subseteq> {int k - int LOG_SIZE ..< int k}"
    unfolding c' by (auto simp: restrict_map_def split: if_splits)
  show ?thesis
    unfolding log_rel_def num g'(2-4) using d nt(1,3) dom cells by (simp add: c')
qed

lemma cas_success_sim:
  assumes lr: "log_rel l g c" and nr: "node_rel l g c n p" and ok: "cb_ok c" and inv: "ul_parts D g"
    and pc: "np_pc p = ACas t nt adv" and dist: "distinct (np_rids p)" and R: "set (np_rids p) \<subseteq> R" and eq: "nl_tail l = t"
  shows "node_sim D n R (np_pc p) g c (l\<lparr>nl_tail := nt\<rparr>) (goto p (append_loop (length (np_ops p)) t 0 adv))"
proof -
  let ?nt = "unat t + length (np_ops p)"
  obtain h where s: "ul_combiner g n = Some CReady" "cb_combiner c n = Some (CBAdvancingTail h)"
      "ups_new p (ul_local_updates g)" "unat nt = ?nt" "nt < MAX_IDX" "?nt \<le> h + LOG_SIZE"
    using node_relD(4) [OF nr] pc by auto
  note d = log_relD [OF lr] and p = node_relD(1-3) [OF nr]
  have t: "unat t = ul_tail g" "cb_tail c = unat t" using d(5,6) eq by simp_all
  let ?g1 = "set_combiner g n (CPlaced [])"
  have g1: "ul_local D n R g ?g1" by (rule ul_start [OF s(1)])
  have "ul_next D g ?g1" using s(1) by (intro ul_next_exec_trivial_start [of g n]) (simp add: exec_trivial_start_def)
  then have inv1: "ul_parts D ?g1" by (rule ul_next_parts) (rule inv)
  have init: "ul_local_updates ?g1 (np_rids p ! i) = Some (UInit (np_ops p ! i))" if "i < length (np_rids p)" for i
    using s(3) that by (simp add: ups_new_def)
  have "ul_combiner ?g1 n = Some (CPlaced [])" by simp
  from place_all [OF this p(3) dist R init inv1] obtain g' where g': "ul_local D n R ?g1 g'"
    "ul_combiner g' n = Some (CPlaced (np_rids p))" "ul_tail g' = ?nt" "ul_replicas g' = ul_replicas g"
    "ul_local_versions g' = ul_local_versions g" "ul_version_upper_bound g' = ul_version_upper_bound g"
    "\<forall>i<length (np_ops p). ul_log g' (unat t + i) = Some \<lparr>le_op = np_ops p ! i, le_node_id = n\<rparr>"
    by (auto simp: t p(3))
  note g = ul_local_trans [OF g1 g'(1)]
  have kept: "combiner_kept n (np_pc p) g g'" using g'(4) by (simp add: combiner_kept_def pc)
  let ?c = "c\<lparr>cb_combiner := (cb_combiner c)(n \<mapsto> CBAppending (cb_tail c) ?nt), cb_tail := ?nt,
      cb_contents := cb_contents c |` (- withdrawn_range c ?nt)\<rparr>"
  have c: "cb_local n c ?c" using t(2) by (intro tail_finish [OF s(2) _ s(6) cb_okD(2) [OF ok] refl]) simp
  have le: "ul_tail g \<le> ?nt" "nt \<le> MAX_IDX" using t s(5) by simp_all
  have new: "ups_new p ups \<Longrightarrow> np_responses p = []" for ups by (simp add: ups_new_def)
  show ?thesis
  proof (cases "np_ops p = []")
    case True
    have "cb_local n ?c (cb_set ?c n CBIdle)" using True t(2) by (intro append_done [of _ _ ?nt]) simp
    note c' = cb_local_trans [OF c this]
    have "log_rel (l\<lparr>nl_tail := nt\<rparr>) g' ?c"
      by (rule cas_success_log_rel [OF lr ok s(4) le g g'(3) g'(5,6)]) simp
    then have "log_rel (l\<lparr>nl_tail := nt\<rparr>) g' (cb_set ?c n CBIdle)" by (simp only: log_rel_cb)
    moreover have "node_rel (l\<lparr>nl_tail := nt\<rparr>) g' (cb_set ?c n CBIdle) n (goto p (append_loop (length (np_ops p)) t 0 adv))"
      using True p g'(2,4) new [OF s(3)]
      by (intro node_relI [where u = "CPlaced (np_rids p)" and v = CBIdle]) (simp_all add: append_loop_def between_execs_def)
    ultimately show ?thesis by (rule node_simI [OF g c' _ _ kept])
  next
    case False
    then have ne: "np_rids p \<noteq> []" using p(3) by auto
    have "log_rel (l\<lparr>nl_tail := nt\<rparr>) g' ?c"
      by (rule cas_success_log_rel [OF lr ok s(4) le g g'(3) g'(5,6)]) simp
    moreover have "node_rel (l\<lparr>nl_tail := nt\<rparr>) g' ?c n (goto p (append_loop (length (np_ops p)) t 0 adv))"
      using ne p g'(2,3,4,7) new [OF s(3)] t(2)
      by (intro node_relI [where u = "CPlaced (np_rids p)" and v = "CBAppending (cb_tail c) ?nt"])
        (simp_all add: append_loop_def appending_def)
    ultimately show ?thesis by (rule node_simI [OF g c _ _ kept])
  qed
qed

lemma cas_sim:
  assumes lr: "log_rel l g c" and nr: "node_rel l g c n p" and ok: "cb_ok c" and inv: "ul_parts D g"
    and pc: "np_pc p = ACas t nt adv" and dist: "distinct (np_rids p)" and R: "set (np_rids p) \<subseteq> R"
  shows "step_sim D n R g c l p (append_step n weak l p)"
proof (cases "nl_tail l = t \<and> weak")
  case True
  then have "node_sim D n R (np_pc p) g c (l\<lparr>nl_tail := nt\<rparr>) (goto p (append_loop (length (np_ops p)) t 0 adv))"
    by (intro cas_success_sim [OF lr nr ok inv pc dist R]) simp
  then show ?thesis by (rule step_simI [rotated]) (use pc True in \<open>simp_all add: append_step_def\<close>)
next
  case False
  obtain h where s: "ul_combiner g n = Some CReady" "cb_combiner c n = Some (CBAdvancingTail h)" "ups_new p (ul_local_updates g)"
    using node_relD(4) [OF nr] pc by auto
  have "cb_local n c (cb_set c n CBIdle)"
    using s(2) by (intro cb_local_combiner cb_next_advance_tail_abort [of c n]) (simp add: advance_tail_abort_def)
  then have "node_sim D n R (np_pc p) g c l (goto p ALoadTail)" using s by (intro node_sim_cb [OF lr nr s(1)]) simp_all
  then show ?thesis by (rule step_simI [rotated]) (use pc False in \<open>auto simp: append_step_def\<close>)
qed

section \<open>Writing the entries\<close>

lemma window:
  assumes ok: "cb_ok c" and a: "cb_combiner c n = Some (CBAppending a t)" "a < t"
  shows "int (cb_tail c) - int LOG_SIZE \<le> int a" "a < cb_tail c" "int a \<notin> dom (cb_contents c)"
  using cb_ok_node(2) [OF ok a(1)] cb_okD(2) [OF ok] append_facts [OF ok a] by simp_all

lemma appending_cells_differ:
  assumes ok: "cb_ok c" and n: "cb_combiner c n = Some (CBAppending a t)" "a < t"
    and m: "cb_combiner c m = Some (CBAppending b u)" "b < u" and nm: "n \<noteq> m"
  shows "a mod LOG_SIZE \<noteq> b mod LOG_SIZE"
proof -
  have "a \<noteq> b" using appending_disjoint [OF ok n(1) m(1) nm] n(2) m(2) by auto
  then have "log_entry_idx (int a) LOG_SIZE \<noteq> log_entry_idx (int b) LOG_SIZE"
    using window [OF ok n] window [OF ok m]
    by (intro log_entry_idx_wrap_around [where start = "int (cb_tail c) - int LOG_SIZE"]) auto
  then show ?thesis by (simp add: log_entry_idx_nat)
qed

lemma appendingD:
  assumes "appending gtail log n p t idx u v"
  shows "u = CPlaced (np_rids p)" "np_responses p = []" "idx < length (np_ops p)"
    "v = CBAppending (unat t + idx) (unat t + length (np_ops p))" "unat t + length (np_ops p) \<le> gtail"
    "log (unat t + idx) = Some \<lparr>le_op = np_ops p ! idx, le_node_id = n\<rparr>"
  using assms by (simp_all add: appending_def)

text \<open>The address of the entry a combiner writes.\<close>

lemma logical_index:
  assumes lr: "log_rel l g c" and nr: "node_rel l g c n p" and idx: "idx < length (np_ops p)"
    and le: "unat t + length (np_ops p) \<le> ul_tail g"
  obtains w where "u64_add t (of_nat idx) = Some w" "unat w = unat t + idx"
    "log_index l w = (unat t + idx) mod LOG_SIZE" "(unat t + idx) mod LOG_SIZE < length (nl_slog l)"
proof -
  have small: "length (np_ops p) \<le> 64"
    using node_relD(2) [OF nr] by (simp add: MAX_REQUESTS_def MAX_THREADS_PER_REPLICA_def MAX_PENDING_OPS_def)
  then have i: "unat (of_nat idx :: 64 word) = idx" using idx by (intro unat_of_nat_small) simp
  have "unat t + unat (of_nat idx :: 64 word) \<le> 18446744073709551615"
    using le tail_bound [OF lr] idx unfolding i unat_max_idx by linarith
  then obtain w where w: "u64_add t (of_nat idx) = Some w" "unat w = unat t + idx"
    using u64_add_fits [of t "of_nat idx"] i by metis
  then show thesis using that [OF w] log_relD(1) [OF lr] by (simp add: log_index_def)
qed

lemma write_log_rel:
  assumes lr: "log_rel l g c" and ok: "cb_ok c" and a: "cb_combiner c n = Some (CBAppending a t)" "a < t"
  shows "log_rel (l\<lparr>nl_slog := (nl_slog l)[a mod LOG_SIZE := (nl_slog l ! (a mod LOG_SIZE))\<lparr>be_log_entry := x\<rparr>]\<rparr>) g c"
proof -
  let ?l = "l\<lparr>nl_slog := (nl_slog l)[a mod LOG_SIZE := (nl_slog l ! (a mod LOG_SIZE))\<lparr>be_log_entry := x\<rparr>]\<rparr>"
  note d = log_relD [OF lr] and w = window [OF ok a]
  have "cell_rel ?l g i st" if i: "cb_contents c i = Some st" for i st
  proof -
    have "i \<in> dom (cb_contents c)" using i by blast
    then have "int (cb_tail c) - int LOG_SIZE \<le> i" "i < int (cb_tail c)" "i \<noteq> int a"
      using d(6,13) w(3) by auto
    then have "log_entry_idx i LOG_SIZE \<noteq> log_entry_idx (int a) LOG_SIZE"
      using w(1,2) by (intro log_entry_idx_wrap_around [where start = "int (cb_tail c) - int LOG_SIZE"]) auto
    then show ?thesis by (intro cell_rel_mono [OF d(14) [OF i]]) (simp_all add: log_entry_idx_nat)
  qed
  moreover have "be_alive (nl_slog ?l ! i) = be_alive (nl_slog l ! i)" if "i < LOG_SIZE" for i
    using d(1) by (cases "i = a mod LOG_SIZE") simp_all
  ultimately show ?thesis unfolding log_rel_def using d by simp
qed

lemma write_sim:
  assumes lr: "log_rel l g c" and nr: "node_rel l g c n p" and ok: "cb_ok c" and pc: "np_pc p = AWrite t idx adv"
  shows "step_sim D n R g c l p (append_step n weak l p)"
proof -
  obtain u v where s: "ul_combiner g n = Some u" "cb_combiner c n = Some v" "appending (ul_tail g) (ul_log g) n p t idx u v"
    using node_relD(4) [OF nr] pc by auto
  note a = appendingD [OF s(3)]
  obtain w where w: "u64_add t (of_nat idx) = Some w" "unat w = unat t + idx"
    "log_index l w = (unat t + idx) mod LOG_SIZE" "(unat t + idx) mod LOG_SIZE < length (nl_slog l)"
    by (rule logical_index [OF lr nr a(3,5)])
  let ?i = "(unat t + idx) mod LOG_SIZE"
  let ?l = "l\<lparr>nl_slog := (nl_slog l)[?i := (nl_slog l ! ?i)\<lparr>be_log_entry := Some (entry_of (np_ops p ! idx) n)\<rparr>]\<rparr>"
  have step: "append_step n weak l p = Some (?l, goto p (AFlip t idx adv))"
    using pc w a(3) by (simp add: append_step_def nth_opt_def)
  have "log_rel ?l g c" by (rule write_log_rel [OF lr ok s(2) [unfolded a(4)]]) (use a(3) in simp)
  moreover have "node_rel ?l g c n (goto p (AFlip t idx adv))"
    using node_relD(1-3) [OF nr] s w(4) by (intro node_relI [OF _ _ _ s(1,2)]) simp_all
  ultimately have sim: "node_sim D n R (np_pc p) g c ?l (goto p (AFlip t idx adv))" by (intro node_simI [OF ul_local_refl cb_local_refl]) simp_all
  have "i = ?i" if "be_log_entry (nl_slog ?l ! i) \<noteq> be_log_entry (nl_slog l ! i)" for i
    using that by (cases "i = ?i") simp_all
  then show ?thesis
    unfolding step_sim_def step
    by (intro exI [of _ ?l] exI [of _ "goto p (AFlip t idx adv)"]) (simp add: sim [unfolded pc] pc)
qed

text \<open>Storing the alive bit puts the entry, with its token of the log, into the buffer.\<close>

definition deposit_of :: "'w CyclicBuffer \<Rightarrow> nat \<Rightarrow> 'w \<Rightarrow> NodeId \<Rightarrow> 'w StoredType" where
  "deposit_of c k op n =
     \<lparr>st_cell_perms = \<lparr>cp_pcell = cb_cell c (int k), cp_value = Some (Some (entry_of op n))\<rparr>,
      st_log_entry = Some \<lparr>lt_instance = cb_unbounded_log_instance c, lt_key = k,
        lt_value = \<lparr>le_op = op, le_node_id = n\<rparr>\<rparr>\<rparr>"

lemma deposit_ok:
  "n \<le> MAX_REPLICAS \<Longrightarrow> stored_type_inv (deposit_of c k op n) (int k) (cb_cell c (int k)) (cb_unbounded_log_instance c)"
  using unat_of_nat_small [of n] by (simp add: stored_type_inv_def deposit_of_def entry_of_def MAX_REPLICAS_def)

lemma flip_bit:
  assumes "cb_combiner c n = Some (CBAppending k t)" "k < t" "cb_buffer_size c = LOG_SIZE" "dom (cb_alive_bits c) = {..<LOG_SIZE}"
    "n \<le> MAX_REPLICAS"
    and c': "c' = c\<lparr>cb_combiner := (cb_combiner c)(n \<mapsto> CBAppending (k + 1) t),
      cb_alive_bits := (cb_alive_bits c)(k mod LOG_SIZE \<mapsto> log_entry_alive_value (int k) LOG_SIZE),
      cb_contents := (cb_contents c)(int k \<mapsto> deposit_of c k op n)\<rparr>"
  shows "cb_local n c c'"
proof (rule cb_local_step)
  have "k mod LOG_SIZE \<in> dom (cb_alive_bits c)" using assms(4) by simp
  then obtain old where "cb_alive_bits c (k mod LOG_SIZE) = Some old" by blast
  then have "append_flip_bit c n (deposit_of c k op n) = Some c'"
    using assms(1-3) deposit_ok [OF assms(5), of c k op] by (simp add: append_flip_bit_def log_entry_idx_nat c')
  then show "cb_next c c'" by (rule cb_next_append_flip_bit)
qed (simp add: c')

lemma flip_log_rel:
  assumes lr: "log_rel l g c" and ok: "cb_ok c" and a: "cb_combiner c n = Some (CBAppending k t)" "k < t"
    and cell: "be_log_entry (nl_slog l ! (k mod LOG_SIZE)) = Some (entry_of op n)"
    and log: "ul_log g k = Some \<lparr>le_op = op, le_node_id = n\<rparr>"
    and l': "l' = l\<lparr>nl_slog := (nl_slog l)[k mod LOG_SIZE := (nl_slog l ! (k mod LOG_SIZE))\<lparr>be_alive := b\<rparr>]\<rparr>"
    and b: "b = log_entry_alive_value (int k) LOG_SIZE"
    and c': "c' = c\<lparr>cb_combiner := x, cb_alive_bits := (cb_alive_bits c)(k mod LOG_SIZE \<mapsto> b),
      cb_contents := (cb_contents c)(int k \<mapsto> deposit_of c k op n)\<rparr>"
  shows "log_rel l' g c'"
proof -
  note d = log_relD [OF lr] and w = window [OF ok a]
  have same: "be_log_entry (nl_slog l' ! i) = be_log_entry (nl_slog l ! i)" for i
    using d(1) by (cases "i = k mod LOG_SIZE") (simp_all add: l')
  have "cell_rel l' g i st" if i: "cb_contents c' i = Some st" for i st
  proof (cases "i = int k")
    case True
    then show ?thesis using i cell log same by (auto simp: c' cell_rel_def deposit_of_def log_entry_idx_nat)
  next
    case False
    then have "cb_contents c i = Some st" using i by (simp add: c')
    then show ?thesis by (intro cell_rel_mono [OF d(14)]) (simp_all add: same)
  qed
  moreover have "cb_alive_bits c' i = Some (be_alive (nl_slog l' ! i))" if "i < LOG_SIZE" for i
    using d(1) d(12) [OF that] that by (cases "i = k mod LOG_SIZE") (simp_all add: c' l')
  moreover have "dom (cb_contents c') \<subseteq> {int (ul_tail g) - int LOG_SIZE ..< int (ul_tail g)}"
    using d(6,13) w(1,2) by (auto simp: c')
  ultimately show ?thesis unfolding log_rel_def using d(1-12) by (simp add: l' c')
qed

lemma flip_sim:
  assumes lr: "log_rel l g c" and nr: "node_rel l g c n p" and ok: "cb_ok c" and n: "n < ul_num_replicas g"
    and pc: "np_pc p = AFlip t idx adv"
  shows "step_sim D n R g c l p (append_step n weak l p)"
proof -
  let ?k = "unat t + idx" and ?op = "np_ops p ! idx" and ?t = "unat t + length (np_ops p)"
  obtain u v where s: "ul_combiner g n = Some u" "cb_combiner c n = Some v" "appending (ul_tail g) (ul_log g) n p t idx u v"
      "be_log_entry (nl_slog l ! (?k mod LOG_SIZE)) = Some (entry_of ?op n)"
    using node_relD(4) [OF nr] pc by auto
  note a = appendingD [OF s(3)] and d = log_relD [OF lr] and p = node_relD(1-3) [OF nr]
  obtain w where w: "u64_add t (of_nat idx) = Some w" "unat w = ?k"
    "log_index l w = ?k mod LOG_SIZE" "?k mod LOG_SIZE < length (nl_slog l)"
    by (rule logical_index [OF lr nr a(3,5)])
  note bit = is_alive_value_eq [OF w(2)]
  let ?l = "l\<lparr>nl_slog := (nl_slog l)[?k mod LOG_SIZE := (nl_slog l ! (?k mod LOG_SIZE))\<lparr>be_alive := is_alive_value w\<rparr>]\<rparr>"
  let ?p = "goto p (append_loop (length (np_ops p)) t (idx + 1) adv)"
  have step: "append_step n weak l p = Some (?l, ?p)" using pc w by (simp add: append_step_def nth_opt_def)
  have comb: "cb_combiner c n = Some (CBAppending ?k ?t)" "?k < ?t" using s(2) a(3,4) by simp_all
  let ?c = "c\<lparr>cb_combiner := (cb_combiner c)(n \<mapsto> CBAppending (?k + 1) ?t),
      cb_alive_bits := (cb_alive_bits c)(?k mod LOG_SIZE \<mapsto> log_entry_alive_value (int ?k) LOG_SIZE),
      cb_contents := (cb_contents c)(int ?k \<mapsto> deposit_of c ?k ?op n)\<rparr>"
  have c: "cb_local n c ?c"
    using n d(4) cb_okD(2,5) [OF ok] by (intro flip_bit [OF comb _ _ _ refl]) simp_all
  have lr': "log_rel ?l g ?c" by (rule flip_log_rel [OF lr ok comb s(4) a(6) refl]) (simp_all only: bit)
  have "node_sim D n R (np_pc p) g c ?l ?p"
  proof (cases "idx + 1 < length (np_ops p)")
    case True
    then have "node_rel ?l g ?c n ?p"
      using p s(1,3) a(4) by (intro node_relI [where v = "CBAppending (?k + 1) ?t"]) (simp_all add: append_loop_def appending_def)
    then show ?thesis by (intro node_simI [OF ul_local_refl c lr']) simp_all
  next
    case False
    then have last: "?k + 1 = ?t" using a(3) by simp
    have "cb_local n ?c (cb_set ?c n CBIdle)" using last by (intro append_done [of _ _ ?t]) simp
    note c' = cb_local_trans [OF c this]
    have "node_rel ?l g (cb_set ?c n CBIdle) n ?p"
      using p s(1) a(1,2) False by (intro node_relI [where u = "CPlaced (np_rids p)" and v = CBIdle]) (simp_all add: append_loop_def between_execs_def)
    moreover have "log_rel ?l g (cb_set ?c n CBIdle)" using lr' by (simp only: log_rel_cb)
    ultimately show ?thesis by (intro node_simI [OF ul_local_refl c']) simp_all
  qed
  moreover have "be_log_entry (nl_slog ?l ! i) = be_log_entry (nl_slog l ! i)" for i
    using w(4) by (cases "i = ?k mod LOG_SIZE") simp_all
  ultimately show ?thesis using step by (intro step_simI [of _ ?l ?p]) simp_all
qed

section \<open>Advancing the head\<close>

lemma head_loads_sim:
  assumes lr: "log_rel l g c" and nr: "node_rel l g c n p"
  shows "np_pc p = HLoadHead \<Longrightarrow> step_sim D n R g c l p (advance_head_step l p)"
    and "np_pc p = HLoadTail gh \<Longrightarrow> step_sim D n R g c l p (advance_head_step l p)"
proof -
  obtain u v where s: "ul_combiner g n = Some u" "cb_combiner c n = Some v"
      "pc_rel (ul_num_replicas g) (ul_tail g) (ul_log g) (nl_slog l) n p u v (ul_local_updates g) (np_pc p)"
    using node_relD(4) [OF nr] by auto
  show "step_sim D n R g c l p (advance_head_step l p)" if pc: "np_pc p = HLoadHead"
  proof -
    have "node_sim D n R (np_pc p) g c l (goto p (HLoadTail (nl_head l)))" using s pc by (intro node_sim_stay [OF lr nr s(1,2)]) simp
    then show ?thesis by (rule step_simI [rotated]) (use pc in \<open>simp_all add: advance_head_step_def\<close>)
  qed
  show "step_sim D n R g c l p (advance_head_step l p)" if pc: "np_pc p = HLoadTail gh"
  proof -
    have "node_sim D n R (np_pc p) g c l (goto p (HMinFirst gh (nl_tail l)))" using s pc by (intro node_sim_stay [OF lr nr s(1,2)]) simp
    then show ?thesis by (rule step_simI [rotated]) (use pc in \<open>simp_all add: advance_head_step_def\<close>)
  qed
qed

text \<open>
  The end of the loop over the replicas: when the minimum is the head already, the observation
  is given up.
\<close>

lemma min_loop_sim:
  assumes lr: "log_rel l g c" and nr: "node_rel l g c n p" and u: "ul_combiner g n = Some u"
    and cb: "cb_local n c (cb_set c n (CBAdvancingHead idx (unat m)))" and m: "m \<le> MAX_IDX"
    and betw: "between_execs FromAdvanceHead p u (ul_local_updates g)" and idx: "idx \<le> ul_num_replicas g"
  shows "node_sim D n R (np_pc p) g c l (goto p (min_loop (ul_num_replicas g) idx m gh gt))"
proof -
  let ?c = "cb_set c n (CBAdvancingHead idx (unat m))"
  consider "idx < ul_num_replicas g" | "idx = ul_num_replicas g" "m = gh" | "idx = ul_num_replicas g" "m \<noteq> gh"
    using idx by force
  then show ?thesis
  proof cases
    case 1
    then show ?thesis using betw m by (intro node_sim_cb [OF lr nr u cb]) (simp add: min_loop_def)
  next
    case 2
    have "cb_local n ?c (cb_set ?c n CBIdle)"
      by (intro cb_local_combiner cb_next_advance_head_abort [of _ n]) (simp add: advance_head_abort_def)
    then have "cb_local n c (cb_set c n CBIdle)" using cb_local_trans [OF cb] by simp
    then show ?thesis using betw 2 by (intro node_sim_cb [OF lr nr u]) (simp_all add: min_loop_def)
  next
    case 3
    then show ?thesis using betw m by (intro node_sim_cb [OF lr nr u cb]) (simp add: min_loop_def)
  qed
qed

lemma local_version_bound:
  assumes lr: "log_rel l g c" and ok: "cb_ok c" and i: "i < ul_num_replicas g"
  shows "unat (nl_local_versions l ! i) \<le> ul_tail g" "nl_local_versions l ! i \<le> MAX_IDX"
proof -
  have "the (cb_local_versions c i) \<le> cb_tail c" using cb_okD(9) [OF ok, of i] log_relD(3) [OF lr] i by simp
  then show "unat (nl_local_versions l ! i) \<le> ul_tail g" using log_relD(6) [OF lr] log_relD(11) [OF lr i] by simp
  then show "nl_local_versions l ! i \<le> MAX_IDX" using tail_bound [OF lr] by (simp add: word_le_nat_alt)
qed

lemma min_first_sim:
  assumes lr: "log_rel l g c" and nr: "node_rel l g c n p" and ok: "cb_ok c" and pc: "np_pc p = HMinFirst gh gt"
  shows "step_sim D n R g c l p (find_min_local_version_step l p)"
proof -
  obtain u where s: "ul_combiner g n = Some u" "cb_combiner c n = Some CBIdle" "between_execs FromAdvanceHead p u (ul_local_updates g)"
    using node_relD(4) [OF nr] pc by auto
  note d = log_relD [OF lr]
  have N: "0 < ul_num_replicas g" using cb_okD(1) [OF ok] d(3) by simp
  let ?m = "nl_local_versions l ! 0"
  have cb: "cb_local n c (cb_set c n (CBAdvancingHead 1 (unat ?m)))"
    using s(2) d(11) [OF N] by (intro cb_local_combiner cb_next_advance_head_start [of c n]) (simp add: advance_head_start_def)
  have "node_sim D n R (np_pc p) g c l (goto p (min_loop (ul_num_replicas g) 1 ?m gh gt))"
    using N by (intro min_loop_sim [OF lr nr s(1) cb local_version_bound(2) [OF lr ok N] s(3)]) simp
  then show ?thesis
    by (rule step_simI [rotated]) (use pc N d(2) in \<open>simp_all add: find_min_local_version_step_def nth_opt_def\<close>)
qed

lemma min_next_sim:
  assumes lr: "log_rel l g c" and nr: "node_rel l g c n p" and ok: "cb_ok c" and pc: "np_pc p = HMinNext idx m gh gt"
  shows "step_sim D n R g c l p (find_min_local_version_step l p)"
proof -
  obtain u where s: "ul_combiner g n = Some u" "cb_combiner c n = Some (CBAdvancingHead idx (unat m))"
      "between_execs FromAdvanceHead p u (ul_local_updates g)" "idx < ul_num_replicas g" "m \<le> MAX_IDX"
    using node_relD(4) [OF nr] pc by auto
  note d = log_relD [OF lr]
  let ?x = "nl_local_versions l ! idx"
  let ?m = "if ?x < m then ?x else m"
  have min: "unat ?m = min (unat m) (unat ?x)" by (simp add: min_def word_less_nat_alt)
  have cb: "cb_local n c (cb_set c n (CBAdvancingHead (idx + 1) (unat ?m)))"
    using s(2,4) d(3) d(11) [OF s(4)] unfolding min
    by (intro cb_local_combiner cb_next_advance_head_next [of c n]) (simp add: advance_head_next_def)
  have "?m \<le> MAX_IDX" using s(5) local_version_bound(2) [OF lr ok s(4)] by simp
  then have "node_sim D n R (np_pc p) g c l (goto p (min_loop (ul_num_replicas g) (idx + 1) ?m gh gt))"
    using s(4) by (intro min_loop_sim [OF lr nr s(1) cb _ s(3)]) simp_all
  then show ?thesis
    by (rule step_simI [rotated]) (use pc s(4) d(2) in \<open>simp_all add: find_min_local_version_step_def nth_opt_def\<close>)
qed

lemma store_head_sim:
  assumes lr: "log_rel l g c" and nr: "node_rel l g c n p" and pc: "np_pc p = HStore m gt"
  shows "step_sim D n R g c l p (advance_head_step l p)"
proof -
  obtain u where s: "ul_combiner g n = Some u" "cb_combiner c n = Some (CBAdvancingHead (ul_num_replicas g) (unat m))"
      "between_execs FromAdvanceHead p u (ul_local_updates g)" "m \<le> MAX_IDX"
    using node_relD(4) [OF nr] pc by auto
  note d = log_relD [OF lr] and p = node_relD(1-3) [OF nr]
  have len: "unat (of_nat (length (nl_slog l)) :: 64 word) = LOG_SIZE" "LOG_SIZE < 1048576"
    using d(1) by (simp_all add: LOG_SIZE_def)
  have "unat m \<le> unat MAX_IDX" using s(4) by (simp add: word_le_nat_alt)
  then have "unat m + unat (of_nat (length (nl_slog l)) :: 64 word) \<le> 18446744073709551615"
    using len(2) unfolding len(1) unat_max_idx by linarith
  then obtain limit where limit: "u64_add m (of_nat (length (nl_slog l))) = Some limit"
    using u64_add_fits by blast
  let ?c = "(cb_set c n CBIdle)\<lparr>cb_head := unat m\<rparr>"
  have "cb_next c ?c"
    using s(2) d(3) by (intro cb_next_advance_head_finish [of c n]) (simp add: advance_head_finish_def)
  then have c: "cb_local n c ?c" by (rule cb_local_step) simp
  have "log_rel (l\<lparr>nl_head := m\<rparr>) g ?c"
    unfolding log_rel_def using d by (simp add: cell_rel_def)
  moreover have "node_rel (l\<lparr>nl_head := m\<rparr>) g ?c n (goto p (ELoadLocal k))" if "k \<noteq> FromAppend" for k
    using p s(1,3) that by (intro node_relI [OF _ _ _ s(1), where v = CBIdle]) (simp_all add: between_execs_def)
  ultimately have sim: "node_sim D n R (np_pc p) g c (l\<lparr>nl_head := m\<rparr>) (goto p (ELoadLocal k))" if "k \<noteq> FromAppend" for k
    using that by (intro node_simI [OF ul_local_refl c]) simp_all
  let ?k = "if gt < limit - of_nat GC_FROM_HEAD then FromCombine else FromAdvanceHead"
  have "?k \<noteq> FromAppend" by simp
  from sim [OF this] show ?thesis
    by (rule step_simI [rotated]) (use pc limit in \<open>simp_all add: advance_head_step_def\<close>)
qed

end
