(* ===== verification/NR_Exec_Execute.thy ===== *)
theory NR_Exec_Execute
  imports NR_Exec_Append
begin

text \<open>
  The steps of \<^verbatim>\<open>execute\<close>: reading the log up to the tail, applying every entry to the
  replica, recording the responses to the combiner's own entries, and publishing the version.
\<close>

section \<open>Starting\<close>

lemma ul_load_local:
  assumes "ul_combiner g n = Some (CPlaced q)" "ul_local_versions g n = Some v"
  shows "ul_local D n R g (set_combiner g n (CLoadedLocalVersion q v))"
  using assms
  by (intro ul_local_combiner ul_next_exec_load_local_version [of g n]) (simp add: exec_load_local_version_def)

lemma ul_start_load:
  assumes "ul_combiner g n = Some CReady" "ul_local_versions g n = Some v"
  shows "ul_local D n R g (set_combiner g n (CLoadedLocalVersion [] v))"
proof -
  have "ul_local D n R (set_combiner g n (CPlaced [])) (set_combiner (set_combiner g n (CPlaced [])) n (CLoadedLocalVersion [] v))"
    using assms(2) by (intro ul_load_local) simp_all
  from ul_local_trans [OF ul_start [OF assms(1)] this] show ?thesis by simp
qed

lemma load_local_sim:
  assumes lr: "log_rel l g c" and nr: "node_rel l g c n p" and n: "n < ul_num_replicas g" and pc: "np_pc p = ELoadLocal k"
  shows "step_sim D n R g c l p (execute_step D n l p)"
proof -
  obtain u where s: "ul_combiner g n = Some u" "cb_combiner c n = Some CBIdle" "between_execs k p u (ul_local_updates g)"
    using node_relD(4) [OF nr] pc by auto
  note d = log_relD [OF lr]
  let ?lv = "nl_local_versions l ! n"
  have cb: "cb_local n c (cb_set c n (CBReading (RStarting (unat ?lv))))"
    using s(2) d(11) [OF n] by (intro cb_local_combiner cb_next_reader_start [of c n]) (simp add: reader_start_def)
  obtain q where q: "ul_local D n R g (set_combiner g n (CLoadedLocalVersion q (unat ?lv)))"
      "during k p q 0 0 (ul_local_updates g)"
  proof (cases "u = CReady")
    case True
    then have "during k p [] 0 0 (ul_local_updates g)"
      using s(3) by (auto simp: between_execs_def during_def)
    then show thesis using that ul_start_load [of g n] True s(1) d(10) [OF n] by blast
  next
    case False
    then have "u = CPlaced (np_rids p)" "k \<noteq> FromAppend" "np_responses p = []"
      using s(3) by (auto simp: between_execs_def split: if_splits)
    moreover from this have "during k p (np_rids p) 0 0 (ul_local_updates g)"
      by (simp add: during_def ups_applied_def)
    ultimately show thesis using that ul_load_local [of g n] s(1) d(10) [OF n] by blast
  qed
  have "node_sim D n R (np_pc p) g c l (goto p (ELoadTail k ?lv))"
    using q(2) by (intro node_sim_move [OF lr nr q(1) cb]) (auto simp: combiner_kept_def)
  then show ?thesis
    by (rule step_simI [rotated]) (use pc n d(2) in \<open>simp_all add: execute_step_def nth_opt_def\<close>)
qed

text \<open>What holds when \<open>execute\<close> returns is what its caller goes on with.\<close>

lemma return_rel:
  assumes "after k p ups"
  shows "pc_rel N gtail log slog n (goto p (execute_return k)) CReady CBIdle ups (execute_return k)"
  using assms by (cases k) (simp_all add: execute_return_def after_def between_execs_def)

lemma during_empty: "during k p q 0 b ups \<Longrightarrow> q = [] \<Longrightarrow> after k p ups"
  by (auto simp: during_def after_def ups_done_def ups_applied_def split: if_splits)

lemma exec_load_tail_sim:
  assumes lr: "log_rel l g c" and nr: "node_rel l g c n p" and ok: "cb_ok c" and inv: "ul_parts D g"
    and n: "n < ul_num_replicas g" and pc: "np_pc p = ELoadTail k lv"
  shows "step_sim D n R g c l p (execute_step D n l p)"
proof -
  obtain q where s: "ul_combiner g n = Some (CLoadedLocalVersion q (unat lv))"
      "cb_combiner c n = Some (CBReading (RStarting (unat lv)))" "during k p q 0 0 (ul_local_updates g)"
    using node_relD(4) [OF nr] pc by auto
  note d = log_relD [OF lr]
  show ?thesis
  proof (cases "lv = nl_tail l")
    case True
    then have lv: "unat lv = ul_tail g" using d(5) by simp
    have ul: "ul_local D n R g (set_combiner g n CReady)"
      using s(1) lv by (intro ul_local_combiner ul_next_exec_finish_no_change [of g n]) (simp add: exec_finish_no_change_def)
    have cb: "cb_local n c (cb_set c n CBIdle)"
      using s(2) by (intro cb_local_combiner cb_next_reader_abort [of c n]) (simp add: reader_abort_def)
    have "q = []" using finish_no_change_empty [OF inv] s(1) lv by simp
    then have "after k p (ul_local_updates g)" by (rule during_empty [OF s(3)])
    then have "node_sim D n R (np_pc p) g c l (goto p (execute_return k))" by (intro node_sim_move [OF lr nr ul cb] return_rel) (simp_all add: combiner_kept_def)
    then show ?thesis by (rule step_simI [rotated]) (use pc True in \<open>simp_all add: execute_step_def\<close>)
  next
    case False
    have "unat lv \<le> ul_tail g" using p_version [OF inv n] s(1) by simp
    moreover have "unat lv \<noteq> unat (nl_tail l)" using False by (simp add: word_unat_eq_iff)
    ultimately have lt: "lv < nl_tail l" using d(5) by (simp add: word_less_nat_alt)
    have ul: "ul_local D n R g (set_combiner g n (CLoop q (unat lv) 0 (ul_tail g)))"
      using s(1) by (intro ul_local_combiner ul_next_exec_load_global_head [of g n]) (simp add: exec_load_global_head_def)
    have cb: "cb_local n c (cb_set c n (CBReading (RRange (unat lv) (ul_tail g) (unat lv))))"
      using s(2) d(6) by (intro cb_local_combiner cb_next_reader_enter [of c n]) (simp add: reader_enter_def)
    have "during k p q 0 (ul_tail g) (ul_local_updates g)"
      using s(3) by (auto simp: during_def ups_applied_def split: if_splits)
    then have "node_sim D n R (np_pc p) g c l (goto p (EAlive k lv (nl_tail l)))"
      using lt d(5) by (intro node_sim_move [OF lr nr ul cb]) (auto simp: combiner_kept_def)
    then show ?thesis
      by (rule step_simI [rotated]) (use pc False lt in \<open>simp_all add: execute_step_def execute_loop_def\<close>)
  qed
qed

section \<open>Reading\<close>

lemma alive_sim:
  assumes lr: "log_rel l g c" and nr: "node_rel l g c n p" and ok: "cb_ok c" and pc: "np_pc p = EAlive k lv gt"
  shows "step_sim D n R g c l p (execute_step D n l p)"
proof -
  obtain q idx st where s: "ul_combiner g n = Some (CLoop q (unat lv) idx (unat gt))"
      "cb_combiner c n = Some (CBReading (RRange st (unat gt) (unat lv)))"
      "during k p q idx (unat gt) (ul_local_updates g)" "lv < gt"
    using node_relD(4) [OF nr] pc by auto
  note d = log_relD [OF lr]
  let ?i = "unat lv mod LOG_SIZE"
  have i: "?i < LOG_SIZE" by simp
  have idx: "log_index l lv = ?i" by (rule log_index_eq [OF d(1)])
  show ?thesis
  proof (cases "be_alive (nl_slog l ! ?i) = is_alive_value lv")
    case True
    then have "cb_alive_bits c ?i = Some (log_entry_alive_value (int (unat lv)) LOG_SIZE)"
      using d(12) [OF i] is_alive_value_eq [of lv "unat lv"] by simp
    then have cb: "cb_local n c (cb_set c n (CBReading (RGuard st (unat gt) (unat lv) (the (cb_contents c (int (unat lv)))))))"
      using s(2,4) cb_okD(2) [OF ok]
      by (intro cb_local_combiner cb_next_reader_guard [of c n]) (simp add: reader_guard_def log_entry_idx_nat word_less_nat_alt)
    have "node_sim D n R (np_pc p) g c l (goto p (ERead k lv gt))"
      using s by (intro node_sim_cb [OF lr nr s(1) cb]) auto
    then show ?thesis
      by (rule step_simI [rotated]) (use pc True i d(1) in \<open>simp_all add: execute_step_def nth_opt_def idx\<close>)
  next
    case False
    have "node_sim D n R (np_pc p) g c l (goto p (EAlive k lv gt))" using s by (intro node_sim_stay [OF lr nr s(1,2)]) auto
    moreover have "goto p (EAlive k lv gt) = p" using pc by simp
    ultimately have "node_sim D n R (np_pc p) g c l p" by simp
    then show ?thesis
      by (rule step_simI [rotated]) (use pc False i d(1) in \<open>simp_all add: execute_step_def nth_opt_def idx\<close>)
  qed
qed

text \<open>The cell under guard holds the entry of the log.\<close>

lemma guarded_entry:
  assumes lr: "log_rel l g c" and ok: "cb_ok c" and v: "cb_combiner c n = Some (CBReading (RGuard st en k val))"
  obtains entry e where "be_log_entry (nl_slog l ! (k mod LOG_SIZE)) = Some entry" "ul_log g k = Some e"
    "cle_op entry = le_op e" "unat (cle_node_id entry) = le_node_id e"
proof -
  note g = guard_guards [OF ok v]
  have "cell_rel l g (int k) val" by (rule log_relD(14) [OF lr g(1)])
  then have cell: "cp_value (st_cell_perms val) = Some (be_log_entry (nl_slog l ! (k mod LOG_SIZE)))"
    "\<exists>tok. st_log_entry val = Some tok \<and> ul_log g k = Some (lt_value tok)"
    by (simp_all add: cell_rel_def log_entry_idx_nat)
  then obtain tok where tok: "st_log_entry val = Some tok" "ul_log g k = Some (lt_value tok)" by blast
  show thesis
    using g(2) cell(1) tok that
    by (auto simp: stored_type_inv_def split: option.splits)
qed

lemma unguard:
  assumes "cb_combiner c n = Some (CBReading (RGuard st en k val))"
  shows "cb_local n c (cb_set c n (CBReading (RRange st en (k + 1))))"
  using assms by (intro cb_local_combiner cb_next_reader_unguard [of c n]) (simp add: reader_unguard_def)

text \<open>What both cases of the dispatch leave as it was.\<close>

lemma log_rel_replicas:
  assumes "log_rel l g c" and "ul_num_replicas g' = ul_num_replicas g" "ul_log g' = ul_log g" "ul_tail g' = ul_tail g"
    "ul_local_versions g' = ul_local_versions g" "ul_version_upper_bound g' = ul_version_upper_bound g"
  shows "log_rel l g' (cb_set c n v)"
  using assms by (simp add: log_rel_def cell_rel_def)

lemma loop_rel:
  assumes "during k p q idx (unat gt) ups" "v = CBReading (RRange st (unat gt) (unat lv))" "unat lv \<le> unat gt"
    "u = CLoop q (unat lv) idx (unat gt)" "np_pc p = execute_loop k lv gt"
  shows "pc_rel N gtail log slog n p u v ups (np_pc p)"
proof (cases "lv < gt")
  case False
  then have "lv = gt" using assms(3) by (simp add: word_less_nat_alt word_unat_eq_iff)
  then show ?thesis using assms by (auto simp: execute_loop_def)
qed (use assms in \<open>auto simp: execute_loop_def\<close>)

lemma during_data [simp]: "during k (p\<lparr>np_data := x\<rparr>) q i b ups = during k p q i b ups"
  by (simp add: during_def ups_new_def ups_applied_def ups_done_def)

lemma dispatch_remote_sim:
  assumes lr: "log_rel l g c" and nr: "node_rel l g c n p" and ok: "cb_ok c"
    and s: "ul_combiner g n = Some (CLoop q (unat lv) idx (unat gt))"
      "cb_combiner c n = Some (CBReading (RGuard st (unat gt) (unat lv) val))"
      "during k p q idx (unat gt) (ul_local_updates g)" "lv < gt"
    and e: "ul_log g (unat lv) = Some e" "le_node_id e \<noteq> n" and lv': "unat lv' = unat lv + 1"
  shows "node_sim D n R (np_pc p) g c l (p\<lparr>np_data := fst (dispatch_mut_spec D (np_data p) (le_op e)), np_pc := execute_loop k lv' gt\<rparr>)"
proof -
  let ?p = "p\<lparr>np_data := fst (dispatch_mut_spec D (np_data p) (le_op e)), np_pc := execute_loop k lv' gt\<rparr>"
  let ?g = "g\<lparr>ul_replicas := (ul_replicas g)(n \<mapsto> fst (dispatch_mut_spec D (np_data p) (le_op e))),
      ul_combiner := (ul_combiner g)(n \<mapsto> CLoop q (unat lv + 1) idx (unat gt))\<rparr>"
  note p = node_relD(1-3) [OF nr]
  have lt: "unat lv < unat gt" using s(4) by (simp add: word_less_nat_alt)
  have "ul_next D g ?g"
    using s(1) p(1) e lt by (intro ul_next_exec_dispatch_remote [of D g n]) (simp add: exec_dispatch_remote_def)
  then have ul: "ul_local D n R g ?g" by (rule ul_local_step) simp_all
  have lr': "log_rel l ?g (cb_set c n (CBReading (RRange st (unat gt) (unat lv + 1))))"
    by (rule log_rel_replicas [OF lr]) simp_all
  have d: "during k ?p q idx (unat gt) (ul_local_updates ?g)"
    using s(3) by simp
  have "node_rel l ?g (cb_set c n (CBReading (RRange st (unat gt) (unat lv + 1)))) n ?p"
    by (rule node_relI [OF _ _ _ _ _ loop_rel [OF d]]) (use p lv' lt in simp_all)
  then show ?thesis by (rule node_simI [OF ul unguard [OF s(2)] lr']) (simp add: combiner_kept_def)
qed

lemma dispatch_local_sim:
  assumes lr: "log_rel l g c" and nr: "node_rel l g c n p" and ok: "cb_ok c" and inv: "ul_parts D g"
    and dist: "distinct (np_rids p)" and R: "set (np_rids p) \<subseteq> R"
    and s: "ul_combiner g n = Some (CLoop q (unat lv) idx (unat gt))"
      "cb_combiner c n = Some (CBReading (RGuard st (unat gt) (unat lv) val))"
      "during k p q idx (unat gt) (ul_local_updates g)" "lv < gt"
    and e: "ul_log g (unat lv) = Some e" "le_node_id e = n" and lv': "unat lv' = unat lv + 1"
    and r: "dispatch_mut_spec D (np_data p) (le_op e) = (data, res)"
  shows "node_sim D n R (np_pc p) g c l (p\<lparr>np_data := data, np_responses := np_responses p @ [res], np_pc := execute_loop k lv' gt\<rparr>)"
proof -
  let ?p = "p\<lparr>np_data := data, np_responses := np_responses p @ [res], np_pc := execute_loop k lv' gt\<rparr>"
  have lt: "unat lv < unat gt" using s(4) by (simp add: word_less_nat_alt)
  obtain op where q: "idx < length q" "ul_local_updates g (q ! idx) = Some (UPlaced op (unat lv))"
    using pre_exec_dispatch_local [OF inv s(1) e lt] by blast
  then have k: "k \<noteq> FromAppend" and qi: "q = np_rids p" "idx = length (np_responses p)"
    and app: "ups_applied p (unat gt) (ul_local_updates g)"
    using s(3) by (auto simp: during_def split: if_splits)
  let ?rid = "np_rids p ! idx"
  let ?ups = "(ul_local_updates g)(?rid \<mapsto> UApplied res (unat lv))"
  let ?g = "g\<lparr>ul_local_updates := ?ups, ul_replicas := (ul_replicas g)(n \<mapsto> data),
      ul_combiner := (ul_combiner g)(n \<mapsto> CLoop q (unat lv + 1) (idx + 1) (unat gt))\<rparr>"
  note p = node_relD(1-3) [OF nr]
  have rid: "?rid \<in> R" using R q(1) qi(1) by auto
  have "ul_next D g ?g"
    using s(1) p(1) e lt q(2) r unfolding qi(1)
    by (intro ul_next_exec_dispatch_local [of D g n]) (simp add: exec_dispatch_local_def)
  then have ul: "ul_local D n R g ?g" by (rule ul_local_step) (use rid q(2) qi(1) in auto)
  have lr': "log_rel l ?g (cb_set c n (CBReading (RRange st (unat gt) (unat lv + 1))))"
    by (rule log_rel_replicas [OF lr]) simp_all
  have "\<exists>j<unat gt. ?ups (np_rids p ! i) = Some (UApplied (np_responses ?p ! i) j)" if i: "i < Suc idx" for i
  proof (cases "i = idx")
    case True
    then show ?thesis using lt qi(2) by (intro exI [of _ "unat lv"]) simp
  next
    case False
    then have i: "i < idx" using i by simp
    then have "np_rids p ! i \<noteq> ?rid" using dist q(1) qi(1) by (simp add: nth_eq_iff_index_eq)
    then show ?thesis using app i qi(2) by (simp add: ups_applied_def nth_append)
  qed
  then have "ups_applied ?p (unat gt) ?ups" using q(1) qi by (simp add: ups_applied_def)
  then have d: "during k ?p q (idx + 1) (unat gt) (ul_local_updates ?g)"
    using k qi by (simp add: during_def)
  have "node_rel l ?g (cb_set c n (CBReading (RRange st (unat gt) (unat lv + 1)))) n ?p"
    by (rule node_relI [OF _ _ _ _ _ loop_rel [OF d]]) (use p lv' lt in simp_all)
  then show ?thesis by (rule node_simI [OF ul unguard [OF s(2)] lr']) (simp add: combiner_kept_def)
qed

lemma read_sim:
  assumes lr: "log_rel l g c" and nr: "node_rel l g c n p" and ok: "cb_ok c" and inv: "ul_parts D g"
    and n: "n < ul_num_replicas g" and pc: "np_pc p = ERead k lv gt"
    and dist: "distinct (np_rids p)" and R: "set (np_rids p) \<subseteq> R"
  shows "step_sim D n R g c l p (execute_step D n l p)"
proof -
  obtain q idx st val where s: "ul_combiner g n = Some (CLoop q (unat lv) idx (unat gt))"
      "cb_combiner c n = Some (CBReading (RGuard st (unat gt) (unat lv) val))"
      "during k p q idx (unat gt) (ul_local_updates g)" "lv < gt"
    using node_relD(4) [OF nr] pc by auto
  note d = log_relD [OF lr]
  obtain entry e where e: "be_log_entry (nl_slog l ! (unat lv mod LOG_SIZE)) = Some entry" "ul_log g (unat lv) = Some e"
      "cle_op entry = le_op e" "unat (cle_node_id entry) = le_node_id e"
    by (rule guarded_entry [OF lr ok s(2)])
  have "unat lv + unat (1 :: 64 word) \<le> 18446744073709551615"
    using s(4) unsigned_less [of gt, where 'a = nat] by (simp add: word_less_nat_alt)
  then obtain lv' where lv': "u64_add lv 1 = Some lv'" "unat lv' = unat lv + 1"
    using u64_add_fits [of lv 1] by auto
  obtain data res where r: "dispatch_mut_spec D (np_data p) (le_op e) = (data, res)" by fastforce
  have n64: "unat (of_nat n :: 64 word) = n" using n d(4) by (intro unat_of_nat_small) (simp add: MAX_REPLICAS_def)
  have own: "cle_node_id entry = of_nat n \<longleftrightarrow> le_node_id e = n" using e(4) n64 by (metis word_unat_eq_iff)
  let ?p = "p\<lparr>np_data := data, np_responses := if cle_node_id entry = of_nat n then np_responses p @ [res]
      else np_responses p, np_pc := execute_loop k lv' gt\<rparr>"
  have step: "execute_step D n l p = Some (l, ?p)"
    using pc d(1) e(1,3) lv'(1) r by (simp add: execute_step_def nth_opt_def log_index_eq)
  have "node_sim D n R (np_pc p) g c l ?p"
  proof (cases "le_node_id e = n")
    case True
    then show ?thesis using dispatch_local_sim [OF lr nr ok inv dist R s e(2) True lv'(2) r] own by simp
  next
    case False
    then show ?thesis using dispatch_remote_sim [OF lr nr ok s e(2) False lv'(2), of D R] own r by simp
  qed
  then show ?thesis by (rule step_simI [rotated]) (simp_all add: step)
qed

section \<open>Publishing\<close>

text \<open>
  Once the version upper bound covers them, the applied requests of the combiner are done, one
  after the other.
\<close>

lemma ul_local_mono: "ul_local D n R g g' \<Longrightarrow> R \<subseteq> R' \<Longrightarrow> ul_local D n R' g g'"
  unfolding ul_local_def by blast

lemma done_all:
  assumes "\<And>i. i < length rids \<Longrightarrow> \<exists>j<ul_version_upper_bound g. ul_local_updates g (rids ! i) = Some (UApplied (resp i) j)"
    and "distinct rids"
  shows "\<exists>ups. ul_local D n (set rids) g (g\<lparr>ul_local_updates := ups\<rparr>) \<and>
    (\<forall>i<length rids. \<exists>j. ups (rids ! i) = Some (UDone (resp i) j))"
  using assms
proof (induction rids rule: rev_induct)
  case Nil
  then show ?case by (intro exI [of _ "ul_local_updates g"]) simp
next
  case (snoc rid rids)
  have before: "\<exists>j<ul_version_upper_bound g. ul_local_updates g (rids ! i) = Some (UApplied (resp i) j)"
    if "i < length rids" for i
    using snoc.prems(1) [of i] that by (simp add: nth_append)
  obtain ups where ups: "ul_local D n (set rids) g (g\<lparr>ul_local_updates := ups\<rparr>)"
      "\<forall>i<length rids. \<exists>j. ups (rids ! i) = Some (UDone (resp i) j)"
    using snoc.IH [OF before] snoc.prems(2) by auto
  obtain j where j: "j < ul_version_upper_bound g" "ul_local_updates g rid = Some (UApplied (resp (length rids)) j)"
    using snoc.prems(1) [of "length rids"] by auto
  let ?g = "g\<lparr>ul_local_updates := ups\<rparr>" and ?ups = "ups(rid \<mapsto> UDone (resp (length rids)) j)"
  have rid: "rid \<notin> set rids" using snoc.prems(2) by simp
  then have ups_rid: "ups rid = ul_local_updates g rid" using ups(1) by (simp add: ul_local_def)
  have "ul_next D ?g (g\<lparr>ul_local_updates := ?ups\<rparr>)"
    using j ups_rid by (intro ul_next_update_done [of ?g rid]) (simp add: update_done_def)
  then have one: "ul_local D n {rid} ?g (g\<lparr>ul_local_updates := ?ups\<rparr>)"
    using j ups_rid by (intro ul_local_step) auto
  have "ul_local D n (set (rids @ [rid])) g (g\<lparr>ul_local_updates := ?ups\<rparr>)"
    by (rule ul_local_trans [OF ul_local_mono [OF ups(1)] ul_local_mono [OF one]]) auto
  moreover have "\<exists>j. ?ups ((rids @ [rid]) ! i) = Some (UDone (resp i) j)" if "i < Suc (length rids)" for i
    using ups(2) rid that by (cases "i = length rids") (auto simp: nth_append in_set_conv_nth less_Suc_eq)
  ultimately show ?case unfolding length_append_singleton by blast
qed

lemma log_rel_published:
  assumes "log_rel l g c" and "unat gt = t"
  shows "log_rel (l\<lparr>nl_version_upper_bound := max (nl_version_upper_bound l) gt\<rparr>)
    (g\<lparr>ul_version_upper_bound := max (ul_version_upper_bound g) t, ul_combiner := x, ul_local_updates := ups\<rparr>) c"
proof -
  have "unat (max (nl_version_upper_bound l) gt) = max (unat (nl_version_upper_bound l)) (unat gt)"
    by (simp add: max_def word_le_nat_alt)
  then show ?thesis using assms log_relD(9) [OF assms(1)] by (simp add: log_rel_def cell_rel_def)
qed

lemma publish_sim:
  assumes lr: "log_rel l g c" and nr: "node_rel l g c n p" and inv: "ul_parts D g" and pc: "np_pc p = EPublish k gt"
    and dist: "distinct (np_rids p)" and R: "set (np_rids p) \<subseteq> R"
  shows "step_sim D n R g c l p (execute_step D n l p)"
proof -
  obtain q idx st where s: "ul_combiner g n = Some (CLoop q (unat gt) idx (unat gt))"
      "cb_combiner c n = Some (CBReading (RRange st (unat gt) (unat gt)))"
      "during k p q idx (unat gt) (ul_local_updates g)"
    using node_relD(4) [OF nr] pc by auto
  have idx: "idx = length q" by (rule pre_exec_update_version_upper_bound [OF inv s(1)])
  let ?l = "l\<lparr>nl_version_upper_bound := max (nl_version_upper_bound l) gt\<rparr>"
  let ?g = "g\<lparr>ul_version_upper_bound := max (ul_version_upper_bound g) (unat gt),
      ul_combiner := (ul_combiner g)(n \<mapsto> CUpdatedVersion q (unat gt))\<rparr>"
  have "ul_next D g ?g"
    using s(1)
    by (intro ul_next_exec_update_version_upper_bound [of g n]) (auto simp: exec_update_version_upper_bound_def max_def)
  then have ul: "ul_local D n R g ?g" by (rule ul_local_step) simp_all
  obtain ups where ups: "ul_local D n R ?g (?g\<lparr>ul_local_updates := ups\<rparr>)" "after k p ups"
  proof (cases "k \<noteq> FromAppend \<and> q = np_rids p \<and> ups_applied p (unat gt) (ul_local_updates g) \<and> idx = length (np_responses p)")
    case True
    have "\<exists>j<ul_version_upper_bound ?g. ul_local_updates ?g (np_rids p ! i) = Some (UApplied (np_responses p ! i) j)"
      if "i < length (np_rids p)" for i
      using True idx that by (auto simp: ups_applied_def less_max_iff_disj)
    from done_all [OF this dist] obtain ups where u: "ul_local D n (set (np_rids p)) ?g (?g\<lparr>ul_local_updates := ups\<rparr>)"
        "\<forall>i<length (np_rids p). \<exists>j. ups (np_rids p ! i) = Some (UDone (np_responses p ! i) j)" by blast
    have "after k p ups" using True idx u(2) by (auto simp: after_def ups_done_def)
    then show thesis using that [OF ul_local_mono [OF u(1) R]] by blast
  next
    case False
    then have "after k p (ul_local_updates ?g)" using s(3) by (auto simp: during_def after_def split: if_splits)
    then show thesis using that [of "ul_local_updates ?g"] by simp
  qed
  let ?g' = "?g\<lparr>ul_local_updates := ups\<rparr>"
  have queue: "set q \<subseteq> set (np_rids p)" using s(3) by (auto simp: during_def split: if_splits)
  have lr': "log_rel ?l ?g' c" using log_rel_published [OF lr refl] by simp
  have "node_rel ?l ?g' c n (goto p (EStore k gt))"
    using node_relD(1-3) [OF nr] s(2) ups(2) queue
    by (intro node_relI [where u = "CUpdatedVersion q (unat gt)"]) auto
  then have "node_sim D n R (np_pc p) g c ?l (goto p (EStore k gt))"
    by (rule node_simI [OF ul_local_trans [OF ul ups(1)] cb_local_refl lr']) (simp add: combiner_kept_def)
  then show ?thesis by (rule step_simI [rotated]) (use pc in \<open>simp_all add: execute_step_def\<close>)
qed

lemma log_rel_stored:
  assumes lr: "log_rel l g c" and n: "n < ul_num_replicas g"
  shows "log_rel (l\<lparr>nl_local_versions := (nl_local_versions l)[n := gt]\<rparr>)
    (g\<lparr>ul_local_versions := (ul_local_versions g)(n \<mapsto> unat gt), ul_combiner := x\<rparr>)
    (c\<lparr>cb_local_versions := (cb_local_versions c)(n \<mapsto> unat gt), cb_combiner := y\<rparr>)"
  using lr n log_relD(2) [OF lr] by (simp add: log_rel_def cell_rel_def)

lemma store_sim:
  assumes lr: "log_rel l g c" and nr: "node_rel l g c n p" and n: "n < ul_num_replicas g" and pc: "np_pc p = EStore k gt"
  shows "step_sim D n R g c l p (execute_step D n l p)"
proof -
  obtain q st where s: "ul_combiner g n = Some (CUpdatedVersion q (unat gt))"
      "cb_combiner c n = Some (CBReading (RRange st (unat gt) (unat gt)))" "after k p (ul_local_updates g)"
    using node_relD(4) [OF nr] pc by auto
  note d = log_relD [OF lr]
  let ?l = "l\<lparr>nl_local_versions := (nl_local_versions l)[n := gt]\<rparr>"
  let ?g = "g\<lparr>ul_local_versions := (ul_local_versions g)(n \<mapsto> unat gt), ul_combiner := (ul_combiner g)(n \<mapsto> CReady)\<rparr>"
  let ?c = "c\<lparr>cb_local_versions := (cb_local_versions c)(n \<mapsto> unat gt), cb_combiner := (cb_combiner c)(n \<mapsto> CBIdle)\<rparr>"
  have "ul_next D g ?g"
    using s(1) d(10) [OF n] by (intro ul_next_exec_finish [of g n]) (simp add: exec_finish_def)
  then have ul: "ul_local D n R g ?g" by (rule ul_local_step) simp_all
  have "cb_next c ?c"
    using s(2) d(11) [OF n] by (intro cb_next_reader_finish [of c n]) (simp add: reader_finish_def)
  then have cb: "cb_local n c ?c" by (rule cb_local_step) simp
  have "pc_rel N gtl lg sl n (goto p (execute_return k)) CReady CBIdle (ul_local_updates g) (execute_return k)" for N gtl lg sl
    by (rule return_rel [OF s(3)])
  then have "node_rel ?l ?g ?c n (goto p (execute_return k))"
    using node_relD(1-3) [OF nr] by (intro node_relI [where u = CReady and v = CBIdle]) simp_all
  then have "node_sim D n R (np_pc p) g c ?l (goto p (execute_return k))"
    by (rule node_simI [OF ul cb log_rel_stored [OF lr n]]) (simp add: combiner_kept_def)
  then show ?thesis by (rule step_simI [rotated]) (use pc n d(2) in \<open>simp_all add: execute_step_def\<close>)
qed

end
