(* ===== verification/NR_Simple_Log.thy ===== *)
theory NR_Simple_Log
  imports NR_Types
begin

text \<open>
  The simple log (\<^verbatim>\<open>spec/simple_log.rs\<close>): all updates are kept in one sequence, and the
  state of the data structure at a version is computed by applying that many of them. Each
  transition of the source is a partial function on states: \<open>None\<close> when a requirement
  fails.
\<close>

section \<open>State\<close>

datatype 'r ReadReq =
    RRInit 'r NodeId
  | is_RRReq: RRReq (rr_version: LogIdx) 'r NodeId

record ('r, 'w) SimpleLog =
  sl_log :: "'w list"
  sl_num_replicas :: nat
  sl_replica_versions :: "NodeId \<rightharpoonup> LogIdx"
  sl_version :: LogIdx
  sl_readonly_reqs :: "ReqId \<rightharpoonup> 'r ReadReq"
  sl_update_reqs :: "ReqId \<rightharpoonup> 'w"
  sl_update_resps :: "ReqId \<rightharpoonup> LogIdx"

text \<open>The state of the data structure after the first \<open>version\<close> updates of the log.\<close>

fun sl_compute_nrstate_at_version :: "('r, 'w, 'v, 'resp) Dispatch \<Rightarrow> 'w list \<Rightarrow> LogIdx \<Rightarrow> 'v" where
  "sl_compute_nrstate_at_version D log 0 = init_spec D"
| "sl_compute_nrstate_at_version D log (Suc v) =
     fst (dispatch_mut_spec D (sl_compute_nrstate_at_version D log v) (log ! v))"

definition sl_nrstate_at_version :: "('r, 'w, 'v, 'resp) Dispatch \<Rightarrow> ('r, 'w) SimpleLog \<Rightarrow> LogIdx \<Rightarrow> 'v" where
  "sl_nrstate_at_version D s version = sl_compute_nrstate_at_version D (sl_log s) version"

definition sl_inv_version :: "('r, 'w) SimpleLog \<Rightarrow> bool" where
  "sl_inv_version s \<longleftrightarrow> sl_version s \<le> length (sl_log s)"

definition sl_inv_update_resp_version :: "('r, 'w) SimpleLog \<Rightarrow> bool" where
  "sl_inv_update_resp_version s \<longleftrightarrow>
     (\<forall>rid\<in>dom (sl_update_resps s). the (sl_update_resps s rid) < length (sl_log s))"

definition sl_inv_readonly_req_version :: "('r, 'w) SimpleLog \<Rightarrow> bool" where
  "sl_inv_readonly_req_version s \<longleftrightarrow>
     (\<forall>rid\<in>dom (sl_readonly_reqs s).
        is_RRReq (the (sl_readonly_reqs s rid)) \<longrightarrow> rr_version (the (sl_readonly_reqs s rid)) \<le> sl_version s)"

definition sl_invariant :: "('r, 'w) SimpleLog \<Rightarrow> bool" where
  "sl_invariant s \<longleftrightarrow> sl_inv_version s \<and> sl_inv_update_resp_version s \<and> sl_inv_readonly_req_version s"

definition sl_initialize :: "nat \<Rightarrow> ('r, 'w) SimpleLog" where
  "sl_initialize num_replicas =
     \<lparr>sl_log = [], sl_num_replicas = num_replicas, sl_replica_versions = map_below num_replicas 0,
      sl_version = 0, sl_readonly_reqs = Map.empty, sl_update_reqs = Map.empty, sl_update_resps = Map.empty\<rparr>"

section \<open>Transitions\<close>

definition sl_fresh :: "('r, 'w) SimpleLog \<Rightarrow> ReqId \<Rightarrow> bool" where
  "sl_fresh s rid \<longleftrightarrow>
     rid \<notin> dom (sl_readonly_reqs s) \<and> rid \<notin> dom (sl_update_reqs s) \<and> rid \<notin> dom (sl_update_resps s)"

definition sl_readonly_start ::
    "('r, 'w) SimpleLog \<Rightarrow> ('r, 'w, 'resp) AsyncLabel \<Rightarrow> ReqId \<Rightarrow> NodeId \<Rightarrow> 'r \<Rightarrow> ('r, 'w) SimpleLog option" where
  "sl_readonly_start s label rid node_id op =
     (if label = LStart rid (InRead op node_id) \<and> sl_fresh s rid
      then Some (s\<lparr>sl_readonly_reqs := (sl_readonly_reqs s)(rid \<mapsto> RRInit op node_id)\<rparr>) else None)"

definition sl_readonly_read_version ::
    "('r, 'w) SimpleLog \<Rightarrow> ('r, 'w, 'resp) AsyncLabel \<Rightarrow> ReqId \<Rightarrow> ('r, 'w) SimpleLog option" where
  "sl_readonly_read_version s label rid =
     (case sl_readonly_reqs s rid of
        Some (RRInit op node_id) \<Rightarrow>
          if is_Internal label
          then Some (s\<lparr>sl_readonly_reqs := (sl_readonly_reqs s)(rid \<mapsto> RRReq (sl_version s) op node_id)\<rparr>) else None
      | _ \<Rightarrow> None)"

definition sl_readonly_finish ::
    "('r, 'w, 'v, 'resp) Dispatch \<Rightarrow> ('r, 'w) SimpleLog \<Rightarrow> ('r, 'w, 'resp) AsyncLabel \<Rightarrow> ReqId \<Rightarrow> LogIdx \<Rightarrow>
     'resp \<Rightarrow> ('r, 'w) SimpleLog option" where
  "sl_readonly_finish D s label rid version ret =
     (case sl_readonly_reqs s rid of
        Some (RRReq current op node_id) \<Rightarrow>
          if label = LEnd rid (OutRead ret) \<and> version \<le> the (sl_replica_versions s node_id) \<and>
             current \<le> version \<and> version \<le> length (sl_log s) \<and> version \<le> sl_version s \<and>
             ret = dispatch_spec D (sl_nrstate_at_version D s version) op
          then Some (s\<lparr>sl_readonly_reqs := (sl_readonly_reqs s)(rid := None)\<rparr>) else None
      | _ \<Rightarrow> None)"

definition sl_readonly_view_oob ::
    "('r, 'w, 'v, 'resp) Dispatch \<Rightarrow> ('r, 'w) SimpleLog \<Rightarrow> ('r, 'w, 'resp) AsyncLabel \<Rightarrow> NodeId \<Rightarrow> 'v \<Rightarrow>
     ('r, 'w) SimpleLog option" where
  "sl_readonly_view_oob D s label replica res =
     (if is_Internal label \<and> replica < sl_num_replicas s \<and>
         res = sl_nrstate_at_version D s (the (sl_replica_versions s replica))
      then Some s else None)"

definition sl_update_start ::
    "('r, 'w) SimpleLog \<Rightarrow> ('r, 'w, 'resp) AsyncLabel \<Rightarrow> ReqId \<Rightarrow> 'w \<Rightarrow> ('r, 'w) SimpleLog option" where
  "sl_update_start s label rid op =
     (if label = LStart rid (InWrite op) \<and> sl_fresh s rid
      then Some (s\<lparr>sl_update_reqs := (sl_update_reqs s)(rid \<mapsto> op)\<rparr>) else None)"

definition sl_update_add_op_to_log ::
    "('r, 'w) SimpleLog \<Rightarrow> ('r, 'w, 'resp) AsyncLabel \<Rightarrow> ReqId \<Rightarrow> ('r, 'w) SimpleLog option" where
  "sl_update_add_op_to_log s label rid =
     (case sl_update_reqs s rid of
        Some op \<Rightarrow>
          if is_Internal label
          then Some (s\<lparr>sl_log := sl_log s @ [op], sl_update_reqs := (sl_update_reqs s)(rid := None),
                       sl_update_resps := (sl_update_resps s)(rid \<mapsto> length (sl_log s))\<rparr>) else None
      | None \<Rightarrow> None)"

definition sl_update_incr_version ::
    "('r, 'w) SimpleLog \<Rightarrow> ('r, 'w, 'resp) AsyncLabel \<Rightarrow> LogIdx \<Rightarrow> ('r, 'w) SimpleLog option" where
  "sl_update_incr_version s label new_version =
     (if is_Internal label \<and> sl_version s \<le> new_version \<and> new_version \<le> length (sl_log s)
      then Some (s\<lparr>sl_version := new_version\<rparr>) else None)"

definition sl_update_finish ::
    "('r, 'w, 'v, 'resp) Dispatch \<Rightarrow> ('r, 'w) SimpleLog \<Rightarrow> ('r, 'w, 'resp) AsyncLabel \<Rightarrow> ReqId \<Rightarrow> 'resp \<Rightarrow>
     ('r, 'w) SimpleLog option" where
  "sl_update_finish D s label rid ret =
     (case sl_update_resps s rid of
        Some uidx \<Rightarrow>
          if label = LEnd rid (OutWrite ret) \<and> uidx < sl_version s \<and> sl_version s \<le> length (sl_log s) \<and>
             ret = snd (dispatch_mut_spec D (sl_nrstate_at_version D s uidx) (sl_log s ! uidx))
          then Some (s\<lparr>sl_update_resps := (sl_update_resps s)(rid := None)\<rparr>) else None
      | None \<Rightarrow> None)"

definition sl_update_replica_update ::
    "('r, 'w) SimpleLog \<Rightarrow> ('r, 'w, 'resp) AsyncLabel \<Rightarrow> NodeId \<Rightarrow> LogIdx \<Rightarrow> ('r, 'w) SimpleLog option" where
  "sl_update_replica_update s label node_id new_version =
     (if is_Internal label \<and> node_id < sl_num_replicas s \<and>
         the (sl_replica_versions s node_id) < new_version \<and> new_version \<le> length (sl_log s)
      then Some (s\<lparr>sl_replica_versions := (sl_replica_versions s)(node_id \<mapsto> new_version)\<rparr>) else None)"

definition sl_no_op ::
    "('r, 'w) SimpleLog \<Rightarrow> ('r, 'w, 'resp) AsyncLabel \<Rightarrow> ('r, 'w) SimpleLog option" where
  "sl_no_op s label = (if is_Internal label then Some s else None)"

lemmas sl_transition_defs =
  sl_readonly_start_def sl_readonly_read_version_def sl_readonly_finish_def sl_readonly_view_oob_def
  sl_update_start_def sl_update_add_op_to_log_def sl_update_incr_version_def sl_update_finish_def
  sl_update_replica_update_def sl_no_op_def

inductive sl_next ::
    "('r, 'w, 'v, 'resp) Dispatch \<Rightarrow> ('r, 'w) SimpleLog \<Rightarrow> ('r, 'w, 'resp) AsyncLabel \<Rightarrow> ('r, 'w) SimpleLog \<Rightarrow> bool"
  for D where
  sl_next_readonly_start: "sl_readonly_start s l rid n op = Some s' \<Longrightarrow> sl_next D s l s'"
| sl_next_readonly_read_version: "sl_readonly_read_version s l rid = Some s' \<Longrightarrow> sl_next D s l s'"
| sl_next_readonly_finish: "sl_readonly_finish D s l rid v ret = Some s' \<Longrightarrow> sl_next D s l s'"
| sl_next_readonly_view_oob: "sl_readonly_view_oob D s l n res = Some s' \<Longrightarrow> sl_next D s l s'"
| sl_next_update_start: "sl_update_start s l rid w = Some s' \<Longrightarrow> sl_next D s l s'"
| sl_next_update_add_op_to_log: "sl_update_add_op_to_log s l rid = Some s' \<Longrightarrow> sl_next D s l s'"
| sl_next_update_incr_version: "sl_update_incr_version s l v = Some s' \<Longrightarrow> sl_next D s l s'"
| sl_next_update_finish: "sl_update_finish D s l rid ret = Some s' \<Longrightarrow> sl_next D s l s'"
| sl_next_update_replica_update: "sl_update_replica_update s l n v = Some s' \<Longrightarrow> sl_next D s l s'"
| sl_next_no_op: "sl_no_op s l = Some s' \<Longrightarrow> sl_next D s l s'"

section \<open>Invariant\<close>

fun rr_bounded :: "LogIdx \<Rightarrow> 'r ReadReq \<Rightarrow> bool" where
  "rr_bounded version (RRInit op n) = True"
| "rr_bounded version (RRReq v op n) = (v \<le> version)"

lemma rr_bounded_mono: "rr_bounded v q \<Longrightarrow> v \<le> w \<Longrightarrow> rr_bounded w q"
  by (cases q) auto

lemma sl_invariant_iff:
  "sl_invariant s \<longleftrightarrow>
     sl_version s \<le> length (sl_log s) \<and>
     (\<forall>rid v. sl_update_resps s rid = Some v \<longrightarrow> v < length (sl_log s)) \<and>
     (\<forall>rid q. sl_readonly_reqs s rid = Some q \<longrightarrow> rr_bounded (sl_version s) q)"
proof -
  have "(is_RRReq q \<longrightarrow> rr_version q \<le> v) \<longleftrightarrow> rr_bounded v q" for q :: "'a ReadReq" and v by (cases q) auto
  then show ?thesis
    using ball_dom_iff [of "sl_update_resps s" "\<lambda>_ v. v < length (sl_log s)"]
      ball_dom_iff [of "sl_readonly_reqs s" "\<lambda>_ q. rr_bounded (sl_version s) q"]
    by (simp add: sl_invariant_def sl_inv_version_def sl_inv_update_resp_version_def sl_inv_readonly_req_version_def)
qed

lemma sl_initialize_invariant: "sl_invariant (sl_initialize n)"
  by (simp add: sl_invariant_iff sl_initialize_def)

lemma sl_next_invariant:
  assumes "sl_next D s l s'" and "sl_invariant s"
  shows "sl_invariant s'"
  using assms
  by (induction rule: sl_next.induct)
    (auto simp: sl_transition_defs sl_invariant_iff less_Suc_eq split: if_splits option.splits ReadReq.splits
      intro: order_trans elim!: rr_bounded_mono [rotated])

lemma sl_log_grows:
  assumes "sl_next D s l s'"
  shows "\<exists>ys. sl_log s' = sl_log s @ ys"
  using assms
  by (induction rule: sl_next.induct)
    (auto simp: sl_transition_defs split: if_splits option.splits ReadReq.splits)

lemma sl_compute_nrstate_append:
  "v \<le> length xs \<Longrightarrow> sl_compute_nrstate_at_version D (xs @ ys) v = sl_compute_nrstate_at_version D xs v"
  by (induction v) (simp_all add: nth_append)

text \<open>The computed state is a fold over the prefix of the log.\<close>

lemma sl_compute_nrstate_fold:
  "v \<le> length log \<Longrightarrow>
     sl_compute_nrstate_at_version D log v = fold (\<lambda>w st. fst (dispatch_mut_spec D st w)) (take v log) (init_spec D)"
  by (induction v) (simp_all add: take_Suc_conv_app_nth)

inductive sl_behavior ::
    "('r, 'w, 'v, 'resp) Dispatch \<Rightarrow> nat \<Rightarrow> ('r, 'w, 'resp) AsyncLabel list \<Rightarrow> ('r, 'w) SimpleLog \<Rightarrow> bool"
  for D n where
  sl_behavior_init: "sl_behavior D n [] (sl_initialize n)"
| sl_behavior_step: "sl_behavior D n ls s \<Longrightarrow> sl_next D s l s' \<Longrightarrow> sl_behavior D n (ls @ [l]) s'"

lemma sl_behavior_invariant: "sl_behavior D n ls s \<Longrightarrow> sl_invariant s"
  by (induction rule: sl_behavior.induct) (auto intro: sl_initialize_invariant sl_next_invariant)

end
