(* ===== verification/NR_Linearization.thy ===== *)
theory NR_Linearization
  imports NR_Simple_Log
begin

text \<open>
  Linearizability of the simple log (\<^verbatim>\<open>spec/linearization.rs\<close>, Theorem 1 of
  \<^verbatim>\<open>lib.rs\<close>): every behaviour has the same visible events as one of a data
  structure that executes each operation in one step. The source has the specification and
  the proof commented out since the simple log gained replica versions; both are stated here
  for the machine as it is. The proof goes backwards through the behaviour, carrying the
  versions at which pending reads will finish; given those, the state of the specification is
  a function of the state of the log.
\<close>

section \<open>The specification: an asynchronous singleton\<close>

record ('r, 'w, 'v, 'resp) AsynchronousSingleton =
  as_state :: 'v
  as_reqs :: "ReqId \<rightharpoonup> ('r, 'w) InputOperation"
  as_resps :: "ReqId \<rightharpoonup> 'resp OutputOperation"

definition as_initialize :: "('r, 'w, 'v, 'resp) Dispatch \<Rightarrow> ('r, 'w, 'v, 'resp) AsynchronousSingleton" where
  "as_initialize D = \<lparr>as_state = init_spec D, as_reqs = Map.empty, as_resps = Map.empty\<rparr>"

definition as_internal_next ::
    "('r, 'w, 'v, 'resp) Dispatch \<Rightarrow> ('r, 'w, 'v, 'resp) AsynchronousSingleton \<Rightarrow> ReqId \<Rightarrow>
     ('r, 'w, 'v, 'resp) AsynchronousSingleton option" where
  "as_internal_next D t rid =
     (case as_reqs t rid of
        Some (InRead read_op node_id) \<Rightarrow>
          Some (t\<lparr>as_reqs := (as_reqs t)(rid := None),
                  as_resps := (as_resps t)(rid \<mapsto> OutRead (dispatch_spec D (as_state t) read_op))\<rparr>)
      | Some (InWrite write_op) \<Rightarrow>
          (let (next_state, out) = dispatch_mut_spec D (as_state t) write_op in
           Some (t\<lparr>as_reqs := (as_reqs t)(rid := None), as_resps := (as_resps t)(rid \<mapsto> OutWrite out),
                   as_state := next_state\<rparr>))
      | None \<Rightarrow> None)"

definition as_start ::
    "('r, 'w, 'v, 'resp) AsynchronousSingleton \<Rightarrow> ReqId \<Rightarrow> ('r, 'w) InputOperation \<Rightarrow>
     ('r, 'w, 'v, 'resp) AsynchronousSingleton option" where
  "as_start t rid inp =
     (if rid \<notin> dom (as_reqs t) then Some (t\<lparr>as_reqs := (as_reqs t)(rid \<mapsto> inp)\<rparr>) else None)"

definition as_end ::
    "('r, 'w, 'v, 'resp) AsynchronousSingleton \<Rightarrow> ReqId \<Rightarrow> 'resp OutputOperation \<Rightarrow>
     ('r, 'w, 'v, 'resp) AsynchronousSingleton option" where
  "as_end t rid out =
     (if as_resps t rid = Some out then Some (t\<lparr>as_resps := (as_resps t)(rid := None)\<rparr>) else None)"

inductive as_next ::
    "('r, 'w, 'v, 'resp) Dispatch \<Rightarrow> ('r, 'w, 'v, 'resp) AsynchronousSingleton \<Rightarrow> ('r, 'w, 'resp) AsyncLabel \<Rightarrow>
     ('r, 'w, 'v, 'resp) AsynchronousSingleton \<Rightarrow> bool" for D where
  as_next_internal: "as_internal_next D t rid = Some t' \<Longrightarrow> as_next D t Internal t'"
| as_next_no_op: "as_next D t Internal t"
| as_next_start: "as_start t rid inp = Some t' \<Longrightarrow> as_next D t (LStart rid inp) t'"
| as_next_end: "as_end t rid out = Some t' \<Longrightarrow> as_next D t (LEnd rid out) t'"

inductive as_behavior ::
    "('r, 'w, 'v, 'resp) Dispatch \<Rightarrow> ('r, 'w, 'resp) AsyncLabel list \<Rightarrow> ('r, 'w, 'v, 'resp) AsynchronousSingleton \<Rightarrow> bool"
  for D where
  as_behavior_init: "as_behavior D [] (as_initialize D)"
| as_behavior_step: "as_behavior D ls t \<Longrightarrow> as_next D t l t' \<Longrightarrow> as_behavior D (ls @ [l]) t'"

text \<open>
  Equivalence of behaviours, from the last label backwards: internal labels may be dropped on
  either side, all others must agree.
\<close>

fun behavior_equiv :: "('r, 'w, 'resp) AsyncLabel list \<Rightarrow> ('r, 'w, 'resp) AsyncLabel list \<Rightarrow> bool" where
  "behavior_equiv [] [] = True"
| "behavior_equiv (a # as) [] = (is_Internal a \<and> behavior_equiv as [])"
| "behavior_equiv [] (b # bs) = (is_Internal b \<and> behavior_equiv [] bs)"
| "behavior_equiv (a # as) (b # bs) =
     ((is_Internal a \<and> behavior_equiv as (b # bs)) \<or> (is_Internal b \<and> behavior_equiv (a # as) bs) \<or>
      (a = b \<and> behavior_equiv as bs))"

definition visible :: "('r, 'w, 'resp) AsyncLabel list \<Rightarrow> ('r, 'w, 'resp) AsyncLabel list" where
  "visible ls = filter (\<lambda>l. \<not> is_Internal l) ls"

lemma visible_simps [simp]:
  "visible [] = []" "visible (ls @ ms) = visible ls @ visible ms"
  "visible (l # ls) = (if is_Internal l then visible ls else l # visible ls)"
  by (simp_all add: visible_def)

lemma behavior_equiv_visible: "behavior_equiv as bs \<longleftrightarrow> visible as = visible bs"
  by (induction as bs rule: behavior_equiv.induct) auto

lemma visible_rev: "visible (rev ls) = rev (visible ls)"
  by (simp add: visible_def rev_filter)

section \<open>Paths of the specification\<close>

inductive as_path ::
    "('r, 'w, 'v, 'resp) Dispatch \<Rightarrow> ('r, 'w, 'v, 'resp) AsynchronousSingleton \<Rightarrow> ('r, 'w, 'resp) AsyncLabel list \<Rightarrow>
     ('r, 'w, 'v, 'resp) AsynchronousSingleton \<Rightarrow> bool" for D where
  as_path_refl: "as_path D t [] t"
| as_path_step: "as_path D t ls u \<Longrightarrow> as_next D u l v \<Longrightarrow> as_path D t (ls @ [l]) v"

lemma as_path_single: "as_next D t l u \<Longrightarrow> as_path D t [l] u"
  using as_path_step [OF as_path_refl] by fastforce

lemma as_path_append: "as_path D u ms v \<Longrightarrow> as_path D t ls u \<Longrightarrow> as_path D t (ls @ ms) v"
proof (induction rule: as_path.induct)
  case (as_path_step u ms v l w)
  from as_path.as_path_step [OF as_path_step.IH [OF as_path_step.prems] as_path_step.hyps(2)] show ?case by simp
qed simp

lemma as_behavior_path: "as_path D t ms u \<Longrightarrow> as_behavior D ls t \<Longrightarrow> as_behavior D (ls @ ms) u"
proof (induction rule: as_path.induct)
  case (as_path_step t ms u l v)
  from as_behavior_step [OF as_path_step.IH [OF as_path_step.prems] as_path_step.hyps(2)] show ?case by simp
qed simp

text \<open>Internal steps only: the reads of a finite set of requests, all at the same state.\<close>

definition as_quiet where
  "as_quiet D t u \<longleftrightarrow> (\<exists>ls. as_path D t ls u \<and> visible ls = [])"

lemma as_quiet_refl [simp]: "as_quiet D t t"
  unfolding as_quiet_def by (rule exI [of _ "[]"]) (simp add: as_path_refl)

lemma as_quiet_trans: "as_quiet D t u \<Longrightarrow> as_quiet D u v \<Longrightarrow> as_quiet D t v"
  unfolding as_quiet_def by (metis append_is_Nil_conv as_path_append visible_simps(2))

lemma as_quiet_internal: "as_internal_next D t rid = Some u \<Longrightarrow> as_quiet D t u"
  unfolding as_quiet_def by (rule exI [of _ "[Internal]"]) (simp add: as_path_single as_next_internal)

fun read_result :: "('r, 'w, 'v, 'resp) Dispatch \<Rightarrow> 'v \<Rightarrow> ('r, 'w) InputOperation \<Rightarrow> 'resp OutputOperation option" where
  "read_result D st (InRead op n) = Some (OutRead (dispatch_spec D st op))"
| "read_result D st (InWrite op) = None"

definition run_reads where
  "run_reads D t R =
     t\<lparr>as_reqs := (\<lambda>rid. if rid \<in> R then None else as_reqs t rid),
       as_resps := (\<lambda>rid. if rid \<in> R then Option.bind (as_reqs t rid) (read_result D (as_state t)) else as_resps t rid)\<rparr>"

lemma run_reads_quiet:
  assumes "finite R" and "\<And>rid. rid \<in> R \<Longrightarrow> \<exists>op n. as_reqs t rid = Some (InRead op n)"
  shows "as_quiet D t (run_reads D t R)"
  using assms
proof (induction R)
  case empty
  have "run_reads D t {} = t" by (simp add: run_reads_def)
  then show ?case by simp
next
  case (insert rid R)
  obtain op n where req: "as_reqs t rid = Some (InRead op n)" using insert.prems by blast
  have "as_internal_next D (run_reads D t R) rid = Some (run_reads D t (insert rid R))"
    using insert.hyps(2) req by (auto simp: as_internal_next_def run_reads_def fun_eq_iff)
  then show ?case using insert.IH insert.prems by (blast intro: as_quiet_trans as_quiet_internal)
qed

section \<open>Updates in the log\<close>

text \<open>
  The requests of the three maps are different, every index of the log answers at most one
  request, and every index at or above the version still has a request waiting for it.
\<close>

definition sl_placed :: "('r, 'w) SimpleLog \<Rightarrow> bool" where
  "sl_placed s \<longleftrightarrow>
     sl_invariant s \<and> dom (sl_readonly_reqs s) \<inter> dom (sl_update_reqs s) = {} \<and>
     dom (sl_readonly_reqs s) \<inter> dom (sl_update_resps s) = {} \<and> dom (sl_update_reqs s) \<inter> dom (sl_update_resps s) = {} \<and>
     (\<forall>rid rid' v. sl_update_resps s rid = Some v \<longrightarrow> sl_update_resps s rid' = Some v \<longrightarrow> rid = rid') \<and>
     (\<forall>v. sl_version s \<le> v \<and> v < length (sl_log s) \<longrightarrow> (\<exists>rid. sl_update_resps s rid = Some v))"

lemma sl_placedD:
  assumes "sl_placed s"
  shows "sl_version s \<le> length (sl_log s)"
    and "sl_update_resps s rid = Some v \<Longrightarrow> v < length (sl_log s)"
    and "sl_readonly_reqs s rid = Some q \<Longrightarrow> rr_bounded (sl_version s) q"
    and "sl_readonly_reqs s rid = Some q \<Longrightarrow> sl_update_reqs s rid = None \<and> sl_update_resps s rid = None"
    and "sl_update_reqs s rid = Some w \<Longrightarrow> sl_readonly_reqs s rid = None \<and> sl_update_resps s rid = None"
    and "sl_update_resps s rid = Some v \<Longrightarrow> sl_readonly_reqs s rid = None \<and> sl_update_reqs s rid = None"
    and "sl_update_resps s rid = Some v \<Longrightarrow> sl_update_resps s rid' = Some v \<Longrightarrow> rid = rid'"
    and "sl_version s \<le> v \<Longrightarrow> v < length (sl_log s) \<Longrightarrow> \<exists>rid. sl_update_resps s rid = Some v"
  using assms unfolding sl_placed_def sl_invariant_iff by blast+

lemma sl_placedI:
  assumes "sl_invariant s"
    and "\<And>rid q. sl_readonly_reqs s rid = Some q \<Longrightarrow> sl_update_reqs s rid = None \<and> sl_update_resps s rid = None"
    and "\<And>rid w. sl_update_reqs s rid = Some w \<Longrightarrow> sl_update_resps s rid = None"
    and "\<And>rid rid' v. sl_update_resps s rid = Some v \<Longrightarrow> sl_update_resps s rid' = Some v \<Longrightarrow> rid = rid'"
    and "\<And>v. sl_version s \<le> v \<Longrightarrow> v < length (sl_log s) \<Longrightarrow> \<exists>rid. sl_update_resps s rid = Some v"
  shows "sl_placed s"
  unfolding sl_placed_def using assms by (simp add: disjoint_iff domIff) (metis option.exhaust)

lemma sl_placed_frame:
  assumes p: "sl_placed s" and inv: "sl_invariant s'"
    and same: "sl_log s' = sl_log s" "sl_update_resps s' = sl_update_resps s" "sl_version s \<le> sl_version s'"
    and read: "\<And>rid q. sl_readonly_reqs s' rid = Some q \<Longrightarrow> sl_update_reqs s' rid = None \<and> sl_update_resps s rid = None"
    and update: "\<And>rid w. sl_update_reqs s' rid = Some w \<Longrightarrow> sl_update_resps s rid = None"
  shows "sl_placed s'"
  by (rule sl_placedI [OF inv]) (use same read update sl_placedD(7,8) [OF p] in auto)

lemma sl_initialize_placed: "sl_placed (sl_initialize n)"
  by (rule sl_placedI) (simp_all add: sl_initialize_invariant, simp_all add: sl_initialize_def)

lemma sl_next_placed:
  assumes step: "sl_next D s l s'" and p: "sl_placed s"
  shows "sl_placed s'"
proof -
  note d = sl_placedD [OF p]
  have inv: "sl_invariant s'" using sl_next_invariant [OF step] p by (simp add: sl_placed_def)
  show ?thesis
    using step
  proof (cases rule: sl_next.cases)
    case (sl_next_update_add_op_to_log rid)
    then obtain w where s: "sl_update_reqs s rid = Some w"
        "s' = s\<lparr>sl_log := sl_log s @ [w], sl_update_reqs := (sl_update_reqs s)(rid := None),
                sl_update_resps := (sl_update_resps s)(rid \<mapsto> length (sl_log s))\<rparr>"
      by (auto simp: sl_update_add_op_to_log_def split: option.splits if_splits)
    show ?thesis
    proof (rule sl_placedI [OF inv])
      show "\<exists>rid. sl_update_resps s' rid = Some v" if v: "sl_version s' \<le> v" "v < length (sl_log s')" for v
      proof (cases "v = length (sl_log s)")
        case False
        then obtain rid' where "sl_update_resps s rid' = Some v" using v s(2) d(8) [of v] by auto
        then show ?thesis using d(5) [OF s(1)] s(2) by (intro exI [of _ rid']) auto
      qed (auto simp: s(2))
      show "sl_update_reqs s' r = None \<and> sl_update_resps s' r = None" if "sl_readonly_reqs s' r = Some q" for r q
        using that d(4) [of r q] d(5) [OF s(1)] s(2) by (cases "r = rid") simp_all
      show "sl_update_resps s' r = None" if "sl_update_reqs s' r = Some w" for r w
        using that d(5) [of r w] s(2) by (cases "r = rid") simp_all
      show "r = r'" if "sl_update_resps s' r = Some v" "sl_update_resps s' r' = Some v" for r r' v
        using that d(2) [of _ "length (sl_log s)"] d(7) [of r v r'] s(2) by (simp split: if_splits) blast+
    qed
  next
    case (sl_next_update_finish rid ret)
    then obtain i where s: "sl_update_resps s rid = Some i" "i < sl_version s"
        "s' = s\<lparr>sl_update_resps := (sl_update_resps s)(rid := None)\<rparr>"
      by (auto simp: sl_update_finish_def split: option.splits if_splits)
    show ?thesis
    proof (rule sl_placedI [OF inv])
      show "\<exists>rid. sl_update_resps s' rid = Some v" if v: "sl_version s' \<le> v" "v < length (sl_log s')" for v
      proof -
        obtain rid' where "sl_update_resps s rid' = Some v" using v s(3) d(8) [of v] by auto
        moreover from this have "rid' \<noteq> rid" using v(1) s by auto
        ultimately show ?thesis using s(3) by auto
      qed
    qed (use s d(4,5,7) in \<open>auto split: if_splits\<close>)
  next
    case (sl_next_readonly_view_oob n res)
    then have "s' = s" by (simp add: sl_readonly_view_oob_def split: if_splits)
    then show ?thesis using p by simp
  next
    case sl_next_no_op
    then have "s' = s" by (simp add: sl_no_op_def split: if_splits)
    then show ?thesis using p by simp
  qed (rule sl_placed_frame [OF p inv]; auto simp: sl_transition_defs sl_fresh_def domIff dest: d(4,5)
      split: if_splits option.splits ReadReq.splits)+
qed

lemma sl_behavior_placed: "sl_behavior D n ls s \<Longrightarrow> sl_placed s"
  by (induction rule: sl_behavior.induct) (auto intro: sl_initialize_placed sl_next_placed)

section \<open>The state of the specification\<close>

text \<open>
  A point is the version at which a pending read will take its result, known only from the
  future of the behaviour.
\<close>

definition future_rid_ok :: "('r, 'w) SimpleLog \<Rightarrow> ReqId \<Rightarrow> LogIdx \<Rightarrow> bool" where
  "future_rid_ok s rid version \<longleftrightarrow>
     (case sl_readonly_reqs s rid of
        Some (RRInit op n) \<Rightarrow> sl_version s \<le> version
      | Some (RRReq v op n) \<Rightarrow> v \<le> version
      | None \<Rightarrow> False)"

definition future_points_ok :: "('r, 'w) SimpleLog \<Rightarrow> (ReqId \<rightharpoonup> LogIdx) \<Rightarrow> bool" where
  "future_points_ok s r_points \<longleftrightarrow>
     finite (dom r_points) \<and> (\<forall>rid\<in>dom r_points. future_rid_ok s rid (the (r_points rid)))"

text \<open>
  A read that has its version is answered once the log has reached its point; an update is
  answered once the log's version has passed its index.
\<close>

definition point_passed :: "(ReqId \<rightharpoonup> LogIdx) \<Rightarrow> ('r, 'w) SimpleLog \<Rightarrow> ReqId \<Rightarrow> bool" where
  "point_passed r s rid \<longleftrightarrow> (case r rid of None \<Rightarrow> False | Some v \<Rightarrow> v \<le> sl_version s)"

definition as_req_of :: "(ReqId \<rightharpoonup> LogIdx) \<Rightarrow> ('r, 'w) SimpleLog \<Rightarrow> ReqId \<rightharpoonup> ('r, 'w) InputOperation" where
  "as_req_of r s rid =
     (case sl_readonly_reqs s rid of
        Some (RRInit op n) \<Rightarrow> Some (InRead op n)
      | Some (RRReq v op n) \<Rightarrow> if point_passed r s rid then None else Some (InRead op n)
      | None \<Rightarrow>
          (case sl_update_reqs s rid of
             Some w \<Rightarrow> Some (InWrite w)
           | None \<Rightarrow>
               (case sl_update_resps s rid of
                  Some i \<Rightarrow> if i < sl_version s then None else Some (InWrite (sl_log s ! i))
                | None \<Rightarrow> None)))"

definition as_resp_of ::
    "('r, 'w, 'v, 'resp) Dispatch \<Rightarrow> (ReqId \<rightharpoonup> LogIdx) \<Rightarrow> ('r, 'w) SimpleLog \<Rightarrow> ReqId \<rightharpoonup> 'resp OutputOperation" where
  "as_resp_of D r s rid =
     (case sl_readonly_reqs s rid of
        Some (RRInit op n) \<Rightarrow> None
      | Some (RRReq v op n) \<Rightarrow>
          if point_passed r s rid then Some (OutRead (dispatch_spec D (sl_nrstate_at_version D s (the (r rid))) op))
          else None
      | None \<Rightarrow>
          (case sl_update_resps s rid of
             Some i \<Rightarrow>
               if i < sl_version s
               then Some (OutWrite (snd (dispatch_mut_spec D (sl_nrstate_at_version D s i) (sl_log s ! i)))) else None
           | None \<Rightarrow> None))"

definition as_of ::
    "('r, 'w, 'v, 'resp) Dispatch \<Rightarrow> (ReqId \<rightharpoonup> LogIdx) \<Rightarrow> ('r, 'w) SimpleLog \<Rightarrow> ('r, 'w, 'v, 'resp) AsynchronousSingleton" where
  "as_of D r s =
     \<lparr>as_state = sl_nrstate_at_version D s (sl_version s), as_reqs = as_req_of r s, as_resps = as_resp_of D r s\<rparr>"

lemmas as_of_defs = as_of_def as_req_of_def as_resp_of_def point_passed_def

lemma as_of_initialize: "as_of D Map.empty (sl_initialize n) = as_initialize D"
  by (simp add: as_of_defs as_initialize_def sl_initialize_def sl_nrstate_at_version_def fun_eq_iff)

section \<open>The version advances\<close>

lemma as_of_incr_one:
  assumes p: "sl_placed s" and fin: "finite (dom r)" and v: "sl_version s < length (sl_log s)"
  shows "as_quiet D (as_of D r s) (as_of D r (s\<lparr>sl_version := Suc (sl_version s)\<rparr>))"
proof -
  let ?v = "sl_version s"
  note d = sl_placedD [OF p]
  obtain rid where rid: "sl_update_resps s rid = Some ?v" using d(8) [of ?v] v by blast
  then have "as_reqs (as_of D r s) rid = Some (InWrite (sl_log s ! ?v))" using d(6) by (simp add: as_of_defs)
  then obtain t where t: "as_internal_next D (as_of D r s) rid = Some t"
      "t = \<lparr>as_state = sl_nrstate_at_version D s (Suc ?v), as_reqs = (as_req_of r s)(rid := None),
           as_resps = (as_resp_of D r s)(rid \<mapsto> OutWrite (snd (dispatch_mut_spec D (sl_nrstate_at_version D s ?v) (sl_log s ! ?v))))\<rparr>"
    by (auto simp: as_internal_next_def as_of_def sl_nrstate_at_version_def split: prod.splits)
  define R where "R = {x. r x = Some (Suc ?v) \<and> (\<exists>k op n. sl_readonly_reqs s x = Some (RRReq k op n))}"
  have R: "\<exists>op n. as_reqs t x = Some (InRead op n)" if "x \<in> R" for x
    using that d(6) [OF rid] by (auto simp: R_def t(2) as_req_of_def point_passed_def)
  have "finite R" by (rule finite_subset [OF _ fin]) (auto simp: R_def)
  then have "as_quiet D t (run_reads D t R)" using R by (rule run_reads_quiet)
  moreover have "run_reads D t R = as_of D r (s\<lparr>sl_version := Suc ?v\<rparr>)"
  proof (rule AsynchronousSingleton.equality)
    have other: "i = ?v \<longleftrightarrow> x = rid" if "sl_update_resps s x = Some i" for i x
      using that rid d(7) by auto
    have norid: "rid \<notin> R" "sl_readonly_reqs s rid = None" "sl_update_reqs s rid = None"
      using d(6) [OF rid] by (auto simp: R_def)
    show "as_reqs (run_reads D t R) = as_reqs (as_of D r (s\<lparr>sl_version := Suc ?v\<rparr>))"
      using rid norid other
      by (auto simp: fun_eq_iff run_reads_def t(2) as_of_defs R_def less_Suc_eq le_Suc_eq
          split: option.splits ReadReq.splits)
    show "as_resps (run_reads D t R) = as_resps (as_of D r (s\<lparr>sl_version := Suc ?v\<rparr>))"
      using rid norid other
      by (auto simp: fun_eq_iff run_reads_def t(2) as_of_defs R_def less_Suc_eq le_Suc_eq sl_nrstate_at_version_def
          split: option.splits ReadReq.splits)
  qed (simp_all add: run_reads_def t(2) as_of_def sl_nrstate_at_version_def)
  ultimately show ?thesis using as_quiet_internal [OF t(1)] as_quiet_trans by metis
qed

lemma as_of_incr:
  assumes "sl_placed s" and "finite (dom r)" and "sl_version s + k \<le> length (sl_log s)"
  shows "as_quiet D (as_of D r s) (as_of D r (s\<lparr>sl_version := sl_version s + k\<rparr>))"
  using assms(3)
proof (induction k)
  case 0
  have "s\<lparr>sl_version := sl_version s\<rparr> = s" by simp
  then show ?case by simp
next
  case (Suc k)
  let ?s = "s\<lparr>sl_version := sl_version s + k\<rparr>"
  have "sl_next (D :: ('a, 'b, 'c, 'd) Dispatch) s Internal ?s"
    using Suc.prems by (intro sl_next_update_incr_version [where v = "sl_version s + k"]) (simp add: sl_update_incr_version_def)
  then have "sl_placed ?s" using assms(1) by (rule sl_next_placed)
  from as_of_incr_one [OF this assms(2)] have "as_quiet D (as_of D r ?s) (as_of D r (s\<lparr>sl_version := sl_version s + Suc k\<rparr>))"
    using Suc.prems by simp
  with Suc show ?case by (metis add_leD1 add_Suc_right Suc_leD as_quiet_trans)
qed

section \<open>Each step, backwards\<close>

lemma future_points_okD:
  assumes "future_points_ok s r"
  shows "finite (dom r)" and "r rid = Some v \<Longrightarrow> future_rid_ok s rid v"
  using assms unfolding future_points_ok_def by force+

lemma future_points_okI:
  assumes "finite (dom r)" and "\<And>rid v. r rid = Some v \<Longrightarrow> future_rid_ok s rid v"
  shows "future_points_ok s r"
  using assms unfolding future_points_ok_def by force

lemma future_points_transfer:
  assumes r: "future_points_ok s' r" and fin: "finite (dom r) \<Longrightarrow> finite (dom g)"
    and pt: "\<And>x v. g x = Some v \<Longrightarrow> (r x = Some v \<and> (future_rid_ok s' x v \<longrightarrow> future_rid_ok s x v)) \<or> future_rid_ok s x v"
  shows "future_points_ok s g"
  by (rule future_points_okI) (use fin future_points_okD [OF r] pt in blast)+

text \<open>
  \<open>sim D s l s'\<close>: for all points of the future after the step there are points of
  the future before it, such that the specification has a path with the same visible event.
\<close>

definition sim where
  "sim D s l s' \<longleftrightarrow>
     (\<forall>r'. future_points_ok s' r' \<longrightarrow>
        (\<exists>r ls. future_points_ok s r \<and> as_path D (as_of D r s) ls (as_of D r' s') \<and> visible ls = visible [l]))"

lemma simI:
  assumes "\<And>r'. future_points_ok s' r' \<Longrightarrow> future_points_ok s (f r')"
    and "\<And>r'. future_points_ok s' r' \<Longrightarrow>
      \<exists>ls. as_path D (as_of D (f r') s) ls (as_of D r' s') \<and> visible ls = visible [l]"
  shows "sim D s l s'"
  unfolding sim_def using assms by blast

lemma sim_visible:
  assumes "\<And>r'. future_points_ok s' r' \<Longrightarrow> future_points_ok s (f r')"
    and "\<And>r'. future_points_ok s' r' \<Longrightarrow> as_next D (as_of D (f r') s) l (as_of D r' s')"
  shows "sim D s l s'"
  by (rule simI [where f = f]) (use assms as_path_single in blast)+

lemma sim_quiet:
  assumes "is_Internal l" and "\<And>r'. future_points_ok s' r' \<Longrightarrow> future_points_ok s r'"
    and "\<And>r'. future_points_ok s' r' \<Longrightarrow> as_quiet D (as_of D r' s) (as_of D r' s')"
  shows "sim D s l s'"
  using assms by (intro simI [where f = "\<lambda>r. r"]) (simp_all add: as_quiet_def)

lemma sim_readonly_start:
  assumes p: "sl_placed s" and step: "sl_readonly_start s l rid n op = Some s'"
  shows "sim D s l s'"
proof -
  have s: "l = LStart rid (InRead op n)" "sl_fresh s rid"
      "s' = s\<lparr>sl_readonly_reqs := (sl_readonly_reqs s)(rid \<mapsto> RRInit op n)\<rparr>"
    using step by (simp_all add: sl_readonly_start_def split: if_splits)
  note f = s(2) [unfolded sl_fresh_def domIff not_not]
  show ?thesis
  proof (rule sim_visible [where f = "\<lambda>r. r(rid := None)"])
    fix r assume r: "future_points_ok s' r"
    show "future_points_ok s (r(rid := None))"
      by (rule future_points_transfer [OF r])
        (auto simp: future_rid_ok_def s(3) split: if_splits option.splits ReadReq.splits)
    have "as_start (as_of D (r(rid := None)) s) rid (InRead op n) = Some (as_of D r s')"
      using f by (auto simp: as_start_def as_of_defs s(3) fun_eq_iff sl_nrstate_at_version_def
          split: option.splits ReadReq.splits)
    then show "as_next D (as_of D (r(rid := None)) s) l (as_of D r s')" unfolding s(1) by (rule as_next_start)
  qed
qed

lemma sim_readonly_read_version:
  assumes p: "sl_placed s" and step: "sl_readonly_read_version s l rid = Some s'"
  shows "sim D s l s'"
proof -
  obtain op n where s: "sl_readonly_reqs s rid = Some (RRInit op n)" "is_Internal l"
      "s' = s\<lparr>sl_readonly_reqs := (sl_readonly_reqs s)(rid \<mapsto> RRReq (sl_version s) op n)\<rparr>"
    using step by (auto simp: sl_readonly_read_version_def split: option.splits ReadReq.splits if_splits)
  show ?thesis
  proof (rule sim_quiet [OF s(2)])
    fix r assume r: "future_points_ok s' r"
    show "future_points_ok s r"
      by (rule future_points_transfer [OF r])
        (auto simp: future_rid_ok_def s(1,3) split: if_splits option.splits ReadReq.splits)
    show "as_quiet D (as_of D r s) (as_of D r s')"
    proof (cases "point_passed r s rid")
      case True
      then have pt: "r rid = Some (sl_version s)"
        using future_points_okD(2) [OF r, of rid] s(3) by (auto simp: point_passed_def future_rid_ok_def split: option.splits)
      have "as_internal_next D (as_of D r s) rid = Some (as_of D r s')"
        using s pt by (auto simp: as_internal_next_def as_of_defs fun_eq_iff sl_nrstate_at_version_def
            split: option.splits ReadReq.splits)
      then show ?thesis by (rule as_quiet_internal)
    next
      case False
      then have "as_of D r s' = as_of D r s"
        using s by (auto simp: as_of_defs fun_eq_iff sl_nrstate_at_version_def split: option.splits ReadReq.splits)
      then show ?thesis by simp
    qed
  qed
qed

lemma sim_readonly_finish:
  assumes p: "sl_placed s" and step: "sl_readonly_finish D s l rid v ret = Some s'"
  shows "sim D s l s'"
proof -
  obtain k op n where s: "sl_readonly_reqs s rid = Some (RRReq k op n)" "l = LEnd rid (OutRead ret)" "k \<le> v"
      "v \<le> sl_version s" "ret = dispatch_spec D (sl_nrstate_at_version D s v) op"
      "s' = s\<lparr>sl_readonly_reqs := (sl_readonly_reqs s)(rid := None)\<rparr>"
    using step by (auto simp: sl_readonly_finish_def split: option.splits ReadReq.splits if_splits)
  have u: "sl_update_reqs s rid = None" "sl_update_resps s rid = None" using sl_placedD(4) [OF p s(1)] by simp_all
  show ?thesis
  proof (rule sim_visible [where f = "\<lambda>r. r(rid \<mapsto> v)"])
    fix r assume r: "future_points_ok s' r"
    show "future_points_ok s (r(rid \<mapsto> v))"
      by (rule future_points_transfer [OF r])
        (use s(3) in \<open>auto simp: future_rid_ok_def s(1,6) split: if_splits option.splits ReadReq.splits\<close>)
    have "as_end (as_of D (r(rid \<mapsto> v)) s) rid (OutRead ret) = Some (as_of D r s')"
      using s u by (auto simp: as_end_def as_of_defs fun_eq_iff sl_nrstate_at_version_def
          split: option.splits ReadReq.splits)
    then show "as_next D (as_of D (r(rid \<mapsto> v)) s) l (as_of D r s')" unfolding s(2) by (rule as_next_end)
  qed
qed

lemma sim_update_start:
  assumes p: "sl_placed s" and step: "sl_update_start s l rid w = Some s'"
  shows "sim D s l s'"
proof -
  have s: "l = LStart rid (InWrite w)" "sl_fresh s rid" "s' = s\<lparr>sl_update_reqs := (sl_update_reqs s)(rid \<mapsto> w)\<rparr>"
    using step by (simp_all add: sl_update_start_def split: if_splits)
  note f = s(2) [unfolded sl_fresh_def domIff not_not]
  show ?thesis
  proof (rule sim_visible [where f = "\<lambda>r. r"])
    fix r assume r: "future_points_ok s' r"
    then show "future_points_ok s r" using s(3) by (simp add: future_points_ok_def future_rid_ok_def cong: option.case_cong ReadReq.case_cong)
    have "as_start (as_of D r s) rid (InWrite w) = Some (as_of D r s')"
      using f by (auto simp: as_start_def as_of_defs s(3) fun_eq_iff sl_nrstate_at_version_def
          split: option.splits ReadReq.splits)
    then show "as_next D (as_of D r s) l (as_of D r s')" unfolding s(1) by (rule as_next_start)
  qed
qed

lemma sim_update_add_op_to_log:
  assumes p: "sl_placed s" and step: "sl_update_add_op_to_log s l rid = Some s'"
  shows "sim D s l s'"
proof -
  obtain w where s: "sl_update_reqs s rid = Some w" "is_Internal l"
      "s' = s\<lparr>sl_log := sl_log s @ [w], sl_update_reqs := (sl_update_reqs s)(rid := None),
              sl_update_resps := (sl_update_resps s)(rid \<mapsto> length (sl_log s))\<rparr>"
    using step by (auto simp: sl_update_add_op_to_log_def split: option.splits if_splits)
  note d = sl_placedD [OF p]
  have st: "sl_nrstate_at_version D s' k = sl_nrstate_at_version D s k" if "k \<le> length (sl_log s)" for k
    using that s(3) by (simp add: sl_nrstate_at_version_def sl_compute_nrstate_append)
  show ?thesis
  proof (rule sim_quiet [OF s(2)])
    fix r assume r: "future_points_ok s' r"
    then show "future_points_ok s r" using s(3) by (simp add: future_points_ok_def future_rid_ok_def cong: option.case_cong ReadReq.case_cong)
    have "as_of D r s' = as_of D r s"
    proof (rule AsynchronousSingleton.equality)
      show "as_state (as_of D r s') = as_state (as_of D r s)" using st d(1) s(3) by (simp add: as_of_def)
      show "as_reqs (as_of D r s') = as_reqs (as_of D r s)"
        using s d(1,2,5) by (auto simp: as_of_defs fun_eq_iff nth_append split: option.splits ReadReq.splits)
      show "as_resps (as_of D r s') = as_resps (as_of D r s)"
        using s d(1,2,5) st by (auto simp: as_of_defs fun_eq_iff nth_append split: option.splits ReadReq.splits)
    qed simp
    then show "as_quiet D (as_of D r s) (as_of D r s')" by simp
  qed
qed

lemma sim_update_incr_version:
  assumes p: "sl_placed s" and step: "sl_update_incr_version s l v = Some s'"
  shows "sim D s l s'"
proof -
  have s: "is_Internal l" "sl_version s \<le> v" "v \<le> length (sl_log s)" "s' = s\<lparr>sl_version := v\<rparr>"
    using step by (simp_all add: sl_update_incr_version_def split: if_splits)
  show ?thesis
  proof (rule sim_quiet [OF s(1)])
    fix r assume r: "future_points_ok s' r"
    show "future_points_ok s r"
      by (rule future_points_transfer [OF r])
        (use s(2) in \<open>auto simp: future_rid_ok_def s(4) split: option.splits ReadReq.splits\<close>)
    show "as_quiet D (as_of D r s) (as_of D r s')"
      using as_of_incr [OF p future_points_okD(1) [OF r], of "v - sl_version s" D] s(2-4) by simp
  qed
qed

lemma sim_update_finish:
  assumes p: "sl_placed s" and step: "sl_update_finish D s l rid ret = Some s'"
  shows "sim D s l s'"
proof -
  obtain i where s: "sl_update_resps s rid = Some i" "l = LEnd rid (OutWrite ret)" "i < sl_version s"
      "ret = snd (dispatch_mut_spec D (sl_nrstate_at_version D s i) (sl_log s ! i))"
      "s' = s\<lparr>sl_update_resps := (sl_update_resps s)(rid := None)\<rparr>"
    using step by (auto simp: sl_update_finish_def split: option.splits if_splits)
  have u: "sl_readonly_reqs s rid = None" "sl_update_reqs s rid = None" using sl_placedD(6) [OF p s(1)] by simp_all
  show ?thesis
  proof (rule sim_visible [where f = "\<lambda>r. r"])
    fix r assume r: "future_points_ok s' r"
    then show "future_points_ok s r" using s(5) by (simp add: future_points_ok_def future_rid_ok_def cong: option.case_cong ReadReq.case_cong)
    have "as_end (as_of D r s) rid (OutWrite ret) = Some (as_of D r s')"
      using s u by (auto simp: as_end_def as_of_defs fun_eq_iff sl_nrstate_at_version_def
          split: option.splits ReadReq.splits)
    then show "as_next D (as_of D r s) l (as_of D r s')" unfolding s(2) by (rule as_next_end)
  qed
qed

text \<open>Steps that change nothing the specification sees.\<close>

lemma sim_same:
  assumes "is_Internal l" and s': "s' = s\<lparr>sl_replica_versions := m\<rparr>"
  shows "sim D s l s'"
proof (rule sim_quiet [OF assms(1)])
  fix r assume "future_points_ok s' r"
  then show "future_points_ok s r"
    using s' by (simp add: future_points_ok_def future_rid_ok_def cong: option.case_cong ReadReq.case_cong)
  have "as_of D r s' = as_of D r s"
    by (auto simp: s' as_of_defs fun_eq_iff sl_nrstate_at_version_def split: option.splits ReadReq.splits)
  then show "as_quiet D (as_of D r s) (as_of D r s')" by simp
qed

lemma sim_next:
  assumes step: "sl_next D s l s'" and p: "sl_placed s"
  shows "sim D s l s'"
  using step
proof (cases rule: sl_next.cases)
  case (sl_next_readonly_view_oob n res)
  then show ?thesis by (intro sim_same [where m = "sl_replica_versions s"]) (simp_all add: sl_readonly_view_oob_def split: if_splits)
next
  case (sl_next_update_replica_update n v)
  then show ?thesis
    by (intro sim_same [where m = "(sl_replica_versions s)(n \<mapsto> v)"]) (auto simp: sl_update_replica_update_def split: if_splits)
next
  case sl_next_no_op
  then show ?thesis by (intro sim_same [where m = "sl_replica_versions s"]) (simp_all add: sl_no_op_def split: if_splits)
qed (use p in \<open>blast intro: sim_readonly_start sim_readonly_read_version sim_readonly_finish sim_update_start
    sim_update_add_op_to_log sim_update_incr_version sim_update_finish\<close>)+

section \<open>Linearizability\<close>

lemma linearizable_points:
  assumes "sl_behavior D n ls s" and "future_points_ok s r"
  shows "\<exists>ms. as_behavior D ms (as_of D r s) \<and> visible ms = visible ls"
  using assms
proof (induction arbitrary: r rule: sl_behavior.induct)
  case sl_behavior_init
  have "r rid = None" for rid
    using future_points_okD(2) [OF sl_behavior_init, of rid] by (cases "r rid") (simp_all add: future_rid_ok_def sl_initialize_def)
  then have "r = Map.empty" by (simp add: fun_eq_iff)
  then show ?case using as_behavior_init by (intro exI [of _ "[]"]) (simp add: as_of_initialize)
next
  case (sl_behavior_step ls s l s')
  obtain r' ks where r': "future_points_ok s r'" "as_path D (as_of D r' s) ks (as_of D r s')" "visible ks = visible [l]"
    using sim_next [OF sl_behavior_step.hyps(2) sl_behavior_placed [OF sl_behavior_step.hyps(1)]] sl_behavior_step.prems
    unfolding sim_def by blast
  obtain ms where "as_behavior D ms (as_of D r' s)" "visible ms = visible ls" using sl_behavior_step.IH [OF r'(1)] by blast
  then show ?case using as_behavior_path [OF r'(2)] r'(3) by (intro exI [of _ "ms @ ks"]) simp
qed

lemma sl_linearizable:
  assumes "sl_behavior D n ls s"
  shows "\<exists>ms t. as_behavior D ms t \<and> behavior_equiv (rev ls) (rev ms)"
proof -
  have "future_points_ok s Map.empty" by (rule future_points_okI) simp_all
  from linearizable_points [OF assms this] show ?thesis by (auto simp: behavior_equiv_visible visible_rev)
qed

end
