(* ===== verification/NR_Log_Refines.thy ===== *)
theory NR_Log_Refines
  imports NR_Unbounded_Steps NR_Simple_Log
begin

text \<open>
  The unbounded log refines the simple log
  (\<^verbatim>\<open>spec/unbounded_log_refines_simplelog.rs\<close>): the interpretation of a state, the
  simple-log transition each transition maps to, and the inclusion of behaviours.

  The interface (trait \<^verbatim>\<open>UnboundedLogRefinesSimpleLog\<close> of \<^verbatim>\<open>lib.rs\<close>) is a locale: what
  an interpretation of the unbounded log as a simple log has to satisfy, and what follows from
  it for whole behaviours.
\<close>

section \<open>The interface\<close>

lemma ul_next_invariant: "ul_next D s s' \<Longrightarrow> ul_invariant D s \<Longrightarrow> ul_invariant D s'"
  by (simp add: ul_invariant_iff ul_next_parts)

lemma ul_step_invariant: "ul_step D s l s' \<Longrightarrow> ul_invariant D s \<Longrightarrow> ul_invariant D s'"
  by (simp add: ul_invariant_iff ul_step_parts)

lemma ul_behavior_invariant: "ul_behavior D n ls s \<Longrightarrow> ul_invariant D s"
  by (simp add: ul_invariant_iff ul_behavior_parts)

locale unbounded_log_refines_simple_log =
  fixes D :: "('r, 'w, 'v, 'resp) Dispatch"
    and interp :: "('r, 'w, 'v, 'resp) UnboundedLog \<Rightarrow> ('r, 'w) SimpleLog"
  assumes refinement_inv: "ul_invariant D s \<Longrightarrow> sl_invariant (interp s)"
    and refinement_init: "0 < n \<Longrightarrow> interp (ul_initialize D n) = sl_initialize n"
    and refinement_next: "ul_invariant D s \<Longrightarrow> ul_next D s s' \<Longrightarrow> sl_next D (interp s) Internal (interp s')"
    and refinement_add_ticket: "ul_invariant D s \<Longrightarrow> add_ticket s s' inp (get_fresh_rid s) \<Longrightarrow>
      sl_next D (interp s) (LStart (get_fresh_rid s) inp) (interp s')"
    and refinement_consume_stub: "ul_invariant D s \<Longrightarrow> consume_stub s s' out rid \<Longrightarrow>
      sl_next D (interp s) (LEnd rid out) (interp s')"
begin

lemma step_refines: "ul_step D s l s' \<Longrightarrow> ul_invariant D s \<Longrightarrow> sl_next D (interp s) l (interp s')"
  by (induction rule: ul_step.induct) (blast intro: refinement_next refinement_add_ticket refinement_consume_stub)+

lemma behavior_refines: "ul_behavior D n ls s \<Longrightarrow> sl_behavior D n ls (interp s)"
  by (induction rule: ul_behavior.induct)
    (auto simp: refinement_init intro: sl_behavior.intros step_refines ul_behavior_invariant)

text \<open>The simple log only grows, so the log of the replicas does.\<close>

lemma log_grows:
  assumes "ul_step D s l s'" and "ul_invariant D s"
  shows "\<exists>ys. sl_log (interp s') = sl_log (interp s) @ ys"
  using step_refines [OF assms] by (rule sl_log_grows)

end

section \<open>Interpretation\<close>

definition interp_log :: "nat \<Rightarrow> (LogIdx \<rightharpoonup> 'w LogEntry) \<Rightarrow> 'w list" where
  "interp_log global_tail log = map (\<lambda>i. le_op (the (log i))) [0..<global_tail]"

fun interp_read :: "('r, 'resp) ReadonlyState \<Rightarrow> 'r ReadReq" where
  "interp_read (ROInit op node_id) = RRInit op node_id"
| "interp_read (ROVersionUpperBound op node_id idx) = RRReq idx op node_id"
| "interp_read (ROReadyToRead op node_id idx) = RRReq idx op node_id"
| "interp_read (RODone op node_id idx ret) = RRReq idx op node_id"

definition interp_readonly_reqs :: "(ReqId \<rightharpoonup> ('r, 'resp) ReadonlyState) \<Rightarrow> ReqId \<rightharpoonup> 'r ReadReq" where
  "interp_readonly_reqs local_reads = (\<lambda>rid. map_option interp_read (local_reads rid))"

fun update_req_of :: "('w, 'resp) UpdateState \<Rightarrow> 'w option" where
  "update_req_of (UInit op) = Some op"
| "update_req_of _ = None"

definition interp_update_reqs :: "(ReqId \<rightharpoonup> ('w, 'resp) UpdateState) \<Rightarrow> ReqId \<rightharpoonup> 'w" where
  "interp_update_reqs local_updates = (\<lambda>rid. Option.bind (local_updates rid) update_req_of)"

fun update_resp_of :: "('w, 'resp) UpdateState \<Rightarrow> LogIdx option" where
  "update_resp_of (UInit op) = None"
| "update_resp_of (UPlaced op idx) = Some idx"
| "update_resp_of (UApplied ret idx) = Some idx"
| "update_resp_of (UDone ret idx) = Some idx"

definition interp_update_resps :: "(ReqId \<rightharpoonup> ('w, 'resp) UpdateState) \<Rightarrow> ReqId \<rightharpoonup> LogIdx" where
  "interp_update_resps local_updates = (\<lambda>rid. Option.bind (local_updates rid) update_resp_of)"

definition ul_interp :: "('r, 'w, 'v, 'resp) UnboundedLog \<Rightarrow> ('r, 'w) SimpleLog" where
  "ul_interp s =
     \<lparr>sl_log = interp_log (ul_tail s) (ul_log s), sl_num_replicas = ul_num_replicas s,
      sl_replica_versions = (\<lambda>n. if n < ul_num_replicas s then Some (current_local_version s n) else None),
      sl_version = ul_version_upper_bound s, sl_readonly_reqs = interp_readonly_reqs (ul_local_reads s),
      sl_update_reqs = interp_update_reqs (ul_local_updates s),
      sl_update_resps = interp_update_resps (ul_local_updates s)\<rparr>"

section \<open>The interpretation of the parts\<close>

lemma interp_log_length [simp]: "length (interp_log t log) = t"
  by (simp add: interp_log_def)

lemma interp_log_nth: "i < t \<Longrightarrow> interp_log t log ! i = le_op (the (log i))"
  by (simp add: interp_log_def)

lemma interp_log_append: "interp_log (Suc t) (log(t \<mapsto> e)) = interp_log t log @ [le_op e]"
  by (simp add: interp_log_def)

lemma interp_reads_simps [simp]:
  "interp_readonly_reqs Map.empty = Map.empty"
  "interp_readonly_reqs (m(rid \<mapsto> r)) = (interp_readonly_reqs m)(rid \<mapsto> interp_read r)"
  "interp_readonly_reqs (m(rid := None)) = (interp_readonly_reqs m)(rid := None)"
  "dom (interp_readonly_reqs m) = dom m"
  by (auto simp: interp_readonly_reqs_def fun_eq_iff)

lemma interp_updates_simps [simp]:
  "interp_update_reqs Map.empty = Map.empty" "interp_update_resps Map.empty = Map.empty"
  "interp_update_reqs (m(rid \<mapsto> u)) = (interp_update_reqs m)(rid := update_req_of u)"
  "interp_update_resps (m(rid \<mapsto> u)) = (interp_update_resps m)(rid := update_resp_of u)"
  "interp_update_reqs (m(rid := None)) = (interp_update_reqs m)(rid := None)"
  "interp_update_resps (m(rid := None)) = (interp_update_resps m)(rid := None)"
  by (auto simp: interp_update_reqs_def interp_update_resps_def fun_eq_iff)

lemma interp_updates_dom: "m rid = None \<Longrightarrow> interp_update_reqs m rid = None \<and> interp_update_resps m rid = None"
  by (simp add: interp_update_reqs_def interp_update_resps_def)

lemma interp_reads_lookup: "m rid = Some r \<Longrightarrow> interp_readonly_reqs m rid = Some (interp_read r)"
  by (simp add: interp_readonly_reqs_def)

lemma interp_updates_lookup:
  "m rid = Some u \<Longrightarrow> interp_update_reqs m rid = update_req_of u \<and> interp_update_resps m rid = update_resp_of u"
  by (simp add: interp_update_reqs_def interp_update_resps_def)

lemma interp_reads_same:
  "m rid = Some r \<Longrightarrow> interp_read r' = interp_read r \<Longrightarrow> interp_readonly_reqs (m(rid \<mapsto> r')) = interp_readonly_reqs m"
  by (auto simp: interp_readonly_reqs_def fun_eq_iff)

lemma state_at_version_refines:
  "version \<le> t \<Longrightarrow>
     sl_compute_nrstate_at_version D (interp_log t log) version = ul_compute_nrstate_at_version D log version"
  by (induction version) (simp_all add: interp_log_nth)

lemma ul_interp_simps [simp]:
  "sl_log (ul_interp s) = interp_log (ul_tail s) (ul_log s)"
  "sl_num_replicas (ul_interp s) = ul_num_replicas s"
  "sl_version (ul_interp s) = ul_version_upper_bound s"
  "sl_readonly_reqs (ul_interp s) = interp_readonly_reqs (ul_local_reads s)"
  "sl_update_reqs (ul_interp s) = interp_update_reqs (ul_local_updates s)"
  "sl_update_resps (ul_interp s) = interp_update_resps (ul_local_updates s)"
  by (simp_all add: ul_interp_def)

lemma ul_interp_version: "n < ul_num_replicas s \<Longrightarrow> sl_replica_versions (ul_interp s) n = Some (current_local_version s n)"
  by (simp add: ul_interp_def)

lemma ul_interp_state:
  "v \<le> ul_tail s \<Longrightarrow> sl_nrstate_at_version D (ul_interp s) v = ul_compute_nrstate_at_version D (ul_log s) v"
  by (simp add: sl_nrstate_at_version_def state_at_version_refines)

lemma sl_eqI:
  assumes "sl_log s = sl_log t" "sl_num_replicas s = sl_num_replicas t" "sl_replica_versions s = sl_replica_versions t"
    "sl_version s = sl_version t" "sl_readonly_reqs s = sl_readonly_reqs t" "sl_update_reqs s = sl_update_reqs t"
    "sl_update_resps s = sl_update_resps t"
  shows "s = (t :: ('r, 'w) SimpleLog)"
  using assms by simp

text \<open>The replica versions of two states, from their combiners.\<close>

lemma ul_interp_versions_eqI:
  assumes "ul_num_replicas s' = ul_num_replicas s"
    and "\<And>n. n < ul_num_replicas s \<Longrightarrow>
      comb_version (the (ul_combiner s' n)) (the (ul_local_versions s' n)) =
      comb_version (the (ul_combiner s n)) (the (ul_local_versions s n))"
  shows "sl_replica_versions (ul_interp s') = sl_replica_versions (ul_interp s)"
  using assms by (auto simp: ul_interp_def current_local_version_eq)

lemma ul_interp_versions_updI:
  assumes "ul_num_replicas s' = ul_num_replicas s" and "k < ul_num_replicas s" and "current_local_version s' k = v"
    and "\<And>n. n \<noteq> k \<Longrightarrow> current_local_version s' n = current_local_version s n"
  shows "sl_replica_versions (ul_interp s') = (sl_replica_versions (ul_interp s))(k \<mapsto> v)"
  using assms by (auto simp: ul_interp_def)

section \<open>Each step\<close>

lemmas ul_def_splits = option.splits ReadonlyState.splits UpdateState.splits ULCombiner.splits if_splits prod.splits

lemma ul_next_no_op: "ul_interp s' = ul_interp s \<Longrightarrow> sl_next D (ul_interp s) Internal (ul_interp s')"
  by (rule sl_next_no_op) (simp add: sl_no_op_def)

lemma ul_next_update_version:
  assumes parts: "ul_parts D s" and n: "n < ul_num_replicas s"
    and eq: "ul_interp s' = ul_interp s\<lparr>sl_replica_versions := (sl_replica_versions (ul_interp s))(n \<mapsto> v)\<rparr>"
    and v: "current_local_version s n < v" "v \<le> ul_tail s"
  shows "sl_next D (ul_interp s) Internal (ul_interp s')"
  by (rule sl_next_update_replica_update [where n = n and v = v])
    (use n v in \<open>simp add: sl_update_replica_update_def ul_interp_version eq\<close>)

lemma readonly_version_upper_bound_refines:
  assumes "readonly_version_upper_bound s rid = Some s'"
  shows "sl_next D (ul_interp s) Internal (ul_interp s')"
proof -
  obtain op n where s: "ul_local_reads s rid = Some (ROInit op n)"
      "s' = set_read s rid (ROVersionUpperBound op n (ul_version_upper_bound s))"
    using assms by (auto simp: readonly_version_upper_bound_def split: ul_def_splits)
  have "sl_replica_versions (ul_interp s') = sl_replica_versions (ul_interp s)"
    using s(2) by (intro ul_interp_versions_eqI) simp_all
  then have "sl_readonly_read_version (ul_interp s) Internal rid = Some (ul_interp s')"
    using s by (simp add: sl_readonly_read_version_def interp_reads_lookup sl_eqI)
  then show ?thesis by (rule sl_next_readonly_read_version)
qed

lemma readonly_ready_to_read_refines:
  assumes "readonly_ready_to_read s rid = Some s'"
  shows "ul_interp s' = ul_interp s"
  using assms
  by (intro sl_eqI)
    (auto simp: readonly_ready_to_read_def interp_reads_lookup interp_reads_same intro: ul_interp_versions_eqI split: ul_def_splits)

lemma readonly_apply_refines:
  assumes "readonly_apply D s rid = Some s'"
  shows "ul_interp s' = ul_interp s"
  using assms
  by (intro sl_eqI)
    (auto simp: readonly_apply_def interp_reads_lookup interp_reads_same intro: ul_interp_versions_eqI split: ul_def_splits)

lemma readonly_view_oob_refines:
  assumes parts: "ul_parts D s" and step: "readonly_view_oob s n res = Some s'"
  shows "sl_next D (ul_interp s) Internal (ul_interp s')"
proof -
  have n: "n < ul_num_replicas s" "res = the (ul_replicas s n)" "s' = s"
    using step by (simp_all add: readonly_view_oob_def split: if_splits)
  have "sl_readonly_view_oob D (ul_interp s) Internal n res = Some (ul_interp s')"
    using n p_replica [OF parts n(1)] p_version [OF parts n(1)]
    by (simp add: sl_readonly_view_oob_def ul_interp_version ul_interp_state current_local_version_eq)
  then show ?thesis by (rule sl_next_readonly_view_oob)
qed

lemma update_place_refines:
  assumes step: "update_place_ops_in_log_one s n rid = Some s'"
  shows "sl_next D (ul_interp s) Internal (ul_interp s')"
proof -
  obtain q op where s: "ul_combiner s n = Some (CPlaced q)" "ul_local_updates s rid = Some (UInit op)"
      "s' = s\<lparr>ul_tail := ul_tail s + 1, ul_log := (ul_log s)(ul_tail s \<mapsto> \<lparr>le_op = op, le_node_id = n\<rparr>),
               ul_local_updates := (ul_local_updates s)(rid \<mapsto> UPlaced op (ul_tail s)),
               ul_combiner := (ul_combiner s)(n \<mapsto> CPlaced (q @ [rid]))\<rparr>"
    using step by (auto simp: update_place_ops_in_log_one_def split: ul_def_splits)
  have "sl_replica_versions (ul_interp s') = sl_replica_versions (ul_interp s)"
    using s by (intro ul_interp_versions_eqI) auto
  then have "sl_update_add_op_to_log (ul_interp s) Internal rid = Some (ul_interp s')"
    using s by (simp add: sl_update_add_op_to_log_def interp_updates_lookup interp_log_append sl_eqI)
  then show ?thesis by (rule sl_next_update_add_op_to_log)
qed

lemma update_done_refines:
  assumes "update_done s rid = Some s'"
  shows "ul_interp s' = ul_interp s"
  using assms
  by (intro sl_eqI) (auto simp: update_done_def interp_updates_lookup fun_upd_idem intro: ul_interp_versions_eqI split: ul_def_splits)

text \<open>A change of the combiner alone that keeps the replica's version is invisible.\<close>

lemma combiner_phase_refines:
  assumes "ul_combiner s n = Some c"
    and "comb_version c' (the (ul_local_versions s n)) = comb_version c (the (ul_local_versions s n))"
  shows "ul_interp (set_combiner s n c') = ul_interp s"
  using assms by (intro sl_eqI ul_interp_versions_eqI) auto

lemma exec_trivial_start_refines: "exec_trivial_start s n = Some s' \<Longrightarrow> ul_interp s' = ul_interp s"
  by (auto simp: exec_trivial_start_def combiner_phase_refines split: ul_def_splits)

lemma exec_load_local_version_refines: "exec_load_local_version s n = Some s' \<Longrightarrow> ul_interp s' = ul_interp s"
  by (auto simp: exec_load_local_version_def combiner_phase_refines split: ul_def_splits)

lemma exec_load_global_head_refines: "exec_load_global_head s n = Some s' \<Longrightarrow> ul_interp s' = ul_interp s"
  by (auto simp: exec_load_global_head_def combiner_phase_refines split: ul_def_splits)

lemma exec_finish_no_change_refines:
  assumes parts: "ul_parts D s" and step: "exec_finish_no_change s n = Some s'"
  shows "ul_interp s' = ul_interp s"
proof -
  obtain q where s: "ul_combiner s n = Some (CLoadedLocalVersion q (ul_tail s))" "s' = set_combiner s n CReady"
    using step by (auto simp: exec_finish_no_change_def split: ul_def_splits)
  have "n \<in> dom (ul_combiner s)" using s by blast
  then have "n < ul_num_replicas s" using p_dom [OF parts] by simp
  then have "the (ul_local_versions s n) = ul_tail s" using p_comb [OF parts, of n] s(1) by simp
  then show ?thesis using s by (simp add: combiner_phase_refines)
qed

lemma exec_finish_refines:
  assumes "exec_finish s n = Some s'"
  shows "ul_interp s' = ul_interp s"
proof -
  obtain q t where s: "ul_combiner s n = Some (CUpdatedVersion q t)"
      "s' = s\<lparr>ul_local_versions := (ul_local_versions s)(n \<mapsto> t), ul_combiner := (ul_combiner s)(n \<mapsto> CReady)\<rparr>"
    using assms by (auto simp: exec_finish_def split: ul_def_splits)
  then show ?thesis by (intro sl_eqI ul_interp_versions_eqI) auto
qed

lemma exec_update_version_upper_bound_refines:
  assumes parts: "ul_parts D s" and step: "exec_update_version_upper_bound s n = Some s'"
  shows "sl_next D (ul_interp s) Internal (ul_interp s')"
proof -
  obtain q t i where s: "ul_combiner s n = Some (CLoop q t i t)"
      "s' = s\<lparr>ul_version_upper_bound := max (ul_version_upper_bound s) t,
              ul_combiner := (ul_combiner s)(n \<mapsto> CUpdatedVersion q t)\<rparr>"
    using step by (auto simp: exec_update_version_upper_bound_def max_def split: ul_def_splits)
  have "sl_replica_versions (ul_interp s') = sl_replica_versions (ul_interp s)"
    using s by (intro ul_interp_versions_eqI) auto
  then have "sl_update_incr_version (ul_interp s) Internal (max (ul_version_upper_bound s) t) = Some (ul_interp s')"
    using s loop_facts(2) [OF parts s(1)] p_vub [OF parts] by (simp add: sl_update_incr_version_def sl_eqI)
  then show ?thesis by (rule sl_next_update_incr_version)
qed

lemma exec_dispatch_local_refines:
  assumes parts: "ul_parts D s" and step: "exec_dispatch_local D s n = Some s'"
  shows "sl_next D (ul_interp s) Internal (ul_interp s')"
proof -
  obtain q l i t v e st ret where s: "ul_combiner s n = Some (CLoop q l i t)" "ul_log s l = Some e" "l < t"
      "le_node_id e = n"
      "s' = s\<lparr>ul_local_updates := (ul_local_updates s)(q ! i \<mapsto> UApplied ret l),
              ul_replicas := (ul_replicas s)(n \<mapsto> st), ul_combiner := (ul_combiner s)(n \<mapsto> CLoop q (l + 1) (i + 1) t)\<rparr>"
    using step by (auto simp: exec_dispatch_local_def Let_def split: ul_def_splits)
  note f = loop_facts [OF parts s(1)]
  obtain op where u: "ul_local_updates s (q ! i) = Some (UPlaced op l)"
    using pre_exec_dispatch_local [OF parts s(1,2,4,3)] by blast
  have v: "sl_replica_versions (ul_interp s') = (sl_replica_versions (ul_interp s))(n \<mapsto> l + 1)"
    using s f(1) by (intro ul_interp_versions_updI) (auto simp: current_local_version_eq)
  then have "ul_interp s' = ul_interp s\<lparr>sl_replica_versions := (sl_replica_versions (ul_interp s))(n \<mapsto> l + 1)\<rparr>"
    using s(5) by (intro sl_eqI) (simp_all add: interp_updates_lookup [of "ul_local_updates s", OF u] fun_upd_idem)
  then show ?thesis
    by (rule ul_next_update_version [OF parts f(1)]) (use s f(2) in \<open>simp_all add: current_local_version_eq\<close>)
qed

lemma exec_dispatch_remote_refines:
  assumes parts: "ul_parts D s" and step: "exec_dispatch_remote D s n = Some s'"
  shows "sl_next D (ul_interp s) Internal (ul_interp s')"
proof -
  obtain q l i t st where s: "ul_combiner s n = Some (CLoop q l i t)" "l < t"
      "s' = s\<lparr>ul_replicas := (ul_replicas s)(n \<mapsto> st), ul_combiner := (ul_combiner s)(n \<mapsto> CLoop q (l + 1) i t)\<rparr>"
    using step by (auto simp: exec_dispatch_remote_def split: ul_def_splits)
  note f = loop_facts [OF parts s(1)]
  have v: "sl_replica_versions (ul_interp s') = (sl_replica_versions (ul_interp s))(n \<mapsto> l + 1)"
    using s f(1) by (intro ul_interp_versions_updI) (auto simp: current_local_version_eq)
  then have "ul_interp s' = ul_interp s\<lparr>sl_replica_versions := (sl_replica_versions (ul_interp s))(n \<mapsto> l + 1)\<rparr>"
    using s(3) by (intro sl_eqI) simp_all
  then show ?thesis
    by (rule ul_next_update_version [OF parts f(1)]) (use s f(2) in \<open>simp_all add: current_local_version_eq\<close>)
qed

lemmas ul_no_op_refines =
  readonly_ready_to_read_refines readonly_apply_refines update_done_refines exec_trivial_start_refines
  exec_load_local_version_refines exec_load_global_head_refines exec_finish_refines exec_finish_no_change_refines

lemma ul_next_refines:
  assumes "ul_next D s s'" and "ul_parts D s"
  shows "sl_next D (ul_interp s) Internal (ul_interp s')"
  using assms
  by (induction rule: ul_next.induct)
    (blast intro: ul_next_no_op ul_no_op_refines readonly_version_upper_bound_refines readonly_view_oob_refines
      update_place_refines exec_update_version_upper_bound_refines exec_dispatch_local_refines
      exec_dispatch_remote_refines)+

section \<open>Tickets, stubs and behaviours\<close>

lemma ul_interp_fresh:
  assumes "rid \<notin> dom (ul_local_reads s)" and "rid \<notin> dom (ul_local_updates s)"
  shows "sl_fresh (ul_interp s) rid"
  using assms interp_updates_dom [of "ul_local_updates s" rid] by (auto simp: sl_fresh_def domIff)

lemma add_ticket_refines:
  assumes "add_ticket s s' inp rid"
  shows "sl_next D (ul_interp s) (LStart rid inp) (ul_interp s')"
proof -
  have fresh: "sl_fresh (ul_interp s) rid" and resp: "interp_update_resps (ul_local_updates s) rid = None"
    using assms ul_interp_fresh [of rid s] interp_updates_dom [of "ul_local_updates s" rid]
    by (simp_all add: add_ticket_def domIff)
  have v: "sl_replica_versions (ul_interp s') = sl_replica_versions (ul_interp s)"
    using assms by (intro ul_interp_versions_eqI) (auto simp: add_ticket_def split: InputOperation.splits)
  show ?thesis
  proof (cases inp)
    case (InRead op n)
    then have "sl_readonly_start (ul_interp s) (LStart rid inp) rid n op = Some (ul_interp s')"
      using fresh v assms by (simp add: sl_readonly_start_def add_ticket_def sl_eqI)
    then show ?thesis by (rule sl_next_readonly_start)
  next
    case (InWrite w)
    then have "sl_update_start (ul_interp s) (LStart rid inp) rid w = Some (ul_interp s')"
      using fresh v assms resp by (simp add: sl_update_start_def add_ticket_def sl_eqI fun_upd_idem)
    then show ?thesis by (rule sl_next_update_start)
  qed
qed

lemma consume_stub_refines:
  assumes parts: "ul_parts D s" and step: "consume_stub s s' out rid"
  shows "sl_next D (ul_interp s) (LEnd rid out) (ul_interp s')"
proof -
  have v: "sl_replica_versions (ul_interp s') = sl_replica_versions (ul_interp s)"
    using step by (intro ul_interp_versions_eqI) (auto simp: consume_stub_def split: ul_def_splits OutputOperation.splits)
  show ?thesis
  proof (cases out)
    case (OutRead ret)
    then obtain op n b where s: "ul_local_reads s rid = Some (RODone op n b ret)"
        "s' = s\<lparr>ul_local_reads := (ul_local_reads s)(rid := None)\<rparr>"
      using step by (auto simp: consume_stub_def split: ul_def_splits)
    obtain k where k: "n < ul_num_replicas s" "b \<le> k" "k \<le> ul_version_upper_bound s" "k \<le> current_local_version s n"
        "ret = dispatch_spec D (ul_compute_nrstate_at_version D (ul_log s) k) op"
      using p_read [OF parts s(1)] by (auto simp: current_local_version_eq)
    have "sl_readonly_finish D (ul_interp s) (LEnd rid out) rid k ret = Some (ul_interp s')"
      using s k v p_vub [OF parts] OutRead
      by (simp add: sl_readonly_finish_def interp_reads_lookup ul_interp_version ul_interp_state sl_eqI)
    then show ?thesis by (rule sl_next_readonly_finish)
  next
    case (OutWrite ret)
    then obtain i where s: "ul_local_updates s rid = Some (UDone ret i)"
        "s' = s\<lparr>ul_local_updates := (ul_local_updates s)(rid := None)\<rparr>"
      using step by (auto simp: consume_stub_def split: ul_def_splits)
    have req: "interp_update_reqs (ul_local_updates s) rid = None" using s(1) by (simp add: interp_updates_lookup)
    have "sl_update_finish D (ul_interp s) (LEnd rid out) rid ret = Some (ul_interp s')"
      using s v p_vub [OF parts] p_update [OF parts s(1)] OutWrite
      by (simp add: sl_update_finish_def interp_updates_lookup ul_interp_state interp_log_nth sl_eqI req fun_upd_idem)
    then show ?thesis by (rule sl_next_update_finish)
  qed
qed

lemma ul_initialize_refines: "ul_interp (ul_initialize D n) = sl_initialize n"
  by (auto simp: ul_interp_def ul_initialize_def sl_initialize_def map_below_def interp_log_def current_local_version_def)

lemma ul_interp_invariant:
  assumes parts: "ul_parts D s"
  shows "sl_invariant (ul_interp s)"
  unfolding sl_invariant_iff
proof (intro conjI allI impI)
  show "sl_version (ul_interp s) \<le> length (sl_log (ul_interp s))" using p_vub [OF parts] by simp
  show "v < length (sl_log (ul_interp s))" if v: "sl_update_resps (ul_interp s) rid = Some v" for rid v
  proof -
    obtain u where u: "ul_local_updates s rid = Some u" "update_resp_of u = Some v"
      using v by (cases "ul_local_updates s rid") (simp_all add: interp_update_resps_def)
    show ?thesis using p_update [OF parts u(1)] u(2) p_vub [OF parts] by (cases u) auto
  qed
  show "rr_bounded (sl_version (ul_interp s)) q" if q: "sl_readonly_reqs (ul_interp s) rid = Some q" for rid q
  proof -
    obtain r where r: "ul_local_reads s rid = Some r" "q = interp_read r"
      using q by (auto simp: interp_readonly_reqs_def)
    show ?thesis using p_read [OF parts r(1)] r(2) by (cases r) auto
  qed
qed

interpretation ulr: unbounded_log_refines_simple_log D ul_interp
  by unfold_locales
    (auto simp: ul_invariant_iff ul_interp_invariant ul_initialize_refines
      intro: ul_next_refines add_ticket_refines consume_stub_refines)

text \<open>The state of each replica is the fold of the common log up to the replica's version.\<close>

lemma replica_is_fold:
  assumes "ul_parts D s" and "n < ul_num_replicas s"
  shows "the (ul_replicas s n) =
    fold (\<lambda>w st. fst (dispatch_mut_spec D st w)) (take (current_local_version s n) (sl_log (ul_interp s))) (init_spec D)"
proof -
  have "current_local_version s n \<le> ul_tail s" using p_version [OF assms] by (simp add: current_local_version_eq)
  then show ?thesis
    using p_replica [OF assms]
    by (simp add: current_local_version_eq state_at_version_refines flip: sl_compute_nrstate_fold [of _ _ D])
qed

end
