(* ===== verification/NR_Exec_Refines.thy ===== *)
theory NR_Exec_Refines
  imports NR_Exec_Execute NR_Linearization NR_Log_Refines
begin

text \<open>
  The code of the log refines the unbounded log and the cyclic buffer: along every run of
  clients and combiners the two machines follow, with the same requests and responses. So no
  access of the code panics, and the responses clients receive are linearizable.
\<close>

section \<open>The steps inside the log\<close>

lemma pc_in_log_delivered: "pc_in_log pc \<Longrightarrow> delivered pc = 0"
  by (cases pc) (simp_all add: pc_in_log_def)

lemma node_step_sim:
  assumes sr: "system_rel s g c" and ok: "cb_ok c" and inv: "ul_parts D g" and n: "n < length (ns_nodes s)"
    and p: "ns_nodes s ! n = p" and pc: "pc_in_log (np_pc p)"
  shows "step_sim D n (undelivered p) g c (ns_log s) p (node_step D n weak (ns_log s) p)"
proof -
  note lr = system_relD(1) [OF sr] and nr = system_relD(3) [OF sr n, unfolded p]
  have n': "n < ul_num_replicas g" using n system_relD(2) [OF sr] by simp
  have 0: "delivered (np_pc p) = 0" by (rule pc_in_log_delivered [OF pc])
  have dist: "distinct (np_rids p)" using rids_distinct [OF system_relD(6) [OF sr] n] 0 p by simp
  have R: "set (np_rids p) \<subseteq> undelivered p" using undelivered_all [OF 0] by simp
  note sims = load_tail_sim [OF lr nr] load_head_sim [OF lr nr ok] cas_sim [OF lr nr ok inv _ dist R]
    write_sim [OF lr nr ok] flip_sim [OF lr nr ok n'] head_loads_sim [OF lr nr] min_first_sim [OF lr nr ok]
    min_next_sim [OF lr nr ok] store_head_sim [OF lr nr] load_local_sim [OF lr nr n']
    exec_load_tail_sim [OF lr nr ok inv n'] alive_sim [OF lr nr ok] read_sim [OF lr nr ok inv n' _ dist R]
    publish_sim [OF lr nr inv _ dist R] store_sim [OF lr nr n']
  show ?thesis using pc by (cases "np_pc p") (simp_all add: node_step_def pc_in_log_def sims)
qed

text \<open>A combiner writes no cell another one is about to publish.\<close>

lemma written_cells_kept:
  assumes sr: "system_rel s g c" and ok: "cb_ok c" and nm: "n < length (ns_nodes s)" "m < length (ns_nodes s)" "m \<noteq> n"
    and cells: "\<And>i. be_log_entry (nl_slog l' ! i) \<noteq> be_log_entry (nl_slog (ns_log s) ! i) \<Longrightarrow>
      \<exists>t idx adv. np_pc (ns_nodes s ! n) = AWrite t idx adv \<and> i = (unat t + idx) mod LOG_SIZE"
  shows "cells_kept (ns_log s) l' (ns_nodes s ! m)"
  unfolding cells_kept_def
proof (intro allI impI)
  fix t idx adv
  assume pc: "np_pc (ns_nodes s ! m) = AFlip t idx adv"
  obtain u v where "appending (ul_tail g) (ul_log g) m (ns_nodes s ! m) t idx u v" "cb_combiner c m = Some v"
    using node_relD(4) [OF system_relD(3) [OF sr nm(2)]] pc by auto
  note a = this(2) appendingD(3,4) [OF this(1)]
  show "be_log_entry (nl_slog l' ! ((unat t + idx) mod LOG_SIZE)) =
      be_log_entry (nl_slog (ns_log s) ! ((unat t + idx) mod LOG_SIZE))"
  proof (rule ccontr)
    assume "\<not> ?thesis"
    then obtain t' idx' adv' where pc': "np_pc (ns_nodes s ! n) = AWrite t' idx' adv'"
        "(unat t + idx) mod LOG_SIZE = (unat t' + idx') mod LOG_SIZE"
      using cells by blast
    obtain u' v' where "appending (ul_tail g) (ul_log g) n (ns_nodes s ! n) t' idx' u' v'" "cb_combiner c n = Some v'"
      using node_relD(4) [OF system_relD(3) [OF sr nm(1)]] pc'(1) by auto
    note b = this(2) appendingD(3,4) [OF this(1)]
    show False
      using appending_cells_differ [OF ok a(1) [unfolded a(3)] _ b(1) [unfolded b(3)] _ nm(3)] a(2) b(2) pc'(2) by simp
  qed
qed

lemma sys_node_sim:
  assumes sr: "system_rel s g c" and ok: "cb_ok c" and inv: "ul_parts D g" and n: "n < length (ns_nodes s)"
    and step: "node_step D n weak (ns_log s) (ns_nodes s ! n) = Some (l', p')"
  shows "system_sim D s ((set_node s n p')\<lparr>ns_log := l'\<rparr>) g c"
proof -
  let ?p = "ns_nodes s ! n"
  have pc: "pc_in_log (np_pc ?p)" using step by (auto simp: node_step_def pc_in_log_def split: if_splits)
  have "step_sim D n (undelivered ?p) g c (ns_log s) ?p (Some (l', p'))"
    using node_step_sim [OF sr ok inv n refl pc, of weak] step by simp
  then have sim: "node_sim D n (undelivered ?p) (np_pc ?p) g c l' p'" "np_rids p' = np_rids ?p" "delivered (np_pc p') = 0"
    and cells: "\<And>i. be_log_entry (nl_slog l' ! i) \<noteq> be_log_entry (nl_slog (ns_log s) ! i) \<Longrightarrow>
      \<exists>t idx adv. np_pc ?p = AWrite t idx adv \<and> i = (unat t + idx) mod LOG_SIZE"
    unfolding step_sim_def by blast+
  show ?thesis
    by (rule system_sim_node [OF sr n sim(1,2)])
      (use sim(3) pc_in_log_delivered [OF pc] written_cells_kept [OF sr ok n _ _ cells] in simp_all)
qed

section \<open>The steps around the log\<close>

text \<open>Steps at which the machines do not move.\<close>

lemma system_simI: "system_rel s' g c \<Longrightarrow> system_sim D s s' g c"
  using system_kept_refl by (fastforce simp: system_sim_def)

lemma system_rel_node:
  assumes sr: "system_rel s g c" and n: "n < length (ns_nodes s)" and nr: "node_rel (ns_log s) g c n p'"
    and ups: "\<And>rid. update_rel (ups rid) (ul_local_updates g rid)"
    and taken: "taken_rel ((set_node s n p')\<lparr>ns_updates := ups\<rparr>)"
  shows "system_rel ((set_node s n p')\<lparr>ns_updates := ups\<rparr>) g c"
proof -
  have "node_rel (ns_log s) g c m ((ns_nodes s)[n := p'] ! m)" if "m < length (ns_nodes s)" for m
    using system_relD(3) [OF sr that] nr n by (cases "m = n") simp_all
  then show ?thesis using system_relD(1,2,5) [OF sr] ups taken by (simp add: system_rel_def)
qed

lemma system_rel_goto:
  assumes sr: "system_rel s g c" and n: "n < length (ns_nodes s)"
    and nr: "node_rel (ns_log s) g c n (goto (ns_nodes s ! n) pc)" and del: "delivered pc = delivered (np_pc (ns_nodes s ! n))"
  shows "system_sim D s (set_node s n (goto (ns_nodes s ! n) pc)) g c"
proof -
  have "np_rids ((ns_nodes s)[n := goto (ns_nodes s ! n) pc] ! m) = np_rids (ns_nodes s ! m)"
    "delivered (np_pc ((ns_nodes s)[n := goto (ns_nodes s ! n) pc] ! m)) = delivered (np_pc (ns_nodes s ! m))" for m
    using del n by (cases "m = n"; simp)+
  then have "taken_rel ((set_node s n (goto (ns_nodes s ! n) pc))\<lparr>ns_updates := ns_updates s\<rparr>)"
    using system_relD(6) [OF sr] unfolding taken_rel_def by simp
  from system_rel_node [OF sr n nr system_relD(4) [OF sr] this] show ?thesis by (intro system_simI) simp
qed

lemma node_rel_goto:
  assumes nr: "node_rel l g c n p"
    and rel: "\<And>u v. pc_rel (ul_num_replicas g) (ul_tail g) (ul_log g) (nl_slog l) n p u v (ul_local_updates g) (np_pc p) \<Longrightarrow>
      pc_rel (ul_num_replicas g) (ul_tail g) (ul_log g) (nl_slog l) n (goto p pc) u v (ul_local_updates g) pc"
  shows "node_rel l g c n (goto p pc)"
  using assms unfolding node_rel_def by fastforce

lemma combine_begin_sim:
  assumes sr: "system_rel s g c" and n: "n < length (ns_nodes s)" and step: "combine_begin (ns_nodes s ! n) = Some p"
  shows "system_sim D s (set_node s n p) g c"
proof -
  have p: "np_pc (ns_nodes s ! n) = NIdle" "p = goto (ns_nodes s ! n) NCollect"
    using step by (simp_all add: combine_begin_def split: NodePc.splits)
  show ?thesis
    unfolding p(2) using p(1)
    by (intro system_rel_goto [OF sr n] node_rel_goto [OF system_relD(3) [OF sr n]]) (simp_all add: ups_new_def)
qed

lemma combine_lock_sim:
  assumes sr: "system_rel s g c" and n: "n < length (ns_nodes s)" and step: "combine_lock (ns_nodes s ! n) = Some p"
  shows "system_sim D s (set_node s n p) g c"
proof -
  have p: "np_pc (ns_nodes s ! n) = NCollect" "p = goto (ns_nodes s ! n) ALoadTail"
    using step by (simp_all add: combine_lock_def split: NodePc.splits)
  show ?thesis
    unfolding p(2) using p(1)
    by (intro system_rel_goto [OF sr n] node_rel_goto [OF system_relD(3) [OF sr n]]) simp_all
qed

lemma combine_unlock_sim:
  assumes sr: "system_rel s g c" and n: "n < length (ns_nodes s)" and step: "combine_unlock (ns_nodes s ! n) = Some p"
  shows "system_sim D s (set_node s n p) g c"
proof -
  have p: "np_pc (ns_nodes s ! n) = NRelease" "p = goto (ns_nodes s ! n) (NRespond 0)"
    using step by (simp_all add: combine_unlock_def split: NodePc.splits)
  show ?thesis
    unfolding p(2) using p(1)
    by (intro system_rel_goto [OF sr n] node_rel_goto [OF system_relD(3) [OF sr n]]) (simp_all add: delivered_def)
qed

text \<open>Requests move between the clients and the combiner.\<close>

lemma not_taken:
  assumes "taken_rel s" "ns_updates s rid = Some (UpPending op)" "m < length (ns_nodes s)" "i < length (np_rids (ns_nodes s ! m))"
    "delivered (np_pc (ns_nodes s ! m)) \<le> i"
  shows "np_rids (ns_nodes s ! m) ! i \<noteq> rid"
  using taken_relD [OF assms(1), of rid m i] assms(2-5) by auto

lemma collect_taken:
  assumes t: "taken_rel s" and n: "n < length (ns_nodes s)" and pc: "np_pc (ns_nodes s ! n) = NCollect"
    and rid: "ns_updates s rid = Some (UpPending op)"
    and p': "np_rids p' = np_rids (ns_nodes s ! n) @ [rid]" "np_pc p' = NCollect"
  shows "taken_rel ((set_node s n p')\<lparr>ns_updates := (ns_updates s)(rid \<mapsto> UpTaken n (length (np_rids (ns_nodes s ! n))))\<rparr>)"
  unfolding taken_rel_def
proof (intro allI)
  fix r m i
  let ?s = "(set_node s n p')\<lparr>ns_updates := (ns_updates s)(rid \<mapsto> UpTaken n (length (np_rids (ns_nodes s ! n))))\<rparr>"
  have new: "np_rids (ns_nodes s ! m) ! i \<noteq> rid"
    if "m < length (ns_nodes s)" "i < length (np_rids (ns_nodes s ! m))" "delivered (np_pc (ns_nodes s ! m)) \<le> i" for m i
    by (rule not_taken [OF t rid that])
  show "ns_updates ?s r = Some (UpTaken m i) \<longleftrightarrow>
      m < length (ns_nodes ?s) \<and> i < length (np_rids (ns_nodes ?s ! m)) \<and>
      delivered (np_pc (ns_nodes ?s ! m)) \<le> i \<and> np_rids (ns_nodes ?s ! m) ! i = r"
  proof (cases "m = n")
    case True
    then show ?thesis
      using taken_relD [OF t, of r n i] new [of n i] n p' pc by (auto simp: nth_append less_Suc_eq)
  next
    case False
    then show ?thesis using taken_relD [OF t, of r m i] new [of m i] by auto
  qed
qed

lemma combine_collect_sim:
  assumes sr: "system_rel s g c" and n: "n < length (ns_nodes s)" and rid: "ns_updates s rid = Some (UpPending op)"
    and step: "combine_collect rid op (ns_nodes s ! n) = Some p"
  shows "system_sim D s ((set_node s n p)\<lparr>ns_updates := (ns_updates s)(rid \<mapsto> UpTaken n (length (np_rids (ns_nodes s ! n))))\<rparr>) g c"
proof (rule system_simI [OF system_rel_node [OF sr n]])
  let ?p = "ns_nodes s ! n"
  have p: "np_pc ?p = NCollect" "p = ?p\<lparr>np_ops := np_ops ?p @ [op], np_rids := np_rids ?p @ [rid]\<rparr>"
      "length (np_ops ?p) < MAX_REQUESTS"
    using step by (simp_all add: combine_collect_def split: NodePc.splits if_splits)
  note nr = system_relD(3) [OF sr n]
  have init: "ul_local_updates g rid = Some (UInit op)" using system_relD(4) [OF sr, of rid] rid by simp
  obtain u v where s: "ul_combiner g n = Some u" "cb_combiner c n = Some v" "u = CReady" "v = CBIdle"
      "ups_new ?p (ul_local_updates g)"
    using node_relD(4) [OF nr] p(1) by auto
  have "ups_new p (ul_local_updates g)"
    using s(5) init node_relD(3) [OF nr] by (auto simp: p(2) ups_new_def nth_append less_Suc_eq)
  then show "node_rel (ns_log s) g c n p"
    using node_relD(1-3) [OF nr] s(1-4) p(1,3) by (intro node_relI [where u = u and v = v]) (simp_all add: p(2))
  show "update_rel (((ns_updates s)(rid \<mapsto> UpTaken n (length (np_rids ?p)))) r) (ul_local_updates g r)" for r
    using system_relD(4) [OF sr, of r] init by simp
  show "taken_rel ((set_node s n p)\<lparr>ns_updates := (ns_updates s)(rid \<mapsto> UpTaken n (length (np_rids ?p)))\<rparr>)"
    by (rule collect_taken [OF system_relD(6) [OF sr] n p(1) rid]) (simp_all add: p)
qed

lemma respond_taken:
  assumes t: "taken_rel s" and n: "n < length (ns_nodes s)" and pc: "np_pc (ns_nodes s ! n) = NRespond j"
    and j: "j < length (np_rids (ns_nodes s ! n))" "rid = np_rids (ns_nodes s ! n) ! j"
  shows "taken_rel ((set_node s n (goto (ns_nodes s ! n) (NRespond (j + 1))))\<lparr>ns_updates := (ns_updates s)(rid \<mapsto> UpDone resp)\<rparr>)"
  unfolding taken_rel_def
proof (intro allI)
  fix r m i
  let ?s = "(set_node s n (goto (ns_nodes s ! n) (NRespond (j + 1))))\<lparr>ns_updates := (ns_updates s)(rid \<mapsto> UpDone resp)\<rparr>"
  have own: "ns_updates s rid = Some (UpTaken n j)"
    using n j pc by (intro taken_relD [OF t, THEN iffD2]) (simp add: delivered_def)
  have unique: "m = n \<and> i = j"
    if "m < length (ns_nodes s)" "i < length (np_rids (ns_nodes s ! m))" "delivered (np_pc (ns_nodes s ! m)) \<le> i"
      "np_rids (ns_nodes s ! m) ! i = rid" for m i
    using taken_relD [OF t, of rid m i] that own by simp
  show "ns_updates ?s r = Some (UpTaken m i) \<longleftrightarrow>
      m < length (ns_nodes ?s) \<and> i < length (np_rids (ns_nodes ?s ! m)) \<and>
      delivered (np_pc (ns_nodes ?s ! m)) \<le> i \<and> np_rids (ns_nodes ?s ! m) ! i = r"
  proof (cases "m = n")
    case True
    have 1: "Suc j \<le> i \<longleftrightarrow> j \<le> i \<and> i \<noteq> j" by auto
    have "delivered (np_pc (ns_nodes s ! n)) = j" using pc by (simp add: delivered_def)
    then show ?thesis
      using taken_relD [OF t, of r n i] unique [of n i] n True j(2) by (auto simp: delivered_def 1)
  next
    case False
    then show ?thesis using taken_relD [OF t, of r m i] unique [of m i] by auto
  qed
qed

lemma combine_respond_sim:
  assumes sr: "system_rel s g c" and n: "n < length (ns_nodes s)"
    and step: "combine_respond (ns_nodes s ! n) = Some (rid, resp, p)"
  shows "system_sim D s ((set_node s n p)\<lparr>ns_updates := (ns_updates s)(rid \<mapsto> UpDone resp)\<rparr>) g c"
proof (rule system_simI [OF system_rel_node [OF sr n]])
  let ?p = "ns_nodes s ! n"
  obtain j where p: "np_pc ?p = NRespond j" "j < length (np_rids ?p)" "rid = np_rids ?p ! j"
      "resp = np_responses ?p ! j" "p = goto ?p (NRespond (j + 1))"
    using step by (auto simp: combine_respond_def nth_opt_def split: NodePc.splits option.splits if_splits)
  note nr = system_relD(3) [OF sr n]
  have "\<exists>u v. ups_done ?p j (ul_local_updates g) \<and> ul_combiner g n = Some u \<and> cb_combiner c n = Some v \<and> u = CReady \<and> v = CBIdle"
    using node_relD(4) [OF nr] p(1) by auto
  then have d: "ups_done ?p j (ul_local_updates g)" "ul_combiner g n = Some CReady" "cb_combiner c n = Some CBIdle"
    by auto
  have "ups_done ?p (j + 1) (ul_local_updates g)" using d(1) by (simp add: ups_done_def)
  then show "node_rel (ns_log s) g c n p"
    using node_relD(1-3) [OF nr] d(2,3) by (intro node_relI [where u = CReady and v = CBIdle]) (simp_all add: p(5))
  have "\<exists>idx. ul_local_updates g rid = Some (UDone resp idx)" using d(1) p(2-4) by (simp add: ups_done_def)
  then show "update_rel (((ns_updates s)(rid \<mapsto> UpDone resp)) r) (ul_local_updates g r)" for r
    using system_relD(4) [OF sr, of r] by auto
  show "taken_rel ((set_node s n p)\<lparr>ns_updates := (ns_updates s)(rid \<mapsto> UpDone resp)\<rparr>)"
    unfolding p(5) by (rule respond_taken [OF system_relD(6) [OF sr] n p(1-3)])
qed

lemma combine_end_sim:
  assumes sr: "system_rel s g c" and n: "n < length (ns_nodes s)" and step: "combine_end (ns_nodes s ! n) = Some p"
  shows "system_sim D s (set_node s n p) g c"
proof -
  let ?p = "ns_nodes s ! n"
  obtain j where p: "np_pc ?p = NRespond j" "length (np_rids ?p) \<le> j"
      "p = ?p\<lparr>np_pc := NIdle, np_ops := [], np_rids := [], np_responses := []\<rparr>"
    using step by (auto simp: combine_end_def split: NodePc.splits if_splits)
  note nr = system_relD(3) [OF sr n]
  obtain u v where s: "ul_combiner g n = Some u" "cb_combiner c n = Some v" "u = CReady" "v = CBIdle"
    using node_relD(4) [OF nr] p(1) by auto
  have nr': "node_rel (ns_log s) g c n p"
    using node_relD(1) [OF nr] s by (intro node_relI [where u = u and v = v]) (simp_all add: p(3))
  have none: "\<not> (i < length (np_rids ?p) \<and> delivered (np_pc ?p) \<le> i)" for i
    using p(1,2) by (simp add: delivered_def)
  have "taken_rel ((set_node s n p)\<lparr>ns_updates := ns_updates s\<rparr>)"
    unfolding taken_rel_def
  proof (intro allI)
    fix r m i
    show "ns_updates ((set_node s n p)\<lparr>ns_updates := ns_updates s\<rparr>) r = Some (UpTaken m i) \<longleftrightarrow>
        m < length (ns_nodes ((set_node s n p)\<lparr>ns_updates := ns_updates s\<rparr>)) \<and>
        i < length (np_rids (ns_nodes ((set_node s n p)\<lparr>ns_updates := ns_updates s\<rparr>) ! m)) \<and>
        delivered (np_pc (ns_nodes ((set_node s n p)\<lparr>ns_updates := ns_updates s\<rparr>) ! m)) \<le> i \<and>
        np_rids (ns_nodes ((set_node s n p)\<lparr>ns_updates := ns_updates s\<rparr>) ! m) ! i = r"
      using taken_relD [OF system_relD(6) [OF sr], of r m i] none [of i] n p(3) by (cases "m = n") auto
  qed
  from system_rel_node [OF sr n nr' system_relD(4) [OF sr] this] show ?thesis by (intro system_simI) simp
qed

section \<open>The steps of clients\<close>

text \<open>No client touches a request a combiner has.\<close>

lemma system_kept_reads [simp]: "system_kept s g (g\<lparr>ul_local_reads := r\<rparr>)"
  by (simp add: system_kept_def node_kept_def)

lemma system_kept_updates:
  assumes "system_rel s g c" and free: "\<And>n i. ns_updates s rid \<noteq> Some (UpTaken n i)"
  shows "system_kept s g (g\<lparr>ul_local_updates := (ul_local_updates g)(rid := y)\<rparr>)"
  unfolding system_kept_def
proof (intro allI impI)
  fix n
  assume n: "n < length (ns_nodes s)"
  have "rid \<notin> undelivered (ns_nodes s ! n)"
    using undelivered_taken [OF system_relD(6) [OF assms(1)] n, of rid] free by blast
  then show "node_kept n (ns_nodes s ! n) g (g\<lparr>ul_local_updates := (ul_local_updates g)(rid := y)\<rparr>)"
    by (auto simp: node_kept_def)
qed

lemma node_rel_updates:
  assumes nr: "node_rel l g c n p" and ups: "\<And>rid. rid \<in> undelivered p \<Longrightarrow> ups rid = ul_local_updates g rid"
  shows "node_rel l (g\<lparr>ul_local_updates := ups\<rparr>) c n p"
proof -
  obtain u v where s: "ul_combiner g n = Some u" "cb_combiner c n = Some v"
      "pc_rel (ul_num_replicas g) (ul_tail g) (ul_log g) (nl_slog l) n p u v (ul_local_updates g) (np_pc p)"
    using node_relD(4) [OF nr] by blast
  have "pc_rel (ul_num_replicas g) (ul_tail g) (ul_log g) (nl_slog l) n p u v ups (np_pc p)"
    by (rule pc_rel_frame [OF s(3)]) (use ups in simp_all)
  then show ?thesis using node_relD(1-3) [OF nr] s(1,2) by (intro node_relI [where u = u and v = v]) simp_all
qed

lemma system_rel_updates:
  assumes sr: "system_rel s g c" and free: "\<And>n i. ns_updates s rid \<noteq> Some (UpTaken n i)"
    and new: "\<And>n i. x \<noteq> Some (UpTaken n i)" and rel: "update_rel x y"
  shows "system_rel (s\<lparr>ns_updates := (ns_updates s)(rid := x)\<rparr>) (g\<lparr>ul_local_updates := (ul_local_updates g)(rid := y)\<rparr>) c"
  unfolding system_rel_def
proof (intro conjI allI impI)
  note d = system_relD [OF sr]
  let ?s = "s\<lparr>ns_updates := (ns_updates s)(rid := x)\<rparr>" and ?g = "g\<lparr>ul_local_updates := (ul_local_updates g)(rid := y)\<rparr>"
  show "log_rel (ns_log ?s) ?g c" using d(1) by (simp add: log_rel_def cell_rel_def)
  show "node_rel (ns_log ?s) ?g c n (ns_nodes ?s ! n)" if "n < length (ns_nodes ?s)" for n
  proof -
    have n: "n < length (ns_nodes s)" using that by simp
    have "((ul_local_updates g)(rid := y)) r = ul_local_updates g r" if "r \<in> undelivered (ns_nodes s ! n)" for r
      using undelivered_taken [OF d(6) n that] free by auto
    then show ?thesis using node_rel_updates [OF d(3) [OF n]] by simp
  qed
  have "ns_updates ?s r = Some (UpTaken n i) \<longleftrightarrow> ns_updates s r = Some (UpTaken n i)" for r n i
    using free new by simp
  then show "taken_rel ?s" using d(6) by (simp add: taken_rel_def)
qed (use system_relD [OF sr] rel in simp_all)

lemma system_rel_reads:
  assumes sr: "system_rel s g c" and rel: "read_rel (ul_num_replicas g) x y"
  shows "system_rel (s\<lparr>ns_reads := (ns_reads s)(rid := x)\<rparr>) (g\<lparr>ul_local_reads := (ul_local_reads g)(rid := y)\<rparr>) c"
proof -
  have "log_rel l (g\<lparr>ul_local_reads := r\<rparr>) c = log_rel l g c" for l r
    by (simp add: log_rel_def cell_rel_def)
  moreover have "node_rel l (g\<lparr>ul_local_reads := r\<rparr>) c n p = node_rel l g c n p" for l n p r
    by (simp add: node_rel_def)
  moreover have "taken_rel (s\<lparr>ns_reads := r\<rparr>) = taken_rel s" for r
    by (simp add: taken_rel_def)
  ultimately show ?thesis using assms by (simp add: system_rel_def)
qed

text \<open>The code and the machine choose the same identifier for a new request.\<close>

lemma pc_rel_queue:
  assumes "pc_rel N gtl log sl n p u v ups (np_pc p)"
  shows "set (queued_ops u) \<subseteq> undelivered p"
proof (cases "delivered (np_pc p) = 0 \<and> \<not> (\<exists>i. np_pc p = NRespond i)")
  case True
  then show ?thesis
    using assms unfolding undelivered_all [OF conjunct1 [OF True]]
    by (cases "np_pc p") (auto simp: between_execs_def during_def appending_def split: if_splits)
next
  case False
  then obtain i where "np_pc p = NRespond i" by (auto simp: delivered_def split: NodePc.splits)
  then show ?thesis using assms by simp
qed

lemma fresh_rid_eq:
  assumes sr: "system_rel s g c" and inv: "ul_parts D g"
  shows "fresh_rid s = get_fresh_rid g"
proof -
  note d = system_relD [OF sr]
  have none_u: "ns_updates s rid = None \<longleftrightarrow> ul_local_updates g rid = None" for rid
    using d(4) [of rid] by (cases "ns_updates s rid" rule: option.exhaust) (auto split: UpdateReq.splits elim!: update_rel.elims)
  have none_r: "ns_reads s rid = None \<longleftrightarrow> ul_local_reads g rid = None" for rid
    using d(5) [of rid] by (cases "ns_reads s rid") (auto elim!: read_rel.elims)
  have dom: "dom (ns_updates s) = dom (ul_local_updates g)" "dom (ns_reads s) = dom (ul_local_reads g)"
    by (simp_all only: dom_def none_u none_r)
  have "set (queued_ops u) \<subseteq> dom (ul_local_updates g)" if u: "ul_combiner g n = Some u" for n u
  proof -
    have "n < ul_num_replicas g" using p_dom(2) [OF inv] u by blast
    then have n: "n < length (ns_nodes s)" using d(2) by simp
    from node_relD(4) [OF d(3) [OF n]] pc_rel_queue u have "set (queued_ops u) \<subseteq> undelivered (ns_nodes s ! n)" by fastforce
    then show ?thesis using undelivered_taken [OF d(6) n] dom(1) by fast
  qed
  then have "r \<notin> A \<and> combiner_request_id_fresh (ul_combiner g) r \<longleftrightarrow> r \<notin> A"
    if "A = dom (ul_local_updates g) \<union> dom (ul_local_reads g)" for r A
    unfolding that combiner_request_id_fresh_def by fastforce
  then show ?thesis by (simp add: fresh_rid_def get_fresh_rid_def get_fresh_nat_def dom combiner_request_id_fresh_def)
qed

lemma update_start_sim:
  assumes sr: "system_rel s g c" and inv: "ul_parts D g" and rid: "rid = fresh_rid s"
  shows "\<exists>g'. ul_step D g (LStart rid (InWrite op)) g' \<and> system_kept s g g' \<and> system_rel (s\<lparr>ns_updates := (ns_updates s)(rid \<mapsto> UpPending op)\<rparr>) g' c"
proof (intro exI conjI)
  have eq: "rid = get_fresh_rid g" using rid fresh_rid_eq [OF sr inv] by simp
  note fresh = get_fresh_rid_ok(1,2) [OF inv]
  let ?g = "g\<lparr>ul_local_updates := (ul_local_updates g)(rid \<mapsto> UInit op)\<rparr>"
  show "ul_step D g (LStart rid (InWrite op)) ?g"
    using fresh unfolding eq by (intro ul_step_start) (simp add: add_ticket_def)
  have "ul_local_updates g rid = None" using fresh(2) eq by (simp add: domIff)
  then have "ns_updates s rid \<noteq> Some (UpTaken n i)" for n i using system_relD(4) [OF sr, of rid] by auto
  from system_rel_updates [OF sr this] system_kept_updates [OF sr this] show "system_kept s g ?g"
    "system_rel (s\<lparr>ns_updates := (ns_updates s)(rid \<mapsto> UpPending op)\<rparr>) ?g c" by simp_all
qed

lemma read_start_sim:
  assumes sr: "system_rel s g c" and inv: "ul_parts D g" and rid: "rid = fresh_rid s" and n: "n < length (ns_nodes s)"
  shows "\<exists>g'. ul_step D g (LStart rid (InRead rop n)) g' \<and> system_kept s g g' \<and> system_rel (s\<lparr>ns_reads := (ns_reads s)(rid \<mapsto> RdInit rop n)\<rparr>) g' c"
proof (intro exI conjI)
  have eq: "rid = get_fresh_rid g" using rid fresh_rid_eq [OF sr inv] by simp
  let ?g = "g\<lparr>ul_local_reads := (ul_local_reads g)(rid \<mapsto> ROInit rop n)\<rparr>"
  show "ul_step D g (LStart rid (InRead rop n)) ?g"
    using get_fresh_rid_ok(1,2) [OF inv] unfolding eq by (intro ul_step_start) (simp add: add_ticket_def)
  show "system_rel (s\<lparr>ns_reads := (ns_reads s)(rid \<mapsto> RdInit rop n)\<rparr>) ?g c"
    using n system_relD(2) [OF sr] by (intro system_rel_reads [OF sr]) simp
qed simp

lemma update_end_sim:
  assumes sr: "system_rel s g c" and ready: "ns_updates s rid = Some (UpDone resp)"
  shows "\<exists>g'. ul_step D g (LEnd rid (OutWrite resp)) g' \<and> system_kept s g g' \<and> system_rel (s\<lparr>ns_updates := (ns_updates s)(rid := None)\<rparr>) g' c"
proof (intro exI conjI)
  let ?g = "g\<lparr>ul_local_updates := (ul_local_updates g)(rid := None)\<rparr>"
  obtain idx where "ul_local_updates g rid = Some (UDone resp idx)" using system_relD(4) [OF sr, of rid] ready by auto
  then show "ul_step D g (LEnd rid (OutWrite resp)) ?g" by (intro ul_step_end) (simp add: consume_stub_def)
  show "system_rel (s\<lparr>ns_updates := (ns_updates s)(rid := None)\<rparr>) ?g c"
    by (rule system_rel_updates [OF sr]) (use ready in simp_all)
  show "system_kept s g ?g" by (rule system_kept_updates [OF sr]) (use ready in simp)
qed

lemma read_end_sim:
  assumes sr: "system_rel s g c" and ready: "ns_reads s rid = Some (RdDone resp)"
  shows "\<exists>g'. ul_step D g (LEnd rid (OutRead resp)) g' \<and> system_kept s g g' \<and> system_rel (s\<lparr>ns_reads := (ns_reads s)(rid := None)\<rparr>) g' c"
proof (intro exI conjI)
  let ?g = "g\<lparr>ul_local_reads := (ul_local_reads g)(rid := None)\<rparr>"
  obtain op n v where "ul_local_reads g rid = Some (RODone op n v resp)" using system_relD(5) [OF sr, of rid] ready by auto
  then show "ul_step D g (LEnd rid (OutRead resp)) ?g" by (intro ul_step_end) (simp add: consume_stub_def)
  show "system_rel (s\<lparr>ns_reads := (ns_reads s)(rid := None)\<rparr>) ?g c"
    by (rule system_rel_reads [OF sr]) simp
qed simp

text \<open>The internal steps of a read.\<close>

lemma read_sim_step:
  assumes sr: "system_rel s g c" and step: "ul_next D g (set_read g rid y)" and rel: "read_rel (ul_num_replicas g) (Some r') (Some y)"
  shows "system_sim D s (s\<lparr>ns_reads := (ns_reads s)(rid \<mapsto> r')\<rparr>) g c"
proof -
  have "(ul_next D)\<^sup>*\<^sup>* g (set_read g rid y)" using step by blast
  then show ?thesis
    unfolding system_sim_def using system_rel_reads [OF sr rel, of rid]
    by (intro exI [of _ "set_read g rid y"] exI [of _ c]) simp
qed

lemma read_sim_stay:
  assumes sr: "system_rel s g c" and r: "ns_reads s rid = Some r"
  shows "system_sim D s (s\<lparr>ns_reads := (ns_reads s)(rid \<mapsto> r)\<rparr>) g c"
  using sr r by (intro system_simI) (simp add: fun_upd_idem)

lemma read_version_sim:
  assumes sr: "system_rel s g c" and r: "ns_reads s rid = Some r" "read_version (ns_log s) r = Some r'"
  shows "system_sim D s (s\<lparr>ns_reads := (ns_reads s)(rid \<mapsto> r')\<rparr>) g c"
proof -
  obtain op n where o: "r = RdInit op n" "r' = RdVersion op n (nl_version_upper_bound (ns_log s))"
    using r(2) by (cases r) (auto simp: read_version_def get_version_upper_bound_def split: option.splits)
  have x: "n < ul_num_replicas g" "ul_local_reads g rid = Some (ROInit op n)" using system_relD(5) [OF sr, of rid] r(1) o(1) by simp_all
  then have "ul_next D g (set_read g rid (ROVersionUpperBound op n (ul_version_upper_bound g)))"
    by (intro ul_next_readonly_version_upper_bound [of g rid]) (simp add: readonly_version_upper_bound_def)
  then show ?thesis by (rule read_sim_step [OF sr]) (use x(1) o(2) log_relD(9) [OF system_relD(1) [OF sr]] in simp)
qed

lemma read_sync_sim:
  assumes sr: "system_rel s g c" and r: "ns_reads s rid = Some r" "read_sync (ns_log s) r = Some r'"
  shows "system_sim D s (s\<lparr>ns_reads := (ns_reads s)(rid \<mapsto> r')\<rparr>) g c"
proof -
  obtain op n v lv where o: "r = RdVersion op n v" "nth_opt (nl_local_versions (ns_log s)) n = Some lv"
      "r' = (if v \<le> lv then RdReady op n else RdVersion op n v)"
    using r(2) by (cases r) (auto simp: read_sync_def is_replica_synced_for_reads_def split: option.splits)
  have x: "n < ul_num_replicas g" "ul_local_reads g rid = Some (ROVersionUpperBound op n (unat v))"
    using system_relD(5) [OF sr, of rid] r(1) o(1) by simp_all
  show ?thesis
  proof (cases "v \<le> lv")
    case True
    have "ul_local_versions g n = Some (unat lv)"
      using log_relD(10) [OF system_relD(1) [OF sr] x(1)] o(2) by (simp add: nth_opt_Some)
    then have "ul_next D g (set_read g rid (ROReadyToRead op n (unat v)))"
      using x(2) True by (intro ul_next_readonly_ready_to_read [of g rid]) (simp add: readonly_ready_to_read_def word_le_nat_alt)
    then show ?thesis by (rule read_sim_step [OF sr]) (use x(1) o(3) True in simp)
  next
    case False
    then show ?thesis using read_sim_stay [OF sr r(1)] o(1,3) by simp
  qed
qed

lemma unlocked_ready:
  assumes "pc_rel N gtl log sl n p u v ups (np_pc p)" and "\<not> holds_data_lock (np_pc p)"
  shows "u = CReady"
  using assms by (cases "np_pc p") (simp_all add: holds_data_lock_def)

lemma read_apply_sim:
  assumes sr: "system_rel s g c" and r: "ns_reads s rid = Some r" "read_replica D (ns_nodes s) r = Some r'"
  shows "system_sim D s (s\<lparr>ns_reads := (ns_reads s)(rid \<mapsto> r')\<rparr>) g c"
proof -
  obtain op n where o: "r = RdReady op n" "n < length (ns_nodes s)" "\<not> holds_data_lock (np_pc (ns_nodes s ! n))"
      "r' = RdDone (dispatch_spec D (np_data (ns_nodes s ! n)) op)"
    using r(2) by (cases r) (auto simp: read_replica_def split: option.splits if_splits)
  obtain v where x: "ul_local_reads g rid = Some (ROReadyToRead op n v)" using system_relD(5) [OF sr, of rid] r(1) o(1) by auto
  note nr = system_relD(3) [OF sr o(2)]
  have "ul_combiner g n = Some CReady" using node_relD(4) [OF nr] unlocked_ready [OF _ o(3)] by blast
  then have "ul_next D g (set_read g rid (RODone op n v (dispatch_spec D (np_data (ns_nodes s ! n)) op)))"
    using x node_relD(1) [OF nr] by (intro ul_next_readonly_apply [of D g rid]) (simp add: readonly_apply_def)
  then show ?thesis by (rule read_sim_step [OF sr]) (use o(4) in simp)
qed

section \<open>Every step, and every run\<close>

lemma system_step_sim:
  assumes step: "system_step D s l s'" and sr: "system_rel s g c" and ok: "cb_ok c" and inv: "ul_parts D g"
  shows "l = Internal \<and> system_sim D s s' g c \<or> (\<exists>g'. ul_step D g l g' \<and> system_kept s g g' \<and> system_rel s' g' c)"
  using step
proof (cases rule: system_step.cases)
  case (sys_update_start rid op)
  then show ?thesis using update_start_sim [OF sr inv] by simp
next
  case (sys_read_start rid n rop)
  then show ?thesis using read_start_sim [OF sr inv] by simp
next
  case (sys_update_end rid resp)
  then show ?thesis using update_end_sim [OF sr] by simp
next
  case (sys_read_end rid resp)
  then show ?thesis using read_end_sim [OF sr] by simp
next
  case (sys_node n weak l p)
  then show ?thesis using sys_node_sim [OF sr ok inv] by simp
next
  case (sys_combine_collect n rid op p)
  then show ?thesis using combine_collect_sim [OF sr] by simp
next
  case (sys_combine_respond n rid resp p)
  then show ?thesis using combine_respond_sim [OF sr] by simp
qed (auto intro: combine_begin_sim [OF sr] combine_lock_sim [OF sr] combine_unlock_sim [OF sr] combine_end_sim [OF sr]
    read_version_sim [OF sr] read_sync_sim [OF sr] read_apply_sim [OF sr])

text \<open>The initial states agree: before the first entry every cell holds \<open>None\<close>.\<close>

definition initial_contents :: "LogicalLogIdx \<rightharpoonup> 'w StoredType" where
  "initial_contents i =
     (if - int LOG_SIZE \<le> i \<and> i < 0
      then Some \<lparr>st_cell_perms = \<lparr>cp_pcell = log_entry_idx i LOG_SIZE, cp_value = Some None\<rparr>, st_log_entry = None\<rparr> else None)"

definition initial_buffer :: "nat \<Rightarrow> 'w CyclicBuffer" where
  "initial_buffer N =
     \<lparr>cb_unbounded_log_instance = 0, cb_cell_ids = [0..<LOG_SIZE], cb_buffer_size = LOG_SIZE, cb_num_replicas = N,
      cb_head = 0, cb_tail = 0, cb_local_versions = map_below N 0, cb_contents = initial_contents,
      cb_alive_bits = (\<lambda>i. if i < LOG_SIZE then Some (\<not> log_entry_alive_value (int i) LOG_SIZE) else None),
      cb_combiner = map_below N CBIdle\<rparr>"

lemma initial_cell: "initial_contents i = Some st \<Longrightarrow>
    i < 0 \<and> - int LOG_SIZE \<le> i \<and> cp_value (st_cell_perms st) = Some None \<and> cp_pcell (st_cell_perms st) = log_entry_idx i LOG_SIZE"
  by (auto simp: initial_contents_def split: if_splits)

lemma initial_buffer_reachable: "0 < N \<Longrightarrow> cb_reachable (initial_buffer N :: 'w CyclicBuffer)"
proof (rule cb_reachable_init)
  assume "0 < N"
  moreover have "stored_type_inv (the (initial_contents i :: 'w StoredType option)) i ([0..<LOG_SIZE] ! log_entry_idx i LOG_SIZE) 0"
    if i: "i \<in> dom (initial_contents :: LogicalLogIdx \<rightharpoonup> 'w StoredType)" for i
  proof -
    obtain st :: "'w StoredType" where st: "initial_contents i = Some st" using i by blast
    from initial_cell [OF this] show ?thesis
      using log_entry_idx_less [OF LOG_SIZE_pos] by (simp add: stored_type_inv_def st)
  qed
  moreover have "- int LOG_SIZE \<le> i \<and> i < 0 \<longleftrightarrow> i \<in> dom (initial_contents :: LogicalLogIdx \<rightharpoonup> 'w StoredType)" for i
    by (auto simp: initial_contents_def dom_def)
  ultimately show "cb_initialize LOG_SIZE N initial_contents [0..<LOG_SIZE] 0 (initial_buffer N :: 'w CyclicBuffer)"
    by (simp add: cb_initialize_def initial_buffer_def)
qed

lemma initial_log_rel:
  assumes "N \<le> MAX_REPLICAS"
  shows "log_rel (nrlog_new N LOG_SIZE) (ul_initialize D N) (initial_buffer N)"
proof -
  let ?l = "nrlog_new N LOG_SIZE" and ?g = "ul_initialize D N"
  have "cell_rel ?l ?g i st" if "initial_contents i = Some st" for i st
    using initial_cell [OF that] log_entry_idx_less [OF LOG_SIZE_pos] by (simp add: cell_rel_def nrlog_new_def)
  moreover have "dom initial_contents \<subseteq> {- int LOG_SIZE ..< 0}" by (auto simp: initial_contents_def dom_def)
  moreover have "log_entry_alive_value (int i) LOG_SIZE" if "i < LOG_SIZE" for i
    using that by (simp add: log_entry_alive_value_nat)
  ultimately show ?thesis
    using assms by (simp add: log_rel_def nrlog_new_def ul_initialize_def initial_buffer_def MAX_IDX_def)
qed

lemma initial_system_rel:
  assumes "N \<le> MAX_REPLICAS"
  shows "system_rel (system_new D N) (ul_initialize D N) (initial_buffer N)"
proof -
  have "node_rel (nrlog_new N LOG_SIZE) (ul_initialize D N) (initial_buffer N) n (node_new D)" if "n < N" for n
    using that by (intro node_relI [where u = CReady and v = CBIdle]) (simp_all add: node_new_def ul_initialize_def initial_buffer_def)
  then show ?thesis
    using initial_log_rel [OF assms]
    by (simp add: system_rel_def system_new_def taken_rel_def ul_initialize_def node_new_def cong: conj_cong)
qed

definition run_simulated ::
    "('r, 'w, 'v, 'resp) Dispatch \<Rightarrow> nat \<Rightarrow> ('r, 'w, 'resp) AsyncLabel list \<Rightarrow> ('r, 'w, 'v, 'resp) NrSystem \<Rightarrow>
     ('r, 'w, 'v, 'resp) UnboundedLog \<Rightarrow> 'w CyclicBuffer \<Rightarrow> bool" where
  "run_simulated D N ls s g c \<longleftrightarrow>
     (\<exists>ks. ul_behavior D N ks g \<and> visible ks = visible ls) \<and> cb_reachable c \<and> system_rel s g c"

lemma ul_behavior_internals:
  "(ul_next D)\<^sup>*\<^sup>* g g' \<Longrightarrow> ul_behavior D N ks g \<Longrightarrow> \<exists>ms. ul_behavior D N ms g' \<and> visible ms = visible ks"
proof (induction rule: rtranclp_induct)
  case (step g' g'')
  then obtain ms where "ul_behavior D N ms g'" "visible ms = visible ks" by blast
  then show ?case
    using ul_behavior_step [OF _ ul_step_internal [OF step.hyps(2)]] by (intro exI [of _ "ms @ [Internal]"]) simp
qed blast

lemma cb_reachable_steps: "cb_next\<^sup>*\<^sup>* c c' \<Longrightarrow> cb_reachable c \<Longrightarrow> cb_reachable c'"
  by (induction rule: rtranclp_induct) (auto intro: cb_reachable_step)

text \<open>Any steps of the log, calls and returns included.\<close>

abbreviation ul_steps where
  "ul_steps D \<equiv> (\<lambda>g g'. \<exists>l. ul_step D g l g')\<^sup>*\<^sup>*"

lemma ul_steps_internal: "(ul_next D)\<^sup>*\<^sup>* g g' \<Longrightarrow> ul_steps D g g'"
proof (induction rule: rtranclp_induct)
  case (step g' g'')
  then show ?case by (blast intro: rtranclp.rtrancl_into_rtrancl ul_step_internal)
qed simp

lemma system_step_simulated:
  assumes sim: "run_simulated D N ls s g c" and step: "system_step D s l s'"
  shows "\<exists>g' c'. run_simulated D N (ls @ [l]) s' g' c' \<and> system_kept s g g' \<and> ul_steps D g g'"
proof -
  obtain ks where ks: "ul_behavior D N ks g" "visible ks = visible ls" and c: "cb_reachable c" and sr: "system_rel s g c"
    using sim by (auto simp: run_simulated_def)
  consider "l = Internal" "system_sim D s s' g c" | g' where "ul_step D g l g'" "system_rel s' g' c" "system_kept s g g'"
    using system_step_sim [OF step sr cb_reachable_ok [OF c] ul_behavior_parts [OF ks(1)]] by blast
  then show ?thesis
  proof cases
    case 1
    then obtain g' c' where s: "(ul_next D)\<^sup>*\<^sup>* g g'" "cb_next\<^sup>*\<^sup>* c c'" "system_rel s' g' c'" "system_kept s g g'"
      by (auto simp: system_sim_def)
    obtain ms where "ul_behavior D N ms g'" "visible ms = visible ks" using ul_behavior_internals [OF s(1) ks(1)] by blast
    then have "run_simulated D N (ls @ [l]) s' g' c'"
      using ks(2) cb_reachable_steps [OF s(2) c] 1(1) s(3) by (auto simp: run_simulated_def)
    then show ?thesis using s(4) ul_steps_internal [OF s(1)] by blast
  next
    case 2
    have one: "ul_steps D g g'" using 2(1) by blast
    have "visible (ks @ [l]) = visible (ls @ [l])" using ks(2) by simp
    then show ?thesis
      unfolding run_simulated_def using ul_behavior_step [OF ks(1) 2(1)] 2(2,3) c one by blast
  qed
qed

lemma system_behavior_simulated:
  assumes "system_behavior D N ls s"
  shows "\<exists>g c. run_simulated D N ls s g c"
  using assms
proof (induction rule: system_behavior.induct)
  case system_behavior_new
  have "run_simulated D N [] (system_new D N) (ul_initialize D N) (initial_buffer N)"
    using ul_behavior_init [OF system_behavior_new(1), of D] initial_buffer_reachable [OF system_behavior_new(1)]
      initial_system_rel [OF system_behavior_new(2)] by (auto simp: run_simulated_def)
  then show ?case by blast
next
  case (system_behavior_step ls s l s')
  then show ?case using system_step_simulated by blast
qed

section \<open>What follows for the code\<close>

lemma log_code_refines:
  assumes "system_behavior D N ls s"
  shows "\<exists>ks g. ul_behavior D N ks g \<and> visible ks = visible ls \<and>
    (\<forall>n<length (ns_nodes s). ul_replicas g n = Some (np_data (ns_nodes s ! n)))"
proof -
  obtain g c where "run_simulated D N ls s g c" using system_behavior_simulated [OF assms] by blast
  then show ?thesis unfolding run_simulated_def using node_relD(1) [OF system_relD(3)] by blast
qed

lemma log_code_linearizable:
  assumes "system_behavior D N ls s"
  shows "\<exists>ms t. as_behavior D ms t \<and> behavior_equiv (rev ls) (rev ms)"
proof -
  obtain ks g where ks: "ul_behavior D N ks g" "visible ks = visible ls" using log_code_refines [OF assms] by blast
  from sl_linearizable [OF ulr.behavior_refines [OF ks(1)]] show ?thesis
    by (simp add: behavior_equiv_visible visible_rev ks(2))
qed

lemma log_code_never_panics:
  assumes "system_behavior D N ls s" and n: "n < length (ns_nodes s)" and pc: "pc_in_log (np_pc (ns_nodes s ! n))"
  shows "\<exists>l p. node_step D n weak (ns_log s) (ns_nodes s ! n) = Some (l, p)"
proof -
  obtain g c where sim: "run_simulated D N ls s g c" using system_behavior_simulated [OF assms(1)] by blast
  then have "cb_ok c" "ul_parts D g" "system_rel s g c"
    by (auto simp: run_simulated_def intro: cb_reachable_ok ul_behavior_parts)
  from node_step_sim [OF this(3,1,2) n refl pc, of weak] show ?thesis by (auto simp: step_sim_def)
qed

text \<open>Delivering the responses never runs out of them.\<close>

lemma responses_complete:
  assumes "system_behavior D N ls s" and n: "n < length (ns_nodes s)" and pc: "np_pc (ns_nodes s ! n) = NRespond i"
  shows "combine_respond (ns_nodes s ! n) \<noteq> None \<or> combine_end (ns_nodes s ! n) \<noteq> None"
proof -
  obtain g c where "run_simulated D N ls s g c" using system_behavior_simulated [OF assms(1)] by blast
  then have "system_rel s g c" by (simp add: run_simulated_def)
  from node_relD(4) [OF system_relD(3) [OF this n]] pc have "length (np_responses (ns_nodes s ! n)) = length (np_rids (ns_nodes s ! n))"
    by (auto simp: ups_done_def)
  then show ?thesis by (simp add: pc combine_respond_def combine_end_def nth_opt_def)
qed

end
