(* ===== verification/NR_Exec_Program.thy ===== *)
theory NR_Exec_Program
  imports NR_Exec_Collect NR_Exec_Refines
begin

text \<open>
  The whole library: every run of the replicated data structure, with the threads of all its
  replicas, is a run of the system of \<open>NR_Exec_Log\<close> with the same calls and returns. So it is
  linearizable, and no thread of it panics.
\<close>

section \<open>The combiner lock is released\<close>

lemma release_combiner_lock_sim:
  assumes rr: "system_replica_rel s n fc rp" and t: "t < MAX_THREADS_PER_REPLICA" and ids: "rids_ok rp"
    and step: "release_combiner_lock_step t rp = Some rp'"
  shows "replica_sim D s n rp (ns_log s) rp'"
proof -
  let ?th = "rp_threads rp ! t"
  note th = thread_relD [OF replica_relD(11) [OF rr t]] and r = replica_relD [OF rr]
  obtain k where k: "th_pc ?th = TUnlock k" and rp': "rp' = tgoto (rp\<lparr>rp_combiner := 0\<rparr>) t (try_return k)"
    using step by (auto simp: release_combiner_lock_step_def split: ThreadPc.splits)
  have c: "combining (th_pc ?th)" by (simp add: k)
  have "combiner_free (fc_combiner fc) (rp_num_ops rp) (ns_nodes s ! n)" using combinerD(3) [OF r(10) t c] by (simp add: k)
  moreover have "\<not> combining (th_pc (rp_threads rp' ! i))" if "i < MAX_THREADS_PER_REPLICA" for i
    using not_combining_others [OF r(10) t c that] t r(3) by (cases "i = t") (simp_all add: rp')
  ultimately have "combiner_rel (ns_updates s) fc (ns_nodes s ! n) rp'" by (intro combinerI_free) (simp_all add: rp')
  then show ?thesis
    by (intro combine_sim [OF rr t ids t, where s' = s and th' = "?th\<lparr>th_pc := try_return k\<rparr>" and cx' = "rp_contexts rp ! t"
          and k = k and fc' = fc])
      (use k rp' th(3) t r(1,3,5,6,8,9) in \<open>auto simp: client_rel_try_return context_step_same lock_same\<close>)
qed

lemma thread_step_sim:
  assumes rr: "system_replica_rel s n fc rp" and t: "t < MAX_THREADS_PER_REPLICA" and ids: "rids_ok rp" and n: "n < length (ns_nodes s)"
    and step: "thread_step D n t weak (ns_log s) rp = Some (l', rp')"
  shows "replica_sim D s n rp l' rp'"
  using step
    make_pending_sim [OF rr t ids] get_response_sim [OF rr t ids] execute_read_sim [OF rr t ids n]
    acquire_combiner_lock_sim [OF rr t ids n] collect_thread_ops_sim [OF rr t ids n] combine_step_sim [OF rr t ids n]
    distribute_thread_resps_sim [OF rr t ids n] release_combiner_lock_sim [OF rr t ids]
  by (auto simp: thread_step_def Let_def split: if_splits)

section \<open>The other replicas\<close>

lemma replica_rel_requests:
  fixes rp :: "('r, 'w, 'v, 'resp) Replica"
  assumes rr: "replica_rel ups reads p n fc rp"
    and same: "\<And>i. i < MAX_THREADS_PER_REPLICA \<Longrightarrow> th_pc (rp_threads rp ! i) \<noteq> TIdle \<Longrightarrow>
      ups' (th_rid (rp_threads rp ! i)) = ups (th_rid (rp_threads rp ! i)) \<and>
      reads' (th_rid (rp_threads rp ! i)) = reads (th_rid (rp_threads rp ! i))"
  shows "replica_rel ups' reads' p n fc rp"
proof -
  note r = replica_relD [OF rr]
  have us: "ups' (th_rid (rp_threads rp ! i)) = ups (th_rid (rp_threads rp ! i))" if i: "in_progress_at fc i" for i
  proof -
    have "i < MAX_THREADS_PER_REPLICA" using i fc_okD(1) [OF replica_fc_ok [OF rr]] r(4) by (auto simp: in_progress_at_def)
    then show ?thesis using same in_progress_not_idle [OF rr _ i] by blast
  qed
  have "combine_rel (fc_combiner fc) ops p d lpc cxs (\<lambda>i. ups' (th_rid (rp_threads rp ! i))) pc"
    if "combine_rel (fc_combiner fc) ops p d lpc cxs (\<lambda>i. ups (th_rid (rp_threads rp ! i))) pc" for ops d lpc cxs and pc :: "('r, 'w, 'resp) ThreadPc"
    by (rule combine_rel_frame [OF that replica_fc_ok [OF rr] r(4)]) (simp add: us)
  then have "combiner_rel ups' fc p rp"
    using r(10) unfolding combiner_rel_def by (elim ex_forward) simp
  moreover have "thread_rel_at ups' reads' n fc rp t" if "t < MAX_THREADS_PER_REPLICA" for t
    using thread_rel_frame [OF r(11) [OF that]] same [OF that] by blast
  ultimately show ?thesis unfolding replica_rel_def using r(1-9) by simp
qed

lemma program_relD:
  assumes "program_rel nr s fcs"
  shows "nr_log nr = ns_log s" "length (nr_replicas nr) = length (ns_nodes s)"
    "n < length (nr_replicas nr) \<Longrightarrow> replica_rel (ns_updates s) (ns_reads s) (ns_nodes s ! n) n (fcs n) (nr_replicas nr ! n)"
    "distinct_rids nr" "rids_in_flight nr = dom (ns_updates s) \<union> dom (ns_reads s)"
  using assms by (simp_all add: program_rel_def)

lemma program_threads: "program_rel nr s fcs \<Longrightarrow> n < length (nr_replicas nr) \<Longrightarrow>
    length (rp_threads (nr_replicas nr ! n)) = MAX_THREADS_PER_REPLICA"
  using replica_relD(3) [OF program_relD(3)] by blast

lemma program_rids_ok: "distinct_rids nr \<Longrightarrow> n < length (nr_replicas nr) \<Longrightarrow> rids_ok (nr_replicas nr ! n)"
  unfolding distinct_rids_def rids_ok_def in_flight_def by blast

lemma rids_apart:
  assumes "distinct_rids nr" "in_flight nr n t" "in_flight nr m i" "n \<noteq> m \<or> t \<noteq> i"
  shows "th_rid (thread_of nr n t) \<noteq> th_rid (thread_of nr m i)"
  using assms unfolding distinct_rids_def by blast

text \<open>One replica changes, with requests no thread of another replica has in flight.\<close>

lemma program_rel_update:
  assumes pr: "program_rel nr s fcs" and n: "n < length (nr_replicas nr)"
    and rp': "replica_rel (ns_updates s') (ns_reads s') (ns_nodes s' ! n) n fc' rp'"
    and s': "length (ns_nodes s') = length (ns_nodes s)" "\<And>m. m \<noteq> n \<Longrightarrow> ns_nodes s' ! m = ns_nodes s ! m"
    and same: "\<And>m i. m \<noteq> n \<Longrightarrow> in_flight nr m i \<Longrightarrow>
      ns_updates s' (th_rid (thread_of nr m i)) = ns_updates s (th_rid (thread_of nr m i)) \<and>
      ns_reads s' (th_rid (thread_of nr m i)) = ns_reads s (th_rid (thread_of nr m i))"
    and nr': "nr' = (set_replica nr n rp')\<lparr>nr_log := ns_log s'\<rparr>" and ids: "distinct_rids nr'"
      "rids_in_flight nr' = dom (ns_updates s') \<union> dom (ns_reads s')"
  shows "program_rel nr' s' (fcs(n := fc'))"
proof -
  have "replica_rel (ns_updates s') (ns_reads s') (ns_nodes s' ! m) m ((fcs(n := fc')) m) (nr_replicas nr' ! m)"
    if m: "m < length (nr_replicas nr)" for m
  proof (cases "m = n")
    case False
    have "replica_rel (ns_updates s') (ns_reads s') (ns_nodes s ! m) m (fcs m) (nr_replicas nr ! m)"
      by (rule replica_rel_requests [OF program_relD(3) [OF pr m]])
        (use same [OF False] m program_threads [OF pr m] in \<open>simp add: in_flight_def\<close>)
    then show ?thesis using False s'(2) by (simp add: nr')
  qed (use rp' n in \<open>simp add: nr'\<close>)
  then show ?thesis using ids s'(1) program_relD(2) [OF pr] by (simp add: program_rel_def nr')
qed

section \<open>Steps of threads\<close>

lemma threads_kept_in_flight:
  assumes "threads_kept (nr_replicas nr ! n) rp'" and "nr' = (set_replica nr n rp')\<lparr>nr_log := l\<rparr>"
  shows "in_flight nr' m i \<longleftrightarrow> in_flight nr m i" and "in_flight nr m i \<Longrightarrow> th_rid (thread_of nr' m i) = th_rid (thread_of nr m i)"
  using assms by (cases "m = n"; force simp: in_flight_def threads_kept_def)+

lemma rids_cong:
  assumes "\<And>m i. in_flight nr' m i \<longleftrightarrow> in_flight nr m i"
    and "\<And>m i. in_flight nr m i \<Longrightarrow> th_rid (thread_of nr' m i) = th_rid (thread_of nr m i)"
  shows "distinct_rids nr' \<longleftrightarrow> distinct_rids nr" "rids_in_flight nr' = rids_in_flight nr"
proof -
  show "distinct_rids nr' \<longleftrightarrow> distinct_rids nr" unfolding distinct_rids_def using assms by (simp cong: conj_cong)
  show "rids_in_flight nr' = rids_in_flight nr" unfolding rids_in_flight_def using assms by (simp cong: rev_conj_cong)
qed

lemma program_thread_sim:
  assumes pr: "program_rel nr s fcs" and n: "n < length (nr_replicas nr)" and sim: "replica_sim D s n (nr_replicas nr ! n) l rp'"
  shows "\<exists>s' fc'. (s' = s \<or> system_step D s Internal s') \<and>
    program_rel ((set_replica nr n rp')\<lparr>nr_log := l\<rparr>) s' (fcs(n := fc'))"
proof -
  let ?rp = "nr_replicas nr ! n" and ?nr = "(set_replica nr n rp')\<lparr>nr_log := l\<rparr>"
  obtain s' fc' where s': "s' = s \<or> system_step D s Internal s'" "ns_log s' = l" "length (ns_nodes s') = length (ns_nodes s)"
      "\<And>m. m \<noteq> n \<Longrightarrow> ns_nodes s' ! m = ns_nodes s ! m" "requests_kept ?rp s s'"
      "replica_rel (ns_updates s') (ns_reads s') (ns_nodes s' ! n) n fc' rp'" and kept: "threads_kept ?rp rp'"
    using sim unfolding replica_sim_def by blast
  note flight = threads_kept_in_flight [OF kept refl, where l = l]
  have ids: "distinct_rids ?nr" "rids_in_flight ?nr = rids_in_flight nr"
    using rids_cong [of ?nr nr, OF flight] program_relD(4) [OF pr] by simp_all
  have "th_rid (thread_of nr m i) \<notin> thread_rids ?rp" if "m \<noteq> n" "in_flight nr m i" for m i
    using rids_apart [OF program_relD(4) [OF pr] that(2), of n] that(1) n by (auto simp: thread_rids_def in_flight_def)
  then have "program_rel ?nr s' (fcs(n := fc'))"
    by (intro program_rel_update [OF pr n s'(6,3,4)])
      (use s'(2,5) ids program_relD(5) [OF pr] in \<open>simp_all add: requests_kept_def\<close>)
  then show ?thesis using s'(1) by blast
qed

section \<open>Calls and returns\<close>

lemma rids_in_flight_finite: "finite (rids_in_flight nr)"
proof -
  have "rids_in_flight nr \<subseteq> (\<Union>n<length (nr_replicas nr). (\<lambda>t. th_rid (thread_of nr n t)) ` {..<length (rp_threads (nr_replicas nr ! n))})"
    by (auto simp: rids_in_flight_def in_flight_def)
  then show ?thesis by (rule finite_subset) simp
qed

lemma new_rid:
  assumes "program_rel nr s fcs"
  shows "fresh_rid s = get_fresh_nat (rids_in_flight nr) Map.empty" "fresh_rid s \<notin> rids_in_flight nr"
    "ns_updates s (fresh_rid s) = None" "ns_reads s (fresh_rid s) = None"
proof -
  show eq: "fresh_rid s = get_fresh_nat (rids_in_flight nr) Map.empty"
    by (simp add: fresh_rid_def program_relD(5) [OF assms])
  show new: "fresh_rid s \<notin> rids_in_flight nr"
    using get_fresh_nat_not_in [OF rids_in_flight_finite, of Map.empty nr] by (simp add: eq)
  show "ns_updates s (fresh_rid s) = None" "ns_reads s (fresh_rid s) = None"
    using new by (auto simp: program_relD(5) [OF assms])
qed

text \<open>Thread \<open>t\<close> of replica \<open>n\<close> gets the point \<open>pc\<close> and the identifier \<open>rid\<close>.\<close>

abbreviation thread_moved where
  "thread_moved nr n t pc rid \<equiv>
     set_replica nr n (set_thread (nr_replicas nr ! n) t ((thread_of nr n t)\<lparr>th_pc := pc, th_rid := rid\<rparr>))"

lemma thread_moved_in_flight:
  assumes "n < length (nr_replicas nr)" "t < length (rp_threads (nr_replicas nr ! n))"
  shows "in_flight (thread_moved nr n t pc rid) m i \<longleftrightarrow> (if m = n \<and> i = t then pc \<noteq> TIdle else in_flight nr m i)"
    and "th_rid (thread_of (thread_moved nr n t pc rid) m i) = (if m = n \<and> i = t then rid else th_rid (thread_of nr m i))"
  using assms by (auto simp: in_flight_def nth_list_update)

lemma thread_moved_rel:
  assumes pr: "program_rel nr s fcs" and n: "n < length (nr_replicas nr)" and t: "t < MAX_THREADS_PER_REPLICA"
    and comb: "\<not> combining (th_pc (thread_of nr n t))" "\<not> combining pc" and slot: "\<not> in_progress_at (fcs n) t"
    and s': "ns_log s' = ns_log s" "ns_nodes s' = ns_nodes s"
      "\<And>x. x \<noteq> rid \<Longrightarrow> ns_updates s' x = ns_updates s x \<and> ns_reads s' x = ns_reads s x"
    and others: "\<And>m i. in_flight nr m i \<Longrightarrow> m \<noteq> n \<or> i \<noteq> t \<Longrightarrow> th_rid (thread_of nr m i) \<noteq> rid"
    and client: "client_rel n rid (rp_contexts (nr_replicas nr ! n) ! t) (fc_clients (fcs n) t) (fc_slots (fcs n) t)
        (ns_updates s' rid) (ns_reads s' rid) pc" "fc_slots (fcs n) t = Some x"
      "slot_rel rid (rp_contexts (nr_replicas nr ! n) ! t) (ns_updates s' rid) x"
    and lock: "lock_rel pc (th_lock (thread_of nr n t))"
    and dom: "dom (ns_updates s') \<union> dom (ns_reads s') = rids_in_flight (thread_moved nr n t pc rid)"
  shows "program_rel (thread_moved nr n t pc rid) s' fcs"
proof -
  let ?rp = "nr_replicas nr ! n" and ?th = "(thread_of nr n t)\<lparr>th_pc := pc, th_rid := rid\<rparr>" and ?nr = "thread_moved nr n t pc rid"
  note rr = program_relD(3) [OF pr n] and len = program_threads [OF pr n]
  note moved = thread_moved_in_flight [OF n, of t, unfolded len, OF t]
  have same: "ns_updates s' (th_rid (thread_of nr m i)) = ns_updates s (th_rid (thread_of nr m i)) \<and>
      ns_reads s' (th_rid (thread_of nr m i)) = ns_reads s (th_rid (thread_of nr m i))"
    if "in_flight nr m i" "m \<noteq> n \<or> i \<noteq> t" for m i
    using s'(3) others [OF that] by simp
  have "replica_rel (ns_updates s') (ns_reads s') (ns_nodes s' ! n) n (fcs n) (set_thread ?rp t ?th)"
    unfolding s'(2) using client slot replica_relD(7,8) [OF rr] same n len t comb(2) lock
    by (intro replica_rel_client [OF rr t comb(1), of ?th, where cx' = "rp_contexts ?rp ! t"])
      (auto simp: lock_same client_fields_def in_flight_def intro: thread_relI)
  moreover have "distinct_rids ?nr"
    unfolding distinct_rids_def moved using others program_relD(4) [OF pr] unfolding distinct_rids_def by metis
  moreover have "?nr = ?nr\<lparr>nr_log := ns_log s'\<rparr>" using program_relD(1) [OF pr] s'(1) by (cases nr) simp
  ultimately have "program_rel ?nr s' (fcs(n := fcs n))"
    using same dom s'(1,2) by (intro program_rel_update [OF pr n]) simp_all
  then show ?thesis by simp
qed

lemma start_callD:
  assumes "start_call rid pc n t nr = Some nr'"
  shows "n < length (nr_replicas nr)" "nr' = thread_moved nr n t pc rid"
  using assms by (simp_all add: start_call_def Let_def split: if_splits)

lemma thread_moved_rids_add:
  assumes "n < length (nr_replicas nr)" "t < length (rp_threads (nr_replicas nr ! n))" "pc \<noteq> TIdle" "\<not> in_flight nr n t"
  shows "rids_in_flight (thread_moved nr n t pc rid) = insert rid (rids_in_flight nr)"
  unfolding rids_in_flight_def thread_moved_in_flight [OF assms(1,2)] using assms(3,4) by auto

lemma thread_moved_rids_remove:
  assumes "n < length (nr_replicas nr)" "t < length (rp_threads (nr_replicas nr ! n))" "distinct_rids nr" "in_flight nr n t"
  shows "rids_in_flight (thread_moved nr n t TIdle (th_rid (thread_of nr n t))) = rids_in_flight nr - {th_rid (thread_of nr n t)}"
proof -
  have same: "th_rid (thread_of nr m i) = th_rid (thread_of nr n t) \<longleftrightarrow> m = n \<and> i = t" if "in_flight nr m i" for m i
    using rids_apart [OF assms(3,4) that] by metis
  have "x \<in> rids_in_flight (thread_moved nr n t TIdle (th_rid (thread_of nr n t))) \<longleftrightarrow>
      (\<exists>m i. in_flight nr m i \<and> (m \<noteq> n \<or> i \<noteq> t) \<and> x = th_rid (thread_of nr m i))" for x
    unfolding rids_in_flight_def thread_moved_in_flight [OF assms(1,2)] by auto
  then show ?thesis using same by (auto simp: rids_in_flight_def)
qed

text \<open>A thread that is idle, or about to return, has an empty slot.\<close>

lemma idle_slot:
  assumes "replica_rel ups reads p n fc rp" and "t < MAX_THREADS_PER_REPLICA" and "fc_clients fc t = Some CLIdle"
  shows "fc_slots fc t = Some SlotEmpty" "\<not> in_progress_at fc t"
proof -
  obtain x where x: "fc_slots fc t = Some x" using thread_relD(2) [OF replica_relD(11) [OF assms(1,2)]] by blast
  then show "fc_slots fc t = Some SlotEmpty" using pre_send_request [OF replica_fc_ok [OF assms(1)] assms(3)] by simp
  then show "\<not> in_progress_at fc t" by (simp add: in_progress_at_def)
qed

lemma execute_mut_sim:
  assumes pr: "program_rel nr s fcs" and call: "may_call nr n t" and nr': "execute_mut_call (fresh_rid s) op n t nr = Some nr'"
  shows "\<exists>s'. system_step D s (LStart (fresh_rid s) (InWrite op)) s' \<and> program_rel nr' s' fcs"
proof -
  let ?rid = "fresh_rid s" and ?s = "s\<lparr>ns_updates := (ns_updates s)(fresh_rid s \<mapsto> UpPending op)\<rparr>"
  note new = new_rid [OF pr] and n = start_callD [OF nr' [unfolded execute_mut_call_def]]
  have t: "t < MAX_THREADS_PER_REPLICA" "th_pc (thread_of nr n t) = TIdle"
    using call program_threads [OF pr n(1)] by (simp_all add: may_call_def)
  note rr = program_relD(3) [OF pr n(1)] and th = thread_relD [OF replica_relD(11) [OF rr t(1)]]
  have cl: "fc_clients (fcs n) t = Some CLIdle" "cx_batch (rp_contexts (nr_replicas nr ! n) ! t) = None" using th(1) t(2) by simp_all
  have "rids_in_flight (thread_moved nr n t (TPut op) ?rid) = insert ?rid (rids_in_flight nr)"
    by (rule thread_moved_rids_add) (use n(1) t program_threads [OF pr n(1)] in \<open>simp_all add: in_flight_def\<close>)
  then have "program_rel nr' ?s fcs"
    unfolding n(2) using new(2,4) program_relD(5) [OF pr] th(2,3) t(2) idle_slot [OF rr t(1) cl(1)] cl
    by (intro thread_moved_rel [OF pr n(1) t(1), where x = SlotEmpty]) (auto simp: rids_in_flight_def)
  moreover have "system_step D s (LStart ?rid (InWrite op)) ?s" by (rule sys_update_start) simp
  ultimately show ?thesis by blast
qed

lemma execute_sim:
  assumes pr: "program_rel nr s fcs" and call: "may_call nr n t" and nr': "execute_call (fresh_rid s) op n t nr = Some nr'"
  shows "\<exists>s'. system_step D s (LStart (fresh_rid s) (InRead op n)) s' \<and> program_rel nr' s' fcs"
proof -
  let ?rid = "fresh_rid s" and ?s = "s\<lparr>ns_reads := (ns_reads s)(fresh_rid s \<mapsto> RdInit op n)\<rparr>"
  note new = new_rid [OF pr] and n = start_callD [OF nr' [unfolded execute_call_def]]
  have t: "t < MAX_THREADS_PER_REPLICA" "th_pc (thread_of nr n t) = TIdle"
    using call program_threads [OF pr n(1)] by (simp_all add: may_call_def)
  note rr = program_relD(3) [OF pr n(1)] and th = thread_relD [OF replica_relD(11) [OF rr t(1)]]
  have cl: "fc_clients (fcs n) t = Some CLIdle" "cx_batch (rp_contexts (nr_replicas nr ! n) ! t) = None" using th(1) t(2) by simp_all
  have "rids_in_flight (thread_moved nr n t (TVersion op) ?rid) = insert ?rid (rids_in_flight nr)"
    by (rule thread_moved_rids_add) (use n(1) t program_threads [OF pr n(1)] in \<open>simp_all add: in_flight_def\<close>)
  then have "program_rel nr' ?s fcs"
    unfolding n(2) using new(2,3) program_relD(5) [OF pr] th(2,3) t(2) idle_slot [OF rr t(1) cl(1)] cl
    by (intro thread_moved_rel [OF pr n(1) t(1), where x = SlotEmpty]) (auto simp: rids_in_flight_def)
  moreover have "system_step D s (LStart ?rid (InRead op n)) ?s"
    by (rule sys_read_start) (use n(1) program_relD(2) [OF pr] in simp_all)
  ultimately show ?thesis by blast
qed

lemma return_sim:
  assumes pr: "program_rel nr s fcs" and n: "n < length (nr_replicas nr)" and t: "t < length (rp_threads (nr_replicas nr ! n))"
    and pc: "th_pc (thread_of nr n t) = TReturnMut resp \<and> out = OutWrite resp \<or> th_pc (thread_of nr n t) = TReturn resp \<and> out = OutRead resp"
  shows "\<exists>s'. system_step D s (LEnd (th_rid (thread_of nr n t)) out) s' \<and>
    program_rel (set_replica nr n (tgoto (nr_replicas nr ! n) t TIdle)) s' fcs"
proof -
  let ?rid = "th_rid (thread_of nr n t)"
  have t': "t < MAX_THREADS_PER_REPLICA" using t program_threads [OF pr n] by simp
  note rr = program_relD(3) [OF pr n] and th = thread_relD [OF replica_relD(11) [OF rr t']]
  have cl: "fc_clients (fcs n) t = Some CLIdle" "cx_batch (rp_contexts (nr_replicas nr ! n) ! t) = None"
    using th(1) pc by auto
  have flight: "in_flight nr n t" using n t pc by (auto simp: in_flight_def)
  obtain s' where s': "system_step D s (LEnd ?rid out) s'" "ns_log s' = ns_log s" "ns_nodes s' = ns_nodes s"
      "ns_updates s' = (ns_updates s)(?rid := None)" "ns_reads s' = (ns_reads s)(?rid := None)"
  proof (cases "out = OutWrite resp")
    case True
    then have "ns_updates s ?rid = Some (UpDone resp)" "ns_reads s ?rid = None" using th(1) pc by auto
    then show ?thesis
      using True by (intro that [of "s\<lparr>ns_updates := (ns_updates s)(?rid := None)\<rparr>"]) (simp_all add: sys_update_end fun_upd_idem)
  next
    case False
    then have "ns_reads s ?rid = Some (RdDone resp)" "ns_updates s ?rid = None" "out = OutRead resp" using th(1) pc by auto
    then show ?thesis
      by (intro that [of "s\<lparr>ns_reads := (ns_reads s)(?rid := None)\<rparr>"]) (simp_all add: sys_read_end fun_upd_idem)
  qed
  have "dom (ns_updates s') \<union> dom (ns_reads s') = rids_in_flight (thread_moved nr n t TIdle ?rid)"
    unfolding thread_moved_rids_remove [OF n t program_relD(4) [OF pr] flight] using program_relD(5) [OF pr] s'(4,5) by auto
  moreover have "\<not> combining (th_pc (thread_of nr n t))" "th_lock (thread_of nr n t) = LIdle" using pc th(3) by auto
  moreover have "slot_rel ?rid (rp_contexts (nr_replicas nr ! n) ! t) u SlotEmpty" for u :: "('b, 'd) UpdateReq option"
    using th(2) idle_slot(1) [OF rr t' cl(1)] by simp
  moreover have "th_rid (thread_of nr m i) \<noteq> ?rid" if "in_flight nr m i" "m \<noteq> n \<or> i \<noteq> t" for m i
    by (rule rids_apart [OF program_relD(4) [OF pr] that(1) flight that(2)])
  ultimately have "program_rel (thread_moved nr n t TIdle ?rid) s' fcs"
    by (intro thread_moved_rel [OF pr n t', where x = SlotEmpty])
      (simp_all add: s'(2-5) idle_slot [OF rr t' cl(1)] cl)
  moreover have "tgoto (nr_replicas nr ! n) t TIdle = set_thread (nr_replicas nr ! n) t ((thread_of nr n t)\<lparr>th_pc := TIdle, th_rid := ?rid\<rparr>)"
    by (cases "thread_of nr n t") simp
  ultimately show ?thesis using s'(1) by (intro exI [of _ s']) (simp only: simp_thms)
qed

section \<open>Runs of the program\<close>

lemma replica_rel_tokens [simp]: "replica_rel ups reads p n fc (rp\<lparr>rp_tokens := ts\<rparr>) \<longleftrightarrow> replica_rel ups reads p n fc rp"
  by (simp add: replica_rel_def combiner_rel_def)

lemma register_sim:
  assumes pr: "program_rel nr s fcs" and reg: "node_replicated_register n nr = (res, nr')"
  shows "program_rel nr' s fcs"
proof (cases "n < length (nr_replicas nr)")
  case True
  then obtain ts where nr': "nr' = set_replica nr n ((nr_replicas nr ! n)\<lparr>rp_tokens := ts\<rparr>)"
    using reg by (cases "nr_replicas nr ! n") (auto simp: node_replicated_register_def replica_register_def Let_def split: if_splits)
  have flight: "in_flight nr' m i \<longleftrightarrow> in_flight nr m i" "th_rid (thread_of nr' m i) = th_rid (thread_of nr m i)" for m i
    using True by (simp_all add: nr' in_flight_def nth_list_update)
  have "replica_rel (ns_updates s) (ns_reads s) (ns_nodes s ! m) m (fcs m) (nr_replicas nr' ! m)" if "m < length (nr_replicas nr)" for m
    using program_relD(3) [OF pr that] True by (simp add: nr' nth_list_update)
  then show ?thesis
    using program_relD(1,2,4,5) [OF pr] rids_cong [of nr' nr, OF flight] by (simp add: program_rel_def nr')
qed (use pr reg in \<open>simp add: node_replicated_register_def\<close>)

lemma program_step_sim:
  assumes pr: "program_rel nr s fcs" and step: "program_step D nr l nr'"
  shows "\<exists>s' fcs'. (s' = s \<and> l = Internal \<or> system_step D s l s') \<and> program_rel nr' s' fcs'"
  using step
proof cases
  case (program_register n res)
  then show ?thesis using register_sim [OF pr] by blast
next
  case (program_execute_mut n t rid op)
  then have "rid = fresh_rid s" using new_rid(1) [OF pr] by simp
  then show ?thesis using execute_mut_sim [OF pr, of n t op nr' D] program_execute_mut by auto
next
  case (program_execute n t rid op)
  then have "rid = fresh_rid s" using new_rid(1) [OF pr] by simp
  then show ?thesis using execute_sim [OF pr, of n t op nr' D] program_execute by auto
next
  case (program_thread n t weak l' rp)
  have "replica_sim D s n (nr_replicas nr ! n) l' rp"
    using program_thread program_threads [OF pr] program_relD(1,2) [OF pr]
    by (intro thread_step_sim [OF program_relD(3) [OF pr] _ program_rids_ok [OF program_relD(4) [OF pr]]]) simp_all
  from program_thread_sim [OF pr program_thread(3) this] show ?thesis using program_thread(1,2) by auto
next
  case (program_return_mut n t resp)
  then show ?thesis using return_sim [OF pr, of n t resp "OutWrite resp" D] by auto
next
  case (program_return n t resp)
  then show ?thesis using return_sim [OF pr, of n t resp "OutRead resp" D] by auto
qed

lemma initial_replica_rel:
  "replica_rel ups reads (node_new D) n (fc_initialize MAX_THREADS_PER_REPLICA) (replica_new D MAX_THREADS_PER_REPLICA)"
proof -
  have pos: "0 < MAX_THREADS_PER_REPLICA" by (simp add: MAX_THREADS_PER_REPLICA_def)
  have "rwl_reachable (rwlock_new MAX_THREADS_PER_REPLICA (init_spec D) UNIV, replicate MAX_THREADS_PER_REPLICA LIdle)"
    by (rule rwl_reachable_new [OF pos UNIV_I])
  then show ?thesis
    using fc_reachable_init [of MAX_THREADS_PER_REPLICA]
    by (simp add: replica_rel_def replica_new_def fc_initialize_def rwlock_new_def
        node_new_def combiner_rel_def combiner_free_def thread_rel_def context_new_def map_below_def)
qed

lemma initial_program_rel:
  "program_rel (node_replicated_new D N) (system_new D N) (\<lambda>_. fc_initialize MAX_THREADS_PER_REPLICA)"
  using initial_replica_rel
  by (auto simp: program_rel_def node_replicated_new_def system_new_def distinct_rids_def rids_in_flight_def in_flight_def replica_new_def)

definition program_simulated ::
    "('r, 'w, 'v, 'resp) Dispatch \<Rightarrow> nat \<Rightarrow> ('r, 'w, 'resp) AsyncLabel list \<Rightarrow> ('r, 'w, 'v, 'resp) NodeReplicated \<Rightarrow>
     ('r, 'w, 'v, 'resp) NrSystem \<Rightarrow> (NodeId \<Rightarrow> FlatCombiner) \<Rightarrow> bool" where
  "program_simulated D N ls nr s fcs \<longleftrightarrow>
     program_rel nr s fcs \<and> (\<exists>ks. system_behavior D N ks s \<and> visible ks = visible ls)"

lemma program_behavior_simulated:
  assumes "program_behavior D N ls nr"
  shows "\<exists>s fcs. program_simulated D N ls nr s fcs"
  using assms
proof (induction rule: program_behavior.induct)
  case program_behavior_new
  then show ?case
    unfolding program_simulated_def using initial_program_rel system_behavior_new by (metis visible_simps(1))
next
  case (program_behavior_step ls nr l nr')
  then obtain s fcs ks where sim: "program_rel nr s fcs" "system_behavior D N ks s" "visible ks = visible ls"
    unfolding program_simulated_def by blast
  obtain s' fcs' where s': "s' = s \<and> l = Internal \<or> system_step D s l s'" "program_rel nr' s' fcs'"
    using program_step_sim [OF sim(1) program_behavior_step.hyps(2)] by blast
  from s'(1) have "\<exists>ms. system_behavior D N ms s' \<and> visible ms = visible (ls @ [l])"
  proof (elim disjE conjE)
    assume "system_step D s l s'"
    from system_behavior.system_behavior_step [OF sim(2) this] show ?thesis using sim(3) by (intro exI [of _ "ks @ [l]"]) simp
  qed (use sim in auto)
  then show ?case using s'(2) unfolding program_simulated_def by blast
qed

lemma program_run_linearizable:
  assumes "program_behavior D N ls nr"
  shows "\<exists>ms t. as_behavior D ms t \<and> behavior_equiv (rev ls) (rev ms)"
proof -
  obtain s ks where ks: "system_behavior D N ks s" "visible ks = visible ls"
    using program_behavior_simulated [OF assms] unfolding program_simulated_def by blast
  from log_code_linearizable [OF ks(1)] show ?thesis by (simp add: behavior_equiv_visible visible_rev ks(2))
qed

text \<open>The shared log and the replicas are those of the abstract machine.\<close>

lemma program_refines_log:
  assumes "program_behavior D N ls nr"
  shows "\<exists>ks g. ul_behavior D N ks g \<and> visible ks = visible ls \<and> unat (nl_tail (nr_log nr)) = ul_tail g \<and>
    map (\<lambda>rp. Some (np_data (rp_node rp))) (nr_replicas nr) = map (ul_replicas g) [0..<length (nr_replicas nr)]"
proof -
  obtain s fcs ks where pr: "program_rel nr s fcs" and ks: "system_behavior D N ks s" "visible ks = visible ls"
    using program_behavior_simulated [OF assms] unfolding program_simulated_def by blast
  obtain g c where sim: "run_simulated D N ks s g c" using system_behavior_simulated [OF ks(1)] by blast
  then have sr: "system_rel s g c" by (simp add: run_simulated_def)
  obtain ms where ms: "ul_behavior D N ms g" "visible ms = visible ks" using sim by (auto simp: run_simulated_def)
  have "ul_replicas g n = Some (np_data (rp_node (nr_replicas nr ! n)))" if "n < length (nr_replicas nr)" for n
    using node_relD(1) [OF system_relD(3) [OF sr]] replica_relD(1) [OF program_relD(3) [OF pr that]] program_relD(2) [OF pr] that by simp
  then have "map (\<lambda>rp. Some (np_data (rp_node rp))) (nr_replicas nr) = map (ul_replicas g) [0..<length (nr_replicas nr)]"
    by (intro nth_equalityI) simp_all
  then show ?thesis
    using ms ks(2) log_relD(5) [OF system_relD(1) [OF sr]] program_relD(1) [OF pr] by (intro exI [of _ ms] exI [of _ g]) simp
qed

end
