(* ===== verification/NR_Exec_Progress.thy ===== *)
theory NR_Exec_Progress
  imports NR_Exec_Program
begin

text \<open>
  No thread of the library gets stuck: wherever it is, its next step is defined. A thread uses
  only its own reference count of the reader-writer lock, so the counts do not overflow, and
  the only panic left is the one of \<^verbatim>\<open>append\<close> for a log that has used up its indices.
\<close>

section \<open>Every reader has its own reference count\<close>

fun read_slot :: "'v RwPc \<Rightarrow> nat option" where
  "read_slot (RLoad tid) = Some tid"
| "read_slot (RInc tid rc) = Some tid"
| "read_slot (RCheck tid) = Some tid"
| "read_slot (RUndo tid) = Some tid"
| "read_slot (RHeld tid) = Some tid"
| "read_slot (RRelease tid) = Some tid"
| "read_slot _ = None"

definition own_slot :: "ThreadId \<Rightarrow> 'v RwPc \<Rightarrow> bool" where
  "own_slot t lpc \<longleftrightarrow> lpc \<noteq> RPanic \<and> (\<forall>tid. read_slot lpc = Some tid \<longrightarrow> tid = t)"

lemma own_slot_simps [simp]:
  "own_slot t LIdle" "own_slot t WAcquire" "own_slot t (WWait idx)" "own_slot t (WHeld v)" "own_slot t (WPut v)"
  "own_slot t WUnlock" "\<not> own_slot t RPanic" "own_slot t (RLoad i) = (i = t)" "own_slot t (RHeld i) = (i = t)"
  "own_slot t (RRelease i) = (i = t)"
  by (simp_all add: own_slot_def eq_commute)

definition own_slots :: "('r, 'w, 'v, 'resp) Replica \<Rightarrow> bool" where
  "own_slots rp \<longleftrightarrow> (\<forall>t<length (rp_threads rp). own_slot t (th_lock (rp_threads rp ! t)))"

lemma acquire_read_slot:
  "acquire_read_step d lpc = Some (d', lpc') \<Longrightarrow> lpc' \<noteq> RPanic \<Longrightarrow> own_slot t lpc \<Longrightarrow> own_slot t lpc'"
  by (auto simp: acquire_read_step_def own_slot_def Let_def split: RwPc.splits if_splits)

lemma lock_steps_slot:
  "acquire_write_step d lpc = Some (d', lpc') \<Longrightarrow> own_slot t lpc'"
  "release_write_step d lpc = Some (d', lpc') \<Longrightarrow> own_slot t lpc'"
  "release_read_step d lpc = Some (d', lpc') \<Longrightarrow> own_slot t lpc'"
  by (auto simp: acquire_write_step_def release_write_step_def release_read_step_def split: RwPc.splits if_splits option.splits)

lemma all_tokens_count: "x \<in># all_tokens f ths \<Longrightarrow> \<exists>i<length ths. x \<in># f (ths ! i)"
proof (induction ths)
  case (Cons y ths)
  then show ?case by (fastforce simp: all_tokens_def)
qed (simp add: all_tokens_def)

text \<open>While a thread is outside of its own count, the count is zero.\<close>

lemma own_count_zero:
  assumes c: "rw_coupled l ths g" and inv: "rw_invariant g" and own: "\<And>i. i < length ths \<Longrightarrow> own_slot i (ths ! i)"
    and t: "t < length ths" "ths ! t = RLoad t"
  shows "rl_ref_counts l ! t = 0"
proof -
  have tok: "\<not> (int t \<in># f (ths ! i))" if "i < length ths" "f = pending_token \<or> f = guard_token" for i f
    using own [OF that(1)] that(2) t by (cases "ths ! i") (auto simp: own_slot_def)
  note tk = rw_coupledD(2) [OF c, unfolded tokens_coupled_def]
  have pend: "count (rw_shared_pending g) (int t) = 0"
    using tk all_tokens_count [of "int t" pending_token ths] tok by (metis count_eq_zero_iff)
  have "int t \<notin># image_mset fst (rw_shared_guard g)"
    using tk all_tokens_count [of "int t" guard_token ths] tok by metis
  then have "filter_r (rw_shared_guard g) (int t) = {#}" by (auto simp: filter_r_def multiset_eq_iff count_eq_zero_iff) force
  moreover have "t < length (rl_ref_counts l)" using rw_coupledD(4) [OF c t(1)] t(2) by simp
  from lock_coupled_count(1) [OF rw_coupledD(1) [OF c] this]
  have "uint (rl_ref_counts l ! t) = int (count (rw_shared_pending g) (int t)) + int (size (filter_r (rw_shared_guard g) (int t)))"
    by (rule rwD(11) [OF inv])
  ultimately show ?thesis using pend by (simp add: uint_0_iff)
qed

lemma no_read_panic:
  assumes rr: "replica_rel ups reads p n fc rp" and t: "t < MAX_THREADS_PER_REPLICA" and own: "own_slots rp"
    and step: "acquire_read_step (rp_data rp) (th_lock (rp_threads rp ! t)) = Some (d, lpc)"
  shows "lpc \<noteq> RPanic"
proof
  assume panic: "lpc = RPanic"
  note r = replica_relD [OF rr]
  obtain tid where tid: "th_lock (rp_threads rp ! t) = RLoad tid" "rl_ref_counts (rp_data rp) ! tid = MAX_RC"
    using step panic by (auto simp: acquire_read_step_def Let_def split: RwPc.splits if_splits)
  have o: "own_slot i (map th_lock (rp_threads rp) ! i)" if "i < length (map th_lock (rp_threads rp))" for i
    using own that by (simp add: own_slots_def)
  have "tid = t" using o [of t] t r(3) tid(1) by simp
  obtain g where "rw_reachable g" "rw_coupled (rp_data rp) (map th_lock (rp_threads rp)) g"
    using rwl_reachable_coupled [OF r(8)] by auto
  from own_count_zero [OF this(2) rw_reachable_invariant [OF this(1)] o, of t] t r(3) tid \<open>tid = t\<close>
  show False by (simp add: MAX_RC_def)
qed

lemma own_slots_step:
  assumes "own_slots rp" and "rp_threads rp' = (rp_threads rp)[t := th']" and "own_slot t (th_lock th') \<or> th_lock th' = th_lock (rp_threads rp ! t)"
  shows "own_slots rp'"
proof -
  have "own_slot i (th_lock ((rp_threads rp)[t := th'] ! i))" if "i < length (rp_threads rp)" for i
    using assms(1,3) that by (cases "i = t") (auto simp: own_slots_def)
  then show ?thesis using assms(2) by (simp add: own_slots_def)
qed

lemma own_slots_same:
  "own_slots rp \<Longrightarrow> rp_threads rp' = (rp_threads rp)[t := (rp_threads rp ! t)\<lparr>th_pc := pc\<rparr>] \<Longrightarrow> own_slots rp'"
  by (erule own_slots_step, assumption) simp

lemma own_slots_set: "own_slots rp \<Longrightarrow> th_lock th' = th_lock (rp_threads rp ! t) \<Longrightarrow> own_slots (set_thread rp t th')"
  by (erule own_slots_step [of rp _ t th']) simp_all

lemma own_slots_moved: "own_slots rp \<Longrightarrow> own_slots (set_thread rp t ((rp_threads rp ! t)\<lparr>th_pc := pc, th_rid := rid\<rparr>))"
  by (erule own_slots_set) simp

lemma own_slots_goto: "own_slots rp \<Longrightarrow> own_slots (tgoto rp t pc)"
  by (erule own_slots_set) simp

lemma own_slots_tokens [simp]: "own_slots (rp\<lparr>rp_tokens := ts\<rparr>) = own_slots rp"
  by (simp add: own_slots_def)

lemma client_steps_own:
  assumes "own_slots rp"
  shows "make_pending_step t rp = Some rp' \<Longrightarrow> own_slots rp'" "get_response_step t rp = Some rp' \<Longrightarrow> own_slots rp'"
    "acquire_combiner_lock_step t rp = Some rp' \<Longrightarrow> own_slots rp'" "release_combiner_lock_step t rp = Some rp' \<Longrightarrow> own_slots rp'"
  by (auto simp: make_pending_step_def get_response_step_def acquire_combiner_lock_step_def release_combiner_lock_step_def Let_def
      split: option.splits ThreadPc.splits if_splits prod.splits intro: own_slots_same [OF assms])

lemma combiner_steps_own:
  assumes "own_slots rp"
  shows "collect_thread_ops_step t rp = Some rp' \<Longrightarrow> own_slots rp'" "distribute_thread_resps_step t rp = Some rp' \<Longrightarrow> own_slots rp'"
  by (auto simp: collect_thread_ops_step_def distribute_thread_resps_step_def
      split: option.splits ThreadPc.splits if_splits prod.splits intro: own_slots_same [OF assms] own_slots_step [OF assms])

lemma combine_step_own:
  assumes own: "own_slots rp" and step: "combine_step D n t weak l rp = Some (l', rp')"
  shows "own_slots rp'"
proof (cases "th_pc (rp_threads rp ! t)")
  case (TAcquireWrite k)
  then obtain d lpc where a: "acquire_write_step (rp_data rp) (th_lock (rp_threads rp ! t)) = Some (d, lpc)"
    using step by (auto simp: combine_step_def split: option.splits)
  then have "\<exists>th'. rp_threads rp' = (rp_threads rp)[t := th'] \<and> th_lock th' = lpc"
    using step TAcquireWrite by (cases lpc) (auto simp: combine_step_def split: option.splits)
  then show ?thesis using own_slots_step [OF own] lock_steps_slot(1) [OF a] by metis
next
  case (TReleaseWrite k)
  then obtain d lpc where a: "release_write_step (rp_data rp) (th_lock (rp_threads rp ! t)) = Some (d, lpc)"
    using step by (auto simp: combine_step_def split: option.splits)
  then have "\<exists>th'. rp_threads rp' = (rp_threads rp)[t := th'] \<and> th_lock th' = lpc"
    using step TReleaseWrite by (cases lpc) (auto simp: combine_step_def split: option.splits)
  then show ?thesis using own_slots_step [OF own] lock_steps_slot(2) [OF a] by metis
next
  case (TCombine k)
  show ?thesis
  proof (cases "np_pc (rp_node rp) = NRelease")
    case False
    then have "rp_threads rp' = rp_threads rp" using step TCombine by (auto simp: combine_step_def split: option.splits)
    then show ?thesis using own by (simp add: own_slots_def)
  qed (use step TCombine own_slots_step [OF own] in \<open>auto simp: combine_step_def\<close>)
qed (use step in \<open>simp_all add: combine_step_def\<close>)

lemma execute_read_own:
  assumes own: "own_slots rp" and t: "t < length (rp_threads rp)" and step: "execute_read_step D n t l rp = Some rp'"
    and panic: "\<And>d lpc. acquire_read_step (rp_data rp) (th_lock (rp_threads rp ! t)) = Some (d, lpc) \<Longrightarrow> lpc \<noteq> RPanic"
  shows "own_slots rp'"
proof -
  have now: "own_slot t (th_lock (rp_threads rp ! t))" using own t by (simp add: own_slots_def)
  show ?thesis
    using step
  proof (cases rule: execute_read_cases)
    case (lock op d lpc)
    then show ?thesis using acquire_read_slot [OF lock(2) panic [OF lock(2)] now] by (auto intro: own_slots_step [OF own])
  next
    case (unlock resp d lpc)
    then show ?thesis using lock_steps_slot(3) [OF unlock(2), of t] by (auto intro: own_slots_step [OF own])
  qed (use now in \<open>auto intro: own_slots_same [OF own] own_slots_step [OF own]\<close>)
qed

lemma thread_step_own:
  assumes rr: "replica_rel ups reads p n fc rp" and t: "t < MAX_THREADS_PER_REPLICA" and own: "own_slots rp"
    and step: "thread_step D n t weak l rp = Some (l', rp')"
  shows "own_slots rp'"
  using step execute_read_own [OF own _ _ no_read_panic [OF rr t own]] t replica_relD(3) [OF rr]
    client_steps_own [OF own] combiner_steps_own [OF own] combine_step_own [OF own]
  by (auto simp: thread_step_def Let_def split: if_splits)

lemma program_own_slots:
  assumes "program_behavior D N ls nr" and "n < length (nr_replicas nr)"
  shows "own_slots (nr_replicas nr ! n)"
  using assms
proof (induction arbitrary: n rule: program_behavior.induct)
  case program_behavior_new
  then show ?case by (simp add: node_replicated_new_def replica_new_def own_slots_def)
next
  case (program_behavior_step ls nr l nr')
  obtain s fcs where pr: "program_rel nr s fcs"
    using program_behavior_simulated [OF program_behavior_step.hyps(1)] by (auto simp: program_simulated_def)
  note own = program_behavior_step.IH
  show ?case
    using program_behavior_step.hyps(2)
  proof cases
    case (program_register m res)
    then show ?thesis
      using own program_behavior_step.prems
      by (auto simp: node_replicated_register_def replica_register_def nth_list_update Let_def split: if_splits)
  next
    case (program_thread m t weak l' rp)
    then show ?thesis
      using own program_behavior_step.prems program_threads [OF pr program_thread(3)]
        thread_step_own [OF program_relD(3) [OF pr program_thread(3)] _ own [OF program_thread(3)] program_thread(5)]
      by (auto simp: nth_list_update)
  qed (use own program_behavior_step.prems in
      \<open>auto simp: execute_mut_call_def execute_call_def start_call_def nth_list_update Let_def own_slots_moved own_slots_goto split: if_splits\<close>)
qed

section \<open>No step is stuck\<close>

text \<open>What the log guarantees of the node of a replica, and of the number of replicas.\<close>

definition node_ok :: "'w NrLog \<Rightarrow> NodeId \<Rightarrow> ('w, 'v, 'resp) Node \<Rightarrow> bool" where
  "node_ok l n p \<longleftrightarrow>
     n < length (nl_local_versions l) \<and> length (np_ops p) = length (np_rids p) \<and>
     (\<forall>i. np_pc p = NRespond i \<longrightarrow> length (np_responses p) = length (np_rids p))"

lemma system_node_ok:
  assumes "system_behavior D N ls s" and n: "n < length (ns_nodes s)"
  shows "node_ok (ns_log s) n (ns_nodes s ! n)"
proof -
  obtain g c where "run_simulated D N ls s g c" using system_behavior_simulated [OF assms(1)] by blast
  then have sr: "system_rel s g c" by (simp add: run_simulated_def)
  from node_relD(3,4) [OF system_relD(3) [OF this n]] log_relD(2) [OF system_relD(1) [OF sr]] system_relD(2) [OF sr] n
  show ?thesis by (auto simp: node_ok_def ups_done_def)
qed

lemma reader_not_stuck:
  assumes rr: "system_replica_rel s n fc rp" and t: "t < MAX_THREADS_PER_REPLICA" and own: "own_slots rp"
    and ok: "node_ok (ns_log s) n (ns_nodes s ! n)" and pc: "pc_in_execute_read (th_pc (rp_threads rp ! t))"
  shows "execute_read_step D n t (ns_log s) rp \<noteq> None"
proof (cases "th_pc (rp_threads rp ! t)")
  case (TSync op v)
  then show ?thesis using ok by (simp add: execute_read_step_def is_replica_synced_for_reads_def nth_opt_def node_ok_def)
next
  case (TAcquireRead op)
  note r = replica_relD [OF rr]
  have lock: "reading (th_lock (rp_threads rp ! t))" "th_lock (rp_threads rp ! t) \<noteq> RPanic"
    using thread_relD(3) [OF r(11) [OF t]] TAcquireRead own t r(3) by (auto simp: own_slots_def own_slot_def)
  have "rwlock_borrow (rp_data rp) \<noteq> None" if "th_lock (rp_threads rp ! t) = RHeld tid" for tid
  proof -
    obtain g where g: "rw_reachable g" "rw_coupled (rp_data rp) (map th_lock (rp_threads rp)) g"
      using rwl_reachable_coupled [OF r(8)] by auto
    from reader_borrows [OF g(2) _ _ rw_reachable_invariant [OF g(1)], of t] show ?thesis using t r(3) that by auto
  qed
  then show ?thesis
    using lock TAcquireRead
    by (cases "th_lock (rp_threads rp ! t)") (auto simp: execute_read_step_def acquire_read_step_def Let_def)
next
  case (TReleaseRead resp)
  then show ?thesis
    using thread_relD(3) [OF replica_relD(11) [OF rr t]] by (auto simp: execute_read_step_def release_read_step_def)
qed (use pc in \<open>simp_all add: execute_read_step_def\<close>)

lemma client_not_stuck:
  assumes rr: "system_replica_rel s n fc rp" and t: "t < MAX_THREADS_PER_REPLICA"
  shows "pc_in_make_pending (th_pc (rp_threads rp ! t)) \<Longrightarrow> make_pending_step t rp \<noteq> None"
    and "pc_in_get_response (th_pc (rp_threads rp ! t)) \<Longrightarrow> get_response_step t rp \<noteq> None"
    and "pc_in_acquire_combiner (th_pc (rp_threads rp ! t)) \<Longrightarrow> acquire_combiner_lock_step t rp \<noteq> None"
proof -
  note r = replica_relD [OF rr] and th = thread_relD(1) [OF replica_relD(11) [OF rr t]]
  have nth: "nth_opt (rp_contexts rp) t = Some (rp_contexts rp ! t)" using t r(2) by (simp add: nth_opt_def)
  show "make_pending_step t rp \<noteq> None" if "pc_in_make_pending (th_pc (rp_threads rp ! t))"
    using that th by (cases "th_pc (rp_threads rp ! t)") (auto simp: make_pending_step_def nth enqueue_op_put_def)
  show "get_response_step t rp \<noteq> None" if "pc_in_get_response (th_pc (rp_threads rp ! t))"
    using that th
    by (cases "th_pc (rp_threads rp ! t)") (auto simp: get_response_step_def nth dequeue_response_take_def split: prod.splits)
  show "acquire_combiner_lock_step t rp \<noteq> None" if "pc_in_acquire_combiner (th_pc (rp_threads rp ! t))"
  proof (cases "rp_combiner rp = 0")
    case True
    then have "np_pc (rp_node rp) = NIdle" using combinerD_free(1) [OF r(10)] r(1) by (simp add: combiner_free_def)
    then show ?thesis
      using that by (cases "th_pc (rp_threads rp ! t)") (simp_all add: acquire_combiner_lock_step_def combine_begin_def)
  qed (use that in \<open>cases "th_pc (rp_threads rp ! t)"; simp add: acquire_combiner_lock_step_def\<close>)
qed

lemma collect_not_stuck:
  assumes rr: "system_replica_rel s n fc rp" and t: "t < MAX_THREADS_PER_REPLICA" and ok: "node_ok (ns_log s) n (ns_nodes s ! n)"
    and pc: "pc_in_collect (th_pc (rp_threads rp ! t))"
  shows "collect_thread_ops_step t rp \<noteq> None"
proof (cases "th_pc (rp_threads rp ! t)")
  case (TCollect k idx)
  then show ?thesis using replica_relD(2) [OF rr] by (simp add: collect_thread_ops_step_def nth_opt_def)
next
  case (TCollectOp k idx)
  note r = replica_relD [OF rr] and c = combinerD(3) [OF replica_relD(10) [OF rr] t, unfolded TCollectOp, simplified]
  then obtain elems rid where e: "length elems = idx" "collected elems (rp_num_ops rp) (ns_nodes s ! n)" by blast
  then have "length (np_ops (rp_node rp)) \<le> idx"
    using ok r(1) somes_length [of elems] by (simp add: node_ok_def collected_def)
  then have "length (np_ops (rp_node rp)) < MAX_REQUESTS"
    using c by (simp add: MAX_REQUESTS_def MAX_PENDING_OPS_def)
  then show ?thesis
    using c TCollectOp r(1,2) by (auto simp: collect_thread_ops_step_def nth_opt_def combine_collect_def)
qed (use pc in simp_all)

lemma acquire_write_not_stuck:
  assumes rr: "replica_rel ups reads p n fc rp" and t: "t < MAX_THREADS_PER_REPLICA" and pc: "th_pc (rp_threads rp ! t) = TAcquireWrite k"
  shows "acquire_write_step (rp_data rp) (th_lock (rp_threads rp ! t)) \<noteq> None"
proof -
  note r = replica_relD [OF rr]
  have lock: "th_lock (rp_threads rp ! t) = WAcquire \<or> (\<exists>idx. th_lock (rp_threads rp ! t) = WWait idx)"
    using thread_relD(3) [OF r(11) [OF t]] pc by simp
  obtain g where g: "rw_reachable g" "rw_coupled (rp_data rp) (map th_lock (rp_threads rp)) g"
    using rwl_reachable_coupled [OF r(8)] by auto
  have "op_step (rp_data rp) (map th_lock (rp_threads rp) ! t) \<noteq> None"
    using t r(3) lock by (intro operation_never_stuck [OF g(2) _ rw_reachable_invariant [OF g(1)]]) auto
  then show ?thesis using lock t r(3) by (auto simp: op_step_def rwl_step_defs split: option.splits)
qed

lemma holds_lock_in_log: "holds_data_lock pc \<Longrightarrow> pc \<noteq> NRelease \<Longrightarrow> pc \<noteq> APanic \<Longrightarrow> pc_in_log pc"
  by (cases pc) (simp_all add: holds_data_lock_def pc_in_log_def)

lemma combine_not_stuck:
  assumes rr: "system_replica_rel s n fc rp" and t: "t < MAX_THREADS_PER_REPLICA" and pc: "pc_in_data (th_pc (rp_threads rp ! t))"
    and moves: "pc_in_log (np_pc (ns_nodes s ! n)) \<Longrightarrow> node_step D n weak (ns_log s) (ns_nodes s ! n) \<noteq> None"
    and panic: "np_pc (rp_node rp) \<noteq> APanic"
  shows "combine_step D n t weak (ns_log s) rp \<noteq> None"
proof (cases "th_pc (rp_threads rp ! t)")
  case (TAcquireWrite k)
  note r = replica_relD [OF rr] and c = combinerD(3) [OF replica_relD(10) [OF rr] t, unfolded TAcquireWrite, simplified]
  obtain d lpc where a: "acquire_write_step (rp_data rp) (th_lock (rp_threads rp ! t)) = Some (d, lpc)"
    using acquire_write_not_stuck [OF rr t TAcquireWrite] by auto
  show ?thesis
    using a TAcquireWrite c r(1) by (cases lpc) (simp_all add: combine_step_def combine_lock_def)
next
  case (TCombine k)
  note r = replica_relD [OF rr] and c = combinerD(3) [OF replica_relD(10) [OF rr] t, unfolded TCombine, simplified]
  show ?thesis
  proof (cases "np_pc (rp_node rp) = NRelease")
    case False
    then have "pc_in_log (np_pc (ns_nodes s ! n))" using holds_lock_in_log c panic r(1) by auto
    from moves [OF this] show ?thesis using TCombine False r(1) by (auto simp: combine_step_def split: option.splits)
  qed (simp add: combine_step_def TCombine)
next
  case (TReleaseWrite k)
  note r = replica_relD [OF rr] and c = combinerD(3) [OF replica_relD(10) [OF rr] t, unfolded TReleaseWrite, simplified]
  from c show ?thesis
    using TReleaseWrite r(1) by (auto simp: combine_step_def release_write_step_def combine_unlock_def)
qed (use pc in simp_all)

lemma distribute_not_stuck:
  assumes rr: "system_replica_rel s n fc rp" and t: "t < MAX_THREADS_PER_REPLICA" and ok: "node_ok (ns_log s) n (ns_nodes s ! n)"
    and pc: "pc_in_distribute (th_pc (rp_threads rp ! t))"
  shows "distribute_thread_resps_step t rp \<noteq> None"
proof (cases "th_pc (rp_threads rp ! t)")
  case (TDistribute k idx)
  note r = replica_relD [OF rr] and c = combinerD(3) [OF replica_relD(10) [OF rr] t, unfolded TDistribute, simplified]
  obtain elems where e: "fc_combiner fc = FCResponding elems idx" "length elems = MAX_THREADS_PER_REPLICA" "idx \<le> MAX_THREADS_PER_REPLICA"
      "np_rids (ns_nodes s ! n) = somes elems" "rp_num_ops rp = op_counts elems"
      "np_pc (ns_nodes s ! n) = NRespond (length (somes (take idx elems)))"
    using respondingD [OF rr] c by metis
  have resps: "length (np_responses (ns_nodes s ! n)) = length (somes elems)" using ok e(4,6) by (simp add: node_ok_def)
  show ?thesis
  proof (cases "idx < MAX_THREADS_PER_REPLICA")
    case True
    show ?thesis
    proof (cases "elems ! idx")
      case None
      then show ?thesis using True TDistribute e(2,5) by (simp add: distribute_thread_resps_step_def nth_opt_def)
    next
      case (Some x)
      have slot: "fc_slots fc idx = Some (SlotInProgress x)"
        using responding_result_safe [OF replica_fc_ok [OF rr] e(1)] Some True r(4) by simp
      then have "cx_batch (rp_contexts rp ! idx) \<noteq> None" using thread_relD(2) [OF r(11) [OF True]] by auto
      moreover have "combine_respond (ns_nodes s ! n) \<noteq> None"
        using somes_nth(1) [of idx elems x] Some True e(2,4,6) resps by (simp add: combine_respond_def nth_opt_def)
      ultimately show ?thesis
        using True TDistribute e(2,5) Some r(1,2) by (auto simp: distribute_thread_resps_step_def nth_opt_def)
    qed
  next
    case False
    then have "combine_end (ns_nodes s ! n) \<noteq> None" using e by (simp add: combine_end_def)
    then show ?thesis using False TDistribute r(1) by (auto simp: distribute_thread_resps_step_def)
  qed
next
  case (TRespond k idx)
  note r = replica_relD [OF rr] and c = combinerD(3) [OF replica_relD(10) [OF rr] t, unfolded TRespond, simplified]
  from c show ?thesis using TRespond r(1,2) by (auto simp: distribute_thread_resps_step_def nth_opt_def)
qed (use pc in simp_all)

text \<open>The points at which a thread is inside of a call and has not returned.\<close>

fun pc_running :: "('r, 'w, 'resp) ThreadPc \<Rightarrow> bool" where
  "pc_running TIdle = False"
| "pc_running (TReturnMut resp) = False"
| "pc_running (TReturn resp) = False"
| "pc_running _ = True"

lemma replica_not_stuck:
  assumes rr: "system_replica_rel s n fc rp" and t: "t < MAX_THREADS_PER_REPLICA" and own: "own_slots rp"
    and ok: "node_ok (ns_log s) n (ns_nodes s ! n)"
    and moves: "pc_in_log (np_pc (ns_nodes s ! n)) \<Longrightarrow> node_step D n weak (ns_log s) (ns_nodes s ! n) \<noteq> None"
    and pc: "pc_running (th_pc (rp_threads rp ! t))" and panic: "np_pc (rp_node rp) \<noteq> APanic"
  shows "thread_step D n t weak (ns_log s) rp \<noteq> None"
proof -
  note stuck = client_not_stuck [OF rr t] reader_not_stuck [OF rr t own ok, of D] collect_not_stuck [OF rr t ok]
    distribute_not_stuck [OF rr t ok] combine_not_stuck [OF rr t _ moves panic]
  show ?thesis
    using pc stuck
    by (cases "th_pc (rp_threads rp ! t)") (simp_all add: thread_step_def release_combiner_lock_step_def)
qed

lemma thread_not_stuck:
  assumes run: "program_behavior D N ls nr" and n: "n < length (nr_replicas nr)" and t: "t < length (rp_threads (nr_replicas nr ! n))"
    and pc: "pc_running (th_pc (thread_of nr n t))" and panic: "np_pc (rp_node (nr_replicas nr ! n)) \<noteq> APanic"
  shows "\<exists>l rp. thread_step D n t weak (nr_log nr) (nr_replicas nr ! n) = Some (l, rp)"
proof -
  obtain s fcs ks where pr: "program_rel nr s fcs" and sys: "system_behavior D N ks s"
    using program_behavior_simulated [OF run] unfolding program_simulated_def by blast
  have n': "n < length (ns_nodes s)" and t': "t < MAX_THREADS_PER_REPLICA"
    using n t program_relD(2) [OF pr] program_threads [OF pr n] by simp_all
  have "thread_step D n t weak (ns_log s) (nr_replicas nr ! n) \<noteq> None"
    using log_code_never_panics [OF sys n', of weak]
    by (intro replica_not_stuck [OF program_relD(3) [OF pr n] t' program_own_slots [OF run n] system_node_ok [OF sys n'] _ pc panic]) auto
  then show ?thesis using program_relD(1) [OF pr] by auto
qed

end
