(* ===== verification/NR_Exec_Guarantees.thy ===== *)
theory NR_Exec_Guarantees
  imports NR_Exec_Progress
begin

text \<open>
  What every run of the library guarantees of its threads: who may touch the data of a
  replica, and whose response is written where.
\<close>

lemma program_replica:
  assumes "program_behavior D N ls nr" and "n < length (nr_replicas nr)"
  obtains s fc ks where "system_replica_rel s n fc (nr_replicas nr ! n)" "system_behavior D N ks s" "n < length (ns_nodes s)"
    "length (rp_threads (nr_replicas nr ! n)) = MAX_THREADS_PER_REPLICA" "nr_log nr = ns_log s"
proof -
  obtain s fcs ks where pr: "program_rel nr s fcs" and sys: "system_behavior D N ks s"
    using program_behavior_simulated [OF assms(1)] unfolding program_simulated_def by blast
  show thesis
    using that [OF program_relD(3) [OF pr assms(2)] sys] program_relD(1,2) [OF pr] program_threads [OF pr assms(2)] assms(2) by simp
qed

text \<open>The lock and its threads are in a reachable state of the code of the lock.\<close>

lemma program_lock_reachable:
  assumes run: "program_behavior D N ls nr" and n: "n < length (nr_replicas nr)"
  shows "rwl_reachable (rp_data (nr_replicas nr ! n), map th_lock (rp_threads (nr_replicas nr ! n)))"
proof -
  from run n obtain s fc ks where rr: "system_replica_rel s n fc (nr_replicas nr ! n)" and "system_behavior D N ks s"
    by (rule program_replica) blast
  show ?thesis by (rule replica_relD(8) [OF rr])
qed

text \<open>The combiner is alone, and while it works on the data nobody else reads or writes it.\<close>

lemma combiner_alone:
  assumes run: "program_behavior D N ls nr" and n: "n < length (nr_replicas nr)"
    and t: "t < length (rp_threads (nr_replicas nr ! n))" and i: "i < length (rp_threads (nr_replicas nr ! n))" "i \<noteq> t"
    and pc: "combining (th_pc (thread_of nr n t))"
  shows "\<not> combining (th_pc (thread_of nr n i))" "rp_combiner (nr_replicas nr ! n) \<noteq> 0"
proof -
  from run n obtain s fc ks where rr: "system_replica_rel s n fc (nr_replicas nr ! n)" and "system_behavior D N ks s"
    and len: "length (rp_threads (nr_replicas nr ! n)) = MAX_THREADS_PER_REPLICA" by (rule program_replica) blast
  note c = replica_relD(10) [OF rr]
  show "\<not> combining (th_pc (thread_of nr n i))" using t i pc len by (intro not_combining_others [OF c, of t i]) simp_all
  show "rp_combiner (nr_replicas nr ! n) \<noteq> 0" using t pc len by (intro combinerD(1) [OF c, of t]) simp_all
qed

lemma data_taken:
  assumes run: "program_behavior D N ls nr" and n: "n < length (nr_replicas nr)"
    and t: "t < length (rp_threads (nr_replicas nr ! n))" and i: "i < length (rp_threads (nr_replicas nr ! n))" "i \<noteq> t"
    and pc: "th_pc (thread_of nr n t) = TCombine k"
  shows "rwlock_borrow (rp_data (nr_replicas nr ! n)) = None" "guard_token (th_lock (thread_of nr n i)) = {#}"
    "exc_guard_token (th_lock (thread_of nr n i)) = {#}"
proof -
  let ?rp = "nr_replicas nr ! n"
  from run n obtain s fc ks where rr: "system_replica_rel s n fc ?rp" and "system_behavior D N ks s"
    and len: "length (rp_threads ?rp) = MAX_THREADS_PER_REPLICA" by (rule program_replica) blast
  note r = replica_relD [OF rr]
  have t': "t < MAX_THREADS_PER_REPLICA" using t len by simp
  show "rwlock_borrow (rp_data ?rp) = None"
    using combinerD(3) [OF r(10) t'] pc by (simp add: rwlock_borrow_def)
  obtain v where v: "th_lock (thread_of nr n t) = WHeld v" using thread_relD(3) [OF r(11) [OF t']] pc by auto
  obtain g where g: "rw_reachable g" "rw_coupled (rp_data ?rp) (map th_lock (rp_threads ?rp)) g"
    using rwl_reachable_coupled [OF r(8)] by auto
  from held_write_data [OF g(2) _ _ rw_reachable_invariant [OF g(1)], of t i] v t i
  show "guard_token (th_lock (thread_of nr n i)) = {#}" "exc_guard_token (th_lock (thread_of nr n i)) = {#}" by simp_all
qed

text \<open>A reader finds the data the log has computed for the replica.\<close>

lemma reader_sees_replica:
  assumes run: "program_behavior D N ls nr" and n: "n < length (nr_replicas nr)"
    and t: "t < length (rp_threads (nr_replicas nr ! n))" and held: "th_lock (thread_of nr n t) = RHeld tid"
  shows "rwlock_borrow (rp_data (nr_replicas nr ! n)) = Some (np_data (rp_node (nr_replicas nr ! n)))"
proof -
  let ?rp = "nr_replicas nr ! n"
  from run n obtain s fc ks where rr: "system_replica_rel s n fc ?rp" and "system_behavior D N ks s"
    and len: "length (rp_threads ?rp) = MAX_THREADS_PER_REPLICA" by (rule program_replica) blast
  note r = replica_relD [OF rr]
  obtain g where g: "rw_reachable g" "rw_coupled (rp_data ?rp) (map th_lock (rp_threads ?rp)) g"
    using rwl_reachable_coupled [OF r(8)] by auto
  from reader_borrows [OF g(2) _ _ rw_reachable_invariant [OF g(1)], of t] t held
  obtain d where "rwlock_borrow (rp_data ?rp) = Some d" by auto
  then show ?thesis using r(1,9) by (simp add: rwlock_borrow_def)
qed

section \<open>Collecting and delivering\<close>

lemma op_counts_somes: "length (somes elems) = length (filter (\<lambda>w. w \<noteq> 0) (op_counts elems))"
  by (induction elems) (simp_all add: op_counts_def somes_def)

lemma op_counts_take: "take i (op_counts elems) = op_counts (take i elems)"
  by (simp add: op_counts_def take_map)

text \<open>
  The response delivered to context \<open>idx\<close> is the one with as many predecessors as operations
  were collected from the contexts before, and it answers the request of thread \<open>idx\<close>.
\<close>

lemma response_to_owner:
  assumes run: "program_behavior D N ls nr" and n: "n < length (nr_replicas nr)"
    and t: "t < length (rp_threads (nr_replicas nr ! n))" and pc: "th_pc (thread_of nr n t) = TDistribute k idx"
    and idx: "idx < MAX_THREADS_PER_REPLICA" "rp_num_ops (nr_replicas nr ! n) ! idx \<noteq> 0"
  shows "\<exists>resp p. combine_respond (rp_node (nr_replicas nr ! n)) = Some (th_rid (thread_of nr n idx), resp, p)"
    and "np_pc (rp_node (nr_replicas nr ! n)) = NRespond (length (filter (\<lambda>w. w \<noteq> 0) (take idx (rp_num_ops (nr_replicas nr ! n)))))"
proof -
  let ?rp = "nr_replicas nr ! n"
  from run n obtain s fc ks where rr: "system_replica_rel s n fc ?rp" and sys: "system_behavior D N ks s" "n < length (ns_nodes s)"
    and len: "length (rp_threads ?rp) = MAX_THREADS_PER_REPLICA" by (rule program_replica) blast
  note r = replica_relD [OF rr]
  have t': "t < MAX_THREADS_PER_REPLICA" using t len by simp
  note c = combinerD(3) [OF r(10) t', unfolded pc, simplified]
  obtain elems where e: "fc_combiner fc = FCResponding elems idx" "length elems = MAX_THREADS_PER_REPLICA"
      "np_rids (ns_nodes s ! n) = somes elems" "rp_num_ops ?rp = op_counts elems"
      "np_pc (ns_nodes s ! n) = NRespond (length (somes (take idx elems)))"
    using respondingD [OF rr] c by metis
  show "np_pc (rp_node ?rp) = NRespond (length (filter (\<lambda>w. w \<noteq> 0) (take idx (rp_num_ops ?rp))))"
    using e(4,5) r(1) by (simp add: op_counts_somes op_counts_take)
  obtain rid where rid: "elems ! idx = Some rid" using idx e(2,4) by (auto split: if_splits)
  have slot: "fc_slots fc idx = Some (SlotInProgress rid)"
    using responding_result_safe [OF replica_fc_ok [OF rr] e(1)] rid idx(1) r(4) by simp
  have own: "rid = th_rid (thread_of nr n idx)" using thread_relD(2) [OF r(11) [OF idx(1)]] slot by auto
  have "length (np_responses (ns_nodes s ! n)) = length (somes elems)"
    using system_node_ok [OF sys] e(3,5) by (simp add: node_ok_def)
  then show "\<exists>resp p. combine_respond (rp_node ?rp) = Some (th_rid (thread_of nr n idx), resp, p)"
    using somes_nth [of idx elems rid] rid idx(1) e(2,3,5) r(1) own by (simp add: combine_respond_def nth_opt_def)
qed

text \<open>While the combiner collects, the identifiers it has match the contexts it has visited.\<close>

lemma collected_match:
  assumes run: "program_behavior D N ls nr" and n: "n < length (nr_replicas nr)"
    and t: "t < length (rp_threads (nr_replicas nr ! n))" and pc: "th_pc (thread_of nr n t) = TCollect k idx"
  shows "\<exists>elems. rids_match elems (np_rids (rp_node (nr_replicas nr ! n))) 0 idx 0 (length (np_ops (rp_node (nr_replicas nr ! n)))) \<and>
    rp_num_ops (nr_replicas nr ! n) = op_counts elems \<and> length elems = idx"
proof -
  let ?rp = "nr_replicas nr ! n"
  from run n obtain s fc ks where rr: "system_replica_rel s n fc ?rp" and sys: "system_behavior D N ks s" "n < length (ns_nodes s)"
    and len: "length (rp_threads ?rp) = MAX_THREADS_PER_REPLICA" by (rule program_replica) blast
  note r = replica_relD [OF rr]
  have t': "t < MAX_THREADS_PER_REPLICA" using t len by simp
  note c = combinerD(3) [OF r(10) t', unfolded pc, simplified]
  obtain elems where e: "length elems = idx" "collected elems (rp_num_ops ?rp) (ns_nodes s ! n)" using c by blast
  have "length (np_ops (ns_nodes s ! n)) = length (np_rids (ns_nodes s ! n))" using system_node_ok [OF sys] by (simp add: node_ok_def)
  then show ?thesis
    using e r(1) rids_match_all [of elems "np_rids (ns_nodes s ! n)"] by (intro exI [of _ elems]) (simp add: collected_def)
qed

end
