(* ===== verification/NR_Client.thy ===== *)
theory NR_Client
  imports NR_Linearization
begin

text \<open>
  What linearizability gives a client. The interface is a data structure whose behaviours
  linearize to \<open>as_behavior\<close> (the promise of \<^verbatim>\<open>lib.rs\<close>, Theorem 1); its clients learn
  that calls that do not overlap are answered as if executed one after the other on
  \<open>init_spec\<close> (\<^verbatim>\<open>Dispatch\<close> in \<^verbatim>\<open>lib.rs\<close>), and that every return belongs to a call of its own.
  The simple log, the unbounded log, the code of the log and the whole program are instances.
\<close>

section \<open>One call after another\<close>

fun run_call where
  "run_call D v (InRead op n) = (v, OutRead (dispatch_spec D v op))"
| "run_call D v (InWrite op) = (let (v', r) = dispatch_mut_spec D v op in (v', OutWrite r))"

fun run_calls where
  "run_calls D v [] = (v, [])"
| "run_calls D v (inp # inps) =
     (let (v', out) = run_call D v inp; (v'', outs) = run_calls D v' inps in (v'', out # outs))"

lemma run_calls_append:
  "run_calls D v (inps @ inps') =
     (let (v', outs) = run_calls D v inps; (v'', outs') = run_calls D v' inps' in (v'', outs @ outs'))"
  by (induction D v inps rule: run_calls.induct) (simp_all split: prod.splits)

text \<open>The events of calls \<open>(rid, inp, out)\<close> made one after another.\<close>

fun call_events :: "(ReqId \<times> ('r, 'w) InputOperation \<times> 'resp OutputOperation) list \<Rightarrow> ('r, 'w, 'resp) AsyncLabel list" where
  "call_events [] = []"
| "call_events ((rid, inp, out) # cs) = LStart rid inp # LEnd rid out # call_events cs"

abbreviation call_inputs where "call_inputs cs \<equiv> map (\<lambda>(rid, inp, out). inp) cs"
abbreviation call_outputs where "call_outputs cs \<equiv> map (\<lambda>(rid, inp, out). out) cs"

lemma call_events_append [simp]: "call_events (cs @ cs') = call_events cs @ call_events cs'"
  by (induction cs rule: call_events.induct) simp_all

lemma call_events_visible [simp]: "visible (call_events cs) = call_events cs"
  by (induction cs rule: call_events.induct) simp_all

lemma call_events_snoc:
  assumes "call_events cs = vs @ [l]"
  obtains cs' rid inp out where "cs = cs' @ [(rid, inp, out)]" "l = LEnd rid out" "vs = call_events cs' @ [LStart rid inp]"
  using assms by (cases cs rule: rev_cases) auto

definition answered where
  "answered D v cs \<longleftrightarrow> run_calls D (init_spec D) (call_inputs cs) = (v, call_outputs cs)"

lemma answered_Nil [simp]: "answered D v [] \<longleftrightarrow> v = init_spec D"
  by (auto simp: answered_def)

lemma answered_snoc:
  "answered D v cs \<Longrightarrow> run_call D v inp = (v', out) \<Longrightarrow> answered D v' (cs @ [(rid, inp, out)])"
  by (simp add: answered_def run_calls_append)

section \<open>The specification, called sequentially\<close>

text \<open>Between two calls nothing is pending; during a call its request waits or its response does.\<close>

definition at_rest where
  "at_rest D cs t \<longleftrightarrow> as_reqs t = Map.empty \<and> as_resps t = Map.empty \<and> answered D (as_state t) cs"

definition in_call where
  "in_call D cs rid inp t \<longleftrightarrow>
     (\<exists>v. answered D v cs \<and>
       (as_reqs t = [rid \<mapsto> inp] \<and> as_resps t = Map.empty \<and> as_state t = v \<or>
        (\<exists>out. run_call D v inp = (as_state t, out) \<and> as_reqs t = Map.empty \<and> as_resps t = [rid \<mapsto> out])))"

lemma as_internal_run_call:
  "as_internal_next D t rid =
     (case as_reqs t rid of None \<Rightarrow> None
      | Some inp \<Rightarrow> (let (v, out) = run_call D (as_state t) inp in
          Some (t\<lparr>as_state := v, as_reqs := (as_reqs t)(rid := None), as_resps := (as_resps t)(rid \<mapsto> out)\<rparr>)))"
  by (auto simp: as_internal_next_def split: option.splits InputOperation.splits prod.splits)

lemma at_rest_internal: "at_rest D cs t \<Longrightarrow> as_internal_next D t rid = None"
  by (simp add: at_rest_def as_internal_run_call)

lemma in_call_internal:
  assumes "in_call D cs rid inp t" and "as_internal_next D t rid' = Some t'"
  shows "in_call D cs rid inp t'"
proof -
  from assms(2) obtain inp' where req: "as_reqs t rid' = Some inp'" by (auto simp: as_internal_run_call split: option.splits)
  then have t: "rid' = rid" "inp' = inp" "answered D (as_state t) cs" "as_reqs t = [rid \<mapsto> inp]" "as_resps t = Map.empty"
    using assms(1) by (auto simp: in_call_def split: if_splits)
  obtain v out where v: "run_call D (as_state t) inp = (v, out)" by fastforce
  then have "t' = t\<lparr>as_state := v, as_reqs := Map.empty, as_resps := [rid \<mapsto> out]\<rparr>"
    using assms(2) t req by (simp add: as_internal_run_call)
  then show ?thesis unfolding in_call_def using t(3) v by (intro exI [of _ "as_state t"] conjI disjI2 exI [of _ out]) simp_all
qed

lemma at_rest_start: "at_rest D cs t \<Longrightarrow> as_start t rid inp = Some t' \<Longrightarrow> in_call D cs rid inp t'"
  by (auto simp: at_rest_def in_call_def as_start_def)

lemma in_call_end:
  assumes "in_call D cs rid inp t" and "as_end t rid out = Some t'"
  shows "at_rest D (cs @ [(rid, inp, out)]) t'"
  using assms by (auto simp: in_call_def at_rest_def as_end_def answered_snoc split: if_splits)

lemma as_behavior_sequential:
  assumes "as_behavior D ls t"
  shows "visible ls = call_events cs \<Longrightarrow> at_rest D cs t"
    and "visible ls = call_events cs @ [LStart rid inp] \<Longrightarrow> in_call D cs rid inp t"
  using assms
proof (induction arbitrary: cs rid inp rule: as_behavior.induct)
  case as_behavior_init
  { case 1 then show ?case by (cases cs rule: call_events.cases) (simp_all add: at_rest_def as_initialize_def) }
  { case 2 then show ?case by simp }
next
  case (as_behavior_step ls t l t')
  note IH = as_behavior_step.IH and step = as_behavior_step.hyps(2)
  { case 1
    show ?case
      using step
    proof (cases rule: as_next.cases)
      case (as_next_end rid out)
      then obtain cs' inp where "cs = cs' @ [(rid, inp, out)]" "visible ls = call_events cs' @ [LStart rid inp]"
        using 1 by (auto elim!: call_events_snoc [OF sym])
      then show ?thesis using in_call_end [OF IH(2) as_next_end(2)] by blast
    next
      case (as_next_internal rid)
      then have "at_rest D cs t" using 1 IH(1) by simp
      from at_rest_internal [OF this, of rid] as_next_internal(2) show ?thesis by simp
    qed (use 1 IH(1) [of cs] in \<open>auto elim!: call_events_snoc [OF sym]\<close>) }
  { case 2
    show ?case
      using step
    proof (cases rule: as_next.cases)
      case (as_next_start rid' inp')
      then show ?thesis using 2 at_rest_start [OF IH(1) as_next_start(2)] by auto
    qed (use 2 IH(2) [of cs rid inp] in_call_internal in auto) }
qed

lemma as_behavior_answered:
  assumes "as_behavior D ls t" and "visible ls = call_events cs"
  shows "snd (run_calls D (init_spec D) (call_inputs cs)) = call_outputs cs"
  using as_behavior_sequential(1) [OF assms] by (simp add: at_rest_def answered_def)

section \<open>No return without a call\<close>

definition starts :: "('r, 'w, 'resp) AsyncLabel list \<Rightarrow> ReqId \<Rightarrow> nat" where
  "starts ls rid = length (filter (\<lambda>l. \<exists>inp. l = LStart rid inp) ls)"

definition ends :: "('r, 'w, 'resp) AsyncLabel list \<Rightarrow> ReqId \<Rightarrow> nat" where
  "ends ls rid = length (filter (\<lambda>l. \<exists>out. l = LEnd rid out) ls)"

lemma starts_simps [simp]:
  "starts [] rid = 0" "starts (ls @ ms) rid = starts ls rid + starts ms rid"
  "starts (LStart r inp # ls) rid = (if r = rid then 1 else 0) + starts ls rid"
  "starts (LEnd r out # ls) rid = starts ls rid" "starts (Internal # ls) rid = starts ls rid"
  by (simp_all add: starts_def)

lemma ends_simps [simp]:
  "ends [] rid = 0" "ends (ls @ ms) rid = ends ls rid + ends ms rid"
  "ends (LEnd r out # ls) rid = (if r = rid then 1 else 0) + ends ls rid"
  "ends (LStart r inp # ls) rid = ends ls rid" "ends (Internal # ls) rid = ends ls rid"
  by (simp_all add: ends_def)

lemma starts_visible: "starts (visible ls) rid = starts ls rid"
  and ends_visible: "ends (visible ls) rid = ends ls rid"
  by (induction ls) (auto simp: starts_def ends_def)

lemma as_behavior_returns:
  assumes "as_behavior D ls t"
  shows "ends ls rid + (if as_reqs t rid = None then 0 else 1) + (if as_resps t rid = None then 0 else 1) \<le> starts ls rid"
  using assms
proof (induction rule: as_behavior.induct)
  case as_behavior_init
  then show ?case by (simp add: as_initialize_def)
next
  case (as_behavior_step ls t l t')
  from as_behavior_step.hyps(2) as_behavior_step.IH show ?case
    by (cases rule: as_next.cases)
      (auto simp: as_internal_run_call as_start_def as_end_def split: if_splits option.splits prod.splits)
qed

section \<open>The interface\<close>

locale linearizable_object =
  fixes D :: "('r, 'w, 'v, 'resp) Dispatch"
    and behavior :: "('r, 'w, 'resp) AsyncLabel list \<Rightarrow> 's \<Rightarrow> bool"
  assumes linearizable: "behavior ls s \<Longrightarrow> \<exists>ms t. as_behavior D ms t \<and> behavior_equiv (rev ls) (rev ms)"
begin

lemma same_events:
  assumes "behavior ls s"
  obtains ms t where "as_behavior D ms t" "visible ms = visible ls"
  using linearizable [OF assms] by (auto simp: behavior_equiv_visible visible_rev)

lemma sequential_client:
  assumes "behavior ls s" and "visible ls = call_events cs"
  shows "snd (run_calls D (init_spec D) (call_inputs cs)) = call_outputs cs"
proof -
  from assms(1) obtain ms t where "as_behavior D ms t" "visible ms = visible ls" by (rule same_events)
  then show ?thesis using as_behavior_answered assms(2) by metis
qed

lemma returns_called:
  assumes "behavior ls s"
  shows "ends ls rid \<le> starts ls rid"
proof -
  from assms obtain ms t where ms: "as_behavior D ms t" "visible ms = visible ls" by (rule same_events)
  from as_behavior_returns [OF ms(1), of rid] have "ends ms rid \<le> starts ms rid" by linarith
  then show ?thesis by (metis ms(2) starts_visible ends_visible)
qed

text \<open>A read right after an update sees the update.\<close>

lemma read_your_write:
  assumes "behavior ls s" and "visible ls = call_events (cs @ [(rid, InWrite w, out), (rid', InRead r n, OutRead resp)])"
  shows "resp = dispatch_spec D
    (fst (dispatch_mut_spec D (fst (run_calls D (init_spec D) (call_inputs cs))) w)) r"
  using sequential_client [OF assms] by (auto simp: run_calls_append split: prod.splits)

end

interpretation simple_log_client: linearizable_object D "sl_behavior D n" for D n
  by unfold_locales (rule sl_linearizable)

end
