(* ===== verification/NR_Serves_Program.thy ===== *)
theory NR_Serves_Program
  imports NR_Serves_Replica NR_Exec_Guarantees NR_Client
begin

text \<open>
  The library always answers a client that makes one call after another: whatever the calls,
  the threads and the replicas, as long as the updates fit into the log without collecting it,
  there is a run of the program in which every call returns. Between two calls all replicas
  are at rest, though they may have applied different prefixes of the log.
\<close>

section \<open>Runs of the program\<close>

definition reaches ::
    "('r, 'w, 'v, 'resp) Dispatch \<Rightarrow> nat \<Rightarrow> ('r, 'w, 'resp) AsyncLabel list \<Rightarrow> ('r, 'w, 'v, 'resp) NodeReplicated \<Rightarrow> bool" where
  "reaches D N vs nr \<longleftrightarrow> (\<exists>ls. program_behavior D N ls nr \<and> visible ls = vs)"

lemma reaches_step:
  assumes "reaches D N vs nr" and "program_step D nr l nr'"
  shows "reaches D N (vs @ visible [l]) nr'"
proof -
  obtain ls where ls: "program_behavior D N ls nr" "visible ls = vs" using assms(1) by (auto simp: reaches_def)
  from program_behavior_step [OF ls(1) assms(2)] ls(2) show ?thesis
    unfolding reaches_def by (intro exI [of _ "ls @ [l]"]) simp
qed

lemma reaches_internal: "reaches D N vs nr \<Longrightarrow> program_step D nr Internal nr' \<Longrightarrow> reaches D N vs nr'"
  using reaches_step [of D N vs nr Internal nr'] by simp

lemma reaches_threads:
  assumes "reaches D N vs nr" and "n < length (nr_replicas nr)"
  shows "length (rp_threads (nr_replicas nr ! n)) = MAX_THREADS_PER_REPLICA"
  using assms program_replica [of D N _ nr n] by (metis reaches_def)

abbreviation with_replica where
  "with_replica nr n l rp \<equiv> (set_replica nr n rp)\<lparr>nr_log := l\<rparr>"

lemma with_replica_same: "n < length (nr_replicas nr) \<Longrightarrow> with_replica nr n (nr_log nr) (nr_replicas nr ! n) = nr"
  by simp

lemma reaches_thread:
  assumes "reaches D N vs (with_replica nr n l rp)" and n: "n < length (nr_replicas nr)" and t: "t < MAX_THREADS_PER_REPLICA"
    and "thread_runs D n t (l, rp) (l', rp')"
  shows "reaches D N vs (with_replica nr n l' rp')"
proof -
  have "thread_runs D n t (l, rp) s \<Longrightarrow> reaches D N vs (with_replica nr n (fst s) (snd s))" for s
    unfolding thread_runs_def
  proof (induction rule: rtranclp_induct)
    case base
    then show ?case using assms(1) by simp
  next
    case (step s1 s2)
    let ?nr = "with_replica nr n (fst s1) (snd s1)"
    have one: "thread_step D n t True (nr_log ?nr) (nr_replicas ?nr ! n) = Some (fst s2, snd s2)"
      using step(2) n by (cases s1) simp
    have "t < length (rp_threads (nr_replicas ?nr ! n))" using reaches_threads [OF step.IH, of n] n t by simp
    from reaches_internal [OF step.IH program_thread [OF _ this one]] n show ?case by simp
  qed
  from this [OF assms(4)] show ?thesis by simp
qed

section \<open>At rest\<close>

definition replica_rest :: "('r, 'w, 'v, 'resp) Replica \<Rightarrow> bool" where
  "replica_rest rp \<longleftrightarrow>
     rp_combiner rp = 0 \<and> rp_contexts rp = replicate MAX_THREADS_PER_REPLICA context_new \<and> rp_num_ops rp = [] \<and>
     (\<exists>v. rp_data rp = data_lock (Some v) False \<and> rp_node rp = idle_node v) \<and> rp_tokens rp = [] \<and>
     length (rp_threads rp) = MAX_THREADS_PER_REPLICA \<and>
     (\<forall>t<MAX_THREADS_PER_REPLICA. th_pc (rp_threads rp ! t) = TIdle \<and> th_lock (rp_threads rp ! t) = LIdle)"

definition program_rest :: "nat \<Rightarrow> nat \<Rightarrow> ('r, 'w, 'v, 'resp) NodeReplicated \<Rightarrow> bool" where
  "program_rest N T nr \<longleftrightarrow>
     length (nr_replicas nr) = N \<and> log_settled N T (nr_log nr) \<and> (\<forall>n<N. replica_rest (nr_replicas nr ! n))"

abbreviation solo_rest where
  "solo_rest R t v pc \<equiv> solo R t 0 context_new [] (data_lock (Some v) False) (idle_node v) pc LIdle"

definition called :: "('r, 'w, 'v, 'resp) Replica \<Rightarrow> ThreadId \<Rightarrow> ReqId \<Rightarrow> ('r, 'w, 'resp) ThreadPc \<Rightarrow> ('r, 'w, 'v, 'resp) Replica" where
  "called rp t rid pc = set_thread rp t ((rp_threads rp ! t)\<lparr>th_pc := pc, th_rid := rid\<rparr>)"

lemma replicate_update: "(replicate n x)[t := x] = replicate n x"
  using list_update_id [of "replicate n x" t] by (cases "t < n") (simp_all add: list_update_beyond not_less)

lemma called_solo:
  assumes rest: "replica_rest rp" and t: "t < MAX_THREADS_PER_REPLICA"
  shows "solo_ok (called rp t rid pc) t" "th_rid (rp_threads (called rp t rid pc) ! t) = rid"
    "\<exists>v. called rp t rid pc = solo_rest (called rp t rid pc) t v pc"
proof -
  have th: "th_lock (rp_threads rp ! t) = LIdle" using rest t by (simp add: replica_rest_def)
  have th': "(rp_threads rp ! t)\<lparr>th_pc := pc, th_rid := rid\<rparr> = \<lparr>th_pc = pc, th_lock = LIdle, th_rid = rid\<rparr>"
    using th by (cases "rp_threads rp ! t") simp
  obtain v where v: "rp_data rp = data_lock (Some v) False" "rp_node rp = idle_node v" using rest by (auto simp: replica_rest_def)
  show "solo_ok (called rp t rid pc) t" "th_rid (rp_threads (called rp t rid pc) ! t) = rid"
    using rest t by (simp_all add: called_def replica_rest_def solo_ok_def)
  have "called rp t rid pc = solo_rest (called rp t rid pc) t v pc"
    using rest t v unfolding called_def th' by (cases rp) (simp add: solo_def replica_rest_def replicate_update)
  then show "\<exists>v. called rp t rid pc = solo_rest (called rp t rid pc) t v pc" by blast
qed

lemma solo_rest_rest:
  assumes "replica_rest rp" and "t < MAX_THREADS_PER_REPLICA"
  shows "replica_rest (solo_rest (called rp t rid pc) t v TIdle)"
  using assms by (auto simp: replica_rest_def solo_def called_def replicate_update nth_list_update)

lemma program_restD:
  assumes "program_rest N T nr"
  shows "length (nr_replicas nr) = N" "log_settled N T (nr_log nr)" "n < N \<Longrightarrow> replica_rest (nr_replicas nr ! n)"
  using assms by (simp_all add: program_rest_def)

lemma program_rest_replica:
  assumes "program_rest N T nr" and "n < N" and "replica_rest rp" and "log_settled N T' l"
  shows "program_rest N T' (with_replica nr n l rp)"
  using assms by (simp add: program_rest_def nth_list_update)

section \<open>A call\<close>

lemma call_starts:
  assumes nr: "reaches D N vs nr" "program_rest N T nr" and n: "n < N" and t: "t < MAX_THREADS_PER_REPLICA"
    and call: "pc = TPut op \<and> inp = InWrite op \<or> pc = TVersion rop \<and> inp = InRead rop n"
  shows "\<exists>rid v. reaches D N (vs @ [LStart rid inp])
    (with_replica nr n (nr_log nr) (solo_rest (called (nr_replicas nr ! n) t rid pc) t v pc))"
proof -
  let ?rid = "get_fresh_nat (rids_in_flight nr) Map.empty" and ?rp = "nr_replicas nr ! n"
  note r = program_restD(1) [OF nr(2)] program_restD(3) [OF nr(2) n]
  have may: "may_call nr n t" using r n t by (simp add: may_call_def replica_rest_def)
  have start: "start_call ?rid pc n t nr = Some (with_replica nr n (nr_log nr) (called ?rp t ?rid pc))"
    using r(1) n by (simp add: start_call_def called_def Let_def)
  have "program_step D nr (LStart ?rid inp) (with_replica nr n (nr_log nr) (called ?rp t ?rid pc))"
    using call
  proof
    assume "pc = TPut op \<and> inp = InWrite op"
    then show ?thesis using program_execute_mut [OF may refl] start by (simp add: execute_mut_call_def)
  next
    assume "pc = TVersion rop \<and> inp = InRead rop n"
    then show ?thesis using program_execute [OF may refl] start by (simp add: execute_call_def)
  qed
  then have started: "reaches D N (vs @ [LStart ?rid inp]) (with_replica nr n (nr_log nr) (called ?rp t ?rid pc))"
    using reaches_step [OF nr(1)] by fastforce
  obtain v where "called ?rp t ?rid pc = solo_rest (called ?rp t ?rid pc) t v pc" using called_solo(3) [OF r(2) t] by blast
  with started have "reaches D N (vs @ [LStart ?rid inp]) (with_replica nr n (nr_log nr) (solo_rest (called ?rp t ?rid pc) t v pc))"
    by presburger
  then show ?thesis by blast
qed

lemma call_returns:
  assumes at: "reaches D N vs (with_replica nr n l (solo_rest R t v pc))" and ok: "solo_ok R t" and n: "n < length (nr_replicas nr)"
    and pc: "pc = TReturnMut x \<and> out = OutWrite x \<or> pc = TReturn x \<and> out = OutRead x"
  shows "reaches D N (vs @ [LEnd (th_rid (rp_threads R ! t)) out]) (with_replica nr n l (solo_rest R t v TIdle))"
proof -
  let ?nr = "with_replica nr n l (solo_rest R t v pc)"
  note s = solo_thread [OF ok]
  have t: "t < length (rp_threads (nr_replicas ?nr ! n))" using ok n by (simp add: solo_ok_def)
  have at_pc: "th_pc (thread_of ?nr n t) = pc" "th_rid (thread_of ?nr n t) = th_rid (rp_threads R ! t)"
    using n by (simp_all add: s)
  have next_nr: "set_replica ?nr n (tgoto (nr_replicas ?nr ! n) t TIdle) = with_replica nr n l (solo_rest R t v TIdle)"
    using n by (simp add: s)
  have "program_step D ?nr (LEnd (th_rid (thread_of ?nr n t)) out) (set_replica ?nr n (tgoto (nr_replicas ?nr ! n) t TIdle))"
    using pc
  proof
    assume "pc = TReturnMut x \<and> out = OutWrite x"
    then show ?thesis using program_return_mut [of n ?nr t x D] n t at_pc by simp
  next
    assume "pc = TReturn x \<and> out = OutRead x"
    then show ?thesis using program_return [of n ?nr t x D] n t at_pc by simp
  qed
  from reaches_step [OF at this] show ?thesis unfolding at_pc next_nr by simp
qed

text \<open>The combiner has a response for every request, by the simulation of the log.\<close>

lemma responses_there:
  assumes at: "reaches D N vs (with_replica nr n l (solo R t c cx counts d (respond_node v req resps False) pc lpc))"
    and n: "n < length (nr_replicas nr)"
  shows "length resps = length (req_rids req)"
proof -
  let ?nr = "with_replica nr n l (solo R t c cx counts d (respond_node v req resps False) pc lpc)"
  obtain ls where run: "program_behavior D N ls ?nr" using at by (auto simp: reaches_def)
  have n': "n < length (nr_replicas ?nr)" using n by simp
  obtain s fc ks where rr: "system_replica_rel s n fc (nr_replicas ?nr ! n)" and sys: "system_behavior D N ks s" "n < length (ns_nodes s)"
    by (rule program_replica [OF run n'])
  have "ns_nodes s ! n = respond_node v req resps False" using replica_relD(1) [OF rr] n by simp
  then show ?thesis using system_node_ok [OF sys] by (simp add: node_ok_def respond_node_def)
qed

lemma serve_write:
  assumes nr: "reaches D N vs nr" "program_rest N T nr" and n: "n < N" and t: "t < MAX_THREADS_PER_REPLICA" and bound: "T + 1 \<le> SERVE_BOUND"
  shows "\<exists>rid out nr'. reaches D N (vs @ [LStart rid (InWrite op), LEnd rid out]) nr' \<and> program_rest N (T + 1) nr'"
proof -
  note r = program_restD(1) [OF nr(2)] program_restD(2) [OF nr(2)] program_restD(3) [OF nr(2) n]
  have n': "n < length (nr_replicas nr)" using r(1) n by simp
  obtain rid v where start: "reaches D N (vs @ [LStart rid (InWrite op)])
      (with_replica nr n (nr_log nr) (solo_rest (called (nr_replicas nr ! n) t rid (TPut op)) t v (TPut op)))"
    using call_starts [OF nr n t, of "TPut op" op "InWrite op"] by blast
  define R where "R = called (nr_replicas nr ! n) t rid (TPut op)"
  have ok: "solo_ok R t" and rid: "th_rid (rp_threads R ! t) = rid"
    using called_solo [OF r(3) t] by (simp_all add: R_def)
  note go = reaches_thread [OF _ n' t]
  let ?vs = "vs @ [LStart rid (InWrite op)]" and ?req = "Some (rid, op)"
  have pending: "reaches D N ?vs (with_replica nr n (nr_log nr)
      (solo R t 0 (pending_cx ?req) [] (data_lock (Some v) False) (idle_node v) (TTryLoad TryUpdate) LIdle))"
    using go [OF start [folded R_def] enqueue_runs [OF ok]] unfolding rid .
  obtain l v' resps where run: "thread_runs D n t
        (nr_log nr, solo R t 0 (pending_cx ?req) [] (data_lock (Some v) False) (idle_node v) (TTryLoad TryUpdate) LIdle)
        (l, solo R t 2 (taken_cx ?req) (req_counts ?req t) (data_lock (Some v') False) (respond_node v' ?req resps False)
          (TDistribute TryUpdate 0) LIdle)" and settled: "log_settled N (T + 1) l"
    using round_thread_runs [OF ok r(2) n, of ?req D v TryUpdate] bound by auto
  note responding = go [OF pending run]
  have len: "length resps = length (req_rids ?req)" by (rule responses_there [OF responding n'])
  then obtain x where x: "resps = [x]" by (cases resps) auto
  have "reaches D N ?vs (with_replica nr n l
      (solo R t 0 (done_cx ?req [x]) [] (data_lock (Some v') False) (idle_node v') (TDequeue 0) LIdle))"
    using go [OF responding end_runs [OF ok len]] unfolding x try_return_def by simp
  from call_returns [OF go [OF this dequeue_runs [OF ok]] ok n', of x "OutWrite x"]
  have "reaches D N (vs @ [LStart rid (InWrite op), LEnd rid (OutWrite x)]) (with_replica nr n l (solo_rest R t v' TIdle))"
    unfolding rid by simp
  moreover have "program_rest N (T + 1) (with_replica nr n l (solo_rest R t v' TIdle))"
    using program_rest_replica [OF nr(2) n _ settled] solo_rest_rest [OF r(3) t] by (simp add: R_def)
  ultimately show ?thesis by blast
qed

text \<open>Reads: the replica is brought up to the version it must have, if it is not there yet.\<close>

lemma catch_up:
  fixes D :: "('r, 'w, 'v, 'resp) Dispatch"
  assumes at: "reaches D N vs (with_replica nr n l (solo_rest R t v (TSync rop u)))" and l: "log_settled N T l" "u \<le> of_nat T"
    and ok: "solo_ok R t" and n: "n < N" "n < length (nr_replicas nr)" and t: "t < MAX_THREADS_PER_REPLICA"
  shows "\<exists>l' v'. reaches D N vs (with_replica nr n l' (solo_rest R t v' (TSync rop u))) \<and> log_settled N T l' \<and>
    is_replica_synced_for_reads l' n u = Some True"
proof (cases "is_replica_synced_for_reads l n u = Some True")
  case True
  then show ?thesis using at l by blast
next
  case False
  then have behind: "is_replica_synced_for_reads l n u = Some False"
    using n log_settledD(6) [OF l(1)] by (simp add: is_replica_synced_for_reads_def nth_opt_def)
  note go = reaches_thread [OF _ n(2) t]
  let ?none = "None :: 'w own_request"
  have trying: "reaches D N vs (with_replica nr n l
      (solo R t 0 (pending_cx ?none) [] (data_lock (Some v) False) (idle_node v) (TTryLoad (TryRead rop u)) LIdle))"
    using go [OF at behind_runs [OF ok behind]] by simp
  obtain l' v' resps where run: "thread_runs D n t
        (l, solo R t 0 (pending_cx ?none) [] (data_lock (Some v) False) (idle_node v) (TTryLoad (TryRead rop u)) LIdle)
        (l', solo R t 2 (taken_cx ?none) (req_counts ?none t) (data_lock (Some v') False) (respond_node v' ?none resps False)
          (TDistribute (TryRead rop u) 0) LIdle)"
      and settled: "log_settled N T l'" "nl_local_versions l' ! n = of_nat T"
    using round_thread_runs [OF ok l(1) n(1), of ?none D v "TryRead rop u"] log_settledD(4) [OF l(1)] by auto
  note responding = go [OF trying run]
  have "reaches D N vs (with_replica nr n l' (solo_rest R t v' (TSync rop u)))"
    using go [OF responding end_runs [OF ok responses_there [OF responding n(2)]]] by (simp add: try_return_def)
  moreover have "is_replica_synced_for_reads l' n u = Some True"
    using settled(2) l(2) n(1) log_settledD(6) [OF settled(1)] by (simp add: is_replica_synced_for_reads_def nth_opt_def)
  ultimately show ?thesis using settled(1) by blast
qed

lemma serve_read:
  assumes nr: "reaches D N vs nr" "program_rest N T nr" and n: "n < N" and t: "t < MAX_THREADS_PER_REPLICA"
  shows "\<exists>rid out nr'. reaches D N (vs @ [LStart rid (InRead rop n), LEnd rid out]) nr' \<and> program_rest N T nr'"
proof -
  note r = program_restD(1) [OF nr(2)] program_restD(2) [OF nr(2)] program_restD(3) [OF nr(2) n]
  have n': "n < length (nr_replicas nr)" using r(1) n by simp
  obtain rid v where start: "reaches D N (vs @ [LStart rid (InRead rop n)])
      (with_replica nr n (nr_log nr) (solo_rest (called (nr_replicas nr ! n) t rid (TVersion rop)) t v (TVersion rop)))"
    using call_starts [OF nr n t, of "TVersion rop" _ "InRead rop n" rop] by blast
  define R where "R = called (nr_replicas nr ! n) t rid (TVersion rop)"
  have ok: "solo_ok R t" and rid: "th_rid (rp_threads R ! t) = rid"
    using called_solo [OF r(3) t] by (simp_all add: R_def)
  note go = reaches_thread [OF _ n' t]
  let ?vs = "vs @ [LStart rid (InRead rop n)]" and ?u = "nl_version_upper_bound (nr_log nr)"
  have u: "?u \<le> of_nat T"
    using log_settledD(4,5) [OF r(2)] position_less [of T] by (metis leD le_less_linear order_trans)
  obtain l' v' where synced: "reaches D N ?vs (with_replica nr n l' (solo_rest R t v' (TSync rop ?u)))" "log_settled N T l'"
      "is_replica_synced_for_reads l' n ?u = Some True"
    using catch_up [OF go [OF start [folded R_def] version_runs [OF ok]] r(2) u ok n n' t] by blast
  let ?x = "dispatch_spec D v' rop"
  from call_returns [OF go [OF synced(1) read_runs [OF ok synced(3)]] ok n', of ?x "OutRead ?x"]
  have "reaches D N (vs @ [LStart rid (InRead rop n), LEnd rid (OutRead ?x)]) (with_replica nr n l' (solo_rest R t v' TIdle))"
    unfolding rid by simp
  moreover have "program_rest N T (with_replica nr n l' (solo_rest R t v' TIdle))"
    using program_rest_replica [OF nr(2) n _ synced(2)] solo_rest_rest [OF r(3) t] by (simp add: R_def)
  ultimately show ?thesis by blast
qed

section \<open>Registering all threads\<close>

text \<open>Every thread token is handed out before the first call.\<close>

lemma nr_same: "nr\<lparr>nr_replicas := nr_replicas nr\<rparr> = nr"
  by simp

lemma register_replica:
  "reaches D N vs nr \<Longrightarrow> n < length (nr_replicas nr) \<Longrightarrow>
   reaches D N vs (set_replica nr n ((nr_replicas nr ! n)\<lparr>rp_tokens := []\<rparr>))"
proof (induction "rp_tokens (nr_replicas nr ! n)" arbitrary: nr rule: rev_induct)
  case Nil
  have "(nr_replicas nr ! n)\<lparr>rp_tokens := []\<rparr> = nr_replicas nr ! n" using Nil(1) by (cases "nr_replicas nr ! n") simp
  then have "set_replica nr n ((nr_replicas nr ! n)\<lparr>rp_tokens := []\<rparr>) = nr" by (metis list_update_id nr_same)
  then show ?case using Nil(2) by argo
next
  case (snoc t ts)
  let ?nr = "set_replica nr n ((nr_replicas nr ! n)\<lparr>rp_tokens := ts\<rparr>)"
  have reg: "node_replicated_register n nr = (Some t, ?nr)"
    using snoc by (simp add: node_replicated_register_def replica_register_def flip: snoc.hyps(2))
  have "reaches D N vs ?nr" by (rule reaches_internal [OF snoc.prems(1) program_register [OF reg]])
  then show ?case using snoc.hyps(1) [of ?nr] snoc.prems(2) by simp
qed

lemma register_all:
  assumes "0 < N" and "N \<le> MAX_REPLICAS" and "k \<le> N"
  shows "\<exists>nr. reaches D N [] nr \<and> nr_log nr = nrlog_new N LOG_SIZE \<and> length (nr_replicas nr) = N \<and>
    (\<forall>n<N. nr_replicas nr ! n = (replica_new D MAX_THREADS_PER_REPLICA)\<lparr>rp_tokens := (if n < k then [] else [0..<MAX_THREADS_PER_REPLICA])\<rparr>)"
  using assms(3)
proof (induction k)
  case 0
  have "reaches D N [] (node_replicated_new D N)"
    unfolding reaches_def by (rule exI [of _ "[]"]) (simp add: program_behavior_new assms(1,2))
  then show ?case by (intro exI [of _ "node_replicated_new D N"]) (simp add: node_replicated_new_def replica_new_def)
next
  case (Suc k)
  then obtain nr where nr: "reaches D N [] nr" "nr_log nr = nrlog_new N LOG_SIZE" "length (nr_replicas nr) = N"
      "\<forall>n<N. nr_replicas nr ! n = (replica_new D MAX_THREADS_PER_REPLICA)\<lparr>rp_tokens := (if n < k then [] else [0..<MAX_THREADS_PER_REPLICA])\<rparr>"
    by auto
  let ?nr = "set_replica nr k ((nr_replicas nr ! k)\<lparr>rp_tokens := []\<rparr>)"
  have "reaches D N [] ?nr" using register_replica [OF nr(1), of k] nr(3) Suc.prems by simp
  then show ?case using nr(2-4) Suc.prems by (intro exI [of _ ?nr]) (auto simp: nth_list_update less_Suc_eq)
qed

lemma boot_rest:
  assumes "0 < N" and "N \<le> MAX_REPLICAS"
  shows "\<exists>nr. reaches D N [] nr \<and> program_rest N 0 nr"
proof -
  obtain nr where nr: "reaches D N [] nr" "nr_log nr = nrlog_new N LOG_SIZE" "length (nr_replicas nr) = N"
      "\<forall>n<N. nr_replicas nr ! n = (replica_new D MAX_THREADS_PER_REPLICA)\<lparr>rp_tokens := []\<rparr>"
    using register_all [OF assms order_refl, of D] by auto
  have "log_settled N 0 (nrlog_new N LOG_SIZE)" by (simp add: log_settled_def nrlog_new_def)
  moreover have "replica_rest ((replica_new D MAX_THREADS_PER_REPLICA)\<lparr>rp_tokens := []\<rparr>)"
    by (simp add: replica_rest_def replica_new_def rwlock_new_def data_lock_def node_new_def idle_node_def)
  ultimately show ?thesis using nr by (auto simp: program_rest_def)
qed

section \<open>All requests\<close>

text \<open>A request names the replica, the thread of the replica, and the operation.\<close>

fun request_ok :: "nat \<Rightarrow> NodeId \<times> ThreadId \<times> ('r, 'w) InputOperation \<Rightarrow> bool" where
  "request_ok N (n, t, InRead op m) \<longleftrightarrow> n < N \<and> t < MAX_THREADS_PER_REPLICA \<and> m = n"
| "request_ok N (n, t, InWrite op) \<longleftrightarrow> n < N \<and> t < MAX_THREADS_PER_REPLICA"

fun count_writes :: "(NodeId \<times> ThreadId \<times> ('r, 'w) InputOperation) list \<Rightarrow> nat" where
  "count_writes [] = 0"
| "count_writes ((n, t, InRead op m) # reqs) = count_writes reqs"
| "count_writes ((n, t, InWrite op) # reqs) = count_writes reqs + 1"

lemma serve_requests:
  "reaches D N (call_events cs) nr \<Longrightarrow> program_rest N T nr \<Longrightarrow> list_all (request_ok N) reqs \<Longrightarrow>
   T + count_writes reqs \<le> SERVE_BOUND \<Longrightarrow>
   \<exists>cs' nr'. reaches D N (call_events (cs @ cs')) nr' \<and> call_inputs cs' = map (\<lambda>(n, t, inp). inp) reqs"
proof (induction reqs arbitrary: cs nr T rule: count_writes.induct)
  case 1
  then show ?case by (intro exI [of _ "[]"]) auto
next
  case (2 n t op m reqs)
  then have ok: "n < N" "t < MAX_THREADS_PER_REPLICA" "m = n" by simp_all
  obtain rid out nr' where served: "reaches D N (call_events cs @ [LStart rid (InRead op n), LEnd rid out]) nr'" "program_rest N T nr'"
    using serve_read [OF 2(2,3) ok(1,2)] by blast
  obtain cs' nr'' where "reaches D N (call_events ((cs @ [(rid, InRead op n, out)]) @ cs')) nr''"
      "call_inputs cs' = map (\<lambda>(n, t, inp). inp) reqs"
    using 2(1) [of "cs @ [(rid, InRead op n, out)]" nr' T] served 2(4,5) by auto
  then show ?case using ok(3) by (intro exI [of _ "(rid, InRead op n, out) # cs'"] exI [of _ nr'']) simp
next
  case (3 n t op reqs)
  then have ok: "n < N" "t < MAX_THREADS_PER_REPLICA" "T + 1 \<le> SERVE_BOUND" by simp_all
  obtain rid out nr' where served: "reaches D N (call_events cs @ [LStart rid (InWrite op), LEnd rid out]) nr'" "program_rest N (T + 1) nr'"
    using serve_write [OF 3(2,3) ok] by blast
  obtain cs' nr'' where "reaches D N (call_events ((cs @ [(rid, InWrite op, out)]) @ cs')) nr''"
      "call_inputs cs' = map (\<lambda>(n, t, inp). inp) reqs"
    using 3(1) [of "cs @ [(rid, InWrite op, out)]" nr' "T + 1"] served 3(4,5) by auto
  then show ?case by (intro exI [of _ "(rid, InWrite op, out) # cs'"] exI [of _ nr'']) simp
qed

lemma requests_served:
  assumes "0 < N" and "N \<le> MAX_REPLICAS" and "list_all (request_ok N) reqs" and "count_writes reqs \<le> SERVE_BOUND"
  shows "\<exists>ls nr cs. program_behavior D N ls nr \<and> visible ls = call_events cs \<and> call_inputs cs = map (\<lambda>(n, t, inp). inp) reqs"
proof -
  obtain nr where nr: "reaches D N (call_events []) nr" "program_rest N 0 nr" using boot_rest [OF assms(1,2), of D] by auto
  from serve_requests [OF nr assms(3)] assms(4) obtain cs nr' where
    "reaches D N (call_events cs) nr'" "call_inputs cs = map (\<lambda>(n, t, inp). inp) reqs" by auto
  then show ?thesis by (auto simp: reaches_def)
qed

end
