(* ===== verification/NR_Tickets.thy ===== *)
theory NR_Tickets
  imports NR_Exec_Guarantees
begin

text \<open>
  The contract of the interface trait \<^verbatim>\<open>NodeReplicatedT\<close> (\<^verbatim>\<open>lib.rs\<close>): a call of \<^verbatim>\<open>execute\<close> or
  \<^verbatim>\<open>execute_mut\<close> is given a ticket, the token of a new request in the unbounded log, and
  returns with a stub, the token of the same request with the result. The program of
  \<open>NR_Exec_Program\<close> carries no tokens; what it returns is shown to be what the tokens of the
  simulated unbounded log say.
\<close>

section \<open>Tickets and stubs\<close>

record ('i, 'v) token =
  tok_instance :: 'i
  tok_key :: ReqId
  tok_value :: 'v

definition is_readonly_ticket :: "('i, ('r, 'resp) ReadonlyState) token \<Rightarrow> 'r \<Rightarrow> NodeId \<Rightarrow> 'i \<Rightarrow> bool" where
  "is_readonly_ticket ticket op node_id log \<longleftrightarrow>
     tok_value ticket = ROInit op node_id \<and> tok_instance ticket = log"

definition is_readonly_stub :: "('i, ('r, 'resp) ReadonlyState) token \<Rightarrow> ReqId \<Rightarrow> 'resp \<Rightarrow> 'i \<Rightarrow> bool" where
  "is_readonly_stub stub rid res log \<longleftrightarrow>
     tok_instance stub = log \<and> tok_key stub = rid \<and>
     (case tok_value stub of RODone op node_id version ret \<Rightarrow> ret = res | _ \<Rightarrow> False)"

definition is_update_ticket :: "('i, ('w, 'resp) UpdateState) token \<Rightarrow> 'w \<Rightarrow> 'i \<Rightarrow> bool" where
  "is_update_ticket ticket op log \<longleftrightarrow> tok_value ticket = UInit op \<and> tok_instance ticket = log"

definition is_update_stub :: "('i, ('w, 'resp) UpdateState) token \<Rightarrow> ReqId \<Rightarrow> 'resp \<Rightarrow> 'i \<Rightarrow> bool" where
  "is_update_stub stub rid res log \<longleftrightarrow>
     tok_instance stub = log \<and> tok_key stub = rid \<and>
     (case tok_value stub of UDone ret idx \<Rightarrow> ret = res | _ \<Rightarrow> False)"

text \<open>The tokens of a state of the unbounded log.\<close>

definition update_token :: "('r, 'w, 'v, 'resp) UnboundedLog \<Rightarrow> 'i \<Rightarrow> ('i, ('w, 'resp) UpdateState) token \<Rightarrow> bool" where
  "update_token g log tok \<longleftrightarrow> tok_instance tok = log \<and> ul_local_updates g (tok_key tok) = Some (tok_value tok)"

definition readonly_token :: "('r, 'w, 'v, 'resp) UnboundedLog \<Rightarrow> 'i \<Rightarrow> ('i, ('r, 'resp) ReadonlyState) token \<Rightarrow> bool" where
  "readonly_token g log tok \<longleftrightarrow> tok_instance tok = log \<and> ul_local_reads g (tok_key tok) = Some (tok_value tok)"

section \<open>The program keeps the contract\<close>

lemma call_tokens:
  assumes run: "program_behavior D N ls nr" and n: "n < length (nr_replicas nr)"
    and t: "t < length (rp_threads (nr_replicas nr ! n))"
  obtains ks g where "ul_behavior D N ks g" "visible ks = visible ls"
    "th_pc (thread_of nr n t) = TPut w \<Longrightarrow> ul_local_updates g (th_rid (thread_of nr n t)) = Some (UInit w)"
    "th_pc (thread_of nr n t) = TReturnMut x \<Longrightarrow> \<exists>i. ul_local_updates g (th_rid (thread_of nr n t)) = Some (UDone x i)"
    "th_pc (thread_of nr n t) = TVersion r \<Longrightarrow> ul_local_reads g (th_rid (thread_of nr n t)) = Some (ROInit r n)"
    "th_pc (thread_of nr n t) = TReturn x \<Longrightarrow>
       \<exists>op m v. ul_local_reads g (th_rid (thread_of nr n t)) = Some (RODone op m v x)"
proof -
  obtain s fcs ks where pr: "program_rel nr s fcs" and ks: "system_behavior D N ks s" "visible ks = visible ls"
    using program_behavior_simulated [OF run] unfolding program_simulated_def by blast
  obtain g c where sim: "run_simulated D N ks s g c" using system_behavior_simulated [OF ks(1)] by blast
  then obtain ms where ms: "ul_behavior D N ms g" "visible ms = visible ks" and sr: "system_rel s g c"
    by (auto simp: run_simulated_def)
  have t': "t < MAX_THREADS_PER_REPLICA" using t program_threads [OF pr n] by simp
  note th = thread_relD(1) [OF replica_relD(11) [OF program_relD(3) [OF pr n] t']]
  let ?rid = "th_rid (thread_of nr n t)"
  note u = system_relD(4) [OF sr, of ?rid] and r = system_relD(5) [OF sr, of ?rid]
  show thesis
    by (rule that [OF ms(1)]) (use ms(2) ks(2) th u r in auto)
qed

lemma execute_mut_contract:
  assumes "program_behavior D N ls nr" and "n < length (nr_replicas nr)" and "t < length (rp_threads (nr_replicas nr ! n))"
    and "th_pc (thread_of nr n t) = TReturnMut x"
  shows "\<exists>ks g stub. ul_behavior D N ks g \<and> visible ks = visible ls \<and> update_token g log stub \<and>
    is_update_stub stub (th_rid (thread_of nr n t)) x log"
proof -
  obtain ks g i where "ul_behavior D N ks g" "visible ks = visible ls"
      "ul_local_updates g (th_rid (thread_of nr n t)) = Some (UDone x i)"
    using call_tokens [OF assms(1-3), where x = x] assms(4) by metis
  then show ?thesis
    by (intro exI [of _ ks] exI [of _ g] exI [of _ "\<lparr>tok_instance = log, tok_key = th_rid (thread_of nr n t), tok_value = UDone x i\<rparr>"])
      (simp add: update_token_def is_update_stub_def)
qed

lemma execute_contract:
  assumes "program_behavior D N ls nr" and "n < length (nr_replicas nr)" and "t < length (rp_threads (nr_replicas nr ! n))"
    and "th_pc (thread_of nr n t) = TReturn x"
  shows "\<exists>ks g stub. ul_behavior D N ks g \<and> visible ks = visible ls \<and> readonly_token g log stub \<and>
    is_readonly_stub stub (th_rid (thread_of nr n t)) x log"
proof -
  obtain ks g op m v where "ul_behavior D N ks g" "visible ks = visible ls"
      "ul_local_reads g (th_rid (thread_of nr n t)) = Some (RODone op m v x)"
    using call_tokens [OF assms(1-3), where x = x] assms(4) by metis
  then show ?thesis
    by (intro exI [of _ ks] exI [of _ g]
        exI [of _ "\<lparr>tok_instance = log, tok_key = th_rid (thread_of nr n t), tok_value = RODone op m v x\<rparr>"])
      (simp add: readonly_token_def is_readonly_stub_def)
qed

text \<open>The request a call starts with is a ticket for its operation.\<close>

lemma execute_mut_ticket:
  assumes "program_behavior D N ls nr" and "n < length (nr_replicas nr)" and "t < length (rp_threads (nr_replicas nr ! n))"
    and "th_pc (thread_of nr n t) = TPut op"
  shows "\<exists>ks g ticket. ul_behavior D N ks g \<and> visible ks = visible ls \<and> update_token g log ticket \<and>
    is_update_ticket ticket op log \<and> tok_key ticket = th_rid (thread_of nr n t)"
proof -
  obtain ks g where "ul_behavior D N ks g" "visible ks = visible ls"
      "ul_local_updates g (th_rid (thread_of nr n t)) = Some (UInit op)"
    using call_tokens [OF assms(1-3), where w = op] assms(4) by metis
  then show ?thesis
    by (intro exI [of _ ks] exI [of _ g] exI [of _ "\<lparr>tok_instance = log, tok_key = th_rid (thread_of nr n t), tok_value = UInit op\<rparr>"])
      (simp add: update_token_def is_update_ticket_def)
qed

lemma execute_ticket:
  assumes "program_behavior D N ls nr" and "n < length (nr_replicas nr)" and "t < length (rp_threads (nr_replicas nr ! n))"
    and "th_pc (thread_of nr n t) = TVersion op"
  shows "\<exists>ks g ticket. ul_behavior D N ks g \<and> visible ks = visible ls \<and> readonly_token g log ticket \<and>
    is_readonly_ticket ticket op n log \<and> tok_key ticket = th_rid (thread_of nr n t)"
proof -
  obtain ks g where "ul_behavior D N ks g" "visible ks = visible ls"
      "ul_local_reads g (th_rid (thread_of nr n t)) = Some (ROInit op n)"
    using call_tokens [OF assms(1-3), where r = op] assms(4) by metis
  then show ?thesis
    by (intro exI [of _ ks] exI [of _ g] exI [of _ "\<lparr>tok_instance = log, tok_key = th_rid (thread_of nr n t), tok_value = ROInit op n\<rparr>"])
      (simp add: readonly_token_def is_readonly_ticket_def)
qed

end
