(* ===== verification/NR_Counter.thy ===== *)
theory NR_Counter
  imports NR_Types "HOL-Library.Word"
begin

text \<open>
  The interface a replicated data structure implements (trait \<^verbatim>\<open>Dispatch\<close> of
  \<^verbatim>\<open>lib.rs\<close>), and the counters that are its implementation in this repository
  (\<^verbatim>\<open>counter.rs\<close>).
\<close>

section \<open>The interface\<close>

text \<open>
  An implementation has its own state with an invariant and a view; its operations must agree
  on views with the specification functions.
\<close>

locale dispatch =
  fixes D :: "('r, 'w, 'v, 'resp) Dispatch"
    and inv :: "'s \<Rightarrow> bool" and view :: "'s \<Rightarrow> 'v" and init :: 's
    and dispatch :: "'s \<Rightarrow> 'r \<Rightarrow> 'resp" and dispatch_mut :: "'s \<Rightarrow> 'w \<Rightarrow> 's \<times> 'resp"
  assumes init_inv: "inv init" and init_view: "view init = init_spec D"
    and dispatch_result: "inv s \<Longrightarrow> dispatch s r = dispatch_spec D (view s) r"
    and dispatch_mut_inv: "inv s \<Longrightarrow> inv (fst (dispatch_mut s w))"
    and dispatch_mut_result:
      "inv s \<Longrightarrow> (view (fst (dispatch_mut s w)), snd (dispatch_mut s w)) = dispatch_mut_spec D (view s) w"
begin

text \<open>A replica that has applied the same writes has the state the specification computes.\<close>

lemma apply_writes:
  "inv s \<Longrightarrow> inv (fold (\<lambda>w s. fst (dispatch_mut s w)) ws s) \<and>
     view (fold (\<lambda>w s. fst (dispatch_mut s w)) ws s) = fold (\<lambda>w st. fst (dispatch_mut_spec D st w)) ws (view s)"
proof (induction ws arbitrary: s)
  case (Cons w ws)
  have "view (fst (dispatch_mut s w)) = fst (dispatch_mut_spec D (view s) w)"
    using dispatch_mut_result [OF Cons.prems, of w] by (metis fst_conv)
  then show ?case using Cons.IH [OF dispatch_mut_inv [OF Cons.prems]] by simp
qed simp

lemma read_after_writes:
  "dispatch (fold (\<lambda>w s. fst (dispatch_mut s w)) ws init) r =
     dispatch_spec D (fold (\<lambda>w st. fst (dispatch_mut_spec D st w)) ws (init_spec D)) r"
  using apply_writes [OF init_inv, of ws] dispatch_result init_view by simp

end

section \<open>Counters\<close>

datatype IncTwo = IncTwo "64 word"
datatype CounterRead = CounterRead "64 word"

datatype OpResult =
    OpValue "64 word"
  | OpOk
  | OpErr

text \<open>
  The counter type has no body in the source; its operations follow their contracts.
  \<open>counter_increment\<close> writes out the wrap-around as the contract does.
\<close>

record DataStructureType =
  num_counters :: "64 word"
  counters :: "64 word list"

definition counter_new :: "64 word \<Rightarrow> 64 word list" where
  "counter_new i = replicate (unat i) 0"

definition counter_read :: "64 word list \<Rightarrow> 64 word \<Rightarrow> 64 word" where
  "counter_read c i = c ! unat i"

definition counter_increment :: "64 word list \<Rightarrow> 64 word \<Rightarrow> 64 word list" where
  "counter_increment c i =
     c[unat i := (if c ! unat i < 0xffffffffffffffff then c ! unat i + 1 else 0)]"

definition counter_inv :: "DataStructureType \<Rightarrow> bool" where
  "counter_inv s \<longleftrightarrow> unat (num_counters s) = length (counters s)"

definition counter_init :: "64 word \<Rightarrow> DataStructureType" where
  "counter_init i = \<lparr>num_counters = i, counters = counter_new i\<rparr>"

definition counter_update :: "DataStructureType \<Rightarrow> IncTwo \<Rightarrow> DataStructureType \<times> OpResult" where
  "counter_update s op =
     (case op of IncTwo i \<Rightarrow>
        if i < num_counters s
        then (s\<lparr>counters := counter_increment (counter_increment (counters s) i) i\<rparr>, OpOk)
        else (s, OpErr))"

definition counter_get :: "DataStructureType \<Rightarrow> CounterRead \<Rightarrow> OpResult" where
  "counter_get s op =
     (case op of CounterRead i \<Rightarrow>
        if i < num_counters s then OpValue (counter_read (counters s) i) else OpErr)"

definition counter_init_spec :: "64 word list" where
  "counter_init_spec = [0, 0, 0, 0, 0, 0, 0, 0, 0, 0]"

definition counter_dispatch_spec :: "64 word list \<Rightarrow> CounterRead \<Rightarrow> OpResult" where
  "counter_dispatch_spec ds op =
     (case op of CounterRead i \<Rightarrow> if unat i < length ds then OpValue (ds ! unat i) else OpErr)"

definition counter_dispatch_mut_spec :: "64 word list \<Rightarrow> IncTwo \<Rightarrow> 64 word list \<times> OpResult" where
  "counter_dispatch_mut_spec ds op =
     (case op of IncTwo i \<Rightarrow>
        if unat i < length ds
        then (ds[unat i := (if ds ! unat i = 0xfffffffffffffffe then 0
                            else if ds ! unat i = 0xffffffffffffffff then 1
                            else ds ! unat i + 2)], OpOk)
        else (ds, OpErr))"

definition counter_dispatch :: "(CounterRead, IncTwo, 64 word list, OpResult) Dispatch" where
  "counter_dispatch =
     \<lparr>init_spec = counter_init_spec, dispatch_spec = counter_dispatch_spec, dispatch_mut_spec = counter_dispatch_mut_spec\<rparr>"

text \<open>In words, the increments with their special cases are additions.\<close>

lemma replicate_10: "replicate 10 x = [x, x, x, x, x, x, x, x, x, x]"
  by (simp add: numeral_eq_Suc)

lemma counter_increment_eq: "counter_increment c i = c[unat i := c ! unat i + 1]"
proof -
  have m: "(0xffffffffffffffff :: 64 word) = - 1" by simp
  have "c ! unat i < - 1 \<or> c ! unat i = - 1" using word_order.not_eq_extremum by blast
  then show ?thesis unfolding counter_increment_def m by auto
qed

lemma add_two_cases:
  "(if x = 0xfffffffffffffffe then 0 else if x = 0xffffffffffffffff then 1 else x + 2) = x + (2 :: 64 word)"
  by simp

lemma counter_increment_twice:
  "unat i < length c \<Longrightarrow> counter_increment (counter_increment c i) i = c[unat i := c ! unat i + 2]"
  by (simp add: counter_increment_eq add.commute)

lemma counter_update_spec:
  assumes "counter_inv s"
  shows "(counters (fst (counter_update s op)), snd (counter_update s op)) = counter_dispatch_mut_spec (counters s) op"
  using assms
  by (cases op) (simp add: counter_update_def counter_dispatch_mut_spec_def counter_inv_def word_less_nat_alt
      counter_increment_twice add_two_cases del: word_not_simps)

lemma counter_update_inv: "counter_inv s \<Longrightarrow> counter_inv (fst (counter_update s op))"
  by (cases op) (simp add: counter_update_def counter_inv_def counter_increment_eq)

lemma counter_get_spec: "counter_inv s \<Longrightarrow> counter_get s op = counter_dispatch_spec (counters s) op"
  by (cases op) (simp add: counter_get_def counter_dispatch_spec_def counter_inv_def word_less_nat_alt counter_read_def)

interpretation counter: dispatch counter_dispatch counter_inv counters "counter_init 10" counter_get counter_update
proof
  show "counter_inv (counter_init 10)" by (simp add: counter_inv_def counter_init_def counter_new_def)
  show "counters (counter_init 10) = init_spec counter_dispatch"
    by (simp add: counter_init_def counter_new_def counter_dispatch_def counter_init_spec_def replicate_10)
qed (simp_all add: counter_dispatch_def counter_get_spec counter_update_inv counter_update_spec [simplified])

end
