(* ===== verification/NR_Example.thy ===== *)
theory NR_Example
  imports NR_Log_Refines NR_Linearization NR_Counter NR_Flat_Combiner NR_RwLock NR_Cyclic_Inv
begin

text \<open>
  Concrete runs of the node replication machines: one increment of a replicated counter with
  two replicas, a request through the flat combiner, a reader and a writer of the lock, and
  an entry that is appended to the cyclic buffer and read back.
\<close>

section \<open>An increment\<close>

definition nr_state where
  "nr_state log t reps lv vub ups comb =
     \<lparr>ul_num_replicas = 2, ul_log = log, ul_tail = t, ul_replicas = reps, ul_local_versions = lv,
      ul_version_upper_bound = vub, ul_local_reads = Map.empty, ul_local_updates = ups, ul_combiner = comb\<rparr>"

abbreviation ex_init_map where
  "ex_init_map x \<equiv> map_below 2 x"

definition ex_rid :: ReqId where
  "ex_rid = get_fresh_rid (ul_initialize counter_dispatch 2)"

definition ex_log :: "LogIdx \<rightharpoonup> IncTwo LogEntry" where
  "ex_log = [0 \<mapsto> \<lparr>le_op = IncTwo 3, le_node_id = 0\<rparr>]"

definition ex_counters :: "64 word list" where
  "ex_counters = [0, 0, 0, 2, 0, 0, 0, 0, 0, 0]"

lemma ex_counters_eq: "counter_dispatch_mut_spec counter_init_spec (IncTwo 3) = (ex_counters, OpOk)"
  by (simp add: counter_dispatch_mut_spec_def counter_init_spec_def ex_counters_def)

lemma ex_initialize:
  "ul_initialize counter_dispatch 2 =
     nr_state Map.empty 0 (ex_init_map counter_init_spec) (ex_init_map 0) 0 Map.empty (ex_init_map CReady)"
  by (simp add: ul_initialize_def nr_state_def counter_dispatch_def)

abbreviation ex_replicas where
  "ex_replicas \<equiv> (map_below 2 counter_init_spec)(0 \<mapsto> ex_counters)"

abbreviation ex_comb where
  "ex_comb c \<equiv> (map_below 2 CReady)(0 \<mapsto> c)"

lemma map_below_0 [simp]: "map_below 2 x 0 = Some x"
  by (simp add: map_below_def)

lemma ex_comb_0: "map_below 2 CReady = ex_comb CReady" "map_below 2 (0 :: nat) = (map_below 2 0)(0 \<mapsto> 0)"
  by (simp_all add: fun_eq_iff)

lemma ex_ticket:
  "ul_behavior counter_dispatch 2 [LStart ex_rid (InWrite (IncTwo 3))]
     (nr_state Map.empty 0 (ex_init_map counter_init_spec) (ex_init_map 0) 0 [ex_rid \<mapsto> UInit (IncTwo 3)] (ex_comb CReady))"
proof -
  have "add_ticket (ul_initialize counter_dispatch 2)
     (nr_state Map.empty 0 (ex_init_map counter_init_spec) (ex_init_map 0) 0 [ex_rid \<mapsto> UInit (IncTwo 3)] (ex_comb CReady))
     (InWrite (IncTwo 3)) ex_rid"
    by (simp add: add_ticket_def ex_initialize nr_state_def flip: ex_comb_0(1))
  from ul_behavior_step [OF ul_behavior_init ul_step_start [OF this [unfolded ex_rid_def]]]
  show ?thesis by (simp add: ex_rid_def)
qed

lemma ul_behavior_internal: "ul_behavior D n ls s \<Longrightarrow> ul_next D s s' \<Longrightarrow> ul_behavior D n (ls @ [Internal]) s'"
  by (erule ul_behavior_step) (rule ul_step_internal)

abbreviation ex_labels where
  "ex_labels k \<equiv> LStart ex_rid (InWrite (IncTwo 3)) # replicate k Internal"

lemma ex_append: "ex_labels k @ [Internal] = ex_labels (Suc k)"
  by (simp add: replicate_append_same)

lemma ex_step:
  "ul_behavior counter_dispatch 2 (ex_labels k) s \<Longrightarrow> ul_next counter_dispatch s s' \<Longrightarrow> j = Suc k \<Longrightarrow>
     ul_behavior counter_dispatch 2 (ex_labels j) s'"
  using ul_behavior_internal [of counter_dispatch 2 "ex_labels k" s s'] by (simp only: ex_append)

text \<open>The combiner places the operation in the log and reads the tail.\<close>

definition ex_loop :: "(CounterRead, IncTwo, 64 word list, OpResult) UnboundedLog" where
  "ex_loop = nr_state ex_log 1 (ex_init_map counter_init_spec) (ex_init_map 0) 0 [ex_rid \<mapsto> UPlaced (IncTwo 3) 0]
     (ex_comb (CLoop [ex_rid] 0 0 1))"

lemma ex_loop_reachable: "ul_behavior counter_dispatch 2 (ex_labels 4) ex_loop"
proof -
  let ?s = "\<lambda>log t ups c. nr_state log t (ex_init_map counter_init_spec) (ex_init_map 0) 0 ups (ex_comb c)"
  let ?init = "[ex_rid \<mapsto> UInit (IncTwo 3)]" and ?placed = "[ex_rid \<mapsto> UPlaced (IncTwo 3) 0]"
  have b: "ul_behavior counter_dispatch 2 (ex_labels 0) (?s Map.empty 0 ?init CReady)" using ex_ticket by simp
  have n: "ul_next counter_dispatch (?s Map.empty 0 ?init CReady) (?s Map.empty 0 ?init (CPlaced []))"
    by (rule ul_next_exec_trivial_start [where n = 0]) (simp add: exec_trivial_start_def nr_state_def)
  note b = ex_step [OF b n, of 1]
  have n: "ul_next counter_dispatch (?s Map.empty 0 ?init (CPlaced [])) (?s ex_log 1 ?placed (CPlaced [ex_rid]))"
    by (rule ul_next_update_place_ops_in_log_one [where n = 0 and rid = ex_rid])
      (simp add: update_place_ops_in_log_one_def nr_state_def ex_log_def)
  note b = ex_step [OF b n, of 2]
  have n: "ul_next counter_dispatch (?s ex_log 1 ?placed (CPlaced [ex_rid]))
      (?s ex_log 1 ?placed (CLoadedLocalVersion [ex_rid] 0))"
    by (rule ul_next_exec_load_local_version [where n = 0]) (simp add: exec_load_local_version_def nr_state_def)
  note b = ex_step [OF b n, of 3]
  have n: "ul_next counter_dispatch (?s ex_log 1 ?placed (CLoadedLocalVersion [ex_rid] 0)) ex_loop"
    by (rule ul_next_exec_load_global_head [where n = 0]) (simp add: exec_load_global_head_def nr_state_def ex_loop_def)
  show ?thesis by (rule ex_step [OF b n]) simp_all
qed

text \<open>It applies the operation and publishes the version, and the response leaves.\<close>

definition ex_applied :: "(CounterRead, IncTwo, 64 word list, OpResult) UnboundedLog" where
  "ex_applied = nr_state ex_log 1 ex_replicas (ex_init_map 0) 0 [ex_rid \<mapsto> UApplied OpOk 0] (ex_comb (CLoop [ex_rid] 1 1 1))"

definition ex_final :: "(CounterRead, IncTwo, 64 word list, OpResult) UnboundedLog" where
  "ex_final = nr_state ex_log 1 ex_replicas (ex_init_map 0) 1 Map.empty (ex_comb (CUpdatedVersion [ex_rid] 1))"

lemma ex_applied_reachable: "ul_behavior counter_dispatch 2 (ex_labels 5) ex_applied"
proof -
  have n: "ul_next counter_dispatch ex_loop ex_applied"
    by (rule ul_next_exec_dispatch_local [where n = 0])
      (simp add: exec_dispatch_local_def ex_loop_def ex_applied_def nr_state_def ex_log_def counter_dispatch_def ex_counters_eq)
  show ?thesis by (rule ex_step [OF ex_loop_reachable n]) simp
qed

definition ex_run :: "(CounterRead, IncTwo, OpResult) AsyncLabel list" where
  "ex_run = ex_labels 7 @ [LEnd ex_rid (OutWrite OpOk)]"

lemma ex_final_reachable: "ul_behavior counter_dispatch 2 ex_run ex_final"
proof -
  let ?s = "\<lambda>ups. nr_state ex_log 1 ex_replicas (ex_init_map 0) 1 ups (ex_comb (CUpdatedVersion [ex_rid] 1))"
  have n: "ul_next counter_dispatch ex_applied (?s [ex_rid \<mapsto> UApplied OpOk 0])"
    by (rule ul_next_exec_update_version_upper_bound [where n = 0])
      (simp add: exec_update_version_upper_bound_def ex_applied_def nr_state_def)
  note b = ex_step [OF ex_applied_reachable n, of 6]
  have n: "ul_next counter_dispatch (?s [ex_rid \<mapsto> UApplied OpOk 0]) (?s [ex_rid \<mapsto> UDone OpOk 0])"
    by (rule ul_next_update_done [where rid = ex_rid]) (simp add: update_done_def nr_state_def)
  note b = ex_step [OF b n, of 7]
  have "consume_stub (?s [ex_rid \<mapsto> UDone OpOk 0]) ex_final (OutWrite OpOk) ex_rid"
    by (simp add: consume_stub_def nr_state_def ex_final_def)
  from ul_behavior_step [OF b ul_step_end [OF this]] show ?thesis by (simp add: ex_run_def)
qed

section \<open>A request through the flat combiner\<close>

definition fc_ex :: "ClientState \<Rightarrow> SlotState \<Rightarrow> FCState \<Rightarrow> FlatCombiner" where
  "fc_ex c x st = \<lparr>fc_num_threads = 1, fc_clients = [0 \<mapsto> c], fc_slots = [0 \<mapsto> x], fc_combiner = st\<rparr>"

lemma map_below_1: "map_below (Suc 0) x = [0 \<mapsto> x]"
  by (auto simp: map_below_def)

lemma fc_ex_waiting: "fc_reachable 1 (fc_ex (CLWaiting 7) (SlotRequest 7) (FCCollecting []))"
proof -
  have "fc_initialize 1 = fc_ex CLIdle SlotEmpty (FCCollecting [])"
    by (simp add: fc_initialize_def fc_ex_def map_below_1)
  then have "fc_reachable 1 (fc_ex CLIdle SlotEmpty (FCCollecting []))" using fc_reachable_init [of 1] by simp
  then show ?thesis
    by (rule fc_reachable_step) (rule fc_next_send_request [where tid = 0 and rid = 7], simp add: send_request_def fc_ex_def)
qed

lemma fc_ex_responded: "fc_reachable 1 (fc_ex (CLWaiting 7) (SlotResponse 7) (FCResponding [Some 7] 1))"
proof -
  have n: "fc_next (fc_ex (CLWaiting 7) (SlotRequest 7) (FCCollecting [])) (fc_ex (CLWaiting 7) (SlotInProgress 7) (FCCollecting [Some 7]))"
    by (rule fc_next_collect_request) (simp add: combiner_collect_request_def fc_ex_def)
  note r = fc_reachable_step [OF fc_ex_waiting n]
  have n: "fc_next (fc_ex (CLWaiting 7) (SlotInProgress 7) (FCCollecting [Some 7])) (fc_ex (CLWaiting 7) (SlotInProgress 7) (FCResponding [Some 7] 0))"
    by (rule fc_next_responding_start) (simp add: combiner_responding_start_def fc_ex_def)
  note r = fc_reachable_step [OF r n]
  show ?thesis
    by (rule fc_reachable_step [OF r], rule fc_next_responding_result) (simp add: combiner_responding_result_def fc_ex_def)
qed

section \<open>A reader and a writer of the lock\<close>

definition rw_ex :: "nat option \<Rightarrow> bool \<Rightarrow> int \<Rightarrow> int option \<Rightarrow> unit option \<Rightarrow> int multiset \<Rightarrow> (int \<times> nat) multiset \<Rightarrow> nat RwLockSpec" where
  "rw_ex st l rc p g sp sg =
     \<lparr>rw_user_inv = UNIV, rw_rc_width = 1, rw_storage = st, rw_exc_locked = l, rw_ref_counts = [0 \<mapsto> rc],
      rw_exc_pending = p, rw_exc_guard = g, rw_shared_pending = sp, rw_shared_guard = sg\<rparr>"

lemma rw_ex_init: "rw_reachable (rw_ex (Some 5) False 0 None None {#} {#})"
  by (rule rw_reachable_init [where w = 1 and t = 5 and I = UNIV])
    (auto simp: rw_initialize_def rw_ex_def fun_eq_iff)

lemma rw_ex_reader: "rw_reachable (rw_ex (Some 5) False 1 None None {#} {#(0, 5)#})"
proof -
  have "rw_next (rw_ex (Some 5) False 0 None None {#} {#}) (rw_ex (Some 5) False 1 None None {#0#} {#})"
    by (rule rw_next_shared_start [where r = 0]) (simp add: shared_start_def rw_ex_def)
  from rw_reachable_step [OF rw_ex_init this] show ?thesis
    by (rule rw_reachable_step) (rule rw_next_shared_finish [where r = 0], simp add: shared_finish_def rw_ex_def)
qed

lemma rw_ex_writer: "rw_reachable (rw_ex None True 0 None (Some ()) {#} {#})"
proof -
  have n: "rw_next (rw_ex (Some 5) False 0 None None {#} {#}) (rw_ex (Some 5) True 0 (Some 0) None {#} {#})"
    by (rule rw_next_exc_start) (simp add: exc_start_def rw_ex_def)
  note r = rw_reachable_step [OF rw_ex_init n]
  have n: "rw_next (rw_ex (Some 5) True 0 (Some 0) None {#} {#}) (rw_ex (Some 5) True 0 (Some 1) None {#} {#})"
    by (rule rw_next_exc_check_count) (simp add: exc_check_count_def rw_ex_def)
  note r = rw_reachable_step [OF r n]
  show ?thesis
    by (rule rw_reachable_step [OF r], rule rw_next_exc_finish) (simp add: exc_finish_def rw_ex_def)
qed

section \<open>An entry appended and read\<close>

definition cb_ex_stored :: "int \<Rightarrow> IncTwo StoredType" where
  "cb_ex_stored i =
     \<lparr>st_cell_perms = \<lparr>cp_pcell = log_entry_idx i LOG_SIZE, cp_value = Some (Some \<lparr>cle_op = IncTwo 3, cle_node_id = 0\<rparr>)\<rparr>,
      st_log_entry = Some \<lparr>lt_instance = 0, lt_key = nat i, lt_value = \<lparr>le_op = IncTwo 3, le_node_id = 0\<rparr>\<rparr>\<rparr>"

lemma cb_ex_stored_inv: "stored_type_inv (cb_ex_stored i) i ([0..<LOG_SIZE] ! log_entry_idx i LOG_SIZE) 0"
proof -
  have "log_entry_idx i LOG_SIZE < LOG_SIZE" by (simp add: log_entry_idx_less LOG_SIZE_def)
  then show ?thesis by (simp add: stored_type_inv_def cb_ex_stored_def)
qed

definition cb_ex_contents :: "int \<rightharpoonup> IncTwo StoredType" where
  "cb_ex_contents i = (if - int LOG_SIZE \<le> i \<and> i < 0 then Some (cb_ex_stored i) else None)"

definition cb_ex_bits :: "nat \<rightharpoonup> bool" where
  "cb_ex_bits i = (if i < LOG_SIZE then Some (\<not> log_entry_alive_value (int i) LOG_SIZE) else None)"

definition cb_ex :: "nat \<Rightarrow> (int \<rightharpoonup> IncTwo StoredType) \<Rightarrow> (nat \<rightharpoonup> bool) \<Rightarrow> IncTwo CBCombiner \<Rightarrow> IncTwo CyclicBuffer" where
  "cb_ex t contents bits c =
     \<lparr>cb_unbounded_log_instance = 0, cb_cell_ids = [0..<LOG_SIZE], cb_buffer_size = LOG_SIZE, cb_num_replicas = 1,
      cb_head = 0, cb_tail = t, cb_local_versions = [0 \<mapsto> 0], cb_contents = contents, cb_alive_bits = bits,
      cb_combiner = [0 \<mapsto> c]\<rparr>"

lemma cb_ex_init: "cb_reachable (cb_ex 0 cb_ex_contents cb_ex_bits CBIdle)"
proof (rule cb_reachable_init)
  show "cb_initialize LOG_SIZE 1 cb_ex_contents [0..<LOG_SIZE] 0 (cb_ex 0 cb_ex_contents cb_ex_bits CBIdle)"
    unfolding cb_initialize_def
    by (auto simp: cb_ex_def cb_ex_contents_def cb_ex_bits_def map_below_1 LOG_SIZE_def [symmetric] cb_ex_stored_inv
        fun_eq_iff split: if_splits)
qed

abbreviation cb_ex_drop where
  "cb_ex_drop \<equiv> cb_ex_contents |` (- {- int LOG_SIZE ..< 1 - int LOG_SIZE})"

lemma log_entry_0: "log_entry_idx 0 bs = 0" "log_entry_alive_value 0 bs"
  by (simp_all add: log_entry_idx_def log_entry_alive_value_def)

lemma cb_ex_appending: "cb_reachable (cb_ex 1 cb_ex_drop cb_ex_bits (CBAppending 0 1))"
proof -
  have "cb_next (cb_ex 0 cb_ex_contents cb_ex_bits CBIdle) (cb_ex 0 cb_ex_contents cb_ex_bits (CBAdvancingTail 0))"
    by (rule cb_next_advance_tail_start [where n = 0]) (simp add: advance_tail_start_def cb_ex_def)
  from cb_reachable_step [OF cb_ex_init this] show ?thesis
    by (rule cb_reachable_step)
      (rule cb_next_advance_tail_finish [where n = 0 and t = 1],
        simp add: advance_tail_finish_def cb_ex_def withdrawn_range_def LOG_SIZE_def)
qed

lemma cb_ex_guarded:
  "cb_reachable (cb_ex 1 (cb_ex_drop(0 \<mapsto> cb_ex_stored 0)) (cb_ex_bits(0 \<mapsto> True)) (CBReading (RGuard 0 1 0 (cb_ex_stored 0))))"
proof -
  let ?s = "cb_ex 1 (cb_ex_drop(0 \<mapsto> cb_ex_stored 0)) (cb_ex_bits(0 \<mapsto> True))"
  have bit: "cb_ex_bits 0 = Some False" by (simp add: cb_ex_bits_def log_entry_0 LOG_SIZE_def)
  have inv: "stored_type_inv (cb_ex_stored 0) 0 ([0..<LOG_SIZE] ! 0) 0" using cb_ex_stored_inv [of 0] by (simp add: log_entry_0)
  have n: "cb_next (cb_ex 1 cb_ex_drop cb_ex_bits (CBAppending 0 1)) (?s (CBAppending 1 1))"
    by (rule cb_next_append_flip_bit [where n = 0 and st = "cb_ex_stored 0"])
      (simp add: append_flip_bit_def cb_ex_def log_entry_0 bit inv)
  note r = cb_reachable_step [OF cb_ex_appending n]
  have n: "cb_next (?s (CBAppending 1 1)) (?s CBIdle)"
    by (rule cb_next_append_finish [where n = 0]) (simp add: append_finish_def cb_ex_def)
  note r = cb_reachable_step [OF r n]
  have n: "cb_next (?s CBIdle) (?s (CBReading (RStarting 0)))"
    by (rule cb_next_reader_start [where n = 0]) (simp add: reader_start_def cb_ex_def)
  note r = cb_reachable_step [OF r n]
  have n: "cb_next (?s (CBReading (RStarting 0))) (?s (CBReading (RRange 0 1 0)))"
    by (rule cb_next_reader_enter [where n = 0]) (simp add: reader_enter_def cb_ex_def)
  note r = cb_reachable_step [OF r n]
  show ?thesis
    by (rule cb_reachable_step [OF r], rule cb_next_reader_guard [where n = 0])
      (simp add: reader_guard_def cb_ex_def log_entry_0)
qed

text \<open>A combiner that has written the first of two entries, which nobody has read.\<close>

abbreviation cb_ex_drop2 where
  "cb_ex_drop2 \<equiv> cb_ex_contents |` (- {- int LOG_SIZE ..< 2 - int LOG_SIZE})"

lemma cb_ex_half:
  "cb_reachable (cb_ex 2 (cb_ex_drop2(0 \<mapsto> cb_ex_stored 0)) (cb_ex_bits(0 \<mapsto> True)) (CBAppending 1 2))"
proof -
  have bit: "cb_ex_bits 0 = Some False" by (simp add: cb_ex_bits_def log_entry_0 LOG_SIZE_def)
  have inv: "stored_type_inv (cb_ex_stored 0) 0 ([0..<LOG_SIZE] ! 0) 0" using cb_ex_stored_inv [of 0] by (simp add: log_entry_0)
  have n: "cb_next (cb_ex 0 cb_ex_contents cb_ex_bits CBIdle) (cb_ex 0 cb_ex_contents cb_ex_bits (CBAdvancingTail 0))"
    by (rule cb_next_advance_tail_start [where n = 0]) (simp add: advance_tail_start_def cb_ex_def)
  note r = cb_reachable_step [OF cb_ex_init n]
  have n: "cb_next (cb_ex 0 cb_ex_contents cb_ex_bits (CBAdvancingTail 0)) (cb_ex 2 cb_ex_drop2 cb_ex_bits (CBAppending 0 2))"
    by (rule cb_next_advance_tail_finish [where n = 0 and t = 2])
      (simp add: advance_tail_finish_def cb_ex_def withdrawn_range_def LOG_SIZE_def)
  note r = cb_reachable_step [OF r n]
  show ?thesis
    by (rule cb_reachable_step [OF r], rule cb_next_append_flip_bit [where n = 0 and st = "cb_ex_stored 0"])
      (simp add: append_flip_bit_def cb_ex_def log_entry_0 bit inv)
qed

end
