(* ===== verification/NR_Properties.thy ===== *)
theory NR_Properties
  imports NR_Example
begin

text \<open>
  The properties of node replication: linearizability of the replicated data structure, the
  refinements it consists of, and the guarantees of the components below. Each is exercised on
  a run of \<open>NR_Example\<close>.
\<close>

text \<open>
  C14. Node replication is linearizable: whatever the replicas and their combiners do, the
  requests and responses the clients see are those of a data structure that executes every
  operation in one step between its request and its response.
\<close>

theorem node_replication_linearizable:
  assumes "ul_behavior D n ls s"
  shows "\<exists>ms t. as_behavior D ms t \<and> behavior_equiv (rev ls) (rev ms)"
  by (rule sl_linearizable [OF ulr.behavior_refines [OF assms]])

theorem node_replication_linearizable_witness:
  "\<exists>ms t. as_behavior counter_dispatch ms t \<and> behavior_equiv (rev ex_run) (rev ms)"
  by (rule node_replication_linearizable [OF ex_final_reachable])

text \<open>
  C15. Every behaviour of the replicas and their combiners is, through the interpretation of
  the source, a behaviour of the simple log with the same labels.
\<close>

theorem unbounded_log_refines_simple_log:
  assumes "ul_behavior D n ls s"
  shows "sl_behavior D n ls (ul_interp s)"
  by (rule ulr.behavior_refines [OF assms])

theorem unbounded_log_refines_simple_log_witness: "sl_behavior counter_dispatch 2 ex_run (ul_interp ex_final)"
  by (rule unbounded_log_refines_simple_log [OF ex_final_reachable])

text \<open>
  C28. Reachable states of the unbounded log satisfy the invariant of the source: the log has
  no holes, every combiner's queue matches the entries its node still has to apply, and
  recorded results are those of the log.
\<close>

theorem unbounded_log_invariant:
  assumes "ul_behavior D n ls s"
  shows "ul_invariant D s"
  by (rule ul_behavior_invariant [OF assms])

theorem unbounded_log_invariant_witness: "ul_invariant counter_dispatch ex_applied"
  by (rule unbounded_log_invariant [OF ex_applied_reachable])

text \<open>
  C26. Replicas never diverge: each replica is the result of applying a prefix of the one log,
  in order, to the initial state.
\<close>

theorem replica_is_prefix_of_log:
  assumes "ul_behavior D n ls s" and "i < ul_num_replicas s"
  shows "the (ul_replicas s i) =
    fold (\<lambda>w st. fst (dispatch_mut_spec D st w)) (take (current_local_version s i) (sl_log (ul_interp s))) (init_spec D)"
  by (rule replica_is_fold [OF ul_behavior_parts [OF assms(1)] assms(2)])

theorem replica_is_prefix_of_log_witness:
  "ex_counters = fold (\<lambda>w st. fst (counter_dispatch_mut_spec st w)) [IncTwo 3] counter_init_spec"
  using replica_is_prefix_of_log [OF ex_final_reachable, of 0]
  by (simp add: ex_final_def nr_state_def current_local_version_def interp_log_def ex_log_def counter_dispatch_def)

text \<open>
  A combiner that meets an entry of its own node in the log has a request waiting in its
  queue at the position it has reached, so the result it records goes to the right request.
\<close>

theorem combiner_answers_right_request:
  assumes "ul_behavior D n ls s" and "ul_combiner s k = Some (CLoop q l i t)"
    and "ul_log s l = Some e" "le_node_id e = k" "l < t"
  shows "i < length q \<and> (\<exists>op. ul_local_updates s (q ! i) = Some (UPlaced op l))"
  by (rule pre_exec_dispatch_local [OF ul_behavior_parts [OF assms(1)] assms(2-5)])

theorem combiner_answers_right_request_witness:
  "\<exists>op. ul_local_updates ex_loop ex_rid = Some (UPlaced op 0)"
  using combiner_answers_right_request [OF ex_loop_reachable, of 0 "[ex_rid]" 0 0 1]
  by (simp add: ex_loop_def nr_state_def ex_log_def)

text \<open>
  An entry of the cyclic buffer that a reader has under guard is in the buffer and is what
  the reader saw, whatever other nodes append and wherever the head and the tail move.
\<close>

theorem guarded_entry_is_stable:
  assumes "cb_reachable s" and "cb_combiner s n = Some (CBReading (RGuard start end cur val))"
  shows "cb_contents s (int cur) = Some val"
  by (rule guard_guards(1) [OF cb_reachable_ok [OF assms(1)] assms(2)])

theorem guarded_entry_is_stable_witness: "(cb_ex_drop(0 \<mapsto> cb_ex_stored 0)) 0 = Some (cb_ex_stored 0)"
  using guarded_entry_is_stable [OF cb_ex_guarded, of 0 0 1 0] by (simp add: cb_ex_def)

text \<open>
  C22. The cell a combiner is about to write is not the cell of any entry in the buffer that
  some replica has not read yet: appending never overwrites an unread entry.
\<close>

theorem append_never_overwrites_unread:
  assumes "cb_reachable s" and "cb_combiner s n = Some (CBAppending c t)" "c < t"
    and "m < cb_num_replicas s" "int (the (cb_local_versions s m)) \<le> i" "i < int (cb_tail s)" "i \<in> dom (cb_contents s)"
  shows "log_entry_idx i (cb_buffer_size s) \<noteq> log_entry_idx (int c) (cb_buffer_size s)"
  by (rule append_cell_free [OF cb_reachable_ok [OF assms(1)] assms(2-7)])

theorem append_never_overwrites_unread_witness: "log_entry_idx 0 LOG_SIZE \<noteq> log_entry_idx 1 LOG_SIZE"
  using append_never_overwrites_unread [OF cb_ex_half, of 0 1 2 0 0] by (simp add: cb_ex_def)

text \<open>
  C29. Reachable states of the cyclic buffer satisfy the invariant of the source.
\<close>

theorem cyclic_buffer_invariant:
  assumes "cb_reachable s"
  shows "cb_invariant s"
  using cb_reachable_ok [OF assms] cb_invariant_iff by blast

theorem cyclic_buffer_invariant_witness: "cb_invariant (cb_ex 1 cb_ex_drop cb_ex_bits (CBAppending 0 1))"
  by (rule cyclic_buffer_invariant [OF cb_ex_appending])

text \<open>
  A client of the flat combiner that waits finds in its slot its own request or the
  response to it.
\<close>

theorem client_receives_own_response:
  assumes "fc_reachable n s" and "fc_clients s tid = Some (CLWaiting rid)" "fc_slots s tid = Some x"
  shows "get_ReqId x = Some rid"
  by (rule pre_recv_response [OF fc_reachable_ok [OF assms(1)] assms(2,3)])

theorem client_receives_own_response_witness: "get_ReqId (SlotResponse 7) = Some 7"
  using client_receives_own_response [OF fc_ex_responded, of 0] by (simp add: fc_ex_def)

text \<open>
  A request in a slot of the flat combiner is answered by steps of the combiner alone,
  from whatever point of its walk the combiner is at.
\<close>

theorem combiner_answers_request:
  assumes "fc_reachable n s" and "fc_slots s tid = Some (SlotRequest rid)"
  shows "\<exists>s'. fc_steps s s' \<and> fc_slots s' tid = Some (SlotResponse rid)"
  by (rule request_is_answered [OF fc_reachable_ok [OF assms(1)] assms(2)])

theorem combiner_answers_request_witness:
  "\<exists>s'. fc_steps (fc_ex (CLWaiting 7) (SlotRequest 7) (FCCollecting [])) s' \<and> fc_slots s' 0 = Some (SlotResponse 7)"
  by (rule combiner_answers_request [OF fc_ex_waiting]) (simp add: fc_ex_def)

text \<open>
  A writer holds the lock alone: while it does, no reader holds a guard.
\<close>

theorem lock_excludes_readers:
  assumes "rw_reachable s" and "rw_exc_guard s \<noteq> None"
  shows "rw_shared_guard s = {#}"
  by (rule writer_excludes_readers [OF rw_reachable_invariant [OF assms(1)] assms(2)])

theorem lock_excludes_readers_witness: "rw_shared_guard (rw_ex None True 0 None (Some ()) {#} {#}) = {#}"
  using lock_excludes_readers [OF rw_ex_writer] by (simp add: rw_ex_def)

end
