(* ===== verification/NR_Exec_Example.thy ===== *)
theory NR_Exec_Example
  imports NR_Exec_Guarantees NR_Counter
begin

text \<open>
  A run of the library from beginning to end, with one replica of the counters: thread 63
  registers and increments a counter, which makes it the combiner of the replica. It collects
  its own request from the contexts, takes the data, appends the request to the log, executes
  the log, delivers the response and returns.
\<close>

section \<open>Runs and states\<close>

definition ex_runs where
  "ex_runs vis nr \<longleftrightarrow> (\<exists>ls. program_behavior counter_dispatch 1 ls nr \<and> visible ls = vis)"

definition ex_nr where
  "ex_nr l rp = \<lparr>nr_log = l, nr_replicas = [rp]\<rparr>"

definition ex_idle :: "(CounterRead, IncTwo, 64 word list, OpResult) Thread" where
  "ex_idle = \<lparr>th_pc = TIdle, th_lock = LIdle, th_rid = 0\<rparr>"

definition ex_rp where
  "ex_rp comb cx ops data p th =
     \<lparr>rp_combiner = comb, rp_contexts = (replicate MAX_THREADS_PER_REPLICA context_new)[63 := cx], rp_num_ops = ops,
      rp_data = data, rp_node = p, rp_tokens = [0..<63], rp_threads = (replicate MAX_THREADS_PER_REPLICA ex_idle)[63 := th]\<rparr>"

definition ex_data :: "64 word list option \<Rightarrow> bool \<Rightarrow> 64 word list RwLock" where
  "ex_data d locked =
     \<lparr>rl_data = d, rl_exc_locked = locked, rl_ref_counts = replicate MAX_THREADS_PER_REPLICA 0, rl_user_inv = UNIV\<rparr>"

definition exec_rid :: ReqId where
  "exec_rid = get_fresh_nat {} Map.empty"

definition ex_th where
  "ex_th pc lpc = \<lparr>th_pc = pc, th_lock = lpc, th_rid = exec_rid\<rparr>"

definition ex_node where
  "ex_node pc ops rids resps d = \<lparr>np_pc = pc, np_ops = ops, np_rids = rids, np_responses = resps, np_data = d\<rparr>"

definition ex_nrlog where
  "ex_nrlog e v t lv =
     \<lparr>nl_slog = (replicate LOG_SIZE \<lparr>be_log_entry = None, be_alive = False\<rparr>)[0 := e], nl_version_upper_bound = v,
      nl_head = 0, nl_tail = t, nl_local_versions = [lv]\<rparr>"

definition ex_empty_entry :: "IncTwo BufferEntry" where
  "ex_empty_entry = \<lparr>be_log_entry = None, be_alive = False\<rparr>"

definition ex_log0 where "ex_log0 = ex_nrlog ex_empty_entry 0 0 0"

definition ex_cx where
  "ex_cx b a u = \<lparr>cx_batch = b, cx_atomic = a, cx_update = u\<rparr>"

lemma ex_max [simp]: "63 < MAX_THREADS_PER_REPLICA" "idx < MAX_THREADS_PER_REPLICA \<longleftrightarrow> idx < 64"
  by (simp_all add: MAX_THREADS_PER_REPLICA_def)

lemma ex_rp_simps [simp]:
  "rp_combiner (ex_rp comb cx ops data p th) = comb" "rp_num_ops (ex_rp comb cx ops data p th) = ops"
  "rp_data (ex_rp comb cx ops data p th) = data" "rp_node (ex_rp comb cx ops data p th) = p"
  "rp_tokens (ex_rp comb cx ops data p th) = [0..<63]"
  "length (rp_threads (ex_rp comb cx ops data p th)) = MAX_THREADS_PER_REPLICA"
  "length (rp_contexts (ex_rp comb cx ops data p th)) = MAX_THREADS_PER_REPLICA"
  "rp_threads (ex_rp comb cx ops data p th) ! 63 = th" "rp_contexts (ex_rp comb cx ops data p th) ! 63 = cx"
  "i < 63 \<Longrightarrow> rp_contexts (ex_rp comb cx ops data p th) ! i = context_new"
  "i < 63 \<Longrightarrow> rp_threads (ex_rp comb cx ops data p th) ! i = ex_idle"
  by (simp_all add: ex_rp_def)

lemma ex_rp_updates [simp]:
  "(ex_rp comb cx ops data p th)\<lparr>rp_combiner := comb'\<rparr> = ex_rp comb' cx ops data p th"
  "(ex_rp comb cx ops data p th)\<lparr>rp_num_ops := ops'\<rparr> = ex_rp comb cx ops' data p th"
  "(ex_rp comb cx ops data p th)\<lparr>rp_data := data'\<rparr> = ex_rp comb cx ops data' p th"
  "(ex_rp comb cx ops data p th)\<lparr>rp_node := p'\<rparr> = ex_rp comb cx ops data p' th"
  "(ex_rp comb cx ops data p th)\<lparr>rp_threads := (rp_threads (ex_rp comb' cx' ops' data' p' th'))[63 := th1]\<rparr> =
     ex_rp comb cx ops data p th1"
  "(ex_rp comb cx ops data p th)\<lparr>rp_contexts := (rp_contexts (ex_rp comb' cx' ops' data' p' th'))[63 := cx1]\<rparr> =
     ex_rp comb cx1 ops data p th"
  by (simp_all add: ex_rp_def)

lemma ex_th_simps [simp]:
  "th_pc (ex_th pc lpc) = pc" "th_lock (ex_th pc lpc) = lpc" "th_rid (ex_th pc lpc) = exec_rid"
  "(ex_th pc lpc)\<lparr>th_pc := pc'\<rparr> = ex_th pc' lpc" "(ex_th pc lpc)\<lparr>th_lock := lpc'\<rparr> = ex_th pc lpc'"
  by (simp_all add: ex_th_def)

lemma ex_node_simps [simp]:
  "np_pc (ex_node pc ops rids resps d) = pc" "np_ops (ex_node pc ops rids resps d) = ops"
  "np_rids (ex_node pc ops rids resps d) = rids" "np_responses (ex_node pc ops rids resps d) = resps"
  "np_data (ex_node pc ops rids resps d) = d"
  "(ex_node pc ops rids resps d)\<lparr>np_pc := pc'\<rparr> = ex_node pc' ops rids resps d"
  "(ex_node pc ops rids resps d)\<lparr>np_ops := ops'\<rparr> = ex_node pc ops' rids resps d"
  "(ex_node pc ops rids resps d)\<lparr>np_rids := rids'\<rparr> = ex_node pc ops rids' resps d"
  "(ex_node pc ops rids resps d)\<lparr>np_responses := resps'\<rparr> = ex_node pc ops rids resps' d"
  "(ex_node pc ops rids resps d)\<lparr>np_data := d'\<rparr> = ex_node pc ops rids resps d'"
  by (simp_all add: ex_node_def)

lemma ex_nrlog_simps [simp]:
  "nl_tail (ex_nrlog e v t lv) = t" "nl_head (ex_nrlog e v t lv) = 0" "nl_version_upper_bound (ex_nrlog e v t lv) = v"
  "nl_local_versions (ex_nrlog e v t lv) = [lv]" "length (nl_slog (ex_nrlog e v t lv)) = LOG_SIZE"
  "nl_slog (ex_nrlog e v t lv) ! 0 = e"
  "(ex_nrlog e v t lv)\<lparr>nl_tail := t'\<rparr> = ex_nrlog e v t' lv"
  "(ex_nrlog e v t lv)\<lparr>nl_version_upper_bound := v'\<rparr> = ex_nrlog e v' t lv"
  "(ex_nrlog e v t lv)\<lparr>nl_local_versions := [lv']\<rparr> = ex_nrlog e v t lv'"
  "(ex_nrlog e v t lv)\<lparr>nl_slog := (nl_slog (ex_nrlog e v t lv))[0 := e']\<rparr> = ex_nrlog e' v t lv"
  by (simp_all add: ex_nrlog_def)

lemma ex_cx_simps [simp]:
  "cx_batch (ex_cx b a u) = b" "cx_atomic (ex_cx b a u) = a" "cx_update (ex_cx b a u) = u"
  "(ex_cx b a u)\<lparr>cx_batch := b'\<rparr> = ex_cx b' a u" "(ex_cx b a u)\<lparr>cx_atomic := a'\<rparr> = ex_cx b a' u"
  "(ex_cx b a u)\<lparr>cx_update := u'\<rparr> = ex_cx b a u'"
  "cx_atomic context_new = 0"
  by (simp_all add: ex_cx_def context_new_def)

lemma ex_nr_simps [simp]: "nr_log (ex_nr l rp) = l" "nr_replicas (ex_nr l rp) = [rp]"
  by (simp_all add: ex_nr_def)

lemma ex_program_step:
  assumes "63 < length (rp_threads rp)" and "thread_step counter_dispatch 0 63 True l rp = Some (l', rp')"
  shows "program_step counter_dispatch (ex_nr l rp) Internal (ex_nr l' rp')"
proof -
  have "program_step counter_dispatch (ex_nr l rp) Internal ((set_replica (ex_nr l rp) 0 rp')\<lparr>nr_log := l'\<rparr>)"
    by (rule program_thread) (use assms in simp_all)
  then show ?thesis by (simp add: ex_nr_def)
qed

lemma ex_runs_step:
  assumes "ex_runs vis nr" and "program_step counter_dispatch nr Internal nr'"
  shows "ex_runs vis nr'"
proof -
  obtain ls where ls: "program_behavior counter_dispatch 1 ls nr" "visible ls = vis" using assms(1) by (auto simp: ex_runs_def)
  from program_behavior_step [OF ls(1) assms(2)] show ?thesis
    using ls(2) by (auto simp: ex_runs_def intro!: exI [of _ "ls @ [Internal]"])
qed

lemmas ex_thread_step = ex_runs_step [OF _ ex_program_step]

section \<open>Registering and calling\<close>

lemma ex_new: "ex_runs [] (node_replicated_new counter_dispatch 1)"
  unfolding ex_runs_def by (intro exI [of _ "[]"]) (simp add: program_behavior_new MAX_REPLICAS_def)

definition ex_ready where
  "ex_ready = ex_nr ex_log0 (ex_rp 0 (ex_cx None 0 None) [] (ex_data (Some counter_init_spec) False)
     (ex_node NIdle [] [] [] counter_init_spec) ex_idle)"

lemma replicate_same: "(replicate n x)[i := x] = replicate n x"
  by (cases "i < n") (simp_all add: list_update_same_conv list_update_beyond)

lemma ex_registered: "node_replicated_register 0 (node_replicated_new counter_dispatch 1) = (Some 63, ex_ready)"
proof -
  have upt: "[0..<MAX_THREADS_PER_REPLICA] = [0..<63] @ [63]"
    using upt_Suc_append [of 0 63] by (simp add: MAX_THREADS_PER_REPLICA_def)
  have cx: "ex_cx None 0 None = context_new" by (simp add: ex_cx_def context_new_def)
  show ?thesis
    by (simp add: node_replicated_register_def node_replicated_new_def replica_new_def replica_register_def upt ex_ready_def
        ex_nr_def ex_log0_def ex_nrlog_def ex_empty_entry_def nrlog_new_def ex_rp_def ex_data_def ex_node_def ex_idle_def
        rwlock_new_def node_new_def counter_dispatch_def replicate_same cx Let_def)
qed

lemma ex_ready_reached: "ex_runs [] ex_ready"
proof -
  obtain ls where ls: "program_behavior counter_dispatch 1 ls (node_replicated_new counter_dispatch 1)" "visible ls = []"
    using ex_new by (auto simp: ex_runs_def)
  from program_behavior_step [OF ls(1) program_register [OF ex_registered]] ls(2) show ?thesis
    by (auto simp: ex_runs_def intro!: exI [of _ "ls @ [Internal]"])
qed

definition ex_at where
  "ex_at cx pc = ex_nr ex_log0 (ex_rp 0 cx [] (ex_data (Some counter_init_spec) False)
     (ex_node NIdle [] [] [] counter_init_spec) (ex_th pc LIdle))"

definition ex_call where
  "ex_call = ex_at (ex_cx None 0 None) (TPut (IncTwo 3))"

definition ex_vis1 where
  "ex_vis1 = [LStart exec_rid (InWrite (IncTwo 3))]"

lemma ex_idle_threads: "th_pc (rp_threads (ex_rp comb cx ops data p ex_idle) ! i) = TIdle" if "i < MAX_THREADS_PER_REPLICA"
  using that by (cases "i = 63") (simp_all add: ex_rp_def, simp_all add: ex_idle_def)

lemma ex_call_reached: "ex_runs ex_vis1 ex_call"
proof -
  obtain ls where ls: "program_behavior counter_dispatch 1 ls ex_ready" "visible ls = []"
    using ex_ready_reached by (auto simp: ex_runs_def)
  have "rids_in_flight ex_ready = {}"
    using ex_idle_threads by (auto simp: rids_in_flight_def in_flight_def ex_ready_def)
  then have rid: "exec_rid = get_fresh_nat (rids_in_flight ex_ready) Map.empty" by (simp add: exec_rid_def)
  have may: "may_call ex_ready 0 63" by (simp add: may_call_def ex_ready_def ex_idle_def)
  have "execute_mut_call exec_rid (IncTwo 3) 0 63 ex_ready = Some ex_call"
    by (simp add: execute_mut_call_def start_call_def ex_ready_def ex_call_def ex_at_def ex_idle_def ex_th_def ex_nr_def)
  from program_behavior_step [OF ls(1) program_execute_mut [OF may rid this]] ls(2) show ?thesis
    by (auto simp: ex_runs_def ex_vis1_def intro!: exI [of _ "ls @ [_]"])
qed

definition ex_full where
  "ex_full = ex_cx (Some (pending_operation_new (IncTwo 3))) 1 (Some exec_rid)"

definition ex_combiner where
  "ex_combiner cx ops p pc = ex_nr ex_log0 (ex_rp 2 cx ops (ex_data (Some counter_init_spec) False) p (ex_th pc LIdle))"

lemma ex_pending_reached: "ex_runs ex_vis1 (ex_at ex_full (TTryLoad TryUpdate))"
proof -
  let ?cx = "ex_cx (Some (pending_operation_new (IncTwo 3))) 0 None"
  have "ex_runs ex_vis1 (ex_at ?cx TStore)"
    unfolding ex_at_def
    by (rule ex_thread_step [OF ex_call_reached [unfolded ex_call_def ex_at_def]])
      (simp_all add: thread_step_def make_pending_step_def nth_opt_def enqueue_op_put_def)
  then show ?thesis
    unfolding ex_at_def
    by (rule ex_thread_step)
      (simp_all add: thread_step_def make_pending_step_def nth_opt_def enqueue_op_store_def ex_full_def)
qed

lemma ex_collecting: "ex_runs ex_vis1 (ex_combiner ex_full [] (ex_node NCollect [] [] [] counter_init_spec) (TCollect TryUpdate 0))"
proof -
  have "ex_runs ex_vis1 (ex_at ex_full (TTryCas TryUpdate))"
    unfolding ex_at_def
    by (rule ex_thread_step [OF ex_pending_reached [unfolded ex_at_def]]) (simp_all add: thread_step_def acquire_combiner_lock_step_def)
  then show ?thesis
    unfolding ex_at_def ex_combiner_def
    by (rule ex_thread_step) (simp_all add: thread_step_def acquire_combiner_lock_step_def combine_begin_def)
qed

section \<open>Collecting, and taking the data\<close>

lemma ex_collect_loop:
  "idx \<le> 63 \<Longrightarrow>
   ex_runs ex_vis1 (ex_combiner ex_full (replicate idx 0) (ex_node NCollect [] [] [] counter_init_spec) (TCollect TryUpdate idx))"
proof (induction idx)
  case 0
  then show ?case using ex_collecting by simp
next
  case (Suc idx)
  then have "ex_runs ex_vis1 (ex_combiner ex_full (replicate idx 0) (ex_node NCollect [] [] [] counter_init_spec) (TCollect TryUpdate idx))"
    by simp
  then show ?case
    unfolding ex_combiner_def
    by (rule ex_thread_step) (use Suc.prems in \<open>simp_all add: thread_step_def collect_thread_ops_step_def nth_opt_def replicate_append_same\<close>)
qed

definition ex_ops :: "64 word list" where
  "ex_ops = replicate 63 0 @ [1]"

definition ex_taken where
  "ex_taken = ex_cx (Some (pending_operation_new (IncTwo 3))) 1 None"

lemma ex_collected:
  "ex_runs ex_vis1 (ex_combiner ex_taken ex_ops (ex_node NCollect [IncTwo 3] [exec_rid] [] counter_init_spec) (TCollect TryUpdate 64))"
proof -
  have "ex_runs ex_vis1 (ex_combiner ex_full (replicate 63 0) (ex_node NCollect [] [] [] counter_init_spec) (TCollectOp TryUpdate 63))"
    unfolding ex_combiner_def
    by (rule ex_thread_step [OF ex_collect_loop [of 63, unfolded ex_combiner_def]])
      (simp_all add: thread_step_def collect_thread_ops_step_def nth_opt_def ex_full_def)
  then show ?thesis
    unfolding ex_combiner_def
    by (rule ex_thread_step)
      (simp_all add: thread_step_def collect_thread_ops_step_def nth_opt_def ex_full_def ex_taken_def ex_ops_def combine_collect_def
        MAX_REQUESTS_def MAX_THREADS_PER_REPLICA_def MAX_PENDING_OPS_def pending_operation_new_def)
qed

definition ex_locked where
  "ex_locked d l p pc lpc = ex_nr l (ex_rp 2 ex_taken ex_ops (ex_data d True) p (ex_th pc lpc))"

lemma ex_lock_loop:
  "idx \<le> 64 \<Longrightarrow>
   ex_runs ex_vis1 (ex_locked (Some counter_init_spec) ex_log0 (ex_node NCollect [IncTwo 3] [exec_rid] [] counter_init_spec)
     (TAcquireWrite TryUpdate) (WWait idx))"
proof (induction idx)
  case 0
  have "ex_runs ex_vis1 (ex_nr ex_log0 (ex_rp 2 ex_taken ex_ops (ex_data (Some counter_init_spec) False)
      (ex_node NCollect [IncTwo 3] [exec_rid] [] counter_init_spec) (ex_th (TAcquireWrite TryUpdate) WAcquire)))"
    by (rule ex_thread_step [OF ex_collected [unfolded ex_combiner_def]]) (simp_all add: thread_step_def collect_thread_ops_step_def)
  then show ?case
    unfolding ex_locked_def by (rule ex_thread_step) (simp_all add: thread_step_def combine_step_def acquire_write_step_def ex_data_def)
next
  case (Suc idx)
  then have "ex_runs ex_vis1 (ex_locked (Some counter_init_spec) ex_log0 (ex_node NCollect [IncTwo 3] [exec_rid] [] counter_init_spec)
      (TAcquireWrite TryUpdate) (WWait idx))" by simp
  then show ?case
    unfolding ex_locked_def
    by (rule ex_thread_step) (use Suc.prems in \<open>simp_all add: thread_step_def combine_step_def acquire_write_step_def ex_data_def\<close>)
qed

abbreviation ex_work where
  "ex_work l p \<equiv> ex_locked None l p (TCombine TryUpdate) (WHeld counter_init_spec)"

lemma ex_data_taken: "ex_runs ex_vis1 (ex_work ex_log0 (ex_node ALoadTail [IncTwo 3] [exec_rid] [] counter_init_spec))"
  unfolding ex_locked_def
  by (rule ex_thread_step [OF ex_lock_loop [of 64, unfolded ex_locked_def]])
    (simp_all add: thread_step_def combine_step_def acquire_write_step_def ex_data_def combine_lock_def MAX_THREADS_PER_REPLICA_def)

section \<open>Appending and executing\<close>

lemma ex_work_step:
  assumes "np_pc p \<noteq> NRelease" and "node_step counter_dispatch 0 True l p = Some (l', p')"
  shows "program_step counter_dispatch (ex_work l p) Internal (ex_work l' p')"
  unfolding ex_locked_def by (rule ex_program_step) (use assms in \<open>simp_all add: thread_step_def combine_step_def\<close>)

lemmas ex_node_step = ex_runs_step [OF _ ex_work_step]

definition ex_counters3 :: "64 word list" where
  "ex_counters3 = [0, 0, 0, 2, 0, 0, 0, 0, 0, 0]"

definition ex_appended_entry :: "bool \<Rightarrow> IncTwo BufferEntry" where
  "ex_appended_entry alive = \<lparr>be_log_entry = Some (entry_of (IncTwo 3) 0), be_alive = alive\<rparr>"

lemma ex_gc: "gc_threshold (ex_nrlog e v t lv) = of_nat LOG_SIZE - of_nat GC_FROM_HEAD"
  by (simp add: gc_threshold_def)

lemma ex_limit: "u64_add 0 (gc_threshold (ex_nrlog e v t lv)) = Some (gc_threshold (ex_nrlog e v t lv))"
    "\<not> gc_threshold (ex_nrlog e v t lv) < 0" "gc_threshold (ex_nrlog e v t lv) \<noteq> 0" "\<not> MAX_IDX \<le> 1"
  using unsigned_less [of "gc_threshold (ex_nrlog e v t lv)", where 'a = nat]
  by (simp_all add: u64_add_def) (simp_all add: ex_gc MAX_IDX_def LOG_SIZE_def GC_FROM_HEAD_def MAX_PENDING_OPS_def
      MAX_THREADS_PER_REPLICA_def word_le_nat_alt)

lemma ex_add: "u64_add 0 0 = Some 0" "u64_add 0 1 = Some 1"
  by (simp_all add: u64_add_def)

lemmas ex_node_defs = node_step_def append_step_def execute_step_def append_loop_def execute_loop_def execute_return_def
  log_index_def nth_opt_def ex_limit ex_add is_alive_value_def

text \<open>The combiner before and after the request is applied, and the entry that is appended last.\<close>

abbreviation ex_todo where
  "ex_todo pc \<equiv> ex_node pc [IncTwo 3] [exec_rid] [] counter_init_spec"

abbreviation ex_applied where
  "ex_applied pc \<equiv> ex_node pc [IncTwo 3] [exec_rid] [OpOk] ex_counters3"

abbreviation ex_full_log where
  "ex_full_log v lv \<equiv> ex_nrlog (ex_appended_entry True) v 1 lv"

lemma ex_written: "ex_runs ex_vis1 (ex_work (ex_nrlog (ex_appended_entry False) 0 1 0) (ex_todo (AFlip 0 0 False)))"
proof -
  have "ex_runs ex_vis1 (ex_work ex_log0 (ex_todo (ALoadHead 0)))"
    by (rule ex_node_step [OF ex_data_taken]) (simp_all add: ex_node_defs ex_log0_def)
  then have "ex_runs ex_vis1 (ex_work ex_log0 (ex_todo (ACas 0 1 False)))"
    by (rule ex_node_step) (simp_all add: ex_node_defs ex_log0_def)
  then have "ex_runs ex_vis1 (ex_work (ex_nrlog ex_empty_entry 0 1 0) (ex_todo (AWrite 0 0 False)))"
    by (rule ex_node_step) (simp_all add: ex_node_defs ex_log0_def)
  then show ?thesis
    by (rule ex_node_step) (simp_all add: ex_node_defs ex_appended_entry_def ex_empty_entry_def)
qed

lemma ex_append_ends: "program_step counter_dispatch (ex_work (ex_nrlog (ex_appended_entry False) 0 1 0) (ex_todo (AFlip 0 0 False)))
    Internal (ex_work (ex_full_log 0 0) (ex_todo (ELoadLocal FromCombine)))"
  by (rule ex_work_step) (simp_all add: ex_node_defs ex_appended_entry_def)

text \<open>The steps of \<^verbatim>\<open>execute\<close>.\<close>

lemma ex_execute_steps:
  "node_step counter_dispatch 0 True (ex_full_log 0 0) (ex_todo (ELoadLocal FromCombine)) =
     Some (ex_full_log 0 0, ex_todo (ELoadTail FromCombine 0))"
  "node_step counter_dispatch 0 True (ex_full_log 0 0) (ex_todo (ELoadTail FromCombine 0)) =
     Some (ex_full_log 0 0, ex_todo (EAlive FromCombine 0 1))"
  "node_step counter_dispatch 0 True (ex_full_log 0 0) (ex_todo (EAlive FromCombine 0 1)) =
     Some (ex_full_log 0 0, ex_todo (ERead FromCombine 0 1))"
  "node_step counter_dispatch 0 True (ex_full_log 0 0) (ex_todo (ERead FromCombine 0 1)) =
     Some (ex_full_log 0 0, ex_applied (EPublish FromCombine 1))"
  "node_step counter_dispatch 0 True (ex_full_log 0 0) (ex_applied (EPublish FromCombine 1)) =
     Some (ex_full_log 1 0, ex_applied (EStore FromCombine 1))"
  "node_step counter_dispatch 0 True (ex_full_log 1 0) (ex_applied (EStore FromCombine 1)) =
     Some (ex_full_log 1 1, ex_applied NRelease)"
  by (simp_all add: ex_node_defs ex_appended_entry_def entry_of_def counter_dispatch_def counter_dispatch_mut_spec_def
      counter_init_spec_def ex_counters3_def)

lemma ex_executed: "ex_runs ex_vis1 (ex_work (ex_full_log 1 1) (ex_applied NRelease))"
proof -
  note step = ex_execute_steps [THEN ex_node_step [rotated 2]]
  have "ex_runs ex_vis1 (ex_work (ex_full_log 0 0) (ex_todo (ELoadLocal FromCombine)))"
    by (rule ex_runs_step [OF ex_written ex_append_ends])
  then have "ex_runs ex_vis1 (ex_work (ex_full_log 0 0) (ex_todo (ERead FromCombine 0 1)))"
    by (intro step(1-3)) simp_all
  then show ?thesis by (intro step(4-6)) simp_all
qed

section \<open>Delivering the response\<close>

definition ex_log1 where "ex_log1 = ex_nrlog (ex_appended_entry True) 1 1 1"

definition ex_after where
  "ex_after comb cx ops p pc = ex_nr ex_log1 (ex_rp comb cx ops (ex_data (Some ex_counters3) False) p (ex_th pc LIdle))"

abbreviation ex_respond where
  "ex_respond i \<equiv> ex_applied (NRespond i)"

lemma ex_released: "ex_runs ex_vis1 (ex_after 2 ex_taken ex_ops (ex_respond 0) (TDistribute TryUpdate 0))"
proof -
  let ?p = "ex_applied NRelease"
  have "ex_runs ex_vis1 (ex_locked None ex_log1 ?p (TReleaseWrite TryUpdate) (WPut ex_counters3))"
    unfolding ex_locked_def
    by (rule ex_thread_step [OF ex_executed [unfolded ex_locked_def]]) (simp_all add: thread_step_def combine_step_def ex_log1_def)
  then have "ex_runs ex_vis1 (ex_locked (Some ex_counters3) ex_log1 ?p (TReleaseWrite TryUpdate) WUnlock)"
    unfolding ex_locked_def
    by (rule ex_thread_step) (simp_all add: thread_step_def combine_step_def release_write_step_def, simp_all add: ex_data_def)
  then show ?thesis
    unfolding ex_locked_def ex_after_def
    by (rule ex_thread_step)
      (simp_all add: thread_step_def combine_step_def release_write_step_def combine_unlock_def, simp_all add: ex_data_def)
qed

lemma ex_ops_nth: "length ex_ops = 64" "idx < 63 \<Longrightarrow> ex_ops ! idx = 0" "ex_ops ! 63 = 1"
  by (simp_all add: ex_ops_def nth_append)

lemma ex_distribute_loop: "idx \<le> 63 \<Longrightarrow> ex_runs ex_vis1 (ex_after 2 ex_taken ex_ops (ex_respond 0) (TDistribute TryUpdate idx))"
proof (induction idx)
  case (Suc idx)
  then have "ex_runs ex_vis1 (ex_after 2 ex_taken ex_ops (ex_respond 0) (TDistribute TryUpdate idx))" by simp
  then show ?case
    unfolding ex_after_def
    by (rule ex_thread_step) (use Suc.prems in \<open>simp_all add: thread_step_def distribute_thread_resps_step_def nth_opt_def ex_ops_nth\<close>)
qed (use ex_released in simp)

definition ex_answered where
  "ex_answered a u = ex_cx (Some \<lparr>po_op = IncTwo 3, po_resp = Some OpOk\<rparr>) a u"

lemma ex_delivered: "ex_runs ex_vis1 (ex_after 2 (ex_answered 0 (Some exec_rid)) ex_ops (ex_respond 1) (TDistribute TryUpdate 64))"
proof -
  have "ex_runs ex_vis1 (ex_after 2 (ex_answered 1 None) ex_ops (ex_respond 0) (TRespond TryUpdate 63))"
    unfolding ex_after_def
    by (rule ex_thread_step [OF ex_distribute_loop [of 63, unfolded ex_after_def]])
      (simp_all add: thread_step_def distribute_thread_resps_step_def nth_opt_def ex_ops_nth combine_respond_def ex_taken_def
        ex_answered_def pending_operation_new_def)
  then show ?thesis
    unfolding ex_after_def
    by (rule ex_thread_step)
      (simp_all add: thread_step_def distribute_thread_resps_step_def nth_opt_def combine_respond_def ex_answered_def)
qed

abbreviation ex_client where
  "ex_client cx pc \<equiv> ex_after 0 cx [] (ex_node NIdle [] [] [] ex_counters3) pc"

lemma ex_returning: "ex_runs ex_vis1 (ex_client (ex_cx None 0 None) (TReturnMut OpOk))"
proof -
  have "ex_runs ex_vis1 (ex_after 2 (ex_answered 0 (Some exec_rid)) [] (ex_node NIdle [] [] [] ex_counters3) (TUnlock TryUpdate))"
    unfolding ex_after_def
    by (rule ex_thread_step [OF ex_delivered [unfolded ex_after_def]])
      (simp_all add: thread_step_def distribute_thread_resps_step_def combine_end_def)
  then have "ex_runs ex_vis1 (ex_client (ex_answered 0 (Some exec_rid)) (TDequeue 0))"
    unfolding ex_after_def
    by (rule ex_thread_step) (simp_all add: thread_step_def release_combiner_lock_step_def try_return_def)
  then have "ex_runs ex_vis1 (ex_client (ex_answered 0 None) TTake)"
    unfolding ex_after_def
    by (rule ex_thread_step)
      (simp_all add: thread_step_def get_response_step_def nth_opt_def dequeue_response_load_def RESPONSE_CHECK_INTERVAL_def
        ex_answered_def)
  then show ?thesis
    unfolding ex_after_def
    by (rule ex_thread_step)
      (simp_all add: thread_step_def get_response_step_def nth_opt_def dequeue_response_take_def ex_answered_def)
qed

definition ex_vis2 where
  "ex_vis2 = [LStart exec_rid (InWrite (IncTwo 3)), LEnd exec_rid (OutWrite OpOk)]"

lemma ex_returned: "ex_runs ex_vis2 (ex_client (ex_cx None 0 None) TIdle)"
proof -
  obtain ls where ls: "program_behavior counter_dispatch 1 ls (ex_client (ex_cx None 0 None) (TReturnMut OpOk))" "visible ls = ex_vis1"
    using ex_returning by (auto simp: ex_runs_def)
  have "program_step counter_dispatch (ex_client (ex_cx None 0 None) (TReturnMut OpOk)) (LEnd exec_rid (OutWrite OpOk))
      (ex_client (ex_cx None 0 None) TIdle)"
    using program_return_mut [of 0 "ex_client (ex_cx None 0 None) (TReturnMut OpOk)" 63 OpOk counter_dispatch]
    by (simp add: ex_after_def) (simp add: ex_nr_def)
  from program_behavior_step [OF ls(1) this] ls(2) show ?thesis
    by (auto simp: ex_runs_def ex_vis1_def ex_vis2_def intro!: exI [of _ "ls @ [_]"])
qed

end
