(* ===== verification/NR_Exec_Properties.thy ===== *)
theory NR_Exec_Properties
  imports NR_Exec_Example
begin

text \<open>
  The properties of the executable code of node replication. Each is exercised on the run of
  \<open>NR_Exec_Example\<close>, an increment from its call to its return.
\<close>

text \<open>
  C7. The library is linearizable: in every run of its threads, replicas and log, interleaved
  at every access to shared memory, the calls and returns the clients see are those of a data
  structure that executes every operation in one step between its call and its return.
\<close>

theorem library_code_linearizable:
  assumes "program_behavior D N ls nr"
  shows "\<exists>ms t. as_behavior D ms t \<and> behavior_equiv (rev ls) (rev ms)"
  by (rule program_run_linearizable [OF assms])

theorem library_code_linearizable_witness:
  "\<exists>ls ms t. visible ls = ex_vis2 \<and> as_behavior counter_dispatch ms t \<and> behavior_equiv (rev ls) (rev ms)"
proof -
  obtain ls nr where ls: "program_behavior counter_dispatch 1 ls nr" "visible ls = ex_vis2"
    using ex_returned by (auto simp: ex_runs_def)
  from library_code_linearizable [OF ls(1)] ls(2) show ?thesis by blast
qed

text \<open>
  C16. Every run of the code is a run of the unbounded log machine with the same calls and
  returns, in which the shared tail and the data of every replica are those of the machine.
\<close>

theorem library_code_refines_log:
  assumes "program_behavior D N ls nr"
  shows "\<exists>ks g. ul_behavior D N ks g \<and> visible ks = visible ls \<and> unat (nl_tail (nr_log nr)) = ul_tail g \<and>
    map (\<lambda>rp. Some (np_data (rp_node rp))) (nr_replicas nr) = map (ul_replicas g) [0..<length (nr_replicas nr)]"
  by (rule program_refines_log [OF assms])

theorem library_code_refines_log_witness:
  "\<exists>ks g. ul_behavior counter_dispatch 1 ks g \<and> visible ks = ex_vis2 \<and> ul_tail g = 1 \<and> ul_replicas g 0 = Some ex_counters3"
proof -
  obtain ls where ls: "program_behavior counter_dispatch 1 ls (ex_client (ex_cx None 0 None) TIdle)" "visible ls = ex_vis2"
    using ex_returned by (auto simp: ex_runs_def)
  obtain ks g where g: "ul_behavior counter_dispatch 1 ks g" "visible ks = visible ls"
      "unat (nl_tail (ex_nrlog (ex_appended_entry True) 1 1 1)) = ul_tail g" "[Some ex_counters3] = [ul_replicas g 0]"
    using library_code_refines_log [OF ls(1)] by (auto simp: ex_after_def ex_log1_def)
  then show ?thesis using ls(2) by (intro exI [of _ ks] exI [of _ g]) simp
qed

text \<open>
  C8. No thread panics or gets stuck: wherever it is inside of a call, its next step is
  defined, so no checked addition overflows, no index is out of bounds, no cell is found empty
  or full, and no count of the lock overflows. The exception is the panic of \<open>append\<close> for a
  log that has used up its indices.
\<close>

theorem library_code_never_panics:
  assumes "program_behavior D N ls nr" and "n < length (nr_replicas nr)" and "t < length (rp_threads (nr_replicas nr ! n))"
    and "pc_running (th_pc (rp_threads (nr_replicas nr ! n) ! t))" and "np_pc (rp_node (nr_replicas nr ! n)) \<noteq> APanic"
  shows "\<exists>l rp. thread_step D n t weak (nr_log nr) (nr_replicas nr ! n) = Some (l, rp)"
  by (rule thread_not_stuck [OF assms])

theorem library_code_never_panics_witness:
  "\<exists>l rp. thread_step counter_dispatch 0 63 False (ex_nrlog (ex_appended_entry True) 1 1 1)
     (ex_rp 2 ex_taken ex_ops (ex_data (Some ex_counters3) False) (ex_respond 0) (ex_th (TDistribute TryUpdate 63) LIdle)) = Some (l, rp)"
proof -
  obtain ls where ls: "program_behavior counter_dispatch 1 ls (ex_after 2 ex_taken ex_ops (ex_respond 0) (TDistribute TryUpdate 63))"
    using ex_distribute_loop [of 63] by (auto simp: ex_runs_def)
  from library_code_never_panics [OF ls, of 0 63 False] show ?thesis by (simp add: ex_after_def ex_log1_def)
qed

text \<open>
  C23. While a thread works on the data of its replica, the data is out of the lock, and no
  other thread of the replica combines or holds the lock, for reading or for writing.
\<close>

theorem combiner_owns_data:
  assumes "program_behavior D N ls nr" and "n < length (nr_replicas nr)" and "t < length (rp_threads (nr_replicas nr ! n))"
    and "i < length (rp_threads (nr_replicas nr ! n))" and "i \<noteq> t" and "th_pc (rp_threads (nr_replicas nr ! n) ! t) = TCombine k"
  shows "rwlock_borrow (rp_data (nr_replicas nr ! n)) = None \<and> \<not> combining (th_pc (rp_threads (nr_replicas nr ! n) ! i)) \<and>
    guard_token (th_lock (rp_threads (nr_replicas nr ! n) ! i)) = {#} \<and>
    exc_guard_token (th_lock (rp_threads (nr_replicas nr ! n) ! i)) = {#}"
  using data_taken [OF assms] combiner_alone(1) [OF assms(1-5)] assms(6) by simp

theorem combiner_owns_data_witness:
  "rwlock_borrow (ex_data None True) = None \<and> \<not> combining (th_pc ex_idle) \<and> guard_token (th_lock ex_idle) = {#} \<and>
   exc_guard_token (th_lock ex_idle) = {#}"
proof -
  obtain ls where ls: "program_behavior counter_dispatch 1 ls
      (ex_work ex_log0 (ex_node ALoadTail [IncTwo 3] [exec_rid] [] counter_init_spec))"
    using ex_data_taken by (auto simp: ex_runs_def)
  from combiner_owns_data [OF ls, of 0 63 0 TryUpdate] show ?thesis by (simp add: ex_locked_def)
qed

text \<open>
  C24. The combiner delivers responses to their owners: the response it is about to write to
  context \<open>idx\<close> is that of the request of thread \<open>idx\<close>, and its position among the responses is
  the number of operations collected from the contexts before.
\<close>

theorem response_goes_to_owner:
  assumes "program_behavior D N ls nr" and "n < length (nr_replicas nr)" and "t < length (rp_threads (nr_replicas nr ! n))"
    and "th_pc (rp_threads (nr_replicas nr ! n) ! t) = TDistribute k idx" and "idx < MAX_THREADS_PER_REPLICA"
    and "rp_num_ops (nr_replicas nr ! n) ! idx \<noteq> 0"
  shows "np_pc (rp_node (nr_replicas nr ! n)) = NRespond (length (filter (\<lambda>w. w \<noteq> 0) (take idx (rp_num_ops (nr_replicas nr ! n))))) \<and>
    (\<exists>resp p. combine_respond (rp_node (nr_replicas nr ! n)) = Some (th_rid (rp_threads (nr_replicas nr ! n) ! idx), resp, p))"
  using response_to_owner [OF assms] by blast

theorem response_goes_to_owner_witness:
  "length (filter (\<lambda>w. w \<noteq> 0) (take 63 ex_ops)) = 0 \<and> (\<exists>resp p. combine_respond (ex_respond 0) = Some (exec_rid, resp, p))"
proof -
  obtain ls where ls: "program_behavior counter_dispatch 1 ls (ex_after 2 ex_taken ex_ops (ex_respond 0) (TDistribute TryUpdate 63))"
    using ex_distribute_loop [of 63] by (auto simp: ex_runs_def)
  from response_goes_to_owner [OF ls, of 0 63 TryUpdate 63] show ?thesis by (simp add: ex_after_def ex_ops_nth)
qed

text \<open>
  While the combiner collects, the identifiers of the operations it has taken match the
  contexts it has visited, and it remembers how many it took from each.
\<close>

theorem collected_requests_match:
  assumes "program_behavior D N ls nr" and "n < length (nr_replicas nr)" and "t < length (rp_threads (nr_replicas nr ! n))"
    and "th_pc (rp_threads (nr_replicas nr ! n) ! t) = TCollect k idx"
  shows "\<exists>elems. rids_match elems (np_rids (rp_node (nr_replicas nr ! n))) 0 idx 0 (length (np_ops (rp_node (nr_replicas nr ! n)))) \<and>
    rp_num_ops (nr_replicas nr ! n) = op_counts elems \<and> length elems = idx"
  by (rule collected_match [OF assms])

theorem collected_requests_match_witness:
  "\<exists>elems. rids_match elems [exec_rid] 0 64 0 1 \<and> ex_ops = op_counts elems \<and> length elems = 64"
proof -
  obtain ls where ls: "program_behavior counter_dispatch 1 ls
      (ex_combiner ex_taken ex_ops (ex_node NCollect [IncTwo 3] [exec_rid] [] counter_init_spec) (TCollect TryUpdate 64))"
    using ex_collected by (auto simp: ex_runs_def)
  from collected_requests_match [OF ls, of 0 63 TryUpdate 64] show ?thesis by (simp add: ex_combiner_def)
qed

text \<open>
  C27. The code of the reader-writer lock excludes: while one thread holds the lock for writing,
  no other holds it, for writing or for reading.
\<close>

theorem lock_code_excludes:
  assumes "rwl_reachable (l, ths)" and "i < length ths" and "j < length ths" and "i \<noteq> j" and "ths ! i = WHeld v"
  shows "ths ! j \<noteq> WHeld w \<and> ths ! j \<noteq> RHeld tid"
proof -
  obtain g where g: "rw_reachable g" "rw_coupled l ths g" using rwl_reachable_coupled [OF assms(1)] by auto
  from held_write_data [OF g(2) assms(2) _ rw_reachable_invariant [OF g(1)] assms(3)] assms(4,5)
  have "exc_guard_token (ths ! j) = {#}" "guard_token (ths ! j) = {#}" by simp_all
  then show ?thesis by auto
qed

theorem lock_code_excludes_witness: "th_lock ex_idle \<noteq> WHeld counter_init_spec \<and> th_lock ex_idle \<noteq> RHeld 0"
proof -
  let ?rp = "ex_rp 2 ex_taken ex_ops (ex_data None True) (ex_node ALoadTail [IncTwo 3] [exec_rid] [] counter_init_spec)
      (ex_th (TCombine TryUpdate) (WHeld counter_init_spec))"
  obtain ls where ls: "program_behavior counter_dispatch 1 ls (ex_nr ex_log0 ?rp)"
    using ex_data_taken by (auto simp: ex_runs_def ex_locked_def)
  from program_lock_reachable [OF ls, of 0]
  have "rwl_reachable (ex_data None True, map th_lock (rp_threads ?rp))" by simp
  from lock_code_excludes [OF this, of 63 0 counter_init_spec counter_init_spec 0] show ?thesis by simp
qed

end
