(* ===== verification/NR_Refinement_Relation.thy ===== *)
theory NR_Refinement_Relation
  imports NR_Linearization
begin

text \<open>
  The relation that \<^verbatim>\<open>spec/linearization.rs\<close> keeps between a state of the simple log, a state
  of the specification and the points at which pending reads will be answered. The source
  promises it of the behaviour its proof constructs (\<^verbatim>\<open>exists_equiv_behavior_rec\<close>); here it is
  derived for the behaviour that \<open>NR_Linearization\<close> constructs. Requests carry the node they
  were made on, as in the machines of this version; the source's file still omits it.
\<close>

section \<open>The relation\<close>

fun rr_op :: "'r ReadReq \<Rightarrow> 'r" where
  "rr_op (RRInit op n) = op"
| "rr_op (RRReq v op n) = op"

fun rr_node :: "'r ReadReq \<Rightarrow> NodeId" where
  "rr_node (RRInit op n) = n"
| "rr_node (RRReq v op n) = n"

definition readonly_request_is_valid ::
    "('r, 'w) SimpleLog \<Rightarrow> ('r, 'w, 'v, 'resp) AsynchronousSingleton \<Rightarrow> (ReqId \<rightharpoonup> LogIdx) \<Rightarrow> ReqId \<Rightarrow> bool" where
  "readonly_request_is_valid s t r_points rid \<longleftrightarrow>
     rid \<in> dom (sl_readonly_reqs s) \<and>
     (let q = the (sl_readonly_reqs s rid) in
      (is_RRReq q \<longrightarrow> rr_version q \<le> sl_version s) \<and>
      rid \<in> dom (as_reqs t) \<and>
      the (as_reqs t rid) = InRead (rr_op q) (rr_node q) \<and>
      (rid \<in> dom r_points \<longrightarrow>
         sl_version s \<le> the (r_points rid) \<and>
         (is_RRReq q \<longrightarrow> sl_version s < the (r_points rid))))"

definition readonly_response_is_valid ::
    "('r, 'w, 'v, 'resp) Dispatch \<Rightarrow> ('r, 'w) SimpleLog \<Rightarrow> ('r, 'w, 'v, 'resp) AsynchronousSingleton \<Rightarrow>
     (ReqId \<rightharpoonup> LogIdx) \<Rightarrow> ReqId \<Rightarrow> bool" where
  "readonly_response_is_valid D s t r_points rid \<longleftrightarrow>
     rid \<in> dom (sl_readonly_reqs s) \<and>
     (let q = the (sl_readonly_reqs s rid) in
      is_RRReq q \<and> rr_version q \<le> sl_version s \<and> rid \<in> dom (as_resps t) \<and>
      (rid \<in> dom r_points \<longrightarrow>
         rr_version q \<le> the (r_points rid) \<and> the (r_points rid) \<le> sl_version s \<and>
         the (r_points rid) \<le> length (sl_log s) \<and>
         the (as_resps t rid) = OutRead (dispatch_spec D (sl_nrstate_at_version D s (the (r_points rid))) (rr_op q))))"

definition readonly_requests_valid ::
    "('r, 'w, 'v, 'resp) Dispatch \<Rightarrow> ('r, 'w) SimpleLog \<Rightarrow> ('r, 'w, 'v, 'resp) AsynchronousSingleton \<Rightarrow>
     (ReqId \<rightharpoonup> LogIdx) \<Rightarrow> bool" where
  "readonly_requests_valid D s t r_points \<longleftrightarrow>
     (\<forall>rid\<in>dom (sl_readonly_reqs s) \<inter> dom (as_reqs t). readonly_request_is_valid s t r_points rid) \<and>
     (\<forall>rid\<in>dom (sl_readonly_reqs s) \<inter> dom (as_resps t). readonly_response_is_valid D s t r_points rid)"

definition update_response_is_valid ::
    "('r, 'w, 'v, 'resp) Dispatch \<Rightarrow> ('r, 'w) SimpleLog \<Rightarrow> ('r, 'w, 'v, 'resp) AsynchronousSingleton \<Rightarrow>
     (ReqId \<rightharpoonup> LogIdx) \<Rightarrow> ReqId \<Rightarrow> bool" where
  "update_response_is_valid D s t r_points rid \<longleftrightarrow>
     rid \<in> dom (sl_update_resps s) \<and>
     (let v = the (sl_update_resps s rid) in
      v < length (sl_log s) \<and> rid \<in> dom (as_resps t) \<and>
      the (as_resps t rid) = OutWrite (snd (dispatch_mut_spec D (sl_nrstate_at_version D s v) (sl_log s ! v))))"

definition update_response_with_version :: "(ReqId \<rightharpoonup> LogIdx) \<Rightarrow> LogIdx \<Rightarrow> bool" where
  "update_response_with_version update_resps version \<longleftrightarrow> (\<exists>rid. update_resps rid = Some version)"

definition state_refinement_relation_basic ::
    "('r, 'w, 'v, 'resp) Dispatch \<Rightarrow> ('r, 'w) SimpleLog \<Rightarrow> ('r, 'w, 'v, 'resp) AsynchronousSingleton \<Rightarrow>
     (ReqId \<rightharpoonup> LogIdx) \<Rightarrow> bool" where
  "state_refinement_relation_basic D s t r_points \<longleftrightarrow>
     sl_version s \<le> length (sl_log s) \<and>
     as_state t = sl_nrstate_at_version D s (sl_version s) \<and>
     dom (sl_readonly_reqs s) \<inter> dom (sl_update_reqs s) = {} \<and>
     dom (sl_readonly_reqs s) \<inter> dom (sl_update_resps s) = {} \<and>
     dom (sl_update_reqs s) \<inter> dom (sl_update_resps s) = {} \<and>
     dom (as_reqs t) \<inter> dom (as_resps t) = {} \<and>
     (\<forall>rid. rid \<in> dom (sl_readonly_reqs s) \<or> rid \<in> dom (sl_update_reqs s) \<or> rid \<in> dom (sl_update_resps s) \<longleftrightarrow>
        rid \<in> dom (as_reqs t) \<or> rid \<in> dom (as_resps t)) \<and>
     (\<forall>rid op n. as_reqs t rid = Some (InRead op n) \<longrightarrow> rid \<in> dom (sl_readonly_reqs s)) \<and>
     (\<forall>rid w. as_reqs t rid = Some (InWrite w) \<longrightarrow> rid \<in> dom (sl_update_reqs s) \<or> rid \<in> dom (sl_update_resps s)) \<and>
     (\<forall>rid\<in>dom (as_resps t). rid \<in> dom (sl_readonly_reqs s) \<or> rid \<in> dom (sl_update_resps s)) \<and>
     (\<forall>v. sl_version s \<le> v \<and> v < length (sl_log s) \<longrightarrow> update_response_with_version (sl_update_resps s) v) \<and>
     (\<forall>rid1\<in>dom (sl_update_resps s). \<forall>rid2\<in>dom (sl_update_resps s).
        rid1 \<noteq> rid2 \<longrightarrow> the (sl_update_resps s rid1) \<noteq> the (sl_update_resps s rid2)) \<and>
     (\<forall>rid\<in>dom (sl_update_resps s). the (sl_update_resps s rid) < length (sl_log s)) \<and>
     (\<forall>rid\<in>dom (sl_update_reqs s). as_reqs t rid = Some (InWrite (the (sl_update_reqs s rid)))) \<and>
     (\<forall>rid\<in>dom (sl_update_resps s). sl_version s \<le> the (sl_update_resps s rid) \<longrightarrow>
        as_reqs t rid = Some (InWrite (sl_log s ! the (sl_update_resps s rid)))) \<and>
     (\<forall>rid\<in>dom (sl_update_resps s). the (sl_update_resps s rid) < sl_version s \<longrightarrow>
        update_response_is_valid D s t r_points rid)"

definition state_refinement_relation ::
    "('r, 'w, 'v, 'resp) Dispatch \<Rightarrow> ('r, 'w) SimpleLog \<Rightarrow> ('r, 'w, 'v, 'resp) AsynchronousSingleton \<Rightarrow>
     (ReqId \<rightharpoonup> LogIdx) \<Rightarrow> bool" where
  "state_refinement_relation D s t r_points \<longleftrightarrow>
     state_refinement_relation_basic D s t r_points \<and> readonly_requests_valid D s t r_points"

section \<open>The constructed behaviour satisfies it\<close>

lemma as_of_req_cases:
  assumes p: "sl_placed s"
  obtains
    (none) "sl_readonly_reqs s rid = None" "sl_update_reqs s rid = None" "sl_update_resps s rid = None"
      "as_req_of r s rid = None" "as_resp_of D r s rid = None"
  | (pending_read) q where "sl_readonly_reqs s rid = Some q" "sl_update_reqs s rid = None" "sl_update_resps s rid = None"
      "as_req_of r s rid = Some (InRead (rr_op q) (rr_node q))" "as_resp_of D r s rid = None"
      "is_RRReq q \<longrightarrow> \<not> point_passed r s rid"
  | (answered_read) q where "sl_readonly_reqs s rid = Some q" "sl_update_reqs s rid = None" "sl_update_resps s rid = None"
      "is_RRReq q" "point_passed r s rid" "as_req_of r s rid = None"
      "as_resp_of D r s rid = Some (OutRead (dispatch_spec D (sl_nrstate_at_version D s (the (r rid))) (rr_op q)))"
  | (update) w where "sl_readonly_reqs s rid = None" "sl_update_reqs s rid = Some w" "sl_update_resps s rid = None"
      "as_req_of r s rid = Some (InWrite w)" "as_resp_of D r s rid = None"
  | (logged) i where "sl_readonly_reqs s rid = None" "sl_update_reqs s rid = None" "sl_update_resps s rid = Some i"
      "sl_version s \<le> i" "as_req_of r s rid = Some (InWrite (sl_log s ! i))" "as_resp_of D r s rid = None"
  | (applied) i where "sl_readonly_reqs s rid = None" "sl_update_reqs s rid = None" "sl_update_resps s rid = Some i"
      "i < sl_version s" "as_req_of r s rid = None"
      "as_resp_of D r s rid = Some (OutWrite (snd (dispatch_mut_spec D (sl_nrstate_at_version D s i) (sl_log s ! i))))"
proof (cases "sl_readonly_reqs s rid")
  case (Some q)
  note d = sl_placedD(4) [OF p Some]
  show thesis
  proof (cases "is_RRReq q \<and> point_passed r s rid")
    case True
    then show thesis using answered_read [OF Some] d Some by (cases q) (simp_all add: as_req_of_def as_resp_of_def)
  next
    case False
    then show thesis using pending_read [OF Some] d Some by (cases q) (auto simp: as_req_of_def as_resp_of_def)
  qed
next
  case None
  show thesis
  proof (cases "sl_update_reqs s rid")
    case (Some w)
    then show thesis using update [OF None] sl_placedD(5) [OF p Some] None by (simp add: as_req_of_def as_resp_of_def)
  next
    case no_update: None
    show thesis
    proof (cases "sl_update_resps s rid")
      case (Some i)
      then show thesis using logged [OF None no_update] applied [OF None no_update] None no_update
        by (cases "i < sl_version s") (simp_all add: as_req_of_def as_resp_of_def)
    qed (use none None no_update in \<open>simp add: as_req_of_def as_resp_of_def\<close>)
  qed
qed

lemma as_of_basic:
  assumes p: "sl_placed s"
  shows "state_refinement_relation_basic D s (as_of D r s) r"
  unfolding state_refinement_relation_basic_def
proof (intro conjI allI ballI impI)
  note d = sl_placedD [OF p] and c = as_of_req_cases [OF p, where r = r and D = D]
  show "sl_version s \<le> length (sl_log s)" by (rule d(1))
  show "as_state (as_of D r s) = sl_nrstate_at_version D s (sl_version s)" by (simp add: as_of_def)
  show "dom (sl_readonly_reqs s) \<inter> dom (sl_update_reqs s) = {}" "dom (sl_readonly_reqs s) \<inter> dom (sl_update_resps s) = {}"
      "dom (sl_update_reqs s) \<inter> dom (sl_update_resps s) = {}"
    using p by (simp_all add: sl_placed_def)
  show "dom (as_reqs (as_of D r s)) \<inter> dom (as_resps (as_of D r s)) = {}"
  proof -
    have "as_req_of r s rid = None \<or> as_resp_of D r s rid = None" for rid by (cases rid rule: c) simp_all
    then show ?thesis unfolding as_of_def disjoint_iff by (simp add: domIff) (metis option.distinct(1))
  qed
  fix rid
  show "(rid \<in> dom (sl_readonly_reqs s) \<or> rid \<in> dom (sl_update_reqs s) \<or> rid \<in> dom (sl_update_resps s)) =
      (rid \<in> dom (as_reqs (as_of D r s)) \<or> rid \<in> dom (as_resps (as_of D r s)))"
    by (cases rid rule: c) (simp_all add: as_of_def domIff)
  show "rid \<in> dom (sl_readonly_reqs s)" if "as_reqs (as_of D r s) rid = Some (InRead op n)" for op n
    using that by (cases rid rule: c) (auto simp: as_of_def)
  show "rid \<in> dom (sl_update_reqs s) \<or> rid \<in> dom (sl_update_resps s)" if "as_reqs (as_of D r s) rid = Some (InWrite w)" for w
    using that by (cases rid rule: c) (auto simp: as_of_def)
  show "rid \<in> dom (sl_readonly_reqs s) \<or> rid \<in> dom (sl_update_resps s)" if "rid \<in> dom (as_resps (as_of D r s))"
    using that by (cases rid rule: c) (auto simp: as_of_def)
  show "update_response_with_version (sl_update_resps s) v" if "sl_version s \<le> v \<and> v < length (sl_log s)" for v
    using d(8) that by (simp add: update_response_with_version_def)
  show "the (sl_update_resps s rid) \<noteq> the (sl_update_resps s rid2)"
    if "rid \<in> dom (sl_update_resps s)" "rid2 \<in> dom (sl_update_resps s)" "rid \<noteq> rid2" for rid2
    using that d(7) by auto
  show "the (sl_update_resps s rid) < length (sl_log s)" if "rid \<in> dom (sl_update_resps s)"
    using that d(2) by auto
  show "as_reqs (as_of D r s) rid = Some (InWrite (the (sl_update_reqs s rid)))" if "rid \<in> dom (sl_update_reqs s)"
    using that by (cases rid rule: c) (auto simp: as_of_def)
  show "as_reqs (as_of D r s) rid = Some (InWrite (sl_log s ! the (sl_update_resps s rid)))"
    if "rid \<in> dom (sl_update_resps s)" "sl_version s \<le> the (sl_update_resps s rid)"
    using that by (cases rid rule: c) (auto simp: as_of_def)
  show "update_response_is_valid D s (as_of D r s) r rid"
    if "rid \<in> dom (sl_update_resps s)" "the (sl_update_resps s rid) < sl_version s"
    using that d(2) by (cases rid rule: c) (auto simp: as_of_def update_response_is_valid_def)
qed

lemma as_of_reads:
  assumes p: "sl_placed s" and r: "future_points_ok s r"
  shows "readonly_requests_valid D s (as_of D r s) r"
  unfolding readonly_requests_valid_def
proof (intro conjI ballI)
  note d = sl_placedD [OF p] and c = as_of_req_cases [OF p, where r = r and D = D]
  fix rid
  have pt: "future_rid_ok s rid v" if "r rid = Some v" for v using future_points_okD(2) [OF r that] .
  show "readonly_request_is_valid s (as_of D r s) r rid"
    if "rid \<in> dom (sl_readonly_reqs s) \<inter> dom (as_reqs (as_of D r s))"
  proof (cases rid rule: c)
    case (2 q)
    then show ?thesis using d(3) [OF 2(1)] pt
      by (cases q) (auto simp: readonly_request_is_valid_def as_of_def future_rid_ok_def point_passed_def)
  qed (use that in \<open>auto simp: as_of_def\<close>)
  show "readonly_response_is_valid D s (as_of D r s) r rid"
    if "rid \<in> dom (sl_readonly_reqs s) \<inter> dom (as_resps (as_of D r s))"
  proof (cases rid rule: c)
    case (3 q)
    then show ?thesis using d(1) d(3) [OF 3(1)] pt
      by (cases q) (auto simp: readonly_response_is_valid_def as_of_def future_rid_ok_def point_passed_def
          split: option.splits)
  qed (use that in \<open>auto simp: as_of_def\<close>)
qed

text \<open>The contract of \<^verbatim>\<open>exists_equiv_behavior_rec\<close>.\<close>

lemma exists_equiv_behavior_rec:
  assumes "sl_behavior D n ls s" and "future_points_ok s r"
  shows "\<exists>ms t. as_behavior D ms t \<and> behavior_equiv (rev ls) (rev ms) \<and> state_refinement_relation D s t r"
proof -
  obtain ms where ms: "as_behavior D ms (as_of D r s)" "visible ms = visible ls"
    using linearizable_points [OF assms] by blast
  have p: "sl_placed s" by (rule sl_behavior_placed [OF assms(1)])
  show ?thesis
    using ms as_of_basic [OF p, of D r] as_of_reads [OF p assms(2), of D]
    by (intro exI [of _ ms] exI [of _ "as_of D r s"]) (simp add: behavior_equiv_visible visible_rev state_refinement_relation_def)
qed

end
