(* ===== verification/NR_Client_Properties.thy ===== *)
theory NR_Client_Properties
  imports NR_Serves_Program NR_Tickets NR_Properties NR_Exec_Properties NR_Refinement_Relation
begin

text \<open>
  What the clients of the node replication library see: the interface of \<open>NR_Client\<close> on the
  unbounded log, on the code of the log and on the program of \<open>NR_Exec_Program\<close>. The witness is
  the increment of \<open>NR_Exec_Example\<close>, run from its call to its return.
\<close>

interpretation unbounded_log_client: linearizable_object D "ul_behavior D n" for D n
  by unfold_locales (rule sl_linearizable [OF ulr.behavior_refines])

interpretation log_code_client: linearizable_object D "system_behavior D N" for D N
  by unfold_locales (rule log_code_linearizable)

interpretation library_client: linearizable_object D "program_behavior D N" for D N
  by unfold_locales (rule program_run_linearizable)

text \<open>
  C9. A client whose calls do not overlap cannot tell the replicated library from the data
  structure itself: in every run of the library's threads, in which the combining, the logging
  and the replaying of other operations are interleaved at every access to shared memory, the
  returned values are those of executing the operations one after the other on the initial value.
\<close>

theorem library_serves_sequential_clients:
  assumes "program_behavior D N ls nr"
    and "visible ls = call_events cs"
  shows "snd (run_calls D (init_spec D) (call_inputs cs)) = call_outputs cs"
  by (rule library_client.sequential_client [OF assms])

theorem library_serves_sequential_clients_witness:
  "\<exists>ls nr. program_behavior counter_dispatch 1 ls nr \<and>
     visible ls = call_events [(exec_rid, InWrite (IncTwo 3), OutWrite OpOk)] \<and>
     snd (run_calls counter_dispatch (init_spec counter_dispatch) [InWrite (IncTwo 3)]) = [OutWrite OpOk]"
proof -
  obtain ls nr where ls: "program_behavior counter_dispatch 1 ls nr"
      "visible ls = call_events [(exec_rid, InWrite (IncTwo 3), OutWrite OpOk)]"
    using ex_returned by (auto simp: ex_runs_def ex_vis2_def)
  from library_serves_sequential_clients [OF ls] ls show ?thesis by auto
qed

text \<open>
  C10. Calls return: for every sequence of requests with at most \<open>SERVE_BOUND\<close> updates, made one
  after the other on whatever replicas and threads, there is a run of the library, from its
  creation on, in which every one of them returns, with the value the data structure gives. The
  bound is the number of updates the log holds before it must be collected; collecting waits for
  replicas on which nobody makes a call, so beyond it the claim would be false.
\<close>

theorem library_answers_all_requests:
  assumes "0 < N" and "N \<le> MAX_REPLICAS" and "list_all (request_ok N) reqs" and "count_writes reqs \<le> SERVE_BOUND"
  shows "\<exists>ls nr cs. program_behavior D N ls nr \<and> visible ls = call_events cs \<and>
    call_inputs cs = map (\<lambda>(n, t, inp). inp) reqs \<and>
    call_outputs cs = snd (run_calls D (init_spec D) (map (\<lambda>(n, t, inp). inp) reqs))"
  using requests_served [OF assms, of D] library_client.sequential_client by metis

text \<open>An update on one replica, and a read on another that has not seen it yet.\<close>

theorem library_answers_all_requests_witness:
  "\<exists>ls nr cs. program_behavior counter_dispatch 2 ls nr \<and> visible ls = call_events cs \<and>
     call_inputs cs = [InWrite (IncTwo 3), InRead (CounterRead 3) 1] \<and> call_outputs cs = [OutWrite OpOk, OutRead (OpValue 2)]"
proof -
  have limits: "(2::nat) \<le> MAX_REPLICAS" "(1::nat) \<le> SERVE_BOUND" "(7::nat) < MAX_THREADS_PER_REPLICA"
    by (simp_all add: MAX_REPLICAS_def SERVE_BOUND_def LOG_SIZE_def GC_FROM_HEAD_def MAX_PENDING_OPS_def MAX_THREADS_PER_REPLICA_def)
  have answers: "snd (run_calls counter_dispatch (init_spec counter_dispatch) [InWrite (IncTwo 3), InRead (CounterRead 3) 1]) =
      [OutWrite OpOk, OutRead (OpValue 2)]"
    by (simp add: counter_dispatch_def counter_dispatch_mut_spec_def counter_dispatch_spec_def counter_init_spec_def replicate_10)
  show ?thesis
    using library_answers_all_requests [of 2 "[(0, 7, InWrite (IncTwo 3)), (1, 0, InRead (CounterRead 3) 1)]" counter_dispatch] limits answers
    by simp
qed

text \<open>
  The clients of a program that calls concurrently still get no return without a call of
  their own, on each of the four machines.
\<close>

lemma library_returns_called: "program_behavior D N ls nr \<Longrightarrow> ends ls rid \<le> starts ls rid"
  by (rule library_client.returns_called)

lemma unbounded_log_returns_called: "ul_behavior D n ls s \<Longrightarrow> ends ls rid \<le> starts ls rid"
  by (rule unbounded_log_client.returns_called)

lemma log_code_returns_called: "system_behavior D N ls s \<Longrightarrow> ends ls rid \<le> starts ls rid"
  by (rule log_code_client.returns_called)

lemma simple_log_returns_called: "sl_behavior D n ls s \<Longrightarrow> ends ls rid \<le> starts ls rid"
  by (rule simple_log_client.returns_called)

lemma library_read_your_write:
  assumes "program_behavior D N ls nr"
    and "visible ls = call_events (cs @ [(rid, InWrite w, out), (rid', InRead r n, OutRead resp)])"
  shows "resp = dispatch_spec D (fst (dispatch_mut_spec D (fst (run_calls D (init_spec D) (call_inputs cs))) w)) r"
  by (rule library_client.read_your_write [OF assms])

text \<open>
  C25. The contract of \<^verbatim>\<open>execute_mut\<close>: when a call is about to return a response, the token of
  its request in the simulated unbounded log is the stub the interface promises, the one with
  the request's identifier and that very response.
\<close>

theorem execute_mut_returns_stub:
  assumes "program_behavior D N ls nr" and "n < length (nr_replicas nr)" and "t < length (rp_threads (nr_replicas nr ! n))"
    and "th_pc (rp_threads (nr_replicas nr ! n) ! t) = TReturnMut x"
  shows "\<exists>ks g stub. ul_behavior D N ks g \<and> visible ks = visible ls \<and> update_token g log stub \<and>
    is_update_stub stub (th_rid (rp_threads (nr_replicas nr ! n) ! t)) x log"
  by (rule execute_mut_contract [OF assms])

theorem execute_mut_returns_stub_witness:
  "\<exists>ks g stub. ul_behavior counter_dispatch 1 ks g \<and> visible ks = ex_vis1 \<and> update_token g () stub \<and>
    is_update_stub stub exec_rid OpOk ()"
proof -
  obtain ls where ls: "program_behavior counter_dispatch 1 ls (ex_client (ex_cx None 0 None) (TReturnMut OpOk))" "visible ls = ex_vis1"
    using ex_returning by (auto simp: ex_runs_def)
  from execute_mut_returns_stub [OF ls(1), of 0 63 OpOk "()"] ls(2) show ?thesis by (simp add: ex_after_def)
qed

end
