(* ===== verification/NR_Contracts_Log.thy ===== *)
theory NR_Contracts_Log
  imports NR_Tickets
begin

text \<open>
  The contracts of the operations of the log, \<^verbatim>\<open>append\<close>, \<^verbatim>\<open>advance_head\<close> and
  \<^verbatim>\<open>execute\<close> of \<^verbatim>\<open>exec/log.rs\<close>. They speak of the ghost data the source passes between
  them, a bundle of tokens of the unbounded log and of the cyclic buffer. The code of
  \<open>NR_Exec_Log\<close> carries no ghost data; \<open>exec_ghost\<close> reads it off the two machines that the code
  simulates, and in every run it satisfies the precondition where an operation is called and the
  postcondition where it returns.

  Then two ghost constructions of the file: the tokens a new log is created with
  (\<^verbatim>\<open>NrLogTokens\<close>), and the entries \<^verbatim>\<open>append\<close> puts into the unbounded log when
  its compare-and-exchange succeeds, one operation at a time by the recursive function
  \<^verbatim>\<open>unbounded_log_append_entries\<close> with the invariant of
  \<^verbatim>\<open>AppendEntriesGhostState\<close>.
\<close>

section \<open>The ghost data\<close>

record ('i, 'j, 'w, 'v, 'resp) NrLogAppendExecDataGhost =
  gd_local_updates :: "nat \<rightharpoonup> ('i, ('w, 'resp) UpdateState) token"
  gd_replica :: "('i, 'v) token"
  gd_combiner :: "('i, ULCombiner) token"
  gd_cb_combiner :: "('j, 'w CBCombiner) token"
  gd_request_ids :: "ReqId list"

text \<open>The token of update \<open>i\<close>, with what is required of it.\<close>

definition update_at ::
    "('i, 'j, 'w, 'v, 'resp) NrLogAppendExecDataGhost \<Rightarrow> nat \<Rightarrow> (('i, ('w, 'resp) UpdateState) token \<Rightarrow> bool) \<Rightarrow> bool" where
  "update_at gd i P \<longleftrightarrow> (case gd_local_updates gd i of Some tok \<Rightarrow> P tok | None \<Rightarrow> False)"

definition common_pred ::
    "('i, 'j, 'w, 'v, 'resp) NrLogAppendExecDataGhost \<Rightarrow> NodeId \<Rightarrow> 'v \<Rightarrow> 'i \<Rightarrow> 'j \<Rightarrow> bool" where
  "common_pred gd nid data inst cb_inst \<longleftrightarrow>
     (\<forall>i<length (gd_request_ids gd). update_at gd i (\<lambda>tok. tok_instance tok = inst)) \<and>
     tok_key (gd_replica gd) = nid \<and> tok_instance (gd_replica gd) = inst \<and> tok_value (gd_replica gd) = data \<and>
     tok_key (gd_combiner gd) = nid \<and> tok_instance (gd_combiner gd) = inst \<and>
     tok_key (gd_cb_combiner gd) = nid \<and> tok_instance (gd_cb_combiner gd) = cb_inst \<and>
     length (gd_request_ids gd) \<le> MAX_REQUESTS"

definition pre_exec :: "('i, 'j, 'w, 'v, 'resp) NrLogAppendExecDataGhost \<Rightarrow> 'resp list \<Rightarrow> bool" where
  "pre_exec gd responses \<longleftrightarrow>
     length responses = 0 \<and> tok_value (gd_combiner gd) = CPlaced (gd_request_ids gd) \<and>
     (\<forall>i<length (gd_request_ids gd).
        update_at gd i (\<lambda>tok. tok_key tok = gd_request_ids gd ! i \<and> is_UPlaced (tok_value tok)))"

definition post_exec :: "('i, 'j, 'w, 'v, 'resp) NrLogAppendExecDataGhost \<Rightarrow> ReqId list \<Rightarrow> 'resp list \<Rightarrow> bool" where
  "post_exec gd request_ids responses \<longleftrightarrow>
     length request_ids = length responses \<and> tok_value (gd_combiner gd) = CReady \<and>
     (\<forall>i<length request_ids.
        update_at gd i (\<lambda>tok. (\<exists>idx. tok_value tok = UDone (responses ! i) idx) \<and> tok_key tok = request_ids ! i))"

section \<open>The contracts\<close>

definition append_pre ::
    "('i, 'j, 'w, 'v, 'resp) NrLogAppendExecDataGhost \<Rightarrow> NodeId \<Rightarrow> 'v \<Rightarrow> 'w list \<Rightarrow> 'i \<Rightarrow> 'j \<Rightarrow> bool" where
  "append_pre gd nid data ops inst cb_inst \<longleftrightarrow>
     common_pred gd nid data inst cb_inst \<and>
     (\<forall>i<length (gd_request_ids gd).
        update_at gd i (\<lambda>tok. tok_key tok = gd_request_ids gd ! i \<and> tok_value tok = UInit (ops ! i))) \<and>
     tok_value (gd_combiner gd) = CReady \<and> tok_value (gd_cb_combiner gd) = CBIdle \<and>
     length (gd_request_ids gd) = length ops"

definition append_post ::
    "('i, 'j, 'w, 'v, 'resp) NrLogAppendExecDataGhost \<Rightarrow> ('i, 'j, 'w, 'v, 'resp) NrLogAppendExecDataGhost \<Rightarrow>
     NodeId \<Rightarrow> 'v \<Rightarrow> 'w list \<Rightarrow> 'resp list \<Rightarrow> 'i \<Rightarrow> 'j \<Rightarrow> bool" where
  "append_post gd pre nid data operations responses inst cb_inst \<longleftrightarrow>
     common_pred gd nid data inst cb_inst \<and>
     (tok_value (gd_combiner gd) = CReady \<or> is_Placed (tok_value (gd_combiner gd))) \<and>
     (tok_value (gd_combiner gd) = CReady \<longrightarrow> post_exec gd (gd_request_ids pre) responses) \<and>
     (is_Placed (tok_value (gd_combiner gd)) \<longrightarrow> pre_exec gd responses) \<and>
     tok_value (gd_cb_combiner gd) = tok_value (gd_cb_combiner pre) \<and> gd_request_ids gd = gd_request_ids pre"

definition execute_pre ::
    "('i, 'j, 'w, 'v, 'resp) NrLogAppendExecDataGhost \<Rightarrow> NodeId \<Rightarrow> 'v \<Rightarrow> 'resp list \<Rightarrow> 'i \<Rightarrow> 'j \<Rightarrow> bool" where
  "execute_pre gd nid data responses inst cb_inst \<longleftrightarrow>
     common_pred gd nid data inst cb_inst \<and> tok_value (gd_cb_combiner gd) = CBIdle \<and>
     (tok_value (gd_combiner gd) = CReady \<or> is_Placed (tok_value (gd_combiner gd))) \<and>
     (is_Placed (tok_value (gd_combiner gd)) \<longrightarrow> pre_exec gd responses) \<and>
     (tok_value (gd_combiner gd) = CReady \<longrightarrow> length (gd_request_ids gd) = length responses)"

definition execute_post ::
    "('i, 'j, 'w, 'v, 'resp) NrLogAppendExecDataGhost \<Rightarrow> ('i, 'j, 'w, 'v, 'resp) NrLogAppendExecDataGhost \<Rightarrow>
     NodeId \<Rightarrow> 'v \<Rightarrow> 'resp list \<Rightarrow> 'resp list \<Rightarrow> 'i \<Rightarrow> 'j \<Rightarrow> bool" where
  "execute_post gd pre nid data responses_old responses inst cb_inst \<longleftrightarrow>
     common_pred gd nid data inst cb_inst \<and>
     tok_value (gd_cb_combiner gd) = tok_value (gd_cb_combiner pre) \<and> gd_request_ids gd = gd_request_ids pre \<and>
     (is_Placed (tok_value (gd_combiner pre)) \<longrightarrow> post_exec gd (gd_request_ids pre) responses) \<and>
     (tok_value (gd_combiner pre) = CReady \<longrightarrow>
        tok_value (gd_combiner gd) = tok_value (gd_combiner pre) \<and>
        gd_local_updates gd = gd_local_updates pre \<and> responses = responses_old)"

definition advance_head_pre ::
    "('i, 'j, 'w, 'v, 'resp) NrLogAppendExecDataGhost \<Rightarrow> NodeId \<Rightarrow> 'v \<Rightarrow> 'resp list \<Rightarrow> 'i \<Rightarrow> 'j \<Rightarrow> bool" where
  "advance_head_pre gd nid data responses inst cb_inst \<longleftrightarrow>
     common_pred gd nid data inst cb_inst \<and> pre_exec gd responses \<and>
     tok_value (gd_cb_combiner gd) = CBIdle \<and> is_Placed (tok_value (gd_combiner gd))"

definition advance_head_post ::
    "('i, 'j, 'w, 'v, 'resp) NrLogAppendExecDataGhost \<Rightarrow> ('i, 'j, 'w, 'v, 'resp) NrLogAppendExecDataGhost \<Rightarrow>
     NodeId \<Rightarrow> 'v \<Rightarrow> 'resp list \<Rightarrow> 'i \<Rightarrow> 'j \<Rightarrow> bool" where
  "advance_head_post gd pre nid data responses inst cb_inst \<longleftrightarrow>
     common_pred gd nid data inst cb_inst \<and> gd_request_ids gd = gd_request_ids pre \<and>
     tok_value (gd_cb_combiner gd) = tok_value (gd_cb_combiner pre) \<and>
     (tok_value (gd_combiner gd) = CReady \<or> is_Placed (tok_value (gd_combiner gd))) \<and>
     (tok_value (gd_combiner gd) = CReady \<longrightarrow> post_exec gd (gd_request_ids gd) responses) \<and>
     (is_Placed (tok_value (gd_combiner gd)) \<longrightarrow>
        length responses = 0 \<and> gd_local_updates gd = gd_local_updates pre \<and>
        tok_value (gd_combiner gd) = tok_value (gd_combiner pre) \<and> tok_value (gd_replica gd) = tok_value (gd_replica pre))"

text \<open>Whatever the log did, the operations compose: each promises what the next one asks.\<close>

lemma append_then_execute:
  assumes "append_pre pre nid data0 ops inst cb_inst" and "append_post gd pre nid data ops responses inst cb_inst"
  shows "execute_pre gd nid data responses inst cb_inst"
  using assms by (auto simp: append_pre_def append_post_def execute_pre_def post_exec_def)

lemma advance_then_execute:
  assumes "advance_head_pre pre nid data0 rs inst cb_inst" and "advance_head_post gd pre nid data responses inst cb_inst"
  shows "execute_pre gd nid data responses inst cb_inst"
proof -
  note a = assms [unfolded advance_head_pre_def advance_head_post_def]
  have "pre_exec gd responses" if p: "is_Placed (tok_value (gd_combiner gd))"
  proof -
    have "gd_local_updates gd = gd_local_updates pre" "length responses = 0"
      "tok_value (gd_combiner gd) = tok_value (gd_combiner pre)" "gd_request_ids gd = gd_request_ids pre" "pre_exec pre rs"
      using a p by auto
    then show ?thesis by (auto simp: pre_exec_def update_at_def)
  qed
  then show ?thesis using a by (auto simp: execute_pre_def post_exec_def)
qed

lemma execute_then_done:
  assumes "execute_pre pre nid data0 rs inst cb_inst" and "execute_post gd pre nid data rs responses inst cb_inst"
    and "tok_value (gd_combiner pre) = CReady \<Longrightarrow> post_exec pre (gd_request_ids pre) rs"
  shows "post_exec gd (gd_request_ids gd) responses"
proof (cases "is_Placed (tok_value (gd_combiner pre))")
  case False
  then have ready: "tok_value (gd_combiner pre) = CReady" using assms(1) by (auto simp: execute_pre_def)
  then show ?thesis
    using assms(2) assms(3) [OF ready] by (simp add: execute_post_def post_exec_def update_at_def)
qed (use assms(2) in \<open>auto simp: execute_post_def\<close>)

section \<open>The ghost data of a combiner\<close>

definition exec_ghost ::
    "'i \<Rightarrow> 'j \<Rightarrow> ('r, 'w, 'v, 'resp) UnboundedLog \<Rightarrow> 'w CyclicBuffer \<Rightarrow> NodeId \<Rightarrow> ReqId list \<Rightarrow>
     ('i, 'j, 'w, 'v, 'resp) NrLogAppendExecDataGhost" where
  "exec_ghost inst cb_inst g c n rids =
     \<lparr>gd_local_updates = (\<lambda>i. if i < length rids
        then map_option (\<lambda>u. \<lparr>tok_instance = inst, tok_key = rids ! i, tok_value = u\<rparr>) (ul_local_updates g (rids ! i))
        else None),
      gd_replica = \<lparr>tok_instance = inst, tok_key = n, tok_value = the (ul_replicas g n)\<rparr>,
      gd_combiner = \<lparr>tok_instance = inst, tok_key = n, tok_value = the (ul_combiner g n)\<rparr>,
      gd_cb_combiner = \<lparr>tok_instance = cb_inst, tok_key = n, tok_value = the (cb_combiner c n)\<rparr>,
      gd_request_ids = rids\<rparr>"

lemma exec_ghost_simps [simp]:
  "tok_value (gd_combiner (exec_ghost inst cb_inst g c n rids)) = the (ul_combiner g n)"
  "tok_value (gd_cb_combiner (exec_ghost inst cb_inst g c n rids)) = the (cb_combiner c n)"
  "gd_request_ids (exec_ghost inst cb_inst g c n rids) = rids"
  by (simp_all add: exec_ghost_def)

lemma exec_ghost_update:
  "i < length rids \<Longrightarrow> update_at (exec_ghost inst cb_inst g c n rids) i P \<longleftrightarrow>
     (\<exists>u. ul_local_updates g (rids ! i) = Some u \<and> P \<lparr>tok_instance = inst, tok_key = rids ! i, tok_value = u\<rparr>)"
  by (auto simp: exec_ghost_def update_at_def split: option.splits)

lemma exec_ghost_common:
  assumes "ul_replicas g n = Some data" and "length rids \<le> MAX_REQUESTS"
    and "\<And>i. i < length rids \<Longrightarrow> \<exists>u. ul_local_updates g (rids ! i) = Some u"
  shows "common_pred (exec_ghost inst cb_inst g c n rids) n data inst cb_inst"
  using assms(1,2) assms(3) unfolding common_pred_def by (simp add: exec_ghost_update) (simp add: exec_ghost_def)

text \<open>Its requests are new, placed or done.\<close>

lemma exec_ghost_done:
  assumes "ups_done p 0 (ul_local_updates g)" and "ul_combiner g n = Some CReady"
  shows "post_exec (exec_ghost inst cb_inst g c n (np_rids p)) (np_rids p) (np_responses p)"
  using assms by (auto simp: ups_done_def post_exec_def exec_ghost_update)

lemma exec_ghost_placed:
  assumes "np_responses p = []" and "ul_combiner g n = Some (CPlaced (np_rids p))" and "ul_parts D g" and "n < ul_num_replicas g"
  shows "pre_exec (exec_ghost inst cb_inst g c n (np_rids p)) (np_responses p)"
proof -
  have w: "wf_comb (ul_log g) (ul_tail g) (ul_version_upper_bound g) (the (ul_local_versions g n)) (ul_local_updates g) n
      (CPlaced (np_rids p))"
    using p_comb [OF assms(3,4)] assms(2) by simp
  have "the (ul_local_versions g n) \<le> ul_tail g"
    using p_lv [OF assms(3,4)] p_vub [OF assms(3)] by simp
  with w have "QueueRidsUpdatePlaced (np_rids p) (ul_local_updates g) 0" by (auto intro: matches_placed)
  then show ?thesis using assms(1,2) by (auto simp: queue_placed_iff pre_exec_def exec_ghost_update)
qed

section \<open>The calls of the log\<close>

text \<open>
  A call runs from its entry to its return point, and stays among its own program points and those
  of the operations it calls. The source has the function \<^verbatim>\<open>execute\<close> called from three
  places; inside \<^verbatim>\<open>append\<close> it is called with no requests. Where \<^verbatim>\<open>append\<close> and
  \<^verbatim>\<open>advance_head\<close> return, the combiner calls \<^verbatim>\<open>execute\<close>.
\<close>

datatype LogCall = AppendCall | AdvanceHeadCall | ExecuteCall ExecCaller

fun call_entry :: "LogCall \<Rightarrow> NodePc" where
  "call_entry AppendCall = ALoadTail"
| "call_entry AdvanceHeadCall = HLoadHead"
| "call_entry (ExecuteCall k) = ELoadLocal k"

fun executing_for :: "ExecCaller \<Rightarrow> NodePc \<Rightarrow> bool" where
  "executing_for k (ELoadLocal j) \<longleftrightarrow> j = k"
| "executing_for k (ELoadTail j _) \<longleftrightarrow> j = k"
| "executing_for k (EAlive j _ _) \<longleftrightarrow> j = k"
| "executing_for k (ERead j _ _) \<longleftrightarrow> j = k"
| "executing_for k (EPublish j _) \<longleftrightarrow> j = k"
| "executing_for k (EStore j _) \<longleftrightarrow> j = k"
| "executing_for k _ \<longleftrightarrow> False"

definition advancing_head :: "NodePc \<Rightarrow> bool" where
  "advancing_head pc \<longleftrightarrow> pc_in_find_min pc \<or> pc_in_advance_head pc \<or> executing_for FromAdvanceHead pc"

fun call_inside :: "LogCall \<Rightarrow> NodePc \<Rightarrow> bool" where
  "call_inside AppendCall pc \<longleftrightarrow> pc_in_append pc \<or> executing_for FromAppend pc \<or> advancing_head pc"
| "call_inside AdvanceHeadCall pc \<longleftrightarrow> advancing_head pc"
| "call_inside (ExecuteCall k) pc \<longleftrightarrow> executing_for k pc"

fun call_exit :: "LogCall \<Rightarrow> NodePc" where
  "call_exit (ExecuteCall k) = execute_return k"
| "call_exit _ = ELoadLocal FromCombine"

definition call_rids :: "LogCall \<Rightarrow> ('w, 'v, 'resp) Node \<Rightarrow> ReqId list" where
  "call_rids op p = (if op = ExecuteCall FromAppend then [] else np_rids p)"

text \<open>What the \<^verbatim>\<open>requires\<close> and \<^verbatim>\<open>ensures\<close> clauses of the functions say.\<close>

fun call_pre ::
    "LogCall \<Rightarrow> 'i \<Rightarrow> 'j \<Rightarrow> ('i, 'j, 'w, 'v, 'resp) NrLogAppendExecDataGhost \<Rightarrow> NodeId \<Rightarrow> ('w, 'v, 'resp) Node \<Rightarrow> bool" where
  "call_pre AppendCall inst cb_inst gd n p \<longleftrightarrow>
     append_pre gd n (np_data p) (np_ops p) inst cb_inst \<and> np_responses p = [] \<and> length (np_ops p) \<le> MAX_REQUESTS"
| "call_pre AdvanceHeadCall inst cb_inst gd n p \<longleftrightarrow> advance_head_pre gd n (np_data p) (np_responses p) inst cb_inst"
| "call_pre (ExecuteCall k) inst cb_inst gd n p \<longleftrightarrow> execute_pre gd n (np_data p) (np_responses p) inst cb_inst"

fun call_post ::
    "LogCall \<Rightarrow> 'i \<Rightarrow> 'j \<Rightarrow> ('i, 'j, 'w, 'v, 'resp) NrLogAppendExecDataGhost \<Rightarrow>
     ('i, 'j, 'w, 'v, 'resp) NrLogAppendExecDataGhost \<Rightarrow> NodeId \<Rightarrow> ('w, 'v, 'resp) Node \<Rightarrow> ('w, 'v, 'resp) Node \<Rightarrow> bool" where
  "call_post AppendCall inst cb_inst gd pre n p0 p \<longleftrightarrow>
     append_post gd pre n (np_data p) (np_ops p0) (np_responses p) inst cb_inst"
| "call_post AdvanceHeadCall inst cb_inst gd pre n p0 p \<longleftrightarrow>
     advance_head_post gd pre n (np_data p) (np_responses p) inst cb_inst"
| "call_post (ExecuteCall k) inst cb_inst gd pre n p0 p \<longleftrightarrow>
     execute_post gd pre n (np_data p) (np_responses p0) (np_responses p) inst cb_inst"

text \<open>
  The steps of the program, of all threads of all replicas, while the combiner of replica \<open>n\<close> is at
  points that satisfy \<open>Q\<close>; and a call: the step that enters it, and the steps until it returns.
\<close>

abbreviation node_of :: "('r, 'w, 'v, 'resp) NodeReplicated \<Rightarrow> NodeId \<Rightarrow> ('w, 'v, 'resp) Node" where
  "node_of nr n \<equiv> rp_node (nr_replicas nr ! n)"

inductive program_inside ::
    "('r, 'w, 'v, 'resp) Dispatch \<Rightarrow> NodeId \<Rightarrow> (NodePc \<Rightarrow> bool) \<Rightarrow> ('r, 'w, 'v, 'resp) NodeReplicated \<Rightarrow>
     ('r, 'w, 'resp) AsyncLabel list \<Rightarrow> ('r, 'w, 'v, 'resp) NodeReplicated \<Rightarrow> bool" for D n Q nr where
  inside_here: "program_inside D n Q nr [] nr"
| inside_step: "program_inside D n Q nr ms nr' \<Longrightarrow> Q (np_pc (node_of nr' n)) \<Longrightarrow> program_step D nr' l nr'' \<Longrightarrow>
    program_inside D n Q nr (ms @ [l]) nr''"

definition log_call ::
    "('r, 'w, 'v, 'resp) Dispatch \<Rightarrow> NodeId \<Rightarrow> LogCall \<Rightarrow> ('r, 'w, 'v, 'resp) NodeReplicated \<Rightarrow>
     ('r, 'w, 'resp) AsyncLabel \<Rightarrow> ('r, 'w, 'v, 'resp) NodeReplicated \<Rightarrow> ('r, 'w, 'resp) AsyncLabel list \<Rightarrow>
     ('r, 'w, 'v, 'resp) NodeReplicated \<Rightarrow> bool" where
  "log_call D n op nr l nr0 ms nr1 \<longleftrightarrow>
     \<not> call_inside op (np_pc (node_of nr n)) \<and> program_step D nr l nr0 \<and> np_pc (node_of nr0 n) = call_entry op \<and>
     program_inside D n (call_inside op) nr0 ms nr1 \<and> np_pc (node_of nr1 n) = call_exit op"

section \<open>The ghost data between two executions\<close>

lemma between_execs_pre:
  assumes rel: "between_execs k p u (ul_local_updates g)" "k \<noteq> FromAppend" and u: "ul_combiner g n = Some u" "cb_combiner c n = Some CBIdle"
    and rep: "ul_replicas g n = Some (np_data p)" "length (np_rids p) \<le> MAX_REQUESTS"
    and inv: "ul_parts D g" "n < ul_num_replicas g"
  shows "execute_pre (exec_ghost inst cb_inst g c n (np_rids p)) n (np_data p) (np_responses p) inst cb_inst"
    and "u = CReady \<Longrightarrow> post_exec (exec_ghost inst cb_inst g c n (np_rids p)) (np_rids p) (np_responses p)"
    and "is_Placed u \<Longrightarrow> pre_exec (exec_ghost inst cb_inst g c n (np_rids p)) (np_responses p)"
    and "u = CReady \<or> is_Placed u"
proof -
  let ?gd = "exec_ghost inst cb_inst g c n (np_rids p)"
  consider (placed) "u = CPlaced (np_rids p)" "np_responses p = []" | (finished) "u = CReady" "ups_done p 0 (ul_local_updates g)"
    using rel by (auto simp: between_execs_def)
  then have "execute_pre ?gd n (np_data p) (np_responses p) inst cb_inst \<and> (u = CReady \<longrightarrow> post_exec ?gd (np_rids p) (np_responses p)) \<and>
      (is_Placed u \<longrightarrow> pre_exec ?gd (np_responses p)) \<and> (u = CReady \<or> is_Placed u)"
  proof cases
    case placed
    have pre: "pre_exec ?gd (np_responses p)" using placed u(1) by (intro exec_ghost_placed [OF _ _ inv]) simp_all
    then have "common_pred ?gd n (np_data p) inst cb_inst"
      by (intro exec_ghost_common rep) (auto simp: pre_exec_def exec_ghost_update)
    then show ?thesis using pre placed u by (simp add: execute_pre_def)
  next
    case finished
    have post: "post_exec ?gd (np_rids p) (np_responses p)" using finished u(1) by (intro exec_ghost_done) simp_all
    then have "common_pred ?gd n (np_data p) inst cb_inst"
      by (intro exec_ghost_common rep) (auto simp: post_exec_def exec_ghost_update)
    then show ?thesis using post finished u by (simp add: execute_pre_def post_exec_def)
  qed
  then show "execute_pre ?gd n (np_data p) (np_responses p) inst cb_inst" "u = CReady \<Longrightarrow> post_exec ?gd (np_rids p) (np_responses p)"
    "is_Placed u \<Longrightarrow> pre_exec ?gd (np_responses p)" "u = CReady \<or> is_Placed u"
    by simp_all
qed

section \<open>Steps of a combiner inside the log\<close>

definition node_moves :: "('r, 'w, 'v, 'resp) Dispatch \<Rightarrow> NodeId \<Rightarrow> ('w, 'v, 'resp) Node \<Rightarrow> ('w, 'v, 'resp) Node \<Rightarrow> bool" where
  "node_moves D n p p' \<longleftrightarrow> p' = p \<or> (\<exists>weak l l'. node_step D n weak l p = Some (l', p'))"

lemma call_inside_log: "call_inside op pc \<Longrightarrow> pc_in_log pc"
  by (cases op; cases pc) (simp_all add: advancing_head_def pc_in_log_def)

lemma call_inside_places: "call_inside op pc \<Longrightarrow> op \<noteq> AppendCall \<Longrightarrow> \<not> may_place pc"
  by (cases op; cases pc) (simp_all add: advancing_head_def)

text \<open>A combiner that is not in the log enters it at \<open>ALoadTail\<close> only.\<close>

lemma system_step_node:
  assumes "system_step D s l s'" and "n < length (ns_nodes s)"
  shows "length (ns_nodes s') = length (ns_nodes s)"
    and "node_moves D n (ns_nodes s ! n) (ns_nodes s' ! n) \<or>
      \<not> pc_in_log (np_pc (ns_nodes s ! n)) \<and> np_pc (ns_nodes s' ! n) \<noteq> HLoadHead"
proof -
  show "length (ns_nodes s') = length (ns_nodes s)" using assms(1) by cases simp_all
  show "node_moves D n (ns_nodes s ! n) (ns_nodes s' ! n) \<or>
      \<not> pc_in_log (np_pc (ns_nodes s ! n)) \<and> np_pc (ns_nodes s' ! n) \<noteq> HLoadHead"
    using assms(1)
  proof cases
    case (sys_node m weak l' p)
    then show ?thesis using assms(2) by (cases "m = n") (auto simp: node_moves_def)
  next
    case (sys_combine_begin m p)
    then show ?thesis using assms(2)
      by (cases "m = n") (auto simp: node_moves_def combine_begin_def pc_in_log_def split: NodePc.splits)
  next
    case (sys_combine_collect m rid op p)
    then show ?thesis using assms(2)
      by (cases "m = n") (auto simp: node_moves_def combine_collect_def pc_in_log_def split: NodePc.splits if_splits)
  next
    case (sys_combine_lock m p)
    then show ?thesis using assms(2)
      by (cases "m = n") (auto simp: node_moves_def combine_lock_def pc_in_log_def split: NodePc.splits)
  next
    case (sys_combine_unlock m p)
    then show ?thesis using assms(2)
      by (cases "m = n") (auto simp: node_moves_def combine_unlock_def pc_in_log_def split: NodePc.splits)
  next
    case (sys_combine_respond m rid resp p)
    then show ?thesis using assms(2)
      by (cases "m = n") (auto simp: node_moves_def combine_respond_def pc_in_log_def split: NodePc.splits option.splits)
  next
    case (sys_combine_end m p)
    then show ?thesis using assms(2)
      by (cases "m = n") (auto simp: node_moves_def combine_end_def pc_in_log_def split: NodePc.splits if_splits)
  qed (simp_all add: node_moves_def)
qed

lemma node_step_cases:
  assumes "node_step D n weak l p = Some (l', p')"
  obtains "append_step n weak l p = Some (l', p')" | "find_min_local_version_step l p = Some (l', p')"
  | "advance_head_step l p = Some (l', p')" | "execute_step D n l p = Some (l', p')"
  using assms by (auto simp: node_step_def split: if_splits)

lemma node_step_buffers:
  assumes "node_step D n weak l p = Some (l', p')"
  shows "np_rids p' = np_rids p" "np_ops p' = np_ops p"
proof -
  have "np_rids p' = np_rids p \<and> np_ops p' = np_ops p"
    using assms
  proof (cases rule: node_step_cases)
    case 1
    then show ?thesis by (auto simp: append_step_def split: NodePc.splits option.splits if_splits)
  next
    case 2
    then show ?thesis by (auto simp: find_min_local_version_step_def split: NodePc.splits option.splits)
  next
    case 3
    then show ?thesis by (auto simp: advance_head_step_def split: NodePc.splits option.splits)
  next
    case 4
    then show ?thesis
      by (auto simp: execute_step_def Let_def split: NodePc.splits option.splits prod.splits if_splits)
  qed
  then show "np_rids p' = np_rids p" "np_ops p' = np_ops p" by simp_all
qed

text \<open>\<^verbatim>\<open>advance_head\<close> is entered when the last operation has been written.\<close>

lemma advance_head_entered:
  assumes "node_step D n weak l p = Some (l', p')" "np_pc p' = HLoadHead" "\<not> advancing_head (np_pc p)"
  shows "np_responses p' = np_responses p"
    and "(\<exists>t idx. np_pc p = AFlip t idx True) \<or> (\<exists>t nt. np_pc p = ACas t nt True \<and> np_ops p = [])"
proof -
  have "np_responses p' = np_responses p \<and>
      ((\<exists>t idx. np_pc p = AFlip t idx True) \<or> (\<exists>t nt. np_pc p = ACas t nt True \<and> np_ops p = []))"
    using assms(1)
  proof (cases rule: node_step_cases)
    case 1
    then show ?thesis using assms(2)
      by (auto simp: append_step_def append_loop_def split: NodePc.splits option.splits if_splits)
  next
    case 2
    then show ?thesis using assms(2,3)
      by (auto simp: find_min_local_version_step_def advancing_head_def split: NodePc.splits)
  next
    case 3
    then show ?thesis using assms(2,3) by (auto simp: advance_head_step_def advancing_head_def split: NodePc.splits)
  next
    case 4
    then show ?thesis using assms(2,3)
      by (auto simp: execute_step_def advancing_head_def execute_return_def execute_loop_def Let_def
          split: NodePc.splits option.splits prod.splits if_splits ExecCaller.splits)
  qed
  then show "np_responses p' = np_responses p"
    "(\<exists>t idx. np_pc p = AFlip t idx True) \<or> (\<exists>t nt. np_pc p = ACas t nt True \<and> np_ops p = [])" by simp_all
qed

lemma execute_entered:
  assumes "node_step D n weak l p = Some (l', p')" "np_pc p = ELoadLocal k"
  shows "\<exists>lv. np_pc p' = ELoadTail k lv"
  using assms by (auto simp: node_step_def execute_step_def split: option.splits)

section \<open>The contracts hold at the calls and returns\<close>

lemma call_pre_holds:
  assumes rel: "node_rel l g c n p" and inv: "ul_parts D g" "n < ul_num_replicas g" and pc: "np_pc p = call_entry op"
    and placed: "op = AdvanceHeadCall \<Longrightarrow> is_Placed (the (ul_combiner g n))"
  shows "call_pre op inst cb_inst (exec_ghost inst cb_inst g c n (call_rids op p)) n p"
proof -
  obtain u v where rep: "ul_replicas g n = Some (np_data p)" "length (np_ops p) \<le> MAX_REQUESTS" "length (np_ops p) = length (np_rids p)"
    and u: "ul_combiner g n = Some u" "cb_combiner c n = Some v"
    and rels: "pc_rel (ul_num_replicas g) (ul_tail g) (ul_log g) (nl_slog l) n p u v (ul_local_updates g) (np_pc p)"
    using rel by (auto simp: node_rel_def)
  have max: "length (np_rids p) \<le> MAX_REQUESTS" using rep by simp
  show ?thesis
  proof (cases op)
    case AppendCall
    then have new: "ups_new p (ul_local_updates g)" "u = CReady" "v = CBIdle" using rels pc by simp_all
    then have "common_pred (exec_ghost inst cb_inst g c n (np_rids p)) n (np_data p) inst cb_inst"
      by (intro exec_ghost_common rep(1) max) (simp add: ups_new_def)
    then show ?thesis using AppendCall new u rep(2,3) by (simp add: append_pre_def ups_new_def exec_ghost_update call_rids_def)
  next
    case AdvanceHeadCall
    then have b: "between_execs FromAdvanceHead p u (ul_local_updates g)" "v = CBIdle" using rels pc by simp_all
    note e = between_execs_pre(1,3) [OF b(1) _ u(1) u(2) [unfolded b(2)] rep(1) max inv, where inst = inst and cb_inst = cb_inst]
    show ?thesis
      using e AdvanceHeadCall u b(2) placed by (simp add: advance_head_pre_def execute_pre_def call_rids_def)
  next
    case (ExecuteCall k)
    then have b: "between_execs k p u (ul_local_updates g)" "v = CBIdle" using rels pc by simp_all
    show ?thesis
    proof (cases "k = FromAppend")
      case True
      then have "u = CReady" "np_responses p = []" using b(1) by (simp_all add: between_execs_def ups_new_def)
      moreover have "common_pred (exec_ghost inst cb_inst g c n []) n (np_data p) inst cb_inst"
        by (intro exec_ghost_common rep(1)) simp_all
      ultimately show ?thesis using ExecuteCall True u b(2) by (simp add: execute_pre_def call_rids_def)
    next
      case False
      show ?thesis
        using between_execs_pre(1) [OF b(1) False u(1) u(2) [unfolded b(2)] rep(1) max inv] ExecuteCall False
        by (simp add: call_rids_def)
    qed
  qed
qed

text \<open>
  What the steps inside a call preserve. Outside \<^verbatim>\<open>append\<close>, a combiner found with its
  operations placed has had them placed since the call; inside \<^verbatim>\<open>execute\<close> it has none.
\<close>

definition kept_since ::
    "LogCall \<Rightarrow> NodeId \<Rightarrow> ('w, 'v, 'resp) Node \<Rightarrow> ('r, 'w, 'v, 'resp) UnboundedLog \<Rightarrow> ('w, 'v, 'resp) Node \<Rightarrow>
     ('r, 'w, 'v, 'resp) UnboundedLog \<Rightarrow> bool" where
  "kept_since op n p0 g0 p g \<longleftrightarrow>
     np_rids p = np_rids p0 \<and>
     (\<forall>rid\<in>set (np_rids p0). \<forall>r i. ul_local_updates g0 rid = Some (UDone r i) \<longrightarrow> ul_local_updates g rid = Some (UDone r i)) \<and>
     (op \<noteq> AppendCall \<and> is_Placed (the (ul_combiner g n)) \<longrightarrow>
        ul_combiner g n = ul_combiner g0 n \<and> ul_replicas g n = ul_replicas g0 n \<and>
        (\<forall>rid\<in>set (np_rids p0). ul_local_updates g rid = ul_local_updates g0 rid)) \<and>
     (\<forall>k. op = ExecuteCall k \<longrightarrow> np_pc p = ELoadLocal k \<or> \<not> is_Placed (the (ul_combiner g n)))"

lemma kept_since_start:
  "np_pc p = call_entry op \<Longrightarrow> kept_since op n p g p g"
  by (auto simp: kept_since_def)

lemma executing_not_placed:
  assumes "node_rel l g c n p" "executing_for k (np_pc p)" "np_pc p \<noteq> ELoadLocal k"
  shows "\<not> is_Placed (the (ul_combiner g n))"
  using node_relD(4) [OF assms(1)] assms(2,3) by (cases "np_pc p") auto

lemma kept_since_step:
  assumes since: "kept_since op n p0 g0 p g" and inside: "call_inside op (np_pc p)" and moves: "node_moves D n p p'"
    and kept: "node_kept n p g g'" and rels: "node_rel l g c n p" "node_rel l' g' c' n p'"
  shows "kept_since op n p0 g0 p' g'"
proof -
  have rids: "np_rids p' = np_rids p" using moves node_step_buffers by (auto simp: node_moves_def)
  have und: "undelivered p = set (np_rids p)"
    using pc_in_log_delivered [OF call_inside_log [OF inside]] by (simp add: undelivered_all)
  have placed: "ul_combiner g' n = ul_combiner g n" "ul_replicas g' n = ul_replicas g n"
      "\<forall>rid\<in>set (np_rids p). ul_local_updates g' rid = ul_local_updates g rid"
    if "is_Placed (the (ul_combiner g' n))" "op \<noteq> AppendCall"
    using kept that call_inside_places [OF inside] by (auto simp: node_kept_def und)
  have "np_pc p' = ELoadLocal k \<or> \<not> is_Placed (the (ul_combiner g' n))" if op: "op = ExecuteCall k" for k
  proof (cases "np_pc p = ELoadLocal k")
    case True
    show ?thesis
    proof (cases "p' = p")
      case False
      then obtain weak l1 l2 where "node_step D n weak l1 p = Some (l2, p')" using moves by (auto simp: node_moves_def)
      from execute_entered [OF this True] show ?thesis using executing_not_placed [OF rels(2), of k] by auto
    qed (use True in simp)
  next
    case False
    then have "\<not> is_Placed (the (ul_combiner g n))" using executing_not_placed [OF rels(1)] inside op by simp
    then show ?thesis using placed(1) op by auto
  qed
  moreover have "\<forall>rid\<in>set (np_rids p). \<forall>r i. ul_local_updates g rid = Some (UDone r i) \<longrightarrow> ul_local_updates g' rid = Some (UDone r i)"
    using kept by (simp add: node_kept_def und)
  ultimately show ?thesis using since rids placed by (auto simp: kept_since_def)
qed

text \<open>What holds at a return.\<close>

lemma returned_between:
  assumes "node_rel l g c n p" and "np_pc p = call_exit op" and "op \<noteq> ExecuteCall FromAppend"
  obtains u where "ul_combiner g n = Some u" "between_execs FromCombine p u (ul_local_updates g)" "cb_combiner c n = Some CBIdle"
  using node_relD(4) [OF assms(1)] assms(2,3)
  by (cases op rule: call_exit.cases) (auto simp: execute_return_def between_execs_def split: ExecCaller.splits)

lemma call_post_holds:
  assumes rels: "node_rel l g c n p" "node_rel l' g' c' n p'"
    and inv: "ul_parts D g" "ul_parts D g'" "n < ul_num_replicas g" "n < ul_num_replicas g'"
    and pc: "np_pc p = call_entry op" "np_pc p' = call_exit op" and since: "kept_since op n p g p' g'"
  shows "call_post op inst cb_inst (exec_ghost inst cb_inst g' c' n (call_rids op p')) (exec_ghost inst cb_inst g c n (call_rids op p)) n p p'"
proof -
  have rids: "np_rids p' = np_rids p" using since by (simp add: kept_since_def)
  have rep: "ul_replicas g' n = Some (np_data p')" "length (np_rids p') \<le> MAX_REQUESTS"
    using node_relD(1-3) [OF rels(2)] by simp_all
  obtain u0 where u0: "ul_combiner g n = Some u0" "cb_combiner c n = Some CBIdle"
    using node_relD(4) [OF rels(1)] pc(1) by (cases op) auto
  show ?thesis
  proof (cases "op = ExecuteCall FromAppend")
    case True
    then have "ul_combiner g n = Some CReady" "np_responses p = []" "ul_combiner g' n = Some CReady" "np_responses p' = []"
        "cb_combiner c' n = Some CBIdle"
      using node_relD(4) [OF rels(1)] node_relD(4) [OF rels(2)] pc
      by (auto simp: between_execs_def ups_new_def execute_return_def)
    moreover have "common_pred (exec_ghost inst cb_inst g' c' n []) n (np_data p') inst cb_inst"
      by (intro exec_ghost_common rep(1)) simp_all
    ultimately show ?thesis using True u0 by (simp add: execute_post_def call_rids_def) (simp add: exec_ghost_def)
  next
    case False
    obtain u where u: "ul_combiner g' n = Some u" "between_execs FromCombine p' u (ul_local_updates g')" "cb_combiner c' n = Some CBIdle"
      by (rule returned_between [OF rels(2) pc(2) False])
    note e = between_execs_pre(1-3) [OF u(2) _ u(1,3) rep inv(2,4), where inst = inst and cb_inst = cb_inst, simplified]
    note e4 = between_execs_pre(4) [OF u(2) _ u(1,3) rep inv(2,4), simplified]
    have ids: "call_rids op p = np_rids p" "call_rids op p' = np_rids p" using False rids by (simp_all add: call_rids_def)
    show ?thesis
    proof (cases op)
      case AppendCall
      then show ?thesis unfolding ids using e e4 u u0 by (auto simp: append_post_def execute_pre_def rids)
    next
      case AdvanceHeadCall
      have "gd_local_updates (exec_ghost inst cb_inst g' c' n (np_rids p)) = gd_local_updates (exec_ghost inst cb_inst g c n (np_rids p))"
          "u = u0" "ul_replicas g' n = ul_replicas g n" if "is_Placed u"
        using since that u(1) u0(1) AdvanceHeadCall by (auto simp: kept_since_def exec_ghost_def)
      moreover have "np_responses p' = []" if "is_Placed u" using u(2) that by (auto simp: between_execs_def)
      ultimately show ?thesis
        unfolding ids using AdvanceHeadCall e e4 u u0
        by (auto simp: advance_head_post_def execute_pre_def rids) (auto simp: exec_ghost_def)
    next
      case (ExecuteCall k)
      have exits: "np_pc p' \<noteq> ELoadLocal k" using pc(2) ExecuteCall by (cases k) (simp_all add: execute_return_def)
      then have np: "\<not> is_Placed u" using since u(1) ExecuteCall by (auto simp: kept_since_def)
      then have ready: "u = CReady" using e4 by blast
      have same: "gd_local_updates (exec_ghost inst cb_inst g' c' n (np_rids p)) = gd_local_updates (exec_ghost inst cb_inst g c n (np_rids p))"
          "np_responses p' = np_responses p" if r0: "u0 = CReady"
      proof -
        have d0: "ups_done p 0 (ul_local_updates g)"
          using node_relD(4) [OF rels(1)] pc(1) ExecuteCall False u0(1) r0 by (auto simp: between_execs_def)
        have d1: "ups_done p' 0 (ul_local_updates g')" using u(2) ready by (simp add: between_execs_def)
        have upd: "ul_local_updates g' (np_rids p ! i) = ul_local_updates g (np_rids p ! i)" if "i < length (np_rids p)" for i
          using since d0 that nth_mem [OF that] unfolding kept_since_def ups_done_def by fastforce
        then show "gd_local_updates (exec_ghost inst cb_inst g' c' n (np_rids p)) = gd_local_updates (exec_ghost inst cb_inst g c n (np_rids p))"
          by (auto simp: exec_ghost_def)
        show "np_responses p' = np_responses p"
          using d0 d1 upd rids by (intro nth_equalityI) (fastforce simp: ups_done_def)+
      qed
      show ?thesis
        unfolding ids using ExecuteCall e(1,2) u u0 ready same by (auto simp: execute_post_def execute_pre_def rids)
    qed
  qed
qed

section \<open>The machines of a run\<close>

text \<open>The machines a run simulates, with the calls and returns of the run.\<close>

definition program_point ::
    "('r, 'w, 'v, 'resp) Dispatch \<Rightarrow> nat \<Rightarrow> ('r, 'w, 'resp) AsyncLabel list \<Rightarrow> ('r, 'w, 'v, 'resp) NodeReplicated \<Rightarrow>
     ('r, 'w, 'v, 'resp) NrSystem \<Rightarrow> (NodeId \<Rightarrow> FlatCombiner) \<Rightarrow> ('r, 'w, 'v, 'resp) UnboundedLog \<Rightarrow> 'w CyclicBuffer \<Rightarrow> bool" where
  "program_point D N ls nr s fcs g c \<longleftrightarrow>
     program_rel nr s fcs \<and> (\<exists>ms. run_simulated D N ms s g c \<and> visible ms = visible ls)"

lemma program_pointD:
  assumes "program_point D N ls nr s fcs g c" and "n < length (nr_replicas nr)"
  shows "system_replica_rel s n (fcs n) (nr_replicas nr ! n)" "n < length (ns_nodes s)" "ns_nodes s ! n = node_of nr n"
    "system_rel s g c" "node_rel (ns_log s) g c n (node_of nr n)" "ul_parts D g" "n < ul_num_replicas g" "cb_reachable c"
    "\<exists>ks. ul_behavior D N ks g \<and> visible ks = visible ls"
proof -
  obtain ms where pr: "program_rel nr s fcs" and sim: "run_simulated D N ms s g c" "visible ms = visible ls"
    using assms(1) by (auto simp: program_point_def)
  then show sr: "system_rel s g c" and "cb_reachable c" and ks: "\<exists>ks. ul_behavior D N ks g \<and> visible ks = visible ls"
    by (auto simp: run_simulated_def)
  show rr: "system_replica_rel s n (fcs n) (nr_replicas nr ! n)" by (rule program_relD(3) [OF pr assms(2)])
  show n: "n < length (ns_nodes s)" using program_relD(2) [OF pr] assms(2) by simp
  show node: "ns_nodes s ! n = node_of nr n" using replica_relD(1) [OF rr] by simp
  show "node_rel (ns_log s) g c n (node_of nr n)" using system_relD(3) [OF sr n] by (simp add: node)
  show "ul_parts D g" using ks ul_behavior_parts by blast
  show "n < ul_num_replicas g" using system_relD(2) [OF sr] n by simp
qed

lemma program_behavior_point:
  assumes "program_behavior D N ls nr"
  obtains s fcs g c where "program_point D N ls nr s fcs g c"
proof -
  obtain s fcs ms where "program_rel nr s fcs" "system_behavior D N ms s" "visible ms = visible ls"
    using program_behavior_simulated [OF assms] unfolding program_simulated_def by blast
  then show thesis using system_behavior_simulated [of D N ms s] that unfolding program_point_def by blast
qed

lemma program_ghosts:
  assumes run: "program_behavior D N ls nr" and n: "n < length (nr_replicas nr)"
  obtains s fc ks g c where "system_replica_rel s n fc (nr_replicas nr ! n)" "system_rel s g c" "ul_behavior D N ks g"
    "visible ks = visible ls" "cb_reachable c" "n < length (ns_nodes s)"
proof -
  obtain s fcs g c where "program_point D N ls nr s fcs g c" by (rule program_behavior_point [OF run])
  from program_pointD [OF this n] show thesis using that by blast
qed

lemma program_point_step:
  assumes pt: "program_point D N ls nr s fcs g c" and step: "program_step D nr l nr'" and n: "n < length (nr_replicas nr)"
  obtains s' fcs' g' c' where "program_point D N (ls @ [l]) nr' s' fcs' g' c'" "n < length (nr_replicas nr')"
    "node_kept n (node_of nr n) g g'" "ul_steps D g g'"
    "node_moves D n (node_of nr n) (node_of nr' n) \<or> \<not> pc_in_log (np_pc (node_of nr n)) \<and> np_pc (node_of nr' n) \<noteq> HLoadHead"
proof -
  obtain ms where pr: "program_rel nr s fcs" and sim: "run_simulated D N ms s g c" "visible ms = visible ls"
    using pt by (auto simp: program_point_def)
  note d = program_pointD [OF pt n]
  obtain s' fcs' where s': "s' = s \<and> l = Internal \<or> system_step D s l s'" and pr': "program_rel nr' s' fcs'"
    using program_step_sim [OF pr step] by blast
  have moves: "length (ns_nodes s') = length (ns_nodes s) \<and> (node_moves D n (ns_nodes s ! n) (ns_nodes s' ! n) \<or>
      \<not> pc_in_log (np_pc (ns_nodes s ! n)) \<and> np_pc (ns_nodes s' ! n) \<noteq> HLoadHead)"
    using s' system_step_node [OF _ d(2), of D l s'] by (auto simp: node_moves_def)
  then have n': "n < length (nr_replicas nr')" using program_relD(2) [OF pr'] d(2) by simp
  have "\<exists>ms' g' c'. run_simulated D N ms' s' g' c' \<and> visible ms' = visible (ls @ [l]) \<and> system_kept s g g' \<and> ul_steps D g g'"
    using s'
  proof (elim disjE conjE)
    assume "system_step D s l s'"
    from system_step_simulated [OF sim(1) this] obtain g' c' where "run_simulated D N (ms @ [l]) s' g' c'" "system_kept s g g'"
      "ul_steps D g g'" by blast
    then show ?thesis using sim(2) by (intro exI [of _ "ms @ [l]"] exI [of _ g'] exI [of _ c']) simp
  next
    assume "s' = s" "l = Internal"
    then show ?thesis using sim by (intro exI [of _ ms] exI [of _ g] exI [of _ c]) simp
  qed
  then obtain ms' g' c' where new: "run_simulated D N ms' s' g' c'" "visible ms' = visible (ls @ [l])" "system_kept s g g'"
    "ul_steps D g g'" by blast
  have pt': "program_point D N (ls @ [l]) nr' s' fcs' g' c'" using pr' new by (auto simp: program_point_def)
  show thesis
    by (rule that [OF pt' n' _ new(4)])
      (use new(3) moves d(2,3) program_pointD(3) [OF pt' n'] in \<open>auto simp: system_kept_def\<close>)
qed

section \<open>Every call keeps its contract\<close>

lemma program_inside_kept:
  assumes "program_inside D n (call_inside op) nr0 ms nr1" and "program_point D N ls nr0 s0 fcs0 g0 c0"
    and "n < length (nr_replicas nr0)" and "np_pc (node_of nr0 n) = call_entry op"
  shows "\<exists>s fcs g c. program_point D N (ls @ ms) nr1 s fcs g c \<and> n < length (nr_replicas nr1) \<and>
    ul_steps D g0 g \<and> kept_since op n (node_of nr0 n) g0 (node_of nr1 n) g"
  using assms
proof (induction rule: program_inside.induct)
  case inside_here
  then show ?case
    by (intro exI [of _ s0] exI [of _ fcs0] exI [of _ g0] exI [of _ c0]) (simp add: kept_since_start)
next
  case (inside_step ms nr1 l nr2)
  then obtain s fcs g c where pt: "program_point D N (ls @ ms) nr1 s fcs g c" and n: "n < length (nr_replicas nr1)"
    and since: "ul_steps D g0 g" "kept_since op n (node_of nr0 n) g0 (node_of nr1 n) g" by blast
  obtain s' fcs' g' c' where pt': "program_point D N ((ls @ ms) @ [l]) nr2 s' fcs' g' c'" and n': "n < length (nr_replicas nr2)"
    and kept: "node_kept n (node_of nr1 n) g g'" and steps: "ul_steps D g g'"
    and moved: "node_moves D n (node_of nr1 n) (node_of nr2 n) \<or>
      \<not> pc_in_log (np_pc (node_of nr1 n)) \<and> np_pc (node_of nr2 n) \<noteq> HLoadHead"
    by (rule program_point_step [OF pt inside_step.hyps(3) n])
  then have moves: "node_moves D n (node_of nr1 n) (node_of nr2 n)" using call_inside_log [OF inside_step.hyps(2)] by blast
  have "kept_since op n (node_of nr0 n) g0 (node_of nr2 n) g'"
    by (rule kept_since_step [OF since(2) inside_step.hyps(2) moves kept program_pointD(5) [OF pt n] program_pointD(5) [OF pt' n']])
  moreover have "ul_steps D g0 g'" using since(1) steps by (rule rtranclp_trans)
  ultimately show ?case using pt' n'
    by (intro exI [of _ s'] exI [of _ fcs'] exI [of _ g'] exI [of _ c']) simp
qed

lemma advance_head_called_placed:
  assumes rels: "node_rel l g c n p" "node_rel l' g' c' n p'" and moves: "node_moves D n p p'"
    and pc: "\<not> advancing_head (np_pc p)" "np_pc p' = HLoadHead"
  shows "is_Placed (the (ul_combiner g' n))"
proof -
  have "p' \<noteq> p" using pc by (auto simp: advancing_head_def)
  then obtain weak l1 l2 where step: "node_step D n weak l1 p = Some (l2, p')" using moves by (auto simp: node_moves_def)
  have "\<not> (\<exists>t nt. np_pc p = ACas t nt True \<and> np_ops p = [])" using node_relD(4) [OF rels(1)] by auto
  then obtain t idx where "np_pc p = AFlip t idx True" using advance_head_entered [OF step pc(2,1)] by blast
  then have "np_responses p = []" "idx < length (np_rids p)"
    using node_relD(4) [OF rels(1)] node_relD(3) [OF rels(1)] by (auto simp: appending_def)
  then have "np_responses p' = []" "np_rids p' \<noteq> []"
    using advance_head_entered(1) [OF step pc(2,1)] node_step_buffers(1) [OF step] by auto
  then show ?thesis using node_relD(4) [OF rels(2)] pc(2) by (auto simp: between_execs_def ups_done_def)
qed

lemma program_log_call:
  assumes run: "program_behavior D N ls nr" and n: "n < length (nr_replicas nr)" and called: "log_call D n op nr l nr0 ms nr1"
  shows "\<exists>ks0 g0 c0 ks1 g1 c1.
    ul_behavior D N ks0 g0 \<and> visible ks0 = visible (ls @ [l]) \<and> cb_reachable c0 \<and>
    ul_behavior D N ks1 g1 \<and> visible ks1 = visible (ls @ [l] @ ms) \<and> cb_reachable c1 \<and> ul_steps D g0 g1 \<and>
    call_pre op inst cb_inst (exec_ghost inst cb_inst g0 c0 n (call_rids op (node_of nr0 n))) n (node_of nr0 n) \<and>
    call_post op inst cb_inst (exec_ghost inst cb_inst g1 c1 n (call_rids op (node_of nr1 n)))
      (exec_ghost inst cb_inst g0 c0 n (call_rids op (node_of nr0 n))) n (node_of nr0 n) (node_of nr1 n)"
proof -
  note call = called [unfolded log_call_def]
  obtain s fcs g c where pt: "program_point D N ls nr s fcs g c" using program_behavior_point [OF run] .
  obtain s0 fcs0 g0 c0 where pt0: "program_point D N (ls @ [l]) nr0 s0 fcs0 g0 c0" and n0: "n < length (nr_replicas nr0)"
    and moves: "node_moves D n (node_of nr n) (node_of nr0 n) \<or>
      \<not> pc_in_log (np_pc (node_of nr n)) \<and> np_pc (node_of nr0 n) \<noteq> HLoadHead"
    by (rule program_point_step [OF pt call [THEN conjunct2, THEN conjunct1] n])
  obtain s1 fcs1 g1 c1 where pt1: "program_point D N ((ls @ [l]) @ ms) nr1 s1 fcs1 g1 c1" and n1: "n < length (nr_replicas nr1)"
    and steps: "ul_steps D g0 g1" and since: "kept_since op n (node_of nr0 n) g0 (node_of nr1 n) g1"
    using program_inside_kept [OF _ pt0 n0, of op ms nr1] call by blast
  note d0 = program_pointD [OF pt0 n0] and d1 = program_pointD [OF pt1 n1]
  have "call_pre op inst cb_inst (exec_ghost inst cb_inst g0 c0 n (call_rids op (node_of nr0 n))) n (node_of nr0 n)"
    by (rule call_pre_holds [OF d0(5-7)])
      (use call moves advance_head_called_placed [OF program_pointD(5) [OF pt n] d0(5)] in auto)
  moreover have "call_post op inst cb_inst (exec_ghost inst cb_inst g1 c1 n (call_rids op (node_of nr1 n)))
      (exec_ghost inst cb_inst g0 c0 n (call_rids op (node_of nr0 n))) n (node_of nr0 n) (node_of nr1 n)"
    using call by (intro call_post_holds [OF d0(5) d1(5) d0(6) d1(6) d0(7) d1(7) _ _ since]) simp_all
  moreover obtain ks0 where "ul_behavior D N ks0 g0" "visible ks0 = visible (ls @ [l])" using d0(9) by blast
  moreover obtain ks1 where "ul_behavior D N ks1 g1" "visible ks1 = visible ((ls @ [l]) @ ms)" using d1(9) by blast
  ultimately show ?thesis using d0(8) d1(8) steps
    by (intro exI [of _ ks0] exI [of _ g0] exI [of _ c0] exI [of _ ks1] exI [of _ g1] exI [of _ c1]) simp
qed

section \<open>The tokens of a new log\<close>

record ('i, 'j, 'w, 'v) NrLogTokens =
  lt_num_replicas :: nat
  lt_replicas :: "NodeId \<rightharpoonup> ('i, 'v) token"
  lt_combiners :: "NodeId \<rightharpoonup> ('i, ULCombiner) token"
  lt_cb_combiners :: "NodeId \<rightharpoonup> ('j, 'w CBCombiner) token"
  lt_unbounded_log_instance :: 'i
  lt_cyclic_buffer_instance :: 'j

text \<open>\<open>ul_num\<close> and \<open>cb_num\<close> are the constants \<^verbatim>\<open>num_replicas\<close> of the instances.\<close>

definition nrlog_tokens_wf ::
    "('r, 'w, 'v, 'resp) Dispatch \<Rightarrow> ('i \<Rightarrow> nat) \<Rightarrow> ('j \<Rightarrow> nat) \<Rightarrow> ('i, 'j, 'w, 'v) NrLogTokens \<Rightarrow> nat \<Rightarrow> bool" where
  "nrlog_tokens_wf D ul_num cb_num tk num_replicas \<longleftrightarrow>
     lt_num_replicas tk = num_replicas \<and> ul_num (lt_unbounded_log_instance tk) = lt_num_replicas tk \<and>
     cb_num (lt_cyclic_buffer_instance tk) = lt_num_replicas tk \<and>
     (\<forall>i<num_replicas. lt_replicas tk i =
        Some \<lparr>tok_instance = lt_unbounded_log_instance tk, tok_key = i, tok_value = init_spec D\<rparr>) \<and>
     (\<forall>i<num_replicas. lt_combiners tk i =
        Some \<lparr>tok_instance = lt_unbounded_log_instance tk, tok_key = i, tok_value = CReady\<rparr>) \<and>
     (\<forall>i<num_replicas. lt_cb_combiners tk i =
        Some \<lparr>tok_instance = lt_cyclic_buffer_instance tk, tok_key = i, tok_value = CBIdle\<rparr>)"

abbreviation tokens_of :: "'i \<Rightarrow> (nat \<rightharpoonup> 'v) \<Rightarrow> nat \<rightharpoonup> ('i, 'v) token" where
  "tokens_of inst m \<equiv> \<lambda>i. map_option (\<lambda>v. \<lparr>tok_instance = inst, tok_key = i, tok_value = v\<rparr>) (m i)"

definition nrlog_tokens ::
    "'i \<Rightarrow> 'j \<Rightarrow> ('r, 'w, 'v, 'resp) UnboundedLog \<Rightarrow> 'w CyclicBuffer \<Rightarrow> ('i, 'j, 'w, 'v) NrLogTokens" where
  "nrlog_tokens inst cb_inst g c =
     \<lparr>lt_num_replicas = ul_num_replicas g, lt_replicas = tokens_of inst (ul_replicas g),
      lt_combiners = tokens_of inst (ul_combiner g), lt_cb_combiners = tokens_of cb_inst (cb_combiner c),
      lt_unbounded_log_instance = inst, lt_cyclic_buffer_instance = cb_inst\<rparr>"

lemma new_log_tokens:
  "nrlog_tokens_wf D (\<lambda>_. N) (\<lambda>_. N) (nrlog_tokens inst cb_inst (ul_initialize D N) (initial_buffer N)) N"
  by (simp add: nrlog_tokens_wf_def nrlog_tokens_def ul_initialize_def initial_buffer_def map_below_def)

section \<open>Placing the operations\<close>

text \<open>The tail is a token without a key.\<close>

record ('i, 'w, 'resp) AppendEntriesGhostState =
  ae_idx :: nat
  ae_old_tail :: nat
  ae_log_entries :: "nat \<rightharpoonup> ('i, 'w LogEntry) token"
  ae_local_updates :: "nat \<rightharpoonup> ('i, ('w, 'resp) UpdateState) token"
  ae_combiner :: "('i, ULCombiner) token"
  ae_tail :: "'i \<times> nat"
  ae_request_ids :: "ReqId list"
  ae_operations :: "'w list"

definition append_entries_wf :: "('i, 'w, 'resp) AppendEntriesGhostState \<Rightarrow> NodeId \<Rightarrow> nat \<Rightarrow> 'i \<Rightarrow> bool" where
  "append_entries_wf st nid ridx inst \<longleftrightarrow>
     ae_idx st \<le> length (ae_request_ids st) \<and> ridx < length (ae_request_ids st) \<and>
     ae_tail st = (inst, ae_old_tail st + ae_idx st) \<and>
     (\<exists>queue. ae_combiner st = \<lparr>tok_instance = inst, tok_key = nid, tok_value = CPlaced queue\<rparr> \<and>
        length queue = ae_idx st \<and> (\<forall>i<ae_idx st. ae_request_ids st ! i = queue ! i)) \<and>
     (\<forall>i. i < ae_idx st \<longleftrightarrow> i \<in> dom (ae_log_entries st)) \<and>
     (\<forall>i<length (ae_request_ids st). i \<in> dom (ae_local_updates st)) \<and>
     (\<forall>i<ae_idx st. \<exists>idx. ae_local_updates st i =
        Some \<lparr>tok_instance = inst, tok_key = ae_request_ids st ! i, tok_value = UPlaced (ae_operations st ! i) idx\<rparr>) \<and>
     (\<forall>i. ae_idx st \<le> i \<and> i < length (ae_request_ids st) \<longrightarrow> ae_local_updates st i =
        Some \<lparr>tok_instance = inst, tok_key = ae_request_ids st ! i, tok_value = UInit (ae_operations st ! i)\<rparr>) \<and>
     (\<forall>i<ae_idx st. ae_log_entries st i =
        Some \<lparr>tok_instance = inst, tok_key = ae_old_tail st + i,
              tok_value = \<lparr>le_op = ae_operations st ! i, le_node_id = nid\<rparr>\<rparr>)"

text \<open>The function, on the machine whose tokens the state collects.\<close>

fun unbounded_log_append_entries ::
    "NodeId \<Rightarrow> ReqId list \<Rightarrow> nat \<Rightarrow> ('r, 'w, 'v, 'resp) UnboundedLog \<Rightarrow> ('r, 'w, 'v, 'resp) UnboundedLog option" where
  "unbounded_log_append_entries nid rids 0 g = update_place_ops_in_log_one g nid (rids ! 0)"
| "unbounded_log_append_entries nid rids (Suc r) g =
     (case unbounded_log_append_entries nid rids r g of
        Some g' \<Rightarrow> update_place_ops_in_log_one g' nid (rids ! Suc r)
      | None \<Rightarrow> None)"

definition append_entries_ghost ::
    "'i \<Rightarrow> NodeId \<Rightarrow> nat \<Rightarrow> ReqId list \<Rightarrow> 'w list \<Rightarrow> nat \<Rightarrow> ('r, 'w, 'v, 'resp) UnboundedLog \<Rightarrow>
     ('i, 'w, 'resp) AppendEntriesGhostState" where
  "append_entries_ghost inst nid old_tail rids ops idx g =
     \<lparr>ae_idx = idx, ae_old_tail = old_tail,
      ae_log_entries = (\<lambda>i. if i < idx
        then map_option (\<lambda>e. \<lparr>tok_instance = inst, tok_key = old_tail + i, tok_value = e\<rparr>) (ul_log g (old_tail + i)) else None),
      ae_local_updates = (\<lambda>i. if i < length rids
        then map_option (\<lambda>u. \<lparr>tok_instance = inst, tok_key = rids ! i, tok_value = u\<rparr>) (ul_local_updates g (rids ! i)) else None),
      ae_combiner = \<lparr>tok_instance = inst, tok_key = nid, tok_value = the (ul_combiner g nid)\<rparr>,
      ae_tail = (inst, ul_tail g), ae_request_ids = rids, ae_operations = ops\<rparr>"

text \<open>What the invariant says of the machine.\<close>

definition placed_upto :: "NodeId \<Rightarrow> nat \<Rightarrow> ReqId list \<Rightarrow> 'w list \<Rightarrow> nat \<Rightarrow> ('r, 'w, 'v, 'resp) UnboundedLog \<Rightarrow> bool" where
  "placed_upto nid old_tail rids ops idx g \<longleftrightarrow>
     idx \<le> length rids \<and> ul_tail g = old_tail + idx \<and> ul_combiner g nid = Some (CPlaced (take idx rids)) \<and>
     (\<forall>i<idx. \<exists>k. ul_local_updates g (rids ! i) = Some (UPlaced (ops ! i) k)) \<and>
     (\<forall>i. idx \<le> i \<and> i < length rids \<longrightarrow> ul_local_updates g (rids ! i) = Some (UInit (ops ! i))) \<and>
     (\<forall>i<idx. ul_log g (old_tail + i) = Some \<lparr>le_op = ops ! i, le_node_id = nid\<rparr>)"

lemma placed_upto_wf:
  assumes "placed_upto nid old_tail rids ops idx g" and "ridx < length rids"
  shows "append_entries_wf (append_entries_ghost inst nid old_tail rids ops idx g) nid ridx inst"
proof -
  have "\<exists>u. ul_local_updates g (rids ! i) = Some u" if "i < length rids" for i
    using assms(1) that unfolding placed_upto_def by (cases "i < idx") auto
  then show ?thesis
    using assms unfolding append_entries_wf_def append_entries_ghost_def placed_upto_def
    by (auto simp: dom_def)
qed

lemma place_next:
  assumes pl: "placed_upto nid old_tail rids ops idx g" and idx: "idx < length rids" and d: "distinct rids"
  obtains g' where "update_place_ops_in_log_one g nid (rids ! idx) = Some g'" "placed_upto nid old_tail rids ops (Suc idx) g'"
proof -
  note p = pl [unfolded placed_upto_def]
  let ?g = "g\<lparr>ul_tail := ul_tail g + 1, ul_log := (ul_log g)(ul_tail g \<mapsto> \<lparr>le_op = ops ! idx, le_node_id = nid\<rparr>),
      ul_local_updates := (ul_local_updates g)(rids ! idx \<mapsto> UPlaced (ops ! idx) (ul_tail g)),
      ul_combiner := (ul_combiner g)(nid \<mapsto> CPlaced (take idx rids @ [rids ! idx]))\<rparr>"
  have other: "rids ! i \<noteq> rids ! idx" if "i < length rids" "i \<noteq> idx" for i
    using d idx that by (simp add: nth_eq_iff_index_eq)
  have "update_place_ops_in_log_one g nid (rids ! idx) = Some ?g"
    using p idx by (simp add: update_place_ops_in_log_one_def)
  moreover have "placed_upto nid old_tail rids ops (Suc idx) ?g"
    using p idx other unfolding placed_upto_def by (auto simp: less_Suc_eq take_Suc_conv_app_nth)
  ultimately show thesis by (rule that)
qed

text \<open>The contract of the function: from the invariant with nothing placed it returns it with all placed up to \<open>ridx\<close>.\<close>

lemma append_entries_places:
  assumes "placed_upto nid old_tail rids ops 0 g" and "distinct rids" and "ridx < length rids"
  shows "\<exists>g'. unbounded_log_append_entries nid rids ridx g = Some g' \<and> placed_upto nid old_tail rids ops (Suc ridx) g'"
  using assms(3)
proof (induction ridx)
  case 0
  from place_next [OF assms(1) 0 assms(2)] show ?case by auto
next
  case (Suc r)
  then obtain g' where g': "unbounded_log_append_entries nid rids r g = Some g'" "placed_upto nid old_tail rids ops (Suc r) g'"
    by auto
  from place_next [OF g'(2) Suc.prems assms(2)] g'(1) show ?case by auto
qed

text \<open>It starts where \<^verbatim>\<open>append\<close> does, from the ghost data the precondition of \<^verbatim>\<open>append\<close> describes.\<close>

lemma append_pre_placed:
  assumes "append_pre (exec_ghost inst cb_inst g c n rids) n data ops inst cb_inst"
  shows "placed_upto n (ul_tail g) rids ops 0 (set_combiner g n (CPlaced []))"
  using assms by (auto simp: append_pre_def placed_upto_def exec_ghost_update)

lemma append_places_operations:
  assumes pre: "append_pre (exec_ghost inst cb_inst g c n rids) n data ops inst cb_inst" and "distinct rids" "rids \<noteq> []"
    and u: "ul_combiner g n = Some u"
  shows "\<exists>g1 g'. exec_trivial_start g n = Some g1 \<and>
    unbounded_log_append_entries n rids (length rids - 1) g1 = Some g' \<and> ul_combiner g' n = Some (CPlaced rids) \<and>
    ul_tail g' = ul_tail g + length ops \<and>
    append_entries_wf (append_entries_ghost inst n (ul_tail g) rids ops (length rids) g') n (length rids - 1) inst"
proof -
  have len: "length rids = length ops" using pre by (simp add: append_pre_def)
  have last: "Suc (length rids - 1) = length rids" "length rids - 1 < length rids" using assms(3) by (cases rids; simp)+
  obtain g' where g': "unbounded_log_append_entries n rids (length rids - 1) (set_combiner g n (CPlaced [])) = Some g'"
      "placed_upto n (ul_tail g) rids ops (length rids) g'"
    using append_entries_places [OF append_pre_placed [OF pre] assms(2) last(2)] unfolding last(1) by blast
  have start: "exec_trivial_start g n = Some (set_combiner g n (CPlaced []))"
    using pre u by (simp add: append_pre_def exec_trivial_start_def)
  have "ul_combiner g' n = Some (CPlaced rids)" "ul_tail g' = ul_tail g + length ops"
    using g'(2) len by (simp_all add: placed_upto_def)
  then show ?thesis
    using start g'(1) placed_upto_wf [OF g'(2) last(2), of inst] by blast
qed

end
