(* ===== verification/NR_Contracts_Replica.thy ===== *)
theory NR_Contracts_Replica
  imports NR_Contracts_Log
begin

text \<open>
  The ghost invariants and contracts of the replica: of a context and of the two operations on
  it (\<^verbatim>\<open>exec/context.rs\<close>), of the combiner lock, of the data behind the reader-writer lock, and
  of collecting operations and delivering responses (\<^verbatim>\<open>exec/replica.rs\<close>). As in
  \<open>NR_Contracts_Log\<close> the ghosts are read off the machines the code simulates: the unbounded
  log, the cyclic buffer and the flat combiner of the replica.
\<close>

section \<open>Contexts\<close>

text \<open>The permission of a memory cell, and its content when it has one.\<close>

record 'a PointsTo =
  pt_pcell :: CellId
  pt_value :: "'a option"

record ('i, 'f, 'w, 'resp) ContextGhost =
  cg_batch_perms :: "('w, 'resp) PendingOperation PointsTo option"
  cg_slots :: "('f, SlotState) token"
  cg_update :: "('i, ('w, 'resp) UpdateState) token option"

text \<open>What the invariant requires in each state of the slot.\<close>

fun slot_ghost_ok ::
    "('w, 'resp) PendingOperation PointsTo option \<Rightarrow> ('i, ('w, 'resp) UpdateState) token option \<Rightarrow> CellId \<Rightarrow> 'i \<Rightarrow>
     SlotState \<Rightarrow> bool" where
  "slot_ghost_ok bp up cell inst SlotEmpty \<longleftrightarrow> up = None \<and> bp = None"
| "slot_ghost_ok bp up cell inst (SlotRequest rid) \<longleftrightarrow>
     (\<exists>op po. up = Some \<lparr>tok_instance = inst, tok_key = rid, tok_value = UInit op\<rparr> \<and>
        bp = Some \<lparr>pt_pcell = cell, pt_value = Some po\<rparr> \<and> po_op po = op)"
| "slot_ghost_ok bp up cell inst (SlotInProgress rid) \<longleftrightarrow> up = None \<and> bp = None"
| "slot_ghost_ok bp up cell inst (SlotResponse rid) \<longleftrightarrow>
     (\<exists>ret idx po. up = Some \<lparr>tok_instance = inst, tok_key = rid, tok_value = UDone ret idx\<rparr> \<and>
        bp = Some \<lparr>pt_pcell = cell, pt_value = Some po\<rparr> \<and> po_resp po = Some ret)"

definition context_ghost_inv ::
    "('i, 'f, 'w, 'resp) ContextGhost \<Rightarrow> 64 word \<Rightarrow> ThreadId \<Rightarrow> CellId \<Rightarrow> 'f \<Rightarrow> 'i \<Rightarrow> bool" where
  "context_ghost_inv gh v tid cell fc inst \<longleftrightarrow>
     tok_key (cg_slots gh) = tid \<and> tok_instance (cg_slots gh) = fc \<and> (v = 0 \<or> v = 1) \<and>
     (v = 0 \<longrightarrow> tok_value (cg_slots gh) = SlotEmpty \<or> (\<exists>rid. tok_value (cg_slots gh) = SlotResponse rid)) \<and>
     (v = 1 \<longrightarrow> (\<exists>rid. tok_value (cg_slots gh) = SlotRequest rid \<or> tok_value (cg_slots gh) = SlotInProgress rid)) \<and>
     slot_ghost_ok (cg_batch_perms gh) (cg_update gh) cell inst (tok_value (cg_slots gh))"

text \<open>The ghost a thread carries while it enqueues an operation or waits for its response.\<close>

record ('i, 'f, 'w, 'resp) FCClientRequestResponseGhost =
  cr_batch_perms :: "('w, 'resp) PendingOperation PointsTo option"
  cr_cell_id :: CellId
  cr_local_updates :: "('i, ('w, 'resp) UpdateState) token option"
  cr_fc_clients :: "('f, ClientState) token"

definition enqueue_op_pre ::
    "('i, 'f, 'w, 'resp) FCClientRequestResponseGhost \<Rightarrow> ThreadId \<Rightarrow> 'w \<Rightarrow> CellId \<Rightarrow> 'f \<Rightarrow> 'i \<Rightarrow> bool" where
  "enqueue_op_pre gh tid op batch_cell fc_inst inst \<longleftrightarrow>
     (\<exists>tok. cr_local_updates gh = Some tok \<and> tok_instance tok = inst \<and> tok_value tok = UInit op) \<and>
     cr_batch_perms gh = Some \<lparr>pt_pcell = cr_cell_id gh, pt_value = None\<rparr> \<and> cr_cell_id gh = batch_cell \<and>
     cr_fc_clients gh = \<lparr>tok_instance = fc_inst, tok_key = tid, tok_value = CLIdle\<rparr>"

definition enqueue_op_post ::
    "('i, 'f, 'w, 'resp) FCClientRequestResponseGhost \<Rightarrow> ('i, 'f, 'w, 'resp) FCClientRequestResponseGhost \<Rightarrow> bool" where
  "enqueue_op_post gh pre \<longleftrightarrow>
     tok_value (cr_fc_clients gh) = CLWaiting (tok_key (the (cr_local_updates pre))) \<and>
     tok_instance (cr_fc_clients gh) = tok_instance (cr_fc_clients pre) \<and>
     tok_key (cr_fc_clients gh) = tok_key (cr_fc_clients pre) \<and> cr_cell_id gh = cr_cell_id pre \<and>
     cr_batch_perms gh = None \<and> cr_local_updates gh = None"

definition dequeue_resp_pre ::
    "('i, 'f, 'w, 'resp) FCClientRequestResponseGhost \<Rightarrow> CellId \<Rightarrow> ThreadId \<Rightarrow> 'f \<Rightarrow> bool" where
  "dequeue_resp_pre gh batch_cell tid fc_inst \<longleftrightarrow>
     tok_key (cr_fc_clients gh) = tid \<and> tok_instance (cr_fc_clients gh) = fc_inst \<and>
     (\<exists>rid. tok_value (cr_fc_clients gh) = CLWaiting rid) \<and>
     cr_batch_perms gh = None \<and> cr_local_updates gh = None \<and> cr_cell_id gh = batch_cell"

definition dequeue_resp_post ::
    "('i, 'f, 'w, 'resp) FCClientRequestResponseGhost \<Rightarrow> ('i, 'f, 'w, 'resp) FCClientRequestResponseGhost \<Rightarrow>
     'resp option \<Rightarrow> 'i \<Rightarrow> bool" where
  "dequeue_resp_post gh pre ret inst \<longleftrightarrow>
     (case ret of
        Some resp \<Rightarrow>
          cr_cell_id gh = cr_cell_id pre \<and> cr_batch_perms gh = Some \<lparr>pt_pcell = cr_cell_id gh, pt_value = None\<rparr> \<and>
          (\<exists>tok idx. cr_local_updates gh = Some tok \<and> tok_instance tok = inst \<and> tok_value tok = UDone resp idx \<and>
             tok_value (cr_fc_clients pre) = CLWaiting (tok_key tok)) \<and>
          tok_instance (cr_fc_clients gh) = tok_instance (cr_fc_clients pre) \<and>
          tok_key (cr_fc_clients gh) = tok_key (cr_fc_clients pre) \<and> tok_value (cr_fc_clients gh) = CLIdle
      | None \<Rightarrow> gh = pre)"

section \<open>The combiner\<close>

text \<open>The token of the combiner of a flat combiner has no key.\<close>

record ('f, 'w, 'resp) CombinerLockStateGhost =
  cl_flat_combiner :: "'f \<times> FCState"
  cl_collected_operations_perm :: "'w list PointsTo"
  cl_collected_operations_per_thread_perm :: "64 word list PointsTo"
  cl_responses_token :: "'resp list PointsTo"

definition combiner_lock_inv ::
    "('f, 'w, 'resp) CombinerLockStateGhost \<Rightarrow> 'f \<Rightarrow> CellId \<Rightarrow> CellId \<Rightarrow> CellId \<Rightarrow> bool" where
  "combiner_lock_inv gh combiner_instance responses_id op_buffer_id thread_ops \<longleftrightarrow>
     cl_flat_combiner gh = (combiner_instance, FCCollecting []) \<and>
     cl_collected_operations_perm gh = \<lparr>pt_pcell = op_buffer_id, pt_value = Some []\<rparr> \<and>
     cl_responses_token gh = \<lparr>pt_pcell = responses_id, pt_value = Some []\<rparr> \<and>
     cl_collected_operations_per_thread_perm gh = \<lparr>pt_pcell = thread_ops, pt_value = Some []\<rparr>"

text \<open>The atomic of the combiner lock: the ghost is in the lock while the lock is free.\<close>

definition combiner_atomic_inv ::
    "64 word \<Rightarrow> ('f, 'w, 'resp) CombinerLockStateGhost option \<Rightarrow> 'f \<Rightarrow> CellId \<Rightarrow> CellId \<Rightarrow> CellId \<Rightarrow> bool" where
  "combiner_atomic_inv v gh fc responses_id op_buffer_id thread_ops \<longleftrightarrow>
     (v = 0 \<longleftrightarrow> gh \<noteq> None) \<and>
     (case gh of Some st \<Rightarrow> combiner_lock_inv st fc responses_id op_buffer_id thread_ops | None \<Rightarrow> True)"

record ('i, 'f, 'w, 'resp) ThreadOpsData =
  td_flat_combiner :: "'f \<times> FCState"
  td_request_ids :: "ReqId list"
  td_local_updates :: "nat \<rightharpoonup> ('i, ('w, 'resp) UpdateState) token"
  td_cell_permissions :: "nat \<rightharpoonup> ('w, 'resp) PendingOperation PointsTo"

text \<open>\<open>cell i\<close> is the cell of context \<open>i\<close>.\<close>

definition shared_inv ::
    "('i, 'f, 'w, 'resp) ThreadOpsData \<Rightarrow> 'f \<Rightarrow> 64 word list \<Rightarrow> (ThreadId \<Rightarrow> CellId) \<Rightarrow> bool" where
  "shared_inv td fc_inst num_ops_per_thread cell \<longleftrightarrow>
     (\<exists>elems. td_flat_combiner td = (fc_inst, FCResponding elems 0) \<and> length elems = MAX_THREADS_PER_REPLICA \<and>
        length num_ops_per_thread = MAX_THREADS_PER_REPLICA \<and>
        (\<forall>i<length elems. (num_ops_per_thread ! i > 0) = (elems ! i \<noteq> None) \<and>
           (elems ! i \<noteq> None \<longrightarrow>
              (\<exists>po. td_cell_permissions td i = Some \<lparr>pt_pcell = cell i, pt_value = Some po\<rparr>))))"

definition responding_rids :: "('i, 'f, 'w, 'resp) ThreadOpsData \<Rightarrow> ReqId option list" where
  "responding_rids td = (case snd (td_flat_combiner td) of FCResponding elems idx \<Rightarrow> elems | FCCollecting elems \<Rightarrow> elems)"

definition distribute_thread_resps_pre ::
    "('i, 'f, 'w, 'resp) ThreadOpsData \<Rightarrow> 'f \<Rightarrow> 'i \<Rightarrow> 64 word list \<Rightarrow> 'resp list \<Rightarrow> (ThreadId \<Rightarrow> CellId) \<Rightarrow> bool" where
  "distribute_thread_resps_pre td fc_inst inst num_ops_per_thread responses cell \<longleftrightarrow>
     shared_inv td fc_inst num_ops_per_thread cell \<and> length (td_request_ids td) = length responses \<and>
     (\<forall>i<length (td_request_ids td). \<exists>idx. td_local_updates td i =
        Some \<lparr>tok_instance = inst, tok_key = td_request_ids td ! i, tok_value = UDone (responses ! i) idx\<rparr>) \<and>
     rids_match (responding_rids td) (td_request_ids td) 0 (length (responding_rids td)) 0 (length (td_request_ids td))"

definition distribute_thread_resps_post :: "('i, 'f, 'w, 'resp) ThreadOpsData \<Rightarrow> 'f \<Rightarrow> bool" where
  "distribute_thread_resps_post td fc_inst \<longleftrightarrow> td_flat_combiner td = (fc_inst, FCCollecting [])"

definition collect_thread_ops_post ::
    "('i, 'f, 'w, 'resp) ThreadOpsData \<Rightarrow> 'f \<Rightarrow> 'i \<Rightarrow> 64 word list \<Rightarrow> 'w list \<Rightarrow> (ThreadId \<Rightarrow> CellId) \<Rightarrow> bool" where
  "collect_thread_ops_post td fc_inst inst num_ops_per_thread operations cell \<longleftrightarrow>
     shared_inv td fc_inst num_ops_per_thread cell \<and> length (td_request_ids td) = length operations \<and>
     (\<forall>i. i < length (td_request_ids td) \<longleftrightarrow> i \<in> dom (td_local_updates td)) \<and>
     (\<forall>i<length (td_request_ids td). td_local_updates td i =
        Some \<lparr>tok_instance = inst, tok_key = td_request_ids td ! i, tok_value = UInit (operations ! i)\<rparr>) \<and>
     rids_match (responding_rids td) (td_request_ids td) 0 (length (responding_rids td)) 0 (length (td_request_ids td))"

section \<open>The data behind the lock\<close>

record ('i, 'j, 'w, 'v) ReplicatedDataStructure =
  rd_data :: 'v
  rd_replica :: "('i, 'v) token"
  rd_combiner :: "('i, ULCombiner) token"
  rd_cb_combiner :: "('j, 'w CBCombiner) token"

definition replicated_data_wf :: "('i, 'j, 'w, 'v) ReplicatedDataStructure \<Rightarrow> NodeId \<Rightarrow> 'i \<Rightarrow> 'j \<Rightarrow> bool" where
  "replicated_data_wf rd nid inst cb \<longleftrightarrow>
     rd_replica rd = \<lparr>tok_instance = inst, tok_key = nid, tok_value = rd_data rd\<rparr> \<and>
     rd_combiner rd = \<lparr>tok_instance = inst, tok_key = nid, tok_value = CReady\<rparr> \<and>
     rd_cb_combiner rd = \<lparr>tok_instance = cb, tok_key = nid, tok_value = CBIdle\<rparr>"

record ('i, 'j, 'w, 'v) ReplicaConfig =
  rc_replica :: "('i, 'v) token"
  rc_combiner :: "('i, ULCombiner) token"
  rc_cb_combiner :: "('j, 'w CBCombiner) token"
  rc_unbounded_log_instance :: 'i
  rc_cyclic_buffer_instance :: 'j

text \<open>\<open>log_of\<close> is the constant \<^verbatim>\<open>unbounded_log_instance\<close> of an instance of the cyclic buffer.\<close>

definition replica_config_wf ::
    "('r, 'w, 'v, 'resp) Dispatch \<Rightarrow> ('i \<Rightarrow> nat) \<Rightarrow> ('j \<Rightarrow> nat) \<Rightarrow> ('j \<Rightarrow> 'i) \<Rightarrow> ('i, 'j, 'w, 'v) ReplicaConfig \<Rightarrow> NodeId \<Rightarrow> bool" where
  "replica_config_wf D ul_num cb_num log_of cfg nid \<longleftrightarrow>
     log_of (rc_cyclic_buffer_instance cfg) = rc_unbounded_log_instance cfg \<and>
     ul_num (rc_unbounded_log_instance cfg) = cb_num (rc_cyclic_buffer_instance cfg) \<and>
     nid < ul_num (rc_unbounded_log_instance cfg) \<and>
     rc_replica cfg = \<lparr>tok_instance = rc_unbounded_log_instance cfg, tok_key = nid, tok_value = init_spec D\<rparr> \<and>
     rc_combiner cfg = \<lparr>tok_instance = rc_unbounded_log_instance cfg, tok_key = nid, tok_value = CReady\<rparr> \<and>
     rc_cb_combiner cfg = \<lparr>tok_instance = rc_cyclic_buffer_instance cfg, tok_key = nid, tok_value = CBIdle\<rparr>"

end
