(* ===== verification/NR_Contracts_Sim.thy ===== *)
theory NR_Contracts_Sim
  imports NR_Contracts_Replica
begin

text \<open>
  The ghosts of \<open>NR_Contracts_Replica\<close> as they are in a run of the library, and the proof that the
  invariants and contracts hold of them: every context and the combiner lock satisfy their
  invariants at all times, and each operation of the replica is called with its precondition and
  returns with its postcondition.
\<close>

section \<open>Contexts\<close>

text \<open>The request is with the thread while its client is idle, else with the slot or the combiner.\<close>

definition context_ghost ::
    "'i \<Rightarrow> 'f \<Rightarrow> CellId \<Rightarrow> (ReqId \<rightharpoonup> ('w, 'resp) UpdateState) \<Rightarrow> ThreadId \<Rightarrow> SlotState \<Rightarrow> ('w, 'resp) Context \<Rightarrow>
     ('i, 'f, 'w, 'resp) ContextGhost" where
  "context_ghost inst fci cell ups t slot cx =
     (let held = (case slot of SlotRequest rid \<Rightarrow> Some rid | SlotResponse rid \<Rightarrow> Some rid | _ \<Rightarrow> None) in
      \<lparr>cg_batch_perms = map_option (\<lambda>_. \<lparr>pt_pcell = cell, pt_value = cx_batch cx\<rparr>) held,
       cg_slots = \<lparr>tok_instance = fci, tok_key = t, tok_value = slot\<rparr>,
       cg_update = (case held of Some rid \<Rightarrow> map_option (\<lambda>u. \<lparr>tok_instance = inst, tok_key = rid, tok_value = u\<rparr>) (ups rid)
         | None \<Rightarrow> None)\<rparr>)"

lemma context_ghost_keeps_inv:
  assumes "slot_rel rid cx u slot" and "update_rel u (ups rid)"
  shows "context_ghost_inv (context_ghost inst fci cell ups t slot cx) (cx_atomic cx) t cell fci inst"
  using assms by (cases slot) (auto simp: context_ghost_inv_def context_ghost_def Let_def)

definition client_ghost ::
    "'i \<Rightarrow> 'f \<Rightarrow> CellId \<Rightarrow> (ReqId \<rightharpoonup> ('w, 'resp) UpdateState) \<Rightarrow> ThreadId \<Rightarrow> ReqId \<Rightarrow> ClientState \<Rightarrow> ('w, 'resp) Context \<Rightarrow>
     ('i, 'f, 'w, 'resp) FCClientRequestResponseGhost" where
  "client_ghost inst fci cell ups t rid cl cx =
     \<lparr>cr_batch_perms = (if cl = CLIdle then Some \<lparr>pt_pcell = cell, pt_value = cx_batch cx\<rparr> else None),
      cr_cell_id = cell,
      cr_local_updates = (if cl = CLIdle
        then map_option (\<lambda>u. \<lparr>tok_instance = inst, tok_key = rid, tok_value = u\<rparr>) (ups rid) else None),
      cr_fc_clients = \<lparr>tok_instance = fci, tok_key = t, tok_value = cl\<rparr>\<rparr>"

text \<open>
  What the points of a thread require: \<open>TPut op\<close> is the entry of \<^verbatim>\<open>enqueue_op\<close> and
  \<open>TTryLoad TryUpdate\<close> follows its return; \<open>TDequeue i\<close> is the entry of \<^verbatim>\<open>dequeue_response\<close>,
  and \<open>TReturnMut x\<close> its return with a response.
\<close>

definition enqueue_returns where
  "enqueue_returns gh rid t cell fci inst \<longleftrightarrow>
     (\<forall>pre op. enqueue_op_pre pre t op cell fci inst \<and> tok_key (the (cr_local_updates pre)) = rid \<longrightarrow> enqueue_op_post gh pre)"

definition dequeue_returns where
  "dequeue_returns gh rid resp t cell fci inst \<longleftrightarrow>
     (\<forall>pre. dequeue_resp_pre pre cell t fci \<and> tok_value (cr_fc_clients pre) = CLWaiting rid \<longrightarrow>
        dequeue_resp_post gh pre (Some resp) inst)"

fun client_contract ::
    "'i \<Rightarrow> 'f \<Rightarrow> CellId \<Rightarrow> ('i, 'f, 'w, 'resp) FCClientRequestResponseGhost \<Rightarrow> ThreadId \<Rightarrow> ReqId \<Rightarrow>
     ('r, 'w, 'resp) ThreadPc \<Rightarrow> bool" where
  "client_contract inst fci cell gh t rid (TPut op) \<longleftrightarrow> enqueue_op_pre gh t op cell fci inst"
| "client_contract inst fci cell gh t rid (TTryLoad TryUpdate) \<longleftrightarrow>
     enqueue_returns gh rid t cell fci inst \<and> dequeue_resp_pre gh cell t fci"
| "client_contract inst fci cell gh t rid (TDequeue iter) \<longleftrightarrow> dequeue_resp_pre gh cell t fci"
| "client_contract inst fci cell gh t rid (TReturnMut x) \<longleftrightarrow> dequeue_returns gh rid x t cell fci inst"
| "client_contract inst fci cell gh t rid _ \<longleftrightarrow> True"

lemma client_keeps_contract:
  assumes rel: "client_rel n rid cx (Some cl) sl u r pc" and u: "update_rel u (ups rid)"
  shows "client_contract inst fci cell (client_ghost inst fci cell ups t rid cl cx) t rid pc"
proof (cases pc)
  case (TTryLoad k)
  then show ?thesis
    using rel by (cases k) (auto simp: enqueue_returns_def enqueue_op_post_def enqueue_op_pre_def dequeue_resp_pre_def client_ghost_def)
next
  case (TReturnMut x)
  then have "cl = CLIdle" "cx_batch cx = None" "u = Some (UpDone x)" using rel by simp_all
  with u show ?thesis
    using TReturnMut by (auto simp: dequeue_returns_def dequeue_resp_post_def dequeue_resp_pre_def client_ghost_def)
qed (use rel u in \<open>auto simp: enqueue_op_pre_def dequeue_resp_pre_def client_ghost_def\<close>)

section \<open>The combiner\<close>

text \<open>\<open>ids\<close> are the cells of the buffers for operations, counts and responses.\<close>

definition combiner_lock_ghost ::
    "'f \<Rightarrow> CellId \<times> CellId \<times> CellId \<Rightarrow> FlatCombiner \<Rightarrow> ('r, 'w, 'v, 'resp) Replica \<Rightarrow> ('f, 'w, 'resp) CombinerLockStateGhost option" where
  "combiner_lock_ghost fci ids fc rp =
     (case ids of (ops, counts, resps) \<Rightarrow>
        if rp_combiner rp = 0
        then Some \<lparr>cl_flat_combiner = (fci, fc_combiner fc),
          cl_collected_operations_perm = \<lparr>pt_pcell = ops, pt_value = Some (np_ops (rp_node rp))\<rparr>,
          cl_collected_operations_per_thread_perm = \<lparr>pt_pcell = counts, pt_value = Some (rp_num_ops rp)\<rparr>,
          cl_responses_token = \<lparr>pt_pcell = resps, pt_value = Some (np_responses (rp_node rp))\<rparr>\<rparr>
        else None)"

lemma combiner_lock_keeps_inv:
  assumes rr: "system_replica_rel s n fc rp" and sr: "system_rel s g c" and n: "n < length (ns_nodes s)"
  shows "combiner_atomic_inv (rp_combiner rp) (combiner_lock_ghost fci (ops, counts, resps) fc rp) fci resps ops counts"
proof (cases "rp_combiner rp = 0")
  case True
  have free: "combiner_free (fc_combiner fc) (rp_num_ops rp) (ns_nodes s ! n)"
    by (rule combinerD_free(1) [OF replica_relD(10) [OF rr] True])
  obtain u v where "pc_rel (ul_num_replicas g) (ul_tail g) (ul_log g) (nl_slog (ns_log s)) n (ns_nodes s ! n) u v
      (ul_local_updates g) (np_pc (ns_nodes s ! n))"
    using system_relD(3) [OF sr n] by (auto simp: node_rel_def)
  then have "np_ops (ns_nodes s ! n) = []" "np_responses (ns_nodes s ! n) = []"
    using free by (simp_all add: combiner_free_def)
  then show ?thesis
    using True free replica_relD(1) [OF rr]
    by (simp add: combiner_atomic_inv_def combiner_lock_ghost_def combiner_lock_inv_def combiner_free_def)
qed (simp add: combiner_atomic_inv_def combiner_lock_ghost_def)

definition thread_ops_ghost ::
    "'i \<Rightarrow> 'f \<Rightarrow> (ThreadId \<Rightarrow> CellId) \<Rightarrow> (ReqId \<rightharpoonup> ('w, 'resp) UpdateState) \<Rightarrow> FlatCombiner \<Rightarrow> ('r, 'w, 'v, 'resp) Replica \<Rightarrow>
     ('i, 'f, 'w, 'resp) ThreadOpsData" where
  "thread_ops_ghost inst fci cell ups fc rp =
     (let rids = np_rids (rp_node rp) in
      \<lparr>td_flat_combiner = (fci, fc_combiner fc), td_request_ids = rids,
       td_local_updates = (\<lambda>i. if i < length rids
         then map_option (\<lambda>u. \<lparr>tok_instance = inst, tok_key = rids ! i, tok_value = u\<rparr>) (ups (rids ! i)) else None),
       td_cell_permissions = (\<lambda>i. if in_progress_at fc i
         then Some \<lparr>pt_pcell = cell i, pt_value = cx_batch (rp_contexts rp ! i)\<rparr> else None)\<rparr>)"

text \<open>
  \<open>TAcquireWrite k\<close> follows the return of \<^verbatim>\<open>collect_thread_ops\<close>, \<open>TDistribute k 0\<close> is the entry
  of \<^verbatim>\<open>distribute_thread_resps\<close>, and \<open>TUnlock k\<close> follows its return.
\<close>

fun combiner_contract ::
    "'i \<Rightarrow> 'f \<Rightarrow> (ThreadId \<Rightarrow> CellId) \<Rightarrow> ('i, 'f, 'w, 'resp) ThreadOpsData \<Rightarrow> 64 word list \<Rightarrow> ('w, 'v, 'resp) Node \<Rightarrow>
     ('r, 'w, 'resp) ThreadPc \<Rightarrow> bool" where
  "combiner_contract inst fci cell td counts p (TAcquireWrite k) \<longleftrightarrow>
     collect_thread_ops_post td fci inst counts (np_ops p) cell \<and> length (np_ops p) \<le> MAX_REQUESTS"
| "combiner_contract inst fci cell td counts p (TDistribute k 0) \<longleftrightarrow>
     distribute_thread_resps_pre td fci inst counts (np_responses p) cell"
| "combiner_contract inst fci cell td counts p (TUnlock k) \<longleftrightarrow> distribute_thread_resps_post td fci"
| "combiner_contract inst fci cell td counts p _ \<longleftrightarrow> True"

lemma collected_shared:
  assumes rr: "system_replica_rel s n fc rp" and e: "fc_combiner fc = FCResponding elems 0" "length elems = MAX_THREADS_PER_REPLICA"
    and ops: "rp_num_ops rp = op_counts elems"
  shows "shared_inv (thread_ops_ghost inst fci cell ups fc rp) fci (rp_num_ops rp) cell"
proof -
  have cells: "\<exists>po. in_progress_at fc i \<and> cx_batch (rp_contexts rp ! i) = Some po"
    if i: "i < MAX_THREADS_PER_REPLICA" and rid: "elems ! i = Some rid" for i rid
  proof -
    note r = replica_relD [OF rr] and ok = fc_okD(2) [OF replica_fc_ok [OF rr], of i]
    obtain x where x: "fc_slots fc i = Some x" "slot_rel (th_rid (rp_threads rp ! i)) (rp_contexts rp ! i)
        (ns_updates s (th_rid (rp_threads rp ! i))) x"
      using thread_relD(2) [OF r(11) [OF i]] by blast
    then have "x = SlotInProgress rid" using ok i r(4) rid e(1) by simp
    then show ?thesis using x by (auto simp: in_progress_at_def)
  qed
  have "\<exists>po. in_progress_at fc i \<and> cx_batch (rp_contexts rp ! i) = Some po"
    if i: "i < MAX_THREADS_PER_REPLICA" and some: "elems ! i \<noteq> None" for i
    using cells [OF i] some by (cases "elems ! i") simp_all
  then show ?thesis
    using e ops by (auto simp: shared_inv_def thread_ops_ghost_def Let_def)
qed

lemma collected_rids:
  assumes "fc_combiner fc = FCResponding elems idx" and "np_rids (rp_node rp) = somes elems"
  shows "rids_match (responding_rids (thread_ops_ghost inst fci cell ups fc rp)) (td_request_ids (thread_ops_ghost inst fci cell ups fc rp))
    0 (length (responding_rids (thread_ops_ghost inst fci cell ups fc rp))) 0 (length (td_request_ids (thread_ops_ghost inst fci cell ups fc rp)))"
  using assms by (simp add: rids_match_all responding_rids_def thread_ops_ghost_def Let_def)

lemma combiner_keeps_contract:
  fixes rp :: "('r, 'w, 'v, 'resp) Replica"
  assumes rr: "system_replica_rel s n fc rp" and sr: "system_rel s g c" and n: "n < length (ns_nodes s)"
    and t: "t < MAX_THREADS_PER_REPLICA"
  shows "combiner_contract inst fci cell (thread_ops_ghost inst fci cell (ul_local_updates g) fc rp) (rp_num_ops rp) (rp_node rp)
    (th_pc (rp_threads rp ! t))"
proof -
  let ?td = "thread_ops_ghost inst fci cell (ul_local_updates g) fc rp" and ?p = "ns_nodes s ! n"
  note r = replica_relD [OF rr]
  have len: "length (np_ops ?p) = length (np_rids ?p)" "length (np_ops ?p) \<le> MAX_REQUESTS"
    and pc: "\<exists>u v. pc_rel (ul_num_replicas g) (ul_tail g) (ul_log g) (nl_slog (ns_log s)) n ?p u v (ul_local_updates g) (np_pc ?p)"
    using system_relD(3) [OF sr n] by (auto simp: node_rel_def)
  show ?thesis
  proof (cases "th_pc (rp_threads rp ! t)")
    case (TAcquireWrite k)
    then have cm: "all_collected (fc_combiner fc) 0 (rp_num_ops rp) ?p" "np_pc ?p = NCollect"
      using combinerD(3) [OF r(10) t] by simp_all
    then obtain elems where e: "fc_combiner fc = FCResponding elems 0" "length elems = MAX_THREADS_PER_REPLICA"
        "np_rids ?p = somes elems" "rp_num_ops rp = op_counts elems"
      by (auto simp: all_collected_def collected_def)
    have new: "ups_new ?p (ul_local_updates g)" using pc cm(2) by auto
    have "collect_thread_ops_post ?td fci inst (rp_num_ops rp) (np_ops (rp_node rp)) cell"
      unfolding collect_thread_ops_post_def
      using collected_shared [OF rr e(1,2,4)] collected_rids [of fc elems 0 rp] e(1,3) r(1) len(1) new
      by (auto simp: ups_new_def thread_ops_ghost_def Let_def dom_def)
    then show ?thesis using TAcquireWrite len(2) r(1) by simp
  next
    case (TDistribute k idx)
    show ?thesis
    proof (cases idx)
      case 0
      then have cm: "all_collected (fc_combiner fc) 0 (rp_num_ops rp) ?p" "responding (fc_combiner fc) 0 ?p"
        using TDistribute combinerD(3) [OF r(10) t] by simp_all
      then obtain elems where e: "fc_combiner fc = FCResponding elems 0" "length elems = MAX_THREADS_PER_REPLICA"
          "np_rids ?p = somes elems" "rp_num_ops rp = op_counts elems" "np_pc ?p = NRespond 0"
        by (auto simp: all_collected_def collected_def responding_def)
      have dn: "ups_done ?p 0 (ul_local_updates g)" using pc e(5) by auto
      have "distribute_thread_resps_pre ?td fci inst (rp_num_ops rp) (np_responses (rp_node rp)) cell"
        unfolding distribute_thread_resps_pre_def
        using collected_shared [OF rr e(1,2,4)] collected_rids [of fc elems 0 rp] e(1,3) r(1) dn
        by (auto simp: ups_done_def thread_ops_ghost_def Let_def)
      then show ?thesis using TDistribute 0 by simp
    qed (simp add: TDistribute)
  next
    case (TUnlock k)
    then have "combiner_free (fc_combiner fc) (rp_num_ops rp) ?p" using combinerD(3) [OF r(10) t] by simp
    then show ?thesis using TUnlock
      by (simp add: distribute_thread_resps_post_def thread_ops_ghost_def Let_def combiner_free_def)
  qed simp_all
qed

section \<open>The data\<close>

definition replicated_data ::
    "'i \<Rightarrow> 'j \<Rightarrow> ('r, 'w, 'v, 'resp) UnboundedLog \<Rightarrow> 'w CyclicBuffer \<Rightarrow> NodeId \<Rightarrow> 'v \<Rightarrow> ('i, 'j, 'w, 'v) ReplicatedDataStructure" where
  "replicated_data inst cb g c n d =
     \<lparr>rd_data = d, rd_replica = \<lparr>tok_instance = inst, tok_key = n, tok_value = the (ul_replicas g n)\<rparr>,
      rd_combiner = \<lparr>tok_instance = inst, tok_key = n, tok_value = the (ul_combiner g n)\<rparr>,
      rd_cb_combiner = \<lparr>tok_instance = cb, tok_key = n, tok_value = the (cb_combiner c n)\<rparr>\<rparr>"

text \<open>While the data is in the lock the combiner of the replica is not inside an operation of the log.\<close>

lemma data_in_lock:
  assumes rr: "system_replica_rel s n fc rp" and d: "rl_data (rp_data rp) = Some d"
  shows "np_pc (ns_nodes s ! n) \<in> {NIdle, NCollect, NRelease} \<union> range NRespond"
proof -
  obtain k where k: "k = None \<Longrightarrow> combiner_free (fc_combiner fc) (rp_num_ops rp) (ns_nodes s ! n)"
      "\<And>t. k = Some t \<Longrightarrow> t < MAX_THREADS_PER_REPLICA \<and> combine_rel (fc_combiner fc) (rp_num_ops rp) (ns_nodes s ! n)
         (rl_data (rp_data rp)) (th_lock (rp_threads rp ! t)) (nth (rp_contexts rp))
         (\<lambda>t. ns_updates s (th_rid (rp_threads rp ! t))) (th_pc (rp_threads rp ! t))"
    using replica_relD(10) [OF rr] unfolding combiner_rel_def by blast
  show ?thesis
  proof (cases k)
    case (Some t)
    with k(2) [OF Some] d show ?thesis
      by (cases "th_pc (rp_threads rp ! t)") (auto simp: responding_def combiner_free_def)
  qed (use k(1) in \<open>simp add: combiner_free_def\<close>)
qed

lemma data_keeps_wf:
  assumes rr: "system_replica_rel s n fc rp" and sr: "system_rel s g c" and n: "n < length (ns_nodes s)"
    and d: "rl_data (rp_data rp) = Some d"
  shows "replicated_data_wf (replicated_data inst cb g c n d) n inst cb"
proof -
  obtain u v where rep: "ul_replicas g n = Some (np_data (ns_nodes s ! n))"
    and u: "ul_combiner g n = Some u" "cb_combiner c n = Some v"
    and pc: "pc_rel (ul_num_replicas g) (ul_tail g) (ul_log g) (nl_slog (ns_log s)) n (ns_nodes s ! n) u v
      (ul_local_updates g) (np_pc (ns_nodes s ! n))"
    using system_relD(3) [OF sr n] by (auto simp: node_rel_def)
  have "u = CReady \<and> v = CBIdle" using data_in_lock [OF rr d] pc by auto
  then show ?thesis
    using rep u replica_relD(9) [OF rr d] by (simp add: replicated_data_wf_def replicated_data_def)
qed

text \<open>The replicas of a new data structure are configured as their constructor requires.\<close>

definition replica_config :: "('i, 'j, 'w, 'v) NrLogTokens \<Rightarrow> NodeId \<Rightarrow> ('i, 'j, 'w, 'v) ReplicaConfig" where
  "replica_config tk n =
     \<lparr>rc_replica = the (lt_replicas tk n), rc_combiner = the (lt_combiners tk n), rc_cb_combiner = the (lt_cb_combiners tk n),
      rc_unbounded_log_instance = lt_unbounded_log_instance tk, rc_cyclic_buffer_instance = lt_cyclic_buffer_instance tk\<rparr>"

lemma replica_config_ok:
  assumes "nrlog_tokens_wf D ul_num cb_num tk N" and "n < N"
    and "log_of (lt_cyclic_buffer_instance tk) = lt_unbounded_log_instance tk"
  shows "replica_config_wf D ul_num cb_num log_of (replica_config tk n) n"
  using assms by (simp add: replica_config_wf_def replica_config_def nrlog_tokens_wf_def)

section \<open>Every run\<close>

text \<open>
  The invariants of replica \<open>rp\<close> of node \<open>n\<close>, and the contracts of its operations: \<open>cell t\<close> is the
  memory cell of context \<open>t\<close>, and \<open>inst\<close>, \<open>cb\<close> and \<open>fci\<close> name the three machines.
\<close>

definition replica_invariants where
  "replica_invariants inst cb fci cell ops counts resps g c fc n rp \<longleftrightarrow>
     (\<forall>t<MAX_THREADS_PER_REPLICA.
        context_ghost_inv (context_ghost inst fci (cell t) (ul_local_updates g) t (the (fc_slots fc t)) (rp_contexts rp ! t))
          (cx_atomic (rp_contexts rp ! t)) t (cell t) fci inst) \<and>
     combiner_atomic_inv (rp_combiner rp) (combiner_lock_ghost fci (ops, counts, resps) fc rp) fci resps ops counts \<and>
     (\<forall>d. rl_data (rp_data rp) = Some d \<longrightarrow> replicated_data_wf (replicated_data inst cb g c n d) n inst cb)"

definition replica_contracts where
  "replica_contracts inst fci cell g fc rp \<longleftrightarrow>
     (\<forall>t<MAX_THREADS_PER_REPLICA.
        client_contract inst fci (cell t)
          (client_ghost inst fci (cell t) (ul_local_updates g) t (th_rid (rp_threads rp ! t)) (the (fc_clients fc t)) (rp_contexts rp ! t))
          t (th_rid (rp_threads rp ! t)) (th_pc (rp_threads rp ! t)) \<and>
        combiner_contract inst fci cell (thread_ops_ghost inst fci cell (ul_local_updates g) fc rp) (rp_num_ops rp) (rp_node rp)
          (th_pc (rp_threads rp ! t)))"

text \<open>The machines of a run: the unbounded log has its calls and returns, the other two are reachable.\<close>

definition run_machines ::
    "('r, 'w, 'v, 'resp) Dispatch \<Rightarrow> nat \<Rightarrow> ('r, 'w, 'resp) AsyncLabel list \<Rightarrow> ('r, 'w, 'v, 'resp) UnboundedLog \<Rightarrow>
     'w CyclicBuffer \<Rightarrow> FlatCombiner \<Rightarrow> bool" where
  "run_machines D N ls g c fc \<longleftrightarrow>
     (\<exists>ks. ul_behavior D N ks g \<and> visible ks = visible ls) \<and> cb_reachable c \<and> fc_reachable MAX_THREADS_PER_REPLICA fc"

lemma replica_keeps_invariants:
  assumes rr: "system_replica_rel s n fc rp" and sr: "system_rel s g c" and n: "n < length (ns_nodes s)"
  shows "replica_invariants inst cb fci cell ops counts resps g c fc n rp"
proof -
  have "context_ghost_inv (context_ghost inst fci (cell t) (ul_local_updates g) t (the (fc_slots fc t)) (rp_contexts rp ! t))
      (cx_atomic (rp_contexts rp ! t)) t (cell t) fci inst" if t: "t < MAX_THREADS_PER_REPLICA" for t
  proof -
    obtain x where x: "fc_slots fc t = Some x" "slot_rel (th_rid (rp_threads rp ! t)) (rp_contexts rp ! t)
        (ns_updates s (th_rid (rp_threads rp ! t))) x"
      using thread_relD(2) [OF replica_relD(11) [OF rr t]] by blast
    show ?thesis unfolding x(1) option.sel by (rule context_ghost_keeps_inv [OF x(2)]) (rule system_relD(4) [OF sr])
  qed
  then show ?thesis
    unfolding replica_invariants_def by (intro conjI allI impI combiner_lock_keeps_inv [OF rr sr n] data_keeps_wf [OF rr sr n])
qed

lemma replica_keeps_contracts:
  assumes rr: "system_replica_rel s n fc rp" and sr: "system_rel s g c" and n: "n < length (ns_nodes s)"
  shows "replica_contracts inst fci cell g fc rp"
  unfolding replica_contracts_def
proof (intro allI impI conjI)
  fix t assume t: "t < MAX_THREADS_PER_REPLICA"
  show "combiner_contract inst fci cell (thread_ops_ghost inst fci cell (ul_local_updates g) fc rp) (rp_num_ops rp) (rp_node rp)
      (th_pc (rp_threads rp ! t))"
    by (rule combiner_keeps_contract [OF rr sr n t])
  have "t < fc_num_threads fc" using replica_relD(4) [OF rr] t by simp
  then obtain cl where cl: "fc_clients fc t = Some cl" using fc_okD(5) [OF replica_fc_ok [OF rr]] by blast
  note th = thread_relD(1) [OF replica_relD(11) [OF rr t], unfolded cl]
  show "client_contract inst fci (cell t)
      (client_ghost inst fci (cell t) (ul_local_updates g) t (th_rid (rp_threads rp ! t)) (the (fc_clients fc t)) (rp_contexts rp ! t))
      t (th_rid (rp_threads rp ! t)) (th_pc (rp_threads rp ! t))"
    unfolding cl option.sel by (rule client_keeps_contract [OF th]) (rule system_relD(4) [OF sr])
qed

lemma program_replica_contracts:
  assumes run: "program_behavior D N ls nr" and n: "n < length (nr_replicas nr)"
  shows "\<exists>g c fc. run_machines D N ls g c fc \<and>
    replica_invariants inst cb fci cell ops counts resps g c fc n (nr_replicas nr ! n) \<and>
    replica_contracts inst fci cell g fc (nr_replicas nr ! n)"
proof -
  obtain s fc ks g c where rr: "system_replica_rel s n fc (nr_replicas nr ! n)" and sr: "system_rel s g c"
    and ks: "ul_behavior D N ks g" "visible ks = visible ls" and c: "cb_reachable c" and ns: "n < length (ns_nodes s)"
    by (rule program_ghosts [OF run n])
  have "run_machines D N ls g c fc"
    using ks c replica_relD(7) [OF rr] by (auto simp: run_machines_def)
  then show ?thesis
    by (intro exI [of _ g] exI [of _ c] exI [of _ fc] conjI replica_keeps_invariants [OF rr sr ns] replica_keeps_contracts [OF rr sr ns])
qed

end
