(* ===== verification/NR_Contracts_Properties.thy ===== *)
theory NR_Contracts_Properties
  imports NR_Contracts_Sim NR_Exec_Example
begin

text \<open>
  The ghost invariants and the contracts of the source hold in every run of the library. The
  witnesses are points of the increment of \<open>NR_Exec_Example\<close>.
\<close>

lemma ex_vis1_machines:
  assumes "run_machines D N ls g c fc" and "visible ls = ex_vis1"
  shows "run_machines D N ex_vis1 g c fc"
  using assms by (auto simp: run_machines_def ex_vis1_def)

text \<open>
  C13. The ghost invariants of a replica hold at all times: whatever its threads are doing, each
  context agrees with its slot of the flat combiner and holds exactly the request or the response
  the slot says, the combiner's buffers are empty while its lock is free, and the data in the
  reader-writer lock is the replica of the log, whose combiner is idle.
\<close>

theorem replica_ghost_invariants_hold:
  assumes "program_behavior D N ls nr" and "n < length (nr_replicas nr)"
  shows "\<exists>g c fc. run_machines D N ls g c fc \<and>
    replica_invariants inst cb fci cell ops counts resps g c fc n (nr_replicas nr ! n)"
  using program_replica_contracts [OF assms, of inst cb fci cell ops counts resps] by blast

theorem replica_ghost_invariants_hold_witness:
  "\<exists>g c fc. run_machines counter_dispatch 1 ex_vis1 g c fc \<and>
     context_ghost_inv (context_ghost () () 0 (ul_local_updates g) 63 (the (fc_slots fc 63)) ex_full) 1 63 0 () ()"
proof -
  obtain ls where ls: "program_behavior counter_dispatch 1 ls (ex_at ex_full (TTryLoad TryUpdate))" "visible ls = ex_vis1"
    using ex_pending_reached by (auto simp: ex_runs_def)
  obtain g c fc where gs: "run_machines counter_dispatch 1 ls g c fc" "replica_invariants () () () (\<lambda>_. 0) 0 0 0 g c fc 0
      (ex_rp 0 ex_full [] (ex_data (Some counter_init_spec) False) (ex_node NIdle [] [] [] counter_init_spec) (ex_th (TTryLoad TryUpdate) LIdle))"
    using replica_ghost_invariants_hold [OF ls(1), of 0 "()" "()" "()" "\<lambda>_. 0" 0 0 0] by (auto simp: ex_at_def)
  have one: "cx_atomic (ex_full :: (IncTwo, OpResult) Context) = 1" by (simp add: ex_full_def)
  have "context_ghost_inv (context_ghost () () 0 (ul_local_updates g) 63 (the (fc_slots fc 63)) ex_full) 1 63 0 () ()"
    using gs(2) [unfolded replica_invariants_def, THEN conjunct1, rule_format, of 63] one by simp
  then show ?thesis using ex_vis1_machines [OF gs(1) ls(2)] by (intro exI [of _ g] exI [of _ c] exI [of _ fc]) simp
qed

text \<open>
  C12. The operations of a replica keep their contracts: a thread enqueues its operation and waits
  for the response with the ghost state \<^verbatim>\<open>enqueue_op\<close> and \<^verbatim>\<open>dequeue_response\<close> ask for and
  promise, and the combiner delivers exactly to the threads it has collected from.
\<close>

theorem replica_operations_keep_contracts:
  assumes "program_behavior D N ls nr" and "n < length (nr_replicas nr)"
  shows "\<exists>g c fc. run_machines D N ls g c fc \<and> replica_contracts inst fci cell g fc (nr_replicas nr ! n)"
  using program_replica_contracts [OF assms, of inst "()" fci cell 0 0 0] by blast

theorem replica_operations_keep_contracts_witness:
  "\<exists>g c fc. run_machines counter_dispatch 1 ex_vis1 g c fc \<and>
     distribute_thread_resps_pre (thread_ops_ghost () () id (ul_local_updates g) fc
       (ex_rp 2 ex_taken ex_ops (ex_data (Some ex_counters3) False) (ex_respond 0) (ex_th (TDistribute TryUpdate 0) LIdle)))
       () () ex_ops [OpOk] id"
proof -
  obtain ls where ls: "program_behavior counter_dispatch 1 ls (ex_after 2 ex_taken ex_ops (ex_respond 0) (TDistribute TryUpdate 0))"
      "visible ls = ex_vis1"
    using ex_released by (auto simp: ex_runs_def)
  obtain g c fc where gs: "run_machines counter_dispatch 1 ls g c fc" "replica_contracts () () id g fc
      (ex_rp 2 ex_taken ex_ops (ex_data (Some ex_counters3) False) (ex_respond 0) (ex_th (TDistribute TryUpdate 0) LIdle))"
    using replica_operations_keep_contracts [OF ls(1), of 0 "()" "()" id] by (auto simp: ex_after_def)
  show ?thesis
    using gs(2) [unfolded replica_contracts_def, rule_format, of 63] ex_vis1_machines [OF gs(1) ls(2)]
    by (intro exI [of _ g] exI [of _ c] exI [of _ fc]) simp
qed

text \<open>A call of \<^verbatim>\<open>execute\<close>: the combiner of the example applies the request it has just appended.\<close>

lemma ex_work_node [simp]: "node_of (ex_work l p) 0 = p"
  by (simp add: ex_locked_def)

lemma ex_execute_call:
  "log_call counter_dispatch 0 (ExecuteCall FromCombine) (ex_work (ex_nrlog (ex_appended_entry False) 0 1 0) (ex_todo (AFlip 0 0 False)))
     Internal (ex_work (ex_full_log 0 0) (ex_todo (ELoadLocal FromCombine))) (replicate 6 Internal)
     (ex_work (ex_full_log 1 1) (ex_applied NRelease))"
proof -
  let ?inside = "program_inside counter_dispatch 0 (call_inside (ExecuteCall FromCombine))
    (ex_work (ex_full_log 0 0) (ex_todo (ELoadLocal FromCombine)))"
  note step = ex_execute_steps [THEN ex_work_step [rotated], THEN inside_step [rotated 2, where Q = "call_inside (ExecuteCall FromCombine)"]]
  have "?inside [] (ex_work (ex_full_log 0 0) (ex_todo (ELoadLocal FromCombine)))" by (rule inside_here)
  then have "?inside ((([] @ [Internal]) @ [Internal]) @ [Internal]) (ex_work (ex_full_log 0 0) (ex_todo (ERead FromCombine 0 1)))"
    by (intro step(1-3)) simp_all
  then have "?inside ((((([] @ [Internal]) @ [Internal]) @ [Internal]) @ [Internal]) @ [Internal] @ [Internal])
      (ex_work (ex_full_log 1 1) (ex_applied NRelease))"
    unfolding append_assoc [symmetric] by (intro step(4-6)) simp_all
  then show ?thesis
    using ex_append_ends by (simp add: log_call_def execute_return_def numeral_eq_Suc)
qed

text \<open>
  C11. The operations of the log keep their contracts, whatever the other threads do meanwhile: a
  call of \<^verbatim>\<open>append\<close>, of \<^verbatim>\<open>advance_head\<close> or of \<^verbatim>\<open>execute\<close>, from any of its
  three callers, starts with the ghost data its \<^verbatim>\<open>requires\<close> clause asks for, and when it returns
  the ghost data is related to that of the call as its \<^verbatim>\<open>ensures\<close> clause says. In particular
  \<^verbatim>\<open>advance_head\<close> returns with every request answered or with requests, replica and responses as
  it found them, and \<^verbatim>\<open>execute\<close> answers requests that are placed and leaves answered ones alone.
\<close>

theorem log_operations_keep_contracts:
  assumes "program_behavior D N ls nr" and "n < length (nr_replicas nr)" and "log_call D n op nr l nr0 ms nr1"
  shows "\<exists>ks0 g0 c0 ks1 g1 c1.
    ul_behavior D N ks0 g0 \<and> visible ks0 = visible (ls @ [l]) \<and> cb_reachable c0 \<and>
    ul_behavior D N ks1 g1 \<and> visible ks1 = visible (ls @ [l] @ ms) \<and> cb_reachable c1 \<and> ul_steps D g0 g1 \<and>
    call_pre op inst cb_inst (exec_ghost inst cb_inst g0 c0 n (call_rids op (node_of nr0 n))) n (node_of nr0 n) \<and>
    call_post op inst cb_inst (exec_ghost inst cb_inst g1 c1 n (call_rids op (node_of nr1 n)))
      (exec_ghost inst cb_inst g0 c0 n (call_rids op (node_of nr0 n))) n (node_of nr0 n) (node_of nr1 n)"
  by (rule program_log_call [OF assms])

theorem log_operations_keep_contracts_witness:
  "\<exists>ks0 g0 c0 ks1 g1 c1.
     ul_behavior counter_dispatch 1 ks0 g0 \<and> visible ks0 = ex_vis1 \<and> ul_steps counter_dispatch g0 g1 \<and>
     ul_behavior counter_dispatch 1 ks1 g1 \<and> visible ks1 = ex_vis1 \<and>
     pre_exec (exec_ghost () () g0 c0 0 [exec_rid]) ([] :: OpResult list) \<and>
     post_exec (exec_ghost () () g1 c1 0 [exec_rid]) [exec_rid] [OpOk]"
proof -
  obtain ls where ls: "program_behavior counter_dispatch 1 ls
      (ex_work (ex_nrlog (ex_appended_entry False) 0 1 0) (ex_todo (AFlip 0 0 False)))" "visible ls = ex_vis1"
    using ex_written by (auto simp: ex_runs_def)
  obtain ks0 g0 c0 ks1 g1 c1 where m: "ul_behavior counter_dispatch 1 ks0 g0" "visible ks0 = ex_vis1" "ul_steps counter_dispatch g0 g1"
      "ul_behavior counter_dispatch 1 ks1 g1" "visible ks1 = ex_vis1"
      "execute_pre (exec_ghost () () g0 c0 0 [exec_rid]) 0 counter_init_spec ([] :: OpResult list) () ()"
      "execute_post (exec_ghost () () g1 c1 0 [exec_rid]) (exec_ghost () () g0 c0 0 [exec_rid]) 0 ex_counters3 [] [OpOk] () ()"
    using log_operations_keep_contracts [OF ls(1) _ ex_execute_call, of "()" "()"] ls(2)
    by (auto simp: ex_locked_def call_rids_def numeral_eq_Suc)
  from m(6) have pre: "is_Placed (the (ul_combiner g0 0))" "pre_exec (exec_ghost () () g0 c0 0 [exec_rid]) ([] :: OpResult list)"
    by (auto simp: execute_pre_def)
  then have "post_exec (exec_ghost () () g1 c1 0 [exec_rid]) [exec_rid] [OpOk]" using m(7) by (simp add: execute_post_def)
  then show ?thesis using m(1-5) pre(2) by blast
qed

end
