(* ===== verification/Spec2Isabelle.thy ===== *)
theory Spec2Isabelle
  imports PT_Indexing PT_Ispec MMU_Atomic OS_Properties OS_Trace NR_Client_Properties NR_Contracts_Properties
begin

text \<open>
  A model of the verified page table and of the node replication library of this repository.

  \<^bold>\<open>The page table\<close> (\<^verbatim>\<open>page-table/\<close>). Three layers describe one x86-64 page table: a
  flat map from addresses to entries (\<^verbatim>\<open>impl_u/l0.rs\<close>), a tree of directories
  (\<^verbatim>\<open>impl_u/l1.rs\<close>) and the table in physical memory with the code that changes it
  (\<^verbatim>\<open>impl_u/l2_impl.rs\<close>). Above it the operating system (\<^verbatim>\<open>spec_t/os.rs\<close>) runs
  map and unmap on several cores over the hardware (\<^verbatim>\<open>spec_t/hardware.rs\<close>), whose cores
  have TLBs, and processes see the specification of \<^verbatim>\<open>spec_t/hlspec.rs\<close>.

    \<^item> \<open>PT_Prelude\<close>, \<open>PT_Definitions\<close>, \<open>PT_Arch\<close>: words and bits, regions and flags
      (\<^verbatim>\<open>definitions_t.rs\<close>), the description of the levels and its index arithmetic
      (\<^verbatim>\<open>definitions_u.rs\<close>); \<open>PT_Indexing\<close>: the same arithmetic for any page size
      (\<^verbatim>\<open>impl_u/indexing.rs\<close>). Addresses are natural numbers where the source has
      \<^verbatim>\<open>nat\<close> and 64-bit words where it has \<^verbatim>\<open>usize\<close> or \<^verbatim>\<open>u64\<close>; the index
      computations are proved not to overflow.
    \<^item> \<open>PT_Contents\<close>: the flat table. \<open>PT_Directory\<close>, \<open>PT_Directory_Wf\<close>,
      \<open>PT_Directory_Interp\<close>, \<open>PT_Directory_Refine\<close>: the tree, its invariant, its
      interpretation as a flat table, and the refinement of map, unmap and resolve.
    \<^item> \<open>PT_Entry\<close>, \<open>PT_Memory\<close>, \<open>PT_Impl\<close>: entries bit by bit, physical memory with
      its regions (\<^verbatim>\<open>spec_t/mem.rs\<close>), and the executable operations. They return
      \<open>option\<close>, where \<open>None\<close> is a violated precondition of memory access, over results with
      the error of the source. Recursion is on the level, of which there are four, so there is
      no fuel. Allocation and release of pages have no body in the source: they are
      parameters with their contracts as hypotheses (locale \<open>page_table\<close> of
      \<open>PT_Interface\<close> states what an implementation must satisfy).
    \<^item> \<open>PT_Impl_Inv\<close>, \<open>PT_Impl_Slots\<close>, \<open>PT_Impl_Step\<close>, \<open>PT_Impl_Map\<close>,
      \<open>PT_Impl_Unmap\<close>, \<open>PT_Impl_Correct\<close>: the invariant between memory and ghost tree,
      its preservation, and the refinement of the tree by the code. \<open>PT_Walk\<close>,
      \<open>PT_Walk_Refine\<close>: the walk of the MMU over the same memory finds the mappings of
      the tree. \<open>PT_Spec\<close>: the page table as the state machine the system uses
      (\<^verbatim>\<open>impl_u/spec_pt.rs\<close>). \<open>PT_Example\<close>, \<open>PT_Properties\<close>: a concrete table and
      the properties of the page table.
    \<^item> \<open>PT_Ispec\<close>: the table as its users call it (the interface at the end
      of \<^verbatim>\<open>impl_u/l2_refinement.rs\<close>), an instance of \<open>page_table\<close>: sequences of requests
      from boot on are answered like a map of entries.
    \<^item> \<open>HL_Spec\<close>, \<open>HL_Invariant\<close>: the process-level specification and its invariant
      (\<^verbatim>\<open>spec_t/hlspec.rs\<close>, \<^verbatim>\<open>spec_t/hlproof.rs\<close>). \<open>HW_Machine\<close>, \<open>OS_Machine\<close>:
      hardware and operating system.
    \<^item> \<open>OS_Invariant\<close>, \<open>OS_Interp\<close>, \<open>OS_Refinement\<close>, \<open>OS_Progress\<close>: the
      inductive invariant (with the TLB protocol, which the source leaves out of its
      invariant), the interpretation, the simulation of every step by the process-level step,
      memory accesses included, and the progress of a shootdown. \<open>OS_Example\<close>,
      \<open>OS_Properties\<close>: a concrete run with a map, an unmap and a shootdown, and the
      properties of the system. \<open>OS_Progress\<close> also has the overlap invariant over the values of the map
      of core states, the existence of a shootdown's data, and that what a map in flight collides
      with stays in place until it ends.
    \<^item> \<open>HL_User\<close>, \<open>OS_Trace\<close>: the example programs of \<^verbatim>\<open>hlspec_user.rs\<close> and
      \<^verbatim>\<open>os_trace.rs\<close>, with every step they assert. \<open>MMU_Atomic\<close>: the planned MMU with
      delayed writes (\<^verbatim>\<open>spec_t/atomic_mmu.rs\<close>): which reads its fence makes current as the
      condition of the code has it, and that it is not the case the comments describe.

  \<^bold>\<open>Node replication\<close> (\<^verbatim>\<open>verified-node-replication/src/\<close>). A sequential data
  structure, a parameter here as it is in the source (record \<open>Dispatch\<close>), is replicated; a
  combiner per replica appends updates to a shared log and applies the log. The state
  machines of \<^verbatim>\<open>spec/\<close> are modelled completely: each transition is a partial
  function, \<open>None\<close> where a requirement of the transition fails, and an inductive relation
  collects them. In the tokenized machines \<^verbatim>\<open>remove\<close> and \<^verbatim>\<open>have\<close> are lookups
  that must succeed and \<^verbatim>\<open>add\<close> is an update; that what is added or deposited was
  absent, what is withdrawn was present, and the assertions of the source hold, are lemmas.

    \<^item> \<open>NR_Types\<close>, \<open>NR_Counter\<close>: shared types; the trait \<^verbatim>\<open>Dispatch\<close> as a locale
      and the replicated counters of \<^verbatim>\<open>counter.rs\<close> as its interpretation.
    \<^item> \<open>NR_Simple_Log\<close>, \<open>NR_Linearization\<close>: the abstract log and its
      linearizability, by a simulation that goes backwards through a behaviour and carries
      the versions at which pending reads will finish. The statement
      (\<^verbatim>\<open>AsynchronousSingleton\<close>, \<^verbatim>\<open>behavior_equiv\<close>) is commented out in \<^verbatim>\<open>lib.rs\<close> and
      \<^verbatim>\<open>spec/linearization.rs\<close> is not compiled; here it is proved for the machine as it is.
      \<open>NR_Refinement_Relation\<close>: the relation the source keeps along the behaviour.
    \<^item> \<open>NR_Unbounded_Log\<close>, \<open>NR_Unbounded_Inv\<close>, \<open>NR_Unbounded_Steps\<close>,
      \<open>NR_Log_Refines\<close>: the log with replicas and combiners, its
      invariant, the refinement interface of \<^verbatim>\<open>lib.rs\<close> as a locale, and its
      interpretation by the source's interpretation function.
    \<^item> \<open>NR_Cyclic_Buffer\<close>, \<open>NR_Cyclic_Inv\<close>: the bounded buffer behind the log, with
      head, tail, alive bits and readers.
    \<^item> \<open>NR_Flat_Combiner\<close>, \<open>NR_RwLock\<close>: how threads hand requests to the combiner,
      and the lock around a replica.
    \<^item> \<open>NR_Example\<close>, \<open>NR_Properties\<close>: concrete runs and the properties.
    \<^item> \<open>NR_Client\<close>: what the clients of a linearizable data structure learn, as a locale;
      \<open>NR_Client_Properties\<close> interprets it on the logs and on the library's code.
    \<^item> \<open>NR_Serves_Log\<close>, \<open>NR_Serves_Replica\<close>, \<open>NR_Serves_Program\<close>: a thread that runs alone
      returns from its call, followed step by step through the code, so every sequence of
      requests is answered. The log is not collected in these runs; \<open>SERVE_BOUND\<close> is the number
      of entries it holds before that is needed.

  \<^bold>\<open>The executable code of node replication\<close> (\<^verbatim>\<open>exec/\<close>). Threads interleave at
  every access to shared memory. Each function is a step function on program points that carry
  its local variables; \<open>None\<close> is a panic. The ghost tokens of the source are relations here,
  between the code and the state machines above. A loop that may run forever is a program
  point that is left only when its condition holds, so there is no fuel.

    \<^item> \<open>NR_Exec_RwLock\<close>: the lock of \<^verbatim>\<open>exec/rwlock.rs\<close> and its refinement of
      \<open>NR_RwLock\<close>: exclusion, counts that stay in range, no operation stuck.
    \<^item> \<open>NR_Exec_Log\<close>: \<^verbatim>\<open>exec/log.rs\<close>, with the combiner of a replica and its requests
      as one component (\<open>system_step\<close>). \<open>NR_Exec_Coupling\<close>, \<open>NR_Exec_Append\<close>,
      \<open>NR_Exec_Execute\<close>, \<open>NR_Exec_Refines\<close>: every step is matched by steps of the
      unbounded log and of the cyclic buffer together, so the bounded array with its alive
      bits implements the log.
    \<^item> \<open>NR_Exec_Replica\<close>: contexts (\<^verbatim>\<open>exec/context.rs\<close>), replicas with their threads
      and combiner lock (\<^verbatim>\<open>exec/replica.rs\<close>), and the replicated data structure
      (\<^verbatim>\<open>exec/mod.rs\<close>); \<open>program_step\<close> and \<open>program_behavior\<close> run all of it.
      \<open>NR_Exec_Threads\<close>: what each program point means for the flat combiner of the replica,
      the lock and the requests. \<open>NR_Exec_Threads_Sim\<close>, \<open>NR_Exec_Threads_Steps\<close>,
      \<open>NR_Exec_Collect\<close>: every step of a thread keeps it. \<open>NR_Exec_Program\<close>: every run of
      the program is one of \<open>NR_Exec_Log\<close>, so it is linearizable. \<open>NR_Exec_Progress\<close>: no
      thread is ever stuck. \<open>NR_Exec_Guarantees\<close>: who owns the data, and whose response is
      delivered where. \<open>NR_Tickets\<close>: the contract of the trait \<^verbatim>\<open>NodeReplicatedT\<close>, tickets
      and stubs being tokens of the simulated log. \<open>NR_Exec_Example\<close>, \<open>NR_Exec_Properties\<close>:
      an increment from its call to its return, and the properties.
    \<^item> \<open>NR_Contracts_Log\<close>, \<open>NR_Contracts_Replica\<close>: the ghost data of
      \<^verbatim>\<open>exec/\<close> as records of tokens, with the pre- and postconditions of \<^verbatim>\<open>append\<close>,
      \<^verbatim>\<open>advance_head\<close>, \<^verbatim>\<open>execute\<close>, \<^verbatim>\<open>enqueue_op\<close>, \<^verbatim>\<open>dequeue_response\<close> and of
      collecting and distributing, and the invariants of contexts, combiner lock, replicated data
      and of the tokens of a new log. \<open>NR_Contracts_Sim\<close>, \<open>NR_Contracts_Properties\<close>: the ghost
      data read off the simulated machines satisfies them at every point of every run. For the
      operations of the log a call is followed through all steps of the program from its entry to
      its return (\<open>log_call\<close>), so the postconditions speak of the ghost data of the call.

  \<^bold>\<open>Not modelled.\<close> Of \<^verbatim>\<open>exec/\<close>, the messages printed on starvation, the memory
  affinity of allocations and the cache padding; that a client presents a thread token of the
  right replica is a condition of a call. Ghost tokens are not passed along by the modelled
  code but read off the simulated machines, so the instance and the key of a token are those it
  is read with. Functions without a body in the source (allocation of pages, parts of
  \<^verbatim>\<open>atomic_mmu.rs\<close>) are parameters. The rest of the source is proof functions, whose
  counterparts are the lemmas here; benchmarks, tools and notes.
\<close>

end
